(* ===== verification/Prelude.thy ===== *)
theory Prelude
  imports Complex_Main "HOL-Library.AList" "HOL-Library.Word" "HOL-Library.Sublist"
    "HOL-Library.Code_Target_Nat"
begin

text \<open>
  Shared ground of the development: IEEE comparisons on \<open>float64\<close>, the wrap-around
  of \<open>int64\<close>, the types every component names (identifiers, instants, durations) and
  generic lemmas on lists and association lists. Nothing here models code of the
  repository; the theories that do import it.
\<close>

section \<open>Theorem collections\<close>

named_theorems wp_simps \<open>symbolic execution of the state and error monad\<close>
named_theorems store_defs \<open>the repository operations\<close>
named_theorems frame_simps \<open>what an operation leaves alone\<close>

section \<open>Identifiers, instants and durations\<close>

text \<open>A \<open>uuid.UUID\<close> is an array of 16 bytes; \<open>uuid.Nil\<close> is the zero array.\<close>

type_synonym uuid = "128 word"

definition uuid_nil :: uuid where
  "uuid_nil = 0"

text \<open>
  \<open>time.Time\<close> is the number of nanoseconds since the Unix epoch, \<open>time.Duration\<close> a
  number of nanoseconds. The zero \<open>time.Time\<close> is the first instant of year 1.
\<close>

type_synonym instant = int
type_synonym duration = int

definition ns_second :: duration where "ns_second = 1000000000"
definition ns_minute :: duration where "ns_minute = 60 * ns_second"
definition ns_hour :: duration where "ns_hour = 60 * ns_minute"

definition zero_time :: instant where
  "zero_time = - 62135596800 * ns_second"

lemma ns_units [simp]:
  "ns_second = 1000000000"
  "ns_minute = 60000000000"
  "ns_hour = 3600000000000"
  by (simp_all add: ns_second_def ns_minute_def ns_hour_def)

section \<open>Fixed-width integers\<close>

text \<open>The value of an \<open>int64\<close> expression: two's complement wrap-around.\<close>

definition wrap64 :: "int \<Rightarrow> int" where
  "wrap64 n = (n + 2 ^ 63) mod 2 ^ 64 - 2 ^ 63"

lemma wrap64_id: "- (2 ^ 63) \<le> n \<Longrightarrow> n < 2 ^ 63 \<Longrightarrow> wrap64 n = n"
  by (simp add: wrap64_def)

lemma wrap64_range: "- (2 ^ 63) \<le> wrap64 n \<and> wrap64 n < 2 ^ 63"
proof -
  have "0 \<le> (n + 2 ^ 63) mod 2 ^ 64" "(n + 2 ^ 63) mod 2 ^ 64 < 2 ^ 64"
    by simp_all
  then show ?thesis by (simp add: wrap64_def)
qed

text \<open>Go's integer division truncates toward zero.\<close>

definition go_div :: "int \<Rightarrow> int \<Rightarrow> int" where
  "go_div a b = sgn a * sgn b * (\<bar>a\<bar> div \<bar>b\<bar>)"

section \<open>float64\<close>

text \<open>
  A \<open>float64\<close> is a finite value or one of the three special ones. Comparisons follow
  IEEE 754: every comparison with a NaN is false. Finite arithmetic is exact: rounding
  is not modelled.
\<close>

datatype f64 = Fin rat | PInf | NInf | NaN

fun f64_lt :: "f64 \<Rightarrow> f64 \<Rightarrow> bool" where
  "f64_lt (Fin a) (Fin b) = (a < b)"
| "f64_lt (Fin _) PInf = True"
| "f64_lt NInf (Fin _) = True"
| "f64_lt NInf PInf = True"
| "f64_lt _ _ = False"

fun f64_eq :: "f64 \<Rightarrow> f64 \<Rightarrow> bool" where
  "f64_eq (Fin a) (Fin b) = (a = b)"
| "f64_eq PInf PInf = True"
| "f64_eq NInf NInf = True"
| "f64_eq _ _ = False"

definition f64_le :: "f64 \<Rightarrow> f64 \<Rightarrow> bool" where
  "f64_le a b \<longleftrightarrow> f64_lt a b \<or> f64_eq a b"

fun f64_is_nan :: "f64 \<Rightarrow> bool" where
  "f64_is_nan NaN = True"
| "f64_is_nan _ = False"

fun f64_is_inf :: "f64 \<Rightarrow> bool" where
  "f64_is_inf PInf = True"
| "f64_is_inf NInf = True"
| "f64_is_inf _ = False"

fun f64_add :: "f64 \<Rightarrow> f64 \<Rightarrow> f64" where
  "f64_add (Fin a) (Fin b) = Fin (a + b)"
| "f64_add NaN _ = NaN"
| "f64_add _ NaN = NaN"
| "f64_add PInf NInf = NaN"
| "f64_add NInf PInf = NaN"
| "f64_add PInf _ = PInf"
| "f64_add _ PInf = PInf"
| "f64_add NInf _ = NInf"
| "f64_add _ NInf = NInf"

lemma f64_le_Fin [simp]: "f64_le (Fin a) (Fin b) \<longleftrightarrow> a \<le> b"
  by (auto simp: f64_le_def)

lemma f64_le_NaN [simp]: "\<not> f64_le NaN x" "\<not> f64_le x NaN"
  by (cases x; simp add: f64_le_def)+

lemma f64_lt_le: "f64_lt a b \<Longrightarrow> f64_le a b"
  by (simp add: f64_le_def)

lemma f64_not_lt_le: "\<not> f64_is_nan a \<Longrightarrow> \<not> f64_is_nan b \<Longrightarrow> \<not> f64_le a b \<longleftrightarrow> f64_lt b a"
  by (cases a; cases b; auto simp: f64_le_def)

section \<open>Lists\<close>

lemma filter_eq_length_le: "length (filter P xs) \<le> length xs"
  by (rule length_filter_le)

lemma distinct_map_filter: "distinct (map f xs) \<Longrightarrow> distinct (map f (filter P xs))"
  by (rule distinct_map_filter)

lemma find_Some_mem: "find P xs = Some x \<Longrightarrow> x \<in> set xs \<and> P x"
  by (auto simp: find_Some_iff)

lemma find_None_not: "find P xs = None \<longleftrightarrow> (\<forall>x \<in> set xs. \<not> P x)"
  by (auto simp: find_None_iff)

text \<open>
  In a table whose key column is distinct, a lookup by key finds exactly the row with
  that key.
\<close>

lemma find_by_key:
  assumes "distinct (map key xs)" and "x \<in> set xs"
  shows "find (\<lambda>y. key y = key x) xs = Some x"
  using assms
proof (induction xs)
  case Nil
  then show ?case by simp
next
  case (Cons y ys)
  then show ?case by (auto simp: image_iff)
qed

lemma sorted_sort_remdups: "sorted (sort (remdups xs)) \<and> distinct (sort (remdups xs))"
  by simp

end
