(* ===== verification/GoStrings.thy ===== *)
theory GoStrings
  imports Prelude "HOL-Library.Char_ord" "HOL-Library.List_Lexorder"
begin

text \<open>
  Go strings and the parts of the \<open>strings\<close>, \<open>unicode\<close> and \<open>unicode/utf8\<close> packages the
  program uses. A Go string is a sequence of bytes, here a \<open>string\<close> (a list of 8-bit
  \<open>char\<close>s); a \<open>rune\<close> is a code point. Decoding follows \<open>utf8.DecodeRuneInString\<close>: an
  invalid byte is the rune U+FFFD of width one. Case mapping is that of ASCII, Latin-1,
  basic Greek and Cyrillic and the code points above ASCII whose lower case is an ASCII or
  Latin-1 letter; the rest of the Unicode case tables is left out, so such code points
  are their own lower case. The order of strings is the byte order of
  \<open>strings.Compare\<close>.
\<close>

section \<open>UTF-8\<close>

type_synonym rune = nat

abbreviation byte :: "char \<Rightarrow> nat" where
  "byte c \<equiv> of_char c"

definition rune_error :: rune where
  "rune_error = 65533"

definition cont :: "char \<Rightarrow> bool" where
  "cont c \<longleftrightarrow> 128 \<le> byte c \<and> byte c < 192"

definition in_range :: "nat \<Rightarrow> nat \<Rightarrow> char \<Rightarrow> bool" where
  "in_range lo hi c \<longleftrightarrow> lo \<le> byte c \<and> byte c \<le> hi"

text \<open>The accept ranges of the second byte, by the first.\<close>

definition accept3 :: "nat \<Rightarrow> char \<Rightarrow> bool" where
  "accept3 x c = (if x = 224 then in_range 160 191 c else if x = 237 then in_range 128 159 c else cont c)"

definition accept4 :: "nat \<Rightarrow> char \<Rightarrow> bool" where
  "accept4 x c = (if x = 240 then in_range 144 191 c else if x = 244 then in_range 128 143 c else cont c)"

fun decode_rune :: "string \<Rightarrow> rune \<times> nat" where
  "decode_rune [] = (rune_error, 0)"
| "decode_rune (a # s) =
     (let x = byte a; bad = (rune_error, 1) in
      if x < 128 then (x, 1)
      else if 194 \<le> x \<and> x \<le> 223 then
        (case s of b # _ \<Rightarrow> if cont b then ((x - 192) * 64 + (byte b - 128), 2) else bad | [] \<Rightarrow> bad)
      else if 224 \<le> x \<and> x \<le> 239 then
        (case s of b # c # _ \<Rightarrow>
           if accept3 x b \<and> cont c
           then ((x - 224) * 4096 + (byte b - 128) * 64 + (byte c - 128), 3) else bad
         | _ \<Rightarrow> bad)
      else if 240 \<le> x \<and> x \<le> 244 then
        (case s of b # c # d # _ \<Rightarrow>
           if accept4 x b \<and> cont c \<and> cont d
           then ((x - 240) * 262144 + (byte b - 128) * 4096 + (byte c - 128) * 64 + (byte d - 128), 4)
           else bad
         | _ \<Rightarrow> bad)
      else bad)"

definition valid_rune :: "rune \<Rightarrow> bool" where
  "valid_rune r \<longleftrightarrow> r < 55296 \<or> (57344 \<le> r \<and> r < 1114112)"

definition encode_rune :: "rune \<Rightarrow> string" where
  "encode_rune r0 =
     (let r = (if valid_rune r0 then r0 else rune_error) in
      if r < 128 then [char_of r]
      else if r < 2048 then [char_of (192 + r div 64), char_of (128 + r mod 64)]
      else if r < 65536 then
        [char_of (224 + r div 4096), char_of (128 + r div 64 mod 64), char_of (128 + r mod 64)]
      else
        [char_of (240 + r div 262144), char_of (128 + r div 4096 mod 64),
         char_of (128 + r div 64 mod 64), char_of (128 + r mod 64)])"

lemma decode_width_pos: "s \<noteq> [] \<Longrightarrow> 0 < snd (decode_rune s)"
  by (cases s) (auto simp: Let_def split: list.splits)

text \<open>A \<open>range\<close> loop over a string: its maximal decodable pieces, in order.\<close>

function chunks :: "string \<Rightarrow> string list" where
  "chunks [] = []"
| "chunks (a # s) =
     take (snd (decode_rune (a # s))) (a # s) # chunks (drop (snd (decode_rune (a # s))) (a # s))"
  by pat_completeness auto
termination
proof (relation "measure length")
  fix a :: char and s :: string
  have "0 < snd (decode_rune (a # s))" by (rule decode_width_pos) simp
  then show "(drop (snd (decode_rune (a # s))) (a # s), a # s) \<in> measure length"
    by (simp del: decode_rune.simps)
qed simp

definition runes :: "string \<Rightarrow> rune list" where
  "runes s = map (\<lambda>c. fst (decode_rune c)) (chunks s)"

definition rune_count :: "string \<Rightarrow> nat" where
  "rune_count s = length (chunks s)"

text \<open>\<open>utf8.ValidString\<close>: no piece is a lone undecodable byte.\<close>

definition valid_utf8 :: "string \<Rightarrow> bool" where
  "valid_utf8 s \<longleftrightarrow> (\<forall>c \<in> set (chunks s). decode_rune c \<noteq> (rune_error, 1))"

definition of_runes :: "rune list \<Rightarrow> string" where
  "of_runes rs = concat (map encode_rune rs)"

section \<open>Classes and case\<close>

definition is_space :: "rune \<Rightarrow> bool" where
  "is_space r \<longleftrightarrow> (9 \<le> r \<and> r \<le> 13) \<or> r = 32 \<or> r = 133 \<or> r = 160 \<or> r = 5760 \<or>
     (8192 \<le> r \<and> r \<le> 8202) \<or> r = 8232 \<or> r = 8233 \<or> r = 8239 \<or> r = 8287 \<or> r = 12288"

definition is_control :: "rune \<Rightarrow> bool" where
  "is_control r \<longleftrightarrow> r < 32 \<or> (127 \<le> r \<and> r < 160)"

definition rune_lower :: "rune \<Rightarrow> rune" where
  "rune_lower r =
     (if 65 \<le> r \<and> r \<le> 90 then r + 32
      else if (192 \<le> r \<and> r \<le> 222) \<and> r \<noteq> 215 then r + 32
      else if r = 304 then 105
      else if r = 376 then 255
      else if (913 \<le> r \<and> r \<le> 939) \<and> r \<noteq> 930 then r + 32
      else if 1024 \<le> r \<and> r \<le> 1039 then r + 80
      else if 1040 \<le> r \<and> r \<le> 1071 then r + 32
      else if r = 8490 then 107
      else if r = 8491 then 229
      else r)"

definition ascii :: "char \<Rightarrow> bool" where
  "ascii c \<longleftrightarrow> byte c < 128"

definition lower_byte :: "char \<Rightarrow> char" where
  "lower_byte c = (if 65 \<le> byte c \<and> byte c \<le> 90 then char_of (byte c + 32) else c)"

definition to_lower :: "string \<Rightarrow> string" where
  "to_lower s = (if list_all ascii s then map lower_byte s else of_runes (map rune_lower (runes s)))"

text \<open>
  \<open>strings.EqualFold\<close> against an ASCII word without the letters k and s, whose only
  case variants are the two ASCII ones.
\<close>

definition equal_fold_ascii :: "string \<Rightarrow> string \<Rightarrow> bool" where
  "equal_fold_ascii s word \<longleftrightarrow> map lower_byte s = map lower_byte word"

section \<open>Cutting and trimming\<close>

definition space_chunk :: "string \<Rightarrow> bool" where
  "space_chunk c \<longleftrightarrow> is_space (fst (decode_rune c))"

definition trim_space :: "string \<Rightarrow> string" where
  "trim_space s = concat (rev (dropWhile space_chunk (rev (dropWhile space_chunk (chunks s)))))"

text \<open>\<open>strings.Cut\<close> at a one-byte separator; \<open>None\<close> is "not found".\<close>

definition cut :: "char \<Rightarrow> string \<Rightarrow> (string \<times> string) option" where
  "cut c s = (if c \<in> set s then Some (takeWhile (\<lambda>x. x \<noteq> c) s, tl (dropWhile (\<lambda>x. x \<noteq> c) s)) else None)"

text \<open>\<open>strings.LastIndex\<close> of a one-byte string: \<open>None\<close> is -1.\<close>

definition last_index :: "char \<Rightarrow> string \<Rightarrow> nat option" where
  "last_index c s = (if c \<in> set s then Some (length s - 1 - length (takeWhile (\<lambda>x. x \<noteq> c) (rev s))) else None)"

text \<open>\<open>strings.CutPrefix\<close>; \<open>None\<close> is "not found".\<close>

definition cut_prefix :: "string \<Rightarrow> string \<Rightarrow> string option" where
  "cut_prefix p s = (if prefix p s then Some (drop (length p) s) else None)"

text \<open>\<open>strings.Split\<close> at a one-byte separator.\<close>

fun split_at :: "char \<Rightarrow> string \<Rightarrow> string list" where
  "split_at c [] = [[]]"
| "split_at c (x # xs) =
     (if x = c then [] # split_at c xs
      else (case split_at c xs of [] \<Rightarrow> [[x]] | w # ws \<Rightarrow> (x # w) # ws))"

section \<open>Numbers\<close>

fun nat_digits :: "nat \<Rightarrow> string" where
  "nat_digits n = (if n < 10 then [char_of (48 + n)] else nat_digits (n div 10) @ [char_of (48 + n mod 10)])"

declare nat_digits.simps [simp del]

text \<open>\<open>strconv.FormatInt(n, 10)\<close> and \<open>strconv.Itoa\<close>.\<close>

definition format_int :: "int \<Rightarrow> string" where
  "format_int n = (if n < 0 then CHR ''-'' # nat_digits (nat (- n)) else nat_digits (nat n))"

section \<open>Decoding and encoding\<close>

lemma accept_cont: "accept3 x c \<Longrightarrow> cont c" "accept4 x c \<Longrightarrow> cont c"
  by (auto simp: accept3_def accept4_def in_range_def cont_def split: if_splits)

lemma decode_width_le: "snd (decode_rune s) \<le> length s"
  by (cases s) (auto simp: Let_def split: list.splits)

lemma decode_append:
  assumes "s \<noteq> []" and t: "t = [] \<or> \<not> cont (hd t)"
  shows "decode_rune (s @ t) = decode_rune s"
proof -
  obtain a s' where s: "s = a # s'" using assms(1) by (cases s) auto
  have n: "\<not> accept3 x (hd t)" "\<not> accept4 x (hd t)" if "t \<noteq> []" for x
    using t that accept_cont by blast+
  show ?thesis
    unfolding s using t n
    by (cases t; cases s'; cases "tl s'"; cases "tl (tl s')") (auto simp: Let_def split: list.splits)
qed

lemma chunks_append:
  assumes "t = [] \<or> \<not> cont (hd t)"
  shows "chunks (s @ t) = chunks s @ chunks t"
proof (induction s rule: chunks.induct)
  case 1
  then show ?case by simp
next
  case (2 a s)
  let ?n = "snd (decode_rune (a # s))"
  have n: "?n \<le> length (a # s)" by (rule decode_width_le)
  have d: "decode_rune (a # s @ t) = decode_rune (a # s)"
    using decode_append [of "a # s" t] assms by simp
  have "chunks ((a # s) @ t) = take ?n (a # s @ t) # chunks (drop ?n (a # s @ t))"
    by (simp only: append_Cons chunks.simps(2) d)
  also have "drop ?n (a # s @ t) = drop ?n (a # s) @ t" using n by (simp add: drop_Cons')
  also have "take ?n (a # s @ t) = take ?n (a # s)" using n by (simp add: take_Cons')
  finally show ?case using "2.IH" by (simp del: decode_rune.simps)
qed

lemma concat_chunks: "concat (chunks s) = s"
  by (induction s rule: chunks.induct) (simp_all del: decode_rune.simps)

lemma mod256: "x < 256 \<Longrightarrow> byte (char_of x) = x"
  by simp

lemma base64_digits3: "r div 4096 * 4096 + r div 64 mod 64 * 64 + r mod 64 = (r::nat)"
proof -
  have "r = r div 64 * 64 + r mod 64" "r div 64 = r div 64 div 64 * 64 + r div 64 mod 64" by simp_all
  moreover have "r div 64 div 64 = r div 4096" by (simp add: div_mult2_eq [symmetric])
  ultimately show ?thesis by linarith
qed

lemma base64_digits4:
  "r div 262144 * 262144 + r div 4096 mod 64 * 4096 + r div 64 mod 64 * 64 + r mod 64 = (r::nat)"
proof -
  have "r div 4096 = r div 4096 div 64 * 64 + r div 4096 mod 64" by simp
  moreover have "r div 4096 div 64 = r div 262144" by (simp add: div_mult2_eq [symmetric])
  ultimately show ?thesis using base64_digits3 [of r] by linarith
qed

lemma decode_encode:
  assumes "valid_rune r"
  shows "decode_rune (encode_rune r @ s) = (r, length (encode_rune r))"
proof -
  have b: "r < 1114112" using assms by (auto simp: valid_rune_def)
  consider "r < 128" | "128 \<le> r" "r < 2048" | "2048 \<le> r" "r < 65536" | "65536 \<le> r" by linarith
  then show ?thesis
  proof cases
    case 1
    then show ?thesis by (simp add: encode_rune_def assms)
  next
    case 2
    then have "r div 64 < 32" "2 \<le> r div 64" by auto
    with 2 show ?thesis
      by (simp add: encode_rune_def assms cont_def)
  next
    case 3
    have q: "r div 4096 < 16" using 3 by auto
    have dec: "r div 4096 * 4096 + r div 64 mod 64 * 64 + r mod 64 = r" by (rule base64_digits3)
    have m: "r mod 64 < 64" "r div 64 mod 64 < 64" by simp_all
    have e0: "r div 4096 = 0 \<Longrightarrow> 32 \<le> r div 64 mod 64" using 3 dec m by linarith
    have e13: "r div 4096 = 13 \<Longrightarrow> r div 64 mod 64 \<le> 31"
      using assms dec m unfolding valid_rune_def by linarith
    have acc: "accept3 (224 + r div 4096) (char_of (128 + r div 64 mod 64))"
      using q e0 e13 by (auto simp: accept3_def in_range_def cont_def)
    show ?thesis using 3 q acc dec
      by (simp add: encode_rune_def assms cont_def)
  next
    case 4
    have q: "r div 262144 < 5" using b by auto
    have dec: "r div 262144 * 262144 + r div 4096 mod 64 * 4096 + r div 64 mod 64 * 64 + r mod 64 = r"
      by (rule base64_digits4)
    have m: "r mod 64 < 64" "r div 64 mod 64 < 64" "r div 4096 mod 64 < 64" by simp_all
    have e0: "r div 262144 = 0 \<Longrightarrow> 16 \<le> r div 4096 mod 64" using 4 dec m by linarith
    have e4: "r div 262144 = 4 \<Longrightarrow> r div 4096 mod 64 \<le> 15" using b dec m by linarith
    have acc: "accept4 (240 + r div 262144) (char_of (128 + r div 4096 mod 64))"
      using q e0 e4 by (auto simp: accept4_def in_range_def cont_def)
    show ?thesis using 4 q acc dec
      by (simp add: encode_rune_def assms cont_def)
  qed
qed


lemma decode_valid: "valid_rune (fst (decode_rune s))"
proof (cases s)
  case Nil
  then show ?thesis by (simp add: valid_rune_def rune_error_def)
next
  case (Cons a t)
  have bad: "valid_rune rune_error" by (simp add: valid_rune_def rune_error_def)
  have two: "valid_rune ((byte a - 192) * 64 + (byte b - 128))"
    if a: "194 \<le> byte a" "byte a \<le> 223" and b: "cont b" for b
  proof -
    obtain x where x: "byte a = 192 + x" using a le_trans [of 192 194 "byte a"] by (auto simp: le_iff_add)
    obtain y where y: "byte b = 128 + y" using b unfolding cont_def by (auto simp: le_iff_add)
    show ?thesis using a b unfolding x y valid_rune_def cont_def by simp
  qed
  have three: "valid_rune ((byte a - 224) * 4096 + (byte b - 128) * 64 + (byte c - 128))"
    if a: "224 \<le> byte a" "byte a \<le> 239" and b: "accept3 (byte a) b" and c: "cont c" for b c
  proof -
    have cb: "cont b" using b accept_cont by blast
    obtain x where x: "byte a = 224 + x" using a by (auto simp: le_iff_add)
    obtain y where y: "byte b = 128 + y" using cb unfolding cont_def by (auto simp: le_iff_add)
    obtain z where z: "byte c = 128 + z" using c unfolding cont_def by (auto simp: le_iff_add)
    have "x \<le> 15" "y < 64" "z < 64" using a cb c unfolding x y z cont_def by simp_all
    moreover have "x = 13 \<Longrightarrow> y \<le> 31" using b unfolding accept3_def in_range_def x y by simp
    ultimately show ?thesis unfolding x y z valid_rune_def
      by (cases "x \<le> 12"; cases "x = 13"; simp)
  qed
  have four: "valid_rune ((byte a - 240) * 262144 + (byte b - 128) * 4096 + (byte c - 128) * 64 + (byte d - 128))"
    if a: "240 \<le> byte a" "byte a \<le> 244" and b: "accept4 (byte a) b" and c: "cont c" "cont d" for b c d
  proof -
    have cb: "cont b" using b accept_cont by blast
    obtain x where x: "byte a = 240 + x" using a by (auto simp: le_iff_add)
    obtain y where y: "byte b = 128 + y" using cb unfolding cont_def by (auto simp: le_iff_add)
    obtain z where z: "byte c = 128 + z" using c unfolding cont_def by (auto simp: le_iff_add)
    obtain w where w: "byte d = 128 + w" using c unfolding cont_def by (auto simp: le_iff_add)
    have "x \<le> 4" "y < 64" "z < 64" "w < 64" using a cb c unfolding x y z w cont_def by simp_all
    moreover have "x = 0 \<Longrightarrow> 16 \<le> y" "x = 4 \<Longrightarrow> y \<le> 15"
      using b unfolding accept4_def in_range_def x y by simp_all
    ultimately show ?thesis unfolding x y z w valid_rune_def
      by (cases "x = 0"; cases "x = 4"; simp)
  qed
  show ?thesis
    unfolding Cons using bad two three four
    by (auto simp: Let_def valid_rune_def split: list.splits)
qed

lemma chunks_encode:
  assumes "valid_rune r"
  shows "chunks (encode_rune r @ s) = encode_rune r # chunks s"
proof -
  have ne: "encode_rune r \<noteq> []" by (auto simp: encode_rune_def Let_def)
  then obtain a t where e: "encode_rune r = a # t" by (cases "encode_rune r") auto
  have d: "decode_rune (a # t @ s) = (r, length (a # t))"
    using decode_encode [OF assms, of s] e by simp
  have "chunks (a # t @ s) = take (length (a # t)) (a # t @ s) # chunks (drop (length (a # t)) (a # t @ s))"
    by (simp only: chunks.simps(2) d snd_conv)
  then show ?thesis using e by simp
qed

lemma chunks_of_runes: "list_all valid_rune rs \<Longrightarrow> chunks (of_runes rs) = map encode_rune rs"
  by (induction rs) (simp_all add: of_runes_def chunks_encode)

lemma runes_of_runes: "list_all valid_rune rs \<Longrightarrow> runes (of_runes rs) = rs"
proof -
  assume v: "list_all valid_rune rs"
  have "map (\<lambda>c. fst (decode_rune c)) (map encode_rune rs) = rs"
    using v decode_encode [where s = "[]"] by (auto simp: list_all_iff intro!: map_idI)
  then show ?thesis using v by (simp add: runes_def chunks_of_runes)
qed

lemma runes_valid: "list_all valid_rune (runes s)"
  by (auto simp: runes_def list_all_iff decode_valid)

lemma ascii_encode: "r < 128 \<Longrightarrow> encode_rune r = [char_of r]"
  by (simp add: encode_rune_def valid_rune_def)

lemma chunks_ascii: "list_all ascii s \<Longrightarrow> chunks s = map (\<lambda>c. [c]) s"
  by (induction s) (auto simp: ascii_def Let_def)

lemma runes_ascii: "list_all ascii s \<Longrightarrow> runes s = map byte s"
  by (auto simp: runes_def chunks_ascii list_all_iff ascii_def)

lemma rune_lower_ascii: "ascii c \<Longrightarrow> encode_rune (rune_lower (byte c)) = [lower_byte c]"
  by (auto simp: ascii_def rune_lower_def lower_byte_def ascii_encode)

lemma to_lower_runes: "to_lower s = of_runes (map rune_lower (runes s))"
proof (cases "list_all ascii s")
  case True
  then have "of_runes (map rune_lower (map byte s)) = map lower_byte s"
    by (induction s) (auto simp: of_runes_def rune_lower_ascii)
  with True show ?thesis by (simp add: to_lower_def runes_ascii)
next
  case False
  then show ?thesis by (simp add: to_lower_def)
qed

lemma rune_lower_idem: "rune_lower (rune_lower r) = rune_lower r"
  by (auto simp: rune_lower_def)

lemma rune_lower_valid: "valid_rune r \<Longrightarrow> valid_rune (rune_lower r)"
  by (auto simp: rune_lower_def valid_rune_def)

lemma rune_lower_space: "is_space (rune_lower r) = is_space r"
  by (auto simp: rune_lower_def is_space_def)

lemma runes_to_lower: "runes (to_lower s) = map rune_lower (runes s)"
proof -
  have "list_all valid_rune (map rune_lower (runes s))"
    using runes_valid [of s] by (auto simp: list_all_iff rune_lower_valid)
  then show ?thesis by (simp add: to_lower_runes runes_of_runes)
qed

lemma to_lower_idem [simp]: "to_lower (to_lower s) = to_lower s"
  by (simp add: to_lower_runes [of "to_lower s"] runes_to_lower rune_lower_idem o_def)
     (simp add: to_lower_runes)


section \<open>Trimming and lower-casing commute\<close>

lemma decode_prefix:
  assumes "p \<noteq> []" and "snd (decode_rune (p @ t)) \<le> length p"
  shows "decode_rune p = decode_rune (p @ t)"
proof -
  obtain a q where p: "p = a # q" using assms(1) by (cases p) auto
  consider "q = []" | b where "q = [b]" | b c where "q = [b, c]" | b c d r where "q = b # c # d # r"
    by (metis list.exhaust)
  then show ?thesis
    using assms(2) unfolding p
    by cases (auto simp: Let_def split: list.splits if_splits)
qed

lemma chunks_prefix: "chunks s = cs @ ds \<Longrightarrow> chunks (concat cs) = cs"
proof (induction s arbitrary: cs rule: chunks.induct)
  case 1
  then show ?case by simp
next
  case (2 a s)
  let ?n = "snd (decode_rune (a # s))"
  show ?case
  proof (cases cs)
    case Nil
    then show ?thesis by simp
  next
    case (Cons c cs')
    have c: "c = take ?n (a # s)" and rest: "chunks (drop ?n (a # s)) = cs' @ ds"
      using "2.prems" Cons by (simp_all only: chunks.simps append_Cons list.inject)
    have IH: "chunks (concat cs') = cs'" by (rule "2.IH" [OF rest])
    have n: "0 < ?n" "?n \<le> length (a # s)" by (rule decode_width_pos) (simp, rule decode_width_le)
    have len: "length c = ?n" using c n by (simp del: decode_rune.simps)
    have whole: "(c @ concat cs') @ concat ds = a # s"
      using concat_chunks [of "a # s"] "2.prems" Cons by simp
    have d: "decode_rune (c @ concat cs') = decode_rune (a # s)"
      using decode_prefix [of "c @ concat cs'" "concat ds"] whole len n
      by (metis append_is_Nil_conv le_add1 length_append length_greater_0_conv)
    obtain b c' where bc: "c @ concat cs' = b # c'" using len n by (cases "c @ concat cs'") auto
    have "chunks (c @ concat cs') = take ?n (c @ concat cs') # chunks (drop ?n (c @ concat cs'))"
      unfolding bc using d unfolding bc by (simp only: chunks.simps)
    then show ?thesis using IH len Cons by simp
  qed
qed

lemma chunks_suffix: "chunks s = cs @ ds \<Longrightarrow> chunks (concat ds) = ds"
proof (induction cs arbitrary: s)
  case Nil
  then show ?case using concat_chunks [of s] by simp
next
  case (Cons c cs)
  then obtain a s' where s: "s = a # s'" by (cases s) auto
  then have "chunks (drop (snd (decode_rune s)) s) = cs @ ds"
    using Cons.prems by (simp only: s chunks.simps append_Cons list.inject)
  then show ?case by (rule Cons.IH)
qed

definition strip :: "string list \<Rightarrow> string list" where
  "strip cs = rev (dropWhile space_chunk (rev (dropWhile space_chunk cs)))"

lemma trim_space_strip: "trim_space s = concat (strip (chunks s))"
  by (simp add: trim_space_def strip_def)

lemma strip_split: "\<exists>as bs. cs = as @ strip cs @ bs"
proof -
  have "cs = takeWhile space_chunk cs @ dropWhile space_chunk cs" by simp
  moreover have "dropWhile space_chunk cs =
      strip cs @ rev (takeWhile space_chunk (rev (dropWhile space_chunk cs)))"
    unfolding strip_def by (metis rev_append rev_rev_ident takeWhile_dropWhile_id)
  ultimately show ?thesis by metis
qed

lemma chunks_trim: "chunks (trim_space s) = strip (chunks s)"
proof -
  obtain as bs where "chunks s = as @ strip (chunks s) @ bs" using strip_split by blast
  then have "chunks (concat (strip (chunks s) @ bs)) = strip (chunks s) @ bs" by (rule chunks_suffix)
  then have "chunks (concat (strip (chunks s))) = strip (chunks s)" by (rule chunks_prefix)
  then show ?thesis by (simp add: trim_space_strip)
qed

lemma strip_ends:
  "strip cs = [] \<or> (\<not> space_chunk (hd (strip cs)) \<and> \<not> space_chunk (last (strip cs)))"
proof (cases "strip cs = []")
  case False
  let ?ds = "dropWhile space_chunk cs"
  have ne: "dropWhile space_chunk (rev ?ds) \<noteq> []" using False by (simp add: strip_def)
  have l: "\<not> space_chunk (last (strip cs))"
    using hd_dropWhile [OF ne] by (simp add: strip_def last_rev)
  have dne: "?ds \<noteq> []"
  proof
    assume "?ds = []"
    then show False using ne by (metis dropWhile.simps(1) rev.simps(1))
  qed
  have "\<exists>bs. ?ds = strip cs @ bs"
    unfolding strip_def by (metis rev_append rev_rev_ident takeWhile_dropWhile_id)
  then have "hd (strip cs) = hd ?ds" using False by auto
  then show ?thesis using hd_dropWhile [OF dne] l by simp
qed simp

lemma strip_id: "cs = [] \<or> (\<not> space_chunk (hd cs) \<and> \<not> space_chunk (last cs)) \<Longrightarrow> strip cs = cs"
proof (cases "cs = []")
  case False
  assume "cs = [] \<or> (\<not> space_chunk (hd cs) \<and> \<not> space_chunk (last cs))"
  with False have h: "\<not> space_chunk (hd cs)" "\<not> space_chunk (last cs)" by auto
  have "dropWhile space_chunk cs = cs" using h False by (cases cs) auto
  moreover have "dropWhile space_chunk (rev cs) = rev cs"
    using h False by (cases "rev cs") (auto simp: hd_rev [symmetric])
  ultimately show ?thesis by (simp add: strip_def)
qed (simp add: strip_def)

lemma trim_trim [simp]: "trim_space (trim_space s) = trim_space s"
  using strip_id [OF strip_ends [of "chunks s"]]
  by (simp add: trim_space_strip [of "trim_space s"] chunks_trim) (simp add: trim_space_strip)

lemma trimmed_iff:
  "trim_space s = s \<longleftrightarrow>
     s = [] \<or> (\<not> space_chunk (hd (chunks s)) \<and> \<not> space_chunk (last (chunks s)))"
proof
  assume "trim_space s = s"
  then have "chunks s = strip (chunks s)" using chunks_trim [of s] by simp
  then have "chunks s = [] \<or> (\<not> space_chunk (hd (chunks s)) \<and> \<not> space_chunk (last (chunks s)))"
    using strip_ends [of "chunks s"] by simp
  then show "s = [] \<or> (\<not> space_chunk (hd (chunks s)) \<and> \<not> space_chunk (last (chunks s)))"
    by (cases s) auto
next
  assume "s = [] \<or> (\<not> space_chunk (hd (chunks s)) \<and> \<not> space_chunk (last (chunks s)))"
  then have "strip (chunks s) = chunks s" by (intro strip_id) (auto simp: chunks.simps)
  then show "trim_space s = s" by (simp add: trim_space_strip concat_chunks)
qed

lemma dropWhile_space_map:
  "(\<And>c. c \<in> set cs \<Longrightarrow> space_chunk (f c) = space_chunk c) \<Longrightarrow>
     dropWhile space_chunk (map f cs) = map f (dropWhile space_chunk cs)"
  by (induction cs) auto

lemma strip_map:
  assumes "\<And>c. c \<in> set cs \<Longrightarrow> space_chunk (f c) = space_chunk c"
  shows "strip (map f cs) = map f (strip cs)"
proof -
  let ?ds = "rev (dropWhile space_chunk cs)"
  have "\<And>c. c \<in> set ?ds \<Longrightarrow> space_chunk (f c) = space_chunk c"
    using assms by (auto dest: set_dropWhileD)
  then have "dropWhile space_chunk (map f ?ds) = map f (dropWhile space_chunk ?ds)"
    by (rule dropWhile_space_map)
  moreover have "dropWhile space_chunk (map f cs) = map f (dropWhile space_chunk cs)"
    using assms by (rule dropWhile_space_map)
  ultimately show ?thesis by (simp add: strip_def rev_map)
qed

lemma space_encode: "valid_rune r \<Longrightarrow> space_chunk (encode_rune r) = is_space r"
  using decode_encode [of r "[]"] by (simp add: space_chunk_def)

lemma trim_to_lower: "trim_space (to_lower s) = to_lower (trim_space s)"
proof -
  let ?f = "\<lambda>c. encode_rune (rune_lower (fst (decode_rune c)))"
  have "chunks (to_lower s) = map ?f (chunks s)"
    using chunks_of_runes [of "map rune_lower (runes s)"] runes_valid [of s]
    by (simp add: to_lower_runes list_all_iff rune_lower_valid) (simp add: runes_def)
  then have "trim_space (to_lower s) = concat (strip (map ?f (chunks s)))"
    by (simp add: trim_space_strip)
  also have "strip (map ?f (chunks s)) = map ?f (strip (chunks s))"
    by (rule strip_map)
      (simp add: space_encode rune_lower_valid decode_valid rune_lower_space, simp add: space_chunk_def)
  also have "concat \<dots> = to_lower (trim_space s)"
    by (simp add: to_lower_runes of_runes_def runes_def chunks_trim o_def)
  finally show ?thesis .
qed

lemma set_trim_space: "set (trim_space s) \<subseteq> set s"
proof -
  obtain as bs where "chunks s = as @ strip (chunks s) @ bs" using strip_split by blast
  then have "s = concat as @ concat (strip (chunks s)) @ concat bs"
    using concat_chunks [of s] by (metis concat_append)
  then show ?thesis by (metis Un_iff set_append subsetI trim_space_strip)
qed

end
