(* ===== verification/Errors.thy ===== *)
theory Errors
  imports GoStrings
begin

text \<open>
  The errors the services return (\<open>internal/app/ports.go\<close>, \<open>internal/app/errors.go\<close> and
  the sentinels of the \<open>domain\<close> packages). A wrapped error (\<open>fmt.Errorf\<close> with \<open>%w\<close>) is the
  error it wraps: callers only ever ask \<open>errors.Is\<close> and \<open>errors.As\<close>, and the message text is
  not modelled. \<open>EFault\<close> is any failure of a collaborator: the database, the random source,
  a cancelled context.
\<close>

section \<open>Field indices of refused input\<close>

text \<open>\<open>limits.Field\<close>: what a \<open>limits.InvalidError\<close> refuses.\<close>

datatype limits_field = FieldCount | FieldWindow | FieldAmount

section \<open>Errors\<close>

text \<open>What the embedded gateway refuses (\<open>internal/infra/gateway/service.go\<close>, \<open>credential_store.go\<close>). An unknown account is \<open>ENotFound\<close>,
  the error its own wraps.\<close>

datatype gateway_error =
    NotRunning
  | ManagementSecret
  | ManagementEnv
  | ConfigAPIKeys
  | PluginsEnabled
  | HomeMode
  | CompatName string
  | NilConfig
  | NilAccount
  | NoCoreAuth
  | NoTokenStore
  | CredentialNotLoaded string
  | NoCredentialKey
  | TokenlessCredential
  | NoResolver
  | NoPrices

text \<open>\<open>EForeign\<close> is an error of a library's, which nothing tells from another but by its text.\<close>

datatype err =
    EFault
  | ENotFound
  | EForbidden
  | EInvalidCredentials
  | ELockedOut instant
  | EWeakPassword
  | EEmptyPassword
  | EConflict
  | ETokenLimit
  | EPolicyManagedByIDP
  | ESelfLockout
  | ENotLocal
  | EInvalidRule string
  | EInvalidInput string
  | EAlreadyLinked
  | ENotInvitable
  | EForbiddenSetting string
  | EInvalidSetting string string
  | EBlocked bool
  | ECatalogDisabled
  | EAlreadyRevoked
  | EInvalidLabel
  | EMalformedRule string
  | EMalformedPrincipal
  | EInvalidLimits int limits_field
  | EShortSealerKey
  | EPlaintextTooLarge
  | EUnsealable
  | ELoginsBusy
  | EUnsupportedProvider
  | ELoginExpired
  | ELoginFailed
  | EProviderUnreachable
  | EProviderAuthFailed
  | ENoRunningConfig
  | ENoOwnedDefaults
  | EGateway gateway_error
  | EForeign string

type_synonym 'a result = "err + 'a"

text \<open>Collecting the results of a loop that stops at its first error.\<close>

fun collect :: "('a \<Rightarrow> 'b result) \<Rightarrow> 'a list \<Rightarrow> 'b list result" where
  "collect f [] = Inr []"
| "collect f (x # xs) =
     (case f x of Inl e \<Rightarrow> Inl e
      | Inr y \<Rightarrow> (case collect f xs of Inl e \<Rightarrow> Inl e | Inr ys \<Rightarrow> Inr (y # ys)))"

lemma collect_Inr: "collect f xs = Inr ys \<Longrightarrow> list_all2 (\<lambda>x y. f x = Inr y) xs ys"
  by (induction xs arbitrary: ys) (auto split: sum.splits)

lemma collect_map: "(\<And>x. x \<in> set xs \<Longrightarrow> f (g x) = Inr x) \<Longrightarrow> collect f (map g xs) = Inr xs"
  by (induction xs) auto

lemma collect_Inr_set: "collect f xs = Inr ys \<Longrightarrow> y \<in> set ys \<Longrightarrow> \<exists>x \<in> set xs. f x = Inr y"
  by (induction xs arbitrary: ys) (auto split: sum.splits)

lemma collect_Inl: "collect f xs = Inl e \<Longrightarrow> \<exists>x \<in> set xs. f x = Inl e"
  by (induction xs) (auto split: sum.splits)

end
