(* ===== verification/Access.thy ===== *)
theory Access
  imports Errors
begin

text \<open>
  \<open>internal/domain/access/policy.go\<close>: access rules, the glob their model half is, policies
  and the rule by which a request is admitted. The regular expression a glob compiles to is
  the list of its three kinds of atom; matching is that of Go's \<open>regexp\<close> on them, where an
  unflagged dot matches every rune but the newline. The catalogue of live models is the
  program's interface \<open>Catalog\<close>: a parameter, the function from a model to its providers.
\<close>

section \<open>Globs\<close>

datatype glob_atom = AnyRun | AnyOne | Lit rune

type_synonym glob = "glob_atom list"

definition glob_atom_of :: "rune \<Rightarrow> glob_atom" where
  "glob_atom_of r = (if r = 42 then AnyRun else if r = 63 then AnyOne else Lit r)"

definition compile_glob :: "string \<Rightarrow> glob" where
  "compile_glob pattern = map glob_atom_of (runes pattern)"

text \<open>An anchored match of the compiled expression.\<close>

fun glob_match :: "glob \<Rightarrow> rune list \<Rightarrow> bool" where
  "glob_match [] [] = True"
| "glob_match [] (_ # _) = False"
| "glob_match (Lit c # g) [] = False"
| "glob_match (Lit c # g) (x # xs) = (c = x \<and> glob_match g xs)"
| "glob_match (AnyOne # g) [] = False"
| "glob_match (AnyOne # g) (x # xs) = (x \<noteq> 10 \<and> glob_match g xs)"
| "glob_match (AnyRun # g) [] = glob_match g []"
| "glob_match (AnyRun # g) (x # xs) =
     (glob_match g (x # xs) \<or> (x \<noteq> 10 \<and> glob_match (AnyRun # g) xs))"

text \<open>What an atom stands for, and the specification of the match: a decomposition of the
  text into one segment per atom.\<close>

fun atom_matches :: "glob_atom \<Rightarrow> rune list \<Rightarrow> bool" where
  "atom_matches AnyRun seg = (10 \<notin> set seg)"
| "atom_matches AnyOne seg = (\<exists>x. seg = [x] \<and> x \<noteq> 10)"
| "atom_matches (Lit c) seg = (seg = [c])"

definition glob_spec :: "glob \<Rightarrow> rune list \<Rightarrow> bool" where
  "glob_spec g text \<longleftrightarrow> (\<exists>segs. list_all2 atom_matches g segs \<and> concat segs = text)"

lemma glob_spec_Nil: "glob_spec [] text \<longleftrightarrow> text = []"
  by (auto simp: glob_spec_def)

lemma glob_spec_Cons:
  "glob_spec (a # g) text \<longleftrightarrow> (\<exists>s t. text = s @ t \<and> atom_matches a s \<and> glob_spec g t)"
  by (force simp: glob_spec_def list_all2_Cons1)

lemma glob_spec_run:
  "glob_spec (AnyRun # g) (x # xs) \<longleftrightarrow>
     glob_spec g (x # xs) \<or> (x \<noteq> 10 \<and> glob_spec (AnyRun # g) xs)"
proof
  assume "glob_spec (AnyRun # g) (x # xs)"
  then obtain s t where st: "x # xs = s @ t" "10 \<notin> set s" "glob_spec g t"
    by (auto simp: glob_spec_Cons)
  then show "glob_spec g (x # xs) \<or> (x \<noteq> 10 \<and> glob_spec (AnyRun # g) xs)"
    by (cases s) (auto simp: glob_spec_Cons)
next
  assume "glob_spec g (x # xs) \<or> (x \<noteq> 10 \<and> glob_spec (AnyRun # g) xs)"
  then show "glob_spec (AnyRun # g) (x # xs)"
  proof
    assume "glob_spec g (x # xs)"
    then have "x # xs = [] @ (x # xs) \<and> atom_matches AnyRun [] \<and> glob_spec g (x # xs)" by simp
    then show ?thesis unfolding glob_spec_Cons by blast
  next
    assume h: "x \<noteq> 10 \<and> glob_spec (AnyRun # g) xs"
    then obtain s t where "xs = s @ t" "10 \<notin> set s" "glob_spec g t" by (auto simp: glob_spec_Cons)
    with h have "x # xs = (x # s) @ t \<and> atom_matches AnyRun (x # s) \<and> glob_spec g t" by simp
    then show ?thesis unfolding glob_spec_Cons by blast
  qed
qed

lemma glob_spec_one: "glob_spec (AnyOne # g) xs \<longleftrightarrow> (\<exists>y ys. xs = y # ys \<and> y \<noteq> 10 \<and> glob_spec g ys)"
  by (auto simp: glob_spec_Cons) (metis append_Cons append_Nil)

lemma glob_spec_lit: "glob_spec (Lit c # g) xs \<longleftrightarrow> (\<exists>ys. xs = c # ys \<and> glob_spec g ys)"
  by (auto simp: glob_spec_Cons)

lemma glob_match_spec: "glob_match g rs \<longleftrightarrow> glob_spec g rs"
proof (induction g rs rule: glob_match.induct)
  case (8 g x xs)
  then show ?case by (simp add: glob_spec_run)
qed (auto simp: glob_spec_Nil glob_spec_one glob_spec_lit, auto simp: glob_spec_Cons glob_spec_Nil)

section \<open>Rules\<close>

record access_rule =
  provider :: string
  model_pattern :: string
  compiled :: "glob option"

type_synonym policy = "access_rule list"

definition parse_rule :: "string \<Rightarrow> access_rule result" where
  "parse_rule raw =
     (case cut (CHR '':'') (trim_space raw) of
        None \<Rightarrow> Inl (EMalformedRule raw)
      | Some (prov0, pattern0) \<Rightarrow>
          let prov = trim_space prov0; pattern = trim_space pattern0 in
          if prov = [] \<or> pattern = [] then Inl (EMalformedRule raw)
          else Inr \<lparr>provider = to_lower prov, model_pattern = to_lower pattern,
                    compiled = Some (compile_glob (to_lower pattern))\<rparr>)"

definition rule_string :: "access_rule \<Rightarrow> string" where
  "rule_string r = provider r @ '':'' @ model_pattern r"

definition rule_matches :: "access_rule \<Rightarrow> string \<Rightarrow> string \<Rightarrow> bool" where
  "rule_matches r prov model =
     (if provider r \<noteq> ''*'' \<and> provider r \<noteq> to_lower prov then False
      else if model_pattern r = ''*'' then True
      else
        let re = (case compiled r of Some re \<Rightarrow> re | None \<Rightarrow> compile_glob (model_pattern r))
        in glob_match re (runes (to_lower model)))"

section \<open>Policies\<close>

fun allows :: "policy \<Rightarrow> string \<Rightarrow> string \<Rightarrow> bool" where
  "allows [] prov model = False"
| "allows (r # p) prov model = (if rule_matches r prov model then True else allows p prov model)"

fun covers_all :: "policy \<Rightarrow> string \<Rightarrow> string list \<Rightarrow> bool" where
  "covers_all p model [] = True"
| "covers_all p model (prov # provs) = (if \<not> allows p prov model then False else covers_all p model provs)"

definition covers :: "policy \<Rightarrow> string \<Rightarrow> string list \<Rightarrow> bool" where
  "covers p model provs = (if provs = [] then False else covers_all p model provs)"

type_synonym catalog = "string \<Rightarrow> string list"

definition thinking_base :: "string \<Rightarrow> string" where
  "thinking_base model =
     (case last_index (CHR ''('') model of
        None \<Rightarrow> model
      | Some i \<Rightarrow> if \<not> suffix '')'' model then model else take i model)"

definition routed :: "catalog \<Rightarrow> string \<Rightarrow> string \<times> string list" where
  "routed catalog requested =
     (let base = thinking_base requested in
      if requested = ''auto'' \<or> base = ''auto'' then ([], [])
      else
        let trimmed = trim_space base; provs = catalog trimmed in
        if provs \<noteq> [] then (trimmed, provs)
        else if trimmed \<noteq> requested then (requested, catalog requested)
        else (trimmed, []))"

definition admits :: "policy \<Rightarrow> catalog \<Rightarrow> string \<Rightarrow> bool" where
  "admits p catalog requested = (let (model, provs) = routed catalog requested in covers p model provs)"

section \<open>Correctness\<close>

lemma allows_iff: "allows p prov model \<longleftrightarrow> (\<exists>r \<in> set p. rule_matches r prov model)"
  by (induction p) auto

lemma covers_all_iff: "covers_all p model provs \<longleftrightarrow> (\<forall>prov \<in> set provs. allows p prov model)"
  by (induction provs) auto

lemma covers_iff: "covers p model provs \<longleftrightarrow> provs \<noteq> [] \<and> (\<forall>prov \<in> set provs. allows p prov model)"
  by (simp add: covers_def covers_all_iff)

lemma routed_catalog: "routed catalog requested = (model, provs) \<Longrightarrow> provs \<noteq> [] \<Longrightarrow> provs = catalog model"
  by (auto simp: routed_def Let_def split: if_splits)

lemma routed_name:
  "routed catalog requested = (model, provs) \<Longrightarrow> provs \<noteq> [] \<Longrightarrow>
     model = trim_space (thinking_base requested) \<or> model = requested"
  by (auto simp: routed_def Let_def split: if_splits)

lemma routed_auto:
  "requested = ''auto'' \<or> thinking_base requested = ''auto'' \<Longrightarrow> routed catalog requested = ([], [])"
  by (auto simp: routed_def)

text \<open>A rule either half of which came out of \<open>ParseRule\<close> never carries a stale cache.\<close>

definition rule_wf :: "access_rule \<Rightarrow> bool" where
  "rule_wf r \<longleftrightarrow> (case compiled r of None \<Rightarrow> True | Some g \<Rightarrow> g = compile_glob (model_pattern r))"

lemma parse_rule_wf: "parse_rule raw = Inr r \<Longrightarrow> rule_wf r"
  by (auto simp: parse_rule_def Let_def rule_wf_def split: option.splits prod.splits if_splits)

text \<open>What a rule matches. Whether the compiled glob is cached or built on demand, a rule
  matches a provider and a model exactly when its provider half is a star or the lower-cased
  provider, and its model half is a star or a glob whose atoms cut the lower-cased model into
  one segment each.\<close>

lemma rule_matches_spec:
  assumes "rule_wf r"
  shows "rule_matches r prov model \<longleftrightarrow>
    (provider r = ''*'' \<or> provider r = to_lower prov) \<and>
    (model_pattern r = ''*'' \<or>
      glob_spec (compile_glob (model_pattern r)) (runes (to_lower model)))"
  using assms
  by (auto simp: rule_matches_def rule_wf_def glob_match_spec Let_def split: option.splits)

definition example_rule :: access_rule where
  "example_rule = \<lparr>provider = ''openrouter'', model_pattern = ''openai/*-4?'',
     compiled = Some (compile_glob ''openai/*-4?'')\<rparr>"

lemma example_rule_matches: "rule_matches example_rule ''OpenRouter'' ''OpenAI/gpt-4o''"
  by code_simp

section \<open>Stored rules\<close>

lemma cut_Some:
  "cut c s = Some (a, b) \<Longrightarrow> s = a @ c # b \<and> c \<notin> set a"
proof -
  assume h: "cut c s = Some (a, b)"
  then have "c \<in> set s" and a: "a = takeWhile (\<lambda>x. x \<noteq> c) s" and b: "b = tl (dropWhile (\<lambda>x. x \<noteq> c) s)"
    by (auto simp: cut_def split: if_splits)
  then have "dropWhile (\<lambda>x. x \<noteq> c) s \<noteq> []" by auto
  then have "dropWhile (\<lambda>x. x \<noteq> c) s = c # b"
    using hd_dropWhile [of "\<lambda>x. x \<noteq> c" s] b by (cases "dropWhile (\<lambda>x. x \<noteq> c) s") auto
  then show ?thesis using a takeWhile_dropWhile_id [of "\<lambda>x. x \<noteq> c" s]
    by (metis (mono_tags, lifting) set_takeWhileD)
qed

lemma cut_append: "c \<notin> set a \<Longrightarrow> cut c (a @ c # b) = Some (a, b)"
  by (induction a) (auto simp: cut_def)

lemma colon_chunk: "chunks (CHR '':'' # s) = ['':''] @ chunks s"
  by simp

lemma encode_rune_ne [simp]: "encode_rune r \<noteq> []"
  by (auto simp: encode_rune_def Let_def)

lemma to_lower_eq_Nil: "to_lower s = [] \<longleftrightarrow> s = []"
  by (cases s) (auto simp: to_lower_runes of_runes_def runes_def simp del: decode_rune.simps)

lemma trim_joined:
  assumes "trim_space p = p" "p \<noteq> []" "trim_space q = q" "q \<noteq> []"
  shows "trim_space (p @ '':'' @ q) = p @ '':'' @ q"
proof -
  have cs: "chunks (p @ CHR '':'' # q) = chunks p @ ['':''] @ chunks q"
    by (subst chunks_append) (auto simp: cont_def)
  have ne: "chunks p \<noteq> []" "chunks q \<noteq> []" using assms(2,4) by (cases p; cases q; simp)+
  have "\<not> space_chunk (hd (chunks p))" "\<not> space_chunk (last (chunks q))"
    using assms trimmed_iff by blast+
  then show ?thesis using ne by (simp add: trimmed_iff cs)
qed

lemma encode_ascii_byte: "c \<in> set (encode_rune r) \<Longrightarrow> ascii c \<Longrightarrow> r < 128 \<and> c = char_of r"
proof -
  assume c: "c \<in> set (encode_rune r)" "ascii c"
  define v where "v = (if valid_rune r then r else rune_error)"
  have "v < 1114112" by (auto simp: v_def valid_rune_def rune_error_def)
  then have "v div 262144 < 5" "v div 4096 < 272" by auto
  with c have "v < 128 \<and> c = char_of v"
    by (auto simp: encode_rune_def v_def [symmetric] ascii_def Let_def split: if_splits)
  then show ?thesis by (auto simp: v_def rune_error_def split: if_splits)
qed

lemma decode_ascii: "fst (decode_rune s) < 128 \<Longrightarrow> \<exists>t. s = char_of (fst (decode_rune s)) # t"
proof (cases s)
  case (Cons a t)
  assume lt: "fst (decode_rune s) < 128"
  have two: "128 \<le> (byte a - 192) * 64 + y" if "194 \<le> byte a" for y
  proof -
    have "2 * 64 \<le> (byte a - 192) * 64" using that by (intro mult_le_mono1) linarith
    then show ?thesis by simp
  qed
  have three: "128 \<le> (byte a - 224) * 4096 + (byte b - 128) * 64 + y" if "224 \<le> byte a" "accept3 (byte a) b" for b y
  proof (cases "byte a = 224")
    case True
    then have "160 \<le> byte b" using that by (simp add: accept3_def in_range_def)
    then have "32 * 64 \<le> (byte b - 128) * 64" by (intro mult_le_mono1) linarith
    then show ?thesis by simp
  next
    case False
    then have "1 * 4096 \<le> (byte a - 224) * 4096" using that by (intro mult_le_mono1) linarith
    then show ?thesis by simp
  qed
  have four: "128 \<le> (byte a - 240) * 262144 + (byte b - 128) * 4096 + y + z" if "240 \<le> byte a" "accept4 (byte a) b" for b y z
  proof (cases "byte a = 240")
    case True
    then have "144 \<le> byte b" using that by (simp add: accept4_def in_range_def)
    then have "16 * 4096 \<le> (byte b - 128) * 4096" by (intro mult_le_mono1) linarith
    then show ?thesis by simp
  next
    case False
    then have "1 * 262144 \<le> (byte a - 240) * 262144" using that by (intro mult_le_mono1) linarith
    then show ?thesis by simp
  qed
  have "byte a < 128"
  proof (rule ccontr)
    assume "\<not> byte a < 128"
    then show False
      using lt two three four unfolding Cons
      by (auto simp: Let_def rune_error_def not_le [symmetric] simp del: not_le split: list.splits if_splits)
  qed
  then show ?thesis by (simp add: Cons)
qed (simp add: rune_error_def)

lemma colon_to_lower: "CHR '':'' \<in> set (to_lower s) \<Longrightarrow> CHR '':'' \<in> set s"
proof -
  assume "CHR '':'' \<in> set (to_lower s)"
  then obtain c where c: "c \<in> set (chunks s)"
    and colon: "CHR '':'' \<in> set (encode_rune (rune_lower (fst (decode_rune c))))"
    by (auto simp: to_lower_runes of_runes_def runes_def)
  from encode_ascii_byte [OF colon]
  have r: "rune_lower (fst (decode_rune c)) < 128" "CHR '':'' = char_of (rune_lower (fst (decode_rune c)))"
    by (simp_all add: ascii_def)
  then have "byte CHR '':'' = rune_lower (fst (decode_rune c)) mod 256" by (metis of_char_of)
  with r(1) have "rune_lower (fst (decode_rune c)) = 58" by simp
  then have "fst (decode_rune c) = 58" by (auto simp: rune_lower_def split: if_splits)
  with decode_ascii [of c] obtain t where "c = char_of (58::nat) # t" by auto
  moreover have "CHR '':'' = char_of (58::nat)"
    using r(2) \<open>rune_lower (fst (decode_rune c)) = 58\<close> by simp
  ultimately have "CHR '':'' \<in> set c" by simp
  then show ?thesis using c concat_chunks [of s] by (metis UN_I set_concat)
qed

text \<open>A parsed rule written down by \<open>String\<close> is parsed back to the same rule, whatever the
  operator typed: white space, letter case and further colons in the model half included.\<close>

lemma parse_rule_roundtrip:
  assumes "parse_rule raw = Inr r"
  shows "parse_rule (rule_string r) = Inr r"
proof -
  obtain a b where cut: "cut (CHR '':'') (trim_space raw) = Some (a, b)"
    and ne: "trim_space a \<noteq> []" "trim_space b \<noteq> []"
    and r: "r = \<lparr>provider = to_lower (trim_space a), model_pattern = to_lower (trim_space b),
                    compiled = Some (compile_glob (to_lower (trim_space b)))\<rparr>"
    using assms by (auto simp: parse_rule_def Let_def split: option.splits prod.splits if_splits)
  let ?p = "to_lower (trim_space a)" and ?q = "to_lower (trim_space b)"
  have p: "trim_space ?p = ?p" "?p \<noteq> []" and q: "trim_space ?q = ?q" "?q \<noteq> []"
    using ne by (auto simp: trim_to_lower to_lower_eq_Nil)
  have "CHR '':'' \<notin> set a" using cut_Some [OF cut] by simp
  then have colon: "CHR '':'' \<notin> set ?p" using colon_to_lower set_trim_space by blast
  have "trim_space (?p @ '':'' @ ?q) = ?p @ '':'' @ ?q"
    by (rule trim_joined) (use p q in auto)
  then show ?thesis
    using cut_append [OF colon, of ?q] p q
    by (simp add: parse_rule_def rule_string_def r Let_def)
qed

section \<open>Admission\<close>

text \<open>C29: a request is admitted only through a model the catalogue serves, which is the
  requested name or that name without its thinking suffix, and only if the policy allows that
  model on every one of the providers serving it.\<close>

theorem admits_every_provider:
  assumes "admits p catalog requested"
  shows "\<exists>model. (model = requested \<or> model = trim_space (thinking_base requested)) \<and>
    catalog model \<noteq> [] \<and>
    (\<forall>prov \<in> set (catalog model). \<exists>r \<in> set p. rule_matches r prov model)"
proof -
  obtain model provs where r: "routed catalog requested = (model, provs)"
    and c: "provs \<noteq> []" "\<forall>prov \<in> set provs. allows p prov model"
    using assms by (auto simp: admits_def covers_iff split: prod.splits)
  show ?thesis
    using routed_name [OF r c(1)] routed_catalog [OF r c(1)] c
    by (intro exI [of _ model]) (auto simp: allows_iff)
qed

definition example_catalog :: catalog where
  "example_catalog model =
     (if model = ''gpt-5'' then [''chatgpt'', ''router''] else if model = ''opus'' then [''claude''] else [])"

definition example_policy :: policy where
  "example_policy = [\<lparr>provider = ''chatgpt'', model_pattern = ''*'', compiled = None\<rparr>,
     \<lparr>provider = ''*'', model_pattern = ''gpt*'', compiled = None\<rparr>]"

lemma example_admits: "admits example_policy example_catalog ''gpt-5(high)''"
  by code_simp

theorem admits_every_provider_witness:
  "\<exists>model. (model = ''gpt-5(high)'' \<or> model = trim_space (thinking_base ''gpt-5(high)'')) \<and>
    example_catalog model \<noteq> [] \<and>
    (\<forall>prov \<in> set (example_catalog model). \<exists>r \<in> set example_policy. rule_matches r prov model)"
  by (rule admits_every_provider [OF example_admits])

text \<open>The answer fails closed, and more rules only ever admit more.\<close>

lemma admits_unserved:
  "catalog requested = [] \<Longrightarrow> catalog (trim_space (thinking_base requested)) = [] \<Longrightarrow>
     \<not> admits p catalog requested"
  by (auto simp: admits_def routed_def covers_def Let_def)

lemma admits_auto: "requested = ''auto'' \<or> thinking_base requested = ''auto'' \<Longrightarrow> \<not> admits p catalog requested"
  by (auto simp: admits_def routed_auto covers_def)

lemma admits_mono: "admits p catalog requested \<Longrightarrow> set p \<subseteq> set q \<Longrightarrow> admits q catalog requested"
  by (auto simp: admits_def covers_iff allows_iff split: prod.splits) blast

end
