(* ===== verification/SpendRules.thy ===== *)
theory SpendRules
  imports Errors
begin

text \<open>
  \<open>internal/domain/limits/limits.go\<close>: the spend-limit rules, what a valid set is, which
  windows are live at an instant and whether one more request is admitted. A Go map keyed by
  the window's length is an association list updated in place. Amounts are \<open>float64\<close>, kept
  with their special values because \<open>Validate\<close> is written around them.
\<close>

section \<open>Rules\<close>

definition max_rules :: nat where "max_rules = 10"
definition min_window :: duration where "min_window = ns_minute"
definition max_window :: duration where "max_window = 365 * 24 * ns_hour"
definition max_amount_usd :: rat where "max_amount_usd = 1000000"

record limit_rule =
  r_window :: duration
  r_amount :: f64

type_synonym limit_set = "limit_rule list"

definition limit_rule_default :: limit_rule where
  "limit_rule_default = \<lparr>r_window = 0, r_amount = Fin 0\<rparr>"

fun validate_from :: "limit_rule list \<Rightarrow> limit_rule list \<Rightarrow> unit result" where
  "validate_from before [] = Inr ()"
| "validate_from before (rule # rest) =
     (let repeated = list_ex (\<lambda>o'. r_window o' = r_window rule) before in
      if r_window rule < min_window \<or> r_window rule > max_window
         \<or> r_window rule mod ns_minute \<noteq> 0 \<or> repeated
      then Inl (EInvalidLimits (int (length before)) FieldWindow)
      else if f64_is_nan (r_amount rule) \<or> f64_le (r_amount rule) (Fin 0)
              \<or> f64_lt (Fin max_amount_usd) (r_amount rule)
      then Inl (EInvalidLimits (int (length before)) FieldAmount)
      else validate_from (before @ [rule]) rest)"

definition validate :: "limit_set \<Rightarrow> unit result" where
  "validate set' =
     (if max_rules < length set' then Inl (EInvalidLimits (- 1) FieldCount)
      else validate_from [] set')"

definition effective :: "limit_set option \<Rightarrow> limit_set \<Rightarrow> limit_set" where
  "effective custom defaults = (case custom of Some own \<Rightarrow> own | None \<Rightarrow> defaults)"

section \<open>Windows\<close>

record window =
  w_length :: duration
  w_started :: instant
  w_spent :: f64

definition ends_at :: "window \<Rightarrow> instant" where
  "ends_at w = w_started w + w_length w"

definition live_at :: "window \<Rightarrow> instant \<Rightarrow> bool" where
  "live_at w now \<longleftrightarrow> now < ends_at w"

definition stored_of :: "window list \<Rightarrow> (duration \<times> window) list" where
  "stored_of rows = fold (\<lambda>w m. AList.update (w_length w) w m) rows []"

section \<open>The decision\<close>

record decision =
  d_blocked :: bool
  d_rule :: limit_rule
  d_resets_at :: instant
  d_wait :: duration
  d_open :: "limit_rule list"
  d_orphans :: "duration list"

definition decision_zero :: decision where
  "decision_zero = \<lparr>d_blocked = False, d_rule = limit_rule_default, d_resets_at = zero_time,
     d_wait = 0, d_open = [], d_orphans = []\<rparr>"

fun decide_loop ::
  "limit_rule list \<Rightarrow> (duration \<times> window) list \<Rightarrow> instant \<Rightarrow> decision
     \<Rightarrow> decision \<times> (duration \<times> window) list" where
  "decide_loop [] stored now d = (d, stored)"
| "decide_loop (rule # rest) stored now d =
     (let w = map_of stored (r_window rule); stored' = AList.delete (r_window rule) stored in
      case w of
        None \<Rightarrow> decide_loop rest stored' now (d\<lparr>d_open := d_open d @ [rule]\<rparr>)
      | Some w \<Rightarrow>
          if \<not> live_at w now then decide_loop rest stored' now (d\<lparr>d_open := d_open d @ [rule]\<rparr>)
          else if f64_le (r_amount rule) (w_spent w)
                  \<and> (\<not> d_blocked d \<or> d_resets_at d < ends_at w)
          then decide_loop rest stored' now
                 (d\<lparr>d_blocked := True, d_rule := rule, d_resets_at := ends_at w\<rparr>)
          else decide_loop rest stored' now d)"

definition decide :: "limit_set \<Rightarrow> window list \<Rightarrow> instant \<Rightarrow> decision" where
  "decide set' rows now =
     (let (d, stored) = decide_loop set' (stored_of rows) now decision_zero;
          d = d\<lparr>d_orphans := sort (map fst stored)\<rparr>
      in if d_blocked d then d\<lparr>d_open := [], d_wait := d_resets_at d - now\<rparr> else d)"

section \<open>What the API shows\<close>

record window_state =
  ws_rule :: limit_rule
  ws_started :: instant
  ws_resets :: instant
  ws_spent :: f64
  ws_exhausted :: bool

definition state_of :: "(duration \<times> window) list \<Rightarrow> instant \<Rightarrow> limit_rule \<Rightarrow> window_state" where
  "state_of stored now r =
     (let blank = \<lparr>ws_rule = r, ws_started = zero_time, ws_resets = zero_time,
                   ws_spent = Fin 0, ws_exhausted = False\<rparr>
      in case map_of stored (r_window r) of
           None \<Rightarrow> blank
         | Some w \<Rightarrow>
             if live_at w now
             then blank\<lparr>ws_started := w_started w, ws_resets := ends_at w, ws_spent := w_spent w,
                        ws_exhausted := f64_le (r_amount r) (w_spent w)\<rparr>
             else blank)"

definition states :: "limit_set \<Rightarrow> window list \<Rightarrow> instant \<Rightarrow> window_state list" where
  "states set' rows now = map (state_of (stored_of rows) now) (sort_key r_window set')"

text \<open>
  \<open>SpentPercent\<close> on the states a valid set yields, whose amounts and spending are finite; the
  epsilon of the source makes up for rounding, which exact arithmetic keeps as written.
\<close>

definition spent_percent :: "window_state \<Rightarrow> int" where
  "spent_percent s =
     (if ws_exhausted s then 100
      else case (ws_spent s, r_amount (ws_rule s)) of
        (Fin spent, Fin amount) \<Rightarrow>
          min (max (floor (spent / amount * 100 + 1 / 1000000000)) 0) 99
      | _ \<Rightarrow> 0)"

definition window_label :: "duration \<Rightarrow> string" where
  "window_label w =
     (let day = 24 * ns_hour in
      if w mod day = 0 then format_int (go_div w day) @ ''d''
      else if w mod ns_hour = 0 then format_int (go_div w ns_hour) @ ''h''
      else format_int (go_div w ns_minute) @ ''m'')"

section \<open>Valid sets\<close>

definition valid_amount :: "f64 \<Rightarrow> bool" where
  "valid_amount a \<longleftrightarrow> (case a of Fin q \<Rightarrow> 0 < q \<and> q \<le> max_amount_usd | _ \<Rightarrow> False)"

definition valid_window :: "duration \<Rightarrow> bool" where
  "valid_window w \<longleftrightarrow> min_window \<le> w \<and> w \<le> max_window \<and> w mod ns_minute = 0"

definition valid_set :: "limit_set \<Rightarrow> bool" where
  "valid_set rs \<longleftrightarrow> length rs \<le> max_rules \<and> distinct (map r_window rs)
     \<and> (\<forall>r \<in> set rs. valid_window (r_window r) \<and> valid_amount (r_amount r))"

lemma amount_check:
  "\<not> (f64_is_nan a \<or> f64_le a (Fin 0) \<or> f64_lt (Fin max_amount_usd) a) \<longleftrightarrow> valid_amount a"
  by (cases a) (auto simp: valid_amount_def f64_le_def not_le)

lemma validate_from_Inr:
  "validate_from before rs = Inr () \<longleftrightarrow>
     distinct (map r_window rs) \<and> r_window ` set before \<inter> r_window ` set rs = {}
     \<and> (\<forall>r \<in> set rs. valid_window (r_window r) \<and> valid_amount (r_amount r))"
proof (induction before rs rule: validate_from.induct)
  case (2 before rule rest)
  have rep: "list_ex (\<lambda>o'. r_window o' = r_window rule) before \<longleftrightarrow> r_window rule \<in> r_window ` set before"
    by (simp add: list_ex_iff image_iff) (metis)
  show ?case
  proof (cases "valid_window (r_window rule) \<and> r_window rule \<notin> r_window ` set before
      \<and> valid_amount (r_amount rule)")
    case True
    then have ok: "\<not> (r_window rule < min_window \<or> max_window < r_window rule
        \<or> r_window rule mod ns_minute \<noteq> 0 \<or> list_ex (\<lambda>o'. r_window o' = r_window rule) before)"
      "\<not> (f64_is_nan (r_amount rule) \<or> f64_le (r_amount rule) (Fin 0)
        \<or> f64_lt (Fin max_amount_usd) (r_amount rule))"
      unfolding amount_check rep by (auto simp: valid_window_def)
    then show ?thesis
      using 2 True by (simp add: Let_def) auto
  next
    case False
    then have bad: "(r_window rule < min_window \<or> max_window < r_window rule
        \<or> r_window rule mod ns_minute \<noteq> 0 \<or> list_ex (\<lambda>o'. r_window o' = r_window rule) before)
      \<or> (f64_is_nan (r_amount rule) \<or> f64_le (r_amount rule) (Fin 0)
        \<or> f64_lt (Fin max_amount_usd) (r_amount rule))"
      unfolding rep using amount_check [of "r_amount rule"] by (auto simp: valid_window_def)
    then show ?thesis using False by (auto simp: Let_def)
  qed
qed simp

lemma validate_Inr: "validate rs = Inr () \<longleftrightarrow> valid_set rs"
  by (auto simp: validate_def valid_set_def validate_from_Inr)

lemma validate_from_Inl:
  "validate_from before rs = Inl e \<Longrightarrow>
     \<exists>i r f. i < length rs \<and> rs ! i = r \<and> e = EInvalidLimits (int (length before + i)) f
       \<and> validate_from before (take i rs) = Inr ()
       \<and> (case f of FieldCount \<Rightarrow> False
          | FieldWindow \<Rightarrow> \<not> valid_window (r_window r)
              \<or> r_window r \<in> r_window ` set before \<union> r_window ` set (take i rs)
          | FieldAmount \<Rightarrow> \<not> valid_amount (r_amount r))"
proof (induction before rs rule: validate_from.induct)
  case (2 before rule rest)
  let ?w = "r_window rule < min_window \<or> r_window rule > max_window
         \<or> r_window rule mod ns_minute \<noteq> 0 \<or> list_ex (\<lambda>o'. r_window o' = r_window rule) before"
  let ?a = "f64_is_nan (r_amount rule) \<or> f64_le (r_amount rule) (Fin 0)
              \<or> f64_lt (Fin max_amount_usd) (r_amount rule)"
  consider "?w" | "\<not> ?w" "?a" | "\<not> ?w" "\<not> ?a" by argo
  then show ?case
  proof cases
    case 1
    then have "e = EInvalidLimits (int (length before)) FieldWindow" using 2(2) by (simp add: Let_def)
    moreover have "\<not> valid_window (r_window rule) \<or> r_window rule \<in> r_window ` set before"
      using 1 unfolding valid_window_def list_ex_iff by (metis imageI not_less)
    ultimately show ?thesis by (intro exI [of _ 0]) auto
  next
    case 2
    then have "e = EInvalidLimits (int (length before)) FieldAmount"
      using \<open>validate_from before (rule # rest) = Inl e\<close> by (simp add: Let_def)
    moreover have "\<not> valid_amount (r_amount rule)" using 2(2) amount_check by blast
    ultimately show ?thesis by (intro exI [of _ 0]) auto
  next
    case 3
    then have "validate_from (before @ [rule]) rest = Inl e"
      using 2(2) by (simp add: Let_def)
    from 2(1) [OF refl 3 this] obtain i r f where i: "i < length rest" "rest ! i = r"
      "e = EInvalidLimits (int (length (before @ [rule]) + i)) f"
      "validate_from (before @ [rule]) (take i rest) = Inr ()"
      "(case f of FieldCount \<Rightarrow> False
          | FieldWindow \<Rightarrow> \<not> valid_window (r_window r)
              \<or> r_window r \<in> r_window ` set (before @ [rule]) \<union> r_window ` set (take i rest)
          | FieldAmount \<Rightarrow> \<not> valid_amount (r_amount r))"
      by blast
    then show ?thesis
      using 3 by (intro exI [of _ "Suc i"] exI [of _ r] exI [of _ f]) (auto simp: Let_def split: limits_field.splits)
  qed
qed simp

section \<open>The loop of Decide\<close>

definition live_window :: "(duration \<times> window) list \<Rightarrow> instant \<Rightarrow> limit_rule \<Rightarrow> window option" where
  "live_window stored now r =
     (case map_of stored (r_window r) of None \<Rightarrow> None | Some w \<Rightarrow> if live_at w now then Some w else None)"

definition exhausts :: "(duration \<times> window) list \<Rightarrow> instant \<Rightarrow> limit_rule \<Rightarrow> window \<Rightarrow> bool" where
  "exhausts stored now r w \<longleftrightarrow> live_window stored now r = Some w \<and> f64_le (r_amount r) (w_spent w)"

lemma decide_loop_step:
  "decide_loop (rule # rest) stored now d =
     (let stored' = AList.delete (r_window rule) stored in
      case live_window stored now rule of
        None \<Rightarrow> decide_loop rest stored' now (d\<lparr>d_open := d_open d @ [rule]\<rparr>)
      | Some w \<Rightarrow>
          if f64_le (r_amount rule) (w_spent w) \<and> (\<not> d_blocked d \<or> d_resets_at d < ends_at w)
          then decide_loop rest stored' now
                 (d\<lparr>d_blocked := True, d_rule := rule, d_resets_at := ends_at w\<rparr>)
          else decide_loop rest stored' now d)"
  by (auto simp: live_window_def Let_def split: option.splits)

lemma live_window_delete:
  "r_window r \<noteq> k \<Longrightarrow> live_window (AList.delete k stored) now r = live_window stored now r"
  by (simp add: live_window_def delete_conv')

lemma live_window_other:
  "r_window r \<notin> r_window ` set rs \<Longrightarrow> s \<in> set rs \<Longrightarrow>
     live_window (AList.delete (r_window r) stored) now s = live_window stored now s"
  by (rule live_window_delete) (metis imageI)

lemma decide_loop_open:
  assumes "distinct (map r_window rs)" and "decide_loop rs stored now d = (d', stored')"
  shows "d_open d' = d_open d @ filter (\<lambda>r. live_window stored now r = None) rs"
    and "map fst stored' = filter (\<lambda>k. k \<notin> r_window ` set rs) (map fst stored)"
    and "d_wait d' = d_wait d \<and> d_orphans d' = d_orphans d"
proof -
  have "d_open d' = d_open d @ filter (\<lambda>r. live_window stored now r = None) rs
    \<and> map fst stored' = filter (\<lambda>k. k \<notin> r_window ` set rs) (map fst stored)
    \<and> d_wait d' = d_wait d \<and> d_orphans d' = d_orphans d"
    using assms
  proof (induction rs arbitrary: stored d)
    case (Cons r rs)
    let ?m = "AList.delete (r_window r) stored"
    have same: "filter (\<lambda>r. live_window ?m now r = None) rs = filter (\<lambda>r. live_window stored now r = None) rs"
      using Cons.prems(1) by (intro filter_cong) (auto simp: live_window_other)
    have keys: "filter (\<lambda>k. k \<notin> r_window ` set rs) (map fst ?m)
        = filter (\<lambda>k. k \<notin> r_window ` set (r # rs)) (map fst stored)"
      by (induction stored) auto
    show ?case
      using Cons.IH [of ?m] Cons.prems
      by (cases "live_window stored now r")
        (fastforce simp: decide_loop_step Let_def same keys simp del: decide_loop.simps
          split: if_splits)+
  qed auto
  then show "d_open d' = d_open d @ filter (\<lambda>r. live_window stored now r = None) rs"
    "map fst stored' = filter (\<lambda>k. k \<notin> r_window ` set rs) (map fst stored)"
    "d_wait d' = d_wait d \<and> d_orphans d' = d_orphans d" by auto
qed

text \<open>What the three blocking fields of the accumulator say of the rules read so far.\<close>

definition blocking :: "(limit_rule \<times> window) set \<Rightarrow> decision \<Rightarrow> bool" where
  "blocking X d \<longleftrightarrow>
     (d_blocked d \<longleftrightarrow> X \<noteq> {})
     \<and> (\<forall>(r, w) \<in> X. ends_at w \<le> d_resets_at d)
     \<and> (d_blocked d \<longrightarrow> (\<exists>(r, w) \<in> X. d_rule d = r \<and> d_resets_at d = ends_at w))"

lemma blocking_open [simp]: "blocking X (d\<lparr>d_open := o'\<rparr>) = blocking X d"
  by (simp add: blocking_def)

lemma blocking_add:
  assumes "blocking X d"
  shows "blocking (insert (r, w) X)
    (if \<not> d_blocked d \<or> d_resets_at d < ends_at w
     then d\<lparr>d_blocked := True, d_rule := r, d_resets_at := ends_at w\<rparr> else d)"
  using assms by (cases "X = {}") (force simp: blocking_def)+

lemma decide_loop_blocking:
  assumes "distinct (map r_window rs)" and "decide_loop rs stored now d = (d', stored')"
    and "blocking X d"
  shows "blocking (X \<union> {(r, w). r \<in> set rs \<and> exhausts stored now r w}) d'"
  using assms
proof (induction rs arbitrary: stored d X)
  case (Cons r rs)
  let ?m = "AList.delete (r_window r) stored"
  have later: "{(s, w). s \<in> set rs \<and> exhausts ?m now s w} = {(s, w). s \<in> set rs \<and> exhausts stored now s w}"
    using Cons.prems(1) by (auto simp: exhausts_def live_window_other)
  show ?case
  proof (cases "\<exists>w. exhausts stored now r w")
    case True
    then obtain w where w: "exhausts stored now r w" by blast
    then have only: "{(s, v). s \<in> set (r # rs) \<and> exhausts stored now s v}
        = insert (r, w) {(s, v). s \<in> set rs \<and> exhausts stored now s v}"
      by (auto simp: exhausts_def)
    have "decide_loop (r # rs) stored now d = decide_loop rs ?m now
        (if \<not> d_blocked d \<or> d_resets_at d < ends_at w
         then d\<lparr>d_blocked := True, d_rule := r, d_resets_at := ends_at w\<rparr> else d)"
      using w by (auto simp: decide_loop_step exhausts_def Let_def simp del: decide_loop.simps)
    then show ?thesis
      using Cons.IH [of ?m _ "insert (r, w) X"] Cons.prems blocking_add [OF Cons.prems(3), of r w]
      by (simp only: later only Un_insert_right Un_insert_left distinct.simps list.map simp_thms)
  next
    case False
    then have only: "{(s, v). s \<in> set (r # rs) \<and> exhausts stored now s v}
        = {(s, v). s \<in> set rs \<and> exhausts stored now s v}"
      by auto
    obtain d1 where "decide_loop (r # rs) stored now d = decide_loop rs ?m now d1" "blocking X d1"
      using False Cons.prems(3)
      by (cases "live_window stored now r")
        (auto simp: decide_loop_step exhausts_def Let_def simp del: decide_loop.simps)
    then show ?thesis
      using Cons.IH [of ?m d1 X] Cons.prems(1,2)
      by (simp only: later only distinct.simps list.map simp_thms)
  qed
qed simp

lemma decide_loop_total:
  obtains d stored where "decide_loop rs m now decision_zero = (d, stored)" by fastforce

lemma stored_of_snoc: "stored_of (rows @ [w]) = AList.update (w_length w) w (stored_of rows)"
  by (simp add: stored_of_def)

lemma stored_of_keys: "set (map fst (stored_of rows)) = w_length ` set rows \<and> distinct (map fst (stored_of rows))"
  by (induction rows rule: rev_induct)
    (auto simp: stored_of_snoc update_conv' distinct_update dom_update stored_of_def)

lemma stored_of_lookup:
  "distinct (map w_length rows) \<Longrightarrow> w \<in> set rows \<Longrightarrow> map_of (stored_of rows) (w_length w) = Some w"
proof (induction rows rule: rev_induct)
  case (snoc v rows)
  then show ?case by (cases "w = v") (auto simp: stored_of_snoc update_conv' image_iff)
qed simp

lemma stored_of_Some: "map_of (stored_of rows) k = Some w \<Longrightarrow> w \<in> set rows \<and> w_length w = k"
  by (induction rows rule: rev_induct)
    (auto simp: stored_of_snoc update_conv' stored_of_def split: if_splits)

section \<open>Correctness\<close>

text \<open>Validate accepts a set exactly when it holds at most ten rules, no window twice, and
  each rule's window is whole minutes between a minute and 365 days and its amount above zero
  and at most a million dollars.\<close>

lemma validate_accepts:
  "validate rs = Inr () \<longleftrightarrow>
     length rs \<le> 10 \<and> distinct (map r_window rs)
     \<and> list_all (\<lambda>r. (\<exists>m \<in> {1..525600}. r_window r = m * 60000000000)
          \<and> (\<exists>q \<in> {0<..1000000}. r_amount r = Fin q)) rs"
proof -
  have "valid_window w \<longleftrightarrow> (\<exists>m \<in> {1..525600}. w = m * 60000000000)" for w
  proof
    assume h: "valid_window w"
    then have "w = (w div 60000000000) * 60000000000"
      unfolding valid_window_def ns_units by (simp add: algebra_simps minus_mod_eq_mult_div [symmetric])
    moreover have "w div 60000000000 \<in> {1..525600}"
      using h by (auto simp: valid_window_def min_window_def max_window_def)
    ultimately show "\<exists>m \<in> {1..525600}. w = m * 60000000000" by blast
  qed (auto simp: valid_window_def min_window_def max_window_def)
  moreover have "valid_amount a \<longleftrightarrow> (\<exists>q \<in> {0<..1000000}. a = Fin q)" for a
    by (cases a) (auto simp: valid_amount_def max_amount_usd_def)
  ultimately show ?thesis
    by (auto simp: validate_Inr valid_set_def max_rules_def list_all_iff)
qed

text \<open>What the decision rests on: the live window a rule has among the stored rows.\<close>

definition rows_wf :: "window list \<Rightarrow> bool" where
  "rows_wf rows \<longleftrightarrow> distinct (map w_length rows)"

definition live_row :: "window list \<Rightarrow> instant \<Rightarrow> limit_rule \<Rightarrow> window option" where
  "live_row rows now r = find (\<lambda>w. w_length w = r_window r \<and> live_at w now) rows"

lemma find_some_unique:
  "w \<in> set rows \<Longrightarrow> P w \<Longrightarrow> (\<And>v. v \<in> set rows \<Longrightarrow> P v \<Longrightarrow> v = w) \<Longrightarrow> find P rows = Some w"
  by (cases "find P rows") (metis find_None_not, metis find_Some_mem)

lemma live_row_iff:
  assumes "rows_wf rows"
  shows "live_row rows now r = Some w \<longleftrightarrow> w \<in> set rows \<and> w_length w = r_window r \<and> live_at w now"
proof
  assume "live_row rows now r = Some w"
  then show "w \<in> set rows \<and> w_length w = r_window r \<and> live_at w now"
    unfolding live_row_def by (auto dest: find_Some_mem)
next
  assume "w \<in> set rows \<and> w_length w = r_window r \<and> live_at w now"
  with assms show "live_row rows now r = Some w" unfolding live_row_def rows_wf_def
    by (intro find_some_unique) (auto simp: distinct_map inj_on_def)
qed

lemma live_window_row:
  assumes "rows_wf rows"
  shows "live_window (stored_of rows) now r = live_row rows now r"
proof (cases "live_row rows now r")
  case None
  then have "\<not> (w \<in> set rows \<and> w_length w = r_window r \<and> live_at w now)" for w
    using live_row_iff [OF assms] by (metis option.distinct(1))
  then show ?thesis using None stored_of_Some [of rows "r_window r"]
    by (auto simp: live_window_def split: option.splits)
next
  case (Some w)
  then have "w \<in> set rows" "w_length w = r_window r" "live_at w now"
    using live_row_iff [OF assms] by auto
  then show ?thesis using Some assms stored_of_lookup [of rows w]
    by (auto simp: live_window_def rows_wf_def)
qed

definition spent_out :: "window list \<Rightarrow> instant \<Rightarrow> limit_rule \<Rightarrow> window \<Rightarrow> bool" where
  "spent_out rows now r w \<longleftrightarrow> live_row rows now r = Some w \<and> f64_le (r_amount r) (w_spent w)"

lemma decide_cases:
  assumes "distinct (map r_window rs)" and "rows_wf rows"
  obtains d where "decide rs rows now = (if d_blocked d then d\<lparr>d_open := [], d_wait := d_resets_at d - now\<rparr> else d)"
    and "blocking {(r, w). r \<in> set rs \<and> spent_out rows now r w} d"
    and "d_open d = filter (\<lambda>r. live_row rows now r = None) rs"
    and "d_orphans d = sort (filter (\<lambda>k. k \<notin> r_window ` set rs) (map fst (stored_of rows)))"
    and "d_wait d = 0"
proof -
  obtain d m where dm: "decide_loop rs (stored_of rows) now decision_zero = (d, m)" by fastforce
  have "blocking {} decision_zero" by (simp add: blocking_def decision_zero_def)
  from decide_loop_blocking [OF assms(1) dm this]
  have "blocking {(r, w). r \<in> set rs \<and> spent_out rows now r w} d"
    by (simp add: exhausts_def spent_out_def live_window_row [OF assms(2)])
  moreover note decide_loop_open [OF assms(1) dm]
  moreover define e where "e = d\<lparr>d_orphans := sort (map fst m)\<rparr>"
  moreover have "decide rs rows now = (if d_blocked e then e\<lparr>d_open := [], d_wait := d_resets_at e - now\<rparr> else e)"
    by (simp add: decide_def dm e_def)
  ultimately show ?thesis
    by (intro that [of e]) (simp_all add: blocking_def live_window_row [OF assms(2)] decision_zero_def)
qed

lemma decide_facts:
  assumes "distinct (map r_window rs)" and "rows_wf rows"
  shows "let d = decide rs rows now in
    (d_blocked d \<longleftrightarrow> (\<exists>r \<in> set rs. \<exists>w. spent_out rows now r w))
    \<and> (if d_blocked d
       then (\<exists>w. d_rule d \<in> set rs \<and> spent_out rows now (d_rule d) w \<and> d_resets_at d = ends_at w)
         \<and> (\<forall>r \<in> set rs. \<forall>w. spent_out rows now r w \<longrightarrow> ends_at w \<le> d_resets_at d)
         \<and> d_wait d = d_resets_at d - now \<and> 0 < d_wait d \<and> d_open d = []
       else d_open d = filter (\<lambda>r. live_row rows now r = None) rs)"
proof -
  obtain d where d: "decide rs rows now = (if d_blocked d then d\<lparr>d_open := [], d_wait := d_resets_at d - now\<rparr> else d)"
    and b: "blocking {(r, w). r \<in> set rs \<and> spent_out rows now r w} d"
    and o: "d_open d = filter (\<lambda>r. live_row rows now r = None) rs"
    by (rule decide_cases [OF assms, of now])
  have live: "now < ends_at w" if "spent_out rows now r w" for r w
    using that live_row_iff [OF assms(2)] by (auto simp: spent_out_def live_at_def)
  show ?thesis
    using b o live by (auto simp: d Let_def blocking_def)
qed

text \<open>C28: a request is refused exactly when some rule has a live window whose spending reached
  the rule's amount. A refusal names such a rule, the end of its window, which is the latest of
  all of them, and the time left until it, which is positive, and opens nothing; an admission
  opens exactly the rules with no live window.\<close>

theorem decide_spec:
  assumes "distinct (map r_window rs)" and "rows_wf rows"
  shows "let d = decide rs rows now in
    (d_blocked d \<longleftrightarrow> (\<exists>r \<in> set rs. \<exists>w. spent_out rows now r w))
    \<and> (if d_blocked d
       then (\<exists>w. d_rule d \<in> set rs \<and> spent_out rows now (d_rule d) w \<and> d_resets_at d = ends_at w)
         \<and> (\<forall>r \<in> set rs. \<forall>w. spent_out rows now r w \<longrightarrow> ends_at w \<le> d_resets_at d)
         \<and> d_wait d = d_resets_at d - now \<and> 0 < d_wait d \<and> d_open d = []
       else d_open d = filter (\<lambda>r. live_row rows now r = None) rs)"
  by (rule decide_facts [OF assms])

lemma orphans_of:
  assumes "distinct (map r_window rs)" and "rows_wf rows"
  shows "set (d_orphans (decide rs rows now)) = w_length ` set rows - r_window ` set rs
    \<and> sorted (d_orphans (decide rs rows now)) \<and> distinct (d_orphans (decide rs rows now))"
proof -
  obtain d where d: "decide rs rows now = (if d_blocked d then d\<lparr>d_open := [], d_wait := d_resets_at d - now\<rparr> else d)"
    and o: "d_orphans d = sort (filter (\<lambda>k. k \<notin> r_window ` set rs) (map fst (stored_of rows)))"
    by (rule decide_cases [OF assms, of now])
  have "d_orphans (decide rs rows now) = sort (filter (\<lambda>k. k \<notin> r_window ` set rs) (map fst (stored_of rows)))"
    by (simp add: d o)
  then show ?thesis using stored_of_keys [of rows] by auto
qed

lemmas orphans_set = orphans_of [THEN conjunct1]

definition example_limits :: limit_set where
  "example_limits = [\<lparr>r_window = 120 * ns_minute, r_amount = Fin 5\<rparr>, \<lparr>r_window = 24 * ns_hour, r_amount = Fin 20\<rparr>,
     \<lparr>r_window = ns_minute, r_amount = Fin 1\<rparr>]"

definition example_rows :: "window list" where
  "example_rows = [\<lparr>w_length = 120 * ns_minute, w_started = 1000, w_spent = Fin (11 / 2)\<rparr>,
     \<lparr>w_length = 24 * ns_hour, w_started = 500, w_spent = Fin 20\<rparr>,
     \<lparr>w_length = 7 * 24 * ns_hour, w_started = 0, w_spent = Fin 3\<rparr>]"

theorem decide_spec_witness:
  "let d = decide example_limits example_rows 2000 in
    (d_blocked d \<longleftrightarrow> (\<exists>r \<in> set example_limits. \<exists>w. spent_out example_rows 2000 r w))
    \<and> (if d_blocked d
       then (\<exists>w. d_rule d \<in> set example_limits \<and> spent_out example_rows 2000 (d_rule d) w
              \<and> d_resets_at d = ends_at w)
         \<and> (\<forall>r \<in> set example_limits. \<forall>w. spent_out example_rows 2000 r w \<longrightarrow> ends_at w \<le> d_resets_at d)
         \<and> d_wait d = d_resets_at d - 2000 \<and> 0 < d_wait d \<and> d_open d = []
       else d_open d = filter (\<lambda>r. live_row example_rows 2000 r = None) example_limits)"
  by (rule decide_spec) (simp_all add: example_limits_def example_rows_def rows_wf_def)

lemma example_blocked: "d_blocked (decide example_limits example_rows 2000)
    \<and> d_rule (decide example_limits example_rows 2000) = example_limits ! 1"
  by code_simp

text \<open>The orphans of a decision are the stored windows no rule has, each once, in order.\<close>

lemma decide_orphans:
  assumes "distinct (map r_window rs)" and "rows_wf rows"
  shows "set (d_orphans (decide rs rows now)) = w_length ` set rows - r_window ` set rs
    \<and> sorted (d_orphans (decide rs rows now)) \<and> distinct (d_orphans (decide rs rows now))"
  by (rule orphans_of [OF assms])

lemma decide_orphans_witness:
  "set (d_orphans (decide example_limits example_rows 2000)) = w_length ` set example_rows - r_window ` set example_limits
    \<and> sorted (d_orphans (decide example_limits example_rows 2000))
    \<and> distinct (d_orphans (decide example_limits example_rows 2000))"
  by (rule decide_orphans) (simp_all add: example_limits_def example_rows_def rows_wf_def)

section \<open>What the API shows agrees with the decision\<close>

lemma state_of_row:
  assumes "rows_wf rows"
  shows "state_of (stored_of rows) now r =
    (case live_row rows now r of
       None \<Rightarrow> \<lparr>ws_rule = r, ws_started = zero_time, ws_resets = zero_time, ws_spent = Fin 0, ws_exhausted = False\<rparr>
     | Some w \<Rightarrow> \<lparr>ws_rule = r, ws_started = w_started w, ws_resets = ends_at w, ws_spent = w_spent w,
                 ws_exhausted = f64_le (r_amount r) (w_spent w)\<rparr>)"
  using live_window_row [OF assms, of now r, symmetric]
  by (auto simp: state_of_def live_window_def Let_def split: option.splits)

lemma spent_percent_range:
  "0 \<le> spent_percent s \<and> spent_percent s \<le> 100 \<and> (spent_percent s = 100 \<longleftrightarrow> ws_exhausted s)"
  by (auto simp: spent_percent_def split: f64.splits)

text \<open>The states the API shows list the rules by window length, each with a percentage
  between 0 and 100; a request is refused exactly when one of them reads 100 percent, and 100
  percent is shown exactly when the window's spending reached its rule's amount.\<close>

lemma states_agree:
  assumes "distinct (map r_window rs)" and "rows_wf rows"
  shows "map ws_rule (states rs rows now) = sort_key r_window rs
    \<and> (\<forall>s \<in> set (states rs rows now). 0 \<le> spent_percent s \<and> spent_percent s \<le> 100
         \<and> (spent_percent s = 100 \<longleftrightarrow> (\<exists>w. spent_out rows now (ws_rule s) w)))
    \<and> (d_blocked (decide rs rows now) \<longleftrightarrow> (\<exists>s \<in> set (states rs rows now). spent_percent s = 100))"
proof -
  have rule: "ws_rule (state_of (stored_of rows) now r) = r" for r
    by (simp add: state_of_row [OF assms(2)] split: option.splits)
  have ex: "ws_exhausted (state_of (stored_of rows) now r) \<longleftrightarrow> (\<exists>w. spent_out rows now r w)" for r
    by (auto simp: state_of_row [OF assms(2)] spent_out_def split: option.splits)
  show ?thesis
    using decide_facts [OF assms, of now] spent_percent_range
    by (auto simp: states_def rule ex comp_def Let_def)
qed

end
