(* ===== verification/Base64.thy ===== *)
theory Base64
  imports GoStrings
begin

text \<open>
  The two unpadded encodings of Go's \<open>encoding/base64\<close> the program uses: \<open>RawStdEncoding\<close> in
  stored password hashes and \<open>RawURLEncoding\<close> in token secrets, session ids and the state,
  nonce and verifier of a sign-in. Decoding skips carriage returns and line feeds and does not
  look at the bits a last group leaves over, as the library does outside strict mode.
\<close>

section \<open>Alphabets\<close>

definition std_alphabet :: string where
  "std_alphabet = ''ABCDEFGHIJKLMNOPQRSTUVWXYZabcdefghijklmnopqrstuvwxyz0123456789+/''"

definition url_alphabet :: string where
  "url_alphabet = ''ABCDEFGHIJKLMNOPQRSTUVWXYZabcdefghijklmnopqrstuvwxyz0123456789-_''"

definition digit_of :: "string \<Rightarrow> nat \<Rightarrow> char" where
  "digit_of alphabet n = alphabet ! n"

fun index_of :: "char \<Rightarrow> string \<Rightarrow> nat option" where
  "index_of c [] = None"
| "index_of c (x # xs) = (if c = x then Some 0 else map_option Suc (index_of c xs))"

section \<open>Encoding and decoding\<close>

fun encode_digits :: "nat list \<Rightarrow> nat list" where
  "encode_digits [] = []"
| "encode_digits [a] = [a div 4, a mod 4 * 16]"
| "encode_digits [a, b] = [a div 4, a mod 4 * 16 + b div 16, b mod 16 * 4]"
| "encode_digits (a # b # c # rest) =
     a div 4 # (a mod 4 * 16 + b div 16) # (b mod 16 * 4 + c div 64) # c mod 64 # encode_digits rest"

fun decode_digits :: "nat list \<Rightarrow> nat list option" where
  "decode_digits [] = Some []"
| "decode_digits [_] = None"
| "decode_digits [p, q] = Some [p * 4 + q div 16]"
| "decode_digits [p, q, r] = Some [p * 4 + q div 16, q mod 16 * 16 + r div 4]"
| "decode_digits (p # q # r # s # rest) =
     map_option (\<lambda>bs. (p * 4 + q div 16) # (q mod 16 * 16 + r div 4) # (r mod 4 * 64 + s) # bs)
       (decode_digits rest)"

fun digits_in :: "string \<Rightarrow> string \<Rightarrow> nat list option" where
  "digits_in alphabet [] = Some []"
| "digits_in alphabet (c # cs) =
     (case index_of c alphabet of None \<Rightarrow> None
      | Some n \<Rightarrow> map_option ((#) n) (digits_in alphabet cs))"

definition b64_encode :: "string \<Rightarrow> string \<Rightarrow> string" where
  "b64_encode alphabet bytes = map (digit_of alphabet) (encode_digits (map byte bytes))"

definition b64_decode :: "string \<Rightarrow> string \<Rightarrow> string option" where
  "b64_decode alphabet s =
     (case digits_in alphabet (filter (\<lambda>c. byte c \<noteq> 10 \<and> byte c \<noteq> 13) s) of
        None \<Rightarrow> None
      | Some ds \<Rightarrow> map_option (map char_of) (decode_digits ds))"

section \<open>Round trip\<close>

definition good_alphabet :: "string \<Rightarrow> bool" where
  "good_alphabet alphabet \<longleftrightarrow> length alphabet = 64 \<and> distinct alphabet
     \<and> list_all (\<lambda>c. byte c \<noteq> 10 \<and> byte c \<noteq> 13 \<and> c \<noteq> CHR ''$'') alphabet"

lemma good_alphabets [simp]: "good_alphabet std_alphabet" "good_alphabet url_alphabet"
  by (simp_all add: good_alphabet_def std_alphabet_def url_alphabet_def)

lemma index_of_nth: "distinct xs \<Longrightarrow> n < length xs \<Longrightarrow> index_of (xs ! n) xs = Some n"
proof (induction xs arbitrary: n)
  case (Cons x xs)
  then show ?case by (cases n) auto
qed simp

lemma index_of_less: "index_of c xs = Some n \<Longrightarrow> n < length xs \<and> xs ! n = c"
  by (induction xs arbitrary: n) (auto split: if_splits)

lemma encode_digits_range:
  "\<forall>a \<in> set bs. a < 256 \<Longrightarrow> d \<in> set (encode_digits bs) \<Longrightarrow> d < 64"
  by (induction bs rule: encode_digits.induct) auto

lemma split_digit: "(y::nat) < n \<Longrightarrow> (x * n + y) div n = x \<and> (x * n + y) mod n = y"
  by simp

lemma quad1: "(b::nat) < 256 \<Longrightarrow> a div 4 * 4 + (a mod 4 * 16 + b div 16) div 16 = a"
  using split_digit [of "b div 16" 16 "a mod 4"] by (simp add: less_mult_imp_div_less)

lemma quad2: "(b::nat) < 256 \<Longrightarrow> c < 256 \<Longrightarrow>
  (a mod 4 * 16 + b div 16) mod 16 * 16 + (b mod 16 * 4 + c div 64) div 4 = b"
  using split_digit [of "b div 16" 16 "a mod 4"] split_digit [of "c div 64" 4 "b mod 16"]
  by (simp add: less_mult_imp_div_less)

lemma quad3: "(c::nat) < 256 \<Longrightarrow> (b mod 16 * 4 + c div 64) mod 4 * 64 + c mod 64 = c"
  using split_digit [of "c div 64" 4 "b mod 16"] by (simp add: less_mult_imp_div_less)

lemma decode_encode_digits: "\<forall>a \<in> set bs. a < 256 \<Longrightarrow> decode_digits (encode_digits bs) = Some bs"
proof (induction bs rule: encode_digits.induct)
  case (2 a)
  then show ?case using quad1 [of 0 a] by simp
next
  case (3 a b)
  then show ?case using quad1 [of b a] quad2 [of b 0 a] by simp
next
  case (4 a b c rest)
  then show ?case using quad1 [of b a] quad2 [of b c a] quad3 [of c b] by simp
qed simp

lemma digits_in_map:
  "good_alphabet alphabet \<Longrightarrow> \<forall>d \<in> set ds. d < 64 \<Longrightarrow>
     digits_in alphabet (map (digit_of alphabet) ds) = Some ds"
  by (induction ds) (auto simp: good_alphabet_def digit_of_def index_of_nth)

lemma digit_plain:
  "good_alphabet alphabet \<Longrightarrow> d < 64 \<Longrightarrow>
     byte (digit_of alphabet d) \<noteq> 10 \<and> byte (digit_of alphabet d) \<noteq> 13 \<and> digit_of alphabet d \<noteq> CHR ''$''"
  unfolding good_alphabet_def digit_of_def list_all_iff by (metis nth_mem)

lemma b64_roundtrip:
  assumes "good_alphabet alphabet"
  shows "b64_decode alphabet (b64_encode alphabet bytes) = Some bytes"
proof -
  let ?ds = "encode_digits (map byte bytes)"
  have small: "\<forall>d \<in> set ?ds. d < 64" using encode_digits_range [of "map byte bytes"] by auto
  have "filter (\<lambda>c. byte c \<noteq> 10 \<and> byte c \<noteq> 13) (b64_encode alphabet bytes) = b64_encode alphabet bytes"
    using small digit_plain [OF assms] by (auto simp: b64_encode_def filter_id_conv)
  moreover have "decode_digits ?ds = Some (map byte bytes)" by (rule decode_encode_digits) auto
  ultimately show ?thesis
    using digits_in_map [OF assms small] by (simp add: b64_decode_def b64_encode_def comp_def)
qed

lemma b64_no_dollar: "good_alphabet alphabet \<Longrightarrow> CHR ''$'' \<notin> set (b64_encode alphabet bytes)"
proof
  assume g: "good_alphabet alphabet" and "CHR ''$'' \<in> set (b64_encode alphabet bytes)"
  then obtain d where "d \<in> set (encode_digits (map byte bytes))" "digit_of alphabet d = CHR ''$''"
    by (auto simp: b64_encode_def)
  moreover have "\<forall>a \<in> set (map byte bytes). a < 256" by auto
  ultimately show False using encode_digits_range digit_plain [OF g] by blast
qed

lemma b64_encode_inj:
  "good_alphabet alphabet \<Longrightarrow> b64_encode alphabet a = b64_encode alphabet b \<Longrightarrow> a = b"
  by (metis b64_roundtrip option.inject)

lemma encode_digits_length: "length (encode_digits bs) = (4 * length bs + 2) div 3"
  by (induction bs rule: encode_digits.induct) auto

lemma b64_encode_length: "length (b64_encode alphabet bytes) = (4 * length bytes + 2) div 3"
  by (simp add: b64_encode_def encode_digits_length)

end
