(* ===== verification/Identity.thy ===== *)
theory Identity
  imports Access SpendRules Base64
begin

text \<open>
  \<open>internal/domain/identity\<close> (accounts and password hashes), and the rules \<open>internal/app\<close>
  keeps beside them: the administrator guard (\<open>admin.go\<close>), the answer to a sign-in challenge
  (\<open>challenge.go\<close>) and the text form of a principal (\<open>principal.go\<close>). Argon2 and the text
  form of a UUID are third-party code: arguments of the definitions that use them.
\<close>

section \<open>Accounts\<close>

definition kind_human :: string where "kind_human = ''human''"
definition kind_service :: string where "kind_service = ''service''"
definition role_user :: string where "role_user = ''user''"
definition role_admin :: string where "role_admin = ''admin''"
definition status_active :: string where "status_active = ''active''"
definition status_blocked :: string where "status_blocked = ''blocked''"
definition policy_local :: string where "policy_local = ''local''"
definition policy_idp :: string where "policy_idp = ''idp''"

record user =
  u_id :: uuid
  u_kind :: string
  u_email :: string
  u_name :: string
  u_role :: string
  u_status :: string
  u_policy :: policy
  u_source :: string
  u_limits :: "limit_set option"
  u_must_change :: bool
  u_last_seen :: "instant option"
  u_created :: instant

definition user_zero :: user where
  "user_zero = \<lparr>u_id = uuid_nil, u_kind = [], u_email = [], u_name = [], u_role = [], u_status = [],
     u_policy = [], u_source = [], u_limits = None, u_must_change = False, u_last_seen = None,
     u_created = zero_time\<rparr>"

definition new_service :: "instant \<Rightarrow> uuid \<Rightarrow> string \<Rightarrow> policy \<Rightarrow> user" where
  "new_service now ident nam policy = user_zero\<lparr>u_id := ident, u_kind := kind_service, u_name := nam,
     u_role := role_user, u_status := status_active, u_policy := policy, u_source := policy_local,
     u_created := now\<rparr>"

definition can_sign_in :: "user \<Rightarrow> bool" where
  "can_sign_in u \<longleftrightarrow> u_kind u = kind_human \<and> u_status u = status_active"

definition can_use_api :: "user \<Rightarrow> bool" where
  "can_use_api u \<longleftrightarrow> (u_kind u = kind_human \<or> u_kind u = kind_service) \<and> u_status u = status_active"

definition user_label :: "user \<Rightarrow> string" where
  "user_label u = (if u_email u \<noteq> [] then u_email u else u_name u)"

definition policy_editable :: "user \<Rightarrow> bool" where
  "policy_editable u \<longleftrightarrow> u_source u = policy_local"

definition require_admin :: "user \<Rightarrow> unit result" where
  "require_admin actor =
     (if u_id actor = uuid_nil \<or> u_role actor \<noteq> role_admin \<or> \<not> can_sign_in actor \<or> u_must_change actor
      then Inl EForbidden else Inr ())"

definition challenge_answers :: "string \<Rightarrow> string \<Rightarrow> bool" where
  "challenge_answers own state = (if state = [] \<or> own = [] then False else state = own)"

section \<open>Password hashes\<close>

type_synonym argon = "string \<Rightarrow> string \<Rightarrow> nat \<Rightarrow> nat \<Rightarrow> nat \<Rightarrow> nat \<Rightarrow> string"

definition argon_memory :: nat where "argon_memory = 19456"
definition argon_time :: nat where "argon_time = 2"
definition argon_threads :: nat where "argon_threads = 1"
definition argon_key_len :: nat where "argon_key_len = 32"
definition argon_salt_len :: nat where "argon_salt_len = 16"
definition argon_version :: nat where "argon_version = 19"

definition encode_hash :: "nat \<Rightarrow> nat \<Rightarrow> nat \<Rightarrow> string \<Rightarrow> string \<Rightarrow> string" where
  "encode_hash memory time threads salt key =
     ''$argon2id$v='' @ nat_digits argon_version @ ''$m='' @ nat_digits memory @ '',t='' @ nat_digits time
       @ '',p='' @ nat_digits threads @ ''$'' @ b64_encode std_alphabet salt
       @ ''$'' @ b64_encode std_alphabet key"

text \<open>The hash of \<open>plain\<close> under a salt the random source gave, or its failure.\<close>

definition hash_password :: "argon \<Rightarrow> string option \<Rightarrow> string \<Rightarrow> string result" where
  "hash_password idkey salt plain =
     (if plain = [] then Inl EEmptyPassword
      else case salt of
        None \<Rightarrow> Inl EFault
      | Some salt \<Rightarrow>
          Inr (encode_hash argon_memory argon_time argon_threads salt
            (idkey plain salt argon_time argon_memory argon_threads argon_key_len)))"

record argon_hash =
  ah_memory :: nat
  ah_time :: nat
  ah_threads :: nat
  ah_salt :: string
  ah_key :: string

text \<open>
  \<open>fmt.Sscanf\<close> on the formats used here: a literal matches itself, \<open>%d\<close> skips white space but
  not a new line, reads the longest run of decimal digits and refuses a value that does not
  fit the destination. A signed destination takes one sign. What follows the last verb is not
  looked at.
\<close>

fun scan_space :: "string \<Rightarrow> string option" where
  "scan_space [] = Some []"
| "scan_space (c # cs) =
     (if byte c = 10 \<or> (byte c = 13 \<and> (case cs of d # _ \<Rightarrow> byte d = 10 | [] \<Rightarrow> False)) then None
      else if byte c \<in> {9, 11, 12, 13, 32} then scan_space cs
      else Some (c # cs))"

definition is_digit :: "char \<Rightarrow> bool" where
  "is_digit c \<longleftrightarrow> 48 \<le> byte c \<and> byte c \<le> 57"

definition digits_value :: "string \<Rightarrow> nat" where
  "digits_value ds = foldl (\<lambda>n c. n * 10 + (byte c - 48)) 0 ds"

definition scan_uint :: "nat \<Rightarrow> string \<Rightarrow> (nat \<times> string) option" where
  "scan_uint bits s =
     (case scan_space s of
        None \<Rightarrow> None
      | Some s \<Rightarrow>
          let ds = takeWhile is_digit s; rest = dropWhile is_digit s in
          if ds = [] \<or> 2 ^ bits \<le> digits_value ds then None else Some (digits_value ds, rest))"

definition scan_int :: "string \<Rightarrow> (int \<times> string) option" where
  "scan_int s =
     (case scan_space s of
        None \<Rightarrow> None
      | Some s \<Rightarrow>
          let neg = (case s of c # _ \<Rightarrow> c = CHR ''-'' | [] \<Rightarrow> False);
              s = (case s of c # cs \<Rightarrow> if c = CHR ''-'' \<or> c = CHR ''+'' then cs else s | [] \<Rightarrow> s);
              ds = takeWhile is_digit s; rest = dropWhile is_digit s;
              v = (if neg then - int (digits_value ds) else int (digits_value ds)) in
          if ds = [] \<or> v < - (2 ^ 63) \<or> 2 ^ 63 \<le> v then None else Some (v, rest))"

definition scan_params :: "string \<Rightarrow> (nat \<times> nat \<times> nat) option" where
  "scan_params s =
     (case cut_prefix ''m='' s of None \<Rightarrow> None | Some s \<Rightarrow>
      case scan_uint 32 s of None \<Rightarrow> None | Some (m, s) \<Rightarrow>
      case cut_prefix '',t='' s of None \<Rightarrow> None | Some s \<Rightarrow>
      case scan_uint 32 s of None \<Rightarrow> None | Some (t, s) \<Rightarrow>
      case cut_prefix '',p='' s of None \<Rightarrow> None | Some s \<Rightarrow>
      case scan_uint 8 s of None \<Rightarrow> None | Some (p, s) \<Rightarrow> Some (m, t, p))"

definition decode_hash :: "string \<Rightarrow> argon_hash option" where
  "decode_hash hash =
     (let parts = split_at (CHR ''$'') hash in
      if length parts \<noteq> 6 \<or> parts ! 0 \<noteq> [] \<or> parts ! 1 \<noteq> ''argon2id'' then None
      else case cut_prefix ''v='' (parts ! 2) of None \<Rightarrow> None | Some vs \<Rightarrow>
      case scan_int vs of None \<Rightarrow> None | Some (version, _) \<Rightarrow>
      if version \<noteq> int argon_version then None
      else case scan_params (parts ! 3) of None \<Rightarrow> None | Some (m, t, p) \<Rightarrow>
      if m = 0 \<or> t = 0 \<or> p = 0 then None
      else case b64_decode std_alphabet (parts ! 4) of None \<Rightarrow> None | Some salt \<Rightarrow>
      if salt = [] then None
      else case b64_decode std_alphabet (parts ! 5) of None \<Rightarrow> None | Some key \<Rightarrow>
      if key = [] then None
      else Some \<lparr>ah_memory = m, ah_time = t, ah_threads = p, ah_salt = salt, ah_key = key\<rparr>)"

definition verify_password :: "argon \<Rightarrow> string \<Rightarrow> string \<Rightarrow> bool" where
  "verify_password idkey hash plain =
     (case decode_hash hash of
        None \<Rightarrow> False
      | Some d \<Rightarrow>
          if 2 ^ 32 - 1 < length (ah_key d) then False
          else idkey plain (ah_salt d) (ah_time d) (ah_memory d) (ah_threads d) (length (ah_key d)) = ah_key d)"

section \<open>Principals\<close>

record uuid_text =
  uuid_str :: "uuid \<Rightarrow> string"
  uuid_parse :: "string \<Rightarrow> uuid option"

record principal =
  p_user :: uuid
  p_token :: uuid
  p_owner :: string

definition principal_string :: "uuid_text \<Rightarrow> principal \<Rightarrow> string" where
  "principal_string ut p = uuid_str ut (p_user p) @ '':'' @ uuid_str ut (p_token p)"

definition parse_canonical :: "uuid_text \<Rightarrow> string \<Rightarrow> uuid result" where
  "parse_canonical ut s =
     (case uuid_parse ut s of
        None \<Rightarrow> Inl EMalformedPrincipal
      | Some i \<Rightarrow> if i = uuid_nil \<or> uuid_str ut i \<noteq> s then Inl EMalformedPrincipal else Inr i)"

definition parse_principal :: "uuid_text \<Rightarrow> string \<Rightarrow> principal result" where
  "parse_principal ut s =
     (case cut (CHR '':'') s of
        None \<Rightarrow> Inl EMalformedPrincipal
      | Some (u, t) \<Rightarrow>
          (case parse_canonical ut u of Inl e \<Rightarrow> Inl e | Inr uid \<Rightarrow>
           case parse_canonical ut t of Inl e \<Rightarrow> Inl e | Inr tid \<Rightarrow>
             Inr \<lparr>p_user = uid, p_token = tid, p_owner = []\<rparr>))"

section \<open>Reading back a stored hash\<close>

lemma nat_digits_digits: "list_all is_digit (nat_digits n) \<and> nat_digits n \<noteq> []"
proof (induction n rule: nat_digits.induct)
  case (1 n)
  show ?case
  proof (cases "n < 10")
    case True
    then show ?thesis by (simp add: nat_digits.simps [of n] is_digit_def)
  next
    case False
    have "n mod 10 < 10" by simp
    then have "is_digit (char_of (48 + n mod 10))" by (simp add: is_digit_def)
    then show ?thesis using 1 False by (simp add: nat_digits.simps [of n])
  qed
qed

lemma digits_value_snoc: "digits_value (ds @ [c]) = digits_value ds * 10 + (byte c - 48)"
  by (simp add: digits_value_def)

lemma digits_value_nat_digits: "digits_value (nat_digits n) = n"
proof (induction n rule: nat_digits.induct)
  case (1 n)
  show ?case
  proof (cases "n < 10")
    case True
    then show ?thesis by (simp add: nat_digits.simps [of n] digits_value_def)
  next
    case False
    have "byte (char_of (48 + n mod 10)) = 48 + n mod 10" by (intro mod256) (simp add: less_Suc_eq_le)
    then show ?thesis using 1 False
      by (simp add: nat_digits.simps [of n] digits_value_snoc)
  qed
qed

lemma scan_digits:
  assumes "list_all is_digit ds" "ds \<noteq> []" "\<not> (case rest of c # _ \<Rightarrow> is_digit c | [] \<Rightarrow> False)"
  shows "scan_space (ds @ rest) = Some (ds @ rest)"
    and "takeWhile is_digit (ds @ rest) = ds" and "dropWhile is_digit (ds @ rest) = rest"
proof -
  show "scan_space (ds @ rest) = Some (ds @ rest)"
    using assms(1,2) by (cases ds) (auto simp: is_digit_def)
  show "takeWhile is_digit (ds @ rest) = ds" "dropWhile is_digit (ds @ rest) = rest"
    using assms(1,3) by (auto simp: list_all_iff takeWhile_append dropWhile_append split: list.splits)
qed

lemma scan_uint_digits:
  assumes "n < 2 ^ bits" "\<not> (case rest of c # _ \<Rightarrow> is_digit c | [] \<Rightarrow> False)"
  shows "scan_uint bits (nat_digits n @ rest) = Some (n, rest)"
  using scan_digits [of "nat_digits n" rest] nat_digits_digits [of n] assms
  by (simp add: scan_uint_def digits_value_nat_digits)

lemma scan_int_digits:
  assumes "n < 2 ^ 63" "\<not> (case rest of c # _ \<Rightarrow> is_digit c | [] \<Rightarrow> False)"
  shows "scan_int (nat_digits n @ rest) = Some (int n, rest)"
proof -
  obtain c cs where d: "nat_digits n = c # cs" "is_digit c"
    using nat_digits_digits [of n] by (cases "nat_digits n") auto
  then have "c \<noteq> CHR ''-''" "c \<noteq> CHR ''+''" by (auto simp: is_digit_def)
  then show ?thesis
    using scan_digits [of "nat_digits n" rest] nat_digits_digits [of n] assms d digits_value_nat_digits [of n]
    by (simp add: scan_int_def)
qed

lemma cut_prefix_append [simp]: "cut_prefix p (p @ s) = Some s"
  by (simp add: cut_prefix_def)

lemma split_at_append: "c \<notin> set a \<Longrightarrow> split_at c (a @ c # b) = a # split_at c b"
  by (induction a) auto

lemma split_at_none: "c \<notin> set a \<Longrightarrow> split_at c a = [a]"
  by (induction a) auto

lemma digits_no_dollar: "CHR ''$'' \<notin> set (nat_digits n)"
  using nat_digits_digits [of n] by (auto simp: list_all_iff is_digit_def)

lemma is_digit_plain: "\<not> is_digit CHR '',''" "\<not> is_digit CHR ''$''"
  by (simp_all add: is_digit_def)

lemma scan_params_digits:
  assumes "m < 2 ^ 32" "t < 2 ^ 32" "p < 2 ^ 8"
  shows "scan_params (''m='' @ nat_digits m @ '',t='' @ nat_digits t @ '',p='' @ nat_digits p) = Some (m, t, p)"
proof -
  have comma: "cut_prefix '',t='' ('',t='' @ s) = Some s" "cut_prefix '',p='' ('',p='' @ s) = Some s"
    "cut_prefix ''m='' (''m='' @ s) = Some s" for s
    by (rule cut_prefix_append)+
  have "scan_uint 8 (nat_digits p @ []) = Some (p, [])" by (rule scan_uint_digits) (use assms in auto)
  then have p: "scan_uint 8 (nat_digits p) = Some (p, [])" by simp
  have t: "scan_uint 32 (nat_digits t @ '',p='' @ s) = Some (t, '',p='' @ s)" for s
    by (rule scan_uint_digits) (use assms is_digit_plain in auto)
  have m: "scan_uint 32 (nat_digits m @ '',t='' @ s) = Some (m, '',t='' @ s)" for s
    by (rule scan_uint_digits) (use assms is_digit_plain in auto)
  show ?thesis
    unfolding scan_params_def comma option.case m prod.case t p by simp
qed

lemma encode_hash_parts:
  "split_at (CHR ''$'') (encode_hash m t p salt key) =
     [[], ''argon2id'', ''v='' @ nat_digits argon_version,
      ''m='' @ nat_digits m @ '',t='' @ nat_digits t @ '',p='' @ nat_digits p,
      b64_encode std_alphabet salt, b64_encode std_alphabet key]"
proof -
  let ?v = "''v='' @ nat_digits argon_version"
    and ?ps = "''m='' @ nat_digits m @ '',t='' @ nat_digits t @ '',p='' @ nat_digits p"
  have "encode_hash m t p salt key =
      [] @ CHR ''$'' # ''argon2id'' @ CHR ''$'' # ?v @ CHR ''$'' # ?ps @ CHR ''$'' # b64_encode std_alphabet salt
        @ CHR ''$'' # b64_encode std_alphabet key"
    by (simp add: encode_hash_def)
  moreover have "CHR ''$'' \<notin> set ?v" "CHR ''$'' \<notin> set ?ps" "CHR ''$'' \<notin> set ''argon2id''"
    by (auto simp: digits_no_dollar)
  moreover note b64_no_dollar [OF good_alphabets(1), of salt] b64_no_dollar [OF good_alphabets(1), of key]
  ultimately show ?thesis
    by (simp only: split_at_append split_at_none list.set empty_iff not_False_eq_True)
qed

lemma decode_encode_hash:
  assumes "0 < m" "m < 2 ^ 32" "0 < t" "t < 2 ^ 32" "0 < p" "p < 2 ^ 8" "salt \<noteq> []" "key \<noteq> []"
  shows "decode_hash (encode_hash m t p salt key) =
    Some \<lparr>ah_memory = m, ah_time = t, ah_threads = p, ah_salt = salt, ah_key = key\<rparr>"
proof -
  have v: "cut_prefix ''v='' (''v='' @ s) = Some s" for s by (rule cut_prefix_append)
  have "scan_int (nat_digits argon_version @ []) = Some (int argon_version, [])"
    by (rule scan_int_digits) (simp_all add: argon_version_def)
  then have n: "scan_int (nat_digits argon_version) = Some (int argon_version, [])" by simp
  have nth: "[a, b, c, d, e, f] ! 2 = c" "[a, b, c, d, e, f] ! 3 = d" "[a, b, c, d, e, f] ! 4 = e"
    "[a, b, c, d, e, f] ! 5 = f" for a b c d e f :: string
    by (simp_all add: numeral_eq_Suc)
  show ?thesis
    using assms scan_params_digits [of m t p] b64_roundtrip [OF good_alphabets(1)]
    unfolding decode_hash_def encode_hash_parts Let_def nth v option.case n prod.case
    by simp
qed

lemma decode_hash_password:
  assumes "\<And>pw s t m p n. length (idkey pw s t m p n) = n"
    and "hash_password idkey (Some salt) plain = Inr hash" and "length salt = argon_salt_len"
  shows "decode_hash hash = Some \<lparr>ah_memory = argon_memory, ah_time = argon_time, ah_threads = argon_threads, ah_salt = salt,
      ah_key = idkey plain salt argon_time argon_memory argon_threads argon_key_len\<rparr>"
proof -
  let ?key = "idkey plain salt argon_time argon_memory argon_threads argon_key_len"
  have "hash = encode_hash argon_memory argon_time argon_threads salt ?key"
    using assms(2) by (auto simp: hash_password_def split: if_splits)
  moreover have "length ?key = 32" by (simp add: assms(1) argon_key_len_def)
  then have "salt \<noteq> []" "?key \<noteq> []" using assms(3) by (auto simp: argon_salt_len_def)
  ultimately show ?thesis
    by (simp add: decode_encode_hash argon_memory_def argon_time_def argon_threads_def)
qed

lemma hash_verifies:
  assumes "\<And>pw s t m p n. length (idkey pw s t m p n) = n"
    and "hash_password idkey (Some salt) plain = Inr hash" and "length salt = argon_salt_len"
  shows "verify_password idkey hash plain"
  using decode_hash_password [OF assms] assms(1) by (simp add: verify_password_def argon_key_len_def)

text \<open>A stored password hash verifies the password it was made from, whatever the salt, and
  the stored text parses back to the parameters, the salt and the key it was made of.\<close>

lemma password_roundtrip:
  assumes "\<And>pw s t m p n. length (idkey pw s t m p n) = n"
    and "hash_password idkey (Some salt) plain = Inr hash" and "length salt = argon_salt_len"
  shows "verify_password idkey hash plain
    \<and> decode_hash hash = Some \<lparr>ah_memory = 19456, ah_time = 2, ah_threads = 1, ah_salt = salt,
        ah_key = idkey plain salt 2 19456 1 32\<rparr>"
  using decode_hash_password [OF assms] hash_verifies [OF assms]
  by (simp add: argon_memory_def argon_time_def argon_threads_def argon_key_len_def)

definition example_argon :: argon where
  "example_argon pw salt t m p n = take n (pw @ salt @ replicate n CHR ''x'')"

text \<open>A row that is not such a text, or with a zero parameter, admits nobody.\<close>

lemma verify_needs_hash: "verify_password idkey hash plain \<Longrightarrow> decode_hash hash \<noteq> None"
  by (cases "decode_hash hash") (simp_all add: verify_password_def)

lemma decode_hash_positive:
  "decode_hash hash = Some d \<Longrightarrow> 0 < ah_memory d \<and> 0 < ah_time d \<and> 0 < ah_threads d
     \<and> ah_salt d \<noteq> [] \<and> ah_key d \<noteq> []"
  by (auto simp: decode_hash_def Let_def split: if_splits option.splits prod.splits)

section \<open>Principals read back\<close>

definition uuid_text_ok :: "uuid_text \<Rightarrow> bool" where
  "uuid_text_ok ut \<longleftrightarrow> (\<forall>i. uuid_parse ut (uuid_str ut i) = Some i \<and> CHR '':'' \<notin> set (uuid_str ut i))"

lemma parse_canonical_str:
  "uuid_text_ok ut \<Longrightarrow> parse_canonical ut (uuid_str ut i) = (if i = uuid_nil then Inl EMalformedPrincipal else Inr i)"
  by (auto simp: parse_canonical_def uuid_text_ok_def)

lemma parse_canonical_Inr: "parse_canonical ut s = Inr i \<Longrightarrow> s = uuid_str ut i \<and> i \<noteq> uuid_nil"
  by (auto simp: parse_canonical_def split: option.splits if_splits)

text \<open>The text of a principal with a user and a token is read back as exactly them, and
  nothing else is: a text that parses is the text of the principal it parses to, so a value that
  did not come from \<open>String\<close> is attributed to nobody.\<close>

lemma principal_roundtrip:
  assumes "uuid_text_ok ut"
  shows "parse_principal ut s = Inr p \<longleftrightarrow>
    s = principal_string ut p \<and> p_user p \<noteq> uuid_nil \<and> p_token p \<noteq> uuid_nil \<and> p_owner p = []"
proof
  assume "parse_principal ut s = Inr p"
  then obtain a b where cut: "cut (CHR '':'') s = Some (a, b)"
    and a: "parse_canonical ut a = Inr (p_user p)" and b: "parse_canonical ut b = Inr (p_token p)"
    and o: "p_owner p = []"
    by (auto simp: parse_principal_def split: option.splits prod.splits sum.splits)
  then show "s = principal_string ut p \<and> p_user p \<noteq> uuid_nil \<and> p_token p \<noteq> uuid_nil \<and> p_owner p = []"
    using cut_Some [OF cut] parse_canonical_Inr [OF a] parse_canonical_Inr [OF b]
    by (simp add: principal_string_def)
next
  assume h: "s = principal_string ut p \<and> p_user p \<noteq> uuid_nil \<and> p_token p \<noteq> uuid_nil \<and> p_owner p = []"
  then have "cut (CHR '':'') s = Some (uuid_str ut (p_user p), uuid_str ut (p_token p))"
    using assms cut_append [of "CHR '':''" "uuid_str ut (p_user p)" "uuid_str ut (p_token p)"]
    by (simp add: principal_string_def uuid_text_ok_def)
  then show "parse_principal ut s = Inr p"
    using h assms by (cases p) (simp add: parse_principal_def parse_canonical_str)
qed

text \<open>The witness writes an identifier in decimal.\<close>

definition example_uuid_text :: uuid_text where
  "example_uuid_text = \<lparr>uuid_str = (\<lambda>i. nat_digits (unat i)),
     uuid_parse = (\<lambda>s. if list_all is_digit s \<and> s \<noteq> [] then Some (of_nat (digits_value s)) else None)\<rparr>"

lemma example_uuid_text_ok: "uuid_text_ok example_uuid_text"
proof -
  have "CHR '':'' \<notin> set (nat_digits n)" for n
    using nat_digits_digits [of n] by (auto simp: list_all_iff is_digit_def)
  then show ?thesis
    using nat_digits_digits by (auto simp: uuid_text_ok_def example_uuid_text_def digits_value_nat_digits)
qed

end
