(* ===== verification/World.thy ===== *)
theory World
  imports Identity
begin

text \<open>
  The ground the services and repositories stand on: the database as a record of tables, the
  outside world as an environment of oracles, and the monad of operations that read and write
  the one, ask the other and may fail.

  Every call to a collaborator consumes a tick, and the oracles answer by tick: whether the call
  fails, what a clock shows, which random bytes or which fresh identifier come out. A call that
  fails has no effect, and a transaction is one call. Text the database refuses (not valid
  UTF-8) is one of the failures \<open>fault\<close> stands for, and stored instants are kept exactly.
\<close>

section \<open>Tables\<close>

datatype json = JNull | JBool bool | JNum rat | JStr string | JArr "json list" | JObj "(string \<times> json) list"

record stored_rule =
  sr_minutes :: int
  sr_amount :: f64

record user_row =
  ur_id :: uuid
  ur_kind :: string
  ur_email :: "string option"
  ur_name :: string
  ur_role :: string
  ur_status :: string
  ur_policy :: "string list"
  ur_source :: string
  ur_must_change :: bool
  ur_last_seen :: "instant option"
  ur_created :: instant
  ur_limits :: "stored_rule list option"

record password_row =
  pw_user :: uuid
  pw_hash :: string
  pw_expires :: "instant option"

record link_row =
  ln_user :: uuid
  ln_issuer :: string
  ln_subject :: string

record pending_row =
  pn_user :: uuid
  pn_issuer :: string
  pn_email :: string
  pn_expires :: instant

record session_row =
  ss_hash :: string
  ss_user :: uuid
  ss_ip :: string
  ss_agent :: string
  ss_created :: instant
  ss_expires :: instant

record token =
  tk_id :: uuid
  tk_user :: uuid
  tk_label :: string
  tk_hash :: string
  tk_prefix :: string
  tk_created :: instant
  tk_last_used :: "instant option"
  tk_revoked_at :: "instant option"
  tk_revoked_by :: "uuid option"

record attempt_row =
  la_email :: string
  la_failures :: int
  la_locked :: "instant option"
  la_last :: instant

record window_row =
  lw_user :: uuid
  lw_minutes :: int
  lw_started :: instant
  lw_spent :: f64

record audit_event =
  ae_at :: instant
  ae_actor :: uuid
  ae_action :: string
  ae_target :: string
  ae_detail :: "(string \<times> json) list"
  ae_ip :: string
  ae_agent :: string

record audit_row =
  ar_at :: instant
  ar_actor :: "uuid option"
  ar_action :: string
  ar_target :: string
  ar_detail :: "(string \<times> json) list"
  ar_ip :: string
  ar_agent :: string

record model_price =
  mp_provider :: string
  mp_model :: string
  mp_input :: f64
  mp_output :: f64
  mp_cache_read :: f64
  mp_cache_write :: f64
  mp_updated :: instant

record catalog_state =
  cs_etag :: string
  cs_last_modified :: string
  cs_fingerprint :: string
  cs_checked :: instant
  cs_changed :: instant
  cs_last_error :: string

record display_config =
  dc_costs_visible :: bool
  dc_mask_unknown :: bool

record usage_cost =
  uc_input :: f64
  uc_output :: f64
  uc_cache_read :: f64
  uc_cache_write :: f64
  uc_savings :: f64
  uc_unpriced :: int
  uc_priced :: bool

record usage_event =
  ue_at :: instant
  ue_user :: uuid
  ue_token :: uuid
  ue_provider :: string
  ue_model :: string
  ue_alias :: string
  ue_stream :: bool
  ue_tier :: string
  ue_input :: int
  ue_output :: int
  ue_reasoning :: int
  ue_cache_read :: int
  ue_cache_write :: int
  ue_total :: int
  ue_quality :: string
  ue_latency :: int
  ue_ttft :: int
  ue_status :: int
  ue_failed :: bool
  ue_account :: string
  ue_cost :: usage_cost

record db =
  t_users :: "user_row list"
  t_passwords :: "password_row list"
  t_links :: "link_row list"
  t_pendings :: "pending_row list"
  t_sessions :: "session_row list"
  t_tokens :: "token list"
  t_attempts :: "attempt_row list"
  t_windows :: "window_row list"
  t_audit :: "audit_row list"
  t_limit_defaults :: "stored_rule list option"
  t_display :: "json option"
  t_prices :: "model_price list"
  t_catalog :: "model_price list"
  t_catalog_state :: catalog_state
  t_usage :: "usage_event list"

section \<open>The environment\<close>

record catalog_fetch =
  cf_unchanged :: bool
  cf_prices :: "model_price list"
  cf_etag :: string
  cf_last_modified :: string

text \<open>A statement that fails, \<open>fault\<close>, did nothing; but the commit of the settings document may land though its acknowledgement is lost.\<close>

record env =
  fault :: "nat \<Rightarrow> bool"
  lost_ack :: "nat \<Rightarrow> bool"
  clock :: "nat \<Rightarrow> instant"
  db_clock :: "nat \<Rightarrow> instant"
  random :: "nat \<Rightarrow> nat \<Rightarrow> char"
  fresh :: "nat \<Rightarrow> uuid"
  sql_lower :: "string \<Rightarrow> string"
  sha256_hex :: "string \<Rightarrow> string"
  argon2 :: argon
  ids :: uuid_text
  fetch_catalog :: "nat \<Rightarrow> string \<Rightarrow> string \<Rightarrow> string + catalog_fetch"
  fingerprint :: "string option"

text \<open>
  What the services keep in memory: the defaults of the spend limits, what users are shown, the
  price lists with the state of the catalogue's checks, and the table usage is priced from.
\<close>

record mem =
  m_defaults :: limit_set
  m_display :: display_config
  m_manual :: "model_price list"
  m_catalog :: "model_price list"
  m_state :: catalog_state
  m_table :: "((string \<times> string) \<times> model_price) list option"
  m_models :: nat
  m_failures :: nat

text \<open>
  Beside the database and the memory the world counts the ticks spent and the password derivations run, and
  keeps the warnings logged.
\<close>

record world =
  w_tick :: nat
  w_db :: db
  w_mem :: mem
  w_derivations :: nat
  w_log :: "string list"

definition tick :: "world \<Rightarrow> world" where
  "tick w = w\<lparr>w_tick := w_tick w + 1\<rparr>"

section \<open>Operations\<close>

type_synonym 'a io = "env \<Rightarrow> world \<Rightarrow> 'a result \<times> world"

definition ret :: "'a \<Rightarrow> 'a io" where
  "ret a = (\<lambda>e w. (Inr a, w))"

definition raise :: "err \<Rightarrow> 'a io" where
  "raise x = (\<lambda>e w. (Inl x, w))"

definition lift :: "'a result \<Rightarrow> 'a io" where
  "lift r = (\<lambda>e w. (r, w))"

definition bnd :: "'a io \<Rightarrow> ('a \<Rightarrow> 'b io) \<Rightarrow> 'b io" where
  "bnd m k = (\<lambda>e w. case m e w of (Inl x, w') \<Rightarrow> (Inl x, w') | (Inr a, w') \<Rightarrow> k a e w')"

text \<open>The result of an operation as a value, for code that looks at an error and goes on.\<close>

definition attempt :: "'a io \<Rightarrow> 'a result io" where
  "attempt m = (\<lambda>e w. case m e w of (r, w') \<Rightarrow> (Inr r, w'))"

definition asks :: "(env \<Rightarrow> 'a) \<Rightarrow> 'a io" where
  "asks f = (\<lambda>e w. (Inr (f e), w))"

text \<open>A statement or a transaction: the tables before to a result and the tables after.\<close>

definition exec :: "(env \<Rightarrow> nat \<Rightarrow> db \<Rightarrow> ('a \<times> db) result) \<Rightarrow> 'a io" where
  "exec f = (\<lambda>e w.
     if fault e (w_tick w) then (Inl EFault, tick w)
     else case f e (w_tick w) (w_db w) of
       Inl x \<Rightarrow> (Inl x, tick w)
     | Inr (a, d) \<Rightarrow> (Inr a, (tick w)\<lparr>w_db := d\<rparr>))"

definition query :: "(env \<Rightarrow> nat \<Rightarrow> db \<Rightarrow> 'a result) \<Rightarrow> 'a io" where
  "query f = exec (\<lambda>e t d. case f e t d of Inl x \<Rightarrow> Inl x | Inr a \<Rightarrow> Inr (a, d))"

definition now_io :: "instant io" where
  "now_io = (\<lambda>e w. (Inr (clock e (w_tick w)), tick w))"

definition fresh_io :: "uuid io" where
  "fresh_io = (\<lambda>e w. (Inr (fresh e (w_tick w)), tick w))"

definition random_io :: "nat \<Rightarrow> string io" where
  "random_io n = (\<lambda>e w. if fault e (w_tick w) then (Inl EFault, tick w)
     else (Inr (map (random e (w_tick w)) [0..<n]), tick w))"

definition warn :: "string \<Rightarrow> unit io" where
  "warn msg = (\<lambda>e w. (Inr (), w\<lparr>w_log := w_log w @ [msg]\<rparr>))"

definition peek :: "(mem \<Rightarrow> 'a) \<Rightarrow> 'a io" where
  "peek f = (\<lambda>e w. (Inr (f (w_mem w)), w))"

definition poke :: "(mem \<Rightarrow> mem) \<Rightarrow> unit io" where
  "poke f = (\<lambda>e w. (Inr (), w\<lparr>w_mem := f (w_mem w)\<rparr>))"

text \<open>A password operation that runs so many key derivations.\<close>

definition derive :: "nat \<Rightarrow> (env \<Rightarrow> 'a) \<Rightarrow> 'a io" where
  "derive n f = (\<lambda>e w. (Inr (f e), w\<lparr>w_derivations := w_derivations w + n\<rparr>))"

fun each :: "('a \<Rightarrow> unit io) \<Rightarrow> 'a list \<Rightarrow> unit io" where
  "each f [] = ret ()"
| "each f (x # xs) = bnd (f x) (\<lambda>_. each f xs)"

section \<open>Weakest preconditions\<close>

definition wp :: "'a io \<Rightarrow> env \<Rightarrow> world \<Rightarrow> ('a result \<Rightarrow> world \<Rightarrow> bool) \<Rightarrow> bool" where
  "wp m e w Q = (case m e w of (r, w') \<Rightarrow> Q r w')"

lemma wp_ret [wp_simps]: "wp (ret a) e w Q = Q (Inr a) w"
  by (simp add: wp_def ret_def)

lemma wp_raise [wp_simps]: "wp (raise x) e w Q = Q (Inl x) w"
  by (simp add: wp_def raise_def)

lemma wp_lift [wp_simps]: "wp (lift r) e w Q = Q r w"
  by (simp add: wp_def lift_def)

lemma wp_asks [wp_simps]: "wp (asks f) e w Q = Q (Inr (f e)) w"
  by (simp add: wp_def asks_def)

lemma wp_bnd [wp_simps]:
  "wp (bnd m k) e w Q = wp m e w (\<lambda>r w'. case r of Inl x \<Rightarrow> Q (Inl x) w' | Inr a \<Rightarrow> wp (k a) e w' Q)"
  by (auto simp: wp_def bnd_def split: prod.splits sum.splits)

lemma wp_attempt [wp_simps]: "wp (attempt m) e w Q = wp m e w (\<lambda>r w'. Q (Inr r) w')"
  by (simp add: wp_def attempt_def split: prod.splits)

lemma wp_exec [wp_simps]:
  "wp (exec f) e w Q =
     (if fault e (w_tick w) then Q (Inl EFault) (tick w)
      else case f e (w_tick w) (w_db w) of
        Inl x \<Rightarrow> Q (Inl x) (tick w)
      | Inr (a, d) \<Rightarrow> Q (Inr a) ((tick w)\<lparr>w_db := d\<rparr>))"
  by (auto simp: wp_def exec_def split: sum.splits prod.splits)

lemma wp_query [wp_simps]:
  "wp (query f) e w Q =
     (if fault e (w_tick w) then Q (Inl EFault) (tick w)
      else Q (f e (w_tick w) (w_db w)) (tick w))"
  by (auto simp: query_def wp_exec tick_def split: sum.splits)

lemma wp_now [wp_simps]: "wp now_io e w Q = Q (Inr (clock e (w_tick w))) (tick w)"
  by (simp add: wp_def now_io_def)

lemma wp_fresh [wp_simps]: "wp fresh_io e w Q = Q (Inr (fresh e (w_tick w))) (tick w)"
  by (simp add: wp_def fresh_io_def)

lemma wp_random [wp_simps]:
  "wp (random_io n) e w Q = (if fault e (w_tick w) then Q (Inl EFault) (tick w)
     else Q (Inr (map (random e (w_tick w)) [0..<n])) (tick w))"
  by (simp add: wp_def random_io_def)

lemma wp_warn [wp_simps]: "wp (warn msg) e w Q = Q (Inr ()) (w\<lparr>w_log := w_log w @ [msg]\<rparr>)"
  by (simp add: wp_def warn_def)

lemma wp_peek [wp_simps]: "wp (peek f) e w Q = Q (Inr (f (w_mem w))) w"
  by (simp add: wp_def peek_def)

lemma wp_poke [wp_simps]: "wp (poke f) e w Q = Q (Inr ()) (w\<lparr>w_mem := f (w_mem w)\<rparr>)"
  by (simp add: wp_def poke_def)

lemma wp_derive [wp_simps]: "wp (derive n f) e w Q = Q (Inr (f e)) (w\<lparr>w_derivations := w_derivations w + n\<rparr>)"
  by (simp add: wp_def derive_def)

lemma wp_if [wp_simps]: "wp (if b then m else n) e w Q = (if b then wp m e w Q else wp n e w Q)"
  by simp

lemma wp_option [wp_simps]:
  "wp (case x of None \<Rightarrow> m | Some y \<Rightarrow> n y) e w Q = (case x of None \<Rightarrow> wp m e w Q | Some y \<Rightarrow> wp (n y) e w Q)"
  by (cases x) simp_all

lemma wp_sum [wp_simps]:
  "wp (case x of Inl y \<Rightarrow> m y | Inr z \<Rightarrow> n z) e w Q = (case x of Inl y \<Rightarrow> wp (m y) e w Q | Inr z \<Rightarrow> wp (n z) e w Q)"
  by (cases x) simp_all

lemma wp_prod [wp_simps]: "wp (case x of (y, z) \<Rightarrow> m y z) e w Q = (case x of (y, z) \<Rightarrow> wp (m y z) e w Q)"
  by (cases x) simp_all

lemma wp_let [wp_simps]: "wp (Let a f) e w Q = (let x = a in wp (f x) e w Q)"
  by (simp add: Let_def)

lemma wp_run: "wp m e w Q \<Longrightarrow> m e w = (r, w') \<Longrightarrow> Q r w'"
  by (simp add: wp_def)

lemma wp_mono: "wp m e w Q \<Longrightarrow> (\<And>r w'. Q r w' \<Longrightarrow> R r w') \<Longrightarrow> wp m e w R"
  by (auto simp: wp_def split: prod.splits)

lemma wp_eq: "wp m e w (\<lambda>r w'. m e w = (r, w'))"
  by (simp add: wp_def split: prod.splits)

lemma tick_simps [simp]:
  "w_db (tick w) = w_db w" "w_tick (tick w) = w_tick w + 1" "w_derivations (tick w) = w_derivations w"
  "w_log (tick w) = w_log w" "w_mem (tick w) = w_mem w"
  by (simp_all add: tick_def)

section \<open>How operations evolve the database\<close>

text \<open>
  A property of two states of the database that is reflexive and transitive holds between the
  states before and after every operation whose statements have it: no row of a kind is ever
  removed, an invariant once true stays true.
\<close>

definition evolves :: "(env \<Rightarrow> db \<Rightarrow> db \<Rightarrow> bool) \<Rightarrow> 'a io \<Rightarrow> bool" where
  "evolves R m \<longleftrightarrow> (\<forall>e w. R e (w_db w) (w_db (snd (m e w))))"

definition evolves_stmt :: "(env \<Rightarrow> db \<Rightarrow> db \<Rightarrow> bool) \<Rightarrow> (env \<Rightarrow> nat \<Rightarrow> db \<Rightarrow> ('a \<times> db) result) \<Rightarrow> bool" where
  "evolves_stmt R f \<longleftrightarrow> (\<forall>e t d a d'. f e t d = Inr (a, d') \<longrightarrow> R e d d')"

named_theorems evolve_intros \<open>operations composed of operations\<close>

lemma evolves_run: "evolves R m \<Longrightarrow> m e w = (r, w') \<Longrightarrow> R e (w_db w) (w_db w')"
  unfolding evolves_def by (metis snd_conv)

locale evolution =
  fixes R :: "env \<Rightarrow> db \<Rightarrow> db \<Rightarrow> bool"
  assumes evo_refl: "R e d d"
    and evo_trans: "R e a b \<Longrightarrow> R e b c \<Longrightarrow> R e a c"
begin

lemma ev_ret: "evolves R (ret a)"
  by (simp add: evolves_def ret_def evo_refl)

lemma ev_raise: "evolves R (raise x)"
  by (simp add: evolves_def raise_def evo_refl)

lemma ev_lift: "evolves R (lift r)"
  by (simp add: evolves_def lift_def evo_refl)

lemma ev_asks: "evolves R (asks f)"
  by (simp add: evolves_def asks_def evo_refl)

lemma ev_now: "evolves R now_io"
  by (simp add: evolves_def now_io_def evo_refl)

lemma ev_fresh: "evolves R fresh_io"
  by (simp add: evolves_def fresh_io_def evo_refl)

lemma ev_random: "evolves R (random_io n)"
  by (simp add: evolves_def random_io_def evo_refl)

lemma ev_warn: "evolves R (warn msg)"
  by (simp add: evolves_def warn_def evo_refl)

lemma ev_peek: "evolves R (peek f)"
  by (simp add: evolves_def peek_def evo_refl)

lemma ev_poke: "evolves R (poke f)"
  by (simp add: evolves_def poke_def evo_refl)

lemma ev_derive: "evolves R (derive n f)"
  by (simp add: evolves_def derive_def evo_refl)

lemma ev_bnd: "evolves R m \<Longrightarrow> (\<And>a. evolves R (k a)) \<Longrightarrow> evolves R (bnd m k)"
  unfolding evolves_def bnd_def
  by (auto split: prod.splits sum.splits) (metis evo_trans snd_conv)+

lemma ev_bnd_lift: "(\<And>a. r = Inr a \<Longrightarrow> evolves R (k a)) \<Longrightarrow> evolves R (bnd (lift r) k)"
  by (cases r) (simp_all add: evolves_def bnd_def lift_def evo_refl)

lemma ev_attempt: "evolves R m \<Longrightarrow> evolves R (attempt m)"
  unfolding evolves_def attempt_def by (auto split: prod.splits) (metis snd_conv)

lemma ev_exec: "evolves_stmt R f \<Longrightarrow> evolves R (exec f)"
  unfolding evolves_def evolves_stmt_def exec_def by (auto split: sum.splits simp: evo_refl)

lemma ev_query: "evolves R (query f)"
  unfolding query_def by (rule ev_exec) (auto simp: evolves_stmt_def evo_refl split: sum.splits)

lemma ev_if: "evolves R m \<Longrightarrow> evolves R n \<Longrightarrow> evolves R (if b then m else n)"
  by simp

lemma ev_option: "evolves R m \<Longrightarrow> (\<And>y. evolves R (n y)) \<Longrightarrow> evolves R (case x of None \<Rightarrow> m | Some y \<Rightarrow> n y)"
  by (cases x) simp_all

lemma ev_sum:
  "(\<And>y. evolves R (m y)) \<Longrightarrow> (\<And>z. evolves R (n z)) \<Longrightarrow> evolves R (case x of Inl y \<Rightarrow> m y | Inr z \<Rightarrow> n z)"
  by (cases x) simp_all

lemma ev_prod: "(\<And>y z. evolves R (m y z)) \<Longrightarrow> evolves R (case x of (y, z) \<Rightarrow> m y z)"
  by (cases x) simp_all

lemma ev_let: "(\<And>x. evolves R (f x)) \<Longrightarrow> evolves R (Let a f)"
  by (simp add: Let_def)

lemma ev_each: "(\<And>x. evolves R (f x)) \<Longrightarrow> evolves R (each f xs)"
  by (induction xs) (auto intro: ev_ret ev_bnd)

lemmas ev_rules = ev_ret ev_raise ev_lift ev_asks ev_now ev_fresh ev_random ev_warn ev_peek ev_poke ev_derive ev_bnd ev_attempt
  ev_query ev_if ev_option ev_sum ev_prod ev_let ev_each

end

text \<open>The shape of an invariant: true before, true after.\<close>

definition kept :: "(env \<Rightarrow> db \<Rightarrow> bool) \<Rightarrow> env \<Rightarrow> db \<Rightarrow> db \<Rightarrow> bool" where
  "kept I e d d' \<longleftrightarrow> (I e d \<longrightarrow> I e d')"

lemma evolution_kept: "evolution (kept I)"
  by unfold_locales (auto simp: kept_def)

text \<open>The shape of a table that only grows or shrinks, or of one nothing touches.\<close>

lemma evolution_subset: "evolution (\<lambda>e d d'. f d \<subseteq> f d')"
  by unfold_locales auto

lemma evolution_same: "evolution (\<lambda>e d d'. f d = f d')"
  by unfold_locales auto

end
