(* ===== verification/Repos.thy ===== *)
theory Repos
  imports World
begin

text \<open>
  The repositories of \<open>internal/infra/postgres\<close> the account services use: \<open>users\<close>, \<open>passwords\<close>,
  \<open>identities\<close>, \<open>sessions\<close>, \<open>loginattempts\<close>, \<open>tokens\<close> and \<open>audit\<close>. A statement is a function on
  the tables with its uniqueness, check and foreign-key constraints (\<open>migrations/\<close>) written out;
  a unique violation is \<open>EConflict\<close> where the code maps it (\<open>AsConflict\<close>) and any other
  refusal of the database is \<open>EFault\<close>.
\<close>

section \<open>Statements\<close>

type_synonym 'a stmt = "env \<Rightarrow> nat \<Rightarrow> db \<Rightarrow> ('a \<times> db) result"

text \<open>The next statement of a transaction: an error rolls everything back.\<close>

definition tx_then :: "'a stmt \<Rightarrow> 'b stmt \<Rightarrow> 'b stmt" where
  "tx_then f g = (\<lambda>e t d. case f e t d of Inl x \<Rightarrow> Inl x | Inr (_, d') \<Rightarrow> g e t d')"

definition tx_opt :: "'c option \<Rightarrow> ('c \<Rightarrow> unit stmt) \<Rightarrow> unit stmt" where
  "tx_opt x f = (\<lambda>e t d. case x of None \<Rightarrow> Inr ((), d) | Some y \<Rightarrow> f y e t d)"

definition user_exists :: "uuid \<Rightarrow> db \<Rightarrow> bool" where
  "user_exists i d \<longleftrightarrow> list_ex (\<lambda>r. ur_id r = i) (t_users d)"

definition null_string :: "string \<Rightarrow> string option" where
  "null_string s = (if s = [] then None else Some s)"

definition null_uuid :: "uuid \<Rightarrow> uuid option" where
  "null_uuid i = (if i = uuid_nil then None else Some i)"

text \<open>A nullable foreign key to \<open>users\<close>.\<close>

definition ref_ok :: "uuid option \<Rightarrow> db \<Rightarrow> bool" where
  "ref_ok r d \<longleftrightarrow> (case r of None \<Rightarrow> True | Some i \<Rightarrow> user_exists i d)"

section \<open>Spend limits as stored\<close>

definition f64_finite :: "f64 \<Rightarrow> bool" where
  "f64_finite a \<longleftrightarrow> \<not> f64_is_nan a \<and> \<not> f64_is_inf a"

definition encode_limits :: "limit_set \<Rightarrow> stored_rule list result" where
  "encode_limits rules =
     (if list_all (\<lambda>r. f64_finite (r_amount r)) rules
      then Inr (map (\<lambda>r. \<lparr>sr_minutes = go_div (r_window r) ns_minute, sr_amount = r_amount r\<rparr>) rules)
      else Inl EFault)"

definition decode_limits :: "stored_rule list \<Rightarrow> limit_set" where
  "decode_limits rows =
     map (\<lambda>r. \<lparr>r_window = wrap64 (sr_minutes r * ns_minute), r_amount = sr_amount r\<rparr>) rows"

section \<open>Users\<close>

definition encode_policy :: "policy \<Rightarrow> string list" where
  "encode_policy p = map rule_string p"

definition decode_policy :: "string list \<Rightarrow> policy result" where
  "decode_policy raw = collect parse_rule raw"

definition decode_spend_limits :: "stored_rule list option \<Rightarrow> limit_set option" where
  "decode_spend_limits raw = (case raw of None \<Rightarrow> None | Some rows \<Rightarrow> Some (decode_limits rows))"

definition row_user :: "user_row \<Rightarrow> user result" where
  "row_user row =
     (case decode_policy (ur_policy row) of
        Inl x \<Rightarrow> Inl x
      | Inr p \<Rightarrow> Inr \<lparr>u_id = ur_id row, u_kind = ur_kind row,
          u_email = (case ur_email row of None \<Rightarrow> [] | Some a \<Rightarrow> a),
          u_name = ur_name row, u_role = ur_role row, u_status = ur_status row, u_policy = p,
          u_source = ur_source row, u_limits = decode_spend_limits (ur_limits row),
          u_must_change = ur_must_change row, u_last_seen = ur_last_seen row, u_created = ur_created row\<rparr>)"

definition scan_user :: "user_row option \<Rightarrow> user result" where
  "scan_user row = (case row of None \<Rightarrow> Inl ENotFound | Some r \<Rightarrow> row_user r)"

definition lower_email :: "env \<Rightarrow> user_row \<Rightarrow> string option" where
  "lower_email e r = map_option (sql_lower e) (ur_email r)"

text \<open>The unique index over \<open>lower(email)\<close>: no other row holds the address.\<close>

definition email_taken :: "env \<Rightarrow> uuid \<Rightarrow> string option \<Rightarrow> db \<Rightarrow> bool" where
  "email_taken e i email d \<longleftrightarrow>
     (case email of None \<Rightarrow> False
      | Some a \<Rightarrow> list_ex (\<lambda>r. ur_id r \<noteq> i \<and> lower_email e r = Some (sql_lower e a)) (t_users d))"

definition user_checks :: "string \<Rightarrow> string \<Rightarrow> string \<Rightarrow> string \<Rightarrow> bool" where
  "user_checks kind role status source \<longleftrightarrow>
     kind \<in> {kind_human, kind_service} \<and> role \<in> {role_user, role_admin}
     \<and> status \<in> {status_active, status_blocked} \<and> source \<in> {policy_local, policy_idp}"

definition insert_user :: "user \<Rightarrow> unit stmt" where
  "insert_user u = (\<lambda>e t d.
     let row = \<lparr>ur_id = u_id u, ur_kind = u_kind u, ur_email = null_string (u_email u), ur_name = u_name u,
           ur_role = u_role u, ur_status = u_status u, ur_policy = encode_policy (u_policy u),
           ur_source = u_source u, ur_must_change = u_must_change u, ur_last_seen = u_last_seen u,
           ur_created = (if u_created u = zero_time then db_clock e t else u_created u), ur_limits = None\<rparr> in
     if \<not> user_checks (ur_kind row) (ur_role row) (ur_status row) (ur_source row) then Inl EFault
     else if user_exists (u_id u) d \<or> email_taken e (u_id u) (ur_email row) d then Inl EConflict
     else Inr ((), d\<lparr>t_users := t_users d @ [row]\<rparr>))"

definition users_create :: "user \<Rightarrow> unit io" where
  "users_create u = exec (insert_user u)"

definition users_by_id :: "uuid \<Rightarrow> user io" where
  "users_by_id i = query (\<lambda>e t d. scan_user (find (\<lambda>r. ur_id r = i) (t_users d)))"

definition users_by_email :: "string \<Rightarrow> user io" where
  "users_by_email email = query (\<lambda>e t d.
     scan_user (find (\<lambda>r. lower_email e r = Some (sql_lower e email)) (t_users d)))"

definition users_admin_exists :: "bool io" where
  "users_admin_exists = query (\<lambda>e t d. Inr (list_ex (\<lambda>r. ur_role r = role_admin) (t_users d)))"

text \<open>An \<open>UPDATE\<close> of the row with this id; the result tells whether a row was affected.\<close>

definition map_user :: "uuid \<Rightarrow> (user_row \<Rightarrow> user_row) \<Rightarrow> db \<Rightarrow> db" where
  "map_user i f d = d\<lparr>t_users := map (\<lambda>r. if ur_id r = i then f r else r) (t_users d)\<rparr>"

definition update_user :: "uuid \<Rightarrow> (user_row \<Rightarrow> user_row) \<Rightarrow> unit stmt" where
  "update_user i f = (\<lambda>e t d. if user_exists i d then Inr ((), map_user i f d) else Inl ENotFound)"

definition users_update_policy :: "uuid \<Rightarrow> policy \<Rightarrow> unit io" where
  "users_update_policy i p = exec (update_user i (\<lambda>r. r\<lparr>ur_policy := encode_policy p\<rparr>))"

definition greatest :: "instant option \<Rightarrow> instant \<Rightarrow> instant option" where
  "greatest old new = (case old of None \<Rightarrow> Some new | Some o' \<Rightarrow> Some (max o' new))"

definition users_touch_last_seen :: "uuid \<Rightarrow> instant \<Rightarrow> unit io" where
  "users_touch_last_seen i seen = exec (\<lambda>e t d.
     Inr ((), map_user i (\<lambda>r. r\<lparr>ur_last_seen := greatest (ur_last_seen r) seen\<rparr>) d))"

definition users_set_must_change :: "uuid \<Rightarrow> bool \<Rightarrow> unit io" where
  "users_set_must_change i must = exec (update_user i (\<lambda>r. r\<lparr>ur_must_change := must\<rparr>))"

definition users_update_spend_limits :: "uuid \<Rightarrow> limit_set option \<Rightarrow> unit io" where
  "users_update_spend_limits i custom =
     bnd (lift (case custom of None \<Rightarrow> Inr None
                | Some rules \<Rightarrow> (case encode_limits rules of Inl x \<Rightarrow> Inl x | Inr rows \<Rightarrow> Inr (Some rows))))
       (\<lambda>raw. exec (update_user i (\<lambda>r. r\<lparr>ur_limits := raw\<rparr>)))"

definition users_fill_display_name :: "uuid \<Rightarrow> string \<Rightarrow> bool io" where
  "users_fill_display_name i nam =
     bnd (exec (\<lambda>e t d.
        if list_ex (\<lambda>r. ur_id r = i \<and> ur_name r = []) (t_users d)
        then Inr (True, map_user i (\<lambda>r. if ur_name r = [] then r\<lparr>ur_name := nam\<rparr> else r) d)
        else Inr (False, d)))
     (\<lambda>filled. if filled then ret True
       else bnd (query (\<lambda>e t d. Inr (user_exists i d)))
         (\<lambda>there. if \<not> there then raise ENotFound else ret False))"

definition users_save_identity_state :: "user \<Rightarrow> unit io" where
  "users_save_identity_state u = exec (\<lambda>e t d.
     if \<not> user_exists (u_id u) d then Inl ENotFound
     else if u_source u \<notin> {policy_local, policy_idp} then Inl EFault
     else if email_taken e (u_id u) (null_string (u_email u)) d then Inl EConflict
     else Inr ((), map_user (u_id u) (\<lambda>r. r\<lparr>ur_policy := encode_policy (u_policy u),
            ur_source := u_source u, ur_email := null_string (u_email u)\<rparr>) d))"

record admin_change =
  ch_name :: "string option"
  ch_role :: "string option"
  ch_status :: "string option"
  ch_policy :: "policy option"
  ch_refuse_idp :: bool

definition coalesce :: "'a option \<Rightarrow> 'a \<Rightarrow> 'a" where
  "coalesce x y = (case x of None \<Rightarrow> y | Some z \<Rightarrow> z)"

definition apply_change :: "admin_change \<Rightarrow> user_row \<Rightarrow> user_row" where
  "apply_change ch r = r\<lparr>ur_name := coalesce (ch_name ch) (ur_name r),
     ur_role := coalesce (ch_role ch) (ur_role r), ur_status := coalesce (ch_status ch) (ur_status r),
     ur_policy := coalesce (map_option encode_policy (ch_policy ch)) (ur_policy r),
     ur_source := (if ch_policy ch = None then ur_source r else policy_local)\<rparr>"

definition change_refused :: "admin_change \<Rightarrow> user_row \<Rightarrow> bool" where
  "change_refused ch r \<longleftrightarrow> ch_refuse_idp ch \<and> ch_policy ch \<noteq> None \<and> ur_source r = policy_idp"

definition users_update_admin_state :: "uuid \<Rightarrow> admin_change \<Rightarrow> unit io" where
  "users_update_admin_state i ch =
     bnd (exec (\<lambda>e t d.
        if list_ex (\<lambda>r. ur_id r = i \<and> \<not> change_refused ch r) (t_users d)
        then
          if coalesce (ch_role ch) role_user \<notin> {role_user, role_admin}
             \<or> coalesce (ch_status ch) status_active \<notin> {status_active, status_blocked} then Inl EFault
          else Inr (True, map_user i (\<lambda>r. if change_refused ch r then r else apply_change ch r) d)
        else Inr (False, d)))
     (\<lambda>affected. if affected then ret ()
       else bnd (query (\<lambda>e t d. Inr (user_exists i d)))
         (\<lambda>there. if there then raise EPolicyManagedByIDP else raise ENotFound))"

section \<open>The audit log\<close>

definition audit_insert :: "audit_event \<Rightarrow> unit stmt" where
  "audit_insert ev = (\<lambda>e t d.
     let actor = null_uuid (ae_actor ev) in
     if \<not> ref_ok actor d then Inl EFault
     else Inr ((), d\<lparr>t_audit := t_audit d @
       [\<lparr>ar_at = (if ae_at ev = zero_time then clock e t else ae_at ev), ar_actor = actor,
         ar_action = ae_action ev, ar_target = ae_target ev, ar_detail = ae_detail ev,
         ar_ip = ae_ip ev, ar_agent = ae_agent ev\<rparr>]\<rparr>))"

definition audit_record :: "audit_event \<Rightarrow> unit io" where
  "audit_record ev = exec (audit_insert ev)"

section \<open>Passwords\<close>

definition password_upsert :: "uuid \<Rightarrow> string \<Rightarrow> instant option \<Rightarrow> unit stmt" where
  "password_upsert i hash expires = (\<lambda>e t d.
     if list_ex (\<lambda>r. pw_user r = i) (t_passwords d)
     then Inr ((), d\<lparr>t_passwords := map (\<lambda>r. if pw_user r = i then r\<lparr>pw_hash := hash, pw_expires := expires\<rparr> else r)
            (t_passwords d)\<rparr>)
     else if \<not> user_exists i d then Inl EFault
     else Inr ((), d\<lparr>t_passwords := t_passwords d @ [\<lparr>pw_user = i, pw_hash = hash, pw_expires = expires\<rparr>]\<rparr>))"

definition passwords_set :: "uuid \<Rightarrow> string \<Rightarrow> instant option \<Rightarrow> unit io" where
  "passwords_set i hash expires = exec (password_upsert i hash expires)"

definition passwords_get :: "uuid \<Rightarrow> (string \<times> instant option) io" where
  "passwords_get i = query (\<lambda>e t d.
     case find (\<lambda>r. pw_user r = i) (t_passwords d) of
       None \<Rightarrow> Inl ENotFound
     | Some r \<Rightarrow> Inr (pw_hash r, pw_expires r))"

section \<open>Identity links and invitations\<close>

definition identities_by_subject :: "string \<Rightarrow> string \<Rightarrow> uuid io" where
  "identities_by_subject issuer subject = query (\<lambda>e t d.
     case find (\<lambda>r. ln_issuer r = issuer \<and> ln_subject r = subject) (t_links d) of
       None \<Rightarrow> Inl ENotFound
     | Some r \<Rightarrow> Inr (ln_user r))"

definition identities_link :: "uuid \<Rightarrow> string \<Rightarrow> string \<Rightarrow> unit io" where
  "identities_link i issuer subject = exec (\<lambda>e t d.
     if list_ex (\<lambda>r. ln_issuer r = issuer \<and> ln_subject r = subject) (t_links d) then Inl EConflict
     else if \<not> user_exists i d then Inl EFault
     else Inr ((), d\<lparr>t_links := t_links d @ [\<lparr>ln_user = i, ln_issuer = issuer, ln_subject = subject\<rparr>]\<rparr>))"

definition identities_pending_by_email :: "string \<Rightarrow> string \<Rightarrow> uuid io" where
  "identities_pending_by_email issuer email = query (\<lambda>e t d.
     case find (\<lambda>r. pn_issuer r = issuer \<and> sql_lower e (pn_email r) = sql_lower e email
                 \<and> db_clock e t < pn_expires r) (t_pendings d) of
       None \<Rightarrow> Inl ENotFound
     | Some r \<Rightarrow> Inr (pn_user r))"

definition identities_consume_pending :: "uuid \<Rightarrow> unit io" where
  "identities_consume_pending i = exec (\<lambda>e t d.
     Inr ((), d\<lparr>t_pendings := filter (\<lambda>r. pn_user r \<noteq> i) (t_pendings d)\<rparr>))"

record invitation =
  iv_issuer :: string
  iv_email :: string
  iv_expires :: instant

definition write_invitation :: "uuid \<Rightarrow> invitation \<Rightarrow> unit stmt" where
  "write_invitation i iv = (\<lambda>e t d.
     let rest = filter (\<lambda>r. \<not> (pn_user r = i
           \<or> (pn_issuer r = iv_issuer iv \<and> sql_lower e (pn_email r) = sql_lower e (iv_email iv)))) (t_pendings d) in
     if list_ex (\<lambda>r. ln_user r = i) (t_links d) then Inl EAlreadyLinked
     else if \<not> user_exists i d then Inl EFault
     else Inr ((), d\<lparr>t_pendings := rest @
       [\<lparr>pn_user = i, pn_issuer = iv_issuer iv, pn_email = iv_email iv, pn_expires = iv_expires iv\<rparr>]\<rparr>))"

definition identities_invite :: "uuid \<Rightarrow> invitation \<Rightarrow> unit io" where
  "identities_invite i iv = exec (write_invitation i iv)"

section \<open>Accounts as one unit\<close>

record new_account =
  na_user :: user
  na_password :: "(string \<times> instant option) option"
  na_invitation :: "invitation option"
  na_audit :: audit_event

definition users_create_account :: "new_account \<Rightarrow> unit io" where
  "users_create_account a = exec
     (tx_then (insert_user (na_user a))
     (tx_then (tx_opt (na_password a) (\<lambda>(hash, expires). password_upsert (u_id (na_user a)) hash expires))
     (tx_then (tx_opt (na_invitation a) (write_invitation (u_id (na_user a))))
       (audit_insert (na_audit a)))))"

definition users_unblock :: "uuid \<Rightarrow> audit_event \<Rightarrow> unit io" where
  "users_unblock i ev = exec
     (tx_then (update_user i (\<lambda>r. r\<lparr>ur_status := status_active\<rparr>)) (audit_insert ev))"

datatype sign_in_method = SignInPassword | SignInOIDC

record user_view =
  uv_user :: user
  uv_sign_in :: "sign_in_method list"
  uv_invitation :: "instant option"

definition row_view :: "instant \<Rightarrow> db \<Rightarrow> user_row \<Rightarrow> user_view result" where
  "row_view now d row =
     (case row_user row of Inl x \<Rightarrow> Inl x
      | Inr u \<Rightarrow>
         let has_password = list_ex (\<lambda>p. pw_user p = ur_id row
               \<and> (case pw_expires p of None \<Rightarrow> True | Some x \<Rightarrow> now < x)) (t_passwords d);
             has_link = list_ex (\<lambda>l. ln_user l = ur_id row) (t_links d);
             invited = map_option pn_expires (find (\<lambda>p. pn_user p = ur_id row) (t_pendings d)) in
         Inr \<lparr>uv_user = u,
           uv_sign_in = (if has_password then [SignInPassword] else []) @ (if has_link then [SignInOIDC] else []),
           uv_invitation = (if has_link then None else invited)\<rparr>)"

definition users_list :: "user_view list io" where
  "users_list = query (\<lambda>e t d.
     collect (row_view (db_clock e t) d) (sort_key ur_created (sort_key ur_id (t_users d))))"

definition users_view :: "uuid \<Rightarrow> user_view io" where
  "users_view i = query (\<lambda>e t d.
     case find (\<lambda>r. ur_id r = i) (t_users d) of
       None \<Rightarrow> Inl ENotFound
     | Some r \<Rightarrow> row_view (db_clock e t) d r)"

section \<open>Sessions\<close>

record session =
  se_id :: string
  se_hash :: string
  se_user :: uuid
  se_restricted :: bool
  se_ip :: string
  se_agent :: string
  se_created :: instant
  se_expires :: instant

definition sessions_create :: "session \<Rightarrow> unit io" where
  "sessions_create s = exec (\<lambda>e t d.
     if list_ex (\<lambda>r. ss_hash r = se_hash s) (t_sessions d) then Inl EConflict
     else if \<not> user_exists (se_user s) d then Inl EFault
     else Inr ((), d\<lparr>t_sessions := t_sessions d @
       [\<lparr>ss_hash = se_hash s, ss_user = se_user s, ss_ip = se_ip s, ss_agent = se_agent s,
         ss_created = se_created s, ss_expires = se_expires s\<rparr>]\<rparr>))"

definition row_session :: "session_row \<Rightarrow> session" where
  "row_session r = \<lparr>se_id = [], se_hash = ss_hash r, se_user = ss_user r, se_restricted = False,
     se_ip = ss_ip r, se_agent = ss_agent r, se_created = ss_created r, se_expires = ss_expires r\<rparr>"

definition sessions_by_hash :: "string \<Rightarrow> session io" where
  "sessions_by_hash hash = query (\<lambda>e t d.
     case find (\<lambda>r. ss_hash r = hash \<and> db_clock e t < ss_expires r) (t_sessions d) of
       None \<Rightarrow> Inl ENotFound
     | Some r \<Rightarrow> Inr (row_session r))"

definition sessions_delete :: "string \<Rightarrow> unit io" where
  "sessions_delete hash = exec (\<lambda>e t d.
     Inr ((), d\<lparr>t_sessions := filter (\<lambda>r. ss_hash r \<noteq> hash) (t_sessions d)\<rparr>))"

definition sessions_delete_by_user :: "uuid \<Rightarrow> unit io" where
  "sessions_delete_by_user i = exec (\<lambda>e t d.
     Inr ((), d\<lparr>t_sessions := filter (\<lambda>r. ss_user r \<noteq> i) (t_sessions d)\<rparr>))"

definition sessions_delete_by_user_except :: "uuid \<Rightarrow> string \<Rightarrow> unit io" where
  "sessions_delete_by_user_except i keep = exec (\<lambda>e t d.
     Inr ((), d\<lparr>t_sessions := filter (\<lambda>r. \<not> (ss_user r = i \<and> ss_hash r \<noteq> keep)) (t_sessions d)\<rparr>))"

section \<open>Sign-in attempts\<close>

definition attempts_failures :: "string \<Rightarrow> (int \<times> instant option) io" where
  "attempts_failures email = query (\<lambda>e t d.
     case find (\<lambda>r. la_email r = sql_lower e email) (t_attempts d) of
       None \<Rightarrow> Inr (0, None)
     | Some r \<Rightarrow> Inr (la_failures r, la_locked r))"

definition charged :: "int \<Rightarrow> instant \<Rightarrow> instant \<Rightarrow> attempt_row \<Rightarrow> attempt_row" where
  "charged max_failures now lock_until r =
     (let in_force = (case la_locked r of None \<Rightarrow> False | Some l \<Rightarrow> now < l);
          stale = (case la_locked r of None \<Rightarrow> False | Some l \<Rightarrow> l \<le> now) \<or> la_last r \<le> now - (lock_until - now) in
      r\<lparr>la_failures := (if in_force then la_failures r + 1 else if stale then 1 else la_failures r + 1),
        la_locked := (if in_force then la_locked r
          else if stale then (if max_failures \<le> 1 then Some lock_until else None)
          else if max_failures \<le> la_failures r + 1 then Some lock_until else None),
        la_last := now\<rparr>)"

definition attempts_charge :: "string \<Rightarrow> int \<Rightarrow> instant \<Rightarrow> instant \<Rightarrow> (int \<times> instant option) io" where
  "attempts_charge email max_failures now lock_until = exec (\<lambda>e t d.
     let key = sql_lower e email in
     case find (\<lambda>r. la_email r = key) (t_attempts d) of
       None \<Rightarrow>
         let r = \<lparr>la_email = key, la_failures = 1,
               la_locked = (if max_failures \<le> 1 then Some lock_until else None), la_last = now\<rparr> in
         Inr ((la_failures r, la_locked r), d\<lparr>t_attempts := t_attempts d @ [r]\<rparr>)
     | Some old \<Rightarrow>
         let r = charged max_failures now lock_until old in
         Inr ((la_failures r, la_locked r),
           d\<lparr>t_attempts := map (\<lambda>x. if la_email x = key then charged max_failures now lock_until x else x)
             (t_attempts d)\<rparr>))"

definition attempts_clear :: "string \<Rightarrow> unit io" where
  "attempts_clear email = exec (\<lambda>e t d.
     Inr ((), d\<lparr>t_attempts := filter (\<lambda>r. la_email r \<noteq> sql_lower e email) (t_attempts d)\<rparr>))"

section \<open>API tokens\<close>

definition max_live_tokens :: nat where "max_live_tokens = 50"

definition live_tokens :: "uuid \<Rightarrow> db \<Rightarrow> nat" where
  "live_tokens i d = length (filter (\<lambda>k. tk_user k = i \<and> tk_revoked_at k = None) (t_tokens d))"

definition tokens_create :: "token \<Rightarrow> unit io" where
  "tokens_create k = exec (\<lambda>e t d.
     if \<not> user_exists (tk_user k) d then Inl ENotFound
     else if max_live_tokens \<le> live_tokens (tk_user k) d then Inl ETokenLimit
     else if list_ex (\<lambda>r. tk_id r = tk_id k \<or> tk_hash r = tk_hash k) (t_tokens d) then Inl EFault
     else Inr ((), d\<lparr>t_tokens := t_tokens d @
       [k\<lparr>tk_last_used := None, tk_revoked_at := None, tk_revoked_by := None\<rparr>]\<rparr>))"

definition found :: "'a option \<Rightarrow> 'a result" where
  "found x = (case x of None \<Rightarrow> Inl ENotFound | Some y \<Rightarrow> Inr y)"

definition tokens_by_id :: "uuid \<Rightarrow> token io" where
  "tokens_by_id i = query (\<lambda>e t d. found (find (\<lambda>k. tk_id k = i) (t_tokens d)))"

definition tokens_by_hash :: "string \<Rightarrow> token io" where
  "tokens_by_hash hash = query (\<lambda>e t d. found (find (\<lambda>k. tk_hash k = hash) (t_tokens d)))"

definition tokens_list_by_user :: "uuid \<Rightarrow> token list io" where
  "tokens_list_by_user i = query (\<lambda>e t d.
     Inr (sort_key (\<lambda>k. - tk_created k) (filter (\<lambda>k. tk_user k = i) (t_tokens d))))"

definition tokens_save :: "token \<Rightarrow> unit io" where
  "tokens_save k = exec (\<lambda>e t d.
     if \<not> list_ex (\<lambda>r. tk_id r = tk_id k) (t_tokens d) then Inl ENotFound
     else if \<not> ref_ok (tk_revoked_by k) d then Inl EFault
     else Inr ((), d\<lparr>t_tokens := map (\<lambda>r. if tk_id r = tk_id k
            then r\<lparr>tk_label := tk_label k, tk_revoked_at := tk_revoked_at k, tk_revoked_by := tk_revoked_by k\<rparr>
            else r) (t_tokens d)\<rparr>))"

definition tokens_touch_last_used :: "uuid \<Rightarrow> instant \<Rightarrow> unit io" where
  "tokens_touch_last_used i used = exec (\<lambda>e t d.
     Inr ((), d\<lparr>t_tokens := map (\<lambda>r. if tk_id r = i
            then r\<lparr>tk_last_used := greatest (tk_last_used r) used\<rparr> else r) (t_tokens d)\<rparr>))"

end
