(* ===== verification/LimitRepos.thy ===== *)
theory LimitRepos
  imports Repos "HOL-Library.Product_Lexorder"
begin

text \<open>
  The repositories of \<open>internal/infra/postgres\<close> beside the accounts: \<open>limitwindows\<close> (the spend
  windows accounts have opened), \<open>settings\<close> (the spend-limit defaults and what users are shown),
  \<open>prices\<close> (the manual and the catalogue's price list) and \<open>usage\<close> (the ledger, which charges
  the windows). Row locks order concurrent transactions; a transaction here is one step, so
  they have nothing to do.
\<close>

section \<open>Spend windows\<close>

definition wrap32 :: "int \<Rightarrow> int" where
  "wrap32 n = (n + 2 ^ 31) mod 2 ^ 32 - 2 ^ 31"

definition minutes_of :: "duration \<Rightarrow> int" where
  "minutes_of x = wrap32 (go_div x ns_minute)"

definition row_window :: "window_row \<Rightarrow> window" where
  "row_window r = \<lparr>w_length = wrap64 (lw_minutes r * ns_minute), w_started = lw_started r, w_spent = lw_spent r\<rparr>"

definition windows_of :: "uuid \<Rightarrow> window list io" where
  "windows_of i = query (\<lambda>e t d. Inr (map row_window (filter (\<lambda>r. lw_user r = i) (t_windows d))))"

text \<open>
  One \<open>INSERT ... ON CONFLICT DO UPDATE\<close> of the windows to open: the lengths already written by
  the statement are kept, since it may not write one row twice.
\<close>

fun open_rows :: "uuid \<Rightarrow> instant \<Rightarrow> int list \<Rightarrow> int list \<Rightarrow> window_row list \<Rightarrow> window_row list result" where
  "open_rows i start written [] rows = Inr rows"
| "open_rows i start written (m # ms) rows =
     (if m \<in> set written then Inl EFault
      else if \<not> (1 \<le> m \<and> m \<le> 525600) then Inl EFault
      else if list_ex (\<lambda>r. lw_user r = i \<and> lw_minutes r = m) rows
      then
        (if list_ex (\<lambda>r. lw_user r = i \<and> lw_minutes r = m \<and> lw_started r + m * ns_minute \<le> start) rows
         then open_rows i start (m # written) ms
                (map (\<lambda>r. if lw_user r = i \<and> lw_minutes r = m
                          then r\<lparr>lw_started := start, lw_spent := Fin 0\<rparr> else r) rows)
         else open_rows i start written ms rows)
      else open_rows i start (m # written) ms
             (rows @ [\<lparr>lw_user = i, lw_minutes = m, lw_started = start, lw_spent = Fin 0\<rparr>]))"

definition windows_open :: "uuid \<Rightarrow> duration list \<Rightarrow> duration list \<Rightarrow> instant \<Rightarrow> unit io" where
  "windows_open i opening dropping start =
     (if opening = [] \<and> dropping = [] then ret ()
      else exec (\<lambda>e t d.
        if opening \<noteq> [] \<and> \<not> user_exists i d then Inl EFault
        else case open_rows i start [] (sort (map minutes_of opening)) (t_windows d) of
          Inl x \<Rightarrow> Inl x
        | Inr rows \<Rightarrow> Inr ((), d\<lparr>t_windows :=
            filter (\<lambda>r. \<not> (lw_user r = i \<and> lw_minutes r \<in> set (map minutes_of dropping))) rows\<rparr>)))"

definition windows_reset :: "uuid \<Rightarrow> duration option \<Rightarrow> unit io" where
  "windows_reset i wnd = exec (\<lambda>e t d.
     Inr ((), d\<lparr>t_windows := filter (\<lambda>r. \<not> (lw_user r = i
       \<and> (case wnd of None \<Rightarrow> True | Some x \<Rightarrow> lw_minutes r = minutes_of x))) (t_windows d)\<rparr>))"

definition inherits :: "uuid \<Rightarrow> db \<Rightarrow> bool" where
  "inherits i d \<longleftrightarrow> list_ex (\<lambda>u. ur_id u = i \<and> ur_limits u = None) (t_users d)"

definition windows_drop_inherited :: "duration list \<Rightarrow> unit io" where
  "windows_drop_inherited keep = exec (\<lambda>e t d.
     Inr ((), d\<lparr>t_windows := filter (\<lambda>r. \<not> (inherits (lw_user r) d
       \<and> lw_minutes r \<notin> set (map minutes_of keep))) (t_windows d)\<rparr>))"

section \<open>Settings\<close>

definition settings_limit_defaults :: "limit_set io" where
  "settings_limit_defaults = query (\<lambda>e t d.
     case t_limit_defaults d of None \<Rightarrow> Inr [] | Some rows \<Rightarrow> Inr (decode_limits rows))"

definition settings_set_limit_defaults :: "limit_set \<Rightarrow> uuid \<Rightarrow> instant \<Rightarrow> unit io" where
  "settings_set_limit_defaults rules by' written =
     bnd (lift (encode_limits rules)) (\<lambda>rows. exec (\<lambda>e t d.
       if \<not> ref_ok (null_uuid by') d then Inl EFault
       else Inr ((), d\<lparr>t_limit_defaults := Some rows\<rparr>)))"

text \<open>A field of a JSON object read into a \<open>bool\<close>: absent or null leaves what was there.\<close>

definition json_bool :: "string \<Rightarrow> (string \<times> json) list \<Rightarrow> bool \<Rightarrow> bool result" where
  "json_bool key flds old =
     (case map_of flds key of
        None \<Rightarrow> Inr old
      | Some JNull \<Rightarrow> Inr old
      | Some (JBool b) \<Rightarrow> Inr b
      | Some _ \<Rightarrow> Inl EFault)"

definition decode_display :: "json \<Rightarrow> display_config result" where
  "decode_display raw =
     (case raw of
        JObj flds \<Rightarrow>
          (case json_bool ''costs_visible'' flds False of Inl x \<Rightarrow> Inl x
           | Inr c \<Rightarrow> (case json_bool ''mask_unknown_errors'' flds True of Inl x \<Rightarrow> Inl x
             | Inr m \<Rightarrow> Inr \<lparr>dc_costs_visible = c, dc_mask_unknown = m\<rparr>))
      | JNull \<Rightarrow> Inr \<lparr>dc_costs_visible = False, dc_mask_unknown = True\<rparr>
      | _ \<Rightarrow> Inl EFault)"

definition settings_display :: "display_config io" where
  "settings_display = query (\<lambda>e t d.
     case t_display d of
       None \<Rightarrow> Inr \<lparr>dc_costs_visible = False, dc_mask_unknown = True\<rparr>
     | Some raw \<Rightarrow> decode_display raw)"

definition encode_display :: "display_config \<Rightarrow> json" where
  "encode_display cfg = JObj [(''costs_visible'', JBool (dc_costs_visible cfg)),
     (''mask_unknown_errors'', JBool (dc_mask_unknown cfg))]"

definition settings_set_display :: "display_config \<Rightarrow> uuid \<Rightarrow> instant \<Rightarrow> unit io" where
  "settings_set_display cfg by' written = exec (\<lambda>e t d.
     if \<not> ref_ok (null_uuid by') d then Inl EFault
     else Inr ((), d\<lparr>t_display := Some (encode_display cfg)\<rparr>))"

section \<open>Prices\<close>

type_synonym price_key = "string \<times> string"

definition price_key :: "model_price \<Rightarrow> price_key" where
  "price_key p = (mp_provider p, mp_model p)"

definition stored_rate :: "f64 \<Rightarrow> bool" where
  "stored_rate a \<longleftrightarrow> f64_finite a \<and> f64_le (Fin 0) a"

definition same_rate :: "model_price \<Rightarrow> model_price \<Rightarrow> bool" where
  "same_rate a b \<longleftrightarrow> f64_eq (mp_input a) (mp_input b) \<and> f64_eq (mp_output a) (mp_output b)
     \<and> f64_eq (mp_cache_read a) (mp_cache_read b) \<and> f64_eq (mp_cache_write a) (mp_cache_write b)"

definition upsert_price :: "instant \<Rightarrow> model_price list \<Rightarrow> model_price \<Rightarrow> model_price" where
  "upsert_price written old p =
     (case find (\<lambda>q. price_key q = price_key p) old of
        None \<Rightarrow> p\<lparr>mp_updated := written\<rparr>
      | Some q \<Rightarrow> p\<lparr>mp_updated := (if same_rate q p then mp_updated q else written)\<rparr>)"

text \<open>The content of a price table after it was replaced, or the failed statement.\<close>

definition replace_prices :: "instant \<Rightarrow> model_price list \<Rightarrow> model_price list \<Rightarrow> model_price list result" where
  "replace_prices written new old =
     (if \<not> distinct (map price_key new)
         \<or> \<not> list_all (\<lambda>p. mp_provider p \<noteq> [] \<and> mp_model p \<noteq> [] \<and> stored_rate (mp_input p)
              \<and> stored_rate (mp_output p) \<and> stored_rate (mp_cache_read p) \<and> stored_rate (mp_cache_write p)) new
      then Inl EFault
      else Inr (map (upsert_price written old) new))"

definition list_prices :: "model_price list \<Rightarrow> model_price list" where
  "list_prices rows = sort_key price_key rows"

definition prices_list :: "model_price list io" where
  "prices_list = query (\<lambda>e t d. Inr (list_prices (t_prices d)))"

definition prices_replace :: "model_price list \<Rightarrow> instant \<Rightarrow> unit io" where
  "prices_replace new written = exec (\<lambda>e t d.
     case replace_prices written new (t_prices d) of
       Inl x \<Rightarrow> Inl x
     | Inr rows \<Rightarrow> Inr ((), d\<lparr>t_prices := rows\<rparr>))"

definition catalog_list :: "model_price list io" where
  "catalog_list = query (\<lambda>e t d. Inr (list_prices (t_catalog d)))"

definition catalog_get_state :: "catalog_state io" where
  "catalog_get_state = query (\<lambda>e t d. Inr (t_catalog_state d))"

definition catalog_set_state :: "catalog_state \<Rightarrow> unit io" where
  "catalog_set_state s = exec (\<lambda>e t d. Inr ((), d\<lparr>t_catalog_state := s\<rparr>))"

definition catalog_replace :: "model_price list \<Rightarrow> catalog_state \<Rightarrow> instant \<Rightarrow> unit io" where
  "catalog_replace new s written = exec (\<lambda>e t d.
     case replace_prices written new (t_catalog d) of
       Inl x \<Rightarrow> Inl x
     | Inr rows \<Rightarrow> Inr ((), d\<lparr>t_catalog := rows, t_catalog_state := s\<rparr>))"

section \<open>The usage ledger\<close>

definition total_usd :: "usage_cost \<Rightarrow> f64" where
  "total_usd c = f64_add (f64_add (f64_add (uc_input c) (uc_output c)) (uc_cache_read c)) (uc_cache_write c)"

definition event_ok :: "usage_event \<Rightarrow> bool" where
  "event_ok ev \<longleftrightarrow> stored_rate (uc_input (ue_cost ev)) \<and> stored_rate (uc_output (ue_cost ev))
     \<and> stored_rate (uc_cache_read (ue_cost ev)) \<and> stored_rate (uc_cache_write (ue_cost ev))
     \<and> f64_finite (uc_savings (ue_cost ev)) \<and> 0 \<le> uc_unpriced (ue_cost ev)"

definition stored_event :: "db \<Rightarrow> usage_event \<Rightarrow> usage_event" where
  "stored_event d ev = ev\<lparr>ue_user := (if user_exists (ue_user ev) d then ue_user ev else uuid_nil),
     ue_token := (if list_ex (\<lambda>k. tk_id k = ue_token ev) (t_tokens d) then ue_token ev else uuid_nil)\<rparr>"

text \<open>The totals the batch charges each attributed owner.\<close>

fun owner_costs :: "usage_event list \<Rightarrow> (uuid \<times> f64) list \<Rightarrow> (uuid \<times> f64) list" where
  "owner_costs [] totals = totals"
| "owner_costs (ev # evs) totals =
     owner_costs evs
       (if ue_user ev = uuid_nil then totals
        else AList.update (ue_user ev)
          (f64_add (case map_of totals (ue_user ev) of None \<Rightarrow> Fin 0 | Some s \<Rightarrow> s) (total_usd (ue_cost ev))) totals)"

definition charge_window :: "(uuid \<times> f64) list \<Rightarrow> window_row \<Rightarrow> window_row" where
  "charge_window totals r =
     (case map_of totals (lw_user r) of None \<Rightarrow> r | Some c \<Rightarrow> r\<lparr>lw_spent := f64_add (lw_spent r) c\<rparr>)"

definition usage_append_batch :: "usage_event list \<Rightarrow> uuid list io" where
  "usage_append_batch evs =
     (if evs = [] then ret []
      else exec (\<lambda>e t d.
        let totals = owner_costs evs [];
            charged = map (charge_window totals) (t_windows d);
            d' = d\<lparr>t_usage := t_usage d @ map (stored_event d) evs, t_windows := charged\<rparr> in
        if \<not> list_all event_ok evs then Inl EFault
        else if list_ex (\<lambda>r. \<not> stored_rate (lw_spent r)) charged then Inl EFault
        else Inr (remdups (map lw_user (filter (\<lambda>r. map_of totals (lw_user r) \<noteq> None) (t_windows d))), d')))"

end
