(* ===== verification/Integrity.thy ===== *)
theory Integrity
  imports LimitRepos
begin

text \<open>
  What the schema and the statements of the repositories keep true of the database: primary and
  unique keys, foreign keys, check constraints. Every statement preserves it, hence every
  operation composed of them does, and so do two monotonicity facts: no account is ever removed
  and no audit record is ever rewritten.
\<close>

section \<open>The invariant\<close>

definition ids_of :: "db \<Rightarrow> uuid set" where
  "ids_of d = ur_id ` set (t_users d)"

definition users_ok :: "env \<Rightarrow> user_row list \<Rightarrow> bool" where
  "users_ok e us \<longleftrightarrow> distinct (map ur_id us)
     \<and> (\<forall>r \<in> set us. \<forall>s \<in> set us. ur_id r \<noteq> ur_id s \<longrightarrow> lower_email e r \<noteq> None \<longrightarrow> lower_email e r \<noteq> lower_email e s)
     \<and> (\<forall>r \<in> set us. user_checks (ur_kind r) (ur_role r) (ur_status r) (ur_source r))"

definition passwords_ok :: "uuid set \<Rightarrow> password_row list \<Rightarrow> bool" where
  "passwords_ok us ps \<longleftrightarrow> distinct (map pw_user ps) \<and> (\<forall>r \<in> set ps. pw_user r \<in> us)"

definition links_ok :: "uuid set \<Rightarrow> link_row list \<Rightarrow> bool" where
  "links_ok us ls \<longleftrightarrow> distinct (map (\<lambda>l. (ln_issuer l, ln_subject l)) ls) \<and> (\<forall>r \<in> set ls. ln_user r \<in> us)"

definition pendings_ok :: "env \<Rightarrow> uuid set \<Rightarrow> pending_row list \<Rightarrow> bool" where
  "pendings_ok e us ps \<longleftrightarrow> distinct (map pn_user ps)
     \<and> distinct (map (\<lambda>p. (pn_issuer p, sql_lower e (pn_email p))) ps) \<and> (\<forall>r \<in> set ps. pn_user r \<in> us)"

definition sessions_ok :: "uuid set \<Rightarrow> session_row list \<Rightarrow> bool" where
  "sessions_ok us ss \<longleftrightarrow> distinct (map ss_hash ss) \<and> (\<forall>r \<in> set ss. ss_user r \<in> us)"

definition tokens_ok :: "uuid set \<Rightarrow> token list \<Rightarrow> bool" where
  "tokens_ok us ks \<longleftrightarrow> distinct (map tk_id ks) \<and> distinct (map tk_hash ks) \<and> (\<forall>r \<in> set ks. tk_user r \<in> us)
     \<and> (\<forall>k \<in> set ks. \<forall>i. tk_revoked_by k = Some i \<longrightarrow> i \<in> us)"

definition attempts_ok :: "attempt_row list \<Rightarrow> bool" where
  "attempts_ok as \<longleftrightarrow> distinct (map la_email as)"

definition windows_ok :: "uuid set \<Rightarrow> window_row list \<Rightarrow> bool" where
  "windows_ok us ws \<longleftrightarrow> distinct (map (\<lambda>r. (lw_user r, lw_minutes r)) ws)
     \<and> (\<forall>r \<in> set ws. 1 \<le> lw_minutes r \<and> lw_minutes r \<le> 525600 \<and> lw_user r \<in> us \<and> stored_rate (lw_spent r))"

definition audit_ok :: "uuid set \<Rightarrow> audit_row list \<Rightarrow> bool" where
  "audit_ok us as \<longleftrightarrow> (\<forall>a \<in> set as. \<forall>i. ar_actor a = Some i \<longrightarrow> i \<in> us)"

definition prices_ok :: "model_price list \<Rightarrow> bool" where
  "prices_ok ps \<longleftrightarrow> distinct (map price_key ps)"

definition db_ok :: "env \<Rightarrow> db \<Rightarrow> bool" where
  "db_ok e d \<longleftrightarrow> users_ok e (t_users d) \<and> passwords_ok (ids_of d) (t_passwords d) \<and> links_ok (ids_of d) (t_links d)
     \<and> pendings_ok e (ids_of d) (t_pendings d) \<and> sessions_ok (ids_of d) (t_sessions d)
     \<and> tokens_ok (ids_of d) (t_tokens d) \<and> attempts_ok (t_attempts d) \<and> windows_ok (ids_of d) (t_windows d)
     \<and> audit_ok (ids_of d) (t_audit d) \<and> prices_ok (t_prices d) \<and> prices_ok (t_catalog d)"

lemma ids_of_simps [simp]:
  "ids_of (d\<lparr>t_passwords := ps\<rparr>) = ids_of d" "ids_of (d\<lparr>t_links := ls\<rparr>) = ids_of d"
  "ids_of (d\<lparr>t_pendings := pn\<rparr>) = ids_of d" "ids_of (d\<lparr>t_sessions := ss\<rparr>) = ids_of d"
  "ids_of (d\<lparr>t_tokens := ks\<rparr>) = ids_of d" "ids_of (d\<lparr>t_attempts := as\<rparr>) = ids_of d"
  "ids_of (d\<lparr>t_windows := ws\<rparr>) = ids_of d" "ids_of (d\<lparr>t_audit := au\<rparr>) = ids_of d"
  "ids_of (d\<lparr>t_limit_defaults := ld\<rparr>) = ids_of d" "ids_of (d\<lparr>t_display := di\<rparr>) = ids_of d"
  "ids_of (d\<lparr>t_prices := pr\<rparr>) = ids_of d" "ids_of (d\<lparr>t_catalog := ca\<rparr>) = ids_of d"
  "ids_of (d\<lparr>t_catalog_state := cs\<rparr>) = ids_of d" "ids_of (d\<lparr>t_usage := ue\<rparr>) = ids_of d"
  by (simp_all add: ids_of_def)

lemma user_exists_ids: "user_exists i d \<longleftrightarrow> i \<in> ids_of d"
  by (auto simp: user_exists_def ids_of_def list_ex_iff)

lemma ref_ok_ids: "ref_ok r d \<longleftrightarrow> (\<forall>i. r = Some i \<longrightarrow> i \<in> ids_of d)"
  by (auto simp: ref_ok_def user_exists_ids split: option.splits)

lemma ids_of_insert: "ids_of (d\<lparr>t_users := t_users d @ [r]\<rparr>) = insert (ur_id r) (ids_of d)"
  by (auto simp: ids_of_def)

lemma map_key_if: "(\<And>r. key (f r) = key r) \<Longrightarrow> map key (map (\<lambda>r. if P r then f r else r) xs) = map key xs"
  by (induction xs) auto

lemma ids_of_map: "(\<And>r. ur_id (f r) = ur_id r) \<Longrightarrow> ids_of (map_user i f d) = ids_of d"
proof -
  assume same: "\<And>r. ur_id (f r) = ur_id r"
  have "set (map ur_id (map (\<lambda>r. if ur_id r = i then f r else r) (t_users d))) = set (map ur_id (t_users d))"
    by (subst map_key_if) (simp_all only: same)
  moreover have "ids_of (map_user i f d) = set (map ur_id (map (\<lambda>r. if ur_id r = i then f r else r) (t_users d)))"
    by (simp add: ids_of_def map_user_def image_image del: if_image_distrib)
  ultimately show ?thesis by (simp only: ids_of_def set_map)
qed

lemma map_user_other [simp]:
  "t_passwords (map_user i f d) = t_passwords d" "t_links (map_user i f d) = t_links d"
  "t_pendings (map_user i f d) = t_pendings d" "t_sessions (map_user i f d) = t_sessions d"
  "t_tokens (map_user i f d) = t_tokens d" "t_attempts (map_user i f d) = t_attempts d"
  "t_windows (map_user i f d) = t_windows d" "t_audit (map_user i f d) = t_audit d"
  "t_prices (map_user i f d) = t_prices d" "t_catalog (map_user i f d) = t_catalog d"
  by (simp_all add: map_user_def)

text \<open>An update that leaves the address alone and the checked columns in range.\<close>

lemma db_ok_map_user:
  assumes "db_ok e d"
    and "\<And>r. ur_id (f r) = ur_id r"
    and "\<And>r. r \<in> set (t_users d) \<Longrightarrow> ur_id r = i \<Longrightarrow>
      user_checks (ur_kind r) (ur_role r) (ur_status r) (ur_source r) \<Longrightarrow>
      user_checks (ur_kind (f r)) (ur_role (f r)) (ur_status (f r)) (ur_source (f r))"
    and "\<And>r. r \<in> set (t_users d) \<Longrightarrow> ur_id r = i \<Longrightarrow> lower_email e (f r) = lower_email e r
      \<or> (\<forall>s \<in> set (t_users d). ur_id s \<noteq> i \<longrightarrow> lower_email e (f r) \<noteq> None \<longrightarrow> lower_email e (f r) \<noteq> lower_email e s)"
  shows "db_ok e (map_user i f d)"
proof -
  let ?g = "\<lambda>r. if ur_id r = i then f r else r"
  have us: "t_users (map_user i f d) = map ?g (t_users d)" by (simp add: map_user_def)
  have ok: "users_ok e (t_users d)" using assms(1) by (simp add: db_ok_def)
  have "map ur_id (map ?g (t_users d)) = map ur_id (t_users d)" by (rule map_key_if) (rule assms(2))
  then have "distinct (map ur_id (map ?g (t_users d)))" using ok by (simp only: users_ok_def)
  moreover have "lower_email e (?g r) \<noteq> lower_email e (?g s)"
    if "r \<in> set (t_users d)" "s \<in> set (t_users d)" "ur_id (?g r) \<noteq> ur_id (?g s)" "lower_email e (?g r) \<noteq> None" for r s
  proof -
    have ids: "ur_id r \<noteq> ur_id s" using that assms(2) by (auto split: if_splits)
    have pair: "lower_email e a \<noteq> lower_email e b"
      if "a \<in> set (t_users d)" "b \<in> set (t_users d)" "ur_id a \<noteq> ur_id b" "lower_email e a \<noteq> None" for a b
      using ok that unfolding users_ok_def by blast
    consider "ur_id r = i" "ur_id s \<noteq> i" | "ur_id s = i" "ur_id r \<noteq> i" | "ur_id r \<noteq> i" "ur_id s \<noteq> i"
      using ids by blast
    then show ?thesis
    proof cases
      case 1
      then show ?thesis using assms(4) [of r] pair [of r s] that ids by auto
    next
      case 2
      then show ?thesis using assms(4) [of s] pair [of r s] that ids by (auto; metis)
    next
      case 3
      then show ?thesis using pair [of r s] that ids by simp
    qed
  qed
  moreover have "\<forall>r \<in> set (map ?g (t_users d)). user_checks (ur_kind r) (ur_role r) (ur_status r) (ur_source r)"
    using ok assms(3) by (auto simp: users_ok_def)
  ultimately have "users_ok e (map ?g (t_users d))" unfolding users_ok_def list.set_map by blast
  then show ?thesis
    using assms(1) ids_of_map [of f i d, OF assms(2)] by (simp add: db_ok_def us)
qed

lemma email_taken_row:
  "\<not> email_taken e i email d \<Longrightarrow> s \<in> set (t_users d) \<Longrightarrow> ur_id s \<noteq> i \<Longrightarrow>
     map_option (sql_lower e) email \<noteq> None \<Longrightarrow> map_option (sql_lower e) email \<noteq> lower_email e s"
  by (auto simp: email_taken_def list_ex_iff split: option.splits)

section \<open>Every statement keeps it\<close>

lemma list_ex_key: "list_ex (\<lambda>r. key r = k) xs \<longleftrightarrow> k \<in> key ` set xs"
  by (auto simp: list_ex_iff)

lemma list_ex_key2: "list_ex (\<lambda>r. key r = k \<or> key' r = k') xs \<longleftrightarrow> k \<in> key ` set xs \<or> k' \<in> key' ` set xs"
  by (auto simp: list_ex_iff)

lemma find_None_key: "find (\<lambda>r. key r = k) xs = None \<longleftrightarrow> k \<notin> key ` set xs"
  by (auto simp: find_None_iff)

abbreviation keeps :: "(env \<Rightarrow> nat \<Rightarrow> db \<Rightarrow> ('a \<times> db) result) \<Rightarrow> bool" where
  "keeps f \<equiv> evolves_stmt (kept db_ok) f"

lemma keepsI: "(\<And>e t d a d'. f e t d = Inr (a, d') \<Longrightarrow> db_ok e d \<Longrightarrow> db_ok e d') \<Longrightarrow> keeps f"
  by (auto simp: evolves_stmt_def kept_def)

lemma keeps_tx: "keeps f \<Longrightarrow> keeps g \<Longrightarrow> keeps (tx_then f g)"
  unfolding evolves_stmt_def kept_def tx_then_def by (fastforce split: sum.splits)

lemma keeps_tx_opt: "(\<And>y. keeps (f y)) \<Longrightarrow> keeps (tx_opt x f)"
  unfolding evolves_stmt_def kept_def tx_opt_def by (fastforce split: option.splits)

lemma keeps_insert_user: "keeps (insert_user u)"
proof (rule keepsI)
  fix e t d a d'
  assume h: "insert_user u e t d = Inr (a, d')" "db_ok e d"
  define row where "row = \<lparr>ur_id = u_id u, ur_kind = u_kind u, ur_email = null_string (u_email u), ur_name = u_name u,
           ur_role = u_role u, ur_status = u_status u, ur_policy = encode_policy (u_policy u),
           ur_source = u_source u, ur_must_change = u_must_change u, ur_last_seen = u_last_seen u,
           ur_created = (if u_created u = zero_time then db_clock e t else u_created u), ur_limits = None\<rparr>"
  have d': "d' = d\<lparr>t_users := t_users d @ [row]\<rparr>" and new: "ur_id row \<notin> ids_of d"
    and checks: "user_checks (ur_kind row) (ur_role row) (ur_status row) (ur_source row)"
    and free: "\<not> email_taken e (ur_id row) (ur_email row) d"
    using h(1) by (auto simp: insert_user_def Let_def row_def user_exists_ids split: if_splits)
  have pair: "lower_email e row \<noteq> lower_email e s" if "s \<in> set (t_users d)" "lower_email e row \<noteq> None" for s
  proof -
    have "ur_id s \<noteq> ur_id row" using that(1) new by (metis ids_of_def imageI)
    then show ?thesis using email_taken_row [OF free that(1)] that(2) by (simp add: lower_email_def)
  qed
  have "users_ok e (t_users d @ [row])"
    using h(2) new checks pair by (fastforce simp: db_ok_def users_ok_def ids_of_def)
  then show "db_ok e d'"
    using h(2) by (auto simp: db_ok_def d' ids_of_insert passwords_ok_def links_ok_def pendings_ok_def
      sessions_ok_def tokens_ok_def windows_ok_def audit_ok_def)
qed

lemma user_checks_status:
  "user_checks k r s p \<Longrightarrow> s' = s \<or> s' = status_active \<Longrightarrow> user_checks k r s' p"
  by (auto simp: user_checks_def)

lemma keeps_update_user:
  assumes "\<And>r. ur_id (f r) = ur_id r" "\<And>r. ur_kind (f r) = ur_kind r" "\<And>r. ur_email (f r) = ur_email r"
    "\<And>r. ur_role (f r) = ur_role r" "\<And>r. ur_source (f r) = ur_source r"
    "\<And>r. ur_status (f r) = ur_status r \<or> ur_status (f r) = status_active"
  shows "keeps (update_user i f)"
proof (rule keepsI)
  fix e t d a d'
  assume "update_user i f e t d = Inr (a, d')" "db_ok e d"
  then have "d' = map_user i f d" "db_ok e d" by (auto simp: update_user_def split: if_splits)
  then show "db_ok e d'"
    using assms user_checks_status by (auto intro!: db_ok_map_user simp: lower_email_def)
qed

lemma keeps_map_user:
  "(\<And>r. ur_id (f r) = ur_id r \<and> ur_kind (f r) = ur_kind r \<and> ur_email (f r) = ur_email r
      \<and> ur_role (f r) = ur_role r \<and> ur_source (f r) = ur_source r \<and> ur_status (f r) = ur_status r) \<Longrightarrow>
     db_ok e d \<Longrightarrow> db_ok e (map_user i f d)"
  by (rule db_ok_map_user) (auto simp: lower_email_def)

lemma keeps_audit_insert: "keeps (audit_insert ev)"
  by (rule keepsI) (auto simp: audit_insert_def db_ok_def audit_ok_def ref_ok_ids Let_def split: if_splits)

lemma keeps_password_upsert: "keeps (password_upsert i h x)"
proof (rule keepsI)
  fix e t d a d'
  assume h: "password_upsert i h x e t d = Inr (a, d')" "db_ok e d"
  have same: "map (pw_user \<circ> (\<lambda>r. if P r then r\<lparr>pw_hash := h, pw_expires := x\<rparr> else r)) ps = map pw_user ps" for P ps
    by simp
  show "db_ok e d'"
    using h by (auto simp: password_upsert_def db_ok_def passwords_ok_def user_exists_ids list_ex_iff same
        simp del: map_eq_conv split: if_splits)
qed

lemma keeps_write_invitation: "keeps (write_invitation i iv)"
proof (rule keepsI)
  fix e t d a d'
  assume h: "write_invitation i iv e t d = Inr (a, d')" "db_ok e d"
  let ?rest = "filter (\<lambda>r. \<not> (pn_user r = i
           \<or> (pn_issuer r = iv_issuer iv \<and> sql_lower e (pn_email r) = sql_lower e (iv_email iv)))) (t_pendings d)"
  have d': "i \<in> ids_of d" "d' = d\<lparr>t_pendings := ?rest @
       [\<lparr>pn_user = i, pn_issuer = iv_issuer iv, pn_email = iv_email iv, pn_expires = iv_expires iv\<rparr>]\<rparr>"
    using h(1) by (auto simp: write_invitation_def user_exists_ids split: if_splits)
  have "pendings_ok e (ids_of d) (t_pendings d)" using h(2) by (simp add: db_ok_def)
  then have "pendings_ok e (ids_of d) (?rest @
       [\<lparr>pn_user = i, pn_issuer = iv_issuer iv, pn_email = iv_email iv, pn_expires = iv_expires iv\<rparr>])"
    using d'(1) by (auto simp: pendings_ok_def distinct_map_filter)
  then show "db_ok e d'" using h(2) by (simp add: db_ok_def d'(2))
qed

lemma filter_sub: "set (filter P xs) \<subseteq> set xs"
  by auto

lemma users_stmts:
  "keeps (\<lambda>e t d. if \<not> user_exists (u_id u) d then Inl ENotFound
     else if u_source u \<notin> {policy_local, policy_idp} then Inl EFault
     else if email_taken e (u_id u) (null_string (u_email u)) d then Inl EConflict
     else Inr ((), map_user (u_id u) (\<lambda>r. r\<lparr>ur_policy := encode_policy (u_policy u),
            ur_source := u_source u, ur_email := null_string (u_email u)\<rparr>) d))"
proof (rule keepsI)
  fix e t d a d'
  assume h: "(if \<not> user_exists (u_id u) d then Inl ENotFound
     else if u_source u \<notin> {policy_local, policy_idp} then Inl EFault
     else if email_taken e (u_id u) (null_string (u_email u)) d then Inl EConflict
     else Inr ((), map_user (u_id u) (\<lambda>r. r\<lparr>ur_policy := encode_policy (u_policy u),
            ur_source := u_source u, ur_email := null_string (u_email u)\<rparr>) d)) = Inr (a, d')" "db_ok e d"
  then have "\<not> email_taken e (u_id u) (null_string (u_email u)) d" "u_source u \<in> {policy_local, policy_idp}"
    and d': "d' = map_user (u_id u) (\<lambda>r. r\<lparr>ur_policy := encode_policy (u_policy u),
            ur_source := u_source u, ur_email := null_string (u_email u)\<rparr>) d"
    by (auto split: if_splits)
  then show "db_ok e d'" unfolding d' using h(2) email_taken_row [of e "u_id u" "null_string (u_email u)" d]
    by (intro db_ok_map_user) (auto simp: user_checks_def lower_email_def)
qed

lemma keeps_apply_change:
  assumes "db_ok e d" "coalesce (ch_role ch) role_user \<in> {role_user, role_admin}"
    "coalesce (ch_status ch) status_active \<in> {status_active, status_blocked}"
  shows "db_ok e (map_user i (\<lambda>r. if change_refused ch r then r else apply_change ch r) d)"
proof (rule db_ok_map_user)
  show "db_ok e d" by (rule assms(1))
  show "ur_id (if change_refused ch r then r else apply_change ch r) = ur_id r" for r
    by (simp add: apply_change_def)
  show "lower_email e (if change_refused ch r then r else apply_change ch r) = lower_email e r
      \<or> (\<forall>s \<in> set (t_users d). ur_id s \<noteq> i \<longrightarrow> lower_email e (if change_refused ch r then r else apply_change ch r) \<noteq> None \<longrightarrow>
        lower_email e (if change_refused ch r then r else apply_change ch r) \<noteq> lower_email e s)" for r
    by (simp add: apply_change_def lower_email_def)
  show "user_checks (ur_kind r) (ur_role r) (ur_status r) (ur_source r) \<Longrightarrow>
      user_checks (ur_kind (if change_refused ch r then r else apply_change ch r))
        (ur_role (if change_refused ch r then r else apply_change ch r))
        (ur_status (if change_refused ch r then r else apply_change ch r))
        (ur_source (if change_refused ch r then r else apply_change ch r))" for r
    using assms(2,3) by (auto simp: apply_change_def user_checks_def coalesce_def split: option.splits)
qed

section \<open>Every operation keeps it\<close>

interpretation integrity: evolution "kept db_ok"
  by (rule evolution_kept)

abbreviation keeping :: "'a io \<Rightarrow> bool" where
  "keeping m \<equiv> evolves (kept db_ok) m"

lemma keep_users_create: "keeping (users_create u)"
  unfolding users_create_def by (rule integrity.ev_exec, rule keeps_insert_user)

lemma keep_users_by_id: "keeping (users_by_id i)"
  unfolding users_by_id_def by (rule integrity.ev_query)

lemma keep_users_by_email: "keeping (users_by_email a)"
  unfolding users_by_email_def by (rule integrity.ev_query)

lemma keep_users_admin_exists: "keeping users_admin_exists"
  unfolding users_admin_exists_def by (rule integrity.ev_query)

lemma keep_users_list: "keeping users_list"
  unfolding users_list_def by (rule integrity.ev_query)

lemma keep_users_view: "keeping (users_view i)"
  unfolding users_view_def by (rule integrity.ev_query)

lemma keep_users_update_policy: "keeping (users_update_policy i p)"
  unfolding users_update_policy_def by (rule integrity.ev_exec, rule keeps_update_user) auto

lemma keep_users_set_must_change: "keeping (users_set_must_change i b)"
  unfolding users_set_must_change_def by (rule integrity.ev_exec, rule keeps_update_user) auto

lemma keep_users_update_spend_limits: "keeping (users_update_spend_limits i c)"
  unfolding users_update_spend_limits_def
  by (intro integrity.ev_rules integrity.ev_exec keeps_update_user) auto

lemma keep_users_touch_last_seen: "keeping (users_touch_last_seen i x)"
  unfolding users_touch_last_seen_def
  by (rule integrity.ev_exec, rule keepsI) (auto intro!: keeps_map_user)

lemma keep_users_fill_display_name: "keeping (users_fill_display_name i n)"
  unfolding users_fill_display_name_def
  by (intro integrity.ev_rules integrity.ev_exec keepsI) (auto intro!: keeps_map_user split: if_splits)

lemma keep_users_save_identity_state: "keeping (users_save_identity_state u)"
  unfolding users_save_identity_state_def by (rule integrity.ev_exec, rule users_stmts)

lemma keep_users_update_admin_state: "keeping (users_update_admin_state i ch)"
  unfolding users_update_admin_state_def
  by (intro integrity.ev_rules integrity.ev_exec keepsI) (auto intro!: keeps_apply_change split: if_splits)

lemma keep_users_create_account: "keeping (users_create_account a)"
  unfolding users_create_account_def
  by (intro integrity.ev_exec keeps_tx keeps_tx_opt keeps_insert_user keeps_audit_insert keeps_write_invitation)
    (auto intro!: keeps_password_upsert split: prod.splits)

lemma keep_users_unblock: "keeping (users_unblock i ev)"
  unfolding users_unblock_def
  by (intro integrity.ev_exec keeps_tx keeps_update_user keeps_audit_insert) auto

lemma keep_audit_record: "keeping (audit_record ev)"
  unfolding audit_record_def by (rule integrity.ev_exec, rule keeps_audit_insert)

lemma keep_passwords_set: "keeping (passwords_set i h x)"
  unfolding passwords_set_def by (rule integrity.ev_exec, rule keeps_password_upsert)

lemma keep_passwords_get: "keeping (passwords_get i)"
  unfolding passwords_get_def by (rule integrity.ev_query)

lemma keep_identities_by_subject: "keeping (identities_by_subject i s)"
  unfolding identities_by_subject_def by (rule integrity.ev_query)

lemma keep_identities_pending: "keeping (identities_pending_by_email i s)"
  unfolding identities_pending_by_email_def by (rule integrity.ev_query)

lemma keep_identities_link: "keeping (identities_link i iss sub)"
  unfolding identities_link_def
  by (rule integrity.ev_exec, rule keepsI)
    (auto simp: db_ok_def links_ok_def user_exists_ids list_ex_iff image_iff split: if_splits)

lemma keep_identities_consume: "keeping (identities_consume_pending i)"
  unfolding identities_consume_pending_def
  by (rule integrity.ev_exec, rule keepsI) (auto simp: db_ok_def pendings_ok_def distinct_map_filter)

lemma keep_identities_invite: "keeping (identities_invite i iv)"
  unfolding identities_invite_def by (rule integrity.ev_exec, rule keeps_write_invitation)

lemma keep_sessions_create: "keeping (sessions_create x)"
  unfolding sessions_create_def
  by (rule integrity.ev_exec, rule keepsI)
    (auto simp: db_ok_def sessions_ok_def user_exists_ids list_ex_key split: if_splits)

lemma keep_sessions_by_hash: "keeping (sessions_by_hash h)"
  unfolding sessions_by_hash_def by (rule integrity.ev_query)

lemma sessions_ok_filter: "sessions_ok us xs \<Longrightarrow> sessions_ok us (filter P xs)"
  by (auto simp: sessions_ok_def distinct_map_filter)

lemma keep_sessions_delete:
  "keeping (sessions_delete h)" "keeping (sessions_delete_by_user i)" "keeping (sessions_delete_by_user_except i h)"
  unfolding sessions_delete_def sessions_delete_by_user_def sessions_delete_by_user_except_def
  by (rule integrity.ev_exec, rule keepsI, auto simp: db_ok_def sessions_ok_filter)+

lemma keep_attempts_failures: "keeping (attempts_failures a)"
  unfolding attempts_failures_def by (rule integrity.ev_query)

lemma charged_email [simp]: "la_email (charged m n l r) = la_email r"
  by (simp add: charged_def Let_def)

lemma keep_attempts_charge: "keeping (attempts_charge a m n l)"
  unfolding attempts_charge_def
proof (rule integrity.ev_exec, rule keepsI)
  fix e t d r d'
  assume h: "(let key = sql_lower e a in
     case find (\<lambda>r. la_email r = key) (t_attempts d) of
       None \<Rightarrow>
         let r = \<lparr>la_email = key, la_failures = 1, la_locked = (if m \<le> 1 then Some l else None), la_last = n\<rparr> in
         Inr ((la_failures r, la_locked r), d\<lparr>t_attempts := t_attempts d @ [r]\<rparr>)
     | Some old \<Rightarrow>
         let r = charged m n l old in
         Inr ((la_failures r, la_locked r),
           d\<lparr>t_attempts := map (\<lambda>x. if la_email x = key then charged m n l x else x) (t_attempts d)\<rparr>)) = Inr (r, d')"
    and ok: "db_ok e d"
  have same: "map (la_email \<circ> (\<lambda>x. if P x then charged m n l x else x)) xs = map la_email xs" for P xs by simp
  show "db_ok e d'"
    using h ok by (auto simp: db_ok_def attempts_ok_def find_None_key same Let_def simp del: map_eq_conv
      split: option.splits)
qed

lemma keep_attempts_clear: "keeping (attempts_clear a)"
  unfolding attempts_clear_def
  by (rule integrity.ev_exec, rule keepsI) (auto simp: db_ok_def attempts_ok_def distinct_map_filter)

lemma keep_tokens_reads: "keeping (tokens_by_id i)" "keeping (tokens_by_hash h)" "keeping (tokens_list_by_user i)"
  unfolding tokens_by_id_def tokens_by_hash_def tokens_list_by_user_def by (rule integrity.ev_query)+

lemma keep_tokens_create: "keeping (tokens_create k)"
  unfolding tokens_create_def
  by (rule integrity.ev_exec, rule keepsI)
    (auto simp: db_ok_def tokens_ok_def user_exists_ids list_ex_key2 split: if_splits)

lemma map_token_keys:
  "map (tk_id \<circ> (\<lambda>r. if P r then r\<lparr>tk_label := l, tk_revoked_at := a, tk_revoked_by := b\<rparr> else r)) xs = map tk_id xs"
  "map (tk_hash \<circ> (\<lambda>r. if P r then r\<lparr>tk_label := l, tk_revoked_at := a, tk_revoked_by := b\<rparr> else r)) xs = map tk_hash xs"
  "map (tk_id \<circ> (\<lambda>r. if P r then r\<lparr>tk_last_used := f r\<rparr> else r)) xs = map tk_id xs"
  "map (tk_hash \<circ> (\<lambda>r. if P r then r\<lparr>tk_last_used := f r\<rparr> else r)) xs = map tk_hash xs"
  by simp_all

lemma keep_tokens_save: "keeping (tokens_save k)"
  unfolding tokens_save_def
  by (rule integrity.ev_exec, rule keepsI)
    (auto simp: db_ok_def tokens_ok_def ref_ok_ids map_token_keys simp del: map_eq_conv split: if_splits)

lemma keep_tokens_touch: "keeping (tokens_touch_last_used i x)"
  unfolding tokens_touch_last_used_def
  by (rule integrity.ev_exec, rule keepsI)
    (auto simp: db_ok_def tokens_ok_def map_token_keys simp del: map_eq_conv split: if_splits)

section \<open>Spend windows and prices\<close>

lemma open_rows_ok:
  "open_rows i start written ms rows = Inr rows' \<Longrightarrow> windows_ok us rows \<Longrightarrow> (ms \<noteq> [] \<longrightarrow> i \<in> us) \<Longrightarrow> windows_ok us rows'"
proof (induction i start written ms rows rule: open_rows.induct)
  case (2 i start written m ms rows)
  have same: "map (\<lambda>r. (lw_user (if P r then r\<lparr>lw_started := start, lw_spent := Fin 0\<rparr> else r),
      lw_minutes (if P r then r\<lparr>lw_started := start, lw_spent := Fin 0\<rparr> else r))) xs = map (\<lambda>r. (lw_user r, lw_minutes r)) xs"
    for P xs by simp
  have zero: "stored_rate (Fin 0)" by (simp add: stored_rate_def f64_finite_def)
  have upd: "windows_ok us (map (\<lambda>r. if P r then r\<lparr>lw_started := start, lw_spent := Fin 0\<rparr> else r) rows)" for P
    using 2(5) zero by (auto simp: windows_ok_def same comp_def simp del: map_eq_conv split: if_splits)
  consider "m \<in> set written \<or> \<not> (1 \<le> m \<and> m \<le> 525600)" | "m \<notin> set written" "1 \<le> m \<and> m \<le> 525600" by blast
  then show ?case
  proof cases
    case 1
    then have "open_rows i start written (m # ms) rows = Inl EFault" by auto
    then show ?thesis using 2(4) by simp
  next
    case range: 2
    show ?thesis
    proof (cases "list_ex (\<lambda>r. lw_user r = i \<and> lw_minutes r = m) rows")
      case True
      then show ?thesis using 2 range upd by (auto split: if_splits)
    next
      case False
      have "windows_ok us (rows @ [\<lparr>lw_user = i, lw_minutes = m, lw_started = start, lw_spent = Fin 0\<rparr>])"
        using 2(5,6) False range zero by (auto simp: windows_ok_def list_ex_iff)
      then show ?thesis using 2 range False by auto
    qed
  qed
qed simp

lemma windows_ok_filter: "windows_ok us xs \<Longrightarrow> windows_ok us (filter P xs)"
  by (auto simp: windows_ok_def distinct_map_filter)

lemma keep_windows_of: "keeping (windows_of i)"
  unfolding windows_of_def by (rule integrity.ev_query)

lemma keep_windows_open: "keeping (windows_open i opening dropping start)"
  unfolding windows_open_def
proof (intro integrity.ev_rules integrity.ev_exec keepsI)
  fix e t d a d'
  assume h: "(if opening \<noteq> [] \<and> \<not> user_exists i d then Inl EFault
        else case open_rows i start [] (sort (map minutes_of opening)) (t_windows d) of
          Inl x \<Rightarrow> Inl x
        | Inr rows \<Rightarrow> Inr ((), d\<lparr>t_windows :=
            filter (\<lambda>r. \<not> (lw_user r = i \<and> lw_minutes r \<in> set (map minutes_of dropping))) rows\<rparr>)) = Inr (a, d')"
    and ok: "db_ok e d"
  then obtain rows where rows: "open_rows i start [] (sort (map minutes_of opening)) (t_windows d) = Inr rows"
    and d': "d' = d\<lparr>t_windows := filter (\<lambda>r. \<not> (lw_user r = i \<and> lw_minutes r \<in> set (map minutes_of dropping))) rows\<rparr>"
    and u: "opening \<noteq> [] \<longrightarrow> i \<in> ids_of d"
    by (auto simp: user_exists_ids split: if_splits sum.splits)
  have "sort (map minutes_of opening) \<noteq> [] \<longrightarrow> i \<in> ids_of d"
    using u by (metis list.map_disc_iff set_empty set_sort)
  then have "windows_ok (ids_of d) rows"
    using open_rows_ok [OF rows] ok by (simp add: db_ok_def)
  then show "db_ok e d'" using ok by (simp add: d' db_ok_def windows_ok_filter)
qed

lemma keep_windows_reset: "keeping (windows_reset i x)" "keeping (windows_drop_inherited ks)"
  unfolding windows_reset_def windows_drop_inherited_def
  by (rule integrity.ev_exec, rule keepsI, auto simp: db_ok_def windows_ok_filter)+

lemma db_ok_settings [simp]:
  "db_ok e (d\<lparr>t_limit_defaults := x\<rparr>) = db_ok e d" "db_ok e (d\<lparr>t_display := y\<rparr>) = db_ok e d"
  "db_ok e (d\<lparr>t_catalog_state := z\<rparr>) = db_ok e d" "db_ok e (d\<lparr>t_usage := u\<rparr>) = db_ok e d"
  by (simp_all add: db_ok_def)

lemma keep_settings_reads: "keeping settings_limit_defaults" "keeping settings_display"
  unfolding settings_limit_defaults_def settings_display_def by (rule integrity.ev_query)+

lemma keep_settings_set_limit_defaults: "keeping (settings_set_limit_defaults rs i x)"
  unfolding settings_set_limit_defaults_def
  by (intro integrity.ev_rules integrity.ev_exec keepsI) (auto split: if_splits)

lemma keep_settings_set_display: "keeping (settings_set_display c i x)"
  unfolding settings_set_display_def by (intro integrity.ev_exec keepsI) (auto split: if_splits)

lemma replace_prices_ok: "replace_prices x new old = Inr rows \<Longrightarrow> prices_ok rows"
proof -
  have "price_key (upsert_price x old p) = price_key p" for p
    by (auto simp: upsert_price_def price_key_def split: option.splits)
  then show "replace_prices x new old = Inr rows \<Longrightarrow> prices_ok rows"
    by (auto simp: replace_prices_def prices_ok_def comp_def split: if_splits)
qed

lemma keep_prices_reads: "keeping prices_list" "keeping catalog_list" "keeping catalog_get_state"
  unfolding prices_list_def catalog_list_def catalog_get_state_def by (rule integrity.ev_query)+

lemma keep_catalog_set_state: "keeping (catalog_set_state s)"
  unfolding catalog_set_state_def by (intro integrity.ev_exec keepsI) auto

lemma keep_prices_replace: "keeping (prices_replace ps x)"
  unfolding prices_replace_def
  by (intro integrity.ev_exec keepsI) (auto simp: db_ok_def dest: replace_prices_ok split: sum.splits)

lemma keep_catalog_replace: "keeping (catalog_replace ps s x)"
  unfolding catalog_replace_def
  by (intro integrity.ev_exec keepsI) (auto simp: db_ok_def dest: replace_prices_ok split: sum.splits)

lemma keep_usage_append: "keeping (usage_append_batch evs)"
  unfolding usage_append_batch_def
proof (intro integrity.ev_rules integrity.ev_exec keepsI)
  fix e t d a d'
  assume h: "(let totals = owner_costs evs [];
            charged = map (charge_window totals) (t_windows d);
            d' = d\<lparr>t_usage := t_usage d @ map (stored_event d) evs, t_windows := charged\<rparr> in
        if \<not> list_all event_ok evs then Inl EFault
        else if list_ex (\<lambda>r. \<not> stored_rate (lw_spent r)) charged then Inl EFault
        else Inr (remdups (map lw_user (filter (\<lambda>r. map_of totals (lw_user r) \<noteq> None) (t_windows d))), d'))
      = Inr (a, d')" and ok: "db_ok e d"
  have key: "lw_user (charge_window x r) = lw_user r \<and> lw_minutes (charge_window x r) = lw_minutes r" for x r
    by (simp add: charge_window_def split: option.splits)
  then have d': "d' = d\<lparr>t_usage := t_usage d @ map (stored_event d) evs,
      t_windows := map (charge_window (owner_costs evs [])) (t_windows d)\<rparr>"
    and paid: "\<forall>r \<in> set (t_windows d). stored_rate (lw_spent (charge_window (owner_costs evs []) r))"
    using h by (auto simp: Let_def list_ex_iff split: if_splits)
  have "windows_ok (ids_of d) (map (charge_window (owner_costs evs [])) (t_windows d))"
    using ok paid by (auto simp: db_ok_def windows_ok_def comp_def key)
  then show "db_ok e d'" using ok by (simp add: d' db_ok_def)
qed

lemmas keep_repos = keep_users_create keep_users_by_id keep_users_by_email keep_users_admin_exists keep_users_list
  keep_users_view keep_users_update_policy keep_users_set_must_change keep_users_update_spend_limits
  keep_users_touch_last_seen keep_users_fill_display_name keep_users_save_identity_state
  keep_users_update_admin_state keep_users_create_account keep_users_unblock keep_audit_record keep_passwords_set
  keep_passwords_get keep_identities_by_subject keep_identities_pending keep_identities_link
  keep_identities_consume keep_identities_invite keep_sessions_create keep_sessions_by_hash keep_sessions_delete
  keep_attempts_failures keep_attempts_charge keep_attempts_clear keep_tokens_reads keep_tokens_create
  keep_tokens_save keep_tokens_touch keep_windows_of keep_windows_open keep_windows_reset keep_settings_reads
  keep_settings_set_limit_defaults keep_settings_set_display keep_prices_reads keep_catalog_set_state
  keep_prices_replace keep_catalog_replace keep_usage_append

section \<open>Reading a row\<close>

lemma parse_rule_Inl: "parse_rule s = Inl x \<Longrightarrow> x = EMalformedRule s"
  by (auto simp: parse_rule_def Let_def split: option.splits prod.splits if_splits)

lemma row_user_Inl: "row_user r = Inl x \<Longrightarrow> \<exists>raw. x = EMalformedRule raw"
  by (auto simp: row_user_def decode_policy_def split: sum.splits dest!: collect_Inl parse_rule_Inl)

lemma scan_user_Inl: "scan_user x = Inl y \<Longrightarrow> (x = None \<and> y = ENotFound) \<or> (\<exists>raw. y = EMalformedRule raw)"
  by (auto simp: scan_user_def split: option.splits dest: row_user_Inl)

lemma row_user_fields:
  "row_user r = Inr u \<Longrightarrow> u_id u = ur_id r \<and> u_kind u = ur_kind r \<and> u_name u = ur_name r \<and> u_role u = ur_role r
     \<and> u_status u = ur_status r \<and> u_source u = ur_source r \<and> u_must_change u = ur_must_change r
     \<and> u_limits u = decode_spend_limits (ur_limits r) \<and> u_created u = ur_created r
     \<and> u_email u = (case ur_email r of None \<Rightarrow> [] | Some a \<Rightarrow> a) \<and> decode_policy (ur_policy r) = Inr (u_policy u)"
  by (auto simp: row_user_def split: sum.splits)

lemma find_user_row: "find (\<lambda>r. ur_id r = i) us = Some r \<Longrightarrow> r \<in> set us \<and> ur_id r = i"
  by (rule find_Some_mem)

section \<open>A small deployment\<close>

text \<open>The environment and the tables the witnesses of the components run in.\<close>

definition example_env :: env where
  "example_env = \<lparr>fault = (\<lambda>_. False), lost_ack = (\<lambda>_. False), clock = (\<lambda>t. 1000000000000 + int t), db_clock = (\<lambda>t. 1000000000000 + int t),
     random = (\<lambda>_ _. CHR ''r''), fresh = (\<lambda>_. 77), sql_lower = to_lower, sha256_hex = (\<lambda>s. s),
     argon2 = (\<lambda>pw _ _ _ _ _. if pw = ''correct horse'' then ''k'' else ''x''),
     ids = \<lparr>uuid_str = (\<lambda>_. ''id''), uuid_parse = (\<lambda>_. None)\<rparr>, fetch_catalog = (\<lambda>_ _ _. Inl ''unreachable''),
     fingerprint = None\<rparr>"

definition example_row :: "uuid \<Rightarrow> string \<Rightarrow> string option \<Rightarrow> string \<Rightarrow> user_row" where
  "example_row i kind email role = \<lparr>ur_id = i, ur_kind = kind, ur_email = email, ur_name = ''someone'', ur_role = role,
     ur_status = status_active, ur_policy = [''chatgpt:gpt-*''], ur_source = policy_local, ur_must_change = False,
     ur_last_seen = None, ur_created = 1000, ur_limits = None\<rparr>"

definition example_user :: "uuid \<Rightarrow> string \<Rightarrow> string \<Rightarrow> string \<Rightarrow> user" where
  "example_user i kind email role = \<lparr>u_id = i, u_kind = kind, u_email = email, u_name = ''someone'', u_role = role,
     u_status = status_active, u_policy = [\<lparr>provider = ''chatgpt'', model_pattern = ''gpt-*'',
       compiled = Some (compile_glob ''gpt-*'')\<rparr>], u_source = policy_local, u_limits = None,
     u_must_change = False, u_last_seen = None, u_created = 1000\<rparr>"

definition example_admin :: user where
  "example_admin = example_user 1 kind_human ''root@example.org'' role_admin"

definition example_hash :: string where
  "example_hash = ''$argon2id$v=19$m=8,t=1,p=1$cw$aw''"

definition example_token :: token where
  "example_token = \<lparr>tk_id = 50, tk_user = 2, tk_label = ''laptop'', tk_hash = ''hash'', tk_prefix = ''sk-secr'',
     tk_created = 5, tk_last_used = None, tk_revoked_at = None, tk_revoked_by = None\<rparr>"

definition example_session :: session_row where
  "example_session = \<lparr>ss_hash = ''cookie'', ss_user = 2, ss_ip = ''10.0.0.1'', ss_agent = ''firefox'', ss_created = 10,
     ss_expires = 5000000000000\<rparr>"

definition zero_state :: catalog_state where
  "zero_state = \<lparr>cs_etag = [], cs_last_modified = [], cs_fingerprint = [], cs_checked = zero_time, cs_changed = zero_time,
     cs_last_error = []\<rparr>"

definition example_db :: db where
  "example_db = \<lparr>t_users = [example_row 1 kind_human (Some ''root@example.org'') role_admin,
       example_row 2 kind_human (Some ''ada@example.org'') role_user, example_row 3 kind_service None role_user],
     t_passwords = [\<lparr>pw_user = 1, pw_hash = example_hash, pw_expires = None\<rparr>,
       \<lparr>pw_user = 2, pw_hash = example_hash, pw_expires = None\<rparr>],
     t_links = [], t_pendings = [], t_sessions = [example_session], t_tokens = [example_token], t_attempts = [],
     t_windows = [], t_audit = [], t_limit_defaults = None, t_display = None, t_prices = [], t_catalog = [],
     t_catalog_state = zero_state, t_usage = []\<rparr>"

definition example_mem :: mem where
  "example_mem = \<lparr>m_defaults = [], m_display = \<lparr>dc_costs_visible = False, dc_mask_unknown = True\<rparr>, m_manual = [],
     m_catalog = [], m_state = zero_state, m_table = None, m_models = 0, m_failures = 0\<rparr>"

definition example_world :: world where
  "example_world = \<lparr>w_tick = 0, w_db = example_db, w_mem = example_mem, w_derivations = 0, w_log = []\<rparr>"

lemma example_db_ok: "db_ok example_env example_db"
proof -
  have "users_ok example_env (t_users example_db)"
    by (simp add: users_ok_def example_db_def example_row_def lower_email_def user_checks_def example_env_def
        kind_human_def kind_service_def role_admin_def role_user_def status_active_def policy_local_def)
      code_simp
  moreover have "ids_of example_db = {1, 2, 3}" by (auto simp: ids_of_def example_db_def example_row_def)
  ultimately show ?thesis
    by (simp add: db_ok_def passwords_ok_def links_ok_def pendings_ok_def sessions_ok_def tokens_ok_def attempts_ok_def
        windows_ok_def audit_ok_def prices_ok_def)
      (simp add: example_db_def example_session_def example_token_def)
qed

end
