(* ===== verification/Tokens.thy ===== *)
theory Tokens
  imports Integrity
begin

text \<open>
  API keys: \<open>internal/domain/credentials/token.go\<close>, the service \<open>internal/app/tokens\<close> that
  issues, lists and revokes them, and \<open>TokenResolver\<close> of \<open>internal/app/principal.go\<close>, which
  authenticates a presented secret.
\<close>

section \<open>Tokens\<close>

definition max_label_runes :: nat where "max_label_runes = 64"

fun label_loop :: "nat \<Rightarrow> rune list \<Rightarrow> unit result" where
  "label_loop n [] = Inr ()"
| "label_loop n (r # rs) =
     (if max_label_runes < n + 1 \<or> is_control r then Inl EInvalidLabel else label_loop (n + 1) rs)"

definition validate_label :: "string \<Rightarrow> unit result" where
  "validate_label label =
     (if label = [] \<or> \<not> valid_utf8 label then Inl EInvalidLabel else label_loop 0 (runes label))"

definition secret_bytes :: nat where "secret_bytes = 32"

definition hash_secret :: "env \<Rightarrow> string \<Rightarrow> string" where
  "hash_secret e secret = sha256_hex e secret"

definition token_secret :: "string \<Rightarrow> string" where
  "token_secret raw = ''sk-'' @ b64_encode url_alphabet raw"

definition generate :: "uuid \<Rightarrow> string \<Rightarrow> (token \<times> string) io" where
  "generate owner label =
     bnd (lift (validate_label label)) (\<lambda>_.
     bnd (random_io secret_bytes) (\<lambda>raw.
     let secret = token_secret raw in
     bnd fresh_io (\<lambda>i.
     bnd (asks (\<lambda>e. hash_secret e secret)) (\<lambda>hash.
     bnd now_io (\<lambda>now.
     ret (\<lparr>tk_id = i, tk_user = owner, tk_label = label, tk_hash = hash, tk_prefix = take 7 secret,
        tk_created = now, tk_last_used = None, tk_revoked_at = None, tk_revoked_by = None\<rparr>, secret))))))"

definition token_active :: "token \<Rightarrow> bool" where
  "token_active k \<longleftrightarrow> tk_revoked_at k = None"

definition token_revoke :: "token \<Rightarrow> uuid \<Rightarrow> instant \<Rightarrow> token result" where
  "token_revoke k by' now =
     (if tk_revoked_at k \<noteq> None then Inl EAlreadyRevoked
      else Inr (k\<lparr>tk_revoked_at := Some now, tk_revoked_by := Some by'\<rparr>))"

section \<open>The service\<close>

definition manages :: "user \<Rightarrow> uuid \<Rightarrow> unit result" where
  "manages actor owner =
     (if u_id actor = uuid_nil then Inl EForbidden
      else if u_id actor = owner \<or> u_role actor = role_admin then Inr ()
      else Inl EForbidden)"

definition token_event :: "env \<Rightarrow> string \<Rightarrow> user \<Rightarrow> token \<Rightarrow> instant \<Rightarrow> audit_event" where
  "token_event e action actor k now =
     \<lparr>ae_at = now, ae_actor = u_id actor, ae_action = action,
       ae_target = ''token/'' @ uuid_str (ids e) (tk_id k),
       ae_detail = [(''token_id'', JStr (uuid_str (ids e) (tk_id k))),
         (''owner_id'', JStr (uuid_str (ids e) (tk_user k))), (''label'', JStr (tk_label k))],
       ae_ip = [], ae_agent = []\<rparr>"

definition stranded_warning :: string where
  "stranded_warning = ''token is live but unaudited''"

definition stranded :: "err \<Rightarrow> 'a io" where
  "stranded cause = bnd (warn stranded_warning) (\<lambda>_. raise cause)"

definition retract :: "token \<Rightarrow> uuid \<Rightarrow> instant \<Rightarrow> err \<Rightarrow> 'a io" where
  "retract k by' now cause =
     (case token_revoke k by' now of
        Inl _ \<Rightarrow> stranded cause
      | Inr revoked \<Rightarrow>
          bnd (attempt (tokens_save revoked)) (\<lambda>saved.
          case saved of Inl _ \<Rightarrow> stranded cause | Inr _ \<Rightarrow> raise cause))"

definition issue :: "user \<Rightarrow> uuid \<Rightarrow> string \<Rightarrow> (token \<times> string) io" where
  "issue actor owner label =
     bnd (lift (manages actor owner)) (\<lambda>_.
     bnd (users_by_id owner) (\<lambda>_.
     bnd (generate owner label) (\<lambda>(tok, secret).
     bnd now_io (\<lambda>now.
     let tok = tok\<lparr>tk_created := now\<rparr> in
     bnd (tokens_create tok) (\<lambda>_.
     bnd (asks (\<lambda>e. token_event e ''token.issue'' actor tok now)) (\<lambda>ev.
     bnd (attempt (audit_record ev)) (\<lambda>recorded.
     case recorded of
       Inl cause \<Rightarrow> retract tok (u_id actor) now cause
     | Inr _ \<Rightarrow> ret (tok, secret))))))))"

definition revoke_token :: "user \<Rightarrow> uuid \<Rightarrow> unit io" where
  "revoke_token actor token_id =
     bnd (tokens_by_id token_id) (\<lambda>tok.
     bnd (lift (manages actor (tk_user tok))) (\<lambda>_.
     bnd now_io (\<lambda>now.
     bnd (lift (token_revoke tok (u_id actor) now)) (\<lambda>tok.
     bnd (tokens_save tok) (\<lambda>_.
     bnd (asks (\<lambda>e. token_event e ''token.revoke'' actor tok now)) (\<lambda>ev.
     bnd (attempt (audit_record ev)) (\<lambda>recorded.
     case recorded of
       Inl _ \<Rightarrow> warn ''token revoked but the audit record failed''
     | Inr _ \<Rightarrow> ret ())))))))"

definition list_tokens :: "user \<Rightarrow> uuid \<Rightarrow> token list io" where
  "list_tokens actor owner =
     bnd (lift (manages actor owner)) (\<lambda>_. tokens_list_by_user owner)"

section \<open>Resolving a secret\<close>

record grant =
  g_policy :: policy
  g_limits :: "limit_set option"

definition not_found_refuses :: "'a io \<Rightarrow> 'a io" where
  "not_found_refuses m =
     bnd (attempt m) (\<lambda>r. case r of
       Inl x \<Rightarrow> raise (if x = ENotFound then EInvalidCredentials else x)
     | Inr a \<Rightarrow> ret a)"

definition resolve_token :: "string \<Rightarrow> (principal \<times> grant) io" where
  "resolve_token secret =
     (if secret = [] then raise EInvalidCredentials
      else
        bnd (asks (\<lambda>e. hash_secret e secret)) (\<lambda>hash.
        bnd (not_found_refuses (tokens_by_hash hash)) (\<lambda>tok.
        if \<not> token_active tok then raise EInvalidCredentials
        else
          bnd (not_found_refuses (users_by_id (tk_user tok))) (\<lambda>owner.
          if \<not> can_use_api owner then raise EInvalidCredentials
          else ret (\<lparr>p_user = tk_user tok, p_token = tk_id tok, p_owner = user_label owner\<rparr>,
                 \<lparr>g_policy = u_policy owner, g_limits = u_limits owner\<rparr>)))))"

section \<open>Labels\<close>


lemma label_loop_iff:
  "label_loop n rs = Inr () \<longleftrightarrow> rs = [] \<or> (n + length rs \<le> max_label_runes \<and> list_all (\<lambda>r. \<not> is_control r) rs)"
  by (induction n rs rule: label_loop.induct) (auto simp: max_label_runes_def)

lemma validate_label_iff:
  "validate_label label = Inr () \<longleftrightarrow> valid_utf8 label \<and> 1 \<le> rune_count label \<and> rune_count label \<le> 64
     \<and> list_all (\<lambda>r. \<not> is_control r) (runes label)"
  by (cases label)
    (auto simp: validate_label_def label_loop_iff rune_count_def max_label_runes_def runes_def simp del: decode_rune.simps)

section \<open>Symbolic execution\<close>

lemmas token_ops = issue_def revoke_token_def list_tokens_def resolve_token_def generate_def retract_def stranded_def
  not_found_refuses_def tokens_create_def tokens_save_def tokens_by_id_def tokens_by_hash_def tokens_list_by_user_def
  users_by_id_def audit_record_def

text \<open>What issuing leaves behind, on success and on failure.\<close>

definition issued :: "env \<Rightarrow> user \<Rightarrow> uuid \<Rightarrow> string \<Rightarrow> db \<Rightarrow> token \<Rightarrow> string \<Rightarrow> db \<Rightarrow> bool" where
  "issued e actor owner label d tok secret d' \<longleftrightarrow>
     manages actor owner = Inr () \<and> validate_label label = Inr () \<and> owner \<in> ids_of d
     \<and> live_tokens owner d < max_live_tokens
     \<and> tk_user tok = owner \<and> tk_label tok = label \<and> tk_hash tok = sha256_hex e secret \<and> tk_prefix tok = take 7 secret
     \<and> tk_revoked_at tok = None \<and> tk_revoked_by tok = None \<and> tk_last_used tok = None
     \<and> (\<exists>raw. length raw = 32 \<and> secret = token_secret raw)
     \<and> tk_hash tok \<notin> tk_hash ` set (t_tokens d) \<and> tk_id tok \<notin> tk_id ` set (t_tokens d)
     \<and> (\<exists>row. d' = d\<lparr>t_tokens := t_tokens d @ [tok], t_audit := t_audit d @ [row]\<rparr>
          \<and> ar_action row = ''token.issue'' \<and> ar_actor row = Some (u_id actor)
          \<and> ar_target row = ''token/'' @ uuid_str (ids e) (tk_id tok))"

definition not_issued :: "uuid \<Rightarrow> db \<Rightarrow> world \<Rightarrow> bool" where
  "not_issued owner d w' \<longleftrightarrow> w_db w' = d
     \<or> (\<exists>tok. tk_user tok = owner \<and> w_db w' = d\<lparr>t_tokens := t_tokens d @ [tok]\<rparr>
          \<and> (tk_revoked_at tok \<noteq> None \<or> stranded_warning \<in> set (w_log w')))"

lemma not_issuedI:
  "w_db w' = d \<Longrightarrow> not_issued owner d w'"
  "w_db w' = d\<lparr>t_tokens := t_tokens d @ [k]\<rparr> \<Longrightarrow> tk_user k = owner \<Longrightarrow> tk_revoked_at k \<noteq> None \<Longrightarrow> not_issued owner d w'"
  "w_db w' = d\<lparr>t_tokens := t_tokens d @ [k]\<rparr> \<Longrightarrow> tk_user k = owner \<Longrightarrow> stranded_warning \<in> set (w_log w') \<Longrightarrow>
     not_issued owner d w'"
  unfolding not_issued_def by blast+

lemma wp_tokens_create:
  assumes "tk_last_used k = None" "tk_revoked_at k = None" "tk_revoked_by k = None"
    and "\<And>x. x \<in> {EFault, ENotFound, ETokenLimit} \<Longrightarrow> Q (Inl x) (tick w)"
    and "tk_user k \<in> ids_of (w_db w) \<Longrightarrow> live_tokens (tk_user k) (w_db w) < max_live_tokens \<Longrightarrow>
      tk_hash k \<notin> tk_hash ` set (t_tokens (w_db w)) \<Longrightarrow> tk_id k \<notin> tk_id ` set (t_tokens (w_db w)) \<Longrightarrow>
      Q (Inr ()) ((tick w)\<lparr>w_db := (w_db w)\<lparr>t_tokens := t_tokens (w_db w) @ [k]\<rparr>\<rparr>)"
  shows "wp (tokens_create k) e w Q"
proof -
  have "k\<lparr>tk_last_used := None, tk_revoked_at := None, tk_revoked_by := None\<rparr> = k" using assms(1-3) by (cases k) simp
  then show ?thesis using assms(4,5) by (simp add: tokens_create_def wp_simps user_exists_ids list_ex_key2)
qed

definition audit_of :: "audit_event \<Rightarrow> audit_row \<Rightarrow> bool" where
  "audit_of ev row \<longleftrightarrow> ar_actor row = null_uuid (ae_actor ev) \<and> ar_action row = ae_action ev
     \<and> ar_target row = ae_target ev \<and> ar_detail row = ae_detail ev \<and> ar_ip row = ae_ip ev \<and> ar_agent row = ae_agent ev
     \<and> (ae_at ev \<noteq> zero_time \<longrightarrow> ar_at row = ae_at ev)"

lemma wp_audit_record:
  assumes "Q (Inl EFault) (tick w)"
    and "\<And>row. audit_of ev row \<Longrightarrow> Q (Inr ()) ((tick w)\<lparr>w_db := (w_db w)\<lparr>t_audit := t_audit (w_db w) @ [row]\<rparr>\<rparr>)"
  shows "wp (audit_record ev) e w Q"
  using assms by (simp add: audit_record_def audit_insert_def wp_simps Let_def audit_of_def)

lemma wp_query_any: "(\<And>r. Q r (tick w)) \<Longrightarrow> wp (query f) e w Q"
  by (simp add: wp_query)

lemma wp_users_by_id_any: "(\<And>r. Q r (tick w)) \<Longrightarrow> wp (users_by_id i) e w Q"
  unfolding users_by_id_def by (rule wp_query_any)

lemma wp_generate:
  assumes "\<And>x w'. w_db w' = w_db w \<Longrightarrow> w_log w' = w_log w \<Longrightarrow> Q (Inl x) w'"
    and "\<And>k secret raw w'. w_db w' = w_db w \<Longrightarrow> w_log w' = w_log w \<Longrightarrow> validate_label label = Inr () \<Longrightarrow>
      length raw = 32 \<Longrightarrow> secret = token_secret raw \<Longrightarrow>
      tk_user k = owner \<Longrightarrow> tk_label k = label \<Longrightarrow> tk_hash k = sha256_hex e secret \<Longrightarrow> tk_prefix k = take 7 secret \<Longrightarrow>
      tk_last_used k = None \<Longrightarrow> tk_revoked_at k = None \<Longrightarrow> tk_revoked_by k = None \<Longrightarrow> Q (Inr (k, secret)) w'"
  shows "wp (generate owner label) e w Q"
  using assms
  by (auto simp: generate_def wp_simps Let_def hash_secret_def secret_bytes_def split: sum.splits)

lemma token_save_fresh:
  "k \<notin> tk_id ` set ks \<Longrightarrow> map (\<lambda>r. if tk_id r = k then f r else r) ks = ks"
  by (induction ks) auto

lemma wp_retract:
  assumes "w_db w = d\<lparr>t_tokens := t_tokens d @ [k]\<rparr>" "tk_revoked_at k = None" "tk_id k \<notin> tk_id ` set (t_tokens d)"
    "tk_user k = owner" "\<And>x w'. not_issued owner d w' \<Longrightarrow> Q (Inl x) w'"
  shows "wp (retract k by' now cause) e w Q"
proof -
  let ?r = "k\<lparr>tk_revoked_at := Some now, tk_revoked_by := Some by'\<rparr>"
  have strand: "wp (stranded cause) e v Q" if "w_db v = w_db w" for v
    using that assms by (auto simp: stranded_def wp_simps intro!: assms(5) intro: not_issuedI(3))
  have saved: "Q (Inl cause) ((tick w)\<lparr>w_db := d\<lparr>t_tokens := t_tokens d @ [?r]\<rparr>\<rparr>)"
    by (rule assms(5), rule not_issuedI(2) [of _ _ ?r]) (simp_all add: assms(4))
  show ?thesis
    using assms(1-3) saved
    by (auto simp: retract_def token_revoke_def tokens_save_def wp_simps list_ex_iff token_save_fresh intro!: strand)
qed

lemma manages_nonnil: "manages actor owner = Inr () \<Longrightarrow> u_id actor \<noteq> uuid_nil"
  by (auto simp: manages_def split: if_splits)

lemma issuedI:
  assumes "manages actor owner = Inr ()" "validate_label label = Inr ()" "owner \<in> ids_of d"
    "live_tokens owner d < max_live_tokens" "length raw = 32" "secret = token_secret raw"
    "tk_user k = owner" "tk_label k = label" "tk_hash k = sha256_hex e secret" "tk_prefix k = take 7 secret"
    "tk_revoked_at k = None" "tk_revoked_by k = None" "tk_last_used k = None"
    "tk_hash k \<notin> tk_hash ` set (t_tokens d)" "tk_id k \<notin> tk_id ` set (t_tokens d)"
    "audit_of (token_event e ''token.issue'' actor k now) row"
    "d' = d\<lparr>t_tokens := t_tokens d @ [k], t_audit := t_audit d @ [row]\<rparr>"
  shows "issued e actor owner label d k secret d'"
  using assms(1-15,17) assms(16) manages_nonnil [OF assms(1)] unfolding issued_def
  by (auto simp: audit_of_def token_event_def null_uuid_def)

lemma wp_issue:
  assumes "\<And>x w'. not_issued owner (w_db w) w' \<Longrightarrow> Q (Inl x) w'"
    and "\<And>k secret w'. issued e actor owner label (w_db w) k secret (w_db w') \<Longrightarrow> Q (Inr (k, secret)) w'"
  shows "wp (issue actor owner label) e w Q"
proof -
  have same: "w_db w' = w_db w \<Longrightarrow> Q (Inl x) w'" for x w' using assms(1) by (simp add: not_issued_def)
  have undone: "wp (retract k by' now cause) e v Q"
    if "w_db v = (w_db w)\<lparr>t_tokens := t_tokens (w_db w) @ [k]\<rparr>" "tk_revoked_at k = None"
      "tk_id k \<notin> tk_id ` set (t_tokens (w_db w))" "tk_user k = owner" for k by' now cause v
    using that assms(1) by (rule wp_retract)
  show ?thesis
    unfolding issue_def wp_simps
    by (cases "manages actor owner")
      (auto split: sum.splits simp: wp_simps same Let_def
        intro!: wp_users_by_id_any wp_generate wp_tokens_create wp_audit_record
        intro!: undone assms(2) intro: issuedI)
qed

section \<open>At most fifty live tokens\<close>

definition live_ok :: "env \<Rightarrow> db \<Rightarrow> bool" where
  "live_ok e d \<longleftrightarrow> (\<forall>i. live_tokens i d \<le> max_live_tokens)"

interpretation live: evolution "kept live_ok"
  by (rule evolution_kept)

lemma live_tokens_append:
  "live_tokens i (d\<lparr>t_tokens := t_tokens d @ [k]\<rparr>) =
     live_tokens i d + (if tk_user k = i \<and> tk_revoked_at k = None then 1 else 0)"
  by (simp add: live_tokens_def)

lemma live_create: "evolves (kept live_ok) (tokens_create k)"
  unfolding tokens_create_def
  by (intro live.ev_exec) (auto simp: evolves_stmt_def kept_def live_ok_def live_tokens_append split: if_splits)

lemma live_save:
  assumes "tk_revoked_at k \<noteq> None"
  shows "evolves (kept live_ok) (tokens_save k)"
proof -
  have le: "length (filter ((\<lambda>k. tk_user k = i \<and> tk_revoked_at k = None) \<circ> (\<lambda>r. if tk_id r = tk_id k
            then r\<lparr>tk_label := tk_label k, tk_revoked_at := tk_revoked_at k, tk_revoked_by := tk_revoked_by k\<rparr>
            else r)) ks) \<le> length (filter (\<lambda>k. tk_user k = i \<and> tk_revoked_at k = None) ks)" for i ks
    using assms by (induction ks) auto
  show ?thesis
    unfolding tokens_save_def
    by (intro live.ev_exec)
      (auto simp: evolves_stmt_def kept_def live_ok_def live_tokens_def split: if_splits intro: le_trans [OF le])
qed

lemma live_same: "(\<And>e t d a d'. f e t d = Inr (a, d') \<Longrightarrow> t_tokens d' = t_tokens d) \<Longrightarrow> evolves (kept live_ok) (exec f)"
  by (intro live.ev_exec) (auto simp: evolves_stmt_def kept_def live_ok_def live_tokens_def)

lemma live_audit: "evolves (kept live_ok) (audit_record ev)"
  unfolding audit_record_def by (rule live_same) (auto simp: audit_insert_def Let_def split: if_splits)

lemma token_revoke_Inr: "token_revoke k i x = Inr k' \<Longrightarrow> tk_revoked_at k' \<noteq> None"
  by (auto simp: token_revoke_def split: if_splits)

lemma live_retract: "evolves (kept live_ok) (retract k i x c)"
  unfolding retract_def stranded_def
  by (cases "token_revoke k i x")
    (auto intro!: live.ev_rules live_save dest: token_revoke_Inr)

lemma live_issue: "evolves (kept live_ok) (issue actor owner label)"
  unfolding issue_def generate_def users_by_id_def Let_def
  by (intro live.ev_rules live_create live_audit live_retract)

lemma live_revoke: "evolves (kept live_ok) (revoke_token actor i)"
  unfolding revoke_token_def tokens_by_id_def
  by (intro live.ev_bnd live.ev_query live.ev_lift live.ev_now live.ev_bnd_lift live_save live.ev_asks live.ev_attempt
      live_audit live.ev_sum live.ev_warn live.ev_ret) (auto dest: token_revoke_Inr)

lemma live_touch: "evolves (kept live_ok) (tokens_touch_last_used i x)"
proof -
  have "length (filter ((\<lambda>k. tk_user k = j \<and> tk_revoked_at k = None) \<circ>
      (\<lambda>r. if tk_id r = i then r\<lparr>tk_last_used := greatest (tk_last_used r) x\<rparr> else r)) ks)
    = length (filter (\<lambda>k. tk_user k = j \<and> tk_revoked_at k = None) ks)" for j and ks :: "token list"
    by (induction ks) auto
  then show ?thesis
    unfolding tokens_touch_last_used_def
    by (intro live.ev_exec) (auto simp: evolves_stmt_def kept_def live_ok_def live_tokens_def)
qed

text \<open>Any sequence of calls on the keys, in any order.\<close>

datatype token_call = IssueCall user uuid string | RevokeCall user uuid | ListCall user uuid
  | ResolveCall string | TouchCall uuid instant

definition run_call :: "env \<Rightarrow> token_call \<Rightarrow> world \<Rightarrow> world" where
  "run_call e c w =
     (case c of
        IssueCall a n l \<Rightarrow> snd (issue a n l e w)
      | RevokeCall a k \<Rightarrow> snd (revoke_token a k e w)
      | ListCall a n \<Rightarrow> snd (list_tokens a n e w)
      | ResolveCall s \<Rightarrow> snd (resolve_token s e w)
      | TouchCall k x \<Rightarrow> snd (tokens_touch_last_used k x e w))"

interpretation same: evolution "\<lambda>e d d'. d = d'"
  by unfold_locales auto

lemma resolve_same: "evolves (\<lambda>e d d'. d = d') (resolve_token s)"
proof -
  show ?thesis
    unfolding resolve_token_def not_found_refuses_def tokens_by_hash_def users_by_id_def by (intro same.ev_rules)
qed

text \<open>C40: no owner ever holds more than fifty keys that are not revoked: not after any sequence of
  issues, revocations and uses, by whomever, whichever database calls failed on the way.\<close>

theorem live_tokens_bounded:
  assumes "\<forall>i. live_tokens i (w_db w) \<le> 50"
  shows "live_tokens i (w_db (fold (run_call e) calls w)) \<le> 50"
proof -
  have "live_ok e (w_db (run_call e c w))" if "live_ok e (w_db w)" for c w
    using that live_issue live_revoke live_touch resolve_same
    by (cases c) (fastforce simp: run_call_def evolves_def kept_def list_tokens_def tokens_list_by_user_def query_def
      exec_def bnd_def lift_def split: sum.splits prod.splits)+
  then have "live_ok e (w_db (fold (run_call e) calls w))" if "live_ok e (w_db w)" for w
    using that by (induction calls arbitrary: w) auto
  then show ?thesis using assms by (simp add: live_ok_def max_live_tokens_def)
qed

section \<open>What authenticates\<close>

text \<open>The key and the owner a secret authenticates as, read off the tables.\<close>

definition authenticates :: "env \<Rightarrow> db \<Rightarrow> string \<Rightarrow> token \<Rightarrow> user \<Rightarrow> bool" where
  "authenticates e d secret k u \<longleftrightarrow> secret \<noteq> []
     \<and> find (\<lambda>k. tk_hash k = sha256_hex e secret) (t_tokens d) = Some k \<and> tk_revoked_at k = None
     \<and> scan_user (find (\<lambda>r. ur_id r = tk_user k) (t_users d)) = Inr u \<and> can_use_api u"

definition resolved :: "token \<Rightarrow> user \<Rightarrow> principal \<times> grant" where
  "resolved k u = (\<lparr>p_user = tk_user k, p_token = tk_id k, p_owner = user_label u\<rparr>,
     \<lparr>g_policy = u_policy u, g_limits = u_limits u\<rparr>)"

lemma resolve_token_cases:
  assumes "resolve_token secret e w = (r, w')"
  shows "w_db w' = w_db w \<and> (case r of
      Inr pg \<Rightarrow> \<exists>k u. authenticates e (w_db w) secret k u \<and> pg = resolved k u
    | Inl x \<Rightarrow> x = EInvalidCredentials \<or> x = EFault \<or> (\<exists>raw. x = EMalformedRule raw))"
proof -
  have "wp (resolve_token secret) e w (\<lambda>r w'. w_db w' = w_db w \<and> (case r of
      Inr pg \<Rightarrow> \<exists>k u. authenticates e (w_db w) secret k u \<and> pg = resolved k u
    | Inl x \<Rightarrow> x = EInvalidCredentials \<or> x = EFault \<or> (\<exists>raw. x = EMalformedRule raw)))"
    by (auto simp: resolve_token_def not_found_refuses_def tokens_by_hash_def users_by_id_def wp_simps hash_secret_def
        found_def token_active_def authenticates_def resolved_def split: sum.splits option.splits dest: scan_user_Inl)
  then show ?thesis using assms by (rule wp_run)
qed

text \<open>A lookup that reaches the database authenticates whatever the tables say it does.\<close>

lemma resolve_token_works:
  assumes "authenticates e (w_db w) secret k u" and "\<And>n. \<not> fault e n"
  shows "fst (resolve_token secret e w) = Inr (resolved k u)"
proof -
  have "wp (resolve_token secret) e w (\<lambda>r w'. r = Inr (resolved k u))"
    using assms
    by (auto simp: resolve_token_def not_found_refuses_def tokens_by_hash_def users_by_id_def wp_simps hash_secret_def
        found_def token_active_def authenticates_def resolved_def split: option.splits)
  then show ?thesis by (simp add: wp_def split: prod.splits)
qed

lemma find_append_new: "\<forall>x \<in> set xs. \<not> P x \<Longrightarrow> P y \<Longrightarrow> find P (xs @ [y]) = Some y"
  by (induction xs) auto

text \<open>C39: issuing a key. A secret handed out is that of one new row in the key table, live and the
  owner's, whose creation is in the audit log, and nothing else in the database changed; the
  secret then authenticates as that key and that owner as long as the owner may use the API.\<close>

theorem issue_then_resolve:
  assumes "issue actor owner label e w = (Inr (tok, secret), w')"
    and "\<And>n. \<not> fault e' n" and "sha256_hex e' = sha256_hex e" and "w_db w'' = w_db w'"
    and "scan_user (find (\<lambda>r. ur_id r = owner) (t_users (w_db w'))) = Inr u" and "can_use_api u"
  shows "issued e actor owner label (w_db w) tok secret (w_db w')
    \<and> fst (resolve_token secret e' w'') = Inr (resolved tok u)"
proof -
  have "wp (issue actor owner label) e w (\<lambda>r w'. \<forall>k s. r = Inr (k, s) \<longrightarrow> issued e actor owner label (w_db w) k s (w_db w'))"
    by (rule wp_issue) auto
  then have iss: "issued e actor owner label (w_db w) tok secret (w_db w')"
    using assms(1) by (blast dest: wp_run)
  then have "find (\<lambda>k. tk_hash k = sha256_hex e secret) (t_tokens (w_db w')) = Some tok"
    by (force simp: issued_def intro: find_append_new)
  moreover have "secret \<noteq> []" using iss by (auto simp: issued_def token_secret_def)
  ultimately have "authenticates e' (w_db w'') secret tok u"
    using iss assms(3-6) by (simp add: authenticates_def issued_def)
  then show ?thesis using iss resolve_token_works assms(2) by blast
qed

text \<open>An issue that fails hands out no secret and leaves at most one trace: the database as it
  was, or one new row of the owner that is revoked already, or, only when the revocation failed
  as well, a live row whose secret nobody has and a warning that says so.\<close>

lemma issue_failure:
  assumes "issue actor owner label e w = (Inl x, w')"
  shows "w_db w' = w_db w
    \<or> (\<exists>tok. tk_user tok = owner \<and> w_db w' = (w_db w)\<lparr>t_tokens := t_tokens (w_db w) @ [tok]\<rparr>
         \<and> (tk_revoked_at tok \<noteq> None \<or> stranded_warning \<in> set (w_log w')))"
proof -
  have "wp (issue actor owner label) e w (\<lambda>r w'. \<forall>x. r = Inl x \<longrightarrow> not_issued owner (w_db w) w')"
    by (rule wp_issue) auto
  then show ?thesis using assms by (auto simp: not_issued_def dest: wp_run)
qed

section \<open>Revoking\<close>

lemma map_revoked:
  "find (\<lambda>k. tk_hash k = h) (map (\<lambda>r. if tk_id r = i then r\<lparr>tk_label := l, tk_revoked_at := a, tk_revoked_by := b\<rparr> else r) ks)
     = map_option (\<lambda>r. if tk_id r = i then r\<lparr>tk_label := l, tk_revoked_at := a, tk_revoked_by := b\<rparr> else r)
         (find (\<lambda>k. tk_hash k = h) ks)"
  by (induction ks) auto

text \<open>What a successful revocation did: the row of the key is revoked by the actor, who owns the key
  or is an administrator; no other row and no other table but the audit log changed.\<close>

definition revoked_now :: "user \<Rightarrow> uuid \<Rightarrow> db \<Rightarrow> db \<Rightarrow> bool" where
  "revoked_now actor i d d' \<longleftrightarrow> (\<exists>k now rows.
     find (\<lambda>k. tk_id k = i) (t_tokens d) = Some k \<and> manages actor (tk_user k) = Inr () \<and> tk_revoked_at k = None
     \<and> d' = d\<lparr>t_tokens := map (\<lambda>r. if tk_id r = i then r\<lparr>tk_label := tk_label k, tk_revoked_at := Some now,
           tk_revoked_by := Some (u_id actor)\<rparr> else r) (t_tokens d), t_audit := t_audit d @ rows\<rparr>)"

lemma wp_revoke:
  assumes "\<And>x w'. w_db w' = w_db w \<Longrightarrow> Q (Inl x) w'"
    and "\<And>w'. revoked_now actor i (w_db w) (w_db w') \<Longrightarrow> Q (Inr ()) w'"
  shows "wp (revoke_token actor i) e w Q"
proof (cases "fault e (w_tick w)")
  case True
  then show ?thesis by (simp add: revoke_token_def tokens_by_id_def wp_simps assms(1))
next
  case False
  show ?thesis
  proof (cases "find (\<lambda>k. tk_id k = i) (t_tokens (w_db w))")
    case None
    then show ?thesis using False by (simp add: revoke_token_def tokens_by_id_def found_def wp_simps assms(1))
  next
    case (Some k)
    then have id: "tk_id k = i" by (auto dest: find_Some_mem)
    have won: "Q (Inr ()) w'"
      if "w_db w' = (w_db w)\<lparr>t_tokens := map (\<lambda>r. if tk_id r = tk_id k then r\<lparr>tk_label := tk_label k, tk_revoked_at := Some now,
           tk_revoked_by := Some (u_id actor)\<rparr> else r) (t_tokens (w_db w)), t_audit := t_audit (w_db w) @ rows\<rparr>"
        "manages actor (tk_user k) = Inr ()" "tk_revoked_at k = None" for now rows w'
      using that Some id by (intro assms(2)) (auto simp: revoked_now_def)
    have won': "Q (Inr ()) w'"
      if "w_db w' = (w_db w)\<lparr>t_tokens := map (\<lambda>r. if tk_id r = tk_id k then r\<lparr>tk_label := tk_label k, tk_revoked_at := Some now,
           tk_revoked_by := Some (u_id actor)\<rparr> else r) (t_tokens (w_db w))\<rparr>"
        "manages actor (tk_user k) = Inr ()" "tk_revoked_at k = None" for now w'
      using that by (intro won [where rows = "[]" and now = now]) simp_all
    show ?thesis
    proof (cases "manages actor (tk_user k) = Inr () \<and> tk_revoked_at k = None")
      case True
      then show ?thesis
        using False Some id
        by (auto simp: revoke_token_def tokens_by_id_def found_def wp_simps assms(1) token_revoke_def tokens_save_def
            intro!: wp_audit_record split: if_splits cong: if_cong)
          (rule won' [where now = "clock e (Suc (w_tick w))"], (simp_all)[3],
            rule won [where now = "clock e (Suc (w_tick w))"], simp_all)
    next
      case no: False
      then show ?thesis
        using False Some
        by (cases "manages actor (tk_user k)")
          (auto simp: revoke_token_def tokens_by_id_def found_def wp_simps assms(1) token_revoke_def)
    qed
  qed
qed

text \<open>A revocation that reports success. The actor owns the key or is an administrator, the key
  was live and now is revoked, no other key and no account changed, and no secret authenticates
  as that key any more.\<close>

lemma revoke_refuses:
  assumes "revoke_token actor i e w = (Inr (), w')"
  shows "revoked_now actor i (w_db w) (w_db w') \<and> \<not> (authenticates e' (w_db w') secret k u \<and> tk_id k = i)"
proof -
  have "wp (revoke_token actor i) e w (\<lambda>r w'. r = Inr () \<longrightarrow> revoked_now actor i (w_db w) (w_db w'))"
    by (rule wp_revoke) auto
  then have r: "revoked_now actor i (w_db w) (w_db w')" using assms by (auto dest: wp_run)
  then obtain k0 :: token and now rows where d': "w_db w' = (w_db w)\<lparr>t_tokens := map (\<lambda>r. if tk_id r = i then
      r\<lparr>tk_label := tk_label k0, tk_revoked_at := Some now, tk_revoked_by := Some (u_id actor)\<rparr> else r)
      (t_tokens (w_db w)), t_audit := t_audit (w_db w) @ rows\<rparr>"
    unfolding revoked_now_def by auto
  have "tk_id k \<noteq> i" if "authenticates e' (w_db w') secret k u"
  proof -
    have "find (\<lambda>k. tk_hash k = sha256_hex e' secret) (t_tokens (w_db w')) = Some k" "tk_revoked_at k = None"
      using that by (simp_all add: authenticates_def)
    then obtain r where "k = (if tk_id r = i then
      r\<lparr>tk_label := tk_label k0, tk_revoked_at := Some now, tk_revoked_by := Some (u_id actor)\<rparr> else r)"
      by (auto simp: d' map_revoked)
    with \<open>tk_revoked_at k = None\<close> show ?thesis by (auto split: if_splits)
  qed
  then show ?thesis using r by blast
qed

section \<open>Witnesses\<close>

text \<open>With every call answered, an issue the rules allow succeeds.\<close>

lemma issue_succeeds:
  assumes "\<And>n. \<not> fault e n" "manages actor owner = Inr ()" "validate_label label = Inr ()"
    "scan_user (find (\<lambda>r. ur_id r = owner) (t_users (w_db w))) = Inr u" "u_id actor \<in> ids_of (w_db w)"
    "live_tokens owner (w_db w) < max_live_tokens"
    "\<And>raw. sha256_hex e (token_secret raw) \<notin> tk_hash ` set (t_tokens (w_db w))"
    "\<And>n. fresh e n \<notin> tk_id ` set (t_tokens (w_db w))"
  obtains k s w' where "issue actor owner label e w = (Inr (k, s), w')"
proof -
  have owner: "owner \<in> ids_of (w_db w)"
    using assms(4) by (cases "find (\<lambda>r. ur_id r = owner) (t_users (w_db w))")
      (auto simp: scan_user_def ids_of_def dest: find_Some_mem)
  have "wp (issue actor owner label) e w (\<lambda>r w'. \<exists>k s. r = Inr (k, s))"
    using assms owner
    by (simp add: issue_def generate_def users_by_id_def tokens_create_def audit_record_def audit_insert_def wp_simps Let_def
        user_exists_ids ref_ok_ids list_ex_key2 hash_secret_def secret_bytes_def token_event_def null_uuid_def not_le)
  then show ?thesis using that by (auto simp: wp_def split: prod.splits)
qed

lemma example_users:
  "scan_user (find (\<lambda>r. ur_id r = 2) (t_users example_db)) = Inr (example_user 2 kind_human ''ada@example.org'' role_user)"
proof -
  have "parse_rule ''chatgpt:gpt-*'' = Inr \<lparr>provider = ''chatgpt'', model_pattern = ''gpt-*'',
      compiled = Some (compile_glob ''gpt-*'')\<rparr>"
    by code_simp
  then show ?thesis
    by (simp add: example_db_def example_row_def scan_user_def row_user_def decode_policy_def decode_spend_limits_def
        example_user_def)
qed

lemma example_issue: "\<exists>k s w'. issue example_admin 2 ''ci'' example_env example_world = (Inr (k, s), w')"
proof -
  have "validate_label ''ci'' = Inr ()" by code_simp
  moreover have "manages example_admin 2 = Inr ()"
    by (simp add: manages_def example_admin_def example_user_def uuid_nil_def)
  moreover have "u_id example_admin \<in> ids_of example_db"
    by (simp add: example_admin_def example_user_def ids_of_def example_db_def example_row_def)
  moreover have "live_tokens 2 example_db < max_live_tokens"
    by (simp add: live_tokens_def example_db_def example_token_def max_live_tokens_def)
  moreover have "tk_hash ` set (t_tokens example_db) = {''hash''}" "tk_id ` set (t_tokens example_db) = {50}"
    by (simp_all add: example_db_def example_token_def)
  ultimately obtain k s w' where "issue example_admin 2 ''ci'' example_env example_world = (Inr (k, s), w')"
    using issue_succeeds [of example_env example_admin 2 "''ci''" example_world] example_users
    by (force simp: example_env_def example_world_def token_secret_def)
  then show ?thesis by blast
qed

theorem issue_then_resolve_witness:
  "\<exists>k s w'. issue example_admin 2 ''ci'' example_env example_world = (Inr (k, s), w')
    \<and> issued example_env example_admin 2 ''ci'' example_db k s (w_db w')
    \<and> fst (resolve_token s example_env w') = Inr (resolved k (example_user 2 kind_human ''ada@example.org'' role_user))"
proof -
  obtain k s w' where iss: "issue example_admin 2 ''ci'' example_env example_world = (Inr (k, s), w')"
    using example_issue by blast
  have "wp (issue example_admin 2 ''ci'') example_env example_world (\<lambda>r w'. t_users (w_db w') = t_users example_db)"
    by (rule wp_issue) (auto simp: not_issued_def issued_def example_world_def)
  then have "t_users (w_db w') = t_users example_db" using iss by (rule wp_run)
  moreover have "can_use_api (example_user 2 kind_human ''ada@example.org'' role_user)"
    by (simp add: can_use_api_def example_user_def)
  ultimately have "issued example_env example_admin 2 ''ci'' (w_db example_world) k s (w_db w')
    \<and> fst (resolve_token s example_env w') = Inr (resolved k (example_user 2 kind_human ''ada@example.org'' role_user))"
    using example_users by (intro issue_then_resolve [OF iss]) (simp_all add: example_env_def)
  then show ?thesis using iss by (auto simp: example_world_def)
qed

theorem live_tokens_bounded_witness:
  "live_tokens 2 (w_db (fold (run_call example_env) [IssueCall example_admin 2 ''ci'', RevokeCall example_admin 50,
     ResolveCall ''hash'', ListCall example_admin 2] example_world)) \<le> 50"
  by (rule live_tokens_bounded) (simp add: example_world_def example_db_def example_token_def live_tokens_def)

text \<open>Every call after the first fails.\<close>

definition faulty_env :: env where
  "faulty_env = example_env\<lparr>fault := (\<lambda>n. n > 0)\<rparr>"

lemma issue_failure_witness:
  "\<exists>x w'. issue example_admin 2 ''ci'' faulty_env example_world = (Inl x, w')
    \<and> (w_db w' = w_db example_world
      \<or> (\<exists>tok. tk_user tok = 2 \<and> w_db w' = (w_db example_world)\<lparr>t_tokens := t_tokens (w_db example_world) @ [tok]\<rparr>
           \<and> (tk_revoked_at tok \<noteq> None \<or> stranded_warning \<in> set (w_log w'))))"
proof -
  have "wp (issue example_admin 2 ''ci'') faulty_env example_world (\<lambda>r w'. isl r)"
    by (auto simp: issue_def generate_def users_by_id_def faulty_env_def wp_simps example_world_def split: sum.splits)
  then obtain x w' where "issue example_admin 2 ''ci'' faulty_env example_world = (Inl x, w')"
    by (auto simp: wp_def isl_def split: prod.splits)
  then show ?thesis using issue_failure by blast
qed

end
