(* ===== verification/Auth.thy ===== *)
theory Auth
  imports Tokens
begin

text \<open>
  \<open>internal/app/auth\<close>: the throttle on password guessing (\<open>throttle.go\<close>) and the local sign-in,
  the sessions it opens, their resolution, the change of a password and the sign-out
  (\<open>auth.go\<close>), over the password hasher of \<open>internal/app/hasher.go\<close>. The hasher's semaphore is
  the step that may fail before a derivation; \<open>w_derivations\<close> counts the derivations it admits.
\<close>

section \<open>Configuration\<close>

record auth_config =
  ac_max :: int
  ac_lock :: duration
  ac_decoy :: string

definition session_ttl :: duration where "session_ttl = 12 * ns_hour"
definition session_id_len :: nat where "session_id_len = 32"
definition min_password_length :: nat where "min_password_length = 12"

section \<open>The hasher\<close>

definition hasher_acquire :: "unit io" where
  "hasher_acquire = query (\<lambda>e t d. Inr ())"

text \<open>The derivations \<open>VerifyPassword\<close> runs: none for a hash that does not parse.\<close>

definition verify_runs :: "string \<Rightarrow> nat" where
  "verify_runs hash = (case decode_hash hash of None \<Rightarrow> 0 | Some d \<Rightarrow> if 2 ^ 32 - 1 < length (ah_key d) then 0 else 1)"

definition hasher_verify :: "string \<Rightarrow> string \<Rightarrow> bool io" where
  "hasher_verify hash plain =
     bnd hasher_acquire (\<lambda>_. derive (verify_runs hash) (\<lambda>e. verify_password (argon2 e) hash plain))"

text \<open>The salt is read only for a password that is not empty.\<close>

definition hash_io :: "string \<Rightarrow> string io" where
  "hash_io plain =
     (if plain = [] then raise EEmptyPassword
      else bnd (random_io argon_salt_len) (\<lambda>salt.
        bnd (derive 1 (\<lambda>e. hash_password (argon2 e) (Some salt) plain)) lift))"

definition hasher_hash :: "string \<Rightarrow> string io" where
  "hasher_hash plain = bnd hasher_acquire (\<lambda>_. hash_io plain)"

definition must_decoy_hash :: "string io" where
  "must_decoy_hash = bnd (random_io session_id_len) (\<lambda>buf. hash_io (b64_encode url_alphabet buf))"

section \<open>The throttle\<close>

definition throttle_check :: "auth_config \<Rightarrow> string \<Rightarrow> unit io" where
  "throttle_check cfg email =
     bnd (attempts_failures email) (\<lambda>(_, until).
     case until of
       None \<Rightarrow> ret ()
     | Some u \<Rightarrow> bnd now_io (\<lambda>now. if now < u then raise (ELockedOut u) else ret ()))"

definition throttle_charge :: "auth_config \<Rightarrow> string \<Rightarrow> unit io" where
  "throttle_charge cfg email =
     bnd now_io (\<lambda>now.
     bnd (attempts_charge email (ac_max cfg) now (now + ac_lock cfg)) (\<lambda>(count, until).
     if count \<le> ac_max cfg then ret ()
     else raise (ELockedOut (case until of None \<Rightarrow> now + ac_lock cfg | Some u \<Rightarrow> u))))"

definition throttle_reset :: "string \<Rightarrow> unit io" where
  "throttle_reset email = attempts_clear email"

section \<open>Sessions\<close>

record session_meta =
  sm_ip :: string
  sm_agent :: string

definition hash_session_id :: "env \<Rightarrow> string \<Rightarrow> string" where
  "hash_session_id e i = sha256_hex e i"

definition new_session_id :: "string io" where
  "new_session_id = bnd (random_io session_id_len) (\<lambda>buf. ret (b64_encode url_alphabet buf))"

definition session_event :: "env \<Rightarrow> user \<Rightarrow> string \<Rightarrow> session_meta \<Rightarrow> instant \<Rightarrow> audit_event" where
  "session_event e u action meta now =
     \<lparr>ae_at = now, ae_actor = u_id u, ae_action = action, ae_target = uuid_str (ids e) (u_id u),
       ae_detail = [(''restricted'', JBool (u_must_change u))], ae_ip = sm_ip meta, ae_agent = sm_agent meta\<rparr>"

definition open_session :: "user \<Rightarrow> string \<Rightarrow> session_meta \<Rightarrow> session io" where
  "open_session u action meta =
     bnd now_io (\<lambda>now.
     bnd new_session_id (\<lambda>i.
     bnd (asks (\<lambda>e. hash_session_id e i)) (\<lambda>hash.
     let stored = \<lparr>se_id = [], se_hash = hash, se_user = u_id u, se_restricted = False, se_ip = sm_ip meta,
           se_agent = sm_agent meta, se_created = now, se_expires = now + session_ttl\<rparr> in
     bnd (sessions_create stored) (\<lambda>_.
     bnd (asks (\<lambda>e. session_event e u action meta now)) (\<lambda>ev.
     bnd (attempt (audit_record ev)) (\<lambda>recorded.
     case recorded of
       Inl x \<Rightarrow> bnd (attempt (sessions_delete hash)) (\<lambda>_. raise x)
     | Inr _ \<Rightarrow> ret (stored\<lparr>se_id := i\<rparr>)))))))"

section \<open>Sign-in\<close>

record sign_in_attempt =
  at_user :: user
  at_hash :: string
  at_eligible :: bool

definition attempt_zero :: sign_in_attempt where
  "attempt_zero = \<lparr>at_user = user_zero, at_hash = [], at_eligible = False\<rparr>"

definition resolve_attempt :: "string \<Rightarrow> sign_in_attempt io" where
  "resolve_attempt email =
     bnd (attempt (users_by_email email)) (\<lambda>r.
     case r of
       Inl x \<Rightarrow> if x = ENotFound then ret attempt_zero else raise x
     | Inr u \<Rightarrow>
         if \<not> can_sign_in u then ret attempt_zero
         else
           let found = attempt_zero\<lparr>at_user := u\<rparr> in
           bnd (attempt (passwords_get (u_id u))) (\<lambda>p.
           case p of
             Inl x \<Rightarrow> if x = ENotFound then ret found else raise x
           | Inr (hash, expires) \<Rightarrow>
               bnd (case expires of None \<Rightarrow> ret False | Some x \<Rightarrow> bnd now_io (\<lambda>now. ret (\<not> now < x))) (\<lambda>lapsed.
               if lapsed then ret found else ret (found\<lparr>at_hash := hash, at_eligible := True\<rparr>))))"

definition verify_attempt :: "auth_config \<Rightarrow> sign_in_attempt \<Rightarrow> string \<Rightarrow> bool io" where
  "verify_attempt cfg a password =
     (let hash = (if at_hash a = [] then ac_decoy cfg else at_hash a) in
      bnd (hasher_verify hash password) (\<lambda>ok. ret (ok \<and> at_eligible a)))"

definition sign_in :: "auth_config \<Rightarrow> string \<Rightarrow> string \<Rightarrow> session_meta \<Rightarrow> (session \<times> user) io" where
  "sign_in cfg email password meta =
     bnd (throttle_check cfg email) (\<lambda>_.
     bnd (throttle_charge cfg email) (\<lambda>_.
     bnd (resolve_attempt email) (\<lambda>a.
     bnd (verify_attempt cfg a password) (\<lambda>ok.
     if \<not> ok then raise EInvalidCredentials
     else
       bnd (throttle_reset email) (\<lambda>_.
       bnd (open_session (at_user a) ''auth.signin'' meta) (\<lambda>s.
       ret (s, at_user a)))))))"

definition resolve_session :: "string \<Rightarrow> (session \<times> user) io" where
  "resolve_session i =
     bnd (asks (\<lambda>e. hash_session_id e i)) (\<lambda>hash.
     bnd (sessions_by_hash hash) (\<lambda>s.
     bnd (users_by_id (se_user s)) (\<lambda>u.
     if \<not> can_sign_in u then raise ENotFound
     else ret (s\<lparr>se_restricted := u_must_change u\<rparr>, u))))"

section \<open>Changing a password, signing out\<close>

definition check_new_password :: "string \<Rightarrow> unit result" where
  "check_new_password plain =
     (if plain = [] then Inl EEmptyPassword
      else if rune_count plain < min_password_length then Inl EWeakPassword
      else Inr ())"

definition own_event :: "env \<Rightarrow> session \<Rightarrow> uuid \<Rightarrow> string \<Rightarrow> instant \<Rightarrow> audit_event" where
  "own_event e s i action now =
     \<lparr>ae_at = now, ae_actor = i, ae_action = action, ae_target = uuid_str (ids e) i, ae_detail = [],
       ae_ip = se_ip s, ae_agent = se_agent s\<rparr>"

definition change_password :: "session \<Rightarrow> string \<Rightarrow> string \<Rightarrow> unit io" where
  "change_password s current_plain new_plain =
     bnd (users_by_id (se_user s)) (\<lambda>u.
     if \<not> can_sign_in u then raise EForbidden
     else
       bnd (passwords_get (u_id u)) (\<lambda>(current, expires).
       bnd (case expires of None \<Rightarrow> ret False | Some x \<Rightarrow> bnd now_io (\<lambda>now. ret (\<not> now < x))) (\<lambda>lapsed.
       if lapsed then raise EInvalidCredentials
       else
         bnd (if u_must_change u then ret True else hasher_verify current current_plain) (\<lambda>ok.
         if \<not> ok then raise EInvalidCredentials
         else
           bnd (lift (check_new_password new_plain)) (\<lambda>_.
           bnd (hasher_hash new_plain) (\<lambda>hash.
           bnd (passwords_set (u_id u) hash None) (\<lambda>_.
           bnd (users_set_must_change (u_id u) False) (\<lambda>_.
           bnd (sessions_delete_by_user_except (u_id u) (se_hash s)) (\<lambda>_.
           bnd now_io (\<lambda>now.
           bnd (asks (\<lambda>e. own_event e s (u_id u) ''auth.password_changed'' now)) audit_record))))))))))"

definition sign_out :: "session \<Rightarrow> unit io" where
  "sign_out s =
     bnd (sessions_delete (se_hash s)) (\<lambda>_.
     bnd now_io (\<lambda>now.
     bnd (asks (\<lambda>e. own_event e s (se_user s) ''auth.signout'' now)) audit_record))"

section \<open>The contract of the attempt store\<close>

text \<open>
  What \<open>LoginAttemptRepo.Charge\<close> promises of the record of one address, and what follows from it
  for any store that keeps the promise: however many attempts arrive within less than one lock
  window, the limit many are admitted.
\<close>

locale attempt_record =
  fixes charge :: "int \<Rightarrow> instant \<Rightarrow> instant \<Rightarrow> 'r \<Rightarrow> 'r"
    and count :: "'r \<Rightarrow> int"
    and lock :: "'r \<Rightarrow> instant option"
    and seen :: "'r \<Rightarrow> instant"
  assumes in_force: "lock r = Some l \<Longrightarrow> now < l \<Longrightarrow>
      count (charge m now u r) = count r + 1 \<and> lock (charge m now u r) = Some l"
    and stale: "(\<exists>l. lock r = Some l \<and> l \<le> now) \<or> lock r = None \<and> seen r \<le> now - (u - now) \<Longrightarrow>
      count (charge m now u r) = 1 \<and> lock (charge m now u r) = (if m \<le> 1 then Some u else None)"
    and grows: "lock r = None \<Longrightarrow> now - (u - now) < seen r \<Longrightarrow>
      count (charge m now u r) = count r + 1 \<and> lock (charge m now u r) = (if m \<le> count r + 1 then Some u else None)"
    and sees: "seen (charge m now u r) = now"

fun admitted :: "(instant \<Rightarrow> 'r \<Rightarrow> 'r) \<Rightarrow> ('r \<Rightarrow> int) \<Rightarrow> int \<Rightarrow> instant list \<Rightarrow> 'r \<Rightarrow> int" where
  "admitted step count m [] r = 0"
| "admitted step count m (t # ts) r =
     (if count (step t r) \<le> m then 1 else 0) + admitted step count m ts (step t r)"

definition attempts_wf :: "int \<Rightarrow> ('r \<Rightarrow> int) \<Rightarrow> ('r \<Rightarrow> instant option) \<Rightarrow> 'r \<Rightarrow> bool" where
  "attempts_wf m count lock r \<longleftrightarrow> 0 \<le> count r \<and> (case lock r of None \<Rightarrow> count r < m | Some _ \<Rightarrow> m \<le> count r)"

context attempt_record
begin

lemma charge_cases:
  obtains l where "lock r = Some l" "now < l" | "(\<exists>l. lock r = Some l \<and> l \<le> now) \<or> lock r = None \<and> seen r \<le> now - (u - now)"
  | "lock r = None" "now - (u - now) < seen r"
proof (cases "lock r")
  case None
  then show ?thesis using that(2,3) by (cases "seen r \<le> now - (u - now)") auto
next
  case (Some l)
  then show ?thesis using that(1,2) by (cases "now < l") auto
qed

lemma charge_wf:
  assumes "attempts_wf m count lock r" "1 \<le> m"
  shows "attempts_wf m count lock (charge m now u r)"
  using assms in_force [of r _ now m u] stale [of r now u m] grows [of r now u m]
  by (cases rule: charge_cases [where r = r and now = now and u = u]) (auto simp: attempts_wf_def)

text \<open>Once the record was written inside the window, every attempt counts.\<close>

lemma admitted_after:
  assumes "1 \<le> m" "attempts_wf m count lock r" "start \<le> seen r" "\<forall>t \<in> set ts. t < start + L"
    and "case lock r of None \<Rightarrow> True | Some l \<Rightarrow> start + L \<le> l" "sorted ts" "\<forall>t \<in> set ts. seen r \<le> t"
  shows "admitted (\<lambda>t. charge m t (t + L)) count m ts r \<le> max 0 (m - count r)"
  using assms
proof (induction ts arbitrary: r)
  case (Cons t ts)
  let ?r = "charge m t (t + L) r"
  have wf: "attempts_wf m count lock ?r" by (rule charge_wf [OF Cons.prems(2,1)])
  have seen: "start \<le> seen ?r" "\<forall>x \<in> set ts. seen ?r \<le> x" using Cons.prems(3,6,7) by (auto simp: sees)
  consider (locked) l where "lock r = Some l" "t < l" | (free) "lock r = None" "t - (t + L - t) < seen r"
    using Cons.prems(3,4,5) by (cases "lock r") auto
  then show ?case
  proof cases
    case locked
    have c: "count ?r = count r + 1" "lock ?r = Some l" using in_force [OF locked] by auto
    have "admitted (\<lambda>t. charge m t (t + L)) count m ts ?r \<le> max 0 (m - count ?r)"
      using Cons.prems wf seen c locked by (intro Cons.IH) auto
    moreover have "m \<le> count r" using Cons.prems(2) locked by (simp add: attempts_wf_def)
    ultimately show ?thesis using c by simp
  next
    case free
    have c: "count ?r = count r + 1" "lock ?r = (if m \<le> count r + 1 then Some (t + L) else None)"
      using grows [OF free] by auto
    have t: "start \<le> t" using Cons.prems(3,7) by auto
    have "admitted (\<lambda>t. charge m t (t + L)) count m ts ?r \<le> max 0 (m - count ?r)"
      using Cons.prems wf seen c t by (intro Cons.IH) (auto split: option.splits)
    moreover have "count r < m" using Cons.prems(2) free by (simp add: attempts_wf_def)
    ultimately show ?thesis using c by simp
  qed
qed simp

lemma admitted_bound:
  assumes "1 \<le> m" "attempts_wf m count lock r" "sorted ts" "\<forall>t \<in> set ts. start \<le> t \<and> t < start + L"
  shows "admitted (\<lambda>t. charge m t (t + L)) count m ts r \<le> m"
  using assms
proof (induction ts arbitrary: r)
  case (Cons t ts)
  let ?r = "charge m t (t + L) r"
  have wf: "attempts_wf m count lock ?r" by (rule charge_wf [OF Cons.prems(2,1)])
  have seen: "start \<le> seen ?r" "\<forall>x \<in> set ts. seen ?r \<le> x" "\<forall>t \<in> set ts. t < start + L" "sorted ts"
    using Cons.prems(3,4) by (auto simp: sees)
  have t: "start \<le> t" using Cons.prems(4) by simp
  consider (locked) l where "lock r = Some l" "t < l"
    | (old) "(\<exists>l. lock r = Some l \<and> l \<le> t) \<or> lock r = None \<and> seen r \<le> t - (t + L - t)"
    | (free) "lock r = None" "t - (t + L - t) < seen r"
    by (rule charge_cases [where r = r and now = t and u = "t + L"])
  then show ?case
  proof cases
    case locked
    have "m \<le> count r" using Cons.prems(2) locked by (simp add: attempts_wf_def)
    then have "\<not> count ?r \<le> m" using in_force [OF locked, of m "t + L"] by simp
    then show ?thesis using Cons.IH [OF Cons.prems(1) wf] Cons.prems by simp
  next
    case old
    have c: "count ?r = 1" "lock ?r = (if m \<le> 1 then Some (t + L) else None)" using stale [OF old] by auto
    have "admitted (\<lambda>t. charge m t (t + L)) count m ts ?r \<le> max 0 (m - count ?r)"
      using Cons.prems(1) wf seen c t by (intro admitted_after [where start = start]) auto
    then show ?thesis using c Cons.prems(1) by simp
  next
    case free
    have c: "count ?r = count r + 1" "lock ?r = (if m \<le> count r + 1 then Some (t + L) else None)"
      using grows [OF free] by auto
    have "admitted (\<lambda>t. charge m t (t + L)) count m ts ?r \<le> max 0 (m - count ?r)"
      using Cons.prems(1) wf seen c t by (intro admitted_after [where start = start]) auto
    moreover have "count r < m" "0 \<le> count r" using Cons.prems(2) free by (simp_all add: attempts_wf_def)
    ultimately show ?thesis using c by simp
  qed
qed simp

end

text \<open>The statement of \<open>loginattempts.Repo\<close> keeps the promise; an address without a row counts zero.\<close>

definition next_row :: "string \<Rightarrow> int \<Rightarrow> instant \<Rightarrow> instant \<Rightarrow> attempt_row option \<Rightarrow> attempt_row" where
  "next_row key m now lock_until old =
     (case old of
        None \<Rightarrow> \<lparr>la_email = key, la_failures = 1, la_locked = (if m \<le> 1 then Some lock_until else None), la_last = now\<rparr>
      | Some r \<Rightarrow> charged m now lock_until r)"

definition row_count :: "attempt_row option \<Rightarrow> int" where
  "row_count r = (case r of None \<Rightarrow> 0 | Some r \<Rightarrow> la_failures r)"

definition row_lock :: "attempt_row option \<Rightarrow> instant option" where
  "row_lock r = (case r of None \<Rightarrow> None | Some r \<Rightarrow> la_locked r)"

definition row_seen :: "attempt_row option \<Rightarrow> instant" where
  "row_seen r = (case r of None \<Rightarrow> 0 | Some r \<Rightarrow> la_last r)"

interpretation attempts: attempt_record "\<lambda>m now u r. Some (next_row key m now u r)" row_count row_lock row_seen for key
  by unfold_locales
    (auto simp: next_row_def row_count_def row_lock_def row_seen_def charged_def Let_def split: option.splits)

section \<open>A burst of sign-ins against one address\<close>

definition attempt_of :: "env \<Rightarrow> string \<Rightarrow> db \<Rightarrow> attempt_row option" where
  "attempt_of e email d = find (\<lambda>r. la_email r = sql_lower e email) (t_attempts d)"

lemma find_map_key:
  "(\<And>r. key (f r) = key r) \<Longrightarrow>
     find (\<lambda>r. key r = k) (map (\<lambda>r. if key r = k then f r else r) xs) = map_option f (find (\<lambda>r. key r = k) xs)"
  by (induction xs) auto

lemma find_snoc: "find P xs = None \<Longrightarrow> find P (xs @ [x]) = (if P x then Some x else None)"
  by (induction xs) (auto split: if_splits)

lemma wp_attempts_charge:
  assumes "fault e (w_tick w) \<Longrightarrow> Q (Inl EFault) (tick w)"
    and "\<And>r d. \<not> fault e (w_tick w) \<Longrightarrow> r = next_row (sql_lower e email) m now u (attempt_of e email (w_db w)) \<Longrightarrow>
      attempt_of e email d = Some r \<Longrightarrow> d = (w_db w)\<lparr>t_attempts := t_attempts d\<rparr> \<Longrightarrow>
      Q (Inr (la_failures r, la_locked r)) ((tick w)\<lparr>w_db := d\<rparr>)"
  shows "wp (attempts_charge email m now u) e w Q"
proof (cases "attempt_of e email (w_db w)")
  case None
  let ?r = "next_row (sql_lower e email) m now u None"
  have "attempt_of e email ((w_db w)\<lparr>t_attempts := t_attempts (w_db w) @ [?r]\<rparr>) = Some ?r"
    using None by (simp add: attempt_of_def find_snoc next_row_def)
  then show ?thesis
    using None assms(1) assms(2) [of ?r "(w_db w)\<lparr>t_attempts := t_attempts (w_db w) @ [?r]\<rparr>"]
    by (simp add: attempts_charge_def wp_simps attempt_of_def Let_def next_row_def)
next
  case (Some old)
  let ?d = "(w_db w)\<lparr>t_attempts := map (\<lambda>x. if la_email x = sql_lower e email then charged m now u x else x)
      (t_attempts (w_db w))\<rparr>"
  have "attempt_of e email ?d = Some (charged m now u old)"
    using Some by (simp add: attempt_of_def find_map_key)
  then show ?thesis
    using Some assms(1) assms(2) [of "charged m now u old" ?d]
    by (simp add: attempts_charge_def wp_simps attempt_of_def Let_def next_row_def)
qed

text \<open>The number of attempts a run of \<open>n\<close> charges admits, whatever else fails.\<close>

fun burst :: "auth_config \<Rightarrow> string \<Rightarrow> nat \<Rightarrow> int io" where
  "burst cfg email 0 = ret 0"
| "burst cfg email (Suc n) =
     bnd (attempt (throttle_charge cfg email)) (\<lambda>r.
     bnd (burst cfg email n) (\<lambda>k. ret ((if isl r then 0 else 1) + k)))"

lemma wp_throttle_charge:
  assumes "\<And>w'. w_db w' = w_db w \<Longrightarrow> w_tick w < w_tick w' \<Longrightarrow> Q (Inl EFault) w'"
    and "\<And>r x w'. w_tick w < w_tick w' \<Longrightarrow> isl x = (\<not> la_failures r \<le> ac_max cfg) \<Longrightarrow>
      r = next_row (sql_lower e email) (ac_max cfg) (clock e (w_tick w)) (clock e (w_tick w) + ac_lock cfg)
        (attempt_of e email (w_db w)) \<Longrightarrow>
      attempt_of e email (w_db w') = Some r \<Longrightarrow> w_db w' = (w_db w)\<lparr>t_attempts := t_attempts (w_db w')\<rparr> \<Longrightarrow>
      w_derivations w' = w_derivations w \<Longrightarrow> w_log w' = w_log w \<Longrightarrow>
      (\<forall>y. x = Inl y \<longrightarrow> (\<exists>u. y = ELockedOut u)) \<Longrightarrow> Q x w'"
  shows "wp (throttle_charge cfg email) e w Q"
  by (simp add: throttle_charge_def wp_bnd wp_now, rule wp_attempts_charge) (auto simp: wp_simps intro: assms)

definition tally :: "env \<Rightarrow> auth_config \<Rightarrow> string \<Rightarrow> instant list \<Rightarrow> attempt_row option \<Rightarrow> int" where
  "tally e cfg email =
     admitted (\<lambda>t a. Some (next_row (sql_lower e email) (ac_max cfg) t (t + ac_lock cfg) a)) row_count (ac_max cfg)"

definition tallied :: "env \<Rightarrow> auth_config \<Rightarrow> string \<Rightarrow> world \<Rightarrow> int result \<Rightarrow> bool" where
  "tallied e cfg email w r \<longleftrightarrow> (\<exists>ts. sorted ts \<and> (\<forall>t \<in> set ts. \<exists>k \<ge> w_tick w. t = clock e k)
     \<and> r = Inr (tally e cfg email ts (attempt_of e email (w_db w))))"

lemma tallied_later:
  "tallied e cfg email w' r \<Longrightarrow> w_db w' = w_db w \<Longrightarrow> w_tick w < w_tick w' \<Longrightarrow> tallied e cfg email w r"
  unfolding tallied_def by (metis less_imp_le order_trans)

lemma tallied_step:
  assumes "tallied e cfg email w' (Inr k)" "w_tick w < w_tick w'" "\<forall>m n. m \<le> n \<longrightarrow> clock e m \<le> clock e n"
    and "row = next_row (sql_lower e email) (ac_max cfg) (clock e (w_tick w)) (clock e (w_tick w) + ac_lock cfg)
      (attempt_of e email (w_db w))" "attempt_of e email (w_db w') = Some row"
  shows "tallied e cfg email w (Inr ((if la_failures row \<le> ac_max cfg then 1 else 0) + k))"
proof -
  obtain ts where ts: "sorted ts" "\<forall>t \<in> set ts. \<exists>k \<ge> w_tick w'. t = clock e k"
    and k: "k = tally e cfg email ts (Some row)"
    using assms(1,5) by (auto simp: tallied_def)
  have later: "\<forall>t \<in> set ts. \<exists>k \<ge> w_tick w. t = clock e k"
    using ts(2) assms(2) by (meson less_imp_le order_trans)
  then have "\<forall>t \<in> set ts. clock e (w_tick w) \<le> t" using assms(3) by auto
  then show ?thesis
    using ts(1) later k assms(4) unfolding tallied_def by (intro exI [of _ "clock e (w_tick w) # ts"]) (auto simp: tally_def row_count_def)
qed

lemma burst_tallied:
  assumes "\<forall>m n. m \<le> n \<longrightarrow> clock e m \<le> clock e n"
  shows "wp (burst cfg email n) e w (\<lambda>r w'. tallied e cfg email w r)"
proof (induction n arbitrary: w)
  case 0
  show ?case by (simp add: wp_simps tallied_def exI [of _ "[]"] tally_def)
next
  case (Suc n)
  show ?case
    unfolding burst.simps wp_bnd wp_attempt sum.case
  proof (rule wp_throttle_charge)
    fix w' :: world
    assume "w_db w' = w_db w" "w_tick w < w_tick w'"
    then show "wp (burst cfg email n) e w' (\<lambda>r w'. case r of Inl x \<Rightarrow> tallied e cfg email w (Inl x)
      | Inr k \<Rightarrow> wp (ret ((if isl (Inl EFault) then 0 else 1) + k)) e w' (\<lambda>r w'. tallied e cfg email w r))"
      by (intro wp_mono [OF Suc.IH]) (auto simp: wp_simps intro: tallied_later split: sum.splits)
  next
    fix r :: attempt_row and x :: "unit result" and w' :: world
    assume h: "w_tick w < w_tick w'" "isl x = (\<not> la_failures r \<le> ac_max cfg)"
      "r = next_row (sql_lower e email) (ac_max cfg) (clock e (w_tick w)) (clock e (w_tick w) + ac_lock cfg)
        (attempt_of e email (w_db w))" "attempt_of e email (w_db w') = Some r"
    show "wp (burst cfg email n) e w' (\<lambda>k w'. case k of Inl y \<Rightarrow> tallied e cfg email w (Inl y)
      | Inr k \<Rightarrow> wp (ret ((if isl x then 0 else 1) + k)) e w' (\<lambda>r w'. tallied e cfg email w r))"
    proof (rule wp_mono [OF Suc.IH])
      fix k and w'' :: world
      assume t: "tallied e cfg email w' k"
      then obtain j where j: "k = Inr j" by (auto simp: tallied_def)
      have "tallied e cfg email w (Inr ((if la_failures r \<le> ac_max cfg then 1 else 0) + j))"
        using t h by (intro tallied_step [OF _ h(1) assms h(3,4)]) (simp add: j)
      then show "case k of Inl y \<Rightarrow> tallied e cfg email w (Inl y)
        | Inr k \<Rightarrow> wp (ret ((if isl x then 0 else 1) + k)) e w'' (\<lambda>r w'. tallied e cfg email w r)"
        using h(2) by (auto simp: j wp_simps split: if_splits)
    qed
  qed
qed

text \<open>Of the sign-in attempts against one address that arrive within less than one lock window
  the throttle admits at most the limit, however many there are, whatever was on record for the
  address before and whichever of the calls fail; and charging never ends in an error of its own.\<close>

lemma burst_bounded:
  assumes "\<forall>m n. m \<le> n \<longrightarrow> clock e m \<le> clock e n" and "1 \<le> ac_max cfg"
    and "\<forall>n. clock e n < clock e (w_tick w) + ac_lock cfg"
    and "attempts_wf (ac_max cfg) row_count row_lock (attempt_of e email (w_db w))"
    and "burst cfg email n e w = (r, w')"
  shows "\<exists>k. r = Inr k \<and> k \<le> ac_max cfg"
proof -
  obtain ts where ts: "sorted ts" "\<forall>t \<in> set ts. \<exists>k \<ge> w_tick w. t = clock e k"
    and r: "r = Inr (tally e cfg email ts (attempt_of e email (w_db w)))"
    using wp_run [OF burst_tallied [OF assms(1)] assms(5)] unfolding tallied_def by blast
  have "\<forall>t \<in> set ts. clock e (w_tick w) \<le> t \<and> t < clock e (w_tick w) + ac_lock cfg"
    using ts(2) assms(1,3) by auto
  then have "tally e cfg email ts (attempt_of e email (w_db w)) \<le> ac_max cfg"
    unfolding tally_def using assms(2,4) ts(1)
    by (intro attempts.admitted_bound [where start = "clock e (w_tick w)"]) auto
  then show ?thesis using r by blast
qed

section \<open>Opening a session\<close>

text \<open>What a session opened for a user leaves behind.\<close>

definition opened :: "env \<Rightarrow> user \<Rightarrow> string \<Rightarrow> session_meta \<Rightarrow> db \<Rightarrow> session \<Rightarrow> db \<Rightarrow> bool" where
  "opened e u action meta d s d' \<longleftrightarrow>
     se_hash s = sha256_hex e (se_id s) \<and> se_user s = u_id u \<and> se_expires s = se_created s + session_ttl
     \<and> (\<exists>raw. length raw = 32 \<and> se_id s = b64_encode url_alphabet raw)
     \<and> se_hash s \<notin> ss_hash ` set (t_sessions d) \<and> u_id u \<in> ids_of d
     \<and> (\<exists>row srow. d' = d\<lparr>t_sessions := t_sessions d @ [srow], t_audit := t_audit d @ [row]\<rparr>
          \<and> row_session srow = s\<lparr>se_id := []\<rparr>
          \<and> ar_action row = action \<and> ar_actor row = null_uuid (u_id u) \<and> ar_target row = uuid_str (ids e) (u_id u)
          \<and> ar_ip row = sm_ip meta \<and> ar_agent row = sm_agent meta)"

lemma wp_sessions_create:
  assumes "\<And>x. x \<in> {EFault, EConflict} \<Longrightarrow> Q (Inl x) (tick w)"
    and "\<And>row. se_hash s \<notin> ss_hash ` set (t_sessions (w_db w)) \<Longrightarrow> se_user s \<in> ids_of (w_db w) \<Longrightarrow>
      row_session row = s\<lparr>se_id := [], se_restricted := False\<rparr> \<Longrightarrow> ss_hash row = se_hash s \<Longrightarrow> ss_user row = se_user s \<Longrightarrow>
      Q (Inr ()) ((tick w)\<lparr>w_db := (w_db w)\<lparr>t_sessions := t_sessions (w_db w) @ [row]\<rparr>\<rparr>)"
  shows "wp (sessions_create s) e w Q"
proof -
  let ?row = "\<lparr>ss_hash = se_hash s, ss_user = se_user s, ss_ip = se_ip s, ss_agent = se_agent s,
         ss_created = se_created s, ss_expires = se_expires s\<rparr>"
  have "row_session ?row = s\<lparr>se_id := [], se_restricted := False\<rparr>" by (cases s) (simp add: row_session_def)
  then show ?thesis
    using assms by (simp add: sessions_create_def wp_simps list_ex_key user_exists_ids)
qed

lemma wp_sessions_delete:
  "wp (sessions_delete h) e w Q \<longleftrightarrow>
     (if fault e (w_tick w) then Q (Inl EFault) (tick w)
      else Q (Inr ()) ((tick w)\<lparr>w_db := (w_db w)\<lparr>t_sessions := filter (\<lambda>r. ss_hash r \<noteq> h) (t_sessions (w_db w))\<rparr>\<rparr>))"
  by (simp add: sessions_delete_def wp_simps)

lemma session_gone: "h \<notin> ss_hash ` set ss \<Longrightarrow> filter (\<lambda>r. ss_hash r \<noteq> h) ss = ss"
  by (induction ss) auto

text \<open>Failing, it leaves either nothing, or the row that the failed audit and the failed delete left.\<close>

definition not_opened :: "env \<Rightarrow> user \<Rightarrow> db \<Rightarrow> world \<Rightarrow> bool" where
  "not_opened e u d w' \<longleftrightarrow> w_db w' = d
     \<or> (\<exists>srow n. fault e n \<and> ss_user srow = u_id u \<and> w_db w' = d\<lparr>t_sessions := t_sessions d @ [srow]\<rparr>)"

lemma wp_open_session:
  assumes "\<And>x w'. not_opened e u (w_db w) w' \<Longrightarrow> w_derivations w' = w_derivations w \<Longrightarrow> x \<in> {EFault, EConflict} \<Longrightarrow>
      Q (Inl x) w'"
    and "\<And>s w'. opened e u action meta (w_db w) s (w_db w') \<Longrightarrow> w_derivations w' = w_derivations w \<Longrightarrow> Q (Inr s) w'"
  shows "wp (open_session u action meta) e w Q"
proof -
  have same: "Q (Inl x) w'" if "w_db w' = w_db w" "w_derivations w' = w_derivations w" "x \<in> {EFault, EConflict}" for x w'
    using that assms(1) by (simp add: not_opened_def)
  have left: "Q (Inl EFault) w'"
    if "w_db w' = (w_db w)\<lparr>t_sessions := t_sessions (w_db w) @ [srow]\<rparr>" "fault e n" "ss_user srow = u_id u"
      "w_derivations w' = w_derivations w" for w' srow n
    using that by (intro assms(1)) (auto simp: not_opened_def)
  have won: "Q (Inr s) w'"
    if "w_db w' = (w_db w)\<lparr>t_sessions := t_sessions (w_db w) @ [srow], t_audit := t_audit (w_db w) @ [row]\<rparr>"
      "audit_of (session_event e u action meta now) row" "row_session srow = s\<lparr>se_id := []\<rparr>"
      "se_hash s = sha256_hex e (se_id s)" "se_user s = u_id u" "se_expires s = se_created s + session_ttl"
      "se_id s = b64_encode url_alphabet raw" "length raw = 32" "se_hash s \<notin> ss_hash ` set (t_sessions (w_db w))"
      "u_id u \<in> ids_of (w_db w)" "w_derivations w' = w_derivations w" for s w' srow row now raw
    using that by (intro assms(2)) (auto simp: opened_def audit_of_def session_event_def)
  show ?thesis
    unfolding open_session_def new_session_id_def
    by (auto simp: wp_simps Let_def hash_session_id_def session_id_len_def wp_sessions_delete session_gone same
        intro!: wp_sessions_create wp_audit_record)
      (rule left, simp_all, rule won [where raw = "map (random e (Suc (w_tick w))) [0..<32]"], simp_all)
qed

end
