(* ===== verification/SignIn.thy ===== *)
theory SignIn
  imports Auth
begin

text \<open>
  What the local sign-in promises: whom it lets in, what a refusal costs and reveals, how long the
  session it opens stands, and what a change of the password and a sign-out end.
\<close>

section \<open>Whom it lets in\<close>

text \<open>The account behind an address, and the password row that is a credential at a tick's time.\<close>

definition account :: "env \<Rightarrow> db \<Rightarrow> string \<Rightarrow> user result" where
  "account e d email = scan_user (find (\<lambda>r. lower_email e r = Some (sql_lower e email)) (t_users d))"

definition password_row_of :: "db \<Rightarrow> uuid \<Rightarrow> password_row option" where
  "password_row_of d i = find (\<lambda>r. pw_user r = i) (t_passwords d)"

definition opens :: "env \<Rightarrow> auth_config \<Rightarrow> nat \<Rightarrow> password_row \<Rightarrow> string \<Rightarrow> bool" where
  "opens e cfg n row password \<longleftrightarrow>
     (case pw_expires row of None \<Rightarrow> True | Some x \<Rightarrow> clock e n < x)
     \<and> verify_password (argon2 e) (if pw_hash row = [] then ac_decoy cfg else pw_hash row) password"

definition credentials :: "env \<Rightarrow> auth_config \<Rightarrow> nat \<Rightarrow> db \<Rightarrow> string \<Rightarrow> string \<Rightarrow> user \<Rightarrow> bool" where
  "credentials e cfg n d email password u \<longleftrightarrow> account e d email = Inr u \<and> can_sign_in u
     \<and> (\<exists>row. password_row_of d (u_id u) = Some row \<and> opens e cfg n row password)"

lemma wp_throttle_check:
  assumes "\<And>x w'. w_db w' = w_db w \<Longrightarrow> w_derivations w' = w_derivations w \<Longrightarrow> x = EFault \<or> (\<exists>u. x = ELockedOut u) \<Longrightarrow> Q (Inl x) w'"
    and "\<And>w'. w_db w' = w_db w \<Longrightarrow> w_derivations w' = w_derivations w \<Longrightarrow> w_tick w \<le> w_tick w' \<Longrightarrow> Q (Inr ()) w'"
  shows "wp (throttle_check cfg email) e w Q"
  using assms by (auto simp: throttle_check_def attempts_failures_def wp_simps split: option.splits)

text \<open>
  Resolving an attempt and verifying it: whatever there was to compare against, the answer costs
  one derivation, and it is yes only for the credentials of the account.
\<close>

definition tried :: "auth_config \<Rightarrow> string \<Rightarrow> string \<Rightarrow> (sign_in_attempt \<times> bool) io" where
  "tried cfg email password =
     bnd (resolve_attempt email) (\<lambda>a. bnd (verify_attempt cfg a password) (\<lambda>ok. ret (a, ok)))"

definition lookup_failure :: "err \<Rightarrow> bool" where
  "lookup_failure x \<longleftrightarrow> x = EFault \<or> (\<exists>raw. x = EMalformedRule raw)"

lemma wp_resolve_attempt:
  assumes "\<And>x w'. w_db w' = w_db w \<Longrightarrow> w_derivations w' = w_derivations w \<Longrightarrow> lookup_failure x \<Longrightarrow> Q (Inl x) w'"
    and "\<And>a w'. w_db w' = w_db w \<Longrightarrow> w_derivations w' = w_derivations w \<Longrightarrow> w_tick w < w_tick w' \<Longrightarrow>
      \<not> at_eligible a \<Longrightarrow> at_hash a = [] \<Longrightarrow>
      \<forall>u row. account e (w_db w) email = Inr u \<longrightarrow> can_sign_in u \<longrightarrow> password_row_of (w_db w) (u_id u) = Some row \<longrightarrow>
        (\<exists>x n. w_tick w \<le> n \<and> pw_expires row = Some x \<and> x \<le> clock e n) \<Longrightarrow> Q (Inr a) w'"
    and "\<And>u row n w'. w_db w' = w_db w \<Longrightarrow> w_derivations w' = w_derivations w \<Longrightarrow> w_tick w < w_tick w' \<Longrightarrow>
      account e (w_db w) email = Inr u \<Longrightarrow> can_sign_in u \<Longrightarrow> password_row_of (w_db w) (u_id u) = Some row \<Longrightarrow>
      w_tick w \<le> n \<Longrightarrow> (case pw_expires row of None \<Rightarrow> True | Some x \<Rightarrow> clock e n < x) \<Longrightarrow>
      Q (Inr \<lparr>at_user = u, at_hash = pw_hash row, at_eligible = True\<rparr>) w'"
  shows "wp (resolve_attempt email) e w Q"
proof (cases "account e (w_db w) email")
  case (Inl x)
  then show ?thesis
    using assms(1,2)
    by (auto simp: resolve_attempt_def users_by_email_def account_def wp_simps attempt_zero_def lookup_failure_def
        dest: scan_user_Inl)
next
  case (Inr u)
  show ?thesis
  proof (cases "can_sign_in u")
    case False
    then show ?thesis
      using Inr assms(1,2)
      by (auto simp: resolve_attempt_def users_by_email_def account_def wp_simps attempt_zero_def lookup_failure_def)
  next
    case True
    show ?thesis
    proof (cases "password_row_of (w_db w) (u_id u)")
      case None
      then show ?thesis
        using Inr True assms(1,2)
        by (auto simp: resolve_attempt_def users_by_email_def account_def passwords_get_def password_row_of_def wp_simps
            attempt_zero_def lookup_failure_def)
    next
      case (Some row)
      have clear: "Q (Inr \<lparr>at_user = u, at_hash = pw_hash row, at_eligible = True\<rparr>) w'"
        if "w_db w' = w_db w" "w_derivations w' = w_derivations w" "w_tick w < w_tick w'"
          "case pw_expires row of None \<Rightarrow> True | Some x \<Rightarrow> clock e (Suc (Suc (w_tick w))) < x" for w'
        using that Inr True Some by (intro assms(3) [where n = "Suc (Suc (w_tick w))"]) simp_all
      have late: "Q (Inr \<lparr>at_user = u, at_hash = [], at_eligible = False\<rparr>) w'"
        if "w_db w' = w_db w" "w_derivations w' = w_derivations w" "w_tick w < w_tick w'"
          "pw_expires row = Some x" "\<not> clock e (Suc (Suc (w_tick w))) < x" for w' x
        using that Inr True Some by (intro assms(2)) (auto intro!: exI [of _ "Suc (Suc (w_tick w))"])
      show ?thesis
        using Inr True Some assms(1) clear late
        by (auto simp: resolve_attempt_def users_by_email_def account_def passwords_get_def password_row_of_def wp_simps
            attempt_zero_def lookup_failure_def split: option.splits)
    qed
  qed
qed

text \<open>What the comparison behind a refusal costs: that with the decoy, or with the hash stored for a person who may sign in.\<close>

definition refusal_runs :: "env \<Rightarrow> auth_config \<Rightarrow> string \<Rightarrow> db \<Rightarrow> nat \<Rightarrow> bool" where
  "refusal_runs e cfg email d k \<longleftrightarrow> k = verify_runs (ac_decoy cfg)
     \<or> (\<exists>u row. account e d email = Inr u \<and> can_sign_in u \<and> password_row_of d (u_id u) = Some row \<and> pw_hash row \<noteq> [] \<and> k = verify_runs (pw_hash row))"

lemma verified_runs: "verify_password idkey hash password \<Longrightarrow> verify_runs hash = 1"
  by (auto simp: verify_password_def verify_runs_def split: option.splits if_splits)

lemma wp_tried:
  assumes "\<And>x w'. w_db w' = w_db w \<Longrightarrow> w_derivations w' = w_derivations w \<Longrightarrow> lookup_failure x \<Longrightarrow> Q (Inl x) w'"
    and "\<And>a k w'. w_db w' = w_db w \<Longrightarrow> w_derivations w' = w_derivations w + k \<Longrightarrow> refusal_runs e cfg email (w_db w) k \<Longrightarrow>
      (\<forall>u. \<exists>n \<ge> w_tick w. \<not> credentials e cfg n (w_db w) email password u) \<Longrightarrow> Q (Inr (a, False)) w'"
    and "\<And>a n w'. w_db w' = w_db w \<Longrightarrow> w_derivations w' = w_derivations w + 1 \<Longrightarrow> w_tick w \<le> n \<Longrightarrow>
      credentials e cfg n (w_db w) email password (at_user a) \<Longrightarrow> Q (Inr (a, True)) w'"
  shows "wp (tried cfg email password) e w Q"
  unfolding tried_def wp_bnd
proof (rule wp_resolve_attempt)
  fix x and w' :: world
  assume "w_db w' = w_db w" "w_derivations w' = w_derivations w" "lookup_failure x"
  then show "case Inl x of Inl x \<Rightarrow> Q (Inl x) w' | Inr a \<Rightarrow> wp (verify_attempt cfg a password) e w' (\<lambda>r w'. case r of
      Inl x \<Rightarrow> Q (Inl x) w' | Inr ok \<Rightarrow> wp (ret (a, ok)) e w' Q)" using assms(1) by simp
next
  fix a :: sign_in_attempt and w' :: world
  assume "w_db w' = w_db w" "w_derivations w' = w_derivations w" "\<not> at_eligible a" "at_hash a = []"
    and no: "\<forall>u row. account e (w_db w) email = Inr u \<longrightarrow> can_sign_in u \<longrightarrow> password_row_of (w_db w) (u_id u) = Some row \<longrightarrow>
        (\<exists>x n. w_tick w \<le> n \<and> pw_expires row = Some x \<and> x \<le> clock e n)"
  moreover have "\<exists>n \<ge> w_tick w. \<not> credentials e cfg n (w_db w) email password u" for u
  proof (cases "credentials e cfg (w_tick w) (w_db w) email password u")
    case True
    then obtain row where "account e (w_db w) email = Inr u" "can_sign_in u" "password_row_of (w_db w) (u_id u) = Some row"
      unfolding credentials_def by blast
    moreover from this no obtain x n where "w_tick w \<le> n" "pw_expires row = Some x" "x \<le> clock e n" by blast
    ultimately show ?thesis by (intro exI [of _ n]) (simp add: credentials_def opens_def)
  qed auto
  ultimately show "case Inr a of Inl x \<Rightarrow> Q (Inl x) w' | Inr a \<Rightarrow> wp (verify_attempt cfg a password) e w' (\<lambda>r w'. case r of
      Inl x \<Rightarrow> Q (Inl x) w' | Inr ok \<Rightarrow> wp (ret (a, ok)) e w' Q)"
    using assms(1,2)
    by (auto simp: verify_attempt_def hasher_verify_def hasher_acquire_def wp_simps lookup_failure_def Let_def refusal_runs_def)
next
  fix u :: user and row :: password_row and n and w' :: world
  assume "w_db w' = w_db w" "w_derivations w' = w_derivations w" "account e (w_db w) email = Inr u" "can_sign_in u"
    "password_row_of (w_db w) (u_id u) = Some row" "w_tick w \<le> n" "case pw_expires row of None \<Rightarrow> True | Some x \<Rightarrow> clock e n < x"
  note facts = this
  have wrong: "\<exists>n \<ge> w_tick w. \<not> credentials e cfg n (w_db w) email password u'"
    if "\<not> verify_password (argon2 e) (if pw_hash row = [] then ac_decoy cfg else pw_hash row) password" for u'
    using that facts(3,5) by (intro exI [of _ "w_tick w"]) (auto simp: credentials_def opens_def)
  have cost: "refusal_runs e cfg email (w_db w) (verify_runs (if pw_hash row = [] then ac_decoy cfg else pw_hash row))"
    using facts(3-5) by (auto simp: refusal_runs_def)
  have right: "credentials e cfg n (w_db w) email password u"
    if "verify_password (argon2 e) (if pw_hash row = [] then ac_decoy cfg else pw_hash row) password"
    using that facts(3-5,7) by (simp add: credentials_def opens_def)
  show "case Inr \<lparr>at_user = u, at_hash = pw_hash row, at_eligible = True\<rparr> of Inl x \<Rightarrow> Q (Inl x) w'
    | Inr a \<Rightarrow> wp (verify_attempt cfg a password) e w' (\<lambda>r w'. case r of
      Inl x \<Rightarrow> Q (Inl x) w' | Inr ok \<Rightarrow> wp (ret (a, ok)) e w' Q)"
    using facts wrong right assms(1)
    by (cases "verify_password (argon2 e) (if pw_hash row = [] then ac_decoy cfg else pw_hash row) password")
      (auto simp: verify_attempt_def hasher_verify_def hasher_acquire_def wp_simps lookup_failure_def Let_def
        verified_runs if_distrib [of verify_runs] simp del: if_split intro!: assms(2) [OF _ _ cost] assms(3) [where n = n])
qed

section \<open>The sign-in as a whole\<close>

lemma wp_resolve_verify:
  "wp (bnd (resolve_attempt email) (\<lambda>a. bnd (verify_attempt cfg a password) (k a))) e w Q
     = wp (tried cfg email password) e w (\<lambda>r w'. case r of Inl x \<Rightarrow> Q (Inl x) w' | Inr (a, ok) \<Rightarrow> wp (k a ok) e w' Q)"
  by (simp add: tried_def wp_def bnd_def ret_def split: prod.splits sum.splits)

text \<open>Nothing but the record of attempts changed.\<close>

definition only_attempts :: "db \<Rightarrow> db \<Rightarrow> bool" where
  "only_attempts d d' \<longleftrightarrow> d' = d\<lparr>t_attempts := t_attempts d'\<rparr>"

text \<open>The session a failed audit leaves open when its deletion fails too.\<close>

definition session_left :: "env \<Rightarrow> auth_config \<Rightarrow> string \<Rightarrow> string \<Rightarrow> db \<Rightarrow> db \<Rightarrow> bool" where
  "session_left e cfg email password d d' \<longleftrightarrow> (\<exists>n k srow u. fault e n \<and> credentials e cfg k d email password u
     \<and> ss_user srow = u_id u \<and> t_sessions d' = t_sessions d @ [srow])"

definition outcome :: "env \<Rightarrow> auth_config \<Rightarrow> string \<Rightarrow> string \<Rightarrow> session_meta \<Rightarrow> world \<Rightarrow> (session \<times> user) result \<Rightarrow> world \<Rightarrow> bool" where
  "outcome e cfg email password meta w r w' \<longleftrightarrow> (case r of
     Inr (s, u) \<Rightarrow> w_derivations w' = w_derivations w + 1
       \<and> (\<exists>n \<ge> w_tick w. credentials e cfg n (w_db w) email password u)
       \<and> attempt_of e email (w_db w') = None
       \<and> (\<exists>as. opened e u ''auth.signin'' meta ((w_db w)\<lparr>t_attempts := as\<rparr>) s (w_db w'))
   | Inl EInvalidCredentials \<Rightarrow> (\<exists>k. w_derivations w' = w_derivations w + k \<and> refusal_runs e cfg email (w_db w) k) \<and> only_attempts (w_db w) (w_db w')
       \<and> (\<forall>u. \<exists>n \<ge> w_tick w. \<not> credentials e cfg n (w_db w) email password u)
   | Inl (ELockedOut u) \<Rightarrow> w_derivations w' = w_derivations w \<and> only_attempts (w_db w) (w_db w')
   | Inl x \<Rightarrow> (x = EConflict \<or> lookup_failure x)
       \<and> (only_attempts (w_db w) (w_db w') \<or> session_left e cfg email password (w_db w) (w_db w')))"

lemma only_attempts_refl [simp]: "only_attempts d d"
  by (simp add: only_attempts_def)

lemma only_attempts_trans [trans]: "only_attempts a b \<Longrightarrow> only_attempts b c \<Longrightarrow> only_attempts a c"
  unfolding only_attempts_def by (cases a, cases b, cases c) simp

lemma only_attempts_same: "only_attempts d d' \<Longrightarrow> credentials e cfg n d' = credentials e cfg n d"
  by (rule ext)+ (cases d, cases d', simp add: only_attempts_def credentials_def account_def password_row_of_def)

lemma only_attempts_runs: "only_attempts d d' \<Longrightarrow> refusal_runs e cfg email d' = refusal_runs e cfg email d"
  by (rule ext)+ (cases d, cases d', simp add: only_attempts_def refusal_runs_def account_def password_row_of_def)

lemma attempt_cleared: "attempt_of e email (d\<lparr>t_attempts := filter (\<lambda>r. la_email r \<noteq> sql_lower e email) as\<rparr>) = None"
  by (auto simp: attempt_of_def find_None_iff)

text \<open>The last steps, once the credentials are known to be right.\<close>

lemma wp_admit:
  assumes "only_attempts (w_db w) (w_db v)" "w_derivations v = w_derivations w + 1" "w_tick w \<le> n"
    and "credentials e cfg n (w_db w) email password u"
  shows "wp (bnd (throttle_reset email) (\<lambda>_. bnd (open_session u ''auth.signin'' meta) (\<lambda>s. ret (s, u)))) e v
           (outcome e cfg email password meta w)"
proof -
  let ?as = "filter (\<lambda>r. la_email r \<noteq> sql_lower e email) (t_attempts (w_db v))"
  have d: "(w_db v)\<lparr>t_attempts := ?as\<rparr> = (w_db w)\<lparr>t_attempts := ?as\<rparr>"
    using assms(1) by (cases "w_db v") (simp add: only_attempts_def)
  have inside: "wp (open_session u ''auth.signin'' meta) e ((tick v)\<lparr>w_db := (w_db v)\<lparr>t_attempts := ?as\<rparr>\<rparr>)
      (\<lambda>r w'. case r of Inl x \<Rightarrow> outcome e cfg email password meta w (Inl x) w'
        | Inr s \<Rightarrow> wp (ret (s, u)) e w' (outcome e cfg email password meta w))"
  proof (rule wp_open_session)
    fix x and w' :: world
    assume h: "not_opened e u (w_db ((tick v)\<lparr>w_db := (w_db v)\<lparr>t_attempts := ?as\<rparr>\<rparr>)) w'" "x \<in> {EFault, EConflict}"
    have "only_attempts (w_db w) (w_db w') \<or> session_left e cfg email password (w_db w) (w_db w')"
    proof (cases "w_db w' = (w_db w)\<lparr>t_attempts := ?as\<rparr>")
      case True
      then show ?thesis by (simp add: only_attempts_def)
    next
      case False
      then obtain srow n' where "fault e n'" "ss_user srow = u_id u" "t_sessions (w_db w') = t_sessions (w_db w) @ [srow]"
        using h(1) d by (auto simp: not_opened_def)
      then show ?thesis using assms(4) unfolding session_left_def by blast
    qed
    then show "case Inl x of Inl x \<Rightarrow> outcome e cfg email password meta w (Inl x) w'
        | Inr s \<Rightarrow> wp (ret (s, u)) e w' (outcome e cfg email password meta w)"
      using h(2) by (auto simp: outcome_def lookup_failure_def)
  next
    fix s :: session and w' :: world
    assume h: "opened e u ''auth.signin'' meta (w_db ((tick v)\<lparr>w_db := (w_db v)\<lparr>t_attempts := ?as\<rparr>\<rparr>)) s (w_db w')"
      "w_derivations w' = w_derivations ((tick v)\<lparr>w_db := (w_db v)\<lparr>t_attempts := ?as\<rparr>\<rparr>)"
    then have o: "opened e u ''auth.signin'' meta ((w_db w)\<lparr>t_attempts := ?as\<rparr>) s (w_db w')" by (simp add: d)
    then have "t_attempts (w_db w') = ?as" by (auto simp: opened_def)
    then have "attempt_of e email (w_db w') = None" by (auto simp: attempt_of_def find_None_iff)
    then show "case Inr s of Inl x \<Rightarrow> outcome e cfg email password meta w (Inl x) w'
        | Inr s \<Rightarrow> wp (ret (s, u)) e w' (outcome e cfg email password meta w)"
      using o h(2) assms(2-4) by (auto simp: outcome_def wp_ret)
  qed
  have "outcome e cfg email password meta w (Inl EFault) (tick v)"
    using assms(1) by (simp add: outcome_def lookup_failure_def)
  then show ?thesis
    using inside by (simp add: throttle_reset_def attempts_clear_def wp_simps)
qed

lemma wp_sign_in: "wp (sign_in cfg email password meta) e w (outcome e cfg email password meta w)"
  unfolding sign_in_def wp_bnd [of "throttle_check cfg email"]
proof (rule wp_throttle_check)
  fix x and w' :: world
  assume "w_db w' = w_db w" "w_derivations w' = w_derivations w" "x = EFault \<or> (\<exists>u. x = ELockedOut u)"
  then show "case Inl x of Inl x \<Rightarrow> outcome e cfg email password meta w (Inl x) w' | Inr _ \<Rightarrow>
    wp (bnd (throttle_charge cfg email) (\<lambda>_. bnd (resolve_attempt email) (\<lambda>a. bnd (verify_attempt cfg a password) (\<lambda>ok.
      if \<not> ok then raise EInvalidCredentials
      else bnd (throttle_reset email) (\<lambda>_. bnd (open_session (at_user a) ''auth.signin'' meta) (\<lambda>s. ret (s, at_user a)))))))
      e w' (outcome e cfg email password meta w)"
    by (auto simp: outcome_def lookup_failure_def)
next
  fix v :: world
  assume v: "w_db v = w_db w" "w_derivations v = w_derivations w" "w_tick w \<le> w_tick v"
  let ?rest = "\<lambda>a ok. if \<not> ok then raise EInvalidCredentials
      else bnd (throttle_reset email) (\<lambda>_. bnd (open_session (at_user a) ''auth.signin'' meta) (\<lambda>s. ret (s, at_user a)))"
  have charged: "wp (bnd (resolve_attempt email) (\<lambda>a. bnd (verify_attempt cfg a password) (?rest a))) e w' (outcome e cfg email password meta w)"
    if t: "w_tick v \<le> w_tick w'" and only: "only_attempts (w_db w) (w_db w')" and same: "w_derivations w' = w_derivations w"
    for w'
    unfolding wp_resolve_verify
  proof (rule wp_tried)
    fix x and w'' :: world
    assume "w_db w'' = w_db w'" "lookup_failure x"
    then show "case Inl x of Inl x \<Rightarrow> outcome e cfg email password meta w (Inl x) w''
      | Inr (a, ok) \<Rightarrow> wp (?rest a ok) e w'' (outcome e cfg email password meta w)"
      using only by (auto simp: outcome_def lookup_failure_def)
  next
    fix a k and w'' :: world
    assume h: "w_db w'' = w_db w'" "w_derivations w'' = w_derivations w' + k"
      "refusal_runs e cfg email (w_db w') k" "\<forall>u. \<exists>n \<ge> w_tick w'. \<not> credentials e cfg n (w_db w') email password u"
    have "\<exists>n \<ge> w_tick w. \<not> credentials e cfg n (w_db w) email password u" for u
      using h(4) t v(3) only_attempts_same [OF only] by (metis order_trans)
    moreover have "refusal_runs e cfg email (w_db w) k" using h(3) only_attempts_runs [OF only] by simp
    ultimately show "case Inr (a, False) of Inl x \<Rightarrow> outcome e cfg email password meta w (Inl x) w''
      | Inr (a, ok) \<Rightarrow> wp (?rest a ok) e w'' (outcome e cfg email password meta w)"
      using h(1,2) only same by (auto simp: wp_simps outcome_def)
  next
    fix a :: sign_in_attempt and n and w'' :: world
    assume h: "w_db w'' = w_db w'" "w_derivations w'' = w_derivations w' + 1" "w_tick w' \<le> n"
      "credentials e cfg n (w_db w') email password (at_user a)"
    then have "wp (?rest a True) e w'' (outcome e cfg email password meta w)"
      using only same t v(3) by (simp only: not_True_eq_False if_False) (rule wp_admit, simp_all add: only_attempts_same)
    then show "case Inr (a, True) of Inl x \<Rightarrow> outcome e cfg email password meta w (Inl x) w''
      | Inr (a, ok) \<Rightarrow> wp (?rest a ok) e w'' (outcome e cfg email password meta w)"
      by simp
  qed
  have "wp (bnd (throttle_charge cfg email) (\<lambda>_. bnd (resolve_attempt email) (\<lambda>a. bnd (verify_attempt cfg a password) (?rest a))))
      e v (outcome e cfg email password meta w)"
    unfolding wp_bnd [of "throttle_charge cfg email"]
  proof (rule wp_throttle_charge)
    fix w' :: world
    assume "w_db w' = w_db v" "w_tick v < w_tick w'"
    then show "case Inl EFault of Inl x \<Rightarrow> outcome e cfg email password meta w (Inl x) w' | Inr _ \<Rightarrow>
      wp (bnd (resolve_attempt email) (\<lambda>a. bnd (verify_attempt cfg a password) (?rest a))) e w' (outcome e cfg email password meta w)"
      using v by (simp add: outcome_def lookup_failure_def)
  next
    fix r :: attempt_row and x :: "unit result" and w' :: world
    assume h: "w_tick v < w_tick w'" "w_db w' = (w_db v)\<lparr>t_attempts := t_attempts (w_db w')\<rparr>" "w_derivations w' = w_derivations v"
      "\<forall>y. x = Inl y \<longrightarrow> (\<exists>u. y = ELockedOut u)"
    have only: "only_attempts (w_db w) (w_db w')" using h(2) v(1) by (simp add: only_attempts_def)
    then show "case x of Inl x \<Rightarrow> outcome e cfg email password meta w (Inl x) w' | Inr _ \<Rightarrow>
      wp (bnd (resolve_attempt email) (\<lambda>a. bnd (verify_attempt cfg a password) (?rest a))) e w' (outcome e cfg email password meta w)"
      using h v(2) charged [of w'] by (cases x) (auto simp: outcome_def)
  qed
  then show "case Inr () of Inl x \<Rightarrow> outcome e cfg email password meta w (Inl x) v | Inr _ \<Rightarrow>
    wp (bnd (throttle_charge cfg email) (\<lambda>_. bnd (resolve_attempt email) (\<lambda>a. bnd (verify_attempt cfg a password) (?rest a))))
      e v (outcome e cfg email password meta w)"
    by simp
qed

text \<open>C26: whom a sign-in lets in. The session it hands out is that of the account behind the address,
  a person not blocked whose password row is not lapsed and matches; it costs one derivation, the
  record of failed attempts is gone, and the session is one new row, audited, of a fresh random
  identifier of which only the hash is stored.\<close>

theorem sign_in_admits:
  assumes "sign_in cfg email password meta e w = (Inr (s, u), w')"
  shows "(\<exists>n \<ge> w_tick w. credentials e cfg n (w_db w) email password u) \<and> w_derivations w' = w_derivations w + 1
    \<and> attempt_of e email (w_db w') = None
    \<and> (\<exists>as. opened e u ''auth.signin'' meta ((w_db w)\<lparr>t_attempts := as\<rparr>) s (w_db w'))"
  using wp_run [OF wp_sign_in assms] by (simp add: outcome_def)

text \<open>The decoy made at the start parses, so that comparing with it costs a derivation.\<close>

lemma decoy_runs:
  assumes "must_decoy_hash e0 w0 = (Inr hash, w1)" "\<And>pw s t m p n. length (argon2 e0 pw s t m p n) = n"
  shows "verify_runs hash = 1"
proof -
  have "wp must_decoy_hash e0 w0 (\<lambda>r w'. \<forall>h. r = Inr h \<longrightarrow> verify_runs h = 1)"
    using decode_hash_password [where idkey = "argon2 e0", OF assms(2)]
    by (simp add: must_decoy_hash_def hash_io_def wp_simps verify_runs_def assms(2) argon_key_len_def split: sum.split)
  from wp_run [OF this assms(1)] show ?thesis by simp
qed

definition stored_unparsable :: "env \<Rightarrow> string \<Rightarrow> db \<Rightarrow> bool" where
  "stored_unparsable e email d \<longleftrightarrow> (\<exists>u row. account e d email = Inr u \<and> can_sign_in u \<and> password_row_of d (u_id u) = Some row
     \<and> pw_hash row \<noteq> [] \<and> verify_runs (pw_hash row) = 0)"

lemma refusal_runs_one:
  assumes "refusal_runs e cfg email d k" "verify_runs (ac_decoy cfg) = 1"
  shows "k = 1 \<or> k = 0 \<and> stored_unparsable e email d"
proof -
  have "verify_runs h = 0 \<or> verify_runs h = 1" for h by (simp add: verify_runs_def split: option.split)
  then show ?thesis using assms unfolding refusal_runs_def stored_unparsable_def by metis
qed

text \<open>C27: what a refused sign-in costs and leaves. An unknown address, a blocked or service account,
  a person without a password, a lapsed temporary password and a wrong password are one answer,
  which costs exactly one derivation, the decoy being the one made at the start, unless the hash
  stored for a person who may sign in does not parse and so costs none; a lockout costs none;
  either way nothing but the record of attempts changes. Any other failure opens no session unless
  both the audit and the deletion of the row failed.\<close>

theorem sign_in_refuses:
  assumes "sign_in cfg email password meta e w = (Inl x, w')"
    and "must_decoy_hash e0 w0 = (Inr (ac_decoy cfg), w1)" and "\<And>pw s t m p n. length (argon2 e0 pw s t m p n) = n"
  shows "case x of
      EInvalidCredentials \<Rightarrow> (w_derivations w' = w_derivations w + 1 \<or> w_derivations w' = w_derivations w \<and> stored_unparsable e email (w_db w))
        \<and> only_attempts (w_db w) (w_db w')
        \<and> (\<forall>u. \<exists>n \<ge> w_tick w. \<not> credentials e cfg n (w_db w) email password u)
    | ELockedOut u \<Rightarrow> w_derivations w' = w_derivations w \<and> only_attempts (w_db w) (w_db w')
    | _ \<Rightarrow> (x = EConflict \<or> lookup_failure x)
        \<and> (only_attempts (w_db w) (w_db w') \<or> session_left e cfg email password (w_db w) (w_db w'))"
proof -
  have "w_derivations w' = w_derivations w + 1 \<or> w_derivations w' = w_derivations w \<and> stored_unparsable e email (w_db w)"
    if "w_derivations w' = w_derivations w + k" "refusal_runs e cfg email (w_db w) k" for k
    using refusal_runs_one [OF that(2) decoy_runs [OF assms(2,3)]] that(1) by auto
  then show ?thesis using wp_run [OF wp_sign_in assms(1)] by (auto simp: outcome_def split: err.splits)
qed

text \<open>The steps of a sign-in, for evaluating it where every call is answered.\<close>

lemmas sign_in_ops = sign_in_def throttle_check_def attempts_failures_def throttle_charge_def attempts_charge_def
  resolve_attempt_def users_by_email_def passwords_get_def verify_attempt_def hasher_verify_def hasher_acquire_def
  throttle_reset_def attempts_clear_def open_session_def new_session_id_def sessions_create_def audit_record_def audit_insert_def
  hash_session_id_def session_event_def attempt_zero_def wp_simps Let_def attempt_of_def account_def password_row_of_def
  credentials_def opens_def user_exists_ids ref_ok_ids null_uuid_def list_ex_key session_id_len_def

lemma account_id: "account e d email = Inr u \<Longrightarrow> u_id u \<in> ids_of d"
  by (auto simp: account_def scan_user_def ids_of_def dest!: find_Some_mem row_user_fields split: option.splits)

lemma sign_in_succeeds:
  assumes "\<forall>n. \<not> fault e n" and "attempt_of e email (w_db w) = None" and "1 \<le> ac_max cfg"
    and "\<forall>raw. length raw = 32 \<longrightarrow> sha256_hex e (b64_encode url_alphabet raw) \<notin> ss_hash ` set (t_sessions (w_db w))"
    and right: "\<forall>n. credentials e cfg n (w_db w) email password u"
  shows "\<exists>s w'. sign_in cfg email password meta e w = (Inr (s, u), w')"
proof -
  obtain row where row: "account e (w_db w) email = Inr u" "can_sign_in u" "password_row_of (w_db w) (u_id u) = Some row"
    "\<And>n. opens e cfg n row password"
    using right unfolding credentials_def by (metis option.inject)
  have "wp (sign_in cfg email password meta) e w (\<lambda>r w'. \<exists>s. r = Inr (s, u))"
    using assms(1-4) row account_id [OF row(1)]
    by (cases "pw_expires row"; cases "pw_hash row = []") (simp_all add: sign_in_ops)
  then show "\<exists>s w'. sign_in cfg email password meta e w = (Inr (s, u), w')" by (auto simp: wp_def split: prod.splits)
qed

lemma sign_in_fails:
  assumes "\<forall>n. \<not> fault e n" and "attempt_of e email (w_db w) = None" and "1 \<le> ac_max cfg"
    and "\<forall>raw. account e (w_db w) email \<noteq> Inl (EMalformedRule raw)"
    and wrong: "\<forall>n u. \<not> credentials e cfg n (w_db w) email password u"
  shows "fst (sign_in cfg email password meta e w) = Inl EInvalidCredentials"
proof -
  have "wp (sign_in cfg email password meta) e w (\<lambda>r w'. r = Inl EInvalidCredentials)"
  proof (cases "account e (w_db w) email")
    case (Inl x)
    then have "x = ENotFound" using assms(4) by (auto simp: account_def dest: scan_user_Inl)
    then show ?thesis using Inl assms(1-3) by (simp add: sign_in_ops)
  next
    case (Inr u)
    show ?thesis
    proof (cases "can_sign_in u \<and> password_row_of (w_db w) (u_id u) \<noteq> None")
      case False
      then show ?thesis using Inr assms(1-3) by (cases "can_sign_in u") (simp_all add: sign_in_ops)
    next
      case True
      then obtain row where row: "password_row_of (w_db w) (u_id u) = Some row" "can_sign_in u" by blast
      then have no: "\<not> opens e cfg n row password" for n using wrong Inr unfolding credentials_def by blast
      show ?thesis
      proof (cases "pw_expires row")
        case None
        then show ?thesis using Inr row assms(1-3) no
          by (cases "pw_hash row = []") (simp_all add: sign_in_ops)
      next
        case (Some x)
        then show ?thesis using Inr row assms(1-3) no [of "Suc (Suc (Suc (Suc (Suc (w_tick w)))))"]
          by (cases "pw_hash row = []"; cases "clock e (Suc (Suc (Suc (Suc (Suc (w_tick w)))))) < x") (simp_all add: sign_in_ops)
      qed
    qed
  qed
  then show "fst (sign_in cfg email password meta e w) = Inl EInvalidCredentials" by (simp add: wp_def split: prod.splits)
qed

text \<open>A sign-in decides by the credentials alone when every call is answered and the address has
  no failures on record: right ones open a session, anything else is the one refusal.\<close>

lemma sign_in_decides:
  assumes "\<forall>n. \<not> fault e n" and "attempt_of e email (w_db w) = None" and "1 \<le> ac_max cfg"
    and "\<forall>raw. length raw = 32 \<longrightarrow> sha256_hex e (b64_encode url_alphabet raw) \<notin> ss_hash ` set (t_sessions (w_db w))"
    and "\<forall>raw. account e (w_db w) email \<noteq> Inl (EMalformedRule raw)"
  shows "((\<forall>n. credentials e cfg n (w_db w) email password u) \<longrightarrow>
        (\<exists>s w'. sign_in cfg email password meta e w = (Inr (s, u), w')))
    \<and> ((\<forall>n u. \<not> credentials e cfg n (w_db w) email password u) \<longrightarrow>
        fst (sign_in cfg email password meta e w) = Inl EInvalidCredentials)"
  using sign_in_succeeds [OF assms(1-4)] sign_in_fails [OF assms(1-3,5)] by blast

section \<open>The life of a session\<close>

text \<open>The row and the owner a session id stands for at a tick of the database's clock.\<close>

definition session_of :: "env \<Rightarrow> db \<Rightarrow> nat \<Rightarrow> string \<Rightarrow> session_row \<Rightarrow> user \<Rightarrow> bool" where
  "session_of e d n i row u \<longleftrightarrow>
     find (\<lambda>r. ss_hash r = sha256_hex e i \<and> db_clock e n < ss_expires r) (t_sessions d) = Some row
     \<and> scan_user (find (\<lambda>r. ur_id r = ss_user row) (t_users d)) = Inr u \<and> can_sign_in u"

lemma wp_resolve_session:
  "wp (resolve_session i) e w (\<lambda>r w'. w_db w' = w_db w \<and> (case r of
      Inr (s, u) \<Rightarrow> \<exists>row. session_of e (w_db w) (w_tick w) i row u \<and> s = (row_session row)\<lparr>se_restricted := u_must_change u\<rparr>
    | Inl x \<Rightarrow> x = ENotFound \<or> lookup_failure x))"
  by (auto simp: resolve_session_def sessions_by_hash_def users_by_id_def hash_session_id_def wp_simps session_of_def
      lookup_failure_def row_session_def split: option.splits sum.splits dest: scan_user_Inl)

lemma resolve_session_works:
  assumes "session_of e (w_db w) (w_tick w) i row u" "\<forall>n. \<not> fault e n"
  shows "fst (resolve_session i e w) = Inr ((row_session row)\<lparr>se_restricted := u_must_change u\<rparr>, u)"
proof -
  have "wp (resolve_session i) e w (\<lambda>r w'. r = Inr ((row_session row)\<lparr>se_restricted := u_must_change u\<rparr>, u))"
    using assms by (simp add: resolve_session_def sessions_by_hash_def users_by_id_def hash_session_id_def wp_simps
        session_of_def row_session_def)
  then show ?thesis by (simp add: wp_def split: prod.splits)
qed

text \<open>Resolving a session id. The owner and the session come back exactly when the store has a row
  under the hash of the id that the database's clock finds unexpired and the owner may sign in;
  the restriction is the owner's flag as it stands now, and nothing is written.\<close>

lemma resolve_session_spec:
  assumes "resolve_session i e w = (r, w')"
  shows "w_db w' = w_db w
    \<and> (case r of
        Inr (s, u) \<Rightarrow> \<exists>row. session_of e (w_db w) (w_tick w) i row u \<and> s = (row_session row)\<lparr>se_restricted := u_must_change u\<rparr>
      | Inl x \<Rightarrow> (x = ENotFound \<or> lookup_failure x)
          \<and> ((\<forall>n. \<not> fault e n) \<longrightarrow> (\<nexists>row u. session_of e (w_db w) (w_tick w) i row u)))"
proof -
  have "w_db w' = w_db w \<and> (case r of
      Inr (s, u) \<Rightarrow> \<exists>row. session_of e (w_db w) (w_tick w) i row u \<and> s = (row_session row)\<lparr>se_restricted := u_must_change u\<rparr>
    | Inl x \<Rightarrow> x = ENotFound \<or> lookup_failure x)"
    using wp_run [OF wp_resolve_session assms] .
  then show ?thesis using resolve_session_works [of e w i] assms by (fastforce split: sum.splits)
qed

text \<open>A session just opened is the one its id resolves to for as long as the database's clock is before its end.\<close>

lemma opened_session_of:
  assumes "opened e u action meta d s d'" and "scan_user (find (\<lambda>r. ur_id r = u_id u) (t_users d)) = Inr u"
    and "can_sign_in u" and "db_clock e n < se_expires s"
  shows "\<exists>srow. session_of e d' n (se_id s) srow u \<and> row_session srow = s\<lparr>se_id := []\<rparr>"
proof -
  obtain arow srow where d': "d' = d\<lparr>t_sessions := t_sessions d @ [srow], t_audit := t_audit d @ [arow]\<rparr>"
    and row: "row_session srow = s\<lparr>se_id := []\<rparr>"
    using assms(1) unfolding opened_def by auto
  have new: "se_hash s \<notin> ss_hash ` set (t_sessions d)" and h: "se_hash s = sha256_hex e (se_id s)" and su: "se_user s = u_id u"
    using assms(1) unfolding opened_def by blast+
  have srow: "ss_hash srow = se_hash s" "ss_user srow = u_id u" "ss_expires srow = se_expires s"
    using su arg_cong [OF row, where f = se_hash] arg_cong [OF row, where f = se_user] arg_cong [OF row, where f = se_expires]
    by (simp_all add: row_session_def)
  have "find (\<lambda>r. ss_hash r = sha256_hex e (se_id s) \<and> db_clock e n < ss_expires r) (t_sessions d') = Some srow"
    using new srow h assms(4) by (auto simp: d' image_iff intro!: find_append_new)
  then have "session_of e d' n (se_id s) srow u"
    using assms(2,3) by (simp add: session_of_def srow d')
  then show ?thesis using row by blast
qed

text \<open>Once it was signed out no id of its hash resolves any more, while every other session stands.\<close>

lemma signed_out:
  assumes "sign_out s e v = (Inr (), v')"
  shows "t_sessions (w_db v') = filter (\<lambda>r. ss_hash r \<noteq> se_hash s) (t_sessions (w_db v))"
    and "sha256_hex e i = se_hash s \<Longrightarrow> \<not> session_of e (w_db v') n i row u"
proof -
  have "wp (sign_out s) e v (\<lambda>r v'. r = Inr () \<longrightarrow>
      t_sessions (w_db v') = filter (\<lambda>r. ss_hash r \<noteq> se_hash s) (t_sessions (w_db v)))"
    by (auto simp: sign_out_def wp_simps wp_sessions_delete intro!: wp_audit_record)
  then show gone: "t_sessions (w_db v') = filter (\<lambda>r. ss_hash r \<noteq> se_hash s) (t_sessions (w_db v))"
    using assms by (auto dest: wp_run)
  show "sha256_hex e i = se_hash s \<Longrightarrow> \<not> session_of e (w_db v') n i row u"
    by (auto simp: session_of_def gone dest!: find_Some_mem)
qed

section \<open>Changing the password\<close>

text \<open>What a changed password leaves: one row in the password table that the new password verifies
  against, without expiry; the flag cleared; of the user's sessions only the one it was asked in.\<close>

definition password_changed :: "env \<Rightarrow> session \<Rightarrow> string \<Rightarrow> db \<Rightarrow> db \<Rightarrow> bool" where
  "password_changed e s plain d d' \<longleftrightarrow>
     (\<exists>h row. password_row_of d' (se_user s) = Some \<lparr>pw_user = se_user s, pw_hash = h, pw_expires = None\<rparr>
        \<and> (\<exists>salt. length salt = argon_salt_len \<and> hash_password (argon2 e) (Some salt) plain = Inr h)
        \<and> t_audit d' = t_audit d @ [row] \<and> ar_action row = ''auth.password_changed'')
     \<and> t_sessions d' = filter (\<lambda>r. \<not> (ss_user r = se_user s \<and> ss_hash r \<noteq> se_hash s)) (t_sessions d)
     \<and> t_users d' = map (\<lambda>r. if ur_id r = se_user s then r\<lparr>ur_must_change := False\<rparr> else r) (t_users d)
     \<and> (\<forall>i. i \<noteq> se_user s \<longrightarrow> password_row_of d' i = password_row_of d i)"

lemma password_row_of_upsert:
  "password_upsert i h x e t d = Inr (a, d') \<Longrightarrow>
     password_row_of d' j = (if j = i then Some \<lparr>pw_user = i, pw_hash = h, pw_expires = x\<rparr> else password_row_of d j)
     \<and> d' = d\<lparr>t_passwords := t_passwords d'\<rparr>"
proof -
  assume up: "password_upsert i h x e t d = Inr (a, d')"
  have mapped: "find (\<lambda>r. pw_user r = j) (map (\<lambda>r. if pw_user r = i then r\<lparr>pw_hash := h, pw_expires := x\<rparr> else r) ps)
    = (if j = i then map_option (\<lambda>r. r\<lparr>pw_hash := h, pw_expires := x\<rparr>) (find (\<lambda>r. pw_user r = i) ps)
       else find (\<lambda>r. pw_user r = j) ps)" for ps
    by (induction ps) auto
  have set_row: "r\<lparr>pw_hash := h, pw_expires := x\<rparr> = \<lparr>pw_user = i, pw_hash = h, pw_expires = x\<rparr>" if "pw_user r = i" for r :: password_row
    using that by (cases r) simp
  show ?thesis
  proof (cases "find (\<lambda>r. pw_user r = i) (t_passwords d)")
    case None
    moreover have "find (\<lambda>r. pw_user r = j) (ps @ [y]) = (case find (\<lambda>r. pw_user r = j) ps of None \<Rightarrow>
        if pw_user y = j then Some y else None | Some z \<Rightarrow> Some z)" for ps and y :: password_row
      by (induction ps) auto
    moreover have "\<not> list_ex (\<lambda>r. pw_user r = i) (t_passwords d)"
      using None by (auto simp: list_ex_iff find_None_not)
    ultimately show ?thesis
      using up None by (cases "j = i") (auto simp: password_upsert_def password_row_of_def split: if_splits option.splits)
  next
    case (Some r)
    then have "list_ex (\<lambda>r. pw_user r = i) (t_passwords d)" "pw_user r = i"
      by (auto simp: list_ex_iff dest!: find_Some_mem)
    then have "d' = d\<lparr>t_passwords := map (\<lambda>r. if pw_user r = i then r\<lparr>pw_hash := h, pw_expires := x\<rparr> else r) (t_passwords d)\<rparr>"
      using up by (simp add: password_upsert_def)
    then show ?thesis using Some set_row [OF \<open>pw_user r = i\<close>] by (simp add: password_row_of_def mapped)
  qed
qed

lemma wp_passwords_set:
  assumes "\<And>x. Q (Inl x) (tick w)"
    and "\<And>d. (\<forall>j. password_row_of d j = (if j = i then Some \<lparr>pw_user = i, pw_hash = h, pw_expires = x\<rparr>
          else password_row_of (w_db w) j)) \<Longrightarrow> d = (w_db w)\<lparr>t_passwords := t_passwords d\<rparr> \<Longrightarrow>
      Q (Inr ()) ((tick w)\<lparr>w_db := d\<rparr>)"
  shows "wp (passwords_set i h x) e w Q"
proof -
  have "Q (Inr ()) ((tick w)\<lparr>w_db := d\<rparr>)" if "password_upsert i h x e (w_tick w) (w_db w) = Inr ((), d)" for d
    using password_row_of_upsert [OF that] by (intro assms(2)) auto
  then show ?thesis
    using assms(1) by (auto simp: passwords_set_def wp_exec split: sum.splits)
qed

lemma wp_hasher_hash:
  assumes "\<And>x w'. w_db w' = w_db w \<Longrightarrow> Q (Inl x) w'"
    and "\<And>h salt w'. w_db w' = w_db w \<Longrightarrow> length salt = argon_salt_len \<Longrightarrow>
      hash_password (argon2 e) (Some salt) plain = Inr h \<Longrightarrow> Q (Inr h) w'"
  shows "wp (hasher_hash plain) e w Q"
  using assms
  by (cases "hash_password (argon2 e) (Some (map (random e (Suc (w_tick w))) [0..<argon_salt_len])) plain")
    (auto simp: hasher_hash_def hasher_acquire_def hash_io_def wp_simps
      intro: assms(2) [where salt = "map (random e (Suc (w_tick w))) [0..<argon_salt_len]"])

lemma wp_set_must_change:
  assumes "\<And>x. Q (Inl x) (tick w)"
    and "Q (Inr ()) ((tick w)\<lparr>w_db := map_user i (\<lambda>r. r\<lparr>ur_must_change := b\<rparr>) (w_db w)\<rparr>)"
  shows "wp (users_set_must_change i b) e w Q"
  using assms by (simp add: users_set_must_change_def update_user_def wp_simps)

definition replace_password :: "session \<Rightarrow> user \<Rightarrow> string \<Rightarrow> unit io" where
  "replace_password s u new_plain =
     bnd (lift (check_new_password new_plain)) (\<lambda>_.
     bnd (hasher_hash new_plain) (\<lambda>hash.
     bnd (passwords_set (u_id u) hash None) (\<lambda>_.
     bnd (users_set_must_change (u_id u) False) (\<lambda>_.
     bnd (sessions_delete_by_user_except (u_id u) (se_hash s)) (\<lambda>_.
     bnd now_io (\<lambda>now.
     bnd (asks (\<lambda>e. own_event e s (u_id u) ''auth.password_changed'' now)) audit_record))))))"

lemma password_changedI:
  assumes "\<forall>j. password_row_of d1 j = (if j = se_user s then Some \<lparr>pw_user = se_user s, pw_hash = h, pw_expires = None\<rparr>
      else password_row_of d j)" "d1 = d\<lparr>t_passwords := t_passwords d1\<rparr>"
    "audit_of (own_event e s (se_user s) ''auth.password_changed'' now) row"
    "length salt = argon_salt_len" "hash_password (argon2 e) (Some salt) new = Inr h"
  shows "password_changed e s new d
      ((map_user (se_user s) (\<lambda>r. r\<lparr>ur_must_change := False\<rparr>) d1)
         \<lparr>t_sessions := filter (\<lambda>r. ss_user r = se_user s \<longrightarrow> ss_hash r = se_hash s) (t_sessions d1),
          t_audit := t_audit d1 @ [row]\<rparr>)"
proof -
  have "t_sessions d1 = t_sessions d \<and> t_audit d1 = t_audit d \<and> t_users d1 = t_users d"
    using assms(2) by (cases d, cases d1) simp
  then show ?thesis
    using assms unfolding password_changed_def by (auto simp: map_user_def audit_of_def own_event_def password_row_of_def)
qed

lemma change_password_eq:
  "change_password s current_plain new_plain =
     bnd (users_by_id (se_user s)) (\<lambda>u.
     if \<not> can_sign_in u then raise EForbidden
     else
       bnd (passwords_get (u_id u)) (\<lambda>(current, expires).
       bnd (case expires of None \<Rightarrow> ret False | Some x \<Rightarrow> bnd now_io (\<lambda>now. ret (\<not> now < x))) (\<lambda>lapsed.
       if lapsed then raise EInvalidCredentials
       else
         bnd (if u_must_change u then ret True else hasher_verify current current_plain) (\<lambda>ok.
         if \<not> ok then raise EInvalidCredentials else replace_password s u new_plain))))"
  unfolding change_password_def replace_password_def by (rule refl)

lemma wp_replace_password:
  assumes "d = w_db v" "u_id u = se_user s"
  shows "wp (replace_password s u new) e v (\<lambda>r w'. r = Inr () \<longrightarrow>
     check_new_password new = Inr () \<and> password_changed e s new d (w_db w'))"
proof (cases "check_new_password new")
  case (Inl x)
  then show ?thesis by (simp add: replace_password_def wp_simps)
next
  case (Inr _)
  show ?thesis
    unfolding replace_password_def wp_bnd [of "lift _"] wp_lift Inr sum.case wp_bnd [of "hasher_hash new"]
    unfolding assms(2)
    by (auto simp: wp_simps sessions_delete_by_user_except_def intro!: wp_hasher_hash wp_passwords_set wp_set_must_change
        wp_audit_record simp flip: assms(1))
      (rule password_changedI, assumption+)
qed

lemma wp_change_password:
  "wp (change_password s cur new) e w (\<lambda>r w'. r = Inr () \<longrightarrow>
     check_new_password new = Inr () \<and> password_changed e s new (w_db w) (w_db w')
     \<and> (\<exists>u row n. scan_user (find (\<lambda>r. ur_id r = se_user s) (t_users (w_db w))) = Inr u \<and> can_sign_in u
         \<and> password_row_of (w_db w) (se_user s) = Some row
         \<and> (case pw_expires row of None \<Rightarrow> True | Some x \<Rightarrow> clock e n < x)
         \<and> (u_must_change u \<or> verify_password (argon2 e) (pw_hash row) cur)))" (is "wp _ e w ?Q")
proof (cases "scan_user (find (\<lambda>r. ur_id r = se_user s) (t_users (w_db w)))")
  case (Inl x)
  then show ?thesis by (simp add: change_password_def users_by_id_def wp_simps)
next
  case (Inr u)
  then have id: "u_id u = se_user s"
    by (auto simp: scan_user_def dest!: find_Some_mem row_user_fields split: option.splits)
  show ?thesis
  proof (cases "password_row_of (w_db w) (se_user s)")
    case None
    then show ?thesis using Inr id
      by (auto simp: change_password_eq users_by_id_def passwords_get_def password_row_of_def wp_simps)
  next
    case (Some row)
    show ?thesis
    proof (cases "pw_expires row")
      case None
      then show ?thesis using Inr Some id
        by (auto simp: change_password_eq users_by_id_def passwords_get_def password_row_of_def hasher_verify_def
            hasher_acquire_def wp_simps intro!: wp_mono [OF wp_replace_password [OF refl]])
    next
      case expires: (Some x)
      then show ?thesis using Inr Some id
        by (auto simp: change_password_eq users_by_id_def passwords_get_def password_row_of_def hasher_verify_def
            hasher_acquire_def wp_simps intro!: wp_mono [OF wp_replace_password [OF refl]])
    qed
  qed
qed

text \<open>A change of the password that reports success. The session's owner may sign in, the password
  on file had not lapsed and, unless it was a temporary one the owner must replace, the current
  one was given; the new one has at least twelve characters, verifies against the row now on file,
  which has no expiry, and of the owner's sessions only the one it was changed in stands.\<close>

lemma change_password_effect:
  assumes "change_password s cur new e w = (Inr (), w')" and "\<And>pw salt t m p n. length (argon2 e pw salt t m p n) = n"
  shows "password_changed e s new (w_db w) (w_db w')
    \<and> (\<exists>h. password_row_of (w_db w') (se_user s) = Some \<lparr>pw_user = se_user s, pw_hash = h, pw_expires = None\<rparr>
         \<and> verify_password (argon2 e) h new)
    \<and> 12 \<le> rune_count new
    \<and> (\<exists>u row n. scan_user (find (\<lambda>r. ur_id r = se_user s) (t_users (w_db w))) = Inr u \<and> can_sign_in u
         \<and> password_row_of (w_db w) (se_user s) = Some row
         \<and> (case pw_expires row of None \<Rightarrow> True | Some x \<Rightarrow> clock e n < x)
         \<and> (u_must_change u \<or> verify_password (argon2 e) (pw_hash row) cur))"
  using wp_run [OF wp_change_password assms(1)] hash_verifies [OF assms(2)]
  by (fastforce simp: password_changed_def check_new_password_def min_password_length_def split: if_splits)

section \<open>Witnesses\<close>

definition example_cfg :: auth_config where
  "example_cfg = \<lparr>ac_max = 5, ac_lock = 15 * ns_minute, ac_decoy = ''$argon2id$v=19$m=8,t=1,p=1$cw$ZA''\<rparr>"

definition example_meta :: session_meta where
  "example_meta = \<lparr>sm_ip = ''10.0.0.9'', sm_agent = ''curl''\<rparr>"

abbreviation ada :: user where
  "ada \<equiv> example_user 2 kind_human ''ada@example.org'' role_user"

lemma example_account: "account example_env example_db ''ada@example.org'' = Inr ada"
proof -
  have "to_lower ''ada@example.org'' = ''ada@example.org''" "to_lower ''root@example.org'' = ''root@example.org''" by code_simp+
  then have "find (\<lambda>r. lower_email example_env r = Some (sql_lower example_env ''ada@example.org'')) (t_users example_db)
      = find (\<lambda>r. ur_id r = 2) (t_users example_db)"
    by (simp add: example_db_def example_row_def lower_email_def example_env_def)
  then show ?thesis using example_users by (simp add: account_def)
qed

lemma example_password: "password_row_of example_db 2 = Some \<lparr>pw_user = 2, pw_hash = example_hash, pw_expires = None\<rparr>"
  by (simp add: password_row_of_def example_db_def)

lemma example_credentials: "credentials example_env example_cfg n example_db ''ada@example.org'' ''correct horse'' ada"
proof -
  have "verify_password (argon2 example_env) example_hash ''correct horse''" "example_hash \<noteq> []" by code_simp+
  then show ?thesis
    by (simp add: credentials_def example_account can_sign_in_def example_user_def example_password opens_def)
qed

lemma example_wrong: "\<not> credentials example_env cfg n example_db ''ada@example.org'' ''guess'' u"
proof -
  have "\<not> verify_password (argon2 example_env) example_hash ''guess''" "example_hash \<noteq> []" by code_simp+
  then show ?thesis
    by (auto simp: credentials_def example_account example_user_def example_password opens_def)
qed

lemma example_fresh_session:
  "\<forall>raw. length raw = 32 \<longrightarrow> sha256_hex example_env (b64_encode url_alphabet raw) \<notin> ss_hash ` set (t_sessions example_db)"
proof (intro allI impI)
  fix raw :: string
  assume "length raw = 32"
  then have "length (b64_encode url_alphabet raw) = 43" by (simp add: b64_encode_length)
  then have "b64_encode url_alphabet raw \<noteq> ''cookie''" by auto
  then show "sha256_hex example_env (b64_encode url_alphabet raw) \<notin> ss_hash ` set (t_sessions example_db)"
    by (auto simp: example_env_def example_db_def example_session_def)
qed

lemma example_no_attempts: "attempt_of example_env email example_db = None"
  by (simp add: attempt_of_def example_db_def)

lemma example_sign_in:
  obtains s w' where "sign_in example_cfg ''ada@example.org'' ''correct horse'' example_meta example_env example_world = (Inr (s, ada), w')"
  using sign_in_succeeds [of example_env "''ada@example.org''" example_world example_cfg "''correct horse''" ada example_meta]
    example_credentials example_fresh_session example_no_attempts
  by (auto simp: example_world_def example_cfg_def) (auto simp: example_env_def)

theorem sign_in_admits_witness:
  "\<exists>s w'. sign_in example_cfg ''ada@example.org'' ''correct horse'' example_meta example_env example_world = (Inr (s, ada), w')
    \<and> w_derivations w' = 1 \<and> attempt_of example_env ''ada@example.org'' (w_db w') = None
    \<and> (\<exists>as. opened example_env ada ''auth.signin'' example_meta (example_db\<lparr>t_attempts := as\<rparr>) s (w_db w'))"
proof -
  obtain s w' where run: "sign_in example_cfg ''ada@example.org'' ''correct horse'' example_meta example_env example_world = (Inr (s, ada), w')"
    by (rule example_sign_in)
  show ?thesis using sign_in_admits [OF run] run by (auto simp: example_world_def)
qed

text \<open>An environment whose derivation has the length asked for.\<close>

definition argon_env :: env where
  "argon_env = example_env\<lparr>argon2 := example_argon\<rparr>"

lemma example_decoy: "\<exists>h w1. must_decoy_hash argon_env example_world = (Inr h, w1)"
proof -
  have "\<not> isl (fst (must_decoy_hash argon_env example_world))" by code_simp
  then show ?thesis by (metis prod.collapse isl_def sum.exhaust)
qed

theorem sign_in_refuses_witness:
  "\<exists>h w'. sign_in (example_cfg\<lparr>ac_decoy := h\<rparr>) ''ada@example.org'' ''guess'' example_meta example_env example_world = (Inl EInvalidCredentials, w')
    \<and> w_derivations w' = 1 \<and> only_attempts example_db (w_db w')"
proof -
  obtain h w1 where decoy: "must_decoy_hash argon_env example_world = (Inr h, w1)" using example_decoy by blast
  let ?cfg = "example_cfg\<lparr>ac_decoy := h\<rparr>"
  have "fst (sign_in ?cfg ''ada@example.org'' ''guess'' example_meta example_env example_world) = Inl EInvalidCredentials"
    using example_wrong sign_in_fails [of example_env "''ada@example.org''" example_world ?cfg "''guess''" example_meta]
      example_account example_no_attempts
    by (auto simp: example_world_def example_cfg_def) (auto simp: example_env_def)
  then obtain w' where run: "sign_in ?cfg ''ada@example.org'' ''guess'' example_meta example_env example_world = (Inl EInvalidCredentials, w')"
    by (metis prod.collapse)
  have "verify_runs example_hash = 1" by code_simp
  then have "\<not> stored_unparsable example_env ''ada@example.org'' example_db"
    by (simp add: stored_unparsable_def example_account example_user_def example_password)
  moreover have "length (argon2 argon_env pw salt t m p n) = n" for pw salt t m p n by (simp add: argon_env_def example_argon_def)
  moreover have "must_decoy_hash argon_env example_world = (Inr (ac_decoy ?cfg), w1)" using decoy by simp
  ultimately show ?thesis using sign_in_refuses [OF run, of argon_env example_world w1] run by (auto simp: example_world_def)
qed

lemma example_session_of: "session_of example_env example_db 0 ''cookie'' example_session ada"
proof -
  have "ss_user example_session = 2" by (simp add: example_session_def)
  moreover have "find (\<lambda>r. ss_hash r = sha256_hex example_env ''cookie'' \<and> db_clock example_env 0 < ss_expires r)
      (t_sessions example_db) = Some example_session"
    by (simp add: example_db_def example_env_def example_session_def)
  moreover have "can_sign_in ada" by (simp add: can_sign_in_def example_user_def)
  ultimately show ?thesis using example_users by (simp add: session_of_def)
qed

text \<open>A person who signed in under a temporary password chooses their own.\<close>

definition temporary_world :: world where
  "temporary_world = example_world\<lparr>w_db := map_user 2 (\<lambda>r. r\<lparr>ur_must_change := True\<rparr>) example_db\<rparr>"

lemma example_change:
  "\<exists>w'. change_password (row_session example_session) [] ''correct horse battery'' argon_env temporary_world = (Inr (), w')"
proof -
  have users: "find (\<lambda>r. ur_id r = 2) (t_users (map_user 2 (\<lambda>r. r\<lparr>ur_must_change := True\<rparr>) example_db))
      = Some ((example_row 2 kind_human (Some ''ada@example.org'') role_user)\<lparr>ur_must_change := True\<rparr>)"
    by (simp add: map_user_def example_db_def example_row_def)
  have "row_user ((example_row 2 kind_human (Some ''ada@example.org'') role_user)\<lparr>ur_must_change := True\<rparr>)
      = Inr (ada\<lparr>u_must_change := True\<rparr>)"
    using example_users
    by (simp add: scan_user_def row_user_def example_row_def example_user_def example_db_def split: sum.splits)
  moreover have "can_sign_in (ada\<lparr>u_must_change := True\<rparr>)" by (simp add: can_sign_in_def example_user_def)
  moreover have "check_new_password ''correct horse battery'' = Inr ()" by code_simp
  moreover have "passwords_get 2 = query (\<lambda>e t d. case password_row_of d 2 of None \<Rightarrow> Inl ENotFound
      | Some r \<Rightarrow> Inr (pw_hash r, pw_expires r))"
    by (simp add: passwords_get_def password_row_of_def)
  moreover have "password_row_of (map_user 2 (\<lambda>r. r\<lparr>ur_must_change := True\<rparr>) example_db) 2
      = Some \<lparr>pw_user = 2, pw_hash = example_hash, pw_expires = None\<rparr>"
    using example_password by (simp add: password_row_of_def)
  moreover have "list_ex (\<lambda>r. pw_user r = 2) (t_passwords example_db)" "\<And>P x. user_exists 2 (example_db\<lparr>t_passwords := x\<rparr>)"
    "2 \<in> ids_of example_db"
    by (simp_all add: example_db_def user_exists_ids ids_of_def example_row_def)
  moreover have "se_user (row_session example_session) = 2" "u_id ada = 2"
    by (simp_all add: example_session_def row_session_def example_user_def)
  ultimately have "wp (change_password (row_session example_session) [] ''correct horse battery'') argon_env temporary_world
      (\<lambda>r w'. r = Inr ())"
    by (simp add: change_password_eq replace_password_def users_by_id_def scan_user_def users hasher_hash_def hasher_acquire_def
        hash_io_def hash_password_def passwords_set_def password_upsert_def users_set_must_change_def update_user_def
        sessions_delete_by_user_except_def audit_record_def audit_insert_def own_event_def wp_simps Let_def temporary_world_def
        argon_env_def user_exists_ids ref_ok_ids null_uuid_def uuid_nil_def ids_of_map) (simp add: example_env_def example_world_def)
  then show ?thesis by (auto simp: wp_def split: prod.splits)
qed

end
