(* ===== verification/Admin.thy ===== *)
theory Admin
  imports SignIn
begin

text \<open>
  \<open>internal/app/adminusers\<close>: the administrator's view of accounts, with the temporary passwords
  of \<open>internal/app/temporary_password.go\<close> and \<open>bootstrap.go\<close> and the history of an account
  (\<open>internal/infra/postgres/activity\<close>). The model catalogue is an argument of what reads it.
\<close>

section \<open>Instants as text\<close>

text \<open>\<open>time.RFC3339\<close> of an instant in UTC: the civil date of the days since 1970, then the time of day.\<close>

definition civil :: "int \<Rightarrow> int \<times> int \<times> int" where
  "civil days =
     (let z = days + 719468; era = z div 146097; doe = z mod 146097;
          yoe = (doe - doe div 1460 + doe div 36524 - doe div 146096) div 365;
          doy = doe - (365 * yoe + yoe div 4 - yoe div 100); mp = (5 * doy + 2) div 153;
          d = doy - (153 * mp + 2) div 5 + 1; m = (if mp < 10 then mp + 3 else mp - 9) in
      (yoe + era * 400 + (if m \<le> 2 then 1 else 0), m, d))"

definition pad :: "nat \<Rightarrow> int \<Rightarrow> string" where
  "pad n x = (let ds = nat_digits (nat \<bar>x\<bar>) in (if x < 0 then ''-'' else []) @ replicate (n - length ds) CHR ''0'' @ ds)"

definition rfc3339 :: "instant \<Rightarrow> string" where
  "rfc3339 t =
     (let secs = t div ns_second; (y, m, d) = civil (secs div 86400); s = secs mod 86400 in
      pad 4 y @ ''-'' @ pad 2 m @ ''-'' @ pad 2 d @ ''T'' @ pad 2 (s div 3600) @ '':'' @ pad 2 (s div 60 mod 60) @ '':''
        @ pad 2 (s mod 60) @ ''Z'')"

section \<open>Temporary passwords\<close>

definition temporary_ttl :: duration where "temporary_ttl = 72 * ns_hour"
definition temporary_len :: nat where "temporary_len = 24"

record temporary_password =
  tp_password :: string
  tp_expires :: instant

definition new_temporary_password :: "string io" where
  "new_temporary_password = bnd (random_io temporary_len) (\<lambda>buf. ret (b64_encode url_alphabet buf))"

definition draw_temporary_password :: "instant \<Rightarrow> (temporary_password \<times> string) io" where
  "draw_temporary_password now =
     bnd new_temporary_password (\<lambda>secret.
     bnd (hasher_hash secret) (\<lambda>hash.
     ret (\<lparr>tp_password = secret, tp_expires = now + temporary_ttl\<rparr>, hash)))"

definition reset_password :: "uuid \<Rightarrow> instant \<Rightarrow> temporary_password io" where
  "reset_password i now =
     bnd (draw_temporary_password now) (\<lambda>(temp, hash).
     bnd (users_set_must_change i True) (\<lambda>_.
     bnd (passwords_set i hash (Some (tp_expires temp))) (\<lambda>_.
     bnd (sessions_delete_by_user i) (\<lambda>_.
     ret temp))))"

section \<open>Administration\<close>

definition invitation_ttl :: duration where "invitation_ttl = 72 * ns_hour"
definition default_activity_limit :: int where "default_activity_limit = 50"
definition max_activity_limit :: int where "max_activity_limit = 200"

record admin_config =
  ad_issuer :: string
  ad_mapping :: bool

definition list_users :: "user \<Rightarrow> user_view list io" where
  "list_users actor = bnd (lift (require_admin actor)) (\<lambda>_. users_list)"

definition get_user :: "user \<Rightarrow> uuid \<Rightarrow> user_view io" where
  "get_user actor i = bnd (lift (require_admin actor)) (\<lambda>_. users_view i)"

fun parse_policy :: "string list \<Rightarrow> policy result" where
  "parse_policy [] = Inr []"
| "parse_policy (raw # rules) =
     (case parse_rule raw of
        Inl _ \<Rightarrow> Inl (EInvalidRule raw)
      | Inr r \<Rightarrow> (case parse_policy rules of Inl x \<Rightarrow> Inl x | Inr p \<Rightarrow> Inr (r # p)))"

definition rule_strings :: "policy \<Rightarrow> string list" where
  "rule_strings p = map rule_string p"

definition valid_role :: "string \<Rightarrow> bool" where
  "valid_role r \<longleftrightarrow> r = role_user \<or> r = role_admin"

text \<open>An audit record of an administrator's change, or of an operator's with \<open>uuid_nil\<close> as actor.\<close>

definition change_event :: "env \<Rightarrow> uuid \<Rightarrow> string \<Rightarrow> uuid \<Rightarrow> instant \<Rightarrow> (string \<times> json) list \<Rightarrow> audit_event" where
  "change_event e actor action target when' detail =
     \<lparr>ae_at = when', ae_actor = actor, ae_action = action, ae_target = uuid_str (ids e) target, ae_detail = detail,
       ae_ip = [], ae_agent = []\<rparr>"

definition record_change :: "uuid \<Rightarrow> string \<Rightarrow> uuid \<Rightarrow> instant \<Rightarrow> (string \<times> json) list \<Rightarrow> unit io" where
  "record_change actor action target when' detail =
     bnd (asks (\<lambda>e. change_event e actor action target when' detail)) audit_record"

section \<open>Creating accounts\<close>

record new_user =
  nu_kind :: string
  nu_email :: string
  nu_name :: string
  nu_role :: string
  nu_policy :: "string list"
  nu_sign_in :: string

definition sign_in_password :: string where "sign_in_password = ''password''"
definition sign_in_oidc :: string where "sign_in_oidc = ''oidc''"

record created_user =
  cu_user :: user_view
  cu_temporary :: "temporary_password option"

definition audit_zero :: audit_event where
  "audit_zero = \<lparr>ae_at = zero_time, ae_actor = uuid_nil, ae_action = [], ae_target = [], ae_detail = [], ae_ip = [], ae_agent = []\<rparr>"

definition new_service_account ::
  "new_user \<Rightarrow> string \<Rightarrow> string \<Rightarrow> policy \<Rightarrow> instant \<Rightarrow> (new_account \<times> created_user) io" where
  "new_service_account inp nam role policy now =
     (if nu_email inp \<noteq> [] then raise (EInvalidInput ''email'')
      else if role \<noteq> role_user then raise (EInvalidInput ''role'')
      else
        bnd fresh_io (\<lambda>i.
        bnd now_io (\<lambda>created.
        let u = (new_service created i nam policy)\<lparr>u_created := now\<rparr> in
        ret (\<lparr>na_user = u, na_password = None, na_invitation = None, na_audit = audit_zero\<rparr>,
             \<lparr>cu_user = \<lparr>uv_user = u, uv_sign_in = [], uv_invitation = None\<rparr>, cu_temporary = None\<rparr>))))"

definition human_user :: "uuid \<Rightarrow> string \<Rightarrow> string \<Rightarrow> string \<Rightarrow> policy \<Rightarrow> instant \<Rightarrow> user" where
  "human_user i email nam role policy now =
     user_zero\<lparr>u_id := i, u_kind := kind_human, u_email := email, u_name := nam, u_role := role,
       u_status := status_active, u_policy := policy, u_source := policy_local, u_created := now\<rparr>"

definition valid_address :: "string \<Rightarrow> bool" where
  "valid_address email \<longleftrightarrow> (case cut CHR ''@'' email of None \<Rightarrow> False | Some (local, domain) \<Rightarrow> local \<noteq> [] \<and> domain \<noteq> [])"

definition new_human_account ::
  "admin_config \<Rightarrow> new_user \<Rightarrow> string \<Rightarrow> string \<Rightarrow> policy \<Rightarrow> instant \<Rightarrow> (new_account \<times> created_user) io" where
  "new_human_account cfg inp nam role policy now =
     (let email = trim_space (nu_email inp) in
      if \<not> valid_address email then raise (EInvalidInput ''email'')
      else
        bnd fresh_io (\<lambda>i.
        let u = human_user i email nam role policy now in
        if nu_sign_in inp = sign_in_password then
          bnd (draw_temporary_password now) (\<lambda>(temp, hash).
          let u = u\<lparr>u_must_change := True\<rparr> in
          ret (\<lparr>na_user = u, na_password = Some (hash, Some (tp_expires temp)), na_invitation = None, na_audit = audit_zero\<rparr>,
               \<lparr>cu_user = \<lparr>uv_user = u, uv_sign_in = [SignInPassword], uv_invitation = None\<rparr>, cu_temporary = Some temp\<rparr>))
        else if nu_sign_in inp = sign_in_oidc then
          (if ad_issuer cfg = [] then raise (EInvalidInput ''signIn'')
           else
             let expires = now + invitation_ttl in
             ret (\<lparr>na_user = u, na_password = None,
                    na_invitation = Some \<lparr>iv_issuer = ad_issuer cfg, iv_email = email, iv_expires = expires\<rparr>, na_audit = audit_zero\<rparr>,
                  \<lparr>cu_user = \<lparr>uv_user = u, uv_sign_in = [], uv_invitation = Some expires\<rparr>, cu_temporary = None\<rparr>))
        else raise (EInvalidInput ''signIn'')))"

definition create_detail :: "user \<Rightarrow> string \<Rightarrow> (string \<times> json) list" where
  "create_detail u way =
     [(''kind'', JStr (u_kind u)), (''role'', JStr (u_role u)), (''policy'', JArr (map JStr (rule_strings (u_policy u))))]
     @ (if u_kind u = kind_human then [(''email'', JStr (u_email u)), (''sign_in'', JStr way)] else [])"

definition create_user :: "admin_config \<Rightarrow> user \<Rightarrow> new_user \<Rightarrow> created_user io" where
  "create_user cfg actor inp =
     bnd (lift (require_admin actor)) (\<lambda>_.
     bnd (lift (parse_policy (nu_policy inp))) (\<lambda>policy.
     let nam = trim_space (nu_name inp) in
     if nam = [] then raise (EInvalidInput ''displayName'')
     else
       let role = (if nu_role inp = [] then role_user else nu_role inp) in
       if \<not> valid_role role then raise (EInvalidInput ''role'')
       else
         bnd now_io (\<lambda>now.
         bnd (if nu_kind inp = kind_service then new_service_account inp nam role policy now
              else if nu_kind inp = kind_human then new_human_account cfg inp nam role policy now
              else raise (EInvalidInput ''kind'')) (\<lambda>(acct, out).
         bnd (asks (\<lambda>e. change_event e (u_id actor) ''user.create'' (u_id (na_user acct)) now
                (create_detail (na_user acct) (nu_sign_in inp)))) (\<lambda>ev.
         bnd (users_create_account (acct\<lparr>na_audit := ev\<rparr>)) (\<lambda>_.
         ret out))))))"

section \<open>Editing accounts\<close>

record user_changes =
  ux_name :: "string option"
  ux_role :: "string option"
  ux_status :: "string option"
  ux_policy :: "string list option"

text \<open>The steps of \<open>adminChange\<close>, each adding to the write and to its audit detail.\<close>

definition change_name :: "user_changes \<Rightarrow> admin_change \<times> (string \<times> json) list \<Rightarrow> (admin_change \<times> (string \<times> json) list) result" where
  "change_name ch acc =
     (case ux_name ch of None \<Rightarrow> Inr acc
      | Some n \<Rightarrow>
          let nam = trim_space n; (change, detail) = acc in
          if nam = [] then Inl (EInvalidInput ''displayName'')
          else Inr (change\<lparr>ch_name := Some nam\<rparr>, detail @ [(''display_name'', JStr nam)]))"

definition change_role :: "user_changes \<Rightarrow> admin_change \<times> (string \<times> json) list \<Rightarrow> (admin_change \<times> (string \<times> json) list) result" where
  "change_role ch acc =
     (case ux_role ch of None \<Rightarrow> Inr acc
      | Some r \<Rightarrow>
          let (change, detail) = acc in
          if \<not> valid_role r then Inl (EInvalidInput ''role'') else Inr (change, detail @ [(''role'', JStr r)]))"

definition change_status :: "user_changes \<Rightarrow> admin_change \<times> (string \<times> json) list \<Rightarrow> (admin_change \<times> (string \<times> json) list) result" where
  "change_status ch acc =
     (case ux_status ch of None \<Rightarrow> Inr acc
      | Some s \<Rightarrow>
          let (change, detail) = acc in
          if s \<noteq> status_active \<and> s \<noteq> status_blocked then Inl (EInvalidInput ''status'')
          else Inr (change, detail @ [(''status'', JStr s)]))"

definition change_policy :: "user_changes \<Rightarrow> admin_change \<times> (string \<times> json) list \<Rightarrow> (admin_change \<times> (string \<times> json) list) result" where
  "change_policy ch acc =
     (case ux_policy ch of None \<Rightarrow> Inr acc
      | Some rules \<Rightarrow>
          (case parse_policy rules of
             Inl x \<Rightarrow> Inl x
           | Inr p \<Rightarrow> let (change, detail) = acc in
               Inr (change\<lparr>ch_policy := Some p\<rparr>, detail @ [(''policy'', JArr (map JStr (rule_strings p)))])))"

definition and_then :: "'a result \<Rightarrow> ('a \<Rightarrow> 'b result) \<Rightarrow> 'b result" where
  "and_then r f = (case r of Inl x \<Rightarrow> Inl x | Inr a \<Rightarrow> f a)"

definition admin_change_of :: "admin_config \<Rightarrow> user_changes \<Rightarrow> (admin_change \<times> (string \<times> json) list) result" where
  "admin_change_of cfg ch =
     and_then (and_then (and_then (change_name ch
       (\<lparr>ch_name = None, ch_role = ux_role ch, ch_status = ux_status ch, ch_policy = None, ch_refuse_idp = ad_mapping cfg\<rparr>, []))
       (change_role ch)) (change_status ch)) (change_policy ch)"

definition self_lockout :: "user \<Rightarrow> uuid \<Rightarrow> user_changes \<Rightarrow> bool" where
  "self_lockout actor i ch \<longleftrightarrow> i = u_id actor
     \<and> (ux_status ch = Some status_blocked \<or> (case ux_role ch of None \<Rightarrow> False | Some r \<Rightarrow> r \<noteq> role_admin))"

definition update_account :: "admin_config \<Rightarrow> user \<Rightarrow> uuid \<Rightarrow> user_changes \<Rightarrow> user_view io" where
  "update_account cfg actor i ch =
     bnd (lift (require_admin actor)) (\<lambda>_.
     bnd (lift (admin_change_of cfg ch)) (\<lambda>(change, detail).
     if self_lockout actor i ch then raise ESelfLockout
     else if detail = [] then users_view i
     else
       bnd (users_by_id i) (\<lambda>u.
       if (case ux_role ch of None \<Rightarrow> False | Some r \<Rightarrow> u_kind u = kind_service \<and> r \<noteq> role_user)
       then raise (EInvalidInput ''role'')
       else if ux_policy ch \<noteq> None \<and> \<not> policy_editable u \<and> ad_mapping cfg then raise EPolicyManagedByIDP
       else
         let detail = (if ux_policy ch \<noteq> None \<and> \<not> policy_editable u
                       then detail @ [(''policy_source'', JStr policy_local)] else detail) in
         bnd (users_update_admin_state i change) (\<lambda>_.
         bnd (if ux_status ch = Some status_blocked then sessions_delete_by_user i else ret ()) (\<lambda>_.
         bnd now_io (\<lambda>now.
         bnd (record_change (u_id actor) ''user.update'' i now detail) (\<lambda>_.
         users_view i)))))))"

definition renew_invitation :: "admin_config \<Rightarrow> user \<Rightarrow> uuid \<Rightarrow> unit io" where
  "renew_invitation cfg actor i =
     bnd (lift (require_admin actor)) (\<lambda>_.
     if ad_issuer cfg = [] then raise ENotInvitable
     else
       bnd (users_by_id i) (\<lambda>u.
       if u_kind u \<noteq> kind_human \<or> u_email u = [] then raise ENotInvitable
       else
         bnd now_io (\<lambda>now.
         let inv = \<lparr>iv_issuer = ad_issuer cfg, iv_email = u_email u, iv_expires = now + invitation_ttl\<rparr> in
         bnd (identities_invite i inv) (\<lambda>_.
         record_change (u_id actor) ''user.invitation.renew'' i now
           [(''email'', JStr (u_email u)), (''expires_at'', JStr (rfc3339 (iv_expires inv)))]))))"

definition admin_reset_password :: "user \<Rightarrow> uuid \<Rightarrow> temporary_password io" where
  "admin_reset_password actor i =
     bnd (lift (require_admin actor)) (\<lambda>_.
     bnd (users_by_id i) (\<lambda>u.
     if u_kind u \<noteq> kind_human then raise ENotLocal
     else
       bnd now_io (\<lambda>now.
       bnd (reset_password (u_id u) now) (\<lambda>temp.
       bnd (record_change (u_id actor) ''user.password_reset'' (u_id u) now [(''expires_at'', JStr (rfc3339 (tp_expires temp)))]) (\<lambda>_.
       ret temp)))))"

section \<open>Tokens and history\<close>

definition admin_list_tokens :: "user \<Rightarrow> uuid \<Rightarrow> token list io" where
  "admin_list_tokens actor i =
     bnd (lift (require_admin actor)) (\<lambda>_. bnd (users_by_id i) (\<lambda>_. list_tokens actor i))"

definition admin_issue_token :: "user \<Rightarrow> uuid \<Rightarrow> string \<Rightarrow> (token \<times> string) io" where
  "admin_issue_token actor i label = bnd (lift (require_admin actor)) (\<lambda>_. issue actor i label)"

definition admin_revoke_token :: "user \<Rightarrow> uuid \<Rightarrow> uuid \<Rightarrow> unit io" where
  "admin_revoke_token actor i k =
     bnd (lift (require_admin actor)) (\<lambda>_.
     bnd (list_tokens actor i) (\<lambda>owned.
     if \<not> list_ex (\<lambda>t. tk_id t = k) owned then raise ENotFound else revoke_token actor k))"

definition recent_usage :: "uuid \<Rightarrow> int \<Rightarrow> usage_event list io" where
  "recent_usage i limit = query (\<lambda>e t d.
     Inr (take (nat limit) (sort_key (\<lambda>ev. - ue_at ev) (rev (filter (\<lambda>ev. ue_user ev = i \<and> i \<noteq> uuid_nil) (t_usage d))))))"

definition row_audit :: "audit_row \<Rightarrow> audit_event" where
  "row_audit r = \<lparr>ae_at = ar_at r, ae_actor = (case ar_actor r of None \<Rightarrow> uuid_nil | Some i \<Rightarrow> i), ae_action = ar_action r,
     ae_target = ar_target r, ae_detail = ar_detail r, ae_ip = ar_ip r, ae_agent = ar_agent r\<rparr>"

definition concerns :: "env \<Rightarrow> uuid \<Rightarrow> audit_row \<Rightarrow> bool" where
  "concerns e i r \<longleftrightarrow> ar_actor r = Some i \<or> ar_target r = uuid_str (ids e) i
     \<or> map_of (ar_detail r) ''owner_id'' = Some (JStr (uuid_str (ids e) i))"

definition recent_audit :: "uuid \<Rightarrow> int \<Rightarrow> audit_event list io" where
  "recent_audit i limit = query (\<lambda>e t d.
     Inr (map row_audit (take (nat limit) (sort_key (\<lambda>r. - ar_at r) (rev (filter (concerns e i) (t_audit d)))))))"

definition activity_limit :: "int \<Rightarrow> int" where
  "activity_limit limit =
     (if limit < 1 then default_activity_limit else if max_activity_limit < limit then max_activity_limit else limit)"

definition account_activity :: "user \<Rightarrow> uuid \<Rightarrow> int \<Rightarrow> (usage_event list \<times> audit_event list) io" where
  "account_activity actor i limit =
     bnd (lift (require_admin actor)) (\<lambda>_.
     let limit = activity_limit limit in
     bnd (users_by_id i) (\<lambda>_.
     bnd (recent_usage i limit) (\<lambda>requests.
     bnd (recent_audit i limit) (\<lambda>audit.
     ret (requests, audit)))))"

section \<open>The catalogue and the preview of a policy\<close>

text \<open>\<open>Models\<close> of the catalogue, in the order the map is ranged over, each provider once.\<close>

type_synonym served = "(string \<times> string list) list"

definition admin_catalog :: "user \<Rightarrow> served \<Rightarrow> served result" where
  "admin_catalog actor served =
     and_then (require_admin actor) (\<lambda>_. Inr (sort_key fst (map (\<lambda>(p, ms). (p, sort ms)) served)))"

fun preview_rules :: "string list \<Rightarrow> string list \<Rightarrow> policy \<Rightarrow> string list \<times> policy" where
  "preview_rules [] invalid p = (invalid, p)"
| "preview_rules (raw # rules) invalid p =
     (case parse_rule raw of
        Inl _ \<Rightarrow> preview_rules rules (invalid @ [raw]) p
      | Inr r \<Rightarrow> preview_rules rules invalid (p @ [r]))"

fun preview_models :: "(string \<Rightarrow> bool) \<Rightarrow> (string \<times> string) list \<Rightarrow> (string \<times> bool) list \<Rightarrow> (string \<times> string) list" where
  "preview_models admit [] known = []"
| "preview_models admit ((prov, model) # rest) known =
     (let (ok, known) = (case map_of known model of
            Some ok \<Rightarrow> (ok, known)
          | None \<Rightarrow> let ok = admit model in (ok, AList.update model ok known)) in
      (if ok then [(prov, model)] else []) @ preview_models admit rest known)"

record policy_preview =
  pp_invalid :: "string list"
  pp_covered :: "(string \<times> string) list"

definition policy_preview :: "user \<Rightarrow> catalog \<Rightarrow> served \<Rightarrow> string list \<Rightarrow> policy_preview result" where
  "policy_preview actor providers served rules =
     and_then (require_admin actor) (\<lambda>_.
       let (invalid, p) = preview_rules rules [] [];
           flat = concat (map (\<lambda>(prov, models). map (\<lambda>m. (prov, m)) models) served) in
       Inr \<lparr>pp_invalid = invalid, pp_covered = sort (preview_models (admits p providers) flat [])\<rparr>)"

end
