(* ===== verification/Recovery.thy ===== *)
theory Recovery
  imports Admin
begin

text \<open>
  The two ways into an installation that need no administrator: the first start
  (\<open>internal/app/bootstrap.go\<close>) and the operator's reset from the shell of the host
  (\<open>internal/app/recovery\<close>).
\<close>

section \<open>The first administrator\<close>

definition issue_bootstrap_password :: "uuid \<Rightarrow> string io" where
  "issue_bootstrap_password i =
     bnd new_temporary_password (\<lambda>secret.
     bnd (hasher_hash secret) (\<lambda>hash.
     bnd (passwords_set i hash None) (\<lambda>_.
     ret secret)))"

definition resume_bootstrap :: "string \<Rightarrow> string io" where
  "resume_bootstrap email =
     bnd (attempt (users_by_email email)) (\<lambda>r. case r of
       Inl x \<Rightarrow> if x = ENotFound then ret [] else raise x
     | Inr u \<Rightarrow>
         if u_role u \<noteq> role_admin \<or> \<not> u_must_change u then ret []
         else
           bnd (attempt (passwords_get (u_id u))) (\<lambda>p. case p of
             Inr _ \<Rightarrow> ret []
           | Inl x \<Rightarrow> if x \<noteq> ENotFound then raise x else issue_bootstrap_password (u_id u)))"

definition bootstrap_admin :: "uuid \<Rightarrow> string \<Rightarrow> user" where
  "bootstrap_admin i email =
     user_zero\<lparr>u_id := i, u_kind := kind_human, u_email := email, u_name := ''Administrator'', u_role := role_admin,
       u_status := status_active, u_source := policy_local, u_must_change := True\<rparr>"

definition bootstrap :: "string \<Rightarrow> string io" where
  "bootstrap email =
     (if email = [] then ret []
      else
        bnd users_admin_exists (\<lambda>there.
        if there then resume_bootstrap email
        else
          bnd fresh_io (\<lambda>i.
          bnd (users_create (bootstrap_admin i email)) (\<lambda>_.
          issue_bootstrap_password i))))"

section \<open>Recovery from the shell\<close>

record recovered =
  rc_user :: user
  rc_password :: temporary_password
  rc_unblocked :: bool

fun another_admin :: "uuid \<Rightarrow> user_view list \<Rightarrow> bool" where
  "another_admin i [] = False"
| "another_admin i (v # vs) =
     (if u_id (uv_user v) \<noteq> i \<and> u_role (uv_user v) = role_admin \<and> can_sign_in (uv_user v) then True
      else another_admin i vs)"

definition other_active_admin :: "uuid \<Rightarrow> bool io" where
  "other_active_admin i = bnd users_list (\<lambda>views. ret (another_admin i views))"

definition recover_password :: "string \<Rightarrow> bool \<Rightarrow> recovered io" where
  "recover_password email unblock =
     bnd (users_by_email (trim_space email)) (\<lambda>u.
     if u_kind u \<noteq> kind_human then raise ENotLocal
     else
       bnd (if u_status u \<noteq> status_active
            then
              bnd (if u_role u = role_admin then bnd (other_active_admin (u_id u)) (\<lambda>other. ret (\<not> other)) else ret False) (\<lambda>can.
              if \<not> unblock \<or> \<not> can then raise (EBlocked can) else ret True)
            else ret False) (\<lambda>unblocked.
       bnd now_io (\<lambda>now.
       bnd (if unblocked
            then bnd (asks (\<lambda>e. change_event e uuid_nil ''user.update'' (u_id u) now
                   [(''via'', JStr ''cli''), (''status'', JStr status_active)])) (users_unblock (u_id u))
            else ret ()) (\<lambda>_.
       bnd (reset_password (u_id u) now) (\<lambda>temp.
       bnd (attempts_clear (u_email u)) (\<lambda>_.
       bnd (record_change uuid_nil ''user.password_reset'' (u_id u) now
              [(''via'', JStr ''cli''), (''expires_at'', JStr (rfc3339 (tp_expires temp)))]) (\<lambda>_.
       ret \<lparr>rc_user = u\<lparr>u_status := (if unblocked then status_active else u_status u), u_must_change := True\<rparr>,
            rc_password = temp, rc_unblocked = unblocked\<rparr>)))))))"

end
