(* ===== verification/AdminSafety.thy ===== *)
theory AdminSafety
  imports Recovery
begin

text \<open>
  What the administration of accounts promises: what creating an account leaves, what blocking one
  ends, that no administrator locks themselves out, what a temporary password opens, what the
  policy preview shows; and what the first start and the operator's recovery do.
\<close>

section \<open>Temporary passwords\<close>

text \<open>What a reset leaves: a password with an expiry that the drawn one verifies against, the flag
  set, and none of the account's sessions.\<close>

definition reset_done :: "env \<Rightarrow> uuid \<Rightarrow> instant \<Rightarrow> temporary_password \<Rightarrow> db \<Rightarrow> db \<Rightarrow> bool" where
  "reset_done e i now temp d d' \<longleftrightarrow> tp_expires temp = now + temporary_ttl
     \<and> (\<exists>h salt. password_row_of d' i = Some \<lparr>pw_user = i, pw_hash = h, pw_expires = Some (tp_expires temp)\<rparr>
          \<and> length salt = argon_salt_len \<and> hash_password (argon2 e) (Some salt) (tp_password temp) = Inr h)
     \<and> (\<forall>j. j \<noteq> i \<longrightarrow> password_row_of d' j = password_row_of d j)
     \<and> d' = d\<lparr>t_users := map (\<lambda>r. if ur_id r = i then r\<lparr>ur_must_change := True\<rparr> else r) (t_users d),
          t_passwords := t_passwords d', t_sessions := filter (\<lambda>r. ss_user r \<noteq> i) (t_sessions d)\<rparr>"

text \<open>Failing, a reset never leaves a new password on an account that is not restricted.\<close>

definition reset_failed :: "uuid \<Rightarrow> db \<Rightarrow> db \<Rightarrow> bool" where
  "reset_failed i d d' \<longleftrightarrow> t_sessions d' = t_sessions d
     \<and> (t_passwords d' = t_passwords d \<or> (\<forall>r \<in> set (t_users d'). ur_id r = i \<longrightarrow> ur_must_change r))"

lemma map_user_restricted: "\<forall>r \<in> set (t_users (map_user i (\<lambda>r. r\<lparr>ur_must_change := True\<rparr>) d)). ur_id r = i \<longrightarrow> ur_must_change r"
  by (simp add: map_user_def del: if_image_distrib split: if_split)

lemma wp_draw_temporary:
  assumes "\<And>x w'. w_db w' = w_db w \<Longrightarrow> Q (Inl x) w'"
    and "\<And>temp h salt w'. w_db w' = w_db w \<Longrightarrow> tp_expires temp = now + temporary_ttl \<Longrightarrow> length salt = argon_salt_len \<Longrightarrow>
      hash_password (argon2 e) (Some salt) (tp_password temp) = Inr h \<Longrightarrow> Q (Inr (temp, h)) w'"
  shows "wp (draw_temporary_password now) e w Q"
  using assms unfolding draw_temporary_password_def new_temporary_password_def
  by (auto simp: wp_simps intro!: wp_hasher_hash)

lemma wp_reset_password:
  assumes "\<And>x w'. reset_failed i (w_db w) (w_db w') \<Longrightarrow> Q (Inl x) w'"
    and "\<And>temp w'. reset_done e i now temp (w_db w) (w_db w') \<Longrightarrow> Q (Inr temp) w'"
  shows "wp (reset_password i now) e w Q"
proof -
  have early: "Q (Inl x) w'" if "w_db w' = w_db w" for x w'
    using that by (intro assms(1)) (simp add: reset_failed_def)
  have flagged: "Q (Inl x) w'" if "w_db w' = map_user i (\<lambda>r. r\<lparr>ur_must_change := True\<rparr>) (w_db w)" for x w'
    using that by (intro assms(1)) (simp add: reset_failed_def)
  have late: "Q (Inl x) w'" if "w_db w' = d" "d = (map_user i (\<lambda>r. r\<lparr>ur_must_change := True\<rparr>) (w_db w))\<lparr>t_passwords := t_passwords d\<rparr>" for x w' d
  proof -
    have "t_users d = t_users (map_user i (\<lambda>r. r\<lparr>ur_must_change := True\<rparr>) (w_db w))" "t_sessions d = t_sessions (w_db w)"
      by (subst that(2), simp)+
    then show ?thesis
      using map_user_restricted [of i "w_db w"] that(1) by (intro assms(1)) (simp add: reset_failed_def)
  qed
  have won: "Q (Inr temp) w'"
    if "w_db w' = d\<lparr>t_sessions := filter (\<lambda>r. ss_user r \<noteq> i) (t_sessions d)\<rparr>"
      "d = (map_user i (\<lambda>r. r\<lparr>ur_must_change := True\<rparr>) (w_db w))\<lparr>t_passwords := t_passwords d\<rparr>"
      "\<forall>j. password_row_of d j = (if j = i then Some \<lparr>pw_user = i, pw_hash = h, pw_expires = Some (tp_expires temp)\<rparr>
          else password_row_of (map_user i (\<lambda>r. r\<lparr>ur_must_change := True\<rparr>) (w_db w)) j)"
      "tp_expires temp = now + temporary_ttl" "length salt = argon_salt_len"
      "hash_password (argon2 e) (Some salt) (tp_password temp) = Inr h" for temp w' d h salt
  proof -
    have "t_sessions d = t_sessions (w_db w)" by (subst that(2), simp)
    moreover have "password_row_of (map_user i f d0) j = password_row_of d0 j" for f d0 j by (simp add: password_row_of_def)
    moreover have "password_row_of (w_db w') j = password_row_of d j" for j using that(1) by (simp add: password_row_of_def)
    moreover have "w_db w' = (w_db w)\<lparr>t_users := map (\<lambda>r. if ur_id r = i then r\<lparr>ur_must_change := True\<rparr> else r) (t_users (w_db w)),
          t_passwords := t_passwords (w_db w'), t_sessions := filter (\<lambda>r. ss_user r \<noteq> i) (t_sessions (w_db w))\<rparr>"
      using that(1,2) calculation(1) unfolding map_user_def by (cases "w_db w", cases d) simp
    ultimately show ?thesis using that(3-6) by (intro assms(2)) (simp add: reset_done_def, blast)
  qed
  show ?thesis
    unfolding reset_password_def
    by (auto simp: wp_simps sessions_delete_by_user_def intro!: wp_draw_temporary wp_set_must_change wp_passwords_set simp: early)
      (rule flagged, simp, rule late, simp, assumption, rule won, simp, assumption, simp, simp, assumption, assumption)
qed

section \<open>An administrator stays one\<close>

definition admin_row :: "uuid \<Rightarrow> db \<Rightarrow> bool" where
  "admin_row a d \<longleftrightarrow> (\<exists>r \<in> set (t_users d). ur_id r = a \<and> ur_kind r = kind_human \<and> ur_role r = role_admin \<and> ur_status r = status_active)"

interpretation staying: evolution "kept (\<lambda>e. admin_row a)" for a
  by (rule evolution_kept)

abbreviation stays :: "uuid \<Rightarrow> 'a io \<Rightarrow> bool" where
  "stays a m \<equiv> evolves (kept (\<lambda>e. admin_row a)) m"

lemma stay_same: "(\<And>e t d x d'. f e t d = Inr (x, d') \<Longrightarrow> set (t_users d) \<subseteq> set (t_users d')) \<Longrightarrow> stays a (exec f)"
proof (rule staying.ev_exec)
  assume grows: "\<And>e t d x d'. f e t d = Inr (x, d') \<Longrightarrow> set (t_users d) \<subseteq> set (t_users d')"
  show "evolves_stmt (kept (\<lambda>e. admin_row a)) f"
    unfolding evolves_stmt_def kept_def admin_row_def using grows by blast
qed

lemma admin_row_map:
  assumes "admin_row a d" "\<And>r. ur_id r = a \<Longrightarrow> ur_role r = role_admin \<Longrightarrow> ur_status r = status_active \<Longrightarrow> ur_id r = i \<Longrightarrow>
      ur_id (f r) = a \<and> ur_kind (f r) = ur_kind r \<and> ur_role (f r) = role_admin \<and> ur_status (f r) = status_active"
  shows "admin_row a (map_user i f d)"
proof -
  obtain r where r: "r \<in> set (t_users d)" "ur_id r = a" "ur_kind r = kind_human" "ur_role r = role_admin" "ur_status r = status_active"
    using assms(1) by (auto simp: admin_row_def)
  let ?r = "if ur_id r = i then f r else r"
  have "?r \<in> set (t_users (map_user i f d))" using r(1) by (auto simp: map_user_def simp del: if_image_distrib)
  moreover have "ur_id ?r = a \<and> ur_kind ?r = kind_human \<and> ur_role ?r = role_admin \<and> ur_status ?r = status_active"
    using r assms(2) [of r] by auto
  ultimately show ?thesis unfolding admin_row_def by blast
qed

lemma stay_audit: "stays a (audit_record ev)" "stays a (record_change b act i x det)"
proof -
  show "stays a (audit_record ev)"
    unfolding audit_record_def by (rule stay_same) (auto simp: audit_insert_def Let_def split: if_splits)
  then show "stays a (record_change b act i x det)"
    unfolding record_change_def audit_record_def
    by (intro staying.ev_rules stay_same) (auto simp: audit_insert_def Let_def split: if_splits)
qed

lemma stay_sessions: "stays a (sessions_delete_by_user i)"
  unfolding sessions_delete_by_user_def by (rule stay_same) auto

lemma stay_invite: "stays a (identities_invite i iv)"
  unfolding identities_invite_def by (rule stay_same) (auto simp: write_invitation_def Let_def split: if_splits)

lemma upsert_users: "password_upsert i h x e t d = Inr (r, d') \<Longrightarrow> t_users d' = t_users d"
  by (auto simp: password_upsert_def split: if_splits)

lemma stay_passwords: "stays a (passwords_set i h x)"
  unfolding passwords_set_def by (rule stay_same) (auto dest: upsert_users)

lemma stay_hasher: "stays a (hasher_hash p)"
  unfolding hasher_hash_def hasher_acquire_def hash_io_def by (intro staying.ev_rules)

lemma stay_update_user:
  "(\<And>r. ur_id (f r) = ur_id r \<and> ur_kind (f r) = ur_kind r \<and> ur_role (f r) = ur_role r \<and> ur_status (f r) = ur_status r) \<Longrightarrow>
     stays a (exec (update_user i f))"
  by (intro staying.ev_exec) (auto simp: evolves_stmt_def kept_def update_user_def split: if_splits intro!: admin_row_map)

lemma stay_reset: "stays a (reset_password i now)"
  unfolding reset_password_def draw_temporary_password_def new_temporary_password_def users_set_must_change_def
  by (intro staying.ev_rules stay_passwords stay_hasher stay_sessions stay_update_user) auto

lemma stay_create_account: "stays a (users_create_account acct)"
  unfolding users_create_account_def
  by (rule stay_same)
    (auto simp: tx_then_def tx_opt_def insert_user_def write_invitation_def audit_insert_def Let_def
      split: sum.splits option.splits prod.splits if_splits dest!: upsert_users)

lemma stay_tokens: "stays a (issue b i l)" "stays a (revoke_token b k)" "stays a (list_tokens b i)"
proof -
  have save: "stays a (tokens_save k)" for k
    unfolding tokens_save_def by (rule stay_same) (auto split: if_splits)
  have retracted: "stays a (retract k i x c)" for k i x and c :: err
    unfolding retract_def stranded_def by (cases "token_revoke k i x") (auto intro!: staying.ev_rules save)
  show "stays a (issue b i l)"
    unfolding issue_def generate_def users_by_id_def tokens_create_def Let_def
    by (intro staying.ev_rules stay_audit retracted stay_same) (auto split: if_splits)
  show "stays a (revoke_token b k)"
    unfolding revoke_token_def tokens_by_id_def by (intro staying.ev_rules stay_audit save)
  show "stays a (list_tokens b i)"
    unfolding list_tokens_def tokens_list_by_user_def by (intro staying.ev_rules)
qed

text \<open>Editing accounts, the actor's own included.\<close>

lemma stay_update_admin_state:
  assumes "i = a \<Longrightarrow> (case ch_role ch of None \<Rightarrow> True | Some r \<Rightarrow> r = role_admin) \<and> ch_status ch \<noteq> Some status_blocked"
  shows "stays a (users_update_admin_state i ch)"
  unfolding users_update_admin_state_def using assms
  by (intro staying.ev_rules staying.ev_exec)
    (auto simp: evolves_stmt_def kept_def apply_change_def coalesce_def split: if_splits option.splits intro!: admin_row_map)

lemma admin_change_fields:
  "admin_change_of cfg ch = Inr (change, detail) \<Longrightarrow> ch_role change = ux_role ch \<and> ch_status change = ux_status ch
     \<and> ch_refuse_idp change = ad_mapping cfg \<and> (ch_policy change = None \<longleftrightarrow> ux_policy ch = None)
     \<and> (\<forall>p. ch_policy change = Some p \<longrightarrow> (\<exists>rules. ux_policy ch = Some rules \<and> parse_policy rules = Inr p))"
  by (auto simp: admin_change_of_def and_then_def change_name_def change_role_def change_status_def change_policy_def Let_def
      split: option.splits sum.splits if_splits)

lemma stay_update_account: "stays (u_id actor) (update_account cfg actor i ch)"
proof -
  have edit: "stays (u_id actor) (users_update_admin_state i change)"
    if "admin_change_of cfg ch = Inr (change, detail)" "\<not> self_lockout actor i ch" for change detail
    using that admin_change_fields [OF that(1)]
    by (intro stay_update_admin_state) (auto simp: self_lockout_def split: option.splits)
  have rest: "stays (u_id actor) (case cd of (change, detail) \<Rightarrow>
     if self_lockout actor i ch then raise ESelfLockout
     else if detail = [] then users_view i
     else bnd (users_by_id i) (k change detail))"
    if "admin_change_of cfg ch = Inr cd" "\<And>change detail u. \<not> self_lockout actor i ch \<Longrightarrow> admin_change_of cfg ch = Inr (change, detail) \<Longrightarrow>
      stays (u_id actor) (k change detail u)" for cd k
    using that unfolding users_view_def users_by_id_def by (cases cd) (auto intro!: staying.ev_rules)
  have viewed: "stays (u_id actor) (users_view i)" unfolding users_view_def by (rule staying.ev_query)
  show ?thesis
    unfolding update_account_def Let_def
    by (rule staying.ev_bnd_lift, rule staying.ev_bnd_lift, rule rest, assumption)
      (auto intro!: staying.ev_rules stay_audit stay_sessions edit viewed)
qed

lemma stay_create_user: "stays a (create_user cfg actor inp)"
proof -
  have drawn: "stays a (draw_temporary_password now)" for now
    unfolding draw_temporary_password_def new_temporary_password_def by (intro staying.ev_rules stay_hasher)
  have human: "stays a (new_human_account cfg inp n r p now)" for n r p now
    unfolding new_human_account_def Let_def by (intro staying.ev_rules drawn)
  have service: "stays a (new_service_account inp n r p now)" for n r p now
    unfolding new_service_account_def Let_def by (intro staying.ev_rules)
  show ?thesis
    unfolding create_user_def Let_def by (intro staying.ev_rules human service stay_create_account)
qed

lemma stay_renew: "stays a (renew_invitation cfg actor i)"
  unfolding renew_invitation_def users_by_id_def Let_def by (intro staying.ev_rules stay_invite stay_audit)

lemma stay_admin_reset: "stays a (admin_reset_password actor i)"
  unfolding admin_reset_password_def users_by_id_def by (intro staying.ev_rules stay_reset stay_audit)

lemma stay_admin_tokens: "stays a (admin_issue_token actor i l)" "stays a (admin_revoke_token actor i k)"
  unfolding admin_issue_token_def admin_revoke_token_def by (intro staying.ev_rules stay_tokens)+

text \<open>The calls of the administration API that write, each by an actor loaded for it from the database.\<close>

datatype admin_call = CreateUserCall new_user | UpdateAccountCall uuid user_changes | RenewCall uuid | ResetCall uuid
  | AdminIssueCall uuid string | AdminRevokeCall uuid uuid

definition admin_run :: "admin_config \<Rightarrow> user \<Rightarrow> admin_call \<Rightarrow> unit io" where
  "admin_run cfg u c =
     (case c of
        CreateUserCall inp \<Rightarrow> bnd (create_user cfg u inp) (\<lambda>_. ret ())
      | UpdateAccountCall i ch \<Rightarrow> bnd (update_account cfg u i ch) (\<lambda>_. ret ())
      | RenewCall i \<Rightarrow> renew_invitation cfg u i
      | ResetCall i \<Rightarrow> bnd (admin_reset_password u i) (\<lambda>_. ret ())
      | AdminIssueCall i l \<Rightarrow> bnd (admin_issue_token u i l) (\<lambda>_. ret ())
      | AdminRevokeCall i k \<Rightarrow> admin_revoke_token u i k)"

definition admin_request :: "admin_config \<Rightarrow> env \<Rightarrow> uuid \<times> admin_call \<Rightarrow> world \<Rightarrow> world" where
  "admin_request cfg e req w = (case req of (a, c) \<Rightarrow> snd (bnd (users_by_id a) (\<lambda>u. admin_run cfg u c) e w))"

lemma admin_run_refused: "require_admin u = Inl x \<Longrightarrow> w_db (snd (admin_run cfg u c e w)) = w_db w"
  by (cases c)
    (simp_all add: admin_run_def create_user_def update_account_def renew_invitation_def admin_reset_password_def
      admin_issue_token_def admin_revoke_token_def bnd_def lift_def)

lemma admin_run_stays: "stays (u_id u) (admin_run cfg u c)"
  unfolding admin_run_def
  by (cases c) (auto intro!: staying.ev_rules stay_create_user stay_update_account stay_renew stay_admin_reset stay_admin_tokens)

lemma require_admin_row:
  "scan_user (find (\<lambda>r. ur_id r = a) (t_users d)) = Inr u \<Longrightarrow> require_admin u = Inr () \<Longrightarrow> admin_row (u_id u) d"
  by (auto simp: scan_user_def require_admin_def can_sign_in_def admin_row_def dest!: find_Some_mem row_user_fields
      split: option.splits if_splits)

lemma admin_request_step:
  assumes "admin_row b (w_db w)"
  shows "\<exists>b. admin_row b (w_db (admin_request cfg e req w))"
proof -
  obtain a c where req: "req = (a, c)" by fastforce
  have "wp (bnd (users_by_id a) (\<lambda>u. admin_run cfg u c)) e w (\<lambda>r w'. \<exists>b. admin_row b (w_db w'))"
  proof (cases "scan_user (find (\<lambda>r. ur_id r = a) (t_users (w_db w)))")
    case (Inl x)
    then show ?thesis using assms by (auto simp: users_by_id_def wp_simps)
  next
    case (Inr u)
    have "\<exists>b. admin_row b (w_db (snd (admin_run cfg u c e (tick w))))"
    proof (cases "require_admin u")
      case refused: (Inl x)
      then show ?thesis using assms admin_run_refused [OF refused, of cfg c e "tick w"] by auto
    next
      case (Inr _)
      then have "admin_row (u_id u) (w_db (tick w))" using require_admin_row [OF \<open>scan_user _ = Inr u\<close>] by simp
      then show ?thesis using admin_run_stays [of u cfg c] unfolding evolves_def kept_def by blast
    qed
    then have "wp (admin_run cfg u c) e (tick w) (\<lambda>r w'. \<exists>b. admin_row b (w_db w'))"
      by (auto simp: wp_def split: prod.splits)
    then show ?thesis using assms Inr by (auto simp: users_by_id_def wp_simps)
  qed
  then show ?thesis by (simp add: req admin_request_def wp_def split: prod.splits)
qed

text \<open>C30: an installation that has an active administrator keeps one through any sequence of requests
  to the administration API, by whomever, in any order, whichever database calls fail.\<close>

theorem administrators_remain:
  assumes "\<exists>r \<in> set (t_users (w_db w)). ur_kind r = kind_human \<and> ur_role r = role_admin \<and> ur_status r = status_active"
  shows "\<exists>r \<in> set (t_users (w_db (fold (admin_request cfg e) reqs w))).
    ur_kind r = kind_human \<and> ur_role r = role_admin \<and> ur_status r = status_active"
proof -
  have "\<exists>b. admin_row b (w_db (fold (admin_request cfg e) reqs w))" if "\<exists>b. admin_row b (w_db w)" for w
    using that
  proof (induction reqs arbitrary: w)
    case (Cons req reqs)
    then show ?case using admin_request_step [of _ w cfg e req] by auto
  qed simp
  then show ?thesis using assms unfolding admin_row_def by blast
qed

section \<open>What an edit does, and what blocking ends\<close>

lemma wp_update_admin_state:
  assumes "\<And>x w'. w_db w' = w_db w \<Longrightarrow> Q (Inl x) w'"
    and "list_ex (\<lambda>r. ur_id r = i \<and> \<not> change_refused ch r) (t_users (w_db w)) \<Longrightarrow>
      Q (Inr ()) ((tick w)\<lparr>w_db := map_user i (\<lambda>r. if change_refused ch r then r else apply_change ch r) (w_db w)\<rparr>)"
  shows "wp (users_update_admin_state i ch) e w Q"
  using assms by (auto simp: users_update_admin_state_def wp_simps)

lemma wp_record_change:
  assumes "Q (Inl EFault) (tick w)"
    and "\<And>row. ar_action row = act \<Longrightarrow> ar_actor row = null_uuid b \<Longrightarrow> ar_target row = uuid_str (ids e) i \<Longrightarrow> ar_detail row = det \<Longrightarrow>
      Q (Inr ()) ((tick w)\<lparr>w_db := (w_db w)\<lparr>t_audit := t_audit (w_db w) @ [row]\<rparr>\<rparr>)"
  shows "wp (record_change b act i x det) e w Q"
  unfolding record_change_def wp_bnd wp_asks sum.case
  by (rule wp_audit_record) (auto intro: assms simp: audit_of_def change_event_def)

text \<open>What a successful edit that sets something left.\<close>

definition edited :: "admin_config \<Rightarrow> env \<Rightarrow> user \<Rightarrow> uuid \<Rightarrow> user_changes \<Rightarrow> admin_change \<Rightarrow> db \<Rightarrow> db \<Rightarrow> bool" where
  "edited cfg e actor i ch change d d' \<longleftrightarrow> (\<exists>row.
     d' = (map_user i (\<lambda>r. if change_refused change r then r else apply_change change r) d)
       \<lparr>t_sessions := (if ux_status ch = Some status_blocked then filter (\<lambda>r. ss_user r \<noteq> i) (t_sessions d) else t_sessions d),
        t_audit := t_audit d @ [row]\<rparr>
     \<and> list_ex (\<lambda>r. ur_id r = i \<and> \<not> change_refused change r) (t_users d)
     \<and> ar_action row = ''user.update'' \<and> ar_actor row = null_uuid (u_id actor) \<and> ar_target row = uuid_str (ids e) i)"

lemma wp_users_view_same: "(\<And>r. Q r (tick w)) \<Longrightarrow> wp (users_view i) e w Q"
  unfolding users_view_def by (rule wp_query_any)

definition write_edit :: "user \<Rightarrow> uuid \<Rightarrow> user_changes \<Rightarrow> admin_change \<Rightarrow> (string \<times> json) list \<Rightarrow> user_view io" where
  "write_edit actor i ch change det =
     bnd (users_update_admin_state i change) (\<lambda>_.
         bnd (if ux_status ch = Some status_blocked then sessions_delete_by_user i else ret ()) (\<lambda>_.
         bnd now_io (\<lambda>now.
         bnd (record_change (u_id actor) ''user.update'' i now det) (\<lambda>_.
         users_view i))))"

lemma update_account_eq:
  "update_account cfg actor i ch =
     bnd (lift (require_admin actor)) (\<lambda>_.
     bnd (lift (admin_change_of cfg ch)) (\<lambda>(change, detail).
     if self_lockout actor i ch then raise ESelfLockout
     else if detail = [] then users_view i
     else
       bnd (users_by_id i) (\<lambda>u.
       if (case ux_role ch of None \<Rightarrow> False | Some r \<Rightarrow> u_kind u = kind_service \<and> r \<noteq> role_user)
       then raise (EInvalidInput ''role'')
       else if ux_policy ch \<noteq> None \<and> \<not> policy_editable u \<and> ad_mapping cfg then raise EPolicyManagedByIDP
       else
         let detail = (if ux_policy ch \<noteq> None \<and> \<not> policy_editable u
                       then detail @ [(''policy_source'', JStr policy_local)] else detail) in
         write_edit actor i ch change detail)))"
  unfolding update_account_def write_edit_def by (rule refl)

lemma wp_sessions_all:
  "wp (sessions_delete_by_user i) e w Q \<longleftrightarrow>
     (if fault e (w_tick w) then Q (Inl EFault) (tick w)
      else Q (Inr ()) ((tick w)\<lparr>w_db := (w_db w)\<lparr>t_sessions := filter (\<lambda>r. ss_user r \<noteq> i) (t_sessions (w_db w))\<rparr>\<rparr>))"
  by (simp add: sessions_delete_by_user_def wp_simps)

lemma wp_update_account:
  "wp (update_account cfg actor i ch) e w (\<lambda>r w'. isl r \<or>
     require_admin actor = Inr () \<and> \<not> self_lockout actor i ch
     \<and> (\<exists>change detail. admin_change_of cfg ch = Inr (change, detail)
         \<and> (if detail = [] then w_db w' = w_db w else edited cfg e actor i ch change (w_db w) (w_db w'))))"
proof (cases "require_admin actor")
  case (Inl x)
  then show ?thesis by (simp add: update_account_def wp_simps)
next
  case admin: (Inr _)
  show ?thesis
  proof (cases "admin_change_of cfg ch")
    case (Inl x)
    then show ?thesis using admin by (simp add: update_account_def wp_simps)
  next
    case (Inr cd)
    obtain change detail where cd: "cd = (change, detail)" by fastforce
    let ?d = "map_user i (\<lambda>r. if change_refused change r then r else apply_change change r) (w_db w)"
    have fin: "edited cfg e actor i ch change (w_db w) (d\<lparr>t_audit := t_audit d @ [row]\<rparr>)"
      if "d = (if ux_status ch = Some status_blocked then ?d\<lparr>t_sessions := filter (\<lambda>r. ss_user r \<noteq> i) (t_sessions ?d)\<rparr> else ?d)"
        "list_ex (\<lambda>r. ur_id r = i \<and> \<not> change_refused change r) (t_users (w_db w))"
        "ar_action row = ''user.update''" "ar_actor row = null_uuid (u_id actor)" "ar_target row = uuid_str (ids e) i" for d row
      unfolding edited_def using that by (intro exI [of _ row]) (simp add: map_user_def)
    have written: "wp (write_edit actor i ch change det) e v (\<lambda>r w'. isl r \<or> edited cfg e actor i ch change (w_db w) (w_db w'))"
      if same: "w_db v = w_db w" for v det
    proof -
      have recorded: "wp (bnd now_io (\<lambda>now. bnd (record_change (u_id actor) ''user.update'' i now det) (\<lambda>_. users_view i))) e u
          (\<lambda>r w'. isl r \<or> edited cfg e actor i ch change (w_db w) (w_db w'))"
        if "w_db u = (if ux_status ch = Some status_blocked then ?d\<lparr>t_sessions := filter (\<lambda>r. ss_user r \<noteq> i) (t_sessions ?d)\<rparr> else ?d)"
          "list_ex (\<lambda>r. ur_id r = i \<and> \<not> change_refused change r) (t_users (w_db w))" for u
        unfolding wp_bnd wp_now sum.case
        by (intro wp_record_change) (auto simp: that(2) intro!: wp_users_view_same fin [OF that(1)])
      show ?thesis
        by (cases "ux_status ch = Some status_blocked")
          (auto simp: write_edit_def wp_bnd [of "users_update_admin_state _ _"] wp_bnd [of "sessions_delete_by_user _"] wp_bnd [of "ret _"]
            wp_sessions_all same wp_ret intro!: wp_update_admin_state recorded)
    qed
    show ?thesis
      using admin Inr cd written
      by (auto simp: update_account_eq users_by_id_def wp_simps Let_def intro!: wp_users_view_same wp_mono [OF written] split: sum.splits option.splits)
  qed
qed

lemma admin_change_detail:
  "admin_change_of cfg ch = Inr (change, detail) \<Longrightarrow> ux_status ch = Some st \<Longrightarrow> detail \<noteq> []"
  by (auto simp: admin_change_of_def and_then_def change_name_def change_role_def change_status_def change_policy_def Let_def
      split: option.splits sum.splits if_splits)

lemma edited_rows:
  assumes "edited cfg e actor i ch change d d'" "users_ok e (t_users d)" "ch_status change = Some st"
  shows "\<forall>r \<in> set (t_users d'). ur_id r = i \<longrightarrow> ur_status r = st"
proof (intro ballI impI)
  fix r' assume r': "r' \<in> set (t_users d')" "ur_id r' = i"
  let ?f = "\<lambda>r. if ur_id r = i then if change_refused change r then r else apply_change change r else r"
  have "t_users d' = map ?f (t_users d)" using assms(1) by (auto simp: edited_def map_user_def)
  then have "r' \<in> ?f ` set (t_users d)" using r'(1) by (simp only: set_map)
  then obtain r where r: "r \<in> set (t_users d)" "r' = ?f r" by (elim imageE)
  have "ur_id r = i" using r(2) r'(2) by (cases "ur_id r = i") simp_all
  moreover obtain r0 where "r0 \<in> set (t_users d)" "ur_id r0 = i" "\<not> change_refused change r0"
    using assms(1) by (auto simp: edited_def list_ex_iff)
  moreover have "inj_on ur_id (set (t_users d))" using assms(2) by (simp add: users_ok_def distinct_map)
  ultimately have "\<not> change_refused change r" using r(1) by (metis inj_onD)
  then show "ur_status r' = st" using r(2) \<open>ur_id r = i\<close> assms(3) by (simp add: apply_change_def coalesce_def)
qed

lemma scan_status:
  "scan_user (find (\<lambda>r. P r) (t_users d)) = Inr u \<Longrightarrow> \<forall>r \<in> set (t_users d). ur_id r = i \<longrightarrow> ur_status r = st \<Longrightarrow> u_id u = i \<Longrightarrow>
     u_status u = st"
  by (auto simp: scan_user_def dest!: find_Some_mem row_user_fields split: option.splits)

lemma scan_id: "scan_user (find (\<lambda>r. ur_id r = i) us) = Inr u \<Longrightarrow> u_id u = i"
  by (auto simp: scan_user_def dest!: find_Some_mem row_user_fields split: option.splits)

text \<open>C31: blocking is a revocation. After an edit that blocks an account, by somebody else than its
  owner, no session of it is left, and nothing lets it in: no session id, no password and no key
  is accepted as that account, whatever the clocks show.\<close>

theorem blocked_is_out:
  assumes "update_account cfg actor i ch e w = (Inr v, w')" and "ux_status ch = Some status_blocked" and "db_ok e (w_db w)"
  shows "i \<noteq> u_id actor \<and> i \<notin> ss_user ` set (t_sessions (w_db w'))
    \<and> \<not> (session_of e' (w_db w') n c row u \<and> u_id u = i)
    \<and> \<not> (credentials e' acfg n (w_db w') email password u \<and> u_id u = i)
    \<and> \<not> (authenticates e' (w_db w') secret k u \<and> tk_user k = i)"
proof -
  obtain change detail where change: "admin_change_of cfg ch = Inr (change, detail)" and self: "\<not> self_lockout actor i ch"
    and ed: "if detail = [] then w_db w' = w_db w else edited cfg e actor i ch change (w_db w) (w_db w')"
    using wp_run [OF wp_update_account assms(1)] by auto
  then have edited: "edited cfg e actor i ch change (w_db w) (w_db w')"
    using admin_change_detail [OF change assms(2)] by simp
  have "ch_status change = Some status_blocked" using admin_change_fields [OF change] assms(2) by simp
  then have rows: "\<forall>r \<in> set (t_users (w_db w')). ur_id r = i \<longrightarrow> ur_status r = status_blocked"
    using edited_rows [OF edited] assms(3) by (simp add: db_ok_def)
  have blocked: "status_blocked \<noteq> status_active" by (simp add: status_blocked_def status_active_def)
  have "i \<noteq> u_id actor" using self assms(2) by (auto simp: self_lockout_def)
  moreover have "i \<notin> ss_user ` set (t_sessions (w_db w'))"
    using edited assms(2) by (auto simp: edited_def)
  moreover have "\<not> (session_of e' (w_db w') n c row u \<and> u_id u = i)"
    using scan_status [OF _ rows] blocked by (auto simp: session_of_def can_sign_in_def)
  moreover have "\<not> (credentials e' acfg n (w_db w') email password u \<and> u_id u = i)"
    using scan_status [OF _ rows] blocked by (auto simp: credentials_def account_def can_sign_in_def)
  moreover have "\<not> (authenticates e' (w_db w') secret k u \<and> tk_user k = i)"
    using scan_status [OF _ rows] scan_id blocked by (fastforce simp: authenticates_def can_use_api_def)
  ultimately show ?thesis by blast
qed

section \<open>Creating accounts\<close>

text \<open>What the one write of a new account leaves.\<close>

definition account_written :: "env \<Rightarrow> new_account \<Rightarrow> db \<Rightarrow> db \<Rightarrow> bool" where
  "account_written e acct d d' \<longleftrightarrow> u_id (na_user acct) \<notin> ids_of d
     \<and> (\<exists>row arow. t_users d' = t_users d @ [row] \<and> ur_id row = u_id (na_user acct) \<and> ur_kind row = u_kind (na_user acct)
          \<and> ur_role row = u_role (na_user acct) \<and> ur_status row = u_status (na_user acct)
          \<and> ur_policy row = encode_policy (u_policy (na_user acct)) \<and> ur_must_change row = u_must_change (na_user acct)
          \<and> ur_email row = null_string (u_email (na_user acct))
          \<and> t_audit d' = t_audit d @ [arow] \<and> audit_of (na_audit acct) arow)
     \<and> (case na_password acct of None \<Rightarrow> t_passwords d' = t_passwords d
        | Some (h, x) \<Rightarrow> password_row_of d' (u_id (na_user acct)) = Some \<lparr>pw_user = u_id (na_user acct), pw_hash = h, pw_expires = x\<rparr>)
     \<and> (case na_invitation acct of None \<Rightarrow> t_pendings d' = t_pendings d
        | Some iv \<Rightarrow> \<lparr>pn_user = u_id (na_user acct), pn_issuer = iv_issuer iv, pn_email = iv_email iv, pn_expires = iv_expires iv\<rparr> \<in> set (t_pendings d'))
     \<and> t_sessions d' = t_sessions d \<and> t_tokens d' = t_tokens d \<and> t_links d' = t_links d"

lemma insert_user_row:
  assumes "insert_user u e t d = Inr (a, d1)"
  obtains row where "d1 = d\<lparr>t_users := t_users d @ [row]\<rparr>" "u_id u \<notin> ids_of d" "ur_id row = u_id u" "ur_kind row = u_kind u"
    "ur_role row = u_role u" "ur_status row = u_status u" "ur_policy row = encode_policy (u_policy u)"
    "ur_must_change row = u_must_change u" "ur_email row = null_string (u_email u)"
  using assms by (auto simp: insert_user_def Let_def user_exists_ids split: if_splits)

lemma upsert_only: "password_upsert i h x e t d = Inr (a, d') \<Longrightarrow> d' = d\<lparr>t_passwords := t_passwords d'\<rparr>
    \<and> password_row_of d' i = Some \<lparr>pw_user = i, pw_hash = h, pw_expires = x\<rparr>"
  using password_row_of_upsert [of i h x e t d a d' i] by simp

lemma invitation_only: "write_invitation i iv e t d = Inr (a, d') \<Longrightarrow> d' = d\<lparr>t_pendings := t_pendings d'\<rparr>
    \<and> \<lparr>pn_user = i, pn_issuer = iv_issuer iv, pn_email = iv_email iv, pn_expires = iv_expires iv\<rparr> \<in> set (t_pendings d')"
  by (auto simp: write_invitation_def Let_def split: if_splits)

lemma audit_only: "audit_insert ev e t d = Inr (a, d') \<Longrightarrow> \<exists>row. audit_of ev row \<and> d' = d\<lparr>t_audit := t_audit d @ [row]\<rparr>"
  by (rule exI [of _ "\<lparr>ar_at = (if ae_at ev = zero_time then clock e t else ae_at ev), ar_actor = null_uuid (ae_actor ev),
      ar_action = ae_action ev, ar_target = ae_target ev, ar_detail = ae_detail ev, ar_ip = ae_ip ev, ar_agent = ae_agent ev\<rparr>"])
    (auto simp: audit_insert_def audit_of_def Let_def split: if_splits)

lemma tx_then_Inr: "tx_then f g e t d = Inr (a, d') \<Longrightarrow> \<exists>b d1. f e t d = Inr (b, d1) \<and> g e t d1 = Inr (a, d')"
  by (auto simp: tx_then_def split: sum.splits)

lemma password_row_same: "t_passwords d' = t_passwords d \<Longrightarrow> password_row_of d' i = password_row_of d i"
  by (simp add: password_row_of_def)

lemma wp_users_create_account:
  assumes "\<And>x. Q (Inl x) (tick w)"
    and "\<And>d. account_written e acct (w_db w) d \<Longrightarrow> Q (Inr ()) ((tick w)\<lparr>w_db := d\<rparr>)"
  shows "wp (users_create_account acct) e w Q"
proof -
  have "account_written e acct (w_db w) d'"
    if "tx_then (insert_user (na_user acct))
     (tx_then (tx_opt (na_password acct) (\<lambda>(hash, expires). password_upsert (u_id (na_user acct)) hash expires))
     (tx_then (tx_opt (na_invitation acct) (write_invitation (u_id (na_user acct))))
       (audit_insert (na_audit acct)))) e (w_tick w) (w_db w) = Inr (a, d')" for a d'
  proof -
    let ?u = "u_id (na_user acct)"
    note tx = that
    obtain au d1 where i: "insert_user (na_user acct) e (w_tick w) (w_db w) = Inr (au, d1)"
      and r: "tx_then (tx_opt (na_password acct) (\<lambda>(hash, expires). password_upsert ?u hash expires))
        (tx_then (tx_opt (na_invitation acct) (write_invitation ?u)) (audit_insert (na_audit acct))) e (w_tick w) d1 = Inr (a, d')"
      using tx_then_Inr [OF tx] by blast
    obtain ap d2 where p: "tx_opt (na_password acct) (\<lambda>(hash, expires). password_upsert ?u hash expires) e (w_tick w) d1 = Inr (ap, d2)"
      and s: "tx_then (tx_opt (na_invitation acct) (write_invitation ?u)) (audit_insert (na_audit acct)) e (w_tick w) d2 = Inr (a, d')"
      using tx_then_Inr [OF r] by blast
    obtain ai d3 where v: "tx_opt (na_invitation acct) (write_invitation ?u) e (w_tick w) d2 = Inr (ai, d3)"
      and au: "audit_insert (na_audit acct) e (w_tick w) d3 = Inr (a, d')"
      using tx_then_Inr [OF s] by blast
    obtain row where row: "d1 = (w_db w)\<lparr>t_users := t_users (w_db w) @ [row]\<rparr>" "?u \<notin> ids_of (w_db w)" "ur_id row = ?u"
      "ur_kind row = u_kind (na_user acct)" "ur_role row = u_role (na_user acct)" "ur_status row = u_status (na_user acct)"
      "ur_policy row = encode_policy (u_policy (na_user acct))" "ur_must_change row = u_must_change (na_user acct)"
      "ur_email row = null_string (u_email (na_user acct))"
      by (rule insert_user_row [OF i])
    have d2: "d2 = d1\<lparr>t_passwords := t_passwords d2\<rparr>" "case na_password acct of None \<Rightarrow> t_passwords d2 = t_passwords d1
        | Some (h, x) \<Rightarrow> password_row_of d2 ?u = Some \<lparr>pw_user = ?u, pw_hash = h, pw_expires = x\<rparr>"
      using p by (auto simp: tx_opt_def split: option.splits prod.splits dest: upsert_only)
    have d3: "d3 = d2\<lparr>t_pendings := t_pendings d3\<rparr>" "case na_invitation acct of None \<Rightarrow> t_pendings d3 = t_pendings d2
        | Some iv \<Rightarrow> \<lparr>pn_user = ?u, pn_issuer = iv_issuer iv, pn_email = iv_email iv, pn_expires = iv_expires iv\<rparr> \<in> set (t_pendings d3)"
      using v by (auto simp: tx_opt_def split: option.splits dest: invitation_only)
    obtain arow where d': "audit_of (na_audit acct) arow" "d' = d3\<lparr>t_audit := t_audit d3 @ [arow]\<rparr>"
      using audit_only [OF au] by blast
    have eqs: "t_users d2 = t_users d1" "t_sessions d2 = t_sessions d1" "t_tokens d2 = t_tokens d1" "t_links d2 = t_links d1"
      "t_audit d2 = t_audit d1" "t_pendings d2 = t_pendings d1"
      using d2(1) by (cases d1, cases d2, simp)+
    have eqs': "t_users d3 = t_users d2" "t_sessions d3 = t_sessions d2" "t_tokens d3 = t_tokens d2" "t_links d3 = t_links d2"
      "t_audit d3 = t_audit d2" "t_passwords d3 = t_passwords d2"
      using d3(1) by (cases d2, cases d3, simp)+
    show ?thesis
      unfolding account_written_def
    proof (intro conjI)
      show "\<exists>row arow. t_users d' = t_users (w_db w) @ [row] \<and> ur_id row = ?u \<and> ur_kind row = u_kind (na_user acct)
          \<and> ur_role row = u_role (na_user acct) \<and> ur_status row = u_status (na_user acct)
          \<and> ur_policy row = encode_policy (u_policy (na_user acct)) \<and> ur_must_change row = u_must_change (na_user acct)
          \<and> ur_email row = null_string (u_email (na_user acct))
          \<and> t_audit d' = t_audit (w_db w) @ [arow] \<and> audit_of (na_audit acct) arow"
        using row d' by (intro exI [of _ row] exI [of _ arow]) (simp add: eqs eqs')
      show "case na_password acct of None \<Rightarrow> t_passwords d' = t_passwords (w_db w)
        | Some (h, x) \<Rightarrow> password_row_of d' ?u = Some \<lparr>pw_user = ?u, pw_hash = h, pw_expires = x\<rparr>"
        using d2(2) row(1) password_row_same [of d' d2 ?u] by (auto simp: d'(2) eqs eqs' split: option.splits prod.splits)
      show "case na_invitation acct of None \<Rightarrow> t_pendings d' = t_pendings (w_db w)
        | Some iv \<Rightarrow> \<lparr>pn_user = ?u, pn_issuer = iv_issuer iv, pn_email = iv_email iv, pn_expires = iv_expires iv\<rparr> \<in> set (t_pendings d')"
        using d3(2) row(1) by (simp add: d'(2) eqs eqs' split: option.splits)
    qed (use row(2) row(1) d'(2) in \<open>simp_all add: eqs eqs'\<close>)
  qed
  then show ?thesis
    using assms by (auto simp: users_create_account_def wp_exec split: sum.splits)
qed

text \<open>What a successful creation is: who may, what the account is like, and how its owner gets in.\<close>

definition way_in :: "admin_config \<Rightarrow> env \<Rightarrow> new_user \<Rightarrow> new_account \<Rightarrow> created_user \<Rightarrow> bool" where
  "way_in cfg e inp acct out \<longleftrightarrow> (let u = na_user acct in
     if nu_kind inp = kind_service
     then u_kind u = kind_service \<and> u_role u = role_user \<and> u_email u = [] \<and> na_password acct = None \<and> na_invitation acct = None
       \<and> cu_temporary out = None
     else nu_kind inp = kind_human \<and> u_kind u = kind_human \<and> u_email u = trim_space (nu_email inp) \<and> valid_address (u_email u)
       \<and> (if nu_sign_in inp = sign_in_password
          then u_must_change u \<and> na_invitation acct = None
            \<and> (\<exists>temp h salt. cu_temporary out = Some temp \<and> na_password acct = Some (h, Some (tp_expires temp))
                \<and> length salt = argon_salt_len \<and> hash_password (argon2 e) (Some salt) (tp_password temp) = Inr h)
          else nu_sign_in inp = sign_in_oidc \<and> ad_issuer cfg \<noteq> [] \<and> \<not> u_must_change u \<and> na_password acct = None
            \<and> cu_temporary out = None
            \<and> (\<exists>x. na_invitation acct = Some \<lparr>iv_issuer = ad_issuer cfg, iv_email = u_email u, iv_expires = x\<rparr>
                \<and> uv_invitation (cu_user out) = Some x)))"

definition drafted :: "new_user \<Rightarrow> string \<Rightarrow> policy \<Rightarrow> new_account \<Rightarrow> created_user \<Rightarrow> bool" where
  "drafted inp role p acct out \<longleftrightarrow> uv_user (cu_user out) = na_user acct \<and> u_name (na_user acct) = trim_space (nu_name inp)
     \<and> u_role (na_user acct) = role \<and> u_status (na_user acct) = status_active \<and> u_policy (na_user acct) = p"

lemma wp_new_service_account:
  assumes "\<And>x w'. w_db w' = w_db w \<Longrightarrow> Q (Inl x) w'"
    and "\<And>acct out w'. w_db w' = w_db w \<Longrightarrow> way_in cfg e inp acct out \<Longrightarrow> drafted inp role p acct out \<Longrightarrow> Q (Inr (acct, out)) w'"
    and "nu_kind inp = kind_service"
  shows "wp (new_service_account inp (trim_space (nu_name inp)) role p now) e w Q"
  using assms(1,3) unfolding new_service_account_def
  by (auto simp: wp_simps Let_def way_in_def drafted_def new_service_def user_zero_def intro!: assms(2))

lemma wp_new_human_account:
  assumes "\<And>x w'. w_db w' = w_db w \<Longrightarrow> Q (Inl x) w'"
    and "\<And>acct out w'. w_db w' = w_db w \<Longrightarrow> way_in cfg e inp acct out \<Longrightarrow> drafted inp role p acct out \<Longrightarrow> Q (Inr (acct, out)) w'"
    and "nu_kind inp = kind_human"
  shows "wp (new_human_account cfg inp (trim_space (nu_name inp)) role p now) e w Q"
proof -
  have "kind_human \<noteq> kind_service" "sign_in_oidc \<noteq> sign_in_password"
    by (simp_all add: kind_human_def kind_service_def sign_in_oidc_def sign_in_password_def)
  then show ?thesis
    using assms(1,3) unfolding new_human_account_def Let_def
    by (auto simp: wp_simps Let_def way_in_def drafted_def human_user_def user_zero_def intro!: wp_draw_temporary assms(2)) blast+
qed

lemma account_written_audit: "account_written e acct d d' \<Longrightarrow> na_audit acct = ev \<Longrightarrow>
    \<exists>row. t_audit d' = t_audit d @ [row] \<and> audit_of ev row"
  by (auto simp: account_written_def)

lemma way_in_audit [simp]: "way_in cfg e inp (acct\<lparr>na_audit := ev\<rparr>) out = way_in cfg e inp acct out"
  "drafted inp role p (acct\<lparr>na_audit := ev\<rparr>) out = drafted inp role p acct out"
  by (simp_all add: way_in_def drafted_def Let_def)

definition created :: "admin_config \<Rightarrow> env \<Rightarrow> user \<Rightarrow> new_user \<Rightarrow> new_account \<Rightarrow> created_user \<Rightarrow> bool" where
  "created cfg e actor inp acct out \<longleftrightarrow> require_admin actor = Inr () \<and> way_in cfg e inp acct out
     \<and> (\<exists>p. parse_policy (nu_policy inp) = Inr p \<and> drafted inp (if nu_role inp = [] then role_user else nu_role inp) p acct out)
     \<and> trim_space (nu_name inp) \<noteq> [] \<and> valid_role (u_role (na_user acct))
     \<and> ae_actor (na_audit acct) = u_id actor \<and> ae_action (na_audit acct) = ''user.create''
     \<and> ae_target (na_audit acct) = uuid_str (ids e) (u_id (na_user acct))"

lemma wp_create_user:
  assumes "\<And>x w'. w_db w' = w_db w \<Longrightarrow> Q (Inl x) w'"
    and "\<And>acct out w'. created cfg e actor inp acct out \<Longrightarrow> account_written e acct (w_db w) (w_db w') \<Longrightarrow> Q (Inr out) w'"
  shows "wp (create_user cfg actor inp) e w Q"
proof -
  have fin: "wp (bnd (asks (\<lambda>e. change_event e (u_id actor) ''user.create'' (u_id (na_user acct)) now
        (create_detail (na_user acct) (nu_sign_in inp)))) (\<lambda>ev.
     bnd (users_create_account (acct\<lparr>na_audit := ev\<rparr>)) (\<lambda>_. ret out))) e v Q"
    if "w_db v = w_db w" "way_in cfg e inp acct out" "drafted inp (if nu_role inp = [] then role_user else nu_role inp) p acct out"
      "require_admin actor = Inr ()" "parse_policy (nu_policy inp) = Inr p" "trim_space (nu_name inp) \<noteq> []"
      "valid_role (if nu_role inp = [] then role_user else nu_role inp)" for v acct out p now
  proof -
    let ?ev = "change_event e (u_id actor) ''user.create'' (u_id (na_user acct)) now (create_detail (na_user acct) (nu_sign_in inp))"
    have "created cfg e actor inp (acct\<lparr>na_audit := ?ev\<rparr>) out"
      using that by (auto simp: created_def change_event_def drafted_def)
    then show ?thesis
      using that(1) assms by (auto simp: wp_bnd wp_asks wp_ret intro!: wp_users_create_account)
  qed
  show ?thesis
    unfolding create_user_def Let_def
    by (cases "require_admin actor"; cases "parse_policy (nu_policy inp)")
      (auto simp: wp_bnd [of "lift _"] wp_bnd [of now_io] wp_bnd [of "raise _"] wp_bnd [of "new_service_account _ _ _ _ _"]
        wp_bnd [of "new_human_account _ _ _ _ _ _"] wp_lift wp_now wp_raise
        intro!: assms(1) wp_new_service_account wp_new_human_account fin)
qed

text \<open>An administrator's creation of an account is all or nothing. A refusal leaves the database
  as it was. A success is an administrator's, and left one new row under a fresh id with the audit
  record of who made it: a service is a plain user with no address and no way to sign in, a person
  by OIDC an invitation for the address at the configured issuer, a person by password the hash the
  temporary password verifies against, expiring with it, and the order to choose another.\<close>

lemma create_user_effect:
  assumes "create_user cfg actor inp e w = (r, w')" and "\<And>pw s t m p n. length (argon2 e pw s t m p n) = n"
  shows "case r of Inl x \<Rightarrow> w_db w' = w_db w
    | Inr out \<Rightarrow> (\<exists>acct. created cfg e actor inp acct out \<and> account_written e acct (w_db w) (w_db w')
        \<and> (cu_temporary out = None
           \<or> (\<exists>temp h. cu_temporary out = Some temp
               \<and> password_row_of (w_db w') (u_id (na_user acct))
                   = Some \<lparr>pw_user = u_id (na_user acct), pw_hash = h, pw_expires = Some (tp_expires temp)\<rparr>
               \<and> verify_password (argon2 e) h (tp_password temp))))"
proof -
  have "wp (create_user cfg actor inp) e w (\<lambda>r w'. case r of Inl x \<Rightarrow> w_db w' = w_db w
      | Inr out \<Rightarrow> \<exists>acct. created cfg e actor inp acct out \<and> account_written e acct (w_db w) (w_db w'))"
    by (rule wp_create_user) auto
  then have "case r of Inl x \<Rightarrow> w_db w' = w_db w
      | Inr out \<Rightarrow> \<exists>acct. created cfg e actor inp acct out \<and> account_written e acct (w_db w) (w_db w')"
    using assms(1) by (rule wp_run)
  moreover have "cu_temporary out = None
           \<or> (\<exists>temp h. cu_temporary out = Some temp
               \<and> password_row_of d' (u_id (na_user acct))
                   = Some \<lparr>pw_user = u_id (na_user acct), pw_hash = h, pw_expires = Some (tp_expires temp)\<rparr>
               \<and> verify_password (argon2 e) h (tp_password temp))"
    if "created cfg e actor inp acct out" "account_written e acct d d'" for acct out d d'
    using that hash_verifies [OF assms(2)]
    by (auto simp: created_def way_in_def account_written_def Let_def split: if_splits)
  ultimately show ?thesis by (cases r) (simp, simp, blast)
qed

lemma reset_failed_restricts: "reset_failed i d d' \<Longrightarrow>
    t_passwords d' = t_passwords d \<or> (\<forall>r \<in> set (t_users d'). ur_id r = i \<longrightarrow> ur_must_change r)"
  by (auto simp: reset_failed_def)

lemma reset_done_restricts: "reset_done e i now temp d d' \<Longrightarrow> \<forall>r \<in> set (t_users d'). ur_id r = i \<longrightarrow> ur_must_change r"
proof -
  assume "reset_done e i now temp d d'"
  then have "d' = d\<lparr>t_users := map (\<lambda>r. if ur_id r = i then r\<lparr>ur_must_change := True\<rparr> else r) (t_users d),
      t_passwords := t_passwords d', t_sessions := filter (\<lambda>r. ss_user r \<noteq> i) (t_sessions d)\<rparr>"
    by (simp add: reset_done_def)
  then have "t_users d' = t_users (map_user i (\<lambda>r. r\<lparr>ur_must_change := True\<rparr>) d)"
    by (cases d, cases d') (simp add: map_user_def)
  then show ?thesis using map_user_restricted by simp
qed

lemma reset_done_sessions: "reset_done e i now temp d d' \<Longrightarrow> t_sessions d' = filter (\<lambda>r. ss_user r \<noteq> i) (t_sessions d)"
  unfolding reset_done_def by (cases d, cases d') simp

lemma reset_done_verifies:
  assumes "reset_done e i now temp d d'" and "\<And>pw s t m p n. length (argon2 e pw s t m p n) = n"
  shows "\<exists>h. password_row_of d' i = Some \<lparr>pw_user = i, pw_hash = h, pw_expires = Some (tp_expires temp)\<rparr>
    \<and> verify_password (argon2 e) h (tp_password temp)"
proof -
  obtain h salt where "password_row_of d' i = Some \<lparr>pw_user = i, pw_hash = h, pw_expires = Some (tp_expires temp)\<rparr>"
    "length salt = argon_salt_len" "hash_password (argon2 e) (Some salt) (tp_password temp) = Inr h"
    using assms(1) by (auto simp: reset_done_def)
  then show ?thesis using hash_verifies [where idkey = "argon2 e", OF assms(2)] by blast
qed

text \<open>What an administrator's reset is once it has succeeded.\<close>

definition reset_by :: "env \<Rightarrow> user \<Rightarrow> uuid \<Rightarrow> temporary_password \<Rightarrow> db \<Rightarrow> db \<Rightarrow> bool" where
  "reset_by e actor i temp d d' \<longleftrightarrow> require_admin actor = Inr ()
     \<and> (\<exists>u now m row. scan_user (find (\<lambda>r. ur_id r = i) (t_users d)) = Inr u \<and> u_kind u = kind_human
          \<and> reset_done e i now temp d m \<and> d' = m\<lparr>t_audit := t_audit m @ [row]\<rparr>
          \<and> ar_action row = ''user.password_reset'' \<and> ar_actor row = null_uuid (u_id actor) \<and> ar_target row = uuid_str (ids e) i)"

lemma wp_admin_reset:
  assumes "\<And>x w'. t_passwords (w_db w') = t_passwords (w_db w)
      \<or> require_admin actor = Inr () \<and> (\<forall>r \<in> set (t_users (w_db w')). ur_id r = i \<longrightarrow> ur_must_change r) \<Longrightarrow> Q (Inl x) w'"
    and "\<And>temp w'. reset_by e actor i temp (w_db w) (w_db w') \<Longrightarrow> Q (Inr temp) w'"
  shows "wp (admin_reset_password actor i) e w Q"
proof (cases "require_admin actor")
  case (Inl x)
  then show ?thesis by (simp add: admin_reset_password_def wp_simps assms(1))
next
  case (Inr _)
  note admin = Inr [simplified]
  show ?thesis
  proof (cases "scan_user (find (\<lambda>r. ur_id r = i) (t_users (w_db w)))")
    case (Inl x)
    then show ?thesis using admin by (simp add: admin_reset_password_def users_by_id_def wp_simps assms(1))
  next
    case (Inr u)
    have i: "u_id u = i" using scan_id [OF Inr] .
    have early: "Q (Inl x) w'" if "w_db w' = w_db w" for x w' using that by (intro assms(1)) simp
    have failed: "Q (Inl x) w'" if "reset_failed i (w_db w) (w_db w')" for x w'
      using reset_failed_restricts [OF that] admin by (intro assms(1)) auto
    have unrecorded: "Q (Inl x) w'" if "reset_done e i now temp (w_db w) (w_db w')" for x w' now temp
      using reset_done_restricts [OF that] admin by (intro assms(1)) auto
    have won: "Q (Inr temp) w'"
      if "reset_done e i now temp (w_db w) m" "w_db w' = m\<lparr>t_audit := t_audit m @ [row]\<rparr>" "u_kind u = kind_human"
        "ar_action row = ''user.password_reset''" "ar_actor row = null_uuid (u_id actor)" "ar_target row = uuid_str (ids e) i"
      for now temp m row w'
      using that Inr admin by (intro assms(2)) (auto simp: reset_by_def)
    show ?thesis
      using admin Inr i
      by (auto simp: admin_reset_password_def users_by_id_def wp_simps early intro!: wp_reset_password wp_record_change
          intro: failed) (rule unrecorded, simp, rule won, auto)
  qed
qed

text \<open>An administrator's reset. A success is an administrator's, of a person's account; it leaves
  the account a password that verifies the one drawn and expires 72 hours later, the order to change
  it and no session, and an audit record by the administrator; nobody else's password changed. A
  failure never leaves a new password on an account that need not change it.\<close>

lemma admin_reset_effect:
  assumes "admin_reset_password actor i e w = (r, w')" and "\<And>pw s t m p n. length (argon2 e pw s t m p n) = n"
  shows "case r of
      Inl x \<Rightarrow> t_passwords (w_db w') = t_passwords (w_db w)
        \<or> require_admin actor = Inr () \<and> (\<forall>row \<in> set (t_users (w_db w')). ur_id row = i \<longrightarrow> ur_must_change row)
    | Inr temp \<Rightarrow> reset_by e actor i temp (w_db w) (w_db w')
        \<and> i \<notin> ss_user ` set (t_sessions (w_db w'))
        \<and> (\<exists>h now. password_row_of (w_db w') i = Some \<lparr>pw_user = i, pw_hash = h, pw_expires = Some (now + 72 * ns_hour)\<rparr>
            \<and> tp_expires temp = now + 72 * ns_hour \<and> verify_password (argon2 e) h (tp_password temp))"
proof -
  have "wp (admin_reset_password actor i) e w (\<lambda>r w'. case r of
      Inl x \<Rightarrow> t_passwords (w_db w') = t_passwords (w_db w)
        \<or> require_admin actor = Inr () \<and> (\<forall>row \<in> set (t_users (w_db w')). ur_id row = i \<longrightarrow> ur_must_change row)
    | Inr temp \<Rightarrow> reset_by e actor i temp (w_db w) (w_db w'))"
    by (rule wp_admin_reset) auto
  note this [THEN wp_run, OF assms(1)]
  moreover have "i \<notin> ss_user ` set (t_sessions d')
        \<and> (\<exists>h now. password_row_of d' i = Some \<lparr>pw_user = i, pw_hash = h, pw_expires = Some (now + 72 * ns_hour)\<rparr>
            \<and> tp_expires temp = now + 72 * ns_hour \<and> verify_password (argon2 e) h (tp_password temp))"
    if "reset_by e actor i temp d d'" for temp d d'
  proof -
    note by_admin = that [unfolded reset_by_def]
    obtain now m row where m: "reset_done e i now temp d m" "d' = m\<lparr>t_audit := t_audit m @ [row]\<rparr>"
      using by_admin by blast
    have "tp_expires temp = now + 72 * ns_hour" using m(1) by (simp add: reset_done_def temporary_ttl_def)
    then show ?thesis
      using reset_done_verifies [OF m(1) assms(2)] reset_done_sessions [OF m(1)] by (auto simp: m(2) password_row_of_def)
  qed
  ultimately show ?thesis by (auto split: sum.splits)
qed

section \<open>Witnesses\<close>

definition example_admin_cfg :: admin_config where
  "example_admin_cfg = \<lparr>ad_issuer = ''https://idp'', ad_mapping = False\<rparr>"

definition blocking :: user_changes where
  "blocking = \<lparr>ux_name = None, ux_role = None, ux_status = Some status_blocked, ux_policy = None\<rparr>"

lemma blocking_simps [simp]: "ux_name blocking = None" "ux_role blocking = None" "ux_status blocking = Some status_blocked"
  "ux_policy blocking = None"
  by (simp_all add: blocking_def)

definition new_service_input :: new_user where
  "new_service_input = \<lparr>nu_kind = kind_service, nu_email = [], nu_name = '' ci '', nu_role = [], nu_policy = [], nu_sign_in = []\<rparr>"

lemma example_require_admin: "require_admin example_admin = Inr ()"
  by (simp add: require_admin_def example_admin_def example_user_def uuid_nil_def can_sign_in_def)

lemma example_admin_row: "admin_row 1 example_db"
  by (simp add: admin_row_def example_db_def example_row_def)

theorem administrators_remain_witness:
  "\<exists>r. r \<in> set (t_users (w_db (fold (admin_request example_admin_cfg example_env)
       [(1, UpdateAccountCall 1 blocking), (1, UpdateAccountCall 2 blocking), (2, ResetCall 1), (1, CreateUserCall new_service_input)] example_world)))
    \<and> ur_kind r = kind_human \<and> ur_role r = role_admin \<and> ur_status r = status_active"
proof -
  have "\<exists>r \<in> set (t_users (w_db example_world)). ur_kind r = kind_human \<and> ur_role r = role_admin \<and> ur_status r = status_active"
    using example_admin_row by (auto simp: admin_row_def example_world_def)
  from administrators_remain [OF this] show ?thesis by blast
qed

lemma example_block: "\<exists>v w'. update_account example_admin_cfg example_admin 2 blocking example_env example_world = (Inr v, w')"
proof -
  have "parse_rule ''chatgpt:gpt-*'' = Inr \<lparr>provider = ''chatgpt'', model_pattern = ''gpt-*'', compiled = Some (compile_glob ''gpt-*'')\<rparr>"
    by code_simp
  then have view: "\<exists>v. row_view now d ((example_row 2 kind_human (Some ''ada@example.org'') role_user)\<lparr>ur_status := status_blocked\<rparr>) = Inr v" for now d
    by (simp add: row_view_def row_user_def example_row_def decode_policy_def Let_def)
  have change: "admin_change_of example_admin_cfg blocking
      = Inr (\<lparr>ch_name = None, ch_role = None, ch_status = Some status_blocked, ch_policy = None, ch_refuse_idp = False\<rparr>,
          [(''status'', JStr status_blocked)])"
    by (simp add: admin_change_of_def and_then_def change_name_def change_role_def change_status_def change_policy_def
        example_admin_cfg_def)
  have "\<not> self_lockout example_admin 2 blocking" by (simp add: self_lockout_def example_admin_def example_user_def)
  moreover have "u_id example_admin = 1" by (simp add: example_admin_def example_user_def)
  ultimately have "wp (update_account example_admin_cfg example_admin 2 blocking) example_env example_world (\<lambda>r w'. \<exists>v. r = Inr v)"
    using example_users view
    by (simp add: update_account_eq write_edit_def change example_require_admin users_by_id_def wp_simps Let_def
        users_update_admin_state_def change_refused_def coalesce_def sessions_delete_by_user_def record_change_def audit_record_def
        audit_insert_def change_event_def null_uuid_def uuid_nil_def users_view_def map_user_def apply_change_def user_exists_ids ref_ok_ids)
      (simp add: wp_simps audit_record_def audit_insert_def change_refused_def coalesce_def map_user_def apply_change_def null_uuid_def
        uuid_nil_def ref_ok_def user_exists_def example_env_def example_world_def example_db_def ids_of_def example_row_def)
  then show ?thesis by (auto simp: wp_def split: prod.splits)
qed

theorem blocked_is_out_witness:
  "\<exists>v w'. update_account example_admin_cfg example_admin 2 blocking example_env example_world = (Inr v, w')
    \<and> 2 \<notin> ss_user ` set (t_sessions (w_db w'))
    \<and> \<not> (credentials example_env example_cfg 0 (w_db w') ''ada@example.org'' ''correct horse'' ada \<and> u_id ada = 2)"
proof -
  obtain v w' where run: "update_account example_admin_cfg example_admin 2 blocking example_env example_world = (Inr v, w')"
    using example_block by blast
  have "ux_status blocking = Some status_blocked" "db_ok example_env (w_db example_world)"
    using example_db_ok by (simp_all add: blocking_def example_world_def)
  from blocked_is_out [OF run this] show ?thesis using run by blast
qed

lemma example_create: "\<exists>out w'. create_user example_admin_cfg example_admin new_service_input argon_env example_world = (Inr out, w')"
proof -
  have "trim_space '' ci '' = ''ci''" "kind_service \<noteq> kind_human" by code_simp+
  then have "wp (create_user example_admin_cfg example_admin new_service_input) argon_env example_world (\<lambda>r w'. \<exists>out. r = Inr out)"
    by (simp add: create_user_def example_require_admin new_service_input_def new_service_account_def wp_simps Let_def valid_role_def
        users_create_account_def tx_then_def tx_opt_def insert_user_def new_service_def user_zero_def user_checks_def audit_insert_def
        change_event_def null_uuid_def uuid_nil_def null_string_def email_taken_def)
      (simp add: argon_env_def example_env_def example_world_def example_db_def example_row_def user_exists_def ref_ok_def example_admin_def
        example_user_def)
  then show ?thesis by (auto simp: wp_def split: prod.splits)
qed

lemma argon_env_length: "length (argon2 argon_env pw salt t m p n) = n"
  by (simp add: argon_env_def example_argon_def)

text \<open>With every call answered, drawing and resetting a password of an account there is succeeds.\<close>

lemma hash_succeeds:
  assumes "\<And>n. \<not> fault e n" "plain \<noteq> []" "\<And>h w'. w_db w' = w_db w \<Longrightarrow> Q (Inr h) w'"
  shows "wp (hasher_hash plain) e w Q"
  using assms by (simp add: hasher_hash_def hasher_acquire_def hash_io_def hash_password_def wp_simps)

lemma draw_succeeds:
  assumes "\<And>n. \<not> fault e n" "\<And>temp h w'. w_db w' = w_db w \<Longrightarrow> Q (Inr (temp, h)) w'"
  shows "wp (draw_temporary_password now) e w Q"
proof -
  have "b64_encode url_alphabet raw \<noteq> []" if "length raw = 24" for raw :: string
    using that b64_encode_length [of url_alphabet raw] by auto
  then show ?thesis
    using assms by (auto simp: draw_temporary_password_def new_temporary_password_def temporary_len_def wp_simps intro!: hash_succeeds)
qed

lemma reset_succeeds:
  assumes "\<And>n. \<not> fault e n" "i \<in> ids_of (w_db w)"
    "\<And>temp w'. ids_of (w_db w') = ids_of (w_db w) \<Longrightarrow> Q (Inr temp) w'"
  shows "wp (reset_password i now) e w Q"
  unfolding reset_password_def wp_bnd [of "draw_temporary_password _"]
  using assms
  by (intro draw_succeeds)
    (auto simp: wp_simps users_set_must_change_def update_user_def passwords_set_def password_upsert_def sessions_delete_by_user_def
      user_exists_ids ids_of_map intro!: assms(3))

lemma example_reset: "\<exists>temp w'. admin_reset_password example_admin 2 argon_env example_world = (Inr temp, w')"
proof -
  have "u_id ada = 2" "u_kind ada = kind_human" "u_id example_admin = 1" by (simp_all add: example_user_def example_admin_def)
  moreover have "\<not> fault argon_env n" for n by (simp add: argon_env_def example_env_def)
  moreover have "w_db example_world = example_db" "ids_of example_db = {1, 2, 3}"
    by (auto simp: example_world_def example_db_def ids_of_def example_row_def)
  ultimately have "wp (admin_reset_password example_admin 2) argon_env example_world (\<lambda>r w'. \<exists>temp. r = Inr temp)"
    using example_users
    by (auto simp: admin_reset_password_def example_require_admin users_by_id_def wp_simps record_change_def audit_record_def
        audit_insert_def change_event_def ref_ok_ids null_uuid_def Let_def intro!: reset_succeeds)
  then show ?thesis by (auto simp: wp_def split: prod.splits)
qed

end
