(* ===== verification/Operator.thy ===== *)
theory Operator
  imports AdminSafety
begin

text \<open>
  What the operator of an installation relies on: the first start creates one administrator and never
  a second, the reset from the shell of the host unblocks nobody but the last administrator, and
  the preview of a policy shows what the policy admits.
\<close>

section \<open>Recovery\<close>

definition active_admin :: "user_row \<Rightarrow> bool" where
  "active_admin r \<longleftrightarrow> ur_kind r = kind_human \<and> ur_role r = role_admin \<and> ur_status r = status_active"

lemma another_admin_ex:
  "another_admin i views \<longleftrightarrow> (\<exists>v \<in> set views. u_id (uv_user v) \<noteq> i \<and> u_role (uv_user v) = role_admin \<and> can_sign_in (uv_user v))"
  by (induction i views rule: another_admin.induct) auto

lemma row_view_user: "row_view now d r = Inr v \<Longrightarrow> row_user r = Inr (uv_user v)"
  by (auto simp: row_view_def Let_def split: sum.splits)

lemma collect_Inr_mem: "collect f xs = Inr ys \<Longrightarrow> x \<in> set xs \<Longrightarrow> \<exists>y \<in> set ys. f x = Inr y"
  by (induction xs arbitrary: ys) (auto split: sum.splits)

lemma list_set_rows:
  assumes "collect (row_view now d) (sort_key ur_created (sort_key ur_id us)) = Inr views"
  shows "another_admin i views \<longleftrightarrow> (\<exists>r \<in> set us. ur_id r \<noteq> i \<and> active_admin r)"
proof -
  have all: "\<forall>v \<in> set views. \<exists>r \<in> set us. row_view now d r = Inr v" "\<forall>r \<in> set us. \<exists>v \<in> set views. row_view now d r = Inr v"
    using collect_Inr_set [OF assms] collect_Inr_mem [OF assms] by auto
  have "u_id (uv_user v) = ur_id r \<and> (u_role (uv_user v) = role_admin \<and> can_sign_in (uv_user v) \<longleftrightarrow> active_admin r)"
    if "row_view now d r = Inr v" for r v
    using row_user_fields [OF row_view_user [OF that]] by (auto simp: active_admin_def can_sign_in_def)
  then show ?thesis unfolding another_admin_ex using all by metis
qed

lemma wp_other_active_admin:
  assumes "\<And>x. Q (Inl x) (tick w)" "Q (Inr (\<exists>r \<in> set (t_users (w_db w)). ur_id r \<noteq> i \<and> active_admin r)) (tick w)"
  shows "wp (other_active_admin i) e w Q"
proof -
  consider x where "collect (row_view (db_clock e (w_tick w)) (w_db w)) (sort_key ur_created (sort_key ur_id (t_users (w_db w)))) = Inl x"
    | views where "collect (row_view (db_clock e (w_tick w)) (w_db w)) (sort_key ur_created (sort_key ur_id (t_users (w_db w)))) = Inr views"
    by (cases "collect (row_view (db_clock e (w_tick w)) (w_db w)) (sort_key ur_created (sort_key ur_id (t_users (w_db w))))")
  then show ?thesis
  proof cases
    case 1
    then show ?thesis using assms(1) by (simp add: other_active_admin_def users_list_def wp_simps)
  next
    case 2
    then show ?thesis using assms list_set_rows [OF 2, of i] by (simp add: other_active_admin_def users_list_def wp_simps)
  qed
qed

lemma wp_users_unblock:
  assumes "\<And>x. Q (Inl x) (tick w)"
    and "\<And>row. audit_of ev row \<Longrightarrow> Q (Inr ()) ((tick w)\<lparr>w_db := (map_user i (\<lambda>r. r\<lparr>ur_status := status_active\<rparr>) (w_db w))
      \<lparr>t_audit := t_audit (w_db w) @ [row]\<rparr>\<rparr>)"
  shows "wp (users_unblock i ev) e w Q"
proof -
  have "Q (Inr ()) ((tick w)\<lparr>w_db := d\<rparr>)"
    if "tx_then (update_user i (\<lambda>r. r\<lparr>ur_status := status_active\<rparr>)) (audit_insert ev) e (w_tick w) (w_db w) = Inr (a, d)" for a d
  proof -
    note tx = that
    obtain b m where "update_user i (\<lambda>r. r\<lparr>ur_status := status_active\<rparr>) e (w_tick w) (w_db w) = Inr (b, m)"
      and au: "audit_insert ev e (w_tick w) m = Inr (a, d)"
      using tx_then_Inr [OF tx] by blast
    then have m: "m = map_user i (\<lambda>r. r\<lparr>ur_status := status_active\<rparr>) (w_db w)" by (auto simp: update_user_def split: if_splits)
    obtain row where "audit_of ev row" "d = m\<lparr>t_audit := t_audit m @ [row]\<rparr>" using audit_only [OF au] by blast
    then show ?thesis using assms(2) by (simp add: m map_user_def)
  qed
  then show ?thesis using assms(1) by (auto simp: users_unblock_def wp_exec split: sum.splits)
qed

definition finish_recovery :: "user \<Rightarrow> bool \<Rightarrow> recovered io" where
  "finish_recovery u unblocked =
     bnd now_io (\<lambda>now.
       bnd (if unblocked
            then bnd (asks (\<lambda>e. change_event e uuid_nil ''user.update'' (u_id u) now
                   [(''via'', JStr ''cli''), (''status'', JStr status_active)])) (users_unblock (u_id u))
            else ret ()) (\<lambda>_.
       bnd (reset_password (u_id u) now) (\<lambda>temp.
       bnd (attempts_clear (u_email u)) (\<lambda>_.
       bnd (record_change uuid_nil ''user.password_reset'' (u_id u) now
              [(''via'', JStr ''cli''), (''expires_at'', JStr (rfc3339 (tp_expires temp)))]) (\<lambda>_.
       ret \<lparr>rc_user = u\<lparr>u_status := (if unblocked then status_active else u_status u), u_must_change := True\<rparr>,
            rc_password = temp, rc_unblocked = unblocked\<rparr>)))))"

lemma recover_password_eq:
  "recover_password email unblock =
     bnd (users_by_email (trim_space email)) (\<lambda>u.
     if u_kind u \<noteq> kind_human then raise ENotLocal
     else
       bnd (if u_status u \<noteq> status_active
            then
              bnd (if u_role u = role_admin then bnd (other_active_admin (u_id u)) (\<lambda>other. ret (\<not> other)) else ret False) (\<lambda>can.
              if \<not> unblock \<or> \<not> can then raise (EBlocked can) else ret True)
            else ret False) (finish_recovery u))"
  unfolding recover_password_def finish_recovery_def by (rule refl)

text \<open>The tables a recovery resets the password in, and the ones it leaves.\<close>

definition unblocked_db :: "uuid \<Rightarrow> bool \<Rightarrow> audit_row \<Rightarrow> db \<Rightarrow> db" where
  "unblocked_db i unblocked row d =
     (if unblocked then (map_user i (\<lambda>r. r\<lparr>ur_status := status_active\<rparr>) d)\<lparr>t_audit := t_audit d @ [row]\<rparr> else d)"

definition recovery_left :: "env \<Rightarrow> user \<Rightarrow> recovered \<Rightarrow> db \<Rightarrow> db \<Rightarrow> bool" where
  "recovery_left e u rec d d' \<longleftrightarrow> (\<exists>now m urow row.
     reset_done e (u_id u) now (rc_password rec) (unblocked_db (u_id u) (rc_unblocked rec) urow d) m
     \<and> d' = m\<lparr>t_attempts := filter (\<lambda>r. la_email r \<noteq> sql_lower e (u_email u)) (t_attempts m), t_audit := t_audit m @ [row]\<rparr>
     \<and> ar_action row = ''user.password_reset'' \<and> ar_actor row = None \<and> ar_target row = uuid_str (ids e) (u_id u))"

definition statuses :: "db \<Rightarrow> string list" where
  "statuses d = map ur_status (t_users d)"

interpretation ranking: evolution "\<lambda>e d d'. statuses d = statuses d'"
  by (rule evolution_same)

lemma statuses_map: "(\<And>r. ur_status (f r) = ur_status r) \<Longrightarrow> statuses (map_user i f d) = statuses d"
  by (simp add: statuses_def map_user_def)

lemma statuses_reset: "evolves (\<lambda>e d d'. statuses d = statuses d') (reset_password i now)"
proof -
  have upsert: "statuses d = statuses d'" if "password_upsert i h x e t d = Inr (a, d')" for h x e t d a d'
    using upsert_users [OF that] by (simp add: statuses_def)
  have sessions: "statuses (d\<lparr>t_sessions := x\<rparr>) = statuses d" for d x by (simp add: statuses_def)
  show ?thesis
    unfolding reset_password_def draw_temporary_password_def new_temporary_password_def users_set_must_change_def passwords_set_def
      hasher_hash_def hasher_acquire_def hash_io_def sessions_delete_by_user_def
    by (intro ranking.ev_rules ranking.ev_exec)
      (auto simp: evolves_stmt_def update_user_def statuses_map sessions dest: upsert split: if_splits)
qed

lemma statuses_finish: "evolves (\<lambda>e d d'. statuses d = statuses d') (finish_recovery u False)"
  unfolding finish_recovery_def if_False record_change_def audit_record_def attempts_clear_def
  by (intro ranking.ev_rules ranking.ev_exec statuses_reset)
    (auto simp: evolves_stmt_def audit_insert_def Let_def statuses_def split: if_splits)

lemma wp_finish_recovery:
  assumes "\<And>x w'. (\<not> unblocked \<Longrightarrow> statuses (w_db w') = statuses (w_db w)) \<Longrightarrow> Q (Inl x) w'"
    and "\<And>rec w'. recovery_left e u rec (w_db w) (w_db w') \<Longrightarrow> rc_unblocked rec = unblocked \<Longrightarrow>
      rc_user rec = u\<lparr>u_status := (if unblocked then status_active else u_status u), u_must_change := True\<rparr> \<Longrightarrow> Q (Inr rec) w'"
  shows "wp (finish_recovery u unblocked) e w Q"
proof -
  have run: "wp (finish_recovery u unblocked) e w (\<lambda>r w'. isl r \<or> (\<exists>rec. r = Inr rec \<and> recovery_left e u rec (w_db w) (w_db w')
      \<and> rc_unblocked rec = unblocked
      \<and> rc_user rec = u\<lparr>u_status := (if unblocked then status_active else u_status u), u_must_change := True\<rparr>))"
  proof -
    have won: "recovery_left e u rec (w_db w) d'"
      if "rc_password rec = temp" "rc_unblocked rec = unblocked" "reset_done e (u_id u) now temp (unblocked_db (u_id u) unblocked urow (w_db w)) m"
        "d' = m\<lparr>t_attempts := filter (\<lambda>r. la_email r \<noteq> sql_lower e (u_email u)) (t_attempts m), t_audit := t_audit m @ [row]\<rparr>"
        "ar_action row = ''user.password_reset''" "ar_actor row = None" "ar_target row = uuid_str (ids e) (u_id u)"
      for rec temp d' now m urow row
      using that unfolding recovery_left_def by (intro exI conjI) simp_all
    show ?thesis
    proof (cases unblocked)
      case True
      then show ?thesis
        by (auto simp: finish_recovery_def wp_simps attempts_clear_def null_uuid_def
            intro!: wp_users_unblock wp_reset_password wp_record_change)
          (rule won, auto simp: unblocked_db_def)
    next
      case False
      then show ?thesis
        by (auto simp: finish_recovery_def wp_simps attempts_clear_def null_uuid_def
            intro!: wp_users_unblock wp_reset_password wp_record_change)
          (rule won, auto simp: unblocked_db_def)
    qed
  qed
  obtain r w' where r: "finish_recovery u unblocked e w = (r, w')" by fastforce
  have "Q r w'"
  proof (cases r)
    case (Inl x)
    then show ?thesis
      using assms(1) [of w' x] evolves_run [OF statuses_finish, of u e w] r by (cases unblocked) auto
  next
    case (Inr rec)
    then show ?thesis using wp_run [OF run r] assms(2) by auto
  qed
  then show ?thesis using r by (simp add: wp_def)
qed

text \<open>Whom the reset may unblock: the last administrator, and only when asked to.\<close>

definition may_unblock :: "bool \<Rightarrow> user \<Rightarrow> db \<Rightarrow> bool" where
  "may_unblock unblock u d \<longleftrightarrow> unblock \<and> u_status u \<noteq> status_active \<and> u_role u = role_admin
     \<and> \<not> (\<exists>r \<in> set (t_users d). ur_id r \<noteq> u_id u \<and> active_admin r)"

definition recovers :: "env \<Rightarrow> string \<Rightarrow> bool \<Rightarrow> recovered \<Rightarrow> db \<Rightarrow> db \<Rightarrow> bool" where
  "recovers e email unblock rec d d' \<longleftrightarrow> (\<exists>u. account e d (trim_space email) = Inr u \<and> u_kind u = kind_human
     \<and> (if u_status u = status_active then \<not> rc_unblocked rec else rc_unblocked rec \<and> may_unblock unblock u d)
     \<and> rc_user rec = u\<lparr>u_status := status_active, u_must_change := True\<rparr> \<and> recovery_left e u rec d d')"

definition recovery_refused :: "env \<Rightarrow> string \<Rightarrow> bool \<Rightarrow> db \<Rightarrow> db \<Rightarrow> bool" where
  "recovery_refused e email unblock d d' \<longleftrightarrow> statuses d' = statuses d
     \<or> (\<exists>u. account e d (trim_space email) = Inr u \<and> may_unblock unblock u d)"

lemma wp_recover_password:
  "wp (recover_password email unblock) e w (\<lambda>r w'. case r of
      Inl x \<Rightarrow> recovery_refused e email unblock (w_db w) (w_db w')
    | Inr rec \<Rightarrow> recovers e email unblock rec (w_db w) (w_db w'))"
proof (cases "account e (w_db w) (trim_space email)")
  case (Inl x)
  then show ?thesis by (simp add: recover_password_eq users_by_email_def wp_simps recovery_refused_def flip: account_def)
next
  case (Inr u)
  have finished: "wp (finish_recovery u unblocked) e v (\<lambda>r w'. case r of
      Inl x \<Rightarrow> recovery_refused e email unblock (w_db w) (w_db w')
    | Inr rec \<Rightarrow> recovers e email unblock rec (w_db w) (w_db w'))"
    if "w_db v = w_db w" "u_kind u = kind_human"
      "if u_status u = status_active then \<not> unblocked else unblocked \<and> may_unblock unblock u (w_db w)" for v unblocked
    using that Inr by (intro wp_finish_recovery) (auto simp: recovery_refused_def recovers_def split: if_splits)
  have same: "recovery_refused e email unblock (w_db w) (w_db w)" by (simp add: recovery_refused_def)
  show ?thesis
    using Inr
    by (auto simp: recover_password_eq users_by_email_def wp_simps same may_unblock_def simp flip: account_def
        intro!: finished wp_other_active_admin)
qed

text \<open>The operator's recovery. A success leaves the person at that address active, with the
  password drawn, the order to change it, no session and no failed attempts counted; it unblocked
  them only if they were blocked, it was asked to, they are an administrator and no other active
  administrator is left. A failure changes nobody's status but under the same conditions.\<close>

lemma recovery_effect:
  assumes "recover_password email unblock e w = (r, w')" and "\<And>pw s t m p n. length (argon2 e pw s t m p n) = n"
  shows "case r of
      Inl x \<Rightarrow> recovery_refused e email unblock (w_db w) (w_db w')
    | Inr rec \<Rightarrow> recovers e email unblock rec (w_db w) (w_db w')
        \<and> u_status (rc_user rec) = status_active \<and> attempt_of e (u_email (rc_user rec)) (w_db w') = None
        \<and> u_id (rc_user rec) \<notin> ss_user ` set (t_sessions (w_db w'))
        \<and> (\<exists>h. password_row_of (w_db w') (u_id (rc_user rec))
              = Some \<lparr>pw_user = u_id (rc_user rec), pw_hash = h, pw_expires = Some (tp_expires (rc_password rec))\<rparr>
            \<and> verify_password (argon2 e) h (tp_password (rc_password rec)))"
proof -
  note run = wp_run [OF wp_recover_password assms(1)]
  have "u_status (rc_user rec) = status_active \<and> attempt_of e (u_email (rc_user rec)) d' = None
        \<and> u_id (rc_user rec) \<notin> ss_user ` set (t_sessions d')
        \<and> (\<exists>h. password_row_of d' (u_id (rc_user rec))
              = Some \<lparr>pw_user = u_id (rc_user rec), pw_hash = h, pw_expires = Some (tp_expires (rc_password rec))\<rparr>
            \<and> verify_password (argon2 e) h (tp_password (rc_password rec)))"
    if recs: "recovers e email unblock rec d d'" for rec d d'
  proof -
    obtain u where u: "rc_user rec = u\<lparr>u_status := status_active, u_must_change := True\<rparr>" "recovery_left e u rec d d'"
      using recs unfolding recovers_def by blast
    obtain now m urow row where m: "reset_done e (u_id u) now (rc_password rec) (unblocked_db (u_id u) (rc_unblocked rec) urow d) m"
      and d': "d' = m\<lparr>t_attempts := filter (\<lambda>r. la_email r \<noteq> sql_lower e (u_email u)) (t_attempts m), t_audit := t_audit m @ [row]\<rparr>"
      using u(2) unfolding recovery_left_def by blast
    have "t_sessions m = filter (\<lambda>r. ss_user r \<noteq> u_id u) (t_sessions (unblocked_db (u_id u) (rc_unblocked rec) urow d))"
      using reset_done_sessions [OF m] .
    moreover obtain h where "password_row_of m (u_id u) = Some \<lparr>pw_user = u_id u, pw_hash = h, pw_expires = Some (tp_expires (rc_password rec))\<rparr>"
      "verify_password (argon2 e) h (tp_password (rc_password rec))"
      using reset_done_verifies [OF m assms(2)] by blast
    ultimately show ?thesis by (auto simp: u(1) d' attempt_of_def password_row_of_def find_None_iff)
  qed
  then show ?thesis using run by (cases r) auto
qed

section \<open>The first start\<close>

definition waiting_admin :: "env \<Rightarrow> string \<Rightarrow> db \<Rightarrow> user \<Rightarrow> bool" where
  "waiting_admin e email d u \<longleftrightarrow> account e d email = Inr u \<and> u_role u = role_admin \<and> u_must_change u"

definition has_admin :: "db \<Rightarrow> bool" where
  "has_admin d \<longleftrightarrow> (\<exists>r \<in> set (t_users d). ur_role r = role_admin)"

lemma wp_create_first:
  assumes "email \<noteq> []" "\<And>x. Q (Inl x) (tick w)"
    and "\<And>row u. waiting_admin e email ((w_db w)\<lparr>t_users := t_users (w_db w) @ [row]\<rparr>) u \<Longrightarrow> u_id u = i \<Longrightarrow> ur_id row = i \<Longrightarrow>
      i \<notin> ids_of (w_db w) \<Longrightarrow> Q (Inr ()) ((tick w)\<lparr>w_db := (w_db w)\<lparr>t_users := t_users (w_db w) @ [row]\<rparr>\<rparr>)"
  shows "wp (users_create (bootstrap_admin i email)) e w Q"
proof -
  let ?row = "\<lparr>ur_id = i, ur_kind = kind_human, ur_email = Some email, ur_name = ''Administrator'', ur_role = role_admin,
    ur_status = status_active, ur_policy = [], ur_source = policy_local, ur_must_change = True, ur_last_seen = None,
    ur_created = (if zero_time = zero_time then db_clock e (w_tick w) else zero_time), ur_limits = None\<rparr>"
  have free: "i \<notin> ids_of (w_db w) \<and> \<not> email_taken e i (Some email) (w_db w)" if "\<not> (user_exists i (w_db w) \<or> email_taken e i (Some email) (w_db w))"
    using that by (simp add: user_exists_ids)
  have "\<exists>u. waiting_admin e email ((w_db w)\<lparr>t_users := t_users (w_db w) @ [?row]\<rparr>) u \<and> u_id u = i"
    if "i \<notin> ids_of (w_db w)" "\<not> email_taken e i (Some email) (w_db w)"
  proof -
    have "find (\<lambda>r. lower_email e r = Some (sql_lower e email)) (t_users (w_db w)) = None"
      using that by (auto simp: email_taken_def list_ex_iff find_None_iff ids_of_def)
    then show ?thesis
      by (auto simp: waiting_admin_def account_def find_snoc lower_email_def scan_user_def row_user_def decode_policy_def)
  qed
  then show ?thesis
    using assms(1,2) assms(3) [of ?row]
    by (auto simp: users_create_def wp_exec insert_user_def Let_def bootstrap_admin_def null_string_def user_zero_def encode_policy_def
        user_checks_def user_exists_ids)
qed

lemma wp_issue_bootstrap:
  assumes "\<And>x w'. w_db w' = w_db w \<Longrightarrow> Q (Inl x) w'"
    and "\<And>secret h salt w'. secret \<noteq> [] \<Longrightarrow> length salt = argon_salt_len \<Longrightarrow> hash_password (argon2 e) (Some salt) secret = Inr h \<Longrightarrow>
      password_row_of (w_db w') i = Some \<lparr>pw_user = i, pw_hash = h, pw_expires = None\<rparr> \<Longrightarrow>
      w_db w' = (w_db w)\<lparr>t_passwords := t_passwords (w_db w')\<rparr> \<Longrightarrow> Q (Inr secret) w'"
  shows "wp (issue_bootstrap_password i) e w Q"
proof -
  have nonempty: "b64_encode url_alphabet (map f [0..<temporary_len]) \<noteq> []" for f
    using b64_encode_length [of url_alphabet "map f [0..<temporary_len]"] by (auto simp: temporary_len_def)
  have won: "Q (Inr (b64_encode url_alphabet (map f [0..<temporary_len]))) w'"
    if "w_db w' = d" "d = (w_db w)\<lparr>t_passwords := t_passwords d\<rparr>"
      "password_row_of d i = Some \<lparr>pw_user = i, pw_hash = h, pw_expires = None\<rparr>" "length salt = argon_salt_len"
      "hash_password (argon2 e) (Some salt) (b64_encode url_alphabet (map f [0..<temporary_len])) = Inr h" for w' d h salt f
    using that nonempty by (intro assms(2) [where h = h and salt = salt]) simp_all
  show ?thesis
    unfolding issue_bootstrap_password_def new_temporary_password_def
    by (auto simp: wp_simps assms(1) intro!: wp_hasher_hash wp_passwords_set) (rule won, simp, assumption, simp, assumption+)
qed

text \<open>What a start that printed a password left, and what one that failed may have left.\<close>

definition bootstrapped :: "env \<Rightarrow> string \<Rightarrow> string \<Rightarrow> db \<Rightarrow> db \<Rightarrow> bool" where
  "bootstrapped e email secret d d' \<longleftrightarrow> (\<exists>u h salt. waiting_admin e email d' u
     \<and> password_row_of d' (u_id u) = Some \<lparr>pw_user = u_id u, pw_hash = h, pw_expires = None\<rparr>
     \<and> length salt = argon_salt_len \<and> hash_password (argon2 e) (Some salt) secret = Inr h
     \<and> (if has_admin d then waiting_admin e email d u \<and> password_row_of d (u_id u) = None \<and> t_users d' = t_users d
        else (\<exists>row. ur_id row = u_id u \<and> u_id u \<notin> ids_of d \<and> t_users d' = t_users d @ [row]))
     \<and> d' = d\<lparr>t_users := t_users d', t_passwords := t_passwords d'\<rparr>)"

definition half_done :: "env \<Rightarrow> string \<Rightarrow> db \<Rightarrow> db \<Rightarrow> bool" where
  "half_done e email d d' \<longleftrightarrow> d' = d
     \<or> \<not> has_admin d \<and> (\<exists>row u. waiting_admin e email d' u \<and> ur_id row = u_id u \<and> u_id u \<notin> ids_of d
         \<and> d' = d\<lparr>t_users := t_users d @ [row]\<rparr>)"

lemma waiting_admin_passwords: "waiting_admin e email (d\<lparr>t_passwords := x\<rparr>) u = waiting_admin e email d u"
  by (simp add: waiting_admin_def account_def)

lemma has_admin_row: "list_ex (\<lambda>r. ur_role r = role_admin) (t_users d) = has_admin d"
  by (simp add: has_admin_def list_ex_iff)

definition resumed :: "env \<Rightarrow> string \<Rightarrow> db \<Rightarrow> string result \<Rightarrow> db \<Rightarrow> bool" where
  "resumed e email d r d' \<longleftrightarrow> (case r of Inl x \<Rightarrow> d' = d
     | Inr secret \<Rightarrow> if secret = [] then d' = d else bootstrapped e email secret d d')"

definition started :: "env \<Rightarrow> string \<Rightarrow> db \<Rightarrow> string result \<Rightarrow> db \<Rightarrow> bool" where
  "started e email d r d' \<longleftrightarrow> (case r of Inl x \<Rightarrow> half_done e email d d'
     | Inr secret \<Rightarrow> if secret = [] then d' = d \<and> (email = [] \<or> has_admin d) else bootstrapped e email secret d d')"

lemma resumed_started: "has_admin d \<Longrightarrow> resumed e email d r d' \<Longrightarrow> started e email d r d'"
  by (auto simp: resumed_def started_def half_done_def split: sum.splits if_splits)

lemma resumed_same: "resumed e email d (Inl x) d" "resumed e email d (Inr []) d"
  by (simp_all add: resumed_def)

lemma wp_resume:
  assumes "has_admin (w_db w)"
  shows "wp (resume_bootstrap email) e w (\<lambda>r w'. resumed e email (w_db w) r (w_db w'))"
proof -
  have issued: "wp (issue_bootstrap_password (u_id u)) e v (\<lambda>r w'. resumed e email (w_db w) r (w_db w'))"
    if "w_db v = w_db w" "waiting_admin e email (w_db w) u" "password_row_of (w_db w) (u_id u) = None" for u v
  proof -
    have "bootstrapped e email secret (w_db w) d'"
      if "length salt = argon_salt_len" "hash_password (argon2 e) (Some salt) secret = Inr h"
        "password_row_of d' (u_id u) = Some \<lparr>pw_user = u_id u, pw_hash = h, pw_expires = None\<rparr>"
        "d' = (w_db w)\<lparr>t_passwords := t_passwords d'\<rparr>" for secret salt h d'
    proof -
      have users: "t_users d' = t_users (w_db w)" by (subst that(4), simp)
      have "waiting_admin e email d' u" using \<open>waiting_admin e email (w_db w) u\<close> by (subst that(4)) (simp add: waiting_admin_passwords)
      moreover have "d' = (w_db w)\<lparr>t_users := t_users d', t_passwords := t_passwords d'\<rparr>"
        using that(4) users by (cases "w_db w", cases d') simp
      ultimately show ?thesis
        unfolding bootstrapped_def using that(1-3) users assms \<open>waiting_admin e email (w_db w) u\<close> \<open>password_row_of (w_db w) (u_id u) = None\<close>
        by (intro exI [of _ u] exI [of _ h] exI [of _ salt]) auto
    qed
    then show ?thesis using that(1) by (intro wp_issue_bootstrap) (auto simp: resumed_def)
  qed
  show ?thesis
  proof (cases "account e (w_db w) email")
    case (Inl x)
    then show ?thesis by (auto simp: resume_bootstrap_def users_by_email_def wp_simps resumed_def simp flip: account_def)
  next
    case (Inr u)
    have "\<not> (u_role u \<noteq> role_admin \<or> \<not> u_must_change u) \<Longrightarrow> waiting_admin e email (w_db w) u" using Inr by (simp add: waiting_admin_def)
    moreover have "find (\<lambda>r. pw_user r = u_id u) (t_passwords (w_db w)) = password_row_of (w_db w) (u_id u)" by (simp add: password_row_of_def)
    ultimately show ?thesis
      using Inr
      by (cases "password_row_of (w_db w) (u_id u)")
        (auto simp: resume_bootstrap_def users_by_email_def passwords_get_def wp_simps resumed_same simp flip: account_def intro!: issued)
  qed
qed

lemma wp_bootstrap:
  "wp (bootstrap email) e w (\<lambda>r w'. started e email (w_db w) r (w_db w'))"
proof -
  have failed: "started e email (w_db w) (Inl x) (w_db w)" for x by (simp add: started_def half_done_def)
  have resumed: "wp (resume_bootstrap email) e (tick w) (\<lambda>r w'. started e email (w_db w) r (w_db w'))" if "has_admin (w_db w)"
    using that resumed_started [OF that] by (auto intro!: wp_mono [OF wp_resume [of "tick w"]])
  have issued: "wp (issue_bootstrap_password i) e v (\<lambda>r w'. started e email (w_db w) r (w_db w'))"
    if "w_db v = (w_db w)\<lparr>t_users := t_users (w_db w) @ [row]\<rparr>" "\<not> has_admin (w_db w)" "u_id u = i" "ur_id row = i" "i \<notin> ids_of (w_db w)"
      "waiting_admin e email ((w_db w)\<lparr>t_users := t_users (w_db w) @ [row]\<rparr>) u" for v row u i
  proof -
    have "bootstrapped e email secret (w_db w) d'"
      if "length salt = argon_salt_len" "hash_password (argon2 e) (Some salt) secret = Inr h"
        "password_row_of d' i = Some \<lparr>pw_user = i, pw_hash = h, pw_expires = None\<rparr>"
        "d' = (w_db v)\<lparr>t_passwords := t_passwords d'\<rparr>" for secret salt h d'
    proof -
      have users: "t_users d' = t_users (w_db w) @ [row]" using \<open>w_db v = _\<close> by (subst that(4), simp)
      have "waiting_admin e email d' u"
        using \<open>waiting_admin e email _ u\<close> \<open>w_db v = _\<close> by (subst that(4)) (simp add: waiting_admin_passwords)
      moreover have "d' = (w_db w)\<lparr>t_users := t_users d', t_passwords := t_passwords d'\<rparr>"
        using that(4) users \<open>w_db v = _\<close> by (cases "w_db w", cases d') simp
      ultimately show ?thesis
        unfolding bootstrapped_def using that(1-3) users \<open>\<not> has_admin (w_db w)\<close> \<open>u_id u = i\<close> \<open>ur_id row = i\<close> \<open>i \<notin> ids_of (w_db w)\<close>
        by (intro exI [of _ u] exI [of _ h] exI [of _ salt]) auto
    qed
    moreover have "half_done e email (w_db w) (w_db v)"
      using that unfolding half_done_def by (intro disjI2 conjI exI [of _ row] exI [of _ u]) simp_all
    ultimately show ?thesis by (intro wp_issue_bootstrap) (auto simp: started_def)
  qed
  show ?thesis
  proof (cases "email = []")
    case False
    then show ?thesis
      using failed
      by (auto simp: bootstrap_def users_admin_exists_def wp_simps has_admin_row intro!: resumed wp_create_first issued)
  qed (simp add: bootstrap_def wp_simps started_def)
qed

text \<open>The first start. It prints a password only for an administrator at the configured address
  that has just been given it and must change it: a new account where no administrator existed, or
  the one an earlier start created and did not finish. Printing nothing it changed nothing; failing
  it left at most that account, and no password.\<close>

lemma bootstrap_effect:
  assumes "bootstrap email e w = (r, w')" and "\<And>pw s t m p n. length (argon2 e pw s t m p n) = n"
  shows "case r of
      Inl x \<Rightarrow> half_done e email (w_db w) (w_db w')
    | Inr [] \<Rightarrow> w_db w' = w_db w \<and> (email = [] \<or> has_admin (w_db w))
    | Inr (c # cs) \<Rightarrow> bootstrapped e email (c # cs) (w_db w) (w_db w')
        \<and> (\<exists>u h. waiting_admin e email (w_db w') u
            \<and> password_row_of (w_db w') (u_id u) = Some \<lparr>pw_user = u_id u, pw_hash = h, pw_expires = None\<rparr>
            \<and> verify_password (argon2 e) h (c # cs))"
proof -
  have "started e email (w_db w) r (w_db w')" by (rule wp_run [OF wp_bootstrap assms(1)])
  moreover have "\<exists>u h. waiting_admin e email d' u
            \<and> password_row_of d' (u_id u) = Some \<lparr>pw_user = u_id u, pw_hash = h, pw_expires = None\<rparr>
            \<and> verify_password (argon2 e) h secret" if boot: "bootstrapped e email secret d d'" for secret d d'
  proof -
    obtain u h salt where "waiting_admin e email d' u" "length salt = argon_salt_len"
      "password_row_of d' (u_id u) = Some \<lparr>pw_user = u_id u, pw_hash = h, pw_expires = None\<rparr>"
      "hash_password (argon2 e) (Some salt) secret = Inr h"
      using boot unfolding bootstrapped_def by blast
    then show ?thesis using hash_verifies [where idkey = "argon2 e", OF assms(2)] by blast
  qed
  ultimately show ?thesis by (auto simp: started_def split: sum.splits list.splits)
qed

text \<open>Only once. Started again with the same address after a password was printed, the server
  prints none and changes nothing.\<close>

lemma bootstrap_once:
  assumes "bootstrap email e w = (Inr secret, w')" and "secret \<noteq> []"
    and "w_db v = w_db w'" and "bootstrap email e v = (r, v')"
  shows "w_db v' = w_db w' \<and> (r = Inr [] \<or> isl r)"
proof -
  have boot: "bootstrapped e email secret (w_db w) (w_db w')"
    using wp_run [OF wp_bootstrap assms(1)] assms(2) by (simp add: started_def)
  then obtain u h where u: "waiting_admin e email (w_db w') u" "password_row_of (w_db w') (u_id u) \<noteq> None"
    unfolding bootstrapped_def by auto
  have account: "account e (w_db w') email = Inr u" using u(1) by (simp add: waiting_admin_def)
  have adm: "has_admin (w_db v)"
    using u(1) assms(3) unfolding has_admin_def waiting_admin_def account_def scan_user_def
    by (auto dest!: find_Some_mem row_user_fields split: option.splits)
  have "started e email (w_db v) r (w_db v')" by (rule wp_run [OF wp_bootstrap assms(4)])
  moreover have "\<not> bootstrapped e email s (w_db v) (w_db v')" for s
    using u(2) account adm assms(3) unfolding bootstrapped_def waiting_admin_def by auto
  ultimately show ?thesis
    using adm assms(3) by (auto simp: started_def half_done_def split: sum.splits if_splits)
qed

text \<open>A start that is answered goes through, from an empty installation or from where a failed one stopped.\<close>

lemma issue_bootstrap_succeeds:
  assumes "\<And>n. \<not> fault e n" "i \<in> ids_of (w_db w)" "\<And>secret w'. secret \<noteq> [] \<Longrightarrow> Q (Inr secret) w'"
  shows "wp (issue_bootstrap_password i) e w Q"
proof -
  have "b64_encode url_alphabet raw \<noteq> []" if "length raw = 24" for raw :: string
    using that b64_encode_length [of url_alphabet raw] by auto
  then show ?thesis
    using assms by (auto simp: issue_bootstrap_password_def new_temporary_password_def temporary_len_def wp_simps passwords_set_def
        password_upsert_def user_exists_ids intro!: hash_succeeds)
qed

lemma account_lower: "sql_lower e' = sql_lower e \<Longrightarrow> account e' d email = account e d email"
  by (simp add: account_def lower_email_def)

lemma account_in: "account e d email = Inr u \<Longrightarrow> u_id u \<in> ids_of d"
  by (auto simp: account_def scan_user_def ids_of_def dest!: find_Some_mem row_user_fields split: option.splits)

lemma resume_succeeds:
  assumes "\<And>n. \<not> fault e n" "waiting_admin e email (w_db w) u" "password_row_of (w_db w) (u_id u) = None"
    "\<And>secret w'. secret \<noteq> [] \<Longrightarrow> Q (Inr secret) w'"
  shows "wp (resume_bootstrap email) e w Q"
proof -
  have acc: "account e (w_db w) email = Inr u" "u_role u = role_admin" "u_must_change u"
    using assms(2) by (simp_all add: waiting_admin_def)
  have "find (\<lambda>r. pw_user r = u_id u) (t_passwords (w_db w)) = None" using assms(3) by (simp add: password_row_of_def)
  then show ?thesis
    using acc assms(1,4) account_in [OF acc(1)]
    by (auto simp: resume_bootstrap_def users_by_email_def passwords_get_def wp_simps simp flip: account_def intro!: issue_bootstrap_succeeds)
qed

lemma create_first_succeeds:
  assumes "\<And>n. \<not> fault e n" "email \<noteq> []" "i \<notin> ids_of (w_db w)" "Some (sql_lower e email) \<notin> lower_email e ` set (t_users (w_db w))"
    "\<And>w'. i \<in> ids_of (w_db w') \<Longrightarrow> Q (Inr ()) w'"
  shows "wp (users_create (bootstrap_admin i email)) e w Q"
proof -
  have "\<not> email_taken e i (Some email) (w_db w)" using assms(4) by (auto simp: email_taken_def list_ex_iff image_iff)
  then show ?thesis
    using assms(1,2,3)
    by (auto simp: users_create_def wp_exec insert_user_def Let_def bootstrap_admin_def null_string_def user_zero_def encode_policy_def
        user_checks_def user_exists_ids ids_of_def intro!: assms(5))
qed

lemma bootstrap_succeeds:
  assumes "\<And>n. \<not> fault e n" "\<And>n. fresh e n \<notin> ids_of (w_db w)" "email \<noteq> []"
    "if has_admin (w_db w) then waiting_admin e email (w_db w) u \<and> password_row_of (w_db w) (u_id u) = None
     else Some (sql_lower e email) \<notin> lower_email e ` set (t_users (w_db w))"
  shows "wp (bootstrap email) e w (\<lambda>r w'. \<exists>secret. r = Inr secret \<and> secret \<noteq> [])"
  using assms
  by (auto simp: bootstrap_def users_admin_exists_def wp_simps has_admin_row split: if_splits
      intro!: resume_succeeds create_first_succeeds issue_bootstrap_succeeds)

text \<open>C32: a failed first start is made good by the next. However far the start on an installation
  without an administrator got before it failed, a later one whose calls are all answered prints a
  password.\<close>

theorem bootstrap_completes:
  assumes "bootstrap email e w = (Inl x, w')" and "db_ok e (w_db w)" and "\<not> has_admin (w_db w)" and "email \<noteq> []"
    and "Some (sql_lower e email) \<notin> lower_email e ` set (t_users (w_db w))"
    and "w_db v = w_db w'" and "sql_lower e' = sql_lower e" and "\<And>n. \<not> fault e' n \<and> fresh e' n \<notin> ids_of (w_db w')"
  shows "\<exists>secret v'. bootstrap email e' v = (Inr secret, v') \<and> secret \<noteq> []"
proof -
  have half: "half_done e email (w_db w) (w_db w')" using wp_run [OF wp_bootstrap assms(1)] by (simp add: started_def)
  have lower: "lower_email e' = lower_email e" by (rule ext) (simp add: lower_email_def assms(7))
  have "\<exists>u. if has_admin (w_db v) then waiting_admin e' email (w_db v) u \<and> password_row_of (w_db v) (u_id u) = None
     else Some (sql_lower e' email) \<notin> lower_email e' ` set (t_users (w_db v))"
  proof (cases "w_db w' = w_db w")
    case True
    then show ?thesis using assms(3,5,6,7) lower by simp
  next
    case False
    then obtain row u where u: "waiting_admin e email (w_db w') u" "u_id u \<notin> ids_of (w_db w)"
      and d': "w_db w' = (w_db w)\<lparr>t_users := t_users (w_db w) @ [row]\<rparr>"
      using half unfolding half_done_def by blast
    have "password_row_of (w_db w) (u_id u) = None"
      using assms(2) u(2) by (auto simp: db_ok_def passwords_ok_def password_row_of_def find_None_iff)
    then have "password_row_of (w_db v) (u_id u) = None" using d' assms(6) by (simp add: password_row_of_def)
    moreover have "waiting_admin e' email (w_db v) u" using u(1) assms(6) account_lower [OF assms(7)] by (simp add: waiting_admin_def)
    moreover have "has_admin (w_db v)"
      using u(1) assms(6) unfolding has_admin_def waiting_admin_def account_def scan_user_def
      by (auto dest!: find_Some_mem row_user_fields split: option.splits)
    ultimately show ?thesis by auto
  qed
  then obtain u where "if has_admin (w_db v) then waiting_admin e' email (w_db v) u \<and> password_row_of (w_db v) (u_id u) = None
     else Some (sql_lower e' email) \<notin> lower_email e' ` set (t_users (w_db v))" by blast
  then have "wp (bootstrap email) e' v (\<lambda>r w'. \<exists>secret. r = Inr secret \<and> secret \<noteq> [])"
    using assms(4,6,8) by (intro bootstrap_succeeds) simp_all
  then show ?thesis by (auto simp: wp_def split: prod.splits)
qed

section \<open>The preview of a policy\<close>

text \<open>The admission of each model is asked once and remembered; remembering changes no answer.\<close>

lemma preview_models_filter:
  "(\<And>m ok. map_of known m = Some ok \<Longrightarrow> ok = admit m) \<Longrightarrow>
     preview_models admit xs known = filter (\<lambda>(prov, m). admit m) xs"
proof (induction xs arbitrary: known)
  case (Cons x xs)
  obtain prov m where x: "x = (prov, m)" by fastforce
  show ?case
  proof (cases "map_of known m")
    case None
    have "preview_models admit xs (AList.update m (admit m) known) = filter (\<lambda>(prov, m). admit m) xs"
    proof (rule Cons.IH)
      fix m' ok assume "map_of (AList.update m (admit m) known) m' = Some ok"
      then show "ok = admit m'" using Cons.prems by (auto simp: update_conv split: if_splits)
    qed
    then show ?thesis by (cases "admit m") (simp_all add: x None)
  next
    case (Some ok)
    then show ?thesis using Cons.IH [OF Cons.prems] Cons.prems [OF Some] by (simp add: x)
  qed
qed simp

lemma preview_rules_partition:
  "preview_rules rules invalid p =
     (invalid @ filter (\<lambda>raw. isl (parse_rule raw)) rules, p @ map projr (filter (\<lambda>r. \<not> isl r) (map parse_rule rules)))"
  by (induction rules invalid p rule: preview_rules.induct) (auto split: sum.splits)

text \<open>The preview of a policy. It is an administrator's; it lists as invalid exactly the rules that
  do not parse, in their order, and as covered exactly the models in the catalogue that the rules
  which do parse admit, sorted, each provider's listing of a model once.\<close>

lemma policy_preview_spec:
  assumes "policy_preview actor providers served rules = Inr pv"
  shows "require_admin actor = Inr () \<and> pp_invalid pv = filter (\<lambda>raw. isl (parse_rule raw)) rules
    \<and> pp_covered pv = sort (concat (map (\<lambda>(prov, models). map (Pair prov)
        (filter (admits (map projr (filter (\<lambda>r. \<not> isl r) (map parse_rule rules))) providers) models)) served))"
proof -
  let ?p = "map projr (filter (\<lambda>r. \<not> isl r) (map parse_rule rules))"
  have flat: "filter (\<lambda>(prov, m). admit m) (concat (map (\<lambda>(prov, models). map (\<lambda>m. (prov, m)) models) served))
      = concat (map (\<lambda>(prov, models). map (Pair prov) (filter admit models)) served)" for admit
    by (induction served) (auto simp: filter_map o_def)
  have start: "preview_models admit xs [] = filter (\<lambda>(prov, m). admit m) xs" for admit xs
    by (rule preview_models_filter) simp
  have "require_admin actor = Inr ()" using assms by (auto simp: policy_preview_def and_then_def split: sum.splits)
  moreover have "pp_covered pv = sort (concat (map (\<lambda>(prov, models). map (Pair prov) (filter (admits ?p providers) models)) served))"
    "pp_invalid pv = filter (\<lambda>raw. isl (parse_rule raw)) rules"
    using assms by (auto simp: policy_preview_def and_then_def preview_rules_partition start flat Let_def split: sum.splits)
  ultimately show ?thesis by simp
qed

section \<open>Witnesses\<close>

text \<open>Ada was made the only administrator, then blocked.\<close>

definition stuck_world :: world where
  "stuck_world = example_world\<lparr>w_db := example_db\<lparr>t_users :=
     [(example_row 2 kind_human (Some ''ada@example.org'') role_admin)\<lparr>ur_status := status_blocked\<rparr>]\<rparr>\<rparr>"

definition empty_world :: world where
  "empty_world = example_world\<lparr>w_db := example_db\<lparr>t_users := [], t_passwords := [], t_sessions := [], t_tokens := []\<rparr>\<rparr>"

lemma argon_env_answers: "\<not> fault argon_env n"
  by (simp add: argon_env_def example_env_def)

lemma stuck_account:
  "account argon_env (w_db stuck_world) ''ada@example.org'' = Inr (ada\<lparr>u_role := role_admin, u_status := status_blocked\<rparr>)"
proof -
  have "parse_rule ''chatgpt:gpt-*'' = Inr \<lparr>provider = ''chatgpt'', model_pattern = ''gpt-*'', compiled = Some (compile_glob ''gpt-*'')\<rparr>"
    by code_simp
  then show ?thesis
    by (simp add: account_def stuck_world_def example_world_def example_db_def example_row_def lower_email_def scan_user_def row_user_def
        decode_policy_def decode_spend_limits_def example_user_def)
qed

lemma finish_succeeds:
  assumes "\<And>n. \<not> fault e n" "u_id u \<in> ids_of (w_db w)"
  shows "wp (finish_recovery u unblocked) e w (\<lambda>r w'. \<exists>rec. r = Inr rec)"
  using assms
  by (auto simp: finish_recovery_def wp_simps users_unblock_def tx_then_def update_user_def audit_insert_def Let_def change_event_def
      null_uuid_def ref_ok_def user_exists_ids ids_of_map attempts_clear_def record_change_def audit_record_def intro!: reset_succeeds)

lemma example_recovery: "\<exists>rec w'. recover_password ''ada@example.org'' True argon_env stuck_world = (Inr rec, w')"
proof -
  let ?u = "ada\<lparr>u_role := role_admin, u_status := status_blocked\<rparr>"
  have "trim_space ''ada@example.org'' = ''ada@example.org''" "status_blocked \<noteq> status_active" by code_simp+
  moreover have "u_id ?u = 2" "u_kind ?u = kind_human" by (simp_all add: example_user_def)
  moreover have "2 \<in> ids_of (w_db stuck_world)" by (simp add: stuck_world_def ids_of_def example_row_def)
  moreover have sole: "wp (other_active_admin 2) argon_env v Q" if "w_db v = w_db stuck_world" "Q (Inr False) (tick v)" for v Q
  proof -
    have "parse_rule ''chatgpt:gpt-*'' = Inr \<lparr>provider = ''chatgpt'', model_pattern = ''gpt-*'', compiled = Some (compile_glob ''gpt-*'')\<rparr>"
      by code_simp
    then show ?thesis
      using that by (simp add: other_active_admin_def users_list_def wp_simps argon_env_answers)
        (simp add: wp_simps stuck_world_def example_row_def row_view_def row_user_def decode_policy_def Let_def)
  qed
  ultimately have "wp (recover_password ''ada@example.org'' True) argon_env stuck_world (\<lambda>r w'. \<exists>rec. r = Inr rec)"
    using stuck_account argon_env_answers
    by (auto simp: recover_password_eq users_by_email_def wp_simps simp flip: account_def intro!: sole finish_succeeds)
  then show ?thesis by (auto simp: wp_def split: prod.splits)
qed

lemma example_bootstrap: "\<exists>secret w'. bootstrap ''root@example.org'' argon_env empty_world = (Inr secret, w') \<and> secret \<noteq> []"
proof -
  have "wp (bootstrap ''root@example.org'') argon_env empty_world (\<lambda>r w'. \<exists>secret. r = Inr secret \<and> secret \<noteq> [])"
    by (rule bootstrap_succeeds) (simp_all add: argon_env_answers empty_world_def ids_of_def has_admin_def)
  then show ?thesis by (auto simp: wp_def split: prod.splits)
qed

lemma bootstrap_once_witness:
  "\<exists>secret w' r v'. bootstrap ''root@example.org'' argon_env empty_world = (Inr secret, w') \<and> secret \<noteq> []
    \<and> bootstrap ''root@example.org'' argon_env w' = (r, v') \<and> w_db v' = w_db w'"
proof -
  obtain secret w' where run: "bootstrap ''root@example.org'' argon_env empty_world = (Inr secret, w')" "secret \<noteq> []"
    using example_bootstrap by blast
  obtain r v' where again: "bootstrap ''root@example.org'' argon_env w' = (r, v')" by fastforce
  show ?thesis using bootstrap_once [OF run refl again] run again by blast
qed

text \<open>Every call from the fifth on fails: the account is written, its password is not.\<close>

definition failing_env :: env where
  "failing_env = argon_env\<lparr>fault := (\<lambda>n. 3 \<le> n)\<rparr>"

theorem bootstrap_completes_witness:
  "\<exists>x w' secret v'. bootstrap ''root@example.org'' failing_env empty_world = (Inl x, w') \<and> w_db w' \<noteq> w_db empty_world
    \<and> bootstrap ''root@example.org'' (argon_env\<lparr>fresh := (\<lambda>_. 5)\<rparr>) w' = (Inr secret, v') \<and> secret \<noteq> []"
proof -
  have "wp (bootstrap ''root@example.org'') failing_env empty_world (\<lambda>r w'. isl r \<and> ids_of (w_db w') = {77})"
    by (simp add: bootstrap_def users_admin_exists_def users_create_def insert_user_def Let_def bootstrap_admin_def user_zero_def
        user_checks_def null_string_def issue_bootstrap_password_def new_temporary_password_def wp_simps failing_env_def)
      (simp add: empty_world_def example_world_def example_db_def user_exists_def email_taken_def ids_of_def argon_env_def example_env_def)
  then obtain x w' where run: "bootstrap ''root@example.org'' failing_env empty_world = (Inl x, w')" and ids: "ids_of (w_db w') = {77}"
    by (auto simp: wp_def isl_def split: prod.splits)
  have "db_ok failing_env (w_db empty_world)"
    by (simp add: empty_world_def example_db_def db_ok_def users_ok_def passwords_ok_def links_ok_def pendings_ok_def sessions_ok_def
        tokens_ok_def attempts_ok_def windows_ok_def audit_ok_def prices_ok_def)
  moreover have "w_db w' \<noteq> w_db empty_world" using ids by (auto simp: empty_world_def ids_of_def)
  ultimately show ?thesis
    using bootstrap_completes [OF run, of w' "argon_env\<lparr>fresh := (\<lambda>_. 5)\<rparr>"] run ids
    by (auto simp: argon_env_def example_env_def failing_env_def empty_world_def has_admin_def)
qed

lemma policy_preview_spec_witness:
  "\<exists>pv. policy_preview example_admin (\<lambda>_. [''openai'']) [(''openai'', [''gpt-4'', ''gpt-3''])] [''bad'', ''openai:gpt-*''] = Inr pv
    \<and> pp_invalid pv = [''bad'']"
proof -
  have "\<exists>pv. policy_preview example_admin (\<lambda>_. [''openai'']) [(''openai'', [''gpt-4'', ''gpt-3''])] [''bad'', ''openai:gpt-*''] = Inr pv"
    by (simp add: policy_preview_def and_then_def example_require_admin split: prod.splits)
  then obtain pv where pv: "policy_preview example_admin (\<lambda>_. [''openai'']) [(''openai'', [''gpt-4'', ''gpt-3''])] [''bad'', ''openai:gpt-*''] = Inr pv" by blast
  have "isl (parse_rule ''bad'')" "\<not> isl (parse_rule ''openai:gpt-*'')" by code_simp+
  then show ?thesis using policy_preview_spec [OF pv] pv by auto
qed

end
