(* ===== verification/Oidc.thy ===== *)
theory Oidc
  imports SignIn
begin

text \<open>
  \<open>internal/app/auth/oidc.go\<close>: signing people in through an OpenID Connect provider. The
  provider (\<open>app.IdentityProvider\<close>) and the derivation of a name-based UUID are third-party:
  a record of functions the definitions take as an argument.
\<close>

section \<open>Configuration and the provider\<close>

record challenge =
  ch_state :: string
  ch_nonce :: string
  ch_verifier :: string

record claims =
  cl_issuer :: string
  cl_subject :: string
  cl_email :: string
  cl_verified :: bool
  cl_groups :: "string list"
  cl_name :: string

record idp =
  ip_auth_url :: "challenge \<Rightarrow> string"
  ip_exchange :: "nat \<Rightarrow> string \<Rightarrow> challenge \<Rightarrow> claims result"
  ip_sha1 :: "string \<Rightarrow> uuid"

text \<open>A group mapping is listed in the order the map is ranged over, each group once.\<close>

record oidc_config =
  oc_required :: string
  oc_sign_up :: bool
  oc_default :: "string list"
  oc_groups :: "(string \<times> string list) list"

record group_grant =
  gg_group :: string
  gg_policy :: policy

record oidc =
  od_required :: string
  od_sign_up :: bool
  od_default :: policy
  od_grants :: "group_grant list"

definition parse_rules :: "string list \<Rightarrow> policy result" where
  "parse_rules raw = collect parse_rule raw"

definition new_oidc :: "oidc_config \<Rightarrow> oidc result" where
  "new_oidc cfg =
     (case parse_rules (oc_default cfg) of
        Inl x \<Rightarrow> Inl x
      | Inr dflt \<Rightarrow>
          (case collect (\<lambda>(group, rules). case parse_rules rules of Inl x \<Rightarrow> Inl x
                 | Inr p \<Rightarrow> Inr \<lparr>gg_group = group, gg_policy = p\<rparr>) (oc_groups cfg) of
             Inl x \<Rightarrow> Inl x
           | Inr grants \<Rightarrow> Inr \<lparr>od_required = oc_required cfg, od_sign_up = oc_sign_up cfg,
               od_default = dflt, od_grants = sort_key gg_group grants\<rparr>))"

definition challenge_len :: nat where "challenge_len = 32"

definition new_challenge :: "challenge io" where
  "new_challenge =
     bnd (random_io challenge_len) (\<lambda>a.
     bnd (random_io challenge_len) (\<lambda>b.
     bnd (random_io challenge_len) (\<lambda>c.
     ret \<lparr>ch_state = b64_encode url_alphabet a, ch_nonce = b64_encode url_alphabet b,
          ch_verifier = b64_encode url_alphabet c\<rparr>)))"

definition oidc_begin :: "idp \<Rightarrow> (string \<times> challenge) io" where
  "oidc_begin ip = bnd new_challenge (\<lambda>ch. ret (ip_auth_url ip ch, ch))"

definition exchange_io :: "idp \<Rightarrow> string \<Rightarrow> challenge \<Rightarrow> claims io" where
  "exchange_io ip code ch = (\<lambda>e w. (ip_exchange ip (w_tick w) code ch, tick w))"

section \<open>The policy of the groups\<close>

fun add_rules :: "policy \<Rightarrow> policy \<Rightarrow> string list \<Rightarrow> policy \<times> string list" where
  "add_rules [] policy seen = (policy, seen)"
| "add_rules (r # rs) policy seen =
     (if rule_string r \<in> set seen then add_rules rs policy seen
      else add_rules rs (policy @ [r]) (rule_string r # seen))"

fun policy_loop :: "group_grant list \<Rightarrow> string list \<Rightarrow> policy \<Rightarrow> string list \<Rightarrow> policy" where
  "policy_loop [] groups policy seen = policy"
| "policy_loop (g # gs) groups policy seen =
     (if gg_group g \<notin> set groups then policy_loop gs groups policy seen
      else case add_rules (gg_policy g) policy seen of (policy, seen) \<Rightarrow> policy_loop gs groups policy seen)"

definition policy_for :: "oidc \<Rightarrow> string list \<Rightarrow> policy" where
  "policy_for s groups = policy_loop (od_grants s) groups [] []"

section \<open>The account behind the claims\<close>

definition eligible :: "uuid \<Rightarrow> user io" where
  "eligible i = bnd (users_by_id i) (\<lambda>u. if \<not> can_sign_in u then raise EInvalidCredentials else ret u)"

definition redeem :: "uuid \<Rightarrow> claims \<Rightarrow> user io" where
  "redeem invited cl =
     bnd (eligible invited) (\<lambda>u.
     bnd (identities_consume_pending (u_id u)) (\<lambda>_.
     bnd (identities_link (u_id u) (cl_issuer cl) (cl_subject cl)) (\<lambda>_. ret u)))"

definition sign_up_id :: "idp \<Rightarrow> string \<Rightarrow> string \<Rightarrow> uuid" where
  "sign_up_id ip issuer subject = ip_sha1 ip (issuer @ ''#'' @ subject)"

definition sign_up_user :: "oidc \<Rightarrow> idp \<Rightarrow> claims \<Rightarrow> instant \<Rightarrow> user" where
  "sign_up_user s ip cl now =
     (let u = user_zero\<lparr>u_id := sign_up_id ip (cl_issuer cl) (cl_subject cl), u_kind := kind_human,
            u_name := cl_name cl, u_role := role_user, u_status := status_active, u_policy := od_default s,
            u_source := policy_local, u_created := now\<rparr>;
          u = (if cl_verified cl then u\<lparr>u_email := cl_email cl\<rparr> else u) in
      if od_grants s \<noteq> [] then u\<lparr>u_policy := policy_for s (cl_groups cl), u_source := policy_idp\<rparr> else u)"

definition sign_up :: "oidc \<Rightarrow> idp \<Rightarrow> claims \<Rightarrow> user io" where
  "sign_up s ip cl =
     bnd now_io (\<lambda>now.
     let u = sign_up_user s ip cl now in
     bnd (attempt (users_create u)) (\<lambda>created.
     bnd (case created of
            Inr _ \<Rightarrow> ret u
          | Inl x \<Rightarrow>
              if x \<noteq> EConflict then raise x
              else bnd (attempt (eligible (u_id u))) (\<lambda>r. case r of
                  Inl y \<Rightarrow> raise (if y = ENotFound then x else y)
                | Inr existing \<Rightarrow> ret existing)) (\<lambda>u.
     bnd (identities_link (u_id u) (cl_issuer cl) (cl_subject cl)) (\<lambda>_. ret u))))"

definition oidc_resolve :: "oidc \<Rightarrow> idp \<Rightarrow> claims \<Rightarrow> user io" where
  "oidc_resolve s ip cl =
     bnd (attempt (identities_by_subject (cl_issuer cl) (cl_subject cl))) (\<lambda>r. case r of
       Inr i \<Rightarrow> eligible i
     | Inl x \<Rightarrow>
         if x \<noteq> ENotFound then raise x
         else
           bnd (if cl_verified cl \<and> cl_email cl \<noteq> []
                then bnd (attempt (identities_pending_by_email (cl_issuer cl) (cl_email cl))) (\<lambda>p. case p of
                    Inr invited \<Rightarrow> ret (Some invited)
                  | Inl y \<Rightarrow> if y \<noteq> ENotFound then raise y else ret None)
                else ret None) (\<lambda>invited. case invited of
             Some i \<Rightarrow> redeem i cl
           | None \<Rightarrow> if \<not> od_sign_up s then raise EForbidden else sign_up s ip cl))"

definition complete :: "oidc \<Rightarrow> idp \<Rightarrow> string \<Rightarrow> string \<Rightarrow> challenge \<Rightarrow> session_meta \<Rightarrow> session io" where
  "complete s ip code state ch meta =
     (if \<not> challenge_answers (ch_state ch) state then raise EInvalidCredentials
      else
        bnd (exchange_io ip code ch) (\<lambda>cl.
        if od_required s \<noteq> [] \<and> od_required s \<notin> set (cl_groups cl) then raise EForbidden
        else
          bnd (oidc_resolve s ip cl) (\<lambda>u.
          bnd (if u_name u = [] \<and> cl_name cl \<noteq> []
               then bnd (users_fill_display_name (u_id u) (cl_name cl)) (\<lambda>filled.
                 ret (if filled then u\<lparr>u_name := cl_name cl\<rparr> else u))
               else ret u) (\<lambda>u.
          bnd (if od_grants s \<noteq> []
               then let u = u\<lparr>u_policy := policy_for s (cl_groups cl), u_source := policy_idp\<rparr> in
                 bnd (users_save_identity_state u) (\<lambda>_. ret u)
               else ret u) (\<lambda>u.
          open_session u ''auth.signin.oidc'' meta)))))"

section \<open>The policy of the groups is the union of their rules\<close>

lemma add_rules_spec:
  "add_rules rs p seen = (p', seen') \<Longrightarrow> set seen = rule_string ` set p \<Longrightarrow> distinct (map rule_string p) \<Longrightarrow>
     set seen' = rule_string ` set p' \<and> distinct (map rule_string p')
     \<and> rule_string ` set p' = rule_string ` set p \<union> rule_string ` set rs \<and> set p' \<subseteq> set p \<union> set rs"
proof (induction rs p seen arbitrary: p' seen' rule: add_rules.induct)
  case (2 r rs p seen)
  show ?case
  proof (cases "rule_string r \<in> set seen")
    case True
    have ih: "set seen' = rule_string ` set p' \<and> distinct (map rule_string p')
      \<and> rule_string ` set p' = rule_string ` set p \<union> rule_string ` set rs \<and> set p' \<subseteq> set p \<union> set rs"
      using True 2(3-5) by (intro "2.IH"(1)) simp_all
    moreover have "rule_string r \<in> rule_string ` set p" using True 2(4) by simp
    ultimately show ?thesis unfolding set_simps image_insert by blast
  next
    case False
    have fresh: "rule_string r \<notin> set (map rule_string p)" using False unfolding 2(4) set_map .
    have "set seen' = rule_string ` set p' \<and> distinct (map rule_string p')
      \<and> rule_string ` set p' = rule_string ` set (p @ [r]) \<union> rule_string ` set rs \<and> set p' \<subseteq> set (p @ [r]) \<union> set rs"
    proof (rule "2.IH"(2) [OF False])
      show "add_rules rs (p @ [r]) (rule_string r # seen) = (p', seen')" using 2(3) False by simp
      show "set (rule_string r # seen) = rule_string ` set (p @ [r])" using 2(4) by simp
      show "distinct (map rule_string (p @ [r]))" using fresh 2(5) by (simp only: map_append list.map distinct_append distinct.simps list.set) blast
    qed
    then show ?thesis by simp
  qed
qed simp

lemma policy_loop_spec:
  "set seen = rule_string ` set p \<Longrightarrow> distinct (map rule_string p) \<Longrightarrow>
     distinct (map rule_string (policy_loop gs groups p seen))
     \<and> rule_string ` set (policy_loop gs groups p seen)
         = rule_string ` set p \<union> (\<Union>g \<in> {g \<in> set gs. gg_group g \<in> set groups}. rule_string ` set (gg_policy g))"
proof (induction gs groups p seen rule: policy_loop.induct)
  case (2 g gs groups p seen)
  obtain p' seen' where add: "add_rules (gg_policy g) p seen = (p', seen')" by fastforce
  show ?case
  proof (cases "gg_group g \<in> set groups")
    case True
    have p': "set seen' = rule_string ` set p'" "distinct (map rule_string p')"
      "rule_string ` set p' = rule_string ` set p \<union> rule_string ` set (gg_policy g)"
      using add_rules_spec [OF add] 2(3,4) by auto
    have "{x \<in> set (g # gs). gg_group x \<in> set groups} = insert g {x \<in> set gs. gg_group x \<in> set groups}"
      using True by auto
    then show ?thesis using "2.IH"(2) [of p' seen'] True add p' by (auto simp: add)
  next
    case False
    then have "{x \<in> set (g # gs). gg_group x \<in> set groups} = {x \<in> set gs. gg_group x \<in> set groups}" by auto
    then show ?thesis using "2.IH"(1) False 2(3,4) by simp
  qed
qed simp

lemma policy_loop_cong: "set groups = set groups' \<Longrightarrow> policy_loop gs groups p seen = policy_loop gs groups' p seen"
  by (induction gs groups p seen rule: policy_loop.induct) (simp_all split: prod.split)

text \<open>The policy of a federated user. Under every order in which the provider lists the groups it
  is the same one, it holds no rule twice, and its rules are those of the mapped groups the user
  holds; holding none, it allows nothing.\<close>

lemma policy_for_union:
  assumes "set groups' = set groups"
  shows "policy_for s groups' = policy_for s groups \<and> distinct (map rule_string (policy_for s groups))
    \<and> rule_string ` set (policy_for s groups)
        = (\<Union>g \<in> {g \<in> set (od_grants s). gg_group g \<in> set groups}. rule_string ` set (gg_policy g))"
  using policy_loop_spec [of "[]" "[]" "od_grants s" groups] policy_loop_cong [OF assms, of "od_grants s" "[]" "[]"]
  by (simp add: policy_for_def)

section \<open>Whose account a federated login reaches\<close>

definition linked :: "db \<Rightarrow> claims \<Rightarrow> uuid option" where
  "linked d cl = map_option ln_user (find (\<lambda>r. ln_issuer r = cl_issuer cl \<and> ln_subject r = cl_subject cl) (t_links d))"

text \<open>An invitation to the verified address that the database's clock finds open.\<close>

definition invited :: "env \<Rightarrow> db \<Rightarrow> claims \<Rightarrow> uuid \<Rightarrow> bool" where
  "invited e d cl i \<longleftrightarrow> cl_verified cl \<and> cl_email cl \<noteq> []
     \<and> (\<exists>row \<in> set (t_pendings d). \<exists>n. pn_user row = i \<and> pn_issuer row = cl_issuer cl
          \<and> sql_lower e (pn_email row) = sql_lower e (cl_email cl) \<and> db_clock e n < pn_expires row)"

text \<open>
  The account is the one the subject was linked to all along, or one it is linked to now: an
  invited one, whose invitation is spent, or its own, of the id derived from the subject.
\<close>

definition reached :: "oidc \<Rightarrow> idp \<Rightarrow> env \<Rightarrow> claims \<Rightarrow> db \<Rightarrow> db \<Rightarrow> uuid \<Rightarrow> bool" where
  "reached s ip e cl d d' i \<longleftrightarrow> linked d' cl = Some i
     \<and> (linked d cl = Some i \<and> t_links d' = t_links d
        \<or> linked d cl = None \<and> t_links d' = t_links d @ [\<lparr>ln_user = i, ln_issuer = cl_issuer cl, ln_subject = cl_subject cl\<rparr>]
          \<and> (invited e d cl i \<and> i \<notin> pn_user ` set (t_pendings d')
             \<or> od_sign_up s \<and> i = sign_up_id ip (cl_issuer cl) (cl_subject cl)))"

lemma wp_eligible:
  assumes "\<And>x. Q (Inl x) (tick w)"
    and "\<And>u. u_id u = i \<Longrightarrow> can_sign_in u \<Longrightarrow> scan_user (find (\<lambda>r. ur_id r = i) (t_users (w_db w))) = Inr u \<Longrightarrow> Q (Inr u) (tick w)"
  shows "wp (eligible i) e w Q"
  using assms
  by (cases "scan_user (find (\<lambda>r. ur_id r = i) (t_users (w_db w)))")
    (auto simp: eligible_def users_by_id_def wp_simps scan_user_def dest!: find_Some_mem row_user_fields split: option.splits)

lemma wp_link:
  assumes "\<And>x. Q (Inl x) (tick w)"
    and "linked (w_db w) cl = None \<Longrightarrow> Q (Inr ()) ((tick w)\<lparr>w_db := (w_db w)\<lparr>t_links := t_links (w_db w) @
        [\<lparr>ln_user = i, ln_issuer = cl_issuer cl, ln_subject = cl_subject cl\<rparr>]\<rparr>\<rparr>)"
  shows "wp (identities_link i (cl_issuer cl) (cl_subject cl)) e w Q"
proof -
  have "linked (w_db w) cl = None" if "\<not> list_ex (\<lambda>r. ln_issuer r = cl_issuer cl \<and> ln_subject r = cl_subject cl) (t_links (w_db w))"
    using that by (auto simp: linked_def list_ex_iff find_None_iff)
  then show ?thesis using assms by (auto simp: identities_link_def wp_simps)
qed

lemma linked_snoc:
  "linked d cl = None \<Longrightarrow> t_links d' = t_links d @ [\<lparr>ln_user = i, ln_issuer = cl_issuer cl, ln_subject = cl_subject cl\<rparr>] \<Longrightarrow>
     linked d' cl = Some i"
  by (simp add: linked_def find_snoc)

lemma wp_users_create:
  assumes "\<And>x. Q (Inl x) (tick w)"
    and "\<And>row. ur_id row = u_id u \<Longrightarrow> u_id u \<notin> ids_of (w_db w) \<Longrightarrow>
      Q (Inr ()) ((tick w)\<lparr>w_db := (w_db w)\<lparr>t_users := t_users (w_db w) @ [row]\<rparr>\<rparr>)"
  shows "wp (users_create u) e w Q"
  using assms by (auto simp: users_create_def insert_user_def wp_simps Let_def user_exists_ids)

text \<open>What resolving the claims leaves: on failure no link, on success the account reached.\<close>

definition resolved_as :: "oidc \<Rightarrow> idp \<Rightarrow> env \<Rightarrow> claims \<Rightarrow> db \<Rightarrow> user result \<Rightarrow> world \<Rightarrow> bool" where
  "resolved_as s ip e cl d r w' \<longleftrightarrow> t_sessions (w_db w') = t_sessions d \<and> (case r of
     Inl _ \<Rightarrow> t_links (w_db w') = t_links d
   | Inr u \<Rightarrow> can_sign_in u \<and> reached s ip e cl d (w_db w') (u_id u))"

lemma wp_redeem:
  assumes "invited e (w_db w) cl i" "linked (w_db w) cl = None"
  shows "wp (redeem i cl) e w (resolved_as s ip e cl (w_db w))"
proof -
  have bound: "reached s ip e cl (w_db w) d' j"
    if "t_links d' = t_links (w_db w) @ [\<lparr>ln_user = j, ln_issuer = cl_issuer cl, ln_subject = cl_subject cl\<rparr>]"
      "t_pendings d' = filter (\<lambda>r. pn_user r \<noteq> j) (t_pendings (w_db w))" "i = j" for d' j
    using that assms linked_snoc [OF assms(2) that(1)] by (auto simp: reached_def)
  show ?thesis
    unfolding redeem_def
    by (auto simp: wp_simps identities_consume_pending_def resolved_as_def intro!: wp_eligible wp_link bound)
qed

lemma sign_up_user_simps [simp]:
  "u_id (sign_up_user s ip cl now) = sign_up_id ip (cl_issuer cl) (cl_subject cl)"
  "can_sign_in (sign_up_user s ip cl now)"
  by (simp_all add: sign_up_user_def Let_def can_sign_in_def)

lemma wp_sign_up:
  assumes "od_sign_up s" "linked (w_db w) cl = None"
  shows "wp (sign_up s ip cl) e w (resolved_as s ip e cl (w_db w))"
proof -
  have bound: "reached s ip e cl (w_db w) d' (sign_up_id ip (cl_issuer cl) (cl_subject cl))"
    if "t_links d' = t_links (w_db w) @ [\<lparr>ln_user = sign_up_id ip (cl_issuer cl) (cl_subject cl),
        ln_issuer = cl_issuer cl, ln_subject = cl_subject cl\<rparr>]" for d'
    using that assms linked_snoc [OF assms(2) that] by (auto simp: reached_def)
  show ?thesis
    unfolding sign_up_def Let_def
    by (auto simp: wp_simps resolved_as_def intro!: wp_users_create wp_eligible wp_link bound)
qed

lemma wp_oidc_resolve: "wp (oidc_resolve s ip cl) e w (resolved_as s ip e cl (w_db w))"
proof (cases "linked (w_db w) cl")
  case (Some i)
  then have "wp (eligible i) e (tick w) (resolved_as s ip e cl (w_db w))"
    by (auto simp: resolved_as_def reached_def intro!: wp_eligible)
  then show ?thesis
    using Some by (auto simp: oidc_resolve_def identities_by_subject_def wp_simps linked_def resolved_as_def)
next
  case None
  have redeemed: "wp (redeem (pn_user row) cl) e v (resolved_as s ip e cl (w_db w))"
    if "w_db v = w_db w" "find (\<lambda>r. pn_issuer r = cl_issuer cl \<and> sql_lower e (pn_email r) = sql_lower e (cl_email cl)
        \<and> db_clock e n < pn_expires r) (t_pendings (w_db w)) = Some row" "cl_verified cl" "cl_email cl \<noteq> []" for v row n
  proof -
    have "invited e (w_db v) cl (pn_user row)" using that by (auto simp: invited_def dest!: find_Some_mem)
    then show ?thesis using wp_redeem [of e v cl] None that(1) by simp
  qed
  have signed: "wp (sign_up s ip cl) e v (resolved_as s ip e cl (w_db w))" if "w_db v = w_db w" "od_sign_up s" for v
    using wp_sign_up [of s v cl] None that by simp
  have failed: "resolved_as s ip e cl (w_db w) (Inl x) v" if "w_db v = w_db w" for x v
    using that by (simp add: resolved_as_def)
  show ?thesis
    using None
    by (auto simp: oidc_resolve_def identities_by_subject_def identities_pending_by_email_def wp_simps linked_def failed
        intro!: redeemed signed split: option.splits)
qed

section \<open>The login as a whole\<close>

lemma wp_fill_name:
  assumes "\<And>x w'. w_db w' = w_db w \<Longrightarrow> Q (Inl x) w'"
    and "\<And>b us w'. w_db w' = (w_db w)\<lparr>t_users := us\<rparr> \<Longrightarrow> Q (Inr b) w'"
  shows "wp (users_fill_display_name i n) e w Q"
proof -
  have same: "Q (Inr b) w'" if "w_db w' = w_db w" for b w'
    using that by (intro assms(2) [where us = "t_users (w_db w)"]) simp
  have mapped: "Q (Inr b) w'" if "w_db w' = map_user i f (w_db w)" for b w' f
    using that by (intro assms(2)) (simp add: map_user_def)
  show ?thesis
    by (auto simp: users_fill_display_name_def wp_simps same intro: assms(1) mapped)
qed

lemma wp_save_identity:
  assumes "\<And>x. Q (Inl x) (tick w)"
    and "u_id u \<in> ids_of (w_db w) \<Longrightarrow> Q (Inr ()) ((tick w)\<lparr>w_db := map_user (u_id u) (\<lambda>r. r\<lparr>ur_policy := encode_policy (u_policy u),
            ur_source := u_source u, ur_email := null_string (u_email u)\<rparr>) (w_db w)\<rparr>)"
  shows "wp (users_save_identity_state u) e w Q"
  using assms by (auto simp: users_save_identity_state_def wp_simps user_exists_ids)

lemma reached_same:
  "reached s ip e cl d d1 i \<Longrightarrow> t_links d2 = t_links d1 \<Longrightarrow> t_pendings d2 = t_pendings d1 \<Longrightarrow> reached s ip e cl d d2 i"
  by (simp add: reached_def linked_def)

text \<open>The policy the groups give, stored with the account and marked as the provider's.\<close>

definition entitled :: "oidc \<Rightarrow> claims \<Rightarrow> db \<Rightarrow> user \<Rightarrow> bool" where
  "entitled s cl d u \<longleftrightarrow> (od_grants s \<noteq> [] \<longrightarrow>
     (\<exists>row \<in> set (t_users d). ur_id row = u_id u \<and> ur_policy row = encode_policy (policy_for s (cl_groups cl)) \<and> ur_source row = policy_idp))"

definition save_and_open :: "oidc \<Rightarrow> claims \<Rightarrow> session_meta \<Rightarrow> user \<Rightarrow> session io" where
  "save_and_open s cl meta u =
     bnd (if od_grants s \<noteq> []
          then let u = u\<lparr>u_policy := policy_for s (cl_groups cl), u_source := policy_idp\<rparr> in
            bnd (users_save_identity_state u) (\<lambda>_. ret u)
          else ret u) (\<lambda>u.
     open_session u ''auth.signin.oidc'' meta)"

definition finish_login :: "oidc \<Rightarrow> claims \<Rightarrow> session_meta \<Rightarrow> user \<Rightarrow> session io" where
  "finish_login s cl meta u =
     bnd (if u_name u = [] \<and> cl_name cl \<noteq> []
          then bnd (users_fill_display_name (u_id u) (cl_name cl)) (\<lambda>filled.
            ret (if filled then u\<lparr>u_name := cl_name cl\<rparr> else u))
          else ret u) (save_and_open s cl meta)"

lemma complete_eq:
  "complete s ip code state ch meta =
     (if \<not> challenge_answers (ch_state ch) state then raise EInvalidCredentials
      else
        bnd (exchange_io ip code ch) (\<lambda>cl.
        if od_required s \<noteq> [] \<and> od_required s \<notin> set (cl_groups cl) then raise EForbidden
        else bnd (oidc_resolve s ip cl) (finish_login s cl meta)))"
  unfolding complete_def finish_login_def save_and_open_def by (rule refl)

definition admitted_login :: "oidc \<Rightarrow> idp \<Rightarrow> env \<Rightarrow> claims \<Rightarrow> session_meta \<Rightarrow> db \<Rightarrow> session \<Rightarrow> db \<Rightarrow> bool" where
  "admitted_login s ip e cl meta d sess d' \<longleftrightarrow> (\<exists>u d1. can_sign_in u \<and> reached s ip e cl d d1 (u_id u) \<and> entitled s cl d1 u
     \<and> opened e u ''auth.signin.oidc'' meta d1 sess d')"

text \<open>A login that fails after the account was resolved leaves at most the link it was resolved by.\<close>

definition failed_login :: "oidc \<Rightarrow> idp \<Rightarrow> env \<Rightarrow> claims \<Rightarrow> db \<Rightarrow> db \<Rightarrow> bool" where
  "failed_login s ip e cl d d' \<longleftrightarrow>
     (t_links d' = t_links d \<or> (\<exists>i. reached s ip e cl d d' i))
     \<and> (t_sessions d' = t_sessions d \<or> (\<exists>srow n. fault e n \<and> t_sessions d' = t_sessions d @ [srow]))"

lemma wp_open_login:
  assumes "can_sign_in u" "reached s ip e cl d (w_db w) (u_id u)" "entitled s cl (w_db w) u" "t_sessions (w_db w) = t_sessions d"
  shows "wp (open_session u ''auth.signin.oidc'' meta) e w (\<lambda>r w'. case r of
     Inl _ \<Rightarrow> failed_login s ip e cl d (w_db w') | Inr sess \<Rightarrow> admitted_login s ip e cl meta d sess (w_db w'))"
proof (rule wp_open_session)
  fix x and w' :: world
  assume "not_opened e u (w_db w) w'"
  then have l: "t_links (w_db w') = t_links (w_db w)" "t_pendings (w_db w') = t_pendings (w_db w)"
    and ss: "t_sessions (w_db w') = t_sessions d \<or> (\<exists>srow n. fault e n \<and> t_sessions (w_db w') = t_sessions d @ [srow])"
    using assms(4) by (auto simp: not_opened_def)
  then show "case Inl x of Inl _ \<Rightarrow> failed_login s ip e cl d (w_db w') | Inr sess \<Rightarrow> admitted_login s ip e cl meta d sess (w_db w')"
    using reached_same [OF assms(2) l] unfolding failed_login_def sum.case by blast
next
  fix sess :: session and w' :: world
  assume "opened e u ''auth.signin.oidc'' meta (w_db w) sess (w_db w')"
  then show "case Inr sess of Inl _ \<Rightarrow> failed_login s ip e cl d (w_db w') | Inr sess \<Rightarrow> admitted_login s ip e cl meta d sess (w_db w')"
    using assms(1-3) unfolding admitted_login_def sum.case by blast
qed

lemma mem_map_if: "x \<in> set xs \<Longrightarrow> P x \<Longrightarrow> f x \<in> set (map (\<lambda>r. if P r then f r else r) xs)"
  by (induction xs) auto

lemma wp_finish_login:
  assumes "can_sign_in u" "reached s ip e cl d (w_db w) (u_id u)" "t_sessions (w_db w) = t_sessions d"
  shows "wp (finish_login s cl meta u) e w (\<lambda>r w'. case r of
     Inl _ \<Rightarrow> failed_login s ip e cl d (w_db w') | Inr sess \<Rightarrow> admitted_login s ip e cl meta d sess (w_db w'))" (is "wp _ e w ?Q")
proof -
  have failed: "failed_login s ip e cl d d'" if "t_links d' = t_links (w_db w)" "t_pendings d' = t_pendings (w_db w)" "t_sessions d' = t_sessions (w_db w)" for d'
    using that assms(2,3) by (auto simp: failed_login_def intro: reached_same)
  have saved: "wp (save_and_open s cl meta v) e w1 ?Q"
    if w1: "w_db w1 = (w_db w)\<lparr>t_users := us\<rparr>" and v: "u_id v = u_id u" "can_sign_in v" for v w1 us
  proof (cases "od_grants s = []")
    case True
    then show ?thesis
      using assms w1 v by (auto simp: save_and_open_def wp_simps entitled_def intro!: wp_open_login reached_same [OF assms(2)])
  next
    case False
    have row: "\<exists>row \<in> set (t_users (map_user (u_id u) f d1)). ur_id row = u_id u
        \<and> ur_policy row = encode_policy (policy_for s (cl_groups cl)) \<and> ur_source row = policy_idp"
      if "u_id u \<in> ids_of d1" "f = (\<lambda>r. r\<lparr>ur_policy := encode_policy (policy_for s (cl_groups cl)),
            ur_source := policy_idp, ur_email := em\<rparr>)" for f em d1
    proof -
      have "u_id u \<in> ur_id ` set (t_users d1)" using that(1) by (simp add: ids_of_def)
      then obtain x where x: "x \<in> set (t_users d1)" "ur_id x = u_id u" by force
      then have "f x \<in> set (t_users (map_user (u_id u) f d1))" by (simp add: map_user_def mem_map_if)
      then show ?thesis using that(2) x by (intro bexI [of _ "f x"]) simp_all
    qed
    show ?thesis
      using False assms w1 v
      by (auto simp: save_and_open_def wp_simps Let_def entitled_def failed can_sign_in_def
          intro!: wp_save_identity wp_open_login reached_same [OF assms(2)] row [OF _ refl])
  qed
  have named: "can_sign_in (u\<lparr>u_name := n\<rparr>)" for n using assms(1) by (simp add: can_sign_in_def)
  show ?thesis
  proof (cases "u_name u = [] \<and> cl_name cl \<noteq> []")
    case True
    then show ?thesis
      unfolding finish_login_def
      by (subst wp_bnd) (auto simp: wp_bnd wp_ret failed assms(1) named
          intro!: wp_fill_name saved)
  next
    case False
    then show ?thesis
      unfolding finish_login_def
      by (subst wp_bnd) (auto simp: wp_ret assms(1) intro!: saved [where us = "t_users (w_db w)"])
  qed
qed

lemma wp_complete:
  "wp (complete s ip code state ch meta) e w (\<lambda>r w'. case r of
     Inr sess \<Rightarrow> challenge_answers (ch_state ch) state
       \<and> (\<exists>cl. ip_exchange ip (w_tick w) code ch = Inr cl \<and> (od_required s = [] \<or> od_required s \<in> set (cl_groups cl))
           \<and> admitted_login s ip e cl meta (w_db w) sess (w_db w'))
   | Inl x \<Rightarrow> (challenge_answers (ch_state ch) state \<or> x = EInvalidCredentials \<and> w' = w)
       \<and> (w_db w' = w_db w \<or> (\<exists>cl. ip_exchange ip (w_tick w) code ch = Inr cl \<and> failed_login s ip e cl (w_db w) (w_db w'))))"
proof (cases "challenge_answers (ch_state ch) state")
  case False
  then show ?thesis by (simp add: complete_eq wp_simps)
next
  case True
  show ?thesis
  proof (cases "ip_exchange ip (w_tick w) code ch")
    case (Inl x)
    then show ?thesis using True by (simp add: complete_eq exchange_io_def wp_def bnd_def)
  next
    case (Inr cl)
    let ?Q = "\<lambda>r w'. case r of Inl _ \<Rightarrow> failed_login s ip e cl (w_db w) (w_db w')
      | Inr sess \<Rightarrow> admitted_login s ip e cl meta (w_db w) sess (w_db w')"
    have main: "wp (bnd (oidc_resolve s ip cl) (finish_login s cl meta)) e (tick w) ?Q"
      unfolding wp_bnd
    proof (rule wp_mono [OF wp_oidc_resolve])
      fix r :: "user result" and w1 :: world
      assume "resolved_as s ip e cl (w_db (tick w)) r w1"
      then show "case r of Inl x \<Rightarrow> ?Q (Inl x) w1 | Inr u \<Rightarrow> wp (finish_login s cl meta u) e w1 ?Q"
        by (cases r) (auto simp: resolved_as_def failed_login_def [of s ip e cl "w_db w" "w_db w1"] intro!: wp_finish_login)
    qed
    have ex: "wp (exchange_io ip code ch) e w R = R (Inr cl) (tick w)" for R
      using Inr by (simp add: exchange_io_def wp_def)
    show ?thesis
    proof (cases "od_required s \<noteq> [] \<and> od_required s \<notin> set (cl_groups cl)")
      case True
      then show ?thesis using \<open>challenge_answers _ _\<close> by (simp add: complete_eq wp_bnd ex wp_raise)
    next
      case False
      then show ?thesis
        using \<open>challenge_answers _ _\<close> Inr main
        by (auto simp: complete_eq wp_bnd [of "exchange_io ip code ch"] ex elim!: wp_mono split: sum.splits)
    qed
  qed
qed

text \<open>C33: whom a federated login signs in. The callback answered the challenge, the provider vouched
  for a subject in the required group, and the session, audited and hashed, is that of an account
  that may sign in and is now linked to this very subject: it was linked already, or it was
  invited at this address, which the provider verified, and the invitation is spent, or sign-up
  is open and it is the subject's own derived account. With a group mapping, its stored policy is
  that of its groups.\<close>

theorem complete_admits:
  assumes "complete s ip code state ch meta e w = (Inr sess, w')"
  shows "state \<noteq> [] \<and> state = ch_state ch
    \<and> (\<exists>cl u d. ip_exchange ip (w_tick w) code ch = Inr cl \<and> (od_required s = [] \<or> od_required s \<in> set (cl_groups cl))
        \<and> can_sign_in u \<and> reached s ip e cl (w_db w) d (u_id u) \<and> linked (w_db w') cl = Some (se_user sess)
        \<and> entitled s cl d u \<and> opened e u ''auth.signin.oidc'' meta d sess (w_db w'))"
proof -
  obtain cl u d where "challenge_answers (ch_state ch) state" and ex: "ip_exchange ip (w_tick w) code ch = Inr cl"
    and group: "od_required s = [] \<or> od_required s \<in> set (cl_groups cl)" and u: "can_sign_in u" "entitled s cl d u"
    and r: "reached s ip e cl (w_db w) d (u_id u)" and o: "opened e u ''auth.signin.oidc'' meta d sess (w_db w')"
    using wp_run [OF wp_complete assms] by (auto simp: admitted_login_def)
  then have "state \<noteq> [] \<and> state = ch_state ch" by (simp add: challenge_answers_def split: if_splits)
  moreover have "linked (w_db w') cl = Some (se_user sess)"
    using r o by (auto simp: reached_def opened_def linked_def)
  ultimately show ?thesis using ex group u r o by blast
qed

text \<open>A federated login that fails. A callback that does not answer the challenge is refused before
  anything is asked of the provider or the database. Any other failure leaves every link and every
  session there was: at most the one link it had resolved the subject by is new, and a session
  row only when its audit and its deletion both failed.\<close>

lemma complete_fails:
  assumes "complete s ip code state ch meta e w = (Inl x, w')"
  shows "(state = [] \<or> state \<noteq> ch_state ch \<longrightarrow> x = EInvalidCredentials \<and> w' = w)
    \<and> (w_db w' = w_db w
       \<or> (\<exists>cl. ip_exchange ip (w_tick w) code ch = Inr cl
            \<and> (t_links (w_db w') = t_links (w_db w) \<or> (\<exists>i. reached s ip e cl (w_db w) (w_db w') i))
            \<and> (t_sessions (w_db w') = t_sessions (w_db w)
               \<or> (\<exists>srow n. fault e n \<and> t_sessions (w_db w') = t_sessions (w_db w) @ [srow]))))"
proof -
  have "(challenge_answers (ch_state ch) state \<or> x = EInvalidCredentials \<and> w' = w)
    \<and> (w_db w' = w_db w \<or> (\<exists>cl. ip_exchange ip (w_tick w) code ch = Inr cl \<and> failed_login s ip e cl (w_db w) (w_db w')))"
    using wp_run [OF wp_complete assms] unfolding sum.case .
  moreover have "challenge_answers (ch_state ch) state \<Longrightarrow> state \<noteq> [] \<and> state = ch_state ch"
    by (simp add: challenge_answers_def split: if_splits)
  ultimately show ?thesis unfolding failed_login_def by blast
qed

section \<open>Witnesses\<close>

definition example_claims :: claims where
  "example_claims = \<lparr>cl_issuer = ''https://idp'', cl_subject = ''ada'', cl_email = ''ada@example.org'', cl_verified = True,
     cl_groups = [''staff''], cl_name = ''Ada''\<rparr>"

definition example_idp :: idp where
  "example_idp = \<lparr>ip_auth_url = ch_state, ip_exchange = (\<lambda>_ _ _. Inr example_claims), ip_sha1 = (\<lambda>_. 9)\<rparr>"

definition example_oidc :: oidc where
  "example_oidc = \<lparr>od_required = ''staff'', od_sign_up = False, od_default = [],
     od_grants = []\<rparr>"

definition example_challenge :: challenge where
  "example_challenge = \<lparr>ch_state = ''s'', ch_nonce = ''n'', ch_verifier = ''v''\<rparr>"

definition linked_world :: world where
  "linked_world = example_world\<lparr>w_db := example_db\<lparr>t_links :=
     [\<lparr>ln_user = 2, ln_issuer = ''https://idp'', ln_subject = ''ada''\<rparr>]\<rparr>\<rparr>"

lemma example_complete:
  "\<exists>sess w'. complete example_oidc example_idp ''code'' ''s'' example_challenge example_meta example_env linked_world = (Inr sess, w')"
proof -
  have fresh: "b64_encode url_alphabet raw \<notin> ss_hash ` set (t_sessions example_db)" if "length raw = 32" for raw
    using example_fresh_session that by (auto simp: example_env_def)
  have "2 \<in> ids_of example_db" "can_sign_in ada" "u_id ada = 2" "u_name ada \<noteq> []"
    by (auto simp: ids_of_def example_db_def example_row_def can_sign_in_def example_user_def)
  moreover have "challenge_answers (ch_state example_challenge) ''s''" by (simp add: challenge_answers_def example_challenge_def)
  moreover have "exchange_io example_idp ''code'' example_challenge = (\<lambda>e w. (Inr example_claims, tick w))"
    by (simp add: exchange_io_def example_idp_def)
  moreover have "wp (\<lambda>e w. (Inr a, tick w)) e w Q = Q (Inr a) (tick w)" for a :: claims and e w Q by (simp add: wp_def)
  moreover have "cl_groups example_claims = [''staff'']" "cl_issuer example_claims = ''https://idp''" "cl_subject example_claims = ''ada''"
    "od_required example_oidc = ''staff''" "od_grants example_oidc = []"
    by (simp_all add: example_claims_def example_oidc_def)
  ultimately have "wp (complete example_oidc example_idp ''code'' ''s'' example_challenge example_meta) example_env linked_world
      (\<lambda>r w'. \<exists>sess. r = Inr sess)"
    using example_users fresh
    by (simp add: complete_eq oidc_resolve_def identities_by_subject_def eligible_def users_by_id_def finish_login_def
        save_and_open_def open_session_def new_session_id_def sessions_create_def audit_record_def audit_insert_def
        hash_session_id_def session_event_def wp_simps Let_def user_exists_ids ref_ok_ids null_uuid_def list_ex_key
        session_id_len_def linked_world_def) (simp add: example_env_def example_world_def)
  then show ?thesis by (auto simp: wp_def split: prod.splits)
qed

theorem complete_admits_witness:
  "\<exists>sess w'. complete example_oidc example_idp ''code'' ''s'' example_challenge example_meta example_env linked_world = (Inr sess, w')
    \<and> linked (w_db w') example_claims = Some (se_user sess)"
proof -
  obtain sess w' where run: "complete example_oidc example_idp ''code'' ''s'' example_challenge example_meta example_env linked_world = (Inr sess, w')"
    using example_complete by blast
  show ?thesis using complete_admits [OF run] run by (auto simp: example_idp_def)
qed

definition grouped_oidc :: oidc where
  "grouped_oidc = \<lparr>od_required = [], od_sign_up = True, od_default = [],
     od_grants = [\<lparr>gg_group = ''/dev'', gg_policy = [\<lparr>provider = ''*'', model_pattern = ''gpt'', compiled = None\<rparr>]\<rparr>,
       \<lparr>gg_group = ''/ops'', gg_policy = [\<lparr>provider = ''*'', model_pattern = ''gpt'', compiled = None\<rparr>,
          \<lparr>provider = ''claude'', model_pattern = ''*'', compiled = None\<rparr>]\<rparr>]\<rparr>"

end
