(* ===== verification/Drain.thy ===== *)
theory Drain
  imports Prelude
begin

text \<open>
  \<open>internal/infra/gateway/drain.go\<close>: the count of the proxied requests in flight that lets a
  shutdown wait for them. The mutex makes each method one step; the requests and the shutdown take
  their steps in any order. Closing the idle channel twice would crash the process.
\<close>

section \<open>The counter\<close>

text \<open>\<open>idle\<close> is \<open>None\<close> for the nil channel of a drain not started, else whether it is closed.\<close>

record drain =
  dr_flight :: int
  dr_idle :: "bool option"

definition drain_zero :: drain where
  "drain_zero = \<lparr>dr_flight = 0, dr_idle = None\<rparr>"

definition drain_enter :: "drain \<Rightarrow> bool \<times> drain" where
  "drain_enter d = (if dr_idle d \<noteq> None then (False, d) else (True, d\<lparr>dr_flight := dr_flight d + 1\<rparr>))"

text \<open>\<open>close\<close> of a channel; \<open>None\<close> is the panic of closing it again.\<close>

definition close_idle :: "drain \<Rightarrow> drain option" where
  "close_idle d = (if dr_idle d = Some True then None else Some (d\<lparr>dr_idle := Some True\<rparr>))"

definition drain_leave :: "drain \<Rightarrow> drain option" where
  "drain_leave d =
     (let d = d\<lparr>dr_flight := dr_flight d - 1\<rparr> in
      if dr_flight d = 0 \<and> dr_idle d \<noteq> None then close_idle d else Some d)"

definition drain_stop :: "drain \<Rightarrow> drain option" where
  "drain_stop d =
     (if dr_idle d = None
      then let d = d\<lparr>dr_idle := Some False\<rparr> in if dr_flight d = 0 then close_idle d else Some d
      else Some d)"

section \<open>The requests around it\<close>

text \<open>
  \<open>track\<close> lets a request in through \<open>enter\<close>, or answers it 503, and takes it out again once,
  however its handlers end. \<open>Crashed\<close> is the process gone.
\<close>

datatype drain_sys = Serving drain "nat set" | Crashed

datatype drain_event = Enter nat | Refuse nat | Leave nat | Stop

inductive drain_step :: "drain_sys \<Rightarrow> drain_event \<Rightarrow> drain_sys \<Rightarrow> bool" where
  enter: "r \<notin> R \<Longrightarrow> drain_enter d = (True, d') \<Longrightarrow> drain_step (Serving d R) (Enter r) (Serving d' (insert r R))"
| refuse: "r \<notin> R \<Longrightarrow> drain_enter d = (False, d') \<Longrightarrow> drain_step (Serving d R) (Refuse r) (Serving d' R)"
| leave: "r \<in> R \<Longrightarrow> drain_leave d = Some d' \<Longrightarrow> drain_step (Serving d R) (Leave r) (Serving d' (R - {r}))"
| leave_panics: "r \<in> R \<Longrightarrow> drain_leave d = None \<Longrightarrow> drain_step (Serving d R) (Leave r) Crashed"
| stop: "drain_stop d = Some d' \<Longrightarrow> drain_step (Serving d R) Stop (Serving d' R)"
| stop_panics: "drain_stop d = None \<Longrightarrow> drain_step (Serving d R) Stop Crashed"

inductive drain_runs :: "drain_sys \<Rightarrow> drain_event list \<Rightarrow> drain_sys \<Rightarrow> bool" where
  none: "drain_runs s [] s"
| more: "drain_step s ev t \<Longrightarrow> drain_runs t evs u \<Longrightarrow> drain_runs s (ev # evs) u"

inductive_cases drain_stepE: "drain_step s ev t"
inductive_simps drain_step_simps: "drain_step (Serving d R) ev t"
inductive_simps drain_runs_simps [simp]: "drain_runs s [] u" "drain_runs s (ev # evs) u"

section \<open>What it promises\<close>

text \<open>
  The contract: the requests in flight themselves, whether the drain has begun, and that the
  shutdown is told exactly when it has begun and nobody is left.
\<close>

record drain_spec =
  sp_inside :: "nat set"
  sp_begun :: bool

inductive spec_step :: "drain_spec \<Rightarrow> drain_event \<Rightarrow> drain_spec \<Rightarrow> bool" where
  spec_enter: "\<not> sp_begun s \<Longrightarrow> r \<notin> sp_inside s \<Longrightarrow> spec_step s (Enter r) (s\<lparr>sp_inside := insert r (sp_inside s)\<rparr>)"
| spec_refuse: "sp_begun s \<Longrightarrow> r \<notin> sp_inside s \<Longrightarrow> spec_step s (Refuse r) s"
| spec_leave: "r \<in> sp_inside s \<Longrightarrow> spec_step s (Leave r) (s\<lparr>sp_inside := sp_inside s - {r}\<rparr>)"
| spec_stop: "spec_step s Stop (s\<lparr>sp_begun := True\<rparr>)"

inductive spec_runs :: "drain_spec \<Rightarrow> drain_event list \<Rightarrow> drain_spec \<Rightarrow> bool" where
  spec_none: "spec_runs s [] s"
| spec_more: "spec_step s ev t \<Longrightarrow> spec_runs t evs u \<Longrightarrow> spec_runs s (ev # evs) u"

definition sp_told :: "drain_spec \<Rightarrow> bool" where
  "sp_told s \<longleftrightarrow> sp_begun s \<and> sp_inside s = {}"

text \<open>The counter stands for the requests inside, the channel for the beginning and the end.\<close>

definition stands_for :: "drain_sys \<Rightarrow> drain_spec \<Rightarrow> bool" where
  "stands_for c s \<longleftrightarrow> (\<exists>d. c = Serving d (sp_inside s) \<and> finite (sp_inside s) \<and> dr_flight d = int (card (sp_inside s))
     \<and> dr_idle d = (if sp_begun s then Some (sp_inside s = {}) else None))"

lemma stands_for_step:
  assumes "stands_for c s" "drain_step c ev c'"
  shows "\<exists>s'. spec_step s ev s' \<and> stands_for c' s'"
proof -
  obtain d where c: "c = Serving d (sp_inside s)" "finite (sp_inside s)" "dr_flight d = int (card (sp_inside s))"
    "dr_idle d = (if sp_begun s then Some (sp_inside s = {}) else None)"
    using assms(1) unfolding stands_for_def by blast
  have gone: "int (card (R - {r})) = int (card R) - 1" "int (card R) = 1 \<longleftrightarrow> R \<subseteq> {r}" if "finite R" "r \<in> R" for R :: "nat set" and r
  proof -
    have "card R = Suc (card (R - {r}))" using card_Suc_Diff1 [OF that] by simp
    then show "int (card (R - {r})) = int (card R) - 1" by simp
    have "card (R - {r}) = 0 \<longleftrightarrow> R - {r} = {}" using that(1) by simp
    then show "int (card R) = 1 \<longleftrightarrow> R \<subseteq> {r}" using \<open>card R = Suc _\<close> by auto
  qed
  show ?thesis
    using assms(2)
  proof (cases rule: drain_step.cases)
    case (enter r R d0 d')
    then have "spec_step s (Enter r) (s\<lparr>sp_inside := insert r (sp_inside s)\<rparr>)"
      using c by (intro spec_enter) (auto simp: drain_enter_def split: if_splits)
    moreover have "stands_for c' (s\<lparr>sp_inside := insert r (sp_inside s)\<rparr>)"
      using enter c by (auto simp: stands_for_def drain_enter_def split: if_splits)
    ultimately show ?thesis using enter by blast
  next
    case (refuse r R d0 d')
    then have "spec_step s (Refuse r) s" "stands_for c' s"
      using c assms(1) by (auto simp: drain_enter_def intro!: spec_refuse split: if_splits)
    then show ?thesis using refuse by blast
  next
    case (leave r R d0 d')
    then have "spec_step s (Leave r) (s\<lparr>sp_inside := sp_inside s - {r}\<rparr>)" using c by (intro spec_leave) auto
    moreover have "stands_for c' (s\<lparr>sp_inside := sp_inside s - {r}\<rparr>)"
      using leave c gone [of "sp_inside s" r]
      by (auto simp: stands_for_def drain_leave_def close_idle_def Let_def split: if_splits)
    ultimately show ?thesis using leave by blast
  next
    case (leave_panics r R d0)
    then have False using c by (auto simp: drain_leave_def close_idle_def Let_def split: if_splits)
    then show ?thesis ..
  next
    case (stop d0 d' R)
    have "stands_for c' (s\<lparr>sp_begun := True\<rparr>)"
      using stop c by (auto simp: stands_for_def drain_stop_def close_idle_def Let_def split: if_splits)
    then show ?thesis using stop spec_stop by blast
  next
    case (stop_panics d0 R)
    then have False using c by (auto simp: drain_stop_def close_idle_def Let_def split: if_splits)
    then show ?thesis ..
  qed
qed

lemma stands_for_runs:
  "drain_runs c evs c' \<Longrightarrow> stands_for c s \<Longrightarrow> \<exists>s'. spec_runs s evs s' \<and> stands_for c' s'"
proof (induction arbitrary: s rule: drain_runs.induct)
  case (none c)
  then show ?case using spec_none by blast
next
  case (more c ev c' evs c'')
  then obtain s' where "spec_step s ev s'" "stands_for c' s'" using stands_for_step by blast
  then show ?case using more.IH spec_more by blast
qed

definition nobody :: drain_spec where
  "nobody = \<lparr>sp_inside = {}, sp_begun = False\<rparr>"

lemma stands_for_zero: "stands_for (Serving drain_zero {}) nobody"
  by (simp add: stands_for_def nobody_def drain_zero_def)

lemma stands_for_reached:
  assumes "drain_runs (Serving drain_zero {}) evs c"
  shows "\<exists>s. spec_runs nobody evs s \<and> stands_for c s"
  using stands_for_runs [OF assms stands_for_zero] .

text \<open>C37: the drain implements its contract. Whatever the order in which requests come and go and the
  shutdown begins, the process does not crash on a channel closed twice, the requests let in and
  refused are those the contract lets in and refuses, the counter is the number inside, and the
  shutdown has been told exactly when the drain has begun and no request is inside.\<close>

theorem drain_refines:
  assumes "drain_runs (Serving drain_zero {}) evs c"
  shows "\<exists>s d. spec_runs \<lparr>sp_inside = {}, sp_begun = False\<rparr> evs s \<and> c = Serving d (sp_inside s)
    \<and> dr_flight d = int (card (sp_inside s)) \<and> (dr_idle d = Some True \<longleftrightarrow> sp_begun s \<and> sp_inside s = {})"
  using stands_for_reached [OF assms] unfolding stands_for_def nobody_def by fastforce

section \<open>The drain comes to its end\<close>

definition left_by :: "drain_event list \<Rightarrow> nat set" where
  "left_by evs = {r. Leave r \<in> set evs}"

definition is_leave :: "drain_event \<Rightarrow> bool" where
  "is_leave ev \<longleftrightarrow> (\<exists>r. ev = Leave r)"

lemma spec_drains:
  "spec_runs s evs s' \<Longrightarrow> sp_begun s \<Longrightarrow> finite (sp_inside s) \<Longrightarrow>
     sp_begun s' \<and> sp_inside s' = sp_inside s - left_by evs \<and> length (filter is_leave evs) = card (sp_inside s) - card (sp_inside s')
     \<and> card (sp_inside s') \<le> card (sp_inside s)"
proof (induction rule: spec_runs.induct)
  case (spec_none s)
  then show ?case by (simp add: left_by_def)
next
  case (spec_more s ev t evs u)
  from spec_more.hyps(1) show ?case
  proof (cases rule: spec_step.cases)
    case (spec_leave r)
    have "card (sp_inside s) = Suc (card (sp_inside s - {r}))" using card_Suc_Diff1 spec_leave(3) spec_more.prems(2) by metis
    moreover have "sp_begun u \<and> sp_inside u = sp_inside s - {r} - left_by evs
        \<and> length (filter is_leave evs) = card (sp_inside s - {r}) - card (sp_inside u) \<and> card (sp_inside u) \<le> card (sp_inside s - {r})"
    proof -
      have t: "sp_inside t = sp_inside s - {r}" "sp_begun t" "finite (sp_inside t)" using spec_leave(2) spec_more.prems by simp_all
      show ?thesis using spec_more.IH [OF t(2,3)] unfolding t(1) .
    qed
    moreover have "left_by (ev # evs) = insert r (left_by evs)" "is_leave ev" using spec_leave(1) by (auto simp: left_by_def is_leave_def)
    moreover have "sp_inside s - {r} - left_by evs = sp_inside s - insert r (left_by evs)" by blast
    moreover have "card (sp_inside s - {r} - left_by evs) \<le> card (sp_inside s - {r})"
      using spec_more.prems(2) by (intro card_mono) auto
    ultimately show ?thesis by simp
  next
    case (spec_refuse r)
    have "left_by (ev # evs) = left_by evs" "\<not> is_leave ev" using spec_refuse(1) by (simp_all add: left_by_def is_leave_def)
    then show ?thesis using spec_more.IH spec_more.prems unfolding spec_refuse(2) by fastforce
  next
    case spec_stop
    have "left_by (ev # evs) = left_by evs" "\<not> is_leave ev" using spec_stop(1) by (simp_all add: left_by_def is_leave_def)
    moreover have "sp_inside t = sp_inside s" "sp_begun t" using spec_stop(2) by simp_all
    moreover have "finite (sp_inside t)" using \<open>sp_inside t = sp_inside s\<close> spec_more.prems(2) by simp
    ultimately show ?thesis using spec_more.IH by fastforce
  qed (use spec_more.prems(1) in simp)
qed

text \<open>The drain ends. Once it has begun, whatever happens next, nobody new is let in, the only
  requests inside are those that were and have not left, so at most as many steps as there were
  requests can change anything, and the shutdown has been told as soon as they all have left.\<close>

lemma drain_ends:
  assumes "drain_runs (Serving drain_zero {}) evs (Serving d R)" and "dr_idle d \<noteq> None" and "drain_runs (Serving d R) later c"
  shows "\<exists>d' R'. c = Serving d' R' \<and> R' = R - left_by later \<and> length (filter is_leave later) = card R - card R'
    \<and> length (filter is_leave later) \<le> card R \<and> (dr_idle d' = Some True \<longleftrightarrow> R \<subseteq> left_by later)"
proof -
  obtain s where s: "stands_for (Serving d R) s" using stands_for_reached [OF assms(1)] by blast
  then have R: "sp_inside s = R" "sp_begun s" "finite R" using assms(2) by (auto simp: stands_for_def split: if_splits)
  obtain s' where s': "spec_runs s later s'" "stands_for c s'" using stands_for_runs [OF assms(3) s] by blast
  note ended = spec_drains [OF s'(1) R(2)]
  obtain d' where "c = Serving d' (sp_inside s')" "dr_idle d' = Some (sp_inside s' = {})"
    using s'(2) ended R by (auto simp: stands_for_def)
  then show ?thesis using ended R by auto
qed

section \<open>Witnesses\<close>

lemma example_drain:
  "drain_runs (Serving drain_zero {}) [Enter 1, Enter 2, Leave 1, Stop]
     (Serving \<lparr>dr_flight = 1, dr_idle = Some False\<rparr> {2})"
  "drain_runs (Serving \<lparr>dr_flight = 1, dr_idle = Some False\<rparr> {2}) [Refuse 3, Leave 2, Stop]
     (Serving \<lparr>dr_flight = 0, dr_idle = Some True\<rparr> {})"
proof -
  have one: "{2, Suc 0} - {Suc 0} = {2}" by auto
  show "drain_runs (Serving drain_zero {}) [Enter 1, Enter 2, Leave 1, Stop] (Serving \<lparr>dr_flight = 1, dr_idle = Some False\<rparr> {2})"
    by (simp add: drain_step_simps drain_zero_def drain_enter_def drain_leave_def drain_stop_def one)
  show "drain_runs (Serving \<lparr>dr_flight = 1, dr_idle = Some False\<rparr> {2}) [Refuse 3, Leave 2, Stop]
     (Serving \<lparr>dr_flight = 0, dr_idle = Some True\<rparr> {})"
    by (simp add: drain_step_simps drain_enter_def drain_leave_def drain_stop_def close_idle_def Let_def, blast)
qed

theorem drain_refines_witness:
  "\<exists>s. spec_runs \<lparr>sp_inside = {}, sp_begun = False\<rparr> [Enter 1, Enter 2, Leave 1, Stop] s \<and> sp_inside s = {2} \<and> \<not> sp_told s"
  using drain_refines [OF example_drain(1)] by (auto simp: sp_told_def)

end
