(* ===== verification/Catalog.thy ===== *)
theory Catalog
  imports Access World
begin

text \<open>
  \<open>internal/infra/gateway/catalog.go\<close>, \<open>internal/app/pricing.go\<close>, \<open>price_table.go\<close> and
  \<open>usage_cost.go\<close>: which providers serve a model and under which names policies and prices know
  them, and what a request costs. The upstream registry is a parameter, the function
  \<open>GetModelProviders\<close> from a model to the keys of the providers registered for exactly that name.
\<close>

section \<open>Provider names\<close>

definition codex_key :: string where "codex_key = ''codex''"
definition compat_prefix :: string where "compat_prefix = ''openai-compatible-''"
definition compat_key :: string where "compat_key = ''openai-compatibility''"
definition xai_key :: string where "xai_key = ''xai''"

definition trim_prefix :: "string \<Rightarrow> string \<Rightarrow> string" where
  "trim_prefix p s = (if prefix p s then drop (length p) s else s)"

definition policy_provider :: "string \<Rightarrow> string" where
  "policy_provider key =
     (if key = codex_key then ''chatgpt''
      else let name = trim_prefix compat_prefix key in if name \<noteq> [] then name else key)"

definition compat_provider_key :: "string \<Rightarrow> string" where
  "compat_provider_key name =
     (let key = to_lower (trim_space name) in
      if key = [] then compat_key
      else if key = compat_key \<or> prefix compat_prefix key then key
      else compat_prefix @ key)"

definition builtin_providers :: "string list" where
  "builtin_providers = [codex_key, ''claude'', ''gemini'', ''gemini-interactions'', ''vertex'', ''aistudio'',
     ''antigravity'', ''kimi'', ''kimi-ai'', ''kimi.ai'', ''kimi.com'', xai_key, ''devin'', ''meta'', ''home'', compat_key]"

definition reserved_provider_name :: "string \<Rightarrow> bool" where
  "reserved_provider_name name \<longleftrightarrow> list_ex (\<lambda>key. name = key \<or> name = policy_provider key) builtin_providers"

definition compat_name_refused :: "string \<Rightarrow> bool" where
  "compat_name_refused name \<longleftrightarrow>
     (let key = compat_provider_key name in trim_prefix compat_prefix key = [] \<or> reserved_provider_name (policy_provider key))"

section \<open>The catalogue\<close>

type_synonym registry = "string \<Rightarrow> string list"

fun policy_names :: "string list \<Rightarrow> string list \<Rightarrow> string list" where
  "policy_names names [] = names"
| "policy_names names (key # keys) =
     (let name = policy_provider key in
      policy_names (if name \<noteq> [] \<and> name \<notin> set names then names @ [name] else names) keys)"

definition providers_for :: "registry \<Rightarrow> string \<Rightarrow> string list" where
  "providers_for reg model =
     (let keys = reg model;
          keys = (if keys = [] then (let lower = to_lower model in if lower \<noteq> model then reg lower else keys) else keys)
      in if keys = [] then [] else sort (policy_names [] keys))"

definition known_model :: "registry \<Rightarrow> string \<Rightarrow> string option" where
  "known_model reg model =
     (if reg model \<noteq> [] then Some model
      else let lower = to_lower model in
        if lower \<noteq> model \<and> reg lower \<noteq> [] then Some lower else None)"

section \<open>Prices\<close>

text \<open>A Go map from a provider and a model, filled by successive assignments.\<close>

type_synonym price_map = "((string \<times> string) \<times> model_price) list"

definition price_table :: "model_price list \<Rightarrow> price_map" where
  "price_table prices = fold (\<lambda>p m. AList.update (mp_provider p, mp_model p) p m) prices []"

definition set_prices :: "model_price list \<Rightarrow> mem \<Rightarrow> mem" where
  "set_prices prices m = m\<lparr>m_table := Some (price_table prices)\<rparr>"

definition price_of :: "mem \<Rightarrow> string \<Rightarrow> string \<Rightarrow> model_price option" where
  "price_of m prov model = (case m_table m of None \<Rightarrow> None | Some t \<Rightarrow> map_of t (prov, model))"

definition priced_name :: "registry \<Rightarrow> string \<Rightarrow> (string \<times> string list) option" where
  "priced_name reg requested =
     (let (model, provs) = routed (providers_for reg) requested in
      if provs = [] then None
      else case known_model reg model of None \<Rightarrow> None | Some name \<Rightarrow> Some (name, provs))"

definition priced_everywhere :: "registry \<Rightarrow> mem \<Rightarrow> string \<Rightarrow> bool" where
  "priced_everywhere reg m requested =
     (case priced_name reg requested of
        None \<Rightarrow> False
      | Some (name, provs) \<Rightarrow> list_all (\<lambda>prov. price_of m prov name \<noteq> None) provs)"

section \<open>Costs\<close>

fun f64_neg :: "f64 \<Rightarrow> f64" where
  "f64_neg (Fin a) = Fin (- a)"
| "f64_neg PInf = NInf"
| "f64_neg NInf = PInf"
| "f64_neg NaN = NaN"

definition f64_sub :: "f64 \<Rightarrow> f64 \<Rightarrow> f64" where
  "f64_sub a b = f64_add a (f64_neg b)"

text \<open>The product of a count and a rate: an infinite rate times zero is not a number.\<close>

fun f64_times :: "int \<Rightarrow> f64 \<Rightarrow> f64" where
  "f64_times n (Fin a) = Fin (of_int n * a)"
| "f64_times n NaN = NaN"
| "f64_times n x = (if n = 0 then NaN else if 0 < n then x else f64_neg x)"

fun per_million :: "f64 \<Rightarrow> f64" where
  "per_million (Fin a) = Fin (a / 1000000)"
| "per_million x = x"

definition positive :: "int \<Rightarrow> int" where
  "positive n = max n 0"

definition unpriced_cost :: "int \<Rightarrow> usage_cost" where
  "unpriced_cost n = \<lparr>uc_input = Fin 0, uc_output = Fin 0, uc_cache_read = Fin 0, uc_cache_write = Fin 0, uc_savings = Fin 0,
     uc_unpriced = n, uc_priced = False\<rparr>"

text \<open>The sums of counts are \<open>int64\<close> sums.\<close>

definition price_usage :: "usage_event \<Rightarrow> model_price option \<Rightarrow> usage_cost" where
  "price_usage ev price =
     (let nin = positive (ue_input ev);
          nout = wrap64 (positive (ue_output ev) + positive (ue_reasoning ev));
          nread = positive (ue_cache_read ev);
          nwrite = positive (ue_cache_write ev);
          classified = wrap64 (wrap64 (wrap64 (nin + nout) + nread) + nwrite);
          unclassified = max (wrap64 (positive (ue_total ev) - classified)) 0
      in case price of
           None \<Rightarrow> unpriced_cost (wrap64 (unclassified + classified))
         | Some p \<Rightarrow>
             if classified = 0 then unpriced_cost unclassified
             else
               let write_rate = (if f64_eq (mp_cache_write p) (Fin 0) then mp_input p else mp_cache_write p)
               in \<lparr>uc_input = per_million (f64_times nin (mp_input p)),
                   uc_output = per_million (f64_times nout (mp_output p)),
                   uc_cache_read = per_million (f64_times nread (mp_cache_read p)),
                   uc_cache_write = per_million (f64_times nwrite write_rate),
                   uc_savings = per_million (f64_sub (f64_times nread (f64_sub (mp_input p) (mp_cache_read p)))
                     (f64_times nwrite (f64_sub write_rate (mp_input p)))),
                   uc_unpriced = unclassified,
                   uc_priced = True\<rparr>)"

definition add_cost :: "usage_cost \<Rightarrow> usage_cost \<Rightarrow> usage_cost" where
  "add_cost c other = \<lparr>uc_input = f64_add (uc_input c) (uc_input other), uc_output = f64_add (uc_output c) (uc_output other),
     uc_cache_read = f64_add (uc_cache_read c) (uc_cache_read other), uc_cache_write = f64_add (uc_cache_write c) (uc_cache_write other),
     uc_savings = f64_add (uc_savings c) (uc_savings other), uc_unpriced = wrap64 (uc_unpriced c + uc_unpriced other),
     uc_priced = (uc_priced c \<or> uc_priced other)\<rparr>"

section \<open>What a model is known by\<close>

lemma policy_names_set: "set (policy_names names keys) = set names \<union> (policy_provider ` set keys - {[]})"
  by (induction keys arbitrary: names) (auto simp: Let_def)

lemma policy_names_distinct: "distinct names \<Longrightarrow> distinct (policy_names names keys)"
  by (induction keys arbitrary: names) (auto simp: Let_def)

lemma providers_for_sorted: "sorted (providers_for reg model) \<and> distinct (providers_for reg model)"
  by (auto simp: providers_for_def Let_def policy_names_distinct)

lemma providers_for_set:
  "set (providers_for reg model) =
     policy_provider ` set (if reg model = [] then if to_lower model \<noteq> model then reg (to_lower model) else [] else reg model) - {[]}"
  by (auto simp: providers_for_def Let_def policy_names_set)

lemma provided_known: "providers_for reg model \<noteq> [] \<Longrightarrow> known_model reg model \<noteq> None"
  by (auto simp: providers_for_def known_model_def Let_def split: if_splits)

text \<open>Whatever the policy can be decided on has a name prices are keyed by.\<close>

lemma priced_name_iff:
  "routed (providers_for reg) requested = (model, provs) \<Longrightarrow>
     priced_name reg requested = (if provs = [] then None else Some (the (known_model reg model), provs))"
  using routed_catalog [of "providers_for reg" requested model provs] provided_known [of reg model]
  by (auto simp: priced_name_def)

lemma priced_everywhere_iff:
  assumes "routed (providers_for reg) requested = (model, provs)"
  shows "priced_everywhere reg m requested \<longleftrightarrow>
    provs \<noteq> [] \<and> (\<forall>prov \<in> set provs. price_of m prov (the (known_model reg model)) \<noteq> None)"
  by (auto simp: priced_everywhere_def priced_name_iff [OF assms] list_all_iff)

text \<open>The table holds, for each provider and model, the last price given for it.\<close>

lemma price_table_fold:
  "map_of (fold (\<lambda>p m. AList.update (mp_provider p, mp_model p) p m) prices t) k =
     (case find (\<lambda>p. (mp_provider p, mp_model p) = k) (rev prices) of Some p \<Rightarrow> Some p | None \<Rightarrow> map_of t k)"
proof (induction prices arbitrary: t)
  case (Cons p prices)
  have append: "find P (xs @ [p]) = (case find P xs of Some y \<Rightarrow> Some y | None \<Rightarrow> if P p then Some p else None)" for P xs
    by (induction xs) auto
  show ?case
    by (simp add: Cons.IH append update_conv split: option.splits)
qed simp

lemma price_of_set:
  "price_of (set_prices prices m) prov model = find (\<lambda>p. mp_provider p = prov \<and> mp_model p = model) (rev prices)"
  by (simp add: price_of_def set_prices_def price_table_def price_table_fold split: option.splits)

section \<open>The names of compatible providers\<close>

lemma compat_shape:
  "compat_provider_key name = compat_key \<or> prefix compat_prefix (compat_provider_key name)"
  by (auto simp: compat_provider_key_def Let_def)

lemma compat_key_reserved: "reserved_provider_name (policy_provider compat_key)"
proof -
  have "policy_provider compat_key = compat_key" by code_simp
  moreover have "compat_key \<in> set builtin_providers" by (simp add: builtin_providers_def)
  ultimately show ?thesis by (auto simp: reserved_provider_name_def list_ex_iff)
qed

lemma prefixed_provider: "p \<noteq> [] \<Longrightarrow> policy_provider (compat_prefix @ p) = p"
  by (simp add: policy_provider_def trim_prefix_def codex_key_def compat_prefix_def)

lemma compat_accepted:
  assumes "\<not> compat_name_refused a"
  shows "\<exists>p. p \<noteq> [] \<and> compat_provider_key a = compat_prefix @ p \<and> policy_provider (compat_provider_key a) = p"
proof -
  have ok: "trim_prefix compat_prefix (compat_provider_key a) \<noteq> []"
    "\<not> reserved_provider_name (policy_provider (compat_provider_key a))"
    using assms by (simp_all add: compat_name_refused_def Let_def)
  then have "compat_provider_key a \<noteq> compat_key" using compat_key_reserved by auto
  then obtain p where p: "compat_provider_key a = compat_prefix @ p" using compat_shape [of a] by (auto simp: prefix_def)
  then have "p \<noteq> []" using ok(1) by (auto simp: trim_prefix_def)
  then show ?thesis using p prefixed_provider by metis
qed

text \<open>A compatible provider goes by a name of its own. Unless its name is refused, the name
  policies know it by is not empty, is neither a built-in provider's key nor the name policies know
  one by, and no compatible provider with another upstream key goes by it, so a grant written for
  one provider never reaches another.\<close>

lemma compat_names_own:
  assumes "\<not> compat_name_refused a"
  shows "policy_provider (compat_provider_key a) \<noteq> []
    \<and> (\<forall>key \<in> set builtin_providers. policy_provider (compat_provider_key a) \<noteq> key
         \<and> policy_provider (compat_provider_key a) \<noteq> policy_provider key)
    \<and> (\<forall>b. \<not> compat_name_refused b \<and> policy_provider (compat_provider_key b) = policy_provider (compat_provider_key a)
         \<longrightarrow> compat_provider_key b = compat_provider_key a)"
proof -
  obtain p where p: "p \<noteq> []" "compat_provider_key a = compat_prefix @ p" "policy_provider (compat_provider_key a) = p"
    using compat_accepted [OF assms] by blast
  have "\<not> reserved_provider_name p" using assms p(3) by (simp add: compat_name_refused_def Let_def)
  then have "\<forall>key \<in> set builtin_providers. p \<noteq> key \<and> p \<noteq> policy_provider key"
    by (auto simp: reserved_provider_name_def list_ex_iff)
  moreover have "compat_provider_key b = compat_provider_key a"
    if "\<not> compat_name_refused b" "policy_provider (compat_provider_key b) = p" for b
    using compat_accepted [OF that(1)] that(2) p(2) by auto
  ultimately show ?thesis using p by blast
qed

section \<open>What usage costs\<close>

text \<open>The counts fit an \<open>int64\<close> together.\<close>

definition counts_fit :: "usage_event \<Rightarrow> bool" where
  "counts_fit ev \<longleftrightarrow> positive (ue_input ev) + positive (ue_output ev) + positive (ue_reasoning ev)
     + positive (ue_cache_read ev) + positive (ue_cache_write ev) < 2 ^ 63 \<and> positive (ue_total ev) < 2 ^ 63"

definition classified :: "usage_event \<Rightarrow> int" where
  "classified ev = positive (ue_input ev) + positive (ue_output ev) + positive (ue_reasoning ev)
     + positive (ue_cache_read ev) + positive (ue_cache_write ev)"

lemma positive_nonneg: "0 \<le> positive n"
  by (simp add: positive_def)

lemma counts_exact:
  assumes "counts_fit ev"
  shows "wrap64 (positive (ue_output ev) + positive (ue_reasoning ev)) = positive (ue_output ev) + positive (ue_reasoning ev)"
    and "wrap64 (wrap64 (wrap64 (positive (ue_input ev) + (positive (ue_output ev) + positive (ue_reasoning ev)))
      + positive (ue_cache_read ev)) + positive (ue_cache_write ev)) = classified ev"
    and "wrap64 (positive (ue_total ev) - classified ev) = positive (ue_total ev) - classified ev"
    and "wrap64 (max (positive (ue_total ev) - classified ev) 0 + classified ev) = max (positive (ue_total ev)) (classified ev)"
proof -
  note pos = positive_nonneg [of "ue_input ev"] positive_nonneg [of "ue_output ev"] positive_nonneg [of "ue_reasoning ev"]
    positive_nonneg [of "ue_cache_read ev"] positive_nonneg [of "ue_cache_write ev"] positive_nonneg [of "ue_total ev"]
  have fits: "wrap64 x = x" if "0 \<le> x" "x \<le> classified ev" for x
    using that assms by (intro wrap64_id) (simp_all add: counts_fit_def classified_def)
  show out: "wrap64 (positive (ue_output ev) + positive (ue_reasoning ev)) = positive (ue_output ev) + positive (ue_reasoning ev)"
    using pos by (intro fits) (simp_all add: classified_def)
  have a: "wrap64 (positive (ue_input ev) + (positive (ue_output ev) + positive (ue_reasoning ev)))
      = positive (ue_input ev) + (positive (ue_output ev) + positive (ue_reasoning ev))"
    using pos by (intro fits) (simp_all add: classified_def)
  have b: "wrap64 (positive (ue_input ev) + (positive (ue_output ev) + positive (ue_reasoning ev)) + positive (ue_cache_read ev))
      = positive (ue_input ev) + (positive (ue_output ev) + positive (ue_reasoning ev)) + positive (ue_cache_read ev)"
    using pos by (intro fits) (simp_all add: classified_def)
  have c: "wrap64 (positive (ue_input ev) + (positive (ue_output ev) + positive (ue_reasoning ev)) + positive (ue_cache_read ev)
      + positive (ue_cache_write ev)) = classified ev"
    using pos by (subst fits) (simp_all add: classified_def)
  show "wrap64 (wrap64 (wrap64 (positive (ue_input ev) + (positive (ue_output ev) + positive (ue_reasoning ev)))
      + positive (ue_cache_read ev)) + positive (ue_cache_write ev)) = classified ev"
    unfolding a b c ..
  have "classified ev < 2 ^ 63" "0 \<le> classified ev" "positive (ue_total ev) < 2 ^ 63"
    using assms pos by (simp_all add: counts_fit_def classified_def)
  then show "wrap64 (positive (ue_total ev) - classified ev) = positive (ue_total ev) - classified ev"
    and "wrap64 (max (positive (ue_total ev) - classified ev) 0 + classified ev) = max (positive (ue_total ev)) (classified ev)"
    using pos by (simp_all add: wrap64_id max_def)
qed

definition rates :: "model_price \<Rightarrow> rat \<Rightarrow> rat \<Rightarrow> rat \<Rightarrow> rat \<Rightarrow> bool" where
  "rates p i ou r wr \<longleftrightarrow> mp_input p = Fin i \<and> mp_output p = Fin ou \<and> mp_cache_read p = Fin r \<and> mp_cache_write p = Fin wr"

definition costs_add_up :: "usage_event \<Rightarrow> rat \<Rightarrow> rat \<Rightarrow> rat \<Rightarrow> rat \<Rightarrow> usage_cost \<Rightarrow> bool" where
  "costs_add_up ev i ou r wr c \<longleftrightarrow>
     uc_input c = Fin (of_int (positive (ue_input ev)) * i / 1000000)
     \<and> uc_output c = Fin (of_int (positive (ue_output ev) + positive (ue_reasoning ev)) * ou / 1000000)
     \<and> uc_cache_read c = Fin (of_int (positive (ue_cache_read ev)) * r / 1000000)
     \<and> uc_cache_write c = Fin (of_int (positive (ue_cache_write ev)) * wr / 1000000)
     \<and> f64_add (uc_savings c) (f64_add (f64_add (uc_input c) (uc_cache_read c)) (uc_cache_write c))
        = Fin (of_int (positive (ue_input ev) + positive (ue_cache_read ev) + positive (ue_cache_write ev)) * i / 1000000)"

text \<open>What a request costs. Every token is priced once or counted as unpriced: with a price the
  classified ones are priced, reasoning at the output rate and cache writes at the input rate where
  they have none of their own, and only the rest is unpriced; without one all are. The savings are
  what the input would have cost at the input rate, less what it did cost.\<close>

lemma price_usage_spec:
  assumes "counts_fit ev"
  shows "price_usage ev None = unpriced_cost (max (positive (ue_total ev)) (classified ev))
    \<and> (\<forall>p i ou r wr. rates p i ou r wr \<longrightarrow>
         (let c = price_usage ev (Some p) in
            uc_unpriced c + (if uc_priced c then classified ev else 0) = max (positive (ue_total ev)) (classified ev)
            \<and> (uc_priced c \<longleftrightarrow> 0 < classified ev)
            \<and> (if uc_priced c then costs_add_up ev i ou r (if wr = 0 then i else wr) c else c = unpriced_cost (positive (ue_total ev)))))"
proof (intro conjI allI impI)
  have pos: "0 \<le> classified ev" "0 \<le> positive (ue_total ev)" by (simp_all add: classified_def positive_def)
  show "price_usage ev None = unpriced_cost (max (positive (ue_total ev)) (classified ev))"
    unfolding price_usage_def Let_def counts_exact [OF assms] by simp
  fix p i ou r wr
  assume "rates p i ou r wr"
  then have p: "mp_input p = Fin i" "mp_output p = Fin ou" "mp_cache_read p = Fin r" "mp_cache_write p = Fin wr"
    by (simp_all add: rates_def)
  have savings: "(of_int cr * (i - r) - of_int cw * (w - i)) / 1000000
      + (of_int ci * i / 1000000 + of_int cr * r / 1000000 + of_int cw * w / 1000000)
      = of_int (ci + cr + cw) * i / 1000000" for ci cr cw w
    by (simp add: add_divide_distrib [symmetric] diff_divide_distrib [symmetric] algebra_simps)
  show "let c = price_usage ev (Some p) in
      uc_unpriced c + (if uc_priced c then classified ev else 0) = max (positive (ue_total ev)) (classified ev)
      \<and> (uc_priced c \<longleftrightarrow> 0 < classified ev)
      \<and> (if uc_priced c then costs_add_up ev i ou r (if wr = 0 then i else wr) c else c = unpriced_cost (positive (ue_total ev)))"
  proof (cases "classified ev = 0")
    case True
    then have "price_usage ev (Some p) = unpriced_cost (positive (ue_total ev))"
      using pos unfolding price_usage_def Let_def counts_exact [OF assms] by simp
    then show ?thesis using True pos by (simp add: unpriced_cost_def)
  next
    case False
    define w where "w = (if wr = 0 then i else wr)"
    have "price_usage ev (Some p) = \<lparr>uc_input = Fin (of_int (positive (ue_input ev)) * i / 1000000),
        uc_output = Fin (of_int (positive (ue_output ev) + positive (ue_reasoning ev)) * ou / 1000000),
        uc_cache_read = Fin (of_int (positive (ue_cache_read ev)) * r / 1000000),
        uc_cache_write = Fin (of_int (positive (ue_cache_write ev)) * w / 1000000),
        uc_savings = Fin ((of_int (positive (ue_cache_read ev)) * (i - r) - of_int (positive (ue_cache_write ev)) * (w - i)) / 1000000),
        uc_unpriced = max (positive (ue_total ev) - classified ev) 0, uc_priced = True\<rparr>"
      using False unfolding price_usage_def Let_def counts_exact [OF assms] by (simp add: p f64_sub_def w_def)
    then show ?thesis
      using False pos savings by (simp add: costs_add_up_def w_def [symmetric] max_def del: of_int_add)
  qed
qed

definition example_event :: usage_event where
  "example_event = \<lparr>ue_at = 0, ue_user = 1, ue_token = 2, ue_provider = ''claude'', ue_model = ''opus'', ue_alias = [],
     ue_stream = False, ue_tier = [], ue_input = 100, ue_output = 20, ue_reasoning = 30, ue_cache_read = 400, ue_cache_write = - 5,
     ue_total = 560, ue_quality = [], ue_latency = 0, ue_ttft = 0, ue_status = 200, ue_failed = False, ue_account = [],
     ue_cost = unpriced_cost 0\<rparr>"

end
