(* ===== verification/BodyBudget.thy ===== *)
theory BodyBudget
  imports Prelude
begin

text \<open>
  \<open>internal/infra/gateway/body_budget.go\<close>, the charges: what the request bodies held in memory
  may hold together, process wide and per account. The requests take their steps in any order. The
  weighted semaphore is \<open>golang.org/x/sync\<close>'s: whether it grants an amount is a parameter.
\<close>

section \<open>A charge\<close>

record charge =
  bc_n :: int
  bc_owner :: uuid
  bc_share :: int

definition new_charge :: "int \<Rightarrow> uuid \<Rightarrow> int \<Rightarrow> charge" where
  "new_charge whole owner most = \<lparr>bc_n = 0, bc_owner = owner, bc_share = max (whole div 4) most\<rparr>"

type_synonym shares = "uuid \<rightharpoonup> int"

definition held_by :: "shares \<Rightarrow> uuid \<Rightarrow> int" where
  "held_by held owner = (case held owner of None \<Rightarrow> 0 | Some h \<Rightarrow> h)"

text \<open>The first half of \<open>grow\<close>, under the lock of the shares; \<open>None\<close> is \<open>errBodyShare\<close>.\<close>

definition take_share :: "shares \<Rightarrow> charge \<Rightarrow> int \<Rightarrow> shares option" where
  "take_share held c amount =
     (if bc_share c < held_by held (bc_owner c) + amount then None
      else Some (held(bc_owner c \<mapsto> held_by held (bc_owner c) + amount)))"

definition unshare :: "shares \<Rightarrow> uuid \<Rightarrow> int \<Rightarrow> shares" where
  "unshare held owner n =
     (let remaining = held_by held owner - n in if 0 < remaining then held(owner \<mapsto> remaining) else held(owner := None))"

section \<open>The requests\<close>

text \<open>Where a request is: at rest, waiting in \<open>Acquire\<close> for an amount already shared, or between the two
  halves of \<open>shrinkTo\<close>, the budget released and the share not.\<close>

datatype phase = Rest | Waiting int | Returning int

record budget_sys =
  bs_used :: int
  bs_held :: shares
  bs_charges :: "nat \<rightharpoonup> charge \<times> phase"

datatype budget_event =
    New nat uuid int
  | ShareRefused nat int
  | Shared nat int
  | Granted nat
  | TimedOut nat
  | Released nat int
  | Unshared nat
  | Done nat

inductive budget_step ::
  "(int \<Rightarrow> int \<Rightarrow> int \<Rightarrow> bool) \<Rightarrow> int \<Rightarrow> budget_sys \<Rightarrow> budget_event \<Rightarrow> budget_sys \<Rightarrow> bool"
  for grants :: "int \<Rightarrow> int \<Rightarrow> int \<Rightarrow> bool" and whole :: int where
  new: "bs_charges s r = None \<Longrightarrow>
    budget_step grants whole s (New r owner most) (s\<lparr>bs_charges := (bs_charges s)(r \<mapsto> (new_charge whole owner most, Rest))\<rparr>)"
| share_refused: "bs_charges s r = Some (c, Rest) \<Longrightarrow> 0 \<le> amount \<Longrightarrow> take_share (bs_held s) c amount = None \<Longrightarrow>
    budget_step grants whole s (ShareRefused r amount) s"
| shared: "bs_charges s r = Some (c, Rest) \<Longrightarrow> 0 \<le> amount \<Longrightarrow> take_share (bs_held s) c amount = Some held \<Longrightarrow>
    budget_step grants whole s (Shared r amount) (s\<lparr>bs_held := held, bs_charges := (bs_charges s)(r \<mapsto> (c, Waiting amount))\<rparr>)"
| granted: "bs_charges s r = Some (c, Waiting amount) \<Longrightarrow> grants whole (bs_used s) amount \<Longrightarrow>
    budget_step grants whole s (Granted r) (s\<lparr>bs_used := bs_used s + amount,
      bs_charges := (bs_charges s)(r \<mapsto> (c\<lparr>bc_n := bc_n c + amount\<rparr>, Rest))\<rparr>)"
| timed_out: "bs_charges s r = Some (c, Waiting amount) \<Longrightarrow>
    budget_step grants whole s (TimedOut r) (s\<lparr>bs_held := unshare (bs_held s) (bc_owner c) amount,
      bs_charges := (bs_charges s)(r \<mapsto> (c, Rest))\<rparr>)"
| released: "bs_charges s r = Some (c, Rest) \<Longrightarrow> 0 \<le> keep \<Longrightarrow> keep < bc_n c \<Longrightarrow>
    budget_step grants whole s (Released r keep) (s\<lparr>bs_used := bs_used s - (bc_n c - keep),
      bs_charges := (bs_charges s)(r \<mapsto> (c, Returning keep))\<rparr>)"
| unshared: "bs_charges s r = Some (c, Returning keep) \<Longrightarrow>
    budget_step grants whole s (Unshared r) (s\<lparr>bs_held := unshare (bs_held s) (bc_owner c) (bc_n c - keep),
      bs_charges := (bs_charges s)(r \<mapsto> (c\<lparr>bc_n := keep\<rparr>, Rest))\<rparr>)"
| done': "bs_charges s r = Some (c, Rest) \<Longrightarrow> bc_n c = 0 \<Longrightarrow>
    budget_step grants whole s (Done r) (s\<lparr>bs_charges := (bs_charges s)(r := None)\<rparr>)"

inductive budget_runs ::
  "(int \<Rightarrow> int \<Rightarrow> int \<Rightarrow> bool) \<Rightarrow> int \<Rightarrow> budget_sys \<Rightarrow> budget_event list \<Rightarrow> budget_sys \<Rightarrow> bool"
  for grants :: "int \<Rightarrow> int \<Rightarrow> int \<Rightarrow> bool" and whole :: int where
  runs_none: "budget_runs grants whole s [] s"
| runs_more: "budget_step grants whole s ev t \<Longrightarrow> budget_runs grants whole t evs u \<Longrightarrow> budget_runs grants whole s (ev # evs) u"

inductive_cases budget_stepE: "budget_step grants whole s ev t"
inductive_simps budget_step_simps: "budget_step grants whole s (New r owner most) t"
  "budget_step grants whole s (ShareRefused r amount) t" "budget_step grants whole s (Shared r amount) t"
  "budget_step grants whole s (Granted r) t" "budget_step grants whole s (TimedOut r) t"
  "budget_step grants whole s (Released r keep) t" "budget_step grants whole s (Unshared r) t" "budget_step grants whole s (Done r) t"
inductive_simps budget_runs_simps: "budget_runs grants whole s [] u" "budget_runs grants whole s (ev # evs) u"

definition budget_zero :: budget_sys where
  "budget_zero = \<lparr>bs_used = 0, bs_held = Map.empty, bs_charges = Map.empty\<rparr>"

section \<open>The counters are the sums\<close>

text \<open>What a request has acquired of the budget and what it has put on its owner's share.\<close>

fun acquired :: "charge \<times> phase \<Rightarrow> int" where
  "acquired (c, Returning keep) = keep"
| "acquired (c, ph) = bc_n c"

fun on_share :: "charge \<times> phase \<Rightarrow> int" where
  "on_share (c, Waiting amount) = bc_n c + amount"
| "on_share (c, ph) = bc_n c"

definition owned :: "uuid \<Rightarrow> charge \<times> phase \<Rightarrow> int" where
  "owned i cp = (if bc_owner (fst cp) = i then on_share cp else 0)"

definition total :: "('a \<Rightarrow> int) \<Rightarrow> (nat \<rightharpoonup> 'a) \<Rightarrow> int" where
  "total f m = (\<Sum>r \<in> dom m. f (the (m r)))"

lemma total_empty [simp]: "total f Map.empty = 0"
  by (simp add: total_def)

lemma total_del: "finite (dom m) \<Longrightarrow> m k = Some x \<Longrightarrow> total f (m(k := None)) = total f m - f x"
proof -
  assume h: "finite (dom m)" "m k = Some x"
  have "total f m = f x + (\<Sum>r \<in> dom m - {k}. f (the (m r)))"
    unfolding total_def using h by (subst sum.remove [of _ k]) auto
  moreover have "(\<Sum>r \<in> dom m - {k}. f (the (m r))) = total f (m(k := None))"
    unfolding total_def by (intro sum.cong) auto
  ultimately show ?thesis by simp
qed

lemma total_new: "finite (dom m) \<Longrightarrow> m k = None \<Longrightarrow> total f (m(k \<mapsto> v)) = total f m + f v"
proof -
  assume h: "finite (dom m)" "m k = None"
  then have "total f (m(k \<mapsto> v)) = f v + (\<Sum>r \<in> dom m. f (the ((m(k \<mapsto> v)) r)))"
    unfolding total_def by (simp add: domIff)
  moreover have "(\<Sum>r \<in> dom m. f (the ((m(k \<mapsto> v)) r))) = total f m"
    unfolding total_def using h by (intro sum.cong) (auto simp: domIff)
  ultimately show ?thesis by simp
qed

lemma total_upd: "finite (dom m) \<Longrightarrow> m k = Some x \<Longrightarrow> total f (m(k \<mapsto> v)) = total f m - f x + f v"
proof -
  assume h: "finite (dom m)" "m k = Some x"
  have "total f ((m(k := None))(k \<mapsto> v)) = total f (m(k := None)) + f v" using h by (intro total_new) auto
  then show ?thesis using total_del [OF h, of f] by simp
qed

lemma total_nonneg: "(\<And>r x. m r = Some x \<Longrightarrow> 0 \<le> f x) \<Longrightarrow> 0 \<le> total f m"
  unfolding total_def by (intro sum_nonneg) (auto simp: domIff)

lemma total_member: "finite (dom m) \<Longrightarrow> m k = Some x \<Longrightarrow> (\<And>r x. m r = Some x \<Longrightarrow> 0 \<le> f x) \<Longrightarrow> f x \<le> total f m"
proof -
  assume h: "finite (dom m)" "m k = Some x" "\<And>r x. m r = Some x \<Longrightarrow> 0 \<le> f x"
  have "0 \<le> total f (m(k := None))" by (rule total_nonneg) (use h(3) in \<open>auto split: if_splits\<close>)
  then show ?thesis using total_del [OF h(1,2), of f] by simp
qed

lemma take_share_held: "take_share held c amount = Some held' \<Longrightarrow>
    held_by held' i = (if i = bc_owner c then held_by held i + amount else held_by held i)
    \<and> held_by held (bc_owner c) + amount \<le> bc_share c"
  by (auto simp: take_share_def held_by_def split: if_splits)

lemma unshare_held: "0 \<le> held_by held owner - n \<Longrightarrow>
    held_by (unshare held owner n) i = (if i = owner then held_by held i - n else held_by held i)"
  by (auto simp: unshare_def held_by_def Let_def)

definition charge_ok :: "int \<Rightarrow> charge \<times> phase \<Rightarrow> bool" where
  "charge_ok most cp \<longleftrightarrow> (case cp of (c, ph) \<Rightarrow> 0 \<le> bc_n c \<and> bc_share c \<le> most
     \<and> (case ph of Rest \<Rightarrow> True | Waiting amount \<Rightarrow> 0 \<le> amount | Returning keep \<Rightarrow> 0 \<le> keep \<and> keep < bc_n c))"

lemma charge_ok_pos: "charge_ok most cp \<Longrightarrow> 0 \<le> acquired cp \<and> 0 \<le> owned i cp"
  by (cases cp; cases "snd cp") (auto simp: charge_ok_def owned_def)

definition budget_ok :: "int \<Rightarrow> int \<Rightarrow> budget_sys \<Rightarrow> bool" where
  "budget_ok whole most s \<longleftrightarrow> finite (dom (bs_charges s)) \<and> (\<forall>r cp. bs_charges s r = Some cp \<longrightarrow> charge_ok most cp)
     \<and> bs_used s = total acquired (bs_charges s) \<and> bs_used s \<le> whole
     \<and> (\<forall>i. held_by (bs_held s) i = total (owned i) (bs_charges s) \<and> held_by (bs_held s) i \<le> most)"

definition asks_at_most :: "int \<Rightarrow> budget_event \<Rightarrow> bool" where
  "asks_at_most big ev \<longleftrightarrow> (case ev of New r owner most \<Rightarrow> most \<le> big | _ \<Rightarrow> True)"

lemma budget_ok_step:
  assumes ok: "budget_ok whole (max (whole div 4) big) s" and "budget_step grants whole s ev s'" and "asks_at_most big ev" and "0 \<le> whole"
    and grants: "\<And>used amount. grants whole used amount \<Longrightarrow> used + amount \<le> whole"
  shows "budget_ok whole (max (whole div 4) big) s'"
proof -
  let ?m = "max (whole div 4) big"
  have fin: "finite (dom (bs_charges s))" and wf: "\<And>r cp. bs_charges s r = Some cp \<Longrightarrow> charge_ok ?m cp"
    and used: "bs_used s = total acquired (bs_charges s)" "bs_used s \<le> whole"
    and held: "\<And>i. held_by (bs_held s) i = total (owned i) (bs_charges s)" "\<And>i. held_by (bs_held s) i \<le> ?m"
    using ok unfolding budget_ok_def by blast+
  have most: "0 \<le> ?m" using assms(4) by simp
  have mine: "on_share cp \<le> held_by (bs_held s) (bc_owner (fst cp))" if "bs_charges s r = Some cp" for r cp
  proof -
    have "owned (bc_owner (fst cp)) cp \<le> total (owned (bc_owner (fst cp))) (bs_charges s)"
      using wf charge_ok_pos by (intro total_member [OF fin that]) blast
    then show ?thesis using held(1) by (simp add: owned_def)
  qed
  from assms(2) show ?thesis
  proof (cases rule: budget_step.cases)
    case (new r owner most)
    then have "charge_ok ?m (new_charge whole owner most, Rest)"
      using assms(3) by (auto simp: charge_ok_def new_charge_def asks_at_most_def)
    then show ?thesis
      using new fin wf used held
      by (auto simp: budget_ok_def total_new owned_def new_charge_def split: if_splits)
  next
    case (share_refused r c amount)
    then show ?thesis using ok by simp
  next
    case (shared r c amount held')
    note take = take_share_held [OF shared(5)]
    have c: "charge_ok ?m (c, Rest)" using wf shared(3) by blast
    then have "charge_ok ?m (c, Waiting amount)" "bc_share c \<le> ?m" using shared(4) by (auto simp: charge_ok_def)
    moreover have "total acquired ((bs_charges s)(r \<mapsto> (c, Waiting amount))) = total acquired (bs_charges s)"
      using total_upd [OF fin shared(3)] by simp
    moreover have "held_by held' i = total (owned i) ((bs_charges s)(r \<mapsto> (c, Waiting amount)))" for i
      using total_upd [OF fin shared(3), of "owned i"] take [of i] held(1) [of i] by (auto simp: owned_def)
    moreover have "held_by held' i \<le> ?m" for i
      using take [of i] held(2) [of i] \<open>bc_share c \<le> ?m\<close> by (cases "i = bc_owner c") auto
    ultimately show ?thesis
      using shared(2) fin wf used by (auto simp: budget_ok_def split: if_splits)
  next
    case (granted r c amount)
    have c: "charge_ok ?m (c, Waiting amount)" using wf granted(3) by blast
    then have "charge_ok ?m (c\<lparr>bc_n := bc_n c + amount\<rparr>, Rest)" by (auto simp: charge_ok_def)
    moreover have "total acquired ((bs_charges s)(r \<mapsto> (c\<lparr>bc_n := bc_n c + amount\<rparr>, Rest))) = total acquired (bs_charges s) + amount"
      using total_upd [OF fin granted(3)] by simp
    moreover have "total (owned i) ((bs_charges s)(r \<mapsto> (c\<lparr>bc_n := bc_n c + amount\<rparr>, Rest))) = total (owned i) (bs_charges s)" for i
      using total_upd [OF fin granted(3), of "owned i"] by (auto simp: owned_def)
    ultimately show ?thesis
      using granted(2) fin wf used held grants [OF granted(4)] by (auto simp: budget_ok_def split: if_splits)
  next
    case (timed_out r c amount)
    have c: "charge_ok ?m (c, Waiting amount)" using wf timed_out(3) by blast
    then have "charge_ok ?m (c, Rest)" by (auto simp: charge_ok_def)
    moreover have "total acquired ((bs_charges s)(r \<mapsto> (c, Rest))) = total acquired (bs_charges s)"
      using total_upd [OF fin timed_out(3)] by simp
    moreover have back': "0 \<le> held_by (bs_held s) (bc_owner c) - amount" using mine [OF timed_out(3)] c by (simp add: charge_ok_def)
    moreover have "held_by (unshare (bs_held s) (bc_owner c) amount) i = total (owned i) ((bs_charges s)(r \<mapsto> (c, Rest)))" for i
      using total_upd [OF fin timed_out(3), of "owned i"] unshare_held [OF back', of i] held(1) [of i] by (auto simp: owned_def)
    moreover have "held_by (unshare (bs_held s) (bc_owner c) amount) i \<le> ?m" for i
      using unshare_held [OF back', of i] held(2) [of i] c by (auto simp: charge_ok_def)
    ultimately show ?thesis
      using timed_out(2) fin wf used by (auto simp: budget_ok_def split: if_splits)
  next
    case (released r c keep)
    have c: "charge_ok ?m (c, Rest)" using wf released(3) by blast
    then have "charge_ok ?m (c, Returning keep)" using released(4,5) by (auto simp: charge_ok_def)
    moreover have "total acquired ((bs_charges s)(r \<mapsto> (c, Returning keep))) = total acquired (bs_charges s) - (bc_n c - keep)"
      using total_upd [OF fin released(3)] by simp
    moreover have "total (owned i) ((bs_charges s)(r \<mapsto> (c, Returning keep))) = total (owned i) (bs_charges s)" for i
      using total_upd [OF fin released(3), of "owned i"] by (auto simp: owned_def)
    ultimately show ?thesis
      using released(2,5) fin wf used held by (auto simp: budget_ok_def split: if_splits)
  next
    case (unshared r c keep)
    have c: "charge_ok ?m (c, Returning keep)" using wf unshared(3) by blast
    then have "charge_ok ?m (c\<lparr>bc_n := keep\<rparr>, Rest)" by (auto simp: charge_ok_def)
    moreover have "total acquired ((bs_charges s)(r \<mapsto> (c\<lparr>bc_n := keep\<rparr>, Rest))) = total acquired (bs_charges s)"
      using total_upd [OF fin unshared(3)] by simp
    moreover have back': "0 \<le> held_by (bs_held s) (bc_owner c) - (bc_n c - keep)" using mine [OF unshared(3)] c by (simp add: charge_ok_def)
    moreover have "held_by (unshare (bs_held s) (bc_owner c) (bc_n c - keep)) i = total (owned i) ((bs_charges s)(r \<mapsto> (c\<lparr>bc_n := keep\<rparr>, Rest)))" for i
      using total_upd [OF fin unshared(3), of "owned i"] unshare_held [OF back', of i] held(1) [of i] by (auto simp: owned_def)
    moreover have "held_by (unshare (bs_held s) (bc_owner c) (bc_n c - keep)) i \<le> ?m" for i
      using unshare_held [OF back', of i] held(2) [of i] c by (auto simp: charge_ok_def)
    ultimately show ?thesis
      using unshared(2) fin wf used by (auto simp: budget_ok_def split: if_splits)
  next
    case (done' r c)
    have "total acquired ((bs_charges s)(r := None)) = total acquired (bs_charges s)"
      "total (owned i) ((bs_charges s)(r := None)) = total (owned i) (bs_charges s)" for i
      using total_del [OF fin done'(3)] done'(4) by (simp_all add: owned_def)
    then show ?thesis
      using done'(2) fin wf used held by (auto simp: budget_ok_def split: if_splits)
  qed
qed

lemma budget_ok_zero: "0 \<le> whole \<Longrightarrow> budget_ok whole (max (whole div 4) big) budget_zero"
  by (auto simp: budget_ok_def budget_zero_def held_by_def)

lemma budget_ok_runs:
  assumes "budget_runs grants whole s evs s'" "budget_ok whole (max (whole div 4) big) s" "list_all (asks_at_most big) evs" "0 \<le> whole"
    and "\<And>used amount. grants whole used amount \<Longrightarrow> used + amount \<le> whole"
  shows "budget_ok whole (max (whole div 4) big) s'"
  using assms
proof (induction rule: budget_runs.induct)
  case (runs_more s ev t evs u)
  then show ?case using budget_ok_step [of whole big s grants ev t] by simp
qed simp

lemma refused_for_others:
  assumes "budget_ok whole most s" "bs_charges s r = Some (c, Rest)" "take_share (bs_held s) c amount = None" "bc_n c + amount \<le> bc_share c"
  shows "\<exists>r' cp. r' \<noteq> r \<and> bs_charges s r' = Some cp \<and> 0 < owned (bc_owner c) cp"
proof (rule ccontr)
  assume none: "\<not> ?thesis"
  have fin: "finite (dom (bs_charges s))" and held: "held_by (bs_held s) (bc_owner c) = total (owned (bc_owner c)) (bs_charges s)"
    using assms(1) unfolding budget_ok_def by blast+
  have "total (owned (bc_owner c)) ((bs_charges s)(r := None)) \<le> 0"
    unfolding total_def using none by (intro sum_nonpos) (auto simp: domIff not_less split: if_splits)
  then have "held_by (bs_held s) (bc_owner c) \<le> bc_n c"
    using held total_del [OF fin assms(2), of "owned (bc_owner c)"] by (simp add: owned_def)
  then show False using assms(3,4) by (simp add: take_share_def split: if_splits)
qed

text \<open>C36: the budget of request bodies. Provided the semaphore grants no more than there is, then
  in whatever order any number of requests take, wait for, give up and give back their charges,
  what is acquired is the sum of what the requests hold and never above the budget, what an account
  is counted for is what its requests hold or wait for and never above a quarter of the budget or
  one request's own maximum, nothing stays behind once the requests are done, and a request within
  its own maximum is refused its share only while another request of its account holds some.\<close>

theorem budget_is_kept:
  assumes "budget_runs grants whole budget_zero evs s" and "list_all (asks_at_most big) evs" and "0 \<le> whole"
    and "\<And>used amount. grants whole used amount \<Longrightarrow> used + amount \<le> whole"
  shows "bs_used s = total acquired (bs_charges s) \<and> 0 \<le> bs_used s \<and> bs_used s \<le> whole
    \<and> (\<forall>i. held_by (bs_held s) i = total (owned i) (bs_charges s) \<and> held_by (bs_held s) i \<le> max (whole div 4) big)
    \<and> (bs_charges s = Map.empty \<longrightarrow> bs_used s = 0 \<and> (\<forall>i. held_by (bs_held s) i = 0))
    \<and> (\<forall>r c amount. bs_charges s r = Some (c, Rest) \<and> take_share (bs_held s) c amount = None \<and> bc_n c + amount \<le> bc_share c
         \<longrightarrow> (\<exists>r' cp. r' \<noteq> r \<and> bs_charges s r' = Some cp \<and> 0 < owned (bc_owner c) cp))"
proof -
  have ok: "budget_ok whole (max (whole div 4) big) s"
    by (rule budget_ok_runs [OF assms(1) budget_ok_zero [OF assms(3)] assms(2,3)]) (rule assms(4))
  then have held: "\<forall>i. held_by (bs_held s) i = total (owned i) (bs_charges s) \<and> held_by (bs_held s) i \<le> max (whole div 4) big"
    and used: "bs_used s = total acquired (bs_charges s)" "bs_used s \<le> whole"
    unfolding budget_ok_def by blast+
  have "0 \<le> total acquired (bs_charges s)"
  proof (rule total_nonneg)
    fix r cp assume "bs_charges s r = Some cp"
    then have "charge_ok (max (whole div 4) big) cp" using ok unfolding budget_ok_def by blast
    then show "0 \<le> acquired cp" using charge_ok_pos by blast
  qed
  then have pos: "0 \<le> bs_used s" using used(1) by simp
  have empty: "bs_charges s = Map.empty \<longrightarrow> bs_used s = 0 \<and> (\<forall>i. held_by (bs_held s) i = 0)"
    using used(1) held by simp
  have "\<forall>r c amount. bs_charges s r = Some (c, Rest) \<and> take_share (bs_held s) c amount = None \<and> bc_n c + amount \<le> bc_share c
      \<longrightarrow> (\<exists>r' cp. r' \<noteq> r \<and> bs_charges s r' = Some cp \<and> 0 < owned (bc_owner c) cp)"
    using refused_for_others [OF ok] by blast
  then show ?thesis using used pos held empty by blast
qed

text \<open>
  The source says that an owner holding nothing has no entry among the shares. An empty body takes
  a share of zero bytes, which writes an entry, and has nothing to give back, which leaves it.
\<close>

lemma empty_body_leaves_entry:
  assumes "0 \<le> whole" "grants whole 0 0"
  shows "budget_runs grants whole budget_zero [New 1 owner 4, Shared 1 0, Granted 1, Done 1]
    \<lparr>bs_used = 0, bs_held = [owner \<mapsto> 0], bs_charges = Map.empty\<rparr>"
  using assms
  by (auto simp: budget_runs_simps budget_step_simps budget_zero_def new_charge_def take_share_def held_by_def)

section \<open>Witnesses\<close>

definition roomy :: "int \<Rightarrow> int \<Rightarrow> int \<Rightarrow> bool" where
  "roomy whole used amount \<longleftrightarrow> used + amount \<le> whole"

lemma example_budget:
  "budget_runs roomy 16 budget_zero [New 1 7 6, Shared 1 5, New 2 7 6, Granted 1, ShareRefused 2 3]
    \<lparr>bs_used = 5, bs_held = [7 \<mapsto> 5], bs_charges = [1 \<mapsto> (\<lparr>bc_n = 5, bc_owner = 7, bc_share = 6\<rparr>, Rest),
       2 \<mapsto> (\<lparr>bc_n = 0, bc_owner = 7, bc_share = 6\<rparr>, Rest)]\<rparr>"
  by (simp add: budget_runs_simps budget_step_simps budget_zero_def new_charge_def take_share_def held_by_def roomy_def)
    (simp add: fun_upd_twist)

theorem budget_is_kept_witness:
  "\<exists>s. budget_runs roomy 16 budget_zero [New 1 7 6, Shared 1 5, New 2 7 6, Granted 1, ShareRefused 2 3] s
    \<and> bs_used s = 5 \<and> bs_used s \<le> 16 \<and> held_by (bs_held s) 7 \<le> 6"
proof -
  have "list_all (asks_at_most 6) [New 1 7 6, Shared 1 5, New 2 7 6, Granted 1, ShareRefused 2 3]" by (simp add: asks_at_most_def)
  note kept = budget_is_kept [OF example_budget this]
  have g: "used + amount \<le> 16" if "roomy 16 used amount" for used amount
    using that by (simp add: roomy_def)
  have "held_by [7 \<mapsto> 5] 7 \<le> (max (16 div 4) 6 :: int)"
    by (rule kept [THEN conjunct2, THEN conjunct2, THEN conjunct2, THEN conjunct1, THEN spec, THEN conjunct2, simplified budget_sys.select_convs])
      (simp, erule g)
  then show ?thesis
    by - (rule exI, rule conjI, rule example_budget, simp)
qed

end
