(* ===== verification/BodyIntake.thy ===== *)
theory BodyIntake
  imports BodyBudget
begin

text \<open>
  \<open>internal/infra/gateway/body_budget.go\<close>, the reading of a request body: \<open>bufferBody\<close> reads it
  whole into a buffer that doubles, charging the request for the buffer as it grows. A body is what
  its sender's connection delivers: pieces of bytes, each delivered with or without the end of the
  body or a failure. Between two steps of one request the budget is as the request left it; the
  theory \<open>BodyBudget\<close> is about the steps of several.
\<close>

section \<open>Charging\<close>

datatype body_err = ErrShare | ErrBusy | ErrOverRead | ErrTooLarge | ErrDeadline | ErrUnexpectedEOF | ErrRead
  | ErrDecodedTooLarge | ErrUnreadable | ErrCoding

record budget =
  bu_used :: int
  bu_held :: shares

definition grow :: "(int \<Rightarrow> int \<Rightarrow> int \<Rightarrow> bool) \<Rightarrow> int \<Rightarrow> int \<Rightarrow> charge \<Rightarrow> budget \<Rightarrow> body_err option \<times> charge \<times> budget" where
  "grow grants whole amount c b =
     (case take_share (bu_held b) c amount of
        None \<Rightarrow> (Some ErrShare, c, b)
      | Some held \<Rightarrow>
          if grants whole (bu_used b) amount
          then (None, c\<lparr>bc_n := bc_n c + amount\<rparr>, \<lparr>bu_used = bu_used b + amount, bu_held = held\<rparr>)
          else (Some ErrBusy, c, \<lparr>bu_used = bu_used b, bu_held = unshare held (bc_owner c) amount\<rparr>))"

definition shrink_to :: "int \<Rightarrow> charge \<Rightarrow> budget \<Rightarrow> charge \<times> budget" where
  "shrink_to keep c b =
     (if bc_n c \<le> keep then (c, b)
      else (c\<lparr>bc_n := keep\<rparr>, \<lparr>bu_used = bu_used b - (bc_n c - keep),
              bu_held = unshare (bu_held b) (bc_owner c) (bc_n c - keep)\<rparr>))"

definition release :: "charge \<Rightarrow> budget \<Rightarrow> budget" where
  "release c b = snd (shrink_to 0 c b)"

section \<open>The connection\<close>

datatype read_end = AtEnd | Broken | Expired

datatype piece = Piece string "read_end option"

text \<open>One \<open>Read\<close> into \<open>k\<close> bytes of room. An end, once delivered, is delivered again.\<close>

fun read_under :: "nat \<Rightarrow> piece list \<Rightarrow> string \<times> read_end option \<times> piece list" where
  "read_under k [] = ([], Some AtEnd, [])"
| "read_under k (Piece d x # ps) =
     (if length d \<le> k then (d, x, if x = None then ps else [Piece [] x])
      else (take k d, None, Piece (drop k d) x # ps))"

text \<open>\<open>http.MaxBytesReader\<close> under \<open>limitedBody\<close>, which remembers that the limit was hit.\<close>

datatype read_err = Ended read_end | OverLimit

record reader =
  rd_pieces :: "piece list"
  rd_left :: int
  rd_err :: "read_err option"
  rd_too_large :: bool

definition open_reader :: "piece list \<Rightarrow> int \<Rightarrow> reader" where
  "open_reader ps limit = \<lparr>rd_pieces = ps, rd_left = limit, rd_err = None, rd_too_large = False\<rparr>"

definition read_limited :: "nat \<Rightarrow> reader \<Rightarrow> string \<times> read_err option \<times> reader" where
  "read_limited k rd =
     (case rd_err rd of
        Some x \<Rightarrow> ([], Some x, rd\<lparr>rd_too_large := rd_too_large rd \<or> x = OverLimit\<rparr>)
      | None \<Rightarrow>
          if k = 0 then ([], None, rd)
          else case read_under (if rd_left rd < int k - 1 then nat (rd_left rd + 1) else k) (rd_pieces rd) of (d, x, ps) \<Rightarrow>
            if int (length d) \<le> rd_left rd
            then (d, map_option Ended x,
                  rd\<lparr>rd_pieces := ps, rd_left := rd_left rd - int (length d), rd_err := map_option Ended x\<rparr>)
            else (take (nat (rd_left rd)) d, Some OverLimit,
                  rd\<lparr>rd_pieces := ps, rd_left := 0, rd_err := Some OverLimit, rd_too_large := True\<rparr>))"

fun read_failed :: "read_err \<Rightarrow> body_err" where
  "read_failed (Ended Expired) = ErrDeadline"
| "read_failed OverLimit = ErrTooLarge"
| "read_failed x = ErrRead"

definition body_length :: "bool \<Rightarrow> int \<Rightarrow> int" where
  "body_length has_body content_length =
     (if \<not> has_body then 0 else if 0 < content_length then content_length else - 1)"

section \<open>The loop\<close>

definition initial_body_buffer :: int where "initial_body_buffer = 16384"

record intake =
  in_buf :: string
  in_cap :: int
  in_reader :: reader
  in_charge :: charge
  in_budget :: budget

text \<open>
  The first half of a turn, which makes room: the buffer is full at its final size and the length
  was declared, or may go on past the limit, or may not grow, or has room.
\<close>

datatype room = Full | AtLimit | NoRoom body_err intake | Room intake

definition make_room :: "(int \<Rightarrow> int \<Rightarrow> int \<Rightarrow> bool) \<Rightarrow> int \<Rightarrow> int \<Rightarrow> int \<Rightarrow> intake \<Rightarrow> room" where
  "make_room grants whole len limit s =
     (if int (length (in_buf s)) = in_cap s then
        if int (length (in_buf s)) = limit then if 0 \<le> len then Full else AtLimit
        else let grown = min (2 * in_cap s) limit in
          case grow grants whole (grown - bc_n (in_charge s)) (in_charge s) (in_budget s) of
            (Some x, c, b) \<Rightarrow> NoRoom x (s\<lparr>in_charge := c, in_budget := b\<rparr>)
          | (None, c, b) \<Rightarrow> Room (s\<lparr>in_cap := grown, in_charge := c, in_budget := b\<rparr>)
      else Room s)"

text \<open>The second half, which reads: the errors and the state the loop ends with, or the next turn's state.\<close>

definition fill :: "int \<Rightarrow> intake \<Rightarrow> (body_err list \<times> intake) + intake" where
  "fill len s =
     (case read_limited (nat (in_cap s - int (length (in_buf s)))) (in_reader s) of (d, x, rd) \<Rightarrow>
        let s = s\<lparr>in_buf := in_buf s @ d, in_reader := rd\<rparr> in
        case x of
          None \<Rightarrow> Inr s
        | Some y \<Rightarrow>
            if y = Ended AtEnd
            then if 0 \<le> len \<and> int (length (in_buf s)) < len then Inl ([ErrUnexpectedEOF], s) else Inl ([], s)
            else Inl ([read_failed y], s))"

partial_function (option) probe_end :: "reader \<Rightarrow> (body_err list \<times> reader) option" where
  "probe_end rd =
     (case read_limited 1 rd of (d, x, rd') \<Rightarrow>
        if d \<noteq> [] then Some ([ErrOverRead], rd')
        else case x of
          None \<Rightarrow> probe_end rd'
        | Some y \<Rightarrow> Some (if y = Ended AtEnd then [] else [read_failed y], rd'))"

partial_function (option) read_loop ::
  "(int \<Rightarrow> int \<Rightarrow> int \<Rightarrow> bool) \<Rightarrow> int \<Rightarrow> int \<Rightarrow> int \<Rightarrow> intake \<Rightarrow> (body_err list \<times> intake) option" where
  "read_loop grants whole len limit s =
     (case make_room grants whole len limit s of
        Full \<Rightarrow> Some ([], s)
      | AtLimit \<Rightarrow>
          (case probe_end (in_reader s) of None \<Rightarrow> None | Some (errs, rd) \<Rightarrow> Some (errs, s\<lparr>in_reader := rd\<rparr>))
      | NoRoom x s' \<Rightarrow> Some ([x], s')
      | Room s' \<Rightarrow>
          (case fill len s' of Inl ended \<Rightarrow> Some ended | Inr s'' \<Rightarrow> read_loop grants whole len limit s''))"

definition buffer_body ::
  "(int \<Rightarrow> int \<Rightarrow> int \<Rightarrow> bool) \<Rightarrow> int \<Rightarrow> charge \<Rightarrow> budget \<Rightarrow> reader \<Rightarrow> int \<Rightarrow> int \<Rightarrow> (body_err list \<times> intake) option" where
  "buffer_body grants whole c b rd len limit =
     (let most = (if len < 0 then limit else len); first = min initial_body_buffer most in
      case grow grants whole first c b of
        (Some x, c, b) \<Rightarrow> Some ([x], \<lparr>in_buf = [], in_cap = 0, in_reader = rd, in_charge = c, in_budget = b\<rparr>)
      | (None, c, b) \<Rightarrow>
          read_loop grants whole len most \<lparr>in_buf = [], in_cap = first, in_reader = rd, in_charge = c, in_budget = b\<rparr>)"

section \<open>What a connection delivers\<close>

fun sent :: "piece list \<Rightarrow> string" where
  "sent [] = []"
| "sent (Piece d x # ps) = d @ (if x = None then sent ps else [])"

fun ending :: "piece list \<Rightarrow> read_end" where
  "ending [] = AtEnd"
| "ending (Piece d x # ps) = (case x of None \<Rightarrow> ending ps | Some y \<Rightarrow> y)"

fun work :: "piece list \<Rightarrow> nat" where
  "work [] = 0"
| "work (Piece d x # ps) = Suc (length d) + work ps"

lemma read_under_spec:
  assumes "read_under k ps = (d, x, ps')" "0 < k"
  shows "sent ps = d @ sent ps' \<and> ending ps' = ending ps \<and> length d \<le> k
    \<and> (case x of None \<Rightarrow> work ps' < work ps | Some y \<Rightarrow> sent ps' = [] \<and> y = ending ps)"
  using assms by (cases "(k, ps)" rule: read_under.cases) (auto split: if_splits option.splits)

lemma read_limited_spec:
  assumes "read_limited k rd = (d, x, rd')" "rd_err rd = None" "0 \<le> rd_left rd" "0 < k"
  shows "length d \<le> k \<and> (case x of
      None \<Rightarrow> sent (rd_pieces rd) = d @ sent (rd_pieces rd') \<and> ending (rd_pieces rd') = ending (rd_pieces rd)
        \<and> rd_left rd' = rd_left rd - int (length d) \<and> 0 \<le> rd_left rd' \<and> rd_err rd' = None
        \<and> rd_too_large rd' = rd_too_large rd \<and> work (rd_pieces rd') < work (rd_pieces rd)
    | Some (Ended y) \<Rightarrow> sent (rd_pieces rd) = d \<and> int (length d) \<le> rd_left rd \<and> y = ending (rd_pieces rd)
        \<and> rd_too_large rd' = rd_too_large rd
    | Some OverLimit \<Rightarrow> rd_left rd < int (length (sent (rd_pieces rd))) \<and> rd_left rd < int k
        \<and> d = take (nat (rd_left rd)) (sent (rd_pieces rd)) \<and> rd_too_large rd')"
proof -
  let ?k = "if rd_left rd < int k - 1 then nat (rd_left rd + 1) else k"
  obtain d0 x0 ps where r: "read_under ?k (rd_pieces rd) = (d0, x0, ps)" by (metis prod_cases3)
  have "0 < ?k" using assms(3,4) by auto
  note u = read_under_spec [OF r this]
  have k: "?k \<le> k" using assms(3) by auto
  then have len: "length d0 \<le> k" using u by linarith
  show ?thesis
  proof (cases "int (length d0) \<le> rd_left rd")
    case True
    then have "d = d0" "x = map_option Ended x0"
      "rd' = rd\<lparr>rd_pieces := ps, rd_left := rd_left rd - int (length d0), rd_err := map_option Ended x0\<rparr>"
      using assms(1,2,4) r by (auto simp: read_limited_def)
    then show ?thesis using u len True by (cases x0) auto
  next
    case False
    then have "d = take (nat (rd_left rd)) d0" "x = Some OverLimit" "rd_too_large rd'"
      using assms(1,2,4) r by (auto simp: read_limited_def)
    then show ?thesis using u len False by (auto simp: min_def)
  qed
qed

section \<open>Charges given and given back\<close>

text \<open>What the request has put on the budget it found.\<close>

definition charged_on :: "budget \<Rightarrow> uuid \<Rightarrow> int \<Rightarrow> charge \<Rightarrow> budget \<Rightarrow> bool" where
  "charged_on b0 owner share c b \<longleftrightarrow> bc_owner c = owner \<and> bc_share c = share \<and> 0 \<le> bc_n c
     \<and> bu_used b = bu_used b0 + bc_n c
     \<and> (\<forall>i. held_by (bu_held b) i = held_by (bu_held b0) i + (if i = owner then bc_n c else 0))"

definition held_nonneg :: "budget \<Rightarrow> bool" where
  "held_nonneg b \<longleftrightarrow> (\<forall>i. 0 \<le> held_by (bu_held b) i)"

lemma grow_charged:
  assumes "grow grants whole amount c b = (x, c', b')" "charged_on b0 owner share c b" "held_nonneg b0" "0 \<le> amount"
  shows "charged_on b0 owner share c' b' \<and> bc_n c' = (if x = None then bc_n c + amount else bc_n c)
    \<and> (x = None \<or> x = Some ErrShare \<or> x = Some ErrBusy)
    \<and> (x = Some ErrShare \<longleftrightarrow> bc_share c < held_by (bu_held b) (bc_owner c) + amount)
    \<and> (x = Some ErrBusy \<longrightarrow> \<not> grants whole (bu_used b) amount)"
proof (cases "take_share (bu_held b) c amount")
  case None
  then have "bc_share c < held_by (bu_held b) (bc_owner c) + amount" by (auto simp: take_share_def split: if_splits)
  then show ?thesis using assms(1,2) None by (auto simp: grow_def)
next
  case (Some held)
  have own: "bc_owner c = owner" using assms(2) by (simp add: charged_on_def)
  have fits: "\<not> bc_share c < held_by (bu_held b) (bc_owner c) + amount"
    using Some by (auto simp: take_share_def split: if_splits)
  have held: "held_by held i = held_by (bu_held b) i + (if i = owner then amount else 0)" for i
    using take_share_held [OF Some, of i] own by auto
  have "0 \<le> held_by held owner - amount"
    using held [of owner] assms(2,3) by (simp add: charged_on_def held_nonneg_def)
  then have back': "held_by (unshare held owner amount) i = held_by (bu_held b) i" for i
    using unshare_held [of held owner amount i] held [of i] by auto
  show ?thesis
    using assms(1,2,4) Some fits own held back' by (auto simp: grow_def charged_on_def split: if_splits)
qed

lemma shrink_charged:
  assumes "shrink_to keep c b = (c', b')" "charged_on b0 owner share c b" "held_nonneg b0" "0 \<le> keep"
  shows "charged_on b0 owner share c' b' \<and> bc_n c' = min (bc_n c) keep"
proof (cases "bc_n c \<le> keep")
  case True
  then show ?thesis using assms(1,2) by (auto simp: shrink_to_def)
next
  case False
  have own: "bc_owner c = owner" using assms(2) by (simp add: charged_on_def)
  have "0 \<le> held_by (bu_held b) owner - (bc_n c - keep)"
    using assms(2,3,4) by (simp add: charged_on_def held_nonneg_def)
  then have "held_by (unshare (bu_held b) owner (bc_n c - keep)) i
      = held_by (bu_held b) i - (if i = owner then bc_n c - keep else 0)" for i
    using unshare_held [of "bu_held b" owner "bc_n c - keep" i] by auto
  then show ?thesis
    using assms(1,2,4) False own by (auto simp: shrink_to_def charged_on_def)
qed

lemma release_charged:
  assumes "charged_on b0 owner share c b" "held_nonneg b0"
  shows "bu_used (release c b) = bu_used b0 \<and> (\<forall>i. held_by (bu_held (release c b)) i = held_by (bu_held b0) i)"
proof -
  obtain c' b' where s: "shrink_to 0 c b = (c', b')" by fastforce
  have "bc_n c' = 0 \<and> charged_on b0 owner share c' b'"
    using shrink_charged [OF s assms] assms(1) by (simp add: charged_on_def)
  then show ?thesis using s by (simp add: release_def charged_on_def)
qed

section \<open>The loop\<close>

text \<open>The state at the top of a turn, for a body \<open>body\<close> that ends in \<open>y\<close>, read up to \<open>most\<close> bytes.\<close>

definition reading :: "string \<Rightarrow> read_end \<Rightarrow> int \<Rightarrow> int \<Rightarrow> intake \<Rightarrow> bool" where
  "reading body y limit most s \<longleftrightarrow>
     body = in_buf s @ sent (rd_pieces (in_reader s)) \<and> ending (rd_pieces (in_reader s)) = y
     \<and> rd_err (in_reader s) = None \<and> rd_left (in_reader s) = limit - int (length (in_buf s)) \<and> \<not> rd_too_large (in_reader s)
     \<and> int (length (in_buf s)) \<le> in_cap s \<and> in_cap s \<le> most \<and> most \<le> limit \<and> 0 \<le> in_cap s \<and> (0 < most \<longrightarrow> 0 < in_cap s)
     \<and> bc_n (in_charge s) = in_cap s
     \<and> in_cap s \<le> max (min initial_body_buffer most) (2 * int (length (in_buf s)))"

definition in_charged :: "budget \<Rightarrow> uuid \<Rightarrow> int \<Rightarrow> intake \<Rightarrow> bool" where
  "in_charged b0 owner share s \<longleftrightarrow> charged_on b0 owner share (in_charge s) (in_budget s)"

text \<open>How the reading ends.\<close>

definition read_result :: "string \<Rightarrow> read_end \<Rightarrow> int \<Rightarrow> int \<Rightarrow> int \<Rightarrow> body_err list \<Rightarrow> intake \<Rightarrow> bool" where
  "read_result body y len limit most errs s \<longleftrightarrow>
     prefix (in_buf s) body \<and> bc_n (in_charge s) \<le> most
     \<and> bc_n (in_charge s) \<le> max (min initial_body_buffer most) (2 * int (length (in_buf s)))
     \<and> (rd_too_large (in_reader s) \<longrightarrow> errs = [ErrTooLarge]) \<and> (errs = [] \<longrightarrow> bc_n (in_charge s) = in_cap s)
     \<and> (case errs of
          [] \<Rightarrow> if len < 0 then in_buf s = body \<and> int (length body) \<le> limit
               else int (length (in_buf s)) = len \<and> in_buf s = take (nat len) body
        | [ErrShare] \<Rightarrow> True
        | [ErrBusy] \<Rightarrow> True
        | [ErrTooLarge] \<Rightarrow> len < 0 \<and> limit < int (length body)
        | [ErrUnexpectedEOF] \<Rightarrow> 0 \<le> len \<and> int (length body) < len \<and> y = AtEnd
        | [ErrDeadline] \<Rightarrow> y = Expired
        | [ErrRead] \<Rightarrow> y = Broken
        | _ \<Rightarrow> False)"

lemma make_room_spec:
  assumes "reading body y limit most s" "in_charged b0 owner share s" "held_nonneg b0"
  shows "case make_room grants whole len most s of
      Full \<Rightarrow> 0 \<le> len \<and> int (length (in_buf s)) = most
    | AtLimit \<Rightarrow> len < 0 \<and> int (length (in_buf s)) = most
    | NoRoom x s' \<Rightarrow> (x = ErrShare \<or> x = ErrBusy) \<and> in_buf s' = in_buf s \<and> in_reader s' = in_reader s
        \<and> bc_n (in_charge s') = bc_n (in_charge s) \<and> in_charged b0 owner share s'
    | Room s' \<Rightarrow> reading body y limit most s' \<and> in_charged b0 owner share s' \<and> int (length (in_buf s')) < in_cap s'
        \<and> in_buf s' = in_buf s \<and> in_reader s' = in_reader s"
proof (cases "int (length (in_buf s)) = in_cap s \<and> int (length (in_buf s)) \<noteq> most")
  case False
  then show ?thesis using assms(1,2) by (auto simp: make_room_def reading_def)
next
  case True
  define grown where "grown = min (2 * in_cap s) most"
  obtain x c b where g: "grow grants whole (grown - bc_n (in_charge s)) (in_charge s) (in_budget s) = (x, c, b)"
    by (metis prod_cases3)
  have more: "0 < most" "in_cap s < grown" using True assms(1) by (auto simp: reading_def grown_def)
  then have "0 \<le> grown - bc_n (in_charge s)" using assms(1) by (simp add: reading_def)
  note c = grow_charged [OF g assms(2) [unfolded in_charged_def] assms(3) this]
  show ?thesis
  proof (cases x)
    case None
    have "make_room grants whole len most s = Room (s\<lparr>in_cap := grown, in_charge := c, in_budget := b\<rparr>)"
      using True g None by (simp add: make_room_def grown_def)
    moreover have "grown \<le> most" "grown \<le> 2 * int (length (in_buf s))" using True by (simp_all add: grown_def)
    ultimately show ?thesis using True assms(1) c None more by (auto simp: reading_def in_charged_def)
  next
    case (Some z)
    have "make_room grants whole len most s = NoRoom z (s\<lparr>in_charge := c, in_budget := b\<rparr>)"
      using True g Some by (simp add: make_room_def grown_def)
    then show ?thesis using c Some by (auto simp: in_charged_def)
  qed
qed

lemma fill_spec:
  assumes "reading body y limit most s" "int (length (in_buf s)) < in_cap s" "in_charged b0 owner share s"
    and "most = (if len < 0 then limit else len)"
  shows "case fill len s of
      Inl (errs, s') \<Rightarrow> read_result body y len limit most errs s' \<and> in_charged b0 owner share s'
    | Inr s' \<Rightarrow> reading body y limit most s' \<and> in_charged b0 owner share s'
        \<and> work (rd_pieces (in_reader s')) < work (rd_pieces (in_reader s))"
proof -
  let ?k = "nat (in_cap s - int (length (in_buf s)))"
  obtain d x rd where r: "read_limited ?k (in_reader s) = (d, x, rd)" by (metis prod_cases3)
  have pre: "rd_err (in_reader s) = None" "0 \<le> rd_left (in_reader s)" "0 < ?k"
    using assms(1,2) by (auto simp: reading_def)
  note l = read_limited_spec [OF r pre]
  have k: "int ?k \<le> rd_left (in_reader s)" using assms(1,2) by (auto simp: reading_def)
  then have not_over: "x \<noteq> Some OverLimit" using l by auto
  have cap: "in_cap s \<le> max (min initial_body_buffer most) (2 * int (length (in_buf s @ d)))"
    using assms(1) by (auto simp: reading_def)
  show ?thesis
  proof (cases x)
    case None
    then have "fill len s = Inr (s\<lparr>in_buf := in_buf s @ d, in_reader := rd\<rparr>)" using r by (simp add: fill_def)
    then show ?thesis using None assms(1,2,3) l cap by (auto simp: reading_def in_charged_def)
  next
    case (Some z)
    then obtain z' where z: "z = Ended z'" using not_over by (cases z) auto
    then have body: "body = in_buf s @ d" "z' = y" using l Some assms(1) by (auto simp: reading_def)
    have res: "read_result body y len limit most errs (s\<lparr>in_buf := in_buf s @ d, in_reader := rd\<rparr>)"
      if "errs = [] \<and> y = AtEnd \<and> \<not> (0 \<le> len \<and> int (length body) < len)
        \<or> errs = [ErrUnexpectedEOF] \<and> y = AtEnd \<and> 0 \<le> len \<and> int (length body) < len
        \<or> errs = [ErrDeadline] \<and> y = Expired \<or> errs = [ErrRead] \<and> y = Broken" for errs
    proof -
      have fit: "int (length body) \<le> in_cap s" using l assms(1,2) body by (auto simp: reading_def)
      moreover have "\<not> rd_too_large rd" "bc_n (in_charge s) = in_cap s" "in_cap s \<le> most" "most \<le> limit"
        using l Some z assms(1) by (auto simp: reading_def)
      ultimately show ?thesis
        using that cap assms(4) body by (auto simp: read_result_def split: if_splits)
    qed
    show ?thesis
    proof (cases y)
      case AtEnd
      then have "fill len s = Inl (if 0 \<le> len \<and> int (length body) < len then [ErrUnexpectedEOF] else [],
          s\<lparr>in_buf := in_buf s @ d, in_reader := rd\<rparr>)"
        using r Some z body by (auto simp: fill_def)
      then show ?thesis using res AtEnd assms(3) by (auto simp: in_charged_def)
    next
      case Broken
      then have "fill len s = Inl ([ErrRead], s\<lparr>in_buf := in_buf s @ d, in_reader := rd\<rparr>)"
        using r Some z body by (auto simp: fill_def)
      then show ?thesis using res Broken assms(3) by (auto simp: in_charged_def)
    next
      case Expired
      then have "fill len s = Inl ([ErrDeadline], s\<lparr>in_buf := in_buf s @ d, in_reader := rd\<rparr>)"
        using r Some z body by (auto simp: fill_def)
      then show ?thesis using res Expired assms(3) by (auto simp: in_charged_def)
    qed
  qed
qed

lemma probe_end_spec:
  assumes "rd_err rd = None" "rd_left rd = 0" "\<not> rd_too_large rd"
  shows "\<exists>errs rd'. probe_end rd = Some (errs, rd') \<and> (rd_too_large rd' \<longrightarrow> errs = [ErrTooLarge])
    \<and> (errs = [] \<and> sent (rd_pieces rd) = [] \<and> ending (rd_pieces rd) = AtEnd
       \<or> errs = [ErrTooLarge] \<and> sent (rd_pieces rd) \<noteq> []
       \<or> errs = [ErrDeadline] \<and> ending (rd_pieces rd) = Expired
       \<or> errs = [ErrRead] \<and> ending (rd_pieces rd) = Broken)"
  using assms
proof (induction "work (rd_pieces rd)" arbitrary: rd rule: less_induct)
  case less
  obtain d x rd' where r: "read_limited 1 rd = (d, x, rd')" by (metis prod_cases3)
  note l = read_limited_spec [OF r less.prems(1)]
  have d: "d = []"
    using l less.prems by (cases x) (auto split: read_err.splits)
  show ?case
  proof (cases x)
    case None
    then have "rd_err rd' = None" "rd_left rd' = 0" "\<not> rd_too_large rd'" "work (rd_pieces rd') < work (rd_pieces rd)"
      "sent (rd_pieces rd') = sent (rd_pieces rd)" "ending (rd_pieces rd') = ending (rd_pieces rd)"
      using l d less.prems by auto
    then show ?thesis using less.hyps [of rd'] None d r by (simp add: probe_end.simps [of rd])
  next
    case (Some z)
    then have p: "probe_end rd = Some (if z = Ended AtEnd then [] else [read_failed z], rd')"
      using r d by (simp add: probe_end.simps [of rd])
    show ?thesis
    proof (cases z)
      case OverLimit
      then show ?thesis using p l Some less.prems d by auto
    next
      case (Ended z')
      then show ?thesis using p l Some less.prems d by (cases z') auto
    qed
  qed
qed

lemma read_loop_spec:
  assumes "reading body y limit most s" "in_charged b0 owner share s" "held_nonneg b0"
    and "most = (if len < 0 then limit else len)"
  shows "\<exists>errs s'. read_loop grants whole len most s = Some (errs, s')
    \<and> read_result body y len limit most errs s' \<and> in_charged b0 owner share s'"
  using assms(1,2)
proof (induction "work (rd_pieces (in_reader s))" arbitrary: s rule: less_induct)
  case less
  note m = make_room_spec [OF less.prems assms(3), where grants = grants and whole = whole and len = len]
  show ?case
  proof (cases "make_room grants whole len most s")
    case Full
    then show ?thesis
      using m less.prems assms(4) by (auto simp: read_loop.simps [of _ _ _ _ s] read_result_def reading_def)
  next
    case AtLimit
    then have "len < 0" "int (length (in_buf s)) = limit" using m assms(4) by auto
    moreover obtain errs rd where pr: "probe_end (in_reader s) = Some (errs, rd)" "rd_too_large rd \<longrightarrow> errs = [ErrTooLarge]"
      "errs = [] \<and> sent (rd_pieces (in_reader s)) = [] \<and> ending (rd_pieces (in_reader s)) = AtEnd
       \<or> errs = [ErrTooLarge] \<and> sent (rd_pieces (in_reader s)) \<noteq> []
       \<or> errs = [ErrDeadline] \<and> ending (rd_pieces (in_reader s)) = Expired
       \<or> errs = [ErrRead] \<and> ending (rd_pieces (in_reader s)) = Broken"
      using probe_end_spec [of "in_reader s"] less.prems(1) calculation by (auto simp: reading_def)
    ultimately have "read_result body y len limit most errs (s\<lparr>in_reader := rd\<rparr>)"
      using less.prems(1) assms(4) by (auto simp: read_result_def reading_def)
    then show ?thesis
      using AtLimit pr(1) less.prems(2) by (auto simp: read_loop.simps [of _ _ _ _ s] in_charged_def)
  next
    case (NoRoom x s')
    then have "read_result body y len limit most [x] s'"
      using m less.prems(1) by (auto simp: read_result_def reading_def)
    then show ?thesis using NoRoom m by (auto simp: read_loop.simps [of _ _ _ _ s])
  next
    case (Room s')
    then have s': "reading body y limit most s'" "in_charged b0 owner share s'" "int (length (in_buf s')) < in_cap s'"
      "in_reader s' = in_reader s" using m by auto
    note f = fill_spec [OF s'(1,3,2) assms(4)]
    show ?thesis
    proof (cases "fill len s'")
      case (Inl ended)
      then show ?thesis using f Room by (cases ended) (auto simp: read_loop.simps [of _ _ _ _ s])
    next
      case (Inr s'')
      then show ?thesis using f Room s'(4) less.hyps [of s''] by (auto simp: read_loop.simps [of _ _ _ _ s])
    qed
  qed
qed

lemma body_read:
  assumes "0 \<le> limit" and "len \<le> limit" and "held_nonneg b" and "bc_n c = 0"
    and "most = (if len < 0 then limit else len)"
  shows "\<exists>errs s. buffer_body grants whole c b (open_reader ps limit) len limit = Some (errs, s)
    \<and> read_result (sent ps) (ending ps) len limit most errs s
    \<and> charged_on b (bc_owner c) (bc_share c) (in_charge s) (in_budget s)
    \<and> bu_used (release (in_charge s) (in_budget s)) = bu_used b
    \<and> (\<forall>i. held_by (bu_held (release (in_charge s) (in_budget s))) i = held_by (bu_held b) i)"
proof -
  define first where "first = min initial_body_buffer most"
  have most: "0 \<le> most" "most \<le> limit" using assms(1,2,5) by auto
  have first: "0 \<le> first" "first \<le> most" "0 < most \<longrightarrow> 0 < first" using most by (auto simp: first_def initial_body_buffer_def)
  have c0: "charged_on b (bc_owner c) (bc_share c) c b" using assms(4) by (simp add: charged_on_def)
  obtain x c' b' where g: "grow grants whole first c b = (x, c', b')" by (metis prod_cases3)
  note gr = grow_charged [OF g c0 assms(3) first(1)]
  have "\<exists>errs s. buffer_body grants whole c b (open_reader ps limit) len limit = Some (errs, s)
      \<and> read_result (sent ps) (ending ps) len limit most errs s \<and> in_charged b (bc_owner c) (bc_share c) s"
  proof (cases x)
    case (Some z)
    let ?s = "\<lparr>in_buf = [], in_cap = 0, in_reader = open_reader ps limit, in_charge = c', in_budget = b'\<rparr>"
    have "buffer_body grants whole c b (open_reader ps limit) len limit = Some ([z], ?s)"
      using g Some assms(5) by (simp add: buffer_body_def first_def Let_def)
    moreover have "read_result (sent ps) (ending ps) len limit most [z] ?s"
      using gr Some assms(4) most by (auto simp: read_result_def open_reader_def)
    moreover have "in_charged b (bc_owner c) (bc_share c) ?s" using gr by (simp add: in_charged_def)
    ultimately show ?thesis by blast
  next
    case None
    let ?s = "\<lparr>in_buf = [], in_cap = first, in_reader = open_reader ps limit, in_charge = c', in_budget = b'\<rparr>"
    have "buffer_body grants whole c b (open_reader ps limit) len limit = read_loop grants whole len most ?s"
      using g None assms(5) by (simp add: buffer_body_def first_def Let_def)
    moreover have "reading (sent ps) (ending ps) limit most ?s"
      using gr None assms(4) most first by (auto simp: reading_def open_reader_def first_def)
    moreover have "in_charged b (bc_owner c) (bc_share c) ?s" using gr by (simp add: in_charged_def)
    ultimately show ?thesis using read_loop_spec assms(3,5) by metis
  qed
  then show ?thesis using release_charged [OF _ assms(3)] unfolding in_charged_def by blast
qed

text \<open>C38: receiving a body. Whatever the sender delivers and however the budget answers, the reading
  comes to an end. It succeeds exactly with the whole body, within the limit, or with the declared
  number of its first bytes; a body of an undeclared length past the limit, one that ends before its
  declared length, a connection that breaks or runs out of time and a charge not granted are each
  told apart. The request is charged at most the initial buffer or twice what it received, never
  more than the declared length or the limit, nobody else's share changes, and giving the charge
  back leaves the budget as it was.\<close>

theorem body_received:
  assumes "0 \<le> limit" and "len \<le> limit" and "held_nonneg b" and "bc_n c = 0"
    and "most = (if len < 0 then limit else len)"
  shows "\<exists>errs s. buffer_body grants whole c b (open_reader ps limit) len limit = Some (errs, s)
    \<and> read_result (sent ps) (ending ps) len limit most errs s
    \<and> charged_on b (bc_owner c) (bc_share c) (in_charge s) (in_budget s)
    \<and> bu_used (release (in_charge s) (in_budget s)) = bu_used b
    \<and> (\<forall>i. held_by (bu_held (release (in_charge s) (in_budget s))) i = held_by (bu_held b) i)"
  by (rule body_read [OF assms])

definition idle_budget :: budget where
  "idle_budget = \<lparr>bu_used = 0, bu_held = Map.empty\<rparr>"

theorem body_received_witness:
  "\<exists>errs s. buffer_body (\<lambda>whole used amount. used + amount \<le> whole) 40 (new_charge 40 7 10) idle_budget
      (open_reader [Piece ''ab'' None, Piece ''cd'' (Some AtEnd)] 10) (- 1) 10 = Some (errs, s)
    \<and> read_result ''abcd'' AtEnd (- 1) 10 10 errs s \<and> bu_used (release (in_charge s) (in_budget s)) = 0"
proof -
  have nn: "held_nonneg idle_budget" by (simp add: held_nonneg_def idle_budget_def held_by_def)
  have fresh: "bc_n (new_charge 40 7 10) = 0" by (simp add: new_charge_def)
  have "sent [Piece ''ab'' None, Piece ''cd'' (Some AtEnd)] = ''abcd''" "ending [Piece ''ab'' None, Piece ''cd'' (Some AtEnd)] = AtEnd"
    "bu_used idle_budget = 0" "(0 :: int) \<le> 10" "(- 1 :: int) \<le> 10" "(10 :: int) = (if (- 1 :: int) < 0 then 10 else - 1)"
    by (simp_all add: idle_budget_def)
  then show ?thesis using body_received [OF _ _ nn fresh, of 10 "- 1" 10] by metis
qed

lemma example_intake:
  "map_option (\<lambda>(errs, s). (errs, in_buf s, bc_n (in_charge s)))
     (buffer_body (\<lambda>whole used amount. used + amount \<le> whole) 40 (new_charge 40 7 10) idle_budget
       (open_reader [Piece ''ab'' None, Piece ''cd'' (Some AtEnd)] 10) (- 1) 10) = Some ([], ''abcd'', 10)"
  by (simp add: buffer_body_def new_charge_def idle_budget_def open_reader_def initial_body_buffer_def grow_def take_share_def
      held_by_def read_loop.simps make_room_def fill_def read_limited_def)

end
