(* ===== verification/GateRoutes.thy ===== *)
theory GateRoutes
  imports Catalog BodyIntake
begin

text \<open>
  What the policy gate reads of a request before it decides: \<open>internal/infra/gateway/routes.go\<close>,
  the credentials of \<open>access_provider.go\<close>, the content coding of \<open>encoding.go\<close> and the model
  sources of \<open>model_extract.go\<close>. A request is what \<open>net/http\<close> and gin have parsed of it; headers
  and query values are maps from a name to its values in order. \<open>gjson\<close> and the multipart form gin
  parses are parameters.
\<close>

section \<open>Requests\<close>

type_synonym multimap = "(string \<times> string list) list"

record connection =
  cn_pieces :: "piece list"
  cn_deadline :: bool
  cn_late :: bool

text \<open>
  \<open>rq_content\<close> is the body once the gate holds it in memory; before, it is on the connection, which
  may offer no read deadline, or whose deadline may have passed by the time the body was read.
\<close>

record request =
  rq_method :: string
  rq_pattern :: string
  rq_headers :: multimap
  rq_query :: multimap
  rq_action :: string
  rq_has_body :: bool
  rq_length :: int
  rq_conn :: connection
  rq_content :: "string option"

definition header_values :: "request \<Rightarrow> string \<Rightarrow> string list" where
  "header_values req name = (case map_of (rq_headers req) name of None \<Rightarrow> [] | Some vs \<Rightarrow> vs)"

definition first_value :: "string list \<Rightarrow> string" where
  "first_value vs = (case vs of [] \<Rightarrow> [] | v # _ \<Rightarrow> v)"

definition header :: "request \<Rightarrow> string \<Rightarrow> string" where
  "header req name = first_value (header_values req name)"

definition query_first :: "request \<Rightarrow> string \<Rightarrow> string" where
  "query_first req name = (case map_of (rq_query req) name of None \<Rightarrow> [] | Some vs \<Rightarrow> first_value vs)"

section \<open>Routes\<close>

datatype route_kind = RouteDenied | RoutePublic | RouteListing | RouteModel
datatype model_source = BodyModel | ClaudeModel | InteractionsModel | GeminiActionModel | ImageGenerationModel | ImageEditModel
datatype decoding = NeverDecodes | AlwaysDecodes | DecodesJson
datatype listing = V1Models | V1Model | GeminiModels | GeminiModel

definition max_json_body :: int where "max_json_body = 64 * 1024 * 1024"
definition max_multipart_body :: int where "max_multipart_body = 256 * 1024 * 1024"

record route =
  rt_kind :: route_kind
  rt_model :: model_source
  rt_max_body :: int
  rt_max_multipart :: int
  rt_decodes :: decoding
  rt_listing :: listing

text \<open>The zero route; the fields of another kind of route than its own are never read.\<close>

definition denied :: route where
  "denied = \<lparr>rt_kind = RouteDenied, rt_model = BodyModel, rt_max_body = 0, rt_max_multipart = 0,
     rt_decodes = NeverDecodes, rt_listing = V1Models\<rparr>"

definition public_route :: route where "public_route = denied\<lparr>rt_kind := RoutePublic\<rparr>"

definition listing_route :: "listing \<Rightarrow> route" where
  "listing_route l = denied\<lparr>rt_kind := RouteListing, rt_listing := l\<rparr>"

definition model_route :: "model_source \<Rightarrow> decoding \<Rightarrow> route" where
  "model_route src dec = denied\<lparr>rt_kind := RouteModel, rt_model := src, rt_max_body := max_json_body, rt_decodes := dec\<rparr>"

definition json_content :: "request \<Rightarrow> bool" where
  "json_content req \<longleftrightarrow> prefix ''application/json'' (to_lower (trim_space (header req ''Content-Type'')))"

definition decodes_body :: "route \<Rightarrow> request \<Rightarrow> bool" where
  "decodes_body rt req = (case rt_decodes rt of NeverDecodes \<Rightarrow> False | AlwaysDecodes \<Rightarrow> True | DecodesJson \<Rightarrow> json_content req)"

definition body_limit_for :: "route \<Rightarrow> request \<Rightarrow> int" where
  "body_limit_for rt req = (if 0 < rt_max_multipart rt \<and> \<not> json_content req then rt_max_multipart rt else rt_max_body rt)"

definition routes :: "(string \<times> route) list" where
  "routes = [
    (''GET /healthz'', public_route), (''HEAD /healthz'', public_route),
    (''GET /v1/models'', listing_route V1Models), (''GET /v1/models/*model'', listing_route V1Model),
    (''GET /v1beta/models'', listing_route GeminiModels), (''GET /v1beta/models/*action'', listing_route GeminiModel),
    (''POST /v1/chat/completions'', model_route BodyModel AlwaysDecodes),
    (''POST /v1/completions'', model_route BodyModel AlwaysDecodes),
    (''POST /v1/responses'', model_route BodyModel AlwaysDecodes),
    (''POST /v1/responses/compact'', model_route BodyModel AlwaysDecodes),
    (''POST /backend-api/codex/responses'', model_route BodyModel AlwaysDecodes),
    (''POST /backend-api/codex/responses/compact'', model_route BodyModel AlwaysDecodes),
    (''POST /v1/messages'', model_route ClaudeModel NeverDecodes),
    (''POST /v1/messages/count_tokens'', model_route ClaudeModel NeverDecodes),
    (''POST /v1beta/models/*action'', model_route GeminiActionModel NeverDecodes),
    (''POST /v1beta/interactions'', model_route InteractionsModel NeverDecodes),
    (''POST /v1/images/generations'', model_route ImageGenerationModel AlwaysDecodes),
    (''POST /v1/images/edits'', (model_route ImageEditModel DecodesJson)\<lparr>rt_max_multipart := max_multipart_body\<rparr>),
    (''GET /v1/ws'', denied), (''GET /v1/responses'', denied), (''GET /backend-api/codex/responses'', denied),
    (''POST /v1/live'', denied), (''GET /v1/live/:call_id'', denied), (''GET /v1/realtime'', denied), (''POST /v1/realtime'', denied),
    (''POST /v1/realtime/calls'', denied), (''GET /v1/realtime/calls/:call_id'', denied), (''POST /v1/realtime/client_secrets'', denied),
    (''POST /v1/realtime/sessions'', denied), (''POST /v1/realtime/transcription_sessions'', denied),
    (''GET /v1/realtime/translations'', denied), (''POST /v1/realtime/translations'', denied),
    (''POST /v1/realtime/translations/client_secrets'', denied), (''POST /v1/realtime/calls/:call_id/hangup'', denied),
    (''POST /v1/realtime/calls/:call_id/accept'', denied), (''POST /v1/realtime/calls/:call_id/reject'', denied),
    (''POST /v1/realtime/calls/:call_id/refer'', denied),
    (''POST /v1/alpha/search'', denied), (''POST /backend-api/codex/alpha/search'', denied),
    (''POST /v1/videos'', denied), (''POST /v1/videos/generations'', denied), (''POST /v1/videos/edits'', denied),
    (''POST /v1/videos/extensions'', denied), (''GET /v1/videos/:request_id'', denied), (''POST /openai/v1/videos'', denied),
    (''GET /openai/v1/videos/:video_id'', denied), (''GET /openai/v1/videos/:video_id/content'', denied),
    (''POST /v1/audio/speech'', denied), (''POST /v1/tts'', denied),
    (''GET /'', denied), (''GET /management.html'', denied), (''GET /anthropic/callback'', denied), (''GET /codex/callback'', denied),
    (''GET /antigravity/callback'', denied), (''GET /callback'', denied), (''GET /devin/callback'', denied)]"

definition classify :: "string \<Rightarrow> string \<Rightarrow> route" where
  "classify verb pattern = (case map_of routes (verb @ '' '' @ pattern) of None \<Rightarrow> denied | Some rt \<Rightarrow> rt)"

section \<open>Credentials\<close>

definition bearer_token :: "string \<Rightarrow> string" where
  "bearer_token hdr =
     (case cut (CHR '' '') hdr of
        None \<Rightarrow> hdr
      | Some (scheme, tok) \<Rightarrow> if equal_fold_ascii scheme ''bearer'' then trim_space tok else hdr)"

type_synonym candidate = "string \<times> string"

fun keep_candidates :: "candidate list \<Rightarrow> candidate list \<Rightarrow> candidate list" where
  "keep_candidates out [] = out"
| "keep_candidates out (c # cs) =
     (if fst c = [] \<or> list_ex (\<lambda>o'. fst o' = fst c) out then keep_candidates out cs else keep_candidates (out @ [c]) cs)"

definition presented :: "request \<Rightarrow> candidate list" where
  "presented req =
     [(bearer_token (header req ''Authorization''), ''authorization''),
      (header req ''X-Goog-Api-Key'', ''x-goog-api-key''),
      (header req ''X-Api-Key'', ''x-api-key''),
      (query_first req ''key'', ''query-key''),
      (query_first req ''auth_token'', ''query-auth-token'')]"

definition credential_candidates :: "request \<Rightarrow> candidate list" where
  "credential_candidates req = keep_candidates [] (presented req)"

section \<open>Content coding\<close>

fun join_with :: "string \<Rightarrow> string list \<Rightarrow> string" where
  "join_with sep [] = []"
| "join_with sep [x] = x"
| "join_with sep (x # xs) = x @ sep @ join_with sep xs"

definition content_encoding :: "request \<Rightarrow> string \<times> bool" where
  "content_encoding req =
     (let vs = header_values req ''Content-Encoding'' in
      (join_with '','' vs,
       list_ex (\<lambda>v. list_ex (\<lambda>part. let p = trim_space part in p \<noteq> [] \<and> \<not> equal_fold_ascii p ''identity'') (split_at (CHR '','') v)) vs))"

definition set_body :: "string \<Rightarrow> request \<Rightarrow> request" where
  "set_body body req =
     req\<lparr>rq_headers := AList.update ''Content-Length'' [format_int (int (length body))] (AList.delete ''Content-Encoding'' (rq_headers req)),
         rq_length := int (length body), rq_content := Some body, rq_has_body := True\<rparr>"

text \<open>Public and listing routes get no body: \<open>setBody\<close>, then \<open>http.NoBody\<close>.\<close>

definition no_body :: "request \<Rightarrow> request" where
  "no_body req = (set_body [] req)\<lparr>rq_has_body := False\<rparr>"

section \<open>The model a request names\<close>

record parsers =
  gj_valid :: "string \<Rightarrow> bool"
  gj_keys :: "string \<Rightarrow> string list"
  gj_string :: "string \<Rightarrow> string \<Rightarrow> string"
  gj_form :: "request \<Rightarrow> string \<Rightarrow> multimap option"

fun more_than_one :: "nat \<Rightarrow> string list \<Rightarrow> bool" where
  "more_than_one n [] = (1 < n)"
| "more_than_one n (k # ks) =
     (let n = (if equal_fold_ascii k ''model'' then n + 1 else n) in if n < 2 then more_than_one n ks else 1 < n)"

definition repeats_model_key :: "parsers \<Rightarrow> string \<Rightarrow> bool" where
  "repeats_model_key ps raw = more_than_one 0 (gj_keys ps raw)"

definition json_model :: "parsers \<Rightarrow> string \<Rightarrow> string option" where
  "json_model ps raw =
     (if \<not> gj_valid ps raw \<or> repeats_model_key ps raw then None
      else let model = gj_string ps raw ''model'' in if trim_space model \<noteq> [] then Some model else None)"

definition dd_prefix :: string where "dd_prefix = ''claude-fable-5-dd-''"

definition decode_claude_model_id :: "string \<Rightarrow> string" where
  "decode_claude_model_id i =
     (let (base, tail) =
        (case last_index (CHR ''('') i of
           None \<Rightarrow> (i, None)
         | Some opens \<Rightarrow> if suffix '')'' i then (take opens i, Some (drop (opens + 1) (butlast i))) else (i, None))
      in case cut_prefix dd_prefix base of
           None \<Rightarrow> i
         | Some encoded \<Rightarrow>
             if encoded = [] then i
             else let plain = of_runes (rev (runes encoded)) in
               case tail of Some sfx \<Rightarrow> plain @ ''('' @ sfx @ '')'' | None \<Rightarrow> plain)"

definition claude_model :: "parsers \<Rightarrow> string \<Rightarrow> string option" where
  "claude_model ps raw = map_option decode_claude_model_id (json_model ps raw)"

definition interactions_model :: "parsers \<Rightarrow> string \<Rightarrow> string option" where
  "interactions_model ps raw =
     (if \<not> gj_valid ps raw \<or> repeats_model_key ps raw then None
      else if trim_space (gj_string ps raw ''agent'') \<noteq> [] then None
      else
        let model = trim_space (gj_string ps raw ''model'');
            model = (case cut_prefix ''models/'' model of Some rest \<Rightarrow> if rest \<noteq> [] then rest else model | None \<Rightarrow> model)
        in if model \<noteq> [] then Some model else None)"

definition gemini_action_model :: "parsers \<Rightarrow> request \<Rightarrow> string \<Rightarrow> string option" where
  "gemini_action_model ps req raw =
     (case split_at (CHR '':'') (trim_prefix ''/'' (rq_action req)) of
        [model, verb] \<Rightarrow>
          if model = [] then None
          else if gj_valid ps raw \<and> repeats_model_key ps raw then None
          else Some model
      | _ \<Rightarrow> None)"

definition image_route_model :: "string \<Rightarrow> string" where
  "image_route_model given =
     (let model = trim_space given in
      if model = [] then ''gpt-image-2''
      else
        let (prefx, base) =
          (case last_index (CHR ''/'') model of
             None \<Rightarrow> ([], model)
           | Some i \<Rightarrow> if i < length model - 1 then (trim_space (take i model), trim_space (drop (i + 1) model)) else ([], model));
          p = to_lower prefx; m = to_lower base
        in if p \<noteq> [] \<and> p \<noteq> xai_key \<and> p \<noteq> ''x-ai'' \<and> p \<noteq> ''grok'' then model
           else if m = ''grok-imagine-image-quality'' \<or> m = ''grok-imagine-image-2.0'' \<or> m = ''grok-imagine-image'' then m
           else model)"

definition image_generation_model :: "parsers \<Rightarrow> string \<Rightarrow> string option" where
  "image_generation_model ps raw =
     (if \<not> gj_valid ps raw \<or> repeats_model_key ps raw then None
      else Some (image_route_model (gj_string ps raw ''model'')))"

definition image_edit_model :: "parsers \<Rightarrow> request \<Rightarrow> string \<Rightarrow> string option" where
  "image_edit_model ps req raw =
     (let content_type = to_lower (trim_space (header req ''Content-Type'')) in
      if prefix ''application/json'' content_type then image_generation_model ps raw
      else if content_type = [] \<or> prefix ''multipart/form-data'' content_type then
        (case gj_form ps req raw of
           None \<Rightarrow> None
         | Some form \<Rightarrow>
             if 1 < sum_list (map (\<lambda>(key, vs). if equal_fold_ascii key ''model'' then length vs else 0) form) then None
             else Some (image_route_model (case map_of form ''model'' of None \<Rightarrow> [] | Some vs \<Rightarrow> first_value vs)))
      else None)"

definition model_of :: "parsers \<Rightarrow> model_source \<Rightarrow> request \<Rightarrow> string \<Rightarrow> string option" where
  "model_of ps src req raw =
     (case src of
        BodyModel \<Rightarrow> json_model ps raw
      | ClaudeModel \<Rightarrow> claude_model ps raw
      | InteractionsModel \<Rightarrow> interactions_model ps raw
      | GeminiActionModel \<Rightarrow> gemini_action_model ps req raw
      | ImageGenerationModel \<Rightarrow> image_generation_model ps raw
      | ImageEditModel \<Rightarrow> image_edit_model ps req raw)"

end
