(* ===== verification/GateBody.thy ===== *)
theory GateBody
  imports GateRoutes
begin

text \<open>
  The body of a model route's request on its way through the gate: received under the budget
  (\<open>receiveBody\<close>, \<open>abortBodyError\<close> of \<open>internal/infra/gateway/policy_gate.go\<close>), decoded
  (\<open>encoding.go\<close>) and put back on the request. The zstd decoder is a parameter: whether it starts
  under a memory bound, the bytes it delivers and how it ends. \<open>json.Valid\<close> is that of
  \<open>encoding/json\<close>.
\<close>

section \<open>Valid JSON\<close>

definition json_space :: "char \<Rightarrow> bool" where
  "json_space c \<longleftrightarrow> byte c = 32 \<or> byte c = 9 \<or> byte c = 10 \<or> byte c = 13"

definition skip_space :: "string \<Rightarrow> string" where
  "skip_space s = dropWhile json_space s"

definition digit :: "char \<Rightarrow> bool" where
  "digit c \<longleftrightarrow> 48 \<le> byte c \<and> byte c \<le> 57"

definition hex_digit :: "char \<Rightarrow> bool" where
  "hex_digit c \<longleftrightarrow> digit c \<or> (65 \<le> byte c \<and> byte c \<le> 70) \<or> (97 \<le> byte c \<and> byte c \<le> 102)"

text \<open>The rest after the closing quote.\<close>

fun scan_string :: "string \<Rightarrow> string option" where
  "scan_string [] = None"
| "scan_string (c # s) =
     (if byte c = 34 then Some s
      else if byte c = 92 then
        (case s of
           d # t \<Rightarrow>
             if byte d \<in> {34, 92, 47, 98, 102, 110, 114, 116} then scan_string t
             else if byte d = 117 then
               (case t of h1 # h2 # h3 # h4 # u \<Rightarrow> if list_all hex_digit [h1, h2, h3, h4] then scan_string u else None | _ \<Rightarrow> None)
             else None
         | [] \<Rightarrow> None)
      else if byte c < 32 then None
      else scan_string s)"

definition scan_digits :: "string \<Rightarrow> string option" where
  "scan_digits s = (case s of c # t \<Rightarrow> if digit c then Some (dropWhile digit t) else None | [] \<Rightarrow> None)"

definition scan_whole :: "string \<Rightarrow> string option" where
  "scan_whole s = (case s of c # t \<Rightarrow> if byte c = 48 then Some t else scan_digits s | [] \<Rightarrow> None)"

definition scan_fraction :: "string \<Rightarrow> string option" where
  "scan_fraction s = (case s of c # t \<Rightarrow> if byte c = 46 then scan_digits t else Some s | [] \<Rightarrow> Some [])"

definition scan_exponent :: "string \<Rightarrow> string option" where
  "scan_exponent s =
     (case s of
        c # t \<Rightarrow>
          if byte c = 101 \<or> byte c = 69
          then scan_digits (case t of d # u \<Rightarrow> if byte d = 43 \<or> byte d = 45 then u else t | [] \<Rightarrow> [])
          else Some s
      | [] \<Rightarrow> Some [])"

definition scan_number :: "string \<Rightarrow> string option" where
  "scan_number s =
     Option.bind (Option.bind (scan_whole (case s of c # t \<Rightarrow> if byte c = 45 then t else s | [] \<Rightarrow> [])) scan_fraction) scan_exponent"

definition scan_literal :: "string \<Rightarrow> string \<Rightarrow> string option" where
  "scan_literal word s = cut_prefix word s"

text \<open>
  The first number is fuel: a value and a list of values take one per character at most twice. The
  second is how much deeper arrays and objects may nest.
\<close>

fun scan_value :: "nat \<Rightarrow> nat \<Rightarrow> string \<Rightarrow> string option"
and scan_elements :: "nat \<Rightarrow> nat \<Rightarrow> string \<Rightarrow> string option"
and scan_members :: "nat \<Rightarrow> nat \<Rightarrow> string \<Rightarrow> string option" where
  "scan_value 0 depth s = None"
| "scan_value (Suc n) depth s =
     (case skip_space s of
        [] \<Rightarrow> None
      | c # t \<Rightarrow>
          if byte c = 123 then
            if depth = 0 then None
            else (case skip_space t of d # u \<Rightarrow> if byte d = 125 then Some u else scan_members n (depth - 1) t | [] \<Rightarrow> None)
          else if byte c = 91 then
            if depth = 0 then None
            else (case skip_space t of d # u \<Rightarrow> if byte d = 93 then Some u else scan_elements n (depth - 1) t | [] \<Rightarrow> None)
          else if byte c = 34 then scan_string t
          else if byte c = 116 then scan_literal ''rue'' t
          else if byte c = 102 then scan_literal ''alse'' t
          else if byte c = 110 then scan_literal ''ull'' t
          else scan_number (c # t))"
| "scan_elements 0 depth s = None"
| "scan_elements (Suc n) depth s =
     (case scan_value n depth s of
        None \<Rightarrow> None
      | Some r \<Rightarrow>
          (case skip_space r of
             c # t \<Rightarrow> if byte c = 44 then scan_elements n depth t else if byte c = 93 then Some t else None
           | [] \<Rightarrow> None))"
| "scan_members 0 depth s = None"
| "scan_members (Suc n) depth s =
     (case skip_space s of
        [] \<Rightarrow> None
      | q # t \<Rightarrow>
          if byte q \<noteq> 34 then None
          else (case scan_string t of
            None \<Rightarrow> None
          | Some r \<Rightarrow>
              (case skip_space r of
                 [] \<Rightarrow> None
               | k # v \<Rightarrow>
                   if byte k \<noteq> 58 then None
                   else (case scan_value n depth v of
                     None \<Rightarrow> None
                   | Some r' \<Rightarrow>
                       (case skip_space r' of
                          c # u \<Rightarrow> if byte c = 44 then scan_members n depth u else if byte c = 125 then Some u else None
                        | [] \<Rightarrow> None)))))"

definition max_nesting :: nat where "max_nesting = 10000"

definition json_valid :: "string \<Rightarrow> bool" where
  "json_valid s = (case scan_value (2 * length s + 2) max_nesting s of None \<Rightarrow> False | Some r \<Rightarrow> skip_space r = [])"

lemma json_valid_examples:
  "json_valid '' [1, -2.5e+3, true] ''" "json_valid ''null''" "\<not> json_valid ''[1,]''" "\<not> json_valid ''01''" "\<not> json_valid ''''"
  by code_simp+

section \<open>Decoding\<close>

datatype zstd_end = ZEnd | ZWindowExceeded | ZSizeExceeded | ZCorrupt

record zstd =
  zs_starts :: "string \<Rightarrow> int \<Rightarrow> bool"
  zs_output :: "string \<Rightarrow> int \<Rightarrow> string \<times> zstd_end"
  zs_cap :: "nat \<Rightarrow> int"

definition decode_zstd :: "zstd \<Rightarrow> string \<Rightarrow> int \<Rightarrow> body_err + string" where
  "decode_zstd z input limit =
     (if limit < 0 then Inl ErrDecodedTooLarge
      else if \<not> zs_starts z input limit then Inl ErrCoding
      else
        let (bytes, end') = zs_output z input limit;
            out = take (nat (limit + 1)) bytes;
            end' = (if limit < int (length bytes) then ZEnd else end')
        in case end' of
             ZWindowExceeded \<Rightarrow> Inl ErrDecodedTooLarge
           | ZSizeExceeded \<Rightarrow> Inl ErrDecodedTooLarge
           | ZCorrupt \<Rightarrow> Inl ErrCoding
           | ZEnd \<Rightarrow> if limit < int (length out) then Inl ErrDecodedTooLarge else Inr out)"

text \<open>A body with the capacity of the buffer that holds it.\<close>

type_synonym buffer = "string \<times> int"

fun undo_codings :: "zstd \<Rightarrow> int \<Rightarrow> string list \<Rightarrow> buffer \<Rightarrow> body_err + buffer" where
  "undo_codings z limit [] body = Inr body"
| "undo_codings z limit (part # parts) body =
     (let coding = to_lower (trim_space part) in
      if coding = [] \<or> coding = ''identity'' then undo_codings z limit parts body
      else if coding = ''zstd'' then
        (case decode_zstd z (fst body) limit of
           Inl x \<Rightarrow> Inl x
         | Inr decoded \<Rightarrow> undo_codings z limit parts (decoded, zs_cap z (length decoded)))
      else Inl ErrCoding)"

definition decode_body :: "zstd \<Rightarrow> buffer \<Rightarrow> string \<Rightarrow> int \<Rightarrow> body_err + buffer" where
  "decode_body z raw encoding limit = undo_codings z limit (rev (split_at (CHR '','') encoding)) raw"

definition decode_request_body ::
  "(int \<Rightarrow> int \<Rightarrow> int \<Rightarrow> bool) \<Rightarrow> int \<Rightarrow> zstd \<Rightarrow> buffer \<Rightarrow> string \<Rightarrow> charge \<Rightarrow> budget \<Rightarrow> (body_err + buffer) \<times> charge \<times> budget" where
  "decode_request_body grants whole z raw encoding c b =
     (case grow grants whole max_json_body c b of
        (Some x, c, b) \<Rightarrow> (Inl x, c, b)
      | (None, c, b) \<Rightarrow>
          (case decode_body z raw encoding max_json_body of
             Inl x \<Rightarrow>
               if x = ErrDecodedTooLarge then (Inl x, c, b)
               else if json_valid (fst raw) then (let (c, b) = shrink_to (snd raw) c b in (Inr raw, c, b))
               else (Inl ErrUnreadable, c, b)
           | Inr decoded \<Rightarrow> (let (c, b) = shrink_to (snd decoded) c b in (Inr decoded, c, b))))"

section \<open>Answers\<close>

text \<open>Which credential errors there are, and what is told to the observer (\<open>gate\<close>).\<close>

datatype auth_error = NoCredentials | InvalidCredential | InternalAuth err
datatype deny_reason = DenyModelNotAllowed | DenyUnknownModel | DenyRouteNotAllowed | DenySpendLimit | DenyUnpricedModel
datatype observation = AuthFailed string | Denied string string deny_reason

text \<open>
  The text of a refusal; that of a spend limit names the amount, when costs are shown, the window's
  label and the instant it resets at.
\<close>

datatype message = Plain string | SpendReached "f64 option" string instant | Upstream auth_error | NoText

record answer =
  an_status :: int
  an_kind :: string
  an_message :: message
  an_headers :: "(string \<times> string) list"
  an_observed :: "observation option"

definition abort_with :: "int \<Rightarrow> string \<Rightarrow> string \<Rightarrow> answer" where
  "abort_with status kind msg = \<lparr>an_status = status, an_kind = kind, an_message = Plain msg, an_headers = [], an_observed = None\<rparr>"

text \<open>\<open>abortBodyError\<close>: the errors are those joined in one; \<open>None\<close> answers nothing.\<close>

definition body_answer :: "bool \<Rightarrow> body_err list \<Rightarrow> answer option" where
  "body_answer too_large errs =
     (if ErrShare \<in> set errs then
        Some ((abort_with 429 ''rate_limit_error'' ''too many large requests in flight for this account; retry'')
          \<lparr>an_headers := [(''Retry-After'', ''1'')]\<rparr>)
      else if ErrBusy \<in> set errs then Some (abort_with 503 ''server_error'' ''too many request bodies in flight; retry'')
      else if too_large \<or> ErrOverRead \<in> set errs \<or> ErrDecodedTooLarge \<in> set errs
      then Some (abort_with 413 ''invalid_request_error'' ''request body too large'')
      else if ErrDeadline \<in> set errs then
        Some ((abort_with 408 ''invalid_request_error'' ''request body not received in time'')
          \<lparr>an_headers := [(''Connection'', ''close'')]\<rparr>)
      else if ErrUnreadable \<in> set errs then Some (abort_with 400 ''invalid_request_error'' ''request body cannot be decoded'')
      else if errs \<noteq> [] then Some (abort_with 400 ''invalid_request_error'' ''request body cannot be read'')
      else None)"

definition body_charge_ceiling :: "int \<Rightarrow> bool \<Rightarrow> int" where
  "body_charge_ceiling limit encoded = (if encoded then limit + max_json_body else limit)"

text \<open>\<open>receiveBody\<close>, once the body is read: decoded when it is encoded, and answered or put on the request.\<close>

definition decode_received ::
  "(int \<Rightarrow> int \<Rightarrow> int \<Rightarrow> bool) \<Rightarrow> int \<Rightarrow> zstd \<Rightarrow> string \<Rightarrow> bool \<Rightarrow> body_err list \<Rightarrow> intake
    \<Rightarrow> (body_err list + buffer) \<times> charge \<times> budget" where
  "decode_received grants whole z encoding encoded errs s =
     (if errs \<noteq> [] then (Inl errs, in_charge s, in_budget s)
      else if encoded then
        (case decode_request_body grants whole z (in_buf s, in_cap s) encoding (in_charge s) (in_budget s) of
           (Inl x, c, b) \<Rightarrow> (Inl [x], c, b)
         | (Inr decoded, c, b) \<Rightarrow> (Inr decoded, c, b))
      else (Inr (in_buf s, in_cap s), in_charge s, in_budget s))"

definition with_body :: "bool \<Rightarrow> string \<Rightarrow> request \<Rightarrow> request" where
  "with_body encoded body req = (if encoded then set_body body req else req\<lparr>rq_content := Some body\<rparr>)"

text \<open>An error is always answered, so the result without an answer is a body.\<close>

definition answer_received :: "bool \<Rightarrow> bool \<Rightarrow> request \<Rightarrow> body_err list + buffer \<Rightarrow> answer + request \<times> string" where
  "answer_received too_large encoded req res =
     (case body_answer too_large (case res of Inl errs \<Rightarrow> errs | Inr _ \<Rightarrow> []) of
        Some ans \<Rightarrow> Inl ans
      | None \<Rightarrow> (let body = fst (projr res) in Inr (with_body encoded body req, body)))"

definition receive_body ::
  "(int \<Rightarrow> int \<Rightarrow> int \<Rightarrow> bool) \<Rightarrow> int \<Rightarrow> zstd \<Rightarrow> request \<Rightarrow> int \<Rightarrow> string \<Rightarrow> bool \<Rightarrow> charge \<Rightarrow> budget
    \<Rightarrow> ((answer + request \<times> string) \<times> charge \<times> budget) option" where
  "receive_body grants whole z req limit encoding encoded c b =
     (let len = body_length (rq_has_body req) (rq_length req) in
      if limit < len then Some (Inl (abort_with 413 ''invalid_request_error'' ''request body too large''), c, b)
      else if len \<noteq> 0 \<and> \<not> cn_deadline (rq_conn req)
      then Some (Inl (abort_with 500 ''server_error'' ''request body cannot be received''), c, b)
      else
        let rd = open_reader (if rq_has_body req then cn_pieces (rq_conn req) else []) limit in
        case buffer_body grants whole c b rd len limit of
          None \<Rightarrow> None
        | Some (errs, s) \<Rightarrow>
            let errs = (if len \<noteq> 0 \<and> cn_late (rq_conn req) then errs @ [ErrDeadline] else errs) in
            case decode_received grants whole z encoding encoded errs s of (res, c, b) \<Rightarrow>
              Some (answer_received (rd_too_large (in_reader s)) encoded req res, c, b))"

section \<open>What receiving a body gives\<close>

lemma body_answer_errs: "errs \<noteq> [] \<Longrightarrow> body_answer late errs \<noteq> None"
  by (auto simp: body_answer_def)

lemma body_answer_status:
  "body_answer large errs = Some ans \<Longrightarrow> an_status ans \<in> {400, 408, 413, 429, 503} \<and> an_observed ans = None"
  by (auto simp: body_answer_def abort_with_def split: if_splits)

lemma header_values_set_body [simp]: "header_values (set_body body req) ''Content-Encoding'' = []"
  by (simp add: header_values_def set_body_def update_conv' delete_conv')

lemma set_body_identity: "content_encoding (set_body body req) = ([], False)"
  by (simp add: content_encoding_def)

lemma no_body_identity: "content_encoding (no_body req) = ([], False)"
  by (simp add: content_encoding_def no_body_def header_values_def) (simp add: header_values_def [symmetric])

lemma max_json_body_pos: "0 < max_json_body"
  by (simp add: max_json_body_def)

text \<open>The bytes a request sends: the whole body, or as many of its first as its length declares.\<close>

definition sent_body :: "request \<Rightarrow> string" where
  "sent_body req =
     (let body = sent (if rq_has_body req then cn_pieces (rq_conn req) else []);
          len = body_length (rq_has_body req) (rq_length req)
      in if len < 0 then body else take (nat len) body)"

text \<open>What the handler is given for them: the bytes as sent, or decoded as the header says, or as sent
  when they do not decode but are JSON.\<close>

definition delivered :: "zstd \<Rightarrow> string \<Rightarrow> bool \<Rightarrow> string \<Rightarrow> string \<Rightarrow> bool" where
  "delivered z encoding encoded raw body \<longleftrightarrow>
     (if \<not> encoded then body = raw
      else (\<exists>cap x. decode_body z (raw, cap) encoding max_json_body = Inr (body, x))
        \<or> (\<exists>cap x. decode_body z (raw, cap) encoding max_json_body = Inl x \<and> x \<noteq> ErrDecodedTooLarge \<and> json_valid raw \<and> body = raw))"

lemma decode_request_body_spec:
  assumes "decode_request_body grants whole z raw encoding c b = (res, c', b')" "charged_on b0 owner share c b" "held_nonneg b0"
    and "0 \<le> snd raw" "\<And>n. 0 \<le> zs_cap z n"
  shows "charged_on b0 owner share c' b' \<and> (case res of Inl x \<Rightarrow> True | Inr body \<Rightarrow> delivered z encoding True (fst raw) (fst body))"
proof -
  obtain x c1 b1 where g: "grow grants whole max_json_body c b = (x, c1, b1)" by (metis prod_cases3)
  note c1 = grow_charged [OF g assms(2,3)] 
  have cap: "0 \<le> snd body" if "undo_codings z limit parts r = Inr body" "0 \<le> snd r" for limit parts r body
    using that assms(5)
    by (induction z limit parts r rule: undo_codings.induct) (auto simp: Let_def split: if_splits sum.splits)
  have shrunk: "charged_on b0 owner share c2 b2" if "shrink_to keep c1 b1 = (c2, b2)" "0 \<le> keep" "x = None" for keep c2 b2
    using shrink_charged [OF that(1) _ assms(3) that(2)] c1 max_json_body_pos by simp
  show ?thesis
  proof (cases x)
    case (Some y)
    then show ?thesis using assms(1) g c1 max_json_body_pos by (auto simp: decode_request_body_def)
  next
    case None
    show ?thesis
    proof (cases "decode_body z raw encoding max_json_body")
      case (Inl y)
      obtain c2 b2 where s: "shrink_to (snd raw) c1 b1 = (c2, b2)" by fastforce
      show ?thesis
      proof (cases "y = ErrDecodedTooLarge \<or> \<not> json_valid (fst raw)")
        case True
        then have "(res, c', b') = (Inl (if y = ErrDecodedTooLarge then y else ErrUnreadable), c1, b1)"
          unfolding assms(1) [symmetric] decode_request_body_def g None Inl using True by auto
        then show ?thesis using c1 max_json_body_pos None by simp
      next
        case False
        then have "res = Inr raw" "c' = c2" "b' = b2"
          using assms(1) g None Inl s by (auto simp: decode_request_body_def)
        then show ?thesis using shrunk [OF s assms(4) None] Inl False by (cases raw) (auto simp: delivered_def)
      qed
    next
      case (Inr decoded)
      obtain c2 b2 where s: "shrink_to (snd decoded) c1 b1 = (c2, b2)" by fastforce
      have "0 \<le> snd decoded" using cap Inr assms(4) unfolding decode_body_def by blast
      then have sh: "charged_on b0 owner share c2 b2" using shrunk [OF s _ None] by blast
      have "(res, c', b') = (Inr decoded, c2, b2)"
        unfolding assms(1) [symmetric] decode_request_body_def g None using Inr s by simp
      moreover have "delivered z encoding True (fst raw) (fst decoded)"
        using Inr by (cases raw; cases decoded) (auto simp: delivered_def)
      ultimately show ?thesis using sh by simp
    qed
  qed
qed

lemma decode_received_spec:
  assumes "decode_received grants whole z encoding encoded errs s = (res, c', b')"
    and "charged_on b0 owner share (in_charge s) (in_budget s)" "held_nonneg b0" "errs = [] \<Longrightarrow> 0 \<le> in_cap s" "\<And>n. 0 \<le> zs_cap z n"
  shows "charged_on b0 owner share c' b' \<and> (case res of
      Inl errs \<Rightarrow> errs \<noteq> []
    | Inr body \<Rightarrow> errs = [] \<and> delivered z encoding encoded (in_buf s) (fst body))"
proof (cases "errs = [] \<and> encoded")
  case True
  obtain r c b where d: "decode_request_body grants whole z (in_buf s, in_cap s) encoding (in_charge s) (in_budget s) = (r, c, b)"
    by (metis prod_cases3)
  have "0 \<le> snd (in_buf s, in_cap s)" using assms(4) True by simp
  note spec = decode_request_body_spec [OF d assms(2,3) this assms(5)]
  show ?thesis
    using assms(1) d True spec by (cases r) (auto simp: decode_received_def)
next
  case False
  then show ?thesis using assms(1,2) by (auto simp: decode_received_def delivered_def split: if_splits)
qed

lemma answer_received_spec:
  "(case res of Inl errs \<Rightarrow> errs \<noteq> [] | Inr _ \<Rightarrow> True) \<Longrightarrow>
    case answer_received large encoded req res of
      Inl ans \<Rightarrow> an_status ans \<in> {400, 408, 413, 429, 503} \<and> an_observed ans = None
    | Inr (req', body) \<Rightarrow> (\<exists>cap. res = Inr (body, cap)) \<and> req' = with_body encoded body req"
  using body_answer_errs body_answer_status
  by (cases res) (auto simp: answer_received_def Let_def split: option.splits)

lemma receive_body_spec:
  assumes "held_nonneg b" "bc_n c = 0" "0 \<le> limit" "\<And>n. 0 \<le> zs_cap z n"
  shows "\<exists>res c' b'. receive_body grants whole z req limit encoding encoded c b = Some (res, c', b')
    \<and> charged_on b (bc_owner c) (bc_share c) c' b'
    \<and> (case res of
         Inl ans \<Rightarrow> an_status ans \<in> {400, 408, 413, 429, 500, 503} \<and> an_observed ans = None
       | Inr (req', body) \<Rightarrow> delivered z encoding encoded (sent_body req) body
           \<and> int (length (sent_body req)) \<le> limit \<and> req' = with_body encoded body req)"
proof -
  let ?len = "body_length (rq_has_body req) (rq_length req)"
  let ?ps = "if rq_has_body req then cn_pieces (rq_conn req) else []"
  have c0: "charged_on b (bc_owner c) (bc_share c) c b" using assms(2) by (simp add: charged_on_def)
  consider "limit < ?len" | "\<not> limit < ?len" "?len \<noteq> 0 \<and> \<not> cn_deadline (rq_conn req)"
    | "\<not> limit < ?len" "\<not> (?len \<noteq> 0 \<and> \<not> cn_deadline (rq_conn req))" by blast
  then show ?thesis
  proof cases
    case 1
    then show ?thesis using c0 by (simp add: receive_body_def Let_def abort_with_def)
  next
    case 2
    then show ?thesis using c0 by (simp add: receive_body_def Let_def abort_with_def)
  next
    case 3
    obtain errs s where buf: "buffer_body grants whole c b (open_reader ?ps limit) ?len limit = Some (errs, s)"
      and res: "read_result (sent ?ps) (ending ?ps) ?len limit (if ?len < 0 then limit else ?len) errs s"
      and ch: "charged_on b (bc_owner c) (bc_share c) (in_charge s) (in_budget s)"
      using body_read [OF assms(3) _ assms(1,2) refl, of ?len grants whole ?ps] 3(1) by auto
    define errs' where "errs' = (if ?len \<noteq> 0 \<and> cn_late (rq_conn req) then errs @ [ErrDeadline] else errs)"
    obtain r c' b' where d: "decode_received grants whole z encoding encoded errs' s = (r, c', b')" by (metis prod_cases3)
    have fit: "in_buf s = sent_body req \<and> int (length (sent_body req)) \<le> limit \<and> 0 \<le> in_cap s" if "errs' = []"
    proof -
      have e: "errs = []" using that by (auto simp: errs'_def split: if_splits)
      then have "0 \<le> in_cap s" using res ch by (auto simp: read_result_def charged_on_def)
      then show ?thesis using res e 3(1) by (auto simp: read_result_def sent_body_def Let_def split: if_splits)
    qed
    note spec = decode_received_spec [OF d ch assms(1) _ assms(4)]
    have eq: "receive_body grants whole z req limit encoding encoded c b =
        Some (answer_received (rd_too_large (in_reader s)) encoded req r, c', b')"
      unfolding receive_body_def Let_def if_not_P [OF 3(1)] if_not_P [OF 3(2)] buf by (simp add: errs'_def [symmetric] d)
    moreover have "charged_on b (bc_owner c) (bc_share c) c' b'" using spec fit by blast
    moreover have "case answer_received (rd_too_large (in_reader s)) encoded req r of
         Inl ans \<Rightarrow> an_status ans \<in> {400, 408, 413, 429, 500, 503} \<and> an_observed ans = None
       | Inr (req', body) \<Rightarrow> delivered z encoding encoded (sent_body req) body
           \<and> int (length (sent_body req)) \<le> limit \<and> req' = with_body encoded body req"
      using answer_received_spec [where res = r and large = "rd_too_large (in_reader s)" and encoded = encoded and req = req] spec fit
      by (auto split: sum.splits)
    ultimately show ?thesis by blast
  qed
qed

end
