(* ===== verification/SpendLimits.thy ===== *)
theory SpendLimits
  imports SignIn LimitRepos
begin

text \<open>
  \<open>internal/app/spendlimits\<close>: the service that keeps the global defaults in memory, answers the
  policy gate and serves the views of the limits. The mutex of \<open>SetDefaults\<close> has nothing to do
  where a call is one sequence of steps.
\<close>

section \<open>The service\<close>

record limits_view =
  lv_custom :: "limit_set option"
  lv_windows :: "window_state list"

text \<open>The detail of a rule in the audit log. \<open>Validate\<close> has let only finite amounts through.\<close>

definition audit_rules :: "limit_set \<Rightarrow> json" where
  "audit_rules set' = JArr (map (\<lambda>r. JObj [(''window_minutes'', JNum (of_int (go_div (r_window r) ns_minute))),
     (''amount_usd'', case r_amount r of Fin q \<Rightarrow> JNum q | _ \<Rightarrow> JNull)]) set')"

definition input_error :: "err \<Rightarrow> err" where
  "input_error x =
     (case x of
        EInvalidLimits i FieldCount \<Rightarrow> EInvalidInput ''limits''
      | EInvalidLimits i FieldWindow \<Rightarrow> EInvalidInput (''['' @ format_int i @ ''].windowMinutes'')
      | EInvalidLimits i FieldAmount \<Rightarrow> EInvalidInput (''['' @ format_int i @ ''].amountUsd'')
      | _ \<Rightarrow> x)"

definition checked :: "limit_set \<Rightarrow> unit result" where
  "checked set' = (case validate set' of Inl x \<Rightarrow> Inl (input_error x) | Inr u \<Rightarrow> Inr u)"

definition spend_load :: "unit io" where
  "spend_load = bnd settings_limit_defaults (\<lambda>set'. poke (\<lambda>m. m\<lparr>m_defaults := set'\<rparr>))"

definition spend_effective :: "limit_set option \<Rightarrow> limit_set io" where
  "spend_effective custom = peek (\<lambda>m. effective custom (m_defaults m))"

definition spend_admit :: "uuid \<Rightarrow> limit_set \<Rightarrow> decision io" where
  "spend_admit i set' =
     bnd (windows_of i) (\<lambda>rows.
     bnd now_io (\<lambda>now.
     let decision = decide set' rows now in
     if d_blocked decision \<or> (d_open decision = [] \<and> d_orphans decision = []) then ret decision
     else bnd (windows_open i (map r_window (d_open decision)) (d_orphans decision) now) (\<lambda>_. ret decision)))"

definition spend_view :: "user \<Rightarrow> limits_view io" where
  "spend_view u =
     bnd (windows_of (u_id u)) (\<lambda>rows.
     bnd (spend_effective (u_limits u)) (\<lambda>set'.
     bnd now_io (\<lambda>now.
     ret \<lparr>lv_custom = u_limits u, lv_windows = states set' rows now\<rparr>)))"

definition spend_mine :: "user \<Rightarrow> limits_view io" where
  "spend_mine u = spend_view u"

definition spend_defaults :: "user \<Rightarrow> limit_set io" where
  "spend_defaults actor = bnd (lift (require_admin actor)) (\<lambda>_. peek m_defaults)"

definition spend_record :: "user \<Rightarrow> string \<Rightarrow> string \<Rightarrow> instant \<Rightarrow> (string \<times> json) list \<Rightarrow> unit io" where
  "spend_record actor action target when' detail =
     audit_record \<lparr>ae_at = when', ae_actor = u_id actor, ae_action = action, ae_target = target, ae_detail = detail,
       ae_ip = [], ae_agent = []\<rparr>"

definition set_defaults :: "user \<Rightarrow> limit_set \<Rightarrow> limit_set io" where
  "set_defaults actor set' =
     bnd (lift (require_admin actor)) (\<lambda>_.
     bnd (lift (checked set')) (\<lambda>_.
     bnd now_io (\<lambda>now.
     bnd (settings_set_limit_defaults set' (u_id actor) now) (\<lambda>_.
     bnd (poke (\<lambda>m. m\<lparr>m_defaults := set'\<rparr>)) (\<lambda>_.
     bnd (spend_record actor ''limits.defaults_update'' ''spend_limits'' now [(''limits'', audit_rules set')]) (\<lambda>_.
     bnd (windows_drop_inherited (map r_window set')) (\<lambda>_.
     ret set')))))))"

definition spend_for_user :: "user \<Rightarrow> uuid \<Rightarrow> limits_view io" where
  "spend_for_user actor i = bnd (lift (require_admin actor)) (\<lambda>_. bnd (users_by_id i) spend_view)"

definition drop_orphans :: "uuid \<Rightarrow> limit_set option \<Rightarrow> instant \<Rightarrow> unit io" where
  "drop_orphans i custom now =
     bnd (windows_of i) (\<lambda>rows.
     bnd (spend_effective custom) (\<lambda>set'.
     let orphans = d_orphans (decide set' rows now) in
     if orphans \<noteq> [] then windows_open i [] orphans now else ret ()))"

definition set_user_limits :: "user \<Rightarrow> uuid \<Rightarrow> limit_set option \<Rightarrow> limits_view io" where
  "set_user_limits actor i custom =
     bnd (lift (require_admin actor)) (\<lambda>_.
     bnd (lift (case custom of None \<Rightarrow> Inr () | Some set' \<Rightarrow> checked set')) (\<lambda>_.
     bnd (users_by_id i) (\<lambda>u.
     bnd (users_update_spend_limits i custom) (\<lambda>_.
     bnd now_io (\<lambda>now.
     bnd (asks (\<lambda>e. uuid_str (ids e) i)) (\<lambda>target.
     bnd (spend_record actor ''user.limits_update'' target now
            (case custom of None \<Rightarrow> [(''mode'', JStr ''default'')]
             | Some set' \<Rightarrow> [(''mode'', JStr ''custom''), (''limits'', audit_rules set')])) (\<lambda>_.
     bnd (drop_orphans i custom now) (\<lambda>_.
     spend_view (u\<lparr>u_limits := custom\<rparr>)))))))))"

definition reset_spend :: "user \<Rightarrow> uuid \<Rightarrow> duration option \<Rightarrow> limits_view io" where
  "reset_spend actor i wnd =
     bnd (lift (require_admin actor)) (\<lambda>_.
     bnd (users_by_id i) (\<lambda>u.
     bnd (spend_effective (u_limits u)) (\<lambda>set'.
     if (case wnd of None \<Rightarrow> False | Some x \<Rightarrow> \<not> list_ex (\<lambda>r. r_window r = x) set')
     then raise (EInvalidInput ''windowMinutes'')
     else
       bnd (windows_reset i wnd) (\<lambda>_.
       bnd (asks (\<lambda>e. uuid_str (ids e) i)) (\<lambda>target.
       bnd now_io (\<lambda>now.
       bnd (spend_record actor ''user.limits_reset'' target now
              [(''window_minutes'', case wnd of None \<Rightarrow> JStr ''all'' | Some x \<Rightarrow> JNum (of_int (go_div x ns_minute)))]) (\<lambda>_.
       spend_view u)))))))"

section \<open>Windows as stored and as rules name them\<close>

lemma ns_minute_pos: "0 < ns_minute"
  by (simp add: ns_units)

lemma row_length: "1 \<le> m \<Longrightarrow> m \<le> 525600 \<Longrightarrow> wrap64 (m * ns_minute) = m * ns_minute"
  by (simp add: wrap64_def ns_units)

lemma minutes_of_whole: "1 \<le> m \<Longrightarrow> m \<le> 525600 \<Longrightarrow> minutes_of (m * ns_minute) = m"
  by (simp add: minutes_of_def wrap32_def go_div_def ns_units)

lemma valid_window_minutes: "valid_window x \<Longrightarrow> \<exists>m. 1 \<le> m \<and> m \<le> 525600 \<and> x = m * ns_minute"
proof -
  assume h: "valid_window x"
  then have "x = (x div ns_minute) * ns_minute"
    by (simp add: valid_window_def algebra_simps minus_mod_eq_mult_div [symmetric])
  moreover have "1 \<le> x div ns_minute" "x div ns_minute \<le> 525600"
    using h zdiv_mono1 [of ns_minute x ns_minute] zdiv_mono1 [of x "365 * 24 * ns_hour" ns_minute]
    by (simp_all add: valid_window_def min_window_def max_window_def ns_units)
  ultimately show ?thesis by blast
qed

definition rows_of :: "uuid \<Rightarrow> db \<Rightarrow> window list" where
  "rows_of i d = map row_window (filter (\<lambda>r. lw_user r = i) (t_windows d))"

lemma row_window_simps:
  "1 \<le> lw_minutes r \<Longrightarrow> lw_minutes r \<le> 525600 \<Longrightarrow> w_length (row_window r) = lw_minutes r * ns_minute"
  "w_started (row_window r) = lw_started r" "w_spent (row_window r) = lw_spent r"
  using row_length [of "lw_minutes r"] by (simp_all add: row_window_def)

lemma rows_of_wf: "windows_ok us (t_windows d) \<Longrightarrow> rows_wf (rows_of i d)"
proof -
  assume ok: "windows_ok us (t_windows d)"
  have "inj_on (\<lambda>r. w_length (row_window r)) (set (filter (\<lambda>r. lw_user r = i) (t_windows d)))"
    using ok by (auto simp: inj_on_def windows_ok_def row_window_simps distinct_map ns_units)
  moreover have "distinct (filter (\<lambda>r. lw_user r = i) (t_windows d))"
    using ok by (auto simp: windows_ok_def distinct_map)
  ultimately show ?thesis by (simp add: rows_wf_def rows_of_def distinct_map comp_inj_on comp_def inj_on_def)
qed

definition live_in :: "uuid \<Rightarrow> int \<Rightarrow> instant \<Rightarrow> window_row list \<Rightarrow> bool" where
  "live_in i m now rows \<longleftrightarrow> (\<exists>r \<in> set rows. lw_user r = i \<and> lw_minutes r = m \<and> now < lw_started r + m * ns_minute)"

text \<open>Opening windows: the ones named are live afterwards, nothing else of the account changed, and
  nothing of another account.\<close>

definition opened_rows :: "uuid \<Rightarrow> instant \<Rightarrow> int set \<Rightarrow> window_row list \<Rightarrow> window_row list \<Rightarrow> bool" where
  "opened_rows i start ms rows rows' \<longleftrightarrow>
     filter (\<lambda>r. lw_user r \<noteq> i) rows' = filter (\<lambda>r. lw_user r \<noteq> i) rows
     \<and> (\<forall>m \<in> ms. live_in i m start rows')
     \<and> (\<forall>r. lw_minutes r \<notin> ms \<longrightarrow> (r \<in> set rows' \<longleftrightarrow> r \<in> set rows))
     \<and> (\<forall>r \<in> set rows'. lw_user r = i \<longrightarrow> lw_minutes r \<in> ms \<or> r \<in> set rows)"

lemma opened_rows_step:
  assumes "opened_rows i start {m} rows mid" "opened_rows i start ms mid rows'" "m \<notin> ms"
  shows "opened_rows i start (insert m ms) rows rows'"
proof -
  have "live_in i m start rows'"
    using assms unfolding opened_rows_def live_in_def by auto
  then show ?thesis using assms unfolding opened_rows_def by auto
qed

lemma other_minutes:
  "lw_minutes x \<noteq> m \<Longrightarrow>
     x \<in> set (map (\<lambda>r. if lw_user r = i \<and> lw_minutes r = m then r\<lparr>lw_started := start, lw_spent := Fin 0\<rparr> else r) rows)
       \<longleftrightarrow> x \<in> set rows"
proof (induction rows)
  case (Cons r rows)
  then show ?case by (cases "lw_user r = i \<and> lw_minutes r = m") (auto simp del: if_image_distrib)
qed simp

lemma open_rows_spec:
  assumes "open_rows i start written ms rows = Inr rows'" "distinct ms" "\<forall>m \<in> set ms. 1 \<le> m" "set written \<inter> set ms = {}"
  shows "opened_rows i start (set ms) rows rows'"
  using assms
proof (induction i start written ms rows rule: open_rows.induct)
  case (1 i start written rows)
  then show ?case by (simp add: opened_rows_def)
next
  case (2 i start written m ms rows)
  let ?upd = "map (\<lambda>r. if lw_user r = i \<and> lw_minutes r = m then r\<lparr>lw_started := start, lw_spent := Fin 0\<rparr> else r) rows"
  have pos: "0 < m * ns_minute" using 2 ns_minute_pos by simp
  have range: "m \<notin> set written" "1 \<le> m \<and> m \<le> 525600" using 2(4) by (auto split: if_splits)
  have prem: "distinct ms" "\<forall>m \<in> set ms. 1 \<le> m" "set (m # written) \<inter> set ms = {}" "set written \<inter> set ms = {}"
    using 2(5-7) by auto
  have fresh: "m \<notin> set ms" using 2(5) by simp
  show ?case
  proof (cases "list_ex (\<lambda>r. lw_user r = i \<and> lw_minutes r = m) rows")
    case there: True
    then obtain r where r: "r \<in> set rows" "lw_user r = i" "lw_minutes r = m" by (auto simp: list_ex_iff)
    show ?thesis
    proof (cases "list_ex (\<lambda>r. lw_user r = i \<and> lw_minutes r = m \<and> lw_started r + m * ns_minute \<le> start) rows")
      case True
      have run: "open_rows i start (m # written) ms ?upd = Inr rows'" using 2(4) range there True by simp
      have keep: "filter (\<lambda>r. lw_user r \<noteq> i) ?upd = filter (\<lambda>r. lw_user r \<noteq> i) rows"
        by (induction rows) auto
      have "r\<lparr>lw_started := start, lw_spent := Fin 0\<rparr> \<in> set ?upd" using r by (force simp: image_iff)
      then have "live_in i m start ?upd" unfolding live_in_def
        using r pos by (intro bexI [of _ "r\<lparr>lw_started := start, lw_spent := Fin 0\<rparr>"]) simp_all
      moreover have "x \<in> set ?upd \<longleftrightarrow> x \<in> set rows" if "lw_minutes x \<noteq> m" for x
        by (rule other_minutes [OF that])
      moreover have "lw_minutes x = m \<or> x \<in> set rows" if "x \<in> set ?upd" for x
      proof (cases "lw_minutes x = m")
        case False
        then show ?thesis using iffD1 [OF other_minutes [OF False] that] by blast
      qed blast
      ultimately have first: "opened_rows i start {m} rows ?upd"
        unfolding opened_rows_def using keep by blast
      have second: "opened_rows i start (set ms) ?upd rows'"
        using 2(1) [OF _ _ there True] run range(1,2) prem by simp
      show ?thesis using opened_rows_step [OF first second fresh] by (simp only: list.set)
    next
      case False
      have run: "open_rows i start written ms rows = Inr rows'" using 2(4) range there False by simp
      have "live_in i m start rows" using r False by (force simp: live_in_def list_ex_iff)
      then have first: "opened_rows i start {m} rows rows" by (auto simp: opened_rows_def)
      have second: "opened_rows i start (set ms) rows rows'"
        using 2(2) [OF _ _ there False] run range(1,2) prem by simp
      show ?thesis using opened_rows_step [OF first second fresh] by (simp only: list.set)
    qed
  next
    case False
    have run: "open_rows i start (m # written) ms (rows @ [\<lparr>lw_user = i, lw_minutes = m, lw_started = start, lw_spent = Fin 0\<rparr>]) = Inr rows'"
      using 2(4) range False by simp
    let ?new = "\<lparr>lw_user = i, lw_minutes = m, lw_started = start, lw_spent = Fin 0\<rparr>"
    have first: "opened_rows i start {m} rows (rows @ [?new])"
      using pos by (auto simp: opened_rows_def live_in_def)
    have second: "opened_rows i start (set ms) (rows @ [?new]) rows'"
      using 2(3) [OF _ _ False] run range(1,2) prem by simp
    show ?thesis using opened_rows_step [OF first second fresh] by (simp only: list.set)
  qed
qed

section \<open>Admission\<close>

text \<open>What an admitted request leaves: every rule has a live window, no other window of the account is
  left, nobody else's windows changed and nothing beside the windows.\<close>

definition admitted :: "uuid \<Rightarrow> limit_set \<Rightarrow> instant \<Rightarrow> db \<Rightarrow> db \<Rightarrow> bool" where
  "admitted i set' now d d' \<longleftrightarrow>
     (\<forall>r \<in> set set'. \<exists>row \<in> set (t_windows d'). lw_user row = i \<and> lw_minutes row * ns_minute = r_window r
         \<and> now < lw_started row + r_window r)
     \<and> (\<forall>row \<in> set (t_windows d'). lw_user row = i \<longrightarrow> lw_minutes row * ns_minute \<in> r_window ` set set')
     \<and> filter (\<lambda>row. lw_user row \<noteq> i) (t_windows d') = filter (\<lambda>row. lw_user row \<noteq> i) (t_windows d)
     \<and> d' = d\<lparr>t_windows := t_windows d'\<rparr>"

lemma rows_of_mem: "w \<in> set (rows_of i d) \<longleftrightarrow> (\<exists>r \<in> set (t_windows d). lw_user r = i \<and> w = row_window r)"
  by (auto simp: rows_of_def)

lemma windows_okD:
  "windows_ok us ws \<Longrightarrow> r \<in> set ws \<Longrightarrow> 1 \<le> lw_minutes r \<and> lw_minutes r \<le> 525600 \<and> stored_rate (lw_spent r)"
  by (simp add: windows_ok_def)

lemma rule_minutes: "valid_set set' \<Longrightarrow> r \<in> set set' \<Longrightarrow> \<exists>m. 1 \<le> m \<and> m \<le> 525600 \<and> r_window r = m * ns_minute \<and> minutes_of (r_window r) = m"
  using valid_window_minutes minutes_of_whole unfolding valid_set_def by metis

lemma live_row_stored:
  assumes "windows_ok us (t_windows d)"
  shows "live_row (rows_of i d) now r \<noteq> None \<longleftrightarrow>
    (\<exists>row \<in> set (t_windows d). lw_user row = i \<and> lw_minutes row * ns_minute = r_window r \<and> now < lw_started row + r_window r)"
proof -
  have len: "w_length (row_window row) = lw_minutes row * ns_minute" if "row \<in> set (t_windows d)" for row
    using row_window_simps(1) windows_okD [OF assms that] by blast
  have "live_row (rows_of i d) now r \<noteq> None \<longleftrightarrow> (\<exists>w. live_row (rows_of i d) now r = Some w)" by blast
  also have "\<dots> \<longleftrightarrow> (\<exists>w \<in> set (rows_of i d). w_length w = r_window r \<and> live_at w now)"
    using live_row_iff [OF rows_of_wf [OF assms]] by blast
  also have "\<dots> \<longleftrightarrow> (\<exists>row \<in> set (t_windows d). lw_user row = i \<and> lw_minutes row * ns_minute = r_window r \<and> now < lw_started row + r_window r)"
  proof
    assume "\<exists>w \<in> set (rows_of i d). w_length w = r_window r \<and> live_at w now"
    then obtain row where row: "row \<in> set (t_windows d)" "lw_user row = i" "w_length (row_window row) = r_window r" "live_at (row_window row) now"
      unfolding rows_of_def by auto
    then show "\<exists>row \<in> set (t_windows d). lw_user row = i \<and> lw_minutes row * ns_minute = r_window r \<and> now < lw_started row + r_window r"
      using len [OF row(1)] by (intro bexI [of _ row]) (simp_all add: live_at_def ends_at_def row_window_simps(2))
  next
    assume "\<exists>row \<in> set (t_windows d). lw_user row = i \<and> lw_minutes row * ns_minute = r_window r \<and> now < lw_started row + r_window r"
    then obtain row where row: "row \<in> set (t_windows d)" "lw_user row = i" "lw_minutes row * ns_minute = r_window r" "now < lw_started row + r_window r"
      by blast
    then show "\<exists>w \<in> set (rows_of i d). w_length w = r_window r \<and> live_at w now"
      using len [OF row(1)] by (intro bexI [of _ "row_window row"]) (auto simp: live_at_def ends_at_def row_window_simps(2) rows_of_def)
  qed
  finally show ?thesis .
qed

lemma orphans_stored:
  assumes "windows_ok us (t_windows d)" "distinct (map r_window set')"
  shows "set (d_orphans (decide set' (rows_of i d) now))
    = {lw_minutes row * ns_minute |row. row \<in> set (t_windows d) \<and> lw_user row = i} - r_window ` set set'"
proof -
  have "set (d_orphans (decide set' (rows_of i d) now)) = w_length ` set (rows_of i d) - r_window ` set set'"
    using orphans_set [OF assms(2) rows_of_wf [OF assms(1)]] .
  moreover have "w_length ` set (rows_of i d) = {lw_minutes row * ns_minute |row. row \<in> set (t_windows d) \<and> lw_user row = i}"
  proof -
    have "w_length (row_window row) = lw_minutes row * ns_minute" if "row \<in> set (t_windows d)" for row
      using row_window_simps(1) windows_okD [OF assms(1) that] by blast
    then show ?thesis unfolding rows_of_def by (auto simp: image_iff)
  qed
  ultimately show ?thesis by simp
qed

lemma unblocked_open:
  assumes "windows_ok us (t_windows d)" "valid_set set'" "\<not> d_blocked (decide set' (rows_of i d) now)"
  shows "d_open (decide set' (rows_of i d) now) = filter (\<lambda>r. live_row (rows_of i d) now r = None) set'"
  using decide_facts [of set' "rows_of i d" now] rows_of_wf [OF assms(1)] assms(2,3) by (simp add: valid_set_def Let_def)

lemma opened_admitted:
  assumes ok: "windows_ok us (t_windows d)" and valid: "valid_set set'" and adm: "\<not> d_blocked (decide set' (rows_of i d) now)"
    and op: "opened_rows i now (minutes_of ` r_window ` set (d_open (decide set' (rows_of i d) now))) (t_windows d) rows'"
    and d': "d' = d\<lparr>t_windows := filter (\<lambda>r. \<not> (lw_user r = i \<and> lw_minutes r \<in> minutes_of ` set (d_orphans (decide set' (rows_of i d) now)))) rows'\<rparr>"
  shows "admitted i set' now d d'"
proof -
  let ?dec = "decide set' (rows_of i d) now"
  let ?ms = "minutes_of ` r_window ` set (d_open ?dec)"
  have open_rules: "set (d_open ?dec) = {r \<in> set set'. live_row (rows_of i d) now r = None}"
    using unblocked_open [OF ok valid adm] by auto
  have orphans: "set (d_orphans ?dec) = {lw_minutes row * ns_minute |row. row \<in> set (t_windows d) \<and> lw_user row = i} - r_window ` set set'"
    using orphans_stored [OF ok] valid by (simp add: valid_set_def)
  have range: "1 \<le> lw_minutes row \<and> lw_minutes row \<le> 525600" if "row \<in> set (t_windows d)" for row
    using windows_okD [OF ok that] by blast
  have dropped: "m \<in> minutes_of ` set (d_orphans ?dec) \<longleftrightarrow> m * ns_minute \<in> set (d_orphans ?dec)" if "1 \<le> m" "m \<le> 525600" for m
  proof
    assume "m \<in> minutes_of ` set (d_orphans ?dec)"
    then obtain row where "row \<in> set (t_windows d)" "lw_minutes row * ns_minute \<in> set (d_orphans ?dec)" "m = minutes_of (lw_minutes row * ns_minute)"
      using orphans by auto
    then show "m * ns_minute \<in> set (d_orphans ?dec)" using range minutes_of_whole by metis
  next
    assume "m * ns_minute \<in> set (d_orphans ?dec)"
    then show "m \<in> minutes_of ` set (d_orphans ?dec)" using minutes_of_whole [OF that] by (intro image_eqI [of _ _ "m * ns_minute"]) simp_all
  qed
  have kept: "row \<in> set (t_windows d')" if "row \<in> set rows'" "lw_minutes row * ns_minute \<in> r_window ` set set'"
    "1 \<le> lw_minutes row" "lw_minutes row \<le> 525600" for row
    using that dropped [OF that(3,4)] orphans by (simp add: d')
  have live: "\<exists>row \<in> set (t_windows d'). lw_user row = i \<and> lw_minutes row * ns_minute = r_window r \<and> now < lw_started row + r_window r"
    if r: "r \<in> set set'" for r
  proof -
    obtain m where m: "1 \<le> m" "m \<le> 525600" "r_window r = m * ns_minute" "minutes_of (r_window r) = m"
      using rule_minutes [OF valid r] by blast
    show ?thesis
    proof (cases "m \<in> ?ms")
      case True
      then obtain row where row: "row \<in> set rows'" "lw_user row = i" "lw_minutes row = m" "now < lw_started row + m * ns_minute"
        using op unfolding opened_rows_def live_in_def by blast
      then have "row \<in> set (t_windows d')" using m imageI [OF r, of r_window] by (intro kept) (auto simp del: ns_units)
      then show ?thesis using row m(3) by (intro bexI [of _ row]) simp_all
    next
      case False
      then have "live_row (rows_of i d) now r \<noteq> None" using open_rules r m(4) by force
      then obtain row where row: "row \<in> set (t_windows d)" "lw_user row = i" "lw_minutes row * ns_minute = r_window r"
          "now < lw_started row + r_window r"
        unfolding live_row_stored [OF ok] by blast
      then have mm: "lw_minutes row = m" using m(3) ns_minute_pos by (simp del: ns_units)
      then have "row \<in> set rows'" using op row(1) False unfolding opened_rows_def by blast
      then have "row \<in> set (t_windows d')" using row(3) r m(1,2) mm by (intro kept) (auto simp del: ns_units)
      then show ?thesis using row by blast
    qed
  qed
  have no_orphans: "lw_minutes row * ns_minute \<in> r_window ` set set'" if row: "row \<in> set (t_windows d')" "lw_user row = i" for row
  proof -
    have mem: "row \<in> set rows'" "lw_minutes row \<notin> minutes_of ` set (d_orphans ?dec)" using row by (simp_all add: d')
    show ?thesis
    proof (cases "lw_minutes row \<in> ?ms")
      case True
      then obtain r where r: "r \<in> set set'" "minutes_of (r_window r) = lw_minutes row" using open_rules by auto
      then show ?thesis using rule_minutes [OF valid r(1)] by (metis imageI)
    next
      case False
      then have old: "row \<in> set (t_windows d)" using op mem(1) row(2) unfolding opened_rows_def by blast
      then show ?thesis using dropped range [OF old] mem(2) orphans row(2) by blast
    qed
  qed
  have others: "filter (\<lambda>row. lw_user row \<noteq> i) (t_windows d') = filter (\<lambda>row. lw_user row \<noteq> i) (t_windows d)"
  proof -
    have "filter (\<lambda>row. lw_user row \<noteq> i) (t_windows d') = filter (\<lambda>row. lw_user row \<noteq> i) rows'"
      by (auto simp: d' intro: filter_cong)
    then show ?thesis using op unfolding opened_rows_def by simp
  qed
  have "d' = d\<lparr>t_windows := t_windows d'\<rparr>" by (simp add: d')
  then show ?thesis unfolding admitted_def using live no_orphans others by blast
qed

lemma windows_of_rows: "windows_of i = query (\<lambda>e t d. Inr (rows_of i d))"
  by (simp add: windows_of_def rows_of_def)

lemma admitted_same:
  assumes ok: "windows_ok us (t_windows d)" and valid: "valid_set set'" and adm: "\<not> d_blocked (decide set' (rows_of i d) now)"
    and none: "d_open (decide set' (rows_of i d) now) = []" "d_orphans (decide set' (rows_of i d) now) = []"
  shows "admitted i set' now d d"
  using none by (intro opened_admitted [OF ok valid adm, of "t_windows d"]) (simp_all add: opened_rows_def)

text \<open>The windows a request opens are those of distinct rules of whole minutes.\<close>

lemma open_minutes:
  assumes "windows_ok us (t_windows d)" "valid_set set'" "\<not> d_blocked (decide set' (rows_of i d) now)"
  shows "distinct (map minutes_of (map r_window (d_open (decide set' (rows_of i d) now))))
    \<and> (\<forall>m \<in> set (map minutes_of (map r_window (d_open (decide set' (rows_of i d) now)))). 1 \<le> m)"
proof -
  let ?rs = "d_open (decide set' (rows_of i d) now)"
  have sub: "set ?rs \<subseteq> set set'" "distinct (map r_window ?rs)"
    using unblocked_open [OF assms] assms(2) by (auto simp: valid_set_def distinct_map_filter)
  have "inj_on minutes_of (r_window ` set ?rs)"
  proof (rule inj_onI)
    fix x y assume "x \<in> r_window ` set ?rs" "y \<in> r_window ` set ?rs" and eq: "minutes_of x = minutes_of y"
    then obtain r s where "r \<in> set set'" "s \<in> set set'" "x = r_window r" "y = r_window s" using sub(1) by auto
    then obtain m n where "x = m * ns_minute" "minutes_of x = m" "y = n * ns_minute" "minutes_of y = n"
      using rule_minutes [OF assms(2)] by metis
    then show "x = y" using eq by simp
  qed
  moreover have "1 \<le> minutes_of (r_window r)" if "r \<in> set ?rs" for r
    using rule_minutes [OF assms(2), of r] sub(1) that by auto
  ultimately show ?thesis using sub(2) by (auto simp: distinct_map comp_inj_on)
qed

lemma wp_spend_admit:
  assumes "valid_set set'" and "windows_ok us (t_windows (w_db w))"
    and "\<And>x w'. w_db w' = w_db w \<Longrightarrow> Q (Inl x) w'"
    and "\<And>now w'. w_tick w' = Suc (Suc (w_tick w)) \<Longrightarrow> now = clock e (Suc (w_tick w)) \<Longrightarrow> d_blocked (decide set' (rows_of i (w_db w)) now) \<Longrightarrow> w_db w' = w_db w \<Longrightarrow>
      Q (Inr (decide set' (rows_of i (w_db w)) now)) w'"
    and "\<And>now w'. now = clock e (Suc (w_tick w)) \<Longrightarrow> \<not> d_blocked (decide set' (rows_of i (w_db w)) now) \<Longrightarrow> admitted i set' now (w_db w) (w_db w') \<Longrightarrow>
      Q (Inr (decide set' (rows_of i (w_db w)) now)) w'"
  shows "wp (spend_admit i set') e w Q"
proof -
  let ?now = "clock e (Suc (w_tick w))" and ?d = "w_db w"
  let ?dec = "decide set' (rows_of i ?d) ?now"
  have opened: "wp (windows_open i (map r_window (d_open ?dec)) (d_orphans ?dec) ?now) e v
      (\<lambda>r w'. case r of Inl x \<Rightarrow> Q (Inl x) w' | Inr u \<Rightarrow> wp (ret ?dec) e w' Q)"
    if v: "w_db v = ?d" and adm: "\<not> d_blocked ?dec" and some: "\<not> (d_open ?dec = [] \<and> d_orphans ?dec = [])" for v
  proof -
    let ?ms = "sort (map minutes_of (map r_window (d_open ?dec)))"
    have "Q (Inr ?dec) ((tick v)\<lparr>w_db := ?d\<lparr>t_windows :=
        filter (\<lambda>r. \<not> (lw_user r = i \<and> lw_minutes r \<in> set (map minutes_of (d_orphans ?dec)))) rows'\<rparr>\<rparr>)"
      if "open_rows i ?now [] ?ms (t_windows ?d) = Inr rows'" for rows'
    proof -
      have "opened_rows i ?now (set ?ms) (t_windows ?d) rows'"
        using open_rows_spec [OF that] open_minutes [OF assms(2,1) adm] by simp
      then have "admitted i set' ?now ?d (?d\<lparr>t_windows := filter (\<lambda>r. \<not> (lw_user r = i \<and> lw_minutes r \<in> minutes_of ` set (d_orphans ?dec))) rows'\<rparr>)"
        by (intro opened_admitted [OF assms(2,1) adm, of rows']) (simp_all add: image_comp)
      then show ?thesis using adm by (intro assms(5)) simp_all
    qed
    then show ?thesis
      using some assms(3) v by (auto simp: windows_open_def wp_exec wp_ret split: sum.splits)
  qed
  show ?thesis
  proof (cases "d_blocked ?dec")
    case True
    then show ?thesis
      using assms(3) assms(4) [OF _ refl] by (simp add: spend_admit_def windows_of_rows wp_query wp_bnd wp_now wp_ret wp_if Let_def)
  next
    case False
    show ?thesis
    proof (cases "d_open ?dec = [] \<and> d_orphans ?dec = []")
      case True
      then have "admitted i set' ?now ?d ?d" using admitted_same [OF assms(2,1) False] by simp
      then have "Q (Inr ?dec) (tick (tick w))" using False by (intro assms(5)) simp_all
      then show ?thesis
        using True assms(3) by (simp add: spend_admit_def windows_of_rows wp_query wp_bnd wp_now wp_ret wp_if Let_def)
    next
      case some: False
      then show ?thesis
        using False assms(3) opened [of "tick (tick w)", OF _ False some]
        by (auto simp: spend_admit_def windows_of_rows wp_query wp_bnd wp_now Let_def)
    qed
  qed
qed

text \<open>Admission. The answer is the decision over the account's windows at the instant read. A
  refusal writes nothing. Admitted, the account has a live window for every rule, so that what the
  request costs counts against each of them, and no other window; other accounts' windows and every
  other table are as they were.\<close>

lemma spend_admit_effect:
  assumes "spend_admit i set' e w = (r, w')" and "valid_set set'" and "db_ok e (w_db w)"
  shows "case r of Inl x \<Rightarrow> w_db w' = w_db w
    | Inr dec \<Rightarrow> dec = decide set' (rows_of i (w_db w)) (clock e (Suc (w_tick w)))
        \<and> (if d_blocked dec then w_db w' = w_db w else admitted i set' (clock e (Suc (w_tick w))) (w_db w) (w_db w'))"
proof -
  have "windows_ok (ids_of (w_db w)) (t_windows (w_db w))" using assms(3) by (simp add: db_ok_def)
  then have "wp (spend_admit i set') e w (\<lambda>r w'. case r of Inl x \<Rightarrow> w_db w' = w_db w
    | Inr dec \<Rightarrow> dec = decide set' (rows_of i (w_db w)) (clock e (Suc (w_tick w)))
        \<and> (if d_blocked dec then w_db w' = w_db w else admitted i set' (clock e (Suc (w_tick w))) (w_db w) (w_db w')))"
    by (rule wp_spend_admit [OF assms(2)]) simp_all
  then show ?thesis using assms(1) by (rule wp_run)
qed

section \<open>Exhausted windows\<close>

text \<open>What the gate and the ledger do to the windows between an administrator's changes.\<close>

datatype spend_call = AdmitCall uuid limit_set | ChargeCall "usage_event list"

definition spend_step :: "env \<Rightarrow> spend_call \<Rightarrow> world \<Rightarrow> world" where
  "spend_step e c w = (case c of
     AdmitCall i set' \<Rightarrow> snd (spend_admit i set' e w)
   | ChargeCall evs \<Rightarrow> snd (usage_append_batch evs e w))"

definition exhausted :: "uuid \<Rightarrow> limit_rule \<Rightarrow> instant \<Rightarrow> db \<Rightarrow> bool" where
  "exhausted i r started d \<longleftrightarrow> (\<exists>row \<in> set (t_windows d). lw_user row = i \<and> lw_minutes row * ns_minute = r_window r
     \<and> lw_started row = started \<and> f64_le (r_amount r) (lw_spent row))"

lemma exhausted_blocks:
  assumes "exhausted i r started d" "r \<in> set set'" "valid_set set'" "windows_ok us (t_windows d)" "now < started + r_window r"
  shows "d_blocked (decide set' (rows_of i d) now)"
proof -
  obtain row where row: "row \<in> set (t_windows d)" "lw_user row = i" "lw_minutes row * ns_minute = r_window r"
    "lw_started row = started" "f64_le (r_amount r) (lw_spent row)"
    using assms(1) unfolding exhausted_def by blast
  have "w_length (row_window row) = r_window r"
    using row_window_simps(1) windows_okD [OF assms(4) row(1)] row(3) by metis
  then have "live_row (rows_of i d) now r = Some (row_window row)"
    unfolding live_row_iff [OF rows_of_wf [OF assms(4)]]
    using row assms(5) by (auto simp: rows_of_def live_at_def ends_at_def row_window_simps(2))
  then have "spent_out (rows_of i d) now r (row_window row)" using row(5) by (simp add: spent_out_def row_window_simps(3))
  then show ?thesis
    using decide_facts [of set' "rows_of i d" now] rows_of_wf [OF assms(4)] assms(2,3) by (auto simp: valid_set_def Let_def)
qed

lemma stored_rate_cases: "stored_rate a \<Longrightarrow> \<exists>q. a = Fin q \<and> 0 \<le> q"
  by (cases a) (auto simp: stored_rate_def f64_finite_def f64_le_def)

lemma owner_costs_nonneg:
  assumes "list_all event_ok evs" "\<forall>i c. map_of totals i = Some c \<longrightarrow> stored_rate c"
  shows "\<forall>i c. map_of (owner_costs evs totals) i = Some c \<longrightarrow> stored_rate c"
  using assms
proof (induction evs totals rule: owner_costs.induct)
  case (2 ev evs totals)
  have add: "stored_rate (f64_add a b)" if "stored_rate a" "stored_rate b" for a b
    using stored_rate_cases [OF that(1)] stored_rate_cases [OF that(2)] by (auto simp: stored_rate_def f64_finite_def f64_le_def)
  have "stored_rate (total_usd (ue_cost ev))" using 2(2) add by (simp add: total_usd_def event_ok_def)
  moreover have "stored_rate (Fin 0)" by (simp add: stored_rate_def f64_finite_def)
  ultimately have "stored_rate (f64_add (case map_of totals (ue_user ev) of None \<Rightarrow> Fin 0 | Some s \<Rightarrow> s) (total_usd (ue_cost ev)))"
    using 2(3) add by (auto split: option.splits)
  then have "\<forall>i c. map_of (if ue_user ev = uuid_nil then totals else AList.update (ue_user ev)
      (f64_add (case map_of totals (ue_user ev) of None \<Rightarrow> Fin 0 | Some s \<Rightarrow> s) (total_usd (ue_cost ev))) totals) i = Some c \<longrightarrow> stored_rate c"
    using 2(3) by (simp add: update_conv')
  then show ?case using 2(1) 2(2) by simp
qed simp

lemma charge_exhausted:
  assumes "exhausted i r started d" "list_all event_ok evs" "windows_ok us (t_windows d)"
  shows "exhausted i r started (d\<lparr>t_windows := map (charge_window (owner_costs evs [])) (t_windows d), t_usage := u\<rparr>)"
proof -
  obtain row where row: "row \<in> set (t_windows d)" "lw_user row = i" "lw_minutes row * ns_minute = r_window r"
    "lw_started row = started" "f64_le (r_amount r) (lw_spent row)"
    using assms(1) unfolding exhausted_def by blast
  let ?row = "charge_window (owner_costs evs []) row"
  have "f64_le (r_amount r) (lw_spent ?row)"
  proof (cases "map_of (owner_costs evs []) i")
    case None
    then show ?thesis using row by (simp add: charge_window_def)
  next
    case (Some c)
    then have "stored_rate c" using owner_costs_nonneg [OF assms(2), of "[]"] by auto
    then obtain q where "c = Fin q" "0 \<le> q" using stored_rate_cases by blast
    moreover obtain s where "lw_spent row = Fin s" using windows_okD [OF assms(3) row(1)] stored_rate_cases by blast
    ultimately show ?thesis using row Some by (cases "r_amount r") (auto simp: charge_window_def f64_le_def)
  qed
  moreover have "lw_user ?row = i" "lw_minutes ?row = lw_minutes row" "lw_started ?row = started"
    using row by (simp_all add: charge_window_def split: option.splits)
  ultimately show ?thesis
    unfolding exhausted_def using row by (intro bexI [of _ ?row]) simp_all
qed

lemma wp_usage_append:
  assumes "\<And>x w'. w_db w' = w_db w \<Longrightarrow> Q (Inl x) w'"
    and "\<And>us w'. list_all event_ok evs \<Longrightarrow> w_db w' = (w_db w)\<lparr>t_windows := map (charge_window (owner_costs evs [])) (t_windows (w_db w)),
      t_usage := t_usage (w_db w) @ map (stored_event (w_db w)) evs\<rparr> \<Longrightarrow> Q (Inr us) w'"
    and "evs = [] \<Longrightarrow> Q (Inr []) w"
  shows "wp (usage_append_batch evs) e w Q"
  using assms by (auto simp: usage_append_batch_def wp_ret wp_exec Let_def)

lemma admitted_others:
  assumes "admitted j s now d d'" "j \<noteq> i" "exhausted i r started d"
  shows "exhausted i r started d'"
proof -
  obtain row where row: "row \<in> set (t_windows d)" "lw_user row = i" "lw_minutes row * ns_minute = r_window r"
    "lw_started row = started" "f64_le (r_amount r) (lw_spent row)"
    using assms(3) unfolding exhausted_def by blast
  then have "row \<in> set (filter (\<lambda>row. lw_user row \<noteq> j) (t_windows d))" using assms(2) by simp
  then have "row \<in> set (t_windows d')" using assms(1) unfolding admitted_def by (metis filter_is_subset subsetD)
  then show ?thesis using row unfolding exhausted_def by blast
qed

definition spend_ruled :: "uuid \<Rightarrow> limit_set \<Rightarrow> spend_call \<Rightarrow> bool" where
  "spend_ruled i set' c \<longleftrightarrow> (case c of AdmitCall j s \<Rightarrow> valid_set s \<and> (j = i \<longrightarrow> s = set') | ChargeCall evs \<Rightarrow> True)"

lemma keep_spend_step: "db_ok e (w_db w) \<Longrightarrow> db_ok e (w_db (spend_step e c w))"
proof -
  have "keeping (spend_admit i s)" for i s
    unfolding spend_admit_def Let_def by (intro integrity.ev_rules keep_windows_of keep_windows_open)
  then show "db_ok e (w_db w) \<Longrightarrow> db_ok e (w_db (spend_step e c w))"
    using keep_usage_append by (cases c) (auto simp: spend_step_def evolves_def kept_def)
qed

lemma exhausted_step:
  assumes "db_ok e (w_db w)" "exhausted i r started (w_db w)" "spend_ruled i set' c" "r \<in> set set'" "\<And>n. clock e n < started + r_window r"
  shows "exhausted i r started (w_db (spend_step e c w))"
proof (cases c)
  case (AdmitCall j s)
  have ok: "windows_ok (ids_of (w_db w)) (t_windows (w_db w))" using assms(1) by (simp add: db_ok_def)
  have valid: "valid_set s" and same: "j = i \<Longrightarrow> s = set'" using assms(3) by (simp_all add: AdmitCall spend_ruled_def)
  have blocked: "d_blocked (decide s (rows_of j (w_db w)) (clock e n))" if "j = i" for n
    using exhausted_blocks [OF assms(2) _ valid ok assms(5)] assms(4) same [OF that] that by simp
  have "wp (spend_admit j s) e w (\<lambda>r' w'. exhausted i r started (w_db w'))"
  proof (rule wp_spend_admit [OF valid ok])
    fix now w' assume "now = clock e (Suc (w_tick w))" "\<not> d_blocked (decide s (rows_of j (w_db w)) now)" "admitted j s now (w_db w) (w_db w')"
    then show "exhausted i r started (w_db w')" using admitted_others [OF _ _ assms(2)] blocked by blast
  qed (simp_all add: assms(2))
  then show ?thesis by (simp add: AdmitCall spend_step_def wp_def split: prod.splits)
next
  case (ChargeCall evs)
  have "windows_ok (ids_of (w_db w)) (t_windows (w_db w))" using assms(1) by (simp add: db_ok_def)
  then have "wp (usage_append_batch evs) e w (\<lambda>r' w'. exhausted i r started (w_db w'))"
    using assms(2) charge_exhausted [OF assms(2)] by (intro wp_usage_append) simp_all
  then show ?thesis by (simp add: ChargeCall spend_step_def wp_def split: prod.splits)
qed

lemma exhausted_fold:
  assumes "db_ok e (w_db w)" "exhausted i r started (w_db w)" "r \<in> set set'" "\<And>n. clock e n < started + r_window r"
    "list_all (spend_ruled i set') calls"
  shows "db_ok e (w_db (fold (spend_step e) calls w)) \<and> exhausted i r started (w_db (fold (spend_step e) calls w))"
  using assms(1,2,5)
proof (induction calls arbitrary: w)
  case (Cons c calls)
  then show ?case
    using keep_spend_step exhausted_step [OF _ _ _ assms(3,4)] by simp
qed simp

text \<open>C34: an exhausted window stays exhausted. Once the spending of a rule's window has reached its
  amount, and until the window ends, the account is refused, whatever requests of it and of other
  accounts are put to the gate and whatever usage the ledger writes in between, and the refusal
  writes nothing.\<close>

theorem exhausted_refused:
  assumes "db_ok e (w_db w)" and "exhausted i r started (w_db w)" and "r \<in> set set'" and "valid_set set'"
    and "\<And>n. clock e n < started + r_window r" and "list_all (spend_ruled i set') calls"
    and "spend_admit i set' e (fold (spend_step e) calls w) = (Inr dec, w')"
  shows "d_blocked dec \<and> w_db w' = w_db (fold (spend_step e) calls w)"
proof -
  let ?v = "fold (spend_step e) calls w"
  have v: "db_ok e (w_db ?v) \<and> exhausted i r started (w_db ?v)"
    by (rule exhausted_fold [OF assms(1,2,3,5,6)])
  then have ok: "windows_ok (ids_of (w_db ?v)) (t_windows (w_db ?v))" by (simp add: db_ok_def)
  have "wp (spend_admit i set') e ?v (\<lambda>r w'. isl r \<or> d_blocked (projr r) \<and> w_db w' = w_db ?v)"
    using exhausted_blocks [OF conjunct2 [OF v] assms(3,4) ok assms(5)]
    by (intro wp_spend_admit [OF assms(4) ok]) auto
  then show ?thesis using assms(7) by (auto dest: wp_run)
qed

section \<open>The defaults in memory and in the store\<close>

text \<open>The set the gate reads is the stored one.\<close>

definition coherent :: "world \<Rightarrow> bool" where
  "coherent w \<longleftrightarrow> m_defaults (w_mem w) = (case t_limit_defaults (w_db w) of None \<Rightarrow> [] | Some rows \<Rightarrow> decode_limits rows)"

lemma decode_encode_limits:
  assumes "valid_set set'" "encode_limits set' = Inr rows"
  shows "decode_limits rows = set'"
proof -
  have "wrap64 (go_div (r_window r) ns_minute * ns_minute) = r_window r" if "r \<in> set set'" for r
  proof -
    have "\<exists>m. 1 \<le> m \<and> m \<le> 525600 \<and> r_window r = m * ns_minute" using rule_minutes [OF assms(1) that] by blast
    then obtain m where "1 \<le> m" "m \<le> 525600" "r_window r = m * ns_minute" by blast
    then show ?thesis using row_length [of m] by (simp add: go_div_def)
  qed
  then show ?thesis
    using assms(2) by (auto simp: encode_limits_def decode_limits_def map_idI comp_def split: if_splits)
qed

lemma checked_valid: "checked set' = Inr u \<longleftrightarrow> valid_set set'"
  using validate_Inr [of set'] by (auto simp: checked_def split: sum.splits)

text \<open>What a change of the defaults that reports success left.\<close>

definition defaults_set :: "env \<Rightarrow> user \<Rightarrow> limit_set \<Rightarrow> world \<Rightarrow> world \<Rightarrow> bool" where
  "defaults_set e actor set' w w' \<longleftrightarrow> (\<exists>row rows. t_audit (w_db w') = t_audit (w_db w) @ [row] \<and> ar_action row = ''limits.defaults_update''
     \<and> ar_actor row = null_uuid (u_id actor)
     \<and> encode_limits set' = Inr rows \<and> t_limit_defaults (w_db w') = Some rows \<and> m_defaults (w_mem w') = set'
     \<and> (\<forall>wr \<in> set (t_windows (w_db w')). inherits (lw_user wr) (w_db w') \<longrightarrow> lw_minutes wr \<in> set (map (minutes_of \<circ> r_window) set'))
     \<and> filter (\<lambda>wr. \<not> inherits (lw_user wr) (w_db w)) (t_windows (w_db w'))
         = filter (\<lambda>wr. \<not> inherits (lw_user wr) (w_db w)) (t_windows (w_db w))
     \<and> w_db w' = (w_db w)\<lparr>t_audit := t_audit (w_db w'), t_limit_defaults := Some rows, t_windows := t_windows (w_db w')\<rparr>)"

lemma inherits_simps [simp]: "inherits i (d\<lparr>t_windows := x\<rparr>) = inherits i d" "inherits i (d\<lparr>t_audit := y\<rparr>) = inherits i d"
  "inherits i (d\<lparr>t_limit_defaults := z\<rparr>) = inherits i d"
  by (simp_all add: inherits_def)

definition announce_defaults :: "user \<Rightarrow> limit_set \<Rightarrow> instant \<Rightarrow> limit_set io" where
  "announce_defaults actor set' now =
     bnd (spend_record actor ''limits.defaults_update'' ''spend_limits'' now [(''limits'', audit_rules set')]) (\<lambda>_.
     bnd (windows_drop_inherited (map r_window set')) (\<lambda>_. ret set'))"

lemma set_defaults_eq:
  "set_defaults actor set' =
     bnd (lift (require_admin actor)) (\<lambda>_.
     bnd (lift (checked set')) (\<lambda>_.
     bnd now_io (\<lambda>now.
     bnd (settings_set_limit_defaults set' (u_id actor) now) (\<lambda>_.
     bnd (poke (\<lambda>m. m\<lparr>m_defaults := set'\<rparr>)) (\<lambda>_. announce_defaults actor set' now)))))"
  unfolding set_defaults_def announce_defaults_def by (rule refl)

lemma wp_announce_defaults:
  assumes "\<And>x w'. w_mem w' = w_mem w \<Longrightarrow> t_limit_defaults (w_db w') = t_limit_defaults (w_db w) \<Longrightarrow> Q (Inl x) w'"
    and "\<And>w' row. w_mem w' = w_mem w \<Longrightarrow> ar_action row = ''limits.defaults_update'' \<Longrightarrow> ar_actor row = null_uuid (u_id actor) \<Longrightarrow>
      w_db w' = (w_db w)\<lparr>t_audit := t_audit (w_db w) @ [row], t_windows := filter (\<lambda>r. \<not> (inherits (lw_user r) (w_db w)
       \<and> lw_minutes r \<notin> set (map (minutes_of \<circ> r_window) set'))) (t_windows (w_db w))\<rparr> \<Longrightarrow> Q (Inr set') w'"
  shows "wp (announce_defaults actor set' now) e w Q"
  using assms unfolding announce_defaults_def spend_record_def
  by (auto simp: wp_simps windows_drop_inherited_def audit_of_def intro!: wp_audit_record)

lemma wp_set_defaults:
  assumes "\<And>x w'. w_mem w' = w_mem w \<Longrightarrow> t_limit_defaults (w_db w') = t_limit_defaults (w_db w) \<Longrightarrow> Q (Inl x) w'"
    and "\<And>x w' rows. require_admin actor = Inr () \<Longrightarrow> valid_set set' \<Longrightarrow> m_defaults (w_mem w') = set' \<Longrightarrow> encode_limits set' = Inr rows \<Longrightarrow>
      t_limit_defaults (w_db w') = Some rows \<Longrightarrow> Q (Inl x) w'"
    and "\<And>w'. require_admin actor = Inr () \<Longrightarrow> valid_set set' \<Longrightarrow> defaults_set e actor set' w w' \<Longrightarrow> Q (Inr set') w'"
  shows "wp (set_defaults actor set') e w Q"
proof (cases "require_admin actor")
  case (Inl x)
  then show ?thesis using assms(1) by (simp add: set_defaults_eq wp_simps)
next
  case admin: (Inr _)
  show ?thesis
  proof (cases "checked set'")
    case (Inl x)
    then show ?thesis using assms(1) admin by (simp add: set_defaults_eq wp_simps)
  next
    case (Inr _)
    then have valid: "valid_set set'" using checked_valid by blast
    have announced: "wp (announce_defaults actor set' now) e v Q"
      if "encode_limits set' = Inr rows" "w_db v = (w_db w)\<lparr>t_limit_defaults := Some rows\<rparr>" "m_defaults (w_mem v) = set'" for now v rows
      using that admin
      by (intro wp_announce_defaults assms(2) [OF _ valid] assms(3) [OF _ valid]) (auto simp: defaults_set_def filter_filter intro!: filter_cong)
    show ?thesis
      using admin Inr assms(1) announced
      by (cases "encode_limits set'") (auto simp: set_defaults_eq settings_set_limit_defaults_def wp_simps)
  qed
qed

text \<open>Changing the defaults. The set the gate reads and the stored set never come from different
  writes: a refused or failed change leaves both, or an administrator's valid set took the place of
  both before the audit record or the removal of stale windows failed. On success the change is
  audited, no account that inherits the defaults keeps a window outside the new set, and the
  windows of accounts with their own limits are untouched.\<close>

lemma set_defaults_effect:
  assumes "set_defaults actor set' e w = (r, w')" and "coherent w"
  shows "coherent w' \<and> (case r of
      Inl x \<Rightarrow> m_defaults (w_mem w') = m_defaults (w_mem w) \<or> m_defaults (w_mem w') = set' \<and> require_admin actor = Inr () \<and> valid_set set'
    | Inr s \<Rightarrow> s = set' \<and> require_admin actor = Inr () \<and> valid_set set' \<and> defaults_set e actor set' w w')"
proof -
  have "wp (set_defaults actor set') e w (\<lambda>r w'. coherent w' \<and> (case r of
      Inl x \<Rightarrow> m_defaults (w_mem w') = m_defaults (w_mem w) \<or> m_defaults (w_mem w') = set' \<and> require_admin actor = Inr () \<and> valid_set set'
    | Inr s \<Rightarrow> s = set' \<and> require_admin actor = Inr () \<and> valid_set set' \<and> defaults_set e actor set' w w'))"
    using assms(2) decode_encode_limits
    by (intro wp_set_defaults) (auto simp: coherent_def defaults_set_def)
  then show ?thesis using assms(1) by (rule wp_run)
qed

section \<open>Witnesses\<close>

definition hourly :: limit_set where
  "hourly = [\<lparr>r_window = 60 * ns_minute, r_amount = Fin 5\<rparr>]"

lemma hourly_valid: "valid_set hourly"
  by (simp add: hourly_def valid_set_def max_rules_def valid_window_def min_window_def max_window_def valid_amount_def max_amount_usd_def
      ns_units)

lemma decide_fresh: "decide hourly [] now = decision_zero\<lparr>d_open := hourly\<rparr>"
  by (simp add: decide_def stored_of_def hourly_def decision_zero_def)

definition still_env :: env where
  "still_env = example_env\<lparr>clock := (\<lambda>_. 1000000000000)\<rparr>"

definition spent_world :: world where
  "spent_world = example_world\<lparr>w_db := example_db\<lparr>t_windows :=
     [\<lparr>lw_user = 2, lw_minutes = 60, lw_started = 1000000000000, lw_spent = Fin 7\<rparr>]\<rparr>\<rparr>"

theorem exhausted_refused_witness:
  "\<exists>dec w'. spend_admit 2 hourly still_env (fold (spend_step still_env) [AdmitCall 2 hourly, ChargeCall [], AdmitCall 1 hourly] spent_world)
      = (Inr dec, w') \<and> d_blocked dec"
proof -
  let ?v = "fold (spend_step still_env) [AdmitCall 2 hourly, ChargeCall [], AdmitCall 1 hourly] spent_world"
  have ok: "db_ok still_env (w_db spent_world)"
  proof -
    have "ids_of example_db = {1, 2, 3}" by (auto simp: ids_of_def example_db_def example_row_def)
    moreover have "stored_rate (Fin 7)" by (simp add: stored_rate_def f64_finite_def f64_le_def)
    ultimately have "db_ok example_env (w_db spent_world)" using example_db_ok by (simp add: spent_world_def db_ok_def windows_ok_def)
    moreover have "lower_email still_env = lower_email example_env" by (rule ext) (simp add: lower_email_def still_env_def)
    ultimately show ?thesis by (simp add: db_ok_def users_ok_def pendings_ok_def still_env_def)
  qed
  have ex: "exhausted 2 (hd hourly) 1000000000000 (w_db spent_world)"
    by (simp add: exhausted_def spent_world_def hourly_def f64_le_def)
  have rule: "hd hourly \<in> set hourly" "clock still_env n < 1000000000000 + r_window (hd hourly)" for n
    by (simp_all add: hourly_def still_env_def ns_units)
  have calls: "list_all (spend_ruled 2 hourly) [AdmitCall 2 hourly, ChargeCall [], AdmitCall 1 hourly]"
    by (simp add: spend_ruled_def hourly_valid)
  have v: "windows_ok (ids_of (w_db ?v)) (t_windows (w_db ?v))" "exhausted 2 (hd hourly) 1000000000000 (w_db ?v)"
    using exhausted_fold [OF ok ex rule calls] by (simp_all add: db_ok_def)
  have "d_blocked (decide hourly (rows_of 2 (w_db ?v)) (clock still_env n))" for n
    by (rule exhausted_blocks [OF v(2) rule(1) hourly_valid v(1) rule(2)])
  moreover have "\<not> fault still_env n" for n by (simp add: still_env_def example_env_def)
  ultimately have "wp (spend_admit 2 hourly) still_env ?v (\<lambda>r w'. \<exists>dec. r = Inr dec)"
    by (simp add: spend_admit_def windows_of_rows wp_query wp_bnd wp_now wp_ret wp_if Let_def del: fold_simps)
  then obtain dec w' where run: "spend_admit 2 hourly still_env ?v = (Inr dec, w')" by (auto simp: wp_def split: prod.splits)
  show ?thesis using exhausted_refused [OF ok ex rule(1) hourly_valid rule(2) calls run] run by blast
qed

end
