(* ===== verification/Gate.thy ===== *)
theory Gate
  imports GateBody SpendLimits
begin

text \<open>
  \<open>internal/infra/gateway/policy_gate.go\<close>: the default-deny guard of the proxied listener, with the
  authentication of \<open>access_provider.go\<close>. A request ends refused with an answer, passed on to
  upstream's handler with its principal and the charge its body is held under, or, on a listing
  route, handled with its response cut down by a filter. The upstream errors' status is a parameter
  and logging is not modelled.
\<close>

section \<open>Authentication\<close>

text \<open>The error, or the principal, the grant of its owner and where the credential was presented.\<close>

fun try_candidates :: "candidate list \<Rightarrow> (auth_error + principal \<times> grant \<times> string) io" where
  "try_candidates [] = ret (Inl InvalidCredential)"
| "try_candidates (c # cs) =
     bnd (attempt (resolve_token (fst c))) (\<lambda>r.
       case r of
         Inr (p, g) \<Rightarrow> ret (Inr (p, g, snd c))
       | Inl x \<Rightarrow> if x \<noteq> EInvalidCredentials then ret (Inl (InternalAuth x)) else try_candidates cs)"

definition authenticate :: "request \<Rightarrow> (auth_error + principal \<times> grant \<times> string) io" where
  "authenticate req =
     (let candidates = credential_candidates req in
      if candidates = []
      then if header req ''Authorization'' \<noteq> [] then ret (Inl InvalidCredential) else ret (Inl NoCredentials)
      else try_candidates candidates)"

text \<open>The access provider's answer: the principal the gate put on the request, or its own resolution.\<close>

definition access_authenticate :: "(principal \<times> string) option \<Rightarrow> request \<Rightarrow> (auth_error + principal \<times> string) io" where
  "access_authenticate on_request req =
     (case on_request of
        Some who \<Rightarrow> ret (Inr who)
      | None \<Rightarrow> bnd (authenticate req) (\<lambda>r. ret (case r of Inl x \<Rightarrow> Inl x | Inr (p, g, source) \<Rightarrow> Inr (p, source))))"

section \<open>The gate\<close>

text \<open>\<open>gt_spend\<close> is \<open>None\<close> where no limits are enforced, else whether the visibility of costs is known.\<close>

record gate =
  gt_registry :: registry
  gt_parsers :: parsers
  gt_zstd :: zstd
  gt_grants :: "int \<Rightarrow> int \<Rightarrow> int \<Rightarrow> bool"
  gt_whole :: int
  gt_spend :: "bool option"
  gt_auth_status :: "auth_error \<Rightarrow> int"

definition effective_set :: "gate \<Rightarrow> limit_set option \<Rightarrow> limit_set io" where
  "effective_set g custom = (case gt_spend g of None \<Rightarrow> ret [] | Some _ \<Rightarrow> spend_effective custom)"

definition listing_filter :: "gate \<Rightarrow> grant \<Rightarrow> limit_set \<Rightarrow> mem \<Rightarrow> string \<Rightarrow> bool" where
  "listing_filter g gr set' m model \<longleftrightarrow>
     admits (g_policy gr) (providers_for (gt_registry g)) model
     \<and> (if set' = [] then True else priced_everywhere (gt_registry g) m model)"

definition retry_after :: "duration \<Rightarrow> int" where
  "retry_after wait = max (- ((- wait) div ns_second)) 1"

definition admit_spend :: "gate \<Rightarrow> grant \<Rightarrow> principal \<Rightarrow> string \<Rightarrow> string \<Rightarrow> answer option io" where
  "admit_spend g gr p requested model =
     bnd (effective_set g (g_limits gr)) (\<lambda>set'.
     if set' = [] then ret None
     else
       bnd (peek (\<lambda>m. priced_everywhere (gt_registry g) m requested)) (\<lambda>priced.
       if \<not> priced then
         ret (Some ((abort_with 403 ''permission_error'' (''model '' @ requested @ '' has no price''))
           \<lparr>an_observed := Some (Denied (p_owner p) model DenyUnpricedModel)\<rparr>))
       else
         bnd (attempt (spend_admit (p_user p) set')) (\<lambda>r.
         case r of
           Inl x \<Rightarrow> ret (Some (abort_with 500 ''server_error'' ''spend limits unavailable''))
         | Inr dec \<Rightarrow>
             if \<not> d_blocked dec then ret None
             else
               bnd (peek (\<lambda>m. gt_spend g = Some True \<and> dc_costs_visible (m_display m))) (\<lambda>visible.
               ret (Some \<lparr>an_status = 429, an_kind = ''rate_limit_error'',
                 an_message = SpendReached (if visible then Some (r_amount (d_rule dec)) else None)
                   (window_label (r_window (d_rule dec))) (d_resets_at dec),
                 an_headers = [(''Retry-After'', format_int (retry_after (d_wait dec))), (''X-Should-Retry'', ''false'')],
                 an_observed = Some (Denied (p_owner p) model DenySpendLimit)\<rparr>)))))"

definition refuse_authentication :: "gate \<Rightarrow> auth_error \<Rightarrow> answer" where
  "refuse_authentication g x =
     \<lparr>an_status = gt_auth_status g x, an_kind = [], an_message = Upstream x, an_headers = [],
      an_observed = (case x of NoCredentials \<Rightarrow> Some (AuthFailed ''missing'') | InvalidCredential \<Rightarrow> Some (AuthFailed ''invalid'')
        | InternalAuth _ \<Rightarrow> None)\<rparr>"

text \<open>\<open>Stuck\<close> would be a body whose reading never ends.\<close>

datatype outcome =
    Refused answer
  | Passed request "(principal \<times> string) option" "charge option"
  | Listing listing request "principal \<times> string" "mem \<Rightarrow> string \<Rightarrow> bool"
  | Stuck

definition gate_policy ::
  "gate \<Rightarrow> request \<Rightarrow> string \<Rightarrow> principal \<Rightarrow> grant \<Rightarrow> string \<Rightarrow> charge \<Rightarrow> budget \<Rightarrow> (outcome \<times> budget) io" where
  "gate_policy g req requested p gr source c b =
     (let (model, provs) = routed (providers_for (gt_registry g)) requested in
      if \<not> covers (g_policy gr) model provs then
        ret (Refused ((abort_with 403 ''permission_error'' (''model '' @ requested @ '' is not allowed''))
          \<lparr>an_observed := Some (Denied (p_owner p) model (if provs = [] then DenyUnknownModel else DenyModelNotAllowed))\<rparr>),
          release c b)
      else
        bnd (admit_spend g gr p requested model) (\<lambda>r.
        case r of
          Some ans \<Rightarrow> ret (Refused ans, release c b)
        | None \<Rightarrow> ret (Passed req (Some (p, source)) (Some c), b)))"

definition gate_model ::
  "gate \<Rightarrow> route \<Rightarrow> request \<Rightarrow> string \<Rightarrow> bool \<Rightarrow> principal \<Rightarrow> grant \<Rightarrow> string \<Rightarrow> budget \<Rightarrow> (outcome \<times> budget) io" where
  "gate_model g rt req encoding encoded p gr source b =
     (let limit = body_limit_for rt req;
          c = new_charge (gt_whole g) (p_user p) (body_charge_ceiling limit encoded) in
      case receive_body (gt_grants g) (gt_whole g) (gt_zstd g) req limit encoding encoded c b of
        None \<Rightarrow> ret (Stuck, b)
      | Some (Inl ans, c, b) \<Rightarrow> ret (Refused ans, release c b)
      | Some (Inr (req, raw), c, b) \<Rightarrow>
          (case model_of (gt_parsers g) (rt_model rt) req raw of
             None \<Rightarrow>
               ret (Refused (abort_with 400 ''invalid_request_error'' ''request must name exactly one model''), release c b)
           | Some requested \<Rightarrow> gate_policy g req requested p gr source c b))"

definition policy_gate :: "gate \<Rightarrow> request \<Rightarrow> budget \<Rightarrow> (outcome \<times> budget) io" where
  "policy_gate g req b =
     (let matched = classify (rq_method req) (rq_pattern req) in
      if rt_kind matched = RouteDenied then
        ret (Refused \<lparr>an_status = 404, an_kind = [], an_message = NoText, an_headers = [],
          an_observed = Some (Denied [] [] DenyRouteNotAllowed)\<rparr>, b)
      else
        let (encoding, encoded) = content_encoding req;
            decodes = (rt_kind matched = RouteModel \<and> decodes_body matched req) in
        if encoded \<and> \<not> decodes then
          ret (Refused (abort_with 415 ''invalid_request_error'' ''unsupported content encoding''), b)
        else
          let req = (if rt_kind matched \<noteq> RouteModel then no_body req else req) in
          if rt_kind matched = RoutePublic then ret (Passed req None None, b)
          else
            bnd (authenticate req) (\<lambda>r.
            case r of
              Inl x \<Rightarrow> ret (Refused (refuse_authentication g x), b)
            | Inr (p, gr, source) \<Rightarrow>
                if rt_kind matched = RouteListing then
                  bnd (effective_set g (g_limits gr)) (\<lambda>set'.
                  ret (Listing (rt_listing matched) req (p, source) (listing_filter g gr set'), b))
                else gate_model g matched req encoding encoded p gr source b))"

text \<open>The handler has returned, or panicked: \<open>defer held.release()\<close>.\<close>

definition after_handler :: "outcome \<Rightarrow> budget \<Rightarrow> budget" where
  "after_handler out b = (case out of Passed _ _ (Some c) \<Rightarrow> release c b | _ \<Rightarrow> b)"

section \<open>Symbolic execution\<close>

lemma wp_conj: "wp m e w P \<Longrightarrow> wp m e w Q \<Longrightarrow> wp m e w (\<lambda>r w'. P r w' \<and> Q r w')"
  by (simp add: wp_def split: prod.splits)

text \<open>Neither the database nor the memory has changed.\<close>

definition untouched :: "world \<Rightarrow> world \<Rightarrow> bool" where
  "untouched w w' \<longleftrightarrow> w_db w' = w_db w \<and> w_mem w' = w_mem w"

lemma untouched_refl [simp]: "untouched w w"
  by (simp add: untouched_def)

lemma untouched_trans: "untouched u v \<Longrightarrow> untouched v w \<Longrightarrow> untouched u w"
  by (simp add: untouched_def)

lemma wp_resolve:
  assumes "\<And>x w'. untouched w w' \<Longrightarrow> Q (Inl x) w'"
    and "\<And>k u w'. authenticates e (w_db w) secret k u \<Longrightarrow> untouched w w' \<Longrightarrow> Q (Inr (resolved k u)) w'"
  shows "wp (resolve_token secret) e w Q"
proof -
  have "wp (resolve_token secret) e w (\<lambda>r w'. untouched w w' \<and> (case r of
      Inr pg \<Rightarrow> \<exists>k u. authenticates e (w_db w) secret k u \<and> pg = resolved k u | Inl x \<Rightarrow> True))"
    by (auto simp: resolve_token_def not_found_refuses_def tokens_by_hash_def users_by_id_def wp_simps hash_secret_def
        found_def token_active_def authenticates_def resolved_def untouched_def split: sum.splits option.splits)
  then show ?thesis by (rule wp_mono) (auto split: sum.splits intro: assms)
qed

text \<open>The principal and the grant are those of an account, through one of the credentials presented.\<close>

definition authenticated_by :: "env \<Rightarrow> db \<Rightarrow> candidate list \<Rightarrow> principal \<Rightarrow> grant \<Rightarrow> string \<Rightarrow> bool" where
  "authenticated_by e d cs p gr source \<longleftrightarrow>
     (\<exists>secret k u. (secret, source) \<in> set cs \<and> authenticates e d secret k u \<and> (p, gr) = resolved k u)"

lemma wp_try_candidates:
  assumes "\<And>x w'. untouched w w' \<Longrightarrow> Q (Inr (Inl x)) w'"
    and "\<And>p gr source w'. authenticated_by e (w_db w) cs p gr source \<Longrightarrow> untouched w w' \<Longrightarrow> Q (Inr (Inr (p, gr, source))) w'"
  shows "wp (try_candidates cs) e w Q"
  using assms
proof (induction cs arbitrary: w)
  case Nil
  then show ?case by (simp add: wp_simps)
next
  case (Cons c cs)
  have rest: "wp (try_candidates cs) e v Q" if "untouched w v" for v
  proof (rule Cons.IH)
    fix x w' assume "untouched v w'"
    then show "Q (Inr (Inl x)) w'" using Cons.prems(1) untouched_trans that by blast
  next
    fix p gr source w' assume h: "authenticated_by e (w_db v) cs p gr source" "untouched v w'"
    then have "authenticated_by e (w_db w) (c # cs) p gr source" using that by (auto simp: authenticated_by_def untouched_def)
    then show "Q (Inr (Inr (p, gr, source))) w'" using Cons.prems(2) untouched_trans [OF that h(2)] by blast
  qed
  have won: "Q (Inr (Inr (fst (resolved k u), snd (resolved k u), snd c))) w'"
    if "authenticates e (w_db w) (fst c) k u" "untouched w w'" for k u w'
    using that by (intro Cons.prems(2)) (auto simp: authenticated_by_def, metis prod.collapse)
  show ?case
    unfolding try_candidates.simps wp_bnd wp_attempt
    by (rule wp_resolve) (use rest won Cons.prems(1) in \<open>auto simp: wp_simps resolved_def\<close>)
qed

lemma wp_authenticate:
  assumes "\<And>x w'. untouched w w' \<Longrightarrow> Q (Inr (Inl x)) w'"
    and "\<And>p gr source w'. authenticated_by e (w_db w) (credential_candidates req) p gr source \<Longrightarrow> untouched w w' \<Longrightarrow>
      Q (Inr (Inr (p, gr, source))) w'"
  shows "wp (authenticate req) e w Q"
  unfolding authenticate_def Let_def wp_if wp_ret
  by (auto intro: assms intro!: wp_try_candidates)

section \<open>The spend limits of a request\<close>

definition in_force :: "gate \<Rightarrow> grant \<Rightarrow> world \<Rightarrow> limit_set" where
  "in_force g gr w = (if gt_spend g = None then [] else effective (g_limits gr) (m_defaults (w_mem w)))"

lemma wp_effective_set: "wp (effective_set g (g_limits gr)) e w Q = Q (Inr (in_force g gr w)) w"
  by (auto simp: effective_set_def in_force_def spend_effective_def wp_simps split: option.splits)

text \<open>Admitted by the spend limits: none are in force, or the model has a price wherever it is served
  and the decision over the account's windows let it through.\<close>

definition spend_passed :: "gate \<Rightarrow> grant \<Rightarrow> principal \<Rightarrow> string \<Rightarrow> env \<Rightarrow> world \<Rightarrow> world \<Rightarrow> bool" where
  "spend_passed g gr p requested e w w' \<longleftrightarrow> w_mem w' = w_mem w \<and>
     (let set' = in_force g gr w in
      if set' = [] then w_db w' = w_db w
      else priced_everywhere (gt_registry g) (w_mem w) requested
        \<and> (\<exists>now. \<not> d_blocked (decide set' (rows_of (p_user p) (w_db w)) now)
             \<and> (valid_set set' \<and> db_ok e (w_db w) \<longrightarrow> admitted (p_user p) set' now (w_db w) (w_db w'))))"

lemma wp_spend_decided:
  "wp (spend_admit i set') e w (\<lambda>r w'. w_mem w' = w_mem w \<and> (case r of
      Inl x \<Rightarrow> w_db w' = w_db w
    | Inr dec \<Rightarrow> dec = decide set' (rows_of i (w_db w)) (clock e (Suc (w_tick w))) \<and> (d_blocked dec \<longrightarrow> w_db w' = w_db w)))"
  by (auto simp: spend_admit_def windows_of_def windows_open_def wp_simps Let_def rows_of_def split: sum.splits)

lemma wp_spend:
  assumes "\<And>x w'. untouched w w' \<Longrightarrow> Q (Inl x) w'"
    and "\<And>dec w'. d_blocked dec \<Longrightarrow> untouched w w' \<Longrightarrow> Q (Inr dec) w'"
    and "\<And>dec now w'. \<not> d_blocked dec \<Longrightarrow> dec = decide set' (rows_of i (w_db w)) now \<Longrightarrow> w_mem w' = w_mem w \<Longrightarrow>
      (valid_set set' \<and> db_ok e (w_db w) \<longrightarrow> admitted i set' now (w_db w) (w_db w')) \<Longrightarrow> Q (Inr dec) w'"
  shows "wp (spend_admit i set') e w Q"
proof -
  have "wp (spend_admit i set') e w (\<lambda>r w'. valid_set set' \<and> db_ok e (w_db w) \<longrightarrow> (case r of Inl x \<Rightarrow> True
    | Inr dec \<Rightarrow> d_blocked dec \<or> admitted i set' (clock e (Suc (w_tick w))) (w_db w) (w_db w')))"
  proof (cases "valid_set set' \<and> db_ok e (w_db w)")
    case True
    then have "windows_ok (ids_of (w_db w)) (t_windows (w_db w))" "valid_set set'" by (simp_all add: db_ok_def)
    then show ?thesis by (intro wp_spend_admit) auto
  next
    case False
    then show ?thesis by (auto simp: wp_def split: prod.splits)
  qed
  from wp_conj [OF wp_spend_decided this] show ?thesis
  proof (rule wp_mono)
    fix r :: "decision result" and w' :: world
    assume h: "(w_mem w' = w_mem w \<and> (case r of
        Inl x \<Rightarrow> w_db w' = w_db w
      | Inr dec \<Rightarrow> dec = decide set' (rows_of i (w_db w)) (clock e (Suc (w_tick w))) \<and> (d_blocked dec \<longrightarrow> w_db w' = w_db w)))
      \<and> (valid_set set' \<and> db_ok e (w_db w) \<longrightarrow> (case r of Inl x \<Rightarrow> True
          | Inr dec \<Rightarrow> d_blocked dec \<or> admitted i set' (clock e (Suc (w_tick w))) (w_db w) (w_db w')))"
    show "Q r w'"
    proof (cases r)
      case (Inl x)
      then show ?thesis using h assms(1) by (simp add: untouched_def)
    next
      case (Inr dec)
      show ?thesis
      proof (cases "d_blocked dec")
        case True
        then show ?thesis using h Inr assms(2) by (simp add: untouched_def)
      next
        case False
        then show ?thesis using h unfolding Inr by (intro assms(3)) auto
      qed
    qed
  qed
qed

lemma wp_admit_spend:
  assumes "\<And>ans w'. untouched w w' \<Longrightarrow>
      (an_status ans = 403 \<longleftrightarrow> in_force g gr w \<noteq> [] \<and> \<not> priced_everywhere (gt_registry g) (w_mem w) requested) \<Longrightarrow>
      an_status ans \<in> {403, 429, 500} \<Longrightarrow> Q (Inr (Some ans)) w'"
    and "\<And>w'. spend_passed g gr p requested e w w' \<Longrightarrow> Q (Inr None) w'"
  shows "wp (admit_spend g gr p requested model) e w Q"
proof -
  let ?set = "in_force g gr w"
  consider "?set = []" | "?set \<noteq> []" "\<not> priced_everywhere (gt_registry g) (w_mem w) requested"
    | "?set \<noteq> []" "priced_everywhere (gt_registry g) (w_mem w) requested" by blast
  then show ?thesis
  proof cases
    case 1
    then show ?thesis
      unfolding admit_spend_def wp_bnd wp_effective_set by (auto simp: wp_simps spend_passed_def Let_def intro!: assms(2))
  next
    case 2
    then show ?thesis
      unfolding admit_spend_def wp_bnd wp_effective_set by (auto simp: wp_simps abort_with_def intro!: assms(1))
  next
    case 3
    have "wp (spend_admit (p_user p) ?set) e w (\<lambda>r w'. wp (case r of
        Inl x \<Rightarrow> ret (Some (abort_with 500 ''server_error'' ''spend limits unavailable''))
      | Inr dec \<Rightarrow>
          if \<not> d_blocked dec then ret None
          else
            bnd (peek (\<lambda>m. gt_spend g = Some True \<and> dc_costs_visible (m_display m))) (\<lambda>visible.
            ret (Some \<lparr>an_status = 429, an_kind = ''rate_limit_error'',
              an_message = SpendReached (if visible then Some (r_amount (d_rule dec)) else None)
                (window_label (r_window (d_rule dec))) (d_resets_at dec),
              an_headers = [(''Retry-After'', format_int (retry_after (d_wait dec))), (''X-Should-Retry'', ''false'')],
              an_observed = Some (Denied (p_owner p) model DenySpendLimit)\<rparr>))) e w' Q)"
      by (rule wp_spend)
        (use 3 in \<open>auto simp: wp_simps abort_with_def spend_passed_def Let_def intro!: assms\<close>)
    then show ?thesis
      unfolding admit_spend_def wp_bnd wp_effective_set using 3 by (simp add: wp_simps)
  qed
qed

section \<open>What the gate lets through\<close>

text \<open>A refusal, and what it leaves: the tables, the memory and the budget as they were.\<close>

definition restored :: "budget \<Rightarrow> budget \<Rightarrow> bool" where
  "restored b b' \<longleftrightarrow> bu_used b' = bu_used b \<and> (\<forall>i. held_by (bu_held b') i = held_by (bu_held b) i)"

lemma restored_refl [simp]: "restored b b"
  by (simp add: restored_def)

lemma released: "charged_on b owner share c' b' \<Longrightarrow> held_nonneg b \<Longrightarrow> restored b (release c' b')"
  using release_charged by (auto simp: restored_def)

lemma wp_gate_policy:
  assumes "\<And>ans w'. untouched w w' \<Longrightarrow> an_status ans \<in> {403, 429, 500} \<Longrightarrow>
      (an_status ans = 403 \<longleftrightarrow> \<not> listing_filter g gr (in_force g gr w) (w_mem w) requested) \<Longrightarrow>
      Q (Inr (Refused ans, release c b)) w'"
    and "\<And>w'. listing_filter g gr (in_force g gr w) (w_mem w) requested \<Longrightarrow> spend_passed g gr p requested e w w' \<Longrightarrow>
      Q (Inr (Passed req (Some (p, source)) (Some c), b)) w'"
  shows "wp (gate_policy g req requested p gr source c b) e w Q"
proof -
  obtain model provs where r: "routed (providers_for (gt_registry g)) requested = (model, provs)" by fastforce
  have adm: "admits (g_policy gr) (providers_for (gt_registry g)) requested \<longleftrightarrow> covers (g_policy gr) model provs"
    by (simp add: admits_def r)
  show ?thesis
  proof (cases "covers (g_policy gr) model provs")
    case False
    then show ?thesis
      using adm by (auto simp: gate_policy_def r wp_simps abort_with_def listing_filter_def intro!: assms(1))
  next
    case True
    have "wp (admit_spend g gr p requested model) e w (\<lambda>r w'. wp (case projr r of
          Some ans \<Rightarrow> ret (Refused ans, release c b)
        | None \<Rightarrow> ret (Passed req (Some (p, source)) (Some c), b)) e w' Q \<and> isl r = False)"
      using adm True
      by (intro wp_admit_spend)
        (auto simp: wp_simps listing_filter_def spend_passed_def Let_def intro!: assms split: if_splits)
    then have "wp (admit_spend g gr p requested model) e w (\<lambda>r w'. case r of Inl x \<Rightarrow> Q (Inl x) w'
        | Inr r \<Rightarrow> wp (case r of
          Some ans \<Rightarrow> ret (Refused ans, release c b)
        | None \<Rightarrow> ret (Passed req (Some (p, source)) (Some c), b)) e w' Q)"
      by (rule wp_mono) (auto split: sum.splits)
    then show ?thesis using True by (simp add: gate_policy_def r wp_bnd)
  qed
qed

text \<open>The request a model route hands on: the body read whole, decoded, naming one model.\<close>

definition model_request :: "gate \<Rightarrow> route \<Rightarrow> request \<Rightarrow> request \<Rightarrow> string \<Rightarrow> bool" where
  "model_request g rt req req' requested \<longleftrightarrow>
     (let (encoding, encoded) = content_encoding req in
      \<exists>body. delivered (gt_zstd g) encoding encoded (sent_body req) body \<and> int (length (sent_body req)) \<le> body_limit_for rt req
        \<and> req' = with_body encoded body req \<and> model_of (gt_parsers g) (rt_model rt) req' body = Some requested)"

lemma charge_new: "bc_n (new_charge whole owner most) = 0" "bc_owner (new_charge whole owner most) = owner"
  by (simp_all add: new_charge_def)

lemma body_limit_nonneg: "0 \<le> body_limit_for (classify verb pattern) req"
proof -
  have "\<forall>(k, rt) \<in> set routes. 0 \<le> rt_max_body rt \<and> 0 \<le> rt_max_multipart rt"
    by (simp add: routes_def denied_def public_route_def listing_route_def model_route_def max_json_body_def max_multipart_body_def)
  then have "0 \<le> rt_max_body rt \<and> 0 \<le> rt_max_multipart rt" if "map_of routes k = Some rt" for k rt
    using map_of_SomeD [OF that] by blast
  then show ?thesis by (auto simp: body_limit_for_def classify_def denied_def split: option.splits)
qed

lemma wp_gate_model:
  assumes nn: "held_nonneg b" "\<And>n. 0 \<le> zs_cap (gt_zstd g) n" "0 \<le> body_limit_for rt req"
    and enc: "content_encoding req = (encoding, encoded)"
    and refused: "\<And>ans b' w'. untouched w w' \<Longrightarrow> restored b b' \<Longrightarrow> Q (Inr (Refused ans, b')) w'"
    and passed: "\<And>req' requested c b' w'. model_request g rt req req' requested \<Longrightarrow>
      listing_filter g gr (in_force g gr w) (w_mem w) requested \<Longrightarrow> spend_passed g gr p requested e w w' \<Longrightarrow>
      bc_owner c = p_user p \<Longrightarrow> restored b (release c b') \<Longrightarrow> Q (Inr (Passed req' (Some (p, source)) (Some c), b')) w'"
  shows "wp (gate_model g rt req encoding encoded p gr source b) e w Q"
proof -
  let ?c = "new_charge (gt_whole g) (p_user p) (body_charge_ceiling (body_limit_for rt req) encoded)"
  obtain res c' b' where rc: "receive_body (gt_grants g) (gt_whole g) (gt_zstd g) req (body_limit_for rt req) encoding encoded ?c b
      = Some (res, c', b')"
    and ch: "charged_on b (p_user p) (bc_share ?c) c' b'"
    and res: "case res of Inl ans \<Rightarrow> an_status ans \<in> {400, 408, 413, 429, 500, 503} \<and> an_observed ans = None
       | Inr (req', body) \<Rightarrow> delivered (gt_zstd g) encoding encoded (sent_body req) body
           \<and> int (length (sent_body req)) \<le> body_limit_for rt req \<and> req' = with_body encoded body req"
    using receive_body_spec [OF nn(1) charge_new(1) nn(3,2), of "gt_grants g" "gt_whole g" req encoding encoded
        "gt_whole g" "p_user p" "body_charge_ceiling (body_limit_for rt req) encoded"]
    unfolding charge_new by blast
  have rel: "restored b (release c' b')" by (rule released [OF ch nn(1)])
  show ?thesis
  proof (cases res)
    case (Inl ans)
    then show ?thesis using rel by (simp add: gate_model_def Let_def rc wp_simps refused)
  next
    case (Inr rb)
    obtain req' body where rb: "rb = (req', body)" by fastforce
    show ?thesis
    proof (cases "model_of (gt_parsers g) (rt_model rt) req' body")
      case None
      then show ?thesis using rel by (simp add: gate_model_def Let_def rc Inr rb wp_simps refused)
    next
      case (Some requested)
      have "model_request g rt req req' requested"
        using res Some by (auto simp: model_request_def enc Inr rb)
      then have "wp (gate_policy g req' requested p gr source c' b') e w Q"
        using rel ch by (intro wp_gate_policy) (auto simp: charged_on_def intro: refused passed)
      then show ?thesis by (simp add: gate_model_def Let_def rc Inr rb Some)
    qed
  qed
qed

lemma untouched_cong:
  assumes "untouched w v"
  shows "spend_passed g gr p requested e v w' = spend_passed g gr p requested e w w'" and "in_force g gr v = in_force g gr w"
    and "w_db v = w_db w" and "w_mem v = w_mem w"
  using assms by (auto simp: spend_passed_def in_force_def untouched_def)

definition gate_post :: "gate \<Rightarrow> request \<Rightarrow> budget \<Rightarrow> env \<Rightarrow> world \<Rightarrow> outcome \<Rightarrow> budget \<Rightarrow> world \<Rightarrow> bool" where
  "gate_post g req b e w out b' w' \<longleftrightarrow>
     (let rt = classify (rq_method req) (rq_pattern req); cs = credential_candidates (if rt_kind rt = RouteModel then req else no_body req) in
      case out of
        Refused ans \<Rightarrow> untouched w w' \<and> restored b b'
      | Passed req' None ch \<Rightarrow> rt_kind rt = RoutePublic \<and> ch = None \<and> req' = no_body req \<and> untouched w w' \<and> b' = b
      | Passed req' (Some (p, source)) ch \<Rightarrow> rt_kind rt = RouteModel
          \<and> (\<exists>gr requested c. ch = Some c \<and> authenticated_by e (w_db w) cs p gr source \<and> model_request g rt req req' requested
               \<and> listing_filter g gr (in_force g gr w) (w_mem w) requested \<and> spend_passed g gr p requested e w w'
               \<and> (snd (content_encoding req) \<longrightarrow> decodes_body rt req) \<and> bc_owner c = p_user p \<and> restored b (release c b'))
      | Listing l req' (p, source) filt \<Rightarrow> rt_kind rt = RouteListing \<and> l = rt_listing rt \<and> req' = no_body req \<and> untouched w w' \<and> b' = b
          \<and> (\<exists>gr. authenticated_by e (w_db w) cs p gr source \<and> filt = listing_filter g gr (in_force g gr w))
      | Stuck \<Rightarrow> False)"

lemma wp_policy_gate:
  assumes nn: "held_nonneg b" "\<And>n. 0 \<le> zs_cap (gt_zstd g) n"
  shows "wp (policy_gate g req b) e w (\<lambda>r w'. \<exists>out b'. r = Inr (out, b') \<and> gate_post g req b e w out b' w')"
proof -
  define rt where "rt = classify (rq_method req) (rq_pattern req)"
  obtain encoding encoded where enc: "content_encoding req = (encoding, encoded)" by fastforce
  define req1 where "req1 = (if rt_kind rt \<noteq> RouteModel then no_body req else req)"
  let ?Q = "\<lambda>r w'. \<exists>out b'. r = Inr (out, b') \<and> gate_post g req b e w out b' w'"
  have refused: "?Q (Inr (Refused ans, b')) w'" if "untouched w w'" "restored b b'" for ans b' w'
    using that by (simp add: gate_post_def Let_def)
  show ?thesis
  proof (cases "rt_kind rt = RouteDenied \<or> encoded \<and> \<not> (rt_kind rt = RouteModel \<and> decodes_body rt req)")
    case True
    then have "\<exists>ans. policy_gate g req b = ret (Refused ans, b)"
      unfolding policy_gate_def Let_def rt_def [symmetric] enc prod.case by (cases "rt_kind rt = RouteDenied") auto
    then obtain ans where "policy_gate g req b = ret (Refused ans, b)" by blast
    then show ?thesis using refused [of w b ans] by (simp add: wp_ret)
  next
    case False
    then have "rt_kind rt \<noteq> RouteDenied" and dec: "\<not> (encoded \<and> \<not> (rt_kind rt = RouteModel \<and> decodes_body rt req))" by blast+
    then have eq: "policy_gate g req b =
        (if rt_kind rt = RoutePublic then ret (Passed req1 None None, b)
         else bnd (authenticate req1) (\<lambda>r.
            case r of
              Inl x \<Rightarrow> ret (Refused (refuse_authentication g x), b)
            | Inr (p, gr, source) \<Rightarrow>
                if rt_kind rt = RouteListing then
                  bnd (effective_set g (g_limits gr)) (\<lambda>set'.
                  ret (Listing (rt_listing rt) req1 (p, source) (listing_filter g gr set'), b))
                else gate_model g rt req1 encoding encoded p gr source b))"
      unfolding policy_gate_def Let_def rt_def [symmetric] enc prod.case req1_def [symmetric] by simp
    show ?thesis
    proof (cases "rt_kind rt = RoutePublic")
      case True
      then show ?thesis by (simp add: eq wp_simps gate_post_def Let_def rt_def [symmetric] req1_def)
    next
      case False
      have cs: "credential_candidates req1 = credential_candidates (if rt_kind rt = RouteModel then req else no_body req)"
        by (simp add: req1_def)
      have listed: "wp (bnd (effective_set g (g_limits gr)) (\<lambda>set'.
            ret (Listing (rt_listing rt) req1 (p, source) (listing_filter g gr set'), b))) e v ?Q"
        if "rt_kind rt = RouteListing" "authenticated_by e (w_db w) (credential_candidates req1) p gr source" "untouched w v" for p gr source v
        using that untouched_cong [OF that(3)]
        by (auto simp: wp_bnd wp_effective_set wp_ret gate_post_def Let_def rt_def [symmetric] req1_def)
      have modelled: "wp (gate_model g rt req1 encoding encoded p gr source b) e v ?Q"
        if "rt_kind rt \<noteq> RouteListing" "authenticated_by e (w_db w) (credential_candidates req1) p gr source" "untouched w v" for p gr source v
      proof -
        have kind: "rt_kind rt = RouteModel" using that(1) False \<open>rt_kind rt \<noteq> RouteDenied\<close> by (cases "rt_kind rt") auto
        then have req1: "req1 = req" by (simp add: req1_def)
        show ?thesis
        proof (unfold req1, rule wp_gate_model [OF nn _ enc])
          show "0 \<le> body_limit_for rt req" by (simp add: rt_def body_limit_nonneg)
        next
          fix ans b' w' assume "untouched v w'" "restored b b'"
          then show "?Q (Inr (Refused ans, b')) w'" using refused untouched_trans [OF that(3)] by blast
        next
          fix req' requested c b' w'
          assume "model_request g rt req req' requested" "listing_filter g gr (in_force g gr v) (w_mem v) requested"
            "spend_passed g gr p requested e v w'" "bc_owner c = p_user p" "restored b (release c b')"
          then show "?Q (Inr (Passed req' (Some (p, source)) (Some c), b')) w'"
            using kind that(2) dec unfolding untouched_cong [OF that(3)]
            by (auto simp: gate_post_def Let_def rt_def [symmetric] req1 enc)
        qed
      qed
      have "wp (authenticate req1) e w (\<lambda>r w'. case r of Inl x \<Rightarrow> ?Q (Inl x) w'
          | Inr r \<Rightarrow> wp (case r of
              Inl x \<Rightarrow> ret (Refused (refuse_authentication g x), b)
            | Inr (p, gr, source) \<Rightarrow>
                if rt_kind rt = RouteListing then
                  bnd (effective_set g (g_limits gr)) (\<lambda>set'.
                  ret (Listing (rt_listing rt) req1 (p, source) (listing_filter g gr set'), b))
                else gate_model g rt req1 encoding encoded p gr source b) e w' ?Q)"
        by (rule wp_authenticate) (use listed modelled refused in \<open>auto simp: wp_ret\<close>)
      then show ?thesis using False by (simp add: eq wp_bnd)
    qed
  qed
qed

lemma policy_gate_post:
  assumes "held_nonneg b" "\<And>n. 0 \<le> zs_cap (gt_zstd g) n" "policy_gate g req b e w = (r, w')"
  shows "\<exists>out b'. r = Inr (out, b') \<and> gate_post g req b e w out b' w'"
  by (rule wp_run [OF wp_policy_gate [OF assms(1,2)] assms(3)])

lemma with_body_identity: "snd (content_encoding (with_body (snd (content_encoding req)) body req)) = False"
proof (cases "snd (content_encoding req)")
  case True
  then show ?thesis by (simp add: with_body_def set_body_identity)
next
  case False
  moreover have "content_encoding (req\<lparr>rq_content := Some body\<rparr>) = content_encoding req"
    by (simp add: content_encoding_def header_values_def)
  ultimately show ?thesis by (simp add: with_body_def)
qed

lemma no_body_candidates [simp]: "credential_candidates (no_body req) = credential_candidates req"
proof -
  have "header (no_body req) h = header req h" if "h \<noteq> ''Content-Length''" "h \<noteq> ''Content-Encoding''" for h
    using that by (simp add: header_def header_values_def no_body_def set_body_def update_conv' delete_conv')
  moreover have "query_first (no_body req) k = query_first req k" for k
    by (simp add: query_first_def no_body_def set_body_def)
  ultimately show ?thesis by (simp add: credential_candidates_def presented_def)
qed

text \<open>C1: what reaches upstream. A request is passed on only on a route listed as public, without a body
  and without a principal, or on a model route. There one of the credentials it presents is the secret of a live key of an account that may use the API; the body was read
  whole within the route's limit and decoded, so none leaves with a content coding; it names exactly
  one model, which the account's policy admits on every provider serving it; and where spend limits
  are in force that model has a price on each of them and no window is exhausted, every rule's
  window being open afterwards.\<close>

theorem gate_admits:
  assumes "policy_gate g req b e w = (Inr (Passed req' who ch, b'), w')" and "held_nonneg b" and "\<And>n. 0 \<le> zs_cap (gt_zstd g) n"
  shows "snd (content_encoding req') = False \<and> (case who of
      None \<Rightarrow> rt_kind (classify (rq_method req) (rq_pattern req)) = RoutePublic \<and> req' = no_body req \<and> w_db w' = w_db w
    | Some (p, source) \<Rightarrow> rt_kind (classify (rq_method req) (rq_pattern req)) = RouteModel
        \<and> (\<exists>gr requested model. authenticated_by e (w_db w) (credential_candidates req) p gr source
             \<and> model_request g (classify (rq_method req) (rq_pattern req)) req req' requested
             \<and> routed (providers_for (gt_registry g)) requested = (model, providers_for (gt_registry g) model)
             \<and> providers_for (gt_registry g) model \<noteq> []
             \<and> (\<forall>prov \<in> set (providers_for (gt_registry g) model). \<exists>r \<in> set (g_policy gr). rule_matches r prov model)
             \<and> spend_passed g gr p requested e w w'))"
proof -
  have post: "gate_post g req b e w (Passed req' who ch) b' w'"
    using policy_gate_post [OF assms(2,3,1)] by auto
  show ?thesis
  proof (cases who)
    case None
    then show ?thesis using post by (auto simp: gate_post_def Let_def no_body_identity untouched_def)
  next
    case (Some ps)
    obtain p source where ps: "ps = (p, source)" by fastforce
    obtain gr requested where kind: "rt_kind (classify (rq_method req) (rq_pattern req)) = RouteModel"
      and by': "authenticated_by e (w_db w) (credential_candidates req) p gr source"
      and mr: "model_request g (classify (rq_method req) (rq_pattern req)) req req' requested"
      and lf: "listing_filter g gr (in_force g gr w) (w_mem w) requested" and sp: "spend_passed g gr p requested e w w'"
      using post by (auto simp: gate_post_def Let_def Some ps)
    obtain model provs where r: "routed (providers_for (gt_registry g)) requested = (model, provs)" by fastforce
    have "covers (g_policy gr) model provs" using lf by (simp add: listing_filter_def admits_def r)
    then have c: "provs \<noteq> []" "\<forall>prov \<in> set provs. \<exists>r \<in> set (g_policy gr). rule_matches r prov model"
      by (auto simp: covers_iff allows_iff)
    moreover have "provs = providers_for (gt_registry g) model" by (rule routed_catalog [OF r c(1)])
    moreover have "snd (content_encoding req') = False"
      using mr with_body_identity by (auto simp: model_request_def split: prod.splits) (metis snd_conv)
    ultimately show ?thesis using kind by' mr sp r unfolding Some ps by auto
  qed
qed

text \<open>C2: what the gate leaves behind. Every request is decided, whatever its sender and the database do. One
  that is refused, at whatever step, or that only lists models, has changed no table and no setting, opens
  no window, and nothing stays charged to the budget or to its account; of one passed on nothing
  stays charged once its handler has returned.\<close>

theorem gate_leaves_nothing:
  assumes "policy_gate g req b e w = (r, w')" and "held_nonneg b" and "\<And>n. 0 \<le> zs_cap (gt_zstd g) n"
  shows "\<exists>out b'. r = Inr (out, b') \<and> out \<noteq> Stuck \<and> w_mem w' = w_mem w \<and> restored b (after_handler out b')
    \<and> ((\<forall>req' who ch. out = Passed req' (Some who) ch \<longrightarrow> False) \<longrightarrow> w_db w' = w_db w)
    \<and> (rt_kind (classify (rq_method req) (rq_pattern req)) = RouteDenied \<longrightarrow> (\<exists>ans. out = Refused ans))"
proof -
  obtain out b' where r: "r = Inr (out, b')" and post: "gate_post g req b e w out b' w'"
    using policy_gate_post [OF assms(2,3,1)] by blast
  show ?thesis
    using post unfolding r
    by (cases out)
      (auto simp: gate_post_def Let_def untouched_def after_handler_def spend_passed_def split: option.splits prod.splits)
qed

text \<open>C3: a listing names exactly the models the gate would let the account request. Asked about a name,
  the filter of a listing answers yes when and only when a request for that name by the same account
  is not forbidden, spend limits and prices included.\<close>

theorem listing_agrees:
  assumes "gate_policy g req requested p gr source c b e w = (r, w')"
  shows "listing_filter g gr (in_force g gr w) (w_mem w) requested
    \<longleftrightarrow> \<not> (\<exists>ans b'. r = Inr (Refused ans, b') \<and> an_status ans = 403)"
proof -
  have "wp (gate_policy g req requested p gr source c b) e w (\<lambda>r w'.
      listing_filter g gr (in_force g gr w) (w_mem w) requested \<longleftrightarrow> \<not> (\<exists>ans b'. r = Inr (Refused ans, b') \<and> an_status ans = 403))"
    by (rule wp_gate_policy) auto
  then show ?thesis using assms by (rule wp_run)
qed

section \<open>Witnesses\<close>

definition example_request :: request where
  "example_request = \<lparr>rq_method = ''POST'', rq_pattern = ''/v1/chat/completions'',
     rq_headers = [(''Authorization'', [''Bearer hash''])], rq_query = [], rq_action = [], rq_has_body = True, rq_length = 2,
     rq_conn = \<lparr>cn_pieces = [Piece ''{}'' (Some AtEnd)], cn_deadline = True, cn_late = False\<rparr>, rq_content = None\<rparr>"

definition example_gate :: gate where
  "example_gate = \<lparr>gt_registry = (\<lambda>m. if m = ''gpt-5'' then [''codex''] else []),
     gt_parsers = \<lparr>gj_valid = (\<lambda>_. True), gj_keys = (\<lambda>_. [''model'']), gj_string = (\<lambda>_ _. ''gpt-5''), gj_form = (\<lambda>_ _. None)\<rparr>,
     gt_zstd = \<lparr>zs_starts = (\<lambda>_ _. False), zs_output = (\<lambda>_ _. ([], ZEnd)), zs_cap = int\<rparr>,
     gt_grants = (\<lambda>whole used amount. used + amount \<le> whole), gt_whole = 100, gt_spend = None, gt_auth_status = (\<lambda>_. 401)\<rparr>"

lemma example_policy_allows: "admits (u_policy (example_user 2 kind_human ''ada@example.org'' role_user))
    (providers_for (gt_registry example_gate)) ''gpt-5''"
proof -
  have "admits [\<lparr>provider = ''chatgpt'', model_pattern = ''gpt-*'', compiled = Some (compile_glob ''gpt-*'')\<rparr>]
      (providers_for (\<lambda>m. if m = ''gpt-5'' then [''codex''] else [])) ''gpt-5''"
    by code_simp
  then show ?thesis by (simp add: example_user_def example_gate_def)
qed

lemma example_received:
  "\<exists>c b'. receive_body (gt_grants example_gate) 100 (gt_zstd example_gate) example_request max_json_body [] False
     (new_charge 100 2 max_json_body) idle_budget = Some (Inr (example_request\<lparr>rq_content := Some ''{}''\<rparr>, ''{}''), c, b')"
  by (simp add: receive_body_def example_request_def body_length_def max_json_body_def buffer_body_def initial_body_buffer_def
      example_gate_def idle_budget_def new_charge_def grow_def take_share_def held_by_def open_reader_def read_loop.simps
      make_room_def fill_def read_limited_def decode_received_def answer_received_def body_answer_def with_body_def Let_def)

text \<open>A request of that account passes, under whatever limits let it spend.\<close>

lemma example_passes_under:
  fixes w :: world and sp :: "bool option"
  defines "u \<equiv> example_user 2 kind_human ''ada@example.org'' role_user" and "g \<equiv> example_gate\<lparr>gt_spend := sp\<rparr>"
  assumes db: "w_db w = example_db"
    and spend: "\<And>v model. w_db v = example_db \<Longrightarrow> w_mem v = w_mem w \<Longrightarrow>
      wp (admit_spend g (snd (resolved example_token u)) (fst (resolved example_token u)) ''gpt-5'' model) example_env v (\<lambda>r w'. r = Inr None)"
  shows "\<exists>req' who ch b' w'. policy_gate g example_request idle_budget example_env w = (Inr (Passed req' (Some who) ch, b'), w')"
proof -
  have g: "gt_registry g = gt_registry example_gate" "gt_parsers g = gt_parsers example_gate" "gt_zstd g = gt_zstd example_gate"
    "gt_grants g = gt_grants example_gate" "gt_whole g = 100" by (simp_all add: g_def example_gate_def)
  let ?Q = "\<lambda>r w'. \<exists>req' who ch b'. r = Inr (Passed req' (Some who) ch, b')"
  have route: "classify (rq_method example_request) (rq_pattern example_request) = model_route BodyModel AlwaysDecodes"
    by (simp add: classify_def example_request_def routes_def)
  have enc: "content_encoding example_request = ([], False)"
    by (simp add: content_encoding_def header_values_def example_request_def)
  have cs: "credential_candidates example_request = [(''hash'', ''authorization'')]"
  proof -
    have "bearer_token ''Bearer hash'' = ''hash''" by code_simp
    then show ?thesis
      by (simp add: credential_candidates_def presented_def header_def header_values_def query_first_def first_value_def example_request_def
          bearer_token_def [of "[]"] cut_def)
  qed
  have auth: "authenticates example_env (w_db w) ''hash'' example_token u"
    using example_users
    by (simp add: u_def db authenticates_def example_env_def example_db_def example_token_def can_use_api_def example_user_def)
  have resolved: "fst (resolve_token ''hash'' example_env w) = Inr (resolved example_token u)"
    by (rule resolve_token_works [OF auth]) (simp add: example_env_def)
  have "wp (resolve_token ''hash'') example_env w (\<lambda>r w'. w_db w' = w_db w \<and> w_mem w' = w_mem w)"
    by (auto simp: resolve_token_def not_found_refuses_def tokens_by_hash_def users_by_id_def wp_simps hash_secret_def split: sum.split)
  then have after: "w_db (snd (resolve_token ''hash'' example_env w)) = example_db" "w_mem (snd (resolve_token ''hash'' example_env w)) = w_mem w"
    using db by (auto simp: wp_def split: prod.splits)
  obtain c b' where rc: "receive_body (gt_grants example_gate) 100 (gt_zstd example_gate) example_request max_json_body [] False
     (new_charge 100 2 max_json_body) idle_budget = Some (Inr (example_request\<lparr>rq_content := Some ''{}''\<rparr>, ''{}''), c, b')"
    using example_received by blast
  have limit: "body_limit_for (model_route BodyModel AlwaysDecodes) example_request = max_json_body" "p_user (fst (resolved example_token u)) = 2" "body_charge_ceiling max_json_body False = max_json_body"
    by (simp_all add: u_def body_limit_for_def model_route_def denied_def resolved_def example_token_def body_charge_ceiling_def)
  have named: "model_of (gt_parsers example_gate) BodyModel req ''{}'' = Some ''gpt-5''" for req
  proof -
    have "trim_space ''gpt-5'' \<noteq> []" by code_simp
    then show ?thesis
      by (simp add: model_of_def json_model_def repeats_model_key_def example_gate_def equal_fold_ascii_def)
  qed
  have model: "wp (gate_model g (model_route BodyModel AlwaysDecodes) example_request [] False
      (fst (resolved example_token u)) (snd (resolved example_token u)) source idle_budget) example_env v ?Q"
    if v: "w_db v = example_db" "w_mem v = w_mem w" for source v
  proof -
    obtain mo provs where routes: "routed (providers_for (gt_registry g)) ''gpt-5'' = (mo, provs)" by fastforce
    have policy: "g_policy (snd (resolved example_token u)) = u_policy u" by (simp add: resolved_def)
    have "covers (u_policy u) mo provs" using example_policy_allows routes by (simp add: u_def admits_def g)
    then have "wp (gate_policy g (example_request\<lparr>rq_content := Some ''{}''\<rparr>) ''gpt-5'' (fst (resolved example_token u))
        (snd (resolved example_token u)) source c b') example_env v ?Q"
      by (simp add: gate_policy_def routes policy wp_bnd)
        (rule wp_mono [OF spend [OF v]], simp add: wp_simps)
    moreover have "rt_model (model_route BodyModel AlwaysDecodes) = BodyModel" by (simp add: model_route_def)
    ultimately show ?thesis unfolding gate_model_def Let_def limit g rc by (simp add: named)
  qed
  have "wp (policy_gate g example_request idle_budget) example_env w ?Q"
  proof -
    have kind: "rt_kind (model_route BodyModel AlwaysDecodes) = RouteModel" by (simp add: model_route_def)
    obtain p gr where pg: "resolved example_token u = (p, gr)" by fastforce
    have run: "wp (resolve_token ''hash'') example_env w R
        = R (Inr (p, gr)) (snd (resolve_token ''hash'' example_env w))" for R
      using resolved pg by (cases "resolve_token ''hash'' example_env w") (simp add: wp_def)
    show ?thesis
      using model [OF after] unfolding policy_gate_def Let_def route enc by (simp add: kind pg authenticate_def cs wp_simps run)
  qed
  then show ?thesis by (auto simp: wp_def split: prod.splits)
qed

lemma example_passes:
  "\<exists>req' who ch b' w'. policy_gate example_gate example_request idle_budget example_env example_world
     = (Inr (Passed req' (Some who) ch, b'), w')"
proof -
  have same: "example_gate\<lparr>gt_spend := None\<rparr> = example_gate" by (simp add: example_gate_def)
  have "wp (admit_spend example_gate gr p ''gpt-5'' model) example_env v (\<lambda>r w'. r = Inr None)" for gr p model v
    by (simp add: admit_spend_def effective_set_def example_gate_def wp_simps)
  then show ?thesis using example_passes_under [of example_world None] by (simp add: same example_world_def)
qed

lemma idle_nonneg: "held_nonneg idle_budget"
  by (simp add: held_nonneg_def idle_budget_def held_by_def)

lemma example_cap: "0 \<le> zs_cap (gt_zstd example_gate) n"
  by (simp add: example_gate_def)

theorem gate_admits_witness:
  "\<exists>req' p source ch b' w'. policy_gate example_gate example_request idle_budget example_env example_world
       = (Inr (Passed req' (Some (p, source)) ch, b'), w')
    \<and> snd (content_encoding req') = False
    \<and> (\<exists>gr. authenticated_by example_env example_db (credential_candidates example_request) p gr source)"
proof -
  obtain req' p source ch b' w' where run: "policy_gate example_gate example_request idle_budget example_env example_world
       = (Inr (Passed req' (Some (p, source)) ch, b'), w')" using example_passes by auto
  have "w_db example_world = example_db" by (simp add: example_world_def)
  then show ?thesis using gate_admits [OF run idle_nonneg example_cap] run by auto
qed

theorem gate_leaves_nothing_witness:
  "\<exists>r w'. policy_gate example_gate example_request idle_budget example_env example_world = (r, w') \<and> w_mem w' = example_mem"
proof -
  obtain r w' where run: "policy_gate example_gate example_request idle_budget example_env example_world = (r, w')" by fastforce
  have "w_mem example_world = example_mem" by (simp add: example_world_def)
  then show ?thesis using gate_leaves_nothing [OF run idle_nonneg example_cap] run by auto
qed

theorem listing_agrees_witness:
  "\<exists>r w'. gate_policy example_gate example_request ''opus'' \<lparr>p_user = 2, p_token = 50, p_owner = ''ada''\<rparr>
      \<lparr>g_policy = u_policy (example_user 2 kind_human ''ada@example.org'' role_user), g_limits = None\<rparr> ''authorization''
      (new_charge 100 2 10) idle_budget example_env example_world = (r, w')
    \<and> (\<exists>ans b'. r = Inr (Refused ans, b') \<and> an_status ans = 403)"
proof -
  let ?gr = "\<lparr>g_policy = u_policy (example_user 2 kind_human ''ada@example.org'' role_user), g_limits = None\<rparr>"
  obtain r w' where run: "gate_policy example_gate example_request ''opus'' \<lparr>p_user = 2, p_token = 50, p_owner = ''ada''\<rparr>
      ?gr ''authorization'' (new_charge 100 2 10) idle_budget example_env example_world = (r, w')" by fastforce
  have "\<not> admits p (providers_for (\<lambda>m. if m = ''gpt-5'' then [''codex''] else [])) ''opus''" for p
  proof -
    have "routed (providers_for (\<lambda>m. if m = ''gpt-5'' then [''codex''] else [])) ''opus'' = (''opus'', [])" by code_simp
    then show ?thesis by (simp add: admits_def covers_def)
  qed
  then have "\<not> listing_filter example_gate ?gr (in_force example_gate ?gr example_world) (w_mem example_world) ''opus''"
    by (simp add: listing_filter_def example_gate_def)
  then show ?thesis using listing_agrees [OF run] run by blast
qed

end
