(* ===== verification/Prices.thy ===== *)
theory Prices
  imports Catalog Tokens
begin

text \<open>
  \<open>internal/app/prices\<close>: the price list usage is priced from, the catalogue's prices with the
  administrator's overrides on top. Both lists and the state of the catalogue's checks are in the
  database and in memory; the effective list is the sink's table. The mutex and the token that lets
  one check run at a time have nothing to do where a call is one sequence of steps; whether a
  request has been cancelled is asked of the environment. The ticker of \<open>RunCatalog\<close> is not modelled.
\<close>

section \<open>Lists\<close>

datatype price_source = FromCatalog | Manual

record price_entry =
  pe_price :: model_price
  pe_source :: price_source
  pe_catalog :: "model_price option"

record catalog_status =
  st_enabled :: bool
  st_checked :: instant
  st_changed :: instant
  st_models :: nat
  st_last_error :: string

record price_list =
  pl_prices :: "price_entry list"
  pl_status :: catalog_status

definition catalog_entry :: "model_price \<Rightarrow> price_entry" where
  "catalog_entry p = \<lparr>pe_price = p, pe_source = FromCatalog, pe_catalog = None\<rparr>"

definition entry_key :: "price_entry \<Rightarrow> price_key" where
  "entry_key en = price_key (pe_price en)"

text \<open>A Go map from a price's key to its index, filled in order.\<close>

definition indexes :: "model_price list \<Rightarrow> (price_key \<times> nat) list" where
  "indexes ps = fold (\<lambda>i m. AList.update (price_key (ps ! i)) i m) [0..<length ps] []"

fun override :: "(price_key \<times> nat) list \<Rightarrow> price_entry list \<Rightarrow> model_price list \<Rightarrow> price_entry list" where
  "override spots out [] = out"
| "override spots out (m # ms) =
     (case map_of spots (price_key m) of
        Some i \<Rightarrow> override spots (out[i := \<lparr>pe_price = m, pe_source = Manual, pe_catalog = Some (pe_price (out ! i))\<rparr>]) ms
      | None \<Rightarrow> override spots (out @ [\<lparr>pe_price = m, pe_source = Manual, pe_catalog = None\<rparr>]) ms)"

definition price_entries :: "mem \<Rightarrow> price_entry list" where
  "price_entries m = sort_key entry_key (override (indexes (m_catalog m)) (map catalog_entry (m_catalog m)) (m_manual m))"

definition publish :: "mem \<Rightarrow> mem" where
  "publish m = set_prices (map pe_price (price_entries m)) m"

definition list_of :: "string option \<Rightarrow> mem \<Rightarrow> price_list" where
  "list_of source m =
     \<lparr>pl_prices = price_entries m,
      pl_status =
        (if source \<noteq> None
         then \<lparr>st_enabled = True, st_checked = cs_checked (m_state m), st_changed = cs_changed (m_state m),
               st_models = length (m_catalog m), st_last_error = cs_last_error (m_state m)\<rparr>
         else \<lparr>st_enabled = False, st_checked = zero_time, st_changed = zero_time, st_models = 0, st_last_error = []\<rparr>)\<rparr>"

section \<open>Validation\<close>

definition bad_rate :: "f64 \<Rightarrow> bool" where
  "bad_rate v \<longleftrightarrow> f64_lt v (Fin 0) \<or> f64_is_nan v \<or> f64_is_inf v"

definition price_field :: "nat \<Rightarrow> string \<Rightarrow> string" where
  "price_field i name = ''['' @ format_int (int i) @ ''].'' @ name"

fun validate_prices_from :: "nat \<Rightarrow> price_key list \<Rightarrow> model_price list \<Rightarrow> unit result" where
  "validate_prices_from i seen [] = Inr ()"
| "validate_prices_from i seen (p # ps) =
     (if trim_space (mp_provider p) = [] then Inl (EInvalidInput (price_field i ''provider''))
      else if trim_space (mp_model p) = [] then Inl (EInvalidInput (price_field i ''model''))
      else if bad_rate (mp_input p) then Inl (EInvalidInput (price_field i ''input''))
      else if bad_rate (mp_output p) then Inl (EInvalidInput (price_field i ''output''))
      else if bad_rate (mp_cache_read p) then Inl (EInvalidInput (price_field i ''cacheRead''))
      else if bad_rate (mp_cache_write p) then Inl (EInvalidInput (price_field i ''cacheWrite''))
      else if price_key p \<in> set seen then Inl (EInvalidInput (''['' @ format_int (int i) @ '']''))
      else validate_prices_from (i + 1) (price_key p # seen) ps)"

definition validate_prices :: "model_price list \<Rightarrow> unit result" where
  "validate_prices ps = validate_prices_from 0 [] ps"

text \<open>The reason a fetched list is refused, as the failure's text.\<close>

definition accept_catalog :: "model_price list \<Rightarrow> string option" where
  "accept_catalog ps =
     (if ps = [] then Some ''the catalog has no price for any of our providers''
      else if \<not> list_ex (\<lambda>p. f64_lt (Fin 0) (mp_input p) \<or> f64_lt (Fin 0) (mp_output p)) ps
      then Some ''the catalog prices every model at zero''
      else case validate_prices ps of
        Inl (EInvalidInput field) \<Rightarrow> Some (''the catalog carries an invalid price ('' @ field @ '')'')
      | Inl _ \<Rightarrow> Some []
      | Inr _ \<Rightarrow> None)"

definition max_catalog_error :: nat where "max_catalog_error = 200"

text \<open>Where the text may be cut: the greatest rune start that is not past the bound.\<close>

fun rune_cut :: "string \<Rightarrow> nat \<Rightarrow> nat" where
  "rune_cut s 0 = 0"
| "rune_cut s (Suc n) = (if cont (s ! Suc n) then rune_cut s n else Suc n)"

definition clip :: "string \<Rightarrow> string" where
  "clip s = (if length s \<le> max_catalog_error then s else take (rune_cut s max_catalog_error) s)"

definition same_rates :: "model_price list \<Rightarrow> model_price list \<Rightarrow> bool" where
  "same_rates left' right' \<longleftrightarrow>
     (if length left' \<noteq> length right' then False
      else
        let by_key = fold (\<lambda>p m. AList.update (price_key p) p m) left' [] in
        list_all (\<lambda>p. case map_of by_key (price_key p) of None \<Rightarrow> False | Some old \<Rightarrow> same_rate old p) right')"

section \<open>The service\<close>

definition prices_load :: "unit io" where
  "prices_load =
     bnd prices_list (\<lambda>manual.
     bnd (asks fingerprint) (\<lambda>source.
     bnd (case source of
            None \<Rightarrow> ret ([], zero_state)
          | Some _ \<Rightarrow>
              bnd catalog_list (\<lambda>cat.
              bnd catalog_get_state (\<lambda>state.
              bnd (poke (\<lambda>m. m\<lparr>m_models := length cat\<rparr>)) (\<lambda>_.
              ret (cat, state))))) (\<lambda>(cat, state).
     poke (\<lambda>m. publish (m\<lparr>m_manual := manual, m_catalog := cat, m_state := state\<rparr>)))))"

definition prices_get :: "user \<Rightarrow> price_list io" where
  "prices_get actor =
     bnd (lift (require_admin actor)) (\<lambda>_.
     bnd (asks fingerprint) (\<lambda>source.
     peek (list_of source)))"

definition price_event :: "instant \<Rightarrow> user \<Rightarrow> string \<Rightarrow> string \<Rightarrow> (string \<times> json) list \<Rightarrow> audit_event" where
  "price_event when' actor action target detail = \<lparr>ae_at = when', ae_actor = u_id actor, ae_action = action, ae_target = target,
     ae_detail = detail, ae_ip = [], ae_agent = []\<rparr>"

definition prices_submit :: "user \<Rightarrow> model_price list \<Rightarrow> price_list io" where
  "prices_submit actor ps =
     bnd (lift (require_admin actor)) (\<lambda>_.
     bnd (lift (validate_prices ps)) (\<lambda>_.
     bnd now_io (\<lambda>now.
     bnd (prices_replace ps now) (\<lambda>_.
     bnd (poke (\<lambda>m. publish (m\<lparr>m_manual := ps\<rparr>))) (\<lambda>_.
     bnd prices_list (\<lambda>stored.
     bnd (poke (\<lambda>m. m\<lparr>m_manual := stored\<rparr>)) (\<lambda>_.
     bnd (audit_record (price_event now actor ''prices.replace'' ''model_prices''
            [(''count'', JNum (of_nat (length ps)))])) (\<lambda>_.
     bnd (asks fingerprint) (\<lambda>source.
     peek (list_of source))))))))))"

section \<open>Checks of the catalogue\<close>

datatype check_outcome = Changed | Unchanged | Failed

record check_result =
  cr_outcome :: check_outcome
  cr_models :: nat
  cr_failure :: string

text \<open>Whether the context has ended by now.\<close>

definition stopped_io :: "bool io" where
  "stopped_io = (\<lambda>e w. (Inr (fault e (w_tick w)), tick w))"

definition fetch_io :: "string \<Rightarrow> string \<Rightarrow> (string + catalog_fetch) io" where
  "fetch_io etag modified = (\<lambda>e w. (Inr (fetch_catalog e (w_tick w) etag modified), tick w))"

definition record_failure :: "string \<Rightarrow> check_result io" where
  "record_failure why =
     (let why = clip why in
      bnd (poke (\<lambda>m. m\<lparr>m_failures := m_failures m + 1, m_state := (m_state m)\<lparr>cs_last_error := why\<rparr>\<rparr>)) (\<lambda>_.
      bnd (peek (\<lambda>m. \<lparr>cr_outcome = Failed, cr_models = length (m_catalog m), cr_failure = why\<rparr>)) (\<lambda>res.
      bnd (warn ''price catalog check failed; catalog prices in force are kept'') (\<lambda>_.
      bnd (peek m_state) (\<lambda>state.
      bnd (catalog_set_state state) (\<lambda>_.
      ret res))))))"

definition checked_state :: "string \<Rightarrow> catalog_fetch \<Rightarrow> instant \<Rightarrow> mem \<Rightarrow> catalog_state" where
  "checked_state source f now m =
     (let state = (m_state m)\<lparr>cs_checked := now, cs_last_error := []\<rparr> in
      if cf_unchanged f then state
      else state\<lparr>cs_etag := cf_etag f, cs_last_modified := cf_last_modified f, cs_fingerprint := source\<rparr>)"

definition record_success :: "string \<Rightarrow> catalog_fetch \<Rightarrow> check_result io" where
  "record_success source f =
     bnd now_io (\<lambda>now.
     bnd (peek (checked_state source f now)) (\<lambda>state.
     bnd (peek (\<lambda>m. \<not> cf_unchanged f \<and> \<not> same_rates (m_catalog m) (cf_prices f))) (\<lambda>changed.
     let state = (if changed then state\<lparr>cs_changed := now\<rparr> else state) in
     bnd (attempt (if changed then catalog_replace (cf_prices f) state now else catalog_set_state state)) (\<lambda>r.
     case r of
       Inl x \<Rightarrow>
         bnd stopped_io (\<lambda>stopped.
         if stopped then raise EFault
         else bnd (warn ''price catalog: storing the check failed'') (\<lambda>_. record_failure ''the catalog could not be stored''))
     | Inr _ \<Rightarrow>
         bnd (poke (\<lambda>m. m\<lparr>m_state := state\<rparr>)) (\<lambda>_.
         if \<not> changed then
           bnd (poke (\<lambda>m. m\<lparr>m_models := length (m_catalog m)\<rparr>)) (\<lambda>_.
           peek (\<lambda>m. \<lparr>cr_outcome = Unchanged, cr_models = length (m_catalog m), cr_failure = []\<rparr>))
         else
           bnd (poke (\<lambda>m. publish (m\<lparr>m_catalog := cf_prices f\<rparr>))) (\<lambda>_.
           bnd (poke (\<lambda>m. m\<lparr>m_models := length (cf_prices f)\<rparr>)) (\<lambda>_.
           bnd catalog_list (\<lambda>stored.
           bnd (poke (\<lambda>m. m\<lparr>m_catalog := stored\<rparr>)) (\<lambda>_.
           ret \<lparr>cr_outcome = Changed, cr_models = length (cf_prices f), cr_failure = []\<rparr>)))))))))"

definition since :: "string \<Rightarrow> mem \<Rightarrow> string \<times> string" where
  "since source m =
     (if cs_fingerprint (m_state m) \<noteq> source then ([], []) else (cs_etag (m_state m), cs_last_modified (m_state m)))"

text \<open>Why a fetch does not count, when it does not.\<close>

definition fetch_failure :: "string + catalog_fetch \<Rightarrow> string option" where
  "fetch_failure fetched =
     (case fetched of Inl why \<Rightarrow> Some why | Inr f \<Rightarrow> if cf_unchanged f then None else accept_catalog (cf_prices f))"

definition catalog_check :: "string \<Rightarrow> check_result io" where
  "catalog_check source =
     bnd stopped_io (\<lambda>stopped.
     if stopped then raise EFault
     else
       bnd (peek (since source)) (\<lambda>(etag, modified).
       bnd (fetch_io etag modified) (\<lambda>fetched.
       case fetch_failure fetched of
         Some why \<Rightarrow> bnd stopped_io (\<lambda>stopped. if stopped then raise EFault else record_failure why)
       | None \<Rightarrow> record_success source (projr fetched))))"

definition prices_refresh :: "user \<Rightarrow> price_list io" where
  "prices_refresh actor =
     bnd (lift (require_admin actor)) (\<lambda>_.
     bnd (asks fingerprint) (\<lambda>source.
     case source of
       None \<Rightarrow> raise ECatalogDisabled
     | Some fp \<Rightarrow>
         bnd (catalog_check fp) (\<lambda>res.
         bnd now_io (\<lambda>now.
         bnd (audit_record (price_event now actor ''prices.refresh'' ''price_catalog''
            ([(''outcome'', JStr (case cr_outcome res of Changed \<Rightarrow> ''changed'' | Unchanged \<Rightarrow> ''unchanged'' | Failed \<Rightarrow> ''failed'')),
              (''models'', JNum (of_nat (cr_models res)))]
             @ (if cr_failure res \<noteq> [] then [(''error'', JStr (cr_failure res))] else [])))) (\<lambda>_.
         peek (list_of source))))))"

text \<open>One round of \<open>RunCatalog\<close>.\<close>

definition catalog_round :: "unit io" where
  "catalog_round =
     bnd (asks fingerprint) (\<lambda>source.
     case source of
       None \<Rightarrow> ret ()
     | Some fp \<Rightarrow>
         bnd (attempt (catalog_check fp)) (\<lambda>r.
         case r of
           Inl x \<Rightarrow> bnd stopped_io (\<lambda>stopped. if stopped then ret () else warn ''price catalog check failed'')
         | Inr _ \<Rightarrow> ret ()))"

section \<open>Looking a price up\<close>

definition looked :: "model_price list \<Rightarrow> price_key \<Rightarrow> model_price option" where
  "looked ps k = find (\<lambda>p. price_key p = k) ps"

lemma looked_simps [simp]:
  "looked [] k = None"
  "looked (p # ps) k = (if price_key p = k then Some p else looked ps k)"
  by (simp_all add: looked_def)

lemma looked_append: "looked (ps @ qs) k = (case looked ps k of Some p \<Rightarrow> Some p | None \<Rightarrow> looked qs k)"
  by (induction ps) auto

lemma looked_None: "looked ps k = None \<longleftrightarrow> k \<notin> price_key ` set ps"
  by (induction ps) auto

lemma looked_SomeD: "looked ps k = Some p \<Longrightarrow> p \<in> set ps \<and> price_key p = k"
  by (induction ps) (auto split: if_splits)

lemma looked_unique: "prices_ok ps \<Longrightarrow> looked ps k = Some p \<longleftrightarrow> p \<in> set ps \<and> price_key p = k"
  unfolding prices_ok_def by (induction ps) auto

lemma looked_same:
  assumes "prices_ok ps" "prices_ok qs" "set ps = set qs"
  shows "looked ps = looked qs"
proof
  fix k
  show "looked ps k = looked qs k"
    using looked_unique [OF assms(1), of k] looked_unique [OF assms(2), of k] assms(3)
    by (cases "looked ps k"; cases "looked qs k") auto
qed

lemma prices_ok_Nil [simp]: "prices_ok []"
  by (simp add: prices_ok_def)

lemma prices_ok_sort [simp]: "prices_ok (sort_key f ps) = prices_ok ps"
  by (simp add: prices_ok_def distinct_map)

lemma looked_sort: "prices_ok ps \<Longrightarrow> looked (sort_key f ps) = looked ps"
  by (rule looked_same) auto

lemma prices_ok_rev [simp]: "prices_ok (rev ps) = prices_ok ps"
  by (simp add: prices_ok_def rev_map [symmetric])

lemma looked_rev: "prices_ok ps \<Longrightarrow> looked (rev ps) = looked ps"
  by (rule looked_same) auto

lemma price_of_looked: "prices_ok ps \<Longrightarrow> price_of (set_prices ps m) prov model = looked ps (prov, model)"
  using looked_rev [of ps] by (simp add: price_of_set looked_def price_key_def fun_eq_iff)

section \<open>The effective list\<close>

definition prices_of :: "price_entry list \<Rightarrow> model_price list" where
  "prices_of es = map pe_price es"

lemma map_of_indexes:
  assumes "prices_ok ps"
  shows "map_of (indexes ps) k = Some i \<longleftrightarrow> i < length ps \<and> price_key (ps ! i) = k"
proof -
  have step: "map_of (fold (\<lambda>i m. AList.update (price_key (ps ! i)) i m) [0..<n] []) k = Some i
      \<longleftrightarrow> i < n \<and> price_key (ps ! i) = k" if "n \<le> length ps" for n
    using that
  proof (induction n)
    case (Suc n)
    have "price_key (ps ! i) \<noteq> price_key (ps ! n)" if "i < n"
      using that Suc.prems assms by (auto simp: prices_ok_def distinct_conv_nth)
    then show ?case using Suc by (auto simp: update_conv less_Suc_eq)
  qed simp
  show ?thesis using step [of "length ps"] by (simp add: indexes_def)
qed

text \<open>The spots name the place of every listed price that may still be overridden.\<close>

definition spots_fit :: "(price_key \<times> nat) list \<Rightarrow> price_key list \<Rightarrow> model_price list \<Rightarrow> bool" where
  "spots_fit spots ks ms \<longleftrightarrow> distinct ks \<and> prices_ok ms
     \<and> (\<forall>k i. map_of spots k = Some i \<longrightarrow> i < length ks \<and> ks ! i = k)
     \<and> (\<forall>m \<in> set ms. price_key m \<in> set ks \<longrightarrow> map_of spots (price_key m) \<noteq> None)"

lemma spots_fit_replaced: "spots_fit spots ks (m # ms) \<Longrightarrow> spots_fit spots ks ms"
  by (simp add: spots_fit_def prices_ok_def)

lemma spots_fit_added:
  assumes fit: "spots_fit spots ks (m # ms)" and new: "map_of spots (price_key m) = None"
  shows "spots_fit spots (ks @ [price_key m]) ms"
proof -
  have "i < length (ks @ [price_key m]) \<and> (ks @ [price_key m]) ! i = k" if "map_of spots k = Some i" for k i
    using fit that unfolding spots_fit_def by (metis length_append_singleton less_SucI nth_append_left)
  moreover have "price_key m \<notin> set ks" "\<forall>x \<in> set ms. price_key x \<noteq> price_key m"
    using fit new by (auto simp: spots_fit_def prices_ok_def) (metis image_eqI)
  ultimately show ?thesis using fit unfolding spots_fit_def prices_ok_def by simp
qed

lemma keys_update: "i < length ps \<Longrightarrow> price_key (ps ! i) = price_key m \<Longrightarrow> map price_key (ps[i := m]) = map price_key ps"
  by (simp add: map_update list_update_same_conv)

lemma looked_update:
  "prices_ok ps \<Longrightarrow> i < length ps \<Longrightarrow> price_key (ps ! i) = price_key m \<Longrightarrow>
     looked (ps[i := m]) k = (if price_key m = k then Some m else looked ps k)"
  unfolding prices_ok_def
proof (induction ps arbitrary: i)
  case (Cons p ps)
  show ?case
  proof (cases i)
    case (Suc j)
    then have "price_key p \<noteq> price_key m"
      using Cons.prems by (metis distinct.simps(2) length_Cons list.simps(9) nth_Cons_Suc nth_map nth_mem length_map not_less_eq)
    then show ?thesis using Cons Suc by auto
  qed (use Cons.prems in auto)
qed simp

lemma override_looked:
  assumes "spots_fit spots (map price_key (prices_of out)) ms"
  shows "prices_ok (prices_of (override spots out ms))
    \<and> looked (prices_of (override spots out ms)) k = (case looked ms k of Some p \<Rightarrow> Some p | None \<Rightarrow> looked (prices_of out) k)"
  using assms
proof (induction ms arbitrary: out)
  case (Cons m ms)
  have later: "looked ms (price_key m) = None" using Cons.prems by (simp add: spots_fit_def prices_ok_def looked_None)
  show ?case
  proof (cases "map_of spots (price_key m)")
    case None
    let ?out = "out @ [\<lparr>pe_price = m, pe_source = Manual, pe_catalog = None\<rparr>]"
    have keys: "map price_key (prices_of ?out) = map price_key (prices_of out) @ [price_key m]" by (simp add: prices_of_def)
    have "looked (prices_of out) (price_key m) = None" using Cons.prems None by (auto simp: spots_fit_def looked_None)
    then show ?thesis
      using Cons.IH [of ?out] spots_fit_added [OF Cons.prems None] None later unfolding keys
      by (auto simp: prices_of_def looked_append split: option.splits)
  next
    case (Some i)
    let ?out = "out[i := \<lparr>pe_price = m, pe_source = Manual, pe_catalog = Some (pe_price (out ! i))\<rparr>]"
    have i: "i < length (prices_of out)" "price_key (prices_of out ! i) = price_key m"
      using Some Cons.prems unfolding spots_fit_def by (metis length_map nth_map)+
    have out: "prices_of ?out = (prices_of out)[i := m]" by (simp add: prices_of_def map_update)
    have "prices_ok (prices_of out)" using Cons.prems by (simp add: spots_fit_def prices_ok_def)
    from looked_update [OF this i] show ?thesis
      using Cons.IH [of ?out] spots_fit_replaced [OF Cons.prems] Some later unfolding out keys_update [OF i]
      by (auto split: option.splits)
  qed
qed (simp add: spots_fit_def prices_ok_def)

lemma entries_looked:
  assumes "prices_ok (m_catalog m)" "prices_ok (m_manual m)"
  shows "prices_ok (prices_of (price_entries m))
    \<and> looked (prices_of (price_entries m)) k
      = (case looked (m_manual m) k of Some p \<Rightarrow> Some p | None \<Rightarrow> looked (m_catalog m) k)"
proof -
  let ?cat = "map catalog_entry (m_catalog m)"
  have cat: "prices_of ?cat = m_catalog m" by (simp add: prices_of_def catalog_entry_def comp_def)
  have "map_of (indexes (m_catalog m)) (price_key x) \<noteq> None" if "price_key x \<in> price_key ` set (m_catalog m)" for x
    using that map_of_indexes [OF assms(1), of "price_key x"] by (metis imageE in_set_conv_nth option.distinct(1))
  then have "spots_fit (indexes (m_catalog m)) (map price_key (prices_of ?cat)) (m_manual m)"
    using assms map_of_indexes [OF assms(1)] unfolding cat spots_fit_def by (auto simp: prices_ok_def)
  note base = override_looked [OF this, of k, unfolded cat]
  have set_eq: "set (prices_of (sort_key entry_key es)) = set (prices_of es)"
    and ok_eq: "prices_ok (prices_of (sort_key entry_key es)) = prices_ok (prices_of es)" for es
    by (simp_all add: prices_of_def prices_ok_def distinct_map inj_on_def image_image)
  show ?thesis using base looked_same [OF _ _ set_eq] unfolding price_entries_def ok_eq by (metis ok_eq)
qed

text \<open>The table published prices every model at its manual price, or else at the catalogue's.\<close>

lemma price_of_publish:
  assumes "prices_ok (m_catalog m)" "prices_ok (m_manual m)"
  shows "price_of (publish m) prov model
    = (case looked (m_manual m) (prov, model) of Some p \<Rightarrow> Some p | None \<Rightarrow> looked (m_catalog m) (prov, model))"
  using entries_looked [OF assms, of "(prov, model)"]
  by (simp add: publish_def price_of_looked prices_of_def [symmetric])

section \<open>The prices in force\<close>

definition rates_of :: "model_price \<Rightarrow> price_key \<times> f64 \<times> f64 \<times> f64 \<times> f64" where
  "rates_of p = (price_key p, mp_input p, mp_output p, mp_cache_read p, mp_cache_write p)"

text \<open>The price a model has by what is stored: the administrator's, or else the catalogue's where there is one.\<close>

definition catalog_of :: "env \<Rightarrow> db \<Rightarrow> model_price list" where
  "catalog_of e d = (if fingerprint e = None then [] else t_catalog d)"

definition merged :: "model_price list \<Rightarrow> model_price list \<Rightarrow> price_key \<Rightarrow> model_price option" where
  "merged manual cat k = (case looked manual k of Some p \<Rightarrow> Some p | None \<Rightarrow> looked cat k)"

definition stored_price :: "env \<Rightarrow> db \<Rightarrow> string \<Rightarrow> string \<Rightarrow> model_price option" where
  "stored_price e d prov model = merged (t_prices d) (catalog_of e d) (prov, model)"

definition agree :: "model_price list \<Rightarrow> model_price list \<Rightarrow> bool" where
  "agree ps qs \<longleftrightarrow> prices_ok ps \<and> prices_ok qs \<and> (\<forall>k. map_option rates_of (looked ps k) = map_option rates_of (looked qs k))"

definition prices_in_force :: "env \<Rightarrow> db \<Rightarrow> mem \<Rightarrow> bool" where
  "prices_in_force e d m \<longleftrightarrow> prices_ok (t_catalog d) \<and> agree (m_manual m) (t_prices d)
     \<and> agree (m_catalog m) (catalog_of e d)
     \<and> (\<forall>prov model. map_option rates_of (price_of m prov model) = map_option rates_of (stored_price e d prov model))"

lemma catalog_of_simps [simp]:
  "catalog_of e (d\<lparr>t_audit := a\<rparr>) = catalog_of e d" "catalog_of e (d\<lparr>t_catalog_state := s\<rparr>) = catalog_of e d"
  "catalog_of e (d\<lparr>t_prices := ps\<rparr>) = catalog_of e d"
  "fingerprint e \<noteq> None \<Longrightarrow> catalog_of e d = t_catalog d" "fingerprint e = Some fp \<Longrightarrow> catalog_of e d = t_catalog d"
  by (auto simp: catalog_of_def)

lemma in_force_other [simp]:
  "prices_in_force e d (m\<lparr>m_state := s\<rparr>) = prices_in_force e d m" "prices_in_force e d (m\<lparr>m_models := n\<rparr>) = prices_in_force e d m"
  "prices_in_force e d (m\<lparr>m_failures := n\<rparr>) = prices_in_force e d m"
  "prices_in_force e (d\<lparr>t_audit := a\<rparr>) m = prices_in_force e d m" "prices_in_force e (d\<lparr>t_catalog_state := s\<rparr>) m = prices_in_force e d m"
  "prices_in_force e d (m\<lparr>m_failures := n, m_state := s\<rparr>) = prices_in_force e d m"
  by (simp_all add: prices_in_force_def price_of_def stored_price_def)

lemma agree_refl: "prices_ok ps \<Longrightarrow> agree ps ps"
  by (simp add: agree_def)

lemma agree_listed: "prices_ok ps \<Longrightarrow> agree (list_prices ps) ps"
  by (simp add: agree_def list_prices_def looked_sort)

lemma upsert_key [simp]: "price_key (upsert_price t old p) = price_key p" "rates_of (upsert_price t old p) = rates_of p"
  by (simp_all add: upsert_price_def price_key_def rates_of_def split: option.splits)

lemma agree_replaced:
  assumes "replace_prices t ps old = Inr rows"
  shows "agree ps rows"
proof -
  have rows: "rows = map (upsert_price t old) ps" and ok: "prices_ok ps"
    using assms by (simp_all add: replace_prices_def prices_ok_def split: if_splits)
  have "map_option rates_of (looked ps k) = map_option rates_of (looked (map (upsert_price t old) ps) k)" for k
    by (induction ps) auto
  moreover have "prices_ok (map (upsert_price t old) ps)" using ok by (simp add: prices_ok_def comp_def)
  ultimately show ?thesis using ok by (simp add: agree_def rows)
qed

lemma publish_simps [simp]: "m_manual (publish m) = m_manual m" "m_catalog (publish m) = m_catalog m" "m_state (publish m) = m_state m"
  by (simp_all add: publish_def set_prices_def)

lemma agree_merged:
  assumes "agree ps ps'" "agree qs qs'"
  shows "map_option rates_of (merged ps qs k) = map_option rates_of (merged ps' qs' k)"
proof -
  have "map_option rates_of (looked ps k) = map_option rates_of (looked ps' k)"
    "map_option rates_of (looked qs k) = map_option rates_of (looked qs' k)"
    using assms by (simp_all only: agree_def)
  then show ?thesis by (cases "looked ps k"; cases "looked ps' k") (auto simp: merged_def)
qed

text \<open>Publishing puts in force what the lists in memory agree with.\<close>

lemma in_force_publish:
  assumes "prices_ok (t_catalog d)" "agree (m_manual m) (t_prices d)"
    "agree (m_catalog m) (catalog_of e d)"
  shows "prices_in_force e d (publish m)"
proof -
  have "map_option rates_of (price_of (publish m) prov model) = map_option rates_of (stored_price e d prov model)" for prov model
  proof -
    have "price_of (publish m) prov model = merged (m_manual m) (m_catalog m) (prov, model)"
      using assms unfolding merged_def by (intro price_of_publish) (simp_all add: agree_def)
    then show ?thesis using agree_merged [OF assms(2,3)] by (simp add: stored_price_def)
  qed
  then show ?thesis using assms by (simp add: prices_in_force_def)
qed

lemma in_force_submitted:
  assumes "prices_in_force e d m" "replace_prices t ps (t_prices d) = Inr rows"
  shows "prices_in_force e (d\<lparr>t_prices := rows\<rparr>) (publish (m\<lparr>m_manual := ps\<rparr>))"
  using assms(1) agree_replaced [OF assms(2)] by (intro in_force_publish) (simp_all add: prices_in_force_def)

lemma in_force_fetched:
  assumes "prices_in_force e d m" "fingerprint e \<noteq> None" "replace_prices t ps (t_catalog d) = Inr rows"
  shows "prices_in_force e (d\<lparr>t_catalog := rows\<rparr>) (publish (m\<lparr>m_state := s', m_catalog := ps\<rparr>))"
  using assms(1,2) agree_replaced [OF assms(3)]
  by (intro in_force_publish) (simp_all add: prices_in_force_def agree_def)

lemma in_force_lists:
  assumes "prices_in_force e d m"
  shows "agree ps (t_prices d) \<Longrightarrow> prices_in_force e d (m\<lparr>m_manual := ps\<rparr>)"
    and "agree ps (catalog_of e d) \<Longrightarrow> prices_in_force e d (m\<lparr>m_catalog := ps\<rparr>)"
  using assms by (simp_all add: prices_in_force_def price_of_def)

lemma in_force_manual_read: "prices_in_force e d m \<Longrightarrow> ps = list_prices (t_prices d) \<Longrightarrow> prices_in_force e d (m\<lparr>m_manual := ps\<rparr>)"
  by (rule in_force_lists(1)) (simp_all add: prices_in_force_def agree_def list_prices_def looked_sort)

lemma in_force_catalog_read:
  "prices_in_force e d m \<Longrightarrow> fingerprint e \<noteq> None \<Longrightarrow> ps = list_prices (t_catalog d) \<Longrightarrow> prices_in_force e d (m\<lparr>m_catalog := ps\<rparr>)"
  by (rule in_force_lists(2)) (simp_all add: prices_in_force_def agree_def list_prices_def looked_sort)

lemma wp_audit_in_force:
  assumes "prices_in_force e (w_db w) (w_mem w)"
    "\<And>r w'. prices_in_force e (w_db w') (w_mem w') \<Longrightarrow> Q r w'"
  shows "wp (audit_record ev) e w Q"
  using assms(1) by (auto simp: wp_simps audit_record_def audit_insert_def Let_def intro!: assms(2))

section \<open>Every call keeps them\<close>

definition loaded :: "env \<Rightarrow> 'a result \<Rightarrow> world \<Rightarrow> bool" where
  "loaded e r w \<longleftrightarrow> prices_in_force e (w_db w) (w_mem w)"

lemma load_in_force:
  assumes "prices_ok (t_prices (w_db w))" "prices_ok (t_catalog (w_db w))"
  shows "wp prices_load e w (\<lambda>r w'. r = Inr () \<longrightarrow> loaded e r w')"
  using assms
  by (auto simp: prices_load_def prices_list_def catalog_list_def catalog_get_state_def wp_simps loaded_def catalog_of_def
      intro!: in_force_publish agree_listed agree_refl split: option.splits)

lemma wp_catalog_state_in_force:
  assumes "prices_in_force e (w_db w) (w_mem w)"
    "\<And>r w'. prices_in_force e (w_db w') (w_mem w') \<Longrightarrow> Q r w'"
  shows "wp (catalog_set_state st) e w Q"
  using assms(1) by (auto simp: wp_simps catalog_set_state_def intro!: assms(2))

lemma submit_in_force:
  assumes "prices_in_force e (w_db w) (w_mem w)"
  shows "wp (prices_submit actor ps) e w (loaded e)"
  using assms
  by (auto simp: prices_submit_def prices_replace_def prices_list_def wp_simps loaded_def
      intro!: wp_audit_in_force in_force_manual_read in_force_submitted split: sum.splits)

lemma failure_in_force:
  assumes "prices_in_force e (w_db w) (w_mem w)"
  shows "wp (record_failure why) e w (loaded e)"
  using assms
  by (auto simp: record_failure_def wp_simps loaded_def Let_def intro!: wp_catalog_state_in_force split: sum.splits)

lemma wp_stopped [wp_simps]: "wp stopped_io e w Q = Q (Inr (fault e (w_tick w))) (tick w)"
  by (simp add: wp_def stopped_io_def)

lemma wp_fetch [wp_simps]:
  "wp (fetch_io etag modified) e w Q = Q (Inr (fetch_catalog e (w_tick w) etag modified)) (tick w)"
  by (simp add: wp_def fetch_io_def)

lemma success_in_force:
  assumes "prices_in_force e (w_db w) (w_mem w)" "fingerprint e \<noteq> None"
  shows "wp (record_success source f) e w (loaded e)"
  using assms
  by (auto simp: record_success_def catalog_replace_def catalog_set_state_def catalog_list_def wp_simps loaded_def Let_def
      intro!: failure_in_force in_force_catalog_read in_force_fetched split: sum.splits)

lemma check_in_force:
  assumes "prices_in_force e (w_db w) (w_mem w)" "fingerprint e \<noteq> None"
  shows "wp (catalog_check source) e w (loaded e)"
  using assms
  by (auto simp: catalog_check_def wp_simps loaded_def intro!: failure_in_force success_in_force split: option.splits prod.splits)

lemma refresh_in_force:
  assumes "prices_in_force e (w_db w) (w_mem w)"
  shows "wp (prices_refresh actor) e w (loaded e)"
proof (cases "fingerprint e")
  case (Some fp)
  have "wp (catalog_check fp) e w (\<lambda>r w'. loaded e (Inr ()) w')"
    by (rule wp_mono [OF check_in_force [OF assms]]) (simp_all add: Some loaded_def)
  then show ?thesis
    using assms
    by (auto simp: prices_refresh_def wp_simps loaded_def Some
        intro!: wp_audit_in_force elim!: wp_mono split: sum.splits)
qed (use assms in \<open>auto simp: prices_refresh_def wp_simps loaded_def split: sum.splits\<close>)

lemma round_in_force:
  assumes "prices_in_force e (w_db w) (w_mem w)"
  shows "wp catalog_round e w (loaded e)"
proof (cases "fingerprint e")
  case (Some fp)
  have "wp (catalog_check fp) e w (\<lambda>r w'. loaded e (Inr ()) w')"
    by (rule wp_mono [OF check_in_force [OF assms]]) (simp_all add: Some loaded_def)
  then show ?thesis
    using assms by (auto simp: catalog_round_def wp_simps loaded_def Some elim!: wp_mono split: sum.splits)
qed (use assms in \<open>auto simp: catalog_round_def wp_simps loaded_def\<close>)

datatype price_call = SubmitPrices user "model_price list" | RefreshPrices user | CatalogRound

fun price_step :: "env \<Rightarrow> price_call \<Rightarrow> world \<Rightarrow> world" where
  "price_step e (SubmitPrices actor ps) w = snd (prices_submit actor ps e w)"
| "price_step e (RefreshPrices actor) w = snd (prices_refresh actor e w)"
| "price_step e CatalogRound w = snd (catalog_round e w)"

lemma loaded_after: "wp m e w (loaded e) \<Longrightarrow> prices_in_force e (w_db (snd (m e w))) (w_mem (snd (m e w)))"
  by (simp add: wp_def loaded_def split: prod.splits)

lemma calls_in_force:
  assumes "prices_in_force e (w_db w) (w_mem w)"
  shows "prices_in_force e (w_db (fold (price_step e) calls w)) (w_mem (fold (price_step e) calls w))"
  using assms
proof (induction calls arbitrary: w)
  case (Cons c calls)
  have "prices_in_force e (w_db (price_step e c w)) (w_mem (price_step e c w))"
    using Cons.prems submit_in_force refresh_in_force round_in_force by (cases c) (auto intro!: loaded_after)
  then show ?case using Cons.IH by simp
qed simp

text \<open>C35: usage is priced at what is stored. After the lists were loaded, and whatever calls follow, failed ones
  included, every model has in the table usage is priced from the rates of the administrator's stored list, or
  else those of the stored catalogue, or no price.\<close>

theorem prices_follow_store:
  assumes "prices_ok (t_prices (w_db w))" "prices_ok (t_catalog (w_db w))" "prices_load e w = (Inr (), v)"
  shows "map_option rates_of (price_of (w_mem (fold (price_step e) calls v)) prov model)
    = map_option rates_of (stored_price e (w_db (fold (price_step e) calls v)) prov model)"
proof -
  have "prices_in_force e (w_db v) (w_mem v)"
    using load_in_force [OF assms(1,2), THEN wp_run, OF assms(3)] by (simp add: loaded_def)
  from calls_in_force [OF this] show ?thesis by (simp add: prices_in_force_def)
qed

section \<open>What a check may do\<close>

definition usable :: "model_price list \<Rightarrow> bool" where
  "usable ps \<longleftrightarrow> ps \<noteq> [] \<and> prices_ok ps
     \<and> (\<forall>p \<in> set ps. stored_rate (mp_input p) \<and> stored_rate (mp_output p) \<and> stored_rate (mp_cache_read p) \<and> stored_rate (mp_cache_write p))
     \<and> (\<exists>p \<in> set ps. f64_lt (Fin 0) (mp_input p) \<or> f64_lt (Fin 0) (mp_output p))"

lemma upsert_rates [simp]:
  "mp_input (upsert_price t old p) = mp_input p" "mp_output (upsert_price t old p) = mp_output p"
  "mp_cache_read (upsert_price t old p) = mp_cache_read p" "mp_cache_write (upsert_price t old p) = mp_cache_write p"
  by (simp_all add: upsert_price_def split: option.splits)

lemma usable_stored:
  assumes "accept_catalog ps = None" "replace_prices t ps old = Inr rows"
  shows "usable rows"
proof -
  have "ps \<noteq> []" "list_ex (\<lambda>p. f64_lt (Fin 0) (mp_input p) \<or> f64_lt (Fin 0) (mp_output p)) ps"
    using assms(1) by (simp_all add: accept_catalog_def split: if_splits)
  moreover have "rows = map (upsert_price t old) ps" "prices_ok rows"
    using assms(2) agree_replaced [OF assms(2)] by (simp_all add: replace_prices_def agree_def split: if_splits)
  moreover have "\<forall>p \<in> set ps. stored_rate (mp_input p) \<and> stored_rate (mp_output p) \<and> stored_rate (mp_cache_read p) \<and> stored_rate (mp_cache_write p)"
    using assms(2) by (auto simp: replace_prices_def list_all_iff split: if_splits)
  ultimately show ?thesis by (auto simp: usable_def list_ex_iff)
qed

lemma rune_cut_le: "rune_cut s n \<le> n"
  by (induction n) auto

lemma clip_bounded: "length (clip s) \<le> 200"
  using rune_cut_le [of s 200] by (auto simp: clip_def max_catalog_error_def)

text \<open>What the lists and the table are, in the database and in memory.\<close>

definition lists_kept :: "world \<Rightarrow> world \<Rightarrow> bool" where
  "lists_kept w w' \<longleftrightarrow> t_catalog (w_db w') = t_catalog (w_db w) \<and> m_catalog (w_mem w') = m_catalog (w_mem w)
     \<and> m_table (w_mem w') = m_table (w_mem w)"

definition manual_kept :: "world \<Rightarrow> world \<Rightarrow> bool" where
  "manual_kept w w' \<longleftrightarrow> t_prices (w_db w') = t_prices (w_db w) \<and> m_manual (w_mem w') = m_manual (w_mem w)"

definition check_kept :: "world \<Rightarrow> check_result result \<Rightarrow> world \<Rightarrow> bool" where
  "check_kept w r w' \<longleftrightarrow> manual_kept w w' \<and> (lists_kept w w' \<or> usable (t_catalog (w_db w')))
     \<and> (case r of
          Inl _ \<Rightarrow> True
        | Inr res \<Rightarrow>
            (cr_outcome res \<noteq> Changed \<longrightarrow> lists_kept w w')
            \<and> (cr_outcome res = Changed \<longrightarrow> usable (t_catalog (w_db w')))
            \<and> cs_last_error (t_catalog_state (w_db w')) = cr_failure res
            \<and> length (cr_failure res) \<le> 200
            \<and> t_catalog_state (w_db w') = m_state (w_mem w'))"

lemma failure_kept:
  assumes "lists_kept w v" "manual_kept w v"
  shows "wp (record_failure why) e v (check_kept w)"
  using assms clip_bounded [of why]
  by (auto simp: record_failure_def catalog_set_state_def wp_simps Let_def check_kept_def lists_kept_def manual_kept_def)

lemma success_kept:
  assumes "lists_kept w v" "manual_kept w v" "fetch_failure (Inr f) = None"
  shows "wp (record_success source f) e v (check_kept w)"
  using assms usable_stored [of "cf_prices f"]
  by (auto simp: record_success_def catalog_replace_def catalog_set_state_def catalog_list_def wp_simps Let_def fetch_failure_def
      checked_state_def intro!: failure_kept split: sum.splits if_splits)
    (auto simp: check_kept_def lists_kept_def manual_kept_def set_prices_def publish_def)

lemma fetch_failure_None: "fetch_failure x = None \<Longrightarrow> fetch_failure (Inr (projr x)) = None"
  by (cases x) (simp_all add: fetch_failure_def)

text \<open>The catalogue can change prices but never wipe them. Whatever a check meets, an unreachable
  catalogue, one that prices nothing, only zeros or nonsense, a database that fails halfway, or its own
  cancellation, the administrator's list is untouched, and the catalogue's prices are either as before, in the
  database, in memory and in the table usage is priced from, or a list that is not empty, names every model once at
  proper rates and prices something above zero. A check reported as failed or unchanged changed none, and
  the reason for a failure, at most 200 bytes of it, is in the stored state.\<close>

lemma catalog_never_wipes:
  assumes "catalog_check source e w = (r, w')"
  shows "check_kept w r w'"
proof -
  have "wp (catalog_check source) e w (check_kept w)"
    by (auto simp: catalog_check_def wp_simps fetch_failure_def [of "Inl _"] intro!: failure_kept success_kept fetch_failure_None
        split: option.splits prod.splits sum.splits)
      (auto simp: check_kept_def lists_kept_def manual_kept_def)
  then show ?thesis using assms by (rule wp_run)
qed

section \<open>A catalogue that answers\<close>

definition feed_price :: model_price where
  "feed_price = \<lparr>mp_provider = ''claude'', mp_model = ''opus'', mp_input = Fin 15, mp_output = Fin 75, mp_cache_read = Fin (3 / 2),
     mp_cache_write = Fin 0, mp_updated = 0\<rparr>"

definition feed_env :: env where
  "feed_env = example_env\<lparr>fingerprint := Some ''feed'',
     fetch_catalog := (\<lambda>_ _ _. Inr \<lparr>cf_unchanged = False, cf_prices = [feed_price], cf_etag = ''1'', cf_last_modified = []\<rparr>)\<rparr>"

theorem prices_follow_store_witness:
  "\<exists>v. prices_load feed_env example_world = (Inr (), v)
     \<and> map_option rates_of (price_of (w_mem (fold (price_step feed_env) [CatalogRound, SubmitPrices example_admin []] v)) ''claude'' ''opus'')
       = map_option rates_of (stored_price feed_env (w_db (fold (price_step feed_env) [CatalogRound, SubmitPrices example_admin []] v))
           ''claude'' ''opus'')"
proof -
  obtain r v where run: "prices_load feed_env example_world = (r, v)" by (metis surj_pair)
  have "wp prices_load feed_env example_world (\<lambda>r _. r = Inr ())"
    by (simp add: prices_load_def wp_simps prices_list_def catalog_list_def catalog_get_state_def feed_env_def example_env_def)
  from wp_run [OF this run] have "prices_load feed_env example_world = (Inr (), v)" using run by simp
  moreover have "prices_ok (t_prices (w_db example_world))" "prices_ok (t_catalog (w_db example_world))"
    by (simp_all add: example_world_def example_db_def)
  ultimately show ?thesis using prices_follow_store by blast
qed

end
