(* ===== verification/RateLimit.thy ===== *)
theory RateLimit
  imports Prelude
begin

text \<open>
  \<open>internal/iface/http/ratelimit.go\<close>: a token bucket per client. The map of the buckets is an
  association list with distinct keys, ranged over in its order; tokens are exact rationals. The
  mutex has nothing to do where calls are a sequence. The loop of \<open>makeRoom\<close> that forgets clients
  does not end when the bound is not positive, so it is a partial function.
\<close>

section \<open>The limiter\<close>

record rate_limit =
  rl_burst :: int
  rl_every :: duration
  rl_max :: int

definition default_rate :: rate_limit where
  "default_rate = \<lparr>rl_burst = 10, rl_every = 6 * ns_second, rl_max = 10000\<rparr>"

record bucket =
  bk_tokens :: rat
  bk_last :: instant

type_synonym buckets = "(string \<times> bucket) list"

text \<open>A division by an interval of zero is infinite, and the bucket then full.\<close>

definition refilled :: "rate_limit \<Rightarrow> bucket \<Rightarrow> instant \<Rightarrow> rat" where
  "refilled rl b now =
     (let elapsed = now - bk_last b in
      if elapsed \<le> 0 then bk_tokens b
      else if rl_every rl = 0 then of_int (rl_burst rl)
      else min (of_int (rl_burst rl)) (bk_tokens b + of_int elapsed / of_int (rl_every rl)))"

text \<open>The client seen longest ago; the empty key stands for none found yet.\<close>

fun oldest_of :: "string \<Rightarrow> instant \<Rightarrow> buckets \<Rightarrow> string" where
  "oldest_of oldest seen [] = oldest"
| "oldest_of oldest seen ((k, b) # bs) =
     (if oldest = [] \<or> bk_last b < seen then oldest_of k (bk_last b) bs else oldest_of oldest seen bs)"

partial_function (option) forget_oldest :: "rate_limit \<Rightarrow> buckets \<Rightarrow> buckets option" where
  "forget_oldest rl bs =
     (if int (length bs) < rl_max rl then Some bs
      else forget_oldest rl (AList.delete (oldest_of [] zero_time bs) bs))"

definition make_client_room :: "rate_limit \<Rightarrow> instant \<Rightarrow> buckets \<Rightarrow> buckets option" where
  "make_client_room rl now bs =
     (if int (length bs) < rl_max rl then Some bs
      else forget_oldest rl (filter (\<lambda>(k, b). \<not> of_int (rl_burst rl) \<le> refilled rl b now) bs))"

text \<open>A conversion to an integer drops the fraction.\<close>

definition truncated :: "rat \<Rightarrow> int" where
  "truncated x = (if 0 \<le> x then \<lfloor>x\<rfloor> else \<lceil>x\<rceil>)"

definition take_token :: "rate_limit \<Rightarrow> instant \<Rightarrow> bucket \<Rightarrow> (bool \<times> duration) \<times> bucket" where
  "take_token rl now b =
     (let tokens = refilled rl b now in
      if 1 \<le> tokens then ((True, 0), \<lparr>bk_tokens = tokens - 1, bk_last = now\<rparr>)
      else ((False, truncated ((1 - tokens) * of_int (rl_every rl))), \<lparr>bk_tokens = tokens, bk_last = now\<rparr>))"

definition new_bucket :: "rate_limit \<Rightarrow> instant \<Rightarrow> bucket" where
  "new_bucket rl now = \<lparr>bk_tokens = of_int (rl_burst rl), bk_last = now\<rparr>"

definition allow_client :: "rate_limit \<Rightarrow> instant \<Rightarrow> string \<Rightarrow> buckets \<Rightarrow> ((bool \<times> duration) \<times> buckets) option" where
  "allow_client rl now key bs =
     (case (case map_of bs key of
              Some b \<Rightarrow> Some (b, bs)
            | None \<Rightarrow> map_option (Pair (new_bucket rl now)) (make_client_room rl now bs)) of
        None \<Rightarrow> None
      | Some (b, bs) \<Rightarrow> (case take_token rl now b of (answer, b') \<Rightarrow> Some (answer, AList.update key b' bs)))"

text \<open>The calls of a limiter, each with its time and its client; no result when a call does not end.\<close>

fun allow_all :: "rate_limit \<Rightarrow> (instant \<times> string) list \<Rightarrow> buckets \<Rightarrow> ((bool \<times> duration) list \<times> buckets) option" where
  "allow_all rl [] bs = Some ([], bs)"
| "allow_all rl ((now, key) # calls) bs =
     (case allow_client rl now key bs of
        None \<Rightarrow> None
      | Some (answer, bs) \<Rightarrow> map_option (\<lambda>(answers, bs). (answer # answers, bs)) (allow_all rl calls bs))"

section \<open>Making room\<close>

lemma oldest_of_mem: "oldest_of k0 seen bs \<in> insert k0 (fst ` set bs)"
  by (induction k0 seen bs rule: oldest_of.induct) auto

lemma oldest_of_listed:
  assumes "bs \<noteq> []"
  shows "oldest_of [] zero_time bs \<in> fst ` set bs"
proof -
  obtain k b rest where bs: "bs = (k, b) # rest" using assms by (metis neq_Nil_conv surj_pair)
  have "oldest_of [] zero_time bs = oldest_of k (bk_last b) rest" by (simp add: bs)
  then show ?thesis using oldest_of_mem [of k "bk_last b" rest] by (auto simp: bs)
qed

lemma delete_shorter:
  assumes "k \<in> fst ` set bs"
  shows "length (AList.delete k bs) < length bs"
proof -
  obtain b where "(k, b) \<in> set bs" using assms by auto
  then show ?thesis unfolding AList.delete_eq by (rule length_filter_less) simp
qed

lemma forget_oldest_ends:
  assumes "0 < rl_max rl"
  shows "\<exists>bs'. forget_oldest rl bs = Some bs' \<and> int (length bs') < rl_max rl \<and> set bs' \<subseteq> set bs
    \<and> (distinct (map fst bs) \<longrightarrow> distinct (map fst bs'))"
proof (induction "length bs" arbitrary: bs rule: less_induct)
  case less
  show ?case
  proof (cases "int (length bs) < rl_max rl")
    case True
    then show ?thesis by (subst forget_oldest.simps) simp
  next
    case False
    then have "bs \<noteq> []" using assms by auto
    let ?rest = "AList.delete (oldest_of [] zero_time bs) bs"
    have "length ?rest < length bs" using oldest_of_listed [OF \<open>bs \<noteq> []\<close>] by (rule delete_shorter)
    from less [OF this] obtain bs' where bs': "forget_oldest rl ?rest = Some bs'" "int (length bs') < rl_max rl" "set bs' \<subseteq> set ?rest"
      "distinct (map fst ?rest) \<longrightarrow> distinct (map fst bs')" by blast
    moreover have "set ?rest \<subseteq> set bs" "distinct (map fst bs) \<longrightarrow> distinct (map fst ?rest)"
      by (auto simp: AList.delete_eq distinct_map_filter)
    moreover have "forget_oldest rl bs = forget_oldest rl ?rest" using False by (subst forget_oldest.simps) simp
    ultimately show ?thesis by auto
  qed
qed

lemma client_room_spec:
  assumes "0 < rl_max rl" "distinct (map fst bs)"
  shows "\<exists>bs'. make_client_room rl now bs = Some bs' \<and> int (length bs') < rl_max rl \<and> set bs' \<subseteq> set bs \<and> distinct (map fst bs')"
proof (cases "int (length bs) < rl_max rl")
  case False
  let ?kept = "filter (\<lambda>(k, b). \<not> of_int (rl_burst rl) \<le> refilled rl b now) bs"
  obtain bs' where "forget_oldest rl ?kept = Some bs'" "int (length bs') < rl_max rl" "set bs' \<subseteq> set ?kept"
    "distinct (map fst ?kept) \<longrightarrow> distinct (map fst bs')"
    using forget_oldest_ends [OF assms(1)] by blast
  then show ?thesis using False assms(2) by (auto simp: make_client_room_def distinct_map_filter)
qed (use assms in \<open>simp add: make_client_room_def\<close>)

section \<open>Tokens\<close>

text \<open>A bucket as the limiter leaves it: touched by now, at most full, its tokens a whole number of nanoseconds.\<close>

definition bucket_ok :: "rate_limit \<Rightarrow> instant \<Rightarrow> bucket \<Rightarrow> bool" where
  "bucket_ok rl now b \<longleftrightarrow> bk_last b \<le> now \<and> 0 \<le> bk_tokens b \<and> bk_tokens b \<le> of_int (rl_burst rl) \<and> bk_tokens b * of_int (rl_every rl) \<in> \<int>"

lemma refilled_le: "bucket_ok rl now b \<Longrightarrow> refilled rl b now \<le> of_int (rl_burst rl)"
  by (simp add: refilled_def bucket_ok_def Let_def)

text \<open>What a bucket has gained by now, in tokens.\<close>

definition gained :: "rate_limit \<Rightarrow> instant \<Rightarrow> instant \<Rightarrow> rat" where
  "gained rl start now = of_int (now - start) / of_int (rl_every rl)"

lemma gained_sum: "gained rl a b + gained rl b c = gained rl a c"
  by (simp add: gained_def add_divide_distrib [symmetric])

lemma gained_nonneg: "0 < rl_every rl \<Longrightarrow> a \<le> b \<Longrightarrow> 0 \<le> gained rl a b"
  by (simp add: gained_def)

lemma gained_whole: "0 < rl_every rl \<Longrightarrow> gained rl a b * of_int (rl_every rl) = of_int (b - a)"
  by (simp add: gained_def)

lemma refilled_eq:
  assumes "0 < rl_every rl" "bucket_ok rl now b" "now \<le> later"
  shows "refilled rl b later = min (of_int (rl_burst rl)) (bk_tokens b + gained rl (bk_last b) later)"
  using assms by (cases "later = bk_last b") (auto simp: refilled_def bucket_ok_def gained_def Let_def)

lemma refilled_nonneg: "bucket_ok rl now b \<Longrightarrow> 0 < rl_every rl \<Longrightarrow> 0 \<le> rl_burst rl \<Longrightarrow> 0 \<le> refilled rl b now"
  using gained_nonneg [of rl "bk_last b" now] by (simp add: refilled_eq [OF _ _ order_refl] bucket_ok_def)

lemma refilled_whole:
  assumes "bucket_ok rl now b" "0 < rl_every rl"
  shows "refilled rl b now * of_int (rl_every rl) \<in> \<int>"
proof -
  have "(bk_tokens b + gained rl (bk_last b) now) * of_int (rl_every rl) \<in> \<int>"
    using assms by (simp add: distrib_right gained_whole bucket_ok_def)
  then show ?thesis by (simp add: refilled_eq [OF assms(2,1) order_refl] min_def)
qed

lemma bucket_later: "bucket_ok rl now b \<Longrightarrow> now \<le> later \<Longrightarrow> bucket_ok rl later b"
  by (simp add: bucket_ok_def)

lemma new_bucket_ok: "0 \<le> rl_burst rl \<Longrightarrow> bucket_ok rl now (new_bucket rl now)"
  by (simp add: bucket_ok_def new_bucket_def)

lemma refilled_new: "refilled rl (new_bucket rl now) now = of_int (rl_burst rl)"
  by (simp add: refilled_def new_bucket_def)

lemma take_token_ok:
  assumes "bucket_ok rl now b" "0 < rl_every rl" "0 \<le> rl_burst rl" "take_token rl now b = (answer, b')"
  shows "bucket_ok rl now b'"
  using assms refilled_le [OF assms(1)] refilled_whole [OF assms(1,2)] refilled_nonneg [OF assms(1-3)]
  by (auto simp: take_token_def bucket_ok_def Let_def left_diff_distrib split: if_splits)

text \<open>Refilling adds at most what the time gives, and all of it while the bucket is not full.\<close>

lemma refilled_gain:
  assumes "0 < rl_every rl" "bucket_ok rl now b" "now \<le> later"
  shows "refilled rl b later \<le> refilled rl b now + gained rl now later"
  using gained_nonneg [OF assms(1,3)] gained_sum [of rl "bk_last b" now later]
  unfolding refilled_eq [OF assms(1,2) order_refl] refilled_eq [OF assms] by (simp add: min_def)

lemma refilled_mono:
  assumes "0 < rl_every rl" "bucket_ok rl now b" "now \<le> later"
  shows "refilled rl b now \<le> refilled rl b later"
  using gained_nonneg [OF assms(1,3)] gained_sum [of rl "bk_last b" now later]
  unfolding refilled_eq [OF assms(1,2) order_refl] refilled_eq [OF assms] by (simp add: min_def)

text \<open>A full bucket is as good as a new one.\<close>

lemma full_as_new:
  assumes "bucket_ok rl now b" "of_int (rl_burst rl) \<le> refilled rl b now"
  shows "take_token rl now b = take_token rl now (new_bucket rl now)"
proof -
  have "refilled rl b now = refilled rl (new_bucket rl now) now"
    using assms refilled_le [OF assms(1)] by (simp add: refilled_new)
  then show ?thesis by (simp add: take_token_def)
qed

section \<open>The limiter that forgets nobody\<close>

fun remember_all :: "rate_limit \<Rightarrow> (instant \<times> string) list \<Rightarrow> buckets \<Rightarrow> (bool \<times> duration) list \<times> buckets" where
  "remember_all rl [] us = ([], us)"
| "remember_all rl ((now, key) # calls) us =
     (let (answer, b) = take_token rl now (case map_of us key of Some b \<Rightarrow> b | None \<Rightarrow> new_bucket rl now);
          (answers, us) = remember_all rl calls (AList.update key b us)
      in (answer # answers, us))"

definition limited :: "rate_limit \<Rightarrow> instant \<Rightarrow> buckets \<Rightarrow> buckets" where
  "limited rl now us = filter (\<lambda>(k, b). \<not> of_int (rl_burst rl) \<le> refilled rl b now) us"

text \<open>At every call there are fewer clients being limited than may be remembered.\<close>

fun roomy :: "rate_limit \<Rightarrow> (instant \<times> string) list \<Rightarrow> buckets \<Rightarrow> bool" where
  "roomy rl [] us \<longleftrightarrow> True"
| "roomy rl ((now, key) # calls) us \<longleftrightarrow>
     int (length (limited rl now us)) < rl_max rl
     \<and> roomy rl calls (snd (remember_all rl [(now, key)] us))"

definition times_ok :: "rate_limit \<Rightarrow> (instant \<times> string) list \<Rightarrow> buckets \<Rightarrow> bool" where
  "times_ok rl calls us \<longleftrightarrow> 0 < rl_every rl \<and> 0 \<le> rl_burst rl \<and> sorted (map fst calls) \<and> distinct (map fst us)
     \<and> (calls \<noteq> [] \<longrightarrow> (\<forall>(k, b) \<in> set us. bucket_ok rl (fst (hd calls)) b))"

lemma update_distinct: "distinct (map fst us) \<Longrightarrow> distinct (map fst (AList.update k b us))"
  by (rule distinct_update)

lemma set_update_subset: "set (AList.update k b us) \<subseteq> insert (k, b) (set us)"
  by (induction us) auto

definition held :: "rate_limit \<Rightarrow> instant \<Rightarrow> string \<Rightarrow> buckets \<Rightarrow> bucket" where
  "held rl now key us = (case map_of us key of Some b \<Rightarrow> b | None \<Rightarrow> new_bucket rl now)"

lemma held_ok: "times_ok rl ((now, k) # calls) us \<Longrightarrow> bucket_ok rl now (held rl now key us)"
  using new_bucket_ok by (auto simp: times_ok_def held_def split: option.splits dest: map_of_SomeD)

lemma times_ok_step:
  assumes ok: "times_ok rl ((now, key) # calls) us" and take: "take_token rl now (held rl now key us) = (answer, b)"
  shows "times_ok rl calls (AList.update key b us)" "bucket_ok rl now b"
proof -
  show b: "bucket_ok rl now b"
    using take_token_ok [OF held_ok [OF ok] _ _ take] ok by (simp add: times_ok_def)
  have "bucket_ok rl (fst (hd calls)) c" if "(k, c) \<in> set (AList.update key b us)" "calls \<noteq> []" for k c
  proof -
    have "now \<le> fst (hd calls)" using ok that(2) by (cases calls) (auto simp: times_ok_def)
    moreover have "bucket_ok rl now c" using that(1) set_update_subset [of key b us] ok b by (auto simp: times_ok_def)
    ultimately show ?thesis by (rule bucket_later [rotated])
  qed
  then show "times_ok rl calls (AList.update key b us)"
    using ok by (auto simp: times_ok_def update_distinct)
qed

section \<open>How many are let in\<close>

definition admissions :: "string \<Rightarrow> (instant \<times> string) list \<Rightarrow> (bool \<times> duration) list \<Rightarrow> nat" where
  "admissions key calls answers = length (filter (\<lambda>((_, k), ok, _). k = key \<and> ok) (zip calls answers))"

lemma admissions_simps [simp]:
  "admissions key [] answers = 0"
  "admissions key ((t, k) # calls) ((ok, x) # answers) = (if k = key \<and> ok then 1 else 0) + admissions key calls answers"
  by (simp_all add: admissions_def)

definition spare :: "rate_limit \<Rightarrow> instant \<Rightarrow> string \<Rightarrow> buckets \<Rightarrow> rat" where
  "spare rl now key us = refilled rl (held rl now key us) now"

lemma spare_taken:
  assumes "take_token rl now (held rl now key us) = ((ok, x), b)"
  shows "bk_last b = now \<and> bk_tokens b = spare rl now key us - (if ok then 1 else 0) \<and> (ok \<longrightarrow> 1 \<le> spare rl now key us)"
  using assms by (auto simp: take_token_def spare_def Let_def split: if_splits)

lemma spare_gain:
  assumes ok: "times_ok rl ((now, k) # calls) us" and "now \<le> later"
  shows "spare rl later key us \<le> spare rl now key us + gained rl now later"
proof (cases "map_of us key")
  case None
  then show ?thesis using gained_nonneg assms by (simp add: spare_def held_def refilled_new times_ok_def)
next
  case (Some b)
  then show ?thesis using refilled_gain [OF _ held_ok [OF ok, of key] assms(2)] ok by (simp add: spare_def held_def times_ok_def)
qed

lemma remember_bound:
  assumes "times_ok rl ((now, k) # calls) us" "remember_all rl ((now, k) # calls) us = (answers, us')"
  shows "of_nat (admissions key ((now, k) # calls) answers) \<le> spare rl now key us + gained rl now (fst (last ((now, k) # calls)))"
  using assms
proof (induction calls arbitrary: now k us answers)
  case Nil
  obtain ok x b where take: "take_token rl now (held rl now k us) = ((ok, x), b)" by (metis surj_pair)
  have "spare rl now key us \<ge> 0"
    using refilled_nonneg [OF held_ok [OF Nil.prems(1), of key]] Nil.prems(1) by (simp add: spare_def times_ok_def)
  then show ?case
    using Nil.prems take spare_taken [OF take]
    by (auto simp: held_def [symmetric] gained_def times_ok_def)
next
  case (Cons c calls)
  obtain later k' where c: "c = (later, k')" by (cases c)
  obtain ok x b where take: "take_token rl now (held rl now k us) = ((ok, x), b)" by (metis surj_pair)
  let ?us = "AList.update k b us"
  obtain more_answers where rest: "remember_all rl ((later, k') # calls) ?us = (more_answers, us')" and
    answers: "answers = (ok, x) # more_answers"
    using Cons.prems(2) take by (auto simp: c held_def [symmetric] split: prod.splits)
  note ok = times_ok_step [OF Cons.prems(1) take]
  have later: "now \<le> later" and every: "0 < rl_every rl" using Cons.prems(1) by (auto simp: c times_ok_def)
  have "spare rl later key ?us \<le> spare rl now key us - (if k = key \<and> ok then 1 else 0) + gained rl now later"
  proof (cases "k = key")
    case True
    have "refilled rl b now = bk_tokens b" using spare_taken [OF take] by (simp add: refilled_def)
    then show ?thesis
      using True spare_taken [OF take] refilled_gain [OF every ok(2) later]
      by (simp add: spare_def [of rl later] held_def update_conv)
  next
    case False
    then show ?thesis using spare_gain [OF Cons.prems(1) later, of key] by (simp add: spare_def held_def update_conv)
  qed
  moreover have "of_nat (admissions key ((now, k) # (later, k') # calls) answers)
      = (if k = key \<and> ok then 1 else 0) + (of_nat (admissions key ((later, k') # calls) more_answers) :: rat)"
    by (simp add: answers)
  moreover have "fst (last ((now, k) # (later, k') # calls)) = fst (last ((later, k') # calls))" by simp
  ultimately show ?case
    using Cons.IH [OF ok(1) [unfolded c] rest] gained_sum [of rl now later "fst (last ((later, k') # calls))"]
    unfolding c by (simp only: split: if_splits)
qed

section \<open>Forgetting full buckets\<close>

definition same_for_all :: "rate_limit \<Rightarrow> instant \<Rightarrow> buckets \<Rightarrow> buckets \<Rightarrow> bool" where
  "same_for_all rl now bs us \<longleftrightarrow> distinct (map fst bs)
     \<and> (\<forall>k. case map_of bs k of
          Some b \<Rightarrow> map_of us k = Some b
        | None \<Rightarrow> (\<forall>b. map_of us k = Some b \<longrightarrow> of_int (rl_burst rl) \<le> refilled rl b now))"

lemma same_found: "same_for_all rl now bs us \<Longrightarrow> map_of bs k = Some b \<Longrightarrow> map_of us k = Some b"
  unfolding same_for_all_def by (drule conjunct2, drule spec [of _ k]) simp

lemma same_full:
  "same_for_all rl now bs us \<Longrightarrow> map_of bs k = None \<Longrightarrow> map_of us k = Some b \<Longrightarrow> of_int (rl_burst rl) \<le> refilled rl b now"
  unfolding same_for_all_def by (drule conjunct2, drule spec [of _ k]) simp

lemma same_listed: "same_for_all rl now bs us \<Longrightarrow> set bs \<subseteq> set us"
proof
  fix x
  assume same: "same_for_all rl now bs us" and "x \<in> set bs"
  then have "map_of bs (fst x) = Some (snd x)" by (simp add: same_for_all_def)
  then have "map_of us (fst x) = Some (snd x)" by (rule same_found [OF same])
  then show "x \<in> set us" by (metis map_of_SomeD prod.collapse)
qed

lemma kept_length:
  assumes "same_for_all rl now bs us"
  shows "length (limited rl now bs) \<le> length (limited rl now us)"
proof -
  have "distinct (limited rl now bs)" using assms by (simp add: same_for_all_def distinct_map limited_def)
  then have "length (limited rl now bs) = card (set (limited rl now bs))" by (rule distinct_card [symmetric])
  also have "\<dots> \<le> card (set (limited rl now us))"
    using same_listed [OF assms] by (intro card_mono) (auto simp: limited_def)
  also have "\<dots> \<le> length (limited rl now us)" by (rule card_length)
  finally show ?thesis .
qed

lemma map_of_limited:
  assumes "distinct (map fst bs)"
  shows "map_of (limited rl now bs) k = (case map_of bs k of None \<Rightarrow> None
    | Some b \<Rightarrow> if of_int (rl_burst rl) \<le> refilled rl b now then None else Some b)"
  using assms by (induction bs) (auto simp: limited_def map_of_eq_None_iff image_iff split: option.splits)

lemma same_limited:
  assumes "same_for_all rl now bs us"
  shows "same_for_all rl now (limited rl now bs) us"
proof -
  have bs: "distinct (map fst bs)" using assms by (simp add: same_for_all_def)
  have "case map_of (limited rl now bs) k of
      Some b \<Rightarrow> map_of us k = Some b
    | None \<Rightarrow> (\<forall>b. map_of us k = Some b \<longrightarrow> of_int (rl_burst rl) \<le> refilled rl b now)" for k
  proof -
    have "case map_of bs k of Some b \<Rightarrow> map_of us k = Some b
      | None \<Rightarrow> (\<forall>b. map_of us k = Some b \<longrightarrow> of_int (rl_burst rl) \<le> refilled rl b now)"
      using assms by (simp add: same_for_all_def)
    then show ?thesis by (auto simp: map_of_limited [OF bs] split: option.splits)
  qed
  then show ?thesis using bs by (simp add: same_for_all_def limited_def distinct_map_filter)
qed

lemma room_same:
  assumes "same_for_all rl now bs us" "int (length (limited rl now us)) < rl_max rl"
  shows "\<exists>bs'. make_client_room rl now bs = Some bs' \<and> same_for_all rl now bs' us \<and> (\<forall>k. map_of bs k = None \<longrightarrow> map_of bs' k = None)"
proof -
  have "int (length (limited rl now bs)) < rl_max rl" using kept_length [OF assms(1)] assms(2) by linarith
  then have "forget_oldest rl (limited rl now bs) = Some (limited rl now bs)" by (subst forget_oldest.simps) simp
  moreover have "map_of (limited rl now bs) k = None" if "map_of bs k = None" for k
    using that assms(1) by (simp add: map_of_limited same_for_all_def)
  ultimately show ?thesis
    using assms(1) same_limited [OF assms(1)] by (auto simp: make_client_room_def limited_def)
qed

lemma same_updated:
  assumes same: "same_for_all rl now bs us" and ok: "times_ok rl ((now, key) # calls) us" and later: "now \<le> later"
  shows "same_for_all rl later (AList.update key b bs) (AList.update key b us)"
proof -
  have full: "of_int (rl_burst rl) \<le> refilled rl c later"
    if "map_of us k = Some c" "of_int (rl_burst rl) \<le> refilled rl c now" for k c
    using that ok later refilled_mono [of rl now c later] by (auto simp: times_ok_def dest!: map_of_SomeD)
  have "case map_of (AList.update key b bs) k of
      Some c \<Rightarrow> map_of (AList.update key b us) k = Some c
    | None \<Rightarrow> (\<forall>c. map_of (AList.update key b us) k = Some c \<longrightarrow> of_int (rl_burst rl) \<le> refilled rl c later)" for k
  proof -
    have "case map_of bs k of Some c \<Rightarrow> map_of us k = Some c
      | None \<Rightarrow> (\<forall>c. map_of us k = Some c \<longrightarrow> of_int (rl_burst rl) \<le> refilled rl c now)"
      using same by (simp add: same_for_all_def)
    then show ?thesis using full by (auto simp: update_conv split: option.splits)
  qed
  then show ?thesis using same by (simp add: same_for_all_def update_distinct)
qed

lemma allow_same:
  assumes same: "same_for_all rl now bs us" and ok: "times_ok rl ((now, key) # calls) us"
    and room: "int (length (limited rl now us)) < rl_max rl"
    and take: "take_token rl now (held rl now key us) = (answer, b)" and later: "now \<le> later"
  shows "\<exists>bs'. allow_client rl now key bs = Some (answer, bs') \<and> same_for_all rl later bs' (AList.update key b us)"
proof (cases "map_of bs key")
  case None
  obtain bs' where bs': "make_client_room rl now bs = Some bs'" "same_for_all rl now bs' us"
    using room_same [OF same room] by blast
  have "take_token rl now (new_bucket rl now) = (answer, b)"
  proof (cases "map_of us key")
    case (Some c)
    then have "of_int (rl_burst rl) \<le> refilled rl c now"
      using same_full [OF same None] by simp
    then show ?thesis using full_as_new held_ok [OF ok, of key] take Some by (simp add: held_def)
  qed (use take in \<open>simp add: held_def\<close>)
  then show ?thesis using None bs' same_updated [OF bs'(2) ok later] by (simp add: allow_client_def)
next
  case (Some c)
  then have "map_of us key = Some c" by (rule same_found [OF same])
  then show ?thesis using Some take same_updated [OF same ok later] by (simp add: allow_client_def held_def)
qed

lemma allow_all_same:
  assumes "same_for_all rl now bs us" "times_ok rl calls us" "roomy rl calls us" "calls \<noteq> [] \<longrightarrow> now = fst (hd calls)"
  shows "\<exists>bs'. allow_all rl calls bs = Some (fst (remember_all rl calls us), bs')"
  using assms
proof (induction calls arbitrary: now bs us)
  case (Cons c calls)
  obtain key where c: "c = (now, key)" using Cons.prems(4) by (cases c) auto
  obtain answer b where take: "take_token rl now (held rl now key us) = (answer, b)" by (metis surj_pair)
  define later where "later = (if calls = [] then now else fst (hd calls))"
  have "now \<le> later" using Cons.prems(2) by (cases calls) (auto simp: later_def c times_ok_def)
  moreover have "int (length (limited rl now us)) < rl_max rl" using Cons.prems(3) by (simp add: c)
  ultimately obtain bs' where step: "allow_client rl now key bs = Some (answer, bs')"
    "same_for_all rl later bs' (AList.update key b us)"
    using allow_same [OF Cons.prems(1) Cons.prems(2) [unfolded c] _ take] by blast
  moreover have "roomy rl calls (AList.update key b us)" using Cons.prems(3) take by (simp add: c held_def [symmetric])
  moreover note times_ok_step(1) [OF Cons.prems(2) [unfolded c] take]
  ultimately obtain bs'' where "allow_all rl calls bs' = Some (fst (remember_all rl calls (AList.update key b us)), bs'')"
    using Cons.IH [of later bs' "AList.update key b us"] by (auto simp: later_def)
  then show ?case using step take by (simp add: c held_def [symmetric] split: prod.splits)
qed simp

section \<open>The time a refused client is told\<close>

definition buckets_ok :: "rate_limit \<Rightarrow> instant \<Rightarrow> buckets \<Rightarrow> bool" where
  "buckets_ok rl now bs \<longleftrightarrow> distinct (map fst bs) \<and> (\<forall>(k, b) \<in> set bs. bucket_ok rl now b)"

lemma buckets_later: "buckets_ok rl now bs \<Longrightarrow> now \<le> later \<Longrightarrow> buckets_ok rl later bs"
  using bucket_later by (auto simp: buckets_ok_def)

lemma room_keeps:
  assumes "0 < rl_max rl" "buckets_ok rl now bs" "make_client_room rl now bs = Some bs'"
  shows "buckets_ok rl now bs' \<and> (map_of bs' k = map_of bs k \<or> map_of bs' k = None)"
proof -
  have sub: "set bs' \<subseteq> set bs" "distinct (map fst bs')"
    using client_room_spec [of rl bs now] assms by (auto simp: buckets_ok_def)
  have "map_of bs' k = map_of bs k" if "map_of bs' k = Some b" for b
    using that sub assms(2) by (auto simp: buckets_ok_def dest!: map_of_SomeD)
  then show ?thesis using sub assms(2) by (fastforce simp: buckets_ok_def)
qed

lemma allow_step:
  assumes rl: "0 < rl_max rl" "0 < rl_every rl" "0 \<le> rl_burst rl" and ok: "buckets_ok rl now bs"
    and step: "allow_client rl now key bs = Some (answer, bs')"
  shows "buckets_ok rl now bs' \<and> (\<exists>b'. take_token rl now (held rl now key bs) = (answer, b') \<and> map_of bs' key = Some b')
    \<and> (\<forall>k. k \<noteq> key \<longrightarrow> map_of bs' k = map_of bs k \<or> map_of bs' k = None)"
proof -
  obtain kept b where kept: "bs' = AList.update key b kept" "take_token rl now (held rl now key bs) = (answer, b)"
    "buckets_ok rl now kept" "\<And>k. map_of kept k = map_of bs k \<or> map_of kept k = None"
    using step ok room_keeps [OF rl(1) ok]
    by (auto simp: allow_client_def held_def split: option.splits prod.splits)
  have "bucket_ok rl now (held rl now key bs)"
    using ok new_bucket_ok [OF rl(3)] by (auto simp: buckets_ok_def held_def split: option.splits dest: map_of_SomeD)
  from take_token_ok [OF this rl(2,3) kept(2)] have "buckets_ok rl now bs'"
    using kept(1,3) set_update_subset [of key b kept] by (auto simp: buckets_ok_def update_distinct)
  then show ?thesis using kept by (auto simp: update_conv)
qed

lemma allow_all_append:
  "allow_all rl (calls @ calls') bs =
     (case allow_all rl calls bs of
        None \<Rightarrow> None
      | Some (answers, bs') \<Rightarrow> map_option (\<lambda>(answers', bs''). (answers @ answers', bs'')) (allow_all rl calls' bs'))"
proof (induction calls arbitrary: bs)
  case Nil
  show ?case by (cases "allow_all rl calls' bs") auto
next
  case (Cons c calls)
  have "map_option (\<lambda>(answers, bs). (a # answers, bs)) (map_option (\<lambda>(answers', bs''). (answers @ answers', bs'')) x)
      = map_option (\<lambda>(answers', bs''). (a # answers @ answers', bs'')) x" for a answers x
    by (cases x) auto
  then show ?case using Cons by (cases c) (auto split: option.splits prod.splits)
qed

lemma allow_all_ends:
  assumes rl: "0 < rl_max rl" "0 < rl_every rl" "0 \<le> rl_burst rl"
    and "buckets_ok rl start bs" "sorted (map fst calls)" "\<forall>c \<in> set calls. start \<le> fst c \<and> fst c \<le> stop" "start \<le> stop"
  shows "\<exists>answers bs'. allow_all rl calls bs = Some (answers, bs') \<and> length answers = length calls \<and> buckets_ok rl stop bs'
    \<and> (\<forall>k. k \<notin> snd ` set calls \<longrightarrow> map_of bs' k = map_of bs k \<or> map_of bs' k = None)"
  using assms(4-)
proof (induction calls arbitrary: start bs)
  case Nil
  then show ?case using buckets_later by auto
next
  case (Cons c calls)
  obtain now key where c: "c = (now, key)" by (cases c)
  have ok: "buckets_ok rl now bs" using Cons.prems(1,3) buckets_later by (auto simp: c)
  have "\<exists>x. allow_client rl now key bs = Some x"
    using client_room_spec [OF rl(1), of bs now] ok
    by (auto simp: allow_client_def buckets_ok_def split: option.splits prod.splits)
  then obtain answer bs1 where step: "allow_client rl now key bs = Some (answer, bs1)" by force
  note kept = allow_step [OF rl ok step]
  have "\<exists>answers bs'. allow_all rl calls bs1 = Some (answers, bs') \<and> length answers = length calls \<and> buckets_ok rl stop bs'
    \<and> (\<forall>k. k \<notin> snd ` set calls \<longrightarrow> map_of bs' k = map_of bs1 k \<or> map_of bs' k = None)"
    using Cons.prems kept by (intro Cons.IH [of now]) (auto simp: c)
  then obtain answers bs' where run: "allow_all rl calls bs1 = Some (answers, bs')" "length answers = length calls" "buckets_ok rl stop bs'"
    "\<And>k. k \<notin> snd ` set calls \<Longrightarrow> map_of bs' k = map_of bs1 k \<or> map_of bs' k = None" by blast
  have keep: "map_of bs' k = map_of bs k \<or> map_of bs' k = None" if "k \<notin> snd ` set (c # calls)" for k
  proof -
    have "k \<noteq> key" "k \<notin> snd ` set calls" using that by (auto simp: c)
    then have "map_of bs1 k = map_of bs k \<or> map_of bs1 k = None" using kept [THEN conjunct2, THEN conjunct2] by simp
    then show ?thesis using run(4) [OF \<open>k \<notin> snd ` set calls\<close>] by metis
  qed
  have "allow_all rl (c # calls) bs = Some (answer # answers, bs')" using run(1) step by (simp add: c)
  moreover have "length (answer # answers) = length (c # calls)" using run(2) by simp
  ultimately show ?case using run(3) keep by (intro exI [of _ "answer # answers"] exI [of _ bs'] conjI allI impI)
qed

lemma length_updated: "length (AList.update k b us) = (if k \<in> fst ` set us then length us else Suc (length us))"
  by (induction us) auto

text \<open>The clients remembered stay within their bound.\<close>

lemma allow_room:
  assumes "0 < rl_max rl" "int (length bs) \<le> rl_max rl" "allow_client rl now key bs = Some (answer, bs')"
  shows "int (length bs') \<le> rl_max rl"
proof -
  obtain b b0 kept where kept: "bs' = AList.update key b kept"
      "map_of bs key = Some b0 \<and> kept = bs \<or> map_of bs key = None \<and> make_client_room rl now bs = Some kept"
    using assms(3) by (auto simp: allow_client_def split: option.splits prod.splits)
  from kept(2) show ?thesis
  proof
    assume h: "map_of bs key = Some b0 \<and> kept = bs"
    then have "key \<in> fst ` set bs" by (metis domI dom_map_of_conv_image_fst)
    then show ?thesis using h kept(1) assms(2) length_updated [of key b bs] by simp
  next
    assume h: "map_of bs key = None \<and> make_client_room rl now bs = Some kept"
    then have "int (length kept) < rl_max rl"
      using forget_oldest_ends [OF assms(1), of "filter (\<lambda>(k, b). \<not> of_int (rl_burst rl) \<le> refilled rl b now) bs"]
      by (auto simp: make_client_room_def split: if_splits)
    then show ?thesis using kept(1) length_updated [of key b kept] by (simp split: if_splits)
  qed
qed

lemma allow_all_room:
  assumes "0 < rl_max rl"
  shows "int (length bs) \<le> rl_max rl \<Longrightarrow> allow_all rl calls bs = Some (answers, bs') \<Longrightarrow> int (length bs') \<le> rl_max rl"
proof (induction calls arbitrary: bs answers)
  case (Cons c calls)
  then show ?case using allow_room [OF assms] by (cases c) (fastforce split: option.splits prod.splits)
qed simp

text \<open>A limiter that never forgets lets a client in at the rate, and so does one with room.\<close>

lemma roomy_bounded:
  assumes "0 < rl_every rl" "0 \<le> rl_burst rl" "sorted (map fst (before @ since))" "since \<noteq> []" and r: "roomy rl (before @ since) []"
  shows "\<exists>bs. allow_all rl (before @ since) [] = Some (fst (remember_all rl (before @ since) []), bs)
    \<and> of_nat (admissions key since (drop (length before) (fst (remember_all rl (before @ since) []))))
        \<le> (of_int (rl_burst rl) + of_int (fst (last since) - fst (hd since)) / of_int (rl_every rl) :: rat)"
proof -
  have ok: "times_ok rl (before @ since) []" using assms by (simp add: times_ok_def)
  have "same_for_all rl (fst (hd (before @ since))) [] []" by (simp add: same_for_all_def)
  from allow_all_same [OF this ok r]
  obtain bs where run: "allow_all rl (before @ since) [] = Some (fst (remember_all rl (before @ since) []), bs)" by blast
  have split: "\<exists>us'. times_ok rl calls' us' \<and> fst (remember_all rl (calls @ calls') us) = fst (remember_all rl calls us) @ fst (remember_all rl calls' us')
      \<and> length (fst (remember_all rl calls us)) = length calls"
    if "times_ok rl (calls @ calls') us" for calls calls' us
    using that
  proof (induction calls arbitrary: us)
    case (Cons c calls)
    obtain now k where c: "c = (now, k)" by (cases c)
    obtain answer b where take: "take_token rl now (held rl now k us) = (answer, b)" by (metis surj_pair)
    from Cons.IH [OF times_ok_step(1) [OF Cons.prems [unfolded c append_Cons] take]] show ?case
      using take by (fastforce simp: c held_def [symmetric] split: prod.splits)
  qed auto
  obtain us where us: "times_ok rl since us" "drop (length before) (fst (remember_all rl (before @ since) [])) = fst (remember_all rl since us)"
    using split [OF ok] by (metis append_eq_conv_conj)
  obtain now k rest where since: "since = (now, k) # rest" using assms(4) by (metis neq_Nil_conv surj_pair)
  have "of_nat (admissions key since (fst (remember_all rl since us))) \<le> spare rl now key us + gained rl now (fst (last since))"
    using remember_bound [OF us(1) [unfolded since] surjective_pairing] by (simp add: since)
  moreover have "spare rl now key us \<le> of_int (rl_burst rl)"
    using refilled_le [OF held_ok [OF us(1) [unfolded since]]] by (simp add: spare_def)
  ultimately show ?thesis using run us(2) by (simp add: since gained_def)
qed

text \<open>C25: the sign-in rate. However many clients call and in whatever order, every call is answered and
  no more clients are remembered than may be. As long as fewer of them are being limited at any call
  than may be remembered, every call is answered as by a limiter that never forgets a client, so
  dropping full buckets changes nothing, and among the calls from any point on a client is let in at
  most the burst plus one more per interval passed. Beyond that the client seen longest ago is
  forgotten while it is being limited, and the bound is not claimed.\<close>

theorem rate_bounded:
  assumes "0 < rl_every rl" "0 \<le> rl_burst rl" "0 < rl_max rl" "sorted (map fst (before @ since))" "since \<noteq> []"
  shows "\<exists>answers bs. allow_all rl (before @ since) [] = Some (answers, bs)
    \<and> length answers = length (before @ since) \<and> int (length bs) \<le> rl_max rl
    \<and> (roomy rl (before @ since) [] \<longrightarrow> answers = fst (remember_all rl (before @ since) [])
        \<and> of_nat (admissions key since (drop (length before) answers))
            \<le> (of_int (rl_burst rl) + of_int (fst (last since) - fst (hd since)) / of_int (rl_every rl) :: rat))"
proof -
  let ?calls = "before @ since"
  let ?times = "map fst ?calls"
  have between: "Min (set ?times) \<le> fst c \<and> fst c \<le> Max (set ?times)" if "c \<in> set ?calls" for c
    using that by (intro conjI Min_le Max_ge) auto
  have "hd since \<in> set ?calls" using assms(5) by simp
  from between [OF this] have "Min (set ?times) \<le> Max (set ?times)" by linarith
  moreover have "buckets_ok rl (Min (set ?times)) []" by (simp add: buckets_ok_def)
  ultimately obtain answers bs where run: "allow_all rl ?calls [] = Some (answers, bs)" "length answers = length ?calls"
    using allow_all_ends [OF assms(3,1,2) _ assms(4), of "Min (set ?times)" "[]" "Max (set ?times)"] between by blast
  moreover have "int (length bs) \<le> rl_max rl" using allow_all_room [OF assms(3) _ run(1)] assms(3) by simp
  ultimately show ?thesis using roomy_bounded [OF assms(1,2,4,5)] by fastforce
qed

lemma truncated_whole: "x \<in> \<int> \<Longrightarrow> of_int (truncated x) = x"
  by (auto simp: truncated_def elim: Ints_cases)

lemma refused_token:
  assumes ok: "bucket_ok rl now b" and rl: "0 < rl_every rl" "1 \<le> rl_burst rl"
    and take: "take_token rl now b = ((False, x), b')" and later: "now + x \<le> later"
  shows "0 < x \<and> 1 \<le> refilled rl b' later"
proof -
  have nonneg: "0 \<le> rl_burst rl" using rl(2) by simp
  have b': "bk_last b' = now" "bk_tokens b' < 1" "x = truncated ((1 - bk_tokens b') * of_int (rl_every rl))"
    using take by (auto simp: take_token_def Let_def split: if_splits)
  note ok' = take_token_ok [OF ok rl(1) nonneg take]
  have "(1 - bk_tokens b') * of_int (rl_every rl) \<in> \<int>" using ok' by (simp add: bucket_ok_def left_diff_distrib)
  then have x: "of_int x = (1 - bk_tokens b') * of_int (rl_every rl)" unfolding b'(3) by (rule truncated_whole)
  then have pos: "0 < x" using b'(2) rl(1) by (metis diff_gt_0_iff_gt mult_pos_pos of_int_0_less_iff)
  have "of_int x / of_int (rl_every rl) = 1 - bk_tokens b'" using x rl(1) by simp
  moreover have "of_int x / of_int (rl_every rl) \<le> gained rl now later"
    using later rl(1) unfolding gained_def by (intro divide_right_mono) simp_all
  moreover have "now \<le> later" using later pos by simp
  ultimately have "1 \<le> refilled rl b' later" using rl(2) by (simp add: refilled_eq [OF rl(1) ok'] b'(1))
  then show ?thesis using pos by simp
qed

text \<open>Waiting helps. A client refused and told a time is let in by its next call once that time has
  passed, whatever other clients did meanwhile and even if it was forgotten.\<close>

lemma refused_wait:
  assumes rl: "0 < rl_max rl" "0 < rl_every rl" "1 \<le> rl_burst rl"
    and sorted: "sorted (map fst (before @ (now, key) # between @ [(later, key)]))"
    and "key \<notin> snd ` set between"
    and run: "allow_all rl (before @ (now, key) # between @ [(later, key)]) [] = Some (answers, bs)"
    and refused: "answers ! length before = (False, x)" and waited: "now + x \<le> later"
  shows "0 < x \<and> fst (last answers)"
proof -
  have nonneg: "0 \<le> rl_burst rl" using rl(3) by simp
  let ?start = "fst (hd (before @ [(now, key)]))"
  have "?start \<le> now" "\<forall>c \<in> set before. ?start \<le> fst c \<and> fst c \<le> now" "sorted (map fst before)"
    using sorted by (cases before; auto simp: sorted_append)+
  moreover have "buckets_ok rl ?start []" by (simp add: buckets_ok_def)
  ultimately obtain ans0 bs0 where run0: "allow_all rl before [] = Some (ans0, bs0)" "length ans0 = length before" "buckets_ok rl now bs0"
    using allow_all_ends [OF rl(1,2) nonneg, of ?start "[]" before now] by blast
  obtain answer bs1 rest where step: "allow_client rl now key bs0 = Some (answer, bs1)"
    and rest: "allow_all rl (between @ [(later, key)]) bs1 = Some (rest, bs)" "answers = ans0 @ answer # rest"
    using run run0(1) by (auto simp: allow_all_append split: option.splits prod.splits)
  have answer: "answer = (False, x)" using refused rest(2) run0(2) by (simp add: nth_append)
  obtain b where b: "take_token rl now (held rl now key bs0) = ((False, x), b)" "map_of bs1 key = Some b" and ok1: "buckets_ok rl now bs1"
    using allow_step [OF rl(1,2) nonneg run0(3) step] answer by auto
  have held0: "bucket_ok rl now (held rl now key bs0)"
    using run0(3) new_bucket_ok [OF nonneg] by (auto simp: buckets_ok_def held_def split: option.splits dest: map_of_SomeD)
  note refill = refused_token [OF held0 rl(2,3) b(1) waited]
  have "now \<le> later" "\<forall>c \<in> set between. now \<le> fst c \<and> fst c \<le> later" "sorted (map fst between)"
    using sorted by (auto simp: sorted_append)
  then obtain ans2 bs2 where run2: "allow_all rl between bs1 = Some (ans2, bs2)" "buckets_ok rl later bs2"
    "map_of bs2 key = Some b \<or> map_of bs2 key = None"
    using allow_all_ends [OF rl(1,2) nonneg ok1, of between later] b(2) assms(5) by metis
  obtain last_answer bs3 where last: "allow_client rl later key bs2 = Some (last_answer, bs3)" "rest = ans2 @ [last_answer]"
    using rest(1) run2(1) by (auto simp: allow_all_append split: option.splits prod.splits)
  have "1 \<le> refilled rl (held rl later key bs2) later"
    using refill run2(3) rl(3) by (auto simp: held_def refilled_new)
  then have "fst last_answer"
    using allow_step [OF rl(1,2) nonneg run2(2) last(1)] by (auto simp: take_token_def Let_def)
  then show ?thesis using refill rest(2) last(2) by simp
qed

section \<open>Three calls\<close>

definition example_rate :: rate_limit where
  "example_rate = \<lparr>rl_burst = 1, rl_every = 10, rl_max = 2\<rparr>"

theorem rate_bounded_witness:
  "\<exists>answers bs. allow_all example_rate ([(0, ''a'')] @ [(4, ''a''), (20, ''b'')]) [] = Some (answers, bs) \<and> length bs \<le> 2
    \<and> of_nat (admissions ''a'' [(4, ''a''), (20, ''b'')] (drop 1 answers)) \<le> (1 + 16 / 10 :: rat)"
proof -
  have "roomy example_rate ([(0, ''a'')] @ [(4, ''a''), (20, ''b'')]) []"
    by (simp add: example_rate_def limited_def take_token_def refilled_def new_bucket_def Let_def)
  then show ?thesis using rate_bounded [of example_rate "[(0, ''a'')]" "[(4, ''a''), (20, ''b'')]" "''a''"] by (auto simp: example_rate_def)
qed

end
