(* ===== verification/WebFront.thy ===== *)
theory WebFront
  imports SignIn RateLimit
begin

text \<open>
  The front of the web API, \<open>internal/iface/http\<close>: the answers of \<open>errors.go\<close>, the middleware of
  \<open>middleware.go\<close> and \<open>session_middleware.go\<close> and the routing of \<open>router.go\<close>. A request is what
  \<open>net/http\<close> has read of it: the escaped path as its unescaped segments, the media type of its
  \<open>Content-Type\<close>, the cookies it names. Address parsing (\<open>net/netip\<close>, \<open>net\<close>) is a parameter.
  Handlers are an argument of the server, as the routes of the router are; a panic, which
  \<open>recoverPanics\<close> turns into an answer, has no counterpart in the model.
\<close>

section \<open>Requests and answers\<close>

record web_request =
  wr_method :: string
  wr_segments :: "string list"
  wr_clean :: bool
  wr_media :: "string option"
  wr_length :: int
  wr_cookie :: "string option"
  wr_oidc_cookie :: "string option"
  wr_real_ip :: string
  wr_remote :: string
  wr_agent :: string
  wr_query :: "(string \<times> string list) list"
  wr_body :: string

record web_cookie =
  ck_name :: string
  ck_value :: string
  ck_path :: string
  ck_max_age :: int
  ck_secure :: bool

datatype web_body = NoBody | JsonBody json | LinkBody string

record web_reply =
  rp_status :: nat
  rp_location :: "string option"
  rp_retry :: "int option"
  rp_cookies :: "web_cookie list"
  rp_body :: web_body

definition write_json :: "nat \<Rightarrow> json \<Rightarrow> web_reply" where
  "write_json status doc = \<lparr>rp_status = status, rp_location = None, rp_retry = None, rp_cookies = [], rp_body = JsonBody doc\<rparr>"

definition write_error :: "nat \<Rightarrow> string \<Rightarrow> string \<Rightarrow> web_reply" where
  "write_error status code message = write_json status (JObj [(''code'', JStr code), (''message'', JStr message)])"

definition write_field_error :: "nat \<Rightarrow> string \<Rightarrow> string \<Rightarrow> string \<Rightarrow> web_reply" where
  "write_field_error status code field message =
     write_json status (JObj [(''code'', JStr code), (''message'', JStr message), (''field'', JStr field)])"

definition no_content :: web_reply where
  "no_content = \<lparr>rp_status = 204, rp_location = None, rp_retry = None, rp_cookies = [], rp_body = NoBody\<rparr>"

definition redirect_to :: "web_request \<Rightarrow> string \<Rightarrow> web_reply" where
  "redirect_to rq url = \<lparr>rp_status = 302, rp_location = Some url, rp_retry = None, rp_cookies = [],
     rp_body = (if wr_method rq = ''GET'' then LinkBody url else NoBody)\<rparr>"

definition retry_seconds :: "duration \<Rightarrow> int" where
  "retry_seconds wait = max \<lceil>of_int wait / (1000000000 :: rat)\<rceil> 1"

definition write_retry_after :: "duration \<Rightarrow> string \<Rightarrow> string \<Rightarrow> web_reply" where
  "write_retry_after wait code message = (write_error 429 code message)\<lparr>rp_retry := Some (retry_seconds wait)\<rparr>"

definition internal_error :: "web_reply io" where
  "internal_error = bnd (warn ''internal error serving request'') (\<lambda>_. ret (write_error 500 ''internal'' ''internal error''))"

definition no_endpoint :: web_reply where
  "no_endpoint = write_error 404 ''not_found'' ''no such endpoint''"

section \<open>Middleware\<close>

definition max_body_bytes :: int where "max_body_bytes = 2 ^ 20"
definition max_user_agent :: nat where "max_user_agent = 512"

definition limit_body :: "web_request \<Rightarrow> web_reply option" where
  "limit_body rq =
     (if max_body_bytes < wr_length rq then Some (write_error 413 ''payload_too_large'' ''request body too large'') else None)"

definition require_json :: "web_request \<Rightarrow> web_reply option" where
  "require_json rq =
     (if wr_method rq \<in> {''POST'', ''PUT'', ''PATCH''} \<and> wr_media rq \<noteq> Some ''application/json''
      then Some (write_error 415 ''unsupported_media_type'' ''a POST, PUT or PATCH must send Content-Type: application/json'')
      else None)"

text \<open>What address parsing answers: the text, the text of the unmapped address, and the \<open>/64\<close> of an IPv6 address.\<close>

record address =
  ad_unmapped :: string
  ad_is6 :: bool
  ad_prefix64 :: string

record netip =
  parse_addr :: "string \<Rightarrow> address option"
  split_host_port :: "string \<Rightarrow> string option"

definition rate_key :: "netip \<Rightarrow> string \<Rightarrow> string" where
  "rate_key net ip =
     (case parse_addr net ip of None \<Rightarrow> ip | Some a \<Rightarrow> if ad_is6 a then ad_prefix64 a else ip)"

definition client_ip :: "netip \<Rightarrow> web_request \<Rightarrow> string" where
  "client_ip net rq =
     (case parse_addr net (trim_space (wr_real_ip rq)) of
        Some a \<Rightarrow> ad_unmapped a
      | None \<Rightarrow> (case split_host_port net (wr_remote rq) of None \<Rightarrow> wr_remote rq | Some host \<Rightarrow> host))"

text \<open>\<open>strings.ToValidUTF8\<close> with nothing in place of what is not valid.\<close>

definition to_valid :: "string \<Rightarrow> string" where
  "to_valid s = concat (filter (\<lambda>c. decode_rune c \<noteq> (rune_error, 1)) (chunks s))"

definition meta_of :: "netip \<Rightarrow> web_request \<Rightarrow> session_meta" where
  "meta_of net rq = \<lparr>sm_ip = client_ip net rq, sm_agent = to_valid (take max_user_agent (wr_agent rq))\<rparr>"

type_synonym caller = "session \<times> user"

definition load_session :: "web_request \<Rightarrow> (web_reply + caller option) io" where
  "load_session rq =
     (case wr_cookie rq of
        None \<Rightarrow> ret (Inr None)
      | Some v \<Rightarrow>
          if v = [] then ret (Inr None)
          else
            bnd (attempt (resolve_session v)) (\<lambda>r.
            case r of
              Inl x \<Rightarrow> if x = ENotFound then ret (Inr None) else bnd internal_error (\<lambda>rp. ret (Inl rp))
            | Inr c \<Rightarrow> ret (Inr (Some c))))"

definition require_session :: "caller option \<Rightarrow> web_reply option" where
  "require_session c = (if c = None then Some (write_error 401 ''unauthenticated'' ''no valid session'') else None)"

definition require_full_session :: "caller option \<Rightarrow> web_reply option" where
  "require_full_session c =
     (case require_session c of
        Some rp \<Rightarrow> Some rp
      | None \<Rightarrow>
          if se_restricted (fst (the c))
          then Some (write_error 403 ''password_change_required'' ''the temporary password must be changed first'') else None)"

text \<open>Without a caller the role is that of the zero value, which is no administrator's.\<close>

definition require_admin_role :: "caller option \<Rightarrow> web_reply option" where
  "require_admin_role c =
     (case c of
        None \<Rightarrow> Some no_endpoint
      | Some (s, u) \<Rightarrow> if u_role u \<noteq> role_admin then Some no_endpoint else None)"

section \<open>Routes\<close>

definition route_login :: string where "route_login = ''POST /api/auth/login''"
definition route_password :: string where "route_password = ''POST /api/auth/password''"
definition route_oidc_start :: string where "route_oidc_start = ''GET /api/auth/oidc/start''"
definition route_oidc_callback :: string where "route_oidc_callback = ''GET /api/auth/oidc/callback''"

definition anonymous_routes :: "string list" where
  "anonymous_routes = [''GET /api/auth/config'', route_login, route_oidc_start, route_oidc_callback, ''POST /api/auth/logout'']"

definition restricted_allowed :: "string list" where
  "restricted_allowed = [''GET /api/me'', route_password]"

definition admin_prefix :: string where "admin_prefix = ''/api/admin/''"

definition admin_only :: "string \<Rightarrow> bool" where
  "admin_only pattern = prefix admin_prefix (case cut (CHR '' '') pattern of None \<Rightarrow> [] | Some (verb, path) \<Rightarrow> path)"

text \<open>How each rate-limited route refuses.\<close>

datatype refusal_kind = RefuseJson | RefuseNavigation

definition sign_in_limited :: "(string \<times> refusal_kind) list" where
  "sign_in_limited = [(route_login, RefuseJson), (route_password, RefuseJson),
     (route_oidc_start, RefuseNavigation), (route_oidc_callback, RefuseNavigation)]"

definition refuse_rate :: "refusal_kind \<Rightarrow> web_request \<Rightarrow> duration \<Rightarrow> web_reply" where
  "refuse_rate kind rq wait =
     (case kind of
        RefuseJson \<Rightarrow> write_retry_after wait ''rate_limited'' ''too many attempts from this client''
      | RefuseNavigation \<Rightarrow> redirect_to rq ''/login?error=rate_limited'')"

definition admin_user_routes :: "string list" where
  "admin_user_routes = [''GET /api/admin/users'', ''POST /api/admin/users'', ''GET /api/admin/users/{userId}'',
     ''PATCH /api/admin/users/{userId}'', ''POST /api/admin/users/{userId}/password-reset'',
     ''POST /api/admin/users/{userId}/invitation'', ''GET /api/admin/users/{userId}/tokens'',
     ''POST /api/admin/users/{userId}/tokens'', ''DELETE /api/admin/users/{userId}/tokens/{tokenId}'',
     ''GET /api/admin/users/{userId}/activity'', ''GET /api/admin/catalog'', ''POST /api/admin/policy/preview'']"

definition admin_settings_routes :: "string list" where
  "admin_settings_routes = [''GET /api/admin/settings'', ''PUT /api/admin/settings'', ''GET /api/admin/prices'',
     ''PUT /api/admin/prices'', ''POST /api/admin/prices/refresh'']"

definition admin_provider_routes :: "string list" where
  "admin_provider_routes = [''GET /api/admin/providers'', ''POST /api/admin/providers/login/start'',
     ''POST /api/admin/providers/login/complete'', ''POST /api/admin/providers/compat'',
     ''PUT /api/admin/providers/compat/{accountId}'', ''POST /api/admin/providers/compat/discover'',
     ''GET /api/admin/providers/compat/defaults'', ''PATCH /api/admin/providers/{accountId}'',
     ''DELETE /api/admin/providers/{accountId}'']"

definition limit_routes :: "string list" where
  "limit_routes = [''GET /api/me/limits'', ''GET /api/admin/limits'', ''PUT /api/admin/limits'',
     ''GET /api/admin/users/{userId}/limits'', ''PUT /api/admin/users/{userId}/limits'',
     ''POST /api/admin/users/{userId}/limits/reset'']"

definition web_routes :: "bool \<Rightarrow> string list" where
  "web_routes local_login =
     [''GET /api/auth/config''] @ (if local_login then [route_login] else []) @
     [''POST /api/auth/logout'', route_password, route_oidc_start, route_oidc_callback, ''GET /api/me'', ''GET /api/me/tokens'',
      ''POST /api/me/tokens'', ''DELETE /api/me/tokens/{tokenId}'', ''GET /api/me/usage'', ''GET /api/me/models'',
      ''GET /api/config'', ''GET /api/admin/config'', ''PUT /api/admin/config'']
     @ admin_user_routes @ admin_settings_routes @ admin_provider_routes @ limit_routes"

text \<open>How \<open>http.ServeMux\<close> matches: GET serves HEAD too, and a name in braces is one segment that is not empty.\<close>

fun segments_match :: "string list \<Rightarrow> string list \<Rightarrow> bool" where
  "segments_match [] [] \<longleftrightarrow> True"
| "segments_match (p # ps) (s # ss) \<longleftrightarrow>
     (if prefix ''{'' p then s \<noteq> [] else s = p) \<and> segments_match ps ss"
| "segments_match _ _ \<longleftrightarrow> False"

definition pattern_matches :: "web_request \<Rightarrow> string \<Rightarrow> bool" where
  "pattern_matches rq pattern =
     (case cut (CHR '' '') pattern of
        None \<Rightarrow> False
      | Some (verb, path) \<Rightarrow>
          (wr_method rq = verb \<or> verb = ''GET'' \<and> wr_method rq = ''HEAD'')
          \<and> segments_match (tl (split_at (CHR ''/'') path)) (wr_segments rq))"

text \<open>What \<open>encoding/json\<close> finds at the head of a text: a value, an error, or that the text ends inside a value.\<close>

datatype json_read = JsonValue json | JsonSyntax | JsonIncomplete

record web_config =
  wb_net :: netip
  wb_json :: "string \<Rightarrow> json_read"
  wb_rate :: rate_limit
  wb_local_login :: bool
  wb_secure :: bool

definition match_route :: "web_config \<Rightarrow> web_request \<Rightarrow> string option" where
  "match_route wb rq = find (pattern_matches rq) (web_routes (wb_local_login wb))"

text \<open>The rate a router is made with: the default for the zero value, and no router for an impossible one.\<close>

definition router_rate :: "rate_limit \<Rightarrow> rate_limit option" where
  "router_rate rl =
     (let rl = (if rl = \<lparr>rl_burst = 0, rl_every = 0, rl_max = 0\<rparr> then default_rate else rl) in
      if rl_burst rl < 1 \<or> rl_every rl \<le> 0 \<or> rl_max rl < 1 then None else Some rl)"

definition route_guard :: "string \<Rightarrow> caller option \<Rightarrow> web_reply option" where
  "route_guard pattern c =
     (case (if pattern \<in> set anonymous_routes then None
            else if pattern \<in> set restricted_allowed then require_session c
            else require_full_session c) of
        Some rp \<Rightarrow> Some rp
      | None \<Rightarrow> if admin_only pattern then require_admin_role c else None)"

datatype verdict = RefusedWith web_reply | Cleaned | Runs string "caller option" | Unending

definition rate_limited :: "web_config \<Rightarrow> string \<Rightarrow> web_request \<Rightarrow> buckets \<Rightarrow> (web_reply option option \<times> buckets) io" where
  "rate_limited wb pattern rq bs =
     (case map_of sign_in_limited pattern of
        None \<Rightarrow> ret (Some None, bs)
      | Some kind \<Rightarrow>
          bnd now_io (\<lambda>now.
          case allow_client (wb_rate wb) now (rate_key (wb_net wb) (client_ip (wb_net wb) rq)) bs of
            None \<Rightarrow> ret (None, bs)
          | Some ((ok, wait), bs) \<Rightarrow> ret (Some (if ok then None else Some (refuse_rate kind rq wait)), bs)))"

definition mux :: "web_config \<Rightarrow> web_request \<Rightarrow> caller option \<Rightarrow> buckets \<Rightarrow> (verdict \<times> buckets) io" where
  "mux wb rq c bs =
     (if \<not> wr_clean rq then ret (Cleaned, bs)
      else case match_route wb rq of
        None \<Rightarrow> ret (RefusedWith no_endpoint, bs)
      | Some pattern \<Rightarrow>
          bnd (rate_limited wb pattern rq bs) (\<lambda>(limited, bs).
          case limited of
            None \<Rightarrow> ret (Unending, bs)
          | Some (Some rp) \<Rightarrow> ret (RefusedWith rp, bs)
          | Some None \<Rightarrow>
              (case route_guard pattern c of
                 Some rp \<Rightarrow> ret (RefusedWith rp, bs)
               | None \<Rightarrow> ret (Runs pattern c, bs))))"

definition web_front :: "web_config \<Rightarrow> web_request \<Rightarrow> buckets \<Rightarrow> (verdict \<times> buckets) io" where
  "web_front wb rq bs =
     (case limit_body rq of
        Some rp \<Rightarrow> ret (RefusedWith rp, bs)
      | None \<Rightarrow>
          (case require_json rq of
             Some rp \<Rightarrow> ret (RefusedWith rp, bs)
           | None \<Rightarrow>
               bnd (load_session rq) (\<lambda>loaded.
               case loaded of
                 Inl rp \<Rightarrow> ret (RefusedWith rp, bs)
               | Inr c \<Rightarrow> mux wb rq c bs)))"

section \<open>Who gets through\<close>

text \<open>The caller a request stands for, by the tables at a tick: the live session its cookie names and the owner, if he may
  sign in, with the restriction of his flag.\<close>

definition live_caller :: "env \<Rightarrow> db \<Rightarrow> nat \<Rightarrow> web_request \<Rightarrow> caller \<Rightarrow> bool" where
  "live_caller e d n rq c \<longleftrightarrow>
     (\<exists>v row. wr_cookie rq = Some v \<and> v \<noteq> [] \<and> session_of e d n v row (snd c)
       \<and> fst c = (row_session row)\<lparr>se_restricted := u_must_change (snd c)\<rparr>)"

definition named_caller :: "env \<Rightarrow> db \<Rightarrow> nat \<Rightarrow> web_request \<Rightarrow> caller option \<Rightarrow> bool" where
  "named_caller e d n rq c \<longleftrightarrow> (case c of None \<Rightarrow> True | Some x \<Rightarrow> live_caller e d n rq x)"

lemma wp_internal_error: "wp internal_error e w Q = Q (Inr (write_error 500 ''internal'' ''internal error''))
    (w\<lparr>w_log := w_log w @ [''internal error serving request'']\<rparr>)"
  by (simp add: internal_error_def wp_simps)

lemma wp_load_session:
  "wp (load_session rq) e w (\<lambda>r w'. w_db w' = w_db w \<and> (case r of
      Inl _ \<Rightarrow> False
    | Inr (Inl rp) \<Rightarrow> rp = write_error 500 ''internal'' ''internal error''
    | Inr (Inr c) \<Rightarrow> named_caller e (w_db w) (w_tick w) rq c))"
proof (cases "wr_cookie rq")
  case (Some v)
  show ?thesis
  proof (cases "v = []")
    case False
    have "wp (resolve_session v) e w (\<lambda>r w'. w_db w' = w_db w \<and> (case r of
        Inr c \<Rightarrow> live_caller e (w_db w) (w_tick w) rq c | Inl _ \<Rightarrow> True))"
      by (rule wp_mono [OF wp_resolve_session]) (use Some False in \<open>auto simp: live_caller_def split: sum.splits prod.splits\<close>)
    then show ?thesis
      using Some False by (auto simp: load_session_def wp_simps wp_internal_error named_caller_def elim!: wp_mono split: sum.splits)
  qed (use Some in \<open>simp add: load_session_def wp_simps named_caller_def\<close>)
qed (simp add: load_session_def wp_simps named_caller_def)

text \<open>What may reach the handler of a route.\<close>

definition guarded :: "env \<Rightarrow> db \<Rightarrow> nat \<Rightarrow> web_request \<Rightarrow> string \<Rightarrow> caller option \<Rightarrow> bool" where
  "guarded e d n rq p c \<longleftrightarrow> named_caller e d n rq c
     \<and> (p \<notin> set anonymous_routes \<longrightarrow> (\<exists>s u. c = Some (s, u) \<and> (p \<notin> set restricted_allowed \<longrightarrow> \<not> u_must_change u)))
     \<and> (admin_only p \<longrightarrow> (\<exists>s u. c = Some (s, u) \<and> u_role u = role_admin))"

lemma live_restricted: "live_caller e d n rq (s, u) \<Longrightarrow> se_restricted s = u_must_change u"
  by (auto simp: live_caller_def)

lemma route_guard_passed:
  assumes "route_guard p c = None" "named_caller e d n rq c"
  shows "guarded e d n rq p c"
  using assms
  by (cases c) (auto simp: route_guard_def guarded_def require_session_def require_full_session_def require_admin_role_def
      named_caller_def live_restricted split: if_splits option.splits)

definition error_code :: "web_reply \<Rightarrow> string option" where
  "error_code rp = (case rp_body rp of JsonBody (JObj ((k, JStr code) # _)) \<Rightarrow> if k = ''code'' then Some code else None | _ \<Rightarrow> None)"

text \<open>The refusals of the front: the contract's error with its status, or back to the login page.\<close>

definition front_refusal :: "web_reply \<Rightarrow> bool" where
  "front_refusal rp \<longleftrightarrow> rp_cookies rp = [] \<and>
     (rp_status rp, error_code rp) \<in> {(401, Some ''unauthenticated''), (403, Some ''password_change_required''),
        (404, Some ''not_found''), (413, Some ''payload_too_large''), (415, Some ''unsupported_media_type''),
        (429, Some ''rate_limited''), (500, Some ''internal''), (302, None)}"

lemma error_shapes [simp]:
  "error_code (write_error status code message) = Some code" "rp_status (write_error status code message) = status"
  "rp_cookies (write_error status code message) = []" "rp_status (redirect_to rq url) = 302" "rp_cookies (redirect_to rq url) = []"
  "error_code (redirect_to rq url) = None" "error_code (rp\<lparr>rp_retry := x\<rparr>) = error_code rp"
  by (simp_all add: error_code_def write_error_def write_json_def redirect_to_def)

lemma front_errors [simp]:
  "front_refusal (write_error 401 ''unauthenticated'' m)" "front_refusal (write_error 403 ''password_change_required'' m)"
  "front_refusal (write_error 404 ''not_found'' m)" "front_refusal (write_error 413 ''payload_too_large'' m)"
  "front_refusal (write_error 415 ''unsupported_media_type'' m)" "front_refusal (write_error 429 ''rate_limited'' m)"
  "front_refusal (write_error 500 ''internal'' m)" "front_refusal (redirect_to rq url)"
  by (simp_all add: front_refusal_def)

lemma no_endpoint_refusal: "front_refusal no_endpoint"
  by (simp add: no_endpoint_def)

lemma guard_refusals:
  "require_session c = Some rp \<Longrightarrow> front_refusal rp" "require_full_session c = Some rp \<Longrightarrow> front_refusal rp"
  "require_admin_role c = Some rp \<Longrightarrow> front_refusal rp"
  unfolding require_full_session_def require_session_def require_admin_role_def
  by (auto simp: no_endpoint_refusal split: if_splits option.splits)

lemma route_guard_refusal: "route_guard p c = Some rp \<Longrightarrow> front_refusal rp"
  unfolding route_guard_def by (auto dest: guard_refusals split: if_splits option.splits)

lemma refuse_rate_refusal: "front_refusal (refuse_rate kind rq wait)"
  by (cases kind) (simp_all add: refuse_rate_def write_retry_after_def, simp add: front_refusal_def)

definition front_decided :: "web_config \<Rightarrow> web_request \<Rightarrow> env \<Rightarrow> world \<Rightarrow> (verdict \<times> buckets) result \<Rightarrow> world \<Rightarrow> bool" where
  "front_decided wb rq e w r w' \<longleftrightarrow> w_db w' = w_db w \<and> (case r of
     Inl _ \<Rightarrow> False
   | Inr (RefusedWith rp, bs) \<Rightarrow> front_refusal rp
   | Inr (Cleaned, bs) \<Rightarrow> \<not> wr_clean rq
   | Inr (Runs p c, bs) \<Rightarrow> p \<in> set (web_routes (wb_local_login wb)) \<and> pattern_matches rq p \<and> guarded e (w_db w) (w_tick w) rq p c
       \<and> wr_length rq \<le> 2 ^ 20
       \<and> (wr_method rq \<in> {''POST'', ''PUT'', ''PATCH''} \<longrightarrow> wr_media rq = Some ''application/json'')
   | Inr (Unending, bs) \<Rightarrow> False)"

lemma match_route_listed: "match_route wb rq = Some p \<Longrightarrow> p \<in> set (web_routes (wb_local_login wb)) \<and> pattern_matches rq p"
  by (auto simp: match_route_def dest: find_Some_mem)

lemma wp_rate_limited:
  assumes "0 < rl_max (wb_rate wb)" "distinct (map fst bs)"
  shows "wp (rate_limited wb p rq bs) e w (\<lambda>r w'. w_db w' = w_db w \<and> (\<exists>limited bs'. r = Inr (Some limited, bs')
      \<and> (case limited of None \<Rightarrow> True | Some rp \<Rightarrow> front_refusal rp)))"
proof (cases "map_of sign_in_limited p")
  case (Some kind)
  let ?key = "rate_key (wb_net wb) (client_ip (wb_net wb) rq)"
  have "\<exists>x. allow_client (wb_rate wb) now ?key bs = Some x" for now
    using client_room_spec [OF assms, of now] by (auto simp: allow_client_def split: option.splits prod.splits)
  then obtain ok wait bs' where "allow_client (wb_rate wb) (clock e (w_tick w)) ?key bs = Some ((ok, wait), bs')" by (metis surj_pair)
  then show ?thesis using Some refuse_rate_refusal by (simp add: rate_limited_def wp_simps)
qed (simp add: rate_limited_def wp_simps)

lemma wp_mux:
  assumes "0 < rl_max (wb_rate wb)" "distinct (map fst bs)" "limit_body rq = None" "require_json rq = None"
    and "named_caller e (w_db w) n rq c" "w_db v = w_db w" "n = w_tick w"
  shows "wp (mux wb rq c bs) e v (front_decided wb rq e w)"
proof -
  have "front_decided wb rq e w (Inr (RefusedWith rp, bs')) v'" if "w_db v' = w_db w" "front_refusal rp" for rp bs' v'
    using that by (simp add: front_decided_def)
  moreover note no_endpoint_refusal
  moreover have "front_decided wb rq e w (Inr (Runs p c, bs')) v'"
    if "w_db v' = w_db w" "match_route wb rq = Some p" "route_guard p c = None" for p bs' v'
    using that match_route_listed [OF that(2)] route_guard_passed [OF that(3) assms(5)] assms(3,4,7)
    by (auto simp: front_decided_def limit_body_def max_body_bytes_def require_json_def split: if_splits)
  ultimately show ?thesis
    using assms(6)
    by (auto simp: mux_def wp_simps front_decided_def [of _ _ _ _ "Inr (Cleaned, _)"] route_guard_refusal
        intro!: wp_mono [OF wp_rate_limited [OF assms(1,2)]] split: option.splits)
qed

text \<open>C23: the guards of the web API. Every request is decided and changes no table before its handler runs.
  A handler runs only for the route it is registered under, with a body that is not declared too large and, where
  the request may change something, declared as JSON; unless the route is one of the few open ones the caller
  is the owner of the live session the cookie names and may sign in, his temporary password is replaced unless the route is one
  he replaces it by, and the administration's routes take an administrator. Every refusal is one of the contract's.\<close>

theorem web_guarded:
  assumes "0 < rl_max (wb_rate wb)" "distinct (map fst bs)" "web_front wb rq bs e w = (r, w')"
  shows "front_decided wb rq e w r w'"
proof -
  have refused: "front_decided wb rq e w (Inr (RefusedWith rp, bs')) v" if "w_db v = w_db w" "front_refusal rp" for rp bs' v
    using that by (simp add: front_decided_def)
  have limits: "limit_body rq = Some rp \<Longrightarrow> front_refusal rp" "require_json rq = Some rp \<Longrightarrow> front_refusal rp" for rp
    by (auto simp: limit_body_def require_json_def split: if_splits)
  have "wp (web_front wb rq bs) e w (front_decided wb rq e w)"
    using refused limits
    by (auto simp: web_front_def wp_simps intro!: wp_mono [OF wp_load_session] wp_mux [OF assms(1,2)] split: option.splits sum.splits)
  then show ?thesis using assms(3) by (rule wp_run)
qed

section \<open>What others see of the administration\<close>

lemma open_not_admin:
  assumes "admin_only p"
  shows "p \<notin> set anonymous_routes" "p \<notin> set restricted_allowed" "map_of sign_in_limited p = None"
proof -
  have "list_all (\<lambda>p. \<not> admin_only p) (anonymous_routes @ restricted_allowed @ map fst sign_in_limited)" by code_simp
  then have "p \<notin> set (anonymous_routes @ restricted_allowed @ map fst sign_in_limited)" using assms by (auto simp: list_all_iff)
  then show "p \<notin> set anonymous_routes" "p \<notin> set restricted_allowed" "map_of sign_in_limited p = None"
    by (auto simp: map_of_eq_None_iff)
qed

definition passes_checks :: "web_request \<Rightarrow> bool" where
  "passes_checks rq \<longleftrightarrow> limit_body rq = None \<and> require_json rq = None"

lemma front_loaded:
  assumes "passes_checks rq" "load_session rq e w = (Inr (Inr c), v)"
  shows "web_front wb rq bs e w = mux wb rq c bs e v"
  using assms by (simp add: web_front_def passes_checks_def bnd_def)

lemma mux_admin:
  assumes "wr_clean rq" "match_route wb rq = Some p" "admin_only p"
  shows "mux wb rq c bs e v = (Inr (case require_full_session c of
      Some rp \<Rightarrow> RefusedWith rp
    | None \<Rightarrow> (case require_admin_role c of Some rp \<Rightarrow> RefusedWith rp | None \<Rightarrow> Runs p c), bs), v)"
  using assms open_not_admin [OF assms(3)]
  by (simp add: mux_def rate_limited_def bnd_def ret_def route_guard_def split: option.splits)

lemma mux_unknown:
  assumes "wr_clean rq" "match_route wb rq = None"
  shows "mux wb rq c bs e v = (Inr (RefusedWith no_endpoint, bs), v)"
  using assms by (simp add: mux_def ret_def)

lemma other_path:
  "passes_checks (rq\<lparr>wr_segments := path\<rparr>) = passes_checks rq" "load_session (rq\<lparr>wr_segments := path\<rparr>) = load_session rq"
  by (simp_all add: passes_checks_def limit_body_def require_json_def load_session_def)

text \<open>The administration's routes and the paths that do not exist. Who is signed in with a replaced
  password and is no administrator is answered on a route of the administration exactly as on a path nothing is
  registered under, in every respect. Without a session, or with a restricted one, the two are told apart: the
  route answers 401 or 403, the unknown path 404.\<close>

lemma admin_hidden:
  assumes "passes_checks rq" "wr_clean rq" "match_route wb rq = Some p" "admin_only p"
    and "match_route wb (rq\<lparr>wr_segments := path\<rparr>) = None" "load_session rq e w = (Inr (Inr c), v)"
  shows "(\<forall>s u. c = Some (s, u) \<and> \<not> se_restricted s \<and> u_role u \<noteq> role_admin \<longrightarrow>
        web_front wb rq bs e w = web_front wb (rq\<lparr>wr_segments := path\<rparr>) bs e w)
    \<and> fst (web_front wb (rq\<lparr>wr_segments := path\<rparr>) bs e w) = Inr (RefusedWith (write_error 404 ''not_found'' ''no such endpoint''), bs)
    \<and> (c = None \<longrightarrow> fst (web_front wb rq bs e w) = Inr (RefusedWith (write_error 401 ''unauthenticated'' ''no valid session''), bs))
    \<and> (\<forall>s u. c = Some (s, u) \<and> se_restricted s \<longrightarrow> fst (web_front wb rq bs e w)
        = Inr (RefusedWith (write_error 403 ''password_change_required'' ''the temporary password must be changed first''), bs))"
proof -
  let ?other = "rq\<lparr>wr_segments := path\<rparr>"
  have here: "web_front wb rq bs e w = mux wb rq c bs e v" by (rule front_loaded [OF assms(1,6)])
  have "web_front wb ?other bs e w = mux wb ?other c bs e v"
    using assms(1,6) by (intro front_loaded) (simp_all add: other_path)
  also have "\<dots> = (Inr (RefusedWith no_endpoint, bs), v)" using assms(2,5) by (intro mux_unknown) simp_all
  finally show ?thesis
    unfolding here mux_admin [OF assms(2-4)]
    by (auto simp: require_full_session_def require_session_def require_admin_role_def no_endpoint_def)
qed

section \<open>A small router\<close>

definition example_net :: netip where
  "example_net = \<lparr>parse_addr = (\<lambda>_. None), split_host_port = (\<lambda>_. None)\<rparr>"

definition example_web :: web_config where
  "example_web = \<lparr>wb_net = example_net, wb_json = (\<lambda>_. JsonSyntax), wb_rate = default_rate, wb_local_login = True, wb_secure = True\<rparr>"

definition me_request :: web_request where
  "me_request = \<lparr>wr_method = ''GET'', wr_segments = [''api'', ''me''], wr_clean = True, wr_media = None, wr_length = 0,
     wr_cookie = Some ''cookie'', wr_oidc_cookie = None, wr_real_ip = ''10.0.0.1'', wr_remote = ''10.0.0.9:80'', wr_agent = [],
     wr_query = [], wr_body = []\<rparr>"

definition users_request :: web_request where
  "users_request = me_request\<lparr>wr_segments := [''api'', ''admin'', ''users'']\<rparr>"

definition ada_caller :: caller where
  "ada_caller = ((row_session example_session)\<lparr>se_restricted := False\<rparr>, ada)"

lemma example_loads: "\<exists>v. load_session me_request example_env example_world = (Inr (Inr (Some ada_caller)), v)"
proof -
  have "fst (resolve_session ''cookie'' example_env example_world) = Inr ada_caller"
    using resolve_session_works [of example_env example_world "''cookie''" example_session ada] example_session_of
    by (simp add: example_world_def example_user_def ada_caller_def) (simp add: example_env_def)
  then obtain v where "resolve_session ''cookie'' example_env example_world = (Inr ada_caller, v)" by (metis prod.collapse)
  then show ?thesis by (simp add: load_session_def me_request_def bnd_def attempt_def ret_def)
qed

lemma example_passes_checks: "passes_checks me_request"
  by (simp add: passes_checks_def limit_body_def require_json_def me_request_def max_body_bytes_def)

theorem web_guarded_witness:
  "\<exists>w'. web_front example_web me_request [] example_env example_world = (Inr (Runs ''GET /api/me'' (Some ada_caller), []), w')
     \<and> guarded example_env example_db 0 me_request ''GET /api/me'' (Some ada_caller)"
proof -
  obtain v where load: "load_session me_request example_env example_world = (Inr (Inr (Some ada_caller)), v)"
    using example_loads by blast
  have "match_route example_web me_request = Some ''GET /api/me''" by code_simp
  moreover have "wr_clean me_request" by (simp add: me_request_def)
  moreover have "map_of sign_in_limited ''GET /api/me'' = None" by code_simp
  moreover have "route_guard ''GET /api/me'' (Some ada_caller) = None"
    by (simp add: route_guard_def anonymous_routes_def restricted_allowed_def route_login_def route_password_def route_oidc_start_def
        route_oidc_callback_def require_session_def) code_simp
  ultimately have run: "web_front example_web me_request [] example_env example_world = (Inr (Runs ''GET /api/me'' (Some ada_caller), []), v)"
    unfolding front_loaded [OF example_passes_checks load] by (simp add: mux_def rate_limited_def bnd_def ret_def)
  have "front_decided example_web me_request example_env example_world (Inr (Runs ''GET /api/me'' (Some ada_caller), [])) v"
    by (rule web_guarded [OF _ _ run]) (simp_all add: example_web_def default_rate_def)
  then show ?thesis using run by (simp add: front_decided_def example_world_def)
qed

end
