(* ===== verification/WebAuth.thy ===== *)
theory WebAuth
  imports WebFront Oidc Admin
begin

text \<open>
  The handlers of \<open>internal/iface/http/auth.go\<close> and of the caller's own account and keys in \<open>me.go\<close>,
  with the sealed challenge of \<open>oidc_cookie.go\<close>, the reading of request bodies and the table of
  refusals of \<open>errors.go\<close>. The cipher (AES-GCM under a key derived from the configured one) is a parameter;
  \<open>encoding/json\<close> reading is the one of the web configuration, its writing is a value of type \<open>json\<close>.
\<close>

section \<open>Reading a body\<close>

text \<open>A body is read up to the cap; only a value that does not end within it makes the read run into the cap.\<close>

definition decode_json :: "web_config \<Rightarrow> web_request \<Rightarrow> web_reply + json" where
  "decode_json wb rq =
     (case wb_json wb (take (nat max_body_bytes) (wr_body rq)) of
        JsonValue doc \<Rightarrow> Inr doc
      | JsonSyntax \<Rightarrow> Inl (write_error 422 ''invalid_input'' ''request body is not the expected JSON'')
      | JsonIncomplete \<Rightarrow>
          Inl (if max_body_bytes < int (length (wr_body rq))
               then write_error 413 ''payload_too_large'' ''request body too large''
               else write_error 422 ''invalid_input'' ''request body is not the expected JSON''))"

text \<open>
  Keys are compared folded; of the letters beyond ASCII only the Kelvin sign and the long s fold into it.
  Reading into a struct: unknown keys are skipped, a later value of a key replaces an earlier one, null leaves
  a string as it was and makes a pointer nil, and any other kind of value is an error.
\<close>

definition fold_key :: "string \<Rightarrow> string" where
  "fold_key k = to_lower (concat (map (\<lambda>c.
     if map byte c = [226, 132, 170] then ''k'' else if map byte c = [197, 191] then ''s'' else c) (chunks k)))"

definition json_fields :: "json \<Rightarrow> (string \<times> json) list option" where
  "json_fields doc = (case doc of JObj kvs \<Rightarrow> Some kvs | JNull \<Rightarrow> Some [] | _ \<Rightarrow> None)"

fun text_field :: "string \<Rightarrow> string \<Rightarrow> (string \<times> json) list \<Rightarrow> string option" where
  "text_field name old [] = Some old"
| "text_field name old ((k, v) # kvs) =
     (if fold_key k \<noteq> name then text_field name old kvs
      else case v of JStr s \<Rightarrow> text_field name s kvs | JNull \<Rightarrow> text_field name old kvs | _ \<Rightarrow> None)"

fun text_pointer :: "string \<Rightarrow> string option \<Rightarrow> (string \<times> json) list \<Rightarrow> string option option" where
  "text_pointer name old [] = Some old"
| "text_pointer name old ((k, v) # kvs) =
     (if fold_key k \<noteq> name then text_pointer name old kvs
      else case v of JStr s \<Rightarrow> text_pointer name (Some s) kvs | JNull \<Rightarrow> text_pointer name None kvs | _ \<Rightarrow> None)"

definition bad_json :: web_reply where
  "bad_json = write_error 422 ''invalid_input'' ''request body is not the expected JSON''"

definition decode_login :: "web_config \<Rightarrow> web_request \<Rightarrow> web_reply + string \<times> string" where
  "decode_login wb rq =
     (case decode_json wb rq of
        Inl rp \<Rightarrow> Inl rp
      | Inr doc \<Rightarrow>
          (case json_fields doc of
             None \<Rightarrow> Inl bad_json
           | Some kvs \<Rightarrow>
               (case (text_field ''email'' [] kvs, text_field ''password'' [] kvs) of
                  (Some email, Some password) \<Rightarrow> Inr (email, password)
                | _ \<Rightarrow> Inl bad_json)))"

definition decode_password_change :: "web_config \<Rightarrow> web_request \<Rightarrow> web_reply + string option \<times> string" where
  "decode_password_change wb rq =
     (case decode_json wb rq of
        Inl rp \<Rightarrow> Inl rp
      | Inr doc \<Rightarrow>
          (case json_fields doc of
             None \<Rightarrow> Inl bad_json
           | Some kvs \<Rightarrow>
               (case (text_pointer ''currentpassword'' None kvs, text_field ''newpassword'' [] kvs) of
                  (Some current, Some new) \<Rightarrow> Inr (current, new)
                | _ \<Rightarrow> Inl bad_json)))"

definition decode_label :: "web_config \<Rightarrow> web_request \<Rightarrow> web_reply + string" where
  "decode_label wb rq =
     (case decode_json wb rq of
        Inl rp \<Rightarrow> Inl rp
      | Inr doc \<Rightarrow>
          (case json_fields doc of
             None \<Rightarrow> Inl bad_json
           | Some kvs \<Rightarrow> (case text_field ''label'' [] kvs of Some label \<Rightarrow> Inr label | None \<Rightarrow> Inl bad_json)))"

section \<open>Refusals of the services\<close>

definition token_limit_message :: string where
  "token_limit_message = ''the account already holds 50 live tokens; revoke one first''"

definition label_message :: string where
  "label_message = ''the label must be 1 to 64 characters with no control characters''"

text \<open>The row of the table an error matches: status, code, the field the row fixes, the diagnostic.\<close>

fun app_refusal :: "err \<Rightarrow> (nat \<times> string \<times> string \<times> string) option" where
  "app_refusal EForbidden = Some (404, ''not_found'', [], ''no such endpoint'')"
| "app_refusal ENotFound = Some (404, ''not_found'', [], ''no such resource'')"
| "app_refusal EPolicyManagedByIDP = Some (409, ''policy_managed_by_idp'', [], ''the policy is managed by the identity provider'')"
| "app_refusal ESelfLockout = Some (409, ''self_lockout'', [], ''an administrator cannot block or demote themselves'')"
| "app_refusal ENotLocal = Some (409, ''not_local'', [], ''the account cannot hold a password'')"
| "app_refusal EAlreadyLinked = Some (409, ''already_linked'', [], ''the account already has an identity provider link'')"
| "app_refusal ENotInvitable = Some (409, ''not_invitable'', [], ''the account cannot be invited'')"
| "app_refusal (EInvalidRule _) = Some (422, ''invalid_rule'', [], ''a policy rule does not parse'')"
| "app_refusal (EInvalidInput _) = Some (422, ''invalid_input'', [], ''a field is missing or not acceptable'')"
| "app_refusal EInvalidLabel = Some (422, ''invalid_input'', ''label'', label_message)"
| "app_refusal (EForbiddenSetting _) = Some (422, ''forbidden_setting'', [], ''the setting is owned by the gateway'')"
| "app_refusal (EInvalidSetting _ _) = Some (422, ''invalid_settings'', [], ''the settings are not valid'')"
| "app_refusal ELoginsBusy = Some (409, ''login_busy'', [], ''too many vendor logins are pending'')"
| "app_refusal EUnsupportedProvider = Some (422, ''unsupported_provider'', [], ''no vendor login exists for that provider'')"
| "app_refusal ELoginExpired = Some (410, ''login_expired'', [], ''the vendor login timed out or was already used'')"
| "app_refusal ELoginFailed = Some (422, ''login_failed'', [], ''the vendor sign-in was not accepted'')"
| "app_refusal ETokenLimit = Some (409, ''token_limit'', [], token_limit_message)"
| "app_refusal ECatalogDisabled = Some (409, ''catalog_disabled'', [], ''no price catalog source is configured'')"
| "app_refusal EProviderUnreachable = Some (502, ''provider_unreachable'', [], ''the provider's model list could not be read'')"
| "app_refusal EProviderAuthFailed = Some (422, ''provider_auth_failed'', ''apiKey'', ''the provider refused the api key'')"
| "app_refusal _ = None"

fun field_of :: "err \<Rightarrow> string" where
  "field_of (EInvalidInput field) = field"
| "field_of (EInvalidRule rule) = rule"
| "field_of (EForbiddenSetting field) = field"
| "field_of (EInvalidSetting field _) = field"
| "field_of _ = []"

definition write_app_error :: "err \<Rightarrow> web_reply io" where
  "write_app_error x =
     (case app_refusal x of
        None \<Rightarrow> internal_error
      | Some (status, code, fixed, message) \<Rightarrow>
          let field = (if fixed = [] then field_of x else fixed) in
          ret (if field = [] then write_error status code message else write_field_error status code field message))"

section \<open>The sealed challenge\<close>

definition oidc_cookie_name :: string where "oidc_cookie_name = ''llmproxy_oidc''"
definition session_cookie_name :: string where "session_cookie_name = ''llmproxy_session''"
definition challenge_ttl :: duration where "challenge_ttl = 10 * ns_minute"
definition min_session_key :: nat where "min_session_key = 32"

record sealer =
  sl_nonce_size :: nat
  sl_seal :: "string \<Rightarrow> string \<Rightarrow> string \<Rightarrow> string"
  sl_open :: "string \<Rightarrow> string \<Rightarrow> string \<Rightarrow> string option"
  sl_write :: "json \<Rightarrow> string"

text \<open>A key below the floor makes no sealer; the cipher a longer one gives is the parameter.\<close>

definition new_challenge_sealer :: "(string \<Rightarrow> sealer) \<Rightarrow> string \<Rightarrow> sealer option" where
  "new_challenge_sealer cipher key = (if length key < min_session_key then None else Some (cipher key))"

definition seal_challenge :: "sealer \<Rightarrow> challenge \<Rightarrow> string io" where
  "seal_challenge sl ch =
     bnd now_io (\<lambda>now.
     let plain = sl_write sl (JObj [(''s'', JStr (ch_state ch)), (''n'', JStr (ch_nonce ch)), (''v'', JStr (ch_verifier ch)),
           (''e'', JNum (of_int ((now + challenge_ttl) div ns_second)))]) in
     bnd (random_io (sl_nonce_size sl)) (\<lambda>nonce.
     ret (b64_encode url_alphabet (nonce @ sl_seal sl nonce plain oidc_cookie_name))))"

fun int_field :: "string \<Rightarrow> int \<Rightarrow> (string \<times> json) list \<Rightarrow> int option" where
  "int_field name old [] = Some old"
| "int_field name old ((k, v) # kvs) =
     (if fold_key k \<noteq> name then int_field name old kvs
      else case v of
        JNum q \<Rightarrow> if q = of_int \<lfloor>q\<rfloor> \<and> - (2 ^ 63) \<le> q \<and> q < 2 ^ 63 then int_field name \<lfloor>q\<rfloor> kvs else None
      | JNull \<Rightarrow> int_field name old kvs
      | _ \<Rightarrow> None)"

definition read_challenge :: "json \<Rightarrow> (challenge \<times> int) option" where
  "read_challenge doc =
     (case json_fields doc of
        None \<Rightarrow> None
      | Some kvs \<Rightarrow>
          (case (text_field ''s'' [] kvs, text_field ''n'' [] kvs, text_field ''v'' [] kvs, int_field ''e'' 0 kvs) of
             (Some st, Some no, Some ve, Some ex) \<Rightarrow> Some (\<lparr>ch_state = st, ch_nonce = no, ch_verifier = ve\<rparr>, ex)
           | _ \<Rightarrow> None))"

text \<open>\<open>Unmarshal\<close> wants the one value and nothing after it; \<open>sl_open\<close> is asked for the rest of the value after the nonce.\<close>

definition open_challenge :: "(string \<Rightarrow> json option) \<Rightarrow> sealer \<Rightarrow> string \<Rightarrow> challenge option io" where
  "open_challenge unmarshal sl v =
     (case b64_decode url_alphabet v of
        None \<Rightarrow> ret None
      | Some raw \<Rightarrow>
          if length raw < sl_nonce_size sl then ret None
          else case sl_open sl (take (sl_nonce_size sl) raw) (drop (sl_nonce_size sl) raw) oidc_cookie_name of
            None \<Rightarrow> ret None
          | Some plain \<Rightarrow>
              (case unmarshal plain of
                 None \<Rightarrow> ret None
               | Some doc \<Rightarrow>
                   (case read_challenge doc of
                      None \<Rightarrow> ret None
                    | Some (ch, expires) \<Rightarrow>
                        bnd now_io (\<lambda>now. ret (if \<not> now < expires * ns_second then None else Some ch)))))"

section \<open>What the handlers answer with\<close>

text \<open>An instant in JSON is RFC 3339 with the fraction of its second, without the zeros it ends in.\<close>

definition json_time :: "instant \<Rightarrow> json" where
  "json_time t =
     (let frac = rev (dropWhile (\<lambda>c. c = CHR ''0'') (rev (pad 9 (t mod ns_second)))) in
      JStr (if frac = [] then rfc3339 t else butlast (rfc3339 t) @ ''.'' @ frac @ ''Z''))"

definition optional_time :: "string \<Rightarrow> instant option \<Rightarrow> (string \<times> json) list" where
  "optional_time key t = (case t of None \<Rightarrow> [] | Some x \<Rightarrow> [(key, json_time x)])"

definition policy_of :: "policy \<Rightarrow> json" where
  "policy_of p = JArr (map (\<lambda>r. JStr (rule_string r)) p)"

definition me_of :: "env \<Rightarrow> user \<Rightarrow> json" where
  "me_of e u = JObj ([(''displayName'', JStr (u_name u))]
     @ (if u_email u \<noteq> [] then [(''email'', JStr (u_email u))] else [])
     @ [(''id'', JStr (uuid_str (ids e) (u_id u))), (''kind'', JStr (u_kind u)), (''policy'', policy_of (u_policy u)),
        (''policySource'', JStr (u_source u)), (''restricted'', JBool (u_must_change u)), (''role'', JStr (u_role u))])"

definition token_of :: "env \<Rightarrow> token \<Rightarrow> json" where
  "token_of e k = JObj ([(''createdAt'', json_time (tk_created k)), (''id'', JStr (uuid_str (ids e) (tk_id k))), (''label'', JStr (tk_label k))]
     @ optional_time ''lastUsedAt'' (tk_last_used k) @ [(''prefix'', JStr (tk_prefix k))] @ optional_time ''revokedAt'' (tk_revoked_at k))"

section \<open>Handlers\<close>

record web_auth =
  wa_web :: web_config
  wa_cfg :: auth_config
  wa_oidc :: "(oidc \<times> idp) option"
  wa_button :: string
  wa_sealer :: sealer
  wa_unmarshal :: "string \<Rightarrow> json option"

definition set_session :: "web_auth \<Rightarrow> session \<Rightarrow> web_cookie io" where
  "set_session wa s =
     bnd now_io (\<lambda>now. ret \<lparr>ck_name = session_cookie_name, ck_value = se_id s, ck_path = ''/'',
       ck_max_age = max 1 (go_div (se_expires s - now) ns_second), ck_secure = wb_secure (wa_web wa)\<rparr>)"

definition clear_session :: "web_auth \<Rightarrow> web_cookie" where
  "clear_session wa = \<lparr>ck_name = session_cookie_name, ck_value = [], ck_path = ''/'', ck_max_age = - 1,
     ck_secure = wb_secure (wa_web wa)\<rparr>"

definition oidc_cookie :: "web_auth \<Rightarrow> string \<Rightarrow> int \<Rightarrow> web_cookie" where
  "oidc_cookie wa value age = \<lparr>ck_name = oidc_cookie_name, ck_value = value, ck_path = ''/api/auth/oidc'', ck_max_age = age,
     ck_secure = wb_secure (wa_web wa)\<rparr>"

definition get_auth_config :: "web_auth \<Rightarrow> web_reply" where
  "get_auth_config wa = write_json 200 (JObj [(''localLogin'', JBool (wb_local_login (wa_web wa))),
     (''oidc'', JObj ((if wa_oidc wa \<noteq> None \<and> wa_button wa \<noteq> [] then [(''displayName'', JStr (wa_button wa))] else [])
        @ [(''enabled'', JBool (wa_oidc wa \<noteq> None))]))])"

definition login :: "web_auth \<Rightarrow> web_request \<Rightarrow> web_reply io" where
  "login wa rq =
     (case decode_login (wa_web wa) rq of
        Inl rp \<Rightarrow> ret rp
      | Inr (email, password) \<Rightarrow>
          bnd (attempt (sign_in (wa_cfg wa) email password (meta_of (wb_net (wa_web wa)) rq))) (\<lambda>r.
          case r of
            Inl (ELockedOut until) \<Rightarrow>
              bnd now_io (\<lambda>now. ret (write_retry_after (until - now) ''locked_out'' ''too many failed attempts for this address''))
          | Inl EInvalidCredentials \<Rightarrow> ret (write_error 401 ''invalid_credentials'' ''invalid credentials'')
          | Inl _ \<Rightarrow> internal_error
          | Inr (s, u) \<Rightarrow>
              bnd (set_session wa s) (\<lambda>ck.
              bnd (asks (\<lambda>e. me_of e u)) (\<lambda>me.
              ret ((write_json 200 me)\<lparr>rp_cookies := [ck]\<rparr>)))))"

definition logout :: "web_auth \<Rightarrow> caller option \<Rightarrow> web_reply io" where
  "logout wa c =
     (case c of
        None \<Rightarrow> ret (no_content\<lparr>rp_cookies := [clear_session wa]\<rparr>)
      | Some (s, u) \<Rightarrow>
          bnd (attempt (sign_out s)) (\<lambda>r.
          case r of
            Inl _ \<Rightarrow> bnd internal_error (\<lambda>rp. ret (rp\<lparr>rp_cookies := [clear_session wa]\<rparr>))
          | Inr _ \<Rightarrow> ret (no_content\<lparr>rp_cookies := [clear_session wa]\<rparr>)))"

definition change_own_password :: "web_auth \<Rightarrow> caller \<Rightarrow> web_request \<Rightarrow> web_reply io" where
  "change_own_password wa c rq =
     (case decode_password_change (wa_web wa) rq of
        Inl rp \<Rightarrow> ret rp
      | Inr (current, new) \<Rightarrow>
          bnd (attempt (change_password (fst c) (case current of None \<Rightarrow> [] | Some p \<Rightarrow> p) new)) (\<lambda>r.
          case r of
            Inr _ \<Rightarrow> ret no_content
          | Inl EEmptyPassword \<Rightarrow> ret (write_field_error 400 ''empty_password'' ''newPassword'' ''the new password is empty'')
          | Inl EWeakPassword \<Rightarrow> ret (write_field_error 400 ''weak_password'' ''newPassword'' ''the new password is too short'')
          | Inl EInvalidCredentials \<Rightarrow> ret (write_error 401 ''invalid_credentials'' ''invalid credentials'')
          | Inl ENotFound \<Rightarrow> ret (write_error 401 ''invalid_credentials'' ''invalid credentials'')
          | Inl EForbidden \<Rightarrow> ret (write_error 401 ''unauthenticated'' ''no valid session'')
          | Inl _ \<Rightarrow> internal_error))"

definition start_oidc :: "web_auth \<Rightarrow> web_request \<Rightarrow> web_reply io" where
  "start_oidc wa rq =
     (case wa_oidc wa of
        None \<Rightarrow> ret (write_error 404 ''oidc_disabled'' ''federated sign-in is not configured'')
      | Some (od, ip) \<Rightarrow>
          bnd (attempt (oidc_begin ip)) (\<lambda>r.
          case r of
            Inl _ \<Rightarrow> internal_error
          | Inr (url, ch) \<Rightarrow>
              bnd (attempt (seal_challenge (wa_sealer wa) ch)) (\<lambda>sealed.
              case sealed of
                Inl _ \<Rightarrow> internal_error
              | Inr v \<Rightarrow> ret ((redirect_to rq url)\<lparr>rp_cookies := [oidc_cookie wa v 600]\<rparr>))))"

definition query_value :: "web_request \<Rightarrow> string \<Rightarrow> string" where
  "query_value rq name = (case map_of (wr_query rq) name of Some (v # _) \<Rightarrow> v | _ \<Rightarrow> [])"

definition oidc_failed :: string where "oidc_failed = ''/login?error=oidc_failed''"
definition oidc_forbidden :: string where "oidc_forbidden = ''/login?error=oidc_forbidden''"

definition finish_oidc :: "web_auth \<Rightarrow> oidc \<Rightarrow> idp \<Rightarrow> web_request \<Rightarrow> challenge option \<Rightarrow> web_reply io" where
  "finish_oidc wa od ip rq held_challenge =
     (let to = (\<lambda>url. (redirect_to rq url)\<lparr>rp_cookies := [oidc_cookie wa [] (- 1)]\<rparr>) in
      case held_challenge of
        None \<Rightarrow> ret (to oidc_failed)
      | Some ch \<Rightarrow>
          if query_value rq ''error'' = ''access_denied'' \<and> challenge_answers (ch_state ch) (query_value rq ''state'')
          then ret (to oidc_forbidden)
          else if query_value rq ''code'' = [] then ret (to oidc_failed)
          else
            bnd (attempt (complete od ip (query_value rq ''code'') (query_value rq ''state'') ch (meta_of (wb_net (wa_web wa)) rq))) (\<lambda>r.
            case r of
              Inl x \<Rightarrow>
                if x = EForbidden then ret (to oidc_forbidden)
                else if x = EInvalidCredentials then ret (to oidc_failed)
                else bnd (warn ''oidc callback failed'') (\<lambda>_. ret (to oidc_failed))
            | Inr s \<Rightarrow>
                bnd (set_session wa s) (\<lambda>ck.
                ret ((redirect_to rq ''/'')\<lparr>rp_cookies := [oidc_cookie wa [] (- 1), ck]\<rparr>))))"

definition oidc_callback :: "web_auth \<Rightarrow> web_request \<Rightarrow> web_reply io" where
  "oidc_callback wa rq =
     (let failed = (redirect_to rq oidc_failed)\<lparr>rp_cookies := [oidc_cookie wa [] (- 1)]\<rparr> in
      case wa_oidc wa of
        None \<Rightarrow> ret failed
      | Some (od, ip) \<Rightarrow>
          (case wr_oidc_cookie rq of
             None \<Rightarrow> ret failed
           | Some v \<Rightarrow> bnd (open_challenge (wa_unmarshal wa) (wa_sealer wa) v) (finish_oidc wa od ip rq)))"

definition get_me :: "caller \<Rightarrow> web_reply io" where
  "get_me c = bnd (asks (\<lambda>e. me_of e (snd c))) (\<lambda>me. ret (write_json 200 me))"

text \<open>The caller acting through the cabinet, an administrator's wider authority set aside.\<close>

definition own_authority :: "user \<Rightarrow> user" where
  "own_authority u = u\<lparr>u_role := role_user\<rparr>"

definition list_my_tokens :: "caller \<Rightarrow> web_reply io" where
  "list_my_tokens c =
     bnd (attempt (list_tokens (own_authority (snd c)) (u_id (snd c)))) (\<lambda>r.
     case r of
       Inl _ \<Rightarrow> internal_error
     | Inr toks \<Rightarrow> bnd (asks (\<lambda>e. JArr (map (token_of e) toks))) (\<lambda>doc. ret (write_json 200 doc)))"

definition issue_my_token :: "web_auth \<Rightarrow> caller \<Rightarrow> web_request \<Rightarrow> web_reply io" where
  "issue_my_token wa c rq =
     (case decode_label (wa_web wa) rq of
        Inl rp \<Rightarrow> ret rp
      | Inr label \<Rightarrow>
          bnd (attempt (issue (own_authority (snd c)) (u_id (snd c)) label)) (\<lambda>r.
          case r of
            Inl EInvalidLabel \<Rightarrow> ret (write_field_error 422 ''invalid_input'' ''label'' label_message)
          | Inl ETokenLimit \<Rightarrow> ret (write_error 409 ''token_limit'' token_limit_message)
          | Inl _ \<Rightarrow> internal_error
          | Inr (tok, secret) \<Rightarrow>
              bnd (asks (\<lambda>e. JObj [(''secret'', JStr secret), (''token'', token_of e tok)])) (\<lambda>doc. ret (write_json 201 doc))))"

fun path_value :: "string \<Rightarrow> string list \<Rightarrow> string list \<Rightarrow> string" where
  "path_value name (p # ps) (v # vs) = (if p = ''{'' @ name @ ''}'' then v else path_value name ps vs)"
| "path_value name _ _ = []"

definition no_token :: web_reply where "no_token = write_error 404 ''not_found'' ''no such token''"

definition revoke_my_token :: "caller \<Rightarrow> web_request \<Rightarrow> web_reply io" where
  "revoke_my_token c rq =
     bnd (asks (\<lambda>e. uuid_parse (ids e) (path_value ''tokenId'' [''api'', ''me'', ''tokens'', ''{tokenId}''] (wr_segments rq)))) (\<lambda>i.
     case i of
       None \<Rightarrow> ret no_token
     | Some i \<Rightarrow>
         bnd (attempt (revoke_token (own_authority (snd c)) i)) (\<lambda>r.
         case r of
           Inr _ \<Rightarrow> ret no_content
         | Inl EAlreadyRevoked \<Rightarrow> ret no_content
         | Inl ENotFound \<Rightarrow> ret no_token
         | Inl EForbidden \<Rightarrow> ret no_token
         | Inl _ \<Rightarrow> internal_error))"

section \<open>Serving\<close>

definition zero_caller :: caller where
  "zero_caller = (\<lparr>se_id = [], se_hash = [], se_user = uuid_nil, se_restricted = False, se_ip = [], se_agent = [],
     se_created = zero_time, se_expires = zero_time\<rparr>, user_zero)"

definition caller_of :: "caller option \<Rightarrow> caller" where
  "caller_of c = (case c of None \<Rightarrow> zero_caller | Some x \<Rightarrow> x)"

type_synonym handler = "string \<Rightarrow> caller option \<Rightarrow> web_request \<Rightarrow> web_reply io"

text \<open>The handlers of this theory by their routes; the others are an argument.\<close>

definition web_handler :: "web_auth \<Rightarrow> handler \<Rightarrow> handler" where
  "web_handler wa others p c rq =
     (if p = ''GET /api/auth/config'' then ret (get_auth_config wa)
      else if p = route_login then login wa rq
      else if p = ''POST /api/auth/logout'' then logout wa c
      else if p = route_password then change_own_password wa (caller_of c) rq
      else if p = route_oidc_start then start_oidc wa rq
      else if p = route_oidc_callback then oidc_callback wa rq
      else if p = ''GET /api/me'' then get_me (caller_of c)
      else if p = ''GET /api/me/tokens'' then list_my_tokens (caller_of c)
      else if p = ''POST /api/me/tokens'' then issue_my_token wa (caller_of c) rq
      else if p = ''DELETE /api/me/tokens/{tokenId}'' then revoke_my_token (caller_of c) rq
      else others p c rq)"

definition web_serve :: "web_auth \<Rightarrow> handler \<Rightarrow> web_request \<Rightarrow> buckets \<Rightarrow> (web_reply option \<times> buckets) io" where
  "web_serve wa others rq bs =
     bnd (web_front (wa_web wa) rq bs) (\<lambda>(v, bs).
     case v of
       RefusedWith rp \<Rightarrow> ret (Some rp, bs)
     | Runs p c \<Rightarrow> bnd (web_handler wa others p c rq) (\<lambda>rp. ret (Some rp, bs))
     | _ \<Rightarrow> ret (None, bs))"

section \<open>What a login opens\<close>

definition created_at :: "env \<Rightarrow> nat \<Rightarrow> session result \<Rightarrow> world \<Rightarrow> bool" where
  "created_at e n r w' \<longleftrightarrow> (case r of Inl _ \<Rightarrow> True | Inr s \<Rightarrow> \<exists>m. se_created s = clock e m)"

lemma wp_created: "wp (open_session u action meta) e w (created_at e n)"
  by (auto simp: open_session_def new_session_id_def sessions_create_def sessions_delete_def audit_record_def audit_insert_def
      created_at_def wp_simps Let_def split: sum.splits)

lemma wp_triv: "wp m e w (\<lambda>_ _. True)"
  by (simp add: wp_def split: prod.splits)

lemma wp_bnd_any: "(\<And>a w'. wp (k a) e w' Q) \<Longrightarrow> (\<And>x w'. Q (Inl x) w') \<Longrightarrow> wp (bnd m k) e w Q"
  unfolding wp_bnd by (rule wp_mono [OF wp_triv]) (auto split: sum.splits)

lemma sign_in_created:
  "wp (sign_in cfg email password meta) e w (\<lambda>r w'. \<forall>s u. r = Inr (s, u) \<longrightarrow> (\<exists>m. se_created s = clock e m))"
proof -
  let ?Q = "\<lambda>(r :: (session \<times> user) result) w'. \<forall>s u. r = Inr (s, u) \<longrightarrow> (\<exists>m. se_created s = clock e m)"
  have tail: "wp (bnd (open_session v ''auth.signin'' meta) (\<lambda>s. ret (s, v))) e w' ?Q" for v w'
    unfolding wp_bnd by (rule wp_mono [OF wp_created [of _ _ _ _ _ 0]]) (auto simp: created_at_def wp_simps split: sum.splits)
  have "wp (if \<not> ok then raise EInvalidCredentials
      else bnd (throttle_reset email) (\<lambda>_. bnd (open_session v ''auth.signin'' meta) (\<lambda>s. ret (s, v)))) e w' ?Q" for ok v w'
  proof (cases ok)
    case True
    then show ?thesis by (simp only: not_True_eq_False if_False) (rule wp_bnd_any, rule tail, simp)
  qed (simp add: wp_raise)
  then show ?thesis unfolding sign_in_def by (intro wp_bnd_any) simp_all
qed

text \<open>Wherever a request with the cookie arrives, as long as the database is as it was left.\<close>

definition lets_in :: "env \<Rightarrow> db \<Rightarrow> instant \<Rightarrow> string \<Rightarrow> user \<Rightarrow> bool" where
  "lets_in e d until value u \<longleftrightarrow>
     (\<forall>rq w. wr_cookie rq = Some value \<and> w_db w = d \<and> db_clock e (w_tick w) < until \<and> (\<forall>n. \<not> fault e n) \<longrightarrow>
        (\<exists>s v. load_session rq e w = (Inr (Inr (Some (s, u))), v) \<and> se_restricted s = u_must_change u))"

lemma load_live:
  assumes "wr_cookie rq = Some v" "v \<noteq> []" "session_of e (w_db w) (w_tick w) v row u" "\<forall>n. \<not> fault e n"
  shows "\<exists>w'. load_session rq e w = (Inr (Inr (Some ((row_session row)\<lparr>se_restricted := u_must_change u\<rparr>, u))), w')"
proof -
  obtain w' where "resolve_session v e w = (Inr ((row_session row)\<lparr>se_restricted := u_must_change u\<rparr>, u), w')"
    using resolve_session_works [OF assms(3,4)] by (metis prod.collapse)
  then show ?thesis using assms(1,2) by (simp add: load_session_def bnd_def attempt_def ret_def)
qed

lemma load_dead:
  assumes "wr_cookie rq = Some v" "\<And>row u. \<not> session_of e (w_db w) (w_tick w) v row u"
  shows "\<nexists>c w'. load_session rq e w = (Inr (Inr (Some c)), w')"
proof
  assume "\<exists>c w'. load_session rq e w = (Inr (Inr (Some c)), w')"
  then obtain c w' where "load_session rq e w = (Inr (Inr (Some c)), w')" by blast
  from wp_run [OF wp_load_session this] have "live_caller e (w_db w) (w_tick w) rq c" by (simp add: named_caller_def)
  then show False using assms by (auto simp: live_caller_def)
qed

lemma account_row:
  assumes "account e d email = Inr u" "distinct (map ur_id (t_users d))"
  shows "scan_user (find (\<lambda>r. ur_id r = u_id u) (t_users d)) = Inr u"
proof -
  obtain r where r: "find (\<lambda>r. lower_email e r = Some (sql_lower e email)) (t_users d) = Some r" "row_user r = Inr u"
    using assms(1) by (auto simp: account_def scan_user_def split: option.splits)
  then have "r \<in> set (t_users d)" by (auto dest: find_Some_mem)
  moreover have "ur_id r = u_id u" using r(2) by (auto simp: row_user_def split: sum.splits)
  ultimately show ?thesis using find_by_key [OF assms(2), of r] r(2) by (simp add: scan_user_def)
qed

lemma opened_lets_in:
  assumes "opened e u action meta d s d'" "account e d email = Inr u" "distinct (map ur_id (t_users d))" "can_sign_in u"
  shows "lets_in e d' (se_expires s) (se_id s) u"
  unfolding lets_in_def
proof (intro allI impI)
  fix rq :: web_request and w :: world
  assume h: "wr_cookie rq = Some (se_id s) \<and> w_db w = d' \<and> db_clock e (w_tick w) < se_expires s \<and> (\<forall>n. \<not> fault e n)"
  obtain raw where raw: "length raw = 32" "se_id s = b64_encode url_alphabet raw" using assms(1) by (auto simp: opened_def)
  then have "length (se_id s) = 43" by (simp add: b64_encode_length)
  then have "se_id s \<noteq> []" by auto
  obtain srow where "session_of e d' (w_tick w) (se_id s) srow u"
    using opened_session_of [OF assms(1) account_row [OF assms(2,3)] assms(4)] h by blast
  then obtain v where "load_session rq e w = (Inr (Inr (Some ((row_session srow)\<lparr>se_restricted := u_must_change u\<rparr>, u))), v)"
    using load_live [of rq "se_id s" e w srow u] h \<open>se_id s \<noteq> []\<close> by blast
  then show "\<exists>s v. load_session rq e w = (Inr (Inr (Some (s, u))), v) \<and> se_restricted s = u_must_change u"
    by (intro exI [of _ "(row_session srow)\<lparr>se_restricted := u_must_change u\<rparr>"] exI [of _ v]) simp
qed

lemma login_ok_signed_in:
  assumes "login wa rq e w = (Inr rp, w')" "rp_status rp = 200"
  shows "\<exists>email password s u v. decode_login (wa_web wa) rq = Inr (email, password)
    \<and> sign_in (wa_cfg wa) email password (meta_of (wb_net (wa_web wa)) rq) e w = (Inr (s, u), v) \<and> w_db w' = w_db v
    \<and> rp_body rp = JsonBody (me_of e u) \<and> (\<exists>ck. rp_cookies rp = [ck] \<and> ck_name ck = session_cookie_name \<and> ck_value ck = se_id s)"
proof (cases "decode_login (wa_web wa) rq")
  case (Inl x)
  then show ?thesis using assms
    by (auto simp: login_def ret_def decode_login_def decode_json_def bad_json_def split: json_read.splits option.splits sum.splits if_splits)
next
  case (Inr ep)
  obtain email password where ep: "ep = (email, password)" by (cases ep)
  obtain r v where run: "sign_in (wa_cfg wa) email password (meta_of (wb_net (wa_web wa)) rq) e w = (r, v)" by (metis surj_pair)
  show ?thesis
  proof (cases r)
    case (Inl x)
    then show ?thesis using assms Inr ep run
      by (cases x) (auto simp: login_def bnd_def attempt_def ret_def now_io_def internal_error_def warn_def write_retry_after_def)
  next
    case (Inr su)
    then show ?thesis using assms \<open>decode_login _ _ = _\<close> ep run
      by (cases su) (auto simp: login_def bnd_def attempt_def ret_def now_io_def set_session_def asks_def write_json_def)
  qed
qed

text \<open>C24: signing in through the web API. An answer 200 to a login means that the body held the credentials of an
  account that may sign in. It describes that account and carries the session's cookie, and for twelve hours of the
  clock any request with that cookie, while the database stays as it is, comes in as that account, restricted
  exactly while its password is a temporary one.\<close>

theorem login_lets_in:
  assumes "login wa rq e w = (Inr rp, w')" "rp_status rp = 200" "distinct (map ur_id (t_users (w_db w)))"
  shows "\<exists>email password u ck n m. decode_login (wa_web wa) rq = Inr (email, password)
    \<and> credentials e (wa_cfg wa) n (w_db w) email password u \<and> w_tick w \<le> n
    \<and> rp_body rp = JsonBody (me_of e u) \<and> rp_cookies rp = [ck] \<and> ck_name ck = ''llmproxy_session''
    \<and> lets_in e (w_db w') (clock e m + 12 * ns_hour) (ck_value ck) u"
proof -
  obtain email password s u v ck where l: "decode_login (wa_web wa) rq = Inr (email, password)"
    "sign_in (wa_cfg wa) email password (meta_of (wb_net (wa_web wa)) rq) e w = (Inr (s, u), v)" "w_db w' = w_db v"
    "rp_body rp = JsonBody (me_of e u)" "rp_cookies rp = [ck]" "ck_name ck = session_cookie_name" "ck_value ck = se_id s"
    using login_ok_signed_in [OF assms(1,2)] by blast
  obtain n as where n: "w_tick w \<le> n" "credentials e (wa_cfg wa) n (w_db w) email password u"
    and op: "opened e u ''auth.signin'' (meta_of (wb_net (wa_web wa)) rq) ((w_db w)\<lparr>t_attempts := as\<rparr>) s (w_db v)"
    using wp_run [OF wp_sign_in l(2)] by (auto simp: outcome_def)
  obtain m where m: "se_created s = clock e m" using wp_run [OF sign_in_created l(2)] by blast
  have "se_expires s = clock e m + 12 * ns_hour" using op m by (simp add: opened_def session_ttl_def)
  moreover have "lets_in e (w_db v) (se_expires s) (se_id s) u"
    using n(2) assms(3) by (intro opened_lets_in [OF op]) (auto simp: credentials_def account_def)
  ultimately show ?thesis
    using l n by (metis session_cookie_name_def)
qed

text \<open>Signing out. The answer 204 retires the cookie, the session's row is gone and every other one stands, and no
  request whose cookie has the hash of that session comes in as anyone, wherever the clock is, while no
  session is added.\<close>

lemma logout_shuts_out:
  assumes "logout wa (Some (s, u)) e w = (Inr rp, w')" "rp_status rp = 204"
  shows "rp_cookies rp = [clear_session wa]
    \<and> t_sessions (w_db w') = filter (\<lambda>r. ss_hash r \<noteq> se_hash s) (t_sessions (w_db w))
    \<and> (\<forall>rq v token. wr_cookie rq = Some token \<and> sha256_hex e token = se_hash s \<and> t_sessions (w_db v) = t_sessions (w_db w') \<longrightarrow>
        (\<nexists>c v'. load_session rq e v = (Inr (Inr (Some c)), v')))"
proof -
  obtain q v where run: "sign_out s e w = (q, v)" by (metis surj_pair)
  have q: "q = Inr ()" "w_db w' = w_db v" "rp_cookies rp = [clear_session wa]"
    using assms run by (auto simp: logout_def bnd_def attempt_def ret_def internal_error_def warn_def write_error_def write_json_def
        no_content_def split: sum.splits)
  have kept: "t_sessions (w_db v) = filter (\<lambda>r. ss_hash r \<noteq> se_hash s) (t_sessions (w_db w))"
    using signed_out(1) run q(1) by blast
  have "\<nexists>c v'. load_session rq e x = (Inr (Inr (Some c)), v')"
    if "wr_cookie rq = Some token" "sha256_hex e token = se_hash s" "t_sessions (w_db x) = t_sessions (w_db v)"
    for rq :: web_request and token and x :: world
    using that kept by (intro load_dead) (auto simp: session_of_def dest!: find_Some_mem)
  then show ?thesis using kept q by auto
qed

end
