(* ===== verification/WebSessions.thy ===== *)
theory WebSessions
  imports WebAuth "HOL-Library.Countable"
begin

text \<open>
  What the sign-in and cabinet handlers of \<open>WebAuth\<close> promise together: the challenge that travels in the
  sealed cookie from \<open>StartOidc\<close> to \<open>OidcCallback\<close>, the cabinet that handles the caller's own keys only,
  and the witnesses of the properties of \<open>WebAuth\<close>.
\<close>

section \<open>The challenge in the cookie\<close>

definition challenge_doc :: "challenge \<Rightarrow> int \<Rightarrow> json" where
  "challenge_doc ch t = JObj [(''s'', JStr (ch_state ch)), (''n'', JStr (ch_nonce ch)), (''v'', JStr (ch_verifier ch)), (''e'', JNum (of_int t))]"

lemma fold_letters: "fold_key ''s'' = ''s''" "fold_key ''n'' = ''n''" "fold_key ''v'' = ''v''" "fold_key ''e'' = ''e''"
  by code_simp+

lemma challenge_doc_read:
  assumes "- (2 ^ 63) \<le> t" "t < 2 ^ 63"
  shows "read_challenge (challenge_doc ch t) = Some (ch, t)"
proof -
  have "of_int (- (2 ^ 63)) \<le> (of_int t :: rat)" "(of_int t :: rat) < of_int (2 ^ 63)"
    using assms unfolding of_int_le_iff of_int_less_iff by simp_all
  then show ?thesis by (simp add: read_challenge_def challenge_doc_def json_fields_def fold_letters)
qed

text \<open>The cookie is read back up to the end of its ten minutes, counted in whole seconds, and not after.\<close>

definition cookie_end :: "instant \<Rightarrow> instant" where
  "cookie_end now = (now + challenge_ttl) div ns_second * ns_second"

lemma sealed_opens:
  assumes "seal_challenge sl ch e w = (Inr v, w')"
    and "\<And>nonce plain. length nonce = sl_nonce_size sl \<Longrightarrow> sl_open sl nonce (sl_seal sl nonce plain oidc_cookie_name) oidc_cookie_name = Some plain"
    and "\<And>t. unmarshal (sl_write sl (challenge_doc ch t)) = Some (challenge_doc ch t)"
    and "\<bar>clock e (w_tick w)\<bar> < 2 ^ 63"
  shows "open_challenge unmarshal sl v e x
    = (Inr (if clock e (w_tick x) < cookie_end (clock e (w_tick w)) then Some ch else None), tick x)"
proof -
  let ?t = "(clock e (w_tick w) + challenge_ttl) div ns_second"
  define nonce where "nonce = map (random e (Suc (w_tick w))) [0..<sl_nonce_size sl]"
  have nonce: "length nonce = sl_nonce_size sl"
    "v = b64_encode url_alphabet (nonce @ sl_seal sl nonce (sl_write sl (challenge_doc ch ?t)) oidc_cookie_name)"
    using assms(1) by (auto simp: seal_challenge_def bnd_def now_io_def random_io_def ret_def challenge_doc_def nonce_def Let_def split: if_splits)
  have "- (2 ^ 63) \<le> ?t" "?t < 2 ^ 63" using assms(4) by (auto simp: challenge_ttl_def)
  then have "read_challenge (challenge_doc ch ?t) = Some (ch, ?t)" by (rule challenge_doc_read)
  then show ?thesis
    using nonce by (simp add: open_challenge_def b64_roundtrip assms(2,3) bnd_def now_io_def ret_def cookie_end_def)
qed

lemma start_oidc_found:
  assumes "start_oidc wa rq e w = (Inr rp, w')" "rp_status rp = 302"
  obtains od ip url ch v sealed where "wa_oidc wa = Some (od, ip)" "oidc_begin ip e w = (Inr (url, ch), v)"
    "seal_challenge (wa_sealer wa) ch e v = (Inr sealed, w')" "rp_location rp = Some url"
    "rp_cookies rp = [oidc_cookie wa sealed 600]"
proof (cases "wa_oidc wa")
  case None
  then show ?thesis using assms by (auto simp: start_oidc_def ret_def write_error_def write_json_def)
next
  case (Some oi)
  obtain od ip where oi: "oi = (od, ip)" by (cases oi)
  obtain r v where begun: "oidc_begin ip e w = (r, v)" by (metis surj_pair)
  obtain url ch where r: "r = Inr (url, ch)"
    using assms Some oi begun
    by (cases r) (auto simp: start_oidc_def bnd_def attempt_def internal_error_def warn_def ret_def write_error_def write_json_def)
  obtain q u where shut: "seal_challenge (wa_sealer wa) ch e v = (q, u)" by (metis surj_pair)
  obtain sealed where q: "q = Inr sealed"
    using assms Some oi begun r shut
    by (cases q) (auto simp: start_oidc_def bnd_def attempt_def internal_error_def warn_def ret_def write_error_def write_json_def)
  show ?thesis
    using assms Some oi begun r shut q that
    by (auto simp: start_oidc_def bnd_def attempt_def ret_def redirect_to_def)
qed

text \<open>The challenge of a federated sign-in survives its trip through the browser. A start that answers with the
  redirect has sealed the challenge it began into the one cookie it sets; the callback that brings the cookie back
  finishes with exactly that challenge until its ten minutes, in whole seconds of the clock, are over,
  and from then on with none. The cipher opens what it sealed under the same name, and the document is read back as written.\<close>

lemma challenge_survives:
  assumes "start_oidc wa rq e w = (Inr rp, w')" "rp_status rp = 302"
    and "\<And>nonce plain. length nonce = sl_nonce_size (wa_sealer wa) \<Longrightarrow>
      sl_open (wa_sealer wa) nonce (sl_seal (wa_sealer wa) nonce plain oidc_cookie_name) oidc_cookie_name = Some plain"
    and "\<And>ch t. wa_unmarshal wa (sl_write (wa_sealer wa) (challenge_doc ch t)) = Some (challenge_doc ch t)"
    and "\<And>n. n \<le> w_tick w' \<Longrightarrow> \<bar>clock e n\<bar> < 2 ^ 63"
  shows "\<exists>od ip url ch v ck. wa_oidc wa = Some (od, ip) \<and> oidc_begin ip e w = (Inr (url, ch), v)
    \<and> rp_location rp = Some url \<and> rp_cookies rp = [ck] \<and> ck_name ck = ''llmproxy_oidc'' \<and> ck_max_age ck = 600
    \<and> (\<forall>rq2 x. wr_oidc_cookie rq2 = Some (ck_value ck) \<longrightarrow>
         oidc_callback wa rq2 e x
           = finish_oidc wa od ip rq2 (if clock e (w_tick x) < cookie_end (clock e (w_tick v)) then Some ch else None) e (tick x))"
proof -
  from assms(1,2) obtain od ip url ch v sealed where s: "wa_oidc wa = Some (od, ip)" "oidc_begin ip e w = (Inr (url, ch), v)"
    "seal_challenge (wa_sealer wa) ch e v = (Inr sealed, w')" "rp_location rp = Some url"
    "rp_cookies rp = [oidc_cookie wa sealed 600]" by (rule start_oidc_found)
  have "w_tick v \<le> w_tick w'"
    using s(3) by (auto simp: seal_challenge_def bnd_def now_io_def random_io_def ret_def split: if_splits)
  then have now: "\<bar>clock e (w_tick v)\<bar> < 2 ^ 63" by (rule assms(5))
  have reads: "open_challenge (wa_unmarshal wa) (wa_sealer wa) sealed e x
      = (Inr (if clock e (w_tick x) < cookie_end (clock e (w_tick v)) then Some ch else None), tick x)" for x
    by (rule sealed_opens [OF s(3) assms(3,4) now])
  have "oidc_callback wa rq' e x
      = finish_oidc wa od ip rq' (if clock e (w_tick x) < cookie_end (clock e (w_tick v)) then Some ch else None) e (tick x)"
    if "wr_oidc_cookie rq' = Some sealed" for rq' :: web_request and x :: world
    using that s(1) reads [of x] by (simp add: oidc_callback_def bnd_def Let_def)
  then show ?thesis using s by (auto simp: oidc_cookie_def oidc_cookie_name_def)
qed

section \<open>The cabinet\<close>

text \<open>Everything but the owner's own keys and the log is as it was.\<close>

definition only_own_keys :: "uuid \<Rightarrow> db \<Rightarrow> db \<Rightarrow> bool" where
  "only_own_keys i d d' \<longleftrightarrow> filter (\<lambda>k. tk_user k \<noteq> i) (t_tokens d') = filter (\<lambda>k. tk_user k \<noteq> i) (t_tokens d)
     \<and> d' = d\<lparr>t_tokens := t_tokens d', t_audit := t_audit d'\<rparr>"

lemma only_own_refl [simp]: "only_own_keys i d d"
  by (simp add: only_own_keys_def)

lemma own_manages: "manages (own_authority u) i = Inr () \<longleftrightarrow> i = u_id u \<and> u_id u \<noteq> uuid_nil"
  by (auto simp: manages_def own_authority_def role_user_def role_admin_def)

lemma issued_own: "issued e (own_authority u) (u_id u) label d k secret d' \<Longrightarrow> only_own_keys (u_id u) d d'"
  by (auto simp: issued_def only_own_keys_def)

lemma not_issued_own: "not_issued i d w' \<Longrightarrow> only_own_keys i d (w_db w')"
  by (auto simp: not_issued_def only_own_keys_def)

lemma revoked_own:
  assumes "revoked_now (own_authority u) i d d'" "distinct (map tk_id (t_tokens d))"
  shows "only_own_keys (u_id u) d d'"
proof -
  obtain k :: token and now rows where k: "find (\<lambda>k. tk_id k = i) (t_tokens d) = Some k" "manages (own_authority u) (tk_user k) = Inr ()"
    "d' = d\<lparr>t_tokens := map (\<lambda>r. if tk_id r = i then r\<lparr>tk_label := tk_label k, tk_revoked_at := Some now,
           tk_revoked_by := Some (u_id (own_authority u))\<rparr> else r) (t_tokens d), t_audit := t_audit d @ rows\<rparr>"
    using assms(1) unfolding revoked_now_def by blast
  have "tk_user r = u_id u" if "r \<in> set (t_tokens d)" "tk_id r = i" for r
    using find_by_key [OF assms(2) that(1)] that(2) k(1,2) by (simp add: own_manages)
  then have "filter (\<lambda>k. tk_user k \<noteq> u_id u) (map (\<lambda>r. if tk_id r = i then f r else r) xs) = filter (\<lambda>k. tk_user k \<noteq> u_id u) xs"
    if "set xs \<subseteq> set (t_tokens d)" "\<And>r. tk_user (f r) = tk_user r" for f :: "token \<Rightarrow> token" and xs
    using that by (induction xs) auto
  then show ?thesis using k(3) by (simp add: only_own_keys_def)
qed

lemma wp_issue_own: "wp (issue (own_authority u) (u_id u) label) e w (\<lambda>_ w'. only_own_keys (u_id u) (w_db w) (w_db w'))"
  by (rule wp_issue) (auto intro: issued_own not_issued_own)

lemma wp_revoke_own:
  "distinct (map tk_id (t_tokens (w_db w))) \<Longrightarrow>
     wp (revoke_token (own_authority u) i) e w (\<lambda>_ w'. only_own_keys (u_id u) (w_db w) (w_db w'))"
  by (rule wp_revoke) (auto intro: revoked_own)

text \<open>Each request of the cabinet reaches the store through one call.\<close>

inductive cabinet :: "web_auth \<Rightarrow> caller \<Rightarrow> web_reply io \<Rightarrow> bool" for wa c where
  cabinet_list: "cabinet wa c (list_my_tokens c)"
| cabinet_issue: "cabinet wa c (issue_my_token wa c rq)"
| cabinet_revoke: "cabinet wa c (revoke_my_token c rq)"

lemma wp_list_tokens: "wp (list_tokens a i) e w (\<lambda>r w'. w_db w' = w_db w \<and> (\<forall>ks. r = Inr ks \<longrightarrow> (\<forall>k\<in>set ks. tk_user k = i)))"
  by (auto simp: list_tokens_def tokens_list_by_user_def wp_simps split: sum.splits)

lemma wp_cabinet:
  assumes "cabinet wa c m" "distinct (map tk_id (t_tokens (w_db w)))"
  shows "wp m e w (\<lambda>_ w'. only_own_keys (u_id (snd c)) (w_db w) (w_db w'))"
  using assms(1)
proof cases
  case cabinet_list
  then show ?thesis
    by (auto simp: list_my_tokens_def wp_simps wp_internal_error intro!: wp_mono [OF wp_list_tokens] split: sum.splits)
next
  case (cabinet_issue rq)
  show ?thesis
  proof (cases "decode_label (wa_web wa) rq")
    case (Inl x)
    then show ?thesis using cabinet_issue by (simp add: issue_my_token_def wp_simps)
  next
    case (Inr label)
    then show ?thesis using cabinet_issue
      by (auto simp: issue_my_token_def wp_simps wp_internal_error intro!: wp_mono [OF wp_issue_own] split: sum.splits err.splits)
  qed
next
  case (cabinet_revoke rq)
  then show ?thesis
    by (auto simp: revoke_my_token_def wp_simps wp_internal_error intro!: wp_mono [OF wp_revoke_own [OF assms(2)]] split: option.splits sum.splits err.splits)
qed

text \<open>The cabinet is the caller's own, an administrator's too. Listing, issuing and revoking through it, whichever
  calls fail on the way, leave the keys of everybody else exactly as they were and touch nothing besides but the log.\<close>

lemma cabinet_own_keys:
  assumes "cabinet wa c m" "m e w = (r, w')" "distinct (map tk_id (t_tokens (w_db w)))"
  shows "only_own_keys (u_id (snd c)) (w_db w) (w_db w')"
  using wp_run [OF wp_cabinet [OF assms(1,3)] assms(2)] .

text \<open>What the cabinet says of a key of somebody else. With the store answering, revoking it through the cabinet leaves the
  database as it was and answers as for a key nobody has, byte for byte, whoever the caller is.\<close>

lemma foreign_key_unseen:
  assumes "uuid_parse (ids e) (path_value ''tokenId'' [''api'', ''me'', ''tokens'', ''{tokenId}''] (wr_segments rq)) = Some i"
    and "\<And>k. k \<in> set (t_tokens (w_db w)) \<Longrightarrow> tk_id k = i \<Longrightarrow> tk_user k \<noteq> u_id (snd c)" and "\<And>n. \<not> fault e n"
  shows "\<exists>w'. revoke_my_token c rq e w = (Inr no_token, w') \<and> w_db w' = w_db w"
proof -
  have "wp (revoke_token (own_authority (snd c)) i) e w (\<lambda>r w'. r \<in> {Inl ENotFound, Inl EForbidden} \<and> w_db w' = w_db w)"
  proof (cases "find (\<lambda>k. tk_id k = i) (t_tokens (w_db w))")
    case None
    then show ?thesis using assms(3) by (simp add: revoke_token_def tokens_by_id_def found_def wp_simps)
  next
    case (Some k)
    then have "manages (own_authority (snd c)) (tk_user k) = Inl EForbidden"
      using assms(2) [of k] find_Some_mem [OF Some] by (auto simp: manages_def own_authority_def role_user_def role_admin_def)
    then show ?thesis using assms(3) Some by (simp add: revoke_token_def tokens_by_id_def found_def wp_simps)
  qed
  then obtain r w' where "revoke_token (own_authority (snd c)) i e w = (r, w')" "r \<in> {Inl ENotFound, Inl EForbidden}" "w_db w' = w_db w"
    by (auto simp: wp_def split: prod.splits)
  then show ?thesis using assms(1) by (auto simp: revoke_my_token_def bnd_def asks_def attempt_def ret_def)
qed

section \<open>Witnesses\<close>

instance json :: countable
  by countable_datatype

text \<open>A cipher that opens what it sealed, and a writer of documents that is read back.\<close>

definition example_sealer :: sealer where
  "example_sealer = \<lparr>sl_nonce_size = 12, sl_seal = (\<lambda>_ plain _. plain), sl_open = (\<lambda>_ sealed _. Some sealed),
     sl_write = (\<lambda>doc. replicate (to_nat doc) CHR ''x'')\<rparr>"

definition login_doc :: "string \<Rightarrow> json" where
  "login_doc password = JObj [(''email'', JStr ''ada@example.org''), (''password'', JStr password)]"

definition example_auth :: "json \<Rightarrow> web_auth" where
  "example_auth doc = \<lparr>wa_web = example_web\<lparr>wb_json := \<lambda>_. JsonValue doc\<rparr>, wa_cfg = example_cfg,
     wa_oidc = Some (example_oidc, example_idp), wa_button = ''SSO'', wa_sealer = example_sealer,
     wa_unmarshal = (\<lambda>s. Some (from_nat (length s)))\<rparr>"

lemma example_decodes: "decode_login (wa_web (example_auth (login_doc p))) rq = Inr (''ada@example.org'', p)"
proof -
  have "fold_key ''email'' = ''email''" "fold_key ''password'' = ''password''" by code_simp+
  then show ?thesis
    by (simp add: decode_login_def decode_json_def example_auth_def example_web_def json_fields_def login_doc_def)
qed

lemma example_login:
  "\<exists>rp w'. login (example_auth (login_doc ''correct horse'')) rq example_env example_world = (Inr rp, w') \<and> rp_status rp = 200"
proof -
  have run: "\<exists>s w'. sign_in example_cfg ''ada@example.org'' ''correct horse'' meta example_env example_world = (Inr (s, ada), w')" for meta
    using sign_in_succeeds [of example_env "''ada@example.org''" example_world example_cfg "''correct horse''" ada meta]
      example_credentials example_fresh_session example_no_attempts
    by (auto simp: example_world_def example_cfg_def) (auto simp: example_env_def)
  obtain s w' where "sign_in (wa_cfg (example_auth (login_doc ''correct horse''))) ''ada@example.org'' ''correct horse''
      (meta_of (wb_net (wa_web (example_auth (login_doc ''correct horse'')))) rq) example_env example_world = (Inr (s, ada), w')"
    using run by (force simp: example_auth_def)
  then show ?thesis
    by (simp add: login_def example_decodes bnd_def attempt_def ret_def set_session_def now_io_def asks_def write_json_def)
qed

lemma example_distinct: "distinct (map ur_id (t_users example_db))" "distinct (map tk_id (t_tokens example_db))"
  by (simp_all add: example_db_def example_row_def)

theorem login_lets_in_witness:
  "\<exists>rp w' ck n m email password u. login (example_auth (login_doc ''correct horse'')) me_request example_env example_world = (Inr rp, w')
    \<and> credentials example_env example_cfg n example_db email password u
    \<and> rp_cookies rp = [ck] \<and> lets_in example_env (w_db w') (clock example_env m + 12 * ns_hour) (ck_value ck) u"
proof -
  obtain rp w' where run: "login (example_auth (login_doc ''correct horse'')) me_request example_env example_world = (Inr rp, w')"
    "rp_status rp = 200" using example_login by blast
  have "distinct (map ur_id (t_users (w_db example_world)))" by (simp add: example_world_def example_distinct)
  note lets = login_lets_in [OF run this]
  have "wa_cfg (example_auth (login_doc ''correct horse'')) = example_cfg" "w_db example_world = example_db"
    by (simp_all add: example_auth_def example_world_def)
  with lets run(1) show ?thesis by (simp only:) blast
qed

end
