(* ===== verification/Sink.thy ===== *)
theory Sink
  imports Gate
begin

text \<open>
  The usage sink, \<open>internal/infra/gateway/usage/sink.go\<close>: from an upstream usage record to a priced ledger
  row, the vendor's quota signals, the labels of owners, and the worker's batches. What the sink reports to the
  metrics is kept in order in its state. Upstream's record is data; whether its token breakdown is valid, the
  reading of a decimal number (\<open>strconv.ParseFloat\<close>) and of a time (\<open>time.Parse\<close>) are parameters.
\<close>

section \<open>Token kinds\<close>

text \<open>Upstream's usage detail and its canonical breakdown.\<close>

record token_breakdown =
  tb_uncached :: int
  tb_cache_read :: int
  tb_cache_write :: int
  tb_output :: int
  tb_reasoning :: int
  tb_total :: int
  tb_quality :: string

record usage_detail =
  ud_input :: int
  ud_output :: int
  ud_reasoning :: int
  ud_cached :: int
  ud_cache_read :: int
  ud_cache_creation :: int
  ud_total :: int
  ud_breakdown :: token_breakdown

definition quality_reconstructed :: string where "quality_reconstructed = ''reconstructed''"
definition quality_unclassified :: string where "quality_unclassified = ''unclassified''"
definition quality_inconsistent :: string where "quality_inconsistent = ''inconsistent''"

definition contains :: "string \<Rightarrow> string \<Rightarrow> bool" where
  "contains s sub \<longleftrightarrow> list_ex (prefix sub) (suffixes s)"

text \<open>Whether the prompt count includes the cache, the completion count the reasoning, and the protocol is known.\<close>

definition detail_semantics :: "string \<Rightarrow> bool \<times> bool \<times> bool" where
  "detail_semantics provider_key =
     (let key = to_lower (trim_space provider_key) in
      if key = compat_key \<or> prefix compat_prefix key then (True, True, True)
      else if contains key ''claude'' \<or> contains key ''anthropic'' then (False, True, True)
      else if list_ex (contains key) [''gemini'', ''aistudio'', ''antigravity'', ''vertex'', ''interaction''] then (True, False, True)
      else if list_ex (contains key) [''openai'', codex_key, xai_key, ''grok'', ''kimi'', ''qwen'', ''deepseek'', ''openrouter'']
        then (True, True, True)
      else (False, False, False))"

text \<open>The counts, and what each sum of them is in \<open>int64\<close>.\<close>

definition partition_detail :: "string \<Rightarrow> usage_detail \<Rightarrow> usage_event \<Rightarrow> usage_event" where
  "partition_detail provider_key detail ev =
     (let nin = max (ud_input detail) 0; nout = max (ud_output detail) 0; reasoning = max (ud_reasoning detail) 0;
          cread = max (ud_cache_read detail) 0; cwrite = max (ud_cache_creation detail) 0;
          cread = (if cread = 0 \<and> cwrite = 0 then max (ud_cached detail) 0 else cread);
          total = max (ud_total detail) 0;
          (cache_in_input, reasoning_in_output, known) = detail_semantics provider_key;
          cache = wrap64 (cread + cwrite);
          (quality, nin, nout, total) =
            (if \<not> known then (quality_unclassified, nin, nout, total)
             else if cache_in_input \<and> nin < cache \<or> reasoning_in_output \<and> nout < reasoning
               then (quality_inconsistent, nin, nout, total)
             else
               let nin = (if cache_in_input then wrap64 (nin - cache) else nin);
                   nout = (if reasoning_in_output then wrap64 (nout - reasoning) else nout);
                   sum = wrap64 (wrap64 (wrap64 (wrap64 (nin + nout) + reasoning) + cread) + cwrite) in
               if total = 0 then (quality_reconstructed, nin, nout, sum)
               else if total < sum then (quality_inconsistent, nin, nout, total)
               else (quality_reconstructed, nin, nout, total)) in
      if quality \<noteq> quality_reconstructed then
        ev\<lparr>ue_quality := quality,
           ue_total := (if total = 0
             then wrap64 (max nin (max cache (max (ud_cached detail) 0)) + max nout reasoning) else total)\<rparr>
      else
        ev\<lparr>ue_quality := quality, ue_input := nin, ue_output := nout, ue_reasoning := reasoning, ue_cache_read := cread,
           ue_cache_write := cwrite, ue_total := total\<rparr>)"

section \<open>Numbers and times in headers\<close>

record readers =
  rd_float :: "string \<Rightarrow> f64 option"
  rd_time :: "string \<Rightarrow> instant option"
  rd_valid :: "token_breakdown \<Rightarrow> bool"

text \<open>\<open>strconv.ParseInt\<close> in base ten and 64 bits.\<close>

definition parse_int64 :: "string \<Rightarrow> int option" where
  "parse_int64 s =
     (let neg = (case s of c # _ \<Rightarrow> c = CHR ''-'' | [] \<Rightarrow> False);
          ds = (case s of c # cs \<Rightarrow> if c = CHR ''-'' \<or> c = CHR ''+'' then cs else s | [] \<Rightarrow> s);
          v = (if neg then - int (digits_value ds) else int (digits_value ds)) in
      if ds = [] \<or> \<not> list_all is_digit ds \<or> v < - (2 ^ 63) \<or> 2 ^ 63 \<le> v then None else Some v)"

text \<open>A quotient by a positive scale, at most one.\<close>

fun share_of :: "rat \<Rightarrow> f64 \<Rightarrow> f64 option" where
  "share_of scale (Fin v) = (if v < 0 then None else Some (Fin (min (v / scale) 1)))"
| "share_of scale _ = None"

definition parse_share :: "readers \<Rightarrow> string \<Rightarrow> rat \<Rightarrow> f64 option" where
  "parse_share rd raw scale = (case rd_float rd (trim_space raw) of None \<Rightarrow> None | Some v \<Rightarrow> share_of scale v)"

text \<open>\<open>time.Unix\<close> counts its seconds from the year one, in \<open>int64\<close>.\<close>

definition unix_time :: "int \<Rightarrow> instant" where
  "unix_time sec = (wrap64 (sec + 62135596800) - 62135596800) * ns_second"

definition parse_epoch :: "readers \<Rightarrow> string \<Rightarrow> instant option" where
  "parse_epoch rd raw =
     (let raw = trim_space raw in
      if raw = [] then None
      else case parse_int64 raw of
        Some sec \<Rightarrow> if sec \<le> 0 then None else Some (unix_time sec)
      | None \<Rightarrow> rd_time rd raw)"

definition after_seconds :: "string \<Rightarrow> instant \<Rightarrow> instant" where
  "after_seconds raw from' =
     (case parse_int64 (trim_space raw) of
        None \<Rightarrow> zero_time
      | Some sec \<Rightarrow> if sec < 0 then zero_time else from' + wrap64 (sec * ns_second))"

definition quota_window :: "string \<Rightarrow> string \<Rightarrow> string" where
  "quota_window raw fallback =
     (case parse_int64 (trim_space raw) of
        None \<Rightarrow> fallback
      | Some minutes \<Rightarrow>
          if minutes \<le> 0 then fallback
          else if minutes mod (24 * 60) = 0 then format_int (minutes div (24 * 60)) @ ''d''
          else if minutes mod 60 = 0 then format_int (minutes div 60) @ ''h''
          else format_int minutes @ ''m'')"

section \<open>Records and rows\<close>

record usage_record =
  rc_provider :: string
  rc_model :: string
  rc_alias :: string
  rc_api_key :: string
  rc_auth :: string
  rc_requested :: instant
  rc_latency :: duration
  rc_ttft :: duration
  rc_failed :: bool
  rc_status :: int
  rc_stream :: bool
  rc_tier :: string
  rc_response_tier :: string
  rc_headers :: "multimap option"
  rc_detail :: usage_detail

definition completed_at :: "usage_event \<Rightarrow> instant" where
  "completed_at ev = ue_at ev + wrap64 (ue_latency ev * 1000000)"

definition zero_cost :: usage_cost where "zero_cost = unpriced_cost 0"

definition breakdown_counts :: "token_breakdown \<Rightarrow> usage_event \<Rightarrow> usage_event" where
  "breakdown_counts b ev = ev\<lparr>ue_input := tb_uncached b, ue_cache_read := tb_cache_read b, ue_cache_write := tb_cache_write b,
     ue_output := tb_output b, ue_reasoning := tb_reasoning b, ue_total := tb_total b, ue_quality := tb_quality b\<rparr>"

definition token_counts :: "readers \<Rightarrow> usage_record \<Rightarrow> usage_event \<Rightarrow> usage_event" where
  "token_counts rd r ev =
     (if rd_valid rd (ud_breakdown (rc_detail r)) then breakdown_counts (ud_breakdown (rc_detail r)) ev
      else partition_detail (rc_provider r) (rc_detail r) ev)"

text \<open>The price of a row: at its own model, else at the name the client asked for.\<close>

definition row_price :: "registry \<Rightarrow> mem \<Rightarrow> string \<Rightarrow> string \<Rightarrow> string \<Rightarrow> model_price option" where
  "row_price reg m prov model alias =
     (case price_of m prov model of
        Some p \<Rightarrow> Some p
      | None \<Rightarrow>
          if alias = [] then None
          else (case priced_name reg alias of None \<Rightarrow> None | Some (name, provs) \<Rightarrow> price_of m prov name))"

definition row_of_record :: "usage_record \<Rightarrow> instant \<Rightarrow> principal result \<Rightarrow> usage_event" where
  "row_of_record r requested p =
     \<lparr>ue_at = requested,
      ue_user = (case p of Inr p \<Rightarrow> p_user p | Inl _ \<Rightarrow> uuid_nil), ue_token = (case p of Inr p \<Rightarrow> p_token p | Inl _ \<Rightarrow> uuid_nil),
      ue_provider = policy_provider (rc_provider r), ue_model = rc_model r, ue_alias = rc_alias r, ue_stream = rc_stream r,
      ue_tier = (if rc_response_tier r = [] then rc_tier r else rc_response_tier r),
      ue_input = 0, ue_output = 0, ue_reasoning = 0, ue_cache_read = 0, ue_cache_write = 0, ue_total = 0, ue_quality = [],
      ue_latency = go_div (rc_latency r) 1000000, ue_ttft = go_div (rc_ttft r) 1000000, ue_status = rc_status r,
      ue_failed = rc_failed r, ue_account = rc_auth r, ue_cost = zero_cost\<rparr>"

definition priced_row :: "registry \<Rightarrow> mem \<Rightarrow> usage_record \<Rightarrow> usage_event \<Rightarrow> usage_event" where
  "priced_row reg m r ev = ev\<lparr>ue_cost := price_usage ev (row_price reg m (ue_provider ev) (ue_model ev) (rc_alias r))\<rparr>"

definition event_of :: "readers \<Rightarrow> registry \<Rightarrow> usage_record \<Rightarrow> usage_event io" where
  "event_of rd reg r =
     bnd (if rc_requested r = zero_time then bnd now_io (\<lambda>now. ret (now - rc_latency r)) else ret (rc_requested r)) (\<lambda>requested.
     bnd (asks (\<lambda>e. parse_principal (ids e) (rc_api_key r))) (\<lambda>p.
     bnd (case p of Inr _ \<Rightarrow> ret () | Inl _ \<Rightarrow> warn ''usage record carries no principal; stored unattributed'') (\<lambda>_.
     peek (\<lambda>m. priced_row reg m r (token_counts rd r (row_of_record r requested p))))))"

section \<open>State of the worker\<close>

record quota_signal =
  qs_account :: string
  qs_provider :: string
  qs_window :: string
  qs_ratio :: f64
  qs_reset :: instant
  qs_observed :: instant

datatype sink_report =
  SawUsage usage_event string
| SawQuota string string string f64 instant
| SawFailure string string
| SawUnpriced string string int

record sink =
  sk_labels :: "(uuid \<times> string \<times> instant) list"
  sk_quota :: "(string \<times> (string \<times> quota_signal) list) list"
  sk_seen :: "sink_report list"

definition report :: "sink_report list \<Rightarrow> sink \<Rightarrow> sink" where
  "report os sk = sk\<lparr>sk_seen := sk_seen sk @ os\<rparr>"

definition queue_max :: nat where "queue_max = 4096"
definition batch_max :: nat where "batch_max = 256"
definition label_ttl :: duration where "label_ttl = ns_minute"
definition label_cache_max :: nat where "label_cache_max = 10000"
definition unknown_label :: string where "unknown_label = ''unknown''"

text \<open>The label of an owner: remembered for a minute, unless the lookup failed. A full cache is emptied.\<close>

definition remember_label :: "instant \<Rightarrow> uuid \<Rightarrow> user result \<Rightarrow> sink \<Rightarrow> string \<times> sink" where
  "remember_label now i r sk =
     (case r of
        Inl _ \<Rightarrow> (unknown_label, sk)
      | Inr u \<Rightarrow>
          let label = (if user_label u = [] then unknown_label else user_label u);
              cache = (if label_cache_max \<le> length (sk_labels sk) then [] else sk_labels sk) in
          (label, sk\<lparr>sk_labels := AList.update i (label, now + label_ttl) cache\<rparr>))"

definition owner_label :: "uuid \<Rightarrow> sink \<Rightarrow> (string \<times> sink) io" where
  "owner_label i sk =
     bnd now_io (\<lambda>now.
     if i = uuid_nil then ret (unknown_label, sk)
     else
       (case map_of (sk_labels sk) i of
          Some (l, expires) \<Rightarrow>
            if now < expires then ret (l, sk)
            else bnd (attempt (users_by_id i)) (\<lambda>r. ret (remember_label now i r sk))
        | None \<Rightarrow> bnd (attempt (users_by_id i)) (\<lambda>r. ret (remember_label now i r sk))))"

section \<open>Quota signals\<close>

definition header_of :: "multimap \<Rightarrow> string \<Rightarrow> string" where
  "header_of hs key = (case map_of hs key of None \<Rightarrow> [] | Some vs \<Rightarrow> first_value vs)"

definition known_or_zero :: "instant option \<Rightarrow> instant" where
  "known_or_zero t = (case t of None \<Rightarrow> zero_time | Some x \<Rightarrow> x)"

definition claude_signal :: "readers \<Rightarrow> multimap \<Rightarrow> quota_signal \<Rightarrow> string \<Rightarrow> quota_signal list" where
  "claude_signal rd hs base window =
     (let pre = ''Anthropic-Ratelimit-Unified-'' @ window @ ''-'' in
      case parse_share rd (header_of hs (pre @ ''Utilization'')) 1 of
        None \<Rightarrow> []
      | Some ratio \<Rightarrow> [base\<lparr>qs_window := window, qs_ratio := ratio,
          qs_reset := known_or_zero (parse_epoch rd (header_of hs (pre @ ''Reset'')))\<rparr>])"

definition codex_signal :: "readers \<Rightarrow> multimap \<Rightarrow> quota_signal \<Rightarrow> string \<times> string \<Rightarrow> quota_signal list" where
  "codex_signal rd hs base pos =
     (let pre = ''X-Codex-'' @ fst pos @ ''-'' in
      case parse_share rd (header_of hs (pre @ ''Used-Percent'')) 100 of
        None \<Rightarrow> []
      | Some ratio \<Rightarrow> [base\<lparr>qs_window := quota_window (header_of hs (pre @ ''Window-Minutes'')) (snd pos), qs_ratio := ratio,
          qs_reset := (case parse_epoch rd (header_of hs (pre @ ''Reset-At'')) of
             Some t \<Rightarrow> t
           | None \<Rightarrow> after_seconds (header_of hs (pre @ ''Reset-After-Seconds'')) (qs_observed base))\<rparr>])"

definition quota_snapshot :: "readers \<Rightarrow> usage_record \<Rightarrow> string \<Rightarrow> instant \<Rightarrow> quota_signal list" where
  "quota_snapshot rd r prov observed =
     (case rc_headers r of
        None \<Rightarrow> []
      | Some hs \<Rightarrow>
          let base = \<lparr>qs_account = rc_auth r, qs_provider = prov, qs_window = [], qs_ratio = Fin 0, qs_reset = zero_time,
                qs_observed = observed\<rparr> in
          if rc_provider r = ''claude'' then concat (map (claude_signal rd hs base) [''5h'', ''7d''])
          else if rc_provider r = codex_key
            then concat (map (codex_signal rd hs base) [(''Primary'', ''5h''), (''Secondary'', ''7d'')])
          else [])"

definition kept_reset :: "(string \<times> quota_signal) list \<Rightarrow> quota_signal \<Rightarrow> quota_signal" where
  "kept_reset previous q =
     (if qs_reset q = zero_time
      then q\<lparr>qs_reset := (case map_of previous (qs_window q) of None \<Rightarrow> zero_time | Some p \<Rightarrow> qs_reset p)\<rparr> else q)"

definition account_windows :: "string \<Rightarrow> sink \<Rightarrow> (string \<times> quota_signal) list" where
  "account_windows acct sk = (case map_of (sk_quota sk) acct of None \<Rightarrow> [] | Some ws \<Rightarrow> ws)"

definition observe_quota :: "readers \<Rightarrow> usage_record \<Rightarrow> string \<Rightarrow> instant \<Rightarrow> sink \<Rightarrow> sink" where
  "observe_quota rd r prov observed sk =
     (let snapshot = quota_snapshot rd r prov observed;
          previous = account_windows (rc_auth r) sk;
          windows = fold (\<lambda>q ws. AList.update (qs_window q) (kept_reset previous q) ws) snapshot [] in
      if snapshot = [] then sk
      else (report (map (\<lambda>q. SawQuota (qs_account q) (qs_provider q) (qs_window q) (qs_ratio q) (qs_reset q)) snapshot) sk)
        \<lparr>sk_quota := AList.update (rc_auth r) windows (sk_quota sk)\<rparr>)"

definition quota_signals :: "sink \<Rightarrow> quota_signal list" where
  "quota_signals sk = sort_key qs_account (sort_key qs_window (concat (map (map snd \<circ> snd) (sk_quota sk))))"

definition forget_account :: "string \<Rightarrow> sink \<Rightarrow> sink" where
  "forget_account acct sk = sk\<lparr>sk_quota := AList.delete acct (sk_quota sk)\<rparr>"

section \<open>A batch\<close>

definition observe_record :: "readers \<Rightarrow> usage_record \<Rightarrow> usage_event \<Rightarrow> sink \<Rightarrow> sink io" where
  "observe_record rd r ev sk =
     bnd (owner_label (ue_user ev) sk) (\<lambda>(label, sk).
     let sk = report [SawUsage ev label] sk in
     ret (if rc_auth r = [] then sk
          else observe_quota rd r (ue_provider ev) (completed_at ev)
            (if rc_failed r then report [SawFailure (rc_auth r) (ue_provider ev)] sk else sk)))"

fun map_records :: "readers \<Rightarrow> registry \<Rightarrow> usage_record list \<Rightarrow> usage_event list \<Rightarrow> sink \<Rightarrow> (usage_event list \<times> sink) io" where
  "map_records rd reg [] evs sk = ret (evs, sk)"
| "map_records rd reg (r # rs) evs sk =
     bnd (event_of rd reg r) (\<lambda>ev.
     bnd (observe_record rd r ev sk) (\<lambda>sk. map_records rd reg rs (evs @ [ev]) sk))"

fun alert_unpriced :: "usage_event list \<Rightarrow> uuid list \<Rightarrow> sink \<Rightarrow> sink io" where
  "alert_unpriced [] owners sk = ret sk"
| "alert_unpriced (ev # evs) owners sk =
     (if uc_unpriced (ue_cost ev) = 0 \<or> ue_user ev \<notin> set owners then alert_unpriced evs owners sk
      else bnd (warn ''spend-limited request has unpriced tokens'') (\<lambda>_.
        alert_unpriced evs owners (report [SawUnpriced (ue_provider ev) (ue_model ev) (uc_unpriced (ue_cost ev))] sk)))"

text \<open>The latest completion of each id that is set, and later than the zero time.\<close>

fun latest_by :: "(usage_event \<Rightarrow> uuid) \<Rightarrow> usage_event list \<Rightarrow> (uuid \<times> instant) list \<Rightarrow> (uuid \<times> instant) list" where
  "latest_by f [] m = m"
| "latest_by f (ev # evs) m =
     latest_by f evs
       (if f ev \<noteq> uuid_nil \<and> (case map_of m (f ev) of None \<Rightarrow> zero_time | Some t \<Rightarrow> t) < completed_at ev
        then AList.update (f ev) (completed_at ev) m else m)"

fun stamp_all :: "(uuid \<Rightarrow> instant \<Rightarrow> unit io) \<Rightarrow> string \<Rightarrow> (uuid \<times> instant) list \<Rightarrow> unit io" where
  "stamp_all stamp msg [] = ret ()"
| "stamp_all stamp msg ((i, t) # its) =
     bnd (attempt (stamp i t)) (\<lambda>r.
     bnd (case r of Inl _ \<Rightarrow> warn msg | Inr _ \<Rightarrow> ret ()) (\<lambda>_. stamp_all stamp msg its))"

definition touch_used :: "usage_event list \<Rightarrow> unit io" where
  "touch_used evs =
     bnd (stamp_all tokens_touch_last_used ''stamping token last use failed'' (latest_by ue_token evs [])) (\<lambda>_.
       stamp_all users_touch_last_seen ''stamping user last seen failed'' (latest_by ue_user evs []))"

definition process_batch :: "readers \<Rightarrow> registry \<Rightarrow> usage_record list \<Rightarrow> sink \<Rightarrow> sink io" where
  "process_batch rd reg rs sk =
     bnd (map_records rd reg rs [] sk) (\<lambda>(evs, sk).
     bnd (attempt (usage_append_batch evs)) (\<lambda>r.
     bnd (case r of Inl _ \<Rightarrow> warn ''usage ledger rows lost'' | Inr _ \<Rightarrow> ret ()) (\<lambda>_.
     bnd (alert_unpriced evs (case r of Inr owners \<Rightarrow> owners | Inl _ \<Rightarrow> []) sk) (\<lambda>sk.
     bnd (touch_used evs) (\<lambda>_. ret sk)))))"

section \<open>The kinds partition the request\<close>

definition detail_fits :: "usage_detail \<Rightarrow> bool" where
  "detail_fits d \<longleftrightarrow> max (ud_input d) 0 + max (ud_output d) 0 + max (ud_reasoning d) 0 + max (ud_cache_read d) 0
     + max (ud_cache_creation d) 0 + max (ud_cached d) 0 < 2 ^ 63"

definition cache_reads :: "usage_detail \<Rightarrow> int" where
  "cache_reads d = (if max (ud_cache_read d) 0 = 0 \<and> max (ud_cache_creation d) 0 = 0 then max (ud_cached d) 0 else max (ud_cache_read d) 0)"

definition kinds_total :: "usage_event \<Rightarrow> int" where
  "kinds_total ev = ue_input ev + ue_output ev + ue_reasoning ev + ue_cache_read ev + ue_cache_write ev"

text \<open>The kinds a detail stands for, by its protocol, or none.\<close>

definition kinds_of :: "string \<Rightarrow> usage_detail \<Rightarrow> (int \<times> int \<times> int \<times> int \<times> int) option" where
  "kinds_of key d =
     (let (cin, rin, known) = detail_semantics key;
          i = max (ud_input d) 0; ou = max (ud_output d) 0; re = max (ud_reasoning d) 0; cr = cache_reads d; cw = max (ud_cache_creation d) 0;
          i' = (if cin then i - (cr + cw) else i); ou' = (if rin then ou - re else ou) in
      if known \<and> 0 \<le> i' \<and> 0 \<le> ou' \<and> (ud_total d \<le> 0 \<or> i' + ou' + re + cr + cw \<le> ud_total d) then Some (i', ou', re, cr, cw) else None)"

lemma cache_reads_nonneg: "0 \<le> cache_reads d"
  by (simp add: cache_reads_def)

lemma fit_sums:
  fixes i :: int
  assumes "0 \<le> r" "0 \<le> cw" "0 \<le> ca" "cr = r \<or> cr = ca \<and> r = 0 \<and> cw = 0" "i + ou + re + r + cw + ca < n"
  shows "i + ou + re + cr + cw < n \<and> i + ou + re + max (cr + cw) ca < n"
  using assms by auto

lemma least_sums:
  fixes i :: int
  assumes "0 \<le> i" "0 \<le> ou" "0 \<le> re" "0 \<le> c" "i + ou + re + c < n"
  shows "0 \<le> max i c + max ou re \<and> max i c + max ou re < n"
  using assms by auto

lemma partition_kinds:
  assumes "detail_fits d"
  shows "kinds_of key d = Some (i, ou, re, cr, cw) \<Longrightarrow> partition_detail key d ev
      = ev\<lparr>ue_quality := quality_reconstructed, ue_input := i, ue_output := ou, ue_reasoning := re, ue_cache_read := cr,
          ue_cache_write := cw, ue_total := (if ud_total d \<le> 0 then i + ou + re + cr + cw else ud_total d)\<rparr>"
    and "kinds_of key d = None \<Longrightarrow> \<exists>q t. q \<noteq> quality_reconstructed \<and> partition_detail key d ev = ev\<lparr>ue_quality := q, ue_total := t\<rparr>
      \<and> (if 0 < ud_total d then t = ud_total d
          else max (max (ud_input d) 0) (cache_reads d + max (ud_cache_creation d) 0) + max (max (ud_output d) 0) (max (ud_reasoning d) 0) \<le> t)"
proof -
  obtain cin rin known where sem: "detail_semantics key = (cin, rin, known)" by (metis surj_pair)
  define ni nou nr nc nw na where names: "ni = max (ud_input d) 0" "nou = max (ud_output d) 0" "nr = max (ud_reasoning d) 0" "nc = cache_reads d"
    "nw = max (ud_cache_creation d) 0" "na = max (ud_cached d) 0"
  have nn: "0 \<le> ni" "0 \<le> nou" "0 \<le> nr" "0 \<le> nc" "0 \<le> nw" "0 \<le> na" by (simp_all add: names cache_reads_nonneg)
  have cr: "(if max (ud_cache_read d) 0 = 0 \<and> nw = 0 then na else max (ud_cache_read d) 0) = nc" by (simp add: cache_reads_def names)
  have fit: "ni + nou + nr + nc + nw < 2 ^ 63 \<and> ni + nou + nr + max (nc + nw) na < 2 ^ 63"
    by (rule fit_sums [where r = "max (ud_cache_read d) 0"])
      (use assms in \<open>simp_all add: detail_fits_def names cache_reads_def\<close>)
  have w: "wrap64 x = x" if "0 \<le> x" "x < 2 ^ 63" for x using that by (simp add: wrap64_id)
  define i' where "i' = (if cin then ni - (nc + nw) else ni)"
  define ou' where "ou' = (if rin then nou - nr else nou)"
  have cache: "wrap64 (nc + nw) = nc + nw" using nn fit by (intro w) linarith+
  have least: "wrap64 (max ni (max (nc + nw) na) + max nou nr) = max ni (max (nc + nw) na) + max nou nr"
    by (rule w) (use least_sums [OF nn(1-3) _ conjunct2 [OF fit]] nn in \<open>auto simp: le_max_iff_disj\<close>)
  have bad: "(cin \<and> ni < nc + nw \<or> rin \<and> nou < nr) \<longleftrightarrow> \<not> (0 \<le> i' \<and> 0 \<le> ou')"
    using nn by (auto simp: i'_def ou'_def)
  have below: "i' \<le> ni" "ou' \<le> nou" using nn by (auto simp: i'_def ou'_def)
  have ins: "(if cin then wrap64 (ni - (nc + nw)) else ni) = i'" "(if rin then wrap64 (nou - nr) else nou) = ou'" if "0 \<le> i'" "0 \<le> ou'"
    using that nn fit w by (auto simp: i'_def ou'_def)
  have sums: "wrap64 (wrap64 (wrap64 (wrap64 (i' + ou') + nr) + nc) + nw) = i' + ou' + nr + nc + nw" if "0 \<le> i'" "0 \<le> ou'"
  proof -
    have "wrap64 (i' + ou') = i' + ou'" by (rule w) (use that below nn fit in linarith)+
    moreover have "wrap64 (i' + ou' + nr) = i' + ou' + nr" by (rule w) (use that below nn fit in linarith)+
    moreover have "wrap64 (i' + ou' + nr + nc) = i' + ou' + nr + nc" by (rule w) (use that below nn fit in linarith)+
    moreover have "wrap64 (i' + ou' + nr + nc + nw) = i' + ou' + nr + nc + nw" by (rule w) (use that below nn fit in linarith)+
    ultimately show ?thesis by simp
  qed
  note read = partition_detail_def Let_def sem prod.case names [symmetric] cr cache bad
  have good: "partition_detail key d ev = (if 0 < ud_total d \<and> ud_total d < i' + ou' + nr + nc + nw
      then ev\<lparr>ue_quality := quality_inconsistent, ue_total := ud_total d\<rparr>
      else ev\<lparr>ue_quality := quality_reconstructed, ue_input := i', ue_output := ou', ue_reasoning := nr, ue_cache_read := nc,
          ue_cache_write := nw, ue_total := (if ud_total d \<le> 0 then i' + ou' + nr + nc + nw else ud_total d)\<rparr>)"
    if "known" "0 \<le> i'" "0 \<le> ou'"
    using that unfolding read by (auto simp: ins sums max_def quality_inconsistent_def quality_reconstructed_def)
  have none: "\<exists>q. q \<noteq> quality_reconstructed \<and> partition_detail key d ev
      = ev\<lparr>ue_quality := q, ue_total := (if ud_total d \<le> 0 then max ni (max (nc + nw) na) + max nou nr else ud_total d)\<rparr>"
    if "\<not> (known \<and> 0 \<le> i' \<and> 0 \<le> ou')"
  proof -
    define t where "t = max (ud_total d) 0"
    have t: "(if t = 0 then x else t) = (if ud_total d \<le> 0 then x else ud_total d)" for x by (simp add: t_def max_def)
    have "partition_detail key d ev
        = ev\<lparr>ue_quality := (if known then quality_inconsistent else quality_unclassified),
          ue_total := (if t = 0 then max ni (max (nc + nw) na) + max nou nr else t)\<rparr>"
    proof (cases known)
      case True
      then show ?thesis using that unfolding read t_def [symmetric]
        by (simp add: least quality_inconsistent_def quality_reconstructed_def)
    next
      case False
      then show ?thesis unfolding read t_def [symmetric]
        by (simp add: least quality_unclassified_def quality_reconstructed_def)
    qed
    then have "partition_detail key d ev
        = ev\<lparr>ue_quality := (if known then quality_inconsistent else quality_unclassified),
          ue_total := (if ud_total d \<le> 0 then max ni (max (nc + nw) na) + max nou nr else ud_total d)\<rparr>" by (simp only: t)
    then show ?thesis
      by (intro exI [of _ "if known then quality_inconsistent else quality_unclassified"])
        (simp add: quality_inconsistent_def quality_reconstructed_def quality_unclassified_def)
  qed
  have kinds: "kinds_of key d = (if known \<and> 0 \<le> i' \<and> 0 \<le> ou' \<and> (ud_total d \<le> 0 \<or> i' + ou' + nr + nc + nw \<le> ud_total d)
      then Some (i', ou', nr, nc, nw) else None)"
    unfolding kinds_of_def Let_def sem prod.case names [symmetric] i'_def [symmetric] ou'_def [symmetric] by (rule refl)
  show "partition_detail key d ev
      = ev\<lparr>ue_quality := quality_reconstructed, ue_input := i, ue_output := ou, ue_reasoning := re, ue_cache_read := cr,
          ue_cache_write := cw, ue_total := (if ud_total d \<le> 0 then i + ou + re + cr + cw else ud_total d)\<rparr>"
    if some: "kinds_of key d = Some (i, ou, re, cr, cw)"
  proof -
    have c: "known" "0 \<le> i'" "0 \<le> ou'" "\<not> (0 < ud_total d \<and> ud_total d < i' + ou' + nr + nc + nw)"
      "i = i'" "ou = ou'" "re = nr" "cr = nc" "cw = nw"
      using some unfolding kinds by (auto split: if_splits)
    show ?thesis unfolding good [OF c(1-3)] c(5-9) using c(4) by auto
  qed
  show "\<exists>q t. q \<noteq> quality_reconstructed \<and> partition_detail key d ev = ev\<lparr>ue_quality := q, ue_total := t\<rparr>
      \<and> (if 0 < ud_total d then t = ud_total d
          else max (max (ud_input d) 0) (cache_reads d + max (ud_cache_creation d) 0) + max (max (ud_output d) 0) (max (ud_reasoning d) 0) \<le> t)"
    if "kinds_of key d = None"
  proof (cases "known \<and> 0 \<le> i' \<and> 0 \<le> ou'")
    case True
    then have "0 < ud_total d" "ud_total d < i' + ou' + nr + nc + nw" using that unfolding kinds by (auto split: if_splits)
    then have "partition_detail key d ev = ev\<lparr>ue_quality := quality_inconsistent, ue_total := ud_total d\<rparr>"
      using good True by simp
    then show ?thesis using \<open>0 < ud_total d\<close>
      by (intro exI [of _ quality_inconsistent] exI [of _ "ud_total d"]) (simp add: quality_inconsistent_def quality_reconstructed_def)
  next
    case False
    have "max ni (nc + nw) + max nou nr \<le> max ni (max (nc + nw) na) + max nou nr" by (simp add: max.coboundedI2 max.coboundedI1)
    moreover obtain q where "q \<noteq> quality_reconstructed" "partition_detail key d ev
        = ev\<lparr>ue_quality := q, ue_total := (if ud_total d \<le> 0 then max ni (max (nc + nw) na) + max nou nr else ud_total d)\<rparr>"
      using none [OF False] by blast
    ultimately show ?thesis unfolding names [symmetric]
      by (intro exI [of _ q] exI [of _ "if ud_total d \<le> 0 then max ni (max (nc + nw) na) + max nou nr else ud_total d"]) simp
  qed
qed

definition uncounted :: "usage_event \<Rightarrow> bool" where
  "uncounted ev \<longleftrightarrow> ue_input ev = 0 \<and> ue_output ev = 0 \<and> ue_reasoning ev = 0 \<and> ue_cache_read ev = 0 \<and> ue_cache_write ev = 0"

text \<open>C6: the token kinds of a row without a valid breakdown. With counts that fit, they are the ones the protocol's meaning gives
  them over the integers: none is negative, together they are at most the total, and just that when none was reported, and
  what the prompt count and the completion count include is in no two of them. Where the protocol is unknown
  or the counts contradict each other no token has a kind, and the total is the reported one, or one the counts imply.\<close>

theorem counts_partition:
  assumes "\<not> rd_valid rd (ud_breakdown (rc_detail r))" "detail_fits (rc_detail r)" "uncounted ev" "ev' = token_counts rd r ev"
  shows "(case kinds_of (rc_provider r) (rc_detail r) of
      Some (i, ou, re, cr, cw) \<Rightarrow> ue_quality ev' = ''reconstructed'' \<and> 0 \<le> i \<and> 0 \<le> ou \<and> 0 \<le> re \<and> 0 \<le> cr \<and> 0 \<le> cw
        \<and> ue_input ev' = i \<and> ue_output ev' = ou \<and> ue_reasoning ev' = re \<and> ue_cache_read ev' = cr \<and> ue_cache_write ev' = cw
        \<and> kinds_total ev' \<le> ue_total ev' \<and> ue_total ev' = (if ud_total (rc_detail r) \<le> 0 then kinds_total ev' else ud_total (rc_detail r))
    | None \<Rightarrow> ue_quality ev' \<noteq> ''reconstructed'' \<and> uncounted ev'
        \<and> (if 0 < ud_total (rc_detail r) then ue_total ev' = ud_total (rc_detail r)
           else max (max (ud_input (rc_detail r)) 0) (cache_reads (rc_detail r) + max (ud_cache_creation (rc_detail r)) 0)
             + max (max (ud_output (rc_detail r)) 0) (max (ud_reasoning (rc_detail r)) 0) \<le> ue_total ev'))"
proof (cases "kinds_of (rc_provider r) (rc_detail r)")
  case None
  have ev': "ev' = partition_detail (rc_provider r) (rc_detail r) ev" using assms(1,4) by (simp add: token_counts_def)
  show ?thesis
    using partition_kinds(2) [OF assms(2) None, of ev] assms(3)
    by (auto simp: None ev' uncounted_def quality_reconstructed_def)
next
  case (Some k)
  obtain i ou re cr cw where k: "k = (i, ou, re, cr, cw)" by (metis surj_pair)
  have ev': "ev' = partition_detail (rc_provider r) (rc_detail r) ev" using assms(1,4) by (simp add: token_counts_def)
  have facts: "0 \<le> i \<and> 0 \<le> ou \<and> 0 \<le> re \<and> 0 \<le> cr \<and> 0 \<le> cw
      \<and> (ud_total (rc_detail r) \<le> 0 \<or> i + ou + re + cr + cw \<le> ud_total (rc_detail r))"
    using Some unfolding k kinds_of_def Let_def by (auto simp: cache_reads_nonneg split: prod.splits if_splits)
  have read: "ev' = ev\<lparr>ue_quality := quality_reconstructed, ue_input := i, ue_output := ou, ue_reasoning := re, ue_cache_read := cr,
      ue_cache_write := cw, ue_total := (if ud_total (rc_detail r) \<le> 0 then i + ou + re + cr + cw else ud_total (rc_detail r))\<rparr>"
    unfolding ev' by (rule partition_kinds(1) [OF assms(2) Some [unfolded k]])
  show ?thesis using facts by (auto simp: Some k read kinds_total_def quality_reconstructed_def)
qed

section \<open>What the gate found priced\<close>

text \<open>The price in force of what a provider served for a requested model: the provider's price of the model it served, else its price of the name the registry serves
  the requested model under.\<close>

definition price_in_force :: "registry \<Rightarrow> mem \<Rightarrow> string \<Rightarrow> string \<Rightarrow> string \<Rightarrow> model_price \<Rightarrow> bool" where
  "price_in_force reg m requested prov served price \<longleftrightarrow>
     (\<exists>table name known. m_table m = Some table \<and> known_model reg (fst (routed (providers_for reg) requested)) = Some name
        \<and> map_of table (prov, name) = Some known
        \<and> price = (case map_of table (prov, served) of Some p \<Rightarrow> p | None \<Rightarrow> known))"

lemma row_price_requested:
  assumes "priced_everywhere reg m requested" "requested \<noteq> []" "routed (providers_for reg) requested = (model, provs)" "prov \<in> set provs"
  obtains p where "row_price reg m prov served requested = Some p" "price_in_force reg m requested prov served p"
proof -
  obtain name where name: "priced_name reg requested = Some (name, provs)" "known_model reg model = Some name"
    using assms(1,3) by (auto simp: priced_everywhere_def priced_name_def Let_def split: option.splits if_splits)
  then have "price_of m prov name \<noteq> None" using assms(1,4) by (auto simp: priced_everywhere_def list_all_iff)
  then obtain table known where t: "m_table m = Some table" "map_of table (prov, name) = Some known" by (auto simp: price_of_def split: option.splits)
  let ?p = "case map_of table (prov, served) of Some p \<Rightarrow> p | None \<Rightarrow> known"
  have "row_price reg m prov served requested = Some ?p"
    using name t assms(2) by (simp add: row_price_def price_of_def split: option.split)
  moreover have "price_in_force reg m requested prov served ?p" using name t assms(3) by (simp add: price_in_force_def)
  ultimately show ?thesis using that by blast
qed

lemma cost_irrelevant: "price_usage (ev\<lparr>ue_cost := c\<rparr>) p = price_usage ev p"
  by (simp add: price_usage_def Let_def)

lemma partition_fields:
  "ue_provider (partition_detail k d ev) = ue_provider ev" "ue_model (partition_detail k d ev) = ue_model ev"
  "ue_user (partition_detail k d ev) = ue_user ev" "ue_token (partition_detail k d ev) = ue_token ev"
  by (cases ev, simp only: partition_detail_def Let_def split_def if_distrib [of ue_provider] if_distrib [of ue_model]
      if_distrib [of ue_user] if_distrib [of ue_token] usage_event.simps if_cancel)+

lemma kept_fields:
  "ue_provider (token_counts rd r ev) = ue_provider ev" "ue_model (token_counts rd r ev) = ue_model ev"
  "ue_user (token_counts rd r ev) = ue_user ev" "ue_token (token_counts rd r ev) = ue_token ev"
  by (simp_all add: token_counts_def partition_fields breakdown_counts_def)

lemma wp_event_of:
  "wp (event_of rd reg r) e w (\<lambda>q w'. w_db w' = w_db w \<and> w_mem w' = w_mem w \<and> w_tick w \<le> w_tick w'
     \<and> (\<exists>ev. q = Inr ev \<and> ue_provider ev = policy_provider (rc_provider r) \<and> ue_model ev = rc_model r
          \<and> ue_user ev = (case parse_principal (ids e) (rc_api_key r) of Inr p \<Rightarrow> p_user p | Inl _ \<Rightarrow> uuid_nil)
          \<and> ue_token ev = (case parse_principal (ids e) (rc_api_key r) of Inr p \<Rightarrow> p_token p | Inl _ \<Rightarrow> uuid_nil)
          \<and> ue_cost ev = price_usage ev (row_price reg (w_mem w) (ue_provider ev) (rc_model r) (rc_alias r))))"
proof -
  have "wp (event_of rd reg r) e w Q"
    if "\<And>w' requested. \<lbrakk>w_db w' = w_db w; w_mem w' = w_mem w; w_tick w \<le> w_tick w'\<rbrakk> \<Longrightarrow>
      Q (Inr (priced_row reg (w_mem w) r (token_counts rd r (row_of_record r requested (parse_principal (ids e) (rc_api_key r)))))) w'" for Q
    by (cases "rc_requested r = zero_time"; cases "parse_principal (ids e) (rc_api_key r)")
      (use that in \<open>simp_all add: event_of_def wp_simps\<close>)
  note run = this
  show ?thesis
    by (rule run) (simp add: priced_row_def cost_irrelevant kept_fields row_of_record_def)
qed

text \<open>C5: what the gate lets through under a spend limit, the sink can price. When it passes a request of an account with
  limits in force, every record of that request, from whichever provider of the model served it and under whatever
  upstream name, is priced, as long as the prices stay as they are, and at that provider's own price: the one listed for the model it served, else the one listed for the
  name the registry serves the requested model under, which is listed for every provider of it.\<close>

theorem passed_is_priced:
  assumes "policy_gate g req b e w = (Inr (Passed req' (Some (p, source)) ch, b'), w')" and "held_nonneg b" and "\<And>n. 0 \<le> zs_cap (gt_zstd g) n"
  shows "\<exists>gr requested. authenticated_by e (w_db w) (credential_candidates req) p gr source
    \<and> model_request g (classify (rq_method req) (rq_pattern req)) req req' requested
    \<and> (in_force g gr w = [] \<or> (\<forall>rd r e' v q v'. event_of rd (gt_registry g) r e' v = (q, v') \<and> w_mem v = w_mem w'
         \<and> rc_alias r = requested \<and> requested \<noteq> []
         \<and> policy_provider (rc_provider r) \<in> set (snd (routed (providers_for (gt_registry g)) requested))
         \<longrightarrow> (\<exists>ev price. q = Inr ev \<and> ue_provider ev = policy_provider (rc_provider r)
               \<and> price_in_force (gt_registry g) (w_mem w') requested (ue_provider ev) (rc_model r) price
               \<and> ue_cost ev = price_usage ev (Some price))))"
proof -
  have post: "gate_post g req b e w (Passed req' (Some (p, source)) ch) b' w'"
    using policy_gate_post [OF assms(2,3,1)] by auto
  then obtain gr requested where gr: "authenticated_by e (w_db w) (credential_candidates req) p gr source"
    "model_request g (classify (rq_method req) (rq_pattern req)) req req' requested" and sp: "spend_passed g gr p requested e w w'"
    by (auto simp: gate_post_def Let_def)
  have "\<exists>ev price. q = Inr ev \<and> ue_provider ev = policy_provider (rc_provider r)
      \<and> price_in_force (gt_registry g) (w_mem w') requested (ue_provider ev) (rc_model r) price \<and> ue_cost ev = price_usage ev (Some price)"
    if "in_force g gr w \<noteq> []" "event_of rd (gt_registry g) r e' v = (q, v')" "w_mem v = w_mem w'" "rc_alias r = requested" "requested \<noteq> []"
      "policy_provider (rc_provider r) \<in> set (snd (routed (providers_for (gt_registry g)) requested))"
    for rd e' v q v' and r :: usage_record
  proof -
    note h = that
    have priced: "priced_everywhere (gt_registry g) (w_mem v) requested" using sp h(1,3) by (auto simp: spend_passed_def Let_def)
    obtain model provs where routes: "routed (providers_for (gt_registry g)) requested = (model, provs)" by (metis surj_pair)
    obtain price where "row_price (gt_registry g) (w_mem v) (policy_provider (rc_provider r)) (rc_model r) requested = Some price"
      "price_in_force (gt_registry g) (w_mem v) requested (policy_provider (rc_provider r)) (rc_model r) price"
      using row_price_requested [OF priced h(5) routes] h(6) routes by auto
    then show ?thesis using wp_run [OF wp_event_of h(2)] h(3,4) by auto
  qed
  then show ?thesis using gr by blast
qed

end
