(* ===== verification/SinkBatch.thy ===== *)
theory SinkBatch
  imports Sink
begin

text \<open>What one batch of the usage sink leaves in the tables, and the witnesses of the properties of \<open>Sink\<close>.\<close>

section \<open>What a batch leaves\<close>

definition row_for :: "env \<Rightarrow> registry \<Rightarrow> mem \<Rightarrow> usage_record \<Rightarrow> usage_event \<Rightarrow> bool" where
  "row_for e reg m r ev \<longleftrightarrow> ue_provider ev = policy_provider (rc_provider r) \<and> ue_model ev = rc_model r
     \<and> ue_user ev = (case parse_principal (ids e) (rc_api_key r) of Inr p \<Rightarrow> p_user p | Inl _ \<Rightarrow> uuid_nil)
     \<and> ue_token ev = (case parse_principal (ids e) (rc_api_key r) of Inr p \<Rightarrow> p_token p | Inl _ \<Rightarrow> uuid_nil)
     \<and> ue_cost ev = price_usage ev (row_price reg m (ue_provider ev) (rc_model r) (rc_alias r))"

text \<open>Nothing but the log, which only grows, and the ticks.\<close>

definition logs_only :: "world \<Rightarrow> world \<Rightarrow> bool" where
  "logs_only w w' \<longleftrightarrow> w_db w' = w_db w \<and> w_mem w' = w_mem w \<and> set (w_log w) \<subseteq> set (w_log w')"

lemma wp_users_by_id: "wp (attempt (users_by_id i)) e w (\<lambda>q w'. logs_only w w' \<and> (\<exists>r. q = Inr r))"
  by (auto simp: users_by_id_def wp_simps logs_only_def split: sum.splits)

lemma logs_refl [simp]: "logs_only w w"
  by (simp add: logs_only_def)

lemma logs_trans: "logs_only w v \<Longrightarrow> logs_only v u \<Longrightarrow> logs_only w u"
  by (auto simp: logs_only_def)

lemma logs_tick [simp]: "logs_only w (tick w)"
  by (simp add: logs_only_def)

lemma logs_warn [simp]: "logs_only w (w\<lparr>w_log := w_log w @ ms\<rparr>)"
  by (auto simp: logs_only_def)

lemma wp_owner_label:
  "wp (owner_label i sk) e w (\<lambda>q w'. logs_only w w' \<and> (\<exists>l sk'. q = Inr (l, sk') \<and> sk_seen sk' = sk_seen sk))"
proof -
  have kept: "\<exists>l sk'. remember_label now i r sk = (l, sk') \<and> sk_seen sk' = sk_seen sk" for now r
    by (simp add: remember_label_def Let_def split: sum.split)
  have lookup: "wp (bnd (attempt (users_by_id i)) (\<lambda>r. ret (remember_label now i r sk))) e w'
      (\<lambda>q v. logs_only w v \<and> (\<exists>l sk'. q = Inr (l, sk') \<and> sk_seen sk' = sk_seen sk))" if "logs_only w w'" for now w'
    unfolding wp_bnd
    by (rule wp_mono [OF wp_users_by_id]) (use kept that in \<open>auto simp: wp_simps intro: logs_trans\<close>)
  show ?thesis
    unfolding owner_label_def wp_bnd wp_now sum.case
    using lookup by (simp add: wp_simps split: option.split)
qed

lemma wp_observe_record: "wp (observe_record rd r ev sk) e w (\<lambda>q w'. logs_only w w' \<and> (\<exists>sk'. q = Inr sk'))"
  unfolding observe_record_def wp_bnd by (rule wp_mono [OF wp_owner_label]) (auto simp: wp_simps Let_def)

lemma wp_event_logs: "wp (event_of rd reg r) e w (\<lambda>_ w'. logs_only w w')"
  by (auto simp: event_of_def wp_simps logs_only_def split: sum.split)

lemma wp_map_records:
  "wp (map_records rd reg rs evs sk) e w (\<lambda>q w'. logs_only w w' \<and> (\<exists>evs' sk'. q = Inr (evs @ evs', sk') \<and> list_all2 (row_for e reg (w_mem w)) rs evs'))"
proof (induction rs arbitrary: evs sk w)
  case Nil
  then show ?case by (simp add: wp_simps)
next
  case (Cons r rs)
  have row: "wp (event_of rd reg r) e w (\<lambda>q w'. logs_only w w' \<and> (\<exists>ev. q = Inr ev \<and> row_for e reg (w_mem w) r ev))"
    by (rule wp_mono [OF wp_conj [OF wp_event_of wp_event_logs]]) (auto simp: row_for_def)
  show ?case
    unfolding map_records.simps wp_bnd
  proof (rule wp_mono [OF row], elim conjE exE, hypsubst, simp only: sum.case wp_bnd)
    fix w' ev
    assume l: "logs_only w w'" and ev: "row_for e reg (w_mem w) r ev"
    have mem: "w_mem v = w_mem w" if "logs_only w' v" for v using l that by (simp add: logs_only_def)
    show "wp (observe_record rd r ev sk) e w' (\<lambda>q v. case q of Inl x \<Rightarrow>
          logs_only w v \<and> (\<exists>evs' sk'. Inl x = Inr (evs @ evs', sk') \<and> list_all2 (row_for e reg (w_mem w)) (r # rs) evs')
        | Inr sk \<Rightarrow> wp (map_records rd reg rs (evs @ [ev]) sk) e v
            (\<lambda>q w'. logs_only w w' \<and> (\<exists>evs' sk'. q = Inr (evs @ evs', sk') \<and> list_all2 (row_for e reg (w_mem w)) (r # rs) evs')))"
    proof (rule wp_mono [OF wp_observe_record], elim conjE exE, hypsubst, simp only: sum.case)
      fix v sk'
      assume lv: "logs_only w' v"
      show "wp (map_records rd reg rs (evs @ [ev]) sk') e v
            (\<lambda>q w'. logs_only w w' \<and> (\<exists>evs' sk'. q = Inr (evs @ evs', sk') \<and> list_all2 (row_for e reg (w_mem w)) (r # rs) evs'))"
        by (rule wp_mono [OF Cons.IH]) (use l lv ev mem [OF lv] in \<open>auto intro: logs_trans\<close>)
    qed
  qed
qed

text \<open>The alerts a batch raises.\<close>

definition alerts :: "usage_event list \<Rightarrow> uuid list \<Rightarrow> sink_report list" where
  "alerts evs owners = map (\<lambda>ev. SawUnpriced (ue_provider ev) (ue_model ev) (uc_unpriced (ue_cost ev)))
     (filter (\<lambda>ev. uc_unpriced (ue_cost ev) \<noteq> 0 \<and> ue_user ev \<in> set owners) evs)"

lemma wp_alert_unpriced: "wp (alert_unpriced evs owners sk) e w (\<lambda>q w'. logs_only w w' \<and> q = Inr (report (alerts evs owners) sk))"
proof (induction evs arbitrary: sk w)
  case Nil
  then show ?case by (simp add: wp_simps alerts_def report_def)
next
  case (Cons ev evs)
  show ?case
  proof (cases "uc_unpriced (ue_cost ev) = 0 \<or> ue_user ev \<notin> set owners")
    case True
    then show ?thesis using Cons.IH [of sk w] by (auto simp: alerts_def)
  next
    case False
    let ?w = "w\<lparr>w_log := w_log w @ [''spend-limited request has unpriced tokens'']\<rparr>"
    have "logs_only w w'" if "logs_only ?w w'" for w' by (rule logs_trans [OF logs_warn that])
    then show ?thesis using False
      by (simp add: wp_simps, intro wp_mono [OF Cons.IH]) (auto simp: alerts_def report_def)
  qed
qed

text \<open>Keys and accounts with nothing changed but a later stamp.\<close>

definition later :: "instant option \<Rightarrow> instant option \<Rightarrow> bool" where
  "later old new \<longleftrightarrow> (case old of None \<Rightarrow> True | Some x \<Rightarrow> (\<exists>y. new = Some y \<and> x \<le> y))"

definition token_stamped :: "token \<Rightarrow> token \<Rightarrow> bool" where
  "token_stamped k k' \<longleftrightarrow> (\<exists>t. k' = k\<lparr>tk_last_used := t\<rparr> \<and> later (tk_last_used k) t)"

definition user_stamped :: "user_row \<Rightarrow> user_row \<Rightarrow> bool" where
  "user_stamped r r' \<longleftrightarrow> (\<exists>t. r' = r\<lparr>ur_last_seen := t\<rparr> \<and> later (ur_last_seen r) t)"

definition stamped :: "db \<Rightarrow> db \<Rightarrow> bool" where
  "stamped d d' \<longleftrightarrow> (\<exists>ks us. d' = d\<lparr>t_tokens := ks, t_users := us\<rparr>
     \<and> list_all2 token_stamped (t_tokens d) ks \<and> list_all2 user_stamped (t_users d) us)"

lemma later_refl [simp]: "later x x"
  by (simp add: later_def split: option.split)

lemma later_trans: "later x y \<Longrightarrow> later y z \<Longrightarrow> later x z"
  by (auto simp: later_def split: option.splits)

lemma later_greatest [simp]: "later x (greatest x t)"
  by (simp add: later_def greatest_def split: option.split)

lemma token_stamped_refl [simp]: "token_stamped k k"
  unfolding token_stamped_def by (rule exI [of _ "tk_last_used k"]) simp

lemma user_stamped_refl [simp]: "user_stamped r r"
  unfolding user_stamped_def by (rule exI [of _ "ur_last_seen r"]) simp

lemma token_stamped_trans: "token_stamped k l \<Longrightarrow> token_stamped l m \<Longrightarrow> token_stamped k m"
  unfolding token_stamped_def by (elim exE conjE) (rule exI, rule conjI, simp, simp, erule (1) later_trans)

lemma user_stamped_trans: "user_stamped k l \<Longrightarrow> user_stamped l m \<Longrightarrow> user_stamped k m"
  unfolding user_stamped_def by (elim exE conjE) (rule exI, rule conjI, simp, simp, erule (1) later_trans)

lemma stamped_refl [simp]: "stamped d d"
  unfolding stamped_def by (intro exI [of _ "t_tokens d"] exI [of _ "t_users d"]) (simp add: list.rel_refl)

lemma stamped_trans:
  assumes "stamped d v" "stamped v u"
  shows "stamped d u"
proof -
  obtain ks us where v: "v = d\<lparr>t_tokens := ks, t_users := us\<rparr>" "list_all2 token_stamped (t_tokens d) ks"
    "list_all2 user_stamped (t_users d) us" using assms(1) by (auto simp: stamped_def)
  obtain ks' us' where u: "u = v\<lparr>t_tokens := ks', t_users := us'\<rparr>" "list_all2 token_stamped (t_tokens v) ks'"
    "list_all2 user_stamped (t_users v) us'" using assms(2) unfolding stamped_def by blast
  have "list_all2 token_stamped (t_tokens d) ks'" "list_all2 user_stamped (t_users d) us'"
    using v u by (auto intro: list_all2_trans [of token_stamped token_stamped token_stamped, OF token_stamped_trans]
        list_all2_trans [of user_stamped user_stamped user_stamped, OF user_stamped_trans])
  moreover have "u = d\<lparr>t_tokens := ks', t_users := us'\<rparr>" using v(1) u(1) by simp
  ultimately show ?thesis unfolding stamped_def by blast
qed

definition stamps_only :: "world \<Rightarrow> world \<Rightarrow> bool" where
  "stamps_only w w' \<longleftrightarrow> stamped (w_db w) (w_db w') \<and> w_mem w' = w_mem w \<and> set (w_log w) \<subseteq> set (w_log w')"

lemma stamps_trans: "stamps_only w v \<Longrightarrow> stamps_only v u \<Longrightarrow> stamps_only w u"
  by (auto simp: stamps_only_def intro: stamped_trans)

lemma stamped_tokens: "stamped d (d\<lparr>t_tokens := map (\<lambda>k. if tk_id k = i then k\<lparr>tk_last_used := greatest (tk_last_used k) t\<rparr> else k) (t_tokens d)\<rparr>)"
proof -
  have "token_stamped k (if tk_id k = i then k\<lparr>tk_last_used := greatest (tk_last_used k) t\<rparr> else k)" for k :: token
    by (auto simp: token_stamped_def [of k "k\<lparr>tk_last_used := greatest (tk_last_used k) t\<rparr>"])
  then show ?thesis unfolding stamped_def
    by (intro exI [of _ "map (\<lambda>k. if tk_id k = i then k\<lparr>tk_last_used := greatest (tk_last_used k) t\<rparr> else k) (t_tokens d)"]
        exI [of _ "t_users d"]) (simp add: list.rel_map list.rel_refl)
qed

lemma stamped_users: "stamped d (map_user i (\<lambda>r. r\<lparr>ur_last_seen := greatest (ur_last_seen r) t\<rparr>) d)"
proof -
  have "user_stamped r (if ur_id r = i then r\<lparr>ur_last_seen := greatest (ur_last_seen r) t\<rparr> else r)" for r :: user_row
    by (auto simp: user_stamped_def [of r "r\<lparr>ur_last_seen := greatest (ur_last_seen r) t\<rparr>"])
  then show ?thesis unfolding stamped_def map_user_def
    by (intro exI [of _ "t_tokens d"]
        exI [of _ "map (\<lambda>r. if ur_id r = i then r\<lparr>ur_last_seen := greatest (ur_last_seen r) t\<rparr> else r) (t_users d)"])
      (simp add: list.rel_map list.rel_refl)
qed

lemma wp_touch_token: "wp (tokens_touch_last_used i t) e w (\<lambda>_ w'. stamps_only w w')"
  by (simp add: tokens_touch_last_used_def wp_simps stamps_only_def stamped_tokens)

lemma wp_touch_user: "wp (users_touch_last_seen i t) e w (\<lambda>_ w'. stamps_only w w')"
  by (simp add: users_touch_last_seen_def wp_simps stamps_only_def stamped_users)

lemma wp_stamp_all:
  assumes "\<And>i t w. wp (stamp i t) e w (\<lambda>_ w'. stamps_only w w')"
  shows "wp (stamp_all stamp msg its) e w (\<lambda>q w'. q = Inr () \<and> stamps_only w w')"
proof (induction its arbitrary: w)
  case Nil
  then show ?case by (simp add: wp_simps stamps_only_def)
next
  case (Cons it its)
  obtain i t where it: "it = (i, t)" by (cases it)
  have warned: "stamps_only w u" if "stamps_only w v" "stamps_only (v\<lparr>w_log := w_log v @ [msg]\<rparr>) u" for v u
    using that by (auto simp: stamps_only_def intro: stamped_trans)
  show ?case
    unfolding it stamp_all.simps wp_bnd wp_attempt
    by (rule wp_mono [OF assms])
      (auto simp: wp_simps split: sum.split intro!: wp_mono [OF Cons.IH] intro: stamps_trans warned)
qed

lemma wp_touch_used: "wp (touch_used evs) e w (\<lambda>q w'. q = Inr () \<and> stamps_only w w')"
  unfolding touch_used_def wp_bnd
  by (rule wp_mono [OF wp_stamp_all [OF wp_touch_token]])
    (auto intro!: wp_mono [OF wp_stamp_all [OF wp_touch_user]] intro: stamps_trans)

text \<open>The ledger after a batch: every row of it, with the open windows of its owners charged their totals, or none.\<close>

definition appended :: "usage_event list \<Rightarrow> db \<Rightarrow> db" where
  "appended evs d = d\<lparr>t_windows := map (charge_window (owner_costs evs [])) (t_windows d),
     t_usage := t_usage d @ map (stored_event d) evs\<rparr>"

definition batch_done :: "readers \<Rightarrow> registry \<Rightarrow> usage_record list \<Rightarrow> env \<Rightarrow> world \<Rightarrow> sink result \<Rightarrow> world \<Rightarrow> bool" where
  "batch_done rd reg rs e w q w' \<longleftrightarrow> (\<exists>evs sk'. q = Inr sk' \<and> list_all2 (row_for e reg (w_mem w)) rs evs \<and> w_mem w' = w_mem w \<and> set (w_log w) \<subseteq> set (w_log w')
     \<and> (stamped (appended evs (w_db w)) (w_db w')
        \<or> stamped (w_db w) (w_db w') \<and> ''usage ledger rows lost'' \<in> set (w_log w')))"

lemma appended_nil: "appended [] d = d"
proof -
  have "charge_window [] = (\<lambda>r. r)" by (rule ext) (simp add: charge_window_def)
  then show ?thesis by (simp add: appended_def)
qed

lemma wp_append_rows:
  "wp (usage_append_batch evs) e w (\<lambda>r w'. w_mem w' = w_mem w \<and> set (w_log w) \<subseteq> set (w_log w')
     \<and> (case r of Inl _ \<Rightarrow> w_db w' = w_db w | Inr _ \<Rightarrow> w_db w' = appended evs (w_db w)))"
  by (auto simp: usage_append_batch_def wp_simps Let_def appended_nil) (simp_all add: appended_def)

lemma wp_finish:
  assumes "list_all2 (row_for e reg (w_mem w)) rs evs" "w_mem u = w_mem w" "set (w_log w) \<subseteq> set (w_log u)"
    "w_db u = appended evs (w_db w) \<or> w_db u = w_db w \<and> ''usage ledger rows lost'' \<in> set (w_log u)"
  shows "wp (bnd (alert_unpriced evs owners sk) (\<lambda>sk. bnd (touch_used evs) (\<lambda>_. ret sk))) e u (batch_done rd reg rs e w)"
  unfolding wp_bnd
  by (rule wp_mono [OF wp_alert_unpriced], elim conjE, hypsubst, simp only: sum.case, rule wp_mono [OF wp_touch_used])
    (use assms in \<open>auto simp: wp_simps batch_done_def logs_only_def stamps_only_def intro!: exI [of _ evs]\<close>)

lemma wp_warn_first: "wp (bnd (warn m) k) e w Q = wp (k ()) e (w\<lparr>w_log := w_log w @ [m]\<rparr>) Q"
  by (simp add: wp_simps)

lemma wp_ret_first: "wp (bnd (ret x) k) e w Q = wp (k x) e w Q"
  by (simp add: wp_simps)

lemma wp_recorded:
  assumes "logs_only w v" "list_all2 (row_for e reg (w_mem w)) rs evs"
  shows "wp (bnd (attempt (usage_append_batch evs)) (\<lambda>r.
     bnd (case r of Inl _ \<Rightarrow> warn ''usage ledger rows lost'' | Inr _ \<Rightarrow> ret ()) (\<lambda>_.
     bnd (alert_unpriced evs (case r of Inr owners \<Rightarrow> owners | Inl _ \<Rightarrow> []) sk) (\<lambda>sk.
     bnd (touch_used evs) (\<lambda>_. ret sk))))) e v (batch_done rd reg rs e w)"
  unfolding wp_bnd [of "attempt _"] wp_attempt
proof (rule wp_mono [OF wp_append_rows])
  fix r :: "uuid list result" and w' :: world
  assume d: "w_mem w' = w_mem v \<and> set (w_log v) \<subseteq> set (w_log w') \<and> (case r of Inl _ \<Rightarrow> w_db w' = w_db v | Inr _ \<Rightarrow> w_db w' = appended evs (w_db v))"
  have same: "w_db v = w_db w" "w_mem v = w_mem w" "set (w_log w) \<subseteq> set (w_log v)" using assms(1) by (simp_all add: logs_only_def)
  show "case Inr r of Inl x \<Rightarrow> batch_done rd reg rs e w (Inl x) w'
      | Inr r \<Rightarrow> wp (bnd (case r of Inl _ \<Rightarrow> warn ''usage ledger rows lost'' | Inr _ \<Rightarrow> ret ()) (\<lambda>_.
         bnd (alert_unpriced evs (case r of Inr owners \<Rightarrow> owners | Inl _ \<Rightarrow> []) sk) (\<lambda>sk.
         bnd (touch_used evs) (\<lambda>_. ret sk)))) e w' (batch_done rd reg rs e w)"
  proof (cases r)
    case (Inl x)
    show ?thesis unfolding Inl sum.case wp_warn_first by (rule wp_finish [OF assms(2)]) (use d same Inl in auto)
  next
    case (Inr owners)
    show ?thesis unfolding Inr sum.case wp_ret_first by (rule wp_finish [OF assms(2)]) (use d same Inr in auto)
  qed
qed

lemma wp_process_batch: "wp (process_batch rd reg rs sk) e w (batch_done rd reg rs e w)"
  unfolding process_batch_def wp_bnd [of "map_records rd reg rs [] sk"]
  by (rule wp_mono [OF wp_map_records]) (auto intro!: wp_recorded)

text \<open>C17: what a batch of the sink leaves. It always comes to an end with a state, and one row for each record, in order, with the
  provider policies know, the owner and key of the record's principal, and the cost at the price in force. The ledger has all the rows,
  with the open windows of the owners charged their total in the same step, or none and the loss is logged; besides
  that nothing changes but the stamps of use, which only move forward.\<close>

theorem batch_recorded:
  assumes "process_batch rd reg rs sk e w = (q, w')"
  shows "\<exists>evs sk'. q = Inr sk' \<and> list_all2 (row_for e reg (w_mem w)) rs evs \<and> w_mem w' = w_mem w
    \<and> (stamped (appended evs (w_db w)) (w_db w')
       \<or> stamped (w_db w) (w_db w') \<and> ''usage ledger rows lost'' \<in> set (w_log w'))"
  using wp_run [OF wp_process_batch assms] by (auto simp: batch_done_def)

section \<open>Witnesses\<close>

definition example_readers :: readers where
  "example_readers = \<lparr>rd_float = (\<lambda>_. None), rd_time = (\<lambda>_. None), rd_valid = (\<lambda>_. False)\<rparr>"

definition example_detail :: usage_detail where
  "example_detail = \<lparr>ud_input = 100, ud_output = 50, ud_reasoning = 20, ud_cached = 0, ud_cache_read = 60, ud_cache_creation = 0,
     ud_total = 150, ud_breakdown = \<lparr>tb_uncached = 0, tb_cache_read = 0, tb_cache_write = 0, tb_output = 0, tb_reasoning = 0,
       tb_total = 0, tb_quality = []\<rparr>\<rparr>"

definition example_record :: usage_record where
  "example_record = \<lparr>rc_provider = ''codex'', rc_model = ''gpt-5'', rc_alias = ''gpt-5'', rc_api_key = ''x'', rc_auth = [],
     rc_requested = 5, rc_latency = 2000000, rc_ttft = 0, rc_failed = False, rc_status = 200, rc_stream = False, rc_tier = [],
     rc_response_tier = [], rc_headers = None, rc_detail = example_detail\<rparr>"

definition blank_event :: usage_event where
  "blank_event = example_event\<lparr>ue_input := 0, ue_output := 0, ue_reasoning := 0, ue_cache_read := 0, ue_cache_write := 0\<rparr>"

theorem counts_partition_witness:
  "ue_input (token_counts example_readers example_record blank_event) = 40
    \<and> kinds_total (token_counts example_readers example_record blank_event) = 150"
proof -
  have kinds: "kinds_of (rc_provider example_record) (rc_detail example_record) = Some (40, 30, 20, 60, 0)" by code_simp
  have "detail_fits (rc_detail example_record)" "\<not> rd_valid example_readers x" "uncounted blank_event" for x
    by (simp_all add: detail_fits_def example_record_def example_detail_def example_readers_def uncounted_def blank_event_def)
  note spec = counts_partition [OF this(2) this(1) this(3) refl]
  show ?thesis using spec by (simp add: kinds kinds_total_def)
qed

text \<open>The deployment with a limit of five dollars an hour and one price, which a request of the account passes, and whose record is priced at it though
  the provider names the model otherwise.\<close>

definition listed_price :: model_price where
  "listed_price = \<lparr>mp_provider = ''chatgpt'', mp_model = ''gpt-5'', mp_input = Fin 1, mp_output = Fin 8, mp_cache_read = Fin (1 / 10), mp_cache_write = Fin 0, mp_updated = 7\<rparr>"

definition limited_world :: world where
  "limited_world = example_world\<lparr>w_mem := example_mem\<lparr>m_defaults := hourly, m_table := Some [((''chatgpt'', ''gpt-5''), listed_price)]\<rparr>\<rparr>"

definition limited_gate :: gate where
  "limited_gate = example_gate\<lparr>gt_spend := Some False\<rparr>"

lemma limited_passes:
  "\<exists>req' who ch b' w'. policy_gate limited_gate example_request idle_budget example_env limited_world = (Inr (Passed req' (Some who) ch, b'), w')"
  unfolding limited_gate_def
proof (rule example_passes_under)
  show "w_db limited_world = example_db" by (simp add: limited_world_def example_world_def)
next
  fix v :: world and model
  let ?u = "example_user 2 kind_human ''ada@example.org'' role_user"
  let ?g = "example_gate\<lparr>gt_spend := Some False\<rparr>"
  assume v: "w_db v = example_db" "w_mem v = w_mem limited_world"
  have m: "m_defaults (w_mem limited_world) = hourly" by (simp add: limited_world_def)
  have priced: "priced_everywhere (gt_registry ?g) (w_mem limited_world) ''gpt-5''"
    unfolding limited_world_def example_gate_def by code_simp
  have limits: "g_limits (snd (resolved example_token ?u)) = None" "p_user (fst (resolved example_token ?u)) = 2"
    by (simp_all add: resolved_def example_user_def example_token_def)
  have dec: "decide hourly [] now = decision_zero\<lparr>d_open := hourly\<rparr>" for now by (rule decide_fresh)
  have calm: "\<not> fault example_env n" for n by (simp add: example_env_def)
  have opened: "wp (windows_open 2 (map r_window hourly) [] now) example_env v' (\<lambda>r w'. r = Inr ())" if "w_db v' = example_db" for now v'
  proof -
    have mins: "map minutes_of (map r_window hourly) = [60]" by code_simp
    have "user_exists 2 example_db" "t_windows example_db = []" by (simp_all add: user_exists_def example_db_def example_row_def)
    then show ?thesis using that unfolding windows_open_def mins by (simp add: wp_simps calm)
  qed
  have rows: "rows_of 2 example_db = []" by (simp add: rows_of_def example_db_def)
  have force: "hourly \<noteq> []" "\<not> d_blocked (decision_zero\<lparr>d_open := hourly\<rparr>)" "d_orphans (decision_zero\<lparr>d_open := hourly\<rparr>) = []"
    by (simp_all add: hourly_def decision_zero_def)
  have "wp (spend_admit 2 hourly) example_env v (\<lambda>r w'. r = Inr (decision_zero\<lparr>d_open := hourly\<rparr>))"
    using v(1) by (simp add: spend_admit_def windows_of_rows wp_query wp_bnd wp_now wp_ret Let_def rows dec force calm)
      (rule wp_mono [OF opened], simp_all add: wp_ret)
  then have admit: "wp (spend_admit 2 hourly) example_env v (\<lambda>r w'. Q r w')" if "\<And>w'. Q (Inr (decision_zero\<lparr>d_open := hourly\<rparr>)) w'" for Q
    by (rule wp_mono) (use that in simp)
  show "wp (admit_spend ?g (snd (resolved example_token ?u)) (fst (resolved example_token ?u)) ''gpt-5'' model) example_env v (\<lambda>r w'. r = Inr None)"
    using priced v(2) m unfolding admit_spend_def limits
    by (simp add: effective_set_def example_gate_def spend_effective_def effective_def wp_simps force) (rule admit, simp add: wp_simps force)
qed

lemma limited_request:
  assumes "authenticated_by example_env example_db cs p gr source" "model_request limited_gate (classify ''POST'' ''/v1/chat/completions'') rq req' requested"
  shows "in_force limited_gate gr limited_world = hourly \<and> requested = ''gpt-5''"
proof -
  have "g_limits gr = None"
    using assms(1) example_users
    by (auto simp: authenticated_by_def authenticates_def resolved_def example_db_def example_token_def example_user_def split: if_splits)
  moreover have "rt_model (classify ''POST'' ''/v1/chat/completions'') = BodyModel"
    by (simp add: classify_def routes_def model_route_def)
  ultimately show ?thesis using assms(2)
    by (auto simp: in_force_def limited_gate_def limited_world_def effective_def model_request_def model_of_def json_model_def example_gate_def Let_def
        split: if_splits prod.splits)
qed

theorem passed_is_priced_witness:
  "\<exists>req' p source ch b' w' v' ev. policy_gate limited_gate example_request idle_budget example_env limited_world
       = (Inr (Passed req' (Some (p, source)) ch, b'), w')
    \<and> event_of example_readers (gt_registry limited_gate) (example_record\<lparr>rc_model := ''gpt-5-2025''\<rparr>) example_env w' = (Inr ev, v')
    \<and> ue_cost ev = price_usage ev (Some listed_price)"
proof -
  let ?r = "example_record\<lparr>rc_model := ''gpt-5-2025''\<rparr>"
  obtain req' p source ch b' w' where run: "policy_gate limited_gate example_request idle_budget example_env limited_world
       = (Inr (Passed req' (Some (p, source)) ch, b'), w')" using limited_passes by auto
  have cap: "0 \<le> zs_cap (gt_zstd limited_gate) n" for n by (simp add: limited_gate_def example_gate_def)
  have req: "rq_method example_request = ''POST''" "rq_pattern example_request = ''/v1/chat/completions''" by (simp_all add: example_request_def)
  have db: "w_db limited_world = example_db" by (simp add: limited_world_def example_world_def)
  obtain q v' where ev: "event_of example_readers (gt_registry limited_gate) ?r example_env w' = (q, v')" by fastforce
  have "policy_provider (rc_provider ?r) \<in> set (snd (routed (providers_for (gt_registry limited_gate)) ''gpt-5''))" "rc_alias ?r = ''gpt-5''"
    unfolding limited_gate_def example_gate_def example_record_def by code_simp+
  moreover have "hourly \<noteq> []" by (simp add: hourly_def)
  moreover obtain gr requested where post: "authenticated_by example_env example_db (credential_candidates example_request) p gr source"
      "model_request limited_gate (classify ''POST'' ''/v1/chat/completions'') example_request req' requested"
      "in_force limited_gate gr limited_world = [] \<or> (\<forall>rd r e' v q v'. event_of rd (gt_registry limited_gate) r e' v = (q, v') \<and> w_mem v = w_mem w'
         \<and> rc_alias r = requested \<and> requested \<noteq> []
         \<and> policy_provider (rc_provider r) \<in> set (snd (routed (providers_for (gt_registry limited_gate)) requested))
         \<longrightarrow> (\<exists>ev price. q = Inr ev \<and> ue_provider ev = policy_provider (rc_provider r)
               \<and> price_in_force (gt_registry limited_gate) (w_mem w') requested (ue_provider ev) (rc_model r) price
               \<and> ue_cost ev = price_usage ev (Some price)))"
    using passed_is_priced [OF run idle_nonneg cap] unfolding db req by blast
  moreover note limited_request [OF post(1,2)]
  ultimately obtain u price where u: "q = Inr u" "ue_cost u = price_usage u (Some price)"
      "price_in_force (gt_registry limited_gate) (w_mem w') ''gpt-5'' (policy_provider (rc_provider ?r)) (rc_model ?r) price"
    using ev by force
  have "w_mem w' = w_mem limited_world"
    using policy_gate_post [OF idle_nonneg cap run] by (auto simp: gate_post_def spend_passed_def Let_def)
  then have "price = listed_price" using u(3) 
    by (auto simp: price_in_force_def limited_world_def example_record_def split: if_splits)
  then show ?thesis using run ev u by blast
qed

theorem batch_recorded_witness:
  "\<exists>sk' w'. process_batch example_readers (\<lambda>_. []) [example_record] \<lparr>sk_labels = [], sk_quota = [], sk_seen = []\<rparr>
      example_env example_world = (Inr sk', w') \<and> w_mem w' = example_mem"
proof -
  obtain q w' where run: "process_batch example_readers (\<lambda>_. []) [example_record] \<lparr>sk_labels = [], sk_quota = [], sk_seen = []\<rparr>
      example_env example_world = (q, w')" by (metis surj_pair)
  have "w_mem example_world = example_mem" by (simp add: example_world_def)
  then show ?thesis using batch_recorded [OF run] run by auto
qed

end
