(* ===== verification/SinkQueue.thy ===== *)
theory SinkQueue
  imports SinkBatch
begin

text \<open>
  The queue of the usage sink and its worker as a step relation: \<open>HandleUsage\<close>, the worker's \<open>run\<close> with \<open>fill\<close>, \<open>take\<close> and
  \<open>process\<close>, and \<open>Drain\<close>, interleaved with each other and with whatever else the process does. Every send and receive on a
  channel is one step, a handler's look at the closed flag another; a batch is processed in one step, as only the
  worker touches the sink's state. The counters do not wrap.
\<close>

section \<open>State and steps\<close>

text \<open>What the worker is doing: waiting, filling a batch with at most so many more, or flushing for a drain: so many records left to
  process, this batch included, the batch taken so far, and so many to take for it.\<close>

datatype worker = Waiting | Filling "usage_record list" nat | Flushing nat nat "usage_record list" nat

record sink_queue =
  sq_queue :: "usage_record list"
  sq_closed :: bool
  sq_dropped :: nat
  sq_worker :: worker
  sq_flush :: "nat list"
  sq_sink :: sink
  sq_world :: world
  sq_handlers :: "usage_record list"
  sq_handled :: nat
  sq_accepted :: "usage_record list"
  sq_processed :: "usage_record list"
  sq_started :: "(nat \<times> nat) list"
  sq_drained :: "nat list"

text \<open>The last six fields but the handlers are history: how many records came, which were accepted and processed, how many had been accepted
  when each drain began, and which drains have returned without an error. A handler past the closed flag has its record in the handlers.\<close>

definition new_sink :: "world \<Rightarrow> sink_queue" where
  "new_sink w = \<lparr>sq_queue = [], sq_closed = False, sq_dropped = 0, sq_worker = Waiting, sq_flush = [],
     sq_sink = \<lparr>sk_labels = [], sk_quota = [], sk_seen = []\<rparr>, sq_world = w, sq_handlers = [], sq_handled = 0, sq_accepted = [],
     sq_processed = [], sq_started = [], sq_drained = []\<rparr>"

definition handle_usage :: "usage_record \<Rightarrow> sink_queue \<Rightarrow> sink_queue" where
  "handle_usage r s =
     (if sq_closed s then s\<lparr>sq_handled := sq_handled s + 1, sq_dropped := sq_dropped s + 1\<rparr>
      else s\<lparr>sq_handled := sq_handled s + 1, sq_handlers := sq_handlers s @ [r]\<rparr>)"

definition send_record :: "usage_record \<Rightarrow> sink_queue \<Rightarrow> sink_queue" where
  "send_record r s =
     (let s = s\<lparr>sq_handlers := remove1 r (sq_handlers s)\<rparr> in
      if length (sq_queue s) < queue_max
      then s\<lparr>sq_queue := sq_queue s @ [r], sq_accepted := sq_accepted s @ [r]\<rparr>
      else s\<lparr>sq_dropped := sq_dropped s + 1\<rparr>)"

definition start_drain :: "nat \<Rightarrow> sink_queue \<Rightarrow> sink_queue" where
  "start_drain i s = s\<lparr>sq_closed := True, sq_flush := sq_flush s @ [i], sq_started := (i, length (sq_accepted s)) # sq_started s\<rparr>"

text \<open>A batch of the flush to come: at most \<open>batch_max\<close> of those left.\<close>

definition next_flush :: "nat \<Rightarrow> nat \<Rightarrow> worker" where
  "next_flush i n = Flushing i n [] (min n batch_max)"

inductive sink_step :: "readers \<Rightarrow> registry \<Rightarrow> env \<Rightarrow> sink_queue \<Rightarrow> sink_queue \<Rightarrow> bool" for rd reg e where
  handles: "sink_step rd reg e s (handle_usage r s)"
| sends: "r \<in> set (sq_handlers s) \<Longrightarrow> sink_step rd reg e s (send_record r s)"
| drains: "i \<notin> fst ` set (sq_started s) \<Longrightarrow> sink_step rd reg e s (start_drain i s)"
| gives_up: "i \<in> set (sq_flush s) \<Longrightarrow> sink_step rd reg e s (s\<lparr>sq_flush := remove1 i (sq_flush s)\<rparr>)"
| receives: "sq_worker s = Waiting \<Longrightarrow> sq_queue s = r # q \<Longrightarrow>
    sink_step rd reg e s (s\<lparr>sq_queue := q, sq_worker := Filling [r] (batch_max - 1)\<rparr>)"
| fills: "sq_worker s = Filling batch (Suc n) \<Longrightarrow> sq_queue s = r # q \<Longrightarrow>
    sink_step rd reg e s (s\<lparr>sq_queue := q, sq_worker := Filling (batch @ [r]) n\<rparr>)"
| processes: "sq_worker s = Filling batch n \<Longrightarrow> n = 0 \<or> sq_queue s = [] \<Longrightarrow>
    process_batch rd reg batch (sq_sink s) e (sq_world s) = (Inr sk, w) \<Longrightarrow>
    sink_step rd reg e s (s\<lparr>sq_worker := Waiting, sq_sink := sk, sq_world := w, sq_processed := sq_processed s @ batch\<rparr>)"
| takes_flush: "sq_worker s = Waiting \<Longrightarrow> i \<in> set (sq_flush s) \<Longrightarrow>
    sink_step rd reg e s (s\<lparr>sq_flush := remove1 i (sq_flush s), sq_worker := next_flush i (length (sq_queue s))\<rparr>)"
| takes: "sq_worker s = Flushing i n batch (Suc m) \<Longrightarrow> sq_queue s = r # q \<Longrightarrow>
    sink_step rd reg e s (s\<lparr>sq_queue := q, sq_worker := Flushing i n (batch @ [r]) m\<rparr>)"
| flushes: "sq_worker s = Flushing i n batch 0 \<Longrightarrow> 0 < n \<Longrightarrow>
    process_batch rd reg batch (sq_sink s) e (sq_world s) = (Inr sk, w) \<Longrightarrow>
    sink_step rd reg e s (s\<lparr>sq_worker := next_flush i (n - length batch), sq_sink := sk, sq_world := w,
      sq_processed := sq_processed s @ batch\<rparr>)"
| returns: "sq_worker s = Flushing i 0 batch 0 \<Longrightarrow>
    sink_step rd reg e s (s\<lparr>sq_worker := Waiting, sq_drained := i # sq_drained s\<rparr>)"
| others: "t_usage (w_db w) = t_usage (w_db (sq_world s)) \<Longrightarrow> set (w_log (sq_world s)) \<subseteq> set (w_log w) \<Longrightarrow>
    sink_step rd reg e s (s\<lparr>sq_world := w\<rparr>)"

text \<open>A drain whose context ends while the worker flushes for it returns an error, but the worker still finishes: the history records that it did.\<close>

abbreviation sink_runs :: "readers \<Rightarrow> registry \<Rightarrow> env \<Rightarrow> sink_queue \<Rightarrow> sink_queue \<Rightarrow> bool" where
  "sink_runs rd reg e \<equiv> (sink_step rd reg e)\<^sup>*\<^sup>*"

section \<open>Nothing is lost between the queue and the ledger\<close>

fun in_hand :: "worker \<Rightarrow> usage_record list" where
  "in_hand Waiting = []"
| "in_hand (Filling batch n) = batch"
| "in_hand (Flushing i n batch m) = batch"

text \<open>The records of a flush still to be processed are in the worker's hand or at the head of the queue, and there are enough of them.\<close>

fun worker_ok :: "nat \<Rightarrow> nat \<Rightarrow> (nat \<times> nat) list \<Rightarrow> worker \<Rightarrow> bool" where
  "worker_ok queued done' started Waiting = True"
| "worker_ok queued done' started (Filling batch n) = (batch \<noteq> [] \<and> length batch + n \<le> batch_max)"
| "worker_ok queued done' started (Flushing i n batch m) =
     (length batch + m = min n batch_max \<and> n \<le> length batch + queued \<and> (\<exists>k. (i, k) \<in> set started \<and> k \<le> done' + n))"

definition ledger_row :: "usage_record \<Rightarrow> usage_event \<Rightarrow> bool" where
  "ledger_row r ev \<longleftrightarrow> ue_provider ev = policy_provider (rc_provider r) \<and> ue_model ev = rc_model r"

text \<open>Each drain began with no more accepted than are now, and once it has returned those have been processed.\<close>

definition drains_ok :: "(nat \<times> nat) list \<Rightarrow> nat list \<Rightarrow> nat list \<Rightarrow> nat \<Rightarrow> nat \<Rightarrow> bool" where
  "drains_ok started drained flush accepted processed \<longleftrightarrow> distinct (map fst started)
     \<and> (\<forall>i k. (i, k) \<in> set started \<longrightarrow> k \<le> accepted \<and> (i \<in> set drained \<longrightarrow> k \<le> processed))
     \<and> set drained \<union> set flush \<subseteq> fst ` set started"

text \<open>Every row of the records processed is in the ledger, in order, unless a loss was logged.\<close>

definition ledger_kept :: "world \<Rightarrow> usage_record list \<Rightarrow> world \<Rightarrow> bool" where
  "ledger_kept w0 rs w \<longleftrightarrow> ''usage ledger rows lost'' \<in> set (w_log w)
     \<or> (\<exists>rows. t_usage (w_db w) = t_usage (w_db w0) @ rows \<and> list_all2 ledger_row rs rows)"

definition sink_inv :: "world \<Rightarrow> sink_queue \<Rightarrow> bool" where
  "sink_inv w0 s \<longleftrightarrow> sq_accepted s = sq_processed s @ in_hand (sq_worker s) @ sq_queue s
     \<and> length (sq_queue s) \<le> queue_max
     \<and> sq_handled s = length (sq_accepted s) + sq_dropped s + length (sq_handlers s)
     \<and> worker_ok (length (sq_queue s)) (length (sq_processed s)) (sq_started s) (sq_worker s)
     \<and> drains_ok (sq_started s) (sq_drained s) (sq_flush s) (length (sq_accepted s)) (length (sq_processed s))
     \<and> ledger_kept w0 (sq_processed s) (sq_world s)"

lemmas sink_invD = sink_inv_def [THEN iffD1]

lemma row_for_ledger: "list_all2 (row_for e reg m) rs evs \<Longrightarrow> list_all2 ledger_row rs (map (stored_event d) evs)"
  by (auto simp: list.rel_map row_for_def ledger_row_def stored_event_def elim!: list_all2_mono)

lemma stamped_usage: "stamped d d' \<Longrightarrow> t_usage d' = t_usage d"
  by (auto simp: stamped_def)

lemma ledger_batch:
  assumes "process_batch rd reg batch sk e w = (Inr sk', w')" "ledger_kept w0 rs w"
  shows "ledger_kept w0 (rs @ batch) w'"
proof -
  obtain evs where evs: "list_all2 (row_for e reg (w_mem w)) batch evs" "set (w_log w) \<subseteq> set (w_log w')"
    "stamped (appended evs (w_db w)) (w_db w') \<or> ''usage ledger rows lost'' \<in> set (w_log w')"
    using wp_run [OF wp_process_batch assms(1)] by (auto simp: batch_done_def)
  show ?thesis
  proof (cases "''usage ledger rows lost'' \<in> set (w_log w')")
    case False
    then obtain rows where rows: "t_usage (w_db w) = t_usage (w_db w0) @ rows" "list_all2 ledger_row rs rows"
      using assms(2) evs(2) by (auto simp: ledger_kept_def)
    have "t_usage (w_db w') = t_usage (w_db w0) @ rows @ map (stored_event (w_db w)) evs"
      using False evs(3) rows(1) by (auto dest!: stamped_usage simp: appended_def)
    then show ?thesis using rows(2) row_for_ledger [OF evs(1)] unfolding ledger_kept_def
      by (auto intro: list_all2_appendI)
  qed (simp add: ledger_kept_def)
qed

lemma ledger_others:
  assumes "ledger_kept w0 rs w" "t_usage (w_db w') = t_usage (w_db w)" "set (w_log w) \<subseteq> set (w_log w')"
  shows "ledger_kept w0 rs w'"
  using assms by (auto simp: ledger_kept_def)

lemma drains_more: "drains_ok st dr fl a p \<Longrightarrow> a \<le> a' \<Longrightarrow> p \<le> p' \<Longrightarrow> drains_ok st dr fl a' p'"
  unfolding drains_ok_def by (meson le_trans)

lemma drains_start: "drains_ok st dr fl a p \<Longrightarrow> i \<notin> fst ` set st \<Longrightarrow> drains_ok ((i, a) # st) dr (fl @ [i]) a p"
  by (force simp: drains_ok_def)

lemma drains_leave: "drains_ok st dr fl a p \<Longrightarrow> drains_ok st dr (remove1 i fl) a p"
  using set_remove1_subset [of i fl] unfolding drains_ok_def by blast

lemma drains_began: "drains_ok st dr fl a p \<Longrightarrow> i \<in> set fl \<Longrightarrow> \<exists>k. (i, k) \<in> set st \<and> k \<le> a"
  by (fastforce simp: drains_ok_def)

lemma drains_return:
  assumes "drains_ok st dr fl a p" "(i, k) \<in> set st" "k \<le> p"
  shows "drains_ok st (i # dr) fl a p"
proof -
  have d: "distinct (map fst st)" and all: "\<forall>i k. (i, k) \<in> set st \<longrightarrow> k \<le> a \<and> (i \<in> set dr \<longrightarrow> k \<le> p)"
    and sub: "set dr \<union> set fl \<subseteq> fst ` set st" using assms(1) by (simp_all add: drains_ok_def)
  have same: "k' = k" if "(i, k') \<in> set st" for k' using eq_key_imp_eq_value [OF d that assms(2)] .
  have "k' \<le> a \<and> (j \<in> set (i # dr) \<longrightarrow> k' \<le> p)" if "(j, k') \<in> set st" for j k'
    using all that same assms(3) by (cases "j = i") auto
  moreover have "i \<in> fst ` set st" using assms(2) by force
  ultimately show ?thesis using d sub unfolding drains_ok_def by simp
qed

lemma worker_more: "worker_ok q d started wk \<Longrightarrow> q \<le> q' \<Longrightarrow> worker_ok q' d started wk"
  by (cases wk) auto

lemma worker_started: "worker_ok q d started wk \<Longrightarrow> worker_ok q d (x # started) wk"
  by (cases wk) auto

lemma next_flush_hand [simp]: "in_hand (next_flush i n) = []"
  by (simp add: next_flush_def)

lemma next_flush_ok: "n \<le> q \<Longrightarrow> (i, k) \<in> set started \<Longrightarrow> k \<le> d + n \<Longrightarrow> worker_ok q d started (next_flush i n)"
  by (auto simp: next_flush_def)

lemma remove1_one: "x \<in> set xs \<Longrightarrow> length (remove1 x xs) + 1 = length xs"
  by (induction xs) auto

lemma sink_step_inv:
  assumes "sink_step rd reg e s s'" "sink_inv w0 s"
  shows "sink_inv w0 s'"
proof -
  have inv: "sq_accepted s = sq_processed s @ in_hand (sq_worker s) @ sq_queue s" "length (sq_queue s) \<le> queue_max"
    "sq_handled s = length (sq_accepted s) + sq_dropped s + length (sq_handlers s)"
    "worker_ok (length (sq_queue s)) (length (sq_processed s)) (sq_started s) (sq_worker s)"
    "drains_ok (sq_started s) (sq_drained s) (sq_flush s) (length (sq_accepted s)) (length (sq_processed s))"
    "ledger_kept w0 (sq_processed s) (sq_world s)"
    using assms(2) unfolding sink_inv_def by blast+
  show ?thesis
    using assms(1)
  proof cases
    case (handles r)
    then show ?thesis using inv by (simp add: sink_inv_def handle_usage_def)
  next
    case (sends r)
    have len: "length (remove1 r (sq_handlers s)) + 1 = length (sq_handlers s)"
      by (rule remove1_one [OF sends(2)])
    have "worker_ok (Suc (length (sq_queue s))) (length (sq_processed s)) (sq_started s) (sq_worker s)"
      by (rule worker_more [OF inv(4)]) simp
    moreover have "drains_ok (sq_started s) (sq_drained s) (sq_flush s) (Suc (length (sq_accepted s))) (length (sq_processed s))"
      by (rule drains_more [OF inv(5)]) (simp_all add: inv(1))
    ultimately show ?thesis using inv len unfolding sends
      by (cases "length (sq_queue s) = queue_max") (simp_all add: sink_inv_def send_record_def Let_def)
  next
    case (drains i)
    have "worker_ok (length (sq_queue s)) (length (sq_processed s)) ((i, length (sq_accepted s)) # sq_started s) (sq_worker s)"
      by (rule worker_started [OF inv(4)])
    moreover have "drains_ok ((i, length (sq_accepted s)) # sq_started s) (sq_drained s) (sq_flush s @ [i])
        (length (sq_accepted s)) (length (sq_processed s))" by (rule drains_start [OF inv(5) drains(2)])
    ultimately show ?thesis using inv unfolding drains(1) by (simp add: sink_inv_def start_drain_def)
  next
    case (gives_up i)
    have "drains_ok (sq_started s) (sq_drained s) (remove1 i (sq_flush s)) (length (sq_accepted s)) (length (sq_processed s))"
      by (rule drains_leave [OF inv(5)])
    then show ?thesis using inv unfolding gives_up by (simp add: sink_inv_def)
  next
    case (receives r q)
    then show ?thesis using inv by (simp add: sink_inv_def batch_max_def)
  next
    case (fills batch n r q)
    then show ?thesis using inv by (simp add: sink_inv_def)
  next
    case (processes batch n sk w)
    have "drains_ok (sq_started s) (sq_drained s) (sq_flush s) (length (sq_accepted s)) (length (sq_processed s) + length batch)"
      by (rule drains_more [OF inv(5)]) (simp_all add: inv(1))
    moreover have "ledger_kept w0 (sq_processed s @ batch) w" by (rule ledger_batch [OF processes(4)]) (use inv in simp)
    ultimately show ?thesis using inv processes by (simp add: sink_inv_def)
  next
    case (takes_flush i)
    obtain k where k: "(i, k) \<in> set (sq_started s)" "k \<le> length (sq_accepted s)" using drains_began [OF inv(5) takes_flush(3)] by blast
    then have "worker_ok (length (sq_queue s)) (length (sq_processed s)) (sq_started s) (next_flush i (length (sq_queue s)))"
      using inv takes_flush(2) by (intro next_flush_ok [where k = k]) simp_all
    moreover have "drains_ok (sq_started s) (sq_drained s) (remove1 i (sq_flush s)) (length (sq_accepted s)) (length (sq_processed s))"
      by (rule drains_leave [OF inv(5)])
    ultimately show ?thesis using inv takes_flush(2) unfolding takes_flush(1) by (simp add: sink_inv_def)
  next
    case (takes i n batch m r q)
    then show ?thesis using inv by (simp add: sink_inv_def)
  next
    case (flushes i n batch sk w)
    obtain k where k: "(i, k) \<in> set (sq_started s)" "k \<le> length (sq_processed s) + n" and len: "length batch = min n batch_max"
      "n \<le> length batch + length (sq_queue s)" using inv flushes(2) by auto
    have "worker_ok (length (sq_queue s)) (length (sq_processed s) + length batch) (sq_started s) (next_flush i (n - length batch))"
      using k len by (intro next_flush_ok [where k = k]) auto
    moreover have "drains_ok (sq_started s) (sq_drained s) (sq_flush s) (length (sq_accepted s)) (length (sq_processed s) + length batch)"
      by (rule drains_more [OF inv(5)]) (simp_all add: inv(1))
    moreover have "ledger_kept w0 (sq_processed s @ batch) w" by (rule ledger_batch [OF flushes(4)]) (use inv in simp)
    ultimately show ?thesis using inv flushes(2) unfolding flushes(1) by (simp add: sink_inv_def)
  next
    case (returns i batch)
    have empty: "batch = []" using inv returns(2) by simp
    obtain k where "(i, k) \<in> set (sq_started s)" "k \<le> length (sq_processed s)" using inv returns(2) by auto
    then have "drains_ok (sq_started s) (i # sq_drained s) (sq_flush s) (length (sq_accepted s)) (length (sq_processed s))"
      by (rule drains_return [OF inv(5)])
    then show ?thesis using inv returns(2) empty unfolding returns(1) by (simp add: sink_inv_def)
  next
    case (others w)
    have "ledger_kept w0 (sq_processed s) w" by (rule ledger_others [OF _ others(2,3)]) (use inv in simp)
    then show ?thesis using inv unfolding others(1) by (simp add: sink_inv_def)
  qed
qed

lemma sink_runs_inv: "sink_runs rd reg e s s' \<Longrightarrow> sink_inv w0 s \<Longrightarrow> sink_inv w0 s'"
  by (induction rule: rtranclp_induct) (auto intro: sink_step_inv)

lemma new_sink_inv: "sink_inv w (new_sink w)"
  by (simp add: sink_inv_def new_sink_def drains_ok_def ledger_kept_def)

text \<open>C4: the usage sink loses nothing it accepted. However handlers, the worker, shutdowns and the rest of the process interleave, every record handed to it
  is dropped and counted, still with its handler, or accepted; the accepted ones are processed once, in the order they came, and are waiting in the queue,
  at most 4096 of them, or in the worker's hand otherwise. A drain that has returned without an error leaves everything accepted before it began processed, and of all
  that was processed the ledger has the row, in order, unless the loss of a batch was logged.\<close>

theorem sink_keeps_records:
  assumes "sink_runs rd reg e (new_sink w) s"
  shows "sq_accepted s = sq_processed s @ in_hand (sq_worker s) @ sq_queue s \<and> length (sq_queue s) \<le> 4096
    \<and> sq_handled s = length (sq_accepted s) + sq_dropped s + length (sq_handlers s)
    \<and> (\<forall>i k. i \<in> set (sq_drained s) \<and> (i, k) \<in> set (sq_started s) \<longrightarrow> take k (sq_processed s) = take k (sq_accepted s) \<and> k \<le> length (sq_processed s))
    \<and> (''usage ledger rows lost'' \<in> set (w_log (sq_world s))
       \<or> (\<exists>rows. t_usage (w_db (sq_world s)) = t_usage (w_db w) @ rows \<and> list_all2 ledger_row (sq_processed s) rows))"
proof -
  have inv: "sq_accepted s = sq_processed s @ in_hand (sq_worker s) @ sq_queue s" "length (sq_queue s) \<le> queue_max"
    "sq_handled s = length (sq_accepted s) + sq_dropped s + length (sq_handlers s)"
    "drains_ok (sq_started s) (sq_drained s) (sq_flush s) (length (sq_accepted s)) (length (sq_processed s))"
    "ledger_kept w (sq_processed s) (sq_world s)"
    using sink_runs_inv [OF assms new_sink_inv] unfolding sink_inv_def by blast+
  have "take k (sq_processed s) = take k (sq_accepted s) \<and> k \<le> length (sq_processed s)"
    if "i \<in> set (sq_drained s)" "(i, k) \<in> set (sq_started s)" for i k
    using that inv(4) unfolding drains_ok_def inv(1) by simp
  then show ?thesis using inv unfolding ledger_kept_def queue_max_def by blast
qed

text \<open>What is left of a flush: two steps for each record to come, one for each taken, and the answer.\<close>

fun flush_work :: "worker \<Rightarrow> nat" where
  "flush_work Waiting = 0"
| "flush_work (Filling batch n) = 0"
| "flush_work (Flushing i n batch m) = 2 * n - length batch + 1"

lemma flush_less:
  assumes "worker_ok q d st (Flushing i n batch 0)" "0 < n"
  shows "flush_work (next_flush i (n - length batch)) < flush_work (Flushing i n batch 0)"
  using assms by (auto simp: next_flush_def batch_max_def)

lemma flush_progress:
  assumes "sink_inv w0 s" "sq_worker s = Flushing i n batch m"
  shows "\<exists>s'. sink_step rd reg e s s' \<and> flush_work (sq_worker s') < flush_work (sq_worker s)"
proof -
  have ok: "worker_ok (length (sq_queue s)) (length (sq_processed s)) (sq_started s) (Flushing i n batch m)"
    using assms unfolding sink_inv_def by metis
  show ?thesis
  proof (cases m)
    case (Suc m')
    then have "sq_queue s \<noteq> []" "length batch < n" using ok by (auto simp: min_def split: if_splits)
    then obtain r q where q: "sq_queue s = r # q" by (meson neq_Nil_conv)
    have "sink_step rd reg e s (s\<lparr>sq_queue := q, sq_worker := Flushing i n (batch @ [r]) m'\<rparr>)"
      by (rule takes) (use assms(2) Suc q in simp_all)
    moreover have "flush_work (Flushing i n (batch @ [r]) m') < flush_work (sq_worker s)"
      using assms(2) \<open>length batch < n\<close> by simp
    ultimately show ?thesis by (auto intro!: exI)
  next
    case 0
    show ?thesis
    proof (cases "n = 0")
      case True
      have "sink_step rd reg e s (s\<lparr>sq_worker := Waiting, sq_drained := i # sq_drained s\<rparr>)"
        by (rule returns) (use assms(2) 0 True in simp)
      moreover have "flush_work Waiting < flush_work (sq_worker s)" using assms(2) by simp
      ultimately show ?thesis by (auto intro!: exI)
    next
      case False
      obtain q v where run: "process_batch rd reg batch (sq_sink s) e (sq_world s) = (q, v)" by (metis surj_pair)
      then obtain sk where "q = Inr sk" using wp_run [OF wp_process_batch run] by (auto simp: batch_done_def)
      then have "sink_step rd reg e s (s\<lparr>sq_worker := next_flush i (n - length batch), sq_sink := sk, sq_world := v,
          sq_processed := sq_processed s @ batch\<rparr>)"
        by (intro flushes) (use assms(2) 0 False run in simp_all)
      moreover have "flush_work (next_flush i (n - length batch)) < flush_work (sq_worker s)"
        using flush_less [OF ok [unfolded 0]] False assms(2) 0 by simp
      ultimately show ?thesis by (auto intro!: exI)
    qed
  qed
qed

lemma flush_step:
  assumes "sink_step rd reg e s s'" "sink_inv w0 s" "sq_worker s = Flushing i n batch m"
  shows "sq_worker s' = sq_worker s \<or> flush_work (sq_worker s') < flush_work (sq_worker s)"
  using assms(1)
proof cases
  case (flushes i' n' batch' sk w)
  have "worker_ok (length (sq_queue s)) (length (sq_processed s)) (sq_started s) (Flushing i' n' batch' 0)"
    using assms(2) flushes(2) unfolding sink_inv_def by metis
  then show ?thesis using flush_less flushes by simp
next
  case (takes i' n' batch' m' r q)
  have "worker_ok (length (sq_queue s)) (length (sq_processed s)) (sq_started s) (Flushing i' n' batch' (Suc m'))"
    using assms(2) takes(2) unfolding sink_inv_def by metis
  then have "length batch' < n'" by (auto simp: min_def split: if_splits)
  then show ?thesis using takes by simp
qed (use assms(3) in \<open>auto simp: handle_usage_def send_record_def start_drain_def Let_def\<close>)

text \<open>C18: a flush comes to an end. While the worker flushes it is never kept waiting for a record: it has a step of its own, taking, processing or
  answering, that brings the end nearer by the measure, which is bounded from the start, and whatever else happens
  leaves it where it is or nearer.\<close>

theorem flush_ends:
  assumes "sink_runs rd reg e (new_sink w) s" "sq_worker s = Flushing i n batch m"
  shows "(\<exists>s'. sink_step rd reg e s s' \<and> flush_work (sq_worker s') < flush_work (sq_worker s))
    \<and> (\<forall>s'. sink_step rd reg e s s' \<longrightarrow> sq_worker s' = sq_worker s \<or> flush_work (sq_worker s') < flush_work (sq_worker s))
    \<and> flush_work (sq_worker s) \<le> 2 * 4096 + 256 + 1"
proof -
  have inv: "sink_inv w s" by (rule sink_runs_inv [OF assms(1) new_sink_inv])
  have "length (sq_queue s) \<le> 4096" "worker_ok (length (sq_queue s)) (length (sq_processed s)) (sq_started s) (Flushing i n batch m)"
    using inv assms(2) unfolding sink_inv_def queue_max_def by metis+
  then have "flush_work (sq_worker s) \<le> 2 * 4096 + 256 + 1" unfolding assms(2) by (auto simp: batch_max_def)
  then show ?thesis using flush_progress [OF inv assms(2)] flush_step [OF _ inv assms(2)] by blast
qed

section \<open>Witnesses\<close>

text \<open>One record handled, accepted and flushed for a drain.\<close>

definition accepted_one :: sink_queue where
  "accepted_one = send_record example_record (handle_usage example_record (new_sink example_world))"

definition flushing_one :: sink_queue where
  "flushing_one = (start_drain 0 accepted_one)\<lparr>sq_flush := [], sq_worker := next_flush 0 1\<rparr>"

lemma example_flushing: "sink_runs example_readers (\<lambda>_. []) example_env (new_sink example_world) flushing_one"
proof -
  let ?step = "sink_step example_readers (\<lambda>_. []) example_env"
  have "?step (new_sink example_world) (handle_usage example_record (new_sink example_world))" by (rule handles)
  moreover have "?step (handle_usage example_record (new_sink example_world)) accepted_one"
    unfolding accepted_one_def by (rule sends) (simp add: handle_usage_def new_sink_def)
  moreover have "?step accepted_one (start_drain 0 accepted_one)"
    by (rule drains) (simp add: accepted_one_def send_record_def handle_usage_def new_sink_def Let_def)
  moreover have "?step (start_drain 0 accepted_one) ((start_drain 0 accepted_one)\<lparr>sq_flush := remove1 0 (sq_flush (start_drain 0 accepted_one)),
      sq_worker := next_flush 0 (length (sq_queue (start_drain 0 accepted_one)))\<rparr>)"
    by (rule takes_flush) (simp_all add: accepted_one_def start_drain_def send_record_def handle_usage_def new_sink_def Let_def)
  moreover have "(start_drain 0 accepted_one)\<lparr>sq_flush := remove1 0 (sq_flush (start_drain 0 accepted_one)),
      sq_worker := next_flush 0 (length (sq_queue (start_drain 0 accepted_one)))\<rparr> = flushing_one"
    by (simp add: flushing_one_def accepted_one_def start_drain_def send_record_def handle_usage_def new_sink_def Let_def queue_max_def)
  ultimately show ?thesis by (metis (no_types, lifting) converse_rtranclp_into_rtranclp rtranclp.rtrancl_refl)
qed

theorem sink_keeps_records_witness: "sq_accepted flushing_one = [example_record] \<and> sq_handled flushing_one = 1"
proof -
  have "sq_processed flushing_one = []" "sq_worker flushing_one = next_flush 0 1" "sq_queue flushing_one = [example_record]"
    "sq_dropped flushing_one = 0" "sq_handlers flushing_one = []"
    by (simp_all add: flushing_one_def accepted_one_def start_drain_def send_record_def handle_usage_def new_sink_def Let_def queue_max_def)
  with sink_keeps_records [OF example_flushing] show ?thesis by simp
qed

theorem flush_ends_witness:
  "\<exists>s'. sink_step example_readers (\<lambda>_. []) example_env flushing_one s' \<and> flush_work (sq_worker s') < flush_work (sq_worker flushing_one)"
proof -
  have "sq_worker flushing_one = Flushing 0 1 [] 1" by (simp add: flushing_one_def next_flush_def batch_max_def)
  from flush_ends [OF example_flushing this] show ?thesis by blast
qed

end
