(* ===== verification/Cabinet.thy ===== *)
theory Cabinet
  imports Gate Admin
begin

text \<open>
  What the cabinet shows a user: the models the user's keys may request (\<open>internal/app/models\<close>, over the live catalogue of
  \<open>internal/infra/gateway/catalog.go\<close>), and the display preferences of the deployment (\<open>internal/app/display\<close>). Of upstream's registry
  the list of available models is a parameter beside the providers of each. The mutex of the display service has nothing to do in a sequence of
  calls.
\<close>

section \<open>The catalogue\<close>

definition models_at :: "served \<Rightarrow> string \<Rightarrow> string list" where
  "models_at out prov = (case map_of out prov of None \<Rightarrow> [] | Some ms \<Rightarrow> ms)"

fun serve_under :: "string \<Rightarrow> string list \<Rightarrow> served \<Rightarrow> served" where
  "serve_under i [] out = out"
| "serve_under i (prov # provs) out =
     serve_under i provs (if i \<in> set (models_at out prov) then out else AList.update prov (models_at out prov @ [i]) out)"

fun serve_all :: "registry \<Rightarrow> string list \<Rightarrow> served \<Rightarrow> served" where
  "serve_all reg [] out = out"
| "serve_all reg (i # avail) out = serve_all reg avail (if i = [] then out else serve_under i (providers_for reg i) out)"

definition catalog_models :: "registry \<Rightarrow> string list \<Rightarrow> served" where
  "catalog_models reg avail = map (\<lambda>(prov, ms). (prov, sort ms)) (serve_all reg avail [])"

section \<open>The models of a user\<close>

datatype verdict = DeniedModel | AllowedModel | UnpricedModel

record catalog_provider =
  cp_name :: string
  cp_models :: "string list"
  cp_unpriced :: "string list"

definition judge :: "registry \<Rightarrow> mem \<Rightarrow> user \<Rightarrow> bool \<Rightarrow> string \<Rightarrow> verdict" where
  "judge reg m u limited model =
     (if \<not> admits (u_policy u) (providers_for reg) model then DeniedModel
      else if limited \<and> \<not> priced_everywhere reg m model then UnpricedModel
      else AllowedModel)"

text \<open>The verdict of a model is asked once and kept for the providers that follow.\<close>

fun judge_all :: "registry \<Rightarrow> mem \<Rightarrow> user \<Rightarrow> bool \<Rightarrow> string list \<Rightarrow> (string \<times> verdict) list \<times> string list \<times> string list
    \<Rightarrow> (string \<times> verdict) list \<times> string list \<times> string list" where
  "judge_all reg m u limited [] acc = acc"
| "judge_all reg m u limited (model # models) (verdicts, ok, blocked) =
     (let (judged, verdicts) = (case map_of verdicts model of
            Some v \<Rightarrow> (v, verdicts)
          | None \<Rightarrow> (let v = judge reg m u limited model in (v, (model, v) # verdicts))) in
      judge_all reg m u limited models
        (verdicts, if judged = AllowedModel then ok @ [model] else ok, if judged = UnpricedModel then blocked @ [model] else blocked))"

fun list_allowed :: "registry \<Rightarrow> mem \<Rightarrow> user \<Rightarrow> bool \<Rightarrow> served \<Rightarrow> (string \<times> verdict) list \<Rightarrow> catalog_provider list" where
  "list_allowed reg m u limited [] verdicts = []"
| "list_allowed reg m u limited ((prov, models) # served) verdicts =
     (let (verdicts, ok, blocked) = judge_all reg m u limited models (verdicts, [], []);
          rest = list_allowed reg m u limited served verdicts in
      if ok = [] \<and> blocked = [] then rest
      else \<lparr>cp_name = prov, cp_models = sort ok, cp_unpriced = sort blocked\<rparr> # rest)"

definition allowed_models :: "registry \<Rightarrow> string list \<Rightarrow> user \<Rightarrow> catalog_provider list io" where
  "allowed_models reg avail u =
     (if u_policy u = [] then ret []
      else
        bnd (spend_effective (u_limits u)) (\<lambda>set'.
        peek (\<lambda>m. sort_key cp_name (list_allowed reg m u (set' \<noteq> []) (catalog_models reg avail) []))))"

section \<open>Display preferences\<close>

definition display_start :: "mem \<Rightarrow> mem" where
  "display_start m = m\<lparr>m_display := \<lparr>dc_costs_visible = False, dc_mask_unknown = True\<rparr>\<rparr>"

definition display_load :: "unit io" where
  "display_load = bnd settings_display (\<lambda>cfg. poke (\<lambda>m. m\<lparr>m_display := cfg\<rparr>))"

definition costs_visible_to :: "user \<Rightarrow> bool io" where
  "costs_visible_to u = peek (\<lambda>m. u_role u = role_admin \<or> dc_costs_visible (m_display m))"

definition mask_unknown_errors :: "bool io" where
  "mask_unknown_errors = peek (\<lambda>m. dc_mask_unknown (m_display m))"

definition display_get :: "user \<Rightarrow> display_config io" where
  "display_get actor = bnd (lift (require_admin actor)) (\<lambda>_. peek m_display)"

record display_patch =
  dp_costs :: "bool option"
  dp_mask :: "bool option"

definition patched :: "display_patch \<Rightarrow> display_config \<Rightarrow> display_config" where
  "patched p cfg = \<lparr>dc_costs_visible = (case dp_costs p of None \<Rightarrow> dc_costs_visible cfg | Some b \<Rightarrow> b),
     dc_mask_unknown = (case dp_mask p of None \<Rightarrow> dc_mask_unknown cfg | Some b \<Rightarrow> b)\<rparr>"

definition display_set :: "user \<Rightarrow> display_patch \<Rightarrow> display_config io" where
  "display_set actor p =
     bnd (lift (require_admin actor)) (\<lambda>_.
     if dp_costs p = None \<and> dp_mask p = None then raise (EInvalidInput ''fields'')
     else
       bnd (peek (\<lambda>m. patched p (m_display m))) (\<lambda>cfg.
       bnd now_io (\<lambda>now.
       bnd (settings_set_display cfg (u_id actor) now) (\<lambda>_.
       bnd (poke (\<lambda>m. m\<lparr>m_display := cfg\<rparr>)) (\<lambda>_.
       bnd (audit_record \<lparr>ae_at = now, ae_actor = u_id actor, ae_action = ''display.update'', ae_target = ''display'',
         ae_detail = [(''costs_visible'', JBool (dc_costs_visible cfg)), (''mask_unknown_errors'', JBool (dc_mask_unknown cfg))],
         ae_ip = [], ae_agent = []\<rparr>) (\<lambda>_.
       ret cfg))))))"

section \<open>The catalogue lists what is served\<close>

lemma models_at_update: "models_at (AList.update p ms out) q = (if q = p then ms else models_at out q)"
  by (simp add: models_at_def update_conv')

lemma serve_under_at: "set (models_at (serve_under i provs out) p) = set (models_at out p) \<union> (if p \<in> set provs then {i} else {})"
  by (induction provs arbitrary: out) (auto simp: models_at_update)

lemma serve_all_at:
  "set (models_at (serve_all reg avail out) p) = set (models_at out p) \<union> {i \<in> set avail. i \<noteq> [] \<and> p \<in> set (providers_for reg i)}"
  by (induction avail arbitrary: out) (auto simp: serve_under_at)

lemma serve_under_keys: "distinct (map fst out) \<Longrightarrow> distinct (map fst (serve_under i provs out))"
  by (induction provs arbitrary: out) (auto simp: distinct_update)

lemma serve_all_keys: "distinct (map fst out) \<Longrightarrow> distinct (map fst (serve_all reg avail out))"
  by (induction avail arbitrary: out) (auto simp: serve_under_keys)

lemma sorted_members: "(\<exists>ms. (p, ms) \<in> set (map (\<lambda>(prov, ms). (prov, sort ms)) sv) \<and> i \<in> set ms) \<longleftrightarrow> (\<exists>ms. (p, ms) \<in> set sv \<and> i \<in> set ms)"
  by (induction sv) auto

lemma members_at:
  assumes "distinct (map fst sv)"
  shows "(\<exists>ms. (p, ms) \<in> set sv \<and> i \<in> set ms) \<longleftrightarrow> i \<in> set (models_at sv p)"
proof -
  have one: "map_of sv p = Some ms \<longleftrightarrow> (p, ms) \<in> set sv" for ms using assms by (rule map_of_eq_Some_iff)
  show ?thesis by (cases "map_of sv p") (auto simp: models_at_def simp flip: one)
qed

lemma catalog_serves:
  "(\<exists>ms. (p, ms) \<in> set (catalog_models reg avail) \<and> i \<in> set ms) \<longleftrightarrow> i \<in> set avail \<and> i \<noteq> [] \<and> p \<in> set (providers_for reg i)"
proof -
  have keys: "distinct (map fst (serve_all reg avail []))" by (rule serve_all_keys) simp
  show ?thesis
    unfolding catalog_models_def sorted_members members_at [OF keys] serve_all_at by (simp add: models_at_def)
qed

definition verdicts_ok :: "registry \<Rightarrow> mem \<Rightarrow> user \<Rightarrow> bool \<Rightarrow> (string \<times> verdict) list \<Rightarrow> bool" where
  "verdicts_ok reg m u limited vs \<longleftrightarrow> (\<forall>model v. map_of vs model = Some v \<longrightarrow> v = judge reg m u limited model)"

lemma judge_all_lists:
  "verdicts_ok reg m u limited vs \<Longrightarrow> judge_all reg m u limited models (vs, ok, blocked) = (vs', ok', blocked') \<Longrightarrow>
     verdicts_ok reg m u limited vs'
     \<and> ok' = ok @ filter (\<lambda>i. judge reg m u limited i = AllowedModel) models
     \<and> blocked' = blocked @ filter (\<lambda>i. judge reg m u limited i = UnpricedModel) models"
proof (induction models arbitrary: vs ok blocked)
  case (Cons i models)
  show ?case
  proof (cases "map_of vs i")
    case None
    have "verdicts_ok reg m u limited ((i, judge reg m u limited i) # vs)" using Cons.prems(1) by (simp add: verdicts_ok_def)
    from Cons.IH [OF this] Cons.prems(2) None show ?thesis by (force simp: Let_def split: if_splits)
  next
    case (Some v)
    then have "v = judge reg m u limited i" using Cons.prems(1) by (simp add: verdicts_ok_def)
    with Cons.IH [OF Cons.prems(1)] Cons.prems(2) Some show ?thesis by (force split: if_splits)
  qed
qed simp

lemma list_allowed_sort: "set (sort xs) = set xs"
  by simp

lemma list_allowed_step:
  assumes "verdicts_ok reg m u limited vs"
  shows "\<exists>vs'. verdicts_ok reg m u limited vs' \<and> list_allowed reg m u limited ((q, models) # sv) vs
    = (let ok = filter (\<lambda>i. judge reg m u limited i = AllowedModel) models; blocked = filter (\<lambda>i. judge reg m u limited i = UnpricedModel) models in
       if ok = [] \<and> blocked = [] then list_allowed reg m u limited sv vs'
       else \<lparr>cp_name = q, cp_models = sort ok, cp_unpriced = sort blocked\<rparr> # list_allowed reg m u limited sv vs')"
proof -
  obtain vs' ok blocked where j: "judge_all reg m u limited models (vs, [], []) = (vs', ok, blocked)" by (metis surj_pair)
  from judge_all_lists [OF assms j] show ?thesis unfolding list_allowed.simps j Let_def prod.case
    by (intro exI [of _ vs']) simp
qed

definition shows_model :: "(catalog_provider \<Rightarrow> string list) \<Rightarrow> catalog_provider list \<Rightarrow> string \<Rightarrow> string \<Rightarrow> bool" where
  "shows_model part cps p i \<longleftrightarrow> (\<exists>cp \<in> set cps. cp_name cp = p \<and> i \<in> set (part cp))"

lemma list_allowed_lists:
  assumes "verdicts_ok reg m u limited vs"
  shows "(shows_model cp_models (list_allowed reg m u limited sv vs) p i
        \<longleftrightarrow> (\<exists>ms. (p, ms) \<in> set sv \<and> i \<in> set ms) \<and> judge reg m u limited i = AllowedModel)
    \<and> (shows_model cp_unpriced (list_allowed reg m u limited sv vs) p i
        \<longleftrightarrow> (\<exists>ms. (p, ms) \<in> set sv \<and> i \<in> set ms) \<and> judge reg m u limited i = UnpricedModel)"
  using assms
proof (induction sv arbitrary: vs)
  case Nil
  then show ?case by (simp add: shows_model_def)
next
  case (Cons qms sv)
  obtain q models where q: "qms = (q, models)" by (cases qms)
  let ?ok = "filter (\<lambda>i. judge reg m u limited i = AllowedModel) models"
  let ?blocked = "filter (\<lambda>i. judge reg m u limited i = UnpricedModel) models"
  obtain vs' where vs': "verdicts_ok reg m u limited vs'" and step: "list_allowed reg m u limited ((q, models) # sv) vs
      = (if ?ok = [] \<and> ?blocked = [] then list_allowed reg m u limited sv vs'
         else \<lparr>cp_name = q, cp_models = sort ?ok, cp_unpriced = sort ?blocked\<rparr> # list_allowed reg m u limited sv vs')"
    using list_allowed_step [OF Cons.prems, of q models sv] unfolding Let_def by blast
  have one: "shows_model part (list_allowed reg m u limited ((q, models) # sv) vs) p i
      \<longleftrightarrow> p = q \<and> i \<in> set (part \<lparr>cp_name = q, cp_models = sort ?ok, cp_unpriced = sort ?blocked\<rparr>)
        \<or> shows_model part (list_allowed reg m u limited sv vs') p i"
    if "part = cp_models \<or> part = cp_unpriced" for part
  proof (cases "?ok = [] \<and> ?blocked = []")
    case True
    then show ?thesis unfolding step using that by auto
  next
    case False
    show ?thesis unfolding step if_not_P [OF False] by (auto simp: shows_model_def)
  qed
  have "(\<exists>ms. (p, ms) \<in> set ((q, models) # sv) \<and> i \<in> set ms) \<longleftrightarrow> p = q \<and> i \<in> set models \<or> (\<exists>ms. (p, ms) \<in> set sv \<and> i \<in> set ms)" by auto
  then show ?case unfolding q one [OF disjI1 [OF refl]] one [OF disjI2 [OF refl]] using Cons.IH [OF vs'] by auto
qed

lemma wp_allowed_models:
  assumes "\<And>cps. \<lbrakk>\<And>p i. shows_model cp_models cps p i \<longleftrightarrow> i \<in> set avail \<and> i \<noteq> [] \<and> p \<in> set (providers_for reg i)
        \<and> judge reg (w_mem w) u (effective (u_limits u) (m_defaults (w_mem w)) \<noteq> []) i = AllowedModel;
      \<And>p i. shows_model cp_unpriced cps p i \<longleftrightarrow> i \<in> set avail \<and> i \<noteq> [] \<and> p \<in> set (providers_for reg i)
        \<and> judge reg (w_mem w) u (effective (u_limits u) (m_defaults (w_mem w)) \<noteq> []) i = UnpricedModel\<rbrakk> \<Longrightarrow> Q (Inr cps) w"
  shows "wp (allowed_models reg avail u) e w Q"
proof (cases "u_policy u = []")
  case True
  then have "judge reg (w_mem w) u limited i = DeniedModel" for limited i
    by (simp add: judge_def admits_def covers_iff allows_iff split: prod.split)
  then show ?thesis using True assms [of "[]"] by (simp add: allowed_models_def wp_simps shows_model_def)
next
  case False
  define limited where "limited = (effective (u_limits u) (m_defaults (w_mem w)) \<noteq> [])"
  have "verdicts_ok reg (w_mem w) u limited []" by (simp add: verdicts_ok_def)
  note lists = list_allowed_lists [OF this, of "catalog_models reg avail"]
  have same: "shows_model part (sort_key cp_name cps) p i \<longleftrightarrow> shows_model part cps p i" for part cps p i
    by (simp add: shows_model_def)
  show ?thesis
    unfolding allowed_models_def if_not_P [OF False] spend_effective_def wp_bnd wp_peek sum.case
    by (rule assms) (use lists catalog_serves in \<open>simp_all add: same limited_def [symmetric]\<close>)
qed

lemma judge_listing:
  assumes "gt_spend g \<noteq> None" "g_policy gr = u_policy u" "g_limits gr = u_limits u"
  shows "judge (gt_registry g) (w_mem w) u (effective (u_limits u) (m_defaults (w_mem w)) \<noteq> []) i = AllowedModel
    \<longleftrightarrow> listing_filter g gr (in_force g gr w) (w_mem w) i"
  using assms by (auto simp: judge_def listing_filter_def in_force_def)

text \<open>C19: the cabinet and the gate judge a model alike. With the same catalogue, the models the cabinet lists for a user
  are, under each provider serving them, exactly the served ones a request of a key of that user would not be forbidden at the same moment; and one
  shown as unpriced is served and forbidden.\<close>

theorem cabinet_agrees:
  assumes "allowed_models (gt_registry g) avail u e w = (r, w')" "gt_spend g \<noteq> None" "g_policy gr = u_policy u" "g_limits gr = u_limits u"
    and "gate_policy g req requested p gr source c b e w = (q, v)"
  shows "\<exists>cps. r = Inr cps \<and> w' = w
    \<and> (\<forall>prov. shows_model cp_models cps prov requested
         \<longleftrightarrow> requested \<in> set avail \<and> requested \<noteq> [] \<and> prov \<in> set (providers_for (gt_registry g) requested)
           \<and> \<not> (\<exists>ans b'. q = Inr (Refused ans, b') \<and> an_status ans = 403))
    \<and> (\<forall>prov. shows_model cp_unpriced cps prov requested \<longrightarrow> prov \<in> set (providers_for (gt_registry g) requested)
           \<and> (\<exists>ans b'. q = Inr (Refused ans, b') \<and> an_status ans = 403))"
proof -
  have gate: "wp (gate_policy g req requested p gr source c b) e w (\<lambda>q v.
      listing_filter g gr (in_force g gr w) (w_mem w) requested \<longleftrightarrow> \<not> (\<exists>ans b'. q = Inr (Refused ans, b') \<and> an_status ans = 403))"
    by (rule wp_gate_policy) auto
  note allowed = wp_run [OF gate assms(5)]
  note same = judge_listing [OF assms(2-4), of w requested]
  let ?judge = "judge (gt_registry g) (w_mem w) u (effective (u_limits u) (m_defaults (w_mem w)) \<noteq> []) requested"
  have "wp (allowed_models (gt_registry g) avail u) e w (\<lambda>r w'. \<exists>cps. r = Inr cps \<and> w' = w
    \<and> (\<forall>prov. shows_model cp_models cps prov requested \<longleftrightarrow> requested \<in> set avail \<and> requested \<noteq> []
          \<and> prov \<in> set (providers_for (gt_registry g) requested) \<and> ?judge = AllowedModel)
    \<and> (\<forall>prov. shows_model cp_unpriced cps prov requested \<longleftrightarrow> requested \<in> set avail \<and> requested \<noteq> []
          \<and> prov \<in> set (providers_for (gt_registry g) requested) \<and> ?judge = UnpricedModel))"
    by (rule wp_allowed_models) simp
  from wp_run [OF this assms(1)] obtain cps where cps: "r = Inr cps" "w' = w"
    "\<And>prov. shows_model cp_models cps prov requested \<longleftrightarrow> requested \<in> set avail \<and> requested \<noteq> []
          \<and> prov \<in> set (providers_for (gt_registry g) requested) \<and> ?judge = AllowedModel"
    "\<And>prov. shows_model cp_unpriced cps prov requested \<longleftrightarrow> requested \<in> set avail \<and> requested \<noteq> []
          \<and> prov \<in> set (providers_for (gt_registry g) requested) \<and> ?judge = UnpricedModel"
    by blast
  show ?thesis using cps allowed same by (intro exI [of _ cps]) auto
qed

section \<open>The preferences in force are the stored ones\<close>

definition display_stored :: "db \<Rightarrow> display_config result" where
  "display_stored d = (case t_display d of
     None \<Rightarrow> Inr \<lparr>dc_costs_visible = False, dc_mask_unknown = True\<rparr> | Some raw \<Rightarrow> decode_display raw)"

definition display_in_step :: "world \<Rightarrow> bool" where
  "display_in_step w \<longleftrightarrow> display_stored (w_db w) = Inr (m_display (w_mem w))"

datatype display_call = DisplayLoad | DisplayGet user | DisplaySet user display_patch | CostsCall user | MaskCall

definition display_step :: "env \<Rightarrow> display_call \<Rightarrow> world \<Rightarrow> world" where
  "display_step e c w =
     (case c of
        DisplayLoad \<Rightarrow> snd (display_load e w)
      | DisplayGet a \<Rightarrow> snd (display_get a e w)
      | DisplaySet a p \<Rightarrow> snd (display_set a p e w)
      | CostsCall u \<Rightarrow> snd (costs_visible_to u e w)
      | MaskCall \<Rightarrow> snd (mask_unknown_errors e w))"

lemma display_roundtrip: "decode_display (encode_display cfg) = Inr cfg"
  by (simp add: decode_display_def encode_display_def json_bool_def)

lemma wp_display_load: "wp display_load e w (\<lambda>r w'. (r = Inr () \<longrightarrow> display_in_step w') \<and> (display_in_step w \<longrightarrow> display_in_step w'))"
  by (auto simp: display_load_def settings_display_def wp_simps display_in_step_def display_stored_def split: option.split sum.split)

lemma wp_display_set: "wp (display_set a p) e w (\<lambda>r w'. (display_in_step w \<longrightarrow> display_in_step w')
    \<and> (\<forall>cfg. r = Inr cfg \<longrightarrow> m_display (w_mem w') = cfg \<and> cfg = patched p (m_display (w_mem w)) \<and> u_role a = role_admin))"
  by (cases "require_admin a")
    (auto simp: display_set_def settings_set_display_def audit_record_def audit_insert_def wp_simps display_in_step_def display_stored_def
      display_roundtrip require_admin_def Let_def split: sum.split if_splits)

lemma display_step_keeps: "display_in_step w \<Longrightarrow> display_in_step (display_step e c w)"
proof (cases c)
  case DisplayLoad
  show "display_in_step w \<Longrightarrow> ?thesis" using wp_display_load [of e w] by (simp add: DisplayLoad display_step_def wp_def split: prod.splits)
next
  case (DisplaySet a p)
  show "display_in_step w \<Longrightarrow> ?thesis" using wp_display_set [of a p e w] by (simp add: DisplaySet display_step_def wp_def split: prod.splits)
qed (auto simp: display_step_def display_get_def costs_visible_to_def mask_unknown_errors_def bnd_def lift_def peek_def split: sum.splits)

text \<open>Once loaded, the display preferences the service answers from are the ones the database keeps, whatever calls follow,
  in whatever order and whether they succeed or fail: a change refused or not stored moves neither, one stored moves both, audited or not.\<close>

lemma display_in_step_always:
  assumes "display_load e w = (Inr (), w')"
  shows "display_in_step (fold (display_step e) calls w')"
proof -
  have "display_in_step w'" using wp_run [OF wp_display_load assms] by blast
  then show ?thesis by (induction calls arbitrary: w') (auto intro: display_step_keeps)
qed

definition spending_gate :: gate where
  "spending_gate = example_gate\<lparr>gt_spend := Some False\<rparr>"

theorem cabinet_agrees_witness:
  "\<exists>cps q v. allowed_models (gt_registry spending_gate) [''gpt-5''] (example_user 2 kind_human ''ada@example.org'' role_user) example_env example_world
       = (Inr cps, example_world)
    \<and> gate_policy spending_gate example_request ''gpt-5'' \<lparr>p_user = 2, p_token = 50, p_owner = ''ada''\<rparr>
        \<lparr>g_policy = u_policy (example_user 2 kind_human ''ada@example.org'' role_user), g_limits = None\<rparr> ''authorization''
        (new_charge 100 2 10) idle_budget example_env example_world = (q, v)
    \<and> (shows_model cp_models cps ''chatgpt'' ''gpt-5'' \<longleftrightarrow> \<not> (\<exists>ans b'. q = Inr (Refused ans, b') \<and> an_status ans = 403))"
proof -
  let ?u = "example_user 2 kind_human ''ada@example.org'' role_user"
  let ?gr = "\<lparr>g_policy = u_policy ?u, g_limits = None\<rparr>"
  obtain r w' where listed: "allowed_models (gt_registry spending_gate) [''gpt-5''] ?u example_env example_world = (r, w')" by fastforce
  obtain q v where asked: "gate_policy spending_gate example_request ''gpt-5'' \<lparr>p_user = 2, p_token = 50, p_owner = ''ada''\<rparr> ?gr ''authorization''
      (new_charge 100 2 10) idle_budget example_env example_world = (q, v)" by fastforce
  have "gt_spend spending_gate \<noteq> None" "g_policy ?gr = u_policy ?u" "g_limits ?gr = u_limits ?u" "''chatgpt'' \<in> set (providers_for (gt_registry spending_gate) ''gpt-5'')"
    by (simp_all add: spending_gate_def example_gate_def example_user_def providers_for_def policy_provider_def codex_key_def Let_def)
  with cabinet_agrees [OF listed this(1-3) asked] listed asked show ?thesis by auto
qed

end
