(* ===== verification/VendorAuth.thy ===== *)
theory VendorAuth
  imports Sink
begin

text \<open>
  A vendor account as upstream holds it (\<open>coreauth.Auth\<close>) and what the gateway reads from it and sets on it:
  \<open>internal/infra/gateway/priority.go\<close>, \<open>proxy.go\<close>, the definitions of \<open>compat.go\<close>, \<open>compat_headers.go\<close>, and the pure half of
  \<open>credential_store.go\<close>; with the shapes of \<open>internal/app/ports.go\<close> they answer with. What upstream's packages and \<open>net/url\<close> compute is the record
  \<open>vendor_kit\<close>. Metadata is what JSON makes of it, so a list of strings is a list of values; a nil map is \<open>None\<close>.
\<close>

section \<open>Accounts\<close>

type_synonym metadata = "(string \<times> json) list"

text \<open>\<open>au_storage\<close> is a fresh login's token storage: what its serialized file reads back as, once it was handed the metadata.\<close>

record auth =
  au_id :: string
  au_file :: string
  au_provider :: string
  au_label :: string
  au_prefix :: string
  au_proxy :: string
  au_status :: string
  au_status_message :: string
  au_disabled :: bool
  au_meta :: "metadata option"
  au_attrs :: "(string \<times> string) list option"
  au_storage :: "(metadata option \<Rightarrow> metadata result) option"
  au_last_error :: "string option"
  au_refreshed :: instant
  au_created :: instant
  au_updated :: instant

datatype proxy_kind = InheritProxy | DirectProxy | UseProxy

record proxy_setting =
  ps_kind :: proxy_kind
  ps_raw :: string
  ps_scheme :: string
  ps_host :: string
  ps_user :: bool

record parsed_url =
  pu_scheme :: string
  pu_host :: string
  pu_hostname :: string
  pu_port :: string
  pu_user :: bool
  pu_query :: string
  pu_fragment :: string

record vendor_kit =
  vk_proxy :: "string \<Rightarrow> proxy_setting option"
  vk_dialable :: "string \<Rightarrow> bool"
  vk_show_url :: "string \<Rightarrow> string \<Rightarrow> string"
  vk_url :: "string \<Rightarrow> parsed_url option"
  vk_headers :: "metadata option \<Rightarrow> (string \<times> string) list"
  vk_apply_headers :: "auth \<Rightarrow> auth"
  vk_normalize :: "metadata option \<Rightarrow> metadata option"
  vk_weight :: "auth \<Rightarrow> string option"
  vk_marshal :: "json \<Rightarrow> string"
  vk_unmarshal :: "string \<Rightarrow> metadata option"
  vk_time :: "string \<Rightarrow> instant option"
  vk_plan :: "string \<Rightarrow> string option"
  vk_config_auth :: "auth \<Rightarrow> bool"
  vk_plugin_auth :: "auth \<Rightarrow> bool"

definition status_disabled :: string where "status_disabled = ''disabled''"
definition auth_active :: string where "auth_active = ''active''"

definition meta_field :: "string \<Rightarrow> metadata option \<Rightarrow> json option" where
  "meta_field key m = (case m of None \<Rightarrow> None | Some kvs \<Rightarrow> map_of kvs key)"

text \<open>The type assertion to a string, with and without its second result.\<close>

definition meta_text :: "string \<Rightarrow> metadata option \<Rightarrow> string option" where
  "meta_text key m = (case meta_field key m of Some (JStr s) \<Rightarrow> Some s | _ \<Rightarrow> None)"

definition text_or_empty :: "string \<Rightarrow> metadata option \<Rightarrow> string" where
  "text_or_empty key m = (case meta_text key m of None \<Rightarrow> [] | Some s \<Rightarrow> s)"

definition put_meta :: "string \<Rightarrow> json \<Rightarrow> metadata option \<Rightarrow> metadata option" where
  "put_meta key v m = Some (AList.update key v (case m of None \<Rightarrow> [] | Some kvs \<Rightarrow> kvs))"

definition put_attr :: "string \<Rightarrow> string \<Rightarrow> (string \<times> string) list option \<Rightarrow> (string \<times> string) list option" where
  "put_attr key v m = Some (AList.update key v (case m of None \<Rightarrow> [] | Some kvs \<Rightarrow> kvs))"

definition attr_of :: "string \<Rightarrow> (string \<times> string) list option \<Rightarrow> string option" where
  "attr_of key m = (case m of None \<Rightarrow> None | Some kvs \<Rightarrow> map_of kvs key)"

lemma put_meta_field: "meta_field k (put_meta key v m) = (if k = key then Some v else meta_field k m)"
  by (auto simp: meta_field_def put_meta_def update_conv' split: option.split)

lemma put_meta_text:
  "meta_text k (put_meta key v m) = (if k = key then (case v of JStr s \<Rightarrow> Some s | _ \<Rightarrow> None) else meta_text k m)"
  by (simp add: meta_text_def put_meta_field split: json.split)

section \<open>Priority\<close>

definition parse_int32 :: "string \<Rightarrow> int option" where
  "parse_int32 s = (case parse_int64 s of Some v \<Rightarrow> if - (2 ^ 31) \<le> v \<and> v < 2 ^ 31 then Some v else None | None \<Rightarrow> None)"

definition meta_priority :: string where "meta_priority = ''priority''"

fun priority_of_value :: "json option \<Rightarrow> int" where
  "priority_of_value (Some (JStr s)) = (case parse_int32 (trim_space s) of None \<Rightarrow> 0 | Some v \<Rightarrow> v)"
| "priority_of_value (Some (JNum q)) = (if q < -2147483648 \<or> 2147483647 < q \<or> q \<noteq> of_int \<lfloor>q\<rfloor> then 0 else \<lfloor>q\<rfloor>)"
| "priority_of_value _ = 0"

definition priority_from_metadata :: "metadata option \<Rightarrow> int" where
  "priority_from_metadata m = priority_of_value (meta_field meta_priority m)"

definition account_priority :: "auth \<Rightarrow> int" where
  "account_priority a = (case attr_of meta_priority (au_attrs a) of
     Some raw \<Rightarrow> (case parse_int32 (trim_space raw) of None \<Rightarrow> 0 | Some v \<Rightarrow> v)
   | None \<Rightarrow> priority_from_metadata (au_meta a))"

definition apply_account_priority :: "auth \<Rightarrow> auth" where
  "apply_account_priority a =
     (if meta_field meta_priority (au_meta a) = None then a
      else a\<lparr>au_attrs := put_attr meta_priority (format_int (priority_from_metadata (au_meta a))) (au_attrs a)\<rparr>)"

definition set_account_priority :: "int \<Rightarrow> auth \<Rightarrow> auth" where
  "set_account_priority v a =
     a\<lparr>au_meta := put_meta meta_priority (JStr (format_int v)) (au_meta a), au_attrs := put_attr meta_priority (format_int v) (au_attrs a)\<rparr>"

section \<open>Proxies\<close>

datatype proxy_mode = ProxyInherit | ProxyDirect | ProxyCustom | ProxyOther string

record proxy_choice =
  pc_mode :: proxy_mode
  pc_url :: string

record account_proxy =
  ap_mode :: proxy_mode
  ap_url :: string
  ap_credentials :: bool

definition meta_proxy :: string where "meta_proxy = ''proxy_url''"
definition proxy_direct :: string where "proxy_direct = ''direct''"
definition field_proxy_url :: string where "field_proxy_url = ''proxy.url''"
definition field_proxy_mode :: string where "field_proxy_mode = ''proxy.mode''"

definition proxy_value :: "vendor_kit \<Rightarrow> proxy_choice \<Rightarrow> string result" where
  "proxy_value vk c = (case pc_mode c of
     ProxyInherit \<Rightarrow> Inr []
   | ProxyDirect \<Rightarrow> Inr proxy_direct
   | ProxyCustom \<Rightarrow> (case vk_proxy vk (pc_url c) of
       Some st \<Rightarrow> if ps_kind st \<noteq> UseProxy \<or> \<not> vk_dialable vk (pc_url c) then Inl (EInvalidInput field_proxy_url) else Inr (ps_raw st)
     | None \<Rightarrow> Inl (EInvalidInput field_proxy_url))
   | ProxyOther _ \<Rightarrow> Inl (EInvalidInput field_proxy_mode))"

definition show_proxy :: "vendor_kit \<Rightarrow> string \<Rightarrow> account_proxy" where
  "show_proxy vk raw = (case vk_proxy vk raw of
     None \<Rightarrow> \<lparr>ap_mode = ProxyCustom, ap_url = [], ap_credentials = False\<rparr>
   | Some st \<Rightarrow> (case ps_kind st of
       InheritProxy \<Rightarrow> \<lparr>ap_mode = ProxyInherit, ap_url = [], ap_credentials = False\<rparr>
     | DirectProxy \<Rightarrow> \<lparr>ap_mode = ProxyDirect, ap_url = [], ap_credentials = False\<rparr>
     | UseProxy \<Rightarrow> \<lparr>ap_mode = ProxyCustom, ap_url = vk_show_url vk (ps_scheme st) (ps_host st), ap_credentials = ps_user st\<rparr>))"

definition set_proxy :: "string \<Rightarrow> auth \<Rightarrow> auth" where
  "set_proxy v a = a\<lparr>au_proxy := v,
     au_meta := (if v = [] then Some (AList.delete meta_proxy (case au_meta a of None \<Rightarrow> [] | Some kvs \<Rightarrow> kvs))
                 else put_meta meta_proxy (JStr v) (au_meta a))\<rparr>"

section \<open>OpenAI-compatible providers\<close>

text \<open>\<open>cm_levels\<close> nil follows the default set.\<close>

record compat_model =
  cm_name :: string
  cm_alias :: string
  cm_levels :: "string list option"

record compat_provider =
  cv_name :: string
  cv_base_url :: string
  cv_api_key :: string
  cv_prefix :: string
  cv_models :: "compat_model list"
  cv_priority :: int
  cv_headers :: "(string \<times> string) list option"
  cv_proxy :: "proxy_choice option"

record compat_update =
  cu_base_url :: string
  cu_api_key :: "string option"
  cu_prefix :: string
  cu_models :: "compat_model list"
  cu_priority :: "int option"
  cu_headers :: "(string \<times> string) list option"
  cu_proxy :: "proxy_choice option"

record compat_details =
  cd_name :: string
  cd_base_url :: string
  cd_prefix :: string
  cd_has_key :: bool
  cd_models :: "compat_model list"
  cd_headers :: "string list"

text \<open>A configuration entry upstream registers models from, the reasoning levels as declared to it.\<close>

record compat_entry =
  ce_name :: string
  ce_base_url :: string
  ce_priority :: int
  ce_models :: "(string \<times> string \<times> string list) list"

definition default_reasoning_levels :: "string list" where
  "default_reasoning_levels = [''none'', ''minimal'', ''low'', ''medium'', ''high'', ''xhigh'', ''max'']"

definition meta_compat_name :: string where "meta_compat_name = ''compat_name''"
definition meta_base_url :: string where "meta_base_url = ''base_url''"
definition meta_api_key :: string where "meta_api_key = ''api_key''"
definition meta_prefix :: string where "meta_prefix = ''prefix''"
definition meta_models :: string where "meta_models = ''models''"
definition meta_label :: string where "meta_label = ''label''"
definition meta_headers :: string where "meta_headers = ''headers''"
definition meta_levels :: string where "meta_levels = ''reasoning_levels''"
definition meta_type :: string where "meta_type = ''type''"
definition meta_disabled :: string where "meta_disabled = ''disabled''"
definition attr_provider_key :: string where "attr_provider_key = ''provider_key''"

definition compat_account_id :: "string \<Rightarrow> string" where
  "compat_account_id name = compat_provider_key name"

definition is_compat_account :: "auth \<Rightarrow> bool" where
  "is_compat_account a \<longleftrightarrow> au_provider a = compat_key \<and> text_or_empty meta_compat_name (au_meta a) \<noteq> []"

definition drop_headers :: "(string \<times> string) list option \<Rightarrow> (string \<times> string) list option" where
  "drop_headers m = map_option (filter (\<lambda>(k, v). \<not> prefix ''header:'' k)) m"

definition apply_compat_attributes :: "vendor_kit \<Rightarrow> auth \<Rightarrow> auth" where
  "apply_compat_attributes vk a =
     (let name = text_or_empty meta_compat_name (au_meta a);
          base = text_or_empty meta_base_url (au_meta a);
          key = text_or_empty meta_api_key (au_meta a);
          pre = text_or_empty meta_prefix (au_meta a);
          attrs = put_attr meta_base_url base (put_attr attr_provider_key (compat_provider_key name) (put_attr meta_compat_name name (au_attrs a)));
          attrs = (if key \<noteq> [] then put_attr meta_api_key key attrs else map_option (AList.delete meta_api_key) attrs) in
      (vk_apply_headers vk (a\<lparr>au_attrs := drop_headers attrs\<rparr>))\<lparr>au_label := name, au_prefix := pre\<rparr>)"

definition model_metadata :: "compat_model \<Rightarrow> json" where
  "model_metadata m = JObj ([(''name'', JStr (cm_name m))]
     @ (if cm_alias m \<noteq> [] then [(''alias'', JStr (cm_alias m))] else [])
     @ (case cm_levels m of None \<Rightarrow> [] | Some ls \<Rightarrow> [(meta_levels, JArr (map JStr ls))]))"

definition headers_json :: "(string \<times> string) list option \<Rightarrow> json" where
  "headers_json h = (case h of None \<Rightarrow> JNull | Some hs \<Rightarrow> JObj (map (\<lambda>(k, v). (k, JStr v)) hs))"

definition compat_metadata :: "compat_provider \<Rightarrow> metadata" where
  "compat_metadata p =
     [(meta_type, JStr compat_key), (meta_label, JStr (cv_name p)), (meta_compat_name, JStr (cv_name p)), (meta_base_url, JStr (cv_base_url p)),
      (meta_models, JArr (map model_metadata (cv_models p))), (meta_priority, JStr (format_int (cv_priority p))),
      (meta_headers, headers_json (cv_headers p))]
     @ (if cv_api_key p \<noteq> [] then [(meta_api_key, JStr (cv_api_key p))] else [])
     @ (if cv_prefix p \<noteq> [] then [(meta_prefix, JStr (cv_prefix p))] else [])"

fun strings_of :: "json list \<Rightarrow> string list" where
  "strings_of [] = []"
| "strings_of (JStr s # vs) = s # strings_of vs"
| "strings_of (_ # vs) = strings_of vs"

fun reasoning_levels :: "json option \<Rightarrow> string list option" where
  "reasoning_levels (Some (JArr vs)) = (if strings_of vs = [] then None else Some (strings_of vs))"
| "reasoning_levels _ = None"

fun read_models :: "json list \<Rightarrow> compat_model list" where
  "read_models [] = []"
| "read_models (JObj kvs # vs) =
     (let name = text_or_empty ''name'' (Some kvs) in
      (if name \<noteq> [] then [\<lparr>cm_name = name, cm_alias = text_or_empty ''alias'' (Some kvs), cm_levels = reasoning_levels (map_of kvs meta_levels)\<rparr>]
       else []) @ read_models vs)"
| "read_models (_ # vs) = read_models vs"

definition compat_models :: "metadata option \<Rightarrow> compat_model list" where
  "compat_models m = (case meta_field meta_models m of Some (JArr vs) \<Rightarrow> read_models vs | _ \<Rightarrow> [])"

definition compat_details_of :: "vendor_kit \<Rightarrow> auth \<Rightarrow> compat_details" where
  "compat_details_of vk a =
     \<lparr>cd_name = text_or_empty meta_compat_name (au_meta a), cd_base_url = text_or_empty meta_base_url (au_meta a),
      cd_prefix = text_or_empty meta_prefix (au_meta a), cd_has_key = (text_or_empty meta_api_key (au_meta a) \<noteq> []),
      cd_models = compat_models (au_meta a), cd_headers = sort (map fst (vk_headers vk (au_meta a)))\<rparr>"

definition compat_model_entry :: "compat_model \<Rightarrow> string \<times> string \<times> string list" where
  "compat_model_entry m = (cm_name m, cm_alias m, case cm_levels m of None \<Rightarrow> default_reasoning_levels | Some ls \<Rightarrow> ls)"

definition compat_entry_of :: "auth \<Rightarrow> compat_entry" where
  "compat_entry_of a =
     \<lparr>ce_name = text_or_empty meta_compat_name (au_meta a), ce_base_url = text_or_empty meta_base_url (au_meta a),
      ce_priority = account_priority a, ce_models = map compat_model_entry (compat_models (au_meta a))\<rparr>"

definition compat_entries :: "auth list \<Rightarrow> compat_entry list" where
  "compat_entries as = sort_key ce_name (map compat_entry_of (filter is_compat_account as))"

definition trim_right_slash :: "string \<Rightarrow> string" where
  "trim_right_slash s = rev (dropWhile (\<lambda>c. c = CHR ''/'') (rev s))"

definition compat_headers_for ::
  "vendor_kit \<Rightarrow> auth option \<Rightarrow> string \<Rightarrow> (string \<times> string) list option \<Rightarrow> (string \<times> string) list option result" where
  "compat_headers_for vk held base_url headers =
     (case (headers, held) of
        (None, Some a) \<Rightarrow>
          (let hs = vk_headers vk (au_meta a) in
           if hs \<noteq> [] \<and> trim_right_slash (text_or_empty meta_base_url (au_meta a)) \<noteq> trim_right_slash base_url
           then Inl (EInvalidInput ''headers'') else Inr (Some hs))
      | _ \<Rightarrow> Inr headers)"

section \<open>The administrator's view of an account\<close>

record vendor_account =
  va_id :: string
  va_provider :: string
  va_label :: string
  va_email :: string
  va_status :: string
  va_disabled :: bool
  va_priority :: int
  va_proxy :: account_proxy
  va_last_error :: string
  va_refreshed :: instant
  va_quota :: "quota_signal list"
  va_compat :: "compat_details option"

definition last_refreshed :: "vendor_kit \<Rightarrow> auth \<Rightarrow> instant" where
  "last_refreshed vk a =
     (if au_refreshed a \<noteq> zero_time then au_refreshed a
      else case meta_text ''last_refresh'' (au_meta a) of
        None \<Rightarrow> zero_time
      | Some raw \<Rightarrow> (case vk_time vk (trim_space raw) of None \<Rightarrow> zero_time | Some t \<Rightarrow> t))"

definition vendor_account_of :: "vendor_kit \<Rightarrow> auth \<Rightarrow> vendor_account" where
  "vendor_account_of vk a =
     (let base = \<lparr>va_id = au_id a, va_provider = policy_provider (au_provider a), va_label = au_label a,
            va_email = text_or_empty ''email'' (au_meta a), va_status = au_status a, va_disabled = au_disabled a,
            va_priority = account_priority a, va_proxy = show_proxy vk (au_proxy a),
            va_last_error = (case au_last_error a of None \<Rightarrow> [] | Some msg \<Rightarrow> msg), va_refreshed = last_refreshed vk a,
            va_quota = [], va_compat = None\<rparr> in
      if is_compat_account a then base\<lparr>va_compat := Some (compat_details_of vk a), va_provider := cd_name (compat_details_of vk a)\<rparr> else base)"

definition store_holds :: "vendor_kit \<Rightarrow> auth \<Rightarrow> bool" where
  "store_holds vk a \<longleftrightarrow> \<not> vk_config_auth vk a \<and> \<not> vk_plugin_auth vk a \<and> au_meta a \<noteq> None
     \<and> \<not> equal_fold_ascii (trim_space (case attr_of ''runtime_only'' (au_attrs a) of None \<Rightarrow> [] | Some s \<Rightarrow> s)) ''true''"

end
