(* ===== verification/ConfigTree.thy ===== *)
theory ConfigTree
  imports Errors
begin

text \<open>
  Upstream's configuration as the settings service sees it by reflection (\<open>internal/app/settings/settings.go\<close>): a struct value with the
  type it has, the fields the gateway owns found in that type by their YAML keys, one configuration overlaid with the owned fields of another,
  and the rendering of a configuration with its secrets taken out. The struct type itself is upstream's, so it is a parameter everywhere; it is taken
  to be a finite tree, as a field path is.
\<close>

section \<open>Struct values and types\<close>

datatype goval =
    GNil
  | GBool bool
  | GInt int
  | GFloat f64
  | GText string
  | GStruct "goval list"
  | GList "goval list"
  | GMap "(goval \<times> goval) list"
  | GPointer goval

type_synonym index = "nat list"

text \<open>\<open>reflect.Value.FieldByIndex\<close> and \<open>Set\<close> on the field found; an index outside the type panics, which no caller gives.\<close>

fun at_index :: "index \<Rightarrow> goval \<Rightarrow> goval" where
  "at_index [] v = v"
| "at_index (i # p) (GStruct vs) = (if i < length vs then at_index p (vs ! i) else GNil)"
| "at_index (i # p) _ = GNil"

fun set_index :: "index \<Rightarrow> goval \<Rightarrow> goval \<Rightarrow> goval" where
  "set_index [] x v = x"
| "set_index (i # p) x (GStruct vs) = GStruct (if i < length vs then vs[i := set_index p x (vs ! i)] else vs)"
| "set_index (i # p) x v = v"

record field_info =
  fi_name :: string
  fi_exported :: bool
  fi_yaml :: string
  fi_json :: string

datatype gotype =
    TPointer gotype
  | TStruct "(field_info \<times> gotype) list"
  | TList gotype
  | TMap gotype
  | TBasic

fun strip_pointers :: "gotype \<Rightarrow> gotype" where
  "strip_pointers (TPointer t) = strip_pointers t"
| "strip_pointers t = t"

text \<open>A YAML tag is the key, then options after the first comma.\<close>

definition yaml_key :: "field_info \<Rightarrow> string" where
  "yaml_key f = (case cut CHR '','' (fi_yaml f) of None \<Rightarrow> fi_yaml f | Some (name, opts) \<Rightarrow> name)"

definition yaml_inline :: "field_info \<Rightarrow> bool" where
  "yaml_inline f = (case cut CHR '','' (fi_yaml f) of None \<Rightarrow> False | Some (name, opts) \<Rightarrow> opts = ''inline'')"

section \<open>What the gateway owns\<close>

definition owned_keys :: "string list" where
  "owned_keys =
     [''host'', ''port'', ''tls'', ''trusted-proxies'', ''pprof'', ''discovery'', ''debug'', ''auth-dir'',
      ''logging-to-file'', ''logs-max-total-size-mb'',
      ''remote-management'', ''api-keys'', ''plugins'', ''ws-auth'', ''openai-compatibility'',
      ''save-cooldown-status'', ''request-log'', ''error-logs-max-files'', ''models'']"

definition has_suffix :: "string \<Rightarrow> string \<Rightarrow> bool" where
  "has_suffix s suf \<longleftrightarrow> length suf \<le> length s \<and> drop (length s - length suf) s = suf"

definition is_owned_key :: "string \<Rightarrow> bool" where
  "is_owned_key key \<longleftrightarrow> key = ''home'' \<or> has_suffix key ''-api-key'' \<or> key \<in> set owned_keys"

text \<open>\<open>ownedFields\<close>: the fields under an owned key, through the inlined structs, and the one named Home.\<close>

fun owned_under :: "index \<Rightarrow> gotype \<Rightarrow> (string \<times> index) list"
and owned_walk :: "index \<Rightarrow> nat \<Rightarrow> (field_info \<times> gotype) list \<Rightarrow> (string \<times> index) list" where
  "owned_under pre (TStruct fs) = owned_walk pre 0 fs"
| "owned_under pre _ = []"
| "owned_walk pre i [] = []"
| "owned_walk pre i ((f, t) # fs) =
     (if yaml_inline f then owned_under (pre @ [i]) t
      else if fi_name f = ''Home'' then [(''home'', pre @ [i])]
      else if yaml_key f \<noteq> ''-'' \<and> is_owned_key (yaml_key f) then [(yaml_key f, pre @ [i])]
      else [])
     @ owned_walk pre (i + 1) fs"

definition owned_fields :: "gotype \<Rightarrow> (string \<times> index) list" where
  "owned_fields t = owned_under [] t"

text \<open>\<open>overlayOwned\<close>, the copy of the owner given.\<close>

fun overlay_fields :: "(string \<times> index) list \<Rightarrow> goval \<Rightarrow> goval \<Rightarrow> goval" where
  "overlay_fields [] dst src = dst"
| "overlay_fields ((key, i) # fs) dst src = overlay_fields fs (set_index i (at_index i src) dst) src"

fun first_set :: "(string \<times> index) list \<Rightarrow> goval \<Rightarrow> goval \<Rightarrow> string option" where
  "first_set [] cfg unset = None"
| "first_set ((key, i) # fs) cfg unset = (if at_index i cfg \<noteq> at_index i unset then Some key else first_set fs cfg unset)"

section \<open>Indices into struct values\<close>

fun has_index :: "index \<Rightarrow> goval \<Rightarrow> bool" where
  "has_index [] v = True"
| "has_index (i # p) (GStruct vs) = (i < length vs \<and> has_index p (vs ! i))"
| "has_index (i # p) _ = False"

text \<open>Neither index leads through the other.\<close>

fun apart :: "index \<Rightarrow> index \<Rightarrow> bool" where
  "apart (i # p) (j # q) = (i \<noteq> j \<or> apart p q)"
| "apart _ _ = False"

lemma apart_sym: "apart p q = apart q p"
  by (induction p q rule: apart.induct) auto

lemma apart_append: "apart (p @ q) (p @ q') = apart q q'"
  by (induction p) auto

lemma apart_cons: "apart (i # p) q \<Longrightarrow> \<exists>j q'. q = j # q'"
  by (cases q) auto

lemma at_set_index: "has_index p v \<Longrightarrow> at_index p (set_index p x v) = x"
  by (induction p v rule: has_index.induct) auto

lemma at_set_apart: "apart p q \<Longrightarrow> at_index q (set_index p x v) = at_index q v"
proof (induction p v arbitrary: q rule: has_index.induct)
  case (2 i p vs)
  then obtain j q' where q: "q = j # q'" by (cases q) auto
  show ?case using 2 by (auto simp: q nth_list_update)
qed auto

lemma set_at_index: "set_index p (at_index p v) v = v"
  by (induction p v rule: has_index.induct) auto

lemma set_set_apart: "apart p q \<Longrightarrow> set_index p x (set_index q y v) = set_index q y (set_index p x v)"
proof (induction p v arbitrary: q rule: has_index.induct)
  case (2 i p vs)
  then obtain j q' where q: "q = j # q'" by (cases q) auto
  show ?case using 2 by (cases "i = j") (auto simp: q list_update_swap)
qed (auto dest: apart_cons)

lemma set_set_index: "set_index p x (set_index p y v) = set_index p x v"
  by (induction p v rule: has_index.induct) auto

lemma has_set_index: "has_index p v \<Longrightarrow> has_index q x \<Longrightarrow> has_index (p @ q) (set_index p x v)"
  by (induction p v rule: has_index.induct) auto

lemma has_set_apart: "apart p q \<Longrightarrow> has_index q (set_index p x v) = has_index q v"
proof (induction p v arbitrary: q rule: has_index.induct)
  case (2 i p vs)
  then obtain j q' where q: "q = j # q'" by (cases q) auto
  show ?case using 2 by (auto simp: q nth_list_update)
qed auto

lemma has_set_same: "has_index p (set_index p x v) = has_index p v"
  by (induction p v rule: has_index.induct) auto

text \<open>Indices each apart from the ones after it.\<close>

fun all_apart :: "(string \<times> index) list \<Rightarrow> bool" where
  "all_apart [] = True"
| "all_apart ((k, p) # fs) = ((\<forall>(k', q) \<in> set fs. apart p q) \<and> all_apart fs)"

lemma all_apart_append:
  "all_apart (fs @ gs) = (all_apart fs \<and> all_apart gs \<and> (\<forall>(k, p) \<in> set fs. \<forall>(k', q) \<in> set gs. apart p q))"
  by (induction fs rule: all_apart.induct) auto

text \<open>An index found in a walk leads through the struct walked, from the field the walk is at.\<close>

lemma owned_index:
  "(k, p) \<in> set (owned_under pre t) \<Longrightarrow> \<exists>i q. p = pre @ i # q"
  "(k, p) \<in> set (owned_walk pre n fs) \<Longrightarrow> \<exists>i q. p = pre @ i # q \<and> n \<le> i"
proof (induction pre t and pre n fs rule: owned_under_owned_walk.induct)
  case (4 pre i f t fs)
  show ?case
  proof (cases "(k, p) \<in> set (owned_walk pre (i + 1) fs)")
    case True
    then obtain j q where "p = pre @ j # q" "i + 1 \<le> j" using 4(2) by blast
    then show ?thesis by auto
  next
    case False
    with 4(3) have "(yaml_inline f \<and> (k, p) \<in> set (owned_under (pre @ [i]) t)) \<or> p = pre @ [i]" by (auto split: if_splits)
    then show ?thesis using 4(1) by auto
  qed
qed auto

lemma owned_apart:
  "all_apart (owned_under pre t)"
  "all_apart (owned_walk pre n fs)"
proof (induction pre t and pre n fs rule: owned_under_owned_walk.induct)
  case (4 pre i f t fs)
  have later: "apart (pre @ i # r) q" if q: "(k, q) \<in> set (owned_walk pre (i + 1) fs)" for q k r
  proof -
    obtain j s where "q = pre @ j # s" "i + 1 \<le> j" using owned_index(2) [OF q] by blast
    then show ?thesis by (simp add: apart_append)
  qed
  show ?case
  proof (cases "yaml_inline f")
    case True
    have "\<exists>r. p = pre @ i # r" if "(k, p) \<in> set (owned_under (pre @ [i]) t)" for k p
      using owned_index(1) [OF that] by auto
    then show ?thesis using 4 True later by (fastforce simp: all_apart_append)
  next
    case False
    then show ?thesis using 4(2) later [where r = "[]"] by (auto simp: all_apart_append)
  qed
qed auto

lemma owned_fields_apart: "all_apart (owned_fields t)"
  by (simp add: owned_fields_def owned_apart)

section \<open>The overlay\<close>

lemma overlay_apart: "\<forall>(k, p) \<in> set fs. apart p q \<Longrightarrow> at_index q (overlay_fields fs dst src) = at_index q dst"
  by (induction fs dst src rule: overlay_fields.induct) (auto simp: at_set_apart)

lemma overlay_owned:
  "all_apart fs \<Longrightarrow> (k, p) \<in> set fs \<Longrightarrow> \<forall>(k, p) \<in> set fs. has_index p dst
     \<Longrightarrow> at_index p (overlay_fields fs dst src) = at_index p src"
proof (induction fs dst src rule: overlay_fields.induct)
  case (2 key i fs dst src)
  show ?case
  proof (cases "(k, p) \<in> set fs")
    case True
    then show ?thesis using 2 by (fastforce simp: has_set_apart)
  next
    case False
    then have "p = i" using 2 by auto
    have "\<forall>(k, q) \<in> set fs. apart q i" using 2(2) by (auto simp: apart_sym)
    then show ?thesis using 2(4) by (simp add: overlay_apart at_set_index \<open>p = i\<close>)
  qed
qed simp

lemma overlay_set: "all_apart fs \<Longrightarrow> \<forall>(k, p) \<in> set fs. apart p q
    \<Longrightarrow> overlay_fields fs (set_index q x dst) src = set_index q x (overlay_fields fs dst src)"
proof (induction fs dst src rule: overlay_fields.induct)
  case (2 key i fs dst src)
  then have "apart i q" by simp
  from set_set_apart [OF this] show ?case using 2 by simp
qed simp

lemma overlay_same: "\<forall>(k, p) \<in> set fs. at_index p dst = at_index p src \<Longrightarrow> overlay_fields fs dst src = dst"
proof (induction fs)
  case (Cons f fs)
  obtain k i where f: "f = (k, i)" by (cases f)
  have "at_index i dst = at_index i src" using Cons.prems by (simp add: f)
  then have "set_index i (at_index i src) dst = dst" by (metis set_at_index)
  then show ?case using Cons by (simp add: f)
qed simp

end
