(* ===== verification/Site.thy ===== *)
theory Site
  imports VendorAuth ConfigTree Admin
begin

text \<open>
  The state the embedded gateway and the services over it work on, and their operations. Beside the world of the account services a site has the stored
  settings document and the sealed vendor credentials (tables of the same database), the memory of the credential store and of the gateway
  (\<open>internal/infra/gateway/service.go\<close> Gateway), and the state of the upstream service embedded in it, of any type.
\<close>

section \<open>Operations over a state\<close>

type_synonym ('s, 'a) act = "env \<Rightarrow> 's \<Rightarrow> 'a result \<times> 's"

definition aret :: "'a \<Rightarrow> ('s, 'a) act" where
  "aret a = (\<lambda>e s. (Inr a, s))"

definition araise :: "err \<Rightarrow> ('s, 'a) act" where
  "araise x = (\<lambda>e s. (Inl x, s))"

definition alift :: "'a result \<Rightarrow> ('s, 'a) act" where
  "alift r = (\<lambda>e s. (r, s))"

definition abnd :: "('s, 'a) act \<Rightarrow> ('a \<Rightarrow> ('s, 'b) act) \<Rightarrow> ('s, 'b) act" where
  "abnd m k = (\<lambda>e s. case m e s of (Inl x, s') \<Rightarrow> (Inl x, s') | (Inr a, s') \<Rightarrow> k a e s')"

definition atry :: "('s, 'a) act \<Rightarrow> ('s, 'a result) act" where
  "atry m = (\<lambda>e s. case m e s of (r, s') \<Rightarrow> (Inr r, s'))"

definition aget :: "('s \<Rightarrow> 'a) \<Rightarrow> ('s, 'a) act" where
  "aget f = (\<lambda>e s. (Inr (f s), s))"

definition aput :: "('s \<Rightarrow> 's) \<Rightarrow> ('s, unit) act" where
  "aput f = (\<lambda>e s. (Inr (), f s))"

definition aasks :: "(env \<Rightarrow> 'a) \<Rightarrow> ('s, 'a) act" where
  "aasks f = (\<lambda>e s. (Inr (f e), s))"

section \<open>Weakest preconditions\<close>

definition awp :: "('s, 'a) act \<Rightarrow> env \<Rightarrow> 's \<Rightarrow> ('a result \<Rightarrow> 's \<Rightarrow> bool) \<Rightarrow> bool" where
  "awp m e s Q = (case m e s of (r, s') \<Rightarrow> Q r s')"

named_theorems awp_simps \<open>weakest preconditions of the operations over a state\<close>

lemma awp_aret [awp_simps]: "awp (aret a) e s Q = Q (Inr a) s"
  by (simp add: awp_def aret_def)

lemma awp_araise [awp_simps]: "awp (araise x) e s Q = Q (Inl x) s"
  by (simp add: awp_def araise_def)

lemma awp_alift [awp_simps]: "awp (alift r) e s Q = Q r s"
  by (simp add: awp_def alift_def)

lemma awp_abnd [awp_simps]:
  "awp (abnd m k) e s Q = awp m e s (\<lambda>r s'. case r of Inl x \<Rightarrow> Q (Inl x) s' | Inr a \<Rightarrow> awp (k a) e s' Q)"
  by (auto simp: awp_def abnd_def split: prod.splits sum.splits)

lemma awp_atry [awp_simps]: "awp (atry m) e s Q = awp m e s (\<lambda>r s'. Q (Inr r) s')"
  by (simp add: awp_def atry_def split: prod.splits)

lemma awp_aget [awp_simps]: "awp (aget f) e s Q = Q (Inr (f s)) s"
  by (simp add: awp_def aget_def)

lemma awp_aput [awp_simps]: "awp (aput f) e s Q = Q (Inr ()) (f s)"
  by (simp add: awp_def aput_def)

lemma awp_aasks [awp_simps]: "awp (aasks f) e s Q = Q (Inr (f e)) s"
  by (simp add: awp_def aasks_def)

lemma awp_if [awp_simps]: "awp (if b then m else n) e s Q = (if b then awp m e s Q else awp n e s Q)"
  by simp

lemma awp_option [awp_simps]:
  "awp (case x of None \<Rightarrow> m | Some y \<Rightarrow> n y) e s Q = (case x of None \<Rightarrow> awp m e s Q | Some y \<Rightarrow> awp (n y) e s Q)"
  by (cases x) simp_all

lemma awp_sum [awp_simps]:
  "awp (case x of Inl y \<Rightarrow> m y | Inr z \<Rightarrow> n z) e s Q = (case x of Inl y \<Rightarrow> awp (m y) e s Q | Inr z \<Rightarrow> awp (n z) e s Q)"
  by (cases x) simp_all

lemma awp_prod [awp_simps]: "awp (case x of (y, z) \<Rightarrow> m y z) e s Q = (case x of (y, z) \<Rightarrow> awp (m y z) e s Q)"
  by (cases x) simp_all

lemma awp_let [awp_simps]: "awp (Let a f) e s Q = (let x = a in awp (f x) e s Q)"
  by (simp add: Let_def)

lemma awp_run: "awp m e s Q \<Longrightarrow> m e s = (r, s') \<Longrightarrow> Q r s'"
  by (simp add: awp_def)

lemma awp_mono: "awp m e s Q \<Longrightarrow> (\<And>r s'. Q r s' \<Longrightarrow> R r s') \<Longrightarrow> awp m e s R"
  by (auto simp: awp_def split: prod.splits)

lemma awp_conj: "awp m e s P \<Longrightarrow> awp m e s Q \<Longrightarrow> awp m e s (\<lambda>r s'. P r s' \<and> Q r s')"
  by (auto simp: awp_def split: prod.splits)

lemma awp_eq: "awp m e s (\<lambda>r s'. m e s = (r, s'))"
  by (simp add: awp_def split: prod.splits)

text \<open>A step whose result has a property hands it on to what follows.\<close>

lemma awp_bind:
  assumes "awp m e s P" "\<And>x s'. P (Inl x) s' \<Longrightarrow> Q (Inl x) s'" "\<And>a s'. P (Inr a) s' \<Longrightarrow> awp (k a) e s' Q"
  shows "awp (abnd m k) e s Q"
  unfolding awp_abnd by (rule awp_mono [OF assms(1)]) (auto split: sum.split intro: assms(2,3))

text \<open>Steps taken one at a time, for a sequence whose later steps are reasoned about as a whole.\<close>

lemma awp_steps:
  "awp (abnd (aret a) k) e s Q = awp (k a) e s Q"
  "awp (abnd (araise x) k) e s Q = Q (Inl x) s"
  "awp (abnd (alift r) k) e s Q = (case r of Inl x \<Rightarrow> Q (Inl x) s | Inr a \<Rightarrow> awp (k a) e s Q)"
  "awp (abnd (aget f) k) e s Q = awp (k (f s)) e s Q"
  "awp (abnd (aput g) k') e s Q = awp (k' ()) e (g s) Q"
  "awp (abnd (aasks h) k) e s Q = awp (k (h e)) e s Q"
  by (simp_all add: awp_simps)

section \<open>Sites\<close>

record credential_row =
  cr_id :: string
  cr_provider :: string
  cr_sealed :: string
  cr_created :: instant
  cr_updated :: instant

record 'u site =
  si_world :: world
  si_doc :: "string option"
  si_creds :: "credential_row list"
  si_digests :: "(string \<times> string) list"
  si_current :: "goval option"
  si_captured :: bool
  si_returned :: bool
  si_static :: "goval list"
  si_derived :: "string list"
  si_up :: 'u

text \<open>An operation of the account services: the clock, the audit trail, a warning.\<close>

definition on_world :: "'a io \<Rightarrow> ('u site, 'a) act" where
  "on_world m = (\<lambda>e s. case m e (si_world s) of (r, w) \<Rightarrow> (r, s\<lparr>si_world := w\<rparr>))"

text \<open>A statement on the tables the world leaves out: it may fail, and then it has done nothing.\<close>

definition site_stmt :: "(env \<Rightarrow> 'u site \<Rightarrow> ('a \<times> 'u site) result) \<Rightarrow> ('u site, 'a) act" where
  "site_stmt f = (\<lambda>e s.
     let s' = s\<lparr>si_world := tick (si_world s)\<rparr> in
     if fault e (w_tick (si_world s)) then (Inl EFault, s')
     else case f e s' of Inl x \<Rightarrow> (Inl x, s') | Inr (a, t) \<Rightarrow> (Inr a, t))"

lemma awp_on_world [awp_simps]: "awp (on_world m) e s Q = wp m e (si_world s) (\<lambda>r w. Q r (s\<lparr>si_world := w\<rparr>))"
  by (simp add: awp_def wp_def on_world_def split: prod.splits)

lemma awp_site_stmt [awp_simps]:
  "awp (site_stmt f) e s Q =
     (let s' = s\<lparr>si_world := tick (si_world s)\<rparr> in
      if fault e (w_tick (si_world s)) then Q (Inl EFault) s'
      else case f e s' of Inl x \<Rightarrow> Q (Inl x) s' | Inr (a, t) \<Rightarrow> Q (Inr a) t)"
  by (auto simp: awp_def site_stmt_def Let_def split: sum.splits prod.splits)

section \<open>The settings document\<close>

text \<open>\<open>internal/infra/postgres/settings\<close>; the value is the document's text, verbatim.\<close>

definition upstream_document :: "('u site, string) act" where
  "upstream_document = site_stmt (\<lambda>e s. case si_doc s of None \<Rightarrow> Inl ENotFound | Some doc \<Rightarrow> Inr (doc, s))"

text \<open>A write that failed may have committed, \<open>lost_ack\<close>: the connection dropped after the commit.\<close>

definition set_upstream_document :: "string \<Rightarrow> uuid \<Rightarrow> instant \<Rightarrow> ('u site, unit) act" where
  "set_upstream_document doc by' written = (\<lambda>e s.
     let s' = s\<lparr>si_world := tick (si_world s)\<rparr>;
         fails = fault e (w_tick (si_world s));
         lands = ref_ok (null_uuid by') (w_db (si_world s)) \<and> (fails \<longrightarrow> lost_ack e (w_tick (si_world s))) in
     (if fails \<or> \<not> lands then Inl EFault else Inr (), if lands then s'\<lparr>si_doc := Some doc\<rparr> else s'))"

lemma awp_set_upstream_document:
  "awp (set_upstream_document doc by' written) e s Q =
     (let s' = s\<lparr>si_world := tick (si_world s)\<rparr>;
          fails = fault e (w_tick (si_world s));
          lands = ref_ok (null_uuid by') (w_db (si_world s)) \<and> (fails \<longrightarrow> lost_ack e (w_tick (si_world s))) in
      Q (if fails \<or> \<not> lands then Inl EFault else Inr ()) (if lands then s'\<lparr>si_doc := Some doc\<rparr> else s'))"
  by (simp add: awp_def set_upstream_document_def Let_def)

section \<open>The sealed credentials\<close>

text \<open>\<open>internal/infra/postgres/vendorcreds\<close>.\<close>

definition creds_list :: "('u site, credential_row list) act" where
  "creds_list = site_stmt (\<lambda>e s. Inr (sort_key cr_id (si_creds s), s))"

definition overwrite_row :: "credential_row \<Rightarrow> credential_row \<Rightarrow> credential_row" where
  "overwrite_row new old = new\<lparr>cr_created := cr_created old\<rparr>"

definition creds_upsert :: "credential_row \<Rightarrow> ('u site, unit) act" where
  "creds_upsert row = site_stmt (\<lambda>e s. Inr ((), s\<lparr>si_creds :=
     (if \<exists>old \<in> set (si_creds s). cr_id old = cr_id row
      then map (\<lambda>old. if cr_id old = cr_id row then overwrite_row row old else old) (si_creds s)
      else si_creds s @ [row])\<rparr>))"

definition creds_update :: "credential_row \<Rightarrow> ('u site, unit) act" where
  "creds_update row = site_stmt (\<lambda>e s.
     if \<exists>old \<in> set (si_creds s). cr_id old = cr_id row
     then Inr ((), s\<lparr>si_creds := map (\<lambda>old. if cr_id old = cr_id row then overwrite_row row old else old) (si_creds s)\<rparr>)
     else Inl ENotFound)"

definition creds_delete :: "string \<Rightarrow> ('u site, unit) act" where
  "creds_delete i = site_stmt (\<lambda>e s. Inr ((), s\<lparr>si_creds := filter (\<lambda>row. cr_id row \<noteq> i) (si_creds s)\<rparr>))"

end
