(* ===== verification/CredentialStore.thy ===== *)
theory CredentialStore
  imports Site
begin

text \<open>
  Upstream's token store over Postgres: \<open>internal/infra/gateway/credential_store.go\<close> with the sealing of
  \<open>internal/domain/credentials/sealer.go\<close>. The cipher and the derivation of its key are parameters, and so is the text of JSON values. The scratch
  directory a login's token file passes through leaves nothing behind and is not modelled: the storage of an account is the fields its
  file reads back as.
\<close>

section \<open>Sealing\<close>

record aead =
  ae_nonce :: nat
  ae_overhead :: nat
  ae_seal :: "string \<Rightarrow> string \<Rightarrow> string \<Rightarrow> string"
  ae_open :: "string \<Rightarrow> string \<Rightarrow> string \<Rightarrow> string option"

definition min_sealer_key :: nat where "min_sealer_key = 32"
definition seal_version :: char where "seal_version = char_of (1 :: nat)"
definition max_sealed_plaintext :: nat where "max_sealed_plaintext = 2 ^ 20"

definition new_sealer :: "(string \<Rightarrow> aead result) \<Rightarrow> string \<Rightarrow> aead result" where
  "new_sealer derived key = (if length key < min_sealer_key then Inl EShortSealerKey else derived key)"

definition sealer_seal :: "aead \<Rightarrow> string \<Rightarrow> string \<Rightarrow> ('u site, string) act" where
  "sealer_seal ae i plain =
     (if max_sealed_plaintext < length plain then araise EPlaintextTooLarge
      else abnd (on_world (random_io (ae_nonce ae))) (\<lambda>nonce. aret (seal_version # nonce @ ae_seal ae nonce plain i)))"

definition sealer_open :: "aead \<Rightarrow> string \<Rightarrow> string \<Rightarrow> string result" where
  "sealer_open ae i sealed =
     (let header = 1 + ae_nonce ae in
      if length sealed < header + ae_overhead ae \<or> hd sealed \<noteq> seal_version then Inl EUnsealable
      else case ae_open ae (take (ae_nonce ae) (drop 1 sealed)) (drop header sealed) i of
        None \<Rightarrow> Inl EUnsealable
      | Some plain \<Rightarrow> Inr plain)"

section \<open>The credential of an account\<close>

definition credential_key :: "auth \<Rightarrow> string" where
  "credential_key a = (let name = trim_space (au_file a) in if name \<noteq> [] then name else au_id a)"

definition credential_provider :: "metadata option \<Rightarrow> string \<Rightarrow> string" where
  "credential_provider m otherwise = (case meta_text meta_type m of
     None \<Rightarrow> otherwise
   | Some kind \<Rightarrow> if trim_space kind \<noteq> [] then trim_space kind else otherwise)"

definition carries_token :: "metadata \<Rightarrow> bool" where
  "carries_token fs \<longleftrightarrow> (\<exists>name \<in> {''access_token'', ''refresh_token''}. trim_space (text_or_empty name (Some fs)) \<noteq> [])"

definition credential_fields :: "auth \<Rightarrow> metadata option result" where
  "credential_fields a = (case au_storage a of
     None \<Rightarrow> Inr (au_meta a)
   | Some st \<Rightarrow> (case st (au_meta a) of
       Inl x \<Rightarrow> Inl x
     | Inr fs \<Rightarrow>
         if \<not> carries_token fs then Inl (EGateway TokenlessCredential)
         else Inr (case meta_field meta_priority (au_meta a) of None \<Rightarrow> Some fs | Some p \<Rightarrow> put_meta meta_priority p (Some fs))))"

definition fields_json :: "metadata option \<Rightarrow> json" where
  "fields_json m = (case m of None \<Rightarrow> JNull | Some kvs \<Rightarrow> JObj kvs)"

definition canonical_json :: "vendor_kit \<Rightarrow> metadata option \<Rightarrow> string result" where
  "canonical_json vk m = (case vk_unmarshal vk (vk_marshal vk (fields_json m)) of
     None \<Rightarrow> Inl (EForeign ''the credential is not a JSON object'')
   | Some kvs \<Rightarrow> Inr (vk_marshal vk (JObj kvs)))"

definition attr_source :: string where "attr_source = ''source''"
definition attr_backend :: string where "attr_backend = ''source_backend''"
definition source_postgres :: string where "source_postgres = ''postgres''"

definition stamp_credential :: "string \<Rightarrow> auth \<Rightarrow> auth" where
  "stamp_credential key a =
     a\<lparr>au_file := (if trim_space (au_file a) = [] then key else au_file a),
       au_attrs := put_attr attr_backend source_postgres (put_attr attr_source key (au_attrs a))\<rparr>"

definition credential_label :: "metadata option \<Rightarrow> string" where
  "credential_label m =
     (if text_or_empty meta_label m \<noteq> [] then text_or_empty meta_label m
      else if text_or_empty ''email'' m \<noteq> [] then text_or_empty ''email'' m
      else text_or_empty ''project_id'' m)"

definition credential_prefix :: "metadata option \<Rightarrow> string" where
  "credential_prefix m =
     (let pf = trim_right_slash (dropWhile (\<lambda>c. c = CHR ''/'') (trim_space (text_or_empty meta_prefix m))) in
      if CHR ''/'' \<in> set pf then [] else pf)"

definition free_plan :: string where "free_plan = ''free''"

definition id_token_plan_type :: "vendor_kit \<Rightarrow> string \<Rightarrow> string" where
  "id_token_plan_type vk token =
     (case split_at CHR ''.'' token of
        [_, payload, _] \<Rightarrow>
          (case b64_decode url_alphabet (rev (dropWhile (\<lambda>c. c = CHR ''='') (rev payload))) of
             None \<Rightarrow> free_plan
           | Some claims \<Rightarrow> (case vk_plan vk claims of
               None \<Rightarrow> free_plan
             | Some plan \<Rightarrow> if trim_space plan \<noteq> [] then trim_space plan else free_plan))
      | _ \<Rightarrow> free_plan)"

definition codex_plan_type :: "vendor_kit \<Rightarrow> metadata option \<Rightarrow> string option" where
  "codex_plan_type vk m =
     (let plan = trim_space (text_or_empty ''plan_type'' m) in
      if plan \<noteq> [] then Some plan
      else if trim_space (text_or_empty ''id_token'' m) = [] then None
      else Some (id_token_plan_type vk (text_or_empty ''id_token'' m)))"

definition meta_true :: "string \<Rightarrow> metadata option \<Rightarrow> bool" where
  "meta_true key m \<longleftrightarrow> meta_field key m = Some (JBool True)"

text \<open>An account of which only the metadata is set.\<close>

definition bare_auth :: "metadata option \<Rightarrow> auth" where
  "bare_auth m = \<lparr>au_id = [], au_file = [], au_provider = [], au_label = [], au_prefix = [], au_proxy = [], au_status = [], au_status_message = [],
     au_disabled = False, au_meta = m, au_attrs = None, au_storage = None, au_last_error = None, au_refreshed = zero_time, au_created = zero_time,
     au_updated = zero_time\<rparr>"

text \<open>The account a row reads back as, before upstream's headers and the routing attributes.\<close>

definition loaded_auth :: "credential_row \<Rightarrow> metadata option \<Rightarrow> auth" where
  "loaded_auth row m =
     \<lparr>au_id = cr_id row, au_file = cr_id row, au_provider = credential_provider m ''unknown'', au_label = credential_label m,
      au_prefix = credential_prefix m, au_proxy = trim_space (text_or_empty meta_proxy m),
      au_status = (if meta_true meta_disabled m then status_disabled else auth_active), au_status_message = [],
      au_disabled = meta_true meta_disabled m, au_meta = m,
      au_attrs = Some [(attr_source, cr_id row), (attr_backend, source_postgres)], au_storage = None, au_last_error = None,
      au_refreshed = zero_time, au_created = cr_created row, au_updated = cr_updated row\<rparr>"

definition with_vendor_attributes :: "vendor_kit \<Rightarrow> auth \<Rightarrow> auth" where
  "with_vendor_attributes vk a =
     (let email = text_or_empty ''email'' (au_meta a);
          a = (if email \<noteq> [] then a\<lparr>au_attrs := put_attr ''email'' email (au_attrs a)\<rparr> else a) in
      if au_provider a = codex_key
      then (case codex_plan_type vk (au_meta a) of None \<Rightarrow> a | Some plan \<Rightarrow> a\<lparr>au_attrs := put_attr ''plan_type'' plan (au_attrs a)\<rparr>)
      else a)"

definition auth_from_row :: "vendor_kit \<Rightarrow> credential_row \<Rightarrow> string \<Rightarrow> auth result" where
  "auth_from_row vk row plain =
     (case vk_unmarshal vk plain of
        None \<Rightarrow> Inl (EForeign ''the stored credential is not JSON'')
      | Some kvs \<Rightarrow>
          (let m = vk_normalize vk (Some kvs) in
           case vk_weight vk (bare_auth m) of
             Some msg \<Rightarrow> Inl (EForeign msg)
           | None \<Rightarrow>
               (let a = apply_account_priority (vk_apply_headers vk (with_vendor_attributes vk (loaded_auth row m))) in
                Inr (if is_compat_account a then apply_compat_attributes vk a else a))))"

section \<open>The store\<close>

definition forget_digest :: "string \<Rightarrow> 'u site \<Rightarrow> 'u site" where
  "forget_digest key s = s\<lparr>si_digests := AList.delete key (si_digests s)\<rparr>"

definition write_row :: "bool \<Rightarrow> credential_row \<Rightarrow> ('u site, unit) act" where
  "write_row creating row = (if creating then creds_upsert row else creds_update row)"

definition write_credential :: "aead \<Rightarrow> bool \<Rightarrow> string \<Rightarrow> string \<Rightarrow> string \<Rightarrow> ('u site, bool) act" where
  "write_credential ae creating key prov plain =
     abnd (aput (forget_digest key)) (\<lambda>_.
     abnd (sealer_seal ae key plain) (\<lambda>sealed.
     abnd (on_world now_io) (\<lambda>now.
     abnd (atry (write_row creating \<lparr>cr_id = key, cr_provider = prov, cr_sealed = sealed, cr_created = now, cr_updated = now\<rparr>)) (\<lambda>r.
     case r of
       Inl x \<Rightarrow> if \<not> creating \<and> x = ENotFound then aret False else araise x
     | Inr _ \<Rightarrow>
         abnd (aasks (\<lambda>e. sha256_hex e plain)) (\<lambda>digest.
         abnd (aput (\<lambda>s. s\<lparr>si_digests := AList.update key digest (si_digests s)\<rparr>)) (\<lambda>_.
         aret True))))))"

text \<open>What \<open>Save\<close> is about to write: the account with its metadata as saved, and the credential as text.\<close>

definition prepare_save :: "vendor_kit \<Rightarrow> auth \<Rightarrow> (auth \<times> metadata option \<times> string) result" where
  "prepare_save vk a =
     (let a = a\<lparr>au_meta := vk_normalize vk (au_meta a)\<rparr> in
      case vk_weight vk a of
        Some msg \<Rightarrow> Inl (EForeign msg)
      | None \<Rightarrow>
          (let a = a\<lparr>au_meta := put_meta meta_disabled (JBool (au_disabled a)) (au_meta a)\<rparr> in
           case credential_fields a of
             Inl x \<Rightarrow> Inl x
           | Inr fs \<Rightarrow> (case canonical_json vk fs of Inl x \<Rightarrow> Inl x | Inr plain \<Rightarrow> Inr (a, fs, plain))))"

definition store_save :: "vendor_kit \<Rightarrow> aead \<Rightarrow> bool \<Rightarrow> auth \<Rightarrow> ('u site, string \<times> auth) act" where
  "store_save vk ae creating a =
     (let key = credential_key a in
      if key = [] then araise (EGateway NoCredentialKey)
      else case prepare_save vk a of
        Inl x \<Rightarrow> araise x
      | Inr (a, fs, plain) \<Rightarrow>
          abnd (aasks (\<lambda>e. sha256_hex e plain)) (\<lambda>digest.
          abnd (aget (\<lambda>s. map_of (si_digests s) key = Some digest)) (\<lambda>same.
          if same \<and> \<not> creating then aret (key, stamp_credential key a)
          else
            abnd (write_credential ae creating key (credential_provider fs (au_provider a)) plain) (\<lambda>written.
            aret (if written then (key, stamp_credential key a) else ([], a))))))"

definition store_delete :: "string \<Rightarrow> ('u site, unit) act" where
  "store_delete i = abnd (aput (forget_digest i)) (\<lambda>_. creds_delete i)"

definition open_row :: "vendor_kit \<Rightarrow> aead \<Rightarrow> credential_row \<Rightarrow> ((string \<times> string) \<times> auth) result" where
  "open_row vk ae row = (case sealer_open ae (cr_id row) (cr_sealed row) of
     Inl x \<Rightarrow> Inl x
   | Inr plain \<Rightarrow> (case auth_from_row vk row plain of Inl x \<Rightarrow> Inl x | Inr a \<Rightarrow> Inr ((cr_id row, plain), a)))"

definition store_list :: "vendor_kit \<Rightarrow> aead \<Rightarrow> ('u site, auth list) act" where
  "store_list vk ae =
     abnd creds_list (\<lambda>rows.
     case collect (open_row vk ae) rows of
       Inl x \<Rightarrow> araise x
     | Inr read_back \<Rightarrow>
         abnd (aasks (\<lambda>e. map (\<lambda>((i, plain), a). (i, sha256_hex e plain)) read_back)) (\<lambda>ds.
         abnd (aput (\<lambda>s. s\<lparr>si_digests := ds\<rparr>)) (\<lambda>_.
         aret (map snd read_back))))"

section \<open>The cipher, and JSON\<close>

text \<open>What a cipher sealed opens under the same nonce and label, and is no shorter than its tag; what JSON writes of valid text reads back, up to the
  order of the keys.\<close>

definition cipher_opens :: "aead \<Rightarrow> bool" where
  "cipher_opens ae \<longleftrightarrow> (\<forall>nonce plain i. ae_open ae nonce (ae_seal ae nonce plain i) i = Some plain \<and> ae_overhead ae \<le> length (ae_seal ae nonce plain i))"

lemma open_sealed:
  assumes "cipher_opens ae" "length nonce = ae_nonce ae"
  shows "sealer_open ae i (seal_version # nonce @ ae_seal ae nonce plain i) = Inr plain"
proof -
  have "ae_open ae nonce (ae_seal ae nonce plain i) i = Some plain" "ae_overhead ae \<le> length (ae_seal ae nonce plain i)"
    using assms(1) by (simp_all add: cipher_opens_def)
  then show ?thesis using assms(2) by (simp add: sealer_open_def Let_def)
qed

lemma awp_sealer_seal:
  assumes "cipher_opens ae"
    "\<And>x w. Q (Inl x) (s\<lparr>si_world := w\<rparr>)"
    "\<And>sealed w. sealer_open ae i sealed = Inr plain \<Longrightarrow> Q (Inr sealed) (s\<lparr>si_world := w\<rparr>)"
  shows "awp (sealer_seal ae i plain) e s Q"
proof (cases "max_sealed_plaintext < length plain")
  case True
  then show ?thesis using assms(2) [of EPlaintextTooLarge "si_world s"] by (simp add: sealer_seal_def awp_simps)
next
  case False
  then show ?thesis unfolding sealer_seal_def
    by (auto simp: awp_simps wp_simps Let_def intro!: assms(2,3) open_sealed [OF assms(1)])
qed

section \<open>What the memory knows of the rows\<close>

definition digest_true :: "env \<Rightarrow> aead \<Rightarrow> credential_row list \<Rightarrow> string \<Rightarrow> string \<Rightarrow> bool" where
  "digest_true e ae rows key d \<longleftrightarrow> (\<exists>row \<in> set rows. cr_id row = key)
     \<and> (\<forall>row \<in> set rows. cr_id row = key \<longrightarrow> (\<exists>plain. sealer_open ae key (cr_sealed row) = Inr plain \<and> sha256_hex e plain = d))"

text \<open>Every digest held is of what the row holds, and no two rows have one id.\<close>

definition digests_true :: "env \<Rightarrow> aead \<Rightarrow> 'u site \<Rightarrow> bool" where
  "digests_true e ae s \<longleftrightarrow> distinct (map cr_id (si_creds s))
     \<and> (\<forall>key d. map_of (si_digests s) key = Some d \<longrightarrow> digest_true e ae (si_creds s) key d)"

definition row_ids :: "'u site \<Rightarrow> string set" where
  "row_ids s = cr_id ` set (si_creds s)"

text \<open>What writing one row leaves alone.\<close>

definition rest_kept :: "string \<Rightarrow> 'u site \<Rightarrow> 'u site \<Rightarrow> bool" where
  "rest_kept key s s' \<longleftrightarrow> filter (\<lambda>row. cr_id row \<noteq> key) (si_creds s') = filter (\<lambda>row. cr_id row \<noteq> key) (si_creds s)"

lemma map_overwrite_filter:
  "cr_id row = key \<Longrightarrow> filter (\<lambda>row. cr_id row \<noteq> key) (map (\<lambda>old. if cr_id old = key then overwrite_row row old else old) rows)
     = filter (\<lambda>row. cr_id row \<noteq> key) rows"
  by (induction rows) (auto simp: overwrite_row_def)

lemma map_overwrite_ids:
  "cr_id row = key \<Longrightarrow> map cr_id (map (\<lambda>old. if cr_id old = key then overwrite_row row old else old) rows) = map cr_id rows"
  by (induction rows) (auto simp: overwrite_row_def)

text \<open>The table after a write of \<open>row\<close>.\<close>

definition rows_written :: "bool \<Rightarrow> credential_row \<Rightarrow> 'u site \<Rightarrow> 'u site \<Rightarrow> bool" where
  "rows_written creating row s s' \<longleftrightarrow> rest_kept (cr_id row) s s'
     \<and> (\<exists>new \<in> set (si_creds s'). cr_id new = cr_id row)
     \<and> (\<forall>new \<in> set (si_creds s'). cr_id new = cr_id row \<longrightarrow> cr_sealed new = cr_sealed row)
     \<and> (distinct (map cr_id (si_creds s)) \<longrightarrow> distinct (map cr_id (si_creds s')))
     \<and> (creating \<or> cr_id row \<in> row_ids s)"

lemma rest_ids:
  fixes s s' :: "'u site"
  assumes "rest_kept key s s'" "i \<noteq> key"
  shows "i \<in> row_ids s' \<longleftrightarrow> i \<in> row_ids s"
proof -
  have "i \<in> row_ids t \<longleftrightarrow> i \<in> cr_id ` set (filter (\<lambda>row. cr_id row \<noteq> key) (si_creds t))" for t :: "'u site"
    using assms(2) by (auto simp: row_ids_def)
  then show ?thesis using assms(1) by (simp only: rest_kept_def)
qed

lemma written_id: "rows_written creating row s s' \<Longrightarrow> cr_id row \<in> row_ids s'"
  unfolding rows_written_def row_ids_def by (metis image_eqI)

text \<open>What the store never touches.\<close>

definition store_frame :: "'u site \<Rightarrow> 'u site \<Rightarrow> bool" where
  "store_frame s s' \<longleftrightarrow> si_doc s' = si_doc s \<and> si_current s' = si_current s \<and> si_captured s' = si_captured s \<and> si_returned s' = si_returned s
     \<and> si_static s' = si_static s \<and> si_derived s' = si_derived s \<and> si_up s' = si_up s"

lemma awp_write_row:
  assumes "\<And>x w. (x = ENotFound \<Longrightarrow> \<not> creating \<and> cr_id row \<notin> row_ids s) \<Longrightarrow> Q (Inl x) (s\<lparr>si_world := w\<rparr>)"
    "\<And>rows w. rows_written creating row s (s\<lparr>si_creds := rows\<rparr>) \<Longrightarrow> Q (Inr ()) (s\<lparr>si_world := w, si_creds := rows\<rparr>)"
  shows "awp (write_row creating row) e s Q"
proof -
  let ?rows = "map (\<lambda>old. if cr_id old = cr_id row then overwrite_row row old else old) (si_creds s)"
  have over: "rows_written creating row s (s\<lparr>si_creds := ?rows\<rparr>)" if "\<exists>old \<in> set (si_creds s). cr_id old = cr_id row"
  proof -
    have ids: "map cr_id ?rows = map cr_id (si_creds s)" by (rule map_overwrite_ids) simp
    have kept: "filter (\<lambda>r. cr_id r \<noteq> cr_id row) ?rows = filter (\<lambda>r. cr_id r \<noteq> cr_id row) (si_creds s)"
      by (rule map_overwrite_filter) simp
    have new: "\<exists>new \<in> set ?rows. cr_id new = cr_id row"
    proof -
      have "cr_id row \<in> cr_id ` set ?rows" using that arg_cong [OF ids, of set] by (metis image_eqI list.set_map)
      then show ?thesis by force
    qed
    have sealed: "\<forall>new \<in> set ?rows. cr_id new = cr_id row \<longrightarrow> cr_sealed new = cr_sealed row"
      by (auto simp: overwrite_row_def)
    have held: "cr_id row \<in> cr_id ` set (si_creds s)" using that by (metis image_eqI)
    show ?thesis
      unfolding rows_written_def rest_kept_def row_ids_def using ids kept new sealed held
      by (intro conjI) (auto simp del: set_map map_map set_filter)
  qed
  have add: "rows_written True row s (s\<lparr>si_creds := si_creds s @ [row]\<rparr>)" if "\<not> (\<exists>old \<in> set (si_creds s). cr_id old = cr_id row)"
    using that unfolding rows_written_def rest_kept_def by auto
  have failing: "Q (Inl EFault) (s\<lparr>si_world := w\<rparr>)" for w by (rule assms(1)) simp
  show ?thesis
  proof (cases "\<exists>old \<in> set (si_creds s). cr_id old = cr_id row")
    case True
    then show ?thesis using assms(2) [OF over [OF True]] failing
      by (simp add: write_row_def creds_upsert_def creds_update_def awp_simps Let_def)
  next
    case False
    then have none: "cr_id row \<notin> row_ids s" by (auto simp: row_ids_def)
    have missing: "Q (Inl ENotFound) (s\<lparr>si_world := w\<rparr>)" if "\<not> creating" for w using that none assms(1) by blast
    show ?thesis
    proof (cases creating)
      case True
      show ?thesis using assms(2) add [OF False] False True failing
        by (simp add: write_row_def creds_upsert_def awp_simps Let_def)
    next
      case notc: False
      show ?thesis using False notc failing missing
        by (simp add: write_row_def creds_update_def awp_simps Let_def)
    qed
  qed
qed

definition sealed_as :: "aead \<Rightarrow> string \<Rightarrow> string \<Rightarrow> 'u site \<Rightarrow> bool" where
  "sealed_as ae key plain s \<longleftrightarrow> key \<in> row_ids s \<and> (\<forall>row \<in> set (si_creds s). cr_id row = key \<longrightarrow> sealer_open ae key (cr_sealed row) = Inr plain)"

text \<open>A write of a credential, whatever comes of it.\<close>

definition credential_written :: "env \<Rightarrow> aead \<Rightarrow> bool \<Rightarrow> string \<Rightarrow> string \<Rightarrow> 'u site \<Rightarrow> bool result \<Rightarrow> 'u site \<Rightarrow> bool" where
  "credential_written e ae creating key plain s r s' \<longleftrightarrow>
     rest_kept key s s' \<and> (digests_true e ae s \<longrightarrow> digests_true e ae s') \<and> (\<not> creating \<longrightarrow> row_ids s' = row_ids s)
     \<and> (\<forall>b. r = Inr b \<longrightarrow> (if b then sealed_as ae key plain s' else \<not> creating \<and> si_creds s' = si_creds s \<and> key \<notin> row_ids s'))
     \<and> store_frame s s'"

lemma digest_true_other:
  assumes "rest_kept key s s'" "key' \<noteq> key" "digest_true e ae (si_creds s) key' d"
  shows "digest_true e ae (si_creds s') key' d"
proof -
  have "row \<in> set (si_creds s') \<and> cr_id row = key' \<longleftrightarrow> row \<in> set (si_creds s) \<and> cr_id row = key'" for row
    using arg_cong [OF assms(1) [unfolded rest_kept_def], of set] assms(2) by (auto simp: set_eq_iff)
  then show ?thesis using assms(3) unfolding digest_true_def by metis
qed

lemma digests_true_forget: "digests_true e ae s \<Longrightarrow> digests_true e ae (forget_digest key s)"
  by (auto simp: digests_true_def forget_digest_def delete_conv' split: if_splits)

lemma digests_true_write:
  assumes "digests_true e ae s" "rows_written creating row s (s\<lparr>si_creds := rows\<rparr>)" "sealer_open ae (cr_id row) (cr_sealed row) = Inr plain"
  shows "digests_true e ae (s\<lparr>si_world := w, si_creds := rows, si_digests := AList.update (cr_id row) (sha256_hex e plain) (AList.delete (cr_id row) (si_digests s))\<rparr>)"
proof -
  have here: "digest_true e ae rows (cr_id row) (sha256_hex e plain)"
    using assms(2,3) by (auto simp: digest_true_def rows_written_def)
  have other: "digest_true e ae rows key d" if "key \<noteq> cr_id row" "map_of (si_digests s) key = Some d" for key d
    using digest_true_other [of "cr_id row" s "s\<lparr>si_creds := rows\<rparr>"] assms(1,2) that by (auto simp: rows_written_def digests_true_def)
  show ?thesis
    using here other assms(1,2) by (auto simp: digests_true_def rows_written_def update_conv' delete_conv')
qed

lemma awp_write_credential:
  assumes "cipher_opens ae"
  shows "awp (write_credential ae creating key prov plain) e s (credential_written e ae creating key plain s)"
proof -
  let ?t = "forget_digest key s"
  have t: "digests_true e ae s \<Longrightarrow> digests_true e ae (?t\<lparr>si_world := w\<rparr>)" for w
    using digests_true_forget [of e ae s key] by (simp add: digests_true_def)
  have same: "si_creds ?t = si_creds s" "row_ids (?t\<lparr>si_world := w\<rparr>) = row_ids s" for w
    by (simp_all add: forget_digest_def row_ids_def)
  have failed: "credential_written e ae creating key plain s (Inl x) (?t\<lparr>si_world := w\<rparr>)" for x w
    using t by (auto simp: credential_written_def rest_kept_def same) (simp_all add: forget_digest_def store_frame_def)
  have gone: "credential_written e ae False key plain s (Inr False) (?t\<lparr>si_world := w\<rparr>)" if "key \<notin> row_ids s" for w
    using t that by (auto simp: credential_written_def rest_kept_def same) (simp_all add: forget_digest_def store_frame_def)
  have kept: "credential_written e ae creating key plain s (Inr True)
      (s\<lparr>si_world := w, si_creds := rows, si_digests := AList.update key (sha256_hex e plain) (AList.delete key (si_digests s))\<rparr>)"
    if row: "rows_written creating row s (s\<lparr>si_creds := rows\<rparr>)" "cr_id row = key" "sealer_open ae key (cr_sealed row) = Inr plain" for rows row w
  proof -
    have "row_ids (s\<lparr>si_creds := rows\<rparr>) = row_ids s" if "\<not> creating"
    proof -
      have "key' \<in> row_ids (s\<lparr>si_creds := rows\<rparr>) \<longleftrightarrow> key' \<in> row_ids s" for key'
        using rest_ids [of key s "s\<lparr>si_creds := rows\<rparr>" key'] written_id [OF row(1)] row(1,2) that
        by (cases "key' = key") (auto simp: rows_written_def)
      then show ?thesis by blast
    qed
    then show ?thesis
      using digests_true_write [OF _ row(1), of e ae plain] row
        written_id [OF row(1)]
      by (auto simp: credential_written_def rows_written_def rest_kept_def row_ids_def sealed_as_def store_frame_def)
  qed
  show ?thesis
    unfolding write_credential_def awp_steps
  proof (rule awp_bind [where P = "\<lambda>r s'. \<exists>w. s' = ?t\<lparr>si_world := w\<rparr> \<and> (\<forall>sealed. r = Inr sealed \<longrightarrow> sealer_open ae key sealed = Inr plain)"])
    show "awp (sealer_seal ae key plain) e ?t (\<lambda>r s'. \<exists>w. s' = ?t\<lparr>si_world := w\<rparr> \<and> (\<forall>sealed. r = Inr sealed \<longrightarrow> sealer_open ae key sealed = Inr plain))"
      by (rule awp_sealer_seal [OF assms]) auto
  next
    fix x :: err and s' :: "'a site"
    assume "\<exists>w. s' = ?t\<lparr>si_world := w\<rparr> \<and> (\<forall>sealed. Inl x = Inr sealed \<longrightarrow> sealer_open ae key sealed = Inr plain)"
    then show "credential_written e ae creating key plain s (Inl x) s'" using failed by auto
  next
    fix sealed :: string and s' :: "'a site"
    assume "\<exists>w. s' = ?t\<lparr>si_world := w\<rparr> \<and> (\<forall>sealed'. Inr sealed = Inr sealed' \<longrightarrow> sealer_open ae key sealed' = Inr plain)"
    then obtain w where s': "s' = ?t\<lparr>si_world := w\<rparr>" and opens: "sealer_open ae key sealed = Inr plain" by auto
    show "awp (abnd (on_world now_io) (\<lambda>now. abnd (atry (write_row creating
        \<lparr>cr_id = key, cr_provider = prov, cr_sealed = sealed, cr_created = now, cr_updated = now\<rparr>)) (\<lambda>r.
        case r of Inl x \<Rightarrow> if \<not> creating \<and> x = ENotFound then aret False else araise x
        | Inr _ \<Rightarrow> abnd (aasks (\<lambda>e. sha256_hex e plain)) (\<lambda>digest. abnd (aput (\<lambda>s. s\<lparr>si_digests := AList.update key digest (si_digests s)\<rparr>)) (\<lambda>_.
          aret True))))) e s' (credential_written e ae creating key plain s)"
      unfolding awp_abnd awp_on_world awp_atry wp_now sum.case
    proof (rule awp_write_row)
      fix x w'
      let ?u = "s'\<lparr>si_world := tick (si_world s')\<rparr>"
      let ?row = "\<lparr>cr_id = key, cr_provider = prov, cr_sealed = sealed, cr_created = clock e (w_tick (si_world s')), cr_updated = clock e (w_tick (si_world s'))\<rparr>"
      assume x: "x = ENotFound \<Longrightarrow> \<not> creating \<and> cr_id ?row \<notin> row_ids ?u"
      have "key \<notin> row_ids s" if "x = ENotFound" using x [OF that] by (simp add: s' same row_ids_def forget_digest_def)
      then show "awp (case Inl x of Inl x \<Rightarrow> if \<not> creating \<and> x = ENotFound then aret False else araise x
          | Inr _ \<Rightarrow> abnd (aasks (\<lambda>e. sha256_hex e plain)) (\<lambda>digest. abnd (aput (\<lambda>s. s\<lparr>si_digests := AList.update key digest (si_digests s)\<rparr>)) (\<lambda>_.
            aret True))) e (?u\<lparr>si_world := w'\<rparr>) (credential_written e ae creating key plain s)"
        using failed [of x w'] gone [of w'] by (auto simp: s' awp_simps)
    next
      fix rows w'
      let ?u = "s'\<lparr>si_world := tick (si_world s')\<rparr>"
      let ?row = "\<lparr>cr_id = key, cr_provider = prov, cr_sealed = sealed, cr_created = clock e (w_tick (si_world s')), cr_updated = clock e (w_tick (si_world s'))\<rparr>"
      assume "rows_written creating ?row ?u (?u\<lparr>si_creds := rows\<rparr>)"
      then have "rows_written creating ?row s (s\<lparr>si_creds := rows\<rparr>)"
        by (simp add: rows_written_def rest_kept_def row_ids_def s' forget_digest_def)
      from kept [OF this _, of w'] opens
      show "awp (case Inr () of Inl x \<Rightarrow> if \<not> creating \<and> x = ENotFound then aret False else araise x
          | Inr _ \<Rightarrow> abnd (aasks (\<lambda>e. sha256_hex e plain)) (\<lambda>digest. abnd (aput (\<lambda>s. s\<lparr>si_digests := AList.update key digest (si_digests s)\<rparr>)) (\<lambda>_.
            aret True))) e (?u\<lparr>si_world := w', si_creds := rows\<rparr>) (credential_written e ae creating key plain s)"
        by (simp add: s' awp_simps forget_digest_def)
    qed
  qed
qed

section \<open>The operations\<close>

text \<open>The row of an account opens to a credential of the same digest as the one saved: no other, unless two collide.\<close>

definition holds_credential :: "env \<Rightarrow> aead \<Rightarrow> string \<Rightarrow> string \<Rightarrow> 'u site \<Rightarrow> bool" where
  "holds_credential e ae key plain s \<longleftrightarrow> key \<in> row_ids s
     \<and> (\<forall>row \<in> set (si_creds s). cr_id row = key \<longrightarrow> (\<exists>plain'. sealer_open ae key (cr_sealed row) = Inr plain' \<and> sha256_hex e plain' = sha256_hex e plain))"

definition credential_saved ::
  "env \<Rightarrow> vendor_kit \<Rightarrow> aead \<Rightarrow> bool \<Rightarrow> auth \<Rightarrow> 'u site \<Rightarrow> (string \<times> auth) result \<Rightarrow> 'u site \<Rightarrow> bool" where
  "credential_saved e vk ae creating a s r s' \<longleftrightarrow>
     rest_kept (credential_key a) s s' \<and> (digests_true e ae s \<longrightarrow> digests_true e ae s') \<and> (\<not> creating \<longrightarrow> row_ids s' = row_ids s) \<and> store_frame s s'
     \<and> (\<forall>k a'. r = Inr (k, a') \<longrightarrow> (\<exists>b fs plain. prepare_save vk a = Inr (b, fs, plain)
          \<and> (if k = [] then \<not> creating \<and> a' = b \<and> si_creds s' = si_creds s \<and> credential_key a \<notin> row_ids s'
             else k = credential_key a \<and> a' = stamp_credential k b
               \<and> (creating \<longrightarrow> sealed_as ae k plain s') \<and> (digests_true e ae s \<longrightarrow> holds_credential e ae k plain s'))))"

lemma sealed_holds: "sealed_as ae key plain s \<Longrightarrow> holds_credential e ae key plain s"
  by (auto simp: sealed_as_def holds_credential_def)

lemma digest_holds: "digest_true e ae (si_creds s) key (sha256_hex e plain) \<Longrightarrow> holds_credential e ae key plain s"
  by (auto simp: digest_true_def holds_credential_def row_ids_def)

lemma store_frame_refl: "store_frame s s"
  by (simp add: store_frame_def)

lemma awp_store_save:
  assumes "cipher_opens ae"
  shows "awp (store_save vk ae creating a) e s (credential_saved e vk ae creating a s)"
proof -
  let ?key = "credential_key a"
  have failed: "credential_saved e vk ae creating a s (Inl x) s" for x
    by (simp add: credential_saved_def rest_kept_def store_frame_refl)
  show ?thesis
  proof (cases "?key = [] \<or> (\<exists>x. prepare_save vk a = Inl x)")
    case True
    then show ?thesis using failed by (auto simp: store_save_def Let_def awp_simps)
  next
    case False
    then obtain b fs plain where prep: "prepare_save vk a = Inr (b, fs, plain)" and key: "?key \<noteq> []" by (cases "prepare_save vk a") auto
    have skipped: "credential_saved e vk ae creating a s (Inr (?key, stamp_credential ?key b)) s"
      if "map_of (si_digests s) ?key = Some (sha256_hex e plain)" "\<not> creating"
      using that key prep
      by (auto simp: credential_saved_def rest_kept_def store_frame_refl digests_true_def intro!: digest_holds)
    have done_with: "case r of Inl x \<Rightarrow> credential_saved e vk ae creating a s (Inl x) s'
        | Inr written \<Rightarrow> credential_saved e vk ae creating a s (Inr (if written then (?key, stamp_credential ?key b) else ([], b))) s'"
      if w: "credential_written e ae creating ?key plain s r s'" for r s'
      using w key prep by (cases r) (auto simp: credential_written_def credential_saved_def intro: sealed_holds)
    have "awp (abnd (write_credential ae creating ?key (credential_provider fs (au_provider b)) plain)
        (\<lambda>written. aret (if written then (?key, stamp_credential ?key b) else ([], b)))) e s (credential_saved e vk ae creating a s)"
      unfolding awp_abnd awp_aret by (rule awp_mono [OF awp_write_credential [OF assms] done_with])
    then show ?thesis
      using key skipped by (simp add: store_save_def Let_def prep awp_if awp_steps awp_aret)
  qed
qed

lemma awp_store_delete:
  "awp (store_delete i) e s (\<lambda>r s'. rest_kept i s s' \<and> (digests_true e ae s \<longrightarrow> digests_true e ae s') \<and> store_frame s s'
     \<and> row_ids s' \<subseteq> row_ids s \<and> (r = Inr () \<longrightarrow> i \<notin> row_ids s'))"
proof -
  let ?t = "forget_digest i s"
  have gone: "digests_true e ae (?t\<lparr>si_world := w, si_creds := filter (\<lambda>row. cr_id row \<noteq> i) (si_creds s)\<rparr>)" if "digests_true e ae s" for w
  proof -
    let ?u = "s\<lparr>si_creds := filter (\<lambda>row. cr_id row \<noteq> i) (si_creds s)\<rparr>"
    have "rest_kept i s ?u" by (simp add: rest_kept_def)
    from digest_true_other [OF this] that show ?thesis
      by (auto simp: digests_true_def forget_digest_def delete_conv' distinct_map_filter split: if_splits)
  qed
  have stays: "digests_true e ae (?t\<lparr>si_world := w\<rparr>)" if "digests_true e ae s" for w
    using digests_true_forget [OF that, of i] by (simp add: digests_true_def)
  show ?thesis
    unfolding store_delete_def creds_delete_def awp_steps
    using gone stays
    by (auto simp: awp_simps Let_def rest_kept_def store_frame_def row_ids_def) (simp_all add: forget_digest_def)
qed

lemma collect_Cons:
  "collect f (x # xs) = Inr ys \<longleftrightarrow> (\<exists>z zs. f x = Inr z \<and> collect f xs = Inr zs \<and> ys = z # zs)"
  by (auto split: sum.splits)

lemma collect_each: "collect f xs = Inr ys \<Longrightarrow> x \<in> set xs \<Longrightarrow> \<exists>y \<in> set ys. f x = Inr y"
  by (induction xs arbitrary: ys) (auto simp: collect_Cons simp del: collect.simps(2))

lemma collect_from: "collect f xs = Inr ys \<Longrightarrow> y \<in> set ys \<Longrightarrow> \<exists>x \<in> set xs. f x = Inr y"
  by (induction xs arbitrary: ys) (auto simp: collect_Cons simp del: collect.simps(2))

lemma open_row_Inr:
  "open_row vk ae row = Inr ((i, plain), a) \<longleftrightarrow>
     i = cr_id row \<and> sealer_open ae (cr_id row) (cr_sealed row) = Inr plain \<and> auth_from_row vk row plain = Inr a"
  by (auto simp: open_row_def split: sum.splits)

text \<open>A listing: the rows untouched; every row read back, and the memory knows them all.\<close>

definition listed_rows :: "vendor_kit \<Rightarrow> aead \<Rightarrow> 'u site \<Rightarrow> auth list \<Rightarrow> bool" where
  "listed_rows vk ae s as \<longleftrightarrow>
     (\<forall>row \<in> set (si_creds s). \<exists>plain. sealer_open ae (cr_id row) (cr_sealed row) = Inr plain \<and> (\<exists>a \<in> set as. auth_from_row vk row plain = Inr a))
     \<and> (\<forall>a \<in> set as. \<exists>row \<in> set (si_creds s). \<exists>plain. sealer_open ae (cr_id row) (cr_sealed row) = Inr plain \<and> auth_from_row vk row plain = Inr a)"

lemma awp_store_list:
  "awp (store_list vk ae) e s (\<lambda>r s'. si_creds s' = si_creds s \<and> (digests_true e ae s \<longrightarrow> digests_true e ae s') \<and> store_frame s s'
     \<and> (\<forall>as. r = Inr as \<longrightarrow> listed_rows vk ae s as))"
proof -
  let ?rows = "sort_key cr_id (si_creds s)"
  have same: "set ?rows = set (si_creds s)" "store_frame s (s\<lparr>si_world := w\<rparr>)" "store_frame s (s\<lparr>si_world := w, si_digests := ds\<rparr>)" for w ds
    by (simp_all add: store_frame_def)
  have kept: "digests_true e ae (s\<lparr>si_world := w\<rparr>)" if "digests_true e ae s" for w
    using that by (simp add: digests_true_def)
  have known: "digests_true e ae (s\<lparr>si_world := w, si_digests := map (\<lambda>((i, plain), a). (i, sha256_hex e plain)) ys\<rparr>)"
    if ok: "collect (open_row vk ae) ?rows = Inr ys" "digests_true e ae s" for w ys
  proof -
    have one: "r = row" if "row \<in> set (si_creds s)" "r \<in> set (si_creds s)" "cr_id r = cr_id row" for r row
      using ok(2) that by (auto simp: digests_true_def distinct_map inj_on_def)
    have "digest_true e ae (si_creds s) key d"
      if h: "map_of (map (\<lambda>((i, plain), a). (i, sha256_hex e plain)) ys) key = Some d" for key d
    proof -
      obtain plain a where y: "((key, plain), a) \<in> set ys" and d: "d = sha256_hex e plain" using map_of_SomeD [OF h] by auto
      obtain row where "row \<in> set (si_creds s)" "cr_id row = key" "sealer_open ae key (cr_sealed row) = Inr plain"
        using collect_from [OF ok(1) y] by (auto simp: open_row_Inr)
      then show ?thesis using one unfolding digest_true_def d by metis
    qed
    then show ?thesis using ok(2) by (simp add: digests_true_def)
  qed
  have all: "listed_rows vk ae s (map snd ys)" if ok: "collect (open_row vk ae) ?rows = Inr ys" for ys
  proof -
    have "\<exists>plain. sealer_open ae (cr_id row) (cr_sealed row) = Inr plain \<and> (\<exists>a \<in> set (map snd ys). auth_from_row vk row plain = Inr a)"
      if row: "row \<in> set (si_creds s)" for row
    proof -
      have "row \<in> set ?rows" using row by simp
      from collect_each [OF ok this] obtain i plain a where "((i, plain), a) \<in> set ys" "open_row vk ae row = Inr ((i, plain), a)" by auto
      then show ?thesis by (force simp: open_row_Inr)
    qed
    moreover have "\<exists>row \<in> set (si_creds s). \<exists>plain. sealer_open ae (cr_id row) (cr_sealed row) = Inr plain \<and> auth_from_row vk row plain = Inr a"
      if a: "a \<in> set (map snd ys)" for a
    proof -
      obtain i plain where "((i, plain), a) \<in> set ys" using a by auto
      from collect_from [OF ok this] show ?thesis by (auto simp: open_row_Inr)
    qed
    ultimately show ?thesis unfolding listed_rows_def by blast
  qed
  show ?thesis
    unfolding store_list_def creds_list_def
    using same kept known all by (auto simp: awp_simps Let_def split: sum.split)
qed

section \<open>Any calls\<close>

datatype store_call = SaveCall bool auth | DeleteCall string | ListCall

definition store_step :: "vendor_kit \<Rightarrow> aead \<Rightarrow> env \<Rightarrow> store_call \<Rightarrow> 'u site \<Rightarrow> 'u site" where
  "store_step vk ae e c s = (case c of
     SaveCall creating a \<Rightarrow> snd (store_save vk ae creating a e s)
   | DeleteCall i \<Rightarrow> snd (store_delete i e s)
   | ListCall \<Rightarrow> snd (store_list vk ae e s))"

lemma awp_snd: "awp m e s (\<lambda>r s'. P s') = P (snd (m e s))"
  by (simp add: awp_def split: prod.split)

lemma store_step_true:
  assumes "cipher_opens ae" "digests_true e ae s"
  shows "digests_true e ae (store_step vk ae e c s)"
proof -
  have "awp (store_save vk ae creating a) e s (\<lambda>r s'. digests_true e ae s')" for creating a
    by (rule awp_mono [OF awp_store_save [OF assms(1)]]) (simp add: credential_saved_def assms(2))
  moreover have "awp (store_delete i) e s (\<lambda>r s'. digests_true e ae s')" for i
    by (rule awp_mono [OF awp_store_delete [where ae = ae]]) (simp add: assms(2))
  moreover have "awp (store_list vk ae) e s (\<lambda>r s'. digests_true e ae s')"
    by (rule awp_mono [OF awp_store_list]) (simp add: assms(2))
  ultimately show ?thesis unfolding awp_snd store_step_def by (auto split: store_call.split)
qed

lemma store_steps_true: "cipher_opens ae \<Longrightarrow> digests_true e ae s \<Longrightarrow> digests_true e ae (fold (store_step vk ae e) calls s)"
  by (induction calls arbitrary: s) (auto intro: store_step_true)

lemma store_step_ids:
  assumes "cipher_opens ae" "i \<notin> row_ids s" "\<And>a. c = SaveCall True a \<Longrightarrow> credential_key a \<noteq> i"
  shows "i \<notin> row_ids (store_step vk ae e c s)"
proof -
  have "awp (store_save vk ae creating a) e s (\<lambda>r s'. i \<notin> row_ids s')" if "creating \<longrightarrow> credential_key a \<noteq> i" for creating a
    by (rule awp_mono [OF awp_store_save [OF assms(1)]]) (metis assms(2) that rest_ids credential_saved_def)
  moreover have "awp (store_delete j) e s (\<lambda>r s'. i \<notin> row_ids s')" for j
    by (rule awp_mono [OF awp_store_delete [where ae = ae]]) (use assms(2) in auto)
  moreover have "awp (store_list vk ae) e s (\<lambda>r s'. i \<notin> row_ids s')"
    by (rule awp_mono [OF awp_store_list]) (use assms(2) in \<open>auto simp: row_ids_def\<close>)
  ultimately show ?thesis using assms(3) unfolding awp_snd store_step_def by (auto split: store_call.split)
qed


text \<open>C21: a removed account stays removed. Once its credential is deleted, no later refresh, cooldown or listing brings a row of it back: only a save
  with the intent to create that very account does.\<close>

theorem removed_stays_removed:
  fixes s :: "'u site"
  assumes "cipher_opens ae" "store_delete i e s = (Inr (), t)"
    and "\<And>a. SaveCall True a \<in> set calls \<Longrightarrow> credential_key a \<noteq> i"
  shows "i \<notin> row_ids (fold (store_step vk ae e) calls t)"
proof -
  have "i \<notin> row_ids t" using awp_run [OF awp_store_delete [where ae = ae] assms(2)] by simp
  then show ?thesis using assms(3)
  proof (induction calls arbitrary: t)
    case (Cons c calls)
    have "i \<notin> row_ids (store_step vk ae e c t)" by (rule store_step_ids [OF assms(1)]) (use Cons.prems in auto)
    then show ?case using Cons by simp
  qed simp
qed

section \<open>A credential comes back\<close>

text \<open>JSON writes the fields and reads them back, and what it read it writes so again, as it does of valid text.\<close>

definition reads_back :: "vendor_kit \<Rightarrow> metadata \<Rightarrow> bool" where
  "reads_back vk kvs \<longleftrightarrow> (\<exists>kvs'. vk_unmarshal vk (vk_marshal vk (JObj kvs)) = Some kvs'
     \<and> (\<exists>kvs''. vk_unmarshal vk (vk_marshal vk (JObj kvs')) = Some kvs'' \<and> map_of kvs'' = map_of kvs))"

text \<open>Normalising changes no field of the metadata; the custom headers go to attributes of their own, named \<open>header:\<close> and the header.\<close>

definition normal_form :: "vendor_kit \<Rightarrow> metadata option \<Rightarrow> bool" where
  "normal_form vk m \<longleftrightarrow> (\<forall>m'. (\<lambda>k. meta_field k m') = (\<lambda>k. meta_field k m) \<longrightarrow> (\<lambda>k. meta_field k (vk_normalize vk m')) = (\<lambda>k. meta_field k m))"

definition headers_apart :: "(string \<times> string) list option \<Rightarrow> (string \<times> string) list option \<Rightarrow> bool" where
  "headers_apart m m' \<longleftrightarrow> (\<forall>k. \<not> prefix ''header:'' k \<longrightarrow> attr_of k m' = attr_of k m)"

definition headers_to_attributes :: "vendor_kit \<Rightarrow> bool" where
  "headers_to_attributes vk \<longleftrightarrow> (\<forall>a. \<exists>attrs. vk_apply_headers vk a = a\<lparr>au_attrs := attrs\<rparr> \<and> headers_apart (au_attrs a) attrs)"

text \<open>What the saved fields of an account say of it when it comes back.\<close>

definition vendor_attributes_of :: "vendor_kit \<Rightarrow> metadata option \<Rightarrow> string \<Rightarrow> (string \<times> string) list option \<Rightarrow> bool" where
  "vendor_attributes_of vk fs prov attrs \<longleftrightarrow>
     attr_of meta_priority attrs = (case meta_field meta_priority fs of None \<Rightarrow> None | Some v \<Rightarrow> Some (format_int (priority_from_metadata fs)))
     \<and> attr_of ''email'' attrs = (if text_or_empty ''email'' fs \<noteq> [] then Some (text_or_empty ''email'' fs) else None)
     \<and> attr_of ''plan_type'' attrs = (if prov = codex_key then codex_plan_type vk fs else None)"

definition compat_attributes_of :: "metadata option \<Rightarrow> auth \<Rightarrow> bool" where
  "compat_attributes_of fs b \<longleftrightarrow>
     (let name = text_or_empty meta_compat_name fs; key = text_or_empty meta_api_key fs in
      au_label b = name \<and> au_prefix b = text_or_empty meta_prefix fs
      \<and> attr_of meta_compat_name (au_attrs b) = Some name \<and> attr_of attr_provider_key (au_attrs b) = Some (compat_provider_key name)
      \<and> attr_of meta_base_url (au_attrs b) = Some (text_or_empty meta_base_url fs)
      \<and> attr_of meta_api_key (au_attrs b) = (if key \<noteq> [] then Some key else None))"

definition comes_back :: "vendor_kit \<Rightarrow> string \<Rightarrow> metadata option \<Rightarrow> auth \<Rightarrow> bool" where
  "comes_back vk k fs b \<longleftrightarrow> au_id b = k \<and> au_file b = k \<and> (\<forall>key. meta_field key (au_meta b) = meta_field key fs)
     \<and> au_disabled b = meta_true meta_disabled fs \<and> au_provider b = credential_provider fs ''unknown'' \<and> au_proxy b = trim_space (text_or_empty meta_proxy fs)
     \<and> vendor_attributes_of vk fs (au_provider b) (au_attrs b)
     \<and> (if au_provider b = compat_key \<and> text_or_empty meta_compat_name fs \<noteq> [] then compat_attributes_of fs b
        else au_label b = credential_label fs \<and> au_prefix b = credential_prefix fs)"

lemma put_attr_of: "attr_of k (put_attr key v m) = (if k = key then Some v else attr_of k m)"
  by (auto simp: attr_of_def put_attr_def update_conv' split: option.split)

lemma map_of_filter_keys: "map_of (filter (\<lambda>(k, v). P k) kvs) k = (if P k then map_of kvs k else None)"
  by (induction kvs) auto

lemma drop_headers_of: "\<not> prefix ''header:'' k \<Longrightarrow> attr_of k (drop_headers m) = attr_of k m"
  by (auto simp: attr_of_def drop_headers_def map_of_filter_keys split: option.split)

lemma delete_attr_of: "attr_of k (map_option (AList.delete key) m) = (if k = key then None else attr_of k m)"
  by (auto simp: attr_of_def delete_conv' split: option.split)

lemmas attrs_of = put_attr_of drop_headers_of delete_attr_of

lemmas attr_names = meta_priority_def meta_compat_name_def meta_base_url_def meta_api_key_def attr_provider_key_def attr_source_def attr_backend_def

text \<open>The fields decide it all: nothing else of the metadata is read.\<close>

lemma fields_decide:
  assumes same: "\<And>key. meta_field key m = meta_field key fs"
  shows "text_or_empty n m = text_or_empty n fs" "credential_provider m p = credential_provider fs p" "meta_true n m = meta_true n fs"
    "priority_from_metadata m = priority_from_metadata fs" "credential_label m = credential_label fs" "credential_prefix m = credential_prefix fs"
    "codex_plan_type vk m = codex_plan_type vk fs"
proof -
  have t: "meta_text n m = meta_text n fs" for n by (simp add: meta_text_def same)
  then have e: "text_or_empty n m = text_or_empty n fs" for n by (simp add: text_or_empty_def)
  show "text_or_empty n m = text_or_empty n fs" "credential_provider m p = credential_provider fs p" "meta_true n m = meta_true n fs"
    "priority_from_metadata m = priority_from_metadata fs" "credential_label m = credential_label fs" "credential_prefix m = credential_prefix fs"
    by (simp_all add: t e same credential_provider_def meta_true_def priority_from_metadata_def credential_label_def credential_prefix_def)
  show "codex_plan_type vk m = codex_plan_type vk fs" unfolding codex_plan_type_def Let_def e by (rule refl)
qed

lemma comes_back_same:
  assumes same: "\<And>key. meta_field key m = meta_field key fs" and "comes_back vk k m b"
  shows "comes_back vk k fs b"
proof -
  have eqs: "text_or_empty n m = text_or_empty n fs" "credential_provider m p = credential_provider fs p" "meta_true n m = meta_true n fs"
      "priority_from_metadata m = priority_from_metadata fs" "credential_label m = credential_label fs" "credential_prefix m = credential_prefix fs"
      "codex_plan_type vk m = codex_plan_type vk fs" for n p
    using fields_decide [of m fs, OF same] by blast+
  show ?thesis using assms(2) unfolding comes_back_def vendor_attributes_of_def compat_attributes_of_def eqs same .
qed

lemma compat_comes_back:
  assumes "headers_to_attributes vk" "vendor_attributes_of vk (au_meta a) prov (au_attrs a)"
  shows "\<exists>attrs lab pre. apply_compat_attributes vk a = a\<lparr>au_attrs := attrs, au_label := lab, au_prefix := pre\<rparr>
    \<and> vendor_attributes_of vk (au_meta a) prov attrs \<and> compat_attributes_of (au_meta a) (a\<lparr>au_attrs := attrs, au_label := lab, au_prefix := pre\<rparr>)"
proof -
  define attrs0 where "attrs0 = drop_headers (let attrs = put_attr meta_base_url (text_or_empty meta_base_url (au_meta a))
      (put_attr attr_provider_key (compat_provider_key (text_or_empty meta_compat_name (au_meta a))) (put_attr meta_compat_name (text_or_empty meta_compat_name (au_meta a)) (au_attrs a)))
    in if text_or_empty meta_api_key (au_meta a) \<noteq> [] then put_attr meta_api_key (text_or_empty meta_api_key (au_meta a)) attrs
       else map_option (AList.delete meta_api_key) attrs)"
  obtain attrs where h: "vk_apply_headers vk (a\<lparr>au_attrs := attrs0\<rparr>) = a\<lparr>au_attrs := attrs\<rparr>" "headers_apart attrs0 attrs"
    using assms(1) [unfolded headers_to_attributes_def, THEN spec, of "a\<lparr>au_attrs := attrs0\<rparr>"] by auto
  have at: "attr_of k attrs = attr_of k attrs0" if "\<not> prefix ''header:'' k" for k using h(2) that by (simp add: headers_apart_def)
  have "apply_compat_attributes vk a = a\<lparr>au_attrs := attrs, au_label := text_or_empty meta_compat_name (au_meta a), au_prefix := text_or_empty meta_prefix (au_meta a)\<rparr>"
    using h(1) by (simp add: apply_compat_attributes_def Let_def attrs0_def)
  moreover have "vendor_attributes_of vk (au_meta a) prov attrs"
    using assms(2) by (simp add: vendor_attributes_of_def at attrs0_def attrs_of attr_names Let_def)
  moreover have "compat_attributes_of (au_meta a) (a\<lparr>au_attrs := attrs, au_label := text_or_empty meta_compat_name (au_meta a), au_prefix := text_or_empty meta_prefix (au_meta a)\<rparr>)"
    by (simp add: compat_attributes_of_def at attrs0_def attrs_of attr_names Let_def)
  ultimately show ?thesis by blast
qed

lemma row_comes_back:
  assumes laws: "headers_to_attributes vk" and row: "auth_from_row vk row plain = Inr b" "vk_unmarshal vk plain = Some kvs"
  shows "comes_back vk (cr_id row) (vk_normalize vk (Some kvs)) b"
proof -
  let ?m = "vk_normalize vk (Some kvs)"
  let ?l = "loaded_auth row ?m"
  have l: "au_meta ?l = ?m" "au_provider ?l = credential_provider ?m ''unknown''" "au_attrs ?l = Some [(attr_source, cr_id row), (attr_backend, source_postgres)]"
    by (simp_all add: loaded_auth_def)
  have "with_vendor_attributes vk ?l = ?l\<lparr>au_attrs := au_attrs (with_vendor_attributes vk ?l)\<rparr>"
    by (simp add: with_vendor_attributes_def Let_def l split: option.split)
  moreover have "attr_of meta_priority (au_attrs (with_vendor_attributes vk ?l)) = None
      \<and> attr_of ''email'' (au_attrs (with_vendor_attributes vk ?l)) = (if text_or_empty ''email'' ?m \<noteq> [] then Some (text_or_empty ''email'' ?m) else None)
      \<and> attr_of ''plan_type'' (au_attrs (with_vendor_attributes vk ?l)) = (if au_provider ?l = codex_key then codex_plan_type vk ?m else None)"
    by (auto simp: with_vendor_attributes_def Let_def l put_attr_of attr_names attr_of_def [of _ "Some _"] split: option.split)
  ultimately obtain attrs where v: "with_vendor_attributes vk ?l = ?l\<lparr>au_attrs := attrs\<rparr>" "attr_of meta_priority attrs = None"
      "attr_of ''email'' attrs = (if text_or_empty ''email'' ?m \<noteq> [] then Some (text_or_empty ''email'' ?m) else None)"
      "attr_of ''plan_type'' attrs = (if au_provider ?l = codex_key then codex_plan_type vk ?m else None)" by blast
  obtain attrs' where h: "vk_apply_headers vk (?l\<lparr>au_attrs := attrs\<rparr>) = ?l\<lparr>au_attrs := attrs'\<rparr>" "headers_apart attrs attrs'"
    using laws [unfolded headers_to_attributes_def, THEN spec, of "?l\<lparr>au_attrs := attrs\<rparr>"] by auto
  have at: "attr_of k attrs' = attr_of k attrs" if "\<not> prefix ''header:'' k" for k using h(2) that by (simp add: headers_apart_def)
  obtain attrs'' where p: "apply_account_priority (?l\<lparr>au_attrs := attrs'\<rparr>) = ?l\<lparr>au_attrs := attrs''\<rparr>" "vendor_attributes_of vk ?m (au_provider ?l) attrs''"
    using v(2-4) by (cases "meta_field meta_priority ?m")
      (auto simp: apply_account_priority_def l vendor_attributes_of_def at put_attr_of attr_names)
  let ?a = "?l\<lparr>au_attrs := attrs''\<rparr>"
  have b: "b = (if is_compat_account ?a then apply_compat_attributes vk ?a else ?a)"
    using row by (auto simp: auth_from_row_def Let_def v(1) h(1) p(1) split: option.splits)
  obtain attrs3 lab pre where c: "apply_compat_attributes vk ?a = ?a\<lparr>au_attrs := attrs3, au_label := lab, au_prefix := pre\<rparr>"
      "vendor_attributes_of vk ?m (au_provider ?l) attrs3" "compat_attributes_of ?m (?a\<lparr>au_attrs := attrs3, au_label := lab, au_prefix := pre\<rparr>)"
    using compat_comes_back [OF laws, of ?a "au_provider ?l"] p(2) l(1) by auto
  show ?thesis
  proof (cases "is_compat_account ?a")
    case True
    then show ?thesis using c b by (simp add: comes_back_def is_compat_account_def loaded_auth_def)
  next
    case False
    then have n: "\<not> (credential_provider ?m ''unknown'' = compat_key \<and> text_or_empty meta_compat_name ?m \<noteq> [])"
      by (simp add: is_compat_account_def loaded_auth_def)
    have e: "b = ?a" using b by (simp only: False if_False)
    then have pr: "au_provider b = credential_provider ?m ''unknown''" "au_attrs b = attrs''" by (simp_all add: l(2))
    show ?thesis using p(2) unfolding comes_back_def pr if_not_P [OF n] l(2) by (simp add: e loaded_auth_def)
  qed
qed

text \<open>The fields of an account that are saved: its own metadata with the disabled flag, or what its login's storage makes of it, which carries a token.\<close>

definition saved_fields :: "vendor_kit \<Rightarrow> auth \<Rightarrow> metadata \<Rightarrow> bool" where
  "saved_fields vk a fs \<longleftrightarrow>
     (let m = put_meta meta_disabled (JBool (au_disabled a)) (vk_normalize vk (au_meta a)) in
      case au_storage a of
        None \<Rightarrow> Some fs = m
      | Some st \<Rightarrow> \<exists>tokens. st m = Inr tokens \<and> carries_token tokens
          \<and> Some fs = (case meta_field meta_priority m of None \<Rightarrow> Some tokens | Some p \<Rightarrow> put_meta meta_priority p (Some tokens)))"

lemma prepared_fields: "prepare_save vk a = Inr (b, Some fs, plain) \<Longrightarrow> saved_fields vk a fs \<and> canonical_json vk (Some fs) = Inr plain"
  by (auto simp: prepare_save_def credential_fields_def saved_fields_def Let_def split: option.splits sum.splits if_splits)

text \<open>C22: a credential comes back as it was saved. When a save of an account, a new one or a held one's, is answered with its key, a listing, so a restart, loads an
  account under that key: with every field saved, the tokens of a login's storage among them, disabled as the fields say, with the provider, the proxy, the label and the
  prefix they name, and with the attributes they make: the priority, the address, the plan, and of a compatible provider its name, key, base URL and API key.
  A save skipped as already there counts too, when no other text has the digest of the saved one.\<close>

theorem credential_survives:
  fixes s s2 :: "'u site"
  assumes "cipher_opens ae" "headers_to_attributes vk" "creating \<or> digests_true e ae s \<and> (\<forall>p. sha256_hex e p = sha256_hex e plain \<longrightarrow> p = plain)"
    and saved: "store_save vk ae creating a e s = (Inr (k, a'), s1)" "k \<noteq> []" and listed: "store_list vk ae e s1 = (Inr as, s2)"
    and prep: "prepare_save vk a = Inr (c, Some fs, plain)" and json: "reads_back vk fs" "normal_form vk (Some fs)"
  shows "k = credential_key a \<and> saved_fields vk a fs \<and> (\<exists>b \<in> set as. comes_back vk k (Some fs) b)
    \<and> (au_storage a = None \<longrightarrow> meta_true meta_disabled (Some fs) = au_disabled a)"
proof -
  from awp_run [OF awp_store_save [OF assms(1)] saved(1)] prep saved(2)
  have k: "k = credential_key a" "creating \<longrightarrow> sealed_as ae k plain s1" "digests_true e ae s \<longrightarrow> holds_credential e ae k plain s1"
    by (auto simp: credential_saved_def)
  have row: "sealed_as ae k plain s1"
  proof (cases creating)
    case False
    then have "holds_credential e ae k plain s1" "\<forall>p. sha256_hex e p = sha256_hex e plain \<longrightarrow> p = plain" using k(3) assms(3) by auto
    then show ?thesis by (auto simp: holds_credential_def sealed_as_def)
  qed (use k(2) in simp)
  note fields = prepared_fields [OF prep]
  obtain kvs where back': "vk_unmarshal vk plain = Some kvs" "map_of kvs = map_of fs"
    using json(1) fields by (auto simp: reads_back_def canonical_json_def fields_json_def)
  obtain r where r: "r \<in> set (si_creds s1)" "cr_id r = k" using row by (auto simp: sealed_as_def row_ids_def)
  then have opens: "sealer_open ae (cr_id r) (cr_sealed r) = Inr plain" using row by (auto simp: sealed_as_def)
  have "listed_rows vk ae s1 as" using awp_run [OF awp_store_list listed] by simp
  then obtain b where b: "b \<in> set as" "auth_from_row vk r plain = Inr b"
    using r(1) opens unfolding listed_rows_def by fastforce
  have "(\<lambda>key. meta_field key (Some kvs)) = (\<lambda>key. meta_field key (Some fs))" by (simp add: meta_field_def back'(2))
  then have same: "meta_field key (vk_normalize vk (Some kvs)) = meta_field key (Some fs)" for key
    using json(2) unfolding normal_form_def by metis
  have "comes_back vk k (Some fs) b"
    using comes_back_same [of "vk_normalize vk (Some kvs)" "Some fs", OF same] row_comes_back [OF assms(2) b(2) back'(1)] by (simp add: r(2))
  moreover have "meta_true meta_disabled (Some fs) = au_disabled a" if "au_storage a = None"
    using fields that by (auto simp: saved_fields_def Let_def meta_true_def put_meta_field)
  ultimately show ?thesis using k(1) fields b(1) by blast
qed

section \<open>A store with one account\<close>

definition example_meta :: metadata where
  "example_meta = [(''type'', JStr ''claude''), (''access_token'', JStr ''secret''), (''disabled'', JBool False)]"

definition example_kit :: vendor_kit where
  "example_kit = \<lparr>vk_proxy = (\<lambda>s. if s = [] then Some \<lparr>ps_kind = InheritProxy, ps_raw = [], ps_scheme = [], ps_host = [], ps_user = False\<rparr> else None),
     vk_dialable = (\<lambda>_. False), vk_show_url = (\<lambda>sc h. sc @ ''://'' @ h), vk_url = (\<lambda>_. None), vk_headers = (\<lambda>_. []), vk_apply_headers = (\<lambda>a. a),
     vk_normalize = (\<lambda>m. m), vk_weight = (\<lambda>_. None), vk_marshal = (\<lambda>_. ''json''), vk_unmarshal = (\<lambda>_. Some example_meta),
     vk_time = (\<lambda>_. None), vk_plan = (\<lambda>_. None), vk_config_auth = (\<lambda>_. False), vk_plugin_auth = (\<lambda>_. False)\<rparr>"

definition example_aead :: aead where
  "example_aead = \<lparr>ae_nonce = 0, ae_overhead = 0, ae_seal = (\<lambda>nonce plain i. plain), ae_open = (\<lambda>nonce ct i. Some ct)\<rparr>"

definition example_account :: auth where
  "example_account = (bare_auth (Some example_meta))\<lparr>au_id := ''claude-1'', au_file := ''claude-1'', au_provider := ''claude''\<rparr>"

definition example_site :: "unit site" where
  "example_site = \<lparr>si_world = example_world, si_doc = None, si_creds = [], si_digests = [], si_current = None, si_captured = True, si_returned = False,
     si_static = [], si_derived = [], si_up = ()\<rparr>"

lemma example_cipher: "cipher_opens example_aead"
  by (simp add: cipher_opens_def example_aead_def)

lemma example_headers: "headers_to_attributes example_kit"
proof -
  have "vk_apply_headers example_kit a = a\<lparr>au_attrs := au_attrs a\<rparr> \<and> headers_apart (au_attrs a) (au_attrs a)" for a
    by (simp add: example_kit_def headers_apart_def)
  then show ?thesis unfolding headers_to_attributes_def by (intro allI exI)
qed

lemma example_key: "credential_key example_account = ''claude-1''"
  by (simp add: credential_key_def example_account_def) code_simp

lemma example_prepared:
  "prepare_save example_kit example_account = Inr (example_account, Some example_meta, ''json'')"
  by (simp add: prepare_save_def Let_def example_kit_def example_account_def bare_auth_def credential_fields_def canonical_json_def put_meta_def
      example_meta_def meta_disabled_def)

lemma example_saves:
  "\<exists>s1. store_save example_kit example_aead True example_account example_env example_site
     = (Inr (''claude-1'', stamp_credential ''claude-1'' example_account), s1)
       \<and> map cr_id (si_creds s1) = [''claude-1''] \<and> map cr_sealed (si_creds s1) = [seal_version # ''json'']"
  by (simp add: store_save_def example_key example_prepared Let_def abnd_def aasks_def aget_def write_credential_def aput_def sealer_seal_def aret_def
      max_sealed_plaintext_def on_world_def random_io_def now_io_def atry_def write_row_def creds_upsert_def site_stmt_def example_aead_def
      example_env_def example_site_def example_world_def forget_digest_def)


theorem removed_stays_removed_witness:
  "\<exists>t. store_delete ''claude-1'' example_env example_site = (Inr (), t)
    \<and> ''claude-1'' \<notin> row_ids (fold (store_step example_kit example_aead example_env) [SaveCall False example_account, ListCall] t)"
proof -
  obtain t where run: "store_delete ''claude-1'' example_env example_site = (Inr (), t)"
    by (simp add: store_delete_def creds_delete_def abnd_def aput_def site_stmt_def example_env_def Let_def)
  have "credential_key a \<noteq> ''claude-1''" if "SaveCall True a \<in> set [SaveCall False example_account, ListCall]" for a using that by simp
  from removed_stays_removed [OF example_cipher run this] run show ?thesis by blast
qed

text \<open>A login's account: its tokens are in its storage, its priority in its metadata, and the JSON of the sample writes each field and reads it.\<close>

fun sample_reads :: "string \<Rightarrow> string option \<Rightarrow> string \<Rightarrow> metadata" where
  "sample_reads [] key acc = []"
| "sample_reads (c # cs) None acc = (if c = CHR ''='' then sample_reads cs (Some acc) [] else sample_reads cs None (acc @ [c]))"
| "sample_reads (c # cs) (Some key) acc =
     (if c = CHR '';'' then (key, if acc = ''true'' then JBool True else if acc = ''false'' then JBool False else JStr acc) # sample_reads cs None []
      else sample_reads cs (Some key) (acc @ [c]))"

fun sample_value :: "json \<Rightarrow> string" where
  "sample_value (JStr v) = v"
| "sample_value (JBool b) = (if b then ''true'' else ''false'')"
| "sample_value _ = []"

fun sample_writes :: "json \<Rightarrow> string" where
  "sample_writes (JObj kvs) = concat (map (\<lambda>(k, v). k @ ''='' @ sample_value v @ '';'') kvs)"
| "sample_writes _ = []"

definition sample_kit :: vendor_kit where
  "sample_kit = example_kit\<lparr>vk_marshal := sample_writes, vk_unmarshal := (\<lambda>j. Some (sample_reads j None []))\<rparr>"

definition sample_tokens :: metadata where
  "sample_tokens = [(''type'', JStr ''claude''), (''access_token'', JStr ''secret''), (''disabled'', JBool False)]"

definition sample_fields :: metadata where
  "sample_fields = sample_tokens @ [(''priority'', JStr ''7'')]"

definition sample_account :: auth where
  "sample_account = (bare_auth (Some [(''priority'', JStr ''7'')]))\<lparr>au_id := ''claude-1'', au_file := ''claude-1'', au_provider := ''claude'',
     au_storage := Some (\<lambda>m. Inr sample_tokens)\<rparr>"

lemma sample_json:
  "sample_reads (sample_writes (JObj sample_fields)) None [] = sample_fields"
  by code_simp

lemma sample_reads_back: "reads_back sample_kit sample_fields" "normal_form sample_kit (Some sample_fields)"
  unfolding reads_back_def normal_form_def by (simp_all add: sample_kit_def example_kit_def sample_json del: sample_writes.simps)

lemma sample_prepared:
  "\<exists>c. prepare_save sample_kit sample_account = Inr (c, Some sample_fields, sample_writes (JObj sample_fields)) \<and> credential_key sample_account = ''claude-1''"
proof -
  have tokens: "carries_token sample_tokens" by (simp add: carries_token_def sample_tokens_def) code_simp
  have fs: "put_meta meta_priority (JStr ''7'') (Some sample_tokens) = Some sample_fields" by code_simp
  have p: "meta_field meta_priority (put_meta meta_disabled (JBool False) (Some [(''priority'', JStr ''7'')])) = Some (JStr ''7'')" by code_simp
  have key: "credential_key sample_account = ''claude-1''" by (simp add: credential_key_def sample_account_def) code_simp
  have "vk_marshal sample_kit = sample_writes" "vk_unmarshal sample_kit = (\<lambda>j. Some (sample_reads j None []))"
      "vk_weight sample_kit = (\<lambda>_. None)" "vk_normalize sample_kit = (\<lambda>m. m)" by (simp_all add: sample_kit_def example_kit_def)
  then have "\<exists>c. prepare_save sample_kit sample_account = Inr (c, Some sample_fields, sample_writes (JObj sample_fields))"
    by (simp add: prepare_save_def Let_def credential_fields_def canonical_json_def fields_json_def sample_account_def bare_auth_def tokens fs p sample_json
        del: sample_writes.simps)
  then show ?thesis using key by blast
qed

lemma sample_saves:
  "\<exists>a' s1. store_save sample_kit example_aead True sample_account example_env example_site = (Inr (''claude-1'', a'), s1)
     \<and> map cr_id (si_creds s1) = [''claude-1''] \<and> map cr_sealed (si_creds s1) = [seal_version # sample_writes (JObj sample_fields)]"
proof -
  obtain c where c: "prepare_save sample_kit sample_account = Inr (c, Some sample_fields, sample_writes (JObj sample_fields))"
    and key: "credential_key sample_account = ''claude-1''" using sample_prepared by blast
  have few: "\<not> max_sealed_plaintext < length (sample_writes (JObj sample_fields))" by code_simp
  show ?thesis
    using few by (simp add: store_save_def key c Let_def abnd_def aasks_def aget_def write_credential_def aput_def sealer_seal_def aret_def
      on_world_def random_io_def now_io_def atry_def write_row_def creds_upsert_def site_stmt_def example_aead_def
      example_env_def example_site_def example_world_def forget_digest_def del: sample_writes.simps)
qed

theorem credential_survives_witness:
  "\<exists>a' s1 as s2. store_save sample_kit example_aead True sample_account example_env example_site = (Inr (''claude-1'', a'), s1)
    \<and> store_list sample_kit example_aead example_env s1 = (Inr as, s2)
    \<and> (\<exists>b \<in> set as. au_id b = ''claude-1'' \<and> meta_field ''access_token'' (au_meta b) = Some (JStr ''secret'')
        \<and> attr_of meta_priority (au_attrs b) = Some ''7'')"
proof -
  let ?text = "sample_writes (JObj sample_fields)"
  obtain a' s1 where saved: "store_save sample_kit example_aead True sample_account example_env example_site = (Inr (''claude-1'', a'), s1)"
    and rows: "map cr_id (si_creds s1) = [''claude-1'']" "map cr_sealed (si_creds s1) = [seal_version # ?text]"
    using sample_saves by (elim exE conjE) (rule that)
  obtain c where c: "prepare_save sample_kit sample_account = Inr (c, Some sample_fields, ?text)" using sample_prepared by blast
  obtain row where s1: "si_creds s1 = [row]" "cr_id row = ''claude-1''" "cr_sealed row = seal_version # ?text" using rows by auto
  have opens: "sealer_open example_aead (cr_id row) (cr_sealed row) = Inr ?text"
    by (simp add: s1 sealer_open_def example_aead_def del: sample_writes.simps)
  have "\<exists>b. auth_from_row sample_kit row ?text = Inr b"
    by (simp add: auth_from_row_def sample_kit_def example_kit_def Let_def del: sample_writes.simps)
  then obtain b where b: "auth_from_row sample_kit row ?text = Inr b" by blast
  have "\<exists>as s2. store_list sample_kit example_aead example_env s1 = (Inr as, s2)"
    by (simp add: store_list_def creds_list_def site_stmt_def abnd_def aasks_def aput_def aret_def Let_def example_env_def s1(1) open_row_def opens b
        del: sample_writes.simps)
  then obtain as s2 where listed: "store_list sample_kit example_aead example_env s1 = (Inr as, s2)" by blast
  have headers: "headers_to_attributes sample_kit"
    using example_headers by (simp add: headers_to_attributes_def sample_kit_def)
  have facts: "meta_field ''access_token'' (Some sample_fields) = Some (JStr ''secret'')"
      "(case meta_field meta_priority (Some sample_fields) of None \<Rightarrow> None | Some v \<Rightarrow> Some (format_int (priority_from_metadata (Some sample_fields)))) = Some ''7''"
    by code_simp+
  have "''claude-1'' \<noteq> []" by simp
  from credential_survives [OF example_cipher headers disjI1 [OF TrueI] saved this listed c sample_reads_back]
  obtain b where "b \<in> set as" "comes_back sample_kit ''claude-1'' (Some sample_fields) b" by blast
  then have "au_id b = ''claude-1'' \<and> meta_field ''access_token'' (au_meta b) = Some (JStr ''secret'') \<and> attr_of meta_priority (au_attrs b) = Some ''7''"
    unfolding comes_back_def vendor_attributes_of_def facts by (auto simp: facts)
  then show ?thesis using saved listed \<open>b \<in> set as\<close> by metis
qed

end
