(* ===== verification/YamlTree.thy ===== *)
theory YamlTree
  imports ConfigTree
begin

text \<open>
  The settings document as a tree of YAML nodes (\<open>internal/app/settings/settings.go\<close>): what the service reads off it and changes in it, and
  the redaction of a configuration's rendering. Reading a document into nodes and writing nodes out are the library's, parameters of the callers.
  The content of a mapping holds keys and values in turn; the decoder gives it an even length.
\<close>

section \<open>Nodes\<close>

datatype ykind = KDocument | KSequence | KMapping | KScalar | KAlias

text \<open>The comments are the line, head and foot comment.\<close>

datatype ynode = YNode (y_kind: ykind) (y_style: int) (y_tag: string) (y_text: string) (y_anchor: string)
  (y_comments: "string \<times> string \<times> string") (y_content: "ynode list")

definition y_with_content :: "ynode list \<Rightarrow> ynode \<Rightarrow> ynode" where
  "y_with_content c n = YNode (y_kind n) (y_style n) (y_tag n) (y_text n) (y_anchor n) (y_comments n) c"

definition y_with_style :: "int \<Rightarrow> ynode \<Rightarrow> ynode" where
  "y_with_style st n = YNode (y_kind n) st (y_tag n) (y_text n) (y_anchor n) (y_comments n) (y_content n)"

definition y_with_text :: "string \<Rightarrow> ynode \<Rightarrow> ynode" where
  "y_with_text s n = YNode (y_kind n) (y_style n) (y_tag n) s (y_anchor n) (y_comments n) (y_content n)"

definition y_with_comments :: "string \<times> string \<times> string \<Rightarrow> ynode \<Rightarrow> ynode" where
  "y_with_comments c n = YNode (y_kind n) (y_style n) (y_tag n) (y_text n) (y_anchor n) c (y_content n)"

definition yaml_str_tag :: string where "yaml_str_tag = ''!!str''"
definition yaml_map_tag :: string where "yaml_map_tag = ''!!map''"

definition scalar_node :: "string \<Rightarrow> string \<Rightarrow> ynode" where
  "scalar_node tag s = YNode KScalar 0 tag s [] ([], [], []) []"

definition empty_mapping :: ynode where
  "empty_mapping = YNode KMapping 0 yaml_map_tag [] [] ([], [], []) []"

fun y_pairs :: "ynode list \<Rightarrow> (ynode \<times> ynode) list" where
  "y_pairs (k # v # r) = (k, v) # y_pairs r"
| "y_pairs _ = []"

lemmas y_with_simps [simp] = y_with_content_def y_with_style_def y_with_text_def y_with_comments_def

section \<open>Reading\<close>

lemma size_content: "c \<in> set (y_content n) \<Longrightarrow> size c < size n"
  by (cases n) (auto dest: size_list_estimation' [OF _ order_refl, where f = size] simp: less_Suc_eq_le)

function has_merge_key :: "(ynode \<Rightarrow> string) \<Rightarrow> ynode \<Rightarrow> bool" where
  "has_merge_key short_tag n =
     (y_kind n = KMapping \<and> (\<exists>(k, v) \<in> set (y_pairs (y_content n)). y_text k = ''<<'' \<or> short_tag k = ''!!merge'')
      \<or> (\<exists>c \<in> set (y_content n). has_merge_key short_tag c))"
  by auto
termination
  by (relation "measure (size \<circ> snd)") (auto simp: size_content)

declare has_merge_key.simps [simp del]

definition routing_key :: string where "routing_key = ''routing''"
definition affinity_key :: string where "affinity_key = ''session-affinity''"

definition sets_affinity :: "ynode \<Rightarrow> bool" where
  "sets_affinity top_node \<longleftrightarrow> (\<exists>(k, v) \<in> set (y_pairs (y_content top_node)). y_text k = routing_key \<and> y_kind v = KMapping
     \<and> (\<exists>(k', v') \<in> set (y_pairs (y_content v)). y_text k' = affinity_key))"

section \<open>Changing\<close>

fun put_scalar :: "string \<Rightarrow> ynode \<Rightarrow> ynode list \<Rightarrow> ynode list" where
  "put_scalar key new (k # v # r) =
     (if y_text k = key then k # y_with_comments (y_comments v) new # r else k # v # put_scalar key new r)"
| "put_scalar key new r = r @ [scalar_node yaml_str_tag key, new]"

definition set_scalar :: "string \<Rightarrow> string \<Rightarrow> string \<Rightarrow> ynode \<Rightarrow> ynode" where
  "set_scalar key tag s mapping = y_with_content (put_scalar key (scalar_node tag s) (y_content mapping)) mapping"

text \<open>\<open>childMapping\<close> and what its caller does to the mapping it returns.\<close>

fun on_child :: "string \<Rightarrow> (ynode \<Rightarrow> ynode) \<Rightarrow> ynode list \<Rightarrow> ynode list" where
  "on_child key f (k # v # r) =
     (if y_text k \<noteq> key then k # v # on_child key f r
      else if y_kind v = KMapping then k # f (y_with_style 0 v) # r
      else k # f empty_mapping # r)"
| "on_child key f r = r @ [scalar_node yaml_str_tag key, f empty_mapping]"

definition child_mapping :: "string \<Rightarrow> (ynode \<Rightarrow> ynode) \<Rightarrow> ynode \<Rightarrow> ynode" where
  "child_mapping key f mapping = y_with_content (on_child key f (y_content mapping)) mapping"

fun drop_key :: "string \<Rightarrow> ynode list \<Rightarrow> ynode list" where
  "drop_key key (k # v # r) = (if y_text k = key then drop_key key r else k # v # drop_key key r)"
| "drop_key key r = r"

definition historical_aliases :: "(string \<times> string) list" where
  "historical_aliases = [(''codex'', ''optimize-multi-agent-v2'')]"

fun drop_in_section :: "string \<times> string \<Rightarrow> ynode list \<Rightarrow> ynode list" where
  "drop_in_section (sec, key) (k # v # r) =
     (if y_text k \<noteq> sec \<or> y_kind v \<noteq> KMapping then k # v # drop_in_section (sec, key) r
      else k # y_with_content (drop_key key (y_content v)) v # drop_in_section (sec, key) r)"
| "drop_in_section a r = r"

definition without_aliases :: "ynode \<Rightarrow> ynode" where
  "without_aliases top_node = y_with_content (fold drop_in_section historical_aliases (y_content top_node)) top_node"

section \<open>Redaction\<close>

function field_by_key :: "(field_info \<times> gotype) list \<Rightarrow> string \<Rightarrow> (field_info \<times> gotype) option" where
  "field_by_key [] key = None"
| "field_by_key ((f, t) # fs) key =
     (if yaml_inline f then
        (case (case t of TStruct inner \<Rightarrow> field_by_key inner key | _ \<Rightarrow> None) of
           Some found \<Rightarrow> Some found
         | None \<Rightarrow> field_by_key fs key)
      else if fi_exported f \<and> (if yaml_key f = [] then to_lower (fi_name f) else yaml_key f) = key then Some (f, t)
      else field_by_key fs key)"
  by pat_completeness auto
termination
  by (relation "measure (size_list (size_prod (\<lambda>_. 0) size) \<circ> fst)") auto

definition redacted :: string where "redacted = ''REDACTED''"

definition secret_keys :: "string list" where
  "secret_keys = [''api-key'', ''secret-key'', ''credential'', ''password'', ''token'']"

definition secret_field :: "field_info \<Rightarrow> bool" where
  "secret_field f \<longleftrightarrow> fi_json f = ''-'' \<or> yaml_key f \<in> set secret_keys"

definition hide :: "ynode \<Rightarrow> ynode" where
  "hide v = (if y_kind v \<noteq> KScalar \<or> y_text v \<noteq> [] then scalar_node yaml_str_tag redacted else v)"

text \<open>\<open>redactSecrets\<close> over \<open>redactStructFields\<close>; \<open>shown\<close> is upstream's log-safe form of a proxy URL.\<close>

function redact_secrets :: "(string \<Rightarrow> string) \<Rightarrow> gotype \<Rightarrow> ynode \<Rightarrow> ynode"
and redact_all :: "(string \<Rightarrow> string) \<Rightarrow> gotype \<Rightarrow> ynode list \<Rightarrow> ynode list"
and redact_map :: "(string \<Rightarrow> string) \<Rightarrow> gotype \<Rightarrow> ynode list \<Rightarrow> ynode list"
and redact_fields :: "(string \<Rightarrow> string) \<Rightarrow> (field_info \<times> gotype) list \<Rightarrow> ynode list \<Rightarrow> ynode list" where
  "redact_secrets shown t (YNode kind st tag s anc com content) = YNode kind st tag s anc com
     (if kind = KDocument then redact_all shown t content
      else case strip_pointers t of
        TStruct fs \<Rightarrow> if kind = KMapping then redact_fields shown fs content else content
      | TList elem \<Rightarrow> if kind = KSequence then redact_all shown elem content else content
      | TMap elem \<Rightarrow> if kind = KMapping then redact_map shown elem content else content
      | _ \<Rightarrow> content)"
| "redact_all shown t [] = []"
| "redact_all shown t (c # cs) = redact_secrets shown t c # redact_all shown t cs"
| "redact_map shown t (k # v # r) = k # redact_secrets shown t v # redact_map shown t r"
| "redact_map shown t [v] = [v]"
| "redact_map shown t [] = []"
| "redact_fields shown fs (k # v # r) =
     k # (case field_by_key fs (y_text k) of
            None \<Rightarrow> v
          | Some (f, t) \<Rightarrow>
              if yaml_key f = ''proxy-url'' \<and> y_kind v = KScalar then y_with_text (shown (y_text v)) v
              else if secret_field f then hide v
              else redact_secrets shown t v)
       # redact_fields shown fs r"
| "redact_fields shown fs [v] = [v]"
| "redact_fields shown fs [] = []"
  by pat_completeness auto
termination
  by (relation "measure (\<lambda>x. case x of Inl (Inl (_, _, n)) \<Rightarrow> size n | Inl (Inr (_, _, ns)) \<Rightarrow> size_list size ns
     | Inr (Inl (_, _, ns)) \<Rightarrow> size_list size ns | Inr (Inr (_, _, ns)) \<Rightarrow> size_list size ns)") auto

text \<open>\<open>editableYAML\<close> before the nodes are written out.\<close>

fun without_owned :: "ynode list \<Rightarrow> ynode list" where
  "without_owned (k # v # r) = (if is_owned_key (y_text k) then without_owned r else k # v # without_owned r)"
| "without_owned _ = []"

definition editable_nodes :: "(string \<Rightarrow> string) \<Rightarrow> gotype \<Rightarrow> ynode \<Rightarrow> ynode" where
  "editable_nodes shown t n = (let r = redact_secrets shown t n in y_with_content (without_owned (y_content r)) r)"

section \<open>What a rendering shows\<close>

text \<open>A node that renders struct field \<open>f\<close> of a value of type \<open>t\<close> rendered as \<open>n\<close>, at any depth.\<close>

inductive field_at :: "gotype \<Rightarrow> ynode \<Rightarrow> field_info \<Rightarrow> ynode \<Rightarrow> bool" where
  at_document: "\<lbrakk>y_kind n = KDocument; c \<in> set (y_content n); field_at t c f m\<rbrakk> \<Longrightarrow> field_at t n f m"
| at_field: "\<lbrakk>strip_pointers t = TStruct fs; y_kind n = KMapping; (k, m) \<in> set (y_pairs (y_content n)); field_by_key fs (y_text k) = Some (f, t')\<rbrakk>
     \<Longrightarrow> field_at t n f m"
| in_field: "\<lbrakk>strip_pointers t = TStruct fs; y_kind n = KMapping; (k, v) \<in> set (y_pairs (y_content n)); field_by_key fs (y_text k) = Some (g, t');
     field_at t' v f m\<rbrakk> \<Longrightarrow> field_at t n f m"
| in_list: "\<lbrakk>strip_pointers t = TList elem; y_kind n = KSequence; c \<in> set (y_content n); field_at elem c f m\<rbrakk> \<Longrightarrow> field_at t n f m"
| in_map: "\<lbrakk>strip_pointers t = TMap elem; y_kind n = KMapping; (k, v) \<in> set (y_pairs (y_content n)); field_at elem v f m\<rbrakk> \<Longrightarrow> field_at t n f m"

inductive_cases field_atE: "field_at t n f m"

definition shows_no_secret :: "(string \<Rightarrow> string) \<Rightarrow> field_info \<Rightarrow> ynode \<Rightarrow> bool" where
  "shows_no_secret shown f m \<longleftrightarrow>
     (if yaml_key f = ''proxy-url'' \<and> y_kind m = KScalar then y_text m \<in> range shown \<or> secret_field f \<and> y_text m \<in> {[], redacted}
      else secret_field f \<longrightarrow> y_kind m = KScalar \<and> y_text m \<in> {[], redacted})"

lemma scalar_holds_nothing: "y_kind n = KScalar \<Longrightarrow> \<not> field_at t n f m"
  by (auto elim: field_atE)

lemma redact_kind [simp]: "y_kind (redact_secrets shown t n) = y_kind n"
  by (cases n) simp

definition quiet :: "(string \<Rightarrow> string) \<Rightarrow> gotype \<Rightarrow> ynode \<Rightarrow> bool" where
  "quiet shown t n \<longleftrightarrow> (\<forall>f m. field_at t n f m \<longrightarrow> shows_no_secret shown f m)"

lemma quiet_scalar: "y_kind n = KScalar \<Longrightarrow> quiet shown t n"
  by (auto simp: quiet_def scalar_holds_nothing)

text \<open>What a pair of a struct's mapping is after redaction.\<close>

definition redact_value :: "(string \<Rightarrow> string) \<Rightarrow> (field_info \<times> gotype) list \<Rightarrow> ynode \<Rightarrow> ynode \<Rightarrow> ynode" where
  "redact_value shown fs k v = (case field_by_key fs (y_text k) of
     None \<Rightarrow> v
   | Some (f, t) \<Rightarrow>
       if yaml_key f = ''proxy-url'' \<and> y_kind v = KScalar then y_with_text (shown (y_text v)) v
       else if secret_field f then hide v
       else redact_secrets shown t v)"

lemma redact_all_map: "redact_all shown t cs = map (redact_secrets shown t) cs"
  by (induction cs) simp_all

lemma redact_map_pairs: "y_pairs (redact_map shown t cs) = map (\<lambda>(k, v). (k, redact_secrets shown t v)) (y_pairs cs)"
  by (induction cs rule: y_pairs.induct) auto

lemma redact_fields_pairs: "y_pairs (redact_fields shown fs cs) = map (\<lambda>(k, v). (k, redact_value shown fs k v)) (y_pairs cs)"
  by (induction cs rule: y_pairs.induct) (auto simp: redact_value_def)

lemma pairs_size: "(k, v) \<in> set (y_pairs cs) \<Longrightarrow> size v < Suc (size_list size cs)"
  by (induction cs rule: y_pairs.induct) auto

lemma content_pairs_size: "(k, v) \<in> set (y_pairs (y_content n)) \<Longrightarrow> size v < size n"
  by (cases n) (auto dest: pairs_size)

lemma redact_content: "y_content (redact_secrets shown t n) =
     (if y_kind n = KDocument then map (redact_secrets shown t) (y_content n)
      else case strip_pointers t of
        TStruct fs \<Rightarrow> if y_kind n = KMapping then redact_fields shown fs (y_content n) else y_content n
      | TList elem \<Rightarrow> if y_kind n = KSequence then map (redact_secrets shown elem) (y_content n) else y_content n
      | TMap elem \<Rightarrow> if y_kind n = KMapping then redact_map shown elem (y_content n) else y_content n
      | _ \<Rightarrow> y_content n)"
  by (cases n) (simp add: redact_all_map split: gotype.split)

lemma hide_hides: "secret_field f \<Longrightarrow> shows_no_secret shown f (hide v)" "y_kind (hide v) = KScalar"
  by (auto simp: shows_no_secret_def hide_def scalar_node_def)

lemma redacted_quiet: "quiet shown t (redact_secrets shown t n)"
proof (induction n arbitrary: t rule: measure_induct_rule [where f = size])
  case (less n)
  have "shows_no_secret shown f m" if "field_at t (redact_secrets shown t n) f m" for f m
    using that
  proof (cases rule: field_at.cases)
    case (at_document c)
    then obtain c' where "c = redact_secrets shown t c'" "c' \<in> set (y_content n)" by (auto simp: redact_content)
    then show ?thesis using less size_content at_document(3) by (auto simp: quiet_def)
  next
    case (at_field fs k t')
    then obtain v where v: "m = redact_value shown fs k v" by (auto simp: redact_content redact_fields_pairs)
    show ?thesis
      using at_field(4) hide_hides(1)
      by (auto simp: v redact_value_def) (auto simp: shows_no_secret_def)
  next
    case (in_field fs k v g t')
    then obtain v' where v: "v = redact_value shown fs k v'" "(k, v') \<in> set (y_pairs (y_content n))"
      by (auto simp: redact_content redact_fields_pairs)
    have "quiet shown t' v"
      using in_field(4) less [OF content_pairs_size [OF v(2)]]
      by (auto simp: v(1) redact_value_def intro!: quiet_scalar hide_hides(2))
    then show ?thesis using in_field(5) by (auto simp: quiet_def)
  next
    case (in_list elem c)
    then obtain c' where "c = redact_secrets shown elem c'" "c' \<in> set (y_content n)" by (auto simp: redact_content)
    then show ?thesis using less size_content in_list(4) by (auto simp: quiet_def)
  next
    case (in_map elem k v)
    then obtain v' where v: "v = redact_secrets shown elem v'" "(k, v') \<in> set (y_pairs (y_content n))"
      by (auto simp: redact_content redact_map_pairs)
    then show ?thesis using less [OF content_pairs_size [OF v(2)]] in_map(4) by (auto simp: quiet_def)
  qed
  then show ?case by (simp add: quiet_def)
qed

lemma without_owned_pairs: "y_pairs (without_owned cs) = filter (\<lambda>(k, v). \<not> is_owned_key (y_text k)) (y_pairs cs)"
  by (induction cs rule: without_owned.induct) auto

text \<open>A rendering of a struct, as upstream's is: a mapping.\<close>

lemma editable_quiet:
  assumes "strip_pointers t = TStruct fs" "y_kind n = KMapping"
  shows "quiet shown t (editable_nodes shown t n)"
proof -
  let ?r = "redact_secrets shown t n"
  let ?e = "editable_nodes shown t n"
  have e: "y_kind ?e = KMapping" "set (y_pairs (y_content ?e)) \<subseteq> set (y_pairs (y_content ?r))"
    using assms by (auto simp: editable_nodes_def Let_def without_owned_pairs)
  have "field_at t ?r f m" if "field_at t ?e f m" for f m
    using that assms e
    by (cases rule: field_at.cases) (auto intro: field_at.intros)
  then show ?thesis using redacted_quiet [of shown t n] by (auto simp: quiet_def)
qed

lemma editable_keys: "(k, v) \<in> set (y_pairs (y_content (editable_nodes shown t n))) \<Longrightarrow> \<not> is_owned_key (y_text k)"
  by (auto simp: editable_nodes_def Let_def without_owned_pairs)

section \<open>What a change keeps\<close>

definition value_under :: "string \<Rightarrow> ynode list \<Rightarrow> ynode option" where
  "value_under key c = map_option snd (find (\<lambda>(k, v). y_text k = key) (y_pairs c))"

lemma value_under_simps [simp]:
  "value_under key [] = None"
  "value_under key [v] = None"
  "value_under key (k # v # r) = (if y_text k = key then Some v else value_under key r)"
  by (simp_all add: value_under_def)

lemma value_under_append:
  "even (length c) \<Longrightarrow> value_under key (c @ d) = (case value_under key c of None \<Rightarrow> value_under key d | Some v \<Rightarrow> Some v)"
  by (induction c rule: y_pairs.induct) auto

lemma put_scalar_value:
  "even (length c) \<Longrightarrow> value_under key' (put_scalar key new c) =
     (if key' = key then Some (case value_under key c of None \<Rightarrow> new | Some v \<Rightarrow> y_with_comments (y_comments v) new) else value_under key' c)"
  by (induction c rule: y_pairs.induct) (auto simp: scalar_node_def)

lemma put_scalar_even: "even (length (put_scalar key new c)) = even (length c)"
  by (induction c rule: y_pairs.induct) auto

lemma on_child_value:
  "even (length c) \<Longrightarrow> value_under key' (on_child key f c) =
     (if key' = key then Some (f (case value_under key c of Some v \<Rightarrow> if y_kind v = KMapping then y_with_style 0 v else empty_mapping | None \<Rightarrow> empty_mapping))
      else value_under key' c)"
  by (induction c rule: y_pairs.induct) (auto simp: scalar_node_def)

end
