(* ===== verification/GatewayConfig.thy ===== *)
theory GatewayConfig
  imports CredentialStore YamlTree
begin

text \<open>
  The configuration the embedded gateway runs (\<open>internal/infra/gateway/service.go\<close>: New, admit, PushConfig, CurrentConfig and the re-application every
  account change ends with; \<open>compat.go\<close>: the OpenAI-compatible entries it carries). Upstream is a parameter: its configuration
  struct, YAML and proxies in \<open>conf_kit\<close>, its account manager and its reload in \<open>parts\<close>, over a state of any type. The accounts the manager hands out are copies;
  a change it makes is an operation on the site, as it saves through the token store on its own; \<open>mg_draft\<close> and \<open>mg_commit\<close> are the two ends of its \<open>Modify\<close>, around the caller's function. Locks
  have nothing to do in a sequence of calls.
\<close>

section \<open>Upstream\<close>

datatype decoded = AtEof | Undecodable string | Decoded ynode

record conf_kit =
  ck_type :: gotype
  ck_field :: "string \<Rightarrow> index"
  ck_entry :: "compat_entry \<Rightarrow> goval"
  ck_entry_name :: "goval \<Rightarrow> string"
  ck_weights :: "goval \<Rightarrow> string option"
  ck_clone :: "goval \<Rightarrow> goval"
  ck_parse :: "string \<Rightarrow> string + goval"
  ck_probe :: "string \<Rightarrow> string option"
  ck_render :: "goval \<Rightarrow> string + ynode"
  ck_first :: "string \<Rightarrow> decoded"
  ck_second :: "string \<Rightarrow> decoded"
  ck_short_tag :: "ynode \<Rightarrow> string"
  ck_encode :: "ynode \<Rightarrow> string + string"
  ck_marshal :: "ynode \<Rightarrow> string + string"
  ck_proxy_error :: "string \<Rightarrow> string option"
  ck_redact :: "string \<Rightarrow> string"
  ck_diff :: "string \<Rightarrow> string \<Rightarrow> string + string"
  ck_duration :: "string \<Rightarrow> duration option"

record 'u manager =
  mg_list :: "'u \<Rightarrow> auth list"
  mg_get :: "string \<Rightarrow> 'u \<Rightarrow> auth option"
  mg_register :: "auth \<Rightarrow> ('u site, auth) act"
  mg_update :: "auth \<Rightarrow> ('u site, auth option) act"
  mg_draft :: "string \<Rightarrow> 'u \<Rightarrow> auth option"
  mg_commit :: "auth \<Rightarrow> ('u site, auth option) act"
  mg_remove :: "string \<Rightarrow> 'u \<Rightarrow> 'u"
  mg_unregister :: "string \<Rightarrow> 'u \<Rightarrow> 'u"

record 'u parts =
  gp_kit :: vendor_kit
  gp_conf :: conf_kit
  gp_aead :: aead
  gp_manager :: "'u manager option"
  gp_store :: bool
  gp_claim :: "'u \<Rightarrow> 'u"
  gp_reload :: "goval \<Rightarrow> 'u \<Rightarrow> 'u"

section \<open>Fields of a configuration\<close>

definition conf_text :: "conf_kit \<Rightarrow> string \<Rightarrow> goval \<Rightarrow> string" where
  "conf_text ck name cfg = (case at_index (ck_field ck name) cfg of GText s \<Rightarrow> s | _ \<Rightarrow> [])"

definition conf_bool :: "conf_kit \<Rightarrow> string \<Rightarrow> goval \<Rightarrow> bool" where
  "conf_bool ck name cfg \<longleftrightarrow> at_index (ck_field ck name) cfg = GBool True"

definition conf_int :: "conf_kit \<Rightarrow> string \<Rightarrow> goval \<Rightarrow> int" where
  "conf_int ck name cfg = (case at_index (ck_field ck name) cfg of GInt i \<Rightarrow> i | _ \<Rightarrow> 0)"

definition conf_list :: "conf_kit \<Rightarrow> string \<Rightarrow> goval \<Rightarrow> goval list" where
  "conf_list ck name cfg = (case at_index (ck_field ck name) cfg of GList vs \<Rightarrow> vs | _ \<Rightarrow> [])"

definition conf_set :: "conf_kit \<Rightarrow> string \<Rightarrow> goval \<Rightarrow> goval \<Rightarrow> goval" where
  "conf_set ck name v cfg = set_index (ck_field ck name) v cfg"

definition f_secret :: string where "f_secret = ''RemoteManagement.SecretKey''"
definition f_panel :: string where "f_panel = ''RemoteManagement.DisableControlPanel''"
definition f_api_keys :: string where "f_api_keys = ''APIKeys''"
definition f_plugins :: string where "f_plugins = ''Plugins.Enabled''"
definition f_home :: string where "f_home = ''Home.Enabled''"
definition f_compat :: string where "f_compat = ''OpenAICompatibility''"
definition f_ws_auth :: string where "f_ws_auth = ''WebsocketAuth''"
definition f_cooldown :: string where "f_cooldown = ''SaveCooldownStatus''"
definition f_request_log :: string where "f_request_log = ''RequestLog''"
definition f_proxy :: string where "f_proxy = ''ProxyURL''"
definition f_retry :: string where "f_retry = ''RequestRetry''"
definition f_interval :: string where "f_interval = ''MaxRetryInterval''"
definition f_affinity :: string where "f_affinity = ''Routing.SessionAffinity''"

lemmas f_defs = f_secret_def f_panel_def f_api_keys_def f_plugins_def f_home_def f_compat_def f_ws_auth_def f_cooldown_def f_request_log_def
  f_proxy_def f_retry_def f_interval_def f_affinity_def

section \<open>What may run\<close>

definition force_flag :: "conf_kit \<Rightarrow> string \<Rightarrow> bool \<Rightarrow> goval \<Rightarrow> goval" where
  "force_flag ck name b cfg = (if conf_bool ck name cfg \<noteq> b then conf_set ck name (GBool b) cfg else cfg)"

definition forced :: "conf_kit \<Rightarrow> goval \<Rightarrow> goval" where
  "forced ck cfg = force_flag ck f_request_log False (force_flag ck f_cooldown False (force_flag ck f_ws_auth True (force_flag ck f_panel True cfg)))"

definition admit_config :: "conf_kit \<Rightarrow> goval \<Rightarrow> goval result" where
  "admit_config ck cfg =
     (if conf_text ck f_secret cfg \<noteq> [] then Inl (EGateway ManagementSecret)
      else if conf_list ck f_api_keys cfg \<noteq> [] then Inl (EGateway ConfigAPIKeys)
      else if conf_bool ck f_plugins cfg then Inl (EGateway PluginsEnabled)
      else if conf_bool ck f_home cfg then Inl (EGateway HomeMode)
      else case find (\<lambda>entry. compat_name_refused (ck_entry_name ck entry)) (conf_list ck f_compat cfg) of
        Some entry \<Rightarrow> Inl (EGateway (CompatName (ck_entry_name ck entry)))
      | None \<Rightarrow> (case ck_weights ck cfg of
          Some msg \<Rightarrow> Inl (EForeign msg)
        | None \<Rightarrow> Inr (forced ck cfg)))"

section \<open>The entries of the compatible providers\<close>

definition held_auths :: "'u parts \<Rightarrow> 'u \<Rightarrow> auth list" where
  "held_auths gp u = (case gp_manager gp of None \<Rightarrow> [] | Some m \<Rightarrow> mg_list m u)"

definition with_compat :: "'u parts \<Rightarrow> 'u site \<Rightarrow> goval list" where
  "with_compat gp s = si_static s @ map (ck_entry (gp_conf gp)) (compat_entries (held_auths gp (si_up s)))"

definition boot_compat :: "conf_kit \<Rightarrow> goval \<Rightarrow> auth list \<Rightarrow> goval \<times> goval list \<times> string list" where
  "boot_compat ck cfg stored =
     (let static = conf_list ck f_compat cfg; entries = compat_entries stored in
      (conf_set ck f_compat (GList (static @ map (ck_entry ck) entries)) cfg, static, map (\<lambda>en. to_lower (ce_name en)) entries))"

fun drop_copies :: "vendor_kit \<Rightarrow> 'u manager \<Rightarrow> string list \<Rightarrow> auth list \<Rightarrow> 'u \<Rightarrow> 'u" where
  "drop_copies vk m derived [] u = u"
| "drop_copies vk m derived (a # as) u =
     drop_copies vk m derived as
       (if vk_config_auth vk a \<and> to_lower (case attr_of meta_compat_name (au_attrs a) of None \<Rightarrow> [] | Some n \<Rightarrow> n) \<in> set derived
        then mg_unregister m (au_id a) (mg_remove m (au_id a) u) else u)"

definition drop_synthesized :: "'u parts \<Rightarrow> 'u site \<Rightarrow> 'u site" where
  "drop_synthesized gp s = (case gp_manager gp of
     None \<Rightarrow> s
   | Some m \<Rightarrow> if si_derived s = [] then s else s\<lparr>si_up := drop_copies (gp_kit gp) m (si_derived s) (mg_list m (si_up s)) (si_up s)\<rparr>)"

section \<open>Applying a configuration\<close>

definition reload_locked :: "('u site, unit) act" where
  "reload_locked = abnd (aget (\<lambda>s. si_returned s \<or> \<not> si_captured s)) (\<lambda>stopped. if stopped then araise (EGateway NotRunning) else aret ())"

definition apply_config :: "'u parts \<Rightarrow> goval \<Rightarrow> 'u site \<Rightarrow> 'u site" where
  "apply_config gp cfg s = s\<lparr>si_up := gp_claim gp (gp_reload gp cfg (gp_claim gp (si_up s)))\<rparr>"

definition current_config :: "('u site, goval option) act" where
  "current_config = aget si_current"

definition push_config :: "'u parts \<Rightarrow> goval \<Rightarrow> ('u site, unit) act" where
  "push_config gp cfg =
     abnd (aget (\<lambda>s. conf_set (gp_conf gp) f_compat (GList (with_compat gp s)) cfg)) (\<lambda>cfg.
     abnd (alift (admit_config (gp_conf gp) cfg)) (\<lambda>cfg.
     abnd reload_locked (\<lambda>_.
     aput (\<lambda>s. (apply_config gp cfg s)\<lparr>si_current := Some cfg\<rparr>))))"

definition reapply :: "'u parts \<Rightarrow> 'u site \<Rightarrow> 'u site" where
  "reapply gp s = (case si_current s of
     None \<Rightarrow> s
   | Some cur \<Rightarrow>
       (case admit_config (gp_conf gp) (conf_set (gp_conf gp) f_compat (GList (with_compat gp s)) (ck_clone (gp_conf gp) cur)) of
          Inl _ \<Rightarrow> apply_config gp cur s
        | Inr next \<Rightarrow> (apply_config gp next s)\<lparr>si_current := Some next\<rparr>))"

section \<open>Building the gateway\<close>

record params =
  pm_password :: string
  pm_config :: "goval option"
  pm_stored :: "auth list"
  pm_resolver :: bool
  pm_registry :: "string option"
  pm_limits :: bool
  pm_prices :: bool
  pm_build :: "string option"

definition check_management_env :: "string \<Rightarrow> unit result" where
  "check_management_env password = (if trim_space password \<noteq> [] then Inl (EGateway ManagementEnv) else Inr ())"

definition new_spend_check :: "params \<Rightarrow> bool result" where
  "new_spend_check pm = (if \<not> pm_limits pm then Inr False else if \<not> pm_prices pm then Inl (EGateway NoPrices) else Inr True)"

text \<open>\<open>New\<close>, as far as its configuration goes; the built service has captured no reload yet.\<close>

definition new_gateway :: "'u parts \<Rightarrow> params \<Rightarrow> ('u site, unit) act" where
  "new_gateway gp pm =
     abnd (alift (check_management_env (pm_password pm))) (\<lambda>_.
     case pm_config pm of
       None \<Rightarrow> araise (EGateway NilConfig)
     | Some cfg \<Rightarrow>
         (let (cfg, static, derived) = boot_compat (gp_conf gp) cfg (pm_stored pm) in
          abnd (alift (admit_config (gp_conf gp) cfg)) (\<lambda>cfg.
          if \<not> pm_resolver pm then araise (EGateway NoResolver)
          else case pm_registry pm of Some msg \<Rightarrow> araise (EForeign msg)
          | None \<Rightarrow>
            abnd (alift (new_spend_check pm)) (\<lambda>_.
            case pm_build pm of Some msg \<Rightarrow> araise (EForeign msg)
            | None \<Rightarrow>
              aput (\<lambda>s. s\<lparr>si_current := Some cfg, si_static := static, si_derived := derived, si_captured := False, si_returned := False,
                si_up := gp_claim gp (gp_claim gp (si_up s))\<rparr>)))))"

datatype selector = RoundRobin | WeightedRoundRobin | FillFirst | Sticky selector duration bool

definition routing_selector :: "conf_kit \<Rightarrow> goval \<Rightarrow> selector" where
  "routing_selector ck cfg =
     (let strategy = to_lower (trim_space (conf_text ck ''Routing.Strategy'' cfg));
          sel = (if strategy \<in> {''weighted-round-robin'', ''weightedroundrobin'', ''wrr''} then WeightedRoundRobin
                 else if strategy \<in> {''fill-first'', ''fillfirst'', ''ff''} then FillFirst
                 else RoundRobin) in
      if \<not> conf_bool ck f_affinity cfg then sel
      else
        let raw = trim_space (conf_text ck ''Routing.SessionAffinityTTL'' cfg);
            ttl = (if raw = [] then ns_hour
                   else case ck_duration ck raw of Some d \<Rightarrow> if 0 < d then max d ns_second else ns_hour | None \<Rightarrow> ns_hour);
            subagents = (case at_index (ck_field ck ''Routing.SessionAffinitySubagents'') cfg of GPointer (GBool b) \<Rightarrow> b | _ \<Rightarrow> True) in
        Sticky sel ttl subagents)"

end
