(* ===== verification/Accounts.thy ===== *)
theory Accounts
  imports GatewayConfig
begin

text \<open>
  The accounts of the embedded gateway (\<open>internal/infra/gateway/service.go\<close> from AddAccount on; \<open>priority.go\<close> SetAccountPriority, \<open>proxy.go\<close> SetAccountProxy,
  \<open>compat.go\<close> AddCompatProvider and UpdateCompatProvider): each change goes through the account manager and the token store, and re-applies the configuration.
\<close>

section \<open>Parts of every change\<close>

definition the_manager :: "'u parts \<Rightarrow> ('u site, 'u manager) act" where
  "the_manager gp = (case gp_manager gp of None \<Rightarrow> araise (EGateway NoCoreAuth) | Some m \<Rightarrow> aret m)"

definition needs_store :: "'u parts \<Rightarrow> ('u site, unit) act" where
  "needs_store gp = (if gp_store gp then aret () else araise (EGateway NoTokenStore))"

text \<open>The check most changes begin with: a manager without a token store.\<close>

definition check_store :: "'u parts \<Rightarrow> ('u site, unit) act" where
  "check_store gp = (if gp_manager gp \<noteq> None then needs_store gp else aret ())"

definition account_locked :: "'u parts \<Rightarrow> string \<Rightarrow> ('u site, 'u manager \<times> auth) act" where
  "account_locked gp i =
     abnd (the_manager gp) (\<lambda>m.
     abnd reload_locked (\<lambda>_.
     abnd (aget (\<lambda>s. mg_get m i (si_up s))) (\<lambda>held.
     case held of None \<Rightarrow> araise ENotFound | Some a \<Rightarrow> aret (m, a))))"

definition reapply_locked :: "'u parts \<Rightarrow> ('u site, unit) act" where
  "reapply_locked gp = aput (reapply gp)"

text \<open>What the token store makes of an account it saves, or the account itself when it holds no such account.\<close>

definition save_locked :: "'u parts \<Rightarrow> auth \<Rightarrow> ('u site, auth) act" where
  "save_locked gp a =
     (if \<not> store_holds (gp_kit gp) a then aret a
      else abnd (store_save (gp_kit gp) (gp_aead gp) False a) (\<lambda>(key, a'). aret a'))"

definition disabled_message :: string where "disabled_message = ''disabled via gateway''"

definition mark_disabled :: "bool \<Rightarrow> auth \<Rightarrow> auth" where
  "mark_disabled b a = a\<lparr>au_disabled := b, au_status := (if b then status_disabled else auth_active), au_status_message := (if b then disabled_message else []),
     au_meta := put_meta meta_disabled (JBool b) (au_meta a)\<rparr>"

definition update_held :: "'u manager \<Rightarrow> auth \<Rightarrow> ('u site, auth) act" where
  "update_held m a = abnd (mg_update m a) (\<lambda>r. case r of None \<Rightarrow> araise ENotFound | Some b \<Rightarrow> aret b)"

definition set_disabled_locked :: "'u manager \<Rightarrow> auth \<Rightarrow> bool \<Rightarrow> ('u site, auth) act" where
  "set_disabled_locked m a b = update_held m (mark_disabled b a)"

definition forget_held :: "'u manager \<Rightarrow> string \<Rightarrow> ('u site, unit) act" where
  "forget_held m i = aput (\<lambda>s. s\<lparr>si_up := mg_remove m i (si_up s)\<rparr>)"

definition remove_locked :: "'u parts \<Rightarrow> 'u manager \<Rightarrow> auth \<Rightarrow> ('u site, unit) act" where
  "remove_locked gp m a =
     abnd (set_disabled_locked m a True) (\<lambda>updated.
     abnd (reapply_locked gp) (\<lambda>_.
     abnd (atry (store_delete (credential_key a))) (\<lambda>r. case r of
       Inl x \<Rightarrow> abnd (atry (save_locked gp updated)) (\<lambda>_. araise x)
     | Inr _ \<Rightarrow> forget_held m (au_id a))))"

definition load_locked :: "'u parts \<Rightarrow> string \<Rightarrow> ('u site, auth) act" where
  "load_locked gp key =
     abnd (store_list (gp_kit gp) (gp_aead gp)) (\<lambda>listed.
     case find (\<lambda>a. au_id a = key) listed of None \<Rightarrow> araise (EGateway (CredentialNotLoaded key)) | Some a \<Rightarrow> aret a)"

definition withdraw_locked :: "'u parts \<Rightarrow> 'u manager \<Rightarrow> string \<Rightarrow> ('u site, unit) act" where
  "withdraw_locked gp m key =
     abnd (aget (\<lambda>s. find (\<lambda>held. credential_key held = key) (mg_list m (si_up s)))) (\<lambda>held.
     case held of Some a \<Rightarrow> remove_locked gp m a | None \<Rightarrow> store_delete key)"

section \<open>Adding\<close>

text \<open>The id of an account without a key of its own, a fresh one.\<close>

definition keyed :: "auth \<Rightarrow> ('u site, auth) act" where
  "keyed a = (if credential_key a \<noteq> [] then aret a
     else abnd (on_world fresh_io) (\<lambda>u. abnd (aasks (\<lambda>e. uuid_str (ids e) u)) (\<lambda>i. aret (a\<lparr>au_id := i\<rparr>))))"

text \<open>Signing in again replaces a vendor's tokens, not the routing the administrator chose.\<close>

definition inherit_routing :: "auth list \<Rightarrow> auth \<Rightarrow> auth" where
  "inherit_routing held a =
     (case find (\<lambda>h. credential_key h = credential_key a) held of
        None \<Rightarrow> a
      | Some h \<Rightarrow>
          (let a = (if trim_space (au_proxy a) = [] \<and> au_proxy h \<noteq> [] then set_proxy (au_proxy h) a else a) in
           if meta_field meta_priority (au_meta h) \<noteq> None then set_account_priority (account_priority h) a else a))"

definition register_saved :: "'u parts \<Rightarrow> 'u manager \<Rightarrow> string \<Rightarrow> ('u site, auth) act" where
  "register_saved gp m key = abnd (load_locked gp key) (\<lambda>a. mg_register m a)"

text \<open>A login's record carries its tokens in its storage only; saving it makes its metadata.\<close>

definition readied :: "auth \<Rightarrow> auth" where
  "readied a = (if au_storage a \<noteq> None \<and> au_meta a = None then a\<lparr>au_meta := Some []\<rparr> else a)"

definition add_locked :: "'u parts \<Rightarrow> auth \<Rightarrow> ('u site, auth) act" where
  "add_locked gp a =
     abnd (the_manager gp) (\<lambda>m.
     abnd (needs_store gp) (\<lambda>_.
     abnd reload_locked (\<lambda>_.
     let a = readied a in
     if \<not> store_holds (gp_kit gp) a then
       abnd (mg_register m a) (\<lambda>stored. abnd (reapply_locked gp) (\<lambda>_. aret stored))
     else
       abnd (keyed a) (\<lambda>a.
       abnd (aget (\<lambda>s. inherit_routing (mg_list m (si_up s)) a)) (\<lambda>a'.
       abnd (store_save (gp_kit gp) (gp_aead gp) True a') (\<lambda>_.
       abnd (atry (register_saved gp m (credential_key a))) (\<lambda>r. case r of
         Inl x \<Rightarrow> abnd (atry (withdraw_locked gp m (credential_key a))) (\<lambda>_. araise x)
       | Inr stored \<Rightarrow> abnd (reapply_locked gp) (\<lambda>_. aret stored))))))))"

definition add_account :: "'u parts \<Rightarrow> auth option \<Rightarrow> ('u site, auth) act" where
  "add_account gp a = (case a of None \<Rightarrow> araise (EGateway NilAccount) | Some a \<Rightarrow> add_locked gp a)"

section \<open>Changing and removing\<close>

definition set_account_disabled :: "'u parts \<Rightarrow> string \<Rightarrow> bool \<Rightarrow> ('u site, unit) act" where
  "set_account_disabled gp i b =
     abnd (check_store gp) (\<lambda>_.
     abnd (account_locked gp i) (\<lambda>(m, a).
     abnd (set_disabled_locked m a b) (\<lambda>updated.
     abnd (reapply_locked gp) (\<lambda>_.
     abnd (save_locked gp updated) (\<lambda>_.
     aret ())))))"

definition remove_account :: "'u parts \<Rightarrow> string \<Rightarrow> ('u site, unit) act" where
  "remove_account gp i =
     abnd (check_store gp) (\<lambda>_.
     abnd (account_locked gp i) (\<lambda>(m, a).
     remove_locked gp m a))"

definition change_proxy :: "'u parts \<Rightarrow> string \<Rightarrow> proxy_choice \<Rightarrow> ('u site, unit) act" where
  "change_proxy gp i p =
     abnd (alift (proxy_value (gp_kit gp) p)) (\<lambda>v.
     abnd (check_store gp) (\<lambda>_.
     abnd (account_locked gp i) (\<lambda>(m, a).
     abnd (update_held m (set_proxy v a)) (\<lambda>updated.
     abnd (save_locked gp updated) (\<lambda>_.
     aret ())))))"

definition change_priority :: "'u parts \<Rightarrow> string \<Rightarrow> int \<Rightarrow> ('u site, unit) act" where
  "change_priority gp i v =
     abnd (check_store gp) (\<lambda>_.
     abnd (account_locked gp i) (\<lambda>(m, held).
     abnd (aget (\<lambda>s. mg_draft m i (si_up s))) (\<lambda>draft.
     case draft of
       None \<Rightarrow> araise ENotFound
     | Some next \<Rightarrow>
         abnd (save_locked gp (set_account_priority v next)) (\<lambda>saved.
         abnd (mg_commit m saved) (\<lambda>r.
         case r of
           None \<Rightarrow> araise ENotFound
         | Some updated \<Rightarrow> if is_compat_account updated then reapply_locked gp else aret ())))))"

definition accounts :: "'u parts \<Rightarrow> 'u site \<Rightarrow> vendor_account list" where
  "accounts gp s = sort_key (\<lambda>v. (va_provider v, va_id v)) (map (vendor_account_of (gp_kit gp)) (held_auths gp (si_up s)))"

section \<open>OpenAI-compatible providers\<close>

text \<open>\<open>strings.EqualFold\<close>: the Kelvin sign is a k, the long s an s.\<close>

definition fold_rune :: "rune \<Rightarrow> rune" where
  "fold_rune r = (if r = 8490 then 107 else if r = 383 then 115 else rune_lower r)"

definition equal_fold :: "string \<Rightarrow> string \<Rightarrow> bool" where
  "equal_fold s t \<longleftrightarrow> map fold_rune (runes s) = map fold_rune (runes t)"

definition compat_taken :: "'u parts \<Rightarrow> string \<Rightarrow> 'u site \<Rightarrow> bool" where
  "compat_taken gp name s \<longleftrightarrow> (case gp_manager gp of None \<Rightarrow> False | Some m \<Rightarrow> mg_get m (compat_account_id name) (si_up s) \<noteq> None)
     \<or> (\<exists>entry \<in> set (si_static s). equal_fold (trim_space (ck_entry_name (gp_conf gp) entry)) name)"

definition compat_auth :: "vendor_kit \<Rightarrow> compat_provider \<Rightarrow> string \<Rightarrow> auth" where
  "compat_auth vk p proxy = set_proxy proxy (apply_compat_attributes vk
     ((bare_auth (Some (compat_metadata p)))\<lparr>au_id := compat_account_id (cv_name p), au_file := compat_account_id (cv_name p),
        au_provider := compat_key, au_status := auth_active\<rparr>))"

definition add_compat_provider :: "'u parts \<Rightarrow> compat_provider \<Rightarrow> ('u site, vendor_account) act" where
  "add_compat_provider gp p =
     (if compat_name_refused (cv_name p) then araise (EInvalidInput ''name'')
      else
        abnd (alift (case cv_proxy p of None \<Rightarrow> Inr [] | Some c \<Rightarrow> proxy_value (gp_kit gp) c)) (\<lambda>proxy.
        abnd (aget (compat_taken gp (cv_name p))) (\<lambda>taken.
        if taken then araise EConflict
        else
          abnd (add_locked gp (compat_auth (gp_kit gp) p proxy)) (\<lambda>stored.
          aret (vendor_account_of (gp_kit gp) stored)))))"

text \<open>The key an update leaves: the one it names, else the stored one, which stays with its base URL.\<close>

definition kept_key :: "auth \<Rightarrow> compat_update \<Rightarrow> string result" where
  "kept_key held u =
     (let key = text_or_empty meta_api_key (au_meta held); url = text_or_empty meta_base_url (au_meta held) in
      case cu_api_key u of
        Some k \<Rightarrow> Inr k
      | None \<Rightarrow> if key \<noteq> [] \<and> trim_right_slash url \<noteq> trim_right_slash (cu_base_url u) then Inl (EInvalidInput ''apiKey'') else Inr key)"

definition updated_compat :: "vendor_kit \<Rightarrow> auth \<Rightarrow> compat_update \<Rightarrow> string \<Rightarrow> (string \<times> string) list option \<Rightarrow> string \<Rightarrow> auth" where
  "updated_compat vk held u key headers proxy =
     set_proxy proxy (apply_account_priority (apply_compat_attributes vk (held\<lparr>au_meta := Some (compat_metadata
       \<lparr>cv_name = au_label held, cv_base_url = cu_base_url u, cv_api_key = key, cv_prefix = cu_prefix u, cv_models = cu_models u,
        cv_priority = (case cu_priority u of None \<Rightarrow> account_priority held | Some v \<Rightarrow> v), cv_headers = headers, cv_proxy = None\<rparr>)\<rparr>)))"

definition update_compat_provider :: "'u parts \<Rightarrow> string \<Rightarrow> compat_update \<Rightarrow> ('u site, vendor_account) act" where
  "update_compat_provider gp i u =
     abnd (needs_store gp) (\<lambda>_.
     abnd (account_locked gp i) (\<lambda>(m, held).
     if \<not> is_compat_account held then araise ENotFound
     else
       abnd (alift (kept_key held u)) (\<lambda>key.
       abnd (alift (compat_headers_for (gp_kit gp) (Some held) (cu_base_url u) (cu_headers u))) (\<lambda>headers.
       abnd (alift (case cu_proxy u of None \<Rightarrow> Inr (au_proxy held) | Some c \<Rightarrow> proxy_value (gp_kit gp) c)) (\<lambda>proxy.
       abnd (store_save (gp_kit gp) (gp_aead gp) False (updated_compat (gp_kit gp) held u key headers proxy)) (\<lambda>(saved_key, next).
       abnd (update_held m next) (\<lambda>updated.
       abnd (reapply_locked gp) (\<lambda>_.
       aret (vendor_account_of (gp_kit gp) updated)))))))))"

end
