(* ===== verification/RunningConfig.thy ===== *)
theory RunningConfig
  imports GatewayConfig
begin

text \<open>
  What always holds of the configuration the gateway runs: it is one \<open>admit\<close> lets through, and applying it again changes nothing. What the model relies on of
  upstream's struct is that the fields the gateway reads are different fields, which every configuration has.
\<close>

section \<open>The shape of configurations\<close>

definition conf_names :: "string list" where
  "conf_names = [f_secret, f_panel, f_api_keys, f_plugins, f_home, f_compat, f_ws_auth, f_cooldown, f_request_log, f_proxy, f_retry, f_interval, f_affinity]"

definition fields_apart :: "conf_kit \<Rightarrow> bool" where
  "fields_apart ck \<longleftrightarrow> (\<forall>m \<in> set conf_names. \<forall>n \<in> set conf_names. m \<noteq> n \<longrightarrow> apart (ck_field ck m) (ck_field ck n))"

definition shaped :: "conf_kit \<Rightarrow> goval \<Rightarrow> bool" where
  "shaped ck cfg \<longleftrightarrow> (\<forall>n \<in> set conf_names. has_index (ck_field ck n) cfg) \<and> (\<forall>(key, i) \<in> set (owned_fields (ck_type ck)). has_index i cfg)"

text \<open>Setting a field keeps the shape when the owned fields are not inside it.\<close>

definition keeps_shape :: "conf_kit \<Rightarrow> string \<Rightarrow> bool" where
  "keeps_shape ck n \<longleftrightarrow> (\<forall>(key, i) \<in> set (owned_fields (ck_type ck)). apart (ck_field ck n) i \<or> (\<exists>q. ck_field ck n = i @ q))"

lemma has_set_prefix: "has_index (i @ q) v \<Longrightarrow> has_index i (set_index (i @ q) x v)"
  by (induction i v rule: has_index.induct) auto

lemma shaped_set:
  assumes "fields_apart ck" "keeps_shape ck n" "n \<in> set conf_names" "shaped ck cfg"
  shows "shaped ck (conf_set ck n v cfg)"
proof -
  have here: "has_index (ck_field ck n) cfg" using assms(3,4) by (simp add: shaped_def)
  have "has_index (ck_field ck m) (conf_set ck n v cfg)" if "m \<in> set conf_names" for m
    using assms that here by (cases "m = n") (auto simp: conf_set_def has_set_same shaped_def fields_apart_def has_set_apart)
  moreover have "has_index i (conf_set ck n v cfg)" if own: "(key, i) \<in> set (owned_fields (ck_type ck))" for key i
  proof (cases "apart (ck_field ck n) i")
    case True
    then show ?thesis using assms(4) own by (auto simp: conf_set_def has_set_apart shaped_def)
  next
    case False
    then obtain q where "ck_field ck n = i @ q" using bspec [OF assms(2) [unfolded keeps_shape_def] own] False by auto
    then show ?thesis unfolding conf_set_def using has_set_prefix here by simp
  qed
  ultimately show ?thesis unfolding shaped_def by auto
qed

lemma conf_set_same: "n \<in> set conf_names \<Longrightarrow> shaped ck cfg \<Longrightarrow> at_index (ck_field ck n) (conf_set ck n v cfg) = v"
  by (simp add: conf_set_def at_set_index shaped_def)

lemma conf_set_other:
  "fields_apart ck \<Longrightarrow> m \<in> set conf_names \<Longrightarrow> n \<in> set conf_names \<Longrightarrow> m \<noteq> n \<Longrightarrow> at_index (ck_field ck m) (conf_set ck n v cfg) = at_index (ck_field ck m) cfg"
  by (simp add: conf_set_def at_set_apart fields_apart_def)

lemma in_conf_names:
  "f_secret \<in> set conf_names" "f_panel \<in> set conf_names" "f_api_keys \<in> set conf_names" "f_plugins \<in> set conf_names" "f_home \<in> set conf_names"
  "f_compat \<in> set conf_names" "f_ws_auth \<in> set conf_names" "f_cooldown \<in> set conf_names" "f_request_log \<in> set conf_names"
  "f_proxy \<in> set conf_names" "f_retry \<in> set conf_names" "f_interval \<in> set conf_names" "f_affinity \<in> set conf_names"
  by (simp_all add: conf_names_def)

lemma conf_names_distinct: "distinct conf_names"
  unfolding conf_names_def f_defs by code_simp

text \<open>A value of a flag or a list is all its reader looks at.\<close>

lemma conf_readers:
  "at_index (ck_field ck n) a = at_index (ck_field ck n) b \<Longrightarrow>
     conf_text ck n a = conf_text ck n b \<and> conf_bool ck n a = conf_bool ck n b \<and> conf_list ck n a = conf_list ck n b \<and> conf_int ck n a = conf_int ck n b"
  by (simp add: conf_text_def conf_bool_def conf_list_def conf_int_def)

section \<open>Admitted configurations\<close>

text \<open>No management secret, no key of nobody's, no plugin, no home mode, no provider named like a built-in one; websockets authenticated, no control
  panel, no cooldown file, no request log.\<close>

definition config_admitted :: "conf_kit \<Rightarrow> goval \<Rightarrow> bool" where
  "config_admitted ck cfg \<longleftrightarrow> conf_text ck f_secret cfg = [] \<and> conf_list ck f_api_keys cfg = [] \<and> \<not> conf_bool ck f_plugins cfg \<and> \<not> conf_bool ck f_home cfg
     \<and> (\<forall>entry \<in> set (conf_list ck f_compat cfg). \<not> compat_name_refused (ck_entry_name ck entry))
     \<and> conf_bool ck f_panel cfg \<and> conf_bool ck f_ws_auth cfg \<and> \<not> conf_bool ck f_cooldown cfg \<and> \<not> conf_bool ck f_request_log cfg"

definition flag_names :: "string set" where
  "flag_names = {f_panel, f_ws_auth, f_cooldown, f_request_log}"

definition struct_laws :: "conf_kit \<Rightarrow> bool" where
  "struct_laws ck \<longleftrightarrow> fields_apart ck \<and> (\<forall>n \<in> set conf_names. keeps_shape ck n)"

lemma force_flag_set:
  assumes "struct_laws ck" "n \<in> set conf_names" "shaped ck cfg"
  shows "shaped ck (force_flag ck n b cfg)" "conf_bool ck n (force_flag ck n b cfg) = b"
    "m \<in> set conf_names \<Longrightarrow> m \<noteq> n \<Longrightarrow> at_index (ck_field ck m) (force_flag ck n b cfg) = at_index (ck_field ck m) cfg"
  using assms conf_set_same [OF assms(2,3)] conf_set_other [of ck m n]
  by (auto simp: force_flag_def struct_laws_def intro: shaped_set) (auto simp: conf_bool_def)

lemma flags_differ:
  "f_panel \<noteq> f_ws_auth" "f_panel \<noteq> f_cooldown" "f_panel \<noteq> f_request_log" "f_ws_auth \<noteq> f_cooldown" "f_ws_auth \<noteq> f_request_log" "f_cooldown \<noteq> f_request_log"
  by (simp_all add: f_defs)

lemma compat_differs:
  "f_secret \<noteq> f_compat" "f_api_keys \<noteq> f_compat" "f_plugins \<noteq> f_compat" "f_home \<noteq> f_compat" "f_panel \<noteq> f_compat" "f_ws_auth \<noteq> f_compat"
  "f_cooldown \<noteq> f_compat" "f_request_log \<noteq> f_compat"
  by (simp_all add: f_defs)

lemma forced_fields:
  assumes "struct_laws ck" "shaped ck cfg"
  shows "shaped ck (forced ck cfg)" "conf_bool ck f_panel (forced ck cfg)" "conf_bool ck f_ws_auth (forced ck cfg)"
    "\<not> conf_bool ck f_cooldown (forced ck cfg)" "\<not> conf_bool ck f_request_log (forced ck cfg)"
    "m \<in> set conf_names \<Longrightarrow> m \<notin> flag_names \<Longrightarrow> at_index (ck_field ck m) (forced ck cfg) = at_index (ck_field ck m) cfg"
proof -
  define a where "a = force_flag ck f_panel True cfg"
  define b where "b = force_flag ck f_ws_auth True a"
  define c where "c = force_flag ck f_cooldown False b"
  define d where "d = force_flag ck f_request_log False c"
  have d: "forced ck cfg = d" by (simp add: forced_def a_def b_def c_def d_def)
  note A = force_flag_set [where b = True, OF assms(1) in_conf_names(2) assms(2), folded a_def]
  note B = force_flag_set [where b = True, OF assms(1) in_conf_names(7) A(1), folded b_def]
  note C = force_flag_set [where b = False, OF assms(1) in_conf_names(8) B(1), folded c_def]
  note D = force_flag_set [where b = False, OF assms(1) in_conf_names(9) C(1), folded d_def]
  have keep: "conf_bool ck n x = conf_bool ck n y" if "at_index (ck_field ck n) x = at_index (ck_field ck n) y" for n x y
    using that by (simp add: conf_bool_def)
  show "shaped ck (forced ck cfg)" unfolding d by (rule D(1))
  show "conf_bool ck f_panel (forced ck cfg)"
    using A(2) keep [OF B(3)] keep [OF C(3)] keep [OF D(3)] in_conf_names flags_differ unfolding d by metis
  show "conf_bool ck f_ws_auth (forced ck cfg)"
    using B(2) keep [OF C(3)] keep [OF D(3)] in_conf_names flags_differ unfolding d by metis
  show "\<not> conf_bool ck f_cooldown (forced ck cfg)"
    using C(2) keep [OF D(3)] in_conf_names flags_differ unfolding d by metis
  show "\<not> conf_bool ck f_request_log (forced ck cfg)" using D(2) unfolding d by simp
  show "at_index (ck_field ck m) (forced ck cfg) = at_index (ck_field ck m) cfg" if "m \<in> set conf_names" "m \<notin> flag_names"
    using that A(3) B(3) C(3) D(3) unfolding d flag_names_def by auto
qed

lemma other_names: "f_secret \<notin> flag_names" "f_api_keys \<notin> flag_names" "f_plugins \<notin> flag_names" "f_home \<notin> flag_names" "f_compat \<notin> flag_names"
  by (simp_all add: flag_names_def f_defs)

lemma find_none: "find P xs = None \<longleftrightarrow> (\<forall>x \<in> set xs. \<not> P x)"
  by (auto simp: find_None_iff)

lemma admit_config_Inr:
  "admit_config ck cfg = Inr cfg' \<longleftrightarrow> conf_text ck f_secret cfg = [] \<and> conf_list ck f_api_keys cfg = [] \<and> \<not> conf_bool ck f_plugins cfg \<and> \<not> conf_bool ck f_home cfg
     \<and> (\<forall>entry \<in> set (conf_list ck f_compat cfg). \<not> compat_name_refused (ck_entry_name ck entry)) \<and> ck_weights ck cfg = None \<and> cfg' = forced ck cfg"
  by (auto simp: admit_config_def find_none find_Some_iff split: option.splits)

lemma admit_admitted:
  assumes "struct_laws ck" "shaped ck cfg" "admit_config ck cfg = Inr cfg'"
  shows "config_admitted ck cfg' \<and> shaped ck cfg' \<and> (\<forall>n \<in> set conf_names. n \<notin> flag_names \<longrightarrow> at_index (ck_field ck n) cfg' = at_index (ck_field ck n) cfg)"
proof -
  have cfg': "cfg' = forced ck cfg" using assms(3) by (simp add: admit_config_Inr)
  note F = forced_fields [OF assms(1,2)]
  have same: "conf_text ck n (forced ck cfg) = conf_text ck n cfg \<and> conf_bool ck n (forced ck cfg) = conf_bool ck n cfg \<and> conf_list ck n (forced ck cfg) = conf_list ck n cfg"
    if "n \<in> set conf_names" "n \<notin> flag_names" for n
    using conf_readers [OF F(6) [OF that]] by simp
  show ?thesis
    using assms(3) F(1-5) F(6) same [OF in_conf_names(1) other_names(1)] same [OF in_conf_names(3) other_names(2)]
      same [OF in_conf_names(4) other_names(3)] same [OF in_conf_names(5) other_names(4)] same [OF in_conf_names(6) other_names(5)]
    unfolding admit_config_Inr config_admitted_def cfg' by auto
qed

lemma forced_nothing:
  "conf_bool ck f_panel cfg \<Longrightarrow> conf_bool ck f_ws_auth cfg \<Longrightarrow> \<not> conf_bool ck f_cooldown cfg \<Longrightarrow> \<not> conf_bool ck f_request_log cfg \<Longrightarrow> forced ck cfg = cfg"
  by (simp add: forced_def force_flag_def)

text \<open>Re-pushing the running configuration writes nothing.\<close>

lemma admit_again: "config_admitted ck cfg \<Longrightarrow> ck_weights ck cfg = None \<Longrightarrow> admit_config ck cfg = Inr cfg"
  by (auto simp: admit_config_Inr config_admitted_def intro!: forced_nothing [symmetric])

end
