(* ===== verification/Settings.thy ===== *)
theory Settings
  imports RunningConfig
begin

text \<open>
  The settings service (\<open>internal/app/settings/settings.go\<close>): the stored document, what upstream makes of it, and the updates that push a
  configuration to the gateway and then store its document. YAML, upstream's parse and the unified diff are parameters (\<open>conf_kit\<close>).
\<close>

section \<open>Documents\<close>

definition newline :: string where "newline = [char_of (10 :: nat)]"

definition default_document :: string where
  "default_document = concat (map (\<lambda>l. l @ newline)
     [''oauth-model-alias:'',
      ''  claude:'',
      ''    - name: claude-haiku-4-5-20251001'',
      ''      alias: claude-haiku-4-5'',
      ''      fork: true'',
      ''    - name: claude-sonnet-4-5-20250929'',
      ''      alias: claude-sonnet-4-5'',
      ''      fork: true'',
      ''    - name: claude-opus-4-5-20251101'',
      ''      alias: claude-opus-4-5'',
      ''      fork: true'',
      ''oauth-excluded-models:'',
      ''  claude:'',
      ''    - claude-opus-4-1-20250805'',
      ''    - claude-opus-4-20250514'',
      ''    - claude-sonnet-4-20250514'',
      ''    - claude-3-7-sonnet-20250219'',
      ''    - claude-3-5-haiku-20241022''])"

definition yaml_field :: string where "yaml_field = ''yaml''"

definition document_root :: "conf_kit \<Rightarrow> string \<Rightarrow> ynode result" where
  "document_root ck doc =
     (case ck_first ck doc of
        AtEof \<Rightarrow> Inr empty_mapping
      | Undecodable msg \<Rightarrow> Inl (EInvalidSetting yaml_field msg)
      | Decoded d \<Rightarrow>
          if ck_second ck doc \<noteq> AtEof then Inl (EForbiddenSetting ''document'')
          else case y_content d of
            [tn] \<Rightarrow>
              if y_kind tn \<noteq> KMapping then Inl (EInvalidSetting yaml_field ''the document must be a mapping'')
              else if has_merge_key (ck_short_tag ck) tn then Inl (EForbiddenSetting ''<<'')
              else Inr tn
          | _ \<Rightarrow> Inl (EInvalidSetting yaml_field ''the document must be a mapping''))"

definition without_historical :: "conf_kit \<Rightarrow> string \<Rightarrow> string \<Rightarrow> string result" where
  "without_historical ck doc data =
     (case document_root ck doc of
        Inl x \<Rightarrow> Inl x
      | Inr tn \<Rightarrow>
          if without_aliases tn = tn then Inr data
          else case ck_marshal ck (without_aliases tn) of Inl msg \<Rightarrow> Inl (EForeign msg) | Inr out \<Rightarrow> Inr out)"

definition check_owned_unset :: "conf_kit \<Rightarrow> goval \<Rightarrow> unit result" where
  "check_owned_unset ck cfg =
     (case ck_parse ck ''{}'' of
        Inl msg \<Rightarrow> Inl (EForeign msg)
      | Inr unset \<Rightarrow> (case first_set (owned_fields (ck_type ck)) cfg unset of None \<Rightarrow> Inr () | Some key \<Rightarrow> Inl (EForbiddenSetting key)))"

definition default_affinity :: "conf_kit \<Rightarrow> ynode \<Rightarrow> goval \<Rightarrow> goval" where
  "default_affinity ck tn cfg = (if sets_affinity tn then cfg else conf_set ck f_affinity (GBool True) cfg)"

definition parse_checked :: "conf_kit \<Rightarrow> ynode \<Rightarrow> string \<Rightarrow> goval result" where
  "parse_checked ck tn data =
     (case ck_parse ck data of
        Inl msg \<Rightarrow> Inl (EInvalidSetting yaml_field msg)
      | Inr cfg \<Rightarrow>
          (case check_owned_unset ck cfg of
             Inl x \<Rightarrow> Inl x
           | Inr _ \<Rightarrow> (case ck_proxy_error ck (conf_text ck f_proxy cfg) of
               Some msg \<Rightarrow> Inl (EInvalidSetting ''proxy-url'' msg)
             | None \<Rightarrow> Inr (default_affinity ck tn cfg))))"

definition parse_document :: "conf_kit \<Rightarrow> string \<Rightarrow> goval result" where
  "parse_document ck doc =
     (case document_root ck doc of
        Inl x \<Rightarrow> Inl x
      | Inr tn \<Rightarrow>
          (case find (\<lambda>(k, v). is_owned_key (y_text k)) (y_pairs (y_content tn)) of
             Some (k, v) \<Rightarrow> Inl (EForbiddenSetting (y_text k))
           | None \<Rightarrow>
               (let data = (if y_content tn = [] then ''{}'' else doc) in
                case without_historical ck doc data of
                  Inl x \<Rightarrow> Inl x
                | Inr probed \<Rightarrow> (case ck_probe ck probed of
                    Some msg \<Rightarrow> Inl (EInvalidSetting yaml_field msg)
                  | None \<Rightarrow> parse_checked ck tn data))))"

section \<open>Views and patches\<close>

record settings_fields =
  sf_proxy :: string
  sf_retry :: int
  sf_interval :: int
  sf_affinity :: bool

record settings_view =
  sv_yaml :: string
  sv_fields :: settings_fields

record settings_patch =
  sp_proxy :: "string option"
  sp_retry :: "int option"
  sp_interval :: "int option"
  sp_affinity :: "bool option"

record settings_update =
  su_yaml :: "string option"
  su_fields :: "settings_patch option"
  su_dry :: bool

record update_result =
  ur_applied :: bool
  ur_diff :: string
  ur_settings :: settings_view

definition view_of :: "conf_kit \<Rightarrow> string \<Rightarrow> goval \<Rightarrow> settings_view" where
  "view_of ck doc cfg = \<lparr>sv_yaml = doc, sv_fields = \<lparr>sf_proxy = conf_text ck f_proxy cfg, sf_retry = conf_int ck f_retry cfg,
     sf_interval = conf_int ck f_interval cfg, sf_affinity = conf_bool ck f_affinity cfg\<rparr>\<rparr>"

definition validate_patch :: "conf_kit \<Rightarrow> settings_patch \<Rightarrow> unit result" where
  "validate_patch ck p =
     (case (case sp_proxy p of None \<Rightarrow> None | Some url \<Rightarrow> ck_proxy_error ck url) of
        Some msg \<Rightarrow> Inl (EInvalidSetting ''proxyURL'' msg)
      | None \<Rightarrow>
          if (case sp_retry p of Some n \<Rightarrow> n < 0 | None \<Rightarrow> False) then Inl (EInvalidSetting ''requestRetry'' ''must not be negative'')
          else if (case sp_interval p of Some n \<Rightarrow> n < 0 | None \<Rightarrow> False) then Inl (EInvalidSetting ''maxRetryInterval'' ''must not be negative'')
          else Inr ())"

definition validate_update :: "conf_kit \<Rightarrow> settings_update \<Rightarrow> unit result" where
  "validate_update ck req =
     (case (su_yaml req, su_fields req) of
        (Some _, Some _) \<Rightarrow> Inl (EInvalidSetting ''fields'' ''yaml and fields are mutually exclusive'')
      | (None, None) \<Rightarrow> Inl (EInvalidSetting yaml_field ''one of yaml or fields is required'')
      | (_, Some p) \<Rightarrow> validate_patch ck p
      | _ \<Rightarrow> Inr ())"

definition format_bool :: "bool \<Rightarrow> string" where
  "format_bool b = (if b then ''true'' else ''false'')"

text \<open>A field given is put, one left out is kept.\<close>

definition put_if :: "('a \<Rightarrow> ynode \<Rightarrow> ynode) \<Rightarrow> 'a option \<Rightarrow> ynode \<Rightarrow> ynode" where
  "put_if f x tn = (case x of None \<Rightarrow> tn | Some v \<Rightarrow> f v tn)"

definition patched_top :: "settings_patch \<Rightarrow> ynode \<Rightarrow> ynode" where
  "patched_top p tn =
     put_if (\<lambda>b. child_mapping routing_key (set_scalar affinity_key ''!!bool'' (format_bool b))) (sp_affinity p)
     (put_if (\<lambda>n. set_scalar ''max-retry-interval'' ''!!int'' (format_int n)) (sp_interval p)
     (put_if (\<lambda>n. set_scalar ''request-retry'' ''!!int'' (format_int n)) (sp_retry p)
     (put_if (\<lambda>url. set_scalar ''proxy-url'' yaml_str_tag url) (sp_proxy p)
     (y_with_style 0 tn))))"

definition encode_yaml :: "conf_kit \<Rightarrow> ynode \<Rightarrow> string result" where
  "encode_yaml ck n = (case ck_encode ck n of Inl msg \<Rightarrow> Inl (EForeign msg) | Inr out \<Rightarrow> Inr out)"

definition patch_document :: "conf_kit \<Rightarrow> string \<Rightarrow> settings_patch \<Rightarrow> string result" where
  "patch_document ck doc p =
     (case document_root ck doc of
        Inl x \<Rightarrow> Inl x
      | Inr tn \<Rightarrow> encode_yaml ck (YNode KDocument 0 [] [] [] ([], [], []) [patched_top p tn]))"

section \<open>Differences\<close>

definition editable_yaml :: "conf_kit \<Rightarrow> goval \<Rightarrow> string result" where
  "editable_yaml ck cfg =
     (case ck_render ck cfg of
        Inl msg \<Rightarrow> Inl (EForeign msg)
      | Inr n \<Rightarrow> encode_yaml ck (editable_nodes (ck_redact ck) (ck_type ck) n))"

definition editable_diff :: "conf_kit \<Rightarrow> goval \<Rightarrow> goval \<Rightarrow> string result" where
  "editable_diff ck old new =
     (case editable_yaml ck old of
        Inl x \<Rightarrow> Inl x
      | Inr a \<Rightarrow> (case editable_yaml ck new of
          Inl x \<Rightarrow> Inl x
        | Inr b \<Rightarrow> (case ck_diff ck a b of Inl msg \<Rightarrow> Inl (EForeign msg) | Inr d \<Rightarrow> Inr d)))"

section \<open>The service\<close>

definition overlay_owned :: "conf_kit \<Rightarrow> goval \<Rightarrow> goval \<Rightarrow> goval" where
  "overlay_owned ck dst owner = overlay_fields (owned_fields (ck_type ck)) dst (ck_clone ck owner)"

definition stored_document :: "('u site, string) act" where
  "stored_document = abnd (atry upstream_document) (\<lambda>r. case r of
     Inl x \<Rightarrow> if x = ENotFound then aret default_document else araise x
   | Inr doc \<Rightarrow> aret doc)"

definition proposed_document :: "conf_kit \<Rightarrow> settings_update \<Rightarrow> ('u site, string) act" where
  "proposed_document ck req = (case su_yaml req of
     Some doc \<Rightarrow> aret doc
   | None \<Rightarrow> abnd stored_document (\<lambda>base. alift (patch_document ck base (the (su_fields req)))))"

definition settings_get :: "'u parts \<Rightarrow> user \<Rightarrow> ('u site, settings_view) act" where
  "settings_get gp actor =
     abnd (alift (require_admin actor)) (\<lambda>_.
     abnd stored_document (\<lambda>doc.
     abnd (alift (parse_document (gp_conf gp) doc)) (\<lambda>cfg.
     aret (view_of (gp_conf gp) doc cfg))))"

text \<open>Persisting a pushed document; when that fails, the configuration that ran is pushed back.\<close>

definition persist_or_restore :: "'u parts \<Rightarrow> string \<Rightarrow> goval \<Rightarrow> uuid \<Rightarrow> instant \<Rightarrow> ('u site, unit) act" where
  "persist_or_restore gp doc running actor now =
     abnd (atry (set_upstream_document doc actor now)) (\<lambda>r. case r of
       Inr _ \<Rightarrow> aret ()
     | Inl x \<Rightarrow> abnd (atry (push_config gp running)) (\<lambda>_. araise x))"

definition settings_set :: "'u parts \<Rightarrow> user \<Rightarrow> settings_update \<Rightarrow> ('u site, update_result) act" where
  "settings_set gp actor req =
     (let ck = gp_conf gp in
      abnd (alift (require_admin actor)) (\<lambda>_.
      abnd (alift (validate_update ck req)) (\<lambda>_.
      abnd (proposed_document ck req) (\<lambda>doc.
      abnd (alift (parse_document ck doc)) (\<lambda>cfg.
      abnd current_config (\<lambda>cur. case cur of
        None \<Rightarrow> araise ENoRunningConfig
      | Some running \<Rightarrow>
          (let next = overlay_owned ck (ck_clone ck cfg) running in
           abnd (alift (editable_diff ck running next)) (\<lambda>diff.
           let res = \<lparr>ur_applied = False, ur_diff = diff, ur_settings = view_of ck doc cfg\<rparr> in
           if su_dry req then aret res
           else
             abnd (push_config gp next) (\<lambda>_.
             abnd (on_world now_io) (\<lambda>now.
             abnd (persist_or_restore gp doc running (u_id actor) now) (\<lambda>_.
             abnd (on_world (audit_record \<lparr>ae_at = now, ae_actor = u_id actor, ae_action = ''settings.update'', ae_target = ''upstream'',
               ae_detail = [(''diff'', JStr diff)], ae_ip = [], ae_agent = []\<rparr>)) (\<lambda>_.
             aret (res\<lparr>ur_applied := True\<rparr>)))))))))))))"

definition load_boot_config :: "conf_kit \<Rightarrow> goval option \<Rightarrow> ('u site, goval) act" where
  "load_boot_config ck defaults = (case defaults of
     None \<Rightarrow> araise ENoOwnedDefaults
   | Some owner \<Rightarrow>
       abnd stored_document (\<lambda>doc.
       abnd (alift (parse_document ck doc)) (\<lambda>cfg.
       aret (overlay_owned ck cfg owner))))"

end
