(* ===== verification/SettingsRun.thy ===== *)
theory SettingsRun
  imports Settings
begin

text \<open>
  What the settings service promises: the stored document is what runs, whatever an update does; no document changes what the gateway owns; a
  difference shows no secret; a patch keeps the rest of the document.
\<close>

section \<open>What is relied on of upstream\<close>

definition owned_names :: "string set" where
  "owned_names = {f_secret, f_panel, f_api_keys, f_plugins, f_home, f_compat, f_ws_auth, f_cooldown, f_request_log}"

definition covered :: "conf_kit \<Rightarrow> string \<Rightarrow> bool" where
  "covered ck n \<longleftrightarrow> (\<exists>(key, i) \<in> set (owned_fields (ck_type ck)). \<exists>q. ck_field ck n = i @ q)"

text \<open>A clone is a deep copy; what is parsed has the shape of a configuration; each credential's weight is checked by itself, none of
  them among the flags forced; the fields the gateway refuses or forces are under owned keys; applying a configuration and claiming access change no account.\<close>

definition upstream_laws :: "'u parts \<Rightarrow> bool" where
  "upstream_laws gp \<longleftrightarrow> struct_laws (gp_conf gp)
     \<and> (\<forall>cfg. ck_clone (gp_conf gp) cfg = cfg)
     \<and> (\<forall>doc cfg. ck_parse (gp_conf gp) doc = Inr cfg \<longrightarrow> shaped (gp_conf gp) cfg)
     \<and> (\<forall>cfg. ck_weights (gp_conf gp) (forced (gp_conf gp) cfg) = ck_weights (gp_conf gp) cfg)
     \<and> (\<forall>v a b. ck_weights (gp_conf gp) (conf_set (gp_conf gp) f_compat v a) = None \<longrightarrow> ck_weights (gp_conf gp) b = None
          \<longrightarrow> ck_weights (gp_conf gp) (conf_set (gp_conf gp) f_compat v b) = None)
     \<and> (\<forall>n \<in> owned_names. covered (gp_conf gp) n)
     \<and> (\<forall>cfg u. held_auths gp (gp_reload gp cfg u) = held_auths gp u) \<and> (\<forall>u. held_auths gp (gp_claim gp u) = held_auths gp u)"

definition effective_document :: "'u site \<Rightarrow> string" where
  "effective_document s = (case si_doc s of None \<Rightarrow> default_document | Some doc \<Rightarrow> doc)"

text \<open>A configuration that may run.\<close>

definition fits :: "conf_kit \<Rightarrow> goval \<Rightarrow> bool" where
  "fits ck run \<longleftrightarrow> shaped ck run \<and> config_admitted ck run \<and> ck_weights ck run = None"

text \<open>Outside what the gateway owns, a configuration is what a document says.\<close>

definition says :: "conf_kit \<Rightarrow> string \<Rightarrow> goval \<Rightarrow> bool" where
  "says ck doc run \<longleftrightarrow> (\<exists>cfg. parse_document ck doc = Inr cfg \<and> overlay_owned ck cfg run = run)"

definition runs_document :: "'u parts \<Rightarrow> string \<Rightarrow> 'u site \<Rightarrow> bool" where
  "runs_document gp doc s \<longleftrightarrow> (\<exists>run. si_current s = Some run \<and> fits (gp_conf gp) run \<and> says (gp_conf gp) doc run)"

definition settled :: "'u parts \<Rightarrow> 'u site \<Rightarrow> bool" where
  "settled gp s \<longleftrightarrow> runs_document gp (effective_document s) s"

text \<open>What the gateway owns is unchanged, but for the entries of the compatible providers.\<close>

definition same_owned :: "conf_kit \<Rightarrow> goval \<Rightarrow> goval \<Rightarrow> bool" where
  "same_owned ck a b \<longleftrightarrow> (\<forall>(key, i) \<in> set (owned_fields (ck_type ck)). apart (ck_field ck f_compat) i \<longrightarrow> at_index i b = at_index i a)"

section \<open>Overlays\<close>

lemma overlay_cong:
  "\<forall>(k, p) \<in> set fs. at_index p a = at_index p b \<Longrightarrow> overlay_fields fs dst a = overlay_fields fs dst b"
  by (induction fs dst a rule: overlay_fields.induct) auto

lemma at_append: "at_index (p @ q) v = at_index q (at_index p v)"
proof (induction p v rule: at_index.induct)
  case (2 i p vs)
  have "at_index r GNil = GNil" for r by (cases r) auto
  then show ?case using 2 by auto
qed (cases q; auto)+

lemma shaped_owned: "shaped ck cfg \<Longrightarrow> \<forall>(key, i) \<in> set (owned_fields (ck_type ck)). has_index i cfg"
  by (simp add: shaped_def)

lemma overlay_at:
  assumes "shaped ck dst" "(key, i) \<in> set (owned_fields (ck_type ck))"
  shows "at_index i (overlay_fields (owned_fields (ck_type ck)) dst src) = at_index i src"
  using overlay_owned [OF owned_fields_apart assms(2) shaped_owned [OF assms(1)]] .

lemma overlay_covered:
  assumes "shaped ck dst" "covered ck n"
  shows "at_index (ck_field ck n) (overlay_fields (owned_fields (ck_type ck)) dst src) = at_index (ck_field ck n) src"
proof -
  obtain key i q where "(key, i) \<in> set (owned_fields (ck_type ck))" "ck_field ck n = i @ q" using assms(2) unfolding covered_def by blast
  with overlay_at [OF assms(1)] show ?thesis by (simp add: at_append)
qed

text \<open>The shape of an overlay.\<close>

lemma has_set_owned: "has_index q (set_index p (at_index p src) dst) \<longleftrightarrow> has_index q dst"
  if "has_index q dst" "has_index q src" "has_index p dst" for q p dst src
  using that
proof (induction p dst arbitrary: q src rule: has_index.induct)
  case (2 i p vs)
  show ?case
  proof (cases q)
    case (Cons j q')
    then obtain ws where "src = GStruct ws" using 2(3) by (cases src) auto
    then show ?thesis using 2 Cons by (cases "i = j") auto
  qed simp
qed auto

lemma overlay_shape:
  "\<lbrakk>has_index q dst; has_index q src; \<forall>(k, p) \<in> set fs. has_index p dst \<and> has_index p src\<rbrakk> \<Longrightarrow> has_index q (overlay_fields fs dst src)"
proof (induction fs arbitrary: dst)
  case (Cons f fs)
  obtain k p where f: "f = (k, p)" by (cases f)
  have step: "has_index r (set_index p (at_index p src) dst)" if "has_index r dst" "has_index r src" for r
    using has_set_owned [OF that] Cons.prems(3) that by (simp add: f)
  have "has_index q (overlay_fields fs (set_index p (at_index p src) dst) src)"
    by (rule Cons.IH) (use Cons.prems step in \<open>auto simp: f\<close>)
  then show ?case by (simp add: f)
qed simp

lemma overlay_shaped: "shaped ck dst \<Longrightarrow> shaped ck src \<Longrightarrow> shaped ck (overlay_fields (owned_fields (ck_type ck)) dst src)"
  unfolding shaped_def by (auto intro!: overlay_shape)

lemma set_append: "set_index (p @ q) x v = set_index p (set_index q x (at_index p v)) v"
  by (induction p v rule: at_index.induct) auto

lemma overlay_source:
  "\<lbrakk>all_apart fs; (k, i) \<in> set fs; has_index i src\<rbrakk> \<Longrightarrow> overlay_fields fs dst (set_index i x src) = set_index i x (overlay_fields fs dst src)"
proof (induction fs arbitrary: dst)
  case (Cons f fs)
  obtain k' j where f: "f = (k', j)" by (cases f)
  show ?case
  proof (cases "(k, i) \<in> set fs")
    case True
    then have "apart i j" using Cons.prems(1) by (auto simp: f apart_sym)
    then show ?thesis using Cons True by (simp add: f at_set_apart)
  next
    case False
    then have ij: "i = j" using Cons.prems by (simp add: f)
    have "overlay_fields fs (set_index i x dst) (set_index i x src) = overlay_fields fs (set_index i x dst) src"
      using Cons.prems(1) by (intro overlay_cong) (auto simp: f ij at_set_apart)
    also have "\<dots> = set_index i x (overlay_fields fs (set_index i (at_index i src) dst) src)"
      using Cons.prems(1) by (subst overlay_set [symmetric]) (auto simp: f ij set_set_index apart_sym)
    finally show ?thesis using Cons.prems(3) by (simp add: f ij at_set_index)
  qed
qed simp

section \<open>What an update pushes\<close>

lemma laws_conf:
  assumes "upstream_laws gp"
  shows "struct_laws (gp_conf gp)" "ck_clone (gp_conf gp) cfg = cfg" "ck_parse (gp_conf gp) doc = Inr cfg \<Longrightarrow> shaped (gp_conf gp) cfg"
    "ck_weights (gp_conf gp) (forced (gp_conf gp) cfg) = ck_weights (gp_conf gp) cfg" "n \<in> owned_names \<Longrightarrow> covered (gp_conf gp) n"
    "held_auths gp (gp_reload gp cfg u) = held_auths gp u" "held_auths gp (gp_claim gp u) = held_auths gp u"
    "ck_weights (gp_conf gp) (conf_set (gp_conf gp) f_compat v a) = None \<Longrightarrow> ck_weights (gp_conf gp) b = None
       \<Longrightarrow> ck_weights (gp_conf gp) (conf_set (gp_conf gp) f_compat v b) = None"
  using assms by (auto simp: upstream_laws_def)

lemma parse_document_shaped:
  assumes "upstream_laws gp" "parse_document (gp_conf gp) doc = Inr cfg"
  shows "shaped (gp_conf gp) cfg"
proof -
  obtain data cfg0 tn where "ck_parse (gp_conf gp) data = Inr cfg0" "cfg = default_affinity (gp_conf gp) tn cfg0"
    using assms(2) by (auto simp: parse_document_def parse_checked_def Let_def split: sum.splits option.splits)
  with laws_conf [OF assms(1)] shaped_set [of "gp_conf gp" f_affinity cfg0] in_conf_names show ?thesis
    by (auto simp: default_affinity_def struct_laws_def)
qed

lemma owned_in_names: "owned_names \<subseteq> set conf_names"
  by (simp add: owned_names_def conf_names_def)

lemma overlay_again:
  assumes "upstream_laws gp" "shaped (gp_conf gp) cfg"
  shows "overlay_owned (gp_conf gp) cfg (overlay_owned (gp_conf gp) cfg run) = overlay_owned (gp_conf gp) cfg run"
proof -
  have "\<forall>(k, p) \<in> set (owned_fields (ck_type (gp_conf gp))).
      at_index p (overlay_fields (owned_fields (ck_type (gp_conf gp))) cfg run) = at_index p run"
    using overlay_at [OF assms(2)] by auto
  from overlay_cong [OF this] show ?thesis by (simp add: overlay_owned_def laws_conf(2) [OF assms(1)])
qed

text \<open>The running configuration with its editable part replaced has all the owned fields it had.\<close>

lemma overlay_admitted:
  assumes "upstream_laws gp" "shaped (gp_conf gp) run" "config_admitted (gp_conf gp) run" "shaped (gp_conf gp) cfg"
  defines "next \<equiv> overlay_owned (gp_conf gp) cfg run"
  shows "shaped (gp_conf gp) next" "config_admitted (gp_conf gp) next" "same_owned (gp_conf gp) run next" "overlay_owned (gp_conf gp) cfg next = next"
proof -
  let ?ck = "gp_conf gp"
  note laws = laws_conf [OF assms(1)]
  have next': "next = overlay_fields (owned_fields (ck_type ?ck)) cfg run" by (simp add: next_def overlay_owned_def laws(2))
  show "shaped ?ck next" unfolding next' by (rule overlay_shaped [OF assms(4,2)])
  have same: "at_index (ck_field ?ck n) next = at_index (ck_field ?ck n) run" if "n \<in> owned_names" for n
    unfolding next' by (rule overlay_covered [OF assms(4) laws(5) [OF that]])
  note readers = conf_readers [OF same]
  show "config_admitted ?ck next"
    using assms(3) readers [of f_secret] readers [of f_api_keys] readers [of f_plugins] readers [of f_home] readers [of f_compat]
      readers [of f_panel] readers [of f_ws_auth] readers [of f_cooldown] readers [of f_request_log]
    by (simp add: config_admitted_def owned_names_def)
  have own: "\<forall>(k, p) \<in> set (owned_fields (ck_type ?ck)). at_index p next = at_index p run"
    using overlay_at [OF assms(4)] by (auto simp: next')
  then show "same_owned ?ck run next" by (auto simp: same_owned_def)
  show "overlay_owned ?ck cfg next = next" unfolding next_def by (rule overlay_again [OF assms(1,4)])
qed

text \<open>Setting an owned field leaves what a document says.\<close>

lemma overlay_set_covered:
  assumes "upstream_laws gp" "shaped (gp_conf gp) run" "overlay_owned (gp_conf gp) cfg run = run" "n \<in> owned_names"
  shows "overlay_owned (gp_conf gp) cfg (conf_set (gp_conf gp) n v run) = conf_set (gp_conf gp) n v run"
proof -
  note laws = laws_conf [OF assms(1)]
  obtain key i q where i: "(key, i) \<in> set (owned_fields (ck_type (gp_conf gp)))" "ck_field (gp_conf gp) n = i @ q"
    using laws(5) [OF assms(4)] unfolding covered_def by blast
  have "has_index i run" using bspec [OF shaped_owned [OF assms(2)] i(1)] by simp
  from overlay_source [OF owned_fields_apart i(1) this, of cfg] assms(3) show ?thesis
    unfolding conf_set_def i(2) set_append by (simp add: overlay_owned_def laws(2))
qed

text \<open>The entries of the accounts put in an admitted configuration: let through, it is admitted, and nothing else of it has changed.\<close>

lemma recompat:
  assumes "upstream_laws gp" "shaped (gp_conf gp) run" "config_admitted (gp_conf gp) run"
    and "admit_config (gp_conf gp) (conf_set (gp_conf gp) f_compat (GList vs) run) = Inr pushed"
  shows "pushed = conf_set (gp_conf gp) f_compat (GList vs) run" "fits (gp_conf gp) pushed" "same_owned (gp_conf gp) run pushed"
    "overlay_owned (gp_conf gp) cfg run = run \<Longrightarrow> overlay_owned (gp_conf gp) cfg pushed = pushed"
proof -
  let ?ck = "gp_conf gp"
  let ?c = "conf_set ?ck f_compat (GList vs) run"
  note laws = laws_conf [OF assms(1)]
  have apart: "fields_apart ?ck" using laws(1) by (simp add: struct_laws_def)
  have c: "shaped ?ck ?c" using laws(1) assms(2) in_conf_names(6) by (simp add: struct_laws_def shaped_set)
  have other: "conf_bool ?ck n ?c = conf_bool ?ck n run" if "n \<in> set conf_names" "n \<noteq> f_compat" for n
    using conf_readers [OF conf_set_other [OF apart that(1) in_conf_names(6) that(2)]] by simp
  have "forced ?ck ?c = ?c"
    using assms(3) in_conf_names by (intro forced_nothing) (simp_all add: other config_admitted_def compat_differs)
  then show pushed: "pushed = ?c" using assms(4) by (simp add: admit_config_Inr)
  show "fits ?ck pushed" using admit_admitted [OF laws(1) c assms(4)] assms(4) by (simp add: fits_def pushed admit_config_Inr)
  show "same_owned ?ck run pushed" by (auto simp: same_owned_def pushed conf_set_def at_set_apart)
  show "overlay_owned ?ck cfg pushed = pushed" if "overlay_owned ?ck cfg run = run"
    unfolding pushed by (rule overlay_set_covered [OF assms(1,2) that]) (simp add: owned_names_def)
qed

text \<open>After a push that was let through, the configuration that ran is let through again.\<close>

lemma readmitted:
  assumes "upstream_laws gp" "fits (gp_conf gp) run" "admit_config (gp_conf gp) (conf_set (gp_conf gp) f_compat (GList vs) next) = Inr pushed" "shaped (gp_conf gp) next"
  shows "admit_config (gp_conf gp) (conf_set (gp_conf gp) f_compat (GList vs) run) = Inr (conf_set (gp_conf gp) f_compat (GList vs) run)"
proof -
  let ?ck = "gp_conf gp"
  let ?c = "conf_set ?ck f_compat (GList vs) run"
  note laws = laws_conf [OF assms(1)]
  have apart: "fields_apart ?ck" using laws(1) by (simp add: struct_laws_def)
  have run: "shaped ?ck run" "config_admitted ?ck run" using assms(2) by (simp_all add: fits_def)
  note other = conf_readers [OF conf_set_other [OF apart _ in_conf_names(6)]]
  have list: "conf_list ?ck f_compat (conf_set ?ck f_compat (GList vs) x) = vs" if "shaped ?ck x" for x
    by (simp add: conf_list_def conf_set_same [OF in_conf_names(6) that])
  have "ck_weights ?ck ?c = None" using laws(8) assms(2,3) by (auto simp: fits_def admit_config_Inr)
  moreover have "\<forall>entry \<in> set vs. \<not> compat_name_refused (ck_entry_name ?ck entry)"
    using assms(3) list [OF assms(4)] by (simp add: admit_config_Inr)
  moreover have "config_admitted ?ck ?c"
    using run(2) calculation(2) other [of f_secret] other [of f_api_keys] other [of f_plugins] other [of f_home]
      other [of f_panel] other [of f_ws_auth] other [of f_cooldown] other [of f_request_log] in_conf_names
    by (simp add: config_admitted_def list [OF run(1)] compat_differs)
  ultimately show ?thesis by (rule_tac admit_again)
qed

section \<open>The running configuration\<close>

definition owned_same :: "'u parts \<Rightarrow> 'u site \<Rightarrow> 'u site \<Rightarrow> bool" where
  "owned_same gp s s' \<longleftrightarrow> (\<forall>run run'. si_current s = Some run \<longrightarrow> si_current s' = Some run' \<longrightarrow> same_owned (gp_conf gp) run run')"

text \<open>What runs after a call that found \<open>doc\<close> running: the stored document, or still \<open>doc\<close>. Only a write whose acknowledgement is lost stores
  another one behind it.\<close>

definition stays :: "'u parts \<Rightarrow> env \<Rightarrow> string \<Rightarrow> 'u site \<Rightarrow> 'u site \<Rightarrow> bool" where
  "stays gp e doc s s' \<longleftrightarrow> owned_same gp s s'
     \<and> (settled gp s' \<or> runs_document gp doc s' \<and> (si_doc s' = si_doc s \<or> (\<exists>n. fault e n \<and> lost_ack e n)))"

lemma same_owned_refl [simp]: "same_owned ck a a"
  by (simp add: same_owned_def case_prod_unfold)

lemma same_owned_trans: "same_owned ck a b \<Longrightarrow> same_owned ck b c \<Longrightarrow> same_owned ck a c"
  by (fastforce simp: same_owned_def)

lemma settled_world [simp]: "settled gp (s\<lparr>si_world := w\<rparr>) = settled gp s" "runs_document gp doc (s\<lparr>si_world := w\<rparr>) = runs_document gp doc s"
  by (simp_all add: settled_def runs_document_def effective_document_def)

lemma stays_world [simp]:
  "stays gp e doc s (t\<lparr>si_world := w\<rparr>) = stays gp e doc s t" "stays gp e doc (s\<lparr>si_world := w\<rparr>) t = stays gp e doc s t"
  by (simp_all add: stays_def owned_same_def)

lemma stays_refl: "runs_document gp doc s \<Longrightarrow> stays gp e doc s s"
  by (auto simp: stays_def owned_same_def)

lemma owned_same_trans: "owned_same gp s t \<Longrightarrow> si_current t \<noteq> None \<Longrightarrow> owned_same gp t u \<Longrightarrow> owned_same gp s u"
  unfolding owned_same_def by (blast intro: same_owned_trans)

text \<open>A configuration that now runs, and the document it is from.\<close>

lemma stays_running:
  assumes "si_current s = Some run" "same_owned (gp_conf gp) run run'" "fits (gp_conf gp) run'" "si_current s' = Some run'"
    and "says (gp_conf gp) (effective_document s') run'
      \<or> says (gp_conf gp) doc run' \<and> (si_doc s' = si_doc s \<or> (\<exists>n. fault e n \<and> lost_ack e n))"
  shows "stays gp e doc s s'"
  using assms by (auto simp: stays_def settled_def runs_document_def owned_same_def)

lemma with_compat_world [simp]: "with_compat gp (s\<lparr>si_world := w\<rparr>) = with_compat gp s" "with_compat gp (s\<lparr>si_current := c\<rparr>) = with_compat gp s"
  by (simp_all add: with_compat_def)

lemma with_compat_apply [simp]: "upstream_laws gp \<Longrightarrow> with_compat gp (apply_config gp cfg s) = with_compat gp s"
  by (simp add: with_compat_def apply_config_def laws_conf(6,7))

lemma apply_config_simps [simp]:
  "si_world (apply_config gp cfg s) = si_world s" "si_doc (apply_config gp cfg s) = si_doc s" "si_current (apply_config gp cfg s) = si_current s"
  "si_captured (apply_config gp cfg s) = si_captured s" "si_returned (apply_config gp cfg s) = si_returned s"
  "si_creds (apply_config gp cfg s) = si_creds s" "si_digests (apply_config gp cfg s) = si_digests s" "si_static (apply_config gp cfg s) = si_static s"
  "effective_document (apply_config gp cfg s) = effective_document s"
  by (simp_all add: apply_config_def effective_document_def)

lemma awp_reload_locked: "awp reload_locked e s Q = (if si_returned s \<or> \<not> si_captured s then Q (Inl (EGateway NotRunning)) s else Q (Inr ()) s)"
  by (simp add: reload_locked_def awp_simps)

text \<open>A push: refused, it changes nothing; let through, the admitted configuration runs.\<close>

lemma awp_push_config:
  "awp (push_config gp cfg) e s Q =
     (case admit_config (gp_conf gp) (conf_set (gp_conf gp) f_compat (GList (with_compat gp s)) cfg) of
        Inl x \<Rightarrow> Q (Inl x) s
      | Inr run \<Rightarrow> if si_returned s \<or> \<not> si_captured s then Q (Inl (EGateway NotRunning)) s
          else Q (Inr ()) ((apply_config gp run s)\<lparr>si_current := Some run\<rparr>))"
  by (auto simp: push_config_def awp_steps awp_abnd [of reload_locked] awp_reload_locked awp_simps split: sum.split)

section \<open>Updates\<close>

text \<open>Between a push and its document being stored: what the push found, and what it left.\<close>

definition pushed_from :: "'u parts \<Rightarrow> 'u site \<Rightarrow> string \<Rightarrow> 'u site \<Rightarrow> bool" where
  "pushed_from gp s doc t \<longleftrightarrow>
     (\<exists>run pushed. si_current s = Some run \<and> si_current t = Some pushed \<and> si_doc t = si_doc s
        \<and> same_owned (gp_conf gp) run pushed \<and> fits (gp_conf gp) pushed \<and> says (gp_conf gp) doc pushed
        \<and> \<not> si_returned t \<and> si_captured t
        \<and> admit_config (gp_conf gp) (conf_set (gp_conf gp) f_compat (GList (with_compat gp t)) run)
            = Inr (conf_set (gp_conf gp) f_compat (GList (with_compat gp t)) run))"

lemma pushed_world [simp]: "pushed_from gp s doc (t\<lparr>si_world := w\<rparr>) = pushed_from gp s doc t"
  by (simp add: pushed_from_def)

lemma push_overlay:
  assumes laws: "upstream_laws gp" and run: "si_current s = Some run" "fits (gp_conf gp) run" and doc: "parse_document (gp_conf gp) doc = Inr cfg"
    and push: "admit_config (gp_conf gp) (conf_set (gp_conf gp) f_compat (GList (with_compat gp s)) (overlay_owned (gp_conf gp) cfg run)) = Inr pushed"
    and running: "\<not> si_returned s" "si_captured s"
  shows "pushed_from gp s doc ((apply_config gp pushed s)\<lparr>si_current := Some pushed\<rparr>)"
proof -
  have shapes: "shaped (gp_conf gp) run" "config_admitted (gp_conf gp) run" "shaped (gp_conf gp) cfg"
    using run(2) parse_document_shaped [OF laws doc] by (simp_all add: fits_def)
  note b = overlay_admitted [OF laws shapes]
  note r = recompat [OF laws b(1,2) push]
  have "says (gp_conf gp) doc pushed" using doc r(4) b(4) by (auto simp: says_def)
  then show ?thesis
    unfolding pushed_from_def using run r(2) same_owned_trans [OF b(3) r(3)] running readmitted [OF laws run(2) push b(1)]
    by (auto simp: laws)
qed

lemma awp_persist:
  assumes laws: "upstream_laws gp" and start: "runs_document gp old s" "si_current s = Some run" and pushed: "pushed_from gp s doc t"
  shows "awp (persist_or_restore gp doc run actor now) e t (\<lambda>r s'. stays gp e old s s' \<and> (r = Inr () \<longrightarrow> si_doc s' = Some doc \<and> settled gp s'))"
proof -
  obtain new where new: "si_current t = Some new" "si_doc t = si_doc s" "same_owned (gp_conf gp) run new" "fits (gp_conf gp) new" "says (gp_conf gp) doc new"
      "\<not> si_returned t" "si_captured t"
      "admit_config (gp_conf gp) (conf_set (gp_conf gp) f_compat (GList (with_compat gp t)) run) = Inr (conf_set (gp_conf gp) f_compat (GList (with_compat gp t)) run)"
    using pushed start(2) by (auto simp: pushed_from_def)
  have stored: "stays gp e old s (t\<lparr>si_world := w', si_doc := Some doc\<rparr>) \<and> settled gp (t\<lparr>si_world := w', si_doc := Some doc\<rparr>)" for w'
    by (intro conjI, rule stays_running [OF start(2) new(3,4)])
      (simp_all add: new settled_def runs_document_def effective_document_def)
  have "fits (gp_conf gp) run" "says (gp_conf gp) old run" using start by (simp_all add: runs_document_def)
  then have old: "shaped (gp_conf gp) run" "config_admitted (gp_conf gp) run" "says (gp_conf gp) old run"
    by (simp_all add: fits_def)
  let ?reverted = "conf_set (gp_conf gp) f_compat (GList (with_compat gp t)) run"
  note again = recompat [OF laws old(1,2) new(8)]
  have "says (gp_conf gp) old ?reverted" using old(3) again(4) by (auto simp: says_def)
  then have reverted: "stays gp e old s ((apply_config gp ?reverted t')\<lparr>si_current := Some ?reverted\<rparr>)"
    if "si_doc t' = si_doc t \<or> (\<exists>n. fault e n \<and> lost_ack e n)" for t'
    using that by (intro stays_running [OF start(2) again(3,2)]) (simp_all add: new)
  have restored: "awp (abnd (atry (push_config gp run)) (\<lambda>_. araise x)) e t' (\<lambda>r s'. stays gp e old s s' \<and> (r = Inr () \<longrightarrow> si_doc s' = Some doc \<and> settled gp s'))"
    if "si_doc t' = si_doc t \<or> (\<exists>n. fault e n \<and> lost_ack e n)" "with_compat gp t' = with_compat gp t" "\<not> si_returned t'" "si_captured t'" for x and t' :: "'a site"
    using new(8) reverted [OF that(1)] that(2-4) by (simp add: awp_simps awp_push_config)
  show ?thesis
    unfolding persist_or_restore_def awp_abnd [of "atry _"] awp_atry awp_set_upstream_document Let_def
    using stored [of "tick (si_world t)"] new(6,7)
    by (auto simp: awp_aret with_compat_def intro!: restored)
qed

lemma awp_stored_document:
  "awp stored_document e s (\<lambda>r s'. (\<exists>w. s' = s\<lparr>si_world := w\<rparr>) \<and> (\<forall>doc. r = Inr doc \<longrightarrow> doc = effective_document s))"
  by (auto simp: stored_document_def upstream_document_def awp_simps Let_def effective_document_def split: option.split)

lemma awp_proposed_document:
  "awp (proposed_document ck req) e s (\<lambda>r s'. \<exists>w. s' = s\<lparr>si_world := w\<rparr>)"
proof (cases "su_yaml req")
  case None
  have "awp (abnd stored_document (\<lambda>base. alift (patch_document ck base (the (su_fields req))))) e s (\<lambda>r s'. \<exists>w. s' = s\<lparr>si_world := w\<rparr>)"
    by (rule awp_bind [OF awp_stored_document]) (auto simp: awp_simps)
  then show ?thesis by (simp add: proposed_document_def None)
next
  case (Some doc)
  have "s = s\<lparr>si_world := si_world s\<rparr>" by simp
  then show ?thesis unfolding proposed_document_def Some option.case awp_aret by blast
qed

text \<open>What an update did: nothing, or its document runs and is stored; only one that answers an error may leave the one it found running and another stored.\<close>

definition updated_to :: "'u parts \<Rightarrow> env \<Rightarrow> string \<Rightarrow> 'u site \<Rightarrow> update_result result \<Rightarrow> 'u site \<Rightarrow> bool" where
  "updated_to gp e old s r s' \<longleftrightarrow> stays gp e old s s'
     \<and> (\<forall>res. r = Inr res \<longrightarrow> (if ur_applied res then si_doc s' = Some (sv_yaml (ur_settings res)) \<and> settled gp s' else si_doc s' = si_doc s))"

lemma awp_settings_set:
  assumes laws: "upstream_laws gp" and start: "runs_document gp old s"
  shows "awp (settings_set gp actor req) e s (updated_to gp e old s)"
proof -
  let ?ck = "gp_conf gp"
  have unchanged: "updated_to gp e old s (Inl x) (s\<lparr>si_world := w\<rparr>)" for x w using stays_refl [OF start] by (simp add: updated_to_def)
  have unchanged': "updated_to gp e old s (Inl x) s" for x using stays_refl [OF start] by (simp add: updated_to_def)
  have dry: "updated_to gp e old s (Inr res) (s\<lparr>si_world := w\<rparr>)" if "\<not> ur_applied res" for res w
    using stays_refl [OF start] that by (simp add: updated_to_def)
  obtain run where run: "si_current s = Some run" "fits ?ck run" using start by (auto simp: runs_document_def)
  have recorded: "awp (abnd (on_world now_io) (\<lambda>now. abnd (persist_or_restore gp doc run (u_id actor) now) (\<lambda>_.
        abnd (on_world (audit_record (ev now))) (\<lambda>_. aret (res\<lparr>ur_applied := True\<rparr>))))) e t (updated_to gp e old s)"
    if t: "pushed_from gp s doc t" and res: "sv_yaml (ur_settings res) = doc" for doc ev res t
  proof -
    have "awp (abnd (persist_or_restore gp doc run (u_id actor) now) (\<lambda>_. abnd (on_world (audit_record (ev now))) (\<lambda>_. aret (res\<lparr>ur_applied := True\<rparr>))))
        e (t\<lparr>si_world := w'\<rparr>) (updated_to gp e old s)" for now w'
    proof (rule awp_bind [OF awp_persist [OF laws start run(1)]])
      show "pushed_from gp s doc (t\<lparr>si_world := w'\<rparr>)" using t by simp
    next
      fix u :: unit and s' :: "'a site"
      assume "stays gp e old s s' \<and> (Inr u = Inr () \<longrightarrow> si_doc s' = Some doc \<and> settled gp s')"
      then show "awp (abnd (on_world (audit_record (ev now))) (\<lambda>_. aret (res\<lparr>ur_applied := True\<rparr>))) e s' (updated_to gp e old s)"
        using res by (auto simp: awp_simps audit_record_def wp_simps updated_to_def split: sum.split)
    qed (simp add: updated_to_def)
    then show ?thesis unfolding awp_abnd [of "on_world _"] awp_on_world wp_now sum.case by simp
  qed
  have applied: "awp (abnd (push_config gp (overlay_owned ?ck cfg run)) (\<lambda>_. abnd (on_world now_io) (\<lambda>now. abnd (persist_or_restore gp doc run (u_id actor) now) (\<lambda>_.
        abnd (on_world (audit_record (ev now))) (\<lambda>_. aret (res\<lparr>ur_applied := True\<rparr>)))))) e (s\<lparr>si_world := w\<rparr>) (updated_to gp e old s)"
    if doc: "parse_document ?ck doc = Inr cfg" and res: "sv_yaml (ur_settings res) = doc" for cfg doc ev res w
  proof (cases "admit_config ?ck (conf_set ?ck f_compat (GList (with_compat gp s)) (overlay_owned ?ck cfg run))")
    case (Inl x)
    then show ?thesis using unchanged by (simp add: awp_abnd [of "push_config _ _"] awp_push_config)
  next
    case (Inr pushed)
    have "apply_config gp pushed (s\<lparr>si_world := w\<rparr>)\<lparr>si_current := Some pushed\<rparr> = (apply_config gp pushed s)\<lparr>si_current := Some pushed\<rparr>\<lparr>si_world := w\<rparr>"
      by (simp add: apply_config_def)
    then show ?thesis
      using unchanged Inr recorded [OF _ res, of "apply_config gp pushed (s\<lparr>si_world := w\<rparr>)\<lparr>si_current := Some pushed\<rparr>"]
        push_overlay [OF laws run doc Inr]
      by (auto simp: awp_abnd [of "push_config _ _"] awp_push_config)
  qed
  have proposed: "awp (abnd (proposed_document ?ck req) (\<lambda>doc. abnd (alift (parse_document ?ck doc)) (\<lambda>cfg. abnd current_config (\<lambda>cur. K doc cfg cur))))
      e s (updated_to gp e old s)"
    if K: "\<And>doc cfg w. parse_document ?ck doc = Inr cfg \<Longrightarrow> awp (K doc cfg (Some run)) e (s\<lparr>si_world := w\<rparr>) (updated_to gp e old s)" for K
    by (rule awp_bind [OF awp_proposed_document]) (use K unchanged run(1) in \<open>auto simp: awp_steps current_config_def split: sum.split\<close>)
  have last: "awp (if su_dry req then aret res else abnd (push_config gp (overlay_owned ?ck (ck_clone ?ck cfg) run)) (\<lambda>_. abnd (on_world now_io) (\<lambda>now.
        abnd (persist_or_restore gp doc run (u_id actor) now) (\<lambda>_. abnd (on_world (audit_record (ev now))) (\<lambda>_. aret (res\<lparr>ur_applied := True\<rparr>)))))) e (s\<lparr>si_world := w\<rparr>) (updated_to gp e old s)"
    if "parse_document ?ck doc = Inr cfg" "sv_yaml (ur_settings res) = doc" "\<not> ur_applied res" for cfg doc ev res w
    using applied [OF that(1,2)] dry that by (simp add: laws_conf(2) [OF laws] awp_aret)
  show ?thesis
    unfolding settings_set_def Let_def awp_steps
  proof (cases "require_admin actor", goal_cases)
    case (1 x)
    then show ?case using unchanged' by simp
  next
    case (2 u)
    show ?case
    proof (cases "validate_update ?ck req")
      case (Inl x)
      then show ?thesis using 2 unchanged' by simp
    next
      case (Inr v)
      show ?thesis unfolding 2 Inr sum.case
      proof (rule proposed, goal_cases)
        case (1 doc cfg w)
        show ?case
        proof (cases "editable_diff ?ck run (overlay_owned ?ck (ck_clone ?ck cfg) run)")
          case (Inl x)
          then show ?thesis using unchanged by (simp add: awp_steps)
        next
          case (Inr d)
          then show ?thesis using last [OF 1] by (simp add: awp_steps view_of_def)
        qed
      qed
    qed
  qed
qed

end
