(* ===== verification/AccountsRun.thy ===== *)
theory AccountsRun
  imports Accounts SettingsRun
begin

text \<open>
  What the gateway runs, whatever changes of accounts and settings follow its start: a configuration that \<open>admit\<close> lets through, and the stored
  document with the fields the gateway owns.
\<close>

section \<open>How a configuration moves on\<close>

text \<open>Only the entries of the compatible providers follow the accounts.\<close>

definition follows :: "conf_kit \<Rightarrow> goval \<Rightarrow> goval \<Rightarrow> bool" where
  "follows ck a b \<longleftrightarrow> (fits ck a \<longrightarrow> fits ck b \<and> same_owned ck a b \<and> (\<forall>doc. says ck doc a \<longrightarrow> says ck doc b))"

definition moved :: "'u parts \<Rightarrow> 'u site \<Rightarrow> 'u site \<Rightarrow> bool" where
  "moved gp s s' \<longleftrightarrow> si_doc s' = si_doc s
     \<and> (case si_current s of None \<Rightarrow> si_current s' = None | Some a \<Rightarrow> (\<exists>b. si_current s' = Some b \<and> follows (gp_conf gp) a b))"

lemma follows_refl [simp]: "follows ck a a"
  by (simp add: follows_def)

lemma follows_trans: "follows ck a b \<Longrightarrow> follows ck b c \<Longrightarrow> follows ck a c"
  unfolding follows_def using same_owned_trans by blast

lemma moved_same [simp]: "si_doc s' = si_doc s \<Longrightarrow> si_current s' = si_current s \<Longrightarrow> moved gp s s'"
  by (simp add: moved_def split: option.split)

lemma moved_trans: "moved gp s t \<Longrightarrow> moved gp t u \<Longrightarrow> moved gp s u"
  unfolding moved_def by (auto split: option.splits intro: follows_trans)

lemma moved_stays: "runs_document gp doc s \<Longrightarrow> moved gp s s' \<Longrightarrow> stays gp e doc s s' \<and> si_doc s' = si_doc s"
  by (auto simp: stays_def runs_document_def moved_def follows_def owned_same_def)

lemma reapply_moves: "upstream_laws gp \<Longrightarrow> moved gp s (reapply gp s)"
proof -
  assume laws: "upstream_laws gp"
  show ?thesis
  proof (cases "si_current s")
    case None
    then show ?thesis by (simp add: reapply_def)
  next
    case (Some run)
    let ?admit = "admit_config (gp_conf gp) (conf_set (gp_conf gp) f_compat (GList (with_compat gp s)) run)"
    show ?thesis
    proof (cases ?admit)
      case (Inl x)
      then show ?thesis using Some by (simp add: reapply_def laws_conf(2) [OF laws])
    next
      case (Inr "next")
      have "follows (gp_conf gp) run next"
        unfolding follows_def says_def using recompat [OF laws _ _ Inr] by (auto simp: fits_def)
      then show ?thesis using Some Inr by (simp add: reapply_def laws_conf(2) [OF laws] moved_def)
    qed
  qed
qed

section \<open>Operations that move it on\<close>

definition moves :: "'u parts \<Rightarrow> ('u site, 'a) act \<Rightarrow> bool" where
  "moves gp m \<longleftrightarrow> (\<forall>e s. awp m e s (\<lambda>r s'. moved gp s s'))"

named_theorems moving

lemma moves_basic [moving]:
  "moves gp (aret a)" "moves gp (araise x)" "moves gp (alift r)" "moves gp (aget f)" "moves gp (aasks h)" "moves gp (on_world m)"
  by (simp_all add: moves_def awp_simps wp_def split: prod.split)

lemma moves_abnd [moving]:
  assumes "moves gp m" "\<And>a. moves gp (k a)"
  shows "moves gp (abnd m k)"
  unfolding moves_def
proof (intro allI)
  fix e s
  show "awp (abnd m k) e s (\<lambda>r s'. moved gp s s')"
  proof (rule awp_bind [OF assms(1) [unfolded moves_def, rule_format]])
    fix a t assume t: "moved gp s t"
    show "awp (k a) e t (\<lambda>r s'. moved gp s s')"
      by (rule awp_mono [OF assms(2) [unfolded moves_def, rule_format]]) (rule moved_trans [OF t])
  qed
qed

lemma moves_atry [moving]: "moves gp m \<Longrightarrow> moves gp (atry m)"
  by (simp add: moves_def awp_atry)

lemma moves_if [moving]: "(b \<Longrightarrow> moves gp m) \<Longrightarrow> (\<not> b \<Longrightarrow> moves gp m') \<Longrightarrow> moves gp (if b then m else m')"
  by simp

lemma moves_cases [moving]:
  "(\<And>x. moves gp (f x)) \<Longrightarrow> moves gp m \<Longrightarrow> moves gp (case opt of None \<Rightarrow> m | Some x \<Rightarrow> f x)"
  "(\<And>x. moves gp (g x)) \<Longrightarrow> (\<And>y. moves gp (h y)) \<Longrightarrow> moves gp (case r of Inl x \<Rightarrow> g x | Inr y \<Rightarrow> h y)"
  "(\<And>x y. moves gp (q x y)) \<Longrightarrow> moves gp (case p of (x, y) \<Rightarrow> q x y)"
  by (simp_all split: option.split sum.split prod.split)

lemma moves_let [moving]: "(\<And>x. moves gp (f x)) \<Longrightarrow> moves gp (let x = v in f x)"
  by (simp add: Let_def)

lemma moves_put: "(\<And>s. moved gp s (f s)) \<Longrightarrow> moves gp (aput f)"
  by (simp add: moves_def awp_simps)

lemma moves_reload [moving]: "moves gp reload_locked"
  by (simp add: reload_locked_def moving)

lemma moves_store [moving]:
  "moves gp (store_save vk ae creating a)" "moves gp (store_delete i)" "moves gp (store_list vk ae)"
proof -
  have stmt: "moves gp (site_stmt f)" if "\<And>e s a t. f e s = Inr (a, t) \<Longrightarrow> si_doc t = si_doc s \<and> si_current t = si_current s" for f :: "env \<Rightarrow> 'a site \<Rightarrow> ('b \<times> 'a site) result"
    unfolding moves_def awp_site_stmt Let_def by (fastforce split: sum.split dest: that)
  have rows: "moves gp creds_list" "moves gp (creds_upsert row)" "moves gp (creds_update row)" "moves gp (creds_delete i)" for row i
    unfolding creds_list_def creds_upsert_def creds_update_def creds_delete_def by (rule stmt; auto split: if_splits)+
  have forget: "moves gp (aput (forget_digest i))" for i by (rule moves_put) (simp add: forget_digest_def)
  have digests: "moves gp (aput (\<lambda>s. s\<lparr>si_digests := g s\<rparr>))" for g :: "'a site \<Rightarrow> (string \<times> string) list" by (rule moves_put) simp
  have seal: "moves gp (sealer_seal ae key plain)" for key plain by (simp add: sealer_seal_def moving)
  have written: "moves gp (write_row creating row)" for creating row by (simp add: write_row_def rows)
  have "moves gp (write_credential ae creating key prov plain)" for creating key prov plain
    unfolding write_credential_def by (intro moving seal forget written digests)
  then show "moves gp (store_save vk ae creating a)" unfolding store_save_def by (intro moving)
  show "moves gp (store_delete i)" unfolding store_delete_def by (intro moving forget rows)
  show "moves gp (store_list vk ae)" unfolding store_list_def by (intro moving rows digests)
qed

text \<open>Upstream's manager leaves the document and the configuration alone.\<close>

definition manager_moves :: "'u parts \<Rightarrow> bool" where
  "manager_moves gp \<longleftrightarrow> (\<forall>m a. gp_manager gp = Some m \<longrightarrow> moves gp (mg_register m a) \<and> moves gp (mg_update m a) \<and> moves gp (mg_commit m a))"

lemma moves_manager:
  assumes "\<And>m. gp_manager gp = Some m \<Longrightarrow> moves gp (k m)"
  shows "moves gp (abnd (the_manager gp) k)"
  using assms by (auto simp: moves_def the_manager_def awp_steps split: option.split)

lemma moves_account:
  assumes "\<And>m a. gp_manager gp = Some m \<Longrightarrow> moves gp (k (m, a))"
  shows "moves gp (abnd (account_locked gp i) k)"
proof (cases "gp_manager gp")
  case (Some m)
  have "abnd (account_locked gp i) k = abnd reload_locked (\<lambda>_. abnd (aget (\<lambda>s. mg_get m i (si_up s))) (\<lambda>held.
      case held of None \<Rightarrow> araise ENotFound | Some a \<Rightarrow> k (m, a)))"
    by (intro ext) (auto simp: account_locked_def the_manager_def Some abnd_def aret_def araise_def aget_def split: sum.split option.split prod.split)
  then show ?thesis using assms [OF Some] by (simp add: moving)
qed (simp add: account_locked_def the_manager_def moves_def awp_simps)

lemma moves_gateway:
  assumes "upstream_laws gp" "manager_moves gp"
  shows "moves gp (reapply_locked gp)" "moves gp (save_locked gp a)"
    "gp_manager gp = Some m \<Longrightarrow> moves gp (update_held m a)" "gp_manager gp = Some m \<Longrightarrow> moves gp (set_disabled_locked m a b)"
    "moves gp (forget_held m i)" "gp_manager gp = Some m \<Longrightarrow> moves gp (remove_locked gp m a)"
    "gp_manager gp = Some m \<Longrightarrow> moves gp (withdraw_locked gp m key)" "gp_manager gp = Some m \<Longrightarrow> moves gp (register_saved gp m key)"
proof -
  show re: "moves gp (reapply_locked gp)" by (simp add: reapply_locked_def moves_put reapply_moves [OF assms(1)])
  show save: "moves gp (save_locked gp a)" for a unfolding save_locked_def by (intro moving)
  show update: "gp_manager gp = Some m \<Longrightarrow> moves gp (update_held m a)" for m a
    unfolding update_held_def using assms(2) by (intro moving) (simp add: manager_moves_def)
  show disable: "gp_manager gp = Some m \<Longrightarrow> moves gp (set_disabled_locked m a b)" for m a b by (simp add: set_disabled_locked_def update)
  show forget: "moves gp (forget_held m i)" for m i by (simp add: forget_held_def moves_put)
  show remove: "gp_manager gp = Some m \<Longrightarrow> moves gp (remove_locked gp m a)" for m a
    unfolding remove_locked_def by (intro moving re save disable forget)
  show "gp_manager gp = Some m \<Longrightarrow> moves gp (withdraw_locked gp m key)" unfolding withdraw_locked_def by (intro moving remove)
  show "gp_manager gp = Some m \<Longrightarrow> moves gp (register_saved gp m key)"
    unfolding register_saved_def load_locked_def using assms(2) by (intro moving) (simp add: manager_moves_def)
qed

lemma moves_needs [moving]: "moves gp (needs_store gp)" "moves gp (check_store gp)"
  by (simp_all add: needs_store_def check_store_def moving)

lemma moves_changes:
  assumes "upstream_laws gp" "manager_moves gp"
  shows "moves gp (add_locked gp a)" "moves gp (add_account gp oa)" "moves gp (set_account_disabled gp i b)" "moves gp (remove_account gp i)"
    "moves gp (change_proxy gp i p)" "moves gp (change_priority gp i v)" "moves gp (add_compat_provider gp cp)" "moves gp (update_compat_provider gp i cu)"
proof -
  note parts = moves_gateway [OF assms]
  have m: "gp_manager gp = Some m \<Longrightarrow> moves gp (mg_register m a)" "gp_manager gp = Some m \<Longrightarrow> moves gp (mg_commit m a)" for m a
    using assms(2) by (simp_all add: manager_moves_def)
  have keyed: "moves gp (keyed a)" for a unfolding keyed_def by (intro moving)
  show add: "moves gp (add_locked gp a)" for a unfolding add_locked_def by (intro moves_manager moving keyed parts m)
  show "moves gp (add_account gp oa)" unfolding add_account_def by (intro moving add)
  show "moves gp (set_account_disabled gp i b)" unfolding set_account_disabled_def by (rule moves_abnd, intro moving, rule moves_account, simp only: prod.case, (intro moving parts; assumption?))
  show "moves gp (remove_account gp i)" unfolding remove_account_def by (rule moves_abnd, intro moving, rule moves_account, simp add: parts)
  show "moves gp (change_proxy gp i p)" unfolding change_proxy_def by (rule moves_abnd, intro moving, rule moves_abnd, intro moving, rule moves_account, simp only: prod.case, (intro moving parts; assumption?))
  show "moves gp (change_priority gp i v)" unfolding change_priority_def by (rule moves_abnd, intro moving, rule moves_account, simp only: prod.case, (intro moving parts m; assumption?))
  show "moves gp (add_compat_provider gp cp)" unfolding add_compat_provider_def by (intro moving add)
  show "moves gp (update_compat_provider gp i cu)" unfolding update_compat_provider_def by (rule moves_abnd, intro moving, rule moves_account, simp only: prod.case, (intro moving parts; assumption?))
qed

section \<open>From the start on\<close>

text \<open>The configuration the process starts with: the stored document's, with the fields the gateway owns from the environment.\<close>

lemma overlay_forced:
  assumes "upstream_laws gp" "shaped (gp_conf gp) cfg" "overlay_owned (gp_conf gp) doc cfg = cfg"
  shows "overlay_owned (gp_conf gp) doc (forced (gp_conf gp) cfg) = forced (gp_conf gp) cfg"
proof -
  let ?ck = "gp_conf gp"
  note laws = laws_conf(1) [OF assms(1)]
  have flag: "shaped ?ck (force_flag ?ck n b c) \<and> overlay_owned ?ck doc (force_flag ?ck n b c) = force_flag ?ck n b c"
    if "shaped ?ck c \<and> overlay_owned ?ck doc c = c" "n \<in> owned_names" for n b c
    using overlay_set_covered [OF assms(1) _ _ that(2), of c doc "GBool b"] force_flag_set(1) [OF laws, of n c b] owned_in_names that
    by (auto simp: force_flag_def)
  show ?thesis unfolding forced_def using assms(2,3) by (intro flag [THEN conjunct2] flag) (simp_all add: owned_names_def)
qed

lemma boot_settles:
  assumes laws: "upstream_laws gp" and owner: "shaped (gp_conf gp) owner"
    and load: "load_boot_config (gp_conf gp) (Some owner) e s0 = (Inr cfg, s1)"
    and start: "pm_config pm = Some cfg" "new_gateway gp pm e s1 = (Inr (), s2)"
  shows "settled gp s2"
proof -
  let ?ck = "gp_conf gp"
  have "awp (load_boot_config ?ck (Some owner)) e s0 (\<lambda>r s'. si_doc s' = si_doc s0 \<and> (\<forall>cfg. r = Inr cfg
      \<longrightarrow> (\<exists>doc. parse_document ?ck (effective_document s0) = Inr doc \<and> cfg = overlay_owned ?ck doc owner)))"
    unfolding load_boot_config_def option.case
    by (rule awp_bind [OF awp_stored_document]) (auto simp: awp_simps split: sum.split)
  from awp_run [OF this load] obtain doc where doc: "si_doc s1 = si_doc s0" "parse_document ?ck (effective_document s0) = Inr doc" "cfg = overlay_owned ?ck doc owner"
    by blast
  have shapes: "shaped ?ck doc" "shaped ?ck cfg"
    using parse_document_shaped [OF laws doc(2)] overlay_shaped [OF _ owner] by (simp_all add: doc(3) overlay_owned_def laws_conf(2) [OF laws])
  let ?c = "conf_set ?ck f_compat (GList (conf_list ?ck f_compat cfg @ map (ck_entry ?ck) (compat_entries (pm_stored pm)))) cfg"
  obtain run where run: "admit_config ?ck ?c = Inr run" "si_current s2 = Some run" "si_doc s2 = si_doc s1"
    using awp_eq [of "new_gateway gp pm" e s1] start
    by (auto simp: new_gateway_def boot_compat_def Let_def awp_steps awp_simps split: sum.splits if_splits option.splits)
  have c: "shaped ?ck ?c" "overlay_owned ?ck doc ?c = ?c"
    using laws_conf(1) [OF laws] shapes(2) in_conf_names(6) overlay_set_covered [OF laws shapes(2), of doc f_compat] overlay_again [OF laws shapes(1), of owner]
    by (simp_all add: struct_laws_def shaped_set owned_names_def doc(3))
  have "run = forced ?ck ?c" using run(1) by (simp add: admit_config_Inr)
  then have "fits ?ck run" "overlay_owned ?ck doc run = run"
    using admit_admitted [OF laws_conf(1) [OF laws] c(1) run(1)] overlay_forced [OF laws c] run(1) laws_conf(4) [OF laws]
    by (auto simp: fits_def admit_config_Inr)
  then show ?thesis using run doc(1,2) by (auto simp: settled_def runs_document_def says_def effective_document_def)
qed

text \<open>What may happen to a running gateway: calls of the settings service and of the gateway, upstream's own doings (a token refreshed and saved, any
  change of its state), the reload handed over, and the end of the run.\<close>

datatype 'u site_call =
    SettingsRead user | SettingsWrite user settings_update
  | AccountAdd "auth option" | AccountDisable string bool | AccountRemove string | AccountPriority string int | AccountProxy string proxy_choice
  | CompatAdd compat_provider | CompatUpdate string compat_update
  | RuntimeSave auth | UpstreamMoves 'u | ReloadCaptured | RunReturned

definition site_step :: "'u parts \<Rightarrow> env \<Rightarrow> 'u site_call \<Rightarrow> 'u site \<Rightarrow> 'u site" where
  "site_step gp e c s = (case c of
     SettingsRead actor \<Rightarrow> snd (settings_get gp actor e s)
   | SettingsWrite actor req \<Rightarrow> snd (settings_set gp actor req e s)
   | AccountAdd a \<Rightarrow> snd (add_account gp a e s)
   | AccountDisable i b \<Rightarrow> snd (set_account_disabled gp i b e s)
   | AccountRemove i \<Rightarrow> snd (remove_account gp i e s)
   | AccountPriority i v \<Rightarrow> snd (change_priority gp i v e s)
   | AccountProxy i p \<Rightarrow> snd (change_proxy gp i p e s)
   | CompatAdd p \<Rightarrow> snd (add_compat_provider gp p e s)
   | CompatUpdate i u \<Rightarrow> snd (update_compat_provider gp i u e s)
   | RuntimeSave a \<Rightarrow> snd (store_save (gp_kit gp) (gp_aead gp) False a e s)
   | UpstreamMoves u \<Rightarrow> s\<lparr>si_up := u\<rparr>
   | ReloadCaptured \<Rightarrow> s\<lparr>si_captured := True\<rparr>
   | RunReturned \<Rightarrow> s\<lparr>si_returned := True\<rparr>)"

lemma moves_run: "moves gp m \<Longrightarrow> moved gp s (snd (m e s))"
  unfolding moves_def awp_snd by blast

lemma awp_settings_get: "awp (settings_get gp actor) e s (\<lambda>r s'. si_doc s' = si_doc s \<and> si_current s' = si_current s)"
proof (cases "require_admin actor")
  case (Inr u)
  have "awp (abnd stored_document (\<lambda>doc. abnd (alift (parse_document (gp_conf gp) doc)) (\<lambda>cfg. aret (view_of (gp_conf gp) doc cfg)))) e s
      (\<lambda>r s'. si_doc s' = si_doc s \<and> si_current s' = si_current s)"
    by (rule awp_bind [OF awp_stored_document]) (auto simp: awp_steps awp_aret split: sum.split)
  then show ?thesis by (simp add: settings_get_def awp_steps Inr)
qed (simp add: settings_get_def awp_steps)

text \<open>A write whose acknowledgement is lost: the call answers an error, and its document is stored all the same.\<close>

definition lost_write :: "'u parts \<Rightarrow> env \<Rightarrow> 'u site_call \<Rightarrow> 'u site \<Rightarrow> bool" where
  "lost_write gp e c s \<longleftrightarrow> (\<exists>n. fault e n \<and> lost_ack e n)
     \<and> (\<exists>actor req x t. c = SettingsWrite actor req \<and> settings_set gp actor req e s = (Inl x, t) \<and> si_doc t \<noteq> si_doc s)"

lemma site_step_stays:
  assumes "upstream_laws gp" "manager_moves gp" "runs_document gp doc s"
  shows "stays gp e doc s (site_step gp e c s) \<and> (si_doc (site_step gp e c s) = si_doc s \<or> settled gp (site_step gp e c s) \<or> lost_write gp e c s)"
proof -
  have stays: "stays gp e doc s s' \<and> si_doc s' = si_doc s" if "moved gp s s'" for s'
    using moved_stays [OF assms(3) that] by blast
  note changes = moves_changes [OF assms(1,2), THEN moves_run, THEN stays]
  have rest: "stays gp e doc s (s\<lparr>si_up := u\<rparr>)" "stays gp e doc s (s\<lparr>si_captured := True\<rparr>)" "stays gp e doc s (s\<lparr>si_returned := True\<rparr>)" for u
    by (intro stays [THEN conjunct1] moved_same; simp)+
  show ?thesis
  proof (cases c)
    case (SettingsWrite actor req)
    obtain r t where run: "settings_set gp actor req e s = (r, t)" by (cases "settings_set gp actor req e s")
    from awp_run [OF awp_settings_set [OF assms(1,3)] run] have u: "updated_to gp e doc s r t" .
    show ?thesis
    proof (cases r)
      case (Inl x)
      then show ?thesis using u run by (auto simp: updated_to_def stays_def lost_write_def site_step_def SettingsWrite)
    next
      case (Inr res)
      then show ?thesis using u run by (auto simp: updated_to_def site_step_def SettingsWrite split: if_splits)
    qed
  next
    case (SettingsRead actor)
    have "moved gp s (snd (settings_get gp actor e s))" using awp_settings_get [of gp actor e s] unfolding awp_snd by (intro moved_same) simp_all
    from stays [OF this] show ?thesis by (simp add: site_step_def SettingsRead)
  next
    case (RuntimeSave a)
    then have "site_step gp e c s = snd (store_save (gp_kit gp) (gp_aead gp) False a e s)" by (simp add: site_step_def)
    then show ?thesis using stays [OF moves_run [OF moves_store(1)]] by metis
  qed (simp_all add: site_step_def changes rest)
qed

text \<open>What runs after some calls: the stored document, or the one that was stored before the acknowledgement of a write was lost.\<close>

definition in_force_after :: "'u parts \<Rightarrow> env \<Rightarrow> 'u site_call list \<Rightarrow> 'u site \<Rightarrow> bool" where
  "in_force_after gp e calls s \<longleftrightarrow> settled gp (fold (site_step gp e) calls s)
     \<or> (\<exists>before c after. calls = before @ c # after \<and> settled gp (fold (site_step gp e) before s) \<and> lost_write gp e c (fold (site_step gp e) before s)
          \<and> runs_document gp (effective_document (fold (site_step gp e) before s)) (fold (site_step gp e) calls s))"

lemma in_force_runs: "in_force_after gp e calls s \<Longrightarrow> \<exists>doc. runs_document gp doc (fold (site_step gp e) calls s)"
  unfolding in_force_after_def settled_def by blast

lemma in_force_step:
  assumes "upstream_laws gp" "manager_moves gp" "in_force_after gp e calls s"
  shows "in_force_after gp e (calls @ [c]) s"
proof -
  let ?t = "fold (site_step gp e) calls s"
  from assms(3) show ?thesis unfolding in_force_after_def [of _ _ calls]
  proof (elim disjE exE conjE)
    assume start: "settled gp ?t"
    note step = site_step_stays [OF assms(1,2) start [unfolded settled_def], of e c]
    show ?thesis
    proof (cases "si_doc (site_step gp e c ?t) = si_doc ?t \<or> settled gp (site_step gp e c ?t)")
      case True
      then have "settled gp (site_step gp e c ?t)" using step by (auto simp: stays_def settled_def effective_document_def)
      then show ?thesis by (simp add: in_force_after_def)
    next
      case False
      then have "lost_write gp e c ?t" "runs_document gp (effective_document ?t) (site_step gp e c ?t)" using step by (auto simp: stays_def)
      then have "calls @ [c] = calls @ c # [] \<and> settled gp ?t \<and> lost_write gp e c ?t
          \<and> runs_document gp (effective_document ?t) (fold (site_step gp e) (calls @ [c]) s)" using start by simp
      then show ?thesis unfolding in_force_after_def by blast
    qed
  next
    fix before l after
    assume split: "calls = before @ l # after" "settled gp (fold (site_step gp e) before s)" "lost_write gp e l (fold (site_step gp e) before s)"
      and runs: "runs_document gp (effective_document (fold (site_step gp e) before s)) ?t"
    from site_step_stays [OF assms(1,2) runs, of e c]
    have "settled gp (site_step gp e c ?t) \<or> runs_document gp (effective_document (fold (site_step gp e) before s)) (site_step gp e c ?t)"
      by (auto simp: stays_def)
    moreover have "calls @ [c] = before @ l # (after @ [c])" using split(1) by simp
    ultimately show ?thesis using split(2,3) unfolding in_force_after_def fold_append comp_apply fold.simps id_apply by blast
  qed
qed

lemma in_force_owned:
  assumes "upstream_laws gp" "manager_moves gp" "settled gp s"
  shows "in_force_after gp e calls s \<and> owned_same gp s (fold (site_step gp e) calls s)"
proof (induction calls rule: rev_induct)
  case Nil
  then show ?case using assms(3) by (simp add: in_force_after_def owned_same_def)
next
  case (snoc c calls)
  let ?t = "fold (site_step gp e) calls s"
  obtain doc where runs: "runs_document gp doc ?t" using in_force_runs snoc by blast
  from site_step_stays [OF assms(1,2) runs, of e c] have "owned_same gp ?t (site_step gp e c ?t)" by (simp add: stays_def)
  moreover have "si_current ?t \<noteq> None" using runs by (auto simp: runs_document_def)
  ultimately have "owned_same gp s (site_step gp e c ?t)" using snoc owned_same_trans by blast
  then show ?case using in_force_step [OF assms(1,2)] snoc by simp
qed

text \<open>C7: the stored document is what runs. From a start on the stored document and the environment's own settings, whatever calls of the settings
  service and of the gateway follow, in any order and failing wherever they may, with upstream changing its accounts meanwhile: the running configuration is one that may run,
  what the gateway owns is as it started, but for the entries of the compatible providers, and outside that it is the stored document's. The one exception is a write that
  committed and whose acknowledgement was lost: its caller was told of an error, and what runs on is the document stored before it, until an update is applied, which is then both
  stored and running, or the next start.\<close>

theorem stored_is_what_runs:
  assumes "upstream_laws gp" "manager_moves gp" "shaped (gp_conf gp) owner"
    and "load_boot_config (gp_conf gp) (Some owner) e s0 = (Inr cfg, s1)"
    and "pm_config pm = Some cfg" "new_gateway gp pm e s1 = (Inr (), s2)"
  shows "in_force_after gp e calls s2 \<and> owned_same gp s2 (fold (site_step gp e) calls s2)
    \<and> (\<forall>actor req res t. settings_set gp actor req e (fold (site_step gp e) calls s2) = (Inr res, t) \<longrightarrow> ur_applied res
         \<longrightarrow> settled gp t \<and> si_doc t = Some (sv_yaml (ur_settings res)))"
proof -
  have "settled gp s2" by (rule boot_settles [OF assms(1,3,4,5,6)])
  then have after: "in_force_after gp e calls s2 \<and> owned_same gp s2 (fold (site_step gp e) calls s2)" by (rule in_force_owned [OF assms(1,2)])
  then obtain doc where runs: "runs_document gp doc (fold (site_step gp e) calls s2)" using in_force_runs by blast
  have "settled gp t \<and> si_doc t = Some (sv_yaml (ur_settings res))"
    if "settings_set gp actor req e (fold (site_step gp e) calls s2) = (Inr res, t)" "ur_applied res" for actor req res t
    using awp_run [OF awp_settings_set [OF assms(1) runs] that(1)] that(2) by (simp add: updated_to_def)
  then show ?thesis using after by blast
qed

end
