(* ===== verification/AccountsEffect.thy ===== *)
theory AccountsEffect
  imports Accounts
begin

text \<open>
  What the changes of accounts come to: a removed account is gone from the manager, from the routes and from the store, and one that could not be removed is left disabled;
  an account added is the one a restart would load, and one that could not be added is not routed to.
\<close>

section \<open>What is relied on of the manager\<close>

text \<open>\<open>regs u\<close> are the accounts upstream's registry has models of. A reload registers the enabled accounts held that the configuration offers models for,
  \<open>offers\<close> (of a compatible provider, only where it has the provider's entry), and unregisters every other one held; a bare removal leaves the registrations. Registering gives
  an account without an id a fresh one. What the manager updates or registers it saves as a runtime save, so it adds no row and changes no other row, and a row that
  loads as the account it registers goes on to load as what it registered.\<close>

definition same_account :: "auth \<Rightarrow> auth \<Rightarrow> bool" where
  "same_account a b \<longleftrightarrow> au_file b = au_file a \<and> au_provider b = au_provider a \<and> au_label b = au_label a \<and> au_prefix b = au_prefix a \<and> au_proxy b = au_proxy a
     \<and> au_disabled b = au_disabled a \<and> (\<forall>key. meta_field key (au_meta b) = meta_field key (au_meta a)) \<and> (\<forall>key. attr_of key (au_attrs b) = attr_of key (au_attrs a))"

text \<open>A row of the store that loads as the account.\<close>

definition stored_as :: "'u parts \<Rightarrow> 'u site \<Rightarrow> auth \<Rightarrow> bool" where
  "stored_as gp s a \<longleftrightarrow> (\<exists>row \<in> set (si_creds s). \<exists>plain. cr_id row = au_id a
     \<and> sealer_open (gp_aead gp) (cr_id row) (cr_sealed row) = Inr plain \<and> auth_from_row (gp_kit gp) row plain = Inr a)"

definition updates_held :: "'u manager \<Rightarrow> ('u \<Rightarrow> string set) \<Rightarrow> auth \<Rightarrow> 'u site \<Rightarrow> auth option result \<Rightarrow> 'u site \<Rightarrow> bool" where
  "updates_held m regs a s r s' \<longleftrightarrow> row_ids s' = row_ids s \<and> rest_kept (credential_key a) s s' \<and> si_current s' = si_current s \<and> regs (si_up s') = regs (si_up s)
     \<and> (case r of
          Inr (Some b) \<Rightarrow> au_id b = au_id a \<and> au_disabled b = au_disabled a \<and> credential_key b = credential_key a
            \<and> au_id a \<in> au_id ` set (mg_list m (si_up s))
            \<and> mg_list m (si_up s') = map (\<lambda>c. if au_id c = au_id a then b else c) (mg_list m (si_up s))
        | _ \<Rightarrow> mg_list m (si_up s') = mg_list m (si_up s))"

text \<open>The accounts held but one.\<close>

definition other_auths :: "string \<Rightarrow> auth list \<Rightarrow> auth set" where
  "other_auths i as = {c \<in> set as. au_id c \<noteq> i}"

definition registers :: "'u parts \<Rightarrow> 'u manager \<Rightarrow> ('u \<Rightarrow> string set) \<Rightarrow> auth \<Rightarrow> 'u site \<Rightarrow> auth result \<Rightarrow> 'u site \<Rightarrow> bool" where
  "registers gp m regs a s r s' \<longleftrightarrow> row_ids s' = row_ids s \<and> (credential_key a \<noteq> [] \<longrightarrow> rest_kept (credential_key a) s s')
     \<and> si_current s' = si_current s \<and> regs (si_up s') = regs (si_up s)
     \<and> (distinct (map au_id (mg_list m (si_up s))) \<longrightarrow> distinct (map au_id (mg_list m (si_up s'))))
     \<and> (case r of
          Inr b \<Rightarrow> (if au_id a \<noteq> [] then au_id b = au_id a else au_id b \<notin> au_id ` set (mg_list m (si_up s))) \<and> same_account a b
            \<and> b \<in> set (mg_list m (si_up s')) \<and> other_auths (au_id b) (mg_list m (si_up s')) = other_auths (au_id b) (mg_list m (si_up s))
            \<and> (stored_as gp s a \<longrightarrow> (\<exists>c. stored_as gp s' c \<and> au_id c = au_id a \<and> same_account c b))
        | Inl _ \<Rightarrow> mg_list m (si_up s') = mg_list m (si_up s))"

definition manager_laws :: "'u parts \<Rightarrow> 'u manager \<Rightarrow> ('u \<Rightarrow> string set) \<Rightarrow> (goval \<Rightarrow> auth \<Rightarrow> bool) \<Rightarrow> bool" where
  "manager_laws gp m regs offers \<longleftrightarrow>
     (\<forall>i u. mg_get m i u = find (\<lambda>a. au_id a = i) (mg_list m u))
     \<and> (\<forall>a e s. awp (mg_update m a) e s (updates_held m regs a s))
     \<and> (\<forall>a e s. awp (mg_register m a) e s (registers gp m regs a s))
     \<and> (\<forall>i u. mg_list m (mg_remove m i u) = filter (\<lambda>a. au_id a \<noteq> i) (mg_list m u) \<and> regs (mg_remove m i u) = regs u)
     \<and> (\<forall>cfg u. mg_list m (gp_reload gp cfg u) = mg_list m u
          \<and> (\<forall>i. i \<in> regs (gp_reload gp cfg u) \<longleftrightarrow>
               (if i \<in> au_id ` set (mg_list m u) then \<exists>a \<in> set (mg_list m u). au_id a = i \<and> \<not> au_disabled a \<and> offers cfg a else i \<in> regs u)))
     \<and> (\<forall>u. mg_list m (gp_claim gp u) = mg_list m u \<and> regs (gp_claim gp u) = regs u)"

lemma mlaws:
  assumes "manager_laws gp m regs offers"
  shows "mg_get m i u = find (\<lambda>a. au_id a = i) (mg_list m u)" "awp (mg_update m a) e s (updates_held m regs a s)" "awp (mg_register m a) e s (registers gp m regs a s)"
    "mg_list m (mg_remove m i u) = filter (\<lambda>a. au_id a \<noteq> i) (mg_list m u)" "regs (mg_remove m i u) = regs u"
    "mg_list m (gp_reload gp cfg u) = mg_list m u"
    "i \<in> regs (gp_reload gp cfg u) \<longleftrightarrow>
       (if i \<in> au_id ` set (mg_list m u) then \<exists>a \<in> set (mg_list m u). au_id a = i \<and> \<not> au_disabled a \<and> offers cfg a else i \<in> regs u)"
    "mg_list m (gp_claim gp u) = mg_list m u" "regs (gp_claim gp u) = regs u"
  using assms unfolding manager_laws_def by auto

section \<open>Re-applying\<close>

definition held_list :: "'u manager \<Rightarrow> 'u site \<Rightarrow> auth list" where
  "held_list m s = mg_list m (si_up s)"

lemma reapply_rows [simp]: "row_ids (reapply gp s) = row_ids s" "si_creds (reapply gp s) = si_creds s"
  by (simp_all add: reapply_def row_ids_def apply_config_def split: option.split sum.split)

text \<open>The configuration that runs.\<close>

definition running :: "'u site \<Rightarrow> goval" where
  "running s = the (si_current s)"

lemma reapply_held:
  assumes "manager_laws gp m regs offers"
  shows "held_list m (reapply gp s) = held_list m s"
    "si_current s \<noteq> None \<Longrightarrow> i \<in> regs (si_up (reapply gp s)) \<longleftrightarrow>
       (if i \<in> au_id ` set (held_list m s) then \<exists>a \<in> set (held_list m s). au_id a = i \<and> \<not> au_disabled a \<and> offers (running (reapply gp s)) a else i \<in> regs (si_up s))"
    "si_current (reapply gp s) = None \<longleftrightarrow> si_current s = None"
  by (auto simp: reapply_def held_list_def running_def apply_config_def mlaws [OF assms] split: option.split sum.split)

lemma one_held: "distinct (map au_id as) \<Longrightarrow> a \<in> set as \<Longrightarrow> b \<in> set as \<Longrightarrow> au_id b = au_id a \<Longrightarrow> b = a"
  by (auto simp: distinct_map inj_on_def)

lemma reapply_routes:
  assumes "manager_laws gp m regs offers" "si_current s \<noteq> None" "a \<in> set (held_list m s)" "distinct (map au_id (held_list m s))"
  shows "au_id a \<in> regs (si_up (reapply gp s)) \<longleftrightarrow> \<not> au_disabled a \<and> offers (running (reapply gp s)) a"
  using reapply_held(2) [OF assms(1,2), of "au_id a"] assms(3) one_held [OF assms(4,3)] by auto

text \<open>The accounts upstream holds or routes to.\<close>

definition known :: "'u manager \<Rightarrow> ('u \<Rightarrow> string set) \<Rightarrow> 'u site \<Rightarrow> string set" where
  "known m regs s = regs (si_up s) \<union> au_id ` set (held_list m s)"

lemma reapply_known:
  assumes "manager_laws gp m regs offers"
  shows "known m regs (reapply gp s) \<subseteq> known m regs s"
proof -
  have "i \<in> regs (si_up s) \<union> au_id ` set (held_list m s)" if "i \<in> regs (si_up (reapply gp s))" for i
    using that by (auto simp: reapply_def held_list_def apply_config_def mlaws [OF assms] split: option.splits sum.splits if_splits)
  then show ?thesis using reapply_held(1) [OF assms] by (auto simp: known_def)
qed

section \<open>Removing\<close>

text \<open>An account removed: not held, not routed to, its row gone.\<close>

definition gone :: "'u manager \<Rightarrow> ('u \<Rightarrow> string set) \<Rightarrow> string \<Rightarrow> string \<Rightarrow> 'u site \<Rightarrow> bool" where
  "gone m regs i key s \<longleftrightarrow> i \<notin> au_id ` set (held_list m s) \<and> i \<notin> regs (si_up s) \<and> key \<notin> row_ids s"

text \<open>An account held back: still held, disabled and not routed to.\<close>

definition held_back :: "'u manager \<Rightarrow> ('u \<Rightarrow> string set) \<Rightarrow> string \<Rightarrow> 'u site \<Rightarrow> bool" where
  "held_back m regs i s \<longleftrightarrow> (\<exists>b \<in> set (held_list m s). au_id b = i \<and> au_disabled b) \<and> i \<notin> regs (si_up s)"

text \<open>Nothing of the accounts has changed.\<close>

definition same_accounts :: "'u manager \<Rightarrow> ('u \<Rightarrow> string set) \<Rightarrow> 'u site \<Rightarrow> 'u site \<Rightarrow> bool" where
  "same_accounts m regs s s' \<longleftrightarrow> held_list m s' = held_list m s \<and> regs (si_up s') = regs (si_up s) \<and> row_ids s' = row_ids s"

text \<open>The other accounts: held as they were, and so are their rows; and those in the routes stay there, while the configuration offers models for them.\<close>

definition others_kept :: "'u manager \<Rightarrow> string \<Rightarrow> string \<Rightarrow> 'u site \<Rightarrow> 'u site \<Rightarrow> bool" where
  "others_kept m i key s s' \<longleftrightarrow> other_auths i (held_list m s') = other_auths i (held_list m s) \<and> rest_kept key s s'"

definition others_routed :: "'u manager \<Rightarrow> ('u \<Rightarrow> string set) \<Rightarrow> (goval \<Rightarrow> auth \<Rightarrow> bool) \<Rightarrow> string \<Rightarrow> 'u site \<Rightarrow> 'u site \<Rightarrow> bool" where
  "others_routed m regs offers i s s' \<longleftrightarrow>
     (\<forall>c \<in> other_auths i (held_list m s). au_id c \<in> regs (si_up s) \<longrightarrow> \<not> au_disabled c \<longrightarrow> offers (running s') c \<longrightarrow> au_id c \<in> regs (si_up s'))
     \<and> (\<forall>j. j \<notin> au_id ` set (held_list m s) \<longrightarrow> (j \<in> regs (si_up s') \<longleftrightarrow> j \<in> regs (si_up s)))"

definition removed_or_not ::
  "'u manager \<Rightarrow> ('u \<Rightarrow> string set) \<Rightarrow> (goval \<Rightarrow> auth \<Rightarrow> bool) \<Rightarrow> string \<Rightarrow> string \<Rightarrow> 'u site \<Rightarrow> unit result \<Rightarrow> 'u site \<Rightarrow> bool" where
  "removed_or_not m regs offers i key s r s' \<longleftrightarrow>
     (case r of Inr _ \<Rightarrow> gone m regs i key s' | Inl _ \<Rightarrow> same_accounts m regs s s' \<or> held_back m regs i s')
     \<and> row_ids s' \<subseteq> row_ids s \<and> others_kept m i key s s' \<and> others_routed m regs offers i s s' \<and> known m regs s' \<subseteq> known m regs s"

lemma mark_disabled_key [simp]: "credential_key (mark_disabled b a) = credential_key a"
  by (simp add: mark_disabled_def credential_key_def Let_def)

lemma rest_kept_trans: "rest_kept key s t \<Longrightarrow> rest_kept key t u \<Longrightarrow> rest_kept key s u"
  by (simp add: rest_kept_def)

lemma rest_kept_same: "si_creds s' = si_creds s \<Longrightarrow> rest_kept key s s'"
  by (simp add: rest_kept_def)

lemma other_auths_map: "au_id b = i \<Longrightarrow> other_auths i (map (\<lambda>c. if au_id c = i then b else c) as) = other_auths i as"
  by (auto simp: other_auths_def)

lemma other_auths_filter [simp]: "other_auths i (filter (\<lambda>c. au_id c \<noteq> i) as) = other_auths i as"
  by (auto simp: other_auths_def)

lemma store_held:
  assumes "store_frame s s'"
  shows "held_list m s' = held_list m s" "si_up s' = si_up s" "si_current s' = si_current s"
  using assms by (simp_all add: store_frame_def held_list_def)

lemma awp_save_locked:
  assumes "cipher_opens (gp_aead gp)"
  shows "awp (save_locked gp a) e s (\<lambda>r s'. store_frame s s' \<and> row_ids s' = row_ids s \<and> rest_kept (credential_key a) s s')"
proof -
  have "awp (store_save (gp_kit gp) (gp_aead gp) False a) e s (\<lambda>r s'. store_frame s s' \<and> row_ids s' = row_ids s \<and> rest_kept (credential_key a) s s')"
    by (rule awp_mono [OF awp_store_save [OF assms]]) (simp add: credential_saved_def)
  then show ?thesis
    unfolding save_locked_def by (auto simp: awp_aret store_frame_refl rest_kept_same intro!: awp_bind)
qed

lemma awp_update_held:
  assumes "manager_laws gp m regs offers"
  shows "awp (update_held m a) e s (\<lambda>r s'. case r of
      Inr b \<Rightarrow> updates_held m regs a s (Inr (Some b)) s'
    | Inl _ \<Rightarrow> same_accounts m regs s s' \<and> rest_kept (credential_key a) s s' \<and> si_current s' = si_current s)"
  unfolding update_held_def
  by (rule awp_bind [OF mlaws(2) [OF assms]])
    (auto simp: awp_simps updates_held_def same_accounts_def held_list_def split: option.split)

lemma awp_remove_locked:
  fixes s :: "'u site"
  assumes laws: "manager_laws gp m regs offers" and cipher: "cipher_opens (gp_aead gp)"
    and held: "a \<in> set (held_list m s)" "distinct (map au_id (held_list m s))" and cur: "si_current s \<noteq> None"
  shows "awp (remove_locked gp m a) e s (removed_or_not m regs offers (au_id a) (credential_key a) s)"
  unfolding remove_locked_def set_disabled_locked_def
proof (rule awp_bind [OF awp_update_held [OF laws]])
  fix x :: err and s' :: "'u site"
  assume "case Inl x of Inr b \<Rightarrow> updates_held m regs (mark_disabled True a) s (Inr (Some b)) s'
    | Inl _ \<Rightarrow> same_accounts m regs s s' \<and> rest_kept (credential_key (mark_disabled True a)) s s' \<and> si_current s' = si_current s"
  then show "removed_or_not m regs offers (au_id a) (credential_key a) s (Inl x) s'"
    by (auto simp: removed_or_not_def same_accounts_def known_def others_kept_def others_routed_def other_auths_def)
next
  fix b and t :: "'u site"
  assume "case Inr b of Inr b \<Rightarrow> updates_held m regs (mark_disabled True a) s (Inr (Some b)) t
    | Inl _ \<Rightarrow> same_accounts m regs s t \<and> rest_kept (credential_key (mark_disabled True a)) s t \<and> si_current t = si_current s"
  then have b: "au_id b = au_id a" "au_disabled b" "row_ids t = row_ids s" "si_current t = si_current s" "regs (si_up t) = regs (si_up s)"
      "credential_key b = credential_key a" "rest_kept (credential_key a) s t"
    and list: "held_list m t = map (\<lambda>c. if au_id c = au_id a then b else c) (held_list m s)"
    by (simp_all add: updates_held_def held_list_def) (simp_all add: mark_disabled_def)
  let ?r = "reapply gp t"
  have ids: "map au_id (held_list m t) = map au_id (held_list m s)" using b(1) by (simp add: list)
  then have dist: "distinct (map au_id (held_list m t))" using held(2) by simp
  have bt: "b \<in> set (held_list m t)" using held(1) by (auto simp: list)
  have r: "held_list m ?r = held_list m t" "row_ids ?r = row_ids s" "rest_kept (credential_key a) s ?r"
    using reapply_held(1) [OF laws] b(3,7) by (simp_all add: rest_kept_def)
  have routes: "au_id c \<in> regs (si_up ?r) \<longleftrightarrow> \<not> au_disabled c \<and> offers (running ?r) c" if "c \<in> set (held_list m t)" for c
    using reapply_routes [OF laws _ that dist] cur b(4) by simp
  have out: "au_id a \<notin> regs (si_up ?r)" using routes [OF bt] b(1,2) by simp
  have same: "other_auths (au_id a) (held_list m ?r) = other_auths (au_id a) (held_list m s)" using other_auths_map [OF b(1)] by (simp add: r(1) list)
  have knows: "known m regs ?r \<subseteq> known m regs s"
    using reapply_known [OF laws, of t] arg_cong [OF ids, of set] b(5) by (auto simp: known_def)
  have routed: "others_routed m regs offers (au_id a) s u" if "regs (si_up u) = regs (si_up ?r)" "si_current u = si_current ?r" for u :: "'u site"
  proof -
    have "au_id c \<in> regs (si_up ?r)" if "c \<in> other_auths (au_id a) (held_list m s)" "\<not> au_disabled c" "offers (running ?r) c" for c
      using routes [of c] that same r(1) by (auto simp: other_auths_def)
    moreover have "j \<in> regs (si_up ?r) \<longleftrightarrow> j \<in> regs (si_up s)" if "j \<notin> au_id ` set (held_list m s)" for j
      using reapply_held(2) [OF laws, of t j] cur b(4,5) that arg_cong [OF ids, of set] by auto
    ultimately show ?thesis using that by (simp add: others_routed_def running_def)
  qed
  have kept: "removed_or_not m regs offers (au_id a) (credential_key a) s (Inl x) u"
    if "store_frame ?r u" "row_ids u \<subseteq> row_ids ?r" "rest_kept (credential_key a) ?r u" for x and u :: "'u site"
    using that(2) store_held [OF that(1)] bt b(1,2) r out same knows routed [of u] rest_kept_trans [OF r(3) that(3)]
    by (auto simp: removed_or_not_def held_back_def known_def others_kept_def)
  show "awp (abnd (reapply_locked gp) (\<lambda>_. abnd (atry (store_delete (credential_key a))) (\<lambda>r. case r of
      Inl x \<Rightarrow> abnd (atry (save_locked gp b)) (\<lambda>_. araise x) | Inr _ \<Rightarrow> forget_held m (au_id a)))) e t
      (removed_or_not m regs offers (au_id a) (credential_key a) s)"
    unfolding reapply_locked_def awp_steps awp_abnd [of "atry _"] awp_atry sum.case
  proof (rule awp_mono [OF awp_store_delete [where ae = "gp_aead gp"]])
    fix q :: "unit result" and u :: "'u site"
    assume q: "rest_kept (credential_key a) ?r u \<and> (digests_true e (gp_aead gp) ?r \<longrightarrow> digests_true e (gp_aead gp) u) \<and> store_frame ?r u
        \<and> row_ids u \<subseteq> row_ids ?r \<and> (q = Inr () \<longrightarrow> credential_key a \<notin> row_ids u)"
    show "awp (case q of Inl x \<Rightarrow> abnd (atry (save_locked gp b)) (\<lambda>_. araise x) | Inr _ \<Rightarrow> forget_held m (au_id a)) e u
        (removed_or_not m regs offers (au_id a) (credential_key a) s)"
    proof (cases q)
      case (Inl x)
      have "removed_or_not m regs offers (au_id a) (credential_key a) s (Inl x) s'"
        if "store_frame u s'" "row_ids s' = row_ids u" "rest_kept (credential_key a) u s'" for s' :: "'u site"
        using q that rest_kept_trans by (intro kept) (auto simp: store_frame_def)
      then have "awp (save_locked gp b) e u (\<lambda>r s'. removed_or_not m regs offers (au_id a) (credential_key a) s (Inl x) s')"
        by (intro awp_mono [OF awp_save_locked [OF cipher]]) (simp add: b(6))
      then show ?thesis by (simp add: Inl awp_simps)
    next
      case (Inr v)
      have "store_frame ?r u" "row_ids u \<subseteq> row_ids ?r" using q by simp_all
      note u = store_held [OF this(1)]
      let ?u = "u\<lparr>si_up := mg_remove m (au_id a) (si_up u)\<rparr>"
      have end': "held_list m ?u = filter (\<lambda>c. au_id c \<noteq> au_id a) (held_list m ?r)" "regs (si_up ?u) = regs (si_up ?r)" "si_current ?u = si_current ?r"
        using u by (simp_all add: held_list_def mlaws(4,5) [OF laws])
      have "gone m regs (au_id a) (credential_key a) ?u" using q Inr out end' by (auto simp: gone_def row_ids_def)
      moreover have "others_kept m (au_id a) (credential_key a) s ?u"
        using q same rest_kept_trans [OF r(3), of u] by (simp add: others_kept_def end' rest_kept_def)
      moreover have "known m regs ?u \<subseteq> known m regs s" using knows unfolding known_def end' by auto
      ultimately show ?thesis
        using q Inr r(2) routed [OF end'(2,3)] by (auto simp: forget_held_def awp_simps removed_or_not_def row_ids_def)
    qed
  qed
qed

lemma awp_account_locked:
  assumes "manager_laws gp m regs offers" "gp_manager gp = Some m" "\<And>x. Q (Inl x) s"
    and "\<And>a. a \<in> set (held_list m s) \<Longrightarrow> au_id a = i \<Longrightarrow> awp (k (m, a)) e s Q"
  shows "awp (abnd (account_locked gp i) k) e s Q"
proof -
  have "awp (account_locked gp i) e s (\<lambda>r s'. s' = s \<and> (\<forall>p. r = Inr p \<longrightarrow> (\<exists>a \<in> set (held_list m s). au_id a = i \<and> p = (m, a))))"
    by (auto simp: account_locked_def the_manager_def assms(2) reload_locked_def awp_simps mlaws(1) [OF assms(1)] held_list_def
        dest: find_Some_mem split: option.split)
  then show ?thesis by (rule awp_bind) (use assms(3,4) in auto)
qed

text \<open>A call of the removal: refused with nothing changed, or the removal of an account held.\<close>

definition removal ::
  "'u manager \<Rightarrow> ('u \<Rightarrow> string set) \<Rightarrow> (goval \<Rightarrow> auth \<Rightarrow> bool) \<Rightarrow> string \<Rightarrow> 'u site \<Rightarrow> unit result \<Rightarrow> 'u site \<Rightarrow> bool" where
  "removal m regs offers i s r s' \<longleftrightarrow> (\<exists>x. r = Inl x) \<and> s' = s
     \<or> (\<exists>a \<in> set (held_list m s). au_id a = i \<and> removed_or_not m regs offers i (credential_key a) s r s')"

lemma awp_remove_account:
  fixes s :: "'u site"
  assumes "manager_laws gp m regs offers" "cipher_opens (gp_aead gp)" "gp_manager gp = Some m" "distinct (map au_id (held_list m s))" "si_current s \<noteq> None"
  shows "awp (remove_account gp i) e s (removal m regs offers i s)"
proof -
  have refused: "removal m regs offers i s (Inl x) s" for x by (simp add: removal_def)
  have "awp (abnd (account_locked gp i) (\<lambda>(m, a). remove_locked gp m a)) e s (removal m regs offers i s)"
  proof (rule awp_account_locked [OF assms(1,3)])
    show "removal m regs offers i s (Inl x) s" for x by (rule refused)
  next
    fix a assume a: "a \<in> set (held_list m s)" "au_id a = i"
    have "removal m regs offers i s r t" if "removed_or_not m regs offers (au_id a) (credential_key a) s r t" for r t
      using that a by (auto simp: removal_def)
    then show "awp (case (m, a) of (m, a) \<Rightarrow> remove_locked gp m a) e s (removal m regs offers i s)"
      using awp_mono [OF awp_remove_locked [OF assms(1,2) a(1) assms(4,5)]] by simp
  qed
  then show ?thesis
    unfolding remove_account_def check_store_def needs_store_def using refused by (simp add: awp_if awp_steps assms(3))
qed

lemma removal_known: "removal m regs offers i s r s' \<Longrightarrow> known m regs s' \<subseteq> known m regs s \<and> ((\<exists>u. r = Inr u) \<longrightarrow> i \<notin> known m regs s')"
  by (auto simp: removal_def removed_or_not_def gone_def known_def)

text \<open>C8: a removal that succeeded leaves nothing of the account: the manager does not hold it, upstream routes nothing to it, and its credential's row is gone. One that
  failed has either changed no account, or left this one held, disabled and out of the routes, for a retry to finish. No other account is touched either way: the manager holds the
  same others, unchanged, every row of another key is as it was, and one that was in the routes still is, where it is enabled and the configuration offers models for it.\<close>

theorem removal_leaves_nothing:
  fixes s s' :: "'u site"
  assumes "manager_laws gp m regs offers" "cipher_opens (gp_aead gp)" "gp_manager gp = Some m" "distinct (map au_id (held_list m s))" "si_current s \<noteq> None"
    and "remove_account gp i e s = (r, s')"
  shows "(\<exists>x. r = Inl x) \<and> s' = s
    \<or> (\<exists>a \<in> set (held_list m s). au_id a = i
        \<and> (case r of Inr _ \<Rightarrow> gone m regs i (credential_key a) s' | Inl _ \<Rightarrow> same_accounts m regs s s' \<or> held_back m regs i s')
        \<and> row_ids s' \<subseteq> row_ids s \<and> others_kept m i (credential_key a) s s' \<and> others_routed m regs offers i s s')"
  using awp_run [OF awp_remove_account [OF assms(1-5)] assms(6)] unfolding removal_def removed_or_not_def by blast

section \<open>Adding\<close>

lemma loaded_names:
  assumes "headers_to_attributes (gp_kit gp)" "auth_from_row (gp_kit gp) row plain = Inr a"
  shows "au_id a = cr_id row"
proof -
  obtain kvs where "vk_unmarshal (gp_kit gp) plain = Some kvs" using assms(2) by (auto simp: auth_from_row_def split: option.splits)
  from row_comes_back [OF assms(1,2) this] show ?thesis by (simp add: comes_back_def)
qed

lemma same_account_trans: "same_account a b \<Longrightarrow> same_account b c \<Longrightarrow> same_account a c"
  by (simp add: same_account_def)

text \<open>An account added: held under its key as a row of the store loads, and routed to just when it is enabled and the configuration offers models for it.\<close>

definition added_as :: "'u parts \<Rightarrow> 'u manager \<Rightarrow> ('u \<Rightarrow> string set) \<Rightarrow> (goval \<Rightarrow> auth \<Rightarrow> bool) \<Rightarrow> string \<Rightarrow> auth \<Rightarrow> 'u site \<Rightarrow> bool" where
  "added_as gp m regs offers key b s' \<longleftrightarrow> au_id b = key \<and> b \<in> set (held_list m s')
     \<and> (\<exists>c. stored_as gp s' c \<and> au_id c = key \<and> same_account c b)
     \<and> (key \<in> regs (si_up s') \<longleftrightarrow> \<not> au_disabled b \<and> offers (running s') b)"

text \<open>It is the account given, with the routing of the one it replaces: what the text saved of it loads as.\<close>

definition saved_from :: "'u parts \<Rightarrow> auth \<Rightarrow> auth \<Rightarrow> bool" where
  "saved_from gp given b \<longleftrightarrow> (\<exists>c fs plain row a. prepare_save (gp_kit gp) given = Inr (c, fs, plain)
     \<and> cr_id row = au_id b \<and> auth_from_row (gp_kit gp) row plain = Inr a \<and> same_account a b)"

definition not_added :: "'u manager \<Rightarrow> ('u \<Rightarrow> string set) \<Rightarrow> (goval \<Rightarrow> auth \<Rightarrow> bool) \<Rightarrow> string \<Rightarrow> 'u site \<Rightarrow> 'u site \<Rightarrow> bool" where
  "not_added m regs offers key s s' \<longleftrightarrow> known m regs s' \<subseteq> known m regs s \<and> (held_list m s' = held_list m s \<and> regs (si_up s') = regs (si_up s)
     \<or> (\<exists>h \<in> set (held_list m s). credential_key h = key \<and> (gone m regs (au_id h) key s' \<or> held_back m regs (au_id h) s')
          \<and> other_auths (au_id h) (held_list m s') = other_auths (au_id h) (held_list m s) \<and> others_routed m regs offers (au_id h) s s'))"

definition added_or_not ::
  "'u parts \<Rightarrow> 'u manager \<Rightarrow> ('u \<Rightarrow> string set) \<Rightarrow> (goval \<Rightarrow> auth \<Rightarrow> bool) \<Rightarrow> string \<Rightarrow> auth \<Rightarrow> 'u site \<Rightarrow> auth result \<Rightarrow> 'u site \<Rightarrow> bool" where
  "added_or_not gp m regs offers key given s r s' \<longleftrightarrow> (case r of
       Inr b \<Rightarrow> added_as gp m regs offers key b s' \<and> saved_from gp given b
         \<and> other_auths key (held_list m s') = other_auths key (held_list m s) \<and> known m regs s' \<subseteq> insert key (known m regs s)
         \<and> distinct (map au_id (held_list m s')) \<and> si_current s' \<noteq> None
     | Inl _ \<Rightarrow> not_added m regs offers key s s')"

text \<open>What any addition comes to, of an account the store does not hold too.\<close>

definition entered :: "'u manager \<Rightarrow> ('u \<Rightarrow> string set) \<Rightarrow> 'u site \<Rightarrow> auth result \<Rightarrow> 'u site \<Rightarrow> bool" where
  "entered m regs s r s' \<longleftrightarrow> (case r of
       Inr b \<Rightarrow> known m regs s' \<subseteq> insert (au_id b) (known m regs s) \<and> b \<in> set (held_list m s') \<and> distinct (map au_id (held_list m s')) \<and> si_current s' \<noteq> None
     | Inl _ \<Rightarrow> known m regs s' \<subseteq> known m regs s)"

lemma inherit_key: "credential_key (inherit_routing held a) = credential_key a"
  by (simp add: inherit_routing_def credential_key_def set_proxy_def set_account_priority_def Let_def split: option.split)

lemma known_others:
  assumes "other_auths key (held_list m t) = other_auths key (held_list m s)" "regs (si_up t) = regs (si_up s)"
  shows "known m regs t \<subseteq> insert key (known m regs s)"
proof -
  have "au_id c \<in> insert key (au_id ` set (held_list m s))" if "c \<in> set (held_list m t)" for c
    using assms(1) that by (auto simp: other_auths_def set_eq_iff)
  then show ?thesis using assms(2) unfolding known_def by blast
qed

text \<open>What is registered after a save.\<close>

definition registered_as :: "'u parts \<Rightarrow> 'u manager \<Rightarrow> string \<Rightarrow> string \<Rightarrow> 'u site \<Rightarrow> auth \<Rightarrow> 'u site \<Rightarrow> bool" where
  "registered_as gp m key plain s b s' \<longleftrightarrow> au_id b = key \<and> b \<in> set (held_list m s') \<and> other_auths key (held_list m s') = other_auths key (held_list m s)
     \<and> (distinct (map au_id (held_list m s)) \<longrightarrow> distinct (map au_id (held_list m s')))
     \<and> (headers_to_attributes (gp_kit gp) \<longrightarrow> (\<exists>c. stored_as gp s' c \<and> au_id c = key \<and> same_account c b)
          \<and> (\<exists>row a. cr_id row = au_id b \<and> auth_from_row (gp_kit gp) row plain = Inr a \<and> same_account a b))"

lemma awp_register_saved:
  assumes laws: "manager_laws gp m regs offers" and key: "key \<noteq> []" "sealed_as (gp_aead gp) key plain s"
  shows "awp (register_saved gp m key) e s (\<lambda>r s'. si_current s' = si_current s \<and> regs (si_up s') = regs (si_up s)
     \<and> (case r of Inl _ \<Rightarrow> held_list m s' = held_list m s | Inr b \<Rightarrow> registered_as gp m key plain s b s'))"
    (is "awp _ e s ?Q")
proof -
  let ?P = "\<lambda>r s'. store_frame s s' \<and> (\<forall>a. r = Inr a \<longrightarrow> au_id a = key
      \<and> (headers_to_attributes (gp_kit gp) \<longrightarrow> stored_as gp s' a \<and> (\<exists>row. cr_id row = key \<and> auth_from_row (gp_kit gp) row plain = Inr a)))"
  have loaded: "awp (load_locked gp key) e s ?P"
    unfolding load_locked_def
  proof (rule awp_bind [OF awp_store_list])
    fix as and t :: "'a site"
    assume t: "si_creds t = si_creds s \<and> (digests_true e (gp_aead gp) s \<longrightarrow> digests_true e (gp_aead gp) t) \<and> store_frame s t
      \<and> (\<forall>as'. Inr as = Inr as' \<longrightarrow> listed_rows (gp_kit gp) (gp_aead gp) s as')"
    have one: "stored_as gp t a \<and> (\<exists>row. cr_id row = key \<and> auth_from_row (gp_kit gp) row plain = Inr a)" if a: "a \<in> set as" "au_id a = key" and headers: "headers_to_attributes (gp_kit gp)" for a
    proof -
      obtain row plain' where row: "row \<in> set (si_creds s)" "sealer_open (gp_aead gp) (cr_id row) (cr_sealed row) = Inr plain'"
          "auth_from_row (gp_kit gp) row plain' = Inr a" using t a(1) unfolding listed_rows_def by blast
      have i: "cr_id row = key" using loaded_names [OF headers row(3)] a(2) by simp
      then have "plain' = plain" using key(2) row(1,2) by (auto simp: sealed_as_def)
      then show ?thesis using row i a(2) t unfolding stored_as_def by auto
    qed
    show "awp (case find (\<lambda>a. au_id a = key) as of None \<Rightarrow> araise (EGateway (CredentialNotLoaded key)) | Some a \<Rightarrow> aret a) e t ?P"
      using t one by (auto simp: awp_simps split: option.split dest!: find_Some_mem)
  qed simp
  show ?thesis
    unfolding register_saved_def
  proof (rule awp_bind [OF loaded])
    fix x :: err and t :: "'a site"
    assume "?P (Inl x) t"
    then show "?Q (Inl x) t" using store_held by (auto simp: store_frame_def held_list_def)
  next
    fix a and t :: "'a site"
    assume "?P (Inr a) t"
    then have t: "store_frame s t" "au_id a = key"
      and row: "headers_to_attributes (gp_kit gp) \<longrightarrow> stored_as gp t a \<and> (\<exists>row. cr_id row = key \<and> auth_from_row (gp_kit gp) row plain = Inr a)" by blast+
    note same = store_held [OF t(1)]
    have "?Q r u" if u: "registers gp m regs a t r u" for r u
    proof (cases r)
      case (Inl x)
      then show ?thesis using u same by (simp add: registers_def held_list_def)
    next
      case (Inr b)
      have b: "au_id b = key" "same_account a b" "b \<in> set (held_list m u)" "other_auths key (held_list m u) = other_auths key (held_list m s)"
          "distinct (map au_id (held_list m s)) \<longrightarrow> distinct (map au_id (held_list m u))" "stored_as gp t a \<longrightarrow> (\<exists>c. stored_as gp u c \<and> au_id c = key \<and> same_account c b)"
          "si_current u = si_current s" "regs (si_up u) = regs (si_up s)"
        using u Inr t(2) key(1) same by (auto simp: registers_def held_list_def)
      then show ?thesis using row Inr unfolding registered_as_def by auto
    qed
    then show "awp (mg_register m a) e t ?Q" by (intro awp_mono [OF mlaws(3) [OF laws]])
  qed
qed

text \<open>Either way, and what is known when a loaded account keeps the name of its row.\<close>

definition added_with ::
  "'u parts \<Rightarrow> 'u manager \<Rightarrow> ('u \<Rightarrow> string set) \<Rightarrow> (goval \<Rightarrow> auth \<Rightarrow> bool) \<Rightarrow> string \<Rightarrow> auth \<Rightarrow> 'u site \<Rightarrow> auth result \<Rightarrow> 'u site \<Rightarrow> bool" where
  "added_with gp m regs offers key given s r s' \<longleftrightarrow> entered m regs s r s' \<and> (headers_to_attributes (gp_kit gp) \<longrightarrow> added_or_not gp m regs offers key given s r s')"

lemma awp_withdraw_locked:
  fixes s t :: "'u site"
  assumes laws: "manager_laws gp m regs offers" and cipher: "cipher_opens (gp_aead gp)" and held: "distinct (map au_id (held_list m s))" "si_current s \<noteq> None"
    and t: "held_list m t = held_list m s" "regs (si_up t) = regs (si_up s)" "si_current t = si_current s"
  shows "awp (withdraw_locked gp m key) e t (\<lambda>r s'. not_added m regs offers key s s')"
proof (cases "find (\<lambda>h. credential_key h = key) (held_list m t)")
  case None
  have "awp (store_delete key) e t (\<lambda>r s'. not_added m regs offers key s s')"
    by (rule awp_mono [OF awp_store_delete [where ae = "gp_aead gp"]]) (use t store_held [of t] in \<open>auto simp: not_added_def known_def\<close>)
  then show ?thesis using None by (simp add: withdraw_locked_def awp_steps held_list_def)
next
  case (Some h)
  then have h: "h \<in> set (held_list m t)" "credential_key h = key" by (auto dest!: find_Some_mem)
  have same: "h \<in> set (held_list m s)" "known m regs t = known m regs s" using h(1) t by (simp_all add: known_def)
  have "not_added m regs offers key s s'" if R: "removed_or_not m regs offers (au_id h) (credential_key h) t r s'" for r s'
  proof -
    have "known m regs s' \<subseteq> known m regs s" using R same(2) by (simp add: removed_or_not_def)
    moreover have "gone m regs (au_id h) key s' \<or> held_back m regs (au_id h) s' \<or> same_accounts m regs t s'"
      using R h(2) by (auto simp: removed_or_not_def split: sum.splits)
    moreover have "other_auths (au_id h) (held_list m s') = other_auths (au_id h) (held_list m s)" "others_routed m regs offers (au_id h) s s'"
      using R t by (simp_all add: removed_or_not_def others_kept_def others_routed_def)
    ultimately show ?thesis using same(1) h(2) t unfolding not_added_def same_accounts_def by metis
  qed
  then have "awp (remove_locked gp m h) e t (\<lambda>r s'. not_added m regs offers key s s')"
    using held t awp_mono [OF awp_remove_locked [OF laws cipher h(1)]] by simp
  then show ?thesis using Some by (simp add: withdraw_locked_def awp_steps held_list_def)
qed

lemma awp_add_saved:
  fixes s t :: "'u site"
  assumes laws: "manager_laws gp m regs offers" and cipher: "cipher_opens (gp_aead gp)"
    and held: "distinct (map au_id (held_list m s))" "si_current s \<noteq> None"
    and t: "held_list m t = held_list m s" "regs (si_up t) = regs (si_up s)" "si_current t = si_current s" and key: "credential_key a' = key"
  shows "awp (abnd (store_save (gp_kit gp) (gp_aead gp) True a') (\<lambda>_. abnd (atry (register_saved gp m key)) (\<lambda>r. case r of
      Inl x \<Rightarrow> abnd (atry (withdraw_locked gp m key)) (\<lambda>_. araise x)
    | Inr stored \<Rightarrow> abnd (reapply_locked gp) (\<lambda>_. aret stored)))) e t (added_with gp m regs offers key a' s)"
proof (rule awp_bind [OF awp_store_save [OF cipher]])
  fix x :: err and u :: "'u site"
  assume "credential_saved e (gp_kit gp) (gp_aead gp) True a' t (Inl x) u"
  then have "store_frame t u" by (simp add: credential_saved_def)
  from store_held [OF this] t show "added_with gp m regs offers key a' s (Inl x) u" by (simp add: added_with_def entered_def added_or_not_def not_added_def known_def)
next
  fix p and u :: "'u site"
  assume p: "credential_saved e (gp_kit gp) (gp_aead gp) True a' t (Inr p) u"
  then have "store_frame t u" by (simp add: credential_saved_def)
  note u = store_held [OF this]
  obtain k b where "p = (k, b)" by (cases p)
  then obtain c fs plain where prep: "prepare_save (gp_kit gp) a' = Inr (c, fs, plain)" and row: "key \<noteq> []" "sealed_as (gp_aead gp) key plain u"
    using p key by (auto simp: credential_saved_def split: if_splits)
  show "awp (abnd (atry (register_saved gp m key)) (\<lambda>r. case r of
      Inl x \<Rightarrow> abnd (atry (withdraw_locked gp m key)) (\<lambda>_. araise x)
    | Inr stored \<Rightarrow> abnd (reapply_locked gp) (\<lambda>_. aret stored))) e u (added_with gp m regs offers key a' s)"
    unfolding awp_abnd [of "atry _"] awp_atry sum.case
  proof (rule awp_mono [OF awp_register_saved [OF laws row]])
    fix r :: "auth result" and v :: "'u site"
    assume v: "si_current v = si_current u \<and> regs (si_up v) = regs (si_up u)
       \<and> (case r of Inl _ \<Rightarrow> held_list m v = held_list m u | Inr b \<Rightarrow> registered_as gp m key plain u b v)"
    show "awp (case r of Inl x \<Rightarrow> abnd (atry (withdraw_locked gp m key)) (\<lambda>_. araise x) | Inr stored \<Rightarrow> abnd (reapply_locked gp) (\<lambda>_. aret stored)) e v
        (added_with gp m regs offers key a' s)"
    proof (cases r)
      case (Inl x)
      have "awp (withdraw_locked gp m key) e v (\<lambda>r s'. known m regs s' \<subseteq> known m regs s \<and> (headers_to_attributes (gp_kit gp) \<longrightarrow> not_added m regs offers key s s'))"
        by (rule awp_mono [OF awp_withdraw_locked [OF laws cipher held]]) (use v Inl u t in \<open>simp_all add: not_added_def\<close>)
      then show ?thesis by (simp add: Inl awp_simps added_with_def entered_def added_or_not_def)
    next
      case (Inr b)
      have v': "si_current v = si_current s" "regs (si_up v) = regs (si_up s)" and "registered_as gp m key plain u b v"
        using v Inr u t by simp_all
      moreover have hl: "held_list m u = held_list m s" using u(1) t(1) by simp
      ultimately have b: "registered_as gp m key plain s b v" unfolding registered_as_def hl by blast
      then have b': "au_id b = key" "b \<in> set (held_list m v)" "distinct (map au_id (held_list m v))"
          "other_auths key (held_list m v) = other_auths key (held_list m s)" using held(1) by (simp_all add: registered_as_def)
      have "headers_to_attributes (gp_kit gp) \<longrightarrow> added_as gp m regs offers key b (reapply gp v)"
        using b b' reapply_held(1) [OF laws] reapply_routes [OF laws _ b'(2,3)] v'(1) held(2) unfolding added_as_def registered_as_def stored_as_def by simp
      moreover have "headers_to_attributes (gp_kit gp) \<longrightarrow> saved_from gp a' b" using b prep unfolding saved_from_def registered_as_def by blast
      moreover have "known m regs (reapply gp v) \<subseteq> insert key (known m regs s)"
      proof -
        from known_others [OF b'(4) v'(2)] reapply_known [OF laws, of v] show ?thesis by blast
      qed
      ultimately show ?thesis
        using b' v' held reapply_held(1,3) [OF laws] by (simp add: Inr reapply_locked_def awp_steps awp_aret added_with_def entered_def added_or_not_def)
    qed
  qed
qed

text \<open>The account that is saved: the one given, or with a fresh id where it has no name, and with the routing of the one held under its key.\<close>

definition as_given :: "'u manager \<Rightarrow> auth \<Rightarrow> 'u site \<Rightarrow> auth \<Rightarrow> bool" where
  "as_given m a s given \<longleftrightarrow> (\<exists>a1. given = inherit_routing (held_list m s) a1
     \<and> (if credential_key a \<noteq> [] then a1 = readied a else \<exists>i. a1 = (readied a)\<lparr>au_id := i\<rparr>))"

lemma awp_add_locked:
  fixes s :: "'u site"
  assumes "manager_laws gp m regs offers" "cipher_opens (gp_aead gp)" "gp_manager gp = Some m"
    and "distinct (map au_id (held_list m s))" "si_current s \<noteq> None" "store_holds (gp_kit gp) (readied a)"
  shows "awp (add_locked gp a) e s (\<lambda>r s'. \<exists>given key. as_given m a s given \<and> (credential_key a \<noteq> [] \<longrightarrow> key = credential_key a)
    \<and> added_with gp m regs offers key given s r s')"
proof -
  let ?Q = "\<lambda>r s'. \<exists>given key. as_given m a s given \<and> (credential_key a \<noteq> [] \<longrightarrow> key = credential_key a) \<and> added_with gp m regs offers key given s r s'"
  have given: "\<exists>given. as_given m a s given" unfolding as_given_def by (cases "credential_key a = []") auto
  have refused: "?Q (Inl x) s" for x using given by (auto simp: added_with_def entered_def added_or_not_def not_added_def)
  have ready: "credential_key (readied a) = credential_key a" by (simp add: readied_def credential_key_def Let_def)
  have saved: "awp (abnd (aget (\<lambda>s. inherit_routing (mg_list m (si_up s)) b)) (\<lambda>a'. abnd (store_save (gp_kit gp) (gp_aead gp) True a') (\<lambda>_.
      abnd (atry (register_saved gp m (credential_key b))) (\<lambda>r. case r of
        Inl x \<Rightarrow> abnd (atry (withdraw_locked gp m (credential_key b))) (\<lambda>_. araise x)
      | Inr stored \<Rightarrow> abnd (reapply_locked gp) (\<lambda>_. aret stored))))) e (s\<lparr>si_world := w\<rparr>) ?Q"
    if b: "if credential_key a \<noteq> [] then b = readied a else \<exists>i. b = (readied a)\<lparr>au_id := i\<rparr>" for b w
  proof -
    have "as_given m a s (inherit_routing (mg_list m (si_up s)) b)" 
      unfolding as_given_def held_list_def by (rule exI [of _ b]) (use b in simp)
    moreover have "credential_key a \<noteq> [] \<longrightarrow> credential_key b = credential_key a" using b ready by (simp split: if_splits)
    ultimately have "?Q r s'" if "added_with gp m regs offers (credential_key b) (inherit_routing (mg_list m (si_up s)) b) s r s'" for r s' using that by blast
    then show ?thesis
      unfolding awp_steps
      by (intro awp_mono [OF awp_add_saved [OF assms(1,2,4,5) _ _ _ inherit_key]]) (simp_all add: held_list_def)
    qed
  have "awp (keyed (readied a)) e s (\<lambda>r s'. (\<exists>w. s' = s\<lparr>si_world := w\<rparr>)
      \<and> (\<forall>b. r = Inr b \<longrightarrow> (if credential_key a \<noteq> [] then b = readied a else \<exists>i. b = (readied a)\<lparr>au_id := i\<rparr>)))"
  proof (cases "credential_key a = []")
    case False
    then show ?thesis by (auto simp: ready keyed_def awp_aret intro: exI [of _ "si_world s"])
  qed (auto simp: ready keyed_def awp_simps wp_simps)
  then have "awp (abnd (keyed (readied a)) (\<lambda>a. abnd (aget (\<lambda>s. inherit_routing (mg_list m (si_up s)) a)) (\<lambda>a'. abnd (store_save (gp_kit gp) (gp_aead gp) True a') (\<lambda>_.
      abnd (atry (register_saved gp m (credential_key a))) (\<lambda>r. case r of
        Inl x \<Rightarrow> abnd (atry (withdraw_locked gp m (credential_key a))) (\<lambda>_. araise x)
      | Inr stored \<Rightarrow> abnd (reapply_locked gp) (\<lambda>_. aret stored)))))) e s ?Q"
  proof (rule awp_bind)
    fix x :: err and t :: "'u site"
    assume "(\<exists>w. t = s\<lparr>si_world := w\<rparr>) \<and> (\<forall>b. Inl x = Inr b \<longrightarrow> (if credential_key a \<noteq> [] then b = readied a else \<exists>i. b = (readied a)\<lparr>au_id := i\<rparr>))"
    then show "?Q (Inl x) t" using given by (auto simp: added_with_def entered_def added_or_not_def not_added_def held_list_def known_def)
  next
    fix b and t :: "'u site"
    assume "(\<exists>w. t = s\<lparr>si_world := w\<rparr>) \<and> (\<forall>b'. Inr b = Inr b' \<longrightarrow> (if credential_key a \<noteq> [] then b' = readied a else \<exists>i. b' = (readied a)\<lparr>au_id := i\<rparr>))"
    then show "awp (abnd (aget (\<lambda>s. inherit_routing (mg_list m (si_up s)) b)) (\<lambda>a'. abnd (store_save (gp_kit gp) (gp_aead gp) True a') (\<lambda>_.
      abnd (atry (register_saved gp m (credential_key b))) (\<lambda>r. case r of
        Inl x \<Rightarrow> abnd (atry (withdraw_locked gp m (credential_key b))) (\<lambda>_. araise x)
      | Inr stored \<Rightarrow> abnd (reapply_locked gp) (\<lambda>_. aret stored))))) e t ?Q" using saved by blast
  qed
  then show ?thesis
    using refused assms(6)
    by (simp add: add_locked_def Let_def the_manager_def assms(3) needs_store_def reload_locked_def awp_if awp_steps awp_abnd [of "abnd _ _"] awp_araise awp_aret)
qed

lemma awp_add_any:
  fixes s :: "'u site"
  assumes laws: "manager_laws gp m regs offers" and cipher: "cipher_opens (gp_aead gp)" and m: "gp_manager gp = Some m"
    and held: "distinct (map au_id (held_list m s))" "si_current s \<noteq> None"
  shows "awp (add_locked gp a) e s (entered m regs s)"
proof (cases "store_holds (gp_kit gp) (readied a)")
  case True
  show ?thesis
    by (rule awp_mono [OF awp_add_locked [OF laws cipher m held True]])
      (auto simp: added_with_def)
next
  case False
  have registered: "awp (abnd (mg_register m b) (\<lambda>stored. abnd (reapply_locked gp) (\<lambda>_. aret stored))) e s (entered m regs s)" for b
  proof (rule awp_bind [OF mlaws(3) [OF laws]])
    fix x :: err and t :: "'u site"
    assume "registers gp m regs b s (Inl x) t"
    then show "entered m regs s (Inl x) t" by (simp add: registers_def entered_def known_def held_list_def)
  next
    fix c and t :: "'u site"
    assume t: "registers gp m regs b s (Inr c) t"
    have "known m regs t \<subseteq> insert (au_id c) (known m regs s)" using t by (intro known_others) (simp_all add: registers_def held_list_def)
    then have "known m regs (reapply gp t) \<subseteq> insert (au_id c) (known m regs s)" using reapply_known [OF laws, of t] by blast
    then have "entered m regs s (Inr c) (reapply gp t)"
      using t held reapply_held(1,3) [OF laws] by (simp add: entered_def registers_def) (simp add: held_list_def)
    then show "awp (abnd (reapply_locked gp) (\<lambda>_. aret c)) e t (entered m regs s)" by (simp add: reapply_locked_def awp_steps awp_aret)
  qed
  have "entered m regs s (Inl x) s" for x by (simp add: entered_def)
  with registered False show ?thesis
    by (simp add: add_locked_def Let_def the_manager_def m needs_store_def reload_locked_def awp_if awp_steps awp_abnd [of "abnd _ _"] awp_araise awp_aret)
qed


end
