(* ===== verification/SettingsShown.thy ===== *)
theory SettingsShown
  imports Settings
begin

text \<open>
  What an update shows and what it keeps: the difference returned to the administrator and kept in the audit log holds no secret and no key the gateway
  owns, and the typed fields patched into a document leave the rest of it as it was.
\<close>

section \<open>Patching\<close>

definition patched_keys :: "settings_patch \<Rightarrow> string set" where
  "patched_keys p = (if sp_proxy p = None then {} else {''proxy-url''}) \<union> (if sp_retry p = None then {} else {''request-retry''})
     \<union> (if sp_interval p = None then {} else {''max-retry-interval''}) \<union> (if sp_affinity p = None then {} else {routing_key})"

text \<open>A scalar put under a key, beside the comments of what was there.\<close>

definition scalar_under :: "string \<Rightarrow> string \<Rightarrow> string \<Rightarrow> ynode list \<Rightarrow> ynode list \<Rightarrow> bool" where
  "scalar_under key tag s c c' \<longleftrightarrow> (\<exists>v. value_under key c' = Some v \<and> y_kind v = KScalar \<and> y_tag v = tag \<and> y_text v = s
     \<and> y_comments v = (case value_under key c of None \<Rightarrow> ([], [], []) | Some old \<Rightarrow> y_comments old))"

lemma set_scalar_value:
  assumes "even (length (y_content m))"
  shows "key' \<noteq> key \<Longrightarrow> value_under key' (y_content (set_scalar key tag s m)) = value_under key' (y_content m)"
    "scalar_under key tag s (y_content m) (y_content (set_scalar key tag s m))" "even (length (y_content (set_scalar key tag s m)))"
  using assms by (simp_all add: set_scalar_def put_scalar_value put_scalar_even scalar_under_def scalar_node_def split: option.split)

lemma on_child_even: "even (length (on_child key f c)) = even (length c)"
  by (induction c rule: y_pairs.induct) auto

lemma put_if_even:
  "even (length (y_content m)) \<Longrightarrow> even (length (y_content (put_if (\<lambda>x. set_scalar key tag (g x)) ov m)))"
  "even (length (y_content m)) \<Longrightarrow> even (length (y_content (put_if (\<lambda>x. child_mapping key (h x)) pv m)))"
  by (auto simp: put_if_def set_scalar_value child_mapping_def on_child_even split: option.split)

lemma put_if_value:
  assumes "even (length (y_content m))"
  shows "key' \<noteq> key \<Longrightarrow> value_under key' (y_content (put_if (\<lambda>x. set_scalar key tag (g x)) ov m)) = value_under key' (y_content m)"
    "ov = None \<Longrightarrow> value_under key' (y_content (put_if (\<lambda>x. set_scalar key tag (g x)) ov m)) = value_under key' (y_content m)"
    "ov = Some x \<Longrightarrow> scalar_under key tag (g x) (y_content m) (y_content (put_if (\<lambda>x. set_scalar key tag (g x)) ov m))"
    "key' \<noteq> key \<Longrightarrow> value_under key' (y_content (put_if (\<lambda>x. child_mapping key (h x)) pv m)) = value_under key' (y_content m)"
    "pv = None \<Longrightarrow> value_under key' (y_content (put_if (\<lambda>x. child_mapping key (h x)) pv m)) = value_under key' (y_content m)"
    "pv = Some z \<Longrightarrow> value_under key (y_content (put_if (\<lambda>x. child_mapping key (h x)) pv m))
       = Some (h z (case value_under key (y_content m) of Some v \<Rightarrow> if y_kind v = KMapping then y_with_style 0 v else empty_mapping | None \<Rightarrow> empty_mapping))"
  using assms by (auto simp: put_if_def set_scalar_value child_mapping_def on_child_value split: option.split)

text \<open>The session affinity is set inside the routing mapping, whose other keys stay; without such a mapping one is made for it.\<close>

definition affinity_under :: "bool \<Rightarrow> ynode list \<Rightarrow> ynode list \<Rightarrow> bool" where
  "affinity_under b c c' \<longleftrightarrow>
     (let old = (case value_under routing_key c of Some v \<Rightarrow> if y_kind v = KMapping then y_content v else [] | None \<Rightarrow> []) in
      \<exists>m. value_under routing_key c' = Some m \<and> y_kind m = KMapping \<and> scalar_under affinity_key ''!!bool'' (format_bool b) old (y_content m)
        \<and> (\<forall>key. key \<noteq> affinity_key \<longrightarrow> value_under key (y_content m) = value_under key old))"

lemma patched_affinity:
  assumes "even (length (y_content m))" "\<And>v. value_under routing_key (y_content m) = Some v \<Longrightarrow> even (length (y_content v))"
  shows "affinity_under b (y_content m)
    (y_content (put_if (\<lambda>b. child_mapping routing_key (set_scalar affinity_key ''!!bool'' (format_bool b))) (Some b) m))"
proof -
  define base where "base = (case value_under routing_key (y_content m) of Some v \<Rightarrow> if y_kind v = KMapping then y_with_style 0 v else empty_mapping | None \<Rightarrow> empty_mapping)"
  have kind: "y_kind base = KMapping" by (auto simp: base_def empty_mapping_def split: option.split)
  have old: "y_content base = (case value_under routing_key (y_content m) of Some v \<Rightarrow> if y_kind v = KMapping then y_content v else [] | None \<Rightarrow> [])"
    by (auto simp: base_def empty_mapping_def split: option.split)
  have "even (length (y_content base))" using assms(2) by (auto simp: old split: option.split)
  note inner = set_scalar_value [OF this, where key = affinity_key and tag = "''!!bool''" and s = "format_bool b"]
  have "value_under routing_key (y_content (put_if (\<lambda>b. child_mapping routing_key (set_scalar affinity_key ''!!bool'' (format_bool b))) (Some b) m))
      = Some (set_scalar affinity_key ''!!bool'' (format_bool b) base)"
    unfolding base_def by (rule put_if_value(6) [OF assms(1) refl, where h = "\<lambda>b. set_scalar affinity_key ''!!bool'' (format_bool b)"])
  moreover have "y_kind (set_scalar affinity_key ''!!bool'' (format_bool b) base) = KMapping" using kind by (simp add: set_scalar_def)
  ultimately show ?thesis using inner(1,2) unfolding affinity_under_def Let_def old [symmetric] by blast
qed

lemma scalar_under_cong:
  "value_under key c1 = value_under key c2 \<Longrightarrow> value_under key d1 = value_under key d2 \<Longrightarrow> scalar_under key tag s c1 d1 = scalar_under key tag s c2 d2"
  by (simp add: scalar_under_def)

lemma affinity_under_cong: "value_under routing_key c1 = value_under routing_key c2 \<Longrightarrow> affinity_under b c1 d = affinity_under b c2 d"
  by (simp add: affinity_under_def)

lemma patch_names:
  "''proxy-url'' \<noteq> routing_key" "''request-retry'' \<noteq> routing_key" "''max-retry-interval'' \<noteq> routing_key"
  by (simp_all add: routing_key_def)

text \<open>C16: patching the typed fields into a stored document changes them and nothing else: a field given stands there with the comments that were beside it, the
  session affinity within the routing mapping as it was, and every other key of the document has the value it had.\<close>

theorem patch_keeps:
  assumes "document_root ck doc = Inr tn" "even (length (y_content tn))" "\<And>v. value_under routing_key (y_content tn) = Some v \<Longrightarrow> even (length (y_content v))"
  shows "patch_document ck doc p = encode_yaml ck (YNode KDocument 0 [] [] [] ([], [], []) [patched_top p tn])
    \<and> (\<forall>key. key \<notin> patched_keys p \<longrightarrow> value_under key (y_content (patched_top p tn)) = value_under key (y_content tn))
    \<and> (\<forall>url. sp_proxy p = Some url \<longrightarrow> scalar_under ''proxy-url'' yaml_str_tag url (y_content tn) (y_content (patched_top p tn)))
    \<and> (\<forall>n. sp_retry p = Some n \<longrightarrow> scalar_under ''request-retry'' ''!!int'' (format_int n) (y_content tn) (y_content (patched_top p tn)))
    \<and> (\<forall>n. sp_interval p = Some n \<longrightarrow> scalar_under ''max-retry-interval'' ''!!int'' (format_int n) (y_content tn) (y_content (patched_top p tn)))
    \<and> (\<forall>b. sp_affinity p = Some b \<longrightarrow> affinity_under b (y_content tn) (y_content (patched_top p tn)))"
proof -
  define m0 where "m0 = y_with_style 0 tn"
  define m1 where "m1 = put_if (\<lambda>url. set_scalar ''proxy-url'' yaml_str_tag url) (sp_proxy p) m0"
  define m2 where "m2 = put_if (\<lambda>n. set_scalar ''request-retry'' ''!!int'' (format_int n)) (sp_retry p) m1"
  define m3 where "m3 = put_if (\<lambda>n. set_scalar ''max-retry-interval'' ''!!int'' (format_int n)) (sp_interval p) m2"
  have m4: "patched_top p tn = put_if (\<lambda>b. child_mapping routing_key (set_scalar affinity_key ''!!bool'' (format_bool b))) (sp_affinity p) m3"
    by (simp add: patched_top_def m0_def m1_def m2_def m3_def)
  have c0: "y_content m0 = y_content tn" by (simp add: m0_def)
  have e0: "even (length (y_content m0))" using assms(2) c0 by simp
  have e1: "even (length (y_content m1))" unfolding m1_def by (rule put_if_even(1) [OF e0])
  have e2: "even (length (y_content m2))" unfolding m2_def by (rule put_if_even(1) [OF e1])
  have e3: "even (length (y_content m3))" unfolding m3_def by (rule put_if_even(1) [OF e2])
  note s1 = put_if_value(1-3) [OF e0, where key = "''proxy-url''" and tag = "yaml_str_tag" and g = "\<lambda>u. u" and ov = "sp_proxy p", folded m1_def]
  note s2 = put_if_value(1-3) [OF e1, where key = "''request-retry''" and tag = "''!!int''" and g = "format_int" and ov = "sp_retry p", folded m2_def]
  note s3 = put_if_value(1-3) [OF e2, where key = "''max-retry-interval''" and tag = "''!!int''" and g = "format_int" and ov = "sp_interval p", folded m3_def]
  note s4 = put_if_value(4,5) [OF e3, where key = routing_key and h = "\<lambda>b. set_scalar affinity_key ''!!bool'' (format_bool b)" and pv = "sp_affinity p", folded m4]
  have same: "value_under key (y_content (patched_top p tn)) = value_under key (y_content tn)" if "key \<notin> patched_keys p" for key
  proof -
    have "value_under key (y_content m1) = value_under key (y_content m0)" using that s1(1,2) by (cases "sp_proxy p") (auto simp: patched_keys_def)
    moreover have "value_under key (y_content m2) = value_under key (y_content m1)" using that s2(1,2) by (cases "sp_retry p") (auto simp: patched_keys_def)
    moreover have "value_under key (y_content m3) = value_under key (y_content m2)" using that s3(1,2) by (cases "sp_interval p") (auto simp: patched_keys_def)
    moreover have "value_under key (y_content (patched_top p tn)) = value_under key (y_content m3)"
      using that s4 by (cases "sp_affinity p") (auto simp: patched_keys_def)
    ultimately show ?thesis by (simp add: c0)
  qed
  have proxy: "scalar_under ''proxy-url'' yaml_str_tag url (y_content tn) (y_content (patched_top p tn))" if "sp_proxy p = Some url" for url
    using s1(3) [OF that] s2(1) [of "''proxy-url''"] s3(1) [of "''proxy-url''"] s4(1) [of "''proxy-url''"] patch_names by (simp add: scalar_under_def c0)
  have retry: "scalar_under ''request-retry'' ''!!int'' (format_int n) (y_content tn) (y_content (patched_top p tn))" if "sp_retry p = Some n" for n
    using s2(3) [OF that] s1(1) [of "''request-retry''"] s3(1) [of "''request-retry''"] s4(1) [of "''request-retry''"] patch_names by (simp add: scalar_under_def c0)
  have interval: "scalar_under ''max-retry-interval'' ''!!int'' (format_int n) (y_content tn) (y_content (patched_top p tn))" if "sp_interval p = Some n" for n
    using s3(3) [OF that] s1(1) [of "''max-retry-interval''"] s2(1) [of "''max-retry-interval''"] s4(1) [of "''max-retry-interval''"] patch_names by (simp add: scalar_under_def c0)
  have routing: "value_under routing_key (y_content m3) = value_under routing_key (y_content tn)"
    using s1(1) s2(1) s3(1) patch_names by (simp add: c0)
  have affinity: "affinity_under b (y_content tn) (y_content (patched_top p tn))" if "sp_affinity p = Some b" for b
    using patched_affinity [OF e3, of b] assms(3) that affinity_under_cong [OF routing] by (simp add: routing m4)
  show ?thesis using same proxy retry interval affinity assms(1) by (simp add: patch_document_def)
qed

section \<open>What an update shows\<close>

definition trail :: "'u site \<Rightarrow> audit_row list" where
  "trail s = t_audit (w_db (si_world s))"

lemma trail_simps [simp]:
  "trail (s\<lparr>si_doc := d\<rparr>) = trail s" "trail (s\<lparr>si_current := c\<rparr>) = trail s" "trail (apply_config gp cfg s) = trail s"
  "trail (s\<lparr>si_world := tick (si_world s)\<rparr>) = trail s" "trail (s\<lparr>si_world := tick (si_world s), si_doc := d\<rparr>) = trail s"
  by (simp_all add: trail_def apply_config_def)

lemma awp_trail:
  fixes s :: "'u site"
  shows "awp (proposed_document ck req) e s (\<lambda>r s'. trail s' = trail s)"
  "awp (push_config gp cfg) e s (\<lambda>r s'. trail s' = trail s)"
  "awp (persist_or_restore gp doc run actor now) e s (\<lambda>r s'. trail s' = trail s)"
proof -
  have stored: "awp stored_document e s (\<lambda>r s'. trail s' = trail s)"
    by (auto simp: stored_document_def upstream_document_def awp_simps Let_def trail_def split: option.split)
  show "awp (proposed_document ck req) e s (\<lambda>r s'. trail s' = trail s)"
  proof (cases "su_yaml req")
    case None
    have "awp (abnd stored_document (\<lambda>base. alift (patch_document ck base (the (su_fields req))))) e s (\<lambda>r s'. trail s' = trail s)"
      by (rule awp_bind [OF stored]) (auto simp: awp_simps)
    then show ?thesis by (simp add: proposed_document_def None)
  qed (simp add: proposed_document_def awp_simps)
  show push: "awp (push_config gp cfg) e s (\<lambda>r s'. trail s' = trail s)" for cfg s
    by (auto simp: push_config_def reload_locked_def awp_simps trail_def apply_config_def split: sum.split)
  have "awp (abnd (atry (push_config gp run)) (\<lambda>_. araise x)) e t (\<lambda>r s'. trail s' = trail s)" if "trail t = trail s" for x and t :: "'u site"
    by (rule awp_bind [where P = "\<lambda>r s'. trail s' = trail s"]) (use awp_mono [OF push] that in \<open>auto simp: awp_simps\<close>)
  note restored = this
  show "awp (persist_or_restore gp doc run actor now) e s (\<lambda>r s'. trail s' = trail s)"
    unfolding persist_or_restore_def awp_abnd [of "atry _"] awp_atry awp_set_upstream_document Let_def
    by (auto simp: awp_aret intro!: restored)
qed

text \<open>A difference of two renderings, neither of which shows a secret or a key the gateway owns.\<close>

definition discreet :: "conf_kit \<Rightarrow> string \<Rightarrow> bool" where
  "discreet ck d \<longleftrightarrow> (\<exists>a b na nb. ck_diff ck a b = Inr d \<and> ck_encode ck na = Inr a \<and> ck_encode ck nb = Inr b
     \<and> (\<forall>n \<in> {na, nb}. quiet (ck_redact ck) (ck_type ck) n \<and> (\<forall>(k, v) \<in> set (y_pairs (y_content n)). \<not> is_owned_key (y_text k))))"

lemma editable_discreet:
  assumes "strip_pointers (ck_type ck) = TStruct fs" "\<And>cfg n. ck_render ck cfg = Inr n \<Longrightarrow> y_kind n = KMapping" "editable_diff ck old new = Inr d"
  shows "discreet ck d"
proof -
  have yaml: "\<exists>n. ck_encode ck n = Inr a \<and> quiet (ck_redact ck) (ck_type ck) n \<and> (\<forall>(k, v) \<in> set (y_pairs (y_content n)). \<not> is_owned_key (y_text k))"
    if doc: "editable_yaml ck cfg = Inr a" for cfg a
  proof -
    obtain n where n: "ck_render ck cfg = Inr n" "ck_encode ck (editable_nodes (ck_redact ck) (ck_type ck) n) = Inr a"
      using doc by (auto simp: editable_yaml_def encode_yaml_def split: sum.splits)
    show ?thesis using n(2) editable_quiet [OF assms(1) assms(2) [OF n(1)]] editable_keys by blast
  qed
  obtain a b where "editable_yaml ck old = Inr a" "editable_yaml ck new = Inr b" "ck_diff ck a b = Inr d"
    using assms(3) by (auto simp: editable_diff_def split: sum.splits)
  with yaml show ?thesis unfolding discreet_def by (metis insert_iff singletonD)
qed

text \<open>The trail after an update: one event carrying the difference when it was applied, nothing otherwise.\<close>

definition recorded_diff :: "user \<Rightarrow> update_result \<Rightarrow> 'u site \<Rightarrow> 'u site \<Rightarrow> bool" where
  "recorded_diff actor res s s' \<longleftrightarrow>
     (if ur_applied res
      then \<exists>row. trail s' = trail s @ [row] \<and> ar_action row = ''settings.update'' \<and> ar_actor row = null_uuid (u_id actor) \<and> ar_detail row = [(''diff'', JStr (ur_diff res))]
      else trail s' = trail s)"

lemma awp_settings_shown:
  "awp (settings_set gp actor req) e s (\<lambda>r s'. \<forall>res. r = Inr res
     \<longrightarrow> (\<exists>old new. editable_diff (gp_conf gp) old new = Inr (ur_diff res)) \<and> recorded_diff actor res s s')"
proof -
  let ?ck = "gp_conf gp"
  let ?Q = "\<lambda>r s'. \<forall>res. r = Inr res \<longrightarrow> (\<exists>old new. editable_diff ?ck old new = Inr (ur_diff res)) \<and> recorded_diff actor res s s'"
  let ?ev = "\<lambda>d now. \<lparr>ae_at = now, ae_actor = u_id actor, ae_action = ''settings.update'', ae_target = ''upstream'', ae_detail = [(''diff'', JStr d)], ae_ip = [], ae_agent = []\<rparr>"
  have audit: "awp (abnd (on_world (audit_record (?ev (ur_diff res) now))) (\<lambda>_. aret (res\<lparr>ur_applied := True\<rparr>))) e t ?Q"
    if "editable_diff ?ck old new = Inr (ur_diff res)" "trail t = trail s" for old new now res t
    unfolding awp_abnd awp_on_world
    by (rule wp_audit_record) (use that in \<open>auto simp: awp_aret recorded_diff_def audit_of_def trail_def\<close>)
  have pushing: "awp (abnd (push_config gp next) (\<lambda>_. abnd (on_world now_io) (\<lambda>now. abnd (persist_or_restore gp doc run (u_id actor) now) (\<lambda>_.
        abnd (on_world (audit_record (?ev (ur_diff res) now))) (\<lambda>_. aret (res\<lparr>ur_applied := True\<rparr>)))))) e t ?Q"
    if d: "editable_diff ?ck old new = Inr (ur_diff res)" and t: "trail t = trail s" for old new "next" doc run res t
  proof (rule awp_bind [OF awp_trail(2)])
    fix u :: unit and t' :: "'a site"
    assume t': "trail t' = trail t"
    have "awp (abnd (persist_or_restore gp doc run (u_id actor) now) (\<lambda>_. abnd (on_world (audit_record (?ev (ur_diff res) now))) (\<lambda>_. aret (res\<lparr>ur_applied := True\<rparr>))))
        e (t'\<lparr>si_world := tick (si_world t')\<rparr>) ?Q" for now
      by (rule awp_bind [OF awp_trail(3)]) (use audit [OF d] t t' in auto)
    then show "awp (abnd (on_world now_io) (\<lambda>now. abnd (persist_or_restore gp doc run (u_id actor) now) (\<lambda>_.
        abnd (on_world (audit_record (?ev (ur_diff res) now))) (\<lambda>_. aret (res\<lparr>ur_applied := True\<rparr>))))) e t' ?Q"
      unfolding awp_abnd [of "on_world _"] awp_on_world wp_now sum.case .
  qed simp
  have decided: "awp (abnd (alift (parse_document ?ck doc)) (\<lambda>cfg. abnd current_config (\<lambda>cur. case cur of
        None \<Rightarrow> araise ENoRunningConfig
      | Some running \<Rightarrow>
          (let next = overlay_owned ?ck (ck_clone ?ck cfg) running in
           abnd (alift (editable_diff ?ck running next)) (\<lambda>diff.
           let res = \<lparr>ur_applied = False, ur_diff = diff, ur_settings = view_of ?ck doc cfg\<rparr> in
           if su_dry req then aret res
           else abnd (push_config gp next) (\<lambda>_. abnd (on_world now_io) (\<lambda>now. abnd (persist_or_restore gp doc running (u_id actor) now) (\<lambda>_.
             abnd (on_world (audit_record (?ev diff now))) (\<lambda>_. aret (res\<lparr>ur_applied := True\<rparr>)))))))))) e t ?Q"
    if t: "trail t = trail s" for doc t
  proof (cases "parse_document ?ck doc")
    case (Inr cfg)
    show ?thesis
    proof (cases "si_current t")
      case (Some run)
      show ?thesis
      proof (cases "editable_diff ?ck run (overlay_owned ?ck (ck_clone ?ck cfg) run)")
        case d: (Inr d)
        have "editable_diff ?ck run (overlay_owned ?ck (ck_clone ?ck cfg) run) = Inr (ur_diff \<lparr>ur_applied = False, ur_diff = d, ur_settings = view_of ?ck doc cfg\<rparr>)"
          by (simp add: d)
        from pushing [OF this t] show ?thesis using d t
          by (auto simp: awp_steps current_config_def Inr Some Let_def awp_aret recorded_diff_def)
      qed (simp add: awp_steps current_config_def Inr Some Let_def)
    qed (simp add: awp_steps current_config_def Inr awp_araise)
  qed (simp add: awp_steps)
  have "awp (abnd (proposed_document ?ck req) K) e s ?Q" if "\<And>doc t. trail t = trail s \<Longrightarrow> awp (K doc) e t ?Q" for K
    by (rule awp_bind [OF awp_trail(1)]) (use that in auto)
  then show ?thesis
    unfolding settings_set_def Let_def awp_steps using decided [unfolded Let_def] by (simp split: sum.split)
qed

text \<open>C15: nothing an update answers with or leaves in the audit log shows a secret. Its difference is between two renderings in which, at any depth, every secret field is
  blank or REDACTED and every proxy is shown by its log-safe form, without the gateway's own keys; applied, the update is one event of the audit log
  carrying just that difference, and otherwise the log is as it was.\<close>

theorem diff_shows_no_secret:
  assumes "strip_pointers (ck_type (gp_conf gp)) = TStruct fs" "\<And>cfg n. ck_render (gp_conf gp) cfg = Inr n \<Longrightarrow> y_kind n = KMapping"
    and "settings_set gp actor req e s = (Inr res, s')"
  shows "discreet (gp_conf gp) (ur_diff res) \<and> recorded_diff actor res s s'"
proof -
  from awp_run [OF awp_settings_shown assms(3)]
  obtain old new where "editable_diff (gp_conf gp) old new = Inr (ur_diff res)" "recorded_diff actor res s s'" by blast
  then show ?thesis using editable_discreet [OF assms(1)] assms(2) by blast
qed

end
