(* ===== verification/Discovery.thy ===== *)
theory Discovery
  imports Accounts
begin

text \<open>
  Asking a vendor which models it serves (\<open>internal/infra/gateway/compat.go\<close> DiscoverModels, \<open>compat_headers.go\<close> applyDiscoveryHeaders). Name resolution, the transport, the
  request and the decoding of the answer are the record \<open>net_kit\<close>. An address is its bytes, 4 or 16 of them; header names, which Go keeps in canonical form, are kept lower-cased.
\<close>

section \<open>Addresses\<close>

definition to4 :: "nat list \<Rightarrow> nat list option" where
  "to4 ip = (if length ip = 4 then Some ip
     else if length ip = 16 \<and> take 12 ip = replicate 10 0 @ [255, 255] then Some (drop 12 ip) else None)"

definition byte_at :: "nat list \<Rightarrow> nat \<Rightarrow> nat" where
  "byte_at ip i = (if i < length ip then ip ! i else 0)"

definition link_local_unicast :: "nat list \<Rightarrow> bool" where
  "link_local_unicast ip = (case to4 ip of
     Some v4 \<Rightarrow> byte_at v4 0 = 169 \<and> byte_at v4 1 = 254
   | None \<Rightarrow> length ip = 16 \<and> byte_at ip 0 = 254 \<and> byte_at ip 1 div 64 = 2)"

definition link_local_multicast :: "nat list \<Rightarrow> bool" where
  "link_local_multicast ip = (case to4 ip of
     Some v4 \<Rightarrow> byte_at v4 0 = 224 \<and> byte_at v4 1 = 0 \<and> byte_at v4 2 = 0
   | None \<Rightarrow> length ip = 16 \<and> byte_at ip 0 = 255 \<and> byte_at ip 1 mod 16 = 2)"

definition interface_local_multicast :: "nat list \<Rightarrow> bool" where
  "interface_local_multicast ip \<longleftrightarrow> length ip = 16 \<and> byte_at ip 0 = 255 \<and> byte_at ip 1 mod 16 = 1"

definition multicast :: "nat list \<Rightarrow> bool" where
  "multicast ip = (case to4 ip of Some v4 \<Rightarrow> byte_at v4 0 div 16 = 14 | None \<Rightarrow> length ip = 16 \<and> byte_at ip 0 = 255)"

definition unspecified :: "nat list \<Rightarrow> bool" where
  "unspecified ip \<longleftrightarrow> to4 ip = Some [0, 0, 0, 0] \<or> ip = replicate 16 0"

definition link_local :: "nat list \<Rightarrow> bool" where
  "link_local ip \<longleftrightarrow> link_local_unicast ip \<or> link_local_multicast ip \<or> interface_local_multicast ip \<or> multicast ip \<or> unspecified ip"

section \<open>The request\<close>

text \<open>\<open>wr_guarded\<close>: the dialer checks the address it connects to.\<close>

record model_query =
  wr_target :: string
  wr_scheme :: string
  wr_host :: string
  wr_headers :: "(string \<times> string) list"
  wr_proxy :: string
  wr_guarded :: bool

text \<open>
  \<open>nk_transport\<close>: whether a usable proxy setting is one to go through. The HTTP client's part: for each of its requests, counted from zero, \<open>nk_dials\<close> are the
  addresses the dialer comes to try for a scheme and host, whatever the resolver answers by then (a proxy's address when there is one), \<open>nk_connects\<close> is whether one
  accepts, and \<open>nk_hop\<close> is what comes back from it: a status and the body, unless reading it failed, a redirect to a scheme and host, or nothing.
\<close>

datatype hop_answer = Answered int "string option" | Redirected string string | Broken

record net_kit =
  nk_ip :: "string \<Rightarrow> nat list option"
  nk_lookup :: "string \<Rightarrow> nat list list option"
  nk_transport :: "string \<Rightarrow> bool option"
  nk_target :: "parsed_url \<Rightarrow> string option"
  nk_dials :: "nat \<Rightarrow> string \<Rightarrow> string \<Rightarrow> string list"
  nk_connects :: "nat \<Rightarrow> string \<Rightarrow> bool"
  nk_hop :: "model_query \<Rightarrow> nat \<Rightarrow> string \<Rightarrow> hop_answer"
  nk_model_list :: "string \<Rightarrow> string list option"
  nk_host_port :: "string \<Rightarrow> string option"

definition field_base_url :: string where "field_base_url = ''baseURL''"
definition discover_max_bytes :: nat where "discover_max_bytes = 2 ^ 20"

definition discovery_account :: "'u parts \<Rightarrow> string \<Rightarrow> 'u site \<Rightarrow> auth option" where
  "discovery_account gp i s =
     (if i = [] then None
      else case gp_manager gp of
        None \<Rightarrow> None
      | Some m \<Rightarrow> (case mg_get m i (si_up s) of Some a \<Rightarrow> if is_compat_account a then Some a else None | None \<Rightarrow> None))"

definition discovery_key :: "auth option \<Rightarrow> string \<Rightarrow> string \<Rightarrow> string result" where
  "discovery_key held base key =
     (case held of
        None \<Rightarrow> Inr key
      | Some a \<Rightarrow>
          if key \<noteq> [] then Inr key
          else
            (let stored = text_or_empty meta_api_key (au_meta a) in
             if stored = [] then Inr []
             else if trim_right_slash (text_or_empty meta_base_url (au_meta a)) \<noteq> trim_right_slash base then Inl (EInvalidInput ''apiKey'')
             else Inr stored))"

definition global_proxy :: "'u parts \<Rightarrow> 'u site \<Rightarrow> string" where
  "global_proxy gp s = (case si_current s of None \<Rightarrow> [] | Some cfg \<Rightarrow> conf_text (gp_conf gp) f_proxy cfg)"

definition discovery_proxy :: "'u parts \<Rightarrow> auth option \<Rightarrow> proxy_choice option \<Rightarrow> 'u site \<Rightarrow> string result" where
  "discovery_proxy gp held choice s =
     (case choice of
        Some c \<Rightarrow> (case proxy_value (gp_kit gp) c of
            Inl x \<Rightarrow> Inl x
          | Inr v \<Rightarrow> if v \<noteq> [] then Inr v else Inr (global_proxy gp s))
      | None \<Rightarrow> (case held of
            Some a \<Rightarrow> if trim_space (au_proxy a) \<noteq> [] then Inr (au_proxy a) else Inr (global_proxy gp s)
          | None \<Rightarrow> Inr (global_proxy gp s)))"

definition refuse_link_local_host :: "net_kit \<Rightarrow> string \<Rightarrow> unit result" where
  "refuse_link_local_host nk host =
     (let ips = (case nk_ip nk host of Some ip \<Rightarrow> [ip] | None \<Rightarrow> (case nk_lookup nk host of Some found_ips \<Rightarrow> found_ips | None \<Rightarrow> [])) in
      if \<exists>ip \<in> set ips. link_local ip then Inl (EInvalidInput field_base_url) else Inr ())"

text \<open>The dialer's check of the address it is about to connect to.\<close>

definition refuse_link_local_dial :: "net_kit \<Rightarrow> string \<Rightarrow> bool" where
  "refuse_link_local_dial nk address =
     (case nk_host_port nk address of
        None \<Rightarrow> True
      | Some host \<Rightarrow> (case nk_ip nk host of None \<Rightarrow> False | Some ip \<Rightarrow> link_local ip))"

text \<open>The redirects followed: within the scheme and host, four at most.\<close>

definition redirect_refused :: "model_query \<Rightarrow> string \<Rightarrow> string \<Rightarrow> nat \<Rightarrow> bool" where
  "redirect_refused rq scheme host past \<longleftrightarrow> scheme \<noteq> wr_scheme rq \<or> host \<noteq> wr_host rq \<or> 5 \<le> past"

text \<open>Upper case, as far as a search for an ASCII word can tell: the long s and the dotless i become ASCII letters.\<close>

definition upper_rune :: "rune \<Rightarrow> rune" where
  "upper_rune r = (if 97 \<le> r \<and> r \<le> 122 then r - 32 else if r = 383 then 83 else if r = 305 then 73 else r)"

definition unresolved_value :: "string \<Rightarrow> bool" where
  "unresolved_value v \<longleftrightarrow> prefix ''$'' v \<or> sublist (runes ''$CPA-SESSION-ID'') (map upper_rune (runes v))"

definition set_header :: "string \<Rightarrow> string \<Rightarrow> (string \<times> string) list \<Rightarrow> (string \<times> string) list" where
  "set_header name v hs = AList.update (to_lower name) v hs"

fun set_headers :: "(string \<times> string) list \<Rightarrow> (string \<times> string) list \<Rightarrow> (string \<times> string) list" where
  "set_headers [] hs = hs"
| "set_headers ((name, v) # rest) hs = set_headers rest (if unresolved_value v then hs else set_header name v hs)"

definition discovery_headers :: "string \<Rightarrow> (string \<times> string) list option \<Rightarrow> (string \<times> string) list" where
  "discovery_headers key headers =
     (let hs = set_headers (case headers of None \<Rightarrow> [] | Some given \<Rightarrow> given) (set_header ''Accept'' ''application/json'' []) in
      if key \<noteq> [] then set_header ''Authorization'' (''Bearer '' @ key) hs else hs)"

text \<open>Everything before the request goes out.\<close>

definition discovery_request ::
  "net_kit \<Rightarrow> 'u parts \<Rightarrow> string \<Rightarrow> string \<Rightarrow> string \<Rightarrow> proxy_choice option \<Rightarrow> (string \<times> string) list option \<Rightarrow> 'u site \<Rightarrow> model_query result" where
  "discovery_request nk gp base key i choice headers s =
     (let held = discovery_account gp i s in
      case discovery_key held base key of Inl x \<Rightarrow> Inl x
      | Inr key \<Rightarrow> (case compat_headers_for (gp_kit gp) held base headers of Inl x \<Rightarrow> Inl x
      | Inr headers \<Rightarrow> (case discovery_proxy gp held choice s of Inl x \<Rightarrow> Inl x
      | Inr proxy \<Rightarrow> (case vk_url (gp_kit gp) (trim_right_slash base @ ''/models'') of None \<Rightarrow> Inl (EInvalidInput field_base_url)
      | Some endpoint \<Rightarrow> (case refuse_link_local_host nk (pu_hostname endpoint) of Inl x \<Rightarrow> Inl x
      | Inr _ \<Rightarrow> (case nk_transport nk proxy of None \<Rightarrow> Inl EProviderUnreachable
      | Some through \<Rightarrow> (case nk_target nk endpoint of None \<Rightarrow> Inl (EInvalidInput field_base_url)
      | Some target \<Rightarrow> Inr \<lparr>wr_target = target, wr_scheme = pu_scheme endpoint, wr_host = pu_host endpoint,
            wr_headers = discovery_headers key headers, wr_proxy = proxy, wr_guarded = (\<not> through)\<rparr>)))))))"

section \<open>The answer\<close>

definition model_ids :: "net_kit \<Rightarrow> string \<Rightarrow> string list result" where
  "model_ids nk body =
     (case nk_model_list nk body of
        None \<Rightarrow> Inl EProviderUnreachable
      | Some listed \<Rightarrow> Inr (remdups_adj (sort (filter (\<lambda>i. i \<noteq> []) (map trim_space listed)))))"

definition discovery_answer :: "net_kit \<Rightarrow> (int \<times> string option) option \<Rightarrow> string list result" where
  "discovery_answer nk answer =
     (case answer of
        None \<Rightarrow> Inl EProviderUnreachable
      | Some (status, body) \<Rightarrow>
          if status = 401 \<or> status = 403 then Inl EProviderAuthFailed
          else if status < 200 \<or> 299 < status then Inl EProviderUnreachable
          else case body of
            None \<Rightarrow> Inl EProviderUnreachable
          | Some b \<Rightarrow> if discover_max_bytes < length b then Inl EProviderUnreachable else model_ids nk b)"

text \<open>\<open>client.Do\<close> with the two hooks: the dialer's guard before every connection, the redirects' before every further request. What it contacts is a result of its own.\<close>

record contact =
  ct_scheme :: string
  ct_host :: string
  ct_address :: string

definition dialled :: "net_kit \<Rightarrow> model_query \<Rightarrow> nat \<Rightarrow> string \<Rightarrow> string \<Rightarrow> string option" where
  "dialled nk rq past scheme host =
     find (\<lambda>address. \<not> (wr_guarded rq \<and> refuse_link_local_dial nk address) \<and> nk_connects nk past address) (nk_dials nk past scheme host)"

function client_do :: "net_kit \<Rightarrow> model_query \<Rightarrow> nat \<Rightarrow> string \<Rightarrow> string \<Rightarrow> contact list \<times> (int \<times> string option) option" where
  "client_do nk rq past scheme host =
     (case dialled nk rq past scheme host of
        None \<Rightarrow> ([], None)
      | Some address \<Rightarrow>
          (let c = \<lparr>ct_scheme = scheme, ct_host = host, ct_address = address\<rparr> in
           case nk_hop nk rq past address of
             Broken \<Rightarrow> ([c], None)
           | Answered status body \<Rightarrow> ([c], Some (status, body))
           | Redirected scheme' host' \<Rightarrow>
               if redirect_refused rq scheme' host' (Suc past) then ([c], None)
               else (let (cs, answer) = client_do nk rq (Suc past) scheme' host' in (c # cs, answer))))"
  by pat_completeness auto
termination by (relation "measure (\<lambda>(nk, rq, past, scheme, host). 5 - past)") (auto simp: redirect_refused_def)

declare client_do.simps [simp del]

definition discover_models ::
  "net_kit \<Rightarrow> 'u parts \<Rightarrow> string \<Rightarrow> string \<Rightarrow> string \<Rightarrow> proxy_choice option \<Rightarrow> (string \<times> string) list option \<Rightarrow> ('u site, string list) act" where
  "discover_models nk gp base key i choice headers =
     abnd (aget (discovery_request nk gp base key i choice headers)) (\<lambda>r.
     case r of Inl x \<Rightarrow> araise x | Inr rq \<Rightarrow> alift (discovery_answer nk (snd (client_do nk rq 0 (wr_scheme rq) (wr_host rq)))))"

section \<open>Where the stored secrets go\<close>

lemma set_header_subset: "set (set_header name v hs) \<subseteq> insert (to_lower name, v) (set hs)"
  unfolding set_header_def by (induction hs) auto

lemma set_headers_from: "(n, v) \<in> set (set_headers given hs) \<Longrightarrow> (n, v) \<in> set hs \<or> (\<exists>name. (name, v) \<in> set given \<and> n = to_lower name)"
proof (induction given hs rule: set_headers.induct)
  case (2 name w rest hs)
  then show ?case using set_header_subset [of name w hs] by (auto split: if_splits)
qed simp

text \<open>A header of a discovery is the request's own, or comes from the account it names; and what comes from the account, key or header, goes to its base URL.\<close>

definition from_request :: "string \<Rightarrow> (string \<times> string) list option \<Rightarrow> string \<times> string \<Rightarrow> bool" where
  "from_request key headers h \<longleftrightarrow> h = (''accept'', ''application/json'') \<or> key \<noteq> [] \<and> h = (''authorization'', ''Bearer '' @ key)
     \<or> (\<exists>given name. headers = Some given \<and> (name, snd h) \<in> set given \<and> fst h = to_lower name)"

definition from_account :: "vendor_kit \<Rightarrow> auth \<Rightarrow> string \<Rightarrow> string \<times> string \<Rightarrow> bool" where
  "from_account vk a base h \<longleftrightarrow> trim_right_slash (text_or_empty meta_base_url (au_meta a)) = trim_right_slash base
     \<and> (h = (''authorization'', ''Bearer '' @ text_or_empty meta_api_key (au_meta a))
        \<or> (\<exists>name. (name, snd h) \<in> set (vk_headers vk (au_meta a)) \<and> fst h = to_lower name))"

lemma discovery_headers_from:
  assumes "h \<in> set (discovery_headers key headers)"
  shows "h = (''accept'', ''application/json'') \<or> key \<noteq> [] \<and> h = (''authorization'', ''Bearer '' @ key)
     \<or> (\<exists>given name. headers = Some given \<and> (name, snd h) \<in> set given \<and> fst h = to_lower name)"
proof -
  let ?own = "set_headers (case headers of None \<Rightarrow> [] | Some given \<Rightarrow> given) (set_header ''Accept'' ''application/json'' [])"
  have names: "to_lower ''Accept'' = ''accept''" "to_lower ''Authorization'' = ''authorization''" by code_simp+
  have own: "h = (''accept'', ''application/json'') \<or> (\<exists>given name. headers = Some given \<and> (name, snd h) \<in> set given \<and> fst h = to_lower name)" if "h \<in> set ?own"
  proof -
    obtain n v where "h = (n, v)" by (cases h)
    then show ?thesis using that by (auto simp: set_header_def names dest!: set_headers_from split: option.splits)
  qed
  have "set (set_header ''Authorization'' (''Bearer '' @ key) ?own) \<subseteq> insert (''authorization'', ''Bearer '' @ key) (set ?own)"
    using set_header_subset [of "''Authorization''"] by (simp add: names)
  then show ?thesis using assms own by (auto simp: discovery_headers_def Let_def split: if_splits)
qed

text \<open>A host none of whose addresses is link-local.\<close>

definition reachable_host :: "net_kit \<Rightarrow> string \<Rightarrow> bool" where
  "reachable_host nk host \<longleftrightarrow> (case nk_ip nk host of
     Some ip \<Rightarrow> \<not> link_local ip
   | None \<Rightarrow> (case nk_lookup nk host of None \<Rightarrow> True | Some addresses \<Rightarrow> \<not> (\<exists>ip \<in> set addresses. link_local ip)))"

text \<open>An address that names no link-local one.\<close>

definition safe_address :: "net_kit \<Rightarrow> string \<Rightarrow> bool" where
  "safe_address nk address \<longleftrightarrow> (\<exists>host. nk_host_port nk address = Some host \<and> (\<forall>ip. nk_ip nk host = Some ip \<longrightarrow> \<not> link_local ip))"

text \<open>What a request contacts: the scheme and host it is for, at a safe address when its dialer is guarded.\<close>

lemma client_do_contacts:
  assumes "scheme = wr_scheme rq" "host = wr_host rq" "past < 5"
  shows "length (fst (client_do nk rq past scheme host)) \<le> 5 - past
    \<and> (\<forall>c \<in> set (fst (client_do nk rq past scheme host)). ct_scheme c = wr_scheme rq \<and> ct_host c = wr_host rq \<and> (wr_guarded rq \<longrightarrow> safe_address nk (ct_address c)))"
  using assms
proof (induction nk rq past scheme host rule: client_do.induct)
  case (1 nk rq past scheme host)
  show ?case
  proof (cases "dialled nk rq past scheme host")
    case None
    then show ?thesis by (simp add: client_do.simps [of nk rq past])
  next
    case (Some address)
    have safe: "wr_guarded rq \<longrightarrow> safe_address nk address"
      using Some by (auto simp: dialled_def refuse_link_local_dial_def safe_address_def dest!: find_Some_mem split: option.splits)
    show ?thesis
    proof (cases "nk_hop nk rq past address")
      case (Redirected sc h)
      show ?thesis
      proof (cases "redirect_refused rq sc h (Suc past)")
        case True
        then show ?thesis using Some Redirected safe 1 by (simp add: client_do.simps [of nk rq past] Let_def)
      next
        case False
        then have "sc = wr_scheme rq" "h = wr_host rq" "Suc past < 5" by (simp_all add: redirect_refused_def)
        from "1.IH" [OF Some refl Redirected False this] show ?thesis
          using Some Redirected False safe 1 by (auto simp: client_do.simps [of nk rq past] Let_def split: prod.splits)
      qed
    qed (use Some safe 1 in \<open>simp_all add: client_do.simps [of nk rq past] Let_def\<close>)
  qed
qed

text \<open>C14: no stored secret follows a URL an administrator merely typed. Every header of a discovery request is one of its own, or is the stored key or a stored header of the
  account it names, and then the request goes to that account's base URL; it is sent to \<open>/models\<close> under the base URL given, to a host none of whose addresses
  is link-local when it is looked up. What is contacted with it, over every redirect, is that scheme and host alone, at most five times, and unless the request goes through a configured
  proxy never at a link-local address, whatever the name resolves to by then. And an update keeps a stored key only at the base URL it is stored for.\<close>

theorem stored_secrets_stay_home:
  assumes "discovery_request nk gp base key i choice headers s = Inr rq" "kept_key held u = Inr left_key"
    and "client_do nk rq 0 (wr_scheme rq) (wr_host rq) = (contacts, answer)"
  shows "(\<forall>h \<in> set (wr_headers rq). from_request key headers h \<or> (\<exists>a. discovery_account gp i s = Some a \<and> from_account (gp_kit gp) a base h))
    \<and> (\<exists>endpoint. vk_url (gp_kit gp) (trim_right_slash base @ ''/models'') = Some endpoint \<and> nk_target nk endpoint = Some (wr_target rq)
         \<and> reachable_host nk (pu_hostname endpoint) \<and> length contacts \<le> 5
         \<and> (\<forall>c \<in> set contacts. ct_scheme c = pu_scheme endpoint \<and> ct_host c = pu_host endpoint
              \<and> (safe_address nk (ct_address c) \<or> nk_transport nk (wr_proxy rq) = Some True)))
    \<and> discovery_proxy gp (discovery_account gp i s) choice s = Inr (wr_proxy rq)
    \<and> (left_key = [] \<or> cu_api_key u = Some left_key
         \<or> left_key = text_or_empty meta_api_key (au_meta held) \<and> trim_right_slash (text_or_empty meta_base_url (au_meta held)) = trim_right_slash (cu_base_url u))"
proof -
  obtain k hs proxy endpoint through where
    k: "discovery_key (discovery_account gp i s) base key = Inr k" and hs: "compat_headers_for (gp_kit gp) (discovery_account gp i s) base headers = Inr hs"
    and url: "vk_url (gp_kit gp) (trim_right_slash base @ ''/models'') = Some endpoint" "refuse_link_local_host nk (pu_hostname endpoint) = Inr ()"
      "nk_target nk endpoint = Some (wr_target rq)"
    and rq: "wr_scheme rq = pu_scheme endpoint" "wr_host rq = pu_host endpoint" "wr_headers rq = discovery_headers k hs"
      "discovery_proxy gp (discovery_account gp i s) choice s = Inr (wr_proxy rq)" "nk_transport nk (wr_proxy rq) = Some through" "wr_guarded rq \<longleftrightarrow> \<not> through"
    using assms(1) by (auto simp: discovery_request_def Let_def split: sum.splits option.splits)
  have key: "k = key \<or> (\<exists>a. discovery_account gp i s = Some a \<and> k = text_or_empty meta_api_key (au_meta a)
      \<and> trim_right_slash (text_or_empty meta_base_url (au_meta a)) = trim_right_slash base)" if "k \<noteq> []"
    using k that by (auto simp: discovery_key_def Let_def split: option.splits if_splits)
  have given: "hs = headers \<or> (\<exists>a. discovery_account gp i s = Some a \<and> hs = Some (vk_headers (gp_kit gp) (au_meta a))
      \<and> (vk_headers (gp_kit gp) (au_meta a) = [] \<or> trim_right_slash (text_or_empty meta_base_url (au_meta a)) = trim_right_slash base))"
    using hs by (auto simp: compat_headers_for_def Let_def split: option.splits if_splits)
  have headers: "from_request key headers h \<or> (\<exists>a. discovery_account gp i s = Some a \<and> from_account (gp_kit gp) a base h)" if "h \<in> set (wr_headers rq)" for h
    using discovery_headers_from [OF that [unfolded rq(3)]] key given unfolding from_request_def from_account_def by (elim disjE conjE exE) auto
  have reach: "reachable_host nk (pu_hostname endpoint)"
    using url(2) by (auto simp: refuse_link_local_host_def Let_def reachable_host_def split: option.splits if_splits)
  have stays: "left_key = [] \<or> cu_api_key u = Some left_key
      \<or> left_key = text_or_empty meta_api_key (au_meta held) \<and> trim_right_slash (text_or_empty meta_base_url (au_meta held)) = trim_right_slash (cu_base_url u)"
    using assms(2) by (auto simp: kept_key_def Let_def split: option.splits if_splits)
  have contacts: "length contacts \<le> 5" "\<forall>c \<in> set contacts. ct_scheme c = pu_scheme endpoint \<and> ct_host c = pu_host endpoint
      \<and> (safe_address nk (ct_address c) \<or> nk_transport nk (wr_proxy rq) = Some True)"
    using client_do_contacts [of "wr_scheme rq" rq "wr_host rq" 0 nk] assms(3) rq by auto
  show ?thesis using headers url(1,3) reach rq(4) stays contacts by blast
qed

end
