(* ===== verification/CompatCheck.thy ===== *)
theory CompatCheck
  imports VendorAuth
begin

text \<open>
  What an administrator may define a provider as (\<open>internal/app/providers/compat.go\<close> validCompat, validReasoningLevels, validBaseURL, validProxy; \<open>compat_headers.go\<close>;
  \<open>internal/app/proxy.go\<close> Validate). A Go map of headers is the list of its entries in the order a range visits them; parsing a URL is the parameter \<open>vk_url\<close>.
\<close>

section \<open>Names and levels\<close>

definition lower_letter :: "char \<Rightarrow> bool" where
  "lower_letter c \<longleftrightarrow> CHR ''a'' \<le> c \<and> c \<le> CHR ''z''"

definition digit_char :: "char \<Rightarrow> bool" where
  "digit_char c \<longleftrightarrow> CHR ''0'' \<le> c \<and> c \<le> CHR ''9''"

definition compat_name_ok :: "string \<Rightarrow> bool" where
  "compat_name_ok s = (case s of
     [] \<Rightarrow> False
   | c # r \<Rightarrow> (lower_letter c \<or> digit_char c) \<and> length r \<le> 62 \<and> list_all (\<lambda>d. lower_letter d \<or> digit_char d \<or> d \<in> set ''._-'') r)"

definition level_ok :: "string \<Rightarrow> bool" where
  "level_ok s = (case s of
     [] \<Rightarrow> False
   | c # r \<Rightarrow> lower_letter c \<and> length r \<le> 31 \<and> list_all (\<lambda>d. lower_letter d \<or> digit_char d \<or> d \<in> set ''_-'') r)"

definition max_compat_models :: nat where "max_compat_models = 500"
definition max_compat_field :: nat where "max_compat_field = 256"
definition max_compat_base_url :: nat where "max_compat_base_url = 2048"
definition max_reasoning_levels :: nat where "max_reasoning_levels = 16"

definition contains_any :: "string \<Rightarrow> string \<Rightarrow> bool" where
  "contains_any s cs \<longleftrightarrow> list_ex (\<lambda>c. c \<in> set cs) s"

definition canonical_levels :: "string list" where
  "canonical_levels = [''none'', ''minimal'', ''low'', ''medium'', ''high'', ''xhigh'', ''max'', ''auto'']"

definition reasoning_rank :: "string \<Rightarrow> nat" where
  "reasoning_rank level = length (takeWhile (\<lambda>l. l \<noteq> level) canonical_levels)"

fun lower_levels :: "string list \<Rightarrow> string list \<Rightarrow> string list result" where
  "lower_levels out [] = Inr out"
| "lower_levels out (l # ls) =
     (let level = to_lower (trim_space l) in
      if \<not> level_ok level \<or> level \<in> set out then Inl (EInvalidInput ''models'') else lower_levels (out @ [level]) ls)"

definition valid_levels :: "string list option \<Rightarrow> string list option result" where
  "valid_levels levels = (case levels of
     None \<Rightarrow> Inr None
   | Some ls \<Rightarrow>
       if ls = [] \<or> max_reasoning_levels < length ls then Inl (EInvalidInput ''models'')
       else case lower_levels [] ls of Inl x \<Rightarrow> Inl x | Inr out \<Rightarrow> Inr (Some (sort_key reasoning_rank out)))"

section \<open>Definitions\<close>

definition valid_base_url :: "vendor_kit \<Rightarrow> string \<Rightarrow> string result" where
  "valid_base_url vk given =
     (let raw = trim_space given in
      case vk_url vk raw of
        None \<Rightarrow> Inl (EInvalidInput ''baseURL'')
      | Some u \<Rightarrow>
          if max_compat_base_url < length raw \<or> pu_scheme u \<noteq> ''http'' \<and> pu_scheme u \<noteq> ''https'' \<or> pu_host u = [] \<or> pu_user u \<or> pu_query u \<noteq> [] \<or> pu_fragment u \<noteq> []
          then Inl (EInvalidInput ''baseURL'') else Inr (trim_right_slash raw))"

text \<open>The name clients request a model by.\<close>

definition requested_name :: "compat_model \<Rightarrow> string" where
  "requested_name m = (if cm_alias m \<noteq> [] then cm_alias m else cm_name m)"

fun valid_models :: "string list \<Rightarrow> compat_model list \<Rightarrow> compat_model list result" where
  "valid_models served [] = Inr []"
| "valid_models served (given # rest) =
     (let m = given\<lparr>cm_name := trim_space (cm_name given), cm_alias := trim_space (cm_alias given)\<rparr> in
      if cm_name m = [] \<or> max_compat_field < length (cm_name m) \<or> max_compat_field < length (cm_alias m) then Inl (EInvalidInput ''models'')
      else if requested_name m \<in> set served then Inl (EInvalidInput ''models'')
      else case valid_levels (cm_levels m) of
        Inl x \<Rightarrow> Inl x
      | Inr levels \<Rightarrow> (case valid_models (requested_name m # served) rest of
          Inl x \<Rightarrow> Inl x
        | Inr out \<Rightarrow> Inr (m\<lparr>cm_levels := levels\<rparr> # out)))"

definition valid_compat :: "vendor_kit \<Rightarrow> string \<Rightarrow> string \<Rightarrow> compat_model list \<Rightarrow> (string \<times> string \<times> compat_model list) result" where
  "valid_compat vk base_url pre models =
     (case valid_base_url vk base_url of
        Inl x \<Rightarrow> Inl x
      | Inr base \<Rightarrow>
          (let pre = trim_space pre in
           if max_compat_field < length pre \<or> contains_any pre ''/ :*'' then Inl (EInvalidInput ''prefix'')
           else if models = [] \<or> max_compat_models < length models then Inl (EInvalidInput ''models'')
           else case valid_models [] models of Inl x \<Rightarrow> Inl x | Inr out \<Rightarrow> Inr (base, pre, out)))"

section \<open>Headers\<close>

definition header_name_ok :: "string \<Rightarrow> bool" where
  "header_name_ok s \<longleftrightarrow> s \<noteq> [] \<and> list_all (\<lambda>c. lower_letter c \<or> digit_char c \<or> c \<in> set ''!#$%&*+.^_`|~-'' \<or> c = char_of (39 :: nat)) s"

definition forbidden_header :: "string \<Rightarrow> bool" where
  "forbidden_header name \<longleftrightarrow> name \<in> set [''authorization'', ''proxy-authorization'', ''host'', ''content-length'', ''transfer-encoding'', ''connection'',
     ''proxy-connection'', ''keep-alive'', ''te'', ''trailer'', ''upgrade'']"

definition header_value_ok :: "string \<Rightarrow> bool" where
  "header_value_ok s \<longleftrightarrow> list_all (\<lambda>c. \<not> (byte c = 127 \<or> byte c < 32 \<and> byte c \<noteq> 9)) s"

fun check_headers :: "(string \<times> string) list \<Rightarrow> (string \<times> string) list \<Rightarrow> (string \<times> string) list result" where
  "check_headers out [] = Inr out"
| "check_headers out ((raw_name, raw_value) # rest) =
     (let name = to_lower (trim_space raw_name); v = trim_space raw_value in
      if contains_any raw_name [char_of (13 :: nat), char_of (10 :: nat)] \<or> \<not> header_name_ok name \<or> forbidden_header name \<or> v = [] \<or> \<not> header_value_ok raw_value
      then Inl (EInvalidInput ''headers'')
      else if name \<in> fst ` set out then Inl (EInvalidInput ''headers'')
      else check_headers (out @ [(name, v)]) rest)"

definition valid_headers :: "(string \<times> string) list option \<Rightarrow> (string \<times> string) list option result" where
  "valid_headers given = (case given of
     None \<Rightarrow> Inr None
   | Some hs \<Rightarrow> (case check_headers [] hs of Inl x \<Rightarrow> Inl x | Inr out \<Rightarrow> Inr (Some out)))"

section \<open>Proxies\<close>

definition max_proxy_url :: nat where "max_proxy_url = 2048"

definition proxy_schemes :: "string list" where
  "proxy_schemes = [''http'', ''https'', ''socks5'', ''socks5h'']"

definition valid_proxy_port :: "string \<Rightarrow> bool" where
  "valid_proxy_port port \<longleftrightarrow> port = [] \<or> (case parse_int64 port of None \<Rightarrow> False | Some n \<Rightarrow> 1 \<le> n \<and> n \<le> 65535)"

definition valid_choice :: "vendor_kit \<Rightarrow> proxy_choice \<Rightarrow> proxy_choice result" where
  "valid_choice vk c = (case pc_mode c of
     ProxyOther _ \<Rightarrow> Inl (EInvalidInput field_proxy_mode)
   | ProxyCustom \<Rightarrow>
       (let raw = trim_space (pc_url c) in
        case vk_url vk raw of
          None \<Rightarrow> Inl (EInvalidInput field_proxy_url)
        | Some u \<Rightarrow>
            if raw = [] \<or> max_proxy_url < length raw \<or> pu_scheme u \<notin> set proxy_schemes \<or> pu_hostname u = [] \<or> \<not> valid_proxy_port (pu_port u)
              \<or> prefix ''socks5'' (pu_scheme u) \<and> pu_port u = []
            then Inl (EInvalidInput field_proxy_url) else Inr \<lparr>pc_mode = ProxyCustom, pc_url = raw\<rparr>)
   | mode \<Rightarrow> if trim_space (pc_url c) \<noteq> [] then Inl (EInvalidInput field_proxy_url) else Inr \<lparr>pc_mode = mode, pc_url = []\<rparr>)"

definition valid_proxy :: "vendor_kit \<Rightarrow> proxy_choice option \<Rightarrow> proxy_choice option result" where
  "valid_proxy vk p = (case p of None \<Rightarrow> Inr None | Some c \<Rightarrow> (case valid_choice vk c of Inl x \<Rightarrow> Inl x | Inr d \<Rightarrow> Inr (Some d)))"

section \<open>A request's definition\<close>

text \<open>What \<open>CreateCompat\<close> and \<open>UpdateCompat\<close> hand to the gateway of what they were given, or their refusal.\<close>

definition checked_compat :: "vendor_kit \<Rightarrow> compat_provider \<Rightarrow> compat_provider result" where
  "checked_compat vk p =
     (let name = to_lower (trim_space (cv_name p)) in
      if \<not> compat_name_ok name then Inl (EInvalidInput ''name'')
      else case valid_compat vk (cv_base_url p) (cv_prefix p) (cv_models p) of
        Inl x \<Rightarrow> Inl x
      | Inr (base, pre, models) \<Rightarrow>
          if max_compat_base_url < length (cv_api_key p) then Inl (EInvalidInput ''apiKey'')
          else case valid_headers (cv_headers p) of
            Inl x \<Rightarrow> Inl x
          | Inr headers \<Rightarrow> (case valid_proxy vk (cv_proxy p) of
              Inl x \<Rightarrow> Inl x
            | Inr proxy \<Rightarrow> Inr (p\<lparr>cv_name := name, cv_base_url := base, cv_prefix := pre, cv_models := models, cv_headers := headers, cv_proxy := proxy\<rparr>)))"

definition checked_update :: "vendor_kit \<Rightarrow> compat_update \<Rightarrow> compat_update result" where
  "checked_update vk u =
     (case valid_compat vk (cu_base_url u) (cu_prefix u) (cu_models u) of
        Inl x \<Rightarrow> Inl x
      | Inr (base, pre, models) \<Rightarrow>
          if (case cu_api_key u of Some k \<Rightarrow> max_compat_base_url < length k | None \<Rightarrow> False) then Inl (EInvalidInput ''apiKey'')
          else case valid_headers (cu_headers u) of
            Inl x \<Rightarrow> Inl x
          | Inr headers \<Rightarrow> (case valid_proxy vk (cu_proxy u) of
              Inl x \<Rightarrow> Inl x
            | Inr proxy \<Rightarrow> Inr (u\<lparr>cu_base_url := base, cu_prefix := pre, cu_models := models, cu_headers := headers, cu_proxy := proxy\<rparr>)))"

section \<open>What passes\<close>

definition levels_fit :: "string list \<Rightarrow> bool" where
  "levels_fit ls \<longleftrightarrow> ls \<noteq> [] \<and> length ls \<le> max_reasoning_levels \<and> distinct ls \<and> list_all level_ok ls \<and> sorted (map reasoning_rank ls)"

definition model_fits :: "compat_model \<Rightarrow> bool" where
  "model_fits m \<longleftrightarrow> cm_name m \<noteq> [] \<and> length (cm_name m) \<le> max_compat_field \<and> length (cm_alias m) \<le> max_compat_field
     \<and> trim_space (cm_name m) = cm_name m \<and> trim_space (cm_alias m) = cm_alias m \<and> (case cm_levels m of None \<Rightarrow> True | Some ls \<Rightarrow> levels_fit ls)"

definition models_fit :: "compat_model list \<Rightarrow> bool" where
  "models_fit ms \<longleftrightarrow> ms \<noteq> [] \<and> length ms \<le> max_compat_models \<and> distinct (map requested_name ms) \<and> list_all model_fits ms"

definition header_fits :: "string \<times> string \<Rightarrow> bool" where
  "header_fits h \<longleftrightarrow> header_name_ok (fst h) \<and> \<not> forbidden_header (fst h) \<and> snd h \<noteq> [] \<and> header_value_ok (snd h)"

definition headers_fit :: "(string \<times> string) list option \<Rightarrow> bool" where
  "headers_fit given = (case given of None \<Rightarrow> True | Some hs \<Rightarrow> distinct (map fst hs) \<and> list_all header_fits hs)"

definition proxy_fits :: "vendor_kit \<Rightarrow> proxy_choice option \<Rightarrow> bool" where
  "proxy_fits vk p = (case p of None \<Rightarrow> True | Some c \<Rightarrow> valid_choice vk c = Inr c)"

text \<open>A base URL that came from one that parses as an absolute URL of a host, without its last slashes.\<close>

definition base_fits :: "vendor_kit \<Rightarrow> string \<Rightarrow> bool" where
  "base_fits vk base \<longleftrightarrow> trim_right_slash base = base \<and> length base \<le> max_compat_base_url
     \<and> (\<exists>raw u. trim_right_slash raw = base \<and> vk_url vk raw = Some u \<and> pu_scheme u \<in> {''http'', ''https''} \<and> pu_host u \<noteq> [] \<and> \<not> pu_user u \<and> pu_query u = [] \<and> pu_fragment u = [])"

definition definition_fits :: "vendor_kit \<Rightarrow> compat_provider \<Rightarrow> bool" where
  "definition_fits vk p \<longleftrightarrow> compat_name_ok (cv_name p) \<and> base_fits vk (cv_base_url p) \<and> length (cv_prefix p) \<le> max_compat_field
     \<and> \<not> contains_any (cv_prefix p) ''/ :*'' \<and> models_fit (cv_models p) \<and> length (cv_api_key p) \<le> max_compat_base_url
     \<and> headers_fit (cv_headers p) \<and> proxy_fits vk (cv_proxy p)"

lemma lower_levels_distinct:
  "lower_levels out ls = Inr res \<Longrightarrow> distinct out \<Longrightarrow> list_all level_ok out \<Longrightarrow> distinct res \<and> list_all level_ok res"
  by (induction out ls rule: lower_levels.induct) (auto simp: Let_def split: if_splits)

lemma lower_levels_all: "lower_levels out ls = Inr res \<Longrightarrow> res = out @ map (\<lambda>l. to_lower (trim_space l)) ls"
  by (induction out ls rule: lower_levels.induct) (auto simp: Let_def split: if_splits)

lemmas lower_levels_out = lower_levels_distinct [where out = "[]", simplified] lower_levels_all [where out = "[]", simplified]

lemma sort_key_empty: "sort_key f xs = [] \<longleftrightarrow> xs = []"
  by (metis length_0_conv length_sort)

lemma valid_levels_fit:
  assumes "valid_levels (Some ls) = Inr (Some out)"
  shows "levels_fit out" "out = sort_key reasoning_rank (map (\<lambda>l. to_lower (trim_space l)) ls)"
  using assms lower_levels_out [of ls]
  by (auto simp: valid_levels_def levels_fit_def list_all_iff sort_key_empty split: if_splits sum.splits)

lemma valid_levels_option: "valid_levels levels = Inr out \<Longrightarrow> case out of None \<Rightarrow> levels = None | Some ls \<Rightarrow> levels_fit ls"
  using valid_levels_fit(1) by (cases levels; cases out) (auto simp: valid_levels_def split: if_splits sum.splits)

lemma requested_levels [simp]: "requested_name (m\<lparr>cm_levels := ls\<rparr>) = requested_name m"
  by (simp add: requested_name_def)

lemma valid_models_fit:
  "valid_models served ms = Inr out \<Longrightarrow> list_all model_fits out \<and> distinct (map requested_name out) \<and> set (map requested_name out) \<inter> set served = {} \<and> length out = length ms"
proof (induction served ms arbitrary: out rule: valid_models.induct)
  case (2 served given rest)
  define m where "m = given\<lparr>cm_name := trim_space (cm_name given), cm_alias := trim_space (cm_alias given)\<rparr>"
  obtain levels out' where r: "valid_levels (cm_levels m) = Inr levels" "valid_models (requested_name m # served) rest = Inr out'" "out = m\<lparr>cm_levels := levels\<rparr> # out'"
    and m: "cm_name m \<noteq> []" "length (cm_name m) \<le> max_compat_field" "length (cm_alias m) \<le> max_compat_field" "requested_name m \<notin> set served"
    using 2(2) by (auto simp: Let_def m_def [symmetric] split: if_splits sum.splits)
  have ih: "list_all model_fits out' \<and> distinct (map requested_name out') \<and> set (map requested_name out') \<inter> set (requested_name m # served) = {} \<and> length out' = length rest"
    by (rule 2(1) [OF m_def _ _ r(1) r(2)]) (use m in auto)
  have "model_fits (m\<lparr>cm_levels := levels\<rparr>)"
    using m(1-3) valid_levels_option [OF r(1)] by (auto simp: model_fits_def m_def split: option.splits)
  then show ?case using ih m(4) by (auto simp: r(3))
qed simp

lemma valid_models_levels:
  "valid_models served ms = Inr out \<Longrightarrow> i < length ms
     \<Longrightarrow> cm_levels (out ! i) = map_option (\<lambda>ls. sort_key reasoning_rank (map (\<lambda>l. to_lower (trim_space l)) ls)) (cm_levels (ms ! i))"
proof (induction served ms arbitrary: out i rule: valid_models.induct)
  case (2 served given rest)
  define m where "m = given\<lparr>cm_name := trim_space (cm_name given), cm_alias := trim_space (cm_alias given)\<rparr>"
  obtain levels out' where r: "valid_levels (cm_levels m) = Inr levels" "valid_models (requested_name m # served) rest = Inr out'" "out = m\<lparr>cm_levels := levels\<rparr> # out'"
    and m: "\<not> (cm_name m = [] \<or> max_compat_field < length (cm_name m) \<or> max_compat_field < length (cm_alias m))" "requested_name m \<notin> set served"
    using 2(2) by (auto simp: Let_def m_def [symmetric] split: if_splits sum.splits)
  have "levels = map_option (\<lambda>ls. sort_key reasoning_rank (map (\<lambda>l. to_lower (trim_space l)) ls)) (cm_levels given)"
    using r(1) valid_levels_fit(2) by (cases "cm_levels given"; cases levels) (auto simp: m_def valid_levels_def split: if_splits sum.splits)
  then show ?case using 2(1) [OF m_def m r(1,2)] 2(3) by (cases i) (auto simp: r(3))
qed simp

lemma check_headers_fit:
  "check_headers out hs = Inr res \<Longrightarrow> distinct (map fst out) \<Longrightarrow> list_all header_fits out \<Longrightarrow> distinct (map fst res) \<and> list_all header_fits res"
proof (induction out hs rule: check_headers.induct)
  case (2 out raw_name raw_value rest)
  have "header_value_ok (trim_space raw_value)" if "header_value_ok raw_value"
    using that set_trim_space [of raw_value] by (auto simp: header_value_ok_def list_all_iff)
  then show ?case using 2 by (auto simp: Let_def header_fits_def split: if_splits)
qed simp

lemma valid_choice_fits:
  assumes "valid_choice vk c = Inr d"
  shows "valid_choice vk d = Inr d"
proof -
  have "trim_space [] = []" by (simp add: trim_space_def)
  with assms show ?thesis
    by (cases "pc_mode c") (auto simp: valid_choice_def Let_def split: option.splits if_splits)
qed

lemma trim_right_slash_idem [simp]: "trim_right_slash (trim_right_slash s) = trim_right_slash s"
  by (simp add: trim_right_slash_def dropWhile_idem)

lemma trim_right_slash_le: "length (trim_right_slash s) \<le> length s"
  unfolding trim_right_slash_def by (metis length_dropWhile_le length_rev)

lemma valid_base_fits: "valid_base_url vk given = Inr base \<Longrightarrow> base_fits vk base"
  using trim_right_slash_le [of "trim_space given"]
  by (auto simp: valid_base_url_def base_fits_def Let_def split: option.splits if_splits)

text \<open>C13: a provider's definition that passes the checks is well formed: its name is one a policy can name, its base URL an absolute one of a host without credentials, query or
  fragment, its prefix free of the rule syntax; there are 1 to 500 models, no two requested by one name, each list of reasoning levels without repetition in the order upstream falls back
  by; headers are named once, by tokens that neither choose credentials nor frame the request, with no control character in a value; the proxy passes unchanged again. Nothing else is
  changed, and the levels kept are those given, lower-cased.\<close>

theorem definitions_well_formed:
  assumes "checked_compat vk p = Inr q"
  shows "definition_fits vk q \<and> cv_api_key q = cv_api_key p \<and> cv_priority q = cv_priority p \<and> length (cv_models q) = length (cv_models p)
    \<and> (\<forall>i < length (cv_models p). cm_levels (cv_models q ! i)
         = map_option (\<lambda>ls. sort_key reasoning_rank (map (\<lambda>l. to_lower (trim_space l)) ls)) (cm_levels (cv_models p ! i)))"
proof -
  obtain base pre models headers proxy where
    name: "compat_name_ok (to_lower (trim_space (cv_name p)))" and compat: "valid_compat vk (cv_base_url p) (cv_prefix p) (cv_models p) = Inr (base, pre, models)"
    and key: "length (cv_api_key p) \<le> max_compat_base_url" and headers: "valid_headers (cv_headers p) = Inr headers" and proxy: "valid_proxy vk (cv_proxy p) = Inr proxy"
    and q: "q = p\<lparr>cv_name := to_lower (trim_space (cv_name p)), cv_base_url := base, cv_prefix := pre, cv_models := models, cv_headers := headers, cv_proxy := proxy\<rparr>"
    using assms by (auto simp: checked_compat_def Let_def split: if_splits sum.splits prod.splits)
  have parts: "valid_base_url vk (cv_base_url p) = Inr base" "length pre \<le> max_compat_field" "\<not> contains_any pre ''/ :*''" "cv_models p \<noteq> []"
    "length (cv_models p) \<le> max_compat_models" "valid_models [] (cv_models p) = Inr models"
    using compat by (auto simp: valid_compat_def Let_def split: if_splits sum.splits)
  have "headers_fit headers"
    using headers check_headers_fit [of "[]"] by (auto simp: headers_fit_def valid_headers_def split: option.splits sum.splits)
  moreover have "proxy_fits vk proxy"
    using proxy valid_choice_fits by (auto simp: proxy_fits_def valid_proxy_def split: option.splits sum.splits)
  moreover have "models_fit models"
    using valid_models_fit [OF parts(6)] parts(4,5) by (auto simp: models_fit_def)
  moreover have "length models = length (cv_models p)" using valid_models_fit [OF parts(6)] by simp
  ultimately show ?thesis
    using name key parts(2,3) valid_base_fits [OF parts(1)] valid_models_levels [OF parts(6)] by (simp add: definition_fits_def q)
qed

end
