(* ===== verification/Providers.thy ===== *)
theory Providers
  imports AccountsEffect SettingsShown Discovery CompatCheck Cabinet
begin

text \<open>
  The administrator's view of the vendor accounts (\<open>internal/app/providers/providers.go\<close> and \<open>compat.go\<close>), over the gateway's accounts and the quota windows the usage sink keeps. What a
  vendor sign-in hands over is the parameter \<open>login_port\<close>: a started login, and the record a completed one is awaited for. Metric series are left out.
\<close>

section \<open>The desk\<close>

record 'u desk =
  dk_site :: "'u site"
  dk_sink :: sink

record vendor_login =
  vl_session :: string
  vl_url :: string
  vl_expires :: instant

record login_port =
  lg_start :: "string \<Rightarrow> vendor_login result"
  lg_record :: "string \<Rightarrow> string \<Rightarrow> auth result"

definition on_site :: "('u site, 'a) act \<Rightarrow> ('u desk, 'a) act" where
  "on_site m = (\<lambda>e d. case m e (dk_site d) of (r, s) \<Rightarrow> (r, d\<lparr>dk_site := s\<rparr>))"

lemma awp_on_site [awp_simps]: "awp (on_site m) e d Q = awp m e (dk_site d) (\<lambda>r s. Q r (d\<lparr>dk_site := s\<rparr>))"
  by (simp add: awp_def on_site_def split: prod.splits)

section \<open>Accounts\<close>

definition with_quota :: "vendor_account \<Rightarrow> ('u desk, vendor_account) act" where
  "with_quota v = aget (\<lambda>d. v\<lparr>va_quota := va_quota v @ filter (\<lambda>q. qs_account q = va_id v) (quota_signals (dk_sink d))\<rparr>)"

definition find_account :: "'u parts \<Rightarrow> string \<Rightarrow> ('u desk, vendor_account) act" where
  "find_account gp i = abnd (aget (\<lambda>d. find (\<lambda>v. va_id v = i) (accounts gp (dk_site d)))) (\<lambda>r. case r of None \<Rightarrow> araise ENotFound | Some v \<Rightarrow> aret v)"

definition account_event :: "user \<Rightarrow> string \<Rightarrow> string \<Rightarrow> (string \<times> json) list \<Rightarrow> instant \<Rightarrow> audit_event" where
  "account_event actor action target detail now = \<lparr>ae_at = now, ae_actor = u_id actor, ae_action = action, ae_target = target, ae_detail = detail, ae_ip = [], ae_agent = []\<rparr>"

definition audit_account :: "user \<Rightarrow> string \<Rightarrow> string \<Rightarrow> (string \<times> json) list \<Rightarrow> ('u desk, unit) act" where
  "audit_account actor action target detail = on_site (on_world (bnd now_io (\<lambda>now. audit_record (account_event actor action target detail now))))"

definition audit_failed_message :: string where "audit_failed_message = ''audit record failed after a completed action''"
definition unaudited_message :: string where "unaudited_message = ''vendor account is live but unaudited, remove it by hand''"

definition audit_or_warn :: "user \<Rightarrow> string \<Rightarrow> string \<Rightarrow> (string \<times> json) list \<Rightarrow> ('u desk, unit) act" where
  "audit_or_warn actor action target detail =
     abnd (atry (audit_account actor action target detail)) (\<lambda>r. case r of Inr _ \<Rightarrow> aret () | Inl x \<Rightarrow> on_site (on_world (warn audit_failed_message)))"

definition account_target :: "string \<Rightarrow> string" where "account_target i = ''provider_account/'' @ i"

definition account_detail :: "vendor_account \<Rightarrow> (string \<times> json) list" where
  "account_detail v = [(''account_id'', JStr (va_id v)), (''provider'', JStr (va_provider v))]"

text \<open>An added account whose audit record failed is taken out again; when that fails too, it is live and unaudited, which the log says.\<close>

definition withdraw_account :: "'u parts \<Rightarrow> vendor_account \<Rightarrow> err \<Rightarrow> ('u desk, 'a) act" where
  "withdraw_account gp v cause =
     abnd (atry (on_site (remove_account gp (va_id v)))) (\<lambda>r. case r of
       Inr _ \<Rightarrow> araise cause
     | Inl x \<Rightarrow> abnd (on_site (on_world (warn unaudited_message))) (\<lambda>_. araise cause))"

definition audit_or_withdraw :: "'u parts \<Rightarrow> user \<Rightarrow> string \<Rightarrow> vendor_account \<Rightarrow> (string \<times> json) list \<Rightarrow> ('u desk, unit) act" where
  "audit_or_withdraw gp actor action v detail =
     abnd (atry (audit_account actor action (account_target (va_id v)) detail)) (\<lambda>r. case r of Inr _ \<Rightarrow> aret () | Inl x \<Rightarrow> withdraw_account gp v x)"

section \<open>Listing and signing in\<close>

definition list_accounts :: "'u parts \<Rightarrow> user \<Rightarrow> ('u desk, vendor_account list) act" where
  "list_accounts gp actor =
     abnd (alift (require_admin actor)) (\<lambda>_.
     aget (\<lambda>d. map (\<lambda>v. v\<lparr>va_quota := filter (\<lambda>q. qs_account q = va_id v) (quota_signals (dk_sink d))\<rparr>) (accounts gp (dk_site d))))"

definition start_login :: "login_port \<Rightarrow> user \<Rightarrow> string \<Rightarrow> ('u desk, vendor_login) act" where
  "start_login lg actor prov =
     abnd (alift (require_admin actor)) (\<lambda>_.
     abnd (alift (lg_start lg prov)) (\<lambda>login.
     abnd (audit_or_warn actor ''provider.login_start'' (''provider/'' @ prov) [(''provider'', JStr prov)]) (\<lambda>_.
     aret login)))"

definition complete_login :: "'u parts \<Rightarrow> login_port \<Rightarrow> user \<Rightarrow> string \<Rightarrow> string \<Rightarrow> ('u desk, vendor_account) act" where
  "complete_login gp lg actor session url =
     abnd (alift (require_admin actor)) (\<lambda>_.
     abnd (alift (lg_record lg session url)) (\<lambda>a.
     abnd (on_site (add_account gp (Some a))) (\<lambda>stored.
     let v = vendor_account_of (gp_kit gp) stored in
     abnd (audit_or_withdraw gp actor ''provider.account_add'' v (account_detail v)) (\<lambda>_.
     with_quota v))))"

section \<open>Changing and removing\<close>

record account_change =
  ac_disabled :: "bool option"
  ac_proxy :: "proxy_choice option"
  ac_priority :: "int option"

definition mode_text :: "proxy_mode \<Rightarrow> string" where
  "mode_text mode = (case mode of ProxyInherit \<Rightarrow> ''inherit'' | ProxyDirect \<Rightarrow> ''direct'' | ProxyCustom \<Rightarrow> ''custom'' | ProxyOther s \<Rightarrow> s)"

text \<open>A field given is changed and audited, one left out is passed over.\<close>

definition change_field :: "'a option \<Rightarrow> ('a \<Rightarrow> ('u site, unit) act) \<Rightarrow> user \<Rightarrow> string \<Rightarrow> vendor_account \<Rightarrow> string \<Rightarrow> ('a \<Rightarrow> json) \<Rightarrow> ('u desk, unit) act" where
  "change_field given f actor action v key shown = (case given of
     None \<Rightarrow> aret ()
   | Some x \<Rightarrow> abnd (on_site (f x)) (\<lambda>_. audit_or_warn actor action (account_target (va_id v)) (account_detail v @ [(key, shown x)])))"

definition update_vendor_account :: "'u parts \<Rightarrow> user \<Rightarrow> string \<Rightarrow> account_change \<Rightarrow> ('u desk, vendor_account) act" where
  "update_vendor_account gp actor i ch =
     abnd (alift (require_admin actor)) (\<lambda>_.
     if ac_disabled ch = None \<and> ac_proxy ch = None \<and> ac_priority ch = None then araise (EInvalidInput [])
     else
       abnd (alift (valid_proxy (gp_kit gp) (ac_proxy ch))) (\<lambda>proxy.
       abnd (find_account gp i) (\<lambda>before.
       abnd (change_field proxy (change_proxy gp i) actor ''provider.account_proxy'' before ''mode'' (\<lambda>p. JStr (mode_text (pc_mode p)))) (\<lambda>_.
       abnd (change_field (ac_priority ch) (change_priority gp i) actor ''provider.account_priority'' before ''priority'' (\<lambda>n. JNum (of_int n))) (\<lambda>_.
       abnd (change_field (ac_disabled ch) (set_account_disabled gp i) actor ''provider.account_disable'' before ''disabled'' JBool) (\<lambda>_.
       abnd (find_account gp i) with_quota))))))"

definition remove_vendor_account :: "'u parts \<Rightarrow> user \<Rightarrow> string \<Rightarrow> ('u desk, unit) act" where
  "remove_vendor_account gp actor i =
     abnd (alift (require_admin actor)) (\<lambda>_.
     abnd (find_account gp i) (\<lambda>v.
     abnd (on_site (remove_account gp i)) (\<lambda>_.
     abnd (aput (\<lambda>d. d\<lparr>dk_sink := forget_account (va_id v) (dk_sink d)\<rparr>)) (\<lambda>_.
     audit_or_warn actor ''provider.account_remove'' (account_target (va_id v)) (account_detail v)))))"

section \<open>OpenAI-compatible providers\<close>

definition compat_audit :: "vendor_account \<Rightarrow> bool \<Rightarrow> (string \<times> json) list" where
  "compat_audit v has_key = account_detail v @ [(''has_api_key'', JBool has_key)] @
     (case va_compat v of
        None \<Rightarrow> []
      | Some cd \<Rightarrow> [(''base_url'', JStr (cd_base_url cd)), (''models'', JNum (of_nat (length (cd_models cd)))), (''priority'', JNum (of_int (va_priority v))),
          (''header_names'', JArr (map JStr (cd_headers cd)))])"

definition proxy_mode_of :: "proxy_choice option \<Rightarrow> string" where
  "proxy_mode_of p = (case p of None \<Rightarrow> mode_text ProxyInherit | Some c \<Rightarrow> mode_text (pc_mode c))"

definition create_compat :: "'u parts \<Rightarrow> user \<Rightarrow> compat_provider \<Rightarrow> ('u desk, vendor_account) act" where
  "create_compat gp actor p =
     abnd (alift (require_admin actor)) (\<lambda>_.
     abnd (alift (checked_compat (gp_kit gp) p)) (\<lambda>q.
     abnd (on_site (add_compat_provider gp q)) (\<lambda>v.
     abnd (audit_or_withdraw gp actor ''provider.compat_add'' v (compat_audit v (cv_api_key q \<noteq> []) @ [(''proxy_mode'', JStr (proxy_mode_of (cv_proxy q)))])) (\<lambda>_.
     aret v))))"

definition update_compat :: "'u parts \<Rightarrow> user \<Rightarrow> string \<Rightarrow> compat_update \<Rightarrow> ('u desk, vendor_account) act" where
  "update_compat gp actor i given =
     abnd (alift (require_admin actor)) (\<lambda>_.
     abnd (alift (checked_update (gp_kit gp) given)) (\<lambda>u.
     abnd (on_site (update_compat_provider gp i u)) (\<lambda>v.
     abnd (audit_or_warn actor ''provider.compat_update'' (account_target (va_id v))
       (compat_audit v (case va_compat v of None \<Rightarrow> False | Some cd \<Rightarrow> cd_has_key cd)
        @ [(''key_changed'', JBool (cu_api_key u \<noteq> None)), (''headers_changed'', JBool (cu_headers u \<noteq> None)), (''proxy_changed'', JBool (cu_proxy u \<noteq> None))]
        @ (if cu_proxy u = None then [] else [(''proxy_mode'', JStr (proxy_mode_of (cu_proxy u)))]))) (\<lambda>_.
     with_quota v))))"

definition compat_defaults :: "user \<Rightarrow> string list result" where
  "compat_defaults actor = (case require_admin actor of Inl x \<Rightarrow> Inl x | Inr _ \<Rightarrow> Inr default_reasoning_levels)"

record compat_discovery =
  dc_models :: "string list"
  dc_conflicts :: "(string \<times> string list) list"

text \<open>The other providers serving a model, by the catalogue as it is.\<close>

definition serving :: "(string \<times> string list) list \<Rightarrow> string \<Rightarrow> string \<Rightarrow> string list" where
  "serving cat self model = sort (map fst (filter (\<lambda>(prov, ms). prov \<noteq> self \<and> model \<in> set ms) cat))"

definition self_name :: "vendor_account list \<Rightarrow> string \<Rightarrow> string" where
  "self_name vs i = fold (\<lambda>v self. if va_id v = i then (case va_compat v of Some cd \<Rightarrow> cd_name cd | None \<Rightarrow> self) else self) vs []"

definition discover_compat ::
  "net_kit \<Rightarrow> 'u parts \<Rightarrow> (string \<times> string list) list \<Rightarrow> user \<Rightarrow> string \<Rightarrow> string \<Rightarrow> string \<Rightarrow> proxy_choice option \<Rightarrow> (string \<times> string) list option \<Rightarrow> ('u desk, compat_discovery) act" where
  "discover_compat nk gp cat actor base_url key i proxy headers =
     abnd (alift (require_admin actor)) (\<lambda>_.
     abnd (alift (valid_base_url (gp_kit gp) base_url)) (\<lambda>base.
     abnd (alift (valid_headers headers)) (\<lambda>hs.
     abnd (alift (valid_proxy (gp_kit gp) proxy)) (\<lambda>choice.
     abnd (on_site (discover_models nk gp base key i choice hs)) (\<lambda>found_ids.
     aget (\<lambda>d. let self = self_name (accounts gp (dk_site d)) i in
       \<lparr>dc_models = found_ids, dc_conflicts = map (\<lambda>m. (m, serving cat self m)) (filter (\<lambda>m. serving cat self m \<noteq> []) found_ids)\<rparr>))))))"

section \<open>Nothing live goes unaudited\<close>

lemma awp_audit_account:
  assumes "\<And>x w. w_log w = w_log (si_world (dk_site d)) \<Longrightarrow> Q (Inl x) (d\<lparr>dk_site := (dk_site d)\<lparr>si_world := w\<rparr>\<rparr>)"
    and "\<And>row w. \<lbrakk>ar_action row = action; ar_target row = target; ar_actor row = null_uuid (u_id actor); t_audit (w_db w) = trail (dk_site d) @ [row]\<rbrakk>
      \<Longrightarrow> Q (Inr ()) (d\<lparr>dk_site := (dk_site d)\<lparr>si_world := w\<rparr>\<rparr>)"
  shows "awp (audit_account actor action target detail) e d Q"
proof -
  have "wp (audit_record (account_event actor action target detail now)) e w (\<lambda>r w'. Q r (d\<lparr>dk_site := (dk_site d)\<lparr>si_world := w'\<rparr>\<rparr>))"
    if w: "w = tick (si_world (dk_site d))" for now w
    by (rule wp_audit_record) (auto simp: audit_of_def account_event_def trail_def w intro!: assms)
  then show ?thesis by (simp add: audit_account_def awp_simps wp_simps)
qed

text \<open>The end of an addition: audited and live, taken out again, or live and warned about.\<close>

definition accounted_for :: "'u manager \<Rightarrow> ('u \<Rightarrow> string set) \<Rightarrow> user \<Rightarrow> string \<Rightarrow> 'u desk \<Rightarrow> vendor_account result \<Rightarrow> 'u desk \<Rightarrow> bool" where
  "accounted_for m regs actor action d r d' \<longleftrightarrow> (case r of
       Inr v \<Rightarrow> va_id v \<in> au_id ` set (held_list m (dk_site d')) \<and> known m regs (dk_site d') \<subseteq> insert (va_id v) (known m regs (dk_site d))
         \<and> (\<exists>before row. trail (dk_site d') = before @ [row] \<and> ar_action row = action \<and> ar_target row = account_target (va_id v) \<and> ar_actor row = null_uuid (u_id actor))
     | Inl _ \<Rightarrow> known m regs (dk_site d') \<subseteq> known m regs (dk_site d) \<or> unaudited_message \<in> set (w_log (si_world (dk_site d'))))"

lemma known_world [simp]:
  "known m regs (s\<lparr>si_world := w\<rparr>) = known m regs s" "held_list m (s\<lparr>si_world := w\<rparr>) = held_list m s" "trail (s\<lparr>si_world := w\<rparr>) = t_audit (w_db w)"
  by (simp_all add: known_def held_list_def trail_def)

lemma gone_unknown: "gone m regs i key s \<Longrightarrow> i \<notin> known m regs s"
  by (simp add: gone_def known_def)

lemma awp_withdraw_account:
  fixes d t :: "'u desk"
  assumes laws: "manager_laws gp m regs offers" and cipher: "cipher_opens (gp_aead gp)" and m: "gp_manager gp = Some m"
    and t: "distinct (map au_id (held_list m (dk_site t)))" "si_current (dk_site t) \<noteq> None" "known m regs (dk_site t) \<subseteq> insert i (known m regs (dk_site d))"
    and v: "va_id v = i"
  shows "awp (withdraw_account gp v cause) e t (\<lambda>r d'. (\<exists>x. r = Inl x)
    \<and> (known m regs (dk_site d') \<subseteq> known m regs (dk_site d) \<or> unaudited_message \<in> set (w_log (si_world (dk_site d')))))"
proof -
  have "awp (atry (on_site (remove_account gp (va_id v)))) e t (\<lambda>r d'. \<exists>q. r = Inr q \<and> (\<forall>u. q = Inr u \<longrightarrow> known m regs (dk_site d') \<subseteq> known m regs (dk_site d)))"
    unfolding awp_atry awp_on_site
  proof (rule awp_mono [OF awp_remove_account [OF laws cipher m t(1,2)]])
    fix r :: "unit result" and s' :: "'u site"
    assume "removal m regs offers (va_id v) (dk_site t) r s'"
    from removal_known [OF this] have "known m regs s' \<subseteq> known m regs (dk_site d)" if "r = Inr u" for u
      using that t(3) v by auto
    then show "\<exists>q. (Inr r :: unit result result) = Inr q \<and> (\<forall>u. q = Inr u \<longrightarrow> known m regs (dk_site (t\<lparr>dk_site := s'\<rparr>)) \<subseteq> known m regs (dk_site d))" by simp
  qed
  then show ?thesis
    unfolding withdraw_account_def
    by (rule awp_bind) (auto simp: awp_simps warn_def wp_def split: sum.split)
qed

lemma awp_audit_or_withdraw:
  fixes d t :: "'u desk"
  assumes laws: "manager_laws gp m regs offers" and cipher: "cipher_opens (gp_aead gp)" and m: "gp_manager gp = Some m"
    and t: "distinct (map au_id (held_list m (dk_site t)))" "si_current (dk_site t) \<noteq> None" "known m regs (dk_site t) \<subseteq> insert (va_id v) (known m regs (dk_site d))"
      "va_id v \<in> au_id ` set (held_list m (dk_site t))"
    and k: "\<And>d'. \<exists>v'. va_id v' = va_id v \<and> k () e d' = (Inr v', d')"
  shows "awp (abnd (audit_or_withdraw gp actor action v detail) k) e t (accounted_for m regs actor action d)"
  unfolding audit_or_withdraw_def awp_abnd [of "abnd _ _"] awp_abnd [of "atry _"] awp_atry sum.case
proof (rule awp_audit_account)
  fix x and w :: world
  let ?t = "t\<lparr>dk_site := (dk_site t)\<lparr>si_world := w\<rparr>\<rparr>"
  have "distinct (map au_id (held_list m (dk_site ?t)))" "si_current (dk_site ?t) \<noteq> None" "known m regs (dk_site ?t) \<subseteq> insert (va_id v) (known m regs (dk_site d))"
    using t by simp_all
  from awp_withdraw_account [OF laws cipher m this refl, of x e]
  show "awp (case Inl x of Inl x \<Rightarrow> withdraw_account gp v x | Inr y \<Rightarrow> aret ()) e ?t
      (\<lambda>r s'. case r of Inl x \<Rightarrow> accounted_for m regs actor action d (Inl x) s' | Inr a \<Rightarrow> awp (k a) e s' (accounted_for m regs actor action d))"
    by (auto simp: accounted_for_def elim!: awp_mono)
next
  fix row and w :: world
  assume row: "ar_action row = action" "ar_target row = account_target (va_id v)" "ar_actor row = null_uuid (u_id actor)" "t_audit (w_db w) = trail (dk_site t) @ [row]"
  let ?t = "t\<lparr>dk_site := (dk_site t)\<lparr>si_world := w\<rparr>\<rparr>"
  obtain v' where "va_id v' = va_id v" "k () e ?t = (Inr v', ?t)" using k by blast
  then show "awp (case Inr () of Inl x \<Rightarrow> withdraw_account gp v x | Inr y \<Rightarrow> aret ()) e ?t
      (\<lambda>r s'. case r of Inl x \<Rightarrow> accounted_for m regs actor action d (Inl x) s' | Inr a \<Rightarrow> awp (k a) e s' (accounted_for m regs actor action d))"
    using t row unfolding sum.case awp_aret by (auto simp: awp_def accounted_for_def)
qed

text \<open>What follows an addition at the desk.\<close>

lemma awp_added_then:
  fixes d :: "'u desk"
  assumes laws: "manager_laws gp m regs offers" and cipher: "cipher_opens (gp_aead gp)" and m: "gp_manager gp = Some m"
    and held: "distinct (map au_id (held_list m (dk_site d)))" "si_current (dk_site d) \<noteq> None"
    and then_do: "\<And>b s. \<lbrakk>distinct (map au_id (held_list m s)); si_current s \<noteq> None; known m regs s \<subseteq> insert (au_id b) (known m regs (dk_site d));
        au_id b \<in> au_id ` set (held_list m s)\<rbrakk> \<Longrightarrow> awp (k b) e (d\<lparr>dk_site := s\<rparr>) (accounted_for m regs actor action d)"
  shows "awp (add_locked gp a) e (dk_site d) (\<lambda>r s. case r of
       Inl x \<Rightarrow> accounted_for m regs actor action d (Inl x) (d\<lparr>dk_site := s\<rparr>) | Inr b \<Rightarrow> awp (k b) e (d\<lparr>dk_site := s\<rparr>) (accounted_for m regs actor action d))"
  by (rule awp_mono [OF awp_add_any [OF laws cipher m held]]) (auto simp: entered_def accounted_for_def split: sum.splits intro!: then_do)

lemma vendor_account_id [simp]: "va_id (vendor_account_of vk a) = au_id a"
  by (simp add: vendor_account_of_def Let_def)

lemma accounted_refused: "accounted_for m regs actor action d (Inl x) d"
  by (simp add: accounted_for_def)

text \<open>C10: no account enters service unrecorded. A completed sign-in, and a created provider, either ends with the account held and the audit log's last event being its addition by this
  administrator; or it is an error, and then nothing is held or routed to that was not before, unless the log warns that the account is live and unaudited.\<close>

theorem unaudited_is_withdrawn:
  fixes d d' :: "'u desk"
  assumes "manager_laws gp m regs offers" "cipher_opens (gp_aead gp)" "gp_manager gp = Some m" "distinct (map au_id (held_list m (dk_site d)))" "si_current (dk_site d) \<noteq> None"
    and "complete_login gp lg actor session url e d = (r, d') \<and> action = ''provider.account_add'' \<or> create_compat gp actor p e d = (r, d') \<and> action = ''provider.compat_add''"
  shows "accounted_for m regs actor action d r d'"
proof -
  have signed_in: "awp (complete_login gp lg actor session url) e d (accounted_for m regs actor ''provider.account_add'' d)"
  proof -
    have "awp (abnd (on_site (add_locked gp a)) (\<lambda>stored. abnd (audit_or_withdraw gp actor ''provider.account_add'' (vendor_account_of (gp_kit gp) stored)
        (account_detail (vendor_account_of (gp_kit gp) stored))) (\<lambda>_. with_quota (vendor_account_of (gp_kit gp) stored)))) e d (accounted_for m regs actor ''provider.account_add'' d)" for a
      unfolding awp_abnd [of "on_site _"] awp_on_site
      by (rule awp_added_then [OF assms(1-5)], rule awp_audit_or_withdraw [OF assms(1-3)]) (simp_all add: with_quota_def aget_def)
    then show ?thesis
      unfolding complete_login_def add_account_def option.case awp_steps Let_def by (simp add: accounted_refused split: sum.split)
  qed
  have created: "awp (create_compat gp actor p) e d (accounted_for m regs actor ''provider.compat_add'' d)"
  proof -
    have "awp (abnd (on_site (add_compat_provider gp q)) (\<lambda>v. abnd (audit_or_withdraw gp actor ''provider.compat_add'' v (detail v)) (\<lambda>_. aret v))) e d
        (accounted_for m regs actor ''provider.compat_add'' d)" for q detail
    proof -
      have "awp (add_locked gp a) e (dk_site d) (\<lambda>r s. case r of
          Inl x \<Rightarrow> accounted_for m regs actor ''provider.compat_add'' d (Inl x) (d\<lparr>dk_site := s\<rparr>)
        | Inr b \<Rightarrow> awp (abnd (audit_or_withdraw gp actor ''provider.compat_add'' (vendor_account_of (gp_kit gp) b) (detail (vendor_account_of (gp_kit gp) b)))
            (\<lambda>_. aret (vendor_account_of (gp_kit gp) b))) e (d\<lparr>dk_site := s\<rparr>) (accounted_for m regs actor ''provider.compat_add'' d))" for a
        by (rule awp_added_then [OF assms(1-5)], rule awp_audit_or_withdraw [OF assms(1-3)]) (simp_all add: aret_def)
      then show ?thesis
        unfolding awp_abnd [of "on_site _"] awp_on_site add_compat_provider_def awp_if awp_araise awp_steps
        by (simp add: accounted_refused awp_abnd [of "add_locked _ _"] awp_aret awp_araise cong: sum.case_cong split: sum.split)
    qed
    then show ?thesis unfolding create_compat_def awp_steps by (simp add: accounted_refused split: sum.split)
  qed
  show ?thesis using assms(6) signed_in created by (auto dest: awp_run)
qed

end
