(* ===== verification/GatewayExample.thy ===== *)
theory GatewayExample
  imports AdminSafety AccountsRun Providers
begin

text \<open>
  A small gateway the witnesses of the settings service and of the accounts run in: a configuration struct with the fields the gateway reads, a parser that knows one
  document, and an account manager that keeps a list.
\<close>

section \<open>A configuration struct\<close>

definition example_field :: "string \<Rightarrow> string \<Rightarrow> gotype \<Rightarrow> field_info \<times> gotype" where
  "example_field name key t = (\<lparr>fi_name = name, fi_exported = True, fi_yaml = key, fi_json = []\<rparr>, t)"

definition example_type :: gotype where
  "example_type = TStruct
     [example_field ''RemoteManagement'' ''remote-management''
        (TStruct [example_field ''SecretKey'' ''secret-key'' TBasic, example_field ''DisableControlPanel'' ''disable-control-panel'' TBasic]),
      example_field ''APIKeys'' ''api-keys'' (TList TBasic),
      example_field ''Plugins'' ''plugins'' (TStruct [example_field ''Enabled'' ''enabled'' TBasic]),
      example_field ''Home'' ''home'' (TStruct [example_field ''Enabled'' ''enabled'' TBasic]),
      example_field ''OpenAICompatibility'' ''openai-compatibility'' (TList TBasic),
      example_field ''WebsocketAuth'' ''ws-auth'' TBasic,
      example_field ''SaveCooldownStatus'' ''save-cooldown-status'' TBasic,
      example_field ''RequestLog'' ''request-log'' TBasic,
      example_field ''ProxyURL'' ''proxy-url'' TBasic,
      example_field ''RequestRetry'' ''request-retry'' TBasic,
      example_field ''MaxRetryInterval'' ''max-retry-interval'' TBasic,
      example_field ''Routing'' ''routing'' (TStruct [example_field ''SessionAffinity'' ''session-affinity'' TBasic])]"

definition example_index :: "string \<Rightarrow> index" where
  "example_index = (\<lambda>n. case map_of
     [(f_secret, [0, 0]), (f_panel, [0, 1]), (f_api_keys, [1]), (f_plugins, [2, 0]), (f_home, [3, 0]), (f_compat, [4]), (f_ws_auth, [5]), (f_cooldown, [6]),
      (f_request_log, [7]), (f_proxy, [8]), (f_retry, [9]), (f_interval, [10]), (f_affinity, [11, 0])] n of None \<Rightarrow> [12] | Some i \<Rightarrow> i)"

definition example_config :: "int \<Rightarrow> goval" where
  "example_config retries = GStruct [GStruct [GText [], GBool False], GList [], GStruct [GBool False], GStruct [GBool False], GList [], GBool False, GBool False,
     GBool False, GText [], GInt retries, GInt 0, GStruct [GBool False]]"

definition retry_node :: "string \<Rightarrow> ynode" where
  "retry_node n = YNode KMapping 0 yaml_map_tag [] [] ([], [], []) [scalar_node yaml_str_tag ''request-retry'', scalar_node ''!!int'' n]"

text \<open>The document \<open>request-retry: 5\<close>; every other one is read as \<open>request-retry: 3\<close>.\<close>

definition five_document :: string where "five_document = ''request-retry: 5''"

definition example_conf :: conf_kit where
  "example_conf = \<lparr>ck_type = example_type, ck_field = example_index, ck_entry = (\<lambda>en. GText (ce_name en)),
     ck_entry_name = (\<lambda>v. case v of GText s \<Rightarrow> s | _ \<Rightarrow> []), ck_weights = (\<lambda>_. None), ck_clone = (\<lambda>v. v),
     ck_parse = (\<lambda>doc. Inr (example_config (if doc = five_document then 5 else 3))), ck_probe = (\<lambda>_. None),
     ck_render = (\<lambda>v. Inr (retry_node (if at_index [9] v = GInt 5 then ''5'' else ''3''))),
     ck_first = (\<lambda>doc. Decoded (YNode KDocument 0 [] [] [] ([], [], []) [retry_node (if doc = five_document then ''5'' else ''3'')])),
     ck_second = (\<lambda>_. AtEof), ck_short_tag = y_tag, ck_encode = (\<lambda>n. Inr (concat (map y_text (y_content n)))), ck_marshal = (\<lambda>n. Inr []),
     ck_proxy_error = (\<lambda>_. None), ck_redact = (\<lambda>s. []), ck_diff = (\<lambda>a b. Inr (''-'' @ a @ ''+'' @ b)), ck_duration = (\<lambda>_. None)\<rparr>"

section \<open>An account manager\<close>

type_synonym shelf = "auth list \<times> string list"

definition shelf_update :: "auth \<Rightarrow> (shelf site, auth option) act" where
  "shelf_update a = abnd (aget (\<lambda>s. list_ex (\<lambda>c. au_id c = au_id a) (fst (si_up s)))) (\<lambda>there.
     if \<not> there then aret None
     else abnd (aput (\<lambda>s. s\<lparr>si_up := (map (\<lambda>c. if au_id c = au_id a then a else c) (fst (si_up s)), snd (si_up s))\<rparr>)) (\<lambda>_. aret (Some a)))"

text \<open>An account without an id is given one longer than all others.\<close>

definition shelf_name :: "auth \<Rightarrow> auth list \<Rightarrow> auth" where
  "shelf_name a as = (if au_id a \<noteq> [] then a else a\<lparr>au_id := CHR ''n'' # concat (map au_id as)\<rparr>)"

definition shelf_register :: "auth \<Rightarrow> (shelf site, auth) act" where
  "shelf_register a = abnd (aget (\<lambda>s. shelf_name a (fst (si_up s)))) (\<lambda>b.
     abnd (aput (\<lambda>s. s\<lparr>si_up := (filter (\<lambda>c. au_id c \<noteq> au_id b) (fst (si_up s)) @ [b], snd (si_up s))\<rparr>)) (\<lambda>_. aret b))"

definition shelf_manager :: "shelf manager" where
  "shelf_manager = \<lparr>mg_list = fst, mg_get = (\<lambda>i u. find (\<lambda>a. au_id a = i) (fst u)), mg_register = shelf_register, mg_update = shelf_update,
     mg_draft = (\<lambda>i u. find (\<lambda>a. au_id a = i) (fst u)), mg_commit = shelf_update, mg_remove = (\<lambda>i u. (filter (\<lambda>a. au_id a \<noteq> i) (fst u), snd u)),
     mg_unregister = (\<lambda>i u. (fst u, filter (\<lambda>j. j \<noteq> i) (snd u)))\<rparr>"

definition shelf_regs :: "shelf \<Rightarrow> string set" where
  "shelf_regs u = set (snd u)"

text \<open>A compatible provider has models only where the configuration has its entry.\<close>

definition shelf_offers :: "goval \<Rightarrow> auth \<Rightarrow> bool" where
  "shelf_offers cfg a \<longleftrightarrow> (is_compat_account a \<longrightarrow> ck_entry example_conf (compat_entry_of a) \<in> set (conf_list example_conf f_compat cfg))"

definition shelf_parts :: "shelf parts" where
  "shelf_parts = \<lparr>gp_kit = example_kit, gp_conf = example_conf, gp_aead = example_aead, gp_manager = Some shelf_manager, gp_store = True, gp_claim = (\<lambda>u. u),
     gp_reload = (\<lambda>cfg u. (fst u, filter (\<lambda>i. i \<notin> set (map au_id (fst u))) (snd u) @ map au_id (filter (\<lambda>a. \<not> au_disabled a \<and> shelf_offers cfg a) (fst u))))\<rparr>"

lemma shelf_parts_simps [simp]:
  "gp_kit shelf_parts = example_kit" "gp_conf shelf_parts = example_conf" "gp_aead shelf_parts = example_aead" "gp_manager shelf_parts = Some shelf_manager"
  "gp_store shelf_parts"
  by (simp_all add: shelf_parts_def)

section \<open>The laws hold of it\<close>

lemma example_index_simps [simp]:
  "example_index f_secret = [0, 0]" "example_index f_panel = [0, 1]" "example_index f_api_keys = [1]" "example_index f_plugins = [2, 0]"
  "example_index f_home = [3, 0]" "example_index f_compat = [4]" "example_index f_ws_auth = [5]" "example_index f_cooldown = [6]"
  "example_index f_request_log = [7]" "example_index f_proxy = [8]" "example_index f_retry = [9]" "example_index f_interval = [10]" "example_index f_affinity = [11, 0]"
  by code_simp+

lemma example_owned:
  "owned_fields example_type = [(''remote-management'', [0]), (''api-keys'', [1]), (''plugins'', [2]), (''home'', [3]), (''openai-compatibility'', [4]),
     (''ws-auth'', [5]), (''save-cooldown-status'', [6]), (''request-log'', [7])]"
  by code_simp

lemma example_conf_simps [simp]:
  "ck_type example_conf = example_type" "ck_field example_conf = example_index" "ck_weights example_conf v = None" "ck_clone example_conf v = v"
  "ck_parse example_conf doc = Inr (example_config (if doc = five_document then 5 else 3))" "ck_probe example_conf doc = None"
  "ck_proxy_error example_conf t = None" "ck_second example_conf doc = AtEof" "ck_short_tag example_conf = y_tag"
  "ck_first example_conf doc = Decoded (YNode KDocument 0 [] [] [] ([], [], []) [retry_node (if doc = five_document then ''5'' else ''3'')])"
  "ck_render example_conf v = Inr (retry_node (if at_index [9] v = GInt 5 then ''5'' else ''3''))" "ck_encode example_conf n = Inr (concat (map y_text (y_content n)))"
  "ck_diff example_conf a b = Inr (''-'' @ a @ ''+'' @ b)"
  by (simp_all add: example_conf_def)

lemma example_struct: "struct_laws example_conf"
  by (simp add: struct_laws_def fields_apart_def keeps_shape_def conf_names_def example_owned)

lemma example_shaped: "shaped example_conf (example_config n)"
  by (simp add: shaped_def conf_names_def example_owned example_config_def)

lemma example_covered: "\<forall>n \<in> owned_names. covered example_conf n"
  by (simp add: owned_names_def covered_def example_owned)

lemma shelf_upstream: "upstream_laws shelf_parts"
  unfolding upstream_laws_def using example_struct example_shaped example_covered
  by (auto simp: held_auths_def shelf_manager_def shelf_parts_def)

lemma shelf_moves: "manager_moves shelf_parts"
  by (auto simp: manager_moves_def moves_def shelf_manager_def shelf_register_def shelf_update_def awp_simps)

lemma shelf_name_fresh: "au_id a = [] \<Longrightarrow> au_id (shelf_name a as) \<notin> au_id ` set as"
proof
  assume a: "au_id a = []" and "au_id (shelf_name a as) \<in> au_id ` set as"
  then obtain c where c: "c \<in> set as" "au_id c = CHR ''n'' # concat (map au_id as)" by (auto simp: shelf_name_def)
  have "length (au_id c) \<le> length (concat (map au_id as))" using c(1) by (induction as) auto
  with c(2) show False by simp
qed

lemma shelf_name_same: "same_account a (shelf_name a as)" "au_id a \<noteq> [] \<Longrightarrow> au_id (shelf_name a as) = au_id a"
  by (simp_all add: same_account_def shelf_name_def)

lemma shelf_registers: "awp (mg_register shelf_manager a) e s (registers gp shelf_manager shelf_regs a s)"
proof -
  let ?b = "shelf_name a (fst (si_up s))"
  let ?s = "s\<lparr>si_up := (filter (\<lambda>c. au_id c \<noteq> au_id ?b) (fst (si_up s)) @ [?b], snd (si_up s))\<rparr>"
  have stored: "stored_as gp ?s c = stored_as gp s c" for c by (simp add: stored_as_def)
  have "registers gp shelf_manager shelf_regs a s (Inr ?b) ?s"
    unfolding registers_def sum.case stored
    using shelf_name_fresh [of a "fst (si_up s)"] shelf_name_same [of a "fst (si_up s)"]
    by (auto simp: shelf_manager_def row_ids_def shelf_regs_def distinct_map_filter rest_kept_def other_auths_def)
  then show ?thesis by (simp add: shelf_manager_def shelf_register_def awp_simps)
qed

lemma shelf_laws: "manager_laws shelf_parts shelf_manager shelf_regs shelf_offers" "manager_laws (shelf_parts\<lparr>gp_kit := vk\<rparr>) shelf_manager shelf_regs shelf_offers"
proof -
  have "awp (mg_update shelf_manager a) e s (updates_held shelf_manager shelf_regs a s)" for a e s
    by (auto simp: shelf_manager_def shelf_update_def awp_simps updates_held_def row_ids_def shelf_regs_def list_ex_iff rest_kept_def intro: rev_image_eqI)
  then show "manager_laws shelf_parts shelf_manager shelf_regs shelf_offers" "manager_laws (shelf_parts\<lparr>gp_kit := vk\<rparr>) shelf_manager shelf_regs shelf_offers"
    unfolding manager_laws_def using shelf_registers by (auto simp: shelf_manager_def shelf_parts_def shelf_regs_def intro: rev_image_eqI)
qed

section \<open>Settings\<close>

definition shelf_site :: "goval option \<Rightarrow> auth list \<Rightarrow> credential_row list \<Rightarrow> shelf site" where
  "shelf_site cur stock rows = \<lparr>si_world = example_world, si_doc = None, si_creds = rows, si_digests = [], si_current = cur, si_captured = True,
     si_returned = False, si_static = [], si_derived = [], si_up = (stock, map au_id stock)\<rparr>"

definition five_update :: settings_update where
  "five_update = \<lparr>su_yaml = Some five_document, su_fields = None, su_dry = False\<rparr>"

definition seven_patch :: settings_patch where
  "seven_patch = \<lparr>sp_proxy = None, sp_retry = Some 7, sp_interval = None, sp_affinity = Some True\<rparr>"

definition start_params :: "goval \<Rightarrow> params" where
  "start_params cfg = \<lparr>pm_password = [], pm_config = Some cfg, pm_stored = [], pm_resolver = True, pm_registry = None, pm_limits = False, pm_prices = False, pm_build = None\<rparr>"

definition forced_config :: "int \<Rightarrow> goval" where
  "forced_config retries = GStruct [GStruct [GText [], GBool True], GList [], GStruct [GBool False], GStruct [GBool False], GList [], GBool True, GBool False,
     GBool False, GText [], GInt retries, GInt 0, GStruct [GBool True]]"

lemma example_root: "document_root example_conf doc = Inr (retry_node (if doc = five_document then ''5'' else ''3''))"
proof -
  have leaf: "\<not> has_merge_key y_tag (scalar_node tag t)" for tag t by (subst has_merge_key.simps) (simp add: scalar_node_def)
  have "\<not> has_merge_key y_tag (retry_node t)" for t
    by (subst has_merge_key.simps) (simp add: retry_node_def leaf, simp add: scalar_node_def yaml_str_tag_def)
  then show ?thesis by (simp add: document_root_def) (simp add: retry_node_def)
qed

theorem patch_keeps_witness:
  "\<exists>tn. document_root example_conf five_document = Inr tn
     \<and> scalar_under ''request-retry'' ''!!int'' (format_int 7) (y_content tn) (y_content (patched_top seven_patch tn))
     \<and> affinity_under True (y_content tn) (y_content (patched_top seven_patch tn))
     \<and> value_under ''proxy-url'' (y_content (patched_top seven_patch tn)) = value_under ''proxy-url'' (y_content tn)"
proof -
  have tn: "document_root example_conf five_document = Inr (retry_node ''5'')" by (simp add: example_root)
  have even: "even (length (y_content (retry_node ''5'')))" by (simp add: retry_node_def)
  have inner: "even (length (y_content v))" if "value_under routing_key (y_content (retry_node ''5'')) = Some v" for v
    using that by (simp add: retry_node_def scalar_node_def routing_key_def split: if_splits)
  have "''proxy-url'' \<notin> patched_keys seven_patch" by (simp add: patched_keys_def seven_patch_def routing_key_def)
  moreover have "sp_retry seven_patch = Some 7" "sp_affinity seven_patch = Some True" by (simp_all add: seven_patch_def)
  ultimately show ?thesis using patch_keeps [OF tn even inner, of seven_patch] tn by blast
qed

lemma example_parse:
  "parse_document example_conf doc = Inr (conf_set example_conf f_affinity (GBool True) (example_config (if doc = five_document then 5 else 3)))"
proof -
  have owned: "\<not> is_owned_key ''request-retry''" by code_simp
  have aliases: "without_aliases (retry_node t) = retry_node t" for t
    by (simp add: without_aliases_def historical_aliases_def retry_node_def scalar_node_def)
  have affinity: "\<not> sets_affinity (retry_node t)" for t
    by (simp add: sets_affinity_def retry_node_def scalar_node_def routing_key_def)
  have unset: "check_owned_unset example_conf (example_config t) = Inr ()" for t
    by (simp add: check_owned_unset_def example_owned example_config_def)
  have "parse_checked example_conf (retry_node t) data = Inr (conf_set example_conf f_affinity (GBool True) (example_config (if data = five_document then 5 else 3)))" for t data
    by (simp add: parse_checked_def unset default_affinity_def affinity)
  moreover have "find (\<lambda>(k, v). is_owned_key (y_text k)) (y_pairs (y_content (retry_node t))) = None" "y_content (retry_node t) \<noteq> []" for t
    using owned by (simp_all add: retry_node_def scalar_node_def)
  ultimately show ?thesis
    by (simp add: parse_document_def example_root without_historical_def aliases Let_def)
qed

lemma shelf_admits: "admit_config example_conf (forced_config n) = Inr (forced_config n)"
  by (simp add: admit_config_def conf_text_def conf_list_def conf_bool_def forced_def force_flag_def forced_config_def)

lemma example_running: "si_current (shelf_site (Some cfg) stock rows) = Some cfg"
  by (simp add: shelf_site_def)

lemma example_steps [simp]: "\<not> fault example_env t"
  by (simp add: example_env_def)

lemma example_open: "\<not> si_returned (shelf_site cur stock rows)" "si_captured (shelf_site cur stock rows)"
  by (simp_all add: shelf_site_def)

lemma example_ref: "ref_ok (null_uuid (u_id example_admin)) (w_db (si_world (shelf_site cur stock rows)))"
  by (simp add: ref_ok_def null_uuid_def user_exists_def example_admin_def example_user_def shelf_site_def example_world_def example_db_def example_row_def uuid_nil_def)

theorem diff_shows_no_secret_witness:
  "\<exists>res s'. settings_set shelf_parts example_admin five_update example_env (shelf_site (Some (forced_config 3)) [] []) = (Inr res, s')
     \<and> ur_applied res \<and> si_current s' = Some (forced_config 5) \<and> si_doc s' = Some five_document
     \<and> discreet example_conf (ur_diff res) \<and> recorded_diff example_admin res (shelf_site (Some (forced_config 3)) [] []) s'"
proof -
  let ?s = "shelf_site (Some (forced_config 3)) [] []"
  have pushed: "overlay_owned example_conf (conf_set example_conf f_affinity (GBool True) (example_config 5)) (forced_config 3) = forced_config 5"
    by (simp add: overlay_owned_def example_owned conf_set_def example_config_def forced_config_def)
  have compat: "conf_set example_conf f_compat (GList []) (forced_config 5) = forced_config 5"
    by (simp add: conf_set_def forced_config_def)
  have held: "with_compat shelf_parts ?s = []"
    by (simp add: with_compat_def shelf_site_def held_auths_def compat_entries_def shelf_manager_def)
  have diff: "\<exists>d. editable_diff example_conf (forced_config 3) (forced_config 5) = Inr d"
    by (simp add: editable_diff_def editable_yaml_def encode_yaml_def)
  then obtain d where diff: "editable_diff example_conf (forced_config 3) (forced_config 5) = Inr d" by blast
  have "awp (settings_set shelf_parts example_admin five_update) example_env ?s (\<lambda>r s'. \<exists>res. r = Inr res
     \<and> ur_applied res \<and> si_current s' = Some (forced_config 5) \<and> si_doc s' = Some five_document)"
    by (simp add: settings_set_def example_require_admin awp_steps validate_update_def proposed_document_def five_update_def example_parse current_config_def example_running pushed diff
      push_config_def held compat shelf_admits reload_locked_def)
      (simp add: awp_simps held compat shelf_admits example_open persist_or_restore_def awp_set_upstream_document Let_def example_ref wp_simps audit_record_def audit_insert_def)
  then obtain res s' where run: "settings_set shelf_parts example_admin five_update example_env ?s = (Inr res, s')"
    and s': "ur_applied res" "si_current s' = Some (forced_config 5)" "si_doc s' = Some five_document"
    by (auto simp: awp_def split: prod.splits)
  have "strip_pointers (ck_type (gp_conf shelf_parts)) = TStruct (case example_type of TStruct fs \<Rightarrow> fs | _ \<Rightarrow> [])"
    by (simp add: example_type_def)
  from diff_shows_no_secret [OF this _ run] have "discreet example_conf (ur_diff res) \<and> recorded_diff example_admin res ?s s'"
    by (auto simp: retry_node_def)
  then show ?thesis using run s' by blast
qed

theorem stored_is_what_runs_witness:
  "\<exists>cfg s1 s2. load_boot_config example_conf (Some (example_config 0)) example_env (shelf_site None [] []) = (Inr cfg, s1)
     \<and> new_gateway shelf_parts (start_params cfg) example_env s1 = (Inr (), s2)
     \<and> settled shelf_parts (fold (site_step shelf_parts example_env)
          [ReloadCaptured, SettingsWrite example_admin five_update, AccountAdd (Some example_account), AccountRemove ''claude-1'', RunReturned] s2)"
proof -
  have other: "default_document \<noteq> five_document" by code_simp
  define cfg where "cfg = conf_set example_conf f_affinity (GBool True) (example_config 3)"
  have owner: "overlay_owned example_conf cfg (example_config 0) = cfg"
    by (simp add: overlay_owned_def example_owned cfg_def conf_set_def example_config_def)
  have "awp (load_boot_config example_conf (Some (example_config 0))) example_env (shelf_site None [] []) (\<lambda>r s'. r = Inr cfg)"
    by (simp add: load_boot_config_def stored_document_def upstream_document_def awp_simps example_parse Let_def shelf_site_def other owner cfg_def [symmetric])
  then obtain s1 where load: "load_boot_config example_conf (Some (example_config 0)) example_env (shelf_site None [] []) = (Inr cfg, s1)"
    by (auto simp: awp_def split: prod.splits)
  have admit: "admit_config example_conf (conf_set example_conf f_compat (GList []) cfg) = Inr (forced_config 3)"
    by (simp add: admit_config_def conf_text_def conf_list_def conf_bool_def forced_def force_flag_def forced_config_def cfg_def conf_set_def example_config_def)
  have "conf_list example_conf f_compat cfg = []" by (simp add: conf_list_def cfg_def conf_set_def example_config_def)
  then have "awp (new_gateway shelf_parts (start_params cfg)) example_env s1 (\<lambda>r s'. r = Inr ())"
    by (simp add: new_gateway_def check_management_env_def start_params_def boot_compat_def Let_def compat_entries_def admit new_spend_check_def trim_space_def awp_simps)
  then obtain s2 where start: "new_gateway shelf_parts (start_params cfg) example_env s1 = (Inr (), s2)"
    by (auto simp: awp_def split: prod.splits)
  have owner_shaped: "shaped (gp_conf shelf_parts) (example_config 0)" and pm: "pm_config (start_params cfg) = Some cfg"
    by (simp_all add: example_shaped start_params_def)
  have "load_boot_config (gp_conf shelf_parts) (Some (example_config 0)) example_env (shelf_site None [] []) = (Inr cfg, s1)" by (simp add: load)
  note after = stored_is_what_runs [OF shelf_upstream shelf_moves owner_shaped this pm start]
  have "settled shelf_parts (fold (site_step shelf_parts example_env) calls s2)" for calls
    using after [of calls] by (auto simp: in_force_after_def lost_write_def example_env_def)
  then show ?thesis using load start by blast
qed

section \<open>Accounts\<close>

definition example_stored_row :: credential_row where
  "example_stored_row = \<lparr>cr_id = ''claude-1'', cr_provider = ''claude'', cr_sealed = seal_version # ''json'', cr_created = 0, cr_updated = 0\<rparr>"

text \<open>Another account, and its row.\<close>

definition other_account :: auth where
  "other_account = (bare_auth (Some []))\<lparr>au_id := ''codex-1'', au_file := ''codex-1'', au_provider := ''codex''\<rparr>"

definition other_row :: credential_row where
  "other_row = \<lparr>cr_id = ''codex-1'', cr_provider = ''codex'', cr_sealed = seal_version # ''other'', cr_created = 0, cr_updated = 0\<rparr>"

lemma shelf_found: "mg_get shelf_manager ''claude-1'' (si_up (shelf_site cur (example_account # as) rows)) = Some example_account"
  by (simp add: shelf_manager_def shelf_site_def example_account_def)

lemma shelf_updates: "mg_update shelf_manager = shelf_update" "mg_register shelf_manager = shelf_register"
  by (simp_all add: shelf_manager_def)

lemma shelf_holds: "fst (si_up (shelf_site cur stock rows)) = stock" "snd (si_up (shelf_site cur stock rows)) = map au_id stock"
  by (simp_all add: shelf_site_def)

theorem removal_leaves_nothing_witness:
  "\<exists>s'. remove_account shelf_parts ''claude-1'' example_env
        (shelf_site (Some (forced_config 3)) [example_account, other_account] [example_stored_row, other_row]) = (Inr (), s')
     \<and> gone shelf_manager shelf_regs ''claude-1'' ''claude-1'' s'
     \<and> other_account \<in> set (held_list shelf_manager s') \<and> other_row \<in> set (si_creds s') \<and> ''codex-1'' \<in> shelf_regs (si_up s')"
proof -
  let ?s = "shelf_site (Some (forced_config 3)) [example_account, other_account] [example_stored_row, other_row]"
  have accounts: "au_id example_account = ''claude-1''" "au_id other_account = ''codex-1''" "\<not> au_disabled other_account" "\<not> is_compat_account other_account"
    by (simp_all add: example_account_def other_account_def bare_auth_def is_compat_account_def compat_key_def)
  have upd: "awp (mg_update shelf_manager (mark_disabled True example_account)) example_env ?s Q =
      Q (Inr (Some (mark_disabled True example_account))) (?s\<lparr>si_up := ([mark_disabled True example_account, other_account], [''claude-1'', ''codex-1''])\<rparr>)" for Q
    by (simp add: shelf_updates shelf_update_def awp_simps shelf_holds accounts mark_disabled_def)
  have "awp (remove_account shelf_parts ''claude-1'') example_env ?s (\<lambda>r s'. r = Inr ())"
    by (simp add: remove_account_def check_store_def needs_store_def awp_simps account_locked_def the_manager_def example_open reload_locked_def remove_locked_def
      set_disabled_locked_def update_held_def reapply_locked_def store_delete_def creds_delete_def forget_held_def Let_def shelf_found upd)
  then obtain s' where run: "remove_account shelf_parts ''claude-1'' example_env ?s = (Inr (), s')" by (auto simp: awp_def split: prod.splits)
  have laws: "manager_laws shelf_parts shelf_manager shelf_regs shelf_offers" "cipher_opens (gp_aead shelf_parts)" "gp_manager shelf_parts = Some shelf_manager"
    "distinct (map au_id (held_list shelf_manager ?s))" "si_current ?s \<noteq> None"
    using shelf_laws(1) example_cipher accounts by (simp_all, simp_all add: held_list_def shelf_site_def shelf_manager_def)
  have held: "held_list shelf_manager ?s = [example_account, other_account]" by (simp add: held_list_def shelf_manager_def shelf_holds)
  from removal_leaves_nothing [OF laws run, unfolded sum.case] obtain a where a: "a \<in> set (held_list shelf_manager ?s)" "au_id a = ''claude-1''"
    and gone: "gone shelf_manager shelf_regs ''claude-1'' (credential_key a) s'" "others_kept shelf_manager ''claude-1'' (credential_key a) ?s s'"
      "others_routed shelf_manager shelf_regs shelf_offers ''claude-1'' ?s s'"
    by (elim disjE conjE exE bexE) (simp only: sum.distinct, rule that)
  have "a = example_account" using a accounts(2) by (auto simp: held)
  then have after: "gone shelf_manager shelf_regs ''claude-1'' ''claude-1'' s'" "others_kept shelf_manager ''claude-1'' ''claude-1'' ?s s'"
      "others_routed shelf_manager shelf_regs shelf_offers ''claude-1'' ?s s'" using gone by (simp_all add: example_key)
  have other: "other_account \<in> other_auths ''claude-1'' (held_list shelf_manager ?s)" unfolding other_auths_def held using accounts(2) by simp
  then have "other_account \<in> other_auths ''claude-1'' (held_list shelf_manager s')"
    using after(2) unfolding others_kept_def by metis
  then have "other_account \<in> set (held_list shelf_manager s')" unfolding other_auths_def by simp
  moreover have "other_row \<in> set (si_creds s')"
  proof -
    have "other_row \<in> set (filter (\<lambda>row. cr_id row \<noteq> ''claude-1'') (si_creds s'))"
      using after(2) unfolding others_kept_def rest_kept_def by (simp add: shelf_site_def other_row_def example_stored_row_def)
    then show ?thesis by simp
  qed
  moreover have "''codex-1'' \<in> shelf_regs (si_up s')"
  proof -
    have "au_id other_account \<in> shelf_regs (si_up ?s)" "shelf_offers (running s') other_account"
      using accounts by (simp_all add: shelf_regs_def shelf_holds shelf_offers_def)
    with after(3) other accounts(3) have "au_id other_account \<in> shelf_regs (si_up s')" unfolding others_routed_def by blast
    then show ?thesis by (simp add: accounts)
  qed
  ultimately show ?thesis using run after(1) by blast
qed

text \<open>A login's account is added: its tokens are in its storage only.\<close>

definition sample_parts :: "shelf parts" where
  "sample_parts = shelf_parts\<lparr>gp_kit := sample_kit\<rparr>"

lemma sample_parts_simps [simp]:
  "gp_kit sample_parts = sample_kit" "gp_conf sample_parts = example_conf" "gp_aead sample_parts = example_aead" "gp_manager sample_parts = Some shelf_manager" "gp_store sample_parts"
  by (simp_all add: sample_parts_def)

lemma sample_headers: "headers_to_attributes sample_kit"
  using example_headers by (simp add: headers_to_attributes_def sample_kit_def)

abbreviation sample_text :: string where
  "sample_text \<equiv> sample_writes (JObj sample_fields)"

lemma sample_loads:
  assumes "auth_from_row sample_kit row sample_text = Inr a"
  shows "comes_back sample_kit (cr_id row) (Some sample_fields) a"
proof -
  have "vk_unmarshal sample_kit sample_text = Some sample_fields" "vk_normalize sample_kit (Some sample_fields) = Some sample_fields"
    by (simp_all add: sample_kit_def example_kit_def sample_json del: sample_writes.simps)
  with row_comes_back [OF sample_headers assms, of sample_fields] show ?thesis by simp
qed

lemma shelf_saves:
  "\<exists>a' s1. store_save sample_kit example_aead True sample_account example_env (shelf_site cur [] []) = (Inr (''claude-1'', a'), s1)
     \<and> map cr_id (si_creds s1) = [''claude-1''] \<and> map cr_sealed (si_creds s1) = [seal_version # sample_text] \<and> si_up s1 = ([], [])"
proof -
  obtain c where c: "prepare_save sample_kit sample_account = Inr (c, Some sample_fields, sample_text)"
    and key: "credential_key sample_account = ''claude-1''" using sample_prepared by blast
  have few: "\<not> max_sealed_plaintext < length sample_text" by code_simp
  show ?thesis
    using few by (simp add: store_save_def key c Let_def abnd_def aasks_def aget_def write_credential_def aput_def sealer_seal_def aret_def
      on_world_def random_io_def now_io_def atry_def write_row_def creds_upsert_def site_stmt_def example_aead_def
      example_env_def shelf_site_def example_world_def forget_digest_def del: sample_writes.simps)
qed

lemma shelf_lists:
  fixes s :: "shelf site"
  assumes "map cr_id (si_creds s) = [''claude-1'']" "map cr_sealed (si_creds s) = [seal_version # sample_text]"
  shows "\<exists>b s2. store_list sample_kit example_aead example_env s = (Inr [b], s2) \<and> au_id b = ''claude-1''"
proof -
  obtain row where row: "si_creds s = [row]" "cr_id row = ''claude-1''" "cr_sealed row = seal_version # sample_text" using assms by auto
  have opened: "sealer_open example_aead (cr_id row) (cr_sealed row) = Inr sample_text"
    by (simp add: row sealer_open_def example_aead_def del: sample_writes.simps)
  have "\<exists>b. auth_from_row sample_kit row sample_text = Inr b"
    by (simp add: auth_from_row_def sample_kit_def example_kit_def Let_def del: sample_writes.simps)
  then obtain b where b: "auth_from_row sample_kit row sample_text = Inr b" by blast
  from sample_loads [OF b] have i: "au_id b = ''claude-1''" by (simp add: row comes_back_def)
  have "\<exists>s2. store_list sample_kit example_aead example_env s = (Inr [b], s2)"
    by (simp add: store_list_def creds_list_def site_stmt_def abnd_def aasks_def aput_def aret_def Let_def row(1) open_row_def opened b del: sample_writes.simps)
  then show ?thesis using i by blast
qed

lemma sample_runs:
  "\<exists>b s'. add_account sample_parts (Some sample_account) example_env (shelf_site (Some (forced_config 3)) [] []) = (Inr b, s')"
proof -
  let ?s = "shelf_site (Some (forced_config 3)) [] []"
  obtain a' s1 where saved: "store_save sample_kit example_aead True sample_account example_env ?s = (Inr (''claude-1'', a'), s1)"
    and s1: "map cr_id (si_creds s1) = [''claude-1'']" "map cr_sealed (si_creds s1) = [seal_version # sample_text]"
    using shelf_saves [of "Some (forced_config 3)"] by (elim exE conjE) (rule that)
  obtain b s2 where listed: "store_list sample_kit example_aead example_env s1 = (Inr [b], s2)" "au_id b = ''claude-1''"
    using shelf_lists [OF s1] by (elim exE conjE) (rule that)
  have runs: "awp (store_save sample_kit example_aead True sample_account) example_env ?s Q = Q (Inr (''claude-1'', a')) s1"
    "awp (store_list sample_kit example_aead) example_env s1 Q' = Q' (Inr [b]) s2" for Q Q'
    by (simp_all add: awp_def saved listed)
  have key: "credential_key sample_account = ''claude-1''" using sample_prepared by blast
  have ready: "readied sample_account = sample_account" by (simp add: readied_def sample_account_def bare_auth_def)
  have holds: "store_holds sample_kit sample_account"
    by (simp add: store_holds_def sample_kit_def example_kit_def sample_account_def bare_auth_def attr_of_def) (simp add: trim_space_def equal_fold_ascii_def)
  have alone: "mg_list shelf_manager (si_up ?s) = []" by (simp add: shelf_manager_def shelf_holds)
  have "awp (add_account sample_parts (Some sample_account)) example_env ?s (\<lambda>r s'. \<exists>b. r = Inr b)"
    using holds
    by (simp add: add_account_def add_locked_def ready Let_def the_manager_def needs_store_def awp_simps reload_locked_def example_open keyed_def alone inherit_routing_def runs
        key register_saved_def load_locked_def listed(2) shelf_updates shelf_register_def reapply_locked_def withdraw_locked_def)
  then show ?thesis by (auto simp: awp_def split: prod.splits)
qed


section \<open>Discovery\<close>

definition vendor_base :: string where "vendor_base = ''https://api.vendor.example/v1''"

definition stored_compat :: auth where
  "stored_compat = (bare_auth (Some [(meta_compat_name, JStr ''vendor''), (meta_api_key, JStr ''stored-key''), (meta_base_url, JStr vendor_base)]))
     \<lparr>au_id := ''openai-compatibility-vendor'', au_provider := compat_key\<rparr>"

definition discovery_parts :: "shelf parts" where
  "discovery_parts = shelf_parts\<lparr>gp_kit := example_kit\<lparr>vk_url := (\<lambda>raw. Some \<lparr>pu_scheme = ''https'', pu_host = ''api.vendor.example'', pu_hostname = ''api.vendor.example'',
     pu_port = [], pu_user = False, pu_query = [], pu_fragment = []\<rparr>)\<rparr>\<rparr>"

text \<open>A name that is looked up at one address, and resolves to a link-local one too by the time it is dialled; a redirect within the host, then one out of it.\<close>

definition link_local_text :: string where "link_local_text = ''169.254.169.254:443''"
definition vendor_address :: string where "vendor_address = ''203.0.113.7:443''"

definition discovery_net :: net_kit where
  "discovery_net = \<lparr>nk_ip = (\<lambda>h. if h = ''169.254.169.254'' then Some [169, 254, 169, 254] else None), nk_lookup = (\<lambda>_. Some [[203, 0, 113, 7]]), nk_transport = (\<lambda>_. Some False), nk_target = (\<lambda>u. Some (pu_scheme u @ ''://'' @ pu_host u)),
     nk_dials = (\<lambda>past scheme host. [link_local_text, vendor_address]), nk_connects = (\<lambda>past address. True),
     nk_hop = (\<lambda>rq past address. Redirected ''https'' (if past = 0 then ''api.vendor.example'' else ''elsewhere.example'')),
     nk_model_list = (\<lambda>_. None), nk_host_port = (\<lambda>a. Some (takeWhile (\<lambda>c. c \<noteq> CHR '':'') a))\<rparr>"

definition vendor_update :: compat_update where
  "vendor_update = \<lparr>cu_base_url = vendor_base, cu_api_key = None, cu_prefix = [], cu_models = [], cu_priority = None, cu_headers = None, cu_proxy = None\<rparr>"

theorem stored_secrets_stay_home_witness:
  "\<exists>rq contacts. discovery_request discovery_net discovery_parts vendor_base [] ''openai-compatibility-vendor'' None None (shelf_site (Some (forced_config 3)) [stored_compat] []) = Inr rq
     \<and> (''authorization'', ''Bearer stored-key'') \<in> set (wr_headers rq)
     \<and> client_do discovery_net rq 0 (wr_scheme rq) (wr_host rq) = (contacts, None) \<and> map ct_address contacts = [vendor_address, vendor_address]
     \<and> (\<exists>c \<in> set contacts. ct_host c = ''api.vendor.example'' \<and> safe_address discovery_net (ct_address c))
     \<and> kept_key stored_compat vendor_update = Inr ''stored-key'' \<and> reachable_host discovery_net ''api.vendor.example''"
proof -
  let ?s = "shelf_site (Some (forced_config 3)) [stored_compat] []"
  have names: "meta_compat_name \<noteq> meta_api_key" "meta_compat_name \<noteq> meta_base_url" "meta_api_key \<noteq> meta_base_url"
    by (simp_all add: meta_compat_name_def meta_api_key_def meta_base_url_def)
  have fields: "text_or_empty meta_api_key (au_meta stored_compat) = ''stored-key''" "text_or_empty meta_base_url (au_meta stored_compat) = vendor_base"
    "is_compat_account stored_compat" "au_proxy stored_compat = []"
    using names by (simp_all add: is_compat_account_def text_or_empty_def meta_text_def meta_field_def stored_compat_def bare_auth_def)
  have account: "discovery_account discovery_parts ''openai-compatibility-vendor'' ?s = Some stored_compat"
    using fields(3) by (simp add: discovery_account_def discovery_parts_def) (simp add: shelf_manager_def shelf_holds stored_compat_def)
  have kept: "kept_key stored_compat vendor_update = Inr ''stored-key''" by (simp add: kept_key_def fields Let_def vendor_update_def)
  have kit: "vk_headers (gp_kit discovery_parts) m = []"
    "vk_url (gp_kit discovery_parts) raw = Some \<lparr>pu_scheme = ''https'', pu_host = ''api.vendor.example'', pu_hostname = ''api.vendor.example'',
     pu_port = [], pu_user = False, pu_query = [], pu_fragment = []\<rparr>" for m raw
    by (simp_all add: discovery_parts_def example_kit_def)
  have site: "global_proxy discovery_parts ?s = []"
    by (simp add: global_proxy_def shelf_site_def conf_text_def discovery_parts_def forced_config_def)
  have long: "[203, 0, 113, 7] \<noteq> replicate 16 (0 :: nat)" by code_simp
  have none: "trim_space [] = []" by (simp add: trim_space_def)
  have "\<exists>rq. discovery_request discovery_net discovery_parts vendor_base [] ''openai-compatibility-vendor'' None None ?s = Inr rq
      \<and> wr_headers rq = discovery_headers ''stored-key'' (Some []) \<and> wr_scheme rq = ''https'' \<and> wr_host rq = ''api.vendor.example'' \<and> wr_guarded rq \<and> wr_proxy rq = []"
    by (simp add: discovery_request_def Let_def account discovery_key_def fields compat_headers_for_def kit discovery_proxy_def none site refuse_link_local_host_def)
      (simp add: discovery_net_def link_local_def link_local_unicast_def link_local_multicast_def interface_local_multicast_def multicast_def unspecified_def to4_def byte_at_def long)
  then obtain rq where rq: "discovery_request discovery_net discovery_parts vendor_base [] ''openai-compatibility-vendor'' None None ?s = Inr rq"
    "wr_headers rq = discovery_headers ''stored-key'' (Some [])" "wr_scheme rq = ''https''" "wr_host rq = ''api.vendor.example''" "wr_guarded rq" "wr_proxy rq = []" by blast
  have "(''authorization'', ''Bearer stored-key'') \<in> set (discovery_headers ''stored-key'' (Some []))" by code_simp
  then have sent: "(''authorization'', ''Bearer stored-key'') \<in> set (wr_headers rq)" by (simp add: rq(2))
  have guard: "refuse_link_local_dial discovery_net link_local_text" "\<not> refuse_link_local_dial discovery_net vendor_address"
    by (simp_all add: refuse_link_local_dial_def discovery_net_def link_local_text_def vendor_address_def link_local_def link_local_unicast_def to4_def byte_at_def)
  have dials: "dialled discovery_net rq past scheme host = Some vendor_address" for past scheme host
    using guard by (simp add: dialled_def rq(5)) (simp add: discovery_net_def)
  have hops: "nk_hop discovery_net rq 0 ad = Redirected ''https'' ''api.vendor.example''" "nk_hop discovery_net rq (Suc 0) ad = Redirected ''https'' ''elsewhere.example''" for ad
    by (simp_all add: discovery_net_def)
  let ?c = "\<lparr>ct_scheme = ''https'', ct_host = ''api.vendor.example'', ct_address = vendor_address\<rparr>"
  have "client_do discovery_net rq (Suc 0) ''https'' ''api.vendor.example'' = ([?c], None)"
    by (simp add: client_do.simps [of _ _ "Suc 0"] dials hops redirect_refused_def rq)
  then have finished: "client_do discovery_net rq 0 (wr_scheme rq) (wr_host rq) = ([?c, ?c], None)"
    by (simp add: client_do.simps [of _ _ 0] dials hops redirect_refused_def rq)
  obtain endpoint where "vk_url (gp_kit discovery_parts) (trim_right_slash vendor_base @ ''/models'') = Some endpoint" "reachable_host discovery_net (pu_hostname endpoint)"
    "safe_address discovery_net (ct_address ?c) \<or> nk_transport discovery_net (wr_proxy rq) = Some True"
    using stored_secrets_stay_home [OF rq(1) kept finished] by (meson list.set_intros(1))
  then have "reachable_host discovery_net ''api.vendor.example''" "safe_address discovery_net vendor_address"
    unfolding kit(2) by (auto simp: discovery_net_def)
  then show ?thesis using rq(1) sent kept finished by (intro exI [of _ rq] exI [of _ "[?c, ?c]"]) simp
qed

section \<open>Providers\<close>

definition typed_provider :: compat_provider where
  "typed_provider = \<lparr>cv_name = '' Vendor '', cv_base_url = '' https://api.vendor.example/v1/ '', cv_api_key = ''key'', cv_prefix = [],
     cv_models = [\<lparr>cm_name = ''m-1'', cm_alias = [], cm_levels = Some [''High'', ''own'', ''none'']\<rparr>], cv_priority = 3, cv_headers = Some [(''X-Team'', ''a'')], cv_proxy = None\<rparr>"

lemma typed_levels: "sort_key reasoning_rank (map (\<lambda>l. to_lower (trim_space l)) [''High'', ''own'', ''none'']) = [''none'', ''high'', ''own'']"
  by code_simp

lemma typed_checks:
  "\<exists>q. checked_compat (gp_kit discovery_parts) typed_provider = Inr q"
proof -
  have name: "to_lower (trim_space '' Vendor '') = ''vendor''" "compat_name_ok ''vendor''" by code_simp+
  have models: "valid_models [] [\<lparr>cm_name = ''m-1'', cm_alias = [], cm_levels = Some [''High'', ''own'', ''none'']\<rparr>]
      = Inr [\<lparr>cm_name = ''m-1'', cm_alias = [], cm_levels = Some [''none'', ''high'', ''own'']\<rparr>]" by code_simp
  have headers: "valid_headers (Some [(''X-Team'', ''a'')]) = Inr (Some [(''x-team'', ''a'')])" by code_simp
  have kit: "vk_url (gp_kit discovery_parts) raw = Some \<lparr>pu_scheme = ''https'', pu_host = ''api.vendor.example'', pu_hostname = ''api.vendor.example'',
     pu_port = [], pu_user = False, pu_query = [], pu_fragment = []\<rparr>" for raw
    by (simp add: discovery_parts_def)
  have raw: "length (trim_space '' https://api.vendor.example/v1/ '') \<le> max_compat_base_url" by code_simp
  have pre: "trim_space [] = []" "\<not> contains_any [] ''/ :*''" by code_simp+
  show ?thesis
    using models headers raw pre name
    by (simp add: checked_compat_def valid_compat_def valid_base_url_def valid_proxy_def Let_def kit typed_provider_def)
      (simp add: max_compat_field_def max_compat_models_def max_compat_base_url_def)
qed

theorem definitions_well_formed_witness:
  "\<exists>q. checked_compat (gp_kit discovery_parts) typed_provider = Inr q \<and> definition_fits (gp_kit discovery_parts) q
     \<and> cm_levels (cv_models q ! 0) = Some [''none'', ''high'', ''own'']"
proof -
  obtain q where q: "checked_compat (gp_kit discovery_parts) typed_provider = Inr q" using typed_checks by blast
  have m: "0 < length (cv_models typed_provider)" "cm_levels (cv_models typed_provider ! 0) = Some [''High'', ''own'', ''none'']" by (simp_all add: typed_provider_def)
  from definitions_well_formed [OF q] m show ?thesis using q typed_levels by auto
qed

definition example_port :: login_port where
  "example_port = \<lparr>lg_start = (\<lambda>_. Inl EUnsupportedProvider), lg_record = (\<lambda>_ _. Inr example_account)\<rparr>"

definition example_desk :: "shelf desk" where
  "example_desk = \<lparr>dk_site = shelf_site (Some (forced_config 3)) [] [], dk_sink = \<lparr>sk_labels = [], sk_quota = [], sk_seen = []\<rparr>\<rparr>"

theorem unaudited_is_withdrawn_witness:
  "\<exists>r d'. complete_login shelf_parts example_port example_admin ''session'' ''url'' example_env example_desk = (r, d')
     \<and> accounted_for shelf_manager shelf_regs example_admin ''provider.account_add'' example_desk r d'"
proof -
  obtain r d' where run: "complete_login shelf_parts example_port example_admin ''session'' ''url'' example_env example_desk = (r, d')" by fastforce
  have laws: "manager_laws shelf_parts shelf_manager shelf_regs shelf_offers" "cipher_opens (gp_aead shelf_parts)" "gp_manager shelf_parts = Some shelf_manager"
    "distinct (map au_id (held_list shelf_manager (dk_site example_desk)))" "si_current (dk_site example_desk) \<noteq> None"
    using shelf_laws example_cipher by (simp_all, simp_all add: example_desk_def held_list_def shelf_site_def shelf_manager_def)
  have "complete_login shelf_parts example_port example_admin ''session'' ''url'' example_env example_desk = (r, d') \<and> ''provider.account_add'' = ''provider.account_add''
      \<or> create_compat shelf_parts example_admin typed_provider example_env example_desk = (r, d') \<and> ''provider.account_add'' = ''provider.compat_add''" using run by simp
  from unaudited_is_withdrawn [OF laws this] run show ?thesis by blast
qed

end
