(* ===== verification/Logins.thy ===== *)
theory Logins
  imports CredentialStore
begin

text \<open>
  Vendor sign-ins (\<open>internal/infra/gateway/login/login.go\<close>): the sessions in progress, shared by the requests that start and complete them, the expiry timers and the
  hook upstream hands a finished sign-in to. The service's mutex makes each of its sections one step; upstream's start handler, its session registry, the callback file and the exchange are
  what the events of a run say. Session ids are 256 random bits, taken never to repeat; the parsing of a pasted URL is \<open>url_kit\<close>.
\<close>

section \<open>Sessions\<close>

definition login_ttl :: duration where "login_ttl = 5 * ns_minute"
definition max_pending_logins :: nat where "max_pending_logins = 8"

text \<open>The policy names with a flow, and the names of upstream's session registry.\<close>

definition login_flows :: "(string \<times> string) list" where
  "login_flows = [(policy_provider ''claude'', ''anthropic''), (policy_provider codex_key, codex_key)]"

record pending_login =
  pl_upstream :: string
  pl_state :: string
  pl_expires :: instant
  pl_claimed :: bool
  pl_result :: "auth option"

type_synonym logins = "(string \<times> pending_login) list"

text \<open>\<open>StartLogin\<close> up to upstream's start handler: a slot is taken and the session published.\<close>

definition reserve_login :: "instant \<Rightarrow> string \<Rightarrow> string \<Rightarrow> logins \<Rightarrow> logins result" where
  "reserve_login now i prov ls =
     (case map_of login_flows prov of
        None \<Rightarrow> Inl EUnsupportedProvider
      | Some up \<Rightarrow>
          if max_pending_logins \<le> length ls then Inl ELoginsBusy
          else Inr (AList.update i \<lparr>pl_upstream = up, pl_state = [], pl_expires = now + login_ttl, pl_claimed = False, pl_result = None\<rparr> ls))"

record start_body =
  sb_url :: string
  sb_state :: string
  sb_error :: string

text \<open>\<open>requestLogin\<close> reads what the start handler answered; the second part is the upstream sessions it ends.\<close>

definition read_start :: "(string \<Rightarrow> bool) \<Rightarrow> int \<Rightarrow> start_body option \<Rightarrow> (string \<times> string) result \<times> string list" where
  "read_start valid_state code body =
     (case body of
        None \<Rightarrow> (Inl (EForeign ''upstream answered with an unreadable body''), [])
      | Some b \<Rightarrow>
          if code \<noteq> 200 then (Inl (EForeign (sb_error b)), if sb_state b \<noteq> [] then [sb_state b] else [])
          else if sb_url b = [] \<or> \<not> valid_state (sb_state b) then (Inl (EForeign ''upstream answered without an authorisation URL and state''), [sb_state b])
          else (Inr (sb_url b, sb_state b), []))"

definition set_login :: "string \<Rightarrow> (pending_login \<Rightarrow> pending_login) \<Rightarrow> logins \<Rightarrow> logins" where
  "set_login i f ls = map (\<lambda>(j, p). if j = i then (j, f p) else (j, p)) ls"

text \<open>\<open>finish\<close>: the slot is freed and upstream's session ended.\<close>

definition finish_login :: "string \<Rightarrow> logins \<Rightarrow> logins \<times> string list" where
  "finish_login i ls = (AList.delete i ls, case map_of ls i of None \<Rightarrow> [] | Some p \<Rightarrow> if pl_state p \<noteq> [] then [pl_state p] else [])"

definition expire_login :: "string \<Rightarrow> logins \<Rightarrow> logins \<times> string list" where
  "expire_login i ls = (case map_of ls i of
     None \<Rightarrow> (ls, [])
   | Some p \<Rightarrow> if pl_claimed p then (ls, []) else (AList.delete i ls, [pl_state p]))"

text \<open>The post-auth hook. It never lets upstream save the record: handed to its session or dropped, upstream gets an error.\<close>

definition deliver_login :: "string \<Rightarrow> auth \<Rightarrow> logins \<Rightarrow> logins" where
  "deliver_login i a ls = set_login i (\<lambda>p. if pl_result p = None then p\<lparr>pl_result := Some a\<rparr> else p) ls"

section \<open>The pasted URL\<close>

record callback =
  cb_code :: string
  cb_state :: string
  cb_error :: string

text \<open>\<open>uk_parse\<close>: the first value of each query parameter and, when it parses as a query, of each parameter in the fragment; blank for one that is not there.\<close>

record url_kit =
  uk_parse :: "string \<Rightarrow> ((string \<Rightarrow> string) \<times> (string \<Rightarrow> string) option) option"

definition full_callback_url :: "string \<Rightarrow> string" where
  "full_callback_url raw =
     (if sublist ''://'' raw then raw
      else if prefix ''?'' raw then ''http://localhost'' @ raw
      else if list_ex (\<lambda>c. c \<in> set ''/?#:'') raw then ''http://'' @ raw
      else ''http://localhost/?'' @ raw)"

definition parse_callback :: "url_kit \<Rightarrow> string \<Rightarrow> callback result" where
  "parse_callback uk given =
     (let raw = trim_space given in
      if raw = [] then Inl ELoginFailed
      else case uk_parse uk (full_callback_url raw) of
        None \<Rightarrow> Inl ELoginFailed
      | Some (q, frag) \<Rightarrow>
          (let of_name = (\<lambda>k. trim_space (if q k \<noteq> [] then q k else case frag of Some f \<Rightarrow> f k | None \<Rightarrow> []));
               code = of_name ''code''; state = of_name ''state''; refusal = of_name ''error'';
               (code, state) = (if state = [] then (case cut CHR ''#'' code of Some (c, st) \<Rightarrow> (c, st) | None \<Rightarrow> (code, state)) else (code, state)) in
           if state = [] \<or> code = [] \<and> refusal = [] then Inl ELoginFailed
           else Inr \<lparr>cb_code = code, cb_state = state, cb_error = refusal\<rparr>))"

text \<open>\<open>CompleteLogin\<close> up to the claim.\<close>

definition claim_login :: "instant \<Rightarrow> string \<Rightarrow> callback \<Rightarrow> logins \<Rightarrow> logins result" where
  "claim_login now i cb ls =
     (case map_of ls i of
        None \<Rightarrow> Inl ELoginExpired
      | Some p \<Rightarrow>
          if pl_claimed p \<or> pl_state p = [] \<or> \<not> now < pl_expires p then Inl ELoginExpired
          else if cb_state cb \<noteq> pl_state p then Inl ELoginFailed
          else Inr (set_login i (\<lambda>p. p\<lparr>pl_claimed := True\<rparr>) ls))"

text \<open>What may end the wait for the exchange without a record: upstream's session gone or failed, the time limit, the caller gone.\<close>

datatype wait_end = SessionGone | SessionFailed string | TimedOut | CallerGone

definition wait_error :: "wait_end \<Rightarrow> err" where
  "wait_error w = (case w of CallerGone \<Rightarrow> EForeign ''await login'' | _ \<Rightarrow> ELoginFailed)"

section \<open>Runs\<close>

text \<open>A call of \<open>CompleteLogin\<close> past its claim: about to hand the code over, waiting for the exchange, adding the account.\<close>

datatype login_stage = HandingOver callback | Awaiting callback | Adding auth

record login_sys =
  ly_sessions :: logins
  ly_clock :: instant
  ly_used :: "string list"
  ly_starting :: "string list"
  ly_calls :: "(string \<times> login_stage) list"
  ly_ended :: "string list"

definition no_logins :: "instant \<Rightarrow> login_sys" where
  "no_logins now = \<lparr>ly_sessions = [], ly_clock = now, ly_used = [], ly_starting = [], ly_calls = [], ly_ended = []\<rparr>"

datatype login_event =
    Reserved string string
  | StartRefused string err
  | Started string string instant
  | NotStarted string
  | Claimed string string instant
  | ClaimRefused string string err
  | HandedOver string
  | Delivered string auth
  | Added string auth
  | AddReturned string
  | GaveUp string err
  | Expired string
  | TimePasses instant

definition freed :: "string \<Rightarrow> login_sys \<Rightarrow> login_sys" where
  "freed i s = (let (ls, ended) = finish_login i (ly_sessions s) in
     s\<lparr>ly_sessions := ls, ly_calls := AList.delete i (ly_calls s), ly_starting := remove1 i (ly_starting s), ly_ended := ly_ended s @ ended\<rparr>)"

inductive login_step :: "url_kit \<Rightarrow> (string \<Rightarrow> bool) \<Rightarrow> login_sys \<Rightarrow> login_event \<Rightarrow> login_sys \<Rightarrow> bool" for uk valid_state where
  reserved: "i \<notin> set (ly_used s) \<Longrightarrow> reserve_login (ly_clock s) i prov (ly_sessions s) = Inr ls
     \<Longrightarrow> login_step uk valid_state s (Reserved i prov) (s\<lparr>ly_sessions := ls, ly_used := i # ly_used s, ly_starting := i # ly_starting s\<rparr>)"
| start_refused: "reserve_login (ly_clock s) i prov (ly_sessions s) = Inl x \<Longrightarrow> login_step uk valid_state s (StartRefused prov x) s"
| started: "i \<in> set (ly_starting s) \<Longrightarrow> read_start valid_state code body = (Inr (url, state), [])
     \<Longrightarrow> map_of (ly_sessions s) i = Some p
     \<Longrightarrow> login_step uk valid_state s (Started i state (pl_expires p))
           (s\<lparr>ly_sessions := set_login i (\<lambda>p. p\<lparr>pl_state := state\<rparr>) (ly_sessions s), ly_starting := remove1 i (ly_starting s)\<rparr>)"
| not_started: "i \<in> set (ly_starting s) \<Longrightarrow> read_start valid_state code body = (Inl x, ended)
     \<Longrightarrow> login_step uk valid_state s (NotStarted i) ((freed i s)\<lparr>ly_ended := ly_ended (freed i s) @ ended\<rparr>)"
| claimed: "parse_callback uk url = Inr cb \<Longrightarrow> claim_login (ly_clock s) i cb (ly_sessions s) = Inr ls
     \<Longrightarrow> login_step uk valid_state s (Claimed i url (ly_clock s)) (s\<lparr>ly_sessions := ls, ly_calls := (i, HandingOver cb) # ly_calls s\<rparr>)"
| unreadable: "parse_callback uk url = Inl x \<Longrightarrow> login_step uk valid_state s (ClaimRefused i url x) s"
| claim_refused: "parse_callback uk url = Inr cb \<Longrightarrow> claim_login (ly_clock s) i cb (ly_sessions s) = Inl x
     \<Longrightarrow> login_step uk valid_state s (ClaimRefused i url x) s"
| vendor_refused: "map_of (ly_calls s) i = Some (HandingOver cb) \<Longrightarrow> cb_error cb \<noteq> [] \<Longrightarrow> login_step uk valid_state s (GaveUp i ELoginFailed) (freed i s)"
| handed_over: "map_of (ly_calls s) i = Some (HandingOver cb) \<Longrightarrow> cb_error cb = []
     \<Longrightarrow> login_step uk valid_state s (HandedOver i) (s\<lparr>ly_calls := AList.update i (Awaiting cb) (ly_calls s)\<rparr>)"
| not_handed_over: "map_of (ly_calls s) i = Some (HandingOver cb) \<Longrightarrow> cb_error cb = [] \<Longrightarrow> x \<in> {ELoginExpired, EForeign ''hand the callback to upstream''}
     \<Longrightarrow> login_step uk valid_state s (GaveUp i x) (freed i s)"
| delivered: "i \<in> set (ly_used s) \<Longrightarrow> login_step uk valid_state s (Delivered i a) (s\<lparr>ly_sessions := deliver_login i a (ly_sessions s)\<rparr>)"
| added: "map_of (ly_calls s) i = Some (Awaiting cb) \<Longrightarrow> map_of (ly_sessions s) i = Some p \<Longrightarrow> pl_result p = Some a
     \<Longrightarrow> login_step uk valid_state s (Added i a)
           (s\<lparr>ly_calls := AList.update i (Adding a) (ly_calls s), ly_sessions := set_login i (\<lambda>p. p\<lparr>pl_result := None\<rparr>) (ly_sessions s)\<rparr>)"
| add_returned: "map_of (ly_calls s) i = Some (Adding a) \<Longrightarrow> login_step uk valid_state s (AddReturned i) (freed i s)"
| gave_up: "map_of (ly_calls s) i = Some (Awaiting cb) \<Longrightarrow> login_step uk valid_state s (GaveUp i (wait_error w)) (freed i s)"
| expired: "i \<notin> set (ly_starting s) \<Longrightarrow> map_of (ly_sessions s) i = Some p \<Longrightarrow> pl_expires p \<le> ly_clock s
     \<Longrightarrow> login_step uk valid_state s (Expired i)
           (s\<lparr>ly_sessions := fst (expire_login i (ly_sessions s)), ly_ended := ly_ended s @ snd (expire_login i (ly_sessions s))\<rparr>)"
| time_passes: "ly_clock s \<le> now \<Longrightarrow> login_step uk valid_state s (TimePasses now) (s\<lparr>ly_clock := now\<rparr>)"

inductive login_runs :: "url_kit \<Rightarrow> (string \<Rightarrow> bool) \<Rightarrow> login_sys \<Rightarrow> login_event list \<Rightarrow> login_sys \<Rightarrow> bool" for uk valid_state where
  none: "login_runs uk valid_state s [] s"
| more: "login_runs uk valid_state s evs t \<Longrightarrow> login_step uk valid_state t ev u \<Longrightarrow> login_runs uk valid_state s (evs @ [ev]) u"

inductive_cases login_stepE: "login_step uk valid_state s ev t"

section \<open>Sessions as a map\<close>

lemma set_login_map [simp]: "map_of (set_login i f ls) j = (if j = i then map_option f (map_of ls i) else map_of ls j)"
  by (induction ls) (auto simp: set_login_def)

lemma set_login_keys [simp]: "map fst (set_login i f ls) = map fst ls" "length (set_login i f ls) = length ls"
  by (auto simp: set_login_def)

lemma delete_map [simp]: "map_of (AList.delete i ls) j = (if j = i then None else map_of ls j)"
  by (simp add: delete_conv')

lemma update_new: "i \<notin> fst ` set ls \<Longrightarrow> AList.update i v ls = ls @ [(i, v)]"
  by (induction ls) auto

lemma map_of_key: "(\<exists>p. map_of ls i = Some p) \<longleftrightarrow> i \<in> fst ` set ls"
  by (metis domI domIff dom_map_of_conv_image_fst not_Some_eq)

lemma freed_simps [simp]:
  "ly_sessions (freed i s) = AList.delete i (ly_sessions s)" "ly_calls (freed i s) = AList.delete i (ly_calls s)" "ly_starting (freed i s) = remove1 i (ly_starting s)"
  "ly_used (freed i s) = ly_used s" "ly_clock (freed i s) = ly_clock s"
  "ly_ended (freed i s) = ly_ended s @ (case map_of (ly_sessions s) i of None \<Rightarrow> [] | Some p \<Rightarrow> if pl_state p \<noteq> [] then [pl_state p] else [])"
  by (simp_all add: freed_def finish_login_def)

lemma claimed_sessions:
  assumes "claim_login now i cb ls = Inr ls'"
  shows "\<exists>p. map_of ls i = Some p \<and> \<not> pl_claimed p \<and> pl_state p \<noteq> [] \<and> cb_state cb = pl_state p \<and> now < pl_expires p"
    "ls' = set_login i (\<lambda>p. p\<lparr>pl_claimed := True\<rparr>) ls"
  using assms by (auto simp: claim_login_def split: option.splits if_splits)

lemma expired_sessions:
  "fst (expire_login i ls) = (if \<exists>p. map_of ls i = Some p \<and> \<not> pl_claimed p then AList.delete i ls else ls)"
  "snd (expire_login i ls) = (case map_of ls i of Some p \<Rightarrow> if pl_claimed p then [] else [pl_state p] | None \<Rightarrow> [])"
  by (auto simp: expire_login_def split: option.split)

lemma reserved_sessions:
  assumes "reserve_login now i prov ls = Inr ls'"
  shows "\<exists>up. ls' = AList.update i \<lparr>pl_upstream = up, pl_state = [], pl_expires = now + login_ttl, pl_claimed = False, pl_result = None\<rparr> ls"
    "length ls < max_pending_logins"
  using assms by (auto simp: reserve_login_def split: option.splits if_splits)

section \<open>Invariants\<close>

definition keys_ok :: "login_sys \<Rightarrow> bool" where
  "keys_ok s \<longleftrightarrow> distinct (map fst (ly_sessions s)) \<and> length (ly_sessions s) \<le> max_pending_logins \<and> fst ` set (ly_sessions s) \<subseteq> set (ly_used s)"

lemma keys_delete:
  assumes "keys_ok s" "ly_sessions t = AList.delete i (ly_sessions s)" "ly_used t = ly_used s"
  shows "keys_ok t"
proof -
  have "fst ` set (AList.delete i (ly_sessions s)) = fst ` set (ly_sessions s) - {i}"
    using delete_keys [of i "ly_sessions s"] by (metis list.set_map set_removeAll)
  then show ?thesis using assms length_delete_le [of i "ly_sessions s"]
    by (auto simp: keys_ok_def delete_keys distinct_removeAll)
qed

lemma keys_same: "keys_ok s \<Longrightarrow> map fst (ly_sessions t) = map fst (ly_sessions s) \<Longrightarrow> ly_used t = ly_used s \<Longrightarrow> keys_ok t"
  unfolding keys_ok_def by (metis length_map list.set_map)

lemma keys_step:
  assumes "login_step uk valid_state s ev t" "keys_ok s"
  shows "keys_ok t"
  using assms(1)
proof (cases rule: login_step.cases)
  case (reserved i prov ls)
  have new: "i \<notin> fst ` set (ly_sessions s)" using reserved(3) assms(2) by (auto simp: keys_ok_def)
  obtain p where "ls = ly_sessions s @ [(i, p)]" using reserved_sessions(1) [OF reserved(4)] update_new [OF new] by metis
  then show ?thesis using reserved_sessions(2) [OF reserved(4)] new assms(2) by (auto simp: reserved(2) keys_ok_def)
next
  case (claimed url cb i ls)
  show ?thesis by (rule keys_same [OF assms(2)]) (simp_all add: claimed(2) claimed_sessions(2) [OF claimed(4)])
next
  case (delivered i a)
  show ?thesis by (rule keys_same [OF assms(2)]) (simp_all add: delivered(2) deliver_login_def)
next
  case (expired i p)
  show ?thesis
  proof (cases "pl_claimed p")
    case True
    show ?thesis by (rule keys_same [OF assms(2)]) (simp_all add: expired(2,4) expired_sessions True)
  next
    case False
    show ?thesis by (rule keys_delete [OF assms(2), where i = i]) (simp_all add: expired(2,4) expired_sessions False)
  qed
next
  case (not_started i code body x ended)
  show ?thesis by (rule keys_delete [OF assms(2), where i = i]) (simp_all add: not_started(2))
qed (use assms(2) in \<open>auto intro: keys_delete [OF assms(2)] keys_same [OF assms(2)]\<close>)

text \<open>The sessions starting are not claimed yet; the calls past their claim are of claimed sessions.\<close>

definition linked :: "login_sys \<Rightarrow> bool" where
  "linked s \<longleftrightarrow> distinct (ly_starting s)
     \<and> (\<forall>i \<in> set (ly_starting s). \<exists>p. map_of (ly_sessions s) i = Some p \<and> pl_state p = [] \<and> \<not> pl_claimed p)
     \<and> (\<forall>i st. map_of (ly_calls s) i = Some st \<longrightarrow> (\<exists>p. map_of (ly_sessions s) i = Some p \<and> pl_claimed p))"

lemma linked_same:
  assumes "linked s" "ly_starting t = ly_starting s" "\<And>i p. map_of (ly_sessions s) i = Some p \<Longrightarrow> \<exists>q. map_of (ly_sessions t) i = Some q \<and> pl_state q = pl_state p \<and> pl_claimed q = pl_claimed p"
    "\<And>i st. map_of (ly_calls t) i = Some st \<Longrightarrow> \<exists>st. map_of (ly_calls s) i = Some st"
  shows "linked t"
  using assms unfolding linked_def by metis

lemma linked_freed:
  assumes "linked s"
  shows "linked (freed i s)"
  using assms by (auto simp: linked_def)

lemma linked_step:
  assumes "login_step uk valid_state s ev t" "linked s" "keys_ok s"
  shows "linked t"
  using assms(1)
proof (cases rule: login_step.cases)
  case (reserved i prov ls)
  have new: "i \<notin> fst ` set (ly_sessions s)" using reserved(3) assms(3) by (auto simp: keys_ok_def)
  then have none: "map_of (ly_sessions s) i = None" by (simp add: map_of_eq_None_iff)
  obtain p where ls: "ls = ly_sessions s @ [(i, p)]" "pl_state p = []" "\<not> pl_claimed p"
    using reserved_sessions(1) [OF reserved(4)] update_new [OF new] by (metis pending_login.select_convs(2,4))
  have "i \<notin> set (ly_starting s)" "map_of (ly_calls s) i = None" using assms(2) none by (auto simp: linked_def)
  then show ?thesis using assms(2) none ls by (auto simp: reserved(2) linked_def map_add_def split: option.split) 
next
  case (started i code body url state p)
  then show ?thesis using assms(2) by (fastforce simp: linked_def)
next
  case (not_started i code body x ended)
  show ?thesis using linked_freed [OF assms(2), of i] by (simp add: not_started(2) linked_def)
next
  case (claimed url cb i ls)
  obtain p where p: "map_of (ly_sessions s) i = Some p" "pl_state p \<noteq> []" using claimed_sessions(1) [OF claimed(4)] by blast
  then have "i \<notin> set (ly_starting s)" using assms(2) by (auto simp: linked_def)
  then show ?thesis using assms(2) p by (auto simp: claimed(2) claimed_sessions(2) [OF claimed(4)] linked_def)
next
  case (handed_over i cb)
  show ?thesis using assms(2) handed_over(3) by (auto simp: handed_over(2) linked_def update_conv')
next
  case (delivered i a)
  have "\<exists>q. map_of (ly_sessions t) j = Some q \<and> pl_state q = pl_state p \<and> pl_claimed q = pl_claimed p" if "map_of (ly_sessions s) j = Some p" for j p
    using that by (cases "j = i"; cases "pl_result p") (simp_all add: delivered(2) deliver_login_def)
  then show ?thesis by (rule linked_same [OF assms(2), rotated]) (auto simp: delivered(2))
next
  case (added i cb p a)
  show ?thesis by (rule linked_same [OF assms(2)]) (use added(3) in \<open>auto simp: added(2) update_conv' split: if_splits\<close>)
next
  case (expired i p)
  show ?thesis using assms(2) expired(3,4) by (auto simp: expired(2) expired_sessions linked_def)
next
  case (time_passes now)
  show ?thesis using assms(2) by (simp add: time_passes(2) linked_def)
qed (use assms(2) linked_freed in auto)

section \<open>What a run has seen\<close>

definition added_of :: "login_event \<Rightarrow> string list" where
  "added_of ev = (case ev of Added i a \<Rightarrow> [i] | _ \<Rightarrow> [])"

definition added_ids :: "login_event list \<Rightarrow> string list" where
  "added_ids evs = concat (map added_of evs)"

text \<open>A call of a session that pasted its state, before the session ran out.\<close>

definition claim_made :: "url_kit \<Rightarrow> login_event list \<Rightarrow> string \<Rightarrow> bool" where
  "claim_made uk evs i \<longleftrightarrow> (\<exists>url cb now ends. Claimed i url now \<in> set evs \<and> parse_callback uk url = Inr cb \<and> Started i (cb_state cb) ends \<in> set evs \<and> now < ends)"

lemma claim_more: "claim_made uk evs i \<Longrightarrow> claim_made uk (evs @ es) i"
  unfolding claim_made_def by (auto 0 4)

definition session_told :: "login_event list \<Rightarrow> string \<Rightarrow> pending_login \<Rightarrow> bool" where
  "session_told evs i p \<longleftrightarrow> (pl_state p \<noteq> [] \<longrightarrow> Started i (pl_state p) (pl_expires p) \<in> set evs)
     \<and> (\<forall>a. pl_result p = Some a \<longrightarrow> Delivered i a \<in> set evs) \<and> (i \<in> set (added_ids evs) \<longrightarrow> pl_claimed p)"

definition call_told :: "url_kit \<Rightarrow> login_event list \<Rightarrow> string \<Rightarrow> login_stage \<Rightarrow> bool" where
  "call_told uk evs i st \<longleftrightarrow> claim_made uk evs i \<and> (i \<in> set (added_ids evs) \<longrightarrow> (\<exists>a. st = Adding a))"

definition told :: "url_kit \<Rightarrow> login_event list \<Rightarrow> login_sys \<Rightarrow> bool" where
  "told uk evs s \<longleftrightarrow> (\<forall>i p. map_of (ly_sessions s) i = Some p \<longrightarrow> session_told evs i p) \<and> (\<forall>i st. map_of (ly_calls s) i = Some st \<longrightarrow> call_told uk evs i st)
     \<and> distinct (added_ids evs) \<and> set (added_ids evs) \<subseteq> set (ly_used s) \<and> (\<forall>i a. Added i a \<in> set evs \<longrightarrow> Delivered i a \<in> set evs \<and> claim_made uk evs i)"

lemma session_more: "added_of ev = [] \<Longrightarrow> session_told evs i p \<Longrightarrow> session_told (evs @ [ev]) i p"
  by (auto simp: session_told_def added_ids_def)

lemma call_more: "added_of ev = [] \<Longrightarrow> call_told uk evs i st \<Longrightarrow> call_told uk (evs @ [ev]) i st"
  by (auto simp: call_told_def added_ids_def claim_more)

text \<open>Any event but an addition: what matters is the sessions and calls it leaves.\<close>

lemma told_other:
  assumes "told uk evs s" "added_of ev = []" "\<And>i a. ev \<noteq> Added i a" "set (ly_used s) \<subseteq> set (ly_used t)"
    and "\<And>i p. map_of (ly_sessions t) i = Some p \<Longrightarrow> map_of (ly_sessions s) i = Some p \<or> session_told (evs @ [ev]) i p"
    and "\<And>i st. map_of (ly_calls t) i = Some st \<Longrightarrow> map_of (ly_calls s) i = Some st \<or> call_told uk (evs @ [ev]) i st"
  shows "told uk (evs @ [ev]) t"
proof -
  have "session_told (evs @ [ev]) i p" if "map_of (ly_sessions t) i = Some p" for i p
    using assms(1,2) assms(5) [OF that] session_more by (auto simp: told_def)
  moreover have "call_told uk (evs @ [ev]) i st" if "map_of (ly_calls t) i = Some st" for i st
    using assms(1,2) assms(6) [OF that] call_more by (auto simp: told_def)
  moreover have "added_ids (evs @ [ev]) = added_ids evs" using assms(2) by (simp add: added_ids_def)
  moreover have "Delivered i a \<in> set (evs @ [ev]) \<and> claim_made uk (evs @ [ev]) i" if "Added i a \<in> set (evs @ [ev])" for i a
  proof -
    have "Added i a \<in> set evs" using that assms(3) [of i a] by auto
    then show ?thesis using assms(1) by (auto simp: told_def claim_more)
  qed
  ultimately show ?thesis using assms(1,4) unfolding told_def by auto
qed

lemma told_step:
  assumes "login_step uk valid_state s ev t" "told uk evs s" "linked s" "keys_ok s"
  shows "told uk (evs @ [ev]) t"
  using assms(1)
proof (cases rule: login_step.cases)
  case (reserved i prov ls)
  have new: "i \<notin> fst ` set (ly_sessions s)" using reserved(3) assms(4) by (auto simp: keys_ok_def)
  obtain p where ls: "ls = ly_sessions s @ [(i, p)]" "pl_state p = []" "pl_result p = None"
    using reserved_sessions(1) [OF reserved(4)] update_new [OF new] by (metis pending_login.select_convs(2,5))
  have "i \<notin> set (added_ids evs)" using assms(2) reserved(3) by (auto simp: told_def)
  then have "session_told (evs @ [ev]) i p" by (simp add: session_told_def ls reserved(1) added_ids_def added_of_def)
  then show ?thesis
    by (intro told_other [OF assms(2)]) (auto simp: reserved(1,2) added_of_def ls(1) map_add_def split: option.splits if_splits)
next
  case (started i code body url state p)
  have "i \<in> set (ly_starting s) \<and> \<not> pl_claimed p" using assms(3) started(3,5) by (auto simp: linked_def)
  then have "session_told (evs @ [ev]) i (p\<lparr>pl_state := state\<rparr>)"
    using assms(2) started(5) by (auto simp: told_def session_told_def started(1) added_ids_def added_of_def)
  then show ?thesis using started(5)
    by (intro told_other [OF assms(2)]) (auto simp: started(1,2) added_of_def split: if_splits)
next
  case (claimed url cb i ls)
  obtain p where p: "map_of (ly_sessions s) i = Some p" "\<not> pl_claimed p" "pl_state p \<noteq> []" "cb_state cb = pl_state p" "ly_clock s < pl_expires p"
    using claimed_sessions(1) [OF claimed(4)] by blast
  have "session_told evs i p" using assms(2) p(1) by (simp add: told_def)
  then have fresh: "i \<notin> set (added_ids evs)" "Started i (pl_state p) (pl_expires p) \<in> set evs" using p by (auto simp: session_told_def)
  have "session_told (evs @ [ev]) i (p\<lparr>pl_claimed := True\<rparr>)"
    using \<open>session_told evs i p\<close> by (auto simp: session_told_def claimed(1) added_ids_def added_of_def)
  moreover have "claim_made uk (evs @ [ev]) i" unfolding claim_made_def
    using claimed(1,3) fresh(2) p(4,5) by (intro exI [of _ url] exI [of _ cb] exI [of _ "ly_clock s"] exI [of _ "pl_expires p"]) simp
  then have "call_told uk (evs @ [ev]) i (HandingOver cb)" using fresh(1) by (simp add: call_told_def claimed(1) added_ids_def added_of_def)
  ultimately show ?thesis using p(1)
    by (intro told_other [OF assms(2)]) (auto simp: claimed(1,2) claimed_sessions(2) [OF claimed(4)] added_of_def split: if_splits)
next
  case (handed_over i cb)
  have "call_told uk evs i (HandingOver cb)" using assms(2) handed_over(3) by (simp add: told_def)
  then have "call_told uk (evs @ [ev]) i (Awaiting cb)"
    by (auto simp: call_told_def claim_more handed_over(1) added_ids_def added_of_def)
  then show ?thesis
    by (intro told_other [OF assms(2)]) (auto simp: handed_over(1,2) added_of_def update_conv' split: if_splits)
next
  case (delivered i a)
  have "session_told (evs @ [ev]) i (if pl_result p = None then p\<lparr>pl_result := Some a\<rparr> else p)" if "map_of (ly_sessions s) i = Some p" for p
  proof -
    have "session_told evs i p" using assms(2) that by (simp add: told_def)
    then show ?thesis by (auto simp: session_told_def delivered(1) added_ids_def added_of_def)
  qed
  then show ?thesis
    by (intro told_other [OF assms(2)]) (auto simp: delivered(1,2) deliver_login_def added_of_def split: if_splits)
next
  case (added i cb p a)
  have p: "session_told evs i p" "call_told uk evs i (Awaiting cb)" "pl_claimed p" using assms(2,3) added(3,4) by (auto simp: told_def linked_def)
  then have fresh: "i \<notin> set (added_ids evs)" "Delivered i a \<in> set evs" "claim_made uk evs i" using added(5) by (auto simp: session_told_def call_told_def)
  have ids: "added_ids (evs @ [ev]) = added_ids evs @ [i]" by (simp add: added_ids_def added_of_def added(1))
  have used: "i \<in> set (ly_used s)" using added(4) assms(4) by (auto simp: keys_ok_def dest!: map_of_SomeD)
  have "session_told (evs @ [ev]) j q" if "map_of (ly_sessions t) j = Some q" for j q
  proof (cases "j = i")
    case True
    then have "q = p\<lparr>pl_result := None\<rparr>" using that added(4) by (simp add: added(2))
    then show ?thesis using p(1,3) True by (auto simp: session_told_def added(1))
  next
    case False
    then have "session_told evs j q" using that assms(2) by (simp add: added(2) told_def)
    then show ?thesis using False by (auto simp: session_told_def ids)
  qed
  moreover have "call_told uk (evs @ [ev]) j st" if "map_of (ly_calls t) j = Some st" for j st
  proof (cases "j = i")
    case True
    then show ?thesis using that fresh(3) by (auto simp: call_told_def added(2) update_conv' claim_more)
  next
    case False
    then have "call_told uk evs j st" using that assms(2) by (simp add: added(2) told_def update_conv')
    then show ?thesis using False by (auto simp: call_told_def ids claim_more)
  qed
  moreover have "Delivered j b \<in> set (evs @ [ev]) \<and> claim_made uk (evs @ [ev]) j" if "Added j b \<in> set (evs @ [ev])" for j b
    using that assms(2) fresh by (auto simp: added(1) told_def claim_more)
  ultimately show ?thesis using assms(2) fresh(1) used unfolding told_def ids by (auto simp: added(2))
next
  case (expired i p)
  show ?thesis by (intro told_other [OF assms(2)]) (auto simp: expired(1,2) expired_sessions added_of_def split: if_splits)
qed (intro told_other [OF assms(2)]; auto simp: added_of_def split: if_splits)+

text \<open>A started sign-in is in progress, or upstream was told it has ended.\<close>

definition on_record :: "login_sys \<Rightarrow> string \<Rightarrow> string \<Rightarrow> bool" where
  "on_record s i state \<longleftrightarrow> state \<in> set (ly_ended s) \<or> (\<exists>p. map_of (ly_sessions s) i = Some p \<and> pl_state p = state)"

definition let_go :: "login_event list \<Rightarrow> login_sys \<Rightarrow> bool" where
  "let_go evs s \<longleftrightarrow> (\<forall>i state ends. Started i state ends \<in> set evs \<longrightarrow> i \<in> set (ly_used s) \<and> i \<notin> set (ly_starting s) \<and> state \<noteq> [] \<and> on_record s i state)"

lemma on_record_freed: "on_record s i state \<Longrightarrow> state \<noteq> [] \<Longrightarrow> on_record (freed j s) i state"
  by (auto simp: on_record_def split: option.split)

lemma on_record_set:
  assumes "on_record s i state" "\<And>p. pl_state (f p) = pl_state p" "ly_sessions t = set_login j f (ly_sessions s)" "ly_ended t = ly_ended s"
  shows "on_record t i state"
proof (cases "state \<in> set (ly_ended s)")
  case False
  then obtain p where "map_of (ly_sessions s) i = Some p" "pl_state p = state" using assms(1) by (auto simp: on_record_def)
  then have "map_of (ly_sessions t) i = Some (if i = j then f p else p)" "pl_state (if i = j then f p else p) = state" using assms(2,3) by auto
  then show ?thesis unfolding on_record_def by blast
qed (simp add: on_record_def assms(4))

lemma let_go_other:
  assumes "let_go evs s" "\<And>i state ends. ev \<noteq> Started i state ends" "set (ly_used s) \<subseteq> set (ly_used t)" "\<And>i. i \<in> set (ly_used s) \<Longrightarrow> i \<in> set (ly_starting t) \<Longrightarrow> i \<in> set (ly_starting s)"
    and "\<And>i state. state \<noteq> [] \<Longrightarrow> i \<in> set (ly_used s) \<Longrightarrow> on_record s i state \<Longrightarrow> on_record t i state"
  shows "let_go (evs @ [ev]) t"
  unfolding let_go_def
proof (intro allI impI)
  fix i state ends
  assume "Started i state ends \<in> set (evs @ [ev])"
  then have "Started i state ends \<in> set evs" using assms(2) [of i state ends] by auto
  then show "i \<in> set (ly_used t) \<and> i \<notin> set (ly_starting t) \<and> state \<noteq> [] \<and> on_record t i state"
    using assms(1,3,4,5) unfolding let_go_def by blast
qed

lemma let_go_step:
  assumes "login_step uk valid_state s ev t" "let_go evs s" "linked s" "keys_ok s" "\<not> valid_state []"
  shows "let_go (evs @ [ev]) t"
  using assms(1)
proof (cases rule: login_step.cases)
  case (reserved i prov ls)
  have new: "i \<notin> fst ` set (ly_sessions s)" using reserved(3) assms(4) by (auto simp: keys_ok_def)
  obtain p where ls: "ls = ly_sessions s @ [(i, p)]"
    using reserved_sessions(1) [OF reserved(4)] update_new [OF new] by metis
  show ?thesis using reserved(3)
    by (intro let_go_other [OF assms(2)]) (auto simp: reserved(1,2) on_record_def ls map_add_def split: option.splits)
next
  case (started i code body url state p)
  have state: "state \<noteq> []" using started(4) assms(5) by (auto simp: read_start_def split: option.splits if_splits)
  have i: "i \<in> set (ly_used s)" using started(5) assms(4) by (auto simp: keys_ok_def dest!: map_of_SomeD)
  have starting: "set (remove1 i (ly_starting s)) = set (ly_starting s) - {i}" using assms(3) by (simp add: linked_def set_remove1_eq)
  have others: "j \<noteq> i" if "Started j st ends \<in> set evs" for j st ends using assms(2) started(3) that by (auto simp: let_go_def)
  show ?thesis
    using assms(2) state i others started(5) by (auto simp: let_go_def started(1,2) starting on_record_def)
next
  case (not_started i code body x ended)
  show ?thesis using on_record_freed [of s _ _ i]
    by (intro let_go_other [OF assms(2)]) (auto simp: not_started(1,2) on_record_def dest: subsetD [OF set_remove1_subset])
next
  case (claimed url cb i ls)
  show ?thesis
    by (intro let_go_other [OF assms(2)]) (auto simp: claimed(1,2) claimed_sessions(2) [OF claimed(4)] on_record_def)
next
  case (delivered i a)
  show ?thesis
    by (intro let_go_other [OF assms(2)]) (auto simp: delivered(1,2) deliver_login_def intro!: on_record_set [of s _ _ "\<lambda>p. if pl_result p = None then p\<lparr>pl_result := Some a\<rparr> else p"])
next
  case (added i cb p a)
  show ?thesis by (intro let_go_other [OF assms(2)]) (auto simp: added(1,2) on_record_def)
next
  case (expired i p)
  show ?thesis using expired(4)
    by (intro let_go_other [OF assms(2)]) (auto simp: expired(1,2) expired_sessions on_record_def)
qed (intro let_go_other [OF assms(2)]; auto simp: on_record_def dest: subsetD [OF set_remove1_subset] intro: on_record_freed [unfolded on_record_def])+

section \<open>Every run\<close>

lemma login_runs_ok:
  assumes "login_runs uk valid_state (no_logins now) evs s"
  shows "keys_ok s \<and> linked s \<and> told uk evs s \<and> (\<not> valid_state [] \<longrightarrow> let_go evs s)"
  using assms
proof (induction "no_logins now" evs s rule: login_runs.induct)
  case none
  show ?case by (simp add: no_logins_def keys_ok_def linked_def told_def let_go_def added_ids_def)
next
  case (more evs t ev u)
  then have h: "keys_ok t" "linked t" "told uk evs t" "\<not> valid_state [] \<Longrightarrow> let_go evs t" by simp_all
  note step = \<open>login_step uk valid_state t ev u\<close>
  show ?case
    using keys_step [OF step h(1)] linked_step [OF step h(2,1)] told_step [OF step h(3,2,1)] let_go_step [OF step h(4) h(2,1)] by simp
qed

text \<open>C11: a sign-in adds its account once, and only its own. However the requests, the timers and upstream's hook interleave, an account is added for a session at most once, it is the
  record upstream's hook delivered for that session, and a call had claimed the session with a URL that carries the state upstream gave it, before it ran out.\<close>

theorem login_adds_once:
  assumes "login_runs uk valid_state (no_logins now) evs s"
  shows "distinct (added_ids evs) \<and> (\<forall>i a. Added i a \<in> set evs \<longrightarrow> Delivered i a \<in> set evs \<and> claim_made uk evs i)"
  using login_runs_ok [OF assms] by (simp add: told_def)

text \<open>C12: at no time are more than eight sign-ins in progress, and none leaves upstream waiting behind: one upstream started is still in progress under its state, or upstream was told it has
  ended, whichever way it did.\<close>

theorem logins_bounded:
  assumes "login_runs uk valid_state (no_logins now) evs s" "\<not> valid_state []"
  shows "length (ly_sessions s) \<le> max_pending_logins
    \<and> (\<forall>i state ends. Started i state ends \<in> set evs \<longrightarrow> state \<in> set (ly_ended s) \<or> (\<exists>p. map_of (ly_sessions s) i = Some p \<and> pl_state p = state))"
  using login_runs_ok [OF assms(1)] assms(2) unfolding keys_ok_def let_go_def on_record_def by blast

section \<open>A sign-in\<close>

definition example_urls :: url_kit where
  "example_urls = \<lparr>uk_parse = (\<lambda>_. Some ((\<lambda>k. if k = ''code'' then ''c'' else if k = ''state'' then ''st'' else []), None))\<rparr>"

definition example_login :: "login_event list" where
  "example_login = [Reserved ''s'' ''claude'', Started ''s'' ''st'' (login_ttl + 1), Claimed ''s'' ''http://localhost?code=c'' 1, HandedOver ''s'',
     Delivered ''s'' (bare_auth None), Added ''s'' (bare_auth None), AddReturned ''s'']"

lemma example_runs: "\<exists>s. login_runs example_urls (\<lambda>st. st \<noteq> []) (no_logins 1) example_login s \<and> ly_sessions s = [] \<and> ly_ended s = [''st'']"
proof -
  let ?v = "\<lambda>st :: string. st \<noteq> []"
  let ?a = "bare_auth None :: auth"
  let ?p = "\<lparr>pl_upstream = ''anthropic'', pl_state = [], pl_expires = login_ttl + 1, pl_claimed = False, pl_result = None\<rparr>"
  let ?cb = "\<lparr>cb_code = ''c'', cb_state = ''st'', cb_error = []\<rparr>"
  let ?u = "''http://localhost?code=c''"
  define s0 where "s0 = no_logins 1"
  define s1 where "s1 = s0\<lparr>ly_sessions := [(''s'', ?p)], ly_used := ''s'' # ly_used s0, ly_starting := ''s'' # ly_starting s0\<rparr>"
  define s2 where "s2 = s1\<lparr>ly_sessions := set_login ''s'' (\<lambda>p. p\<lparr>pl_state := ''st''\<rparr>) (ly_sessions s1), ly_starting := remove1 ''s'' (ly_starting s1)\<rparr>"
  define s3 where "s3 = s2\<lparr>ly_sessions := set_login ''s'' (\<lambda>p. p\<lparr>pl_claimed := True\<rparr>) (ly_sessions s2), ly_calls := (''s'', HandingOver ?cb) # ly_calls s2\<rparr>"
  define s4 where "s4 = s3\<lparr>ly_calls := AList.update ''s'' (Awaiting ?cb) (ly_calls s3)\<rparr>"
  define s5 where "s5 = s4\<lparr>ly_sessions := deliver_login ''s'' ?a (ly_sessions s4)\<rparr>"
  define s6 where "s6 = s5\<lparr>ly_calls := AList.update ''s'' (Adding ?a) (ly_calls s5), ly_sessions := set_login ''s'' (\<lambda>p. p\<lparr>pl_result := None\<rparr>) (ly_sessions s5)\<rparr>"
  note st = s6_def s5_def s4_def s3_def s2_def s1_def s0_def no_logins_def set_login_def deliver_login_def
  have claude: "map_of login_flows ''claude'' = Some ''anthropic''" by code_simp
  have "login_step example_urls ?v s0 (Reserved ''s'' ''claude'') s1" unfolding s1_def
    by (rule reserved) (simp_all add: s0_def no_logins_def reserve_login_def claude max_pending_logins_def)
  from login_runs.more [OF login_runs.none this]
  have r1: "login_runs example_urls ?v s0 [Reserved ''s'' ''claude''] s1" by simp
  have "login_step example_urls ?v s1 (Started ''s'' ''st'' (pl_expires ?p)) s2" unfolding s2_def
    by (rule started [where code = 200 and body = "Some \<lparr>sb_url = ''u'', sb_state = ''st'', sb_error = []\<rparr>" and url = "''u''"]) (simp_all add: st read_start_def)
  note r2 = login_runs.more [OF r1 this]
  have "claim_login 1 ''s'' ?cb (ly_sessions s2) = Inr (set_login ''s'' (\<lambda>p. p\<lparr>pl_claimed := True\<rparr>) (ly_sessions s2))"
    by (simp add: claim_login_def st login_ttl_def)
  moreover have "parse_callback example_urls ?u = Inr ?cb" by code_simp
  moreover have clock: "ly_clock s2 = 1" by (simp add: st)
  ultimately have "login_step example_urls ?v s2 (Claimed ''s'' ?u (ly_clock s2)) s3" unfolding s3_def
    by (intro claimed) simp_all
  note r3 = login_runs.more [OF r2 this]
  have "login_step example_urls ?v s3 (HandedOver ''s'') s4" unfolding s4_def by (rule handed_over) (simp_all add: st)
  note r4 = login_runs.more [OF r3 this]
  have "login_step example_urls ?v s4 (Delivered ''s'' ?a) s5" unfolding s5_def by (rule delivered) (simp_all add: st)
  note r5 = login_runs.more [OF r4 this]
  have "login_step example_urls ?v s5 (Added ''s'' ?a) s6" unfolding s6_def by (rule added [where cb = ?cb and p = "the (map_of (ly_sessions s5) ''s'')"]) (simp_all add: st)
  note r6 = login_runs.more [OF r5 this]
  have "login_step example_urls ?v s6 (AddReturned ''s'') (freed ''s'' s6)" by (rule add_returned [where a = ?a]) (simp add: st)
  from login_runs.more [OF r6 this] show ?thesis
    by (intro exI [of _ "freed ''s'' s6"]) (simp add: example_login_def clock s0_def [symmetric], simp add: st)
qed

lemma login_adds_once_witness: "added_ids example_login = [''s''] \<and> Delivered ''s'' (bare_auth None) \<in> set example_login \<and> claim_made example_urls example_login ''s''"
proof -
  obtain s where "login_runs example_urls (\<lambda>st. st \<noteq> []) (no_logins 1) example_login s" using example_runs by blast
  from login_adds_once [OF this] show ?thesis by (simp add: example_login_def added_ids_def added_of_def)
qed

lemma logins_bounded_witness: "\<exists>s. login_runs example_urls (\<lambda>st. st \<noteq> []) (no_logins 1) example_login s \<and> ly_sessions s = [] \<and> ''st'' \<in> set (ly_ended s)"
proof -
  obtain s where s: "login_runs example_urls (\<lambda>st. st \<noteq> []) (no_logins 1) example_login s" "ly_sessions s = []" using example_runs by blast
  have "Started ''s'' ''st'' (login_ttl + 1) \<in> set example_login" by (simp add: example_login_def)
  then have "''st'' \<in> set (ly_ended s)" using logins_bounded [OF s(1)] s(2) by fastforce
  then show ?thesis using s by blast
qed

end
