(* ===== verification/Spec2Isabelle.thy ===== *)
theory Spec2Isabelle
  imports Operator Oidc Drain Gate Prices WebSessions SinkQueue Cabinet GatewayExample Logins
begin

text \<open>
  llm-proxy-backend is a server that lets the accounts of an organisation reach language-model
  providers through one gateway: it signs people in, hands out API keys, decides which models and
  how much spending each account is allowed, and meters what was used. This library models its
  domain rules, its account services and the repositories under them, and proves what they promise.

  The theories, in the order of the imports:

  \<^item> \<open>Prelude\<close>, \<open>GoStrings\<close>, \<open>Errors\<close>: lists, options, Go's strings, integers and floats, the errors
    the services return (\<open>internal/app/errors.go\<close>, \<open>ports.go\<close>).
  \<^item> \<open>Access\<close>, \<open>SpendRules\<close>, \<open>Identity\<close>, \<open>Base64\<close>: the packages of \<open>internal/domain\<close>.
  \<^item> \<open>World\<close>: the database as a record of tables, the oracles of the outside world, operations as
    \<open>env \<Rightarrow> world \<Rightarrow> result \<times> world\<close>, weakest preconditions, and the locale \<open>evolution\<close> of relations
    every operation moves the database along.
  \<^item> \<open>Repos\<close>, \<open>LimitRepos\<close>: the statements of \<open>internal/infra/postgres\<close> with the constraints of the
    migrations. \<open>Integrity\<close>: the tables stay well-formed under every one of them.
  \<^item> \<open>Tokens\<close>: API keys (\<open>internal/domain/credentials\<close>, \<open>internal/app/tokens\<close>).
  \<^item> \<open>Auth\<close>, \<open>SignIn\<close>: the throttle, passwords and sessions (\<open>internal/app/auth\<close>, \<open>hasher.go\<close>).
  \<^item> \<open>Oidc\<close>: sign-in through an identity provider (\<open>internal/app/auth/oidc.go\<close>).
  \<^item> \<open>Admin\<close>, \<open>AdminSafety\<close>: administration of accounts (\<open>internal/app/adminusers\<close>) and what it promises.
  \<^item> \<open>Recovery\<close>, \<open>Operator\<close>: the first start and the operator's reset (\<open>internal/app/bootstrap.go\<close>,
    \<open>internal/app/recovery\<close>), and the preview of a policy.
\<close>

end
